(* ===== verification/Prelude.thy ===== *)
theory Prelude
  imports Main "HOL-Library.AList" "HOL-Library.Word" "HOL-Library.Sublist"
begin

text \<open>
  Shared vocabulary of the development: the JavaScript string and array operations the
  modelled files use (\<open>split\<close>, \<open>join\<close>, \<open>indexOf\<close>, \<open>startsWith\<close>, \<open>filter(Boolean)\<close>), insertion
  ordered \<open>Map\<close> objects as association lists, bytes and little-endian integers, and the
  generic lemmas the components share.

  A JavaScript string is modelled as a HOL \<^typ>\<open>string\<close> wherever the code only compares
  it with ASCII literals or takes it apart at ASCII separators; where the number of UTF-16
  code units or of UTF-8 bytes matters the component uses its own type.
\<close>

named_theorems path_simps \<comment> \<open>facts about path components and separators\<close>
named_theorems fs_frame \<comment> \<open>what an operation of the file system leaves alone\<close>
named_theorems wire_simps \<comment> \<open>facts about the Wisp byte layout\<close>

type_synonym byte = "8 word"
type_synonym u32 = "32 word"

section \<open>Strings\<close>

text \<open>\<open>s.split(c)\<close> for a one-character separator: always at least one piece.\<close>

fun split_on :: "'a \<Rightarrow> 'a list \<Rightarrow> 'a list list" where
  "split_on c [] = [[]]"
| "split_on c (x # xs) =
     (if x = c then [] # split_on c xs
      else (case split_on c xs of [] \<Rightarrow> [[x]] | y # ys \<Rightarrow> (x # y) # ys))"

text \<open>\<open>xs.join(c)\<close> for a one-character separator.\<close>

fun join_with :: "'a \<Rightarrow> 'a list list \<Rightarrow> 'a list" where
  "join_with c [] = []"
| "join_with c [x] = x"
| "join_with c (x # y # ys) = x @ c # join_with c (y # ys)"

text \<open>\<open>xs.filter(Boolean)\<close> on an array of strings drops the empty ones.\<close>

definition drop_empty :: "'a list list \<Rightarrow> 'a list list" where
  "drop_empty = filter (\<lambda>x. x \<noteq> [])"

definition starts_with :: "'a list \<Rightarrow> 'a list \<Rightarrow> bool" where
  "starts_with s p \<longleftrightarrow> take (length p) s = p"

definition ends_with :: "'a list \<Rightarrow> 'a list \<Rightarrow> bool" where
  "ends_with s p \<longleftrightarrow> length p \<le> length s \<and> drop (length s - length p) s = p"

text \<open>\<open>s.indexOf(c)\<close> and \<open>s.lastIndexOf(c)\<close>, with \<^term>\<open>None\<close> for \<open>-1\<close>.\<close>

fun index_of :: "'a \<Rightarrow> 'a list \<Rightarrow> nat option" where
  "index_of c [] = None"
| "index_of c (x # xs) = (if x = c then Some 0 else map_option Suc (index_of c xs))"

fun last_index_of :: "'a \<Rightarrow> 'a list \<Rightarrow> nat option" where
  "last_index_of c [] = None"
| "last_index_of c (x # xs) =
     (case last_index_of c xs of
        Some i \<Rightarrow> Some (Suc i)
      | None \<Rightarrow> (if x = c then Some 0 else None))"

text \<open>\<open>s.toLowerCase()\<close>, as far as the code compares it with ASCII literals.\<close>

definition lower_char :: "char \<Rightarrow> char" where
  "lower_char c =
     (case index_of c ''ABCDEFGHIJKLMNOPQRSTUVWXYZ'' of
        Some i \<Rightarrow> ''abcdefghijklmnopqrstuvwxyz'' ! i
      | None \<Rightarrow> c)"

definition toLowerCase :: "string \<Rightarrow> string" where
  "toLowerCase = map lower_char"

lemma split_on_not_Nil [simp]: "split_on c xs \<noteq> []"
  by (induction xs) (auto split: list.splits)

lemma split_on_no_sep: "c \<notin> set xs \<Longrightarrow> split_on c xs = [xs]"
  by (induction xs) auto

lemma split_on_pieces: "p \<in> set (split_on c xs) \<Longrightarrow> c \<notin> set p"
proof (induction xs arbitrary: p)
  case (Cons x xs)
  then show ?case
    by (cases "split_on c xs") (auto split: if_splits)
qed simp

lemma split_on_append_sep:
  "c \<notin> set xs \<Longrightarrow> split_on c (xs @ c # ys) = xs # split_on c ys"
  by (induction xs) auto

lemma split_on_join:
  "xs \<noteq> [] \<Longrightarrow> \<forall>x \<in> set xs. c \<notin> set x \<Longrightarrow> split_on c (join_with c xs) = xs"
proof (induction c xs rule: join_with.induct)
  case (3 c x y ys)
  then show ?case by (simp add: split_on_append_sep)
qed (auto simp: split_on_no_sep)

lemma join_split [simp]: "join_with c (split_on c xs) = xs"
proof (induction xs)
  case (Cons x xs)
  obtain y ys where s: "split_on c xs = y # ys"
    using split_on_not_Nil by (cases "split_on c xs") auto
  with Cons show ?case by (cases ys) auto
qed simp

lemma join_with_append:
  "xs \<noteq> [] \<Longrightarrow> ys \<noteq> [] \<Longrightarrow> join_with c (xs @ ys) = join_with c xs @ c # join_with c ys"
proof (induction c xs rule: join_with.induct)
  case (2 c x)
  then show ?case by (cases ys) auto
qed auto

lemma join_with_snoc:
  "join_with c (xs @ [y]) = (if xs = [] then y else join_with c xs @ c # y)"
  by (cases "xs = []") (auto simp: join_with_append)

lemma index_of_None: "index_of c xs = None \<longleftrightarrow> c \<notin> set xs"
  by (induction xs) auto

lemma last_index_of_None: "last_index_of c xs = None \<longleftrightarrow> c \<notin> set xs"
  by (induction xs) (auto split: option.splits)

lemma last_index_of_append_sep:
  "c \<notin> set ys \<Longrightarrow> last_index_of c (xs @ c # ys) = Some (length xs)"
proof (induction xs)
  case Nil
  then have "last_index_of c ys = None" by (simp add: last_index_of_None)
  then show ?case by simp
qed simp

lemma index_of_append_sep:
  "c \<notin> set xs \<Longrightarrow> index_of c (xs @ c # ys) = Some (length xs)"
  by (induction xs) auto

lemma index_of_Some_less: "index_of c xs = Some i \<Longrightarrow> i < length xs \<and> xs ! i = c"
  by (induction xs arbitrary: i) (auto split: if_splits)

lemma starts_with_append [simp]: "starts_with (p @ s) p"
  by (simp add: starts_with_def)

lemma starts_with_iff: "starts_with s p \<longleftrightarrow> (\<exists>r. s = p @ r)"
  by (auto simp: starts_with_def) (metis append_take_drop_id)

lemma ends_with_iff: "ends_with s p \<longleftrightarrow> (\<exists>r. s = r @ p)"
  by (auto simp: ends_with_def) (metis append_take_drop_id)

lemma starts_with_Cons [simp]:
  "starts_with (x # xs) (y # ys) \<longleftrightarrow> x = y \<and> starts_with xs ys"
  by (auto simp: starts_with_def)

lemma starts_with_Nil [simp]: "starts_with xs []" "starts_with [] (y # ys) \<longleftrightarrow> False"
  by (auto simp: starts_with_def)

lemma drop_empty_simps [simp]:
  "drop_empty [] = []"
  "drop_empty (x # xs) = (if x = [] then drop_empty xs else x # drop_empty xs)"
  "drop_empty (xs @ ys) = drop_empty xs @ drop_empty ys"
  by (auto simp: drop_empty_def)

lemma drop_empty_id: "[] \<notin> set xs \<Longrightarrow> drop_empty xs = xs"
  by (induction xs) auto

lemma set_drop_empty [simp]: "set (drop_empty xs) = set xs - {[]}"
  by (auto simp: drop_empty_def)

section \<open>Insertion-ordered maps\<close>

text \<open>
  A JavaScript \<open>Map\<close> (and an object used as one) iterates in insertion order; \<open>set\<close> on a
  present key keeps its place. This is \<^const>\<open>AList.update\<close> on an association list with
  distinct keys, and \<open>delete\<close> is \<^const>\<open>AList.delete\<close>.
\<close>

abbreviation keys :: "('k \<times> 'v) list \<Rightarrow> 'k list" where
  "keys m \<equiv> map fst m"

lemma map_of_AList_update [simp]: "map_of (AList.update k v m) = (map_of m)(k \<mapsto> v)"
  by (rule update_conv')

lemma map_of_AList_delete [simp]: "map_of (AList.delete k m) = (map_of m)(k := None)"
  by (rule delete_conv')

lemma keys_update_new: "k \<notin> set (keys m) \<Longrightarrow> AList.update k v m = m @ [(k, v)]"
  by (induction m) auto

lemma map_of_None_keys: "map_of m k = None \<longleftrightarrow> k \<notin> set (keys m)"
  by (simp add: map_of_eq_None_iff)

lemma map_of_mem_iff: "distinct (keys m) \<Longrightarrow> (k, v) \<in> set m \<longleftrightarrow> map_of m k = Some v"
  by (simp add: map_of_eq_Some_iff)

lemma values_update_subset:
  "snd ` set (AList.update k v m) \<subseteq> insert v (snd ` set m)"
  by (induction m) auto

lemma values_delete_subset: "snd ` set (AList.delete k m) \<subseteq> snd ` set m"
  by (auto simp: AList.delete_eq)

section \<open>Results\<close>

text \<open>
  An operation that can throw returns a sum: \<^const>\<open>Inl\<close> with the error, or \<^const>\<open>Inr\<close>
  with its value. The state it leaves behind is returned beside the result, because an
  exception does not undo the assignments made before it.
\<close>

definition is_ok :: "'e + 'a \<Rightarrow> bool" where
  "is_ok r \<longleftrightarrow> (case r of Inl _ \<Rightarrow> False | Inr _ \<Rightarrow> True)"

lemma is_ok_simps [simp]: "is_ok (Inl e) \<longleftrightarrow> False" "is_ok (Inr v) \<longleftrightarrow> True"
  by (auto simp: is_ok_def)

section \<open>Little-endian integers\<close>

text \<open>\<open>DataView.setUint32(off, v, true)\<close> stores \<open>v\<close> modulo \<open>2^32\<close>, lowest byte first.\<close>

definition le_bytes :: "nat \<Rightarrow> nat \<Rightarrow> byte list" where
  "le_bytes n v = map (\<lambda>i. of_nat (v div 256 ^ i)) [0..<n]"

fun le_value :: "byte list \<Rightarrow> nat" where
  "le_value [] = 0"
| "le_value (b # bs) = unat b + 256 * le_value bs"

lemma length_le_bytes [simp]: "length (le_bytes n v) = n"
  by (simp add: le_bytes_def)

lemma le_bytes_Suc: "le_bytes (Suc n) v = of_nat v # le_bytes n (v div 256)"
proof -
  have "map (\<lambda>i. of_nat (v div 256 ^ i) :: byte) [0..<Suc n]
      = of_nat v # map (\<lambda>i. of_nat (v div 256 ^ Suc i)) [0..<n]"
    by (simp add: map_upt_Suc del: upt_Suc)
  then show ?thesis by (simp add: le_bytes_def div_mult2_eq)
qed

lemma le_bytes_0 [simp]: "le_bytes 0 v = []"
  by (simp add: le_bytes_def)

lemma unat_byte_of_nat: "unat (of_nat v :: byte) = v mod 256"
  by (simp add: unat_of_nat)

lemma le_value_bytes [wire_simps]: "le_value (le_bytes n v) = v mod 256 ^ n"
proof (induction n arbitrary: v)
  case (Suc n)
  have "v mod 256 ^ Suc n = v mod 256 + 256 * (v div 256 mod 256 ^ n)"
    by (metis add.commute mod_mult2_eq power_Suc)
  with Suc show ?case by (simp add: le_bytes_Suc unat_byte_of_nat)
qed simp

lemma le_value_bound: "le_value bs < 256 ^ length bs"
proof (induction bs)
  case (Cons b bs)
  have "unat b < 256" using unsigned_less [of b] by simp
  with Cons show ?case by simp
qed simp

lemma le_bytes_value [wire_simps]: "le_bytes (length bs) (le_value bs) = bs"
proof (induction bs)
  case (Cons b bs)
  have b: "unat b < 256" using unsigned_less [of b] by simp
  have "of_nat (unat b + 256 * le_value bs) = b + 256 * of_nat (le_value bs)"
    by simp
  also have "(256 :: byte) = 0" by simp
  finally have h: "of_nat (unat b + 256 * le_value bs) = b" by simp
  from b have "(unat b + 256 * le_value bs) div 256 = le_value bs" by simp
  with h Cons show ?case by (simp add: le_bytes_Suc)
qed simp

end
