(* ===== verification/Fs_Path.thy ===== *)
theory Fs_Path
  imports Prelude
begin

text \<open>
  Paths. \<open>napi-bridge/memfs.js\<close> has the canonical normaliser every subsystem shares
  (\<open>normalizePath\<close>, \<open>resolvePath\<close>, \<open>parentAndName\<close>); \<open>napi-bridge/browser-builtins.js\<close> has
  the \<open>path\<close> builtin (\<open>pathBridge\<close>). The lemmas relate both to the list of components of a
  path, which is what the file system walks.
\<close>

section \<open>The normaliser of the in-memory file system\<close>

abbreviation slash :: char where "slash \<equiv> CHR ''/''"

text \<open>\<open>p.split('/').filter(Boolean)\<close>\<close>

definition path_parts :: "string \<Rightarrow> string list" where
  "path_parts p = drop_empty (split_on slash p)"

text \<open>The body of the loop: \<open>result\<close> is the array, \<open>pop\<close> on an empty one does nothing.\<close>

definition norm_step :: "string list \<Rightarrow> string \<Rightarrow> string list" where
  "norm_step result part =
     (if part = ''..'' then (if result \<noteq> [] then butlast result else result)
      else if part \<noteq> ''.'' then result @ [part]
      else result)"

definition norm_parts :: "string list \<Rightarrow> string list" where
  "norm_parts parts = foldl norm_step [] parts"

definition normalizePath :: "string \<Rightarrow> string" where
  "normalizePath p =
     (if p = [] then ''/'' else slash # join_with slash (norm_parts (path_parts p)))"

text \<open>\<open>(cwd || '/').replace(/\/$/, '')\<close> removes one trailing slash.\<close>

definition strip_trailing_slash :: "string \<Rightarrow> string" where
  "strip_trailing_slash s = (if s \<noteq> [] \<and> last s = slash then butlast s else s)"

definition resolvePath :: "string \<Rightarrow> string \<Rightarrow> string" where
  "resolvePath p cwd =
     (let cwd' = (if cwd = [] then ''/'' else cwd) in
      if p = [] then normalizePath cwd'
      else if starts_with p ''/'' then normalizePath p
      else normalizePath (strip_trailing_slash cwd' @ ''/'' @ p))"

text \<open>\<open>parentAndName\<close>: the parent is \<^term>\<open>None\<close> (null) for the root itself.\<close>

definition parentAndName :: "string \<Rightarrow> string option \<times> string" where
  "parentAndName p =
     (let norm = normalizePath p in
      if norm = ''/'' then (None, '''')
      else (case last_index_of slash norm of
              None \<Rightarrow> (Some ''/'', norm)
            | Some idx \<Rightarrow>
                let parentPath = take idx norm
                in (Some (if parentPath = [] then ''/'' else parentPath), drop (Suc idx) norm)))"

section \<open>Canonical paths\<close>

text \<open>
  A component a directory can really hold: not empty, no separator, neither \<open>.\<close> nor \<open>..\<close>.
  A canonical path is the rendering of a list of such components.
\<close>

definition plain_name :: "string \<Rightarrow> bool" where
  "plain_name n \<longleftrightarrow> n \<noteq> [] \<and> slash \<notin> set n \<and> n \<noteq> ''.'' \<and> n \<noteq> ''..''"

definition render_path :: "string list \<Rightarrow> string" where
  "render_path ns = slash # join_with slash ns"

definition canonical_path :: "string \<Rightarrow> bool" where
  "canonical_path p \<longleftrightarrow> (\<exists>ns. list_all plain_name ns \<and> p = render_path ns)"

lemma path_parts_plain: "x \<in> set (path_parts p) \<Longrightarrow> x \<noteq> [] \<and> slash \<notin> set x"
  by (auto simp: path_parts_def dest: split_on_pieces)

lemma path_parts_Nil [simp, path_simps]: "path_parts [] = []"
  by (simp add: path_parts_def)

lemma path_parts_slash [simp, path_simps]: "path_parts (slash # p) = path_parts p"
  by (simp add: path_parts_def)

lemma path_parts_join:
  assumes "list_all (\<lambda>n. n \<noteq> [] \<and> slash \<notin> set n) ns"
  shows "path_parts (join_with slash ns) = ns"
proof (cases "ns = []")
  case False
  with assms have "split_on slash (join_with slash ns) = ns"
    by (intro split_on_join) (auto simp: list_all_iff)
  with assms show ?thesis
    by (auto simp: path_parts_def list_all_iff intro!: drop_empty_id)
qed simp

lemma path_parts_render [simp, path_simps]:
  "list_all plain_name ns \<Longrightarrow> path_parts (render_path ns) = ns"
  by (simp add: render_path_def)
    (rule path_parts_join, auto simp: list_all_iff plain_name_def)

lemma path_parts_append_slash:
  "path_parts (xs @ slash # ys) = path_parts xs @ path_parts ys"
proof (induction "length xs" arbitrary: xs rule: less_induct)
  case less
  show ?case
  proof (cases "slash \<in> set xs")
    case False
    then show ?thesis
      by (simp add: path_parts_def split_on_append_sep split_on_no_sep)
  next
    case True
    then obtain as bs where xs: "xs = as @ slash # bs" and as: "slash \<notin> set as"
      by (metis split_list_first)
    then have "path_parts (bs @ slash # ys) = path_parts bs @ path_parts ys"
      by (intro less) auto
    with xs as show ?thesis
      by (simp add: path_parts_def split_on_append_sep)
  qed
qed

lemma norm_step_plain [simp]: "plain_name n \<Longrightarrow> norm_step ns n = ns @ [n]"
  by (auto simp: norm_step_def plain_name_def)

lemma foldl_norm_plain:
  "list_all plain_name ns \<Longrightarrow> foldl norm_step acc ns = acc @ ns"
  by (induction ns arbitrary: acc) auto

lemma norm_parts_plain [simp]: "list_all plain_name ns \<Longrightarrow> norm_parts ns = ns"
  by (simp add: norm_parts_def foldl_norm_plain)

lemma foldl_norm_step_plain:
  assumes "list_all plain_name acc" and "list_all (\<lambda>n. n \<noteq> [] \<and> slash \<notin> set n) ns"
  shows "list_all plain_name (foldl norm_step acc ns)"
  using assms
proof (induction ns arbitrary: acc)
  case (Cons n ns)
  have "list_all plain_name (butlast acc)"
    using Cons.prems(1) by (simp add: list_all_iff) (meson in_set_butlastD)
  moreover have "n \<noteq> ''.'' \<Longrightarrow> n \<noteq> ''..'' \<Longrightarrow> plain_name n"
    using Cons.prems(2) by (simp add: plain_name_def)
  ultimately have "list_all plain_name (norm_step acc n)"
    using Cons.prems(1) by (simp add: norm_step_def)
  with Cons show ?case by simp
qed simp

lemma norm_parts_are_plain [intro]:
  "list_all (\<lambda>n. n \<noteq> [] \<and> slash \<notin> set n) ns \<Longrightarrow> list_all plain_name (norm_parts ns)"
  by (simp add: norm_parts_def foldl_norm_step_plain)

lemma norm_parts_path_parts [simp, intro]: "list_all plain_name (norm_parts (path_parts p))"
  by (rule norm_parts_are_plain) (auto simp: list_all_iff dest: path_parts_plain)

text \<open>Every path normalises to the rendering of its surviving components.\<close>

lemma normalizePath_render: "normalizePath p = render_path (norm_parts (path_parts p))"
  by (simp add: normalizePath_def render_path_def norm_parts_def)

lemma path_parts_normalize [simp, path_simps]:
  "path_parts (normalizePath p) = norm_parts (path_parts p)"
  by (simp add: normalizePath_render)

lemma canonical_render [intro, simp]:
  "list_all plain_name ns \<Longrightarrow> canonical_path (render_path ns)"
  by (auto simp: canonical_path_def)

lemma normalize_canonical_id: "canonical_path p \<Longrightarrow> normalizePath p = p"
  by (auto simp: canonical_path_def normalizePath_render)

lemma normalizePath_idem [simp, path_simps]:
  "normalizePath (normalizePath p) = normalizePath p"
  by (rule normalize_canonical_id) (simp add: normalizePath_render canonical_render)

lemma render_path_inject [simp]:
  "list_all plain_name ns \<Longrightarrow> list_all plain_name ms \<Longrightarrow>
     render_path ns = render_path ms \<longleftrightarrow> ns = ms"
  by (metis path_parts_render)

lemma render_path_root [simp]: "render_path [] = ''/''"
  by (simp add: render_path_def)

lemma render_eq_root_iff [simp]:
  "list_all plain_name ns \<Longrightarrow> render_path ns = ''/'' \<longleftrightarrow> ns = []"
  using render_path_inject [of ns "[]"] by simp

lemma normalize_root_iff: "normalizePath p = ''/'' \<longleftrightarrow> norm_parts (path_parts p) = []"
  by (simp add: normalizePath_render)

lemma last_slash_render:
  assumes "plain_name n"
  shows "last_index_of slash (render_path (ns @ [n])) =
           Some (if ns = [] then 0 else length (render_path ns))"
proof (cases "ns = []")
  case True
  with assms show ?thesis
    using last_index_of_append_sep [of slash n "[]"] by (simp add: render_path_def plain_name_def)
next
  case False
  then have "render_path (ns @ [n]) = render_path ns @ slash # n"
    by (simp add: render_path_def join_with_snoc)
  with assms False show ?thesis
    by (simp add: last_index_of_append_sep plain_name_def)
qed

text \<open>\<open>parentAndName\<close> splits off the last component.\<close>

lemma parentAndName_snoc:
  assumes "norm_parts (path_parts p) = ns @ [n]"
  shows "parentAndName p = (Some (render_path ns), n)"
proof -
  have pl: "list_all plain_name (ns @ [n])"
    using norm_parts_path_parts [of p] assms by simp
  then have n: "plain_name n" and ns: "list_all plain_name ns" by simp_all
  have norm: "normalizePath p = render_path (ns @ [n])"
    by (simp add: normalizePath_render assms)
  moreover have "normalizePath p \<noteq> ''/''"
    using pl norm by simp
  moreover have "render_path (ns @ [n]) = (if ns = [] then slash # n else render_path ns @ slash # n)"
    by (simp add: render_path_def join_with_snoc)
  ultimately show ?thesis
    using last_slash_render [OF n, of ns]
    by (auto simp: parentAndName_def Let_def render_path_def)
qed

lemma parentAndName_root:
  "norm_parts (path_parts p) = [] \<Longrightarrow> parentAndName p = (None, '''')"
  by (simp add: parentAndName_def normalize_root_iff)

lemma resolvePath_canonical: "canonical_path (resolvePath p cwd)"
  by (auto simp: resolvePath_def Let_def normalizePath_render)

end
