(* ===== verification/Memfs.thy ===== *)
theory Memfs
  imports Fs_Path
begin

text \<open>
  The in-memory file system of \<open>napi-bridge/memfs.js\<close>: errors, content hash, inodes in an
  explicit store (open descriptors and directories share them), the mutation journal with its
  watermark, and every operation of the class \<open>MEMFS\<close>. An inode is addressed by the counter
  value it was created with; the root, made before the counter is set, has address 0.
\<close>

section \<open>Errors\<close>

datatype errcode = ENOENT | EISDIR | ENOTDIR | EEXIST | EACCES | EBADF | EPERM | ENOTEMPTY

fun errno_of :: "errcode \<Rightarrow> int" where
  "errno_of ENOENT = -2"
| "errno_of EISDIR = -21"
| "errno_of ENOTDIR = -20"
| "errno_of EEXIST = -17"
| "errno_of EACCES = -13"
| "errno_of EBADF = -9"
| "errno_of EPERM = -1"
| "errno_of ENOTEMPTY = -39"

fun err_msg :: "errcode \<Rightarrow> string" where
  "err_msg ENOENT = ''no such file or directory''"
| "err_msg EISDIR = ''illegal operation on a directory''"
| "err_msg ENOTDIR = ''not a directory''"
| "err_msg EEXIST = ''file already exists''"
| "err_msg EACCES = ''permission denied''"
| "err_msg EBADF = ''bad file descriptor''"
| "err_msg EPERM = ''operation not permitted''"
| "err_msg ENOTEMPTY = ''directory not empty''"

fun code_name :: "errcode \<Rightarrow> string" where
  "code_name ENOENT = ''ENOENT''"
| "code_name EISDIR = ''EISDIR''"
| "code_name ENOTDIR = ''ENOTDIR''"
| "code_name EEXIST = ''EEXIST''"
| "code_name EACCES = ''EACCES''"
| "code_name EBADF = ''EBADF''"
| "code_name EPERM = ''EPERM''"
| "code_name ENOTEMPTY = ''ENOTEMPTY''"

abbreviation quote :: char where "quote \<equiv> CHR 0x27"

record fs_error =
  e_code :: errcode
  e_errno :: int
  e_syscall :: string
  e_path :: string
  e_message :: string

definition createFsError :: "errcode \<Rightarrow> string \<Rightarrow> string \<Rightarrow> fs_error" where
  "createFsError code syscall path =
     \<lparr>e_code = code, e_errno = errno_of code, e_syscall = syscall, e_path = path,
      e_message = code_name code @ '': '' @ err_msg code @ '', '' @ syscall @ '' '' @
        quote # path @ [quote]\<rparr>"

text \<open>What an operation can throw: its own errors, or an engine \<open>TypeError\<close>/\<open>RangeError\<close>.\<close>

datatype js_exn = FsExn fs_error | TypeExn | RangeExn

abbreviation fs_throw :: "errcode \<Rightarrow> string \<Rightarrow> string \<Rightarrow> js_exn + 'a" where
  "fs_throw code syscall path \<equiv> Inl (FsExn (createFsError code syscall path))"

section \<open>The content hash\<close>

text \<open>
  \<open>hash ^= data[i]\<close> works on 32-bit two's complement values; the product
  \<open>hash * 0x01000193\<close> is an IEEE double, rounded to 53 significant bits, ties to even,
  before \<open>>>> 0\<close> takes it modulo \<open>2^32\<close>.
\<close>

fun bit_count :: "nat \<Rightarrow> nat" where
  "bit_count n = (if n = 0 then 0 else Suc (bit_count (n div 2)))"

declare bit_count.simps [simp del]

definition round_even :: "nat \<Rightarrow> nat \<Rightarrow> nat" where
  "round_even e n =
     (let q = n div 2 ^ e; r = n mod 2 ^ e in
      if 2 ^ e < 2 * r \<or> (2 ^ e = 2 * r \<and> odd q) then (q + 1) * 2 ^ e else q * 2 ^ e)"

definition to_double :: "int \<Rightarrow> int" where
  "to_double x = sgn x * int (round_even (bit_count (nat \<bar>x\<bar>) - 53) (nat \<bar>x\<bar>))"

definition fnv_step :: "int \<Rightarrow> byte \<Rightarrow> int" where
  "fnv_step hash b =
     (let h = sint (xor (word_of_int hash :: 32 word) (ucast b))
      in to_double (h * 16777619) mod 2 ^ 32)"

definition fnv1a :: "byte list \<Rightarrow> int" where
  "fnv1a data = foldl fnv_step 2166136261 data"

section \<open>State\<close>

datatype ftype = FileT | DirT

text \<open>A JavaScript number that may be \<open>NaN\<close>: \<^term>\<open>None\<close>.\<close>

type_synonym jsnum = "nat option"

record inode =
  i_type :: ftype
  i_content :: "byte list option"
  i_children :: "(string \<times> nat) list option"
  i_ino :: jsnum
  i_version :: nat
  i_hash :: int
  i_atime :: int
  i_mtime :: int
  i_ctime :: int

record fd_entry =
  fd_inode :: nat
  fd_position :: nat
  fd_path :: string
  fd_dirty :: bool
  fd_capacity :: nat

text \<open>The optional fields an operation passes to \<open>_emit\<close> as \<open>extra\<close>.\<close>

record jextra =
  x_kind :: "string option"
  x_txid :: "nat option"
  x_ino :: "jsnum option"
  x_version :: "nat option"
  x_oldHash :: "int option"
  x_newHash :: "int option"
  x_size :: "nat option"
  x_newPath :: "string option"

definition no_extra :: jextra where
  "no_extra = \<lparr>x_kind = None, x_txid = None, x_ino = None, x_version = None, x_oldHash = None,
     x_newHash = None, x_size = None, x_newPath = None\<rparr>"

record jrecord =
  j_seq :: nat
  j_op :: string
  j_path :: string
  j_timestamp :: int
  j_kind :: string
  j_txid :: nat
  j_parentSeq :: nat
  j_extra :: jextra

text \<open>
  \<open>fs_clock\<close> is the sequence of values \<open>Date.now()\<close> returns and \<open>fs_ticks\<close> how many were
  read. \<open>fs_delivered\<close> logs the notifications of listeners, newest last; a listener
  observes and does not call back into the file system.
\<close>

record fs =
  fs_heap :: "nat \<Rightarrow> inode option"
  fs_inoCounter :: nat
  fs_fdTable :: "nat \<Rightarrow> fd_entry option"
  fs_nextFd :: nat
  fs_seq :: nat
  fs_journal :: "jrecord list"
  fs_maxJournal :: nat
  fs_journalStartSeq :: nat
  fs_listeners :: "nat list"
  fs_txid :: nat
  fs_activeTx :: "nat option"
  fs_clock :: "nat \<Rightarrow> int"
  fs_ticks :: nat
  fs_delivered :: "(nat \<times> jrecord) list"

definition date_now :: "fs \<Rightarrow> int \<times> fs" where
  "date_now s = (fs_clock s (fs_ticks s), s\<lparr>fs_ticks := Suc (fs_ticks s)\<rparr>)"

definition empty_children :: "ftype \<Rightarrow> (string \<times> nat) list option" where
  "empty_children ty = (if ty = DirT then Some [] else None)"

text \<open>\<open>_makeInode(type, content)\<close>: the address of the new inode is the counter it took.\<close>

definition makeInode :: "ftype \<Rightarrow> byte list option \<Rightarrow> fs \<Rightarrow> nat \<times> fs" where
  "makeInode ty content s =
     (let (now, s1) = date_now s;
          a = fs_inoCounter s1;
          nd = \<lparr>i_type = ty, i_content = content, i_children = empty_children ty,
                i_ino = Some a, i_version = 1,
                i_hash = (case content of Some c \<Rightarrow> fnv1a c | None \<Rightarrow> 0),
                i_atime = now, i_mtime = now, i_ctime = now\<rparr>
      in (a, s1\<lparr>fs_inoCounter := Suc a, fs_heap := (fs_heap s1)(a \<mapsto> nd)\<rparr>))"

text \<open>
  The constructor makes the root before it assigns \<open>_inoCounter\<close>: \<open>undefined++\<close> is
  \<open>NaN\<close>, so the root's \<open>ino\<close> is \<open>NaN\<close>, and the counter starts at 1 afterwards.
\<close>

definition new_memfs :: "(nat \<Rightarrow> int) \<Rightarrow> fs" where
  "new_memfs clk =
     \<lparr>fs_heap = [0 \<mapsto> \<lparr>i_type = DirT, i_content = None, i_children = Some [], i_ino = None,
                       i_version = 1, i_hash = 0, i_atime = clk 0, i_mtime = clk 0,
                       i_ctime = clk 0\<rparr>],
      fs_inoCounter = 1, fs_fdTable = Map.empty, fs_nextFd = 3, fs_seq = 0, fs_journal = [],
      fs_maxJournal = 10000, fs_journalStartSeq = 0, fs_listeners = [], fs_txid = 0,
      fs_activeTx = None, fs_clock = clk, fs_ticks = 1, fs_delivered = []\<rparr>"

abbreviation (input) root_addr :: nat where "root_addr \<equiv> 0"

section \<open>The journal\<close>

definition emit :: "string \<Rightarrow> string \<Rightarrow> jextra \<Rightarrow> fs \<Rightarrow> fs" where
  "emit op path extra s =
     (let s1 = s\<lparr>fs_seq := Suc (fs_seq s)\<rparr>;
          (ts, s2) = date_now s1;
          rec = \<lparr>j_seq = fs_seq s2, j_op = op, j_path = path, j_timestamp = ts,
                 j_kind = (case x_kind extra of Some k \<Rightarrow> k | None \<Rightarrow> op),
                 j_txid = (case x_txid extra of Some t \<Rightarrow> t
                           | None \<Rightarrow> (case fs_activeTx s2 of Some t \<Rightarrow> t | None \<Rightarrow> 0)),
                 j_parentSeq = fs_seq s2 - 1, j_extra = extra\<rparr>;
          j = fs_journal s2 @ [rec];
          cutCount = length j - fs_maxJournal s2 * 3 div 4;
          s3 = (if length j > fs_maxJournal s2
                then s2\<lparr>fs_journalStartSeq := j_seq (j ! (cutCount - 1)),
                        fs_journal := drop cutCount j\<rparr>
                else s2\<lparr>fs_journal := j\<rparr>)
      in s3\<lparr>fs_delivered := fs_delivered s3 @ map (\<lambda>l. (l, rec)) (fs_listeners s3)\<rparr>)"

record journal_reply =
  r_gap :: bool
  r_gapFrom :: nat
  r_gapTo :: nat
  r_entries :: "jrecord list"

text \<open>\<open>findIndex(r => r.seq > seq)\<close> and \<open>slice(idx)\<close>: the journal from the first later record.\<close>

definition getJournalSince :: "nat \<Rightarrow> fs \<Rightarrow> journal_reply" where
  "getJournalSince sq s =
     (if 0 < sq \<and> sq < fs_journalStartSeq s
      then \<lparr>r_gap = True, r_gapFrom = sq, r_gapTo = fs_journalStartSeq s, r_entries = fs_journal s\<rparr>
      else \<lparr>r_gap = False, r_gapFrom = 0, r_gapTo = 0,
            r_entries = dropWhile (\<lambda>r. \<not> sq < j_seq r) (fs_journal s)\<rparr>)"

definition onMutation :: "nat \<Rightarrow> fs \<Rightarrow> fs" where
  "onMutation l s = s\<lparr>fs_listeners := (if l \<in> set (fs_listeners s) then fs_listeners s
                                     else fs_listeners s @ [l])\<rparr>"

definition unsubscribe :: "nat \<Rightarrow> fs \<Rightarrow> fs" where
  "unsubscribe l s = s\<lparr>fs_listeners := filter (\<lambda>x. x \<noteq> l) (fs_listeners s)\<rparr>"

definition beginTx :: "fs \<Rightarrow> nat \<times> fs" where
  "beginTx s = (Suc (fs_txid s), s\<lparr>fs_txid := Suc (fs_txid s), fs_activeTx := Some (Suc (fs_txid s))\<rparr>)"

definition commitTx :: "fs \<Rightarrow> fs" where
  "commitTx s =
     (case fs_activeTx s of
        None \<Rightarrow> s
      | Some t \<Rightarrow> emit ''commitTx'' '''' (no_extra\<lparr>x_kind := Some ''commitTx'', x_txid := Some t\<rparr>)
                   (s\<lparr>fs_activeTx := None\<rparr>))"

section \<open>Path resolution\<close>

text \<open>The children of an address when it is a directory.\<close>

definition dir_of :: "fs \<Rightarrow> nat \<Rightarrow> (string \<times> nat) list option" where
  "dir_of s a = (case fs_heap s a of
                   Some nd \<Rightarrow> if i_type nd = DirT then i_children nd else None
                 | None \<Rightarrow> None)"

fun walk_from :: "fs \<Rightarrow> nat option \<Rightarrow> string list \<Rightarrow> nat option" where
  "walk_from s current [] = current"
| "walk_from s current (part # parts) =
     (case current of
        None \<Rightarrow> None
      | Some a \<Rightarrow> (case dir_of s a of
                    None \<Rightarrow> None
                  | Some m \<Rightarrow> walk_from s (map_of m part) parts))"

definition resolve :: "string \<Rightarrow> fs \<Rightarrow> nat option" where
  "resolve p s =
     (let norm = normalizePath p in
      if norm = ''/'' then Some root_addr
      else walk_from s (Some root_addr) (path_parts norm))"

text \<open>\<open>parent === null ? this._root : this._resolve(parent)\<close>\<close>

definition resolve_parent :: "string option \<Rightarrow> fs \<Rightarrow> nat option" where
  "resolve_parent parent s =
     (case parent of None \<Rightarrow> Some root_addr | Some p \<Rightarrow> resolve p s)"

definition upd_inode :: "nat \<Rightarrow> (inode \<Rightarrow> inode) \<Rightarrow> fs \<Rightarrow> fs" where
  "upd_inode a f s =
     (case fs_heap s a of None \<Rightarrow> s | Some nd \<Rightarrow> s\<lparr>fs_heap := (fs_heap s)(a \<mapsto> f nd)\<rparr>)"

definition set_child :: "nat \<Rightarrow> string \<Rightarrow> nat \<Rightarrow> fs \<Rightarrow> fs" where
  "set_child a name c =
     upd_inode a (\<lambda>nd. nd\<lparr>i_children := map_option (AList.update name c) (i_children nd)\<rparr>)"

definition del_child :: "nat \<Rightarrow> string \<Rightarrow> fs \<Rightarrow> fs" where
  "del_child a name =
     upd_inode a (\<lambda>nd. nd\<lparr>i_children := map_option (AList.delete name) (i_children nd)\<rparr>)"

definition touch_atime :: "nat \<Rightarrow> fs \<Rightarrow> fs" where
  "touch_atime a s = (let (now, s1) = date_now s in upd_inode a (\<lambda>nd. nd\<lparr>i_atime := now\<rparr>) s1)"

section \<open>Metadata\<close>

record stats =
  st_dev :: nat
  st_ino :: jsnum
  st_mode :: nat
  st_nlink :: nat
  st_uid :: nat
  st_gid :: nat
  st_size :: nat
  st_atime :: int
  st_mtime :: int
  st_ctime :: int
  st_birthtime :: int
  st_blksize :: nat
  st_blocks :: nat
  st_type :: ftype

text \<open>\<open>0o100644\<close> is 33188 and \<open>0o040755\<close> is 16877; \<open>blocks\<close> is \<open>Math.ceil(size / 512)\<close>.\<close>

definition mk_stats :: "inode \<Rightarrow> stats" where
  "mk_stats nd =
     (let isFile = (i_type nd = FileT);
          size = (if isFile then (case i_content nd of Some c \<Rightarrow> length c | None \<Rightarrow> 0) else 0)
      in \<lparr>st_dev = 1, st_ino = i_ino nd, st_mode = (if isFile then 33188 else 16877), st_nlink = 1,
          st_uid = 0, st_gid = 0, st_size = size, st_atime = i_atime nd, st_mtime = i_mtime nd,
          st_ctime = i_ctime nd, st_birthtime = i_ctime nd, st_blksize = 4096,
          st_blocks = (size + 511) div 512, st_type = i_type nd\<rparr>)"

definition stats_isFile :: "stats \<Rightarrow> bool" where
  "stats_isFile st \<longleftrightarrow> st_type st = FileT"

definition stats_isDirectory :: "stats \<Rightarrow> bool" where
  "stats_isDirectory st \<longleftrightarrow> st_type st = DirT"

definition stat :: "string \<Rightarrow> fs \<Rightarrow> (js_exn + stats) \<times> fs" where
  "stat p s =
     (case resolve p s of
        None \<Rightarrow> (fs_throw ENOENT ''stat'' p, s)
      | Some a \<Rightarrow>
          let s1 = touch_atime a s
          in (case fs_heap s1 a of Some nd \<Rightarrow> (Inr (mk_stats nd), s1) | None \<Rightarrow> (Inl TypeExn, s1)))"

definition exists_path :: "string \<Rightarrow> fs \<Rightarrow> bool" where
  "exists_path p s \<longleftrightarrow> resolve p s \<noteq> None"

definition access :: "string \<Rightarrow> fs \<Rightarrow> js_exn + unit" where
  "access p s = (if resolve p s = None then fs_throw ENOENT ''access'' p else Inr ())"

definition realpath :: "string \<Rightarrow> fs \<Rightarrow> js_exn + string" where
  "realpath p s =
     (let norm = normalizePath p in
      if resolve norm s = None then fs_throw ENOENT ''realpath'' norm else Inr norm)"

section \<open>Directories and files\<close>

text \<open>
  \<open>dir_of s a = None\<close> is the code's \<open>inode.type !== 'dir'\<close>: only \<open>_makeInode\<close> sets the type
  and the children map, and it gives a map to directories exactly.
\<close>

definition ino_extra :: "nat \<Rightarrow> fs \<Rightarrow> string \<Rightarrow> jextra" where
  "ino_extra a s kind =
     no_extra\<lparr>x_kind := Some kind, x_ino := map_option i_ino (fs_heap s a)\<rparr>"

text \<open>
  \<open>mkdir(p, true)\<close>: the loop over the components, with the directory reached and the path
  built so far. A missing component is created and is the next directory.
\<close>

fun mkdir_loop :: "string \<Rightarrow> string list \<Rightarrow> nat \<Rightarrow> string \<Rightarrow> fs \<Rightarrow> (js_exn + unit) \<times> fs" where
  "mkdir_loop norm [] current builtPath s = (Inr (), s)"
| "mkdir_loop norm (part # parts) current builtPath s =
     (case dir_of s current of
        None \<Rightarrow> (Inl TypeExn, s)
      | Some m \<Rightarrow>
          let built = builtPath @ slash # part;
              (nxt, s') =
                (case map_of m part of
                   Some c \<Rightarrow> (c, s)
                 | None \<Rightarrow>
                     let (c, s1) = makeInode DirT None s;
                         s2 = set_child current part c s1
                     in (c, emit ''mkdir'' built (ino_extra c s2 ''mkdir'') s2))
          in if dir_of s' nxt = None then (fs_throw ENOTDIR ''mkdir'' norm, s')
             else mkdir_loop norm parts nxt built s')"

definition mkdir :: "string \<Rightarrow> bool \<Rightarrow> fs \<Rightarrow> (js_exn + unit) \<times> fs" where
  "mkdir p recursive s =
     (let norm = normalizePath p in
      if recursive then mkdir_loop norm (path_parts norm) root_addr [] s
      else
        let (parent, name) = parentAndName norm in
        case resolve_parent parent s of
          None \<Rightarrow> (fs_throw ENOENT ''mkdir'' norm, s)
        | Some pa \<Rightarrow>
            (case dir_of s pa of
               None \<Rightarrow> (fs_throw ENOENT ''mkdir'' norm, s)
             | Some m \<Rightarrow>
                 if map_of m name \<noteq> None then (fs_throw EEXIST ''mkdir'' norm, s)
                 else
                   let (c, s1) = makeInode DirT None s;
                       s2 = set_child pa name c s1
                   in (Inr (), emit ''mkdir'' norm (ino_extra c s2 ''mkdir'') s2)))"

definition readFile :: "string \<Rightarrow> fs \<Rightarrow> (js_exn + byte list) \<times> fs" where
  "readFile p s =
     (case resolve p s of
        None \<Rightarrow> (fs_throw ENOENT ''open'' p, s)
      | Some a \<Rightarrow>
          if dir_of s a \<noteq> None then (fs_throw EISDIR ''read'' p, s)
          else
            let s1 = touch_atime a s
            in (case fs_heap s1 a of
                  Some nd \<Rightarrow> (case i_content nd of Some c \<Rightarrow> (Inr c, s1) | None \<Rightarrow> (Inl TypeExn, s1))
                | None \<Rightarrow> (Inl TypeExn, s1)))"

text \<open>
  \<open>writeFile(p, data)\<close> once the data is a byte array (a string is encoded as UTF-8 first).
  The content is replaced in the existing inode, so open descriptors see it.
\<close>

definition write_existing :: "string \<Rightarrow> nat \<Rightarrow> byte list \<Rightarrow> fs \<Rightarrow> fs" where
  "write_existing norm a data s =
     (case fs_heap s a of
        None \<Rightarrow> s
      | Some nd \<Rightarrow>
          let hash = fnv1a data;
              (now, s1) = date_now s;
              s2 = upd_inode a (\<lambda>n. n\<lparr>i_content := Some data, i_hash := hash,
                                      i_version := Suc (i_version n), i_mtime := now,
                                      i_ctime := now\<rparr>) s1
          in emit ''writeFile'' norm
               (no_extra\<lparr>x_kind := Some ''write'', x_ino := Some (i_ino nd),
                         x_version := Some (Suc (i_version nd)), x_oldHash := Some (i_hash nd),
                         x_newHash := Some hash, x_size := Some (length data)\<rparr>) s2)"

definition write_new :: "string \<Rightarrow> nat \<Rightarrow> string \<Rightarrow> byte list \<Rightarrow> fs \<Rightarrow> fs" where
  "write_new norm pa name data s =
     (let (c, s1) = makeInode FileT (Some data) s;
          s2 = set_child pa name c s1
      in emit ''create'' norm
           (no_extra\<lparr>x_kind := Some ''create'', x_ino := map_option i_ino (fs_heap s2 c),
                     x_version := map_option i_version (fs_heap s2 c),
                     x_newHash := Some (fnv1a data), x_size := Some (length data)\<rparr>) s2)"

definition writeFile :: "string \<Rightarrow> byte list \<Rightarrow> fs \<Rightarrow> (js_exn + unit) \<times> fs" where
  "writeFile p data s =
     (let norm = normalizePath p;
          (parent, name) = parentAndName norm in
      case resolve_parent parent s of
        None \<Rightarrow> (fs_throw ENOENT ''open'' norm, s)
      | Some pa \<Rightarrow>
          (case dir_of s pa of
             None \<Rightarrow> (fs_throw ENOENT ''open'' norm, s)
           | Some m \<Rightarrow>
               (case map_of m name of
                  Some c \<Rightarrow>
                    if dir_of s c \<noteq> None then (fs_throw EISDIR ''open'' norm, s)
                    else (Inr (), write_existing norm c data s)
                | None \<Rightarrow> (Inr (), write_new norm pa name data s))))"

definition readdir :: "string \<Rightarrow> fs \<Rightarrow> (js_exn + (string \<times> ftype) list) \<times> fs" where
  "readdir p s =
     (case resolve p s of
        None \<Rightarrow> (fs_throw ENOENT ''scandir'' p, s)
      | Some a \<Rightarrow>
          (case dir_of s a of
             None \<Rightarrow> (fs_throw ENOTDIR ''scandir'' p, s)
           | Some m \<Rightarrow>
               (Inr (map (\<lambda>(n, c). (n, if dir_of s c \<noteq> None then DirT else FileT)) m),
                touch_atime a s)))"

definition unlink :: "string \<Rightarrow> fs \<Rightarrow> (js_exn + unit) \<times> fs" where
  "unlink p s =
     (let norm = normalizePath p;
          (parent, name) = parentAndName norm in
      case resolve_parent parent s of
        None \<Rightarrow> (fs_throw ENOENT ''unlink'' norm, s)
      | Some pa \<Rightarrow>
          (case dir_of s pa of
             None \<Rightarrow> (fs_throw ENOENT ''unlink'' norm, s)
           | Some m \<Rightarrow>
               (case map_of m name of
                  None \<Rightarrow> (fs_throw ENOENT ''unlink'' norm, s)
                | Some c \<Rightarrow>
                    if dir_of s c \<noteq> None then (fs_throw EISDIR ''unlink'' norm, s)
                    else (Inr (), emit ''unlink'' norm
                            ((ino_extra c s ''unlink'')\<lparr>x_oldHash := map_option i_hash (fs_heap s c)\<rparr>)
                            (del_child pa name s)))))"

definition rmdir :: "string \<Rightarrow> fs \<Rightarrow> (js_exn + unit) \<times> fs" where
  "rmdir p s =
     (let norm = normalizePath p in
      if norm = ''/'' then (fs_throw EPERM ''rmdir'' norm, s)
      else case resolve norm s of
        None \<Rightarrow> (fs_throw ENOENT ''rmdir'' norm, s)
      | Some a \<Rightarrow>
          (case dir_of s a of
             None \<Rightarrow> (fs_throw ENOTDIR ''rmdir'' norm, s)
           | Some m \<Rightarrow>
               if m \<noteq> [] then (fs_throw ENOTEMPTY ''rmdir'' norm, s)
               else
                 let (parent, name) = parentAndName norm in
                 case resolve_parent parent s of
                   None \<Rightarrow> (Inr (), s)
                 | Some pa \<Rightarrow> (Inr (), emit ''rmdir'' norm (ino_extra a s ''rmdir'')
                                        (del_child pa name s))))"

text \<open>
  \<open>rename\<close>: \<open>oldParentInode.children\<close> is \<open>null\<close> when the old parent is a file, and \<open>has\<close> on
  it is a \<open>TypeError\<close>. A target of the same name is silently replaced in the map.
\<close>

definition rename :: "string \<Rightarrow> string \<Rightarrow> fs \<Rightarrow> (js_exn + unit) \<times> fs" where
  "rename oldPath newPath s =
     (let normOld = normalizePath oldPath;
          normNew = normalizePath newPath;
          (oldParent, oldName) = parentAndName normOld in
      case resolve_parent oldParent s of
        None \<Rightarrow> (fs_throw ENOENT ''rename'' normOld, s)
      | Some opa \<Rightarrow>
          (case dir_of s opa of
             None \<Rightarrow> (Inl TypeExn, s)
           | Some om \<Rightarrow>
               (case map_of om oldName of
                  None \<Rightarrow> (fs_throw ENOENT ''rename'' normOld, s)
                | Some c \<Rightarrow>
                    let (newParent, newName) = parentAndName normNew in
                    case resolve_parent newParent s of
                      None \<Rightarrow> (fs_throw ENOENT ''rename'' normNew, s)
                    | Some npa \<Rightarrow>
                        if dir_of s npa = None then (fs_throw ENOENT ''rename'' normNew, s)
                        else
                          let s1 = del_child opa oldName s;
                              s2 = set_child npa newName c s1;
                              s3 = upd_inode c (\<lambda>n. n\<lparr>i_version := Suc (i_version n)\<rparr>) s2;
                              (now, s4) = date_now s3;
                              s5 = upd_inode c (\<lambda>n. n\<lparr>i_ctime := now\<rparr>) s4
                          in (Inr (), emit ''rename'' normOld
                                ((ino_extra c s5 ''rename'')\<lparr>x_version := map_option i_version (fs_heap s5 c),
                                   x_newPath := Some normNew\<rparr>) s5))))"

section \<open>File descriptors\<close>

definition openFd :: "string \<Rightarrow> fs \<Rightarrow> (js_exn + nat) \<times> fs" where
  "openFd p s =
     (let norm = normalizePath p in
      case resolve norm s of
        None \<Rightarrow> (fs_throw ENOENT ''open'' norm, s)
      | Some a \<Rightarrow>
          if dir_of s a \<noteq> None then (fs_throw EISDIR ''open'' norm, s)
          else
            let fd = fs_nextFd s;
                cap = (case Option.bind (fs_heap s a) i_content of Some c \<Rightarrow> length c | None \<Rightarrow> 0)
            in (Inr fd, s\<lparr>fs_nextFd := Suc fd,
                 fs_fdTable := (fs_fdTable s)(fd \<mapsto>
                   \<lparr>fd_inode = a, fd_position = 0, fd_path = norm, fd_dirty = False,
                    fd_capacity = cap\<rparr>)\<rparr>))"

definition content_at :: "nat \<Rightarrow> fs \<Rightarrow> byte list" where
  "content_at a s = (case Option.bind (fs_heap s a) i_content of Some c \<Rightarrow> c | None \<Rightarrow> [])"

text \<open>\<open>buf.subarray(from, to)\<close> clamps both ends to the buffer.\<close>

definition subarray :: "nat \<Rightarrow> nat \<Rightarrow> 'a list \<Rightarrow> 'a list" where
  "subarray from to xs = drop from (take to xs)"

text \<open>\<open>buf.set(data, off)\<close>: a \<open>RangeError\<close> when the data does not fit.\<close>

definition blit :: "'a list \<Rightarrow> nat \<Rightarrow> 'a list \<Rightarrow> 'a list option" where
  "blit data off buf =
     (if off + length data \<le> length buf
      then Some (take off buf @ data @ drop (off + length data) buf) else None)"

text \<open>\<open>String(fd)\<close> for the error path.\<close>

fun nat_digits :: "nat \<Rightarrow> string" where
  "nat_digits n = (if n < 10 then [char_of (48 + n)]
                   else nat_digits (n div 10) @ [char_of (48 + n mod 10)])"

declare nat_digits.simps [simp del]

text \<open>
  \<open>readFd(fd, buffer, offset, length, position)\<close>: the number of bytes read and the caller's
  buffer as it is afterwards.
\<close>

definition readFd ::
  "nat \<Rightarrow> byte list \<Rightarrow> nat \<Rightarrow> nat \<Rightarrow> nat option \<Rightarrow> fs \<Rightarrow> (js_exn + nat \<times> byte list) \<times> fs" where
  "readFd fd buffer off len position s =
     (case fs_fdTable s fd of
        None \<Rightarrow> (fs_throw EBADF ''read'' (nat_digits fd), s)
      | Some e \<Rightarrow>
          let content = content_at (fd_inode e) s;
              pos = (case position of Some q \<Rightarrow> q | None \<Rightarrow> fd_position e);
              available = min (int len) (int (length content) - int pos)
          in if available \<le> 0 then (Inr (0, buffer), s)
             else
               let n = nat available in
               (case blit (subarray pos (pos + n) content) off buffer of
                  None \<Rightarrow> (Inl RangeExn, s)
                | Some buffer' \<Rightarrow>
                    (Inr (n, buffer'),
                     if position = None
                     then s\<lparr>fs_fdTable := (fs_fdTable s)(fd \<mapsto> e\<lparr>fd_position := fd_position e + n\<rparr>)\<rparr>
                     else s)))"

definition writeFd ::
  "nat \<Rightarrow> byte list \<Rightarrow> nat \<Rightarrow> nat \<Rightarrow> nat option \<Rightarrow> fs \<Rightarrow> (js_exn + nat) \<times> fs" where
  "writeFd fd buffer off len position s =
     (case fs_fdTable s fd of
        None \<Rightarrow> (fs_throw EBADF ''write'' (nat_digits fd), s)
      | Some e \<Rightarrow>
          let a = fd_inode e;
              pos = (case position of Some q \<Rightarrow> q | None \<Rightarrow> fd_position e);
              data = subarray off (off + len) buffer;
              neededSize = pos + length data;
              content = content_at a s;
              grow = (fd_capacity e < neededSize);
              newCapacity = max neededSize (max (fd_capacity e * 2) 4096);
              base = (if grow then blit content 0 (replicate newCapacity 0) else Some content);
              cap = (if grow then newCapacity else fd_capacity e)
          in (case Option.bind base (blit data pos) of
                None \<Rightarrow> (Inl RangeExn, s)
              | Some content' \<Rightarrow>
                  let e' = e\<lparr>fd_capacity := cap, fd_dirty := True,
                             fd_position := (if position = None then fd_position e + length data
                                             else fd_position e)\<rparr>;
                      (now, s1) = date_now s;
                      s2 = upd_inode a (\<lambda>n. n\<lparr>i_content := Some content', i_mtime := now,
                                              i_version := Suc (i_version n)\<rparr>) s1;
                      s3 = s2\<lparr>fs_fdTable := (fs_fdTable s2)(fd \<mapsto> e')\<rparr>
                  in (Inr (length data),
                      emit ''writeFd'' (fd_path e)
                        ((ino_extra a s3 ''write'')\<lparr>x_version := map_option i_version (fs_heap s3 a)\<rparr>)
                        s3)))"

text \<open>
  \<open>close(fd)\<close>: the branch under \<open>entry.capacity > logicalSize\<close> has only comments; a dirty
  descriptor rehashes the content it left.
\<close>

definition closeFd :: "nat \<Rightarrow> fs \<Rightarrow> (js_exn + unit) \<times> fs" where
  "closeFd fd s =
     (case fs_fdTable s fd of
        None \<Rightarrow> (fs_throw EBADF ''close'' (nat_digits fd), s)
      | Some e \<Rightarrow>
          let a = fd_inode e;
              content = content_at a s;
              logicalSize = max (fd_position e) (length content);
              s1 = (if fd_dirty e
                    then upd_inode a (\<lambda>n. n\<lparr>i_hash := fnv1a (subarray 0 logicalSize content)\<rparr>) s
                    else s)
          in (Inr (), s1\<lparr>fs_fdTable := (fs_fdTable s1)(fd := None)\<rparr>))"

end
