(* ===== verification/Memfs_Inv.thy ===== *)
theory Memfs_Inv
  imports Memfs
begin

text \<open>
  The well-formedness invariant of the file system and the abstract view of it, a partial map
  from component lists to files and directories. The section on walks shows that every inode
  is reached along at most one path; the later sections prove that each operation keeps the
  invariant and acts on the view as its abstract specification says.
\<close>

section \<open>The invariant\<close>

definition wf_inode :: "inode \<Rightarrow> bool" where
  "wf_inode nd \<longleftrightarrow>
     (if i_type nd = DirT then i_content nd = None \<and> i_children nd \<noteq> None
      else i_content nd \<noteq> None \<and> i_children nd = None)"

definition wf_entries :: "fs \<Rightarrow> (string \<times> nat) list \<Rightarrow> bool" where
  "wf_entries s m \<longleftrightarrow> distinct (keys m) \<and> (\<forall>e \<in> set m. snd e \<noteq> root_addr \<and> fs_heap s (snd e) \<noteq> None)"

text \<open>\<open>edge s a n c\<close>: the directory at \<open>a\<close> has an entry \<open>n\<close> for the inode at \<open>c\<close>.\<close>

definition edge :: "fs \<Rightarrow> nat \<Rightarrow> string \<Rightarrow> nat \<Rightarrow> bool" where
  "edge s a n c \<longleftrightarrow> (\<exists>m. dir_of s a = Some m \<and> map_of m n = Some c)"

definition unique_parents :: "fs \<Rightarrow> bool" where
  "unique_parents s \<longleftrightarrow> (\<forall>a b n n' c. edge s a n c \<and> edge s b n' c \<longrightarrow> a = b \<and> n = n')"

definition fs_wf :: "fs \<Rightarrow> bool" where
  "fs_wf s \<longleftrightarrow>
     dir_of s root_addr \<noteq> None \<and> 0 < fs_inoCounter s \<and>
     (\<forall>a nd. fs_heap s a = Some nd \<longrightarrow> a < fs_inoCounter s \<and> wf_inode nd) \<and>
     (\<forall>a m. dir_of s a = Some m \<longrightarrow> wf_entries s m) \<and>
     unique_parents s \<and>
     (\<forall>fd e. fs_fdTable s fd = Some e \<longrightarrow>
        fd < fs_nextFd s \<and> fs_heap s (fd_inode e) \<noteq> None \<and> dir_of s (fd_inode e) = None)"

section \<open>What the primitives do to the store\<close>

lemma date_now_fields [simp, fs_frame]:
  "fs_heap (snd (date_now s)) = fs_heap s"
  "fs_inoCounter (snd (date_now s)) = fs_inoCounter s"
  "fs_fdTable (snd (date_now s)) = fs_fdTable s"
  "fs_nextFd (snd (date_now s)) = fs_nextFd s"
  "fs_journal (snd (date_now s)) = fs_journal s"
  "fs_seq (snd (date_now s)) = fs_seq s"
  "fs_maxJournal (snd (date_now s)) = fs_maxJournal s"
  "fs_journalStartSeq (snd (date_now s)) = fs_journalStartSeq s"
  by (auto simp: date_now_def)

lemma emit_fields [simp, fs_frame]:
  "fs_heap (emit op p x s) = fs_heap s"
  "fs_inoCounter (emit op p x s) = fs_inoCounter s"
  "fs_fdTable (emit op p x s) = fs_fdTable s"
  "fs_nextFd (emit op p x s) = fs_nextFd s"
  "fs_maxJournal (emit op p x s) = fs_maxJournal s"
  "fs_seq (emit op p x s) = Suc (fs_seq s)"
  by (auto simp: emit_def date_now_def Let_def split: prod.splits)

lemma upd_inode_fields [simp, fs_frame]:
  "fs_inoCounter (upd_inode a f s) = fs_inoCounter s"
  "fs_fdTable (upd_inode a f s) = fs_fdTable s"
  "fs_nextFd (upd_inode a f s) = fs_nextFd s"
  "fs_journal (upd_inode a f s) = fs_journal s"
  "fs_seq (upd_inode a f s) = fs_seq s"
  "fs_maxJournal (upd_inode a f s) = fs_maxJournal s"
  "fs_journalStartSeq (upd_inode a f s) = fs_journalStartSeq s"
  by (auto simp: upd_inode_def split: option.splits)

lemma heap_upd_inode:
  "fs_heap (upd_inode a f s) b = (if a = b then map_option f (fs_heap s a) else fs_heap s b)"
  by (auto simp: upd_inode_def split: option.splits)

lemma dir_of_heap_cong: "fs_heap s = fs_heap t \<Longrightarrow> dir_of s = dir_of t"
  by (rule ext) (simp add: dir_of_def)

lemma content_heap_cong: "fs_heap s = fs_heap t \<Longrightarrow> content_at a s = content_at a t"
  by (simp add: content_at_def)

lemma dir_of_emit [simp]: "dir_of (emit op p x s) = dir_of s"
  by (rule dir_of_heap_cong) simp

lemma dir_of_date_now [simp]: "dir_of (snd (date_now s)) = dir_of s"
  by (rule dir_of_heap_cong) simp

lemma content_at_emit [simp]: "content_at a (emit op p x s) = content_at a s"
  by (rule content_heap_cong) simp

lemma content_at_date_now [simp]: "content_at a (snd (date_now s)) = content_at a s"
  by (rule content_heap_cong) simp

text \<open>An update that keeps type and children does not change the directory structure.\<close>

definition keeps_shape :: "(inode \<Rightarrow> inode) \<Rightarrow> bool" where
  "keeps_shape f \<longleftrightarrow> (\<forall>n. i_type (f n) = i_type n \<and> i_children (f n) = i_children n)"

lemma dir_of_upd_shape: "keeps_shape f \<Longrightarrow> dir_of (upd_inode a f s) = dir_of s"
  by (rule ext) (auto simp: dir_of_def heap_upd_inode keeps_shape_def split: option.splits)

lemma dir_of_set_child:
  "dir_of s a = Some m \<Longrightarrow> dir_of (set_child a n c s) = (dir_of s)(a \<mapsto> AList.update n c m)"
  by (rule ext) (auto simp: dir_of_def set_child_def heap_upd_inode split: option.splits if_splits)

lemma dir_of_del_child:
  "dir_of s a = Some m \<Longrightarrow> dir_of (del_child a n s) = (dir_of s)(a \<mapsto> AList.delete n m)"
  by (rule ext) (auto simp: dir_of_def del_child_def heap_upd_inode split: option.splits if_splits)

lemma child_fields [simp, fs_frame]:
  "fs_inoCounter (set_child a n c s) = fs_inoCounter s"
  "fs_fdTable (set_child a n c s) = fs_fdTable s"
  "fs_nextFd (set_child a n c s) = fs_nextFd s"
  "fs_inoCounter (del_child a n s) = fs_inoCounter s"
  "fs_fdTable (del_child a n s) = fs_fdTable s"
  "fs_nextFd (del_child a n s) = fs_nextFd s"
  by (simp_all add: set_child_def del_child_def)

lemma content_at_child [simp]:
  "content_at b (set_child a n c s) = content_at b s"
  "content_at b (del_child a n s) = content_at b s"
  by (cases "fs_heap s b"; simp add: content_at_def set_child_def del_child_def heap_upd_inode)+

lemma heap_child_None [simp]:
  "fs_heap (set_child a n c s) b = None \<longleftrightarrow> fs_heap s b = None"
  "fs_heap (del_child a n s) b = None \<longleftrightarrow> fs_heap s b = None"
  by (auto simp: set_child_def del_child_def heap_upd_inode)

lemma heap_child_wf:
  "\<forall>a nd. fs_heap s a = Some nd \<longrightarrow> a < k \<and> wf_inode nd \<Longrightarrow>
     fs_heap (set_child d n c s) b = Some nd \<Longrightarrow> b < k \<and> wf_inode nd"
  "\<forall>a nd. fs_heap s a = Some nd \<longrightarrow> a < k \<and> wf_inode nd \<Longrightarrow>
     fs_heap (del_child d n s) b = Some nd \<Longrightarrow> b < k \<and> wf_inode nd"
  by (cases "fs_heap s b"; force simp: set_child_def del_child_def heap_upd_inode wf_inode_def
      split: if_splits)+

text \<open>A fresh inode.\<close>

lemma makeInode_addr: "fst (makeInode ty content s) = fs_inoCounter s"
  by (simp add: makeInode_def date_now_def Let_def)

lemma makeInode_fields [simp, fs_frame]:
  "fs_inoCounter (snd (makeInode ty content s)) = Suc (fs_inoCounter s)"
  "fs_fdTable (snd (makeInode ty content s)) = fs_fdTable s"
  "fs_nextFd (snd (makeInode ty content s)) = fs_nextFd s"
  by (simp_all add: makeInode_def date_now_def Let_def)

lemma makeInode_heap:
  "\<exists>nd. fs_heap (snd (makeInode ty content s)) = (fs_heap s)(fs_inoCounter s \<mapsto> nd) \<and>
     i_type nd = ty \<and> i_content nd = content \<and> i_children nd = empty_children ty \<and>
     i_ino nd = Some (fs_inoCounter s)"
  by (auto simp: makeInode_def date_now_def Let_def)

lemma dir_of_makeInode:
  "dir_of (snd (makeInode ty content s)) =
     (dir_of s)(fs_inoCounter s := (if ty = DirT then Some [] else None))"
  using makeInode_heap [of ty content s]
  by (auto simp: dir_of_def empty_children_def fun_eq_iff)

lemma content_at_makeInode:
  "content_at a (snd (makeInode ty content s)) =
     (if a = fs_inoCounter s then (case content of Some c \<Rightarrow> c | None \<Rightarrow> []) else content_at a s)"
  using makeInode_heap [of ty content s] by (auto simp: content_at_def)

section \<open>Walks\<close>

abbreviation walk :: "fs \<Rightarrow> string list \<Rightarrow> nat option" where
  "walk s ps \<equiv> walk_from s (Some root_addr) ps"

lemma walk_from_None [simp]: "walk_from s None ps = None"
  by (cases ps) auto

lemma walk_from_append: "walk_from s cur (ps @ qs) = walk_from s (walk_from s cur ps) qs"
proof (induction ps arbitrary: cur)
  case (Cons p ps)
  then show ?case
    by (cases cur; cases "dir_of s (the cur)") auto
qed simp

lemma walk_from_cong: "dir_of s = dir_of t \<Longrightarrow> walk_from s cur ps = walk_from t cur ps"
proof (induction ps arbitrary: cur)
  case (Cons p ps)
  then show ?case by (cases cur) (auto split: option.splits)
qed simp

lemma walk_snoc_eq:
  "walk_from s cur (ps @ [n]) =
     (case walk_from s cur ps of
        None \<Rightarrow> None
      | Some a \<Rightarrow> (case dir_of s a of None \<Rightarrow> None | Some m \<Rightarrow> map_of m n))"
  by (auto simp: walk_from_append split: option.splits)

lemma walk_snoc:
  "walk_from s cur (ps @ [n]) = Some c \<longleftrightarrow>
     (\<exists>a m. walk_from s cur ps = Some a \<and> dir_of s a = Some m \<and> map_of m n = Some c)"
  by (auto simp: walk_from_append split: option.splits)

lemma resolve_walk: "resolve p s = walk s (norm_parts (path_parts p))"
  by (simp add: resolve_def normalize_root_iff)

lemma resolve_normalize [simp, path_simps]: "resolve (normalizePath p) s = resolve p s"
  by (simp add: resolve_walk)

lemma resolve_render [simp, path_simps]:
  "list_all plain_name ps \<Longrightarrow> resolve (render_path ps) s = walk s ps"
  by (simp add: resolve_walk)

lemma resolve_parent_snoc:
  assumes "norm_parts (path_parts p) = ps @ [n]"
  shows "parentAndName (normalizePath p) = (Some (render_path ps), n)"
    and "resolve_parent (Some (render_path ps)) s = walk s ps"
proof -
  have pl: "list_all plain_name ps"
    using norm_parts_path_parts [of p] assms by simp
  show "parentAndName (normalizePath p) = (Some (render_path ps), n)"
    by (rule parentAndName_snoc) (use assms norm_parts_path_parts [of p] in simp)
  show "resolve_parent (Some (render_path ps)) s = walk s ps"
    using pl by (simp add: resolve_parent_def)
qed

lemma wf_child:
  assumes "fs_wf s" "dir_of s a = Some m" "map_of m n = Some c"
  shows "c \<noteq> root_addr" "fs_heap s c \<noteq> None" "c < fs_inoCounter s"
proof -
  have "wf_entries s m" using assms by (simp add: fs_wf_def)
  moreover have "(n, c) \<in> set m" using assms(3) by (rule map_of_SomeD)
  ultimately show "c \<noteq> root_addr" and h: "fs_heap s c \<noteq> None"
    by (auto simp: wf_entries_def dest: bspec)
  from h show "c < fs_inoCounter s" using assms(1) by (auto simp: fs_wf_def)
qed

text \<open>Every inode is reached from the root along at most one path.\<close>

lemma walk_unique:
  "fs_wf s \<Longrightarrow> walk s ps = Some a \<Longrightarrow> walk s qs = Some a \<Longrightarrow> ps = qs"
proof (induction ps arbitrary: a qs rule: rev_induct)
  case Nil
  then have a: "a = root_addr" by simp
  show ?case
  proof (cases qs rule: rev_cases)
    case (snoc qs' k)
    with Nil.prems obtain b m where "dir_of s b = Some m" "map_of m k = Some a"
      by (auto simp: walk_snoc)
    with Nil.prems(1) a show ?thesis using wf_child(1) by blast
  qed simp
next
  case (snoc n ps)
  then obtain b m where b: "walk s ps = Some b" "dir_of s b = Some m" "map_of m n = Some a"
    by (auto simp: walk_snoc)
  then have "a \<noteq> root_addr" using snoc.prems(1) wf_child(1) by blast
  with snoc.prems(3) obtain qs' k where qs: "qs = qs' @ [k]"
    by (cases qs rule: rev_cases) auto
  with snoc.prems(3) obtain b' m' where
    b': "walk s qs' = Some b'" "dir_of s b' = Some m'" "map_of m' k = Some a"
    by (auto simp: walk_snoc)
  have "unique_parents s" using snoc.prems(1) by (simp add: fs_wf_def)
  with b b' have "b = b'" "n = k" unfolding unique_parents_def edge_def by blast+
  with b b' snoc.IH [OF snoc.prems(1) b(1)] qs show ?case by auto
qed

text \<open>
  Changing the entries of one directory under one name only affects the walks through that
  name.
\<close>

lemma walk_other:
  assumes wf: "fs_wf s" and pa: "walk s ps = Some pa"
    and m: "dir_of s pa = Some m" "dir_of t pa = Some m'"
    and names: "\<And>k. k \<noteq> n \<Longrightarrow> map_of m' k = map_of m k"
    and dirs: "\<And>x qs. walk s qs = Some x \<Longrightarrow> x \<noteq> pa \<Longrightarrow> dir_of t x = dir_of s x"
    and qs: "\<not> prefix (ps @ [n]) qs"
  shows "walk t qs = walk s qs"
  using qs
proof (induction qs rule: rev_induct)
  case (snoc k qs)
  then have IH: "walk t qs = walk s qs"
    by (metis prefix_append)
  show ?case
  proof (cases "walk s qs")
    case None
    with IH show ?thesis by (simp add: walk_snoc_eq)
  next
    case (Some x)
    show ?thesis
    proof (cases "x = pa")
      case True
      with Some pa have "qs = ps" using walk_unique [OF wf] by blast
      with snoc.prems have "k \<noteq> n" by auto
      with True Some IH m names show ?thesis by (simp add: walk_snoc_eq)
    next
      case False
      with Some have "dir_of t x = dir_of s x" by (rule dirs)
      with Some IH show ?thesis by (simp add: walk_snoc_eq)
    qed
  qed
qed simp

text \<open>A walk below an address is unchanged when every directory on it is.\<close>

lemma walk_from_same:
  assumes "\<And>x rs. walk_from s (Some c) rs = Some x \<Longrightarrow> dir_of t x = dir_of s x"
  shows "walk_from t (Some c) qs = walk_from s (Some c) qs"
proof (induction qs rule: rev_induct)
  case (snoc k qs)
  show ?case
  proof (cases "walk_from s (Some c) qs")
    case None
    with snoc show ?thesis by (simp add: walk_snoc_eq)
  next
    case (Some x)
    then have "dir_of t x = dir_of s x" by (rule assms)
    with Some snoc show ?thesis by (simp add: walk_snoc_eq)
  qed
qed simp

section \<open>The abstract view\<close>

datatype fnode = FileV "byte list" | DirV

definition view_at :: "fs \<Rightarrow> nat \<Rightarrow> fnode" where
  "view_at s a = (if dir_of s a \<noteq> None then DirV else FileV (content_at a s))"

definition view :: "fs \<Rightarrow> string list \<Rightarrow> fnode option" where
  "view s ps = map_option (view_at s) (walk s ps)"

abbreviation comps :: "string \<Rightarrow> string list" where
  "comps p \<equiv> norm_parts (path_parts p)"

lemma view_DirV: "view s ps = Some DirV \<longleftrightarrow> (\<exists>a m. walk s ps = Some a \<and> dir_of s a = Some m)"
  by (auto simp: view_def view_at_def)

lemma view_root: "fs_wf s \<Longrightarrow> view s [] = Some DirV"
  by (auto simp: view_DirV fs_wf_def)

lemma view_parent:
  "view s (ps @ [n]) \<noteq> None \<Longrightarrow> view s ps = Some DirV"
  by (auto simp: view_def view_at_def walk_snoc)

lemma view_cong:
  assumes "fs_heap s = fs_heap t"
  shows "view s = view t"
proof -
  have "view_at s = view_at t"
    using dir_of_heap_cong [OF assms] content_heap_cong [OF assms]
    by (simp add: view_at_def fun_eq_iff)
  then show ?thesis
    using walk_from_cong [OF dir_of_heap_cong [OF assms]] by (intro ext) (simp add: view_def)
qed

lemma view_emit [simp]: "view (emit op p x s) = view s"
  by (rule view_cong) simp

lemma view_date_now [simp]: "view (snd (date_now s)) = view s"
  by (rule view_cong) simp

section \<open>Preservation of the invariant by the primitives\<close>

lemma fs_wfD:
  assumes "fs_wf s"
  shows "dir_of s root_addr \<noteq> None" and "0 < fs_inoCounter s"
    and "fs_heap s a = Some nd \<Longrightarrow> a < fs_inoCounter s \<and> wf_inode nd"
    and "dir_of s a = Some m \<Longrightarrow> wf_entries s m"
    and "unique_parents s"
    and "fs_fdTable s fd = Some e \<Longrightarrow>
           fd < fs_nextFd s \<and> fs_heap s (fd_inode e) \<noteq> None \<and> dir_of s (fd_inode e) = None"
  using assms unfolding fs_wf_def by blast+

lemma wf_entries_cong:
  "(\<And>a. fs_heap s a \<noteq> None \<Longrightarrow> fs_heap t a \<noteq> None) \<Longrightarrow> wf_entries s m \<Longrightarrow> wf_entries t m"
  unfolding wf_entries_def by blast

lemma wf_entries_update:
  assumes "wf_entries t m" and c: "c \<noteq> root_addr" "fs_heap t c \<noteq> None"
  shows "wf_entries t (AList.update n c m)"
proof -
  have ok: "x \<noteq> root_addr \<and> fs_heap t x \<noteq> None" if "x \<in> snd ` set m" for x
    using that assms(1) unfolding wf_entries_def by blast
  have "x \<noteq> root_addr \<and> fs_heap t x \<noteq> None" if "x \<in> snd ` set (AList.update n c m)" for x
    using that values_update_subset [of n c m] ok c by blast
  moreover have "distinct (keys (AList.update n c m))"
    using assms(1) by (simp add: wf_entries_def distinct_update)
  ultimately show ?thesis unfolding wf_entries_def by blast
qed

lemma unique_parents_cong: "dir_of s = dir_of t \<Longrightarrow> unique_parents s = unique_parents t"
  by (simp add: unique_parents_def edge_def)

lemma unique_parents_subset:
  "unique_parents s \<Longrightarrow> (\<And>a n x. edge t a n x \<Longrightarrow> edge s a n x) \<Longrightarrow> unique_parents t"
  unfolding unique_parents_def by blast

lemma unique_parents_insert:
  assumes "unique_parents s" "\<And>a n. \<not> edge s a n c"
    "\<And>a k x. edge t a k x \<Longrightarrow> edge s a k x \<or> a = pa \<and> k = n \<and> x = c"
  shows "unique_parents t"
  using assms unfolding unique_parents_def by metis

lemma edge_wf: "fs_wf s \<Longrightarrow> edge s a n c \<Longrightarrow> c \<noteq> root_addr \<and> fs_heap s c \<noteq> None"
  using wf_child by (auto simp: edge_def)

text \<open>Nothing of the invariant depends on the journal or the clock.\<close>

lemma fs_wf_heap_cong:
  assumes "fs_heap t = fs_heap s" "fs_inoCounter t = fs_inoCounter s"
    "fs_fdTable t = fs_fdTable s" "fs_nextFd t = fs_nextFd s"
  shows "fs_wf t = fs_wf s"
  using dir_of_heap_cong [OF assms(1)] unique_parents_cong [of t s] assms
  by (simp add: fs_wf_def wf_entries_def)

lemma fs_wf_emit [simp]: "fs_wf (emit op p x s) = fs_wf s"
  by (rule fs_wf_heap_cong) simp_all

lemma fs_wf_date_now [simp]: "fs_wf (snd (date_now s)) = fs_wf s"
  by (rule fs_wf_heap_cong) simp_all

lemma fs_wf_upd_inode:
  assumes "fs_wf s" and f: "keeps_shape f" and g: "\<And>nd. fs_heap s a = Some nd \<Longrightarrow> wf_inode (f nd)"
  shows "fs_wf (upd_inode a f s)"
proof -
  have d: "dir_of (upd_inode a f s) = dir_of s" using f by (rule dir_of_upd_shape)
  have h: "fs_heap (upd_inode a f s) b = None \<longleftrightarrow> fs_heap s b = None" for b
    by (simp add: heap_upd_inode)
  have "b < fs_inoCounter s \<and> wf_inode n" if "fs_heap (upd_inode a f s) b = Some n" for b n
    using that fs_wfD(3) [OF assms(1), of b] g fs_wfD(3) [OF assms(1), of a]
    by (auto simp: heap_upd_inode split: if_splits)
  moreover have "wf_entries (upd_inode a f s) m" if "dir_of s b = Some m" for b m
    using fs_wfD(4) [OF assms(1) that] by (rule wf_entries_cong [rotated]) (simp add: h)
  ultimately show ?thesis
    using assms(1) fs_wfD(5,6) [OF assms(1)] unique_parents_cong [OF d]
    unfolding fs_wf_def d by (auto simp: h)
qed

text \<open>A fresh inode entered under an unused name of one directory.\<close>

lemma fs_wf_add_child:
  assumes wf: "fs_wf s" and m: "dir_of s pa = Some m" and n: "map_of m n = None"
    and ty: "ty = DirT \<longleftrightarrow> content = None"
  defines "c \<equiv> fs_inoCounter s"
  defines "t \<equiv> set_child pa n c (snd (makeInode ty content s))"
  shows "fs_wf t" and "dir_of t = (dir_of s)(c := if ty = DirT then Some [] else None,
                                            pa := Some (AList.update n c m))"
    and "content_at a t = (if a = c then (case content of Some d \<Rightarrow> d | None \<Rightarrow> []) else content_at a s)"
    and "dir_of s c = None" and "pa \<noteq> c"
proof -
  let ?s1 = "snd (makeInode ty content s)"
  have fresh: "fs_heap s c = None"
    using fs_wfD(3) [OF wf, of c] unfolding c_def by fastforce
  show dc: "dir_of s c = None" using fresh by (simp add: dir_of_def)
  show pac: "pa \<noteq> c" using m dc by auto
  have m1: "dir_of ?s1 pa = Some m"
    using m pac by (simp add: dir_of_makeInode c_def)
  show d: "dir_of t = (dir_of s)(c := if ty = DirT then Some [] else None,
                               pa := Some (AList.update n c m))"
    unfolding t_def dir_of_set_child [OF m1] by (simp add: dir_of_makeInode c_def)
  show "content_at a t = (if a = c then (case content of Some d \<Rightarrow> d | None \<Rightarrow> []) else content_at a s)"
    unfolding t_def by (simp add: content_at_makeInode c_def)
  obtain nd where nd: "fs_heap ?s1 = (fs_heap s)(c \<mapsto> nd)" "i_type nd = ty" "i_content nd = content"
      "i_children nd = empty_children ty"
    using makeInode_heap [of ty content s] unfolding c_def by blast
  have hN: "fs_heap t a = None \<longleftrightarrow> a \<noteq> c \<and> fs_heap s a = None" for a
    unfolding t_def by (simp add: nd)
  have wfn: "wf_inode nd"
    using ty nd by (cases ty) (auto simp: wf_inode_def empty_children_def)
  have c0: "c \<noteq> 0" using fs_wfD(2) [OF wf] by (simp add: c_def)
  have heaps: "a < Suc c \<and> wf_inode x" if "fs_heap t a = Some x" for a x
  proof (rule heap_child_wf(1) [OF _ that [unfolded t_def]], intro allI impI)
    fix b y assume "fs_heap ?s1 b = Some y"
    then show "b < Suc c \<and> wf_inode y"
      using fs_wfD(3) [OF wf, of b y] wfn by (auto simp: nd c_def split: if_splits)
  qed
  have old: "wf_entries t k" if "dir_of s a = Some k" for a k
    using fs_wfD(4) [OF wf that] by (rule wf_entries_cong [rotated]) (simp add: hN)
  have "wf_entries t (AList.update n c m)"
    by (rule wf_entries_update [OF old [OF m] c0]) (simp add: hN)
  moreover have "wf_entries t []" by (simp add: wf_entries_def)
  ultimately have ent: "wf_entries t k" if "dir_of t a = Some k" for a k
    using that old by (auto simp: d split: if_splits)
  have "unique_parents t"
  proof (rule unique_parents_insert [OF fs_wfD(5) [OF wf]])
    show "\<not> edge s a k c" for a k using edge_wf [OF wf] fresh by blast
    show "edge s a k x \<or> a = pa \<and> k = n \<and> x = c" if "edge t a k x" for a k x
      using that m by (auto simp: edge_def d split: if_splits)
  qed
  moreover have "fd < fs_nextFd s \<and> fs_heap t (fd_inode e) \<noteq> None \<and> dir_of t (fd_inode e) = None"
    if "fs_fdTable s fd = Some e" for fd e
    using fs_wfD(6) [OF wf that] m fresh by (auto simp: d hN)
  moreover have "dir_of t root_addr \<noteq> None"
    using fs_wfD(1) [OF wf] c0 by (simp add: d)
  moreover have "fs_inoCounter t = Suc c" "fs_fdTable t = fs_fdTable s" "fs_nextFd t = fs_nextFd s"
    by (simp_all add: t_def c_def)
  ultimately show "fs_wf t"
    using heaps ent unfolding fs_wf_def by auto
qed

lemma fs_wf_del_child:
  assumes wf: "fs_wf s" and m: "dir_of s pa = Some m"
  shows "fs_wf (del_child pa n s)"
proof -
  let ?t = "del_child pa n s"
  note d = dir_of_del_child [OF m, of n]
  have old: "wf_entries ?t k" if "dir_of s a = Some k" for a k
    using fs_wfD(4) [OF wf that] by (rule wf_entries_cong [rotated]) simp
  have "wf_entries ?t (AList.delete n m)"
    using old [OF m] values_delete_subset [of n m] distinct_delete [of m n]
    unfolding wf_entries_def by (auto simp: AList.delete_eq)
  then have "wf_entries ?t k" if "dir_of ?t a = Some k" for a k
    using that old by (auto simp: d split: if_splits)
  moreover have "unique_parents ?t"
    by (rule unique_parents_subset [OF fs_wfD(5) [OF wf]])
      (use m in \<open>auto simp: edge_def d split: if_splits\<close>)
  moreover have "a < fs_inoCounter s \<and> wf_inode x" if "fs_heap ?t a = Some x" for a x
    by (rule heap_child_wf(2) [OF _ that]) (use fs_wfD(3) [OF wf] in blast)
  moreover have "fd < fs_nextFd s \<and> fs_heap s (fd_inode e) \<noteq> None \<and> dir_of ?t (fd_inode e) = None"
    if "fs_fdTable s fd = Some e" for fd e
    using fs_wfD(6) [OF wf that] m by (auto simp: d)
  ultimately show ?thesis
    using wf unfolding fs_wf_def by (auto simp: d)
qed

text \<open>Re-entering an inode that lost its only name.\<close>

lemma fs_wf_relink:
  assumes wf: "fs_wf s" and m: "dir_of s pa = Some m"
    and c: "c \<noteq> root_addr" "fs_heap s c \<noteq> None"
    and orphan: "\<And>a k. \<not> edge s a k c"
  shows "fs_wf (set_child pa n c s)"
proof -
  let ?t = "set_child pa n c s"
  note d = dir_of_set_child [OF m, of n c]
  have old: "wf_entries ?t k" if "dir_of s a = Some k" for a k
    using fs_wfD(4) [OF wf that] by (rule wf_entries_cong [rotated]) simp
  have "wf_entries ?t (AList.update n c m)"
    by (rule wf_entries_update [OF old [OF m] c(1)]) (simp add: c)
  then have "wf_entries ?t k" if "dir_of ?t a = Some k" for a k
    using that old by (auto simp: d split: if_splits)
  moreover have "unique_parents ?t"
    by (rule unique_parents_insert [OF fs_wfD(5) [OF wf] orphan])
      (use m in \<open>auto simp: edge_def d split: if_splits\<close>)
  moreover have "a < fs_inoCounter s \<and> wf_inode x" if "fs_heap ?t a = Some x" for a x
    by (rule heap_child_wf(1) [OF _ that]) (use fs_wfD(3) [OF wf] in blast)
  moreover have "fd < fs_nextFd s \<and> fs_heap s (fd_inode e) \<noteq> None \<and> dir_of ?t (fd_inode e) = None"
    if "fs_fdTable s fd = Some e" for fd e
    using fs_wfD(6) [OF wf that] m by (auto simp: d)
  ultimately show ?thesis
    using wf unfolding fs_wf_def by (auto simp: d)
qed

lemma walk_allocated:
  assumes wf: "fs_wf s" and w: "walk s qs = Some x"
  shows "fs_heap s x \<noteq> None" and "x < fs_inoCounter s"
proof -
  show h: "fs_heap s x \<noteq> None"
  proof (cases qs rule: rev_cases)
    case Nil
    with w fs_wfD(1) [OF wf] show ?thesis by (auto simp: dir_of_def split: option.splits)
  next
    case (snoc qs' k)
    with w show ?thesis using wf_child(2) [OF wf] by (auto simp: walk_snoc)
  qed
  then show "x < fs_inoCounter s" using fs_wfD(3) [OF wf] by auto
qed

end
