(* ===== verification/Memfs_Refine.thy ===== *)
theory Memfs_Refine
  imports Memfs_Inv
begin

text \<open>
  The abstract file system, a partial map from component lists to files and directories with
  one specification per operation, and the proof that the operations of the class implement
  it: the same successes, the same error codes, and the same view afterwards.
\<close>

section \<open>Specifications\<close>

type_synonym vfs = "string list \<Rightarrow> fnode option"

definition spec_write :: "string list \<Rightarrow> byte list \<Rightarrow> vfs \<Rightarrow> errcode + vfs" where
  "spec_write ps d v =
     (if v (butlast ps) \<noteq> Some DirV then Inl ENOENT
      else if v ps = Some DirV then Inl EISDIR
      else Inr (v(ps \<mapsto> FileV d)))"

definition spec_mkdir :: "string list \<Rightarrow> vfs \<Rightarrow> errcode + vfs" where
  "spec_mkdir ps v =
     (if v (butlast ps) \<noteq> Some DirV then Inl ENOENT
      else if v ps \<noteq> None then Inl EEXIST
      else Inr (v(ps \<mapsto> DirV)))"

definition spec_unlink :: "string list \<Rightarrow> vfs \<Rightarrow> errcode + vfs" where
  "spec_unlink ps v =
     (case v ps of None \<Rightarrow> Inl ENOENT | Some DirV \<Rightarrow> Inl EISDIR | Some (FileV d) \<Rightarrow> Inr (v(ps := None)))"

definition spec_rmdir :: "string list \<Rightarrow> vfs \<Rightarrow> errcode + vfs" where
  "spec_rmdir ps v =
     (case v ps of
        None \<Rightarrow> Inl ENOENT
      | Some (FileV d) \<Rightarrow> Inl ENOTDIR
      | Some DirV \<Rightarrow> if \<exists>n. v (ps @ [n]) \<noteq> None then Inl ENOTEMPTY else Inr (v(ps := None)))"

text \<open>A subtree moves; whatever was at the target disappears with everything below it.\<close>

definition move_view :: "string list \<Rightarrow> string list \<Rightarrow> vfs \<Rightarrow> vfs" where
  "move_view ps qs v =
     (\<lambda>rs. if prefix qs rs then v (ps @ drop (length qs) rs)
           else if prefix ps rs then None else v rs)"

text \<open>\<open>mkdir -p\<close>: every prefix becomes a directory, unless one of them is a file.\<close>

definition spec_mkdir_p :: "string list \<Rightarrow> vfs \<Rightarrow> errcode + vfs" where
  "spec_mkdir_p ps v =
     (if \<exists>k \<le> length ps. \<exists>d. v (take k ps) = Some (FileV d) then Inl ENOTDIR
      else Inr (\<lambda>rs. if prefix rs ps then Some DirV else v rs))"

text \<open>An outcome agrees with a specification: the code of the error, or the new view.\<close>

definition agrees :: "(js_exn + 'a) \<times> fs \<Rightarrow> errcode + vfs \<Rightarrow> vfs \<Rightarrow> bool" where
  "agrees out sp v =
     (case sp of
        Inl e \<Rightarrow> (case fst out of Inl (FsExn x) \<Rightarrow> e_code x = e | _ \<Rightarrow> False) \<and> view (snd out) = v
      | Inr v' \<Rightarrow> is_ok (fst out) \<and> view (snd out) = v')"

lemma agrees_simps [simp]:
  "agrees (fs_throw e sc p, s) (Inl e') v \<longleftrightarrow> e = e' \<and> view s = v"
  "agrees (Inr x, s) (Inr v') v \<longleftrightarrow> view s = v'"
  by (auto simp: agrees_def createFsError_def)

section \<open>Views after a change of one directory\<close>

lemma view_at_same:
  "dir_of t x = dir_of s x \<Longrightarrow> content_at x t = content_at x s \<Longrightarrow> view_at t x = view_at s x"
  by (simp add: view_at_def)

text \<open>One directory, reached along \<open>ps\<close>, changed its entry \<open>n\<close>; the rest of the view stays.\<close>

lemma view_other:
  assumes wf: "fs_wf s" and pa: "walk s ps = Some pa"
    and m: "dir_of s pa = Some m" "dir_of t pa = Some m'"
    and names: "\<And>k. k \<noteq> n \<Longrightarrow> map_of m' k = map_of m k"
    and dirs: "\<And>x qs. walk s qs = Some x \<Longrightarrow> x \<noteq> pa \<Longrightarrow> dir_of t x = dir_of s x"
    and conts: "\<And>x qs. walk s qs = Some x \<Longrightarrow> content_at x t = content_at x s"
    and qs: "\<not> prefix (ps @ [n]) qs"
  shows "view t qs = view s qs"
proof -
  have w: "walk t qs = walk s qs"
    by (rule walk_other [OF wf pa m names dirs qs])
  show ?thesis
  proof (cases "walk s qs")
    case None
    with w show ?thesis by (simp add: view_def)
  next
    case (Some x)
    have "view_at t x = view_at s x"
    proof (cases "x = pa")
      case True
      with m show ?thesis by (simp add: view_at_def)
    next
      case False
      with Some show ?thesis by (intro view_at_same dirs conts)
    qed
    with w Some show ?thesis by (simp add: view_def)
  qed
qed

lemma walk_through:
  assumes wf: "fs_wf s" and pa: "walk s ps = Some pa"
    and m: "dir_of s pa = Some m" "dir_of t pa = Some m'"
    and names: "\<And>k. k \<noteq> n \<Longrightarrow> map_of m' k = map_of m k"
    and dirs: "\<And>x qs. walk s qs = Some x \<Longrightarrow> x \<noteq> pa \<Longrightarrow> dir_of t x = dir_of s x"
  shows "walk t (ps @ n # rs) = walk_from t (map_of m' n) rs"
proof -
  have "\<not> prefix (ps @ [n]) ps" by (simp add: prefix_def)
  then have "walk t ps = Some pa"
    using walk_other [OF wf pa m names dirs] pa by simp
  with m show ?thesis by (simp add: walk_from_append)
qed

lemma walk_empty_dir: "dir_of t c = Some [] \<Longrightarrow> walk_from t (Some c) (r # rs) = None"
  by simp

lemma walk_file: "dir_of t c = None \<Longrightarrow> walk_from t (Some c) (r # rs) = None"
  by simp

lemma not_DirV_cases:
  assumes "view s ps \<noteq> Some DirV"
  obtains "walk s ps = None" | a where "walk s ps = Some a" "dir_of s a = None"
  using assms by (cases "walk s ps") (auto simp: view_def view_at_def split: if_splits)

text \<open>A path below a leaf of the view is absent.\<close>

lemma view_below:
  assumes "view s ps \<noteq> Some DirV"
  shows "view s (ps @ r # rs) = None"
  using assms by (auto simp: view_def view_at_def walk_from_append split: option.splits)

lemma view_child:
  assumes "walk s ps = Some pa" "dir_of s pa = Some m"
  shows "view s (ps @ [n]) = map_option (view_at s) (map_of m n)"
  using assms by (simp add: view_def walk_snoc_eq)

section \<open>Creating and writing files and directories\<close>

text \<open>A fresh leaf entered in a directory.\<close>

lemma view_add_child:
  assumes wf: "fs_wf s" and pa: "walk s ps = Some pa" and m: "dir_of s pa = Some m"
    and n: "map_of m n = None" and ty: "ty = DirT \<longleftrightarrow> content = None"
  shows "view (set_child pa n (fs_inoCounter s) (snd (makeInode ty content s))) =
           (view s)(ps @ [n] \<mapsto> (case content of None \<Rightarrow> DirV | Some d \<Rightarrow> FileV d))"
    (is "view ?t = _")
proof
  fix qs
  let ?c = "fs_inoCounter s"
  note add = fs_wf_add_child [OF wf m n ty]
  have reach: "x \<noteq> ?c" if "walk s qs = Some x" for x qs
    using walk_allocated(2) [OF wf that] by simp
  have dt: "dir_of ?t pa = Some (AList.update n ?c m)" by (simp add: add(2))
  have dirs: "dir_of ?t x = dir_of s x" if "walk s qs = Some x" "x \<noteq> pa" for x qs
    using that reach by (simp add: add(2))
  have conts: "content_at x ?t = content_at x s" if "walk s qs = Some x" for x qs
    using reach [OF that] add(3) [of x] by simp
  show "view ?t qs = ((view s)(ps @ [n] \<mapsto> (case content of None \<Rightarrow> DirV | Some d \<Rightarrow> FileV d))) qs"
  proof (cases "prefix (ps @ [n]) qs")
    case False
    then have "view ?t qs = view s qs"
      by (intro view_other [OF wf pa m dt _ dirs conts]) simp_all
    with False show ?thesis by auto
  next
    case True
    then obtain rs where qs: "qs = ps @ n # rs" by (auto simp: prefix_def)
    have w: "walk ?t qs = walk_from ?t (Some ?c) rs"
      unfolding qs using walk_through [OF wf pa m dt _ dirs] by simp
    have "pa \<noteq> ?c" by (rule add(5))
    then have dc: "dir_of ?t ?c = (if ty = DirT then Some [] else None)" by (simp add: add(2))
    show ?thesis
    proof (cases rs)
      case Nil
      with w dc qs ty show ?thesis
        by (auto simp: view_def view_at_def content_at_makeInode split: option.splits)
    next
      case (Cons r rs')
      with w dc have "view ?t qs = None" by (cases "ty = DirT") (simp_all add: view_def)
      moreover have "view s qs = None"
        using pa m n qs by (simp add: view_def walk_from_append)
      ultimately show ?thesis using qs Cons by simp
    qed
  qed
qed

lemma write_existing_heap:
  assumes "fs_heap s c = Some nd"
  shows "fs_heap (write_existing norm c d s) =
           fs_heap (upd_inode c (\<lambda>n. n\<lparr>i_content := Some d, i_hash := fnv1a d,
              i_version := Suc (i_version n), i_mtime := fst (date_now s),
              i_ctime := fst (date_now s)\<rparr>) (snd (date_now s)))"
  using assms by (simp add: write_existing_def Let_def split: prod.splits)

lemma content_upd:
  "content_at a (upd_inode c f s) =
     (if a = c then (case map_option f (fs_heap s c) of
                       Some nd \<Rightarrow> (case i_content nd of Some d \<Rightarrow> d | None \<Rightarrow> []) | None \<Rightarrow> [])
      else content_at a s)"
  by (cases "fs_heap s c") (simp_all add: content_at_def heap_upd_inode)

text \<open>Overwriting the content of a file.\<close>

lemma view_upd_content:
  assumes wf: "fs_wf s" and w: "walk s ps = Some c" and dc: "dir_of s c = None"
    and d: "dir_of t = dir_of s"
    and co: "\<And>a. content_at a t = (if a = c then d else content_at a s)"
  shows "view t = (view s)(ps \<mapsto> FileV d)"
proof
  fix qs
  have "walk t qs = walk s qs" using d by (rule walk_from_cong)
  moreover have "walk s qs = Some c \<Longrightarrow> qs = ps" using walk_unique [OF wf] w by blast
  ultimately show "view t qs = ((view s)(ps \<mapsto> FileV d)) qs"
    using w dc by (cases "walk s qs") (auto simp: view_def view_at_def d co)
qed

lemma comps_cases:
  assumes "comps p \<noteq> []"
  obtains ps n where "comps p = ps @ [n]" "parentAndName (normalizePath p) = (Some (render_path ps), n)"
    "\<And>s. resolve_parent (Some (render_path ps)) s = walk s ps"
proof -
  obtain ps n where c: "comps p = ps @ [n]"
    using assms by (metis rev_exhaust)
  show ?thesis using that [OF c] resolve_parent_snoc [OF c] by blast
qed

lemma writeFile_spec:
  assumes wf: "fs_wf s" and p: "comps p \<noteq> []"
  shows "agrees (writeFile p d s) (spec_write (comps p) d (view s)) (view s)"
proof -
  obtain ps n where c: "comps p = ps @ [n]"
      "parentAndName (normalizePath p) = (Some (render_path ps), n)"
      "\<And>s. resolve_parent (Some (render_path ps)) s = walk s ps"
    using comps_cases [OF p] by metis
  show ?thesis
  proof (cases "view s ps = Some DirV")
    case False
    then have "spec_write (comps p) d (view s) = Inl ENOENT" by (simp add: spec_write_def c)
    moreover from False have "writeFile p d s = (fs_throw ENOENT ''open'' (normalizePath p), s)"
      by (rule not_DirV_cases) (simp_all add: writeFile_def c Let_def)
    ultimately show ?thesis by simp
  next
    case True
    then obtain pa m where pa: "walk s ps = Some pa" and m: "dir_of s pa = Some m"
      by (auto simp: view_DirV)
    note vc = view_child [OF pa m, of n]
    show ?thesis
    proof (cases "map_of m n")
      case None
      then have "writeFile p d s = (Inr (), write_new (normalizePath p) pa n d s)"
        by (simp add: writeFile_def c Let_def pa m)
      moreover have "view (write_new (normalizePath p) pa n d s) = (view s)(ps @ [n] \<mapsto> FileV d)"
        using view_add_child [OF wf pa m None, of FileT "Some d"]
        by (simp add: write_new_def Let_def split_beta makeInode_addr)
      ultimately show ?thesis using True vc None by (simp add: spec_write_def c)
    next
      case (Some x)
      then have w: "walk s (ps @ [n]) = Some x" using pa m by (simp add: walk_snoc_eq)
      obtain nd where nd: "fs_heap s x = Some nd" using wf_child(2) [OF wf m Some] by auto
      show ?thesis
      proof (cases "dir_of s x")
        case None
        let ?t = "write_existing (normalizePath p) x d s"
        note h = write_existing_heap [OF nd, of "normalizePath p" d]
        have "dir_of ?t = dir_of s"
          using dir_of_heap_cong [OF h] by (simp add: dir_of_upd_shape keeps_shape_def)
        moreover have "content_at a ?t = (if a = x then d else content_at a s)" for a
          using content_heap_cong [OF h, of a] by (simp add: content_upd nd)
        ultimately have "view ?t = (view s)(ps @ [n] \<mapsto> FileV d)"
          by (rule view_upd_content [OF wf w None])
        moreover have "writeFile p d s = (Inr (), ?t)"
          by (simp add: writeFile_def c Let_def pa m Some None)
        ultimately show ?thesis using True vc Some None by (simp add: spec_write_def c view_at_def)
      next
        case (Some k)
        then show ?thesis using True vc \<open>map_of m n = Some x\<close>
          by (simp add: writeFile_def c Let_def pa m spec_write_def view_at_def)
      qed
    qed
  qed
qed

lemma mkdir_spec:
  assumes wf: "fs_wf s" and p: "comps p \<noteq> []"
  shows "agrees (mkdir p False s) (spec_mkdir (comps p) (view s)) (view s)"
proof -
  obtain ps n where c: "comps p = ps @ [n]"
      "parentAndName (normalizePath p) = (Some (render_path ps), n)"
      "\<And>s. resolve_parent (Some (render_path ps)) s = walk s ps"
    using comps_cases [OF p] by metis
  show ?thesis
  proof (cases "view s ps = Some DirV")
    case False
    then have "mkdir p False s = (fs_throw ENOENT ''mkdir'' (normalizePath p), s)"
      by (rule not_DirV_cases) (simp_all add: mkdir_def c Let_def)
    with False show ?thesis by (simp add: spec_mkdir_def c)
  next
    case True
    then obtain pa m where pa: "walk s ps = Some pa" and m: "dir_of s pa = Some m"
      by (auto simp: view_DirV)
    note vc = view_child [OF pa m, of n]
    show ?thesis
    proof (cases "map_of m n")
      case None
      then have "view (snd (mkdir p False s)) = (view s)(ps @ [n] \<mapsto> DirV)"
          "fst (mkdir p False s) = Inr ()"
        using view_add_child [OF wf pa m None, of DirT None]
        by (simp_all add: mkdir_def c Let_def pa m split_beta makeInode_addr)
      with True vc None show ?thesis
        by (cases "mkdir p False s") (simp add: spec_mkdir_def c)
    next
      case (Some x)
      with True vc show ?thesis by (simp add: mkdir_def c Let_def pa m spec_mkdir_def)
    qed
  qed
qed

section \<open>Removing\<close>

text \<open>Removing one entry removes the subtree under it.\<close>

lemma view_del_child:
  assumes wf: "fs_wf s" and pa: "walk s ps = Some pa" and m: "dir_of s pa = Some m"
  shows "view (del_child pa n s) = (\<lambda>qs. if prefix (ps @ [n]) qs then None else view s qs)"
    (is "view ?t = _")
proof
  fix qs
  have dt: "dir_of ?t pa = Some (AList.delete n m)" by (simp add: dir_of_del_child [OF m])
  have dirs: "dir_of ?t x = dir_of s x" if "walk s rs = Some x" "x \<noteq> pa" for x rs
    using that by (simp add: dir_of_del_child [OF m])
  show "view ?t qs = (if prefix (ps @ [n]) qs then None else view s qs)"
  proof (cases "prefix (ps @ [n]) qs")
    case False
    then have "view ?t qs = view s qs"
      by (intro view_other [OF wf pa m dt _ dirs]) simp_all
    with False show ?thesis by simp
  next
    case True
    then obtain rs where qs: "qs = ps @ n # rs" by (auto simp: prefix_def)
    have "walk ?t qs = None"
      unfolding qs using walk_through [OF wf pa m dt _ dirs] by simp
    with True show ?thesis by (simp add: view_def)
  qed
qed

text \<open>When nothing is below the entry, only the entry itself goes.\<close>

lemma view_del_leaf:
  assumes wf: "fs_wf s" and pa: "walk s ps = Some pa" and m: "dir_of s pa = Some m"
    and leaf: "\<And>r rs. view s ((ps @ [n]) @ r # rs) = None"
  shows "view (del_child pa n s) = (view s)(ps @ [n] := None)"
proof
  fix qs
  show "view (del_child pa n s) qs = ((view s)(ps @ [n] := None)) qs"
  proof (cases "prefix (ps @ [n]) qs")
    case True
    then obtain rs where rs: "qs = (ps @ [n]) @ rs" by (auto simp: prefix_def)
    with leaf show ?thesis
      by (cases rs) (simp_all add: view_del_child [OF wf pa m])
  next
    case False
    then show ?thesis by (auto simp: view_del_child [OF wf pa m])
  qed
qed

lemma view_None_no_dir:
  assumes "view s ps \<noteq> Some DirV" shows "view s (ps @ [n]) = None"
  using view_below [OF assms, of n "[]"] by simp

lemma unlink_spec:
  assumes wf: "fs_wf s" and p: "comps p \<noteq> []"
  shows "agrees (unlink p s) (spec_unlink (comps p) (view s)) (view s)"
proof -
  obtain ps n where c: "comps p = ps @ [n]"
      "parentAndName (normalizePath p) = (Some (render_path ps), n)"
      "\<And>s. resolve_parent (Some (render_path ps)) s = walk s ps"
    using comps_cases [OF p] by metis
  show ?thesis
  proof (cases "view s ps = Some DirV")
    case False
    then have "unlink p s = (fs_throw ENOENT ''unlink'' (normalizePath p), s)"
      by (rule not_DirV_cases) (simp_all add: unlink_def c Let_def)
    with view_None_no_dir [OF False] show ?thesis by (simp add: spec_unlink_def c)
  next
    case True
    then obtain pa m where pa: "walk s ps = Some pa" and m: "dir_of s pa = Some m"
      by (auto simp: view_DirV)
    note vc = view_child [OF pa m, of n]
    show ?thesis
    proof (cases "map_of m n")
      case None
      with vc show ?thesis by (simp add: unlink_def c Let_def pa m spec_unlink_def)
    next
      case (Some x)
      show ?thesis
      proof (cases "dir_of s x")
        case None
        then have v: "view s (ps @ [n]) = Some (FileV (content_at x s))"
          using vc Some by (simp add: view_at_def)
        then have "view s ((ps @ [n]) @ r # rs) = None" for r rs
          by (intro view_below) simp
        then have "view (del_child pa n s) = (view s)(ps @ [n] := None)"
          by (rule view_del_leaf [OF wf pa m])
        with v show ?thesis
          by (simp add: unlink_def c Let_def pa m Some None spec_unlink_def)
      next
        case (Some k)
        with vc \<open>map_of m n = Some x\<close> show ?thesis
          by (simp add: unlink_def c Let_def pa m spec_unlink_def view_at_def)
      qed
    qed
  qed
qed

lemma empty_dir_iff:
  assumes "walk s ps = Some a" "dir_of s a = Some m"
  shows "(\<exists>n. view s (ps @ [n]) \<noteq> None) \<longleftrightarrow> m \<noteq> []"
proof
  assume "\<exists>n. view s (ps @ [n]) \<noteq> None"
  then show "m \<noteq> []" using view_child [OF assms] by auto
next
  assume "m \<noteq> []"
  then obtain n c m' where "m = (n, c) # m'" by (cases m) auto
  then have "view s (ps @ [n]) \<noteq> None" using view_child [OF assms] by simp
  then show "\<exists>n. view s (ps @ [n]) \<noteq> None" ..
qed

lemma rmdir_spec:
  assumes wf: "fs_wf s" and p: "comps p \<noteq> []"
  shows "agrees (rmdir p s) (spec_rmdir (comps p) (view s)) (view s)"
proof -
  obtain ps n where c: "comps p = ps @ [n]"
      "parentAndName (normalizePath p) = (Some (render_path ps), n)"
      "\<And>s. resolve_parent (Some (render_path ps)) s = walk s ps"
    using comps_cases [OF p] by metis
  have nr: "normalizePath p \<noteq> ''/''" using p by (simp add: normalize_root_iff)
  have res: "resolve p s = walk s (ps @ [n])" by (simp add: resolve_walk c)
  show ?thesis
  proof (cases "walk s (ps @ [n])")
    case None
    then show ?thesis by (simp add: rmdir_def Let_def nr res spec_rmdir_def c view_def)
  next
    case (Some x)
    then obtain pa m where pa: "walk s ps = Some pa" and m: "dir_of s pa = Some m"
      by (auto simp: walk_snoc)
    show ?thesis
    proof (cases "dir_of s x")
      case None
      with Some show ?thesis
        by (simp add: rmdir_def Let_def nr res spec_rmdir_def c view_def view_at_def)
    next
      case (Some k)
      note d = this
      then have v: "view s (ps @ [n]) = Some DirV"
        using \<open>walk s (ps @ [n]) = Some x\<close> by (simp add: view_def view_at_def)
      note em = empty_dir_iff [OF \<open>walk s (ps @ [n]) = Some x\<close> d]
      show ?thesis
      proof (cases "k = []")
        case True
        then have "view s ((ps @ [n]) @ r # rs) = None" for r rs
          using \<open>walk s (ps @ [n]) = Some x\<close> d
          by (simp add: view_def walk_from_append [of s _ "ps @ [n]"] del: append_assoc)
        then have "view (del_child pa n s) = (view s)(ps @ [n] := None)"
          by (rule view_del_leaf [OF wf pa m])
        with v em True d show ?thesis
          using \<open>walk s (ps @ [n]) = Some x\<close>
          by (simp add: rmdir_def Let_def nr res spec_rmdir_def c pa)
      next
        case False
        with v em d show ?thesis
          using \<open>walk s (ps @ [n]) = Some x\<close>
          by (simp add: rmdir_def Let_def nr res spec_rmdir_def c)
      qed
    qed
  qed
qed

section \<open>Every operation keeps the invariant\<close>

lemma fs_wf_makeInode:
  assumes "fs_wf s" "dir_of s pa = Some m" "map_of m n = None" "ty = DirT \<longleftrightarrow> content = None"
  shows "fs_wf (set_child pa n (fst (makeInode ty content s)) (snd (makeInode ty content s)))"
  using fs_wf_add_child(1) [OF assms] by (simp add: makeInode_addr)

lemma shape_simps [simp]:
  "keeps_shape (\<lambda>n. n\<lparr>i_atime := t\<rparr>)"
  "keeps_shape (\<lambda>n. n\<lparr>i_ctime := t\<rparr>)"
  "keeps_shape (\<lambda>n. n\<lparr>i_version := Suc (i_version n)\<rparr>)"
  "keeps_shape (\<lambda>n. n\<lparr>i_hash := h\<rparr>)"
  "keeps_shape (\<lambda>n. n\<lparr>i_content := c, i_mtime := t, i_version := Suc (i_version n)\<rparr>)"
  "keeps_shape (\<lambda>n. n\<lparr>i_content := c, i_hash := h, i_version := Suc (i_version n),
                      i_mtime := t, i_ctime := t'\<rparr>)"
  by (simp_all add: keeps_shape_def)

lemma wf_inode_simps [simp]:
  "wf_inode (n\<lparr>i_atime := t\<rparr>) = wf_inode n"
  "wf_inode (n\<lparr>i_ctime := t\<rparr>) = wf_inode n"
  "wf_inode (n\<lparr>i_version := v\<rparr>) = wf_inode n"
  "wf_inode (n\<lparr>i_hash := h\<rparr>) = wf_inode n"
  "wf_inode n \<Longrightarrow> i_type n \<noteq> DirT \<Longrightarrow> wf_inode (n\<lparr>i_content := Some d, i_mtime := t, i_version := v\<rparr>)"
  "wf_inode n \<Longrightarrow> i_type n \<noteq> DirT \<Longrightarrow>
     wf_inode (n\<lparr>i_content := Some d, i_hash := h, i_version := v, i_mtime := t\<rparr>)"
  by (simp_all add: wf_inode_def)

lemma not_dir_type:
  assumes "fs_wf s" "dir_of s a = None" "fs_heap s a = Some nd"
  shows "i_type nd \<noteq> DirT"
  using fs_wfD(3) [OF assms(1,3)] assms(2,3) by (auto simp: dir_of_def wf_inode_def split: if_splits)

lemma fs_wf_upd_meta:
  assumes "fs_wf s" "keeps_shape f" "\<And>n. wf_inode (f n) = wf_inode n"
  shows "fs_wf (upd_inode a f s)"
  using assms fs_wfD(3) [OF assms(1)] by (intro fs_wf_upd_inode) auto

lemma fs_wf_touch [simp]: "fs_wf s \<Longrightarrow> fs_wf (touch_atime a s)"
  by (simp add: touch_atime_def split_beta fs_wf_upd_meta)

lemma view_touch [simp]: "view (touch_atime a s) = view s"
proof -
  let ?f = "\<lambda>nd. nd\<lparr>i_atime := fst (date_now s)\<rparr>"
  let ?s = "snd (date_now s)"
  have d: "dir_of (upd_inode a ?f ?s) = dir_of s"
    by (simp add: dir_of_upd_shape)
  have "content_at b (upd_inode a ?f ?s) = content_at b s" for b
    by (cases "b = a"; cases "fs_heap s a") (simp_all add: content_at_def heap_upd_inode)
  then have "view_at (upd_inode a ?f ?s) = view_at s"
    by (simp add: fun_eq_iff view_at_def d)
  then have "view (upd_inode a ?f ?s) = view s"
    using walk_from_cong [OF d] by (intro ext) (simp add: view_def)
  then show ?thesis by (simp add: touch_atime_def split_beta)
qed

lemma fs_wf_write_existing:
  assumes wf: "fs_wf s" and d: "dir_of s c = None"
  shows "fs_wf (write_existing norm c data s)"
proof (cases "fs_heap s c")
  case None
  with wf show ?thesis by (simp add: write_existing_def)
next
  case (Some nd)
  with not_dir_type [OF wf d] fs_wfD(3) [OF wf] wf show ?thesis
    by (auto simp: write_existing_def Let_def split_beta intro!: fs_wf_upd_inode)
qed

lemma fs_wf_writeFile: "fs_wf s \<Longrightarrow> fs_wf (snd (writeFile p d s))"
  by (auto simp: writeFile_def Let_def write_new_def split_beta fs_wf_write_existing
      intro!: fs_wf_makeInode split: option.splits if_splits)

lemma fs_wf_mkdir1: "fs_wf s \<Longrightarrow> fs_wf (snd (mkdir p False s))"
  by (auto simp: mkdir_def Let_def split_beta intro!: fs_wf_makeInode
      split: option.splits if_splits)

lemma fs_wf_unlink: "fs_wf s \<Longrightarrow> fs_wf (snd (unlink p s))"
  by (auto simp: unlink_def Let_def split_beta intro!: fs_wf_del_child
      split: option.splits if_splits)

lemma fs_wf_readFile: "fs_wf s \<Longrightarrow> fs_wf (snd (readFile p s))"
  by (auto simp: readFile_def Let_def split: option.splits if_splits)

lemma fs_wf_readdir: "fs_wf s \<Longrightarrow> fs_wf (snd (readdir p s))"
  by (auto simp: readdir_def split: option.splits)

lemma fs_wf_stat: "fs_wf s \<Longrightarrow> fs_wf (snd (stat p s))"
  by (auto simp: stat_def Let_def split: option.splits)

lemma del_child_not_dir:
  assumes wf: "fs_wf s" and "dir_of s a = None"
  shows "fs_heap (del_child a n s) = fs_heap s"
proof
  fix b
  show "fs_heap (del_child a n s) b = fs_heap s b"
  proof (cases "fs_heap s a")
    case None
    then show ?thesis by (cases "a = b") (simp_all add: del_child_def heap_upd_inode)
  next
    case (Some nd)
    then have "i_children nd = None"
      using fs_wfD(3) [OF wf Some] not_dir_type [OF assms Some] by (simp add: wf_inode_def)
    with Some show ?thesis by (cases "a = b") (simp_all add: del_child_def heap_upd_inode)
  qed
qed

lemma fs_wf_del: "fs_wf s \<Longrightarrow> fs_wf (del_child a n s)"
  by (cases "dir_of s a")
    (auto simp: fs_wf_del_child fs_wf_heap_cong [OF del_child_not_dir])

lemma fs_wf_rmdir: "fs_wf s \<Longrightarrow> fs_wf (snd (rmdir p s))"
  by (auto simp: rmdir_def Let_def split_beta fs_wf_del split: option.splits if_splits)

text \<open>Meta-data updates leave the view alone.\<close>

lemma view_upd_meta:
  assumes "keeps_shape f" "\<And>n. i_content (f n) = i_content n"
  shows "view (upd_inode a f s) = view s"
proof -
  have d: "dir_of (upd_inode a f s) = dir_of s" using assms(1) by (rule dir_of_upd_shape)
  have "content_at b (upd_inode a f s) = content_at b s" for b
    using assms(2) by (cases "b = a"; cases "fs_heap s a") (simp_all add: content_at_def heap_upd_inode)
  then have "view_at (upd_inode a f s) = view_at s" by (simp add: fun_eq_iff view_at_def d)
  then show ?thesis using walk_from_cong [OF d] by (intro ext) (simp add: view_def)
qed

section \<open>Renaming\<close>

text \<open>The state after the two map updates of \<open>rename\<close>.\<close>

definition relinked :: "nat \<Rightarrow> string \<Rightarrow> nat \<Rightarrow> string \<Rightarrow> nat \<Rightarrow> fs \<Rightarrow> fs" where
  "relinked opa oldName npa newName c s = set_child npa newName c (del_child opa oldName s)"

lemma rename_state:
  assumes "parentAndName (normalizePath old) = (op, on)" "resolve_parent op s = Some opa"
    "dir_of s opa = Some om" "map_of om on = Some c"
    "parentAndName (normalizePath new) = (np, nn)" "resolve_parent np s = Some npa"
    "dir_of s npa \<noteq> None"
  shows "is_ok (fst (rename old new s))"
    and "view (snd (rename old new s)) = view (relinked opa on npa nn c s)"
    and "fs_wf (relinked opa on npa nn c s) \<Longrightarrow> fs_wf (snd (rename old new s))"
  using assms
  by (auto simp: rename_def Let_def split_beta relinked_def view_upd_meta fs_wf_upd_meta)

lemma relinked_wf:
  assumes wf: "fs_wf s" and om: "dir_of s opa = Some om" "map_of om on = Some c"
    and npa: "dir_of s npa \<noteq> None"
  shows "fs_wf (relinked opa on npa nn c s)"
proof -
  let ?s1 = "del_child opa on s"
  note d1 = dir_of_del_child [OF om(1), of on]
  obtain m1 where m1: "dir_of ?s1 npa = Some m1"
    using npa by (cases "npa = opa") (auto simp: d1)
  have e: "edge s opa on c" using om by (auto simp: edge_def)
  have "\<not> edge ?s1 a k c" for a k
  proof
    assume "edge ?s1 a k c"
    then have "edge s a k c" "\<not> (a = opa \<and> k = on)"
      using om by (auto simp: edge_def d1 split: if_splits)
    with e fs_wfD(5) [OF wf] show False unfolding unique_parents_def by blast
  qed
  then show ?thesis
    unfolding relinked_def
    using fs_wf_del_child [OF wf om(1)] m1 edge_wf [OF wf e] by (intro fs_wf_relink) auto
qed

lemma fs_wf_rename: "fs_wf s \<Longrightarrow> fs_wf (snd (rename old new s))"
  using relinked_wf [of s]
  by (auto simp: rename_def Let_def split_beta relinked_def fs_wf_upd_meta
      split: option.splits if_splits)

lemma view_relinked:
  assumes wf: "fs_wf s" and opa: "walk s ps = Some opa" "dir_of s opa = Some om" "map_of om on = Some c"
    and npa: "walk s qs = Some npa" "dir_of s npa \<noteq> None"
    and nest: "\<not> strict_prefix (ps @ [on]) (qs @ [nn])"
  shows "view (relinked opa on npa nn c s) = move_view (ps @ [on]) (qs @ [nn]) (view s)"
    (is "view ?t = _")
proof
  fix rs
  let ?s1 = "del_child opa on s"
  have wf1: "fs_wf ?s1" by (rule fs_wf_del_child [OF wf opa(2)])
  note d1 = dir_of_del_child [OF opa(2), of on]
  have notin: "\<not> prefix (ps @ [on]) qs"
    using nest by (auto simp: strict_prefix_def prefix_def)
  have w1: "walk ?s1 qs = Some npa"
    using walk_other [OF wf opa(1,2), of ?s1 "AList.delete on om" on qs] notin npa(1) by (simp add: d1)
  obtain m1 where m1: "dir_of ?s1 npa = Some m1"
    using npa(2) by (cases "npa = opa") (auto simp: d1)
  note dt = dir_of_set_child [OF m1, of nn c]
  have tt: "dir_of ?t npa = Some (AList.update nn c m1)" by (simp add: relinked_def dt)
  have dirs: "dir_of ?t x = dir_of ?s1 x" if "walk ?s1 ys = Some x" "x \<noteq> npa" for x ys
    using that by (simp add: relinked_def dt)
  have c: "walk s (ps @ [on]) = Some c" using opa by (simp add: walk_snoc_eq)
  have below: "x \<noteq> opa \<and> x \<noteq> npa" if "walk_from s (Some c) zs = Some x" for x zs
  proof -
    have x: "walk s ((ps @ [on]) @ zs) = Some x" using that c by (simp only: walk_from_append)
    have "x \<noteq> opa"
    proof
      assume "x = opa"
      with walk_unique [OF wf x] opa(1) have "(ps @ [on]) @ zs = ps" by blast
      then show False by simp
    qed
    moreover have "x \<noteq> npa"
    proof
      assume "x = npa"
      with walk_unique [OF wf x] npa(1) have "qs = (ps @ [on]) @ zs" by blast
      with nest show False by (simp add: strict_prefix_def)
    qed
    ultimately show ?thesis ..
  qed
  show "view ?t rs = move_view (ps @ [on]) (qs @ [nn]) (view s) rs"
  proof (cases "prefix (qs @ [nn]) rs")
    case False
    then have "view ?t rs = view ?s1 rs"
      by (intro view_other [OF wf1 w1 m1 tt _ dirs]) (simp_all add: relinked_def)
    with False show ?thesis by (simp add: move_view_def view_del_child [OF wf opa(1,2)])
  next
    case True
    then obtain xs where rs: "rs = qs @ nn # xs" by (auto simp: prefix_def)
    have "walk ?t rs = walk_from ?t (Some c) xs"
      unfolding rs using walk_through [OF wf1 w1 m1 tt _ dirs] by simp
    also have "\<dots> = walk_from s (Some c) xs"
      using below by (intro walk_from_same) (auto simp: relinked_def dt d1)
    also have "\<dots> = walk s ((ps @ [on]) @ xs)" using c by (simp only: walk_from_append)
    finally have w: "walk ?t rs = walk s ((ps @ [on]) @ xs)" .
    have "view_at ?t x = view_at s x" if "walk s ((ps @ [on]) @ xs) = Some x" for x
    proof (rule view_at_same)
      have "walk_from s (Some c) xs = Some x" using that c by (simp only: walk_from_append)
      then show "dir_of ?t x = dir_of s x" using below by (simp add: relinked_def dt d1)
    qed (simp add: relinked_def)
    with w True rs show ?thesis
      by (cases "walk s ((ps @ [on]) @ xs)") (simp_all add: view_def move_view_def)
  qed
qed

text \<open>
  \<open>rename\<close> moves the subtree, unless the target lies inside it: that case is the finding at
  the end of this theory.
\<close>

lemma rename_view:
  assumes wf: "fs_wf s" and p: "comps old \<noteq> []" "comps new \<noteq> []"
    and src: "view s (comps old) \<noteq> None"
    and dst: "view s (butlast (comps new)) = Some DirV"
    and nest: "\<not> strict_prefix (comps old) (comps new)"
  shows "is_ok (fst (rename old new s))"
    and "view (snd (rename old new s)) = move_view (comps old) (comps new) (view s)"
proof -
  obtain ps on where c: "comps old = ps @ [on]"
      "parentAndName (normalizePath old) = (Some (render_path ps), on)"
      "\<And>s. resolve_parent (Some (render_path ps)) s = walk s ps"
    using comps_cases [OF p(1)] by metis
  obtain qs nn where d: "comps new = qs @ [nn]"
      "parentAndName (normalizePath new) = (Some (render_path qs), nn)"
      "\<And>s. resolve_parent (Some (render_path qs)) s = walk s qs"
    using comps_cases [OF p(2)] by metis
  obtain opa om x where o: "walk s ps = Some opa" "dir_of s opa = Some om" "map_of om on = Some x"
    using src by (auto simp: view_def c walk_snoc)
  obtain npa nm where n: "walk s qs = Some npa" "dir_of s npa = Some nm"
    using dst by (auto simp: view_DirV d)
  have n': "dir_of s npa \<noteq> None" using n by simp
  note r = rename_state [OF c(2) _ o(2,3) d(2) _ n']
  show "is_ok (fst (rename old new s))" using r(1) c(3) d(3) o(1) n(1) by simp
  show "view (snd (rename old new s)) = move_view (comps old) (comps new) (view s)"
    using r(2) c d o n nest view_relinked [OF wf o n(1) n'] by simp
qed

section \<open>Creating a chain of directories\<close>

lemma prefix_take: "prefix rs ps \<longleftrightarrow> (\<exists>k \<le> length ps. rs = take k ps)"
  by (metis append_eq_conv_conj append_take_drop_id length_append le_add1 prefix_def)

lemma view_prefix_dir:
  assumes "view s ps = Some DirV" "prefix rs ps"
  shows "view s rs = Some DirV"
proof (rule ccontr)
  assume a: "view s rs \<noteq> Some DirV"
  obtain xs where "ps = rs @ xs" using assms(2) by (auto simp: prefix_def)
  with assms(1) a view_below [OF a] show False by (cases xs) auto
qed

text \<open>
  One step of the loop: the component exists, or it is created; in both cases the next
  directory is at the end of the extended path.
\<close>

lemma mkdir_step_new:
  assumes wf: "fs_wf s" and cur: "walk s qs = Some cur" and m: "dir_of s cur = Some m"
    and n: "map_of m part = None"
  defines "c \<equiv> fst (makeInode DirT None s)"
  defines "s2 \<equiv> set_child cur part c (snd (makeInode DirT None s))"
  shows "fs_wf s2" "walk s2 (qs @ [part]) = Some c" "dir_of s2 c = Some []"
    "view s2 = (view s)(qs @ [part] \<mapsto> DirV)"
proof -
  have cc: "c = fs_inoCounter s" by (simp add: c_def makeInode_addr)
  note add = fs_wf_add_child [OF wf m n, of DirT None, simplified]
  show "fs_wf s2" using add(1) by (simp add: s2_def cc)
  have d: "dir_of s2 = (dir_of s)(c := Some [], cur := Some (AList.update part c m))"
    using add(2) by (simp add: s2_def cc)
  moreover have "cur \<noteq> c" using add(5) by (simp add: cc)
  ultimately show dc: "dir_of s2 c = Some []" by simp
  show "view s2 = (view s)(qs @ [part] \<mapsto> DirV)"
    using view_add_child [OF wf cur m n, of DirT None] by (simp add: s2_def cc)
  have "dir_of s2 x = dir_of s x" if "walk s ys = Some x" "x \<noteq> cur" for x ys
    using that d walk_allocated(2) [OF wf that(1)] by (simp add: cc)
  then have "walk s2 (qs @ part # []) = walk_from s2 (map_of (AList.update part c m) part) []"
    using walk_through [OF wf cur m, of s2 "AList.update part c m" part "[]"] d
    by simp
  then show "walk s2 (qs @ [part]) = Some c" by simp
qed

lemma mkdir_loop_spec:
  assumes "fs_wf s" "walk s qs = Some cur" "dir_of s cur \<noteq> None"
  shows "fs_wf (snd (mkdir_loop norm parts cur built s)) \<and>
     (if \<exists>k \<le> length parts. \<exists>d. view s (qs @ take k parts) = Some (FileV d)
      then mkdir_loop norm parts cur built s = (fs_throw ENOTDIR ''mkdir'' norm, s)
      else fst (mkdir_loop norm parts cur built s) = Inr () \<and>
           view (snd (mkdir_loop norm parts cur built s)) =
             (\<lambda>rs. if prefix rs (qs @ parts) then Some DirV else view s rs))"
  using assms
proof (induction parts arbitrary: s qs cur built)
  case Nil
  then have v: "view s qs = Some DirV" by (auto simp: view_DirV)
  then have "view s = (\<lambda>rs. if prefix rs qs then Some DirV else view s rs)"
    by (auto simp: fun_eq_iff dest: view_prefix_dir)
  with v Nil show ?case by auto
next
  case (Cons part parts)
  note wf = Cons.prems(1)
  obtain m where m: "dir_of s cur = Some m" using Cons.prems(3) by auto
  have vq: "view s qs = Some DirV" using Cons.prems(2) m by (auto simp: view_DirV)
  have shift: "(\<exists>k \<le> length (part # parts). \<exists>d. view s (qs @ take k (part # parts)) = Some (FileV d))
      \<longleftrightarrow> (\<exists>k \<le> length parts. \<exists>d. view s ((qs @ [part]) @ take k parts) = Some (FileV d))"
    (is "?L \<longleftrightarrow> ?R")
  proof
    assume ?L
    then obtain k d where k: "k \<le> length (part # parts)" "view s (qs @ take k (part # parts)) = Some (FileV d)"
      by blast
    then have "k \<noteq> 0" using vq by (cases k) auto
    then obtain j where "k = Suc j" using not0_implies_Suc by blast
    with k show ?R by auto
  next
    assume ?R
    then obtain j d where "j \<le> length parts" "view s ((qs @ [part]) @ take j parts) = Some (FileV d)"
      by blast
    then have "Suc j \<le> length (part # parts)" "view s (qs @ take (Suc j) (part # parts)) = Some (FileV d)"
      by simp_all
    then show ?L by blast
  qed
  show ?case
  proof (cases "map_of m part")
    case (Some c)
    then have w: "walk s (qs @ [part]) = Some c" using Cons.prems(2) m by (simp add: walk_snoc_eq)
    show ?thesis
    proof (cases "dir_of s c")
      case None
      then have "view s ((qs @ [part]) @ take 0 parts) = Some (FileV (content_at c s))"
        using w by (simp add: view_def view_at_def)
      then have R: "\<exists>k \<le> length parts. \<exists>d. view s ((qs @ [part]) @ take k parts) = Some (FileV d)"
        by blast
      show ?thesis unfolding shift using R Some None m wf by simp
    next
      case (Some k)
      with \<open>map_of m part = Some c\<close> m
      have eq: "mkdir_loop norm (part # parts) cur built s = mkdir_loop norm parts c (built @ slash # part) s"
        by (simp add: Let_def)
      from Some have "dir_of s c \<noteq> None" by simp
      note IH = Cons.IH [OF wf w this, of "built @ slash # part"]
      show ?thesis using IH unfolding shift eq by simp
    qed
  next
    case None
    let ?c = "fst (makeInode DirT None s)"
    let ?s2 = "set_child cur part ?c (snd (makeInode DirT None s))"
    let ?b = "built @ slash # part"
    let ?s3 = "emit ''mkdir'' ?b (ino_extra ?c ?s2 ''mkdir'') ?s2"
    note new = mkdir_step_new [OF wf Cons.prems(2) m None]
    have eq: "mkdir_loop norm (part # parts) cur built s = mkdir_loop norm parts ?c ?b ?s3"
      using None m new(3) by (simp add: Let_def split_beta)
    have w3: "fs_wf ?s3" "walk ?s3 (qs @ [part]) = Some ?c" "dir_of ?s3 ?c \<noteq> None"
      using new walk_from_cong [of ?s3 ?s2] by simp_all
    have v3: "view ?s3 = (view s)(qs @ [part] \<mapsto> DirV)" using new(4) by simp
    have vN: "view s (qs @ [part]) = None"
      using view_child [OF Cons.prems(2) m] None by simp
    have below: "view s ((qs @ [part]) @ x # xs) = None" for x xs
      using vN by (intro view_below) simp
    have nof3: "\<not> (\<exists>k \<le> length parts. \<exists>d. view ?s3 ((qs @ [part]) @ take k parts) = Some (FileV d))"
    proof clarify
      fix k d assume "view ?s3 ((qs @ [part]) @ take k parts) = Some (FileV d)"
      then show False using below vN by (cases "take k parts") (simp_all add: new(4))
    qed
    have nof: "\<not> (\<exists>k \<le> length parts. \<exists>d. view s ((qs @ [part]) @ take k parts) = Some (FileV d))"
    proof clarify
      fix k d assume "view s ((qs @ [part]) @ take k parts) = Some (FileV d)"
      then show False using below vN by (cases "take k parts") simp_all
    qed
    have ve: "(\<lambda>rs. if prefix rs ((qs @ [part]) @ parts) then Some DirV else view ?s3 rs) =
        (\<lambda>rs. if prefix rs (qs @ part # parts) then Some DirV else view s rs)"
      by (auto simp: fun_eq_iff new(4))
    show ?thesis
      unfolding shift eq if_not_P [OF nof]
      by (rule Cons.IH [OF w3, of ?b, unfolded if_not_P [OF nof3] ve])
  qed
qed

lemma mkdir_p_spec:
  assumes wf: "fs_wf s"
  shows "agrees (mkdir p True s) (spec_mkdir_p (comps p) (view s)) (view s)"
    and "fs_wf (snd (mkdir p True s))"
    and "is_ok (fst (mkdir p True s)) \<or> snd (mkdir p True s) = s"
proof -
  let ?r = "mkdir_loop (normalizePath p) (comps p) root_addr [] s"
  have eq: "mkdir p True s = ?r" by (simp add: mkdir_def)
  note l = mkdir_loop_spec [OF wf, of "[]" root_addr "normalizePath p" "comps p" "[]"]
  have r: "dir_of s root_addr \<noteq> None" by (rule fs_wfD(1) [OF wf])
  show "fs_wf (snd (mkdir p True s))" using l r eq by simp
  show "is_ok (fst (mkdir p True s)) \<or> snd (mkdir p True s) = s"
    using l r eq by (simp split: if_splits)
  show "agrees (mkdir p True s) (spec_mkdir_p (comps p) (view s)) (view s)"
  proof (cases "\<exists>k \<le> length (comps p). \<exists>d. view s (take k (comps p)) = Some (FileV d)")
    case True
    with l r have "?r = (fs_throw ENOTDIR ''mkdir'' (normalizePath p), s)" by simp
    with True eq show ?thesis by (simp add: spec_mkdir_p_def)
  next
    case False
    with l r have "fst ?r = Inr ()" "view (snd ?r) = (\<lambda>rs. if prefix rs (comps p) then Some DirV else view s rs)"
      by simp_all
    then show ?thesis
      unfolding spec_mkdir_p_def if_not_P [OF False] eq by (cases ?r) simp
  qed
qed

end
