(* ===== verification/Memfs_Journal.thy ===== *)
theory Memfs_Journal
  imports Memfs_Refine
begin

text \<open>
  The mutation journal: sequence numbers are consecutive from the watermark to the current
  one, truncation moves the watermark with the entries it drops, and \<open>getJournalSince\<close>
  returns every later record whenever the requested number is not below the watermark.
\<close>

definition journal_inv :: "fs \<Rightarrow> bool" where
  "journal_inv s \<longleftrightarrow>
     map j_seq (fs_journal s) = [Suc (fs_journalStartSeq s)..<Suc (fs_seq s)] \<and>
     fs_journalStartSeq s \<le> fs_seq s \<and>
     length (fs_journal s) \<le> fs_maxJournal s \<and>
     0 < fs_maxJournal s \<and>
     (\<forall>r \<in> set (fs_journal s). j_seq r = Suc (j_parentSeq r))"

lemma journal_inv_cong:
  assumes "fs_journal t = fs_journal s" "fs_journalStartSeq t = fs_journalStartSeq s"
    "fs_seq t = fs_seq s" "fs_maxJournal t = fs_maxJournal s"
  shows "journal_inv t = journal_inv s"
  using assms by (simp add: journal_inv_def)

text \<open>The record \<open>_emit\<close> appends.\<close>

definition emit_record :: "string \<Rightarrow> string \<Rightarrow> jextra \<Rightarrow> fs \<Rightarrow> jrecord" where
  "emit_record op p x s =
     \<lparr>j_seq = Suc (fs_seq s), j_op = op, j_path = p, j_timestamp = fs_clock s (fs_ticks s),
      j_kind = (case x_kind x of Some k \<Rightarrow> k | None \<Rightarrow> op),
      j_txid = (case x_txid x of Some t \<Rightarrow> t
                | None \<Rightarrow> (case fs_activeTx s of Some t \<Rightarrow> t | None \<Rightarrow> 0)),
      j_parentSeq = fs_seq s, j_extra = x\<rparr>"

lemma emit_journal:
  "fs_seq (emit op p x s) = Suc (fs_seq s)"
  "fs_maxJournal (emit op p x s) = fs_maxJournal s"
  "fs_journal (emit op p x s) =
     (let j = fs_journal s @ [emit_record op p x s] in
      if length j > fs_maxJournal s then drop (length j - fs_maxJournal s * 3 div 4) j else j)"
  "fs_journalStartSeq (emit op p x s) =
     (let j = fs_journal s @ [emit_record op p x s] in
      if length j > fs_maxJournal s
      then j_seq (j ! (length j - fs_maxJournal s * 3 div 4 - 1)) else fs_journalStartSeq s)"
  "fs_delivered (emit op p x s) =
     fs_delivered s @ map (\<lambda>l. (l, emit_record op p x s)) (fs_listeners s)"
  by (simp_all add: emit_def emit_record_def date_now_def Let_def cong: option.case_cong)

lemma journal_inv_emit:
  assumes "journal_inv s"
  shows "journal_inv (emit op p x s)"
proof -
  let ?start = "fs_journalStartSeq s"
  define r where "r = emit_record op p x s"
  have r: "j_seq r = Suc (fs_seq s)" "j_parentSeq r = fs_seq s"
    by (simp_all add: r_def emit_record_def)
  have t: "let j = fs_journal s @ [r]; cut = length j - fs_maxJournal s * 3 div 4 in
      fs_journal (emit op p x s) = (if length j > fs_maxJournal s then drop cut j else j) \<and>
      fs_journalStartSeq (emit op p x s) =
        (if length j > fs_maxJournal s then j_seq (j ! (cut - 1)) else ?start)"
    unfolding Let_def r_def by (simp add: emit_journal)
  have es: "fs_seq (emit op p x s) = Suc (fs_seq s)" "fs_maxJournal (emit op p x s) = fs_maxJournal s"
    by (simp_all add: emit_journal)
  define j where "j = fs_journal s @ [r]"
  define cut where "cut = length j - fs_maxJournal s * 3 div 4"
  have inv: "map j_seq (fs_journal s) = [Suc ?start..<Suc (fs_seq s)]" "?start \<le> fs_seq s"
      "length (fs_journal s) \<le> fs_maxJournal s" "0 < fs_maxJournal s"
      "\<forall>r \<in> set (fs_journal s). j_seq r = Suc (j_parentSeq r)"
    using assms by (auto simp: journal_inv_def)
  have seqs: "map j_seq j = [Suc ?start..<Suc (Suc (fs_seq s))]"
    using inv(1,2) r by (simp add: j_def)
  have len: "length j = Suc (fs_seq s) - ?start"
    using arg_cong [OF seqs, of length] by (simp del: upt_Suc)
  have par: "\<forall>r \<in> set j. j_seq r = Suc (j_parentSeq r)"
    using inv(5) r by (auto simp: j_def)
  show ?thesis
  proof (cases "length j > fs_maxJournal s")
    case False
    then have "fs_journal (emit op p x s) = j" "fs_journalStartSeq (emit op p x s) = ?start"
      using t by (simp_all add: Let_def j_def)
    with False seqs inv par show ?thesis by (simp add: journal_inv_def es)
  next
    case True
    have c: "0 < cut" "cut \<le> length j" using True inv(4) by (auto simp: cut_def)
    have lj: "length j = Suc (fs_maxJournal s)" using True inv(3) by (simp add: j_def)
    have "j_seq (j ! (cut - 1)) = map j_seq j ! (cut - 1)" using c by simp
    also have "\<dots> = ?start + cut" using c len unfolding seqs by (subst nth_upt) auto
    finally have st: "fs_journalStartSeq (emit op p x s) = ?start + cut"
      using t True by (simp add: Let_def j_def [symmetric] cut_def [symmetric])
    have jn: "fs_journal (emit op p x s) = drop cut j"
      using t True by (simp add: Let_def j_def [symmetric] cut_def [symmetric])
    have "map j_seq (drop cut j) = [Suc (?start + cut)..<Suc (Suc (fs_seq s))]"
      unfolding drop_map [symmetric] seqs by (simp add: drop_upt del: upt_Suc)
    moreover have "?start + cut \<le> Suc (fs_seq s)" using c(2) len inv(2) by simp
    moreover have "length (drop cut j) \<le> fs_maxJournal s" using c lj by simp
    ultimately show ?thesis
      using st jn inv(4) par by (auto simp: journal_inv_def es dest: in_set_dropD)
  qed
qed

text \<open>What \<open>getJournalSince\<close> returns, on every branch.\<close>

lemma dropWhile_seq:
  "map j_seq js = [Suc a..<Suc b] \<Longrightarrow> a \<le> sq \<Longrightarrow>
     map j_seq (dropWhile (\<lambda>r. \<not> sq < j_seq r) js) = [Suc sq..<Suc b]"
proof (induction js arbitrary: a)
  case Nil
  then have "length [Suc a..<Suc b] = 0" by (metis list.size(3) list.simps(8))
  then have "b \<le> a" by (simp del: upt_Suc)
  with Nil.prems(2) show ?case by simp
next
  case (Cons r js)
  then have ab: "a < b" by (metis list.distinct(1) map_is_Nil_conv not_less upt_conv_Nil Suc_le_mono)
  then have "[Suc a..<Suc b] = Suc a # [Suc (Suc a)..<Suc b]" by (simp add: upt_conv_Cons del: upt_Suc)
  with Cons.prems have r: "j_seq r = Suc a" and js: "map j_seq js = [Suc (Suc a)..<Suc b]"
    by auto
  show ?case
  proof (cases "a = sq")
    case True
    with r js ab show ?thesis by (simp add: upt_conv_Cons del: upt_Suc)
  next
    case False
    with Cons.prems(2) have "Suc a \<le> sq" by simp
    with Cons.IH [OF js this] r show ?thesis by simp
  qed
qed

lemma getJournalSince_complete:
  assumes "journal_inv s" and "fs_journalStartSeq s \<le> sq"
  shows "\<not> r_gap (getJournalSince sq s)"
    and "map j_seq (r_entries (getJournalSince sq s)) = [Suc sq..<Suc (fs_seq s)]"
  using assms dropWhile_seq [of "fs_journal s" "fs_journalStartSeq s" "fs_seq s" sq]
  by (auto simp: getJournalSince_def journal_inv_def)

lemma getJournalSince_gap:
  assumes "0 < sq" and "sq < fs_journalStartSeq s"
  shows "getJournalSince sq s =
    \<lparr>r_gap = True, r_gapFrom = sq, r_gapTo = fs_journalStartSeq s, r_entries = fs_journal s\<rparr>"
  using assms by (simp add: getJournalSince_def)

section \<open>Runs of the file system\<close>

text \<open>
  \<open>populate(files)\<close> and \<open>createFilesystem(options)\<close>; then one step per public operation, and
  the states reached from a new file system by any sequence of them.
\<close>

fun populate :: "(string \<times> byte list) list \<Rightarrow> fs \<Rightarrow> (js_exn + unit) \<times> fs" where
  "populate [] s = (Inr (), s)"
| "populate ((path, content) # files) s =
     (let (r1, s1) = (case fst (parentAndName (normalizePath path)) of
                        Some parent \<Rightarrow> if parent \<noteq> ''/'' then mkdir parent True s else (Inr (), s)
                      | None \<Rightarrow> (Inr (), s))
      in case r1 of
           Inl e \<Rightarrow> (Inl e, s1)
         | Inr _ \<Rightarrow>
             (case writeFile path content s1 of
                (Inl e, s2) \<Rightarrow> (Inl e, s2)
              | (Inr _, s2) \<Rightarrow> populate files s2))"

definition createFilesystem ::
  "(nat \<Rightarrow> int) \<Rightarrow> nat option \<Rightarrow> (string \<times> byte list) list \<Rightarrow> (js_exn + unit) \<times> fs" where
  "createFilesystem clk listener files =
     (let s1 = snd (mkdir ''/tmp'' True (new_memfs clk));
          s2 = (case listener of None \<Rightarrow> s1 | Some l \<Rightarrow> onMutation l s1)
      in populate files s2)"

datatype fs_op =
    OpMkdir string bool
  | OpWriteFile string "byte list"
  | OpReadFile string
  | OpReaddir string
  | OpStat string
  | OpUnlink string
  | OpRmdir string
  | OpRename string string
  | OpOpen string
  | OpReadFd nat "byte list" nat nat "nat option"
  | OpWriteFd nat "byte list" nat nat "nat option"
  | OpClose nat
  | OpBeginTx
  | OpCommitTx
  | OpOnMutation nat
  | OpUnsubscribe nat

fun fs_step :: "fs \<Rightarrow> fs_op \<Rightarrow> fs" where
  "fs_step s (OpMkdir p r) = snd (mkdir p r s)"
| "fs_step s (OpWriteFile p d) = snd (writeFile p d s)"
| "fs_step s (OpReadFile p) = snd (readFile p s)"
| "fs_step s (OpReaddir p) = snd (readdir p s)"
| "fs_step s (OpStat p) = snd (stat p s)"
| "fs_step s (OpUnlink p) = snd (unlink p s)"
| "fs_step s (OpRmdir p) = snd (rmdir p s)"
| "fs_step s (OpRename p q) = snd (rename p q s)"
| "fs_step s (OpOpen p) = snd (openFd p s)"
| "fs_step s (OpReadFd fd b off n pos) = snd (readFd fd b off n pos s)"
| "fs_step s (OpWriteFd fd b off n pos) = snd (writeFd fd b off n pos s)"
| "fs_step s (OpClose fd) = snd (closeFd fd s)"
| "fs_step s OpBeginTx = snd (beginTx s)"
| "fs_step s OpCommitTx = commitTx s"
| "fs_step s (OpOnMutation l) = onMutation l s"
| "fs_step s (OpUnsubscribe l) = unsubscribe l s"

definition fs_run :: "(nat \<Rightarrow> int) \<Rightarrow> fs_op list \<Rightarrow> fs" where
  "fs_run clk ops = foldl fs_step (new_memfs clk) ops"

section \<open>The journal along a run\<close>

lemma makeInode_journal [simp]:
  "fs_journal (snd (makeInode ty c s)) = fs_journal s"
  "fs_journalStartSeq (snd (makeInode ty c s)) = fs_journalStartSeq s"
  "fs_seq (snd (makeInode ty c s)) = fs_seq s"
  "fs_maxJournal (snd (makeInode ty c s)) = fs_maxJournal s"
  by (simp_all add: makeInode_def date_now_def Let_def)

lemma journal_inv_simps [simp]:
  "journal_inv (snd (makeInode ty c s)) = journal_inv s"
  "journal_inv (snd (date_now s)) = journal_inv s"
  "journal_inv (upd_inode a f s) = journal_inv s"
  "journal_inv (set_child a n b s) = journal_inv s"
  "journal_inv (del_child a n s) = journal_inv s"
  "journal_inv (touch_atime a s) = journal_inv s"
  "journal_inv (s\<lparr>fs_fdTable := tab\<rparr>) = journal_inv s"
  "journal_inv (s\<lparr>fs_nextFd := k, fs_fdTable := tab\<rparr>) = journal_inv s"
  "journal_inv (s\<lparr>fs_nextFd := k\<rparr>) = journal_inv s"
  "journal_inv (s\<lparr>fs_txid := k\<rparr>) = journal_inv s"
  "journal_inv (s\<lparr>fs_listeners := ls\<rparr>) = journal_inv s"
  "journal_inv (s\<lparr>fs_activeTx := tx\<rparr>) = journal_inv s"
  "journal_inv (s\<lparr>fs_txid := k, fs_activeTx := tx\<rparr>) = journal_inv s"
  by (rule journal_inv_cong;
      simp add: set_child_def del_child_def touch_atime_def split_beta)+

lemma journal_inv_mkdir_loop:
  "journal_inv s \<Longrightarrow> journal_inv (snd (mkdir_loop norm parts cur built s))"
  by (induction norm parts cur built s rule: mkdir_loop.induct)
    (auto simp: Let_def split_beta journal_inv_emit split: option.splits)

lemma journal_inv_step: "journal_inv s \<Longrightarrow> journal_inv (fs_step s op)"
  by (cases op)
    (auto simp: mkdir_def writeFile_def write_new_def write_existing_def readFile_def readdir_def
      stat_def unlink_def rmdir_def rename_def openFd_def readFd_def writeFd_def closeFd_def
      beginTx_def commitTx_def onMutation_def unsubscribe_def Let_def split_beta
      intro!: journal_inv_emit journal_inv_mkdir_loop split: option.splits)

lemma journal_inv_new: "journal_inv (new_memfs clk)"
  by (simp add: journal_inv_def new_memfs_def)

lemma journal_inv_run: "journal_inv (fs_run clk ops)"
proof -
  have "journal_inv s \<Longrightarrow> journal_inv (foldl fs_step s ops)" for s
    by (induction ops arbitrary: s) (auto simp: journal_inv_step)
  then show ?thesis by (simp add: fs_run_def journal_inv_new)
qed

end
