(* ===== verification/File_Store.thy ===== *)
theory File_Store
  imports Prelude
begin

text \<open>
  The interface between a file system and the code that fills it (\<open>populate\<close>, the package
  installer, a restored session): an operation that puts one file in place, and what may be
  read back afterwards. Clients that put many files are verified once here.
\<close>

fun store_all ::
  "('p \<Rightarrow> 'd \<Rightarrow> 's \<Rightarrow> ('e + unit) \<times> 's) \<Rightarrow> ('p \<times> 'd) list \<Rightarrow> 's \<Rightarrow> ('e + unit) \<times> 's" where
  "store_all put [] s = (Inr (), s)"
| "store_all put ((p, d) # files) s =
     (case put p d s of
        (Inl e, s') \<Rightarrow> (Inl e, s')
      | (Inr _, s') \<Rightarrow> store_all put files s')"

locale file_store =
  fixes inv :: "'s \<Rightarrow> bool"
    and valid :: "'p \<Rightarrow> bool"
    and key :: "'p \<Rightarrow> 'k"
    and content :: "'s \<Rightarrow> 'k \<Rightarrow> 'd option"
    and put :: "'p \<Rightarrow> 'd \<Rightarrow> 's \<Rightarrow> ('e + unit) \<times> 's"
  assumes put_inv: "inv s \<Longrightarrow> inv (snd (put p d s))"
    and put_same: "inv s \<Longrightarrow> valid p \<Longrightarrow> put p d s = (Inr (), t) \<Longrightarrow> content t (key p) = Some d"
    and put_other: "inv s \<Longrightarrow> valid p \<Longrightarrow> put p d s = (Inr (), t) \<Longrightarrow> content s k = Some x \<Longrightarrow> k \<noteq> key p \<Longrightarrow>
      content t k = Some x"
begin

lemma store_all_inv: "inv s \<Longrightarrow> inv (snd (store_all put files s))"
proof (induction files arbitrary: s)
  case (Cons f files)
  obtain p d where f: "f = (p, d)" by force
  have "inv (snd (put p d s))" using Cons.prems by (rule put_inv)
  with Cons.IH f show ?case by (cases "put p d s"; cases "fst (put p d s)") auto
qed simp

lemma store_all_keeps:
  "inv s \<Longrightarrow> \<forall>f \<in> set files. valid (fst f) \<Longrightarrow> store_all put files s = (Inr (), t) \<Longrightarrow> content s k = Some x \<Longrightarrow>
     k \<notin> key ` fst ` set files \<Longrightarrow> content t k = Some x"
proof (induction files arbitrary: s)
  case (Cons f files)
  obtain p d where f: "f = (p, d)" by force
  obtain s' where s': "put p d s = (Inr (), s')" "store_all put files s' = (Inr (), t)"
    using Cons.prems(3) f by (auto split: prod.splits sum.splits)
  have "content s' k = Some x"
    by (rule put_other [OF Cons.prems(1) _ s'(1) Cons.prems(4)]) (use Cons.prems(2,5) f in auto)
  then show ?case
    using Cons.IH [OF _ _ s'(2)] put_inv [OF Cons.prems(1), of p d] s'(1) Cons.prems(2,5) by auto
qed simp

text \<open>Of several files with the same key the last one wins.\<close>

lemma store_all_reads:
  "inv s \<Longrightarrow> \<forall>f \<in> set files. valid (fst f) \<Longrightarrow> store_all put files s = (Inr (), t) \<Longrightarrow> files = before @ (p, d) # after \<Longrightarrow>
     key p \<notin> key ` fst ` set after \<Longrightarrow> content t (key p) = Some d"
proof (induction before arbitrary: files s)
  case Nil
  obtain s' where s': "put p d s = (Inr (), s')" "store_all put after s' = (Inr (), t)"
    using Nil.prems(3,4) by (auto split: prod.splits sum.splits)
  have "inv s'" using put_inv [OF Nil.prems(1), of p d] s'(1) by simp
  then show ?case
    using Nil.prems by (intro store_all_keeps [OF _ _ s'(2) put_same [OF Nil.prems(1) _ s'(1)]]) auto
next
  case (Cons f before)
  obtain q c where f: "f = (q, c)" by force
  obtain s' where s': "put q c s = (Inr (), s')" "store_all put (before @ (p, d) # after) s' = (Inr (), t)"
    using Cons.prems(3,4) f by (auto split: prod.splits sum.splits)
  have "inv s'" using put_inv [OF Cons.prems(1), of q c] s'(1) by simp
  then show ?case using Cons.IH [OF _ _ s'(2) refl Cons.prems(5)] Cons.prems(2,4) by simp
qed

end

end
