(* ===== verification/Memfs_Run.thy ===== *)
theory Memfs_Run
  imports Memfs_Journal File_Store
begin

text \<open>
  Every operation keeps the well-formedness of the inode graph, so it holds after any run; then
  what a caller sees of a run: a file read back after it was written, through the path and
  through a descriptor, and files put in place by \<open>populate\<close>.
\<close>

section \<open>Well-formedness along a run\<close>

lemma fs_wf_new [simp]: "fs_wf (new_memfs clk)"
  by (simp add: fs_wf_def new_memfs_def dir_of_def wf_inode_def wf_entries_def unique_parents_def
      edge_def)

lemma fs_wf_open: "fs_wf s \<Longrightarrow> fs_wf (snd (openFd p s))"
proof (cases "resolve p s")
  case (Some a)
  assume wf: "fs_wf s"
  have h: "fs_heap s a \<noteq> None"
    using Some walk_allocated(1) [OF wf] by (simp add: resolve_walk)
  show ?thesis
  proof (cases "dir_of s a")
    case None
    let ?t = "snd (openFd p s)"
    have heap: "fs_heap ?t = fs_heap s" "fs_inoCounter ?t = fs_inoCounter s"
      and tab: "fs_nextFd ?t = Suc (fs_nextFd s)"
        "\<And>fd e. fs_fdTable ?t fd = Some e \<Longrightarrow> (fd = fs_nextFd s \<and> fd_inode e = a) \<or> fs_fdTable s fd = Some e"
      using Some None by (auto simp: openFd_def Let_def split: if_splits)
    have d: "dir_of ?t = dir_of s" by (rule dir_of_heap_cong) (rule heap(1))
    show ?thesis
      using fs_wfD [OF wf] heap tab h None unique_parents_cong [OF d]
      by (fastforce simp: fs_wf_def d wf_entries_def)
  qed (use Some wf in \<open>simp add: openFd_def Let_def\<close>)
qed (simp add: openFd_def Let_def)

text \<open>A descriptor table whose entries keep their inodes, or lose them, is still well formed.\<close>

lemma fs_wf_fdTable:
  assumes wf: "fs_wf s"
    and tab: "\<And>fd e. tab fd = Some e \<Longrightarrow> \<exists>e'. fs_fdTable s fd = Some e' \<and> fd_inode e' = fd_inode e"
  shows "fs_wf (s\<lparr>fs_fdTable := tab\<rparr>)"
proof -
  have d: "dir_of (s\<lparr>fs_fdTable := tab\<rparr>) = dir_of s" by (rule dir_of_heap_cong) simp
  have "fd < fs_nextFd s \<and> fs_heap s (fd_inode e) \<noteq> None \<and> dir_of s (fd_inode e) = None"
    if t: "tab fd = Some e" for fd e
  proof -
    obtain e' where "fs_fdTable s fd = Some e'" "fd_inode e' = fd_inode e"
      using tab [OF t] by blast
    then show ?thesis using fs_wfD(6) [OF wf, of fd e'] by simp
  qed
  then show ?thesis
    using fs_wfD(1-5) [OF wf] unique_parents_cong [OF d] by (simp add: fs_wf_def d wf_entries_def)
qed

lemma fs_wf_readFd: "fs_wf s \<Longrightarrow> fs_wf (snd (readFd fd b off n pos s))"
  by (auto simp: readFd_def Let_def intro!: fs_wf_fdTable split: option.splits if_splits)

text \<open>What \<open>writeFd\<close> does in terms of the position and the buffer it writes into.\<close>

definition wr_pos :: "nat option \<Rightarrow> fd_entry \<Rightarrow> nat" where
  "wr_pos position e = (case position of Some q \<Rightarrow> q | None \<Rightarrow> fd_position e)"

definition wr_base :: "nat \<Rightarrow> fd_entry \<Rightarrow> byte list \<Rightarrow> byte list option" where
  "wr_base needed e content =
     (if fd_capacity e < needed
      then blit content 0 (replicate (max needed (max (fd_capacity e * 2) 4096)) 0)
      else Some content)"

lemma writeFd_fail:
  assumes "fs_fdTable s fd = Some e"
    and "Option.bind (wr_base (wr_pos position e + length (subarray off (off + n) b)) e
           (content_at (fd_inode e) s)) (blit (subarray off (off + n) b) (wr_pos position e)) = None"
  shows "writeFd fd b off n position s = (Inl RangeExn, s)"
  using assms by (simp add: writeFd_def Let_def wr_pos_def wr_base_def)

lemma writeFd_ok:
  assumes "fs_fdTable s fd = Some e"
    and "Option.bind (wr_base (wr_pos position e + length (subarray off (off + n) b)) e
           (content_at (fd_inode e) s)) (blit (subarray off (off + n) b) (wr_pos position e)) = Some c"
  obtains e' x where "fd_inode e' = fd_inode e"
    and "writeFd fd b off n position s =
      (Inr (length (subarray off (off + n) b)),
       emit ''writeFd'' (fd_path e) x
         ((upd_inode (fd_inode e) (\<lambda>nd. nd\<lparr>i_content := Some c, i_mtime := fst (date_now s),
             i_version := Suc (i_version nd)\<rparr>) (snd (date_now s)))
          \<lparr>fs_fdTable := (fs_fdTable s)(fd \<mapsto> e')\<rparr>))"
    and "fd_position e' = (if position = None then fd_position e + length (subarray off (off + n) b)
                           else fd_position e)"
    and "fd_dirty e'"
proof -
  let ?len = "length (subarray off (off + n) b)"
  let ?need = "wr_pos position e + ?len"
  let ?e' = "e\<lparr>fd_capacity := (if fd_capacity e < ?need then max ?need (max (fd_capacity e * 2) 4096)
                              else fd_capacity e),
               fd_dirty := True,
               fd_position := (if position = None then fd_position e + ?len else fd_position e)\<rparr>"
  let ?s2 = "upd_inode (fd_inode e) (\<lambda>nd. nd\<lparr>i_content := Some c, i_mtime := fst (date_now s),
             i_version := Suc (i_version nd)\<rparr>) (snd (date_now s))"
  let ?s3 = "?s2\<lparr>fs_fdTable := (fs_fdTable ?s2)(fd \<mapsto> ?e')\<rparr>"
  let ?x = "(ino_extra (fd_inode e) ?s3 ''write'')
              \<lparr>x_version := map_option i_version (fs_heap ?s3 (fd_inode e))\<rparr>"
  have "writeFd fd b off n position s = (Inr ?len, emit ''writeFd'' (fd_path e) ?x ?s3)"
    using assms(2) unfolding writeFd_def assms(1)
    by (simp only: Let_def split_beta wr_pos_def wr_base_def option.case)
  then show ?thesis by (intro that [of ?e' ?x]) simp_all
qed

lemma fs_wf_writeFd: "fs_wf s \<Longrightarrow> fs_wf (snd (writeFd fd b off n pos s))"
proof (cases "fs_fdTable s fd")
  case (Some e)
  assume wf: "fs_wf s"
  note fd = fs_wfD(6) [OF wf Some]
  then obtain nd where nd: "fs_heap s (fd_inode e) = Some nd" by auto
  have ty: "i_type nd \<noteq> DirT" "wf_inode nd"
    using not_dir_type [OF wf _ nd] fs_wfD(3) [OF wf nd] fd by auto
  have upd: "fs_wf (upd_inode (fd_inode e) (\<lambda>n. n\<lparr>i_content := Some c, i_mtime := fst (date_now s),
      i_version := Suc (i_version n)\<rparr>) (snd (date_now s)))" for c
    using wf nd ty by (intro fs_wf_upd_inode) (auto simp: wf_inode_def)
  show ?thesis
  proof (cases "Option.bind (wr_base (wr_pos pos e + length (subarray off (off + n) b)) e
           (content_at (fd_inode e) s)) (blit (subarray off (off + n) b) (wr_pos pos e))")
    case None
    with Some wf show ?thesis by (simp add: writeFd_fail)
  next
    case c: (Some c)
    obtain e' x where e': "fd_inode e' = fd_inode e" and w: "writeFd fd b off n pos s =
      (Inr (length (subarray off (off + n) b)),
       emit ''writeFd'' (fd_path e) x
         ((upd_inode (fd_inode e) (\<lambda>nd. nd\<lparr>i_content := Some c, i_mtime := fst (date_now s),
             i_version := Suc (i_version nd)\<rparr>) (snd (date_now s)))
          \<lparr>fs_fdTable := (fs_fdTable s)(fd \<mapsto> e')\<rparr>))"
      by (rule writeFd_ok [OF Some c])
    show ?thesis
      unfolding w using Some e' by (auto intro!: fs_wf_fdTable [OF upd] split: if_splits)
  qed
qed (simp add: writeFd_def)

lemma fs_wf_close: "fs_wf s \<Longrightarrow> fs_wf (snd (closeFd fd s))"
proof (cases "fs_fdTable s fd")
  case (Some e)
  assume wf: "fs_wf s"
  then have "fs_wf (upd_inode (fd_inode e) (\<lambda>n. n\<lparr>i_hash := h\<rparr>) s)" for h
    by (rule fs_wf_upd_meta) simp_all
  with wf Some show ?thesis
    by (auto simp: closeFd_def Let_def intro!: fs_wf_fdTable split: if_splits)
qed (simp add: closeFd_def)

lemma fs_wf_other_fields [simp]:
  "fs_wf (s\<lparr>fs_activeTx := tx\<rparr>) = fs_wf s"
  "fs_wf (s\<lparr>fs_txid := k\<rparr>) = fs_wf s"
  "fs_wf (s\<lparr>fs_listeners := ls\<rparr>) = fs_wf s"
  by (rule fs_wf_heap_cong; simp)+

lemma fs_wf_tx: "fs_wf s \<Longrightarrow> fs_wf (snd (beginTx s))" "fs_wf s \<Longrightarrow> fs_wf (commitTx s)"
  by (auto simp: beginTx_def commitTx_def split: option.splits)

lemma fs_wf_listeners: "fs_wf s \<Longrightarrow> fs_wf (onMutation l s)" "fs_wf s \<Longrightarrow> fs_wf (unsubscribe l s)"
  by (auto simp: onMutation_def unsubscribe_def)

lemma fs_wf_mkdir: "fs_wf s \<Longrightarrow> fs_wf (snd (mkdir p r s))"
  by (cases r) (simp_all add: mkdir_p_spec(2) fs_wf_mkdir1)

lemmas fs_wf_ops = fs_wf_mkdir fs_wf_writeFile fs_wf_readFile fs_wf_readdir fs_wf_stat
  fs_wf_unlink fs_wf_rmdir fs_wf_rename fs_wf_open fs_wf_readFd fs_wf_writeFd fs_wf_close
  fs_wf_tx fs_wf_listeners

lemma fs_wf_step: "fs_wf s \<Longrightarrow> fs_wf (fs_step s op)"
  by (cases op) (simp_all add: fs_wf_ops)

lemma fs_wf_run: "fs_wf (fs_run clk ops)"
proof -
  have "fs_wf s \<Longrightarrow> fs_wf (foldl fs_step s ops)" for s
    by (induction ops arbitrary: s) (auto simp: fs_wf_step)
  then show ?thesis by (simp add: fs_run_def)
qed

section \<open>Reading back\<close>

lemma readFile_view:
  assumes wf: "fs_wf s"
  shows "fst (readFile p s) =
    (case view s (comps p) of
       None \<Rightarrow> fs_throw ENOENT ''open'' p
     | Some DirV \<Rightarrow> fs_throw EISDIR ''read'' p
     | Some (FileV d) \<Rightarrow> Inr d)"
proof (cases "walk s (comps p)")
  case None
  then show ?thesis by (simp add: readFile_def resolve_walk view_def)
next
  case (Some a)
  show ?thesis
  proof (cases "dir_of s a")
    case None
    obtain nd where nd: "fs_heap s a = Some nd"
      using walk_allocated(1) [OF wf Some] by auto
    have "wf_inode nd" "i_type nd \<noteq> DirT"
      using fs_wfD(3) [OF wf nd] not_dir_type [OF wf None nd] by auto
    then obtain c where "i_content nd = Some c" by (auto simp: wf_inode_def)
    with Some None nd show ?thesis
      by (simp add: readFile_def resolve_walk view_def view_at_def content_at_def touch_atime_def
          split_beta heap_upd_inode)
  qed (use Some in \<open>simp add: readFile_def resolve_walk view_def view_at_def\<close>)
qed

lemma view_readFile [simp]: "view (snd (readFile p s)) = view s"
  by (auto simp: readFile_def Let_def split: option.splits)

lemma stat_view:
  assumes "fs_wf s"
  shows "case stat p s of
     (Inl e, s1) \<Rightarrow> view s (comps p) = None \<and> s1 = s
   | (Inr st, s1) \<Rightarrow> fs_wf s1 \<and> view s1 = view s
       \<and> view s (comps p) \<noteq> None \<and> (stats_isDirectory st \<longleftrightarrow> view s (comps p) = Some DirV)"
proof (cases "walk s (comps p)")
  case None
  then show ?thesis by (simp add: stat_def resolve_walk view_def)
next
  case (Some a)
  obtain nd where nd: "fs_heap s a = Some nd" using walk_allocated(1) [OF assms Some] by auto
  have "wf_inode nd" using assms nd by (auto simp: fs_wf_def)
  then have d: "dir_of s a \<noteq> None \<longleftrightarrow> i_type nd = DirT" using nd by (auto simp: dir_of_def wf_inode_def)
  have "fs_heap (touch_atime a s) a = Some (nd\<lparr>i_atime := fst (date_now s)\<rparr>)"
    using nd by (simp add: touch_atime_def upd_inode_def split_beta)
  then have "stat p s = (Inr (mk_stats (nd\<lparr>i_atime := fst (date_now s)\<rparr>)), touch_atime a s)"
    using Some by (simp add: stat_def resolve_walk Let_def)
  moreover have "stats_isDirectory (mk_stats nd') \<longleftrightarrow> i_type nd' = DirT" for nd'
    by (cases "i_type nd'") (simp_all add: stats_isDirectory_def mk_stats_def Let_def)
  ultimately show ?thesis
    using assms Some d by (auto simp: view_def view_at_def)
qed

lemma writeFile_ok_view:
  assumes wf: "fs_wf s" and p: "comps p \<noteq> []" and ok: "is_ok (fst (writeFile p d s))"
  shows "view (snd (writeFile p d s)) = (view s)(comps p \<mapsto> FileV d)"
  using writeFile_spec [OF wf p, of d] ok
  by (auto simp: agrees_def spec_write_def is_ok_def split: sum.splits if_splits)

lemma write_then_read:
  assumes wf: "fs_wf s" and p: "comps p \<noteq> []" and ok: "is_ok (fst (writeFile p d s))"
    and same: "comps q = comps p"
  shows "fst (readFile q (snd (writeFile p d s))) = Inr d"
  using readFile_view [OF fs_wf_writeFile [OF wf]] writeFile_ok_view [OF wf p ok] same by simp

section \<open>Descriptors\<close>

lemma blit_Some: "blit d off xs = Some ys \<longleftrightarrow>
    off + length d \<le> length xs \<and> ys = take off xs @ d @ drop (off + length d) xs"
  by (auto simp: blit_def)

lemma blit_length: "blit d off xs = Some ys \<Longrightarrow> length ys = length xs"
  by (auto simp: blit_Some)

lemma subarray_blit: "blit d off xs = Some ys \<Longrightarrow> subarray off (off + length d) ys = d"
  by (auto simp: blit_Some subarray_def)

lemma content_after_write:
  assumes wf: "fs_wf s" and e: "fs_fdTable s fd = Some e"
    and w: "writeFd fd b off n position s = (Inr k, t)"
  shows "k = length (subarray off (off + n) b)"
    and "\<exists>xs. blit (subarray off (off + n) b) (wr_pos position e) xs = Some (content_at (fd_inode e) t)"
    and "\<exists>e'. fs_fdTable t fd = Some e' \<and> fd_inode e' = fd_inode e \<and> fd_dirty e' \<and>
           fd_position e' = (if position = None then fd_position e + k else fd_position e)"
proof -
  let ?d = "subarray off (off + n) b"
  let ?c = "Option.bind (wr_base (wr_pos position e + length ?d) e (content_at (fd_inode e) s))
     (blit ?d (wr_pos position e))"
  obtain c where c: "?c = Some c"
    using w writeFd_fail [OF e, of position off n b] by (cases ?c) auto
  obtain nd where nd: "fs_heap s (fd_inode e) = Some nd" using fs_wfD(6) [OF wf e] by auto
  obtain e' x where e': "fd_inode e' = fd_inode e"
    and eq: "writeFd fd b off n position s =
      (Inr (length ?d),
       emit ''writeFd'' (fd_path e) x
         ((upd_inode (fd_inode e) (\<lambda>nd. nd\<lparr>i_content := Some c, i_mtime := fst (date_now s),
             i_version := Suc (i_version nd)\<rparr>) (snd (date_now s)))
          \<lparr>fs_fdTable := (fs_fdTable s)(fd \<mapsto> e')\<rparr>))"
    and *: "fd_position e' = (if position = None then fd_position e + length ?d else fd_position e)"
      "fd_dirty e'"
    by (rule writeFd_ok [OF e c])
  have "content_at (fd_inode e) t = c"
    using w nd unfolding eq by (auto simp: content_at_def heap_upd_inode)
  with c show "\<exists>xs. blit ?d (wr_pos position e) xs = Some (content_at (fd_inode e) t)"
    by (auto simp: bind_eq_Some_conv)
  show "k = length ?d" using w unfolding eq by simp
  then show "\<exists>e'. fs_fdTable t fd = Some e' \<and> fd_inode e' = fd_inode e \<and> fd_dirty e' \<and>
           fd_position e' = (if position = None then fd_position e + k else fd_position e)"
    using w e' * unfolding eq by auto
qed

text \<open>Reading at the position just written gives the bytes written, in the caller's buffer.\<close>

lemma fd_roundtrip:
  assumes wf: "fs_wf s" and w: "writeFd fd b off n (Some pos) s = (Inr k, t)"
    and k: "0 < k" "k \<le> length out"
  shows "fst (readFd fd out 0 k (Some pos) t) =
    Inr (k, subarray off (off + n) b @ drop k out)"
proof -
  obtain e where e: "fs_fdTable s fd = Some e"
    using w by (cases "fs_fdTable s fd") (auto simp: writeFd_def)
  let ?d = "subarray off (off + n) b"
  note c = content_after_write [OF wf e w]
  obtain xs where xs: "blit ?d pos xs = Some (content_at (fd_inode e) t)"
    using c(2) by (auto simp: wr_pos_def)
  obtain e' where e': "fs_fdTable t fd = Some e'" "fd_inode e' = fd_inode e" using c(3) by auto
  have len: "pos + k \<le> length (content_at (fd_inode e) t)"
    using xs c(1) by (auto simp: blit_Some)
  have "subarray pos (pos + k) (content_at (fd_inode e) t) = ?d"
    using subarray_blit [OF xs] c(1) by simp
  then show ?thesis
    using e' len k c(1) by (simp add: readFd_def blit_def Let_def min_def)
qed

section \<open>Snapshots\<close>

text \<open>
  \<open>_walk(node, path)\<close> of \<open>snapshot\<close> and \<open>snapshotFull\<close>, which differ in what they record of a
  file. The recursion into a directory takes one unit of fuel; \<open>fs_inoCounter\<close> units are
  always enough (below), because no path is longer than the number of inodes.
\<close>

record 'f snap =
  sn_files :: "(string \<times> 'f) list"
  sn_dirs :: "string list"

definition child_path :: "string \<Rightarrow> string \<Rightarrow> string" where
  "child_path path name = (if path = ''/'' then slash # name else path @ slash # name)"

fun snap_walk ::
  "(inode \<Rightarrow> 'f) \<Rightarrow> fs \<Rightarrow> nat \<Rightarrow> string \<Rightarrow> (string \<times> nat) list \<Rightarrow> 'f snap \<Rightarrow> 'f snap option" where
  "snap_walk g s k path [] acc = Some acc"
| "snap_walk g s k path ((name, c) # es) acc =
     (case fs_heap s c of
        None \<Rightarrow> None
      | Some nd \<Rightarrow>
          if i_type nd = FileT
          then snap_walk g s k path es
                 (acc\<lparr>sn_files := AList.update (child_path path name) (g nd) (sn_files acc)\<rparr>)
          else (case (k, i_children nd) of
                  (Suc k', Some m) \<Rightarrow>
                    (case snap_walk g s k' (child_path path name) m
                            (acc\<lparr>sn_dirs := sn_dirs acc @ [child_path path name]\<rparr>) of
                       None \<Rightarrow> None
                     | Some acc' \<Rightarrow> snap_walk g s k path es acc')
                | _ \<Rightarrow> None))"

record file_meta =
  m_ino :: jsnum
  m_version :: nat
  m_contentHash :: int
  m_size :: nat
  m_mtime :: int

record file_full =
  ff_content :: "byte list"
  ff_ino :: jsnum
  ff_version :: nat
  ff_contentHash :: int
  ff_mtime :: int

definition meta_of :: "inode \<Rightarrow> file_meta" where
  "meta_of nd =
     \<lparr>m_ino = i_ino nd, m_version = i_version nd, m_contentHash = i_hash nd,
      m_size = (case i_content nd of Some c \<Rightarrow> length c | None \<Rightarrow> 0), m_mtime = i_mtime nd\<rparr>"

definition full_of :: "inode \<Rightarrow> file_full" where
  "full_of nd =
     \<lparr>ff_content = (case i_content nd of Some c \<Rightarrow> c | None \<Rightarrow> []), ff_ino = i_ino nd,
      ff_version = i_version nd, ff_contentHash = i_hash nd, ff_mtime = i_mtime nd\<rparr>"

definition take_snapshot :: "(inode \<Rightarrow> 'f) \<Rightarrow> fs \<Rightarrow> (nat \<times> nat \<times> 'f snap) option" where
  "take_snapshot g s =
     (case dir_of s root_addr of
        None \<Rightarrow> None
      | Some m \<Rightarrow> map_option (\<lambda>sn. (fs_seq s, fs_journalStartSeq s, sn))
                   (snap_walk g s (fs_inoCounter s) ''/'' m \<lparr>sn_files = [], sn_dirs = []\<rparr>))"

definition snapshot :: "fs \<Rightarrow> (nat \<times> nat \<times> file_meta snap) option" where
  "snapshot s = take_snapshot meta_of s"

definition snapshotFull :: "fs \<Rightarrow> (nat \<times> nat \<times> file_full snap) option" where
  "snapshotFull s = take_snapshot full_of s"

text \<open>No path is longer than the number of inodes: its prefixes lead to different ones.\<close>

lemma walk_take:
  assumes "walk s ps \<noteq> None" shows "walk s (take k ps) \<noteq> None"
proof -
  have "walk s ps = walk_from s (walk s (take k ps)) (drop k ps)"
    by (metis append_take_drop_id walk_from_append)
  with assms show ?thesis by (cases "walk s (take k ps)") auto
qed

lemma walk_length:
  assumes wf: "fs_wf s" and w: "walk s ps = Some a"
  shows "length ps < fs_inoCounter s"
proof -
  let ?f = "\<lambda>k. the (walk s (take k ps))"
  have some: "walk s (take k ps) = Some (?f k)" for k
    using walk_take [of s ps k] w by auto
  have "inj_on ?f {0..length ps}"
  proof (rule inj_onI)
    fix i j assume ij: "i \<in> {0..length ps}" "j \<in> {0..length ps}" and "?f i = ?f j"
    then have "take i ps = take j ps"
      using walk_unique [OF wf] some by metis
    then have "length (take i ps) = length (take j ps)" by simp
    with ij show "i = j" by simp
  qed
  moreover have "?f ` {0..length ps} \<subseteq> {..<fs_inoCounter s}"
    using walk_allocated(2) [OF wf some] by auto
  ultimately have "card {0..length ps} \<le> card {..<fs_inoCounter s}"
    by (rule card_inj_on_le) simp
  then show ?thesis by simp
qed

text \<open>The paths below a directory whose inode satisfies a predicate.\<close>

definition reach :: "(nat option \<Rightarrow> bool) \<Rightarrow> fs \<Rightarrow> string list \<Rightarrow> string list \<Rightarrow> string set" where
  "reach P s qs ns = {render_path (qs @ n # rs) | n rs. n \<in> set ns \<and> P (walk s (qs @ n # rs))}"

abbreviation is_dir :: "fs \<Rightarrow> nat option \<Rightarrow> bool" where
  "is_dir s x \<equiv> \<exists>a. x = Some a \<and> dir_of s a \<noteq> None"

abbreviation is_file :: "fs \<Rightarrow> nat option \<Rightarrow> bool" where
  "is_file s x \<equiv> \<exists>a. x = Some a \<and> dir_of s a = None"

definition names_ok :: "fs \<Rightarrow> bool" where
  "names_ok s \<longleftrightarrow> (\<forall>ps. walk s ps \<noteq> None \<longrightarrow> list_all plain_name ps)"

lemma reach_Nil [simp]: "reach P s qs [] = {}"
  by (simp add: reach_def)

lemma reach_file:
  assumes "walk s (qs @ [n]) = Some c" "dir_of s c = None" "\<not> P None"
  shows "reach P s qs (n # ns) =
    (if P (Some c) then {render_path (qs @ [n])} else {}) \<union> reach P s qs ns"
proof -
  have "walk s (qs @ n # r # rs) = None" for r rs
    using assms walk_from_append [of s "Some root_addr" "qs @ [n]" "r # rs"] by simp
  then have "P (walk s (qs @ n # rs)) \<longleftrightarrow> rs = [] \<and> P (Some c)" for rs
    using assms by (cases rs) auto
  then show ?thesis by (auto simp: reach_def)
qed

lemma reach_dir:
  assumes w: "walk s (qs @ [n]) = Some c" and m: "dir_of s c = Some m" and P: "\<not> P None"
  shows "reach P s qs (n # ns) =
    (if P (Some c) then {render_path (qs @ [n])} else {}) \<union> reach P s (qs @ [n]) (keys m)
      \<union> reach P s qs ns"
proof -
  have key: "r \<in> set (keys m)" if "P (walk s (qs @ n # r # rs))" for r rs
  proof (rule ccontr)
    assume "r \<notin> set (keys m)"
    then have "map_of m r = None" by (simp add: map_of_eq_None_iff)
    then have "walk s ((qs @ [n]) @ r # rs) = None"
      using w m by (simp only: walk_from_append) simp
    with that P show False by simp
  qed
  have "{render_path (qs @ n # rs) | rs. P (walk s (qs @ n # rs))} =
      (if P (Some c) then {render_path (qs @ [n])} else {}) \<union> reach P s (qs @ [n]) (keys m)"
    (is "?l = ?r")
  proof
    show "?l \<subseteq> ?r"
    proof
      fix p assume "p \<in> ?l"
      then obtain rs where p: "p = render_path (qs @ n # rs)" "P (walk s (qs @ n # rs))" by auto
      show "p \<in> ?r"
      proof (cases rs)
        case Nil
        with p w show ?thesis by simp
      next
        case (Cons r rs')
        with p key [of r rs'] show ?thesis by (auto simp: reach_def)
      qed
    qed
    show "?r \<subseteq> ?l" using w by (auto simp: reach_def split: if_splits)
  qed
  moreover have "reach P s qs (n # ns) = ?l \<union> reach P s qs ns" by (auto simp: reach_def)
  ultimately show ?thesis by simp
qed

definition sn_valid :: "(inode \<Rightarrow> 'f) \<Rightarrow> fs \<Rightarrow> 'f snap \<Rightarrow> bool" where
  "sn_valid g s sn \<longleftrightarrow>
     (\<forall>(p, f) \<in> set (sn_files sn). \<exists>a nd. resolve p s = Some a \<and> fs_heap s a = Some nd \<and> f = g nd)"

lemma child_path_render:
  "list_all plain_name qs \<Longrightarrow> child_path (render_path qs) n = render_path (qs @ [n])"
  by (simp add: child_path_def) (simp add: render_path_def join_with_snoc)

lemma sn_valid_add:
  assumes "sn_valid g s acc" "resolve p s = Some a" "fs_heap s a = Some nd"
  shows "sn_valid g s (acc\<lparr>sn_files := AList.update p (g nd) (sn_files acc)\<rparr>)"
proof -
  have "set (AList.update p (g nd) m) \<subseteq> insert (p, g nd) (set m)" for m :: "(string \<times> 'a) list"
    by (induction m) auto
  with assms show ?thesis by (fastforce simp: sn_valid_def)
qed

lemma snap_walk_spec:
  assumes wf: "fs_wf s" and names: "names_ok s"
  shows "walk s qs = Some a \<Longrightarrow> dir_of s a = Some m \<Longrightarrow> set es \<subseteq> set m \<Longrightarrow>
    path = render_path qs \<Longrightarrow> fs_inoCounter s \<le> k + length qs \<Longrightarrow>
    \<exists>acc'. snap_walk g s k path es acc = Some acc' \<and>
      set (sn_dirs acc') = set (sn_dirs acc) \<union> reach (is_dir s) s qs (keys es) \<and>
      set (keys (sn_files acc')) = set (keys (sn_files acc)) \<union> reach (is_file s) s qs (keys es) \<and>
      (sn_valid g s acc \<longrightarrow> sn_valid g s acc')"
proof (induction k arbitrary: qs a m es path acc rule: less_induct)
  case (less k)
  note IHk = less.IH
  from less.prems show ?case
  proof (induction es arbitrary: acc)
    case (Cons e es)
    obtain n c where e: "e = (n, c)" by force
    have nc: "map_of m n = Some c"
      using Cons.prems(3) e fs_wfD(4) [OF wf Cons.prems(2)] by (simp add: wf_entries_def)
    have w: "walk s (qs @ [n]) = Some c" using Cons.prems(1,2) nc by (auto simp: walk_snoc)
    obtain nd where nd: "fs_heap s c = Some nd" using walk_allocated(1) [OF wf w] by auto
    have pl: "list_all plain_name (qs @ [n])" using names w by (simp only: names_ok_def) blast
    have res: "resolve (render_path (qs @ [n])) s = Some c" using resolve_render [OF pl] w by simp
    have cp: "child_path path n = render_path (qs @ [n])"
      using child_path_render Cons.prems(4) pl by simp
    have sub: "set es \<subseteq> set m" using Cons.prems(3) by simp
    note IH = Cons.IH [OF Cons.prems(1,2) sub Cons.prems(4,5)]
    have wfi: "wf_inode nd" using fs_wfD(3) [OF wf nd] by simp
    show ?case
    proof (cases "i_type nd")
      case FileT
      then have dc: "dir_of s c = None" using nd by (simp add: dir_of_def)
      let ?acc = "acc\<lparr>sn_files := AList.update (child_path path n) (g nd) (sn_files acc)\<rparr>"
      obtain acc' where acc': "snap_walk g s k path es ?acc = Some acc'"
        "set (sn_dirs acc') = set (sn_dirs acc) \<union> reach (is_dir s) s qs (keys es)"
        "set (keys (sn_files acc')) = set (keys (sn_files ?acc)) \<union> reach (is_file s) s qs (keys es)"
        "sn_valid g s ?acc \<longrightarrow> sn_valid g s acc'"
        using IH [of ?acc] by auto
      have d: "reach (is_dir s) s qs (keys (e # es)) = reach (is_dir s) s qs (keys es)"
        using reach_file [OF w dc, of "is_dir s" "keys es"] dc e by simp
      have f: "reach (is_file s) s qs (keys (e # es)) =
          insert (render_path (qs @ [n])) (reach (is_file s) s qs (keys es))"
        using reach_file [OF w dc, of "is_file s" "keys es"] dc e by simp
      have v: "sn_valid g s acc \<longrightarrow> sn_valid g s acc'"
        using acc'(4) sn_valid_add [of g s acc "child_path path n"] res nd cp by simp
      have kf: "set (keys (sn_files ?acc)) = insert (render_path (qs @ [n])) (set (keys (sn_files acc)))"
        using cp by (simp add: dom_update [unfolded dom_map_of_conv_image_fst] image_image)
      show ?thesis
        using acc' d f v kf e nd FileT by (auto simp del: list.map)
    next
      case DirT
      then obtain cm where cm: "i_children nd = Some cm" "dir_of s c = Some cm"
        using wfi nd by (auto simp: wf_inode_def dir_of_def)
      have "length (qs @ [n]) < fs_inoCounter s" by (rule walk_length [OF wf w])
      with Cons.prems(5) obtain k' where k: "k = Suc k'" by (cases k) auto
      let ?acc = "acc\<lparr>sn_dirs := sn_dirs acc @ [child_path path n]\<rparr>"
      have kk: "fs_inoCounter s \<le> k' + length (qs @ [n])" using Cons.prems(5) k by simp
      obtain acc1 where acc1: "snap_walk g s k' (child_path path n) cm ?acc = Some acc1"
        "set (sn_dirs acc1) = set (sn_dirs ?acc) \<union> reach (is_dir s) s (qs @ [n]) (keys cm)"
        "set (keys (sn_files acc1)) = set (keys (sn_files acc)) \<union> reach (is_file s) s (qs @ [n]) (keys cm)"
        "sn_valid g s ?acc \<longrightarrow> sn_valid g s acc1"
        using IHk [OF _ w cm(2) order.refl cp kk, of ?acc] k by auto
      obtain acc' where acc': "snap_walk g s k path es acc1 = Some acc'"
        "set (sn_dirs acc') = set (sn_dirs acc1) \<union> reach (is_dir s) s qs (keys es)"
        "set (keys (sn_files acc')) = set (keys (sn_files acc1)) \<union> reach (is_file s) s qs (keys es)"
        "sn_valid g s acc1 \<longrightarrow> sn_valid g s acc'"
        using IH [of acc1] by auto
      note rd = reach_dir [OF w cm(2), of _ "keys es"]
      have d: "reach (is_dir s) s qs (keys (e # es)) =
          insert (render_path (qs @ [n])) (reach (is_dir s) s (qs @ [n]) (keys cm))
            \<union> reach (is_dir s) s qs (keys es)"
        using rd [of "is_dir s"] cm e by simp
      have f: "reach (is_file s) s qs (keys (e # es)) =
          reach (is_file s) s (qs @ [n]) (keys cm) \<union> reach (is_file s) s qs (keys es)"
        using rd [of "is_file s"] cm e by simp
      have v: "sn_valid g s ?acc = sn_valid g s acc" by (simp add: sn_valid_def)
      have "snap_walk g s k path (e # es) acc = Some acc'"
        using e nd DirT cm k acc1(1) acc'(1) by simp
      then show ?thesis using acc1 acc' d f v cp by (auto simp del: list.map)
    qed
  qed simp
qed

lemma take_snapshot_spec:
  assumes wf: "fs_wf s" and names: "names_ok s"
  shows "\<exists>sn. take_snapshot g s = Some (fs_seq s, fs_journalStartSeq s, sn) \<and>
    set (sn_dirs sn) = {render_path ps | ps. ps \<noteq> [] \<and> view s ps = Some DirV} \<and>
    set (keys (sn_files sn)) = {render_path ps | ps d. view s ps = Some (FileV d)} \<and>
    sn_valid g s sn"
proof -
  obtain m where m: "dir_of s root_addr = Some m" using fs_wfD(1) [OF wf] by auto
  have key: "n \<in> set (keys m)" if "walk s (n # rs) \<noteq> None" for n rs
    using that m by (cases "map_of m n") (auto dest: map_of_SomeD intro: rev_image_eqI)
  let ?sn0 = "\<lparr>sn_files = [], sn_dirs = []\<rparr>"
  obtain sn where sn: "snap_walk g s (fs_inoCounter s) (render_path []) m ?sn0 = Some sn"
      "set (sn_dirs sn) = reach (is_dir s) s [] (keys m)"
      "set (keys (sn_files sn)) = reach (is_file s) s [] (keys m)" "sn_valid g s sn"
    using snap_walk_spec [OF wf names, of "[]" root_addr m m "render_path []" "fs_inoCounter s" g ?sn0] m
    by (auto simp: sn_valid_def)
  have "reach (is_dir s) s [] (keys m) = {render_path ps | ps. ps \<noteq> [] \<and> view s ps = Some DirV}"
  proof (intro set_eqI iffI)
    fix p assume "p \<in> {render_path ps | ps. ps \<noteq> [] \<and> view s ps = Some DirV}"
    then obtain n rs a where p: "p = render_path (n # rs)" "walk s (n # rs) = Some a" "dir_of s a \<noteq> None"
      by (auto simp: view_DirV neq_Nil_conv)
    then show "p \<in> reach (is_dir s) s [] (keys m)" using key [of n rs] unfolding reach_def by auto
  next
    fix p assume "p \<in> reach (is_dir s) s [] (keys m)"
    then show "p \<in> {render_path ps | ps. ps \<noteq> [] \<and> view s ps = Some DirV}"
      unfolding reach_def view_DirV append_Nil by blast
  qed
  moreover have "reach (is_file s) s [] (keys m) = {render_path ps | ps d. view s ps = Some (FileV d)}"
  proof (intro set_eqI iffI)
    fix p assume "p \<in> {render_path ps | ps d. view s ps = Some (FileV d)}"
    then obtain ps a where p: "p = render_path ps" "walk s ps = Some a" "dir_of s a = None"
      by (auto simp: view_def view_at_def split: if_splits)
    moreover from p m obtain n rs where "ps = n # rs" by (cases ps) auto
    ultimately show "p \<in> reach (is_file s) s [] (keys m)"
      using key [of n rs] unfolding reach_def by auto
  next
    fix p assume "p \<in> reach (is_file s) s [] (keys m)"
    then obtain n rs a where p: "p = render_path (n # rs)" "walk s (n # rs) = Some a" "dir_of s a = None"
      unfolding reach_def append_Nil by blast
    then have "view s (n # rs) = Some (FileV (content_at a s))"
      unfolding view_def view_at_def by simp
    with p(1) show "p \<in> {render_path ps | ps d. view s ps = Some (FileV d)}" by blast
  qed
  ultimately show ?thesis
    using sn m by (simp add: take_snapshot_def)
qed

section \<open>Entry names\<close>

text \<open>
  Entries get plain names, except that \<open>writeFile\<close>, \<open>mkdir\<close> and \<open>rename\<close> applied to the root
  path enter the empty name in the root directory.
\<close>

definition dirs_named :: "fs \<Rightarrow> bool" where
  "dirs_named s \<longleftrightarrow> (\<forall>a m. dir_of s a = Some m \<longrightarrow> list_all plain_name (keys m))"

lemma dirs_named_names_ok: "dirs_named s \<Longrightarrow> names_ok s"
proof -
  assume d: "dirs_named s"
  have "walk s ps = Some a \<Longrightarrow> list_all plain_name ps" for ps a
  proof (induction ps arbitrary: a rule: rev_induct)
    case (snoc n ps)
    then obtain b m where "walk s ps = Some b" "dir_of s b = Some m" "map_of m n = Some a"
      by (auto simp: walk_snoc)
    with snoc.IH d show ?case
      by (force simp: dirs_named_def list_all_iff dest: map_of_SomeD)
  qed simp
  then show ?thesis by (auto simp: names_ok_def)
qed

lemma dir_of_set_child_gen:
  "dir_of (set_child a n c s) = (dir_of s)(a := map_option (AList.update n c) (dir_of s a))"
  "dir_of (del_child a n s) = (dir_of s)(a := map_option (AList.delete n) (dir_of s a))"
  by (auto simp: dir_of_def set_child_def del_child_def heap_upd_inode fun_eq_iff split: option.splits)

lemma dirs_named_cong: "dir_of t = dir_of s \<Longrightarrow> dirs_named t = dirs_named s"
  by (simp add: dirs_named_def)

lemma list_all_update: "list_all P (keys m) \<Longrightarrow> P n \<Longrightarrow> list_all P (keys (AList.update n c m))"
  by (induction m) auto

lemma dirs_named_prims [simp]:
  "dirs_named (emit op p x s) = dirs_named s"
  "dirs_named (snd (date_now s)) = dirs_named s"
  "dirs_named (touch_atime a s) = dirs_named s"
  "dirs_named (s\<lparr>fs_fdTable := tab\<rparr>) = dirs_named s"
  "dirs_named (s\<lparr>fs_nextFd := k\<rparr>) = dirs_named s"
  "dirs_named (s\<lparr>fs_activeTx := tx\<rparr>) = dirs_named s"
  "dirs_named (s\<lparr>fs_txid := k\<rparr>) = dirs_named s"
  "dirs_named (s\<lparr>fs_listeners := ls\<rparr>) = dirs_named s"
  by (rule dirs_named_cong;
      simp add: touch_atime_def split_beta dir_of_upd_shape fun_eq_iff dir_of_def)+

lemma dirs_named_upd: "keeps_shape f \<Longrightarrow> dirs_named (upd_inode a f s) = dirs_named s"
  by (rule dirs_named_cong) (rule dir_of_upd_shape)

lemma dirs_named_make: "dirs_named s \<Longrightarrow> dirs_named (snd (makeInode ty c s))"
  by (auto simp: dirs_named_def dir_of_makeInode split: if_splits)

lemma dirs_named_set: "dirs_named s \<Longrightarrow> plain_name n \<Longrightarrow> dirs_named (set_child a n c s)"
  by (auto simp: dirs_named_def dir_of_set_child_gen list_all_update split: if_splits)

lemma dirs_named_del: "dirs_named s \<Longrightarrow> dirs_named (del_child a n s)"
  by (fastforce simp: dirs_named_def dir_of_set_child_gen list_all_iff AList.delete_eq split: if_splits)

lemma plain_last:
  assumes "comps p \<noteq> []"
  shows "plain_name (snd (parentAndName (normalizePath p)))"
proof -
  obtain ps n where c: "comps p = ps @ [n]"
      "parentAndName (normalizePath p) = (Some (render_path ps), n)"
    by (rule comps_cases [OF assms])
  moreover have "list_all plain_name (ps @ [n])" using c(1) norm_parts_path_parts [of p] by simp
  ultimately show ?thesis by simp
qed

lemma dirs_named_mkdir_loop:
  "dirs_named s \<Longrightarrow> list_all plain_name parts \<Longrightarrow>
     dirs_named (snd (mkdir_loop norm parts cur built s))"
  by (induction norm parts cur built s rule: mkdir_loop.induct)
    (auto simp: Let_def split_beta dirs_named_set dirs_named_make split: option.splits)

fun op_named :: "fs_op \<Rightarrow> bool" where
  "op_named (OpMkdir p r) = (r \<or> comps p \<noteq> [])"
| "op_named (OpWriteFile p d) = (comps p \<noteq> [])"
| "op_named (OpRename p q) = (comps q \<noteq> [])"
| "op_named _ = True"

lemma dirs_named_writeFd: "dirs_named s \<Longrightarrow> dirs_named (snd (writeFd fd b off n pos s))"
proof (cases "fs_fdTable s fd")
  case (Some e)
  assume d: "dirs_named s"
  show ?thesis
  proof (cases "Option.bind (wr_base (wr_pos pos e + length (subarray off (off + n) b)) e
           (content_at (fd_inode e) s)) (blit (subarray off (off + n) b) (wr_pos pos e))")
    case None
    with Some d show ?thesis by (simp add: writeFd_fail)
  next
    case c: (Some c)
    show ?thesis
      by (rule writeFd_ok [OF Some c]) (use d in \<open>simp add: dirs_named_upd\<close>)
  qed
qed (simp add: writeFd_def)

lemma dirs_named_step: "dirs_named s \<Longrightarrow> op_named op \<Longrightarrow> dirs_named (fs_step s op)"
proof (cases op)
  case (OpMkdir p r)
  moreover assume "dirs_named s" "op_named op"
  ultimately show ?thesis using plain_last [of p] norm_parts_path_parts [of p]
    by (auto simp: mkdir_def Let_def split_beta intro!: dirs_named_mkdir_loop
        dirs_named_set dirs_named_make split: option.splits)
next
  case (OpWriteFile p d)
  moreover assume "dirs_named s" "op_named op"
  ultimately show ?thesis using plain_last [of p]
    by (auto simp: writeFile_def write_existing_def write_new_def Let_def split_beta dirs_named_upd
        intro!: dirs_named_set dirs_named_make split: option.splits)
next
  case (OpRename p q)
  moreover assume "dirs_named s" "op_named op"
  ultimately show ?thesis using plain_last [of q]
    by (auto simp: rename_def Let_def split_beta dirs_named_upd
        intro!: dirs_named_set dirs_named_del split: option.splits)
qed (auto simp: readFile_def readdir_def stat_def unlink_def rmdir_def openFd_def readFd_def
      closeFd_def beginTx_def commitTx_def onMutation_def unsubscribe_def Let_def split_beta
      dirs_named_upd dirs_named_writeFd intro!: dirs_named_del split: option.splits)

lemma dirs_named_run: "list_all op_named ops \<Longrightarrow> dirs_named (fs_run clk ops)"
proof -
  have "dirs_named s \<Longrightarrow> list_all op_named ops \<Longrightarrow> dirs_named (foldl fs_step s ops)" for s
    by (induction ops arbitrary: s) (auto simp: dirs_named_step)
  moreover have "dirs_named (new_memfs clk)"
    by (simp add: dirs_named_def dir_of_def new_memfs_def)
  ultimately show "list_all op_named ops \<Longrightarrow> dirs_named (fs_run clk ops)" by (simp add: fs_run_def)
qed

section \<open>Populating a file system\<close>

text \<open>The body of the loop of \<open>populate\<close>: the parent directories, then the file.\<close>

definition put_file :: "string \<Rightarrow> byte list \<Rightarrow> fs \<Rightarrow> (js_exn + unit) \<times> fs" where
  "put_file path content s =
     (let (r1, s1) = (case fst (parentAndName (normalizePath path)) of
                        Some parent \<Rightarrow> if parent \<noteq> ''/'' then mkdir parent True s else (Inr (), s)
                      | None \<Rightarrow> (Inr (), s))
      in case r1 of Inl e \<Rightarrow> (Inl e, s1) | Inr _ \<Rightarrow> writeFile path content s1)"

lemma populate_store_all: "populate files s = store_all put_file files s"
proof (induction files arbitrary: s)
  case (Cons f files)
  obtain p d where f: "f = (p, d)" by force
  show ?case using Cons f by (auto simp: put_file_def split_beta Let_def split: sum.splits prod.splits)
qed simp

definition file_content :: "fs \<Rightarrow> string list \<Rightarrow> byte list option" where
  "file_content s ps = (case view s ps of Some (FileV d) \<Rightarrow> Some d | _ \<Rightarrow> None)"

lemma file_content_Some: "file_content s ps = Some d \<longleftrightarrow> view s ps = Some (FileV d)"
  by (auto simp: file_content_def split: option.splits fnode.splits)

lemma put_file_root: "fs_wf s \<Longrightarrow> comps p = [] \<Longrightarrow> fs_wf (snd (put_file p d s))"
  by (simp add: put_file_def normalizePath_render parentAndName_root fs_wf_writeFile)

lemma put_file_cases:
  assumes wf: "fs_wf s" and p: "comps p \<noteq> []"
  obtains (failed) e t where "put_file p d s = (Inl e, t)" "fs_wf t"
  | (written) s1 where "fs_wf s1" "put_file p d s = writeFile p d s1"
      "\<And>ps x. view s ps = Some (FileV x) \<Longrightarrow> view s1 ps = Some (FileV x)"
proof -
  obtain qs n where c: "comps p = qs @ [n]"
      "parentAndName (normalizePath p) = (Some (render_path qs), n)"
    by (rule comps_cases [OF p])
  have pl: "list_all plain_name qs" using c(1) norm_parts_path_parts [of p] by simp
  show thesis
  proof (cases "qs = []")
    case True
    with c wf show thesis by (intro written [of s]) (simp_all add: put_file_def)
  next
    case False
    have cq: "comps (render_path qs) = qs" using pl by simp
    let ?r = "mkdir (render_path qs) True s"
    note mk = mkdir_p_spec [OF wf, of "render_path qs"]
    show thesis
    proof (cases "fst ?r")
      case (Inl e)
      then show thesis using False c pl mk(2)
        by (intro failed [of e "snd ?r"]) (simp_all add: put_file_def split_beta)
    next
      case (Inr u)
      have sp: "agrees ?r (spec_mkdir_p qs (view s)) (view s)" using mk(1) cq by simp
      have nofile: "\<not> (\<exists>k \<le> length qs. \<exists>d. view s (take k qs) = Some (FileV d))"
      proof
        assume "\<exists>k \<le> length qs. \<exists>d. view s (take k qs) = Some (FileV d)"
        then have "spec_mkdir_p qs (view s) = Inl ENOTDIR" by (simp add: spec_mkdir_p_def)
        with sp Inr show False by (simp add: agrees_def)
      qed
      then have v: "view (snd ?r) = (\<lambda>rs. if prefix rs qs then Some DirV else view s rs)"
        using sp unfolding spec_mkdir_p_def if_not_P [OF nofile] by (simp add: agrees_def)
      show thesis
      proof (rule written [of "snd ?r"])
        show "fs_wf (snd ?r)" by (rule mk(2))
        show "put_file p d s = writeFile p d (snd ?r)"
          using False c pl Inr by (simp add: put_file_def split_beta)
        show "view (snd ?r) ps = Some (FileV x)" if "view s ps = Some (FileV x)" for ps x
          using that nofile v by (auto simp: prefix_take)
      qed
    qed
  qed
qed

lemma put_file_ok:
  assumes wf: "fs_wf s" and p: "comps p \<noteq> []" and ok: "put_file p d s = (Inr (), t)"
  shows "view t (comps p) = Some (FileV d)"
    and "view s ps = Some (FileV x) \<Longrightarrow> ps \<noteq> comps p \<Longrightarrow> view t ps = Some (FileV x)"
proof -
  obtain s1 where s1: "fs_wf s1" "writeFile p d s1 = (Inr (), t)"
      "\<And>ps x. view s ps = Some (FileV x) \<Longrightarrow> view s1 ps = Some (FileV x)"
    using ok by (cases rule: put_file_cases [OF wf p, of d]) auto
  have v: "view t = (view s1)(comps p \<mapsto> FileV d)"
    using writeFile_ok_view [OF s1(1) p, of d] s1(2) by simp
  then show "view t (comps p) = Some (FileV d)" by simp
  show "view s ps = Some (FileV x) \<Longrightarrow> ps \<noteq> comps p \<Longrightarrow> view t ps = Some (FileV x)"
    using v s1(3) by simp
qed

lemma fs_wf_put_file: "fs_wf s \<Longrightarrow> fs_wf (snd (put_file p d s))"
proof (cases "comps p = []")
  case False
  assume wf: "fs_wf s"
  then show ?thesis
    by (cases rule: put_file_cases [OF wf False, of d]) (auto simp: fs_wf_writeFile)
qed (simp add: put_file_root)

interpretation memfs_store: file_store fs_wf "\<lambda>p. comps p \<noteq> []" comps file_content put_file
  by unfold_locales (auto simp: fs_wf_put_file file_content_Some intro: put_file_ok)

end
