(* ===== verification/Memfs_Properties.thy ===== *)
theory Memfs_Properties
  imports Memfs_Run
begin

text \<open>
  The promises of the file system, stated over its definitions; each rests on the lemmas of
  the theories it imports and, for \<open>populate\<close>, on the \<open>file_store\<close> interface.
\<close>

section \<open>A directory renamed into its own subtree\<close>

lemma view_set_unreachable:
  assumes npa: "\<And>qs. walk s qs \<noteq> Some npa"
  shows "view (set_child npa n c s) = view s"
proof
  fix qs
  have d: "dir_of (set_child npa n c s) x = dir_of s x" if "walk s rs = Some x" for x rs
    using npa that by (auto simp: dir_of_set_child_gen)
  have w: "walk (set_child npa n c s) qs = walk s qs"
    by (rule walk_from_same) (use d in blast)
  show "view (set_child npa n c s) qs = view s qs"
    using d [of qs] by (cases "walk s qs") (simp_all add: view_def w view_at_def)
qed

lemma rename_inside:
  assumes wf: "fs_wf s" and p: "comps old \<noteq> []"
    and dst: "view s (butlast (comps new)) = Some DirV"
    and nest: "strict_prefix (comps old) (comps new)"
  shows "is_ok (fst (rename old new s)) \<and>
    view (snd (rename old new s)) = (\<lambda>qs. if prefix (comps old) qs then None else view s qs)"
proof -
  obtain ps on where c: "comps old = ps @ [on]"
      "parentAndName (normalizePath old) = (Some (render_path ps), on)"
      "\<And>s. resolve_parent (Some (render_path ps)) s = walk s ps"
    using p by (rule comps_cases) blast
  have "comps new \<noteq> []" using nest by auto
  then obtain qs nn where n: "comps new = qs @ [nn]"
      "parentAndName (normalizePath new) = (Some (render_path qs), nn)"
      "\<And>s. resolve_parent (Some (render_path qs)) s = walk s qs"
    by (rule comps_cases) blast
  obtain rs where qs: "qs = (ps @ [on]) @ rs"
    using nest unfolding c(1) n(1) strict_prefix_def prefix_snoc by (auto elim: prefixE)
  obtain npa nm where npa: "walk s qs = Some npa" "dir_of s npa = Some nm"
    using dst n(1) by (auto simp: view_DirV)
  have "walk s (ps @ [on]) \<noteq> None"
    using npa(1) qs walk_from_append [of s "Some root_addr" "ps @ [on]" rs]
    by (cases "walk s (ps @ [on])") simp_all
  then obtain opa om cc where o: "walk s ps = Some opa" "dir_of s opa = Some om" "map_of om on = Some cc"
    by (auto simp: walk_snoc)
  let ?s1 = "del_child opa on s"
  have v1: "view ?s1 = (\<lambda>qs. if prefix (ps @ [on]) qs then None else view s qs)"
    by (rule view_del_child [OF wf o(1,2)])
  have unr: "walk ?s1 xs \<noteq> Some npa" for xs
  proof
    assume x: "walk ?s1 xs = Some npa"
    then have np: "\<not> prefix (ps @ [on]) xs"
      using v1 [THEN fun_cong, of xs] by (auto simp: view_def split: if_splits)
    have "walk ?s1 xs = walk s xs"
      using dir_of_del_child [OF o(2), of on]
      by (intro walk_other [OF wf o(1,2) _ _ _ np, where m' = "AList.delete on om"]) simp_all
    with x have "xs = qs" using walk_unique [OF wf _ npa(1)] by metis
    with np qs show False by simp
  qed
  have "view (relinked opa on npa nn cc s) = view ?s1"
    unfolding relinked_def by (rule view_set_unreachable) (rule unr)
  then show ?thesis
    using rename_state [OF c(2) _ o(2,3) n(2), of npa] c(1,3) n(3) o npa v1 by simp
qed

section \<open>Node's specifications\<close>

text \<open>
  A path is looked up directory by directory: the first proper prefix that is not a directory
  decides the error.
\<close>

definition node_parent :: "string list \<Rightarrow> vfs \<Rightarrow> errcode option" where
  "node_parent ps v =
     (case find (\<lambda>k. v (take k ps) \<noteq> Some DirV) [0..<length ps] of
        None \<Rightarrow> None
      | Some k \<Rightarrow> Some (if v (take k ps) = None then ENOENT else ENOTDIR))"

definition node_write :: "string list \<Rightarrow> byte list \<Rightarrow> vfs \<Rightarrow> errcode + vfs" where
  "node_write ps d v =
     (case node_parent ps v of
        Some e \<Rightarrow> Inl e
      | None \<Rightarrow> if v ps = Some DirV then Inl EISDIR else Inr (v(ps \<mapsto> FileV d)))"

definition node_unlink :: "string list \<Rightarrow> vfs \<Rightarrow> errcode + vfs" where
  "node_unlink ps v =
     (case node_parent ps v of
        Some e \<Rightarrow> Inl e
      | None \<Rightarrow> (case v ps of None \<Rightarrow> Inl ENOENT | Some DirV \<Rightarrow> Inl EISDIR
                | Some (FileV d) \<Rightarrow> Inr (v(ps := None))))"

definition node_rmdir :: "string list \<Rightarrow> vfs \<Rightarrow> errcode + vfs" where
  "node_rmdir ps v =
     (case node_parent ps v of
        Some e \<Rightarrow> Inl e
      | None \<Rightarrow> (case v ps of None \<Rightarrow> Inl ENOENT | Some (FileV d) \<Rightarrow> Inl ENOTDIR
                | Some DirV \<Rightarrow> if \<exists>n. v (ps @ [n]) \<noteq> None then Inl ENOTEMPTY else Inr (v(ps := None))))"

text \<open>The path leads through a regular file.\<close>

definition below_file :: "string list \<Rightarrow> vfs \<Rightarrow> bool" where
  "below_file ps v \<longleftrightarrow> list_ex (\<lambda>k. v (take k ps) \<noteq> None \<and> v (take k ps) \<noteq> Some DirV) [0..<length ps]"

lemma view_prefix_dirs:
  assumes "view s (butlast ps) = Some DirV" "k < length ps"
  shows "view s (take k ps) = Some DirV"
proof (rule ccontr)
  assume n: "view s (take k ps) \<noteq> Some DirV"
  have k: "butlast ps = take k ps @ drop k (butlast ps)"
    using assms(2) by (metis append_take_drop_id take_butlast)
  with n assms(1) obtain r rs where "drop k (butlast ps) = r # rs"
    by (cases "drop k (butlast ps)") auto
  with view_below [OF n, of r rs] k assms(1) show False by simp
qed

text \<open>In a tree the error is \<open>ENOTDIR\<close> exactly below a file, and otherwise the parent decides.\<close>

lemma node_parent_view:
  assumes "ps \<noteq> []"
  shows "below_file ps (view s) \<Longrightarrow> node_parent ps (view s) = Some ENOTDIR \<and> view s (butlast ps) \<noteq> Some DirV"
    and "\<not> below_file ps (view s) \<Longrightarrow>
      node_parent ps (view s) = (if view s (butlast ps) = Some DirV then None else Some ENOENT)"
proof -
  let ?P = "\<lambda>k. view s (take k ps) \<noteq> Some DirV"
  have last: "butlast ps = take (length ps - 1) ps" by (rule butlast_conv_take)
  have below: "view s (take j ps) = None" if "?P i" "i < j" "j \<le> length ps" for i j
  proof -
    have "take j ps = take i ps @ drop i (take j ps)"
      using that by (metis append_take_drop_id min.absorb1 order.strict_implies_order take_take)
    moreover from that obtain r rs where "drop i (take j ps) = r # rs" by (cases "drop i (take j ps)") auto
    ultimately show ?thesis using view_below [OF that(1)] by metis
  qed
  show "node_parent ps (view s) = Some ENOTDIR \<and> view s (butlast ps) \<noteq> Some DirV" if b: "below_file ps (view s)"
  proof -
    from b obtain k where k: "k < length ps" "view s (take k ps) \<noteq> None" "?P k"
      by (auto simp: below_file_def list_ex_iff)
    have "view s (take i ps) = Some DirV" if "i < k" for i
      using below [of i k] that k by auto
    then have "find ?P [0..<length ps] = Some k" using k(1,3) by (auto simp: find_Some_iff)
    then have "node_parent ps (view s) = Some ENOTDIR" using k(2) by (simp add: node_parent_def)
    moreover have "view s (butlast ps) \<noteq> Some DirV" using view_prefix_dirs k(1,3) by blast
    ultimately show ?thesis by blast
  qed
  show "node_parent ps (view s) = (if view s (butlast ps) = Some DirV then None else Some ENOENT)"
    if b: "\<not> below_file ps (view s)"
  proof (cases "view s (butlast ps) = Some DirV")
    case True
    then have "find ?P [0..<length ps] = None" using view_prefix_dirs by (auto simp: find_None_iff)
    with True show ?thesis by (simp add: node_parent_def)
  next
    case False
    then have "?P (length ps - 1)" "length ps - 1 < length ps" using assms last by auto
    then have "find ?P [0..<length ps] \<noteq> None" by (auto simp: find_None_iff)
    then obtain k where k: "find ?P [0..<length ps] = Some k" by blast
    then have "k < length ps" "?P k" by (auto simp: find_Some_iff)
    with b have "view s (take k ps) = None" by (auto simp: below_file_def list_ex_iff)
    with k False show ?thesis by (simp add: node_parent_def)
  qed
qed

lemma view_orphan: "ps \<noteq> [] \<Longrightarrow> view s (butlast ps) \<noteq> Some DirV \<Longrightarrow> view s ps = None"
  using view_below [of s "butlast ps" "last ps" "[]"] by simp

section \<open>Properties\<close>

text \<open>The definitions a concrete run is evaluated with.\<close>

lemmas fs_exec = fs_run_def new_memfs_def mkdir_def writeFile_def write_new_def write_existing_def
  normalizePath_def norm_parts_def norm_step_def path_parts_def parentAndName_def resolve_parent_def
  resolve_def dir_of_def makeInode_def date_now_def empty_children_def set_child_def del_child_def
  upd_inode_def emit_def ino_extra_def no_extra_def view_def view_at_def content_at_def

text \<open>
  C1. Whatever sequence of operations is run on a new file system (failing ones included), the
  inode graph stays a tree of well-formed inodes: directories have children and files have
  content, every entry leads to an allocated inode, no inode has two entries, and every open
  descriptor refers to an existing file.
\<close>

theorem memfs_run_wf: "fs_wf (fs_run clk ops)"
  by (rule fs_wf_run)



text \<open>
  \<open>mkdir\<close>, plain and recursive, refines its specification: the plain form fails with
  \<open>ENOENT\<close> or \<open>EEXIST\<close> and otherwise adds one directory; the recursive form makes every prefix
  a directory, or throws \<open>ENOTDIR\<close> on a file in the way and then leaves the state as it was.
\<close>

theorem mkdir_refines:
  assumes "fs_wf s" "comps p \<noteq> []"
  shows "agrees (mkdir p False s) (spec_mkdir (comps p) (view s)) (view s) \<and>
    agrees (mkdir p True s) (spec_mkdir_p (comps p) (view s)) (view s) \<and>
    (is_ok (fst (mkdir p True s)) \<or> snd (mkdir p True s) = s)"
  using assms by (simp add: mkdir_spec mkdir_p_spec)

theorem mkdir_refines_witness:
  "agrees (mkdir ''/a/b'' False (new_memfs (\<lambda>_. 0)))
     (spec_mkdir (comps ''/a/b'') (view (new_memfs (\<lambda>_. 0)))) (view (new_memfs (\<lambda>_. 0))) \<and>
   agrees (mkdir ''/a/b'' True (new_memfs (\<lambda>_. 0)))
     (spec_mkdir_p (comps ''/a/b'') (view (new_memfs (\<lambda>_. 0)))) (view (new_memfs (\<lambda>_. 0))) \<and>
   (is_ok (fst (mkdir ''/a/b'' True (new_memfs (\<lambda>_. 0)))) \<or>
    snd (mkdir ''/a/b'' True (new_memfs (\<lambda>_. 0))) = new_memfs (\<lambda>_. 0))"
  by (rule mkdir_refines) (simp, code_simp)



text \<open>The operations below a regular file: \<open>ENOENT\<close> where Node has \<open>ENOTDIR\<close>.\<close>

theorem below_file_enoent:
  "let s = fs_run (\<lambda>_. 0) [OpWriteFile ''/f'' []] in
   map (map_sum (\<lambda>e. case e of FsExn x \<Rightarrow> Some (e_code x) | _ \<Rightarrow> None) (\<lambda>_. ()))
     [fst (writeFile ''/f/x'' [] s), fst (unlink ''/f/x'' s), fst (rmdir ''/f/x'' s)]
   = [Inl (Some ENOENT), Inl (Some ENOENT), Inl (Some ENOENT)]"
  by (simp add: fs_exec unlink_def rmdir_def createFsError_def Let_def)

text \<open>
  C4. \<open>rename\<close> moves the whole subtree to its new place, replacing what was there, when the
  target is not inside the moved directory; when it is, the operation reports success and the
  subtree is gone from the file system.
\<close>

theorem rename_moves_or_loses:
  assumes "fs_wf s" "comps old \<noteq> []" "comps new \<noteq> []" "view s (comps old) \<noteq> None"
    and "view s (butlast (comps new)) = Some DirV"
  shows "is_ok (fst (rename old new s)) \<and>
    view (snd (rename old new s)) =
      (if strict_prefix (comps old) (comps new)
       then (\<lambda>qs. if prefix (comps old) qs then None else view s qs)
       else move_view (comps old) (comps new) (view s))"
  using rename_view [OF assms] rename_inside [OF assms(1,2,5)] by simp

theorem rename_moves_or_loses_witness:
  "is_ok (fst (rename ''/a'' ''/a/b'' (fs_run (\<lambda>_. 0) [OpMkdir ''/a'' False]))) \<and>
   view (snd (rename ''/a'' ''/a/b'' (fs_run (\<lambda>_. 0) [OpMkdir ''/a'' False]))) =
     (if strict_prefix (comps ''/a'') (comps ''/a/b'')
      then (\<lambda>qs. if prefix (comps ''/a'') qs then None
                 else view (fs_run (\<lambda>_. 0) [OpMkdir ''/a'' False]) qs)
      else move_view (comps ''/a'') (comps ''/a/b'') (view (fs_run (\<lambda>_. 0) [OpMkdir ''/a'' False])))"
  by (rule rename_moves_or_loses)
    (rule fs_wf_run, code_simp, code_simp, simp_all add: fs_exec)

text \<open>
  C5. A file written through any spelling of its path reads back with the same bytes through
  any other spelling, and \<open>readFile\<close> answers from the abstract view on every branch.
\<close>

theorem write_read_roundtrip:
  assumes "fs_wf s" "comps p \<noteq> []" "is_ok (fst (writeFile p d s))" "comps q = comps p"
  shows "fst (readFile q (snd (writeFile p d s))) = Inr d"
  using assms by (rule write_then_read)

theorem write_read_roundtrip_witness:
  "fst (readFile ''/x/../f'' (snd (writeFile ''f'' [] (new_memfs (\<lambda>_. 0))))) = Inr []"
  by (rule write_read_roundtrip) (simp, code_simp, simp add: fs_exec, code_simp)

text \<open>
  Bytes written through a descriptor at a position are read back from that position, into
  the front of the caller's buffer, through the same descriptor.
\<close>

theorem fd_write_read:
  assumes "fs_wf s" "writeFd fd b off n (Some pos) s = (Inr k, t)" "0 < k" "k \<le> length out"
  shows "fst (readFd fd out 0 k (Some pos) t) = Inr (k, subarray off (off + n) b @ drop k out)"
  using assms by (rule fd_roundtrip)

lemma open_write_example:
  "fst (writeFd 3 [7] 0 1 (Some 0)
     (fs_run (\<lambda>_. 0) [OpWriteFile ''/f'' [0], OpOpen ''/f''])) = Inr 1"
  by (simp add: fs_exec openFd_def writeFd_def subarray_def blit_def Let_def)

theorem fd_write_read_witness:
  "fst (readFd 3 [1, 2] 0 1 (Some 0)
     (snd (writeFd 3 [7] 0 1 (Some 0)
       (fs_run (\<lambda>_. 0) [OpWriteFile ''/f'' [0], OpOpen ''/f''])))) = Inr (1, [7, 2])"
  using fd_write_read [OF fs_wf_run, of 3 "[7]" 0 1 0 "\<lambda>_. 0" "[OpWriteFile ''/f'' [0], OpOpen ''/f'']" 1
      "snd (writeFd 3 [7] 0 1 (Some 0) (fs_run (\<lambda>_. 0) [OpWriteFile ''/f'' [0], OpOpen ''/f'']))"
      "[1, 2]"]
    open_write_example
  by (simp add: prod_eq_iff subarray_def)

text \<open>
  C6. After any run the journal holds consecutive records from its watermark on, so a reader
  that asks for the records after a number not below the watermark is told there is no gap and
  gets exactly the later ones, in order.
\<close>

theorem journal_since_complete:
  assumes "fs_journalStartSeq (fs_run clk ops) \<le> sq"
  shows "\<not> r_gap (getJournalSince sq (fs_run clk ops)) \<and>
    map j_seq (r_entries (getJournalSince sq (fs_run clk ops))) = [Suc sq..<Suc (fs_seq (fs_run clk ops))]"
  using getJournalSince_complete [OF journal_inv_run assms] by blast

theorem journal_since_complete_witness:
  "\<not> r_gap (getJournalSince 1 (fs_run (\<lambda>_. 0) [OpMkdir ''/a'' False, OpMkdir ''/b'' False])) \<and>
   map j_seq (r_entries (getJournalSince 1 (fs_run (\<lambda>_. 0) [OpMkdir ''/a'' False, OpMkdir ''/b'' False])))
     = [Suc 1..<Suc (fs_seq (fs_run (\<lambda>_. 0) [OpMkdir ''/a'' False, OpMkdir ''/b'' False]))]"
  by (rule journal_since_complete) (simp add: fs_exec)

text \<open>
  A snapshot terminates with as much fuel as there are inodes and lists exactly the
  directories and the files of the tree, each file with the metadata of the inode its path
  resolves to, stamped with the current sequence number and watermark.
\<close>

theorem snapshot_exact:
  assumes "list_all op_named ops" and "s = fs_run clk ops"
  shows "\<exists>sn. snapshot s = Some (fs_seq s, fs_journalStartSeq s, sn) \<and>
    set (sn_dirs sn) = {render_path ps | ps. ps \<noteq> [] \<and> view s ps = Some DirV} \<and>
    set (keys (sn_files sn)) = {render_path ps | ps d. view s ps = Some (FileV d)} \<and>
    sn_valid meta_of s sn"
  unfolding snapshot_def assms(2)
  by (rule take_snapshot_spec [OF fs_wf_run dirs_named_names_ok [OF dirs_named_run [OF assms(1)]]])

theorem snapshot_exact_witness:
  "\<exists>sn. snapshot (fs_run (\<lambda>_. 0) [OpMkdir ''/a'' True, OpWriteFile ''/a/f'' []]) =
      Some (fs_seq (fs_run (\<lambda>_. 0) [OpMkdir ''/a'' True, OpWriteFile ''/a/f'' []]),
            fs_journalStartSeq (fs_run (\<lambda>_. 0) [OpMkdir ''/a'' True, OpWriteFile ''/a/f'' []]), sn)"
proof -
  have "list_all op_named [OpMkdir ''/a'' True, OpWriteFile ''/a/f'' []]" by code_simp
  from snapshot_exact [OF this refl, of "\<lambda>_. 0"] show ?thesis by blast
qed

text \<open>
  \<open>populate\<close> that returns leaves every listed file readable with its listed bytes (the
  last one, when a path is listed twice), whatever spelling the paths have.
\<close>

theorem populate_installs:
  assumes "fs_wf s" "\<forall>f \<in> set files. comps (fst f) \<noteq> []" "populate files s = (Inr (), t)"
    and "files = before @ (p, d) # after" "comps p \<notin> comps ` fst ` set after"
  shows "fst (readFile p t) = Inr d"
proof -
  note st = assms(3) [unfolded populate_store_all]
  have "file_content t (comps p) = Some d"
    by (rule memfs_store.store_all_reads [OF assms(1,2) st assms(4,5)])
  moreover have "fs_wf t" using memfs_store.store_all_inv [OF assms(1), of files] st by simp
  ultimately show ?thesis by (simp add: readFile_view file_content_Some)
qed

theorem populate_installs_witness:
  "fst (readFile ''/d/f'' (snd (populate [(''/d/f'', []), (''/g'', [])] (new_memfs (\<lambda>_. 0))))) = Inr []"
proof (rule populate_installs [OF fs_wf_new _ _ append_Nil [symmetric]])
  show "populate [(''/d/f'', []), (''/g'', [])] (new_memfs (\<lambda>_. 0)) =
     (Inr (), snd (populate [(''/d/f'', []), (''/g'', [])] (new_memfs (\<lambda>_. 0))))"
    by (simp add: fs_exec)
qed code_simp+

text \<open>
  \<open>normalizePath\<close> gives the one canonical spelling of a path: it is idempotent, its
  components hold no separator and are neither empty nor a dot name, \<open>resolvePath\<close> always
  returns a canonical path, and two paths have the same normal form exactly when they have
  the same components.
\<close>

theorem normalizePath_canonical:
  "canonical_path (normalizePath p) \<and> normalizePath (normalizePath p) = normalizePath p \<and>
   list_all plain_name (comps p) \<and> canonical_path (resolvePath p cwd) \<and>
   (normalizePath p = normalizePath q \<longleftrightarrow> comps p = comps q)"
  by (auto simp: normalizePath_render resolvePath_canonical)

end
