(* ===== verification/Deque.thy ===== *)
theory Deque
  imports Prelude
begin

unbundle bit_operations_syntax

text \<open>
  The ring buffer of \<open>napi-bridge/streams.js\<close> that both stream classes queue their chunks in,
  the queue interface its clients rely on, and the proof that the ring buffer provides it.
\<close>

section \<open>The interface\<close>

locale fifo_queue =
  fixes inv :: "'q \<Rightarrow> bool"
    and abs :: "'q \<Rightarrow> 'a list"
    and empty :: 'q
    and push :: "'a \<Rightarrow> 'q \<Rightarrow> 'q"
    and shift :: "'q \<Rightarrow> 'a option \<times> 'q"
    and size :: "'q \<Rightarrow> nat"
  assumes inv_empty: "inv empty" and abs_empty: "abs empty = []"
    and inv_push: "inv q \<Longrightarrow> inv (push x q)"
    and abs_push: "inv q \<Longrightarrow> abs (push x q) = abs q @ [x]"
    and inv_shift: "inv q \<Longrightarrow> inv (snd (shift q))"
    and shift_result: "inv q \<Longrightarrow> fst (shift q) = (case abs q of [] \<Rightarrow> None | x # _ \<Rightarrow> Some x)"
    and abs_shift: "inv q \<Longrightarrow> abs (snd (shift q)) = tl (abs q)"
    and size_abs: "inv q \<Longrightarrow> size q = length (abs q)"
begin

lemma size_0: "inv q \<Longrightarrow> size q = 0 \<longleftrightarrow> abs q = []"
  by (simp add: size_abs)

lemma shift_cases:
  assumes "inv q"
  obtains (empty) "abs q = []" "fst (shift q) = None"
  | (item) x where "fst (shift q) = Some x" "abs q = x # abs (snd (shift q))"
  using shift_result [OF assms] abs_shift [OF assms] by (cases "abs q") auto

lemma push_all: "inv q \<Longrightarrow> inv (foldl (\<lambda>q x. push x q) q xs) \<and>
    abs (foldl (\<lambda>q x. push x q) q xs) = abs q @ xs"
  by (induction xs arbitrary: q) (auto simp: inv_push abs_push)

fun shift_n :: "nat \<Rightarrow> 'q \<Rightarrow> 'a option list \<times> 'q" where
  "shift_n 0 q = ([], q)"
| "shift_n (Suc n) q = (let (x, q1) = shift q; (xs, q2) = shift_n n q1 in (x # xs, q2))"

text \<open>First in, first out: pushing a list and shifting as often returns it in order.\<close>

lemma shift_n_abs:
  "inv q \<Longrightarrow> n \<le> length (abs q) \<Longrightarrow>
     fst (shift_n n q) = map Some (take n (abs q)) \<and> inv (snd (shift_n n q)) \<and>
     abs (snd (shift_n n q)) = drop n (abs q)"
proof (induction n arbitrary: q)
  case (Suc n)
  then obtain x xs where q: "abs q = x # xs" by (cases "abs q") auto
  have "inv (snd (shift q))" "abs (snd (shift q)) = xs" "fst (shift q) = Some x"
    using Suc.prems(1) q by (simp_all add: inv_shift abs_shift shift_result)
  with Suc.IH [of "snd (shift q)"] Suc.prems(2) q show ?case
    by (simp add: split_beta Let_def)
qed simp

lemma fifo:
  "fst (shift_n (length xs) (foldl (\<lambda>q x. push x q) empty xs)) = map Some xs"
  using push_all [OF inv_empty, of xs] shift_n_abs [of "foldl (\<lambda>q x. push x q) empty xs" "length xs"]
  by (simp add: abs_empty)

end

section \<open>The ring buffer\<close>

record 'a deque =
  dq_items :: "'a option list"
  dq_head :: nat
  dq_tail :: nat
  dq_size :: nat

definition dq_new :: "'a deque" where
  "dq_new = \<lparr>dq_items = replicate 16 None, dq_head = 0, dq_tail = 0, dq_size = 0\<rparr>"

definition dq_length :: "'a deque \<Rightarrow> nat" where
  "dq_length d = dq_size d"

text \<open>\<open>next[i]\<close> past the copied items is a hole of \<open>new Array(cap * 2)\<close>.\<close>

definition dq_grow :: "'a deque \<Rightarrow> 'a deque" where
  "dq_grow d =
     (let old = dq_items d; cap = length old in
      \<lparr>dq_items = map (\<lambda>i. if i < dq_size d then old ! ((dq_head d + i) AND (cap - 1)) else None)
                    [0..<cap * 2],
       dq_head = 0, dq_tail = dq_size d, dq_size = dq_size d\<rparr>)"

definition dq_push :: "'a \<Rightarrow> 'a deque \<Rightarrow> 'a deque" where
  "dq_push x d =
     (let d1 = (if dq_size d = length (dq_items d) then dq_grow d else d) in
      d1\<lparr>dq_items := (dq_items d1)[dq_tail d1 := Some x],
         dq_tail := (dq_tail d1 + 1) AND (length (dq_items d1) - 1),
         dq_size := Suc (dq_size d1)\<rparr>)"

definition dq_shift :: "'a deque \<Rightarrow> 'a option \<times> 'a deque" where
  "dq_shift d =
     (if dq_size d = 0 then (None, d)
      else (dq_items d ! dq_head d,
            d\<lparr>dq_items := (dq_items d)[dq_head d := None],
              dq_head := (dq_head d + 1) AND (length (dq_items d) - 1),
              dq_size := dq_size d - 1\<rparr>))"

text \<open>The position of the \<open>i\<close>-th queued item, and the queue as a list.\<close>

definition dq_slot :: "'a deque \<Rightarrow> nat \<Rightarrow> nat" where
  "dq_slot d i = (dq_head d + i) mod length (dq_items d)"

definition dq_inv :: "'a deque \<Rightarrow> bool" where
  "dq_inv d \<longleftrightarrow>
     (\<exists>k. length (dq_items d) = 2 ^ k) \<and>
     dq_head d < length (dq_items d) \<and> dq_size d \<le> length (dq_items d) \<and>
     dq_tail d = dq_slot d (dq_size d) \<and>
     (\<forall>i < dq_size d. dq_items d ! dq_slot d i \<noteq> None)"

definition dq_list :: "'a deque \<Rightarrow> 'a list" where
  "dq_list d = map (\<lambda>i. the (dq_items d ! dq_slot d i)) [0..<dq_size d]"

lemma and_mask_mod: "length xs = 2 ^ k \<Longrightarrow> n AND (length xs - 1) = n mod length xs"
proof -
  assume "length xs = 2 ^ k"
  moreover have "n AND mask k = n mod 2 ^ k" by (simp add: take_bit_eq_mod flip: take_bit_eq_mask)
  ultimately show ?thesis by (simp add: mask_eq_exp_minus_1)
qed

lemma dq_invD:
  assumes "dq_inv d"
  shows "n AND (length (dq_items d) - 1) = n mod length (dq_items d)"
    and "0 < length (dq_items d)"
  using assms and_mask_mod by (auto simp: dq_inv_def)

lemma dq_grow_inv:
  assumes inv: "dq_inv d" and full: "dq_size d = length (dq_items d)"
  shows "dq_inv (dq_grow d)" "dq_list (dq_grow d) = dq_list d"
    "dq_size (dq_grow d) < length (dq_items (dq_grow d))"
proof -
  let ?cap = "length (dq_items d)"
  have cap: "0 < ?cap" by (rule dq_invD(2) [OF inv])
  have len: "length (dq_items (dq_grow d)) = ?cap * 2" by (simp add: dq_grow_def Let_def)
  have slot: "dq_slot (dq_grow d) i = i" if "i < ?cap * 2" for i
    using that by (simp add: dq_slot_def len) (simp add: dq_grow_def Let_def)
  have item: "dq_items (dq_grow d) ! i = dq_items d ! dq_slot d i" if "i < dq_size d" for i
    using that full dq_invD(1) [OF inv, of "dq_head d + i"] by (simp add: dq_grow_def Let_def dq_slot_def)
  obtain k where "?cap = 2 ^ k" using inv by (auto simp: dq_inv_def)
  then have "?cap * 2 = 2 ^ Suc k" by simp
  with cap len have "\<exists>k. length (dq_items (dq_grow d)) = 2 ^ k" by metis
  moreover have "dq_size (dq_grow d) = dq_size d" "dq_head (dq_grow d) = 0"
    "dq_tail (dq_grow d) = dq_size d"
    by (simp_all add: dq_grow_def Let_def)
  ultimately show "dq_inv (dq_grow d)" "dq_list (dq_grow d) = dq_list d"
    "dq_size (dq_grow d) < length (dq_items (dq_grow d))"
    using inv full cap len slot item by (auto simp: dq_inv_def dq_list_def)
qed

lemma mod_window:
  assumes "i < c" "j < c" "(h + i) mod c = (h + j) mod (c :: nat)"
  shows "i = j"
  using assms
proof (induction i j rule: linorder_wlog)
  case (le i j)
  then have "c dvd (h + j) - (h + i)" by (metis mod_eq_dvd_iff_nat add_le_cancel_left)
  then have "c dvd j - i" by simp
  with le show ?case by (auto dest: dvd_imp_le)
qed simp

lemma dq_push_room:
  fixes x :: 'a and d :: "'a deque"
  assumes inv: "dq_inv d" and room: "dq_size d < length (dq_items d)"
  defines "d' \<equiv> d\<lparr>dq_items := (dq_items d)[dq_tail d := Some x],
         dq_tail := (dq_tail d + 1) AND (length (dq_items d) - 1), dq_size := Suc (dq_size d)\<rparr>"
  shows "dq_inv d'" "dq_list d' = dq_list d @ [x]"
proof -
  let ?c = "length (dq_items d)"
  have tail: "dq_tail d = dq_slot d (dq_size d)" and cap: "0 < ?c"
    using inv dq_invD(2) [OF inv] by (auto simp: dq_inv_def)
  have slot: "dq_slot d' i = dq_slot d i" for i by (simp add: dq_slot_def d'_def)
  have lt: "dq_slot d i < ?c" for i using cap by (simp add: dq_slot_def)
  have neq: "dq_slot d i \<noteq> dq_slot d (dq_size d)" if "i < dq_size d" for i
    using mod_window [of i ?c "dq_size d" "dq_head d"] that room by (auto simp: dq_slot_def)
  have old: "dq_items d' ! dq_slot d i = dq_items d ! dq_slot d i" if "i < dq_size d" for i
    using neq [OF that] by (simp add: d'_def tail)
  have new: "dq_items d' ! dq_slot d (dq_size d) = Some x"
    using lt [of "dq_size d"] by (simp add: d'_def tail)
  have "dq_tail d' = dq_slot d (Suc (dq_size d))"
    using dq_invD(1) [OF inv, of "dq_tail d + 1"] tail
    by (simp add: d'_def dq_slot_def mod_Suc_eq)
  moreover have "dq_items d' ! dq_slot d i \<noteq> None" if "i < Suc (dq_size d)" for i
    using that old new inv by (cases "i = dq_size d") (auto simp: dq_inv_def)
  ultimately show "dq_inv d'" using inv room slot by (auto simp: dq_inv_def d'_def)
  show "dq_list d' = dq_list d @ [x]"
    using old new slot by (simp add: dq_list_def d'_def)
qed

lemma dq_push_inv:
  assumes inv: "dq_inv d"
  shows "dq_inv (dq_push x d)" "dq_list (dq_push x d) = dq_list d @ [x]"
proof -
  have "dq_size d \<le> length (dq_items d)" using inv by (simp add: dq_inv_def)
  then show "dq_inv (dq_push x d)" "dq_list (dq_push x d) = dq_list d @ [x]"
    using dq_push_room [OF inv, of x] dq_grow_inv [OF inv]
      dq_push_room [OF dq_grow_inv(1) [OF inv], of x]
    by (cases "dq_size d = length (dq_items d)"; simp add: dq_push_def Let_def)+
qed

lemma dq_shift_inv:
  assumes inv: "dq_inv d" and n: "dq_size d \<noteq> 0"
  shows "dq_inv (snd (dq_shift d))" "dq_list d = the (fst (dq_shift d)) # dq_list (snd (dq_shift d))"
    "fst (dq_shift d) \<noteq> None"
proof -
  let ?c = "length (dq_items d)" and ?d = "snd (dq_shift d)"
  have h: "dq_head d < ?c" using inv by (simp add: dq_inv_def)
  then have s0: "dq_slot d 0 = dq_head d" by (simp add: dq_slot_def)
  have fields: "dq_items ?d = (dq_items d)[dq_head d := None]" "dq_size ?d = dq_size d - 1"
    "dq_tail ?d = dq_tail d" "dq_head ?d = (dq_head d + 1) mod ?c"
    using n dq_invD(1) [OF inv, of "dq_head d + 1"] by (simp_all add: dq_shift_def)
  have slot: "dq_slot ?d i = dq_slot d (Suc i)" for i
    by (simp add: dq_slot_def fields mod_add_left_eq)
  have neq: "dq_slot d (Suc i) \<noteq> dq_head d" if "Suc i < dq_size d" for i
  proof
    assume "dq_slot d (Suc i) = dq_head d"
    then have "(dq_head d + Suc i) mod ?c = (dq_head d + 0) mod ?c" using h by (simp add: dq_slot_def)
    moreover have "Suc i < ?c" "0 < ?c" using that inv by (auto simp: dq_inv_def)
    ultimately show False using mod_window by blast
  qed
  have item: "dq_items ?d ! dq_slot d (Suc i) = dq_items d ! dq_slot d (Suc i)"
    if "Suc i < dq_size d" for i
    using neq [OF that] by (simp add: fields)
  have hd: "fst (dq_shift d) = dq_items d ! dq_slot d 0" using n s0 by (simp add: dq_shift_def)
  with inv n show "fst (dq_shift d) \<noteq> None" by (auto simp: dq_inv_def)
  have "\<forall>i < dq_size d - 1. dq_items ?d ! dq_slot ?d i \<noteq> None"
    using item inv by (auto simp: slot dq_inv_def)
  moreover have "dq_tail ?d = dq_slot ?d (dq_size ?d)"
    using inv n by (simp add: slot fields dq_inv_def)
  ultimately show "dq_inv ?d" using inv h by (auto simp: dq_inv_def fields)
  obtain m where m: "dq_size d = Suc m" using n by (cases "dq_size d") auto
  have "map (\<lambda>i. the (dq_items d ! dq_slot d i)) [0..<Suc m] =
      the (dq_items d ! dq_slot d 0) # map (\<lambda>i. the (dq_items d ! dq_slot d (Suc i))) [0..<m]"
    by (simp add: map_upt_Suc del: upt_Suc)
  then show "dq_list d = the (fst (dq_shift d)) # dq_list ?d"
    using item m by (simp add: dq_list_def hd slot fields)
qed

lemma dq_size_length: "dq_size d = length (dq_list d)"
  by (simp add: dq_list_def)

lemma dq_size_0: "dq_size d = 0 \<longleftrightarrow> dq_list d = []"
  by (simp add: dq_list_def)

lemma dq_new_inv [simp]: "dq_inv dq_new" "dq_list dq_new = []"
proof -
  have "\<exists>k. (16::nat) = 2 ^ k" by (rule exI [of _ 4]) simp
  then show "dq_inv dq_new" by (simp add: dq_inv_def dq_new_def dq_slot_def)
qed (simp add: dq_list_def dq_new_def)

interpretation dq: fifo_queue dq_inv dq_list dq_new dq_push dq_shift dq_length
proof unfold_locales
  fix d :: "'a deque" assume inv: "dq_inv d"
  have "dq_inv (snd (dq_shift d)) \<and> dq_list (snd (dq_shift d)) = tl (dq_list d) \<and>
    fst (dq_shift d) = (case dq_list d of [] \<Rightarrow> None | x # _ \<Rightarrow> Some x)"
  proof (cases "dq_size d = 0")
    case True
    then have "dq_shift d = (None, d)" "dq_list d = []" using dq_size_0 by (auto simp: dq_shift_def)
    with inv show ?thesis by simp
  next
    case False
    note sh = dq_shift_inv [OF inv False]
    obtain x where "fst (dq_shift d) = Some x" using sh(3) by auto
    then show ?thesis unfolding sh(2) using sh(1) by simp
  qed
  then show "dq_inv (snd (dq_shift d))" "dq_list (snd (dq_shift d)) = tl (dq_list d)"
    "fst (dq_shift d) = (case dq_list d of [] \<Rightarrow> None | x # _ \<Rightarrow> Some x)"
    by blast+
qed (simp_all add: dq_push_inv dq_length_def dq_size_length)

end
