(* ===== verification/Writable.thy ===== *)
theory Writable
  imports Deque
begin

text \<open>
  The writable side of \<open>napi-bridge/streams.js\<close>: \<open>write\<close>, \<open>end\<close>, \<open>cork\<close>, \<open>uncork\<close>, \<open>destroy\<close>
  and the completion callbacks, as a machine over the stream's state and an explicit call stack.

  Code that is not the stream's - the sink's \<open>_write\<close>, \<open>_final\<close> and \<open>_destroy\<close>, the callbacks of
  writes, the listeners of events - is the environment. When the stream calls it, what is left of
  the stream's own functions stays on the stack below a frame \<open>KUser\<close>; while that frame is on top
  the environment may call any operation of the stream, completion callbacks included, as often
  and as deeply nested as it likes, before it returns. Every run of the engine is a list of such
  actions; there is no bound on the nesting. The environment's code returns normally: a listener
  of \<open>error\<close> is attached (without one \<open>emit\<close> throws) and nothing the stream calls throws.
\<close>

section \<open>State\<close>

text \<open>A string chunk is a list of code points: its \<open>length\<close> counts UTF-16 units.\<close>

datatype chunk = StrC "nat list" | BytesC "byte list" | NullC

definition utf8_size :: "nat \<Rightarrow> nat" where
  "utf8_size c = (if c < 128 then 1 else if c < 2048 then 2 else if c < 65536 then 3 else 4)"

definition utf16_size :: "nat \<Rightarrow> nat" where
  "utf16_size c = (if c < 65536 then 1 else 2)"

lemma utf16_size_code [code]: "utf16_size c = (if int c < 65536 then 1 else 2)"
  by (simp add: utf16_size_def)

lemma utf8_size_code [code]:
  "utf8_size c = (if int c < 128 then 1 else if int c < 2048 then 2 else if int c < 65536 then 3 else 4)"
  by (simp add: utf8_size_def)

text \<open>The length \<open>write\<close> adds, and the length the completion callback subtracts.\<close>

definition write_len :: "bool \<Rightarrow> chunk \<Rightarrow> int" where
  "write_len objectMode c =
     (if objectMode then 1
      else case c of StrC s \<Rightarrow> int (sum_list (map utf8_size s)) | BytesC b \<Rightarrow> int (length b)
             | NullC \<Rightarrow> 0)"

definition done_len :: "bool \<Rightarrow> chunk \<Rightarrow> int" where
  "done_len objectMode c =
     (if objectMode then 1
      else case c of StrC s \<Rightarrow> int (sum_list (map utf16_size s)) | BytesC b \<Rightarrow> int (length b)
             | NullC \<Rightarrow> 0)"

datatype werr = WriteAfterEnd | WriteAfterDestroy | SinkError nat

record wentry =
  en_chunk :: chunk
  en_encoding :: string
  en_callback :: "nat option"

text \<open>The completion callbacks handed to \<open>_write\<close> and \<open>_final\<close>, numbered in the order of the calls.\<close>

datatype sink_call = PWrite wentry | PFinal

text \<open>
  What happens at the stream's surface, in order: calls into the sink and their completions,
  user callbacks, events, the chunks \<open>write\<close> accepts and the values it returns.
\<close>

datatype wevent =
    SinkWrite chunk string
  | SinkFinal
  | SinkDone nat "werr option"
  | SinkDestroy "werr option"
  | Callback "nat option" "werr option"
  | EvError werr
  | EvDrain
  | EvFinish "nat list"
  | EvClose
  | Wrote chunk
  | WriteReturned bool
  | WriteRejected

text \<open>
  What is left to do of a function of the stream that is waiting for the code above it: the
  completion callback of a write after \<open>callback()\<close> and before its \<open>drain\<close> check, \<open>write\<close> before it
  computes its value or returns \<open>false\<close> on an error, \<open>end\<close> after its write, \<open>emit('close')\<close>.
\<close>

datatype frame =
    KUser wevent
  | KWritten
  | KDrain
  | KCallback "nat option" werr
  | KWriteRet
  | KRejected
  | KEnd
  | KClose

datatype wmicro = MFinish | MClose "werr option"

text \<open>Whether the stream has a \<open>_final\<close> and a \<open>_destroy\<close> of its own.\<close>

record wconfig =
  cf_final :: bool
  cf_destroy :: bool

record wstate =
  w_highWaterMark :: int
  w_length :: int
  w_writing :: bool
  w_buffer :: "wentry deque"
  w_ended :: bool
  w_finished :: bool
  w_destroyed :: bool
  w_corked :: nat
  w_objectMode :: bool
  w_finalCalled :: bool
  w_needDrain :: bool
  w_defaultEncoding :: string
  w_onfinish :: "nat list"
  w_calls :: "sink_call list"
  w_micro :: "wmicro list"
  w_stack :: "frame list"
  w_log :: "wevent list"

definition new_writable :: "int option \<Rightarrow> bool \<Rightarrow> wstate" where
  "new_writable hwm objectMode =
     \<lparr>w_highWaterMark = (case hwm of Some h \<Rightarrow> h | None \<Rightarrow> 16384), w_length = 0, w_writing = False,
      w_buffer = dq_new, w_ended = False, w_finished = False, w_destroyed = False, w_corked = 0,
      w_objectMode = objectMode, w_finalCalled = False, w_needDrain = False,
      w_defaultEncoding = ''utf8'', w_onfinish = [], w_calls = [], w_micro = [], w_stack = [],
      w_log = []\<rparr>"

definition log_ev :: "wevent \<Rightarrow> wstate \<Rightarrow> wstate" where
  "log_ev e w = w\<lparr>w_log := w_log w @ [e]\<rparr>"

text \<open>Calling the environment, and what is left to do when it has returned.\<close>

definition invoke :: "wevent \<Rightarrow> wstate \<Rightarrow> wstate" where
  "invoke e w = w\<lparr>w_log := w_log w @ [e], w_stack := KUser e # w_stack w\<rparr>"

definition then_frame :: "frame \<Rightarrow> wstate \<Rightarrow> wstate" where
  "then_frame k w = w\<lparr>w_stack := k # w_stack w\<rparr>"

definition queueMicrotask :: "wmicro \<Rightarrow> wstate \<Rightarrow> wstate" where
  "queueMicrotask m w = w\<lparr>w_micro := w_micro w @ [m]\<rparr>"

section \<open>Handing chunks to the sink\<close>

definition doWrite :: "wentry \<Rightarrow> wstate \<Rightarrow> wstate" where
  "doWrite e w = invoke (SinkWrite (en_chunk e) (en_encoding e)) (w\<lparr>w_calls := w_calls w @ [PWrite e]\<rparr>)"

definition clearBuffer :: "wstate \<Rightarrow> wstate" where
  "clearBuffer w =
     (if w_writing w \<or> dq_length (w_buffer w) = 0 then w
      else case dq_shift (w_buffer w) of
             (None, b) \<Rightarrow> w
           | (Some e, b) \<Rightarrow> doWrite e (w\<lparr>w_buffer := b, w_writing := True\<rparr>))"

definition doFinish :: "wstate \<Rightarrow> wstate" where
  "doFinish w = queueMicrotask MFinish (w\<lparr>w_finished := True\<rparr>)"

definition finishMaybe :: "wconfig \<Rightarrow> wstate \<Rightarrow> wstate" where
  "finishMaybe cf w =
     (if w_ended w \<and> \<not> w_finished w \<and> \<not> w_writing w \<and> dq_length (w_buffer w) = 0 then
        if cf_final cf \<and> \<not> w_finalCalled w
        then invoke SinkFinal (w\<lparr>w_finalCalled := True, w_writing := True, w_calls := w_calls w @ [PFinal]\<rparr>)
        else doFinish w
      else w)"

text \<open>The callback \<open>_doWrite\<close> passes to \<open>_write\<close>, up to the user's callback and after it.\<close>

definition on_written :: "nat \<Rightarrow> wentry \<Rightarrow> werr option \<Rightarrow> wstate \<Rightarrow> wstate" where
  "on_written i e err w =
     (let w1 = log_ev (SinkDone i err)
                 (w\<lparr>w_length := w_length w - done_len (w_objectMode w) (en_chunk e), w_writing := False\<rparr>)
      in case err of
           Some x \<Rightarrow> invoke (EvError x) (then_frame (KCallback (en_callback e) x) w1)
         | None \<Rightarrow> invoke (Callback (en_callback e) None) (then_frame KWritten w1))"

definition process_buffer :: "wconfig \<Rightarrow> wstate \<Rightarrow> wstate" where
  "process_buffer cf w =
     (let w1 = then_frame KDrain w
      in if 0 < dq_length (w_buffer w) \<and> w_corked w = 0 then clearBuffer w1
         else if w_ended w \<and> dq_length (w_buffer w) = 0 then finishMaybe cf w1
         else w1)"

definition drain_check :: "wstate \<Rightarrow> wstate" where
  "drain_check w =
     (if w_needDrain w \<and> w_length w < w_highWaterMark w
      then invoke EvDrain (w\<lparr>w_needDrain := False\<rparr>) else w)"

definition on_final :: "nat \<Rightarrow> werr option \<Rightarrow> wstate \<Rightarrow> wstate" where
  "on_final i err w =
     (let w1 = log_ev (SinkDone i err) (w\<lparr>w_writing := False\<rparr>)
      in case err of Some x \<Rightarrow> invoke (EvError x) w1 | None \<Rightarrow> doFinish w1)"

section \<open>Operations\<close>

text \<open>\<open>write(chunk, encoding, callback)\<close> up to the sink, and the value it returns.\<close>

definition write_chunk :: "chunk \<Rightarrow> string option \<Rightarrow> nat option \<Rightarrow> wstate \<Rightarrow> wstate" where
  "write_chunk c encoding cb w =
     (if w_ended w then
        invoke (EvError WriteAfterEnd) (then_frame (KCallback cb WriteAfterEnd) (then_frame KRejected w))
      else if w_destroyed w then
        invoke (Callback cb (Some WriteAfterDestroy)) (then_frame KRejected w)
      else
        let e = \<lparr>en_chunk = c,
                 en_encoding = (case encoding of Some x \<Rightarrow> x | None \<Rightarrow> w_defaultEncoding w),
                 en_callback = cb\<rparr>;
            w1 = then_frame KWriteRet (log_ev (Wrote c) (w\<lparr>w_length := w_length w + write_len (w_objectMode w) c\<rparr>))
        in if 0 < w_corked w \<or> w_writing w
           then w1\<lparr>w_buffer := dq_push e (w_buffer w)\<rparr>
           else doWrite e (w1\<lparr>w_writing := True\<rparr>))"

definition write_return :: "wstate \<Rightarrow> wstate" where
  "write_return w =
     (let ret = (w_length w < w_highWaterMark w)
      in log_ev (WriteReturned ret) (if ret then w else w\<lparr>w_needDrain := True\<rparr>))"

definition end_stream :: "chunk option \<Rightarrow> string option \<Rightarrow> nat option \<Rightarrow> wstate \<Rightarrow> wstate" where
  "end_stream c encoding cb w =
     (let w1 = then_frame KEnd (case cb of Some k \<Rightarrow> w\<lparr>w_onfinish := w_onfinish w @ [k]\<rparr> | None \<Rightarrow> w)
      in case c of
           None \<Rightarrow> w1
         | Some x \<Rightarrow> if x = NullC then w1 else write_chunk x encoding None w1)"

definition end_rest :: "wconfig \<Rightarrow> wstate \<Rightarrow> wstate" where
  "end_rest cf w =
     (let w1 = w\<lparr>w_ended := True\<rparr>
      in if \<not> w_writing w1 \<and> dq_length (w_buffer w1) = 0 then finishMaybe cf w1 else w1)"

definition cork :: "wstate \<Rightarrow> wstate" where
  "cork w = w\<lparr>w_corked := Suc (w_corked w)\<rparr>"

definition uncork :: "wstate \<Rightarrow> wstate" where
  "uncork w =
     (if 0 < w_corked w then
        let w1 = w\<lparr>w_corked := w_corked w - 1\<rparr> in
        if \<not> w_writing w1 \<and> w_corked w1 = 0 \<and> 0 < dq_length (w_buffer w1)
        then clearBuffer w1 else w1
      else w)"

text \<open>\<open>destroy(err)\<close>, and \<open>doDestroy\<close>, which a \<open>_destroy\<close> of the stream's own is given.\<close>

definition destroy_stream :: "wconfig \<Rightarrow> werr option \<Rightarrow> wstate \<Rightarrow> wstate" where
  "destroy_stream cf err w =
     (if w_destroyed w then w
      else
        let w1 = w\<lparr>w_destroyed := True\<rparr> in
        if cf_destroy cf then invoke (SinkDestroy err) w1 else queueMicrotask (MClose err) w1)"

definition doDestroy :: "wconfig \<Rightarrow> werr option \<Rightarrow> wstate \<Rightarrow> wstate" where
  "doDestroy cf err w = (if w_destroyed w \<and> cf_destroy cf then queueMicrotask (MClose err) w else w)"

text \<open>A call of the completion callback number \<open>i\<close>.\<close>

definition answer :: "nat \<Rightarrow> werr option \<Rightarrow> wstate \<Rightarrow> wstate" where
  "answer i err w =
     (if i < length (w_calls w) then
        case w_calls w ! i of PWrite e \<Rightarrow> on_written i e err w | PFinal \<Rightarrow> on_final i err w
      else w)"

datatype wop =
    Write chunk "string option" "nat option"
  | End "chunk option" "string option" "nat option"
  | Cork
  | Uncork
  | Answer nat "werr option"
  | Destroy "werr option"
  | DestroyDone "werr option"
  | SetDefaultEncoding string

fun w_perform :: "wconfig \<Rightarrow> wop \<Rightarrow> wstate \<Rightarrow> wstate" where
  "w_perform cf (Write c enc cb) w = write_chunk c enc cb w"
| "w_perform cf (End c enc cb) w = end_stream c enc cb w"
| "w_perform cf Cork w = cork w"
| "w_perform cf Uncork w = uncork w"
| "w_perform cf (Answer i err) w = answer i err w"
| "w_perform cf (Destroy err) w = destroy_stream cf err w"
| "w_perform cf (DestroyDone err) w = doDestroy cf err w"
| "w_perform cf (SetDefaultEncoding enc) w = w\<lparr>w_defaultEncoding := enc\<rparr>"

section \<open>The machine\<close>

fun continue_with :: "wconfig \<Rightarrow> frame \<Rightarrow> wstate \<Rightarrow> wstate" where
  "continue_with cf (KUser e) w = w"
| "continue_with cf KWritten w = process_buffer cf w"
| "continue_with cf KDrain w = drain_check w"
| "continue_with cf (KCallback cb e) w = invoke (Callback cb (Some e)) w"
| "continue_with cf KWriteRet w = write_return w"
| "continue_with cf KRejected w = log_ev WriteRejected w"
| "continue_with cf KEnd w = end_rest cf w"
| "continue_with cf KClose w = invoke EvClose w"

text \<open>
  The stream's own code runs until it calls the environment again or has returned to it. What a
  frame leaves on the stack weighs less than the frame.
\<close>

fun weight :: "frame \<Rightarrow> nat" where
  "weight (KUser e) = 1"
| "weight KWritten = 5"
| "weight KDrain = 2"
| "weight (KCallback cb e) = 2"
| "weight KWriteRet = 1"
| "weight KRejected = 1"
| "weight KEnd = 2"
| "weight KClose = 2"

definition is_user :: "frame \<Rightarrow> bool" where
  "is_user k = (case k of KUser e \<Rightarrow> True | _ \<Rightarrow> False)"

lemma is_user_simps [simp]:
  "is_user (KUser e)" "\<not> is_user KWritten" "\<not> is_user KDrain" "\<not> is_user (KCallback cb x)"
  "\<not> is_user KWriteRet" "\<not> is_user KRejected" "\<not> is_user KEnd" "\<not> is_user KClose"
  by (simp_all add: is_user_def)

lemmas machine_defs = log_ev_def invoke_def then_frame_def queueMicrotask_def

lemma continue_stack:
  "\<exists>ks. w_stack (continue_with cf k w) = ks @ w_stack w \<and> sum_list (map weight ks) < weight k"
  if "\<not> is_user k"
  using that
  by (cases k)
    (auto simp: machine_defs process_buffer_def clearBuffer_def doWrite_def finishMaybe_def doFinish_def
      drain_check_def write_return_def end_rest_def Let_def split: prod.splits option.splits)

function resume_calls :: "wconfig \<Rightarrow> wstate \<Rightarrow> wstate" where
  "resume_calls cf w =
     (case w_stack w of
        [] \<Rightarrow> w
      | k # ks \<Rightarrow> if is_user k then w else resume_calls cf (continue_with cf k (w\<lparr>w_stack := ks\<rparr>)))"
  by pat_completeness auto
termination
proof (relation "measure (\<lambda>(cf, w). sum_list (map weight (w_stack w)))")
  fix cf and w :: wstate and k ks
  assume "w_stack w = k # ks" "\<not> is_user k"
  with continue_stack [of k cf "w\<lparr>w_stack := ks\<rparr>"]
  show "((cf, continue_with cf k (w\<lparr>w_stack := ks\<rparr>)), cf, w)
      \<in> measure (\<lambda>(cf, w). sum_list (map weight (w_stack w)))" by auto
qed simp

declare resume_calls.simps [simp del]

definition tick :: "wstate \<Rightarrow> wstate" where
  "tick w =
     (case w_micro w of
        [] \<Rightarrow> w
      | m # ms \<Rightarrow>
          let w1 = w\<lparr>w_micro := ms\<rparr> in
          case m of
            MFinish \<Rightarrow> invoke (EvFinish (w_onfinish w1)) (w1\<lparr>w_onfinish := []\<rparr>)
          | MClose (Some e) \<Rightarrow> invoke (EvError e) (then_frame KClose w1)
          | MClose None \<Rightarrow> invoke EvClose w1)"

text \<open>
  The environment's actions: call an operation, from the program or from within code the stream
  has called; return to the stream; let the engine run a microtask once nothing is on the stack.
\<close>

datatype wact = Call wop | Return | Tick

fun w_act :: "wconfig \<Rightarrow> wstate \<Rightarrow> wact \<Rightarrow> wstate" where
  "w_act cf w (Call op) = resume_calls cf (w_perform cf op w)"
| "w_act cf w Return =
     (case w_stack w of [] \<Rightarrow> w | k # ks \<Rightarrow> resume_calls cf (if is_user k then w\<lparr>w_stack := ks\<rparr> else w))"
| "w_act cf w Tick = (if w_stack w = [] then resume_calls cf (tick w) else w)"

definition w_run :: "wconfig \<Rightarrow> wstate \<Rightarrow> wact list \<Rightarrow> wstate" where
  "w_run cf w acts = foldl (w_act cf) w acts"

end
