(* ===== verification/Writable_Props.thy ===== *)
theory Writable_Props
  imports Writable
begin

text \<open>
  What a writable stream guarantees whatever the environment does, re-entrant calls included. An
  interface collects what an invariant of the machine has to show - of each operation, of each
  frame that is resumed and of a microtask - and proves it of every run; two invariants provide it:
  the protocol with the sink and the accounting of the buffered length, and the order of chunks.
\<close>

section \<open>Histories\<close>

text \<open>The calls into the sink in order (a chunk, or nothing for \<open>_final\<close>) and the answered ones.\<close>

definition sink_calls :: "wevent list \<Rightarrow> chunk option list" where
  "sink_calls l = concat (map (\<lambda>ev. case ev of SinkWrite c enc \<Rightarrow> [Some c] | SinkFinal \<Rightarrow> [None] | _ \<Rightarrow> []) l)"

definition answered :: "wevent list \<Rightarrow> nat list" where
  "answered l = concat (map (\<lambda>ev. case ev of SinkDone i err \<Rightarrow> [i] | _ \<Rightarrow> []) l)"

text \<open>The environment's part of the contract: no completion callback is called twice.\<close>

definition answered_once :: "wevent list \<Rightarrow> bool" where
  "answered_once l \<longleftrightarrow> distinct (answered l)"

definition no_sink_error :: "wevent list \<Rightarrow> bool" where
  "no_sink_error l \<longleftrightarrow> list_all (\<lambda>ev. case ev of SinkDone i (Some e) \<Rightarrow> False | _ \<Rightarrow> True) l"

definition outstanding :: "wevent list \<Rightarrow> chunk option list" where
  "outstanding l = nths (sink_calls l) (- set (answered l))"

definition sunk :: "wevent list \<Rightarrow> chunk list" where
  "sunk l = concat (map (\<lambda>ev. case ev of SinkWrite c enc \<Rightarrow> [c] | _ \<Rightarrow> []) l)"

definition wrote :: "wevent list \<Rightarrow> chunk list" where
  "wrote l = concat (map (\<lambda>ev. case ev of Wrote c \<Rightarrow> [c] | _ \<Rightarrow> []) l)"

definition queued :: "wstate \<Rightarrow> chunk list" where
  "queued w = map en_chunk (dq_list (w_buffer w))"

text \<open>A \<open>write\<close> returned \<open>false\<close> and no \<open>drain\<close> has followed it.\<close>

fun owes :: "wevent list \<Rightarrow> bool" where
  "owes [] = False"
| "owes (ev # l) = (ev = WriteReturned False \<and> EvDrain \<notin> set l \<or> owes l)"

definition is_finish :: "wevent \<Rightarrow> bool" where
  "is_finish ev = (case ev of EvFinish ks \<Rightarrow> True | _ \<Rightarrow> False)"

definition after_finish :: "wevent list \<Rightarrow> wevent list" where
  "after_finish l = dropWhile (\<lambda>ev. \<not> is_finish ev) l"

lemma surface_simps [simp]:
  "sink_calls (l @ l') = sink_calls l @ sink_calls l'" "answered (l @ l') = answered l @ answered l'"
  "sunk (l @ l') = sunk l @ sunk l'" "wrote (l @ l') = wrote l @ wrote l'"
  "no_sink_error (l @ l') \<longleftrightarrow> no_sink_error l \<and> no_sink_error l'"
  "sink_calls [] = []" "answered [] = []" "sunk [] = []" "wrote [] = []" "no_sink_error []"
  by (simp_all add: sink_calls_def answered_def sunk_def wrote_def no_sink_error_def)

lemma history_Cons [simp]:
  "sink_calls (ev # l) = (case ev of SinkWrite c enc \<Rightarrow> [Some c] | SinkFinal \<Rightarrow> [None] | _ \<Rightarrow> []) @ sink_calls l"
  "answered (ev # l) = (case ev of SinkDone i err \<Rightarrow> [i] | _ \<Rightarrow> []) @ answered l"
  "sunk (ev # l) = (case ev of SinkWrite c enc \<Rightarrow> [c] | _ \<Rightarrow> []) @ sunk l"
  "wrote (ev # l) = (case ev of Wrote c \<Rightarrow> [c] | _ \<Rightarrow> []) @ wrote l"
  "no_sink_error (ev # l) = ((case ev of SinkDone i (Some e) \<Rightarrow> False | _ \<Rightarrow> True) \<and> no_sink_error l)"
  by (simp_all add: sink_calls_def answered_def sunk_def wrote_def no_sink_error_def)

lemma owes_append [simp]: "owes (l @ l') = (owes l' \<or> owes l \<and> EvDrain \<notin> set l')"
  by (induction l) auto

lemma is_finish_simps [simp]:
  "is_finish (EvFinish ks)" "\<not> is_finish (SinkWrite c enc)" "\<not> is_finish SinkFinal" "\<not> is_finish (SinkDone i err)"
  "\<not> is_finish (SinkDestroy err)" "\<not> is_finish (Callback cb err)" "\<not> is_finish (EvError e)" "\<not> is_finish EvDrain"
  "\<not> is_finish EvClose" "\<not> is_finish (Wrote c)" "\<not> is_finish (WriteReturned b)" "\<not> is_finish WriteRejected"
  by (simp_all add: is_finish_def)

text \<open>Everything that has a part after \<open>finish\<close> has it in \<open>after_finish\<close>.\<close>

lemma after_finish_append:
  "after_finish (l @ l') = (if (\<exists>e\<in>set l. is_finish e) then after_finish l @ l' else after_finish l')"
  unfolding after_finish_def by (induction l) auto

lemma after_finish_simps [simp]: "after_finish [] = []"
  "after_finish (ev # l) = (if is_finish ev then ev # l else after_finish l)"
  unfolding after_finish_def by simp_all

lemma after_finish_Nil: "\<forall>e\<in>set l. \<not> is_finish e \<Longrightarrow> after_finish l = []"
  unfolding after_finish_def by (induction l) auto

section \<open>Invariants of the machine\<close>

text \<open>A run in which the environment calls an operation only in states where it is \<open>ok\<close>.\<close>

fun allowed :: "(wstate \<Rightarrow> wop \<Rightarrow> bool) \<Rightarrow> wstate \<Rightarrow> wact \<Rightarrow> bool" where
  "allowed ok w (Call x) = ok w x"
| "allowed ok w a = True"

fun allowed_run :: "(wstate \<Rightarrow> wop \<Rightarrow> bool) \<Rightarrow> wconfig \<Rightarrow> wstate \<Rightarrow> wact list \<Rightarrow> bool" where
  "allowed_run ok cf w [] = True"
| "allowed_run ok cf w (a # as) = (allowed ok w a \<and> allowed_run ok cf (w_act cf w a) as)"

locale machine_invariant =
  fixes J :: "wstate \<Rightarrow> bool" and cf :: wconfig and ok :: "wstate \<Rightarrow> wop \<Rightarrow> bool"
  assumes J_perform: "J w \<Longrightarrow> ok w x \<Longrightarrow> J (w_perform cf x w)"
    and J_continue: "J w \<Longrightarrow> w_stack w = k # ks \<Longrightarrow> \<not> is_user k \<Longrightarrow> J (continue_with cf k (w\<lparr>w_stack := ks\<rparr>))"
    and J_return: "J w \<Longrightarrow> w_stack w = k # ks \<Longrightarrow> is_user k \<Longrightarrow> J (w\<lparr>w_stack := ks\<rparr>)"
    and J_tick: "J w \<Longrightarrow> w_stack w = [] \<Longrightarrow> J (tick w)"
begin

lemma resumed_kept: "J w \<Longrightarrow> cf' = cf \<Longrightarrow> J (resume_calls cf' w)"
proof (induction cf' w rule: resume_calls.induct)
  case (1 c w)
  show ?case
  proof (cases "w_stack w")
    case (Cons k ks)
    with 1 show ?thesis
      using J_continue [OF 1(2) Cons] by (subst resume_calls.simps) auto
  qed (use 1 in \<open>simp add: resume_calls.simps\<close>)
qed

lemma act_kept: "J w \<Longrightarrow> allowed ok w a \<Longrightarrow> J (w_act cf w a)"
  using J_perform J_return J_tick resumed_kept
  by (cases a; cases "w_stack w") auto

lemma run_kept: "J w \<Longrightarrow> allowed_run ok cf w as \<Longrightarrow> J (w_run cf w as)"
  by (induction as arbitrary: w) (auto simp: w_run_def act_kept)

end

lemma allowed_run_True [simp]: "allowed_run (\<lambda>w x. True) cf w as"
proof (induction as arbitrary: w)
  case (Cons a as)
  then show ?case by (cases a) simp_all
qed simp

section \<open>The protocol with the sink\<close>

fun chunk_of :: "sink_call \<Rightarrow> chunk option" where
  "chunk_of (PWrite e) = Some (en_chunk e)"
| "chunk_of PFinal = None"

definition books :: "wstate \<Rightarrow> bool" where
  "books w \<longleftrightarrow> dq_inv (w_buffer w) \<and> sink_calls (w_log w) = map chunk_of (w_calls w)
     \<and> (\<forall>i\<in>set (answered (w_log w)). i < length (w_calls w))
     \<and> (w_needDrain w \<longleftrightarrow> owes (w_log w))
     \<and> en_chunk ` set (dq_list (w_buffer w)) \<subseteq> set (wrote (w_log w))
     \<and> (\<forall>e. PWrite e \<in> set (w_calls w) \<longrightarrow> en_chunk e \<in> set (wrote (w_log w)))"

text \<open>While \<open>writing\<close> is set exactly the last call into the sink is outstanding.\<close>

definition one_call :: "wstate \<Rightarrow> bool" where
  "one_call w \<longleftrightarrow> (if w_writing w then w_calls w \<noteq> [] \<and> set (answered (w_log w)) = {..<length (w_calls w) - 1}
     else set (answered (w_log w)) = {..<length (w_calls w)})"

definition closing :: "wstate \<Rightarrow> bool" where
  "closing w \<longleftrightarrow> (w_finalCalled w \<longrightarrow> w_ended w \<and> dq_list (w_buffer w) = [])
     \<and> (PFinal \<in> set (w_calls w) \<longrightarrow> w_finalCalled w)
     \<and> (w_finished w \<longrightarrow> w_ended w \<and> dq_list (w_buffer w) = [] \<and> \<not> w_writing w)
     \<and> length (filter is_finish (w_log w)) + count_list (w_micro w) MFinish = of_bool (w_finished w)
     \<and> sink_calls (after_finish (w_log w)) = []"

text \<open>What waits is waiting for a frame of the stack: queued chunks, a drain, a refusal.\<close>

definition progress :: "wstate \<Rightarrow> bool" where
  "progress w \<longleftrightarrow> (dq_list (w_buffer w) \<noteq> [] \<and> w_corked w = 0 \<and> \<not> w_writing w \<longrightarrow> KWritten \<in> set (w_stack w))
     \<and> (w_needDrain w \<and> w_length w < w_highWaterMark w
        \<longrightarrow> KWritten \<in> set (w_stack w) \<or> KDrain \<in> set (w_stack w))"

definition refuses :: "wstate \<Rightarrow> bool" where
  "refuses w \<longleftrightarrow> (0 < w_highWaterMark w \<and> w_highWaterMark w \<le> w_length w \<longrightarrow> w_needDrain w \<or> KWriteRet \<in> set (w_stack w))"

definition exact :: "bool \<Rightarrow> chunk \<Rightarrow> bool" where
  "exact om c \<longleftrightarrow> write_len om c = done_len om c"

definition in_sink :: "wstate \<Rightarrow> chunk list" where
  "in_sink w = (if w_writing w then (case last (w_calls w) of PWrite e \<Rightarrow> [en_chunk e] | PFinal \<Rightarrow> []) else [])"

definition balanced :: "wstate \<Rightarrow> bool" where
  "balanced w \<longleftrightarrow> w_length w = sum_list (map (write_len (w_objectMode w)) (in_sink w @ queued w))"

definition core :: "wstate \<Rightarrow> bool" where
  "core w \<longleftrightarrow> books w \<and> (answered_once (w_log w) \<longrightarrow> one_call w \<and> closing w)
     \<and> (answered_once (w_log w) \<and> list_all (exact (w_objectMode w)) (wrote (w_log w)) \<longrightarrow> balanced w)"

definition ledger :: "wstate \<Rightarrow> bool" where
  "ledger w \<longleftrightarrow> core w \<and> refuses w \<and> (answered_once (w_log w) \<and> no_sink_error (w_log w) \<longrightarrow> progress w)"

lemmas core_defs = core_def books_def one_call_def closing_def balanced_def in_sink_def queued_def answered_once_def

lemmas waits_defs = progress_def refuses_def

lemma dq_length_list [simp]: "dq_length d = length (dq_list d)"
  by (simp add: dq_length_def dq_size_length)

lemma len_nonneg [simp]: "0 \<le> write_len om c" "0 \<le> done_len om c"
  by (auto simp: write_len_def done_len_def split: chunk.split)

definition plain :: "wevent \<Rightarrow> bool" where
  "plain ev = (case ev of Callback cb e \<Rightarrow> True | EvError e \<Rightarrow> True | EvClose \<Rightarrow> True | SinkDestroy e \<Rightarrow> True
     | WriteRejected \<Rightarrow> True | _ \<Rightarrow> False)"

lemma plain_simps [simp]:
  "plain (Callback cb err)" "plain (EvError x)" "plain EvClose" "plain (SinkDestroy err)" "plain WriteRejected"
  by (simp_all add: plain_def)

lemma plain_history:
  assumes "plain ev"
  shows "sink_calls [ev] = []" "answered [ev] = []" "wrote [ev] = []" "sunk [ev] = []" "no_sink_error [ev]"
    "\<not> is_finish ev" "ev \<noteq> WriteReturned False" "ev \<noteq> EvDrain"
  using assms by (cases ev; simp add: plain_def)+

lemma sink_calls_after_plain: "plain ev \<Longrightarrow> sink_calls (after_finish (l @ [ev])) = sink_calls (after_finish l)"
  using plain_history [of ev] by (simp add: after_finish_append after_finish_Nil del: history_Cons)

lemma core_stack [simp]: "core (w\<lparr>w_stack := ks\<rparr>) = core w"
  by (simp add: core_defs)

lemma core_log [simp]: "plain ev \<Longrightarrow> core (log_ev ev w) = core w"
  using plain_history [of ev] sink_calls_after_plain [of ev "w_log w"]
  by (simp add: core_defs log_ev_def del: history_Cons)

lemma core_invoke: "core (invoke ev w) = core (log_ev ev w)"
  by (simp add: core_defs invoke_def log_ev_def)

lemma core_then_frame [simp]: "core (then_frame k w) = core w"
  by (simp add: then_frame_def)

lemma core_fields [simp]:
  "core (w\<lparr>w_destroyed := b\<rparr>) = core w" "core (w\<lparr>w_defaultEncoding := enc\<rparr>) = core w"
  "core (w\<lparr>w_onfinish := ns\<rparr>) = core w" "core (w\<lparr>w_corked := n\<rparr>) = core w"
  "core (queueMicrotask (MClose e) w) = core w"
  by (simp_all add: core_defs queueMicrotask_def)

lemma core_ended: "core w \<Longrightarrow> core (w\<lparr>w_ended := True\<rparr>)"
  by (auto simp: core_defs)

lemma not_finished_log:
  assumes "core w" "answered_once (w_log w)" "\<not> w_finished w"
  shows "\<not> (\<exists>ev\<in>set (w_log w). is_finish ev)"
  using assms by (auto simp: core_def closing_def filter_empty_conv)

lemma shift_list:
  assumes "dq_inv d" "dq_shift d = (Some e, b)"
  shows "dq_inv b" "dq_list d = e # dq_list b"
proof -
  have "dq_size d \<noteq> 0" using assms(2) by (auto simp: dq_shift_def split: if_splits)
  from dq_shift_inv [OF assms(1) this] assms(2) show "dq_inv b" "dq_list d = e # dq_list b" by auto
qed

lemma shift_None: "dq_inv d \<Longrightarrow> dq_shift d = (None, b) \<Longrightarrow> dq_list d = []"
  using dq_shift_inv(3) [of d] by (auto simp: dq_shift_def dq_size_0 split: if_splits)

lemma doWrite_sel [simp]:
  "w_log (doWrite e w) = w_log w @ [SinkWrite (en_chunk e) (en_encoding e)]"
  "w_calls (doWrite e w) = w_calls w @ [PWrite e]" "w_buffer (doWrite e w) = w_buffer w"
  "w_writing (doWrite e w) = w_writing w" "w_needDrain (doWrite e w) = w_needDrain w"
  "w_ended (doWrite e w) = w_ended w" "w_finished (doWrite e w) = w_finished w"
  "w_finalCalled (doWrite e w) = w_finalCalled w" "w_micro (doWrite e w) = w_micro w"
  "w_stack (doWrite e w) = KUser (SinkWrite (en_chunk e) (en_encoding e)) # w_stack w"
  "w_length (doWrite e w) = w_length w" "w_highWaterMark (doWrite e w) = w_highWaterMark w"
  "w_objectMode (doWrite e w) = w_objectMode w" "w_corked (doWrite e w) = w_corked w"
  by (simp_all add: doWrite_def invoke_def)

text \<open>Handing over an entry: the next one of the queue, or one that \<open>write\<close> was just given.\<close>

lemma core_hand:
  assumes J: "core w" and free: "\<not> w_writing w" and next_one: "dq_inv b" "dq_list (w_buffer w) = e # dq_list b"
  shows "core (doWrite e (w\<lparr>w_buffer := b, w_writing := True\<rparr>))"
proof -
  let ?w = "doWrite e (w\<lparr>w_buffer := b, w_writing := True\<rparr>)"
  have open_log: "\<not> (\<exists>ev\<in>set (w_log w). is_finish ev)" if "answered_once (w_log w)"
    using not_finished_log [OF J that] J that next_one(2) by (auto simp: core_def closing_def)
  have "books ?w" using J next_one by (auto simp: core_def books_def less_Suc_eq)
  moreover have "one_call ?w" if "one_call w" using that free by (simp add: one_call_def)
  moreover have "closing ?w" if "closing w" "answered_once (w_log w)"
    using that next_one(2) open_log by (auto simp: closing_def after_finish_append)
  moreover have "balanced ?w" if "balanced w"
    using that free next_one(2) by (simp add: balanced_def in_sink_def queued_def)
  ultimately show ?thesis using J unfolding core_def by (simp add: answered_once_def)
qed

lemma core_clear:
  assumes "core w"
  shows "core (clearBuffer w)"
proof (cases "w_writing w \<or> dq_length (w_buffer w) = 0")
  case False
  obtain x b where sh: "dq_shift (w_buffer w) = (x, b)" by fastforce
  have inv: "dq_inv (w_buffer w)" using assms by (simp add: core_def books_def)
  show ?thesis
  proof (cases x)
    case (Some e)
    with sh shift_list [OF inv, of e b] core_hand [OF assms, of b e] False show ?thesis
      by (simp add: clearBuffer_def)
  qed (use sh assms False in \<open>simp add: clearBuffer_def\<close>)
qed (use assms in \<open>simp add: clearBuffer_def\<close>)

lemma core_doFinish:
  assumes "core w" "answered_once (w_log w) \<Longrightarrow> w_ended w \<and> dq_list (w_buffer w) = [] \<and> \<not> w_writing w \<and> \<not> w_finished w"
  shows "core (doFinish w)"
  using assms by (auto simp: core_defs doFinish_def queueMicrotask_def)

lemma core_final:
  assumes J: "core w" and free: "w_ended w" "\<not> w_finished w" "\<not> w_writing w" "dq_list (w_buffer w) = []" "\<not> w_finalCalled w"
  shows "core (invoke SinkFinal (w\<lparr>w_finalCalled := True, w_writing := True, w_calls := w_calls w @ [PFinal]\<rparr>))"
    (is "core ?w")
proof -
  have open_log: "\<not> (\<exists>ev\<in>set (w_log w). is_finish ev)" if "answered_once (w_log w)"
    using not_finished_log [OF J that] free by blast
  have "books ?w" using J by (auto simp: core_def books_def invoke_def less_Suc_eq)
  moreover have "one_call ?w" if "one_call w" using that free by (simp add: one_call_def invoke_def)
  moreover have "closing ?w" if "closing w" "answered_once (w_log w)"
    using that free open_log by (auto simp: closing_def after_finish_append invoke_def)
  moreover have "balanced ?w" if "balanced w"
    using that free by (simp add: balanced_def in_sink_def queued_def invoke_def)
  ultimately show ?thesis using J unfolding core_def by (simp add: answered_once_def invoke_def)
qed

lemma core_finishMaybe: "core w \<Longrightarrow> core (finishMaybe cf w)"
  by (auto simp: finishMaybe_def core_doFinish core_final)

text \<open>A completion: with no callback called twice it is that of the last call, which was outstanding.\<close>

lemma last_call:
  assumes "core w" "i < length (w_calls w)" "answered_once (w_log w @ [SinkDone i err])"
  shows "w_writing w" "i = length (w_calls w) - 1" "last (w_calls w) = w_calls w ! i" "answered_once (w_log w)"
    "set (answered (w_log w)) = {..<i}"
proof -
  have o: "one_call w" "i \<notin> set (answered (w_log w))" "answered_once (w_log w)"
    using assms by (auto simp: core_def answered_once_def)
  then show "w_writing w" using assms(2) by (auto simp: one_call_def split: if_splits)
  with o assms(2) show i: "i = length (w_calls w) - 1" by (auto simp: one_call_def)
  have "w_calls w \<noteq> []" using assms(2) by auto
  then show "last (w_calls w) = w_calls w ! i" unfolding i by (rule last_conv_nth)
  show "answered_once (w_log w)" "set (answered (w_log w)) = {..<i}"
    using o \<open>w_writing w\<close> i by (auto simp: one_call_def)
qed

definition answered_state :: "nat \<Rightarrow> werr option \<Rightarrow> int \<Rightarrow> wstate \<Rightarrow> wstate" where
  "answered_state i err n w = log_ev (SinkDone i err) (w\<lparr>w_length := w_length w - n, w_writing := False\<rparr>)"

lemma answered_state_sel [simp]:
  "w_log (answered_state i err n w) = w_log w @ [SinkDone i err]" "w_calls (answered_state i err n w) = w_calls w"
  "w_buffer (answered_state i err n w) = w_buffer w" "\<not> w_writing (answered_state i err n w)"
  "w_needDrain (answered_state i err n w) = w_needDrain w" "w_ended (answered_state i err n w) = w_ended w"
  "w_finished (answered_state i err n w) = w_finished w" "w_micro (answered_state i err n w) = w_micro w"
  "w_finalCalled (answered_state i err n w) = w_finalCalled w" "w_stack (answered_state i err n w) = w_stack w"
  "w_length (answered_state i err n w) = w_length w - n" "w_corked (answered_state i err n w) = w_corked w"
  "w_objectMode (answered_state i err n w) = w_objectMode w"
  "w_highWaterMark (answered_state i err n w) = w_highWaterMark w"
  by (simp_all add: answered_state_def log_ev_def)

lemma core_answered:
  assumes J: "core w" and i: "i < length (w_calls w)"
    and n: "n = (case w_calls w ! i of PWrite e \<Rightarrow> done_len (w_objectMode w) (en_chunk e) | PFinal \<Rightarrow> 0)"
  shows "core (answered_state i err n w)"
proof -
  let ?w = "answered_state i err n w"
  have "books ?w" using J i by (auto simp: core_def books_def)
  moreover have "one_call ?w" if once: "answered_once (w_log ?w)"
  proof -
    note lc = last_call [OF J i, of err, OF once [simplified]]
    have n: "length (w_calls w) = Suc i" using lc(2) i by linarith
    show ?thesis using lc(5) by (simp add: one_call_def lessThan_Suc n)
  qed
  moreover have "closing ?w" if "closing w" using that by (auto simp: closing_def after_finish_append)
  moreover have "balanced ?w"
    if once: "answered_once (w_log ?w)" and ex: "list_all (exact (w_objectMode w)) (wrote (w_log w))"
  proof -
    note lc = last_call [OF J i, of err, OF once [simplified]]
    have b: "balanced w" using J lc(4) ex by (simp add: core_def)
    show ?thesis
    proof (cases "w_calls w ! i")
      case (PWrite e)
      then have "PWrite e \<in> set (w_calls w)" using i by (metis nth_mem)
      then have "exact (w_objectMode w) (en_chunk e)"
        using J ex by (auto simp: core_def books_def list_all_iff)
      with b PWrite lc(1,3) n show ?thesis by (simp add: balanced_def in_sink_def queued_def exact_def)
    next
      case PFinal
      with b lc(1,3) n show ?thesis by (simp add: balanced_def in_sink_def queued_def)
    qed
  qed
  ultimately show ?thesis using J unfolding core_def by (auto simp: answered_once_def)
qed

lemma core_answer: "core w \<Longrightarrow> core (answer i err w)"
proof (cases "i < length (w_calls w)")
  case True
  assume J: "core w"
  show ?thesis
  proof (cases "w_calls w ! i")
    case (PWrite e)
    have "answer i err w = (let w1 = answered_state i err (done_len (w_objectMode w) (en_chunk e)) w in
        case err of Some x \<Rightarrow> invoke (EvError x) (then_frame (KCallback (en_callback e) x) w1)
        | None \<Rightarrow> invoke (Callback (en_callback e) None) (then_frame KWritten w1))"
      using True PWrite by (simp add: answer_def on_written_def answered_state_def Let_def)
    with core_answered [OF J True, of _ err] PWrite show ?thesis
      by (auto simp: core_invoke Let_def split: option.split)
  next
    case PFinal
    let ?w = "answered_state i err 0 w"
    have c: "core ?w" using core_answered [OF J True, of 0 err] PFinal by simp
    have "w_ended w \<and> dq_list (w_buffer w) = [] \<and> \<not> w_finished w" if "answered_once (w_log w @ [SinkDone i err])"
    proof -
      have "PFinal \<in> set (w_calls w)" using True PFinal by (metis nth_mem)
      with last_call [OF J True that] J show ?thesis by (auto simp: core_def closing_def)
    qed
    then have "core (doFinish ?w)"
      by (intro core_doFinish c) (simp add: answered_state_def log_ev_def)
    with c True PFinal show ?thesis
      by (auto simp: answer_def on_final_def answered_state_def core_invoke Let_def split: option.split)
  qed
qed (simp add: answer_def)

lemma core_write: "core w \<Longrightarrow> core (write_chunk c enc cb w)"
proof (cases "w_ended w \<or> w_destroyed w")
  case False
  assume J: "core w"
  define e where "e = \<lparr>en_chunk = c, en_encoding = (case enc of Some x \<Rightarrow> x | None \<Rightarrow> w_defaultEncoding w), en_callback = cb\<rparr>"
  define v where "v = then_frame KWriteRet (log_ev (Wrote c) (w\<lparr>w_length := w_length w + write_len (w_objectMode w) c\<rparr>))"
  have v: "w_log v = w_log w @ [Wrote c]" "w_calls v = w_calls w" "w_buffer v = w_buffer w" "w_writing v = w_writing w"
    "w_needDrain v = w_needDrain w" "w_ended v = w_ended w" "w_finished v = w_finished w" "w_micro v = w_micro w"
    "w_finalCalled v = w_finalCalled w" "w_length v = w_length w + write_len (w_objectMode w) c"
    "w_objectMode v = w_objectMode w"
    by (simp_all add: v_def then_frame_def log_ev_def)
  have ec: "c = en_chunk e" by (simp add: e_def)
  note v = v [unfolded ec]
  have open_log: "\<not> w_finished w \<and> \<not> w_finalCalled w \<and> \<not> (\<exists>ev\<in>set (w_log w). is_finish ev)" if "answered_once (w_log w)"
    using not_finished_log [OF J that] J that False by (auto simp: core_def closing_def)
  show ?thesis
  proof (cases "0 < w_corked w \<or> w_writing w")
    case True
    let ?w = "v\<lparr>w_buffer := dq_push e (w_buffer w)\<rparr>"
    have "books ?w" using J dq_push_inv [of "w_buffer w" e] by (auto simp: core_def books_def v)
    moreover have "one_call ?w" if "one_call w" using that by (simp add: one_call_def v)
    moreover have "closing ?w" if "closing w" "answered_once (w_log w)"
      using that open_log False by (auto simp: closing_def v after_finish_append after_finish_Nil)
    moreover have "balanced ?w" if "balanced w"
      using that J dq_push_inv [of "w_buffer w" e]
      by (simp add: core_def books_def balanced_def in_sink_def queued_def v)
    ultimately have "core ?w" using J unfolding core_def by (simp add: v answered_once_def)
    with True False show ?thesis by (simp add: write_chunk_def e_def [symmetric] v_def [symmetric] Let_def)
  next
    case direct: False
    let ?w = "doWrite e (v\<lparr>w_writing := True\<rparr>)"
    have "books w" using J by (simp add: core_def)
    then have "dq_inv (w_buffer w)" "sink_calls (w_log w) = map chunk_of (w_calls w)"
      "\<And>i. i \<in> set (answered (w_log w)) \<Longrightarrow> i < Suc (length (w_calls w))" "w_needDrain w = owes (w_log w)"
      "en_chunk ` set (dq_list (w_buffer w)) \<subseteq> insert (en_chunk e) (set (wrote (w_log w)))"
      "\<And>x. PWrite x \<in> set (w_calls w) \<Longrightarrow> en_chunk x \<in> set (wrote (w_log w))"
      by (auto simp: books_def less_Suc_eq)
    then have "books ?w" unfolding books_def by (simp add: v)
    moreover have "one_call ?w" if "one_call w" using that direct by (simp add: one_call_def v)
    moreover have "closing ?w" if "closing w" "answered_once (w_log w)"
      using that open_log False by (auto simp: closing_def v after_finish_append)
    moreover have "balanced ?w" if "balanced w"
      using that direct by (simp add: balanced_def in_sink_def queued_def v)
    ultimately have "core ?w" using J unfolding core_def by (simp add: v answered_once_def)
    with direct False show ?thesis by (simp add: write_chunk_def e_def [symmetric] v_def [symmetric] Let_def)
  qed
qed (auto simp: write_chunk_def core_invoke)

lemma core_end: "core w \<Longrightarrow> core (end_stream c enc cb w)"
  by (auto simp: end_stream_def Let_def core_write split: option.split)

lemma core_perform: "core w \<Longrightarrow> core (w_perform cf x w)"
  by (cases x)
    (auto simp: core_write core_end core_answer core_clear core_invoke cork_def uncork_def destroy_stream_def
      doDestroy_def Let_def)

lemma core_drain: "core w \<Longrightarrow> core (drain_check w)"
  by (auto simp: core_defs drain_check_def invoke_def after_finish_append)

lemma core_return: "core w \<Longrightarrow> core (write_return w)"
  by (auto simp: core_defs write_return_def log_ev_def after_finish_append Let_def)

lemma core_continue: "core w \<Longrightarrow> core (continue_with cf k w)"
  by (cases k)
    (auto simp: core_drain core_return core_clear core_finishMaybe core_ended core_invoke process_buffer_def
      end_rest_def Let_def)

lemma core_tick: "core w \<Longrightarrow> core (tick w)"
proof (cases "w_micro w")
  case (Cons m ms)
  assume J: "core w"
  show ?thesis
  proof (cases m)
    case MFinish
    have "core (invoke (EvFinish (w_onfinish w)) (w\<lparr>w_micro := ms, w_onfinish := []\<rparr>))"
      using J Cons MFinish by (auto simp: core_defs invoke_def after_finish_append after_finish_Nil filter_empty_conv)
    with Cons MFinish show ?thesis by (simp add: tick_def)
  next
    case (MClose e)
    have "core (w\<lparr>w_micro := ms\<rparr>)" using J Cons MClose by (simp add: core_defs)
    with Cons MClose show ?thesis by (auto simp: tick_def core_invoke Let_def split: option.split)
  qed
qed (simp add: tick_def)

section \<open>What waits\<close>

lemma clear_shifts:
  assumes "core w" "\<not> w_writing w" "dq_list (w_buffer w) \<noteq> []"
  obtains e b where "clearBuffer w = doWrite e (w\<lparr>w_buffer := b, w_writing := True\<rparr>)"
    "dq_list (w_buffer w) = e # dq_list b"
proof -
  have inv: "dq_inv (w_buffer w)" using assms(1) by (simp add: core_def books_def)
  obtain x b where sh: "dq_shift (w_buffer w) = (x, b)" by fastforce
  with shift_None [OF inv] assms(3) obtain e where e: "x = Some e" by (cases x) auto
  show ?thesis
    by (rule that) (use sh e assms shift_list(2) [OF inv] in \<open>auto simp: clearBuffer_def\<close>)
qed

lemma clear_cases:
  assumes "core w"
  obtains "clearBuffer w = w" "w_writing w \<or> dq_list (w_buffer w) = []"
  | e b where "clearBuffer w = doWrite e (w\<lparr>w_buffer := b, w_writing := True\<rparr>)"
      "dq_list (w_buffer w) = e # dq_list b" "\<not> w_writing w"
proof (cases "w_writing w \<or> dq_list (w_buffer w) = []")
  case True
  with that(1) show ?thesis by (simp add: clearBuffer_def)
next
  case False
  with clear_shifts [OF assms] that(2) show ?thesis by metis
qed

lemma final_cases:
  obtains "finishMaybe cf w = w" | "finishMaybe cf w = doFinish w" "dq_list (w_buffer w) = []" "\<not> w_writing w" "w_ended w"
  | "finishMaybe cf w = invoke SinkFinal (w\<lparr>w_finalCalled := True, w_writing := True, w_calls := w_calls w @ [PFinal]\<rparr>)"
    "dq_list (w_buffer w) = []" "\<not> w_writing w" "w_ended w"
  unfolding finishMaybe_def
  by (cases "w_ended w \<and> \<not> w_finished w \<and> \<not> w_writing w \<and> dq_length (w_buffer w) = 0";
      cases "cf_final cf \<and> \<not> w_finalCalled w") auto

lemma clear_log:
  assumes "core w"
  shows "\<exists>l. w_log (clearBuffer w) = w_log w @ l"
  using assms by (rule clear_cases) auto

lemma final_log: "\<exists>l. w_log (finishMaybe cf w) = w_log w @ l"
  by (rule final_cases [of cf w]) (auto simp: doFinish_def machine_defs)

lemma perform_log: "core w \<Longrightarrow> \<exists>l. w_log (w_perform cf x w) = w_log w @ l"
  using clear_log [of "w\<lparr>w_corked := w_corked w - 1\<rparr>"]
  by (cases x)
    (auto simp: write_chunk_def end_stream_def answer_def on_written_def on_final_def doFinish_def machine_defs
      cork_def uncork_def destroy_stream_def doDestroy_def Let_def split: option.split sink_call.split)

lemma continue_log: "core w \<Longrightarrow> \<exists>l. w_log (continue_with cf k w) = w_log w @ l"
  using clear_log [of "then_frame KDrain w"] final_log [of cf "then_frame KDrain w"] final_log [of cf "w\<lparr>w_ended := True\<rparr>"]
  by (cases k)
    (auto simp: process_buffer_def drain_check_def write_return_def end_rest_def machine_defs Let_def)

lemma tick_log: "\<exists>l. w_log (tick w) = w_log w @ l"
  by (auto simp: tick_def machine_defs Let_def split: list.split wmicro.split option.split)

lemma less_done: "h \<le> l - done_len om c \<Longrightarrow> h \<le> l"
  using len_nonneg(2) [of om c] by linarith

lemma refuses_perform: "refuses w \<Longrightarrow> refuses (w_perform cf x w)"
  by (cases x)
    (auto dest: less_done simp: refuses_def write_chunk_def end_stream_def answer_def on_written_def on_final_def doFinish_def machine_defs
      cork_def uncork_def destroy_stream_def doDestroy_def Let_def clearBuffer_def split: option.split sink_call.split prod.split)

lemma refuses_continue:
  assumes "refuses w" "w_stack w = k # ks" "\<not> is_user k"
  shows "refuses (continue_with cf k (w\<lparr>w_stack := ks\<rparr>))"
proof -
  have f: "refuses (finishMaybe cf v) = refuses v" for v
    by (rule final_cases [of cf v]) (auto simp: refuses_def doFinish_def machine_defs)
  have "refuses (clearBuffer v) = refuses v" for v
    by (auto simp: clearBuffer_def refuses_def split: prod.split option.split)
  with f assms show ?thesis
    by (cases k) (auto simp: process_buffer_def end_rest_def Let_def refuses_def drain_check_def write_return_def machine_defs)
qed

lemma refuses_tick: "refuses w \<Longrightarrow> refuses (tick w)"
  by (auto simp: refuses_def tick_def machine_defs Let_def split: list.split wmicro.split option.split)

lemma progress_more: "progress w \<Longrightarrow> progress (then_frame k w)"
  by (auto simp: progress_def then_frame_def)

lemma progress_invoke [simp]: "progress (invoke ev w) = progress w" "progress (log_ev ev w) = progress w"
  by (simp_all add: progress_def invoke_def log_ev_def)

lemma less_more: "l + write_len om c < h \<Longrightarrow> l < h"
  using len_nonneg(1) [of om c] by linarith

lemma progress_write: "progress w \<Longrightarrow> progress (write_chunk c enc cb w)"
  by (auto dest: less_more simp: write_chunk_def progress_def machine_defs Let_def)

lemma progress_end: "progress w \<Longrightarrow> progress (end_stream c enc cb w)"
  by (auto simp: end_stream_def Let_def intro!: progress_write progress_more split: option.split)
    (auto simp: progress_def)

lemma progress_answer:
  assumes J: "core w" and P: "progress w"
    and once: "answered_once (w_log (answer i err w))" and calm: "no_sink_error (w_log (answer i err w))"
  shows "progress (answer i err w)"
proof (cases "i < length (w_calls w)")
  case True
  show ?thesis
  proof (cases "w_calls w ! i")
    case (PWrite e)
    with True calm show ?thesis
      by (cases err) (auto simp: answer_def on_written_def progress_def machine_defs)
  next
    case PFinal
    then have "PFinal \<in> set (w_calls w)" using True by (metis nth_mem)
    moreover have "answered_once (w_log w)"
      using once by (cases err) (auto simp: answered_once_def answer_def True PFinal on_final_def doFinish_def machine_defs)
    ultimately have "dq_list (w_buffer w) = []" using J by (auto simp: core_def closing_def)
    with P True PFinal show ?thesis
      by (cases err) (auto simp: answer_def on_final_def doFinish_def progress_def machine_defs)
  qed
qed (use P in \<open>simp add: answer_def\<close>)

lemma progress_uncork: "core w \<Longrightarrow> progress w \<Longrightarrow> progress (uncork w)"
proof -
  assume J: "core w" and P: "progress w"
  let ?w = "w\<lparr>w_corked := w_corked w - 1\<rparr>"
  have "progress (clearBuffer ?w)" if "\<not> w_writing w" "dq_list (w_buffer w) \<noteq> []"
    by (rule clear_shifts [of ?w]) (use J P that in \<open>auto simp: progress_def\<close>)
  with P show ?thesis by (auto simp: uncork_def Let_def progress_def)
qed

lemma progress_perform:
  "core w \<Longrightarrow> progress w \<Longrightarrow> answered_once (w_log (w_perform cf x w)) \<Longrightarrow> no_sink_error (w_log (w_perform cf x w))
   \<Longrightarrow> progress (w_perform cf x w)"
  by (cases x) (auto simp: progress_write progress_end progress_answer progress_uncork,
      auto simp: cork_def destroy_stream_def doDestroy_def Let_def progress_def machine_defs)

lemma progress_process:
  assumes "core w" "progress w" "w_stack w = KWritten # ks"
  shows "progress (process_buffer cf (w\<lparr>w_stack := ks\<rparr>))"
proof -
  let ?w = "then_frame KDrain (w\<lparr>w_stack := ks\<rparr>)"
  have c: "core ?w" using assms(1) by simp
  show ?thesis
  proof (cases "0 < dq_length (w_buffer w) \<and> w_corked w = 0")
    case True
    have "progress (clearBuffer ?w)"
      by (rule clear_cases [OF c]) (use True in \<open>auto simp: progress_def then_frame_def\<close>)
    with True show ?thesis by (simp add: process_buffer_def Let_def)
  next
    case False
    have "progress (finishMaybe cf ?w)" if "dq_list (w_buffer w) = []"
      by (rule final_cases [of cf ?w]) (use that in \<open>auto simp: progress_def doFinish_def machine_defs\<close>)
    with False show ?thesis by (auto simp: process_buffer_def Let_def progress_def then_frame_def)
  qed
qed

lemma progress_continue:
  assumes "core w" "progress w" "w_stack w = k # ks" "\<not> is_user k"
  shows "progress (continue_with cf k (w\<lparr>w_stack := ks\<rparr>))"
proof (cases "k = KEnd")
  case True
  have "progress (w\<lparr>w_stack := ks, w_ended := True\<rparr>)" using assms(2,3) True by (auto simp: progress_def)
  then have "progress (finishMaybe cf (w\<lparr>w_stack := ks, w_ended := True\<rparr>))"
    by - (rule final_cases [of cf "w\<lparr>w_stack := ks, w_ended := True\<rparr>"],
      auto simp: progress_def doFinish_def machine_defs)
  with assms(2,3) True show ?thesis by (auto simp: end_rest_def Let_def progress_def)
qed (use assms progress_process [OF assms(1,2)] in
    \<open>cases k; auto simp: progress_def drain_check_def write_return_def machine_defs Let_def\<close>)

lemma progress_tick: "progress w \<Longrightarrow> progress (tick w)"
  by (auto simp: progress_def tick_def machine_defs Let_def split: list.split wmicro.split option.split)

lemma calm_before:
  assumes "\<exists>l. w_log v = w_log w @ l"
  shows "answered_once (w_log v) \<Longrightarrow> answered_once (w_log w)" "no_sink_error (w_log v) \<Longrightarrow> no_sink_error (w_log w)"
  using assms by (auto simp: answered_once_def)

interpretation ledger: machine_invariant ledger cf "\<lambda>w x. True" for cf
proof
  fix w x assume J: "ledger w"
  show "ledger (w_perform cf x w)"
    using J core_perform [of w] refuses_perform [of w] progress_perform [of w]
      calm_before [OF perform_log [of w cf x]] by (auto simp: ledger_def)
next
  fix w k ks assume J: "ledger w" and k: "w_stack w = k # ks" "\<not> is_user k"
  have "\<exists>l. w_log (continue_with cf k (w\<lparr>w_stack := ks\<rparr>)) = w_log w @ l"
    using continue_log [of "w\<lparr>w_stack := ks\<rparr>" cf k] J by (simp add: ledger_def)
  with J k show "ledger (continue_with cf k (w\<lparr>w_stack := ks\<rparr>))"
    using core_continue [of "w\<lparr>w_stack := ks\<rparr>"] refuses_continue [of w] progress_continue [of w] calm_before
    by (simp add: ledger_def) blast
next
  fix w k ks assume "ledger w" "w_stack w = k # ks" "is_user k"
  then show "ledger (w\<lparr>w_stack := ks\<rparr>)"
    by (cases k) (auto simp: ledger_def refuses_def progress_def)
next
  fix w :: wstate assume "ledger w" "w_stack w = []"
  then show "ledger (tick w)"
    using core_tick [of w] refuses_tick [of w] progress_tick [of w] calm_before [OF tick_log [of w]]
    by (auto simp: ledger_def)
qed

section \<open>The order of chunks\<close>

text \<open>
  A write inside the callback of a write, while chunks are queued: the code calls \<open>callback()\<close> with
  \<open>writing\<close> cleared and before it turns to the queue.
\<close>

definition writes :: "wop \<Rightarrow> bool" where
  "writes x = (case x of Write c enc cb \<Rightarrow> True | End c enc cb \<Rightarrow> c \<noteq> None | _ \<Rightarrow> False)"

definition overtaking :: "wstate \<Rightarrow> wop \<Rightarrow> bool" where
  "overtaking w x \<longleftrightarrow> writes x \<and> KWritten \<in> set (w_stack w) \<and> queued w \<noteq> []"

definition in_line :: "wstate \<Rightarrow> bool" where
  "in_line w \<longleftrightarrow> sunk (w_log w) @ queued w = wrote (w_log w)"

definition ordered :: "wstate \<Rightarrow> bool" where
  "ordered w \<longleftrightarrow> ledger w \<and> (answered_once (w_log w) \<and> no_sink_error (w_log w) \<longrightarrow> in_line w)"

lemma queued_Nil: "queued w = [] \<longleftrightarrow> dq_list (w_buffer w) = []"
  by (simp add: queued_def)

lemma in_line_fields [simp]:
  "in_line (w\<lparr>w_stack := ks\<rparr>) = in_line w" "in_line (w\<lparr>w_ended := b\<rparr>) = in_line w"
  "in_line (w\<lparr>w_length := l\<rparr>) = in_line w" "in_line (w\<lparr>w_writing := b\<rparr>) = in_line w"
  "in_line (w\<lparr>w_defaultEncoding := enc\<rparr>) = in_line w"
  "in_line (w\<lparr>w_corked := n\<rparr>) = in_line w" "in_line (then_frame k w) = in_line w"
  "in_line (w\<lparr>w_onfinish := ns\<rparr>) = in_line w" "in_line (w\<lparr>w_destroyed := b\<rparr>) = in_line w"
  "in_line (doFinish w) = in_line w" "in_line (queueMicrotask m w) = in_line w"
  by (simp_all add: in_line_def queued_def then_frame_def doFinish_def queueMicrotask_def)

lemma line_event [simp]:
  "sunk [ev] = [] \<Longrightarrow> wrote [ev] = [] \<Longrightarrow> in_line (invoke ev w) = in_line w"
  "sunk [ev] = [] \<Longrightarrow> wrote [ev] = [] \<Longrightarrow> in_line (log_ev ev w) = in_line w"
  by (simp_all add: in_line_def queued_def invoke_def log_ev_def del: history_Cons)

lemma line_clear: "core w \<Longrightarrow> in_line (clearBuffer w) = in_line w"
  by (rule clear_cases [of w]) (auto simp: in_line_def queued_def)

lemma line_final: "in_line (finishMaybe cf w) = in_line w"
  by (rule final_cases [of cf w]) (auto simp: in_line_def queued_def invoke_def doFinish_def queueMicrotask_def)

lemma line_answer [simp]: "in_line (answer i err w) = in_line w"
  by (auto simp: answer_def on_written_def on_final_def Let_def split: sink_call.split option.split)

lemma line_write:
  assumes J: "core w" and L: "in_line w" and free: "\<not> w_writing w \<Longrightarrow> w_corked w = 0 \<Longrightarrow> queued w = []"
  shows "in_line (write_chunk c enc cb w)"
  using J L free dq_push_inv [of "w_buffer w"]
  by (auto simp: write_chunk_def in_line_def queued_def machine_defs core_def books_def Let_def)

lemma line_end:
  assumes J: "core w" and L: "in_line w" and free: "c \<noteq> None \<Longrightarrow> \<not> w_writing w \<Longrightarrow> w_corked w = 0 \<Longrightarrow> queued w = []"
  shows "in_line (end_stream c enc cb w)"
proof -
  let ?w = "then_frame KEnd (case cb of Some k \<Rightarrow> w\<lparr>w_onfinish := w_onfinish w @ [k]\<rparr> | None \<Rightarrow> w)"
  have w: "core ?w" "in_line ?w" using J L by (auto split: option.split)
  have free': "queued ?w = []" if "c \<noteq> None" "\<not> w_writing ?w" "w_corked ?w = 0"
    using free that by (auto simp: queued_def then_frame_def split: option.splits)
  have "in_line (write_chunk x enc None ?w)" if "c = Some x" for x
    by (rule line_write [OF w]) (use free' that in simp)
  with w(2) show ?thesis by (auto simp: end_stream_def Let_def split: option.splits)
qed

lemma line_perform:
  assumes J: "core w" and P: "progress w" and L: "in_line w" and ok: "\<not> overtaking w x"
  shows "in_line (w_perform cf x w)"
proof -
  have free: "queued w = []" if "writes x" "\<not> w_writing w" "w_corked w = 0"
  proof (rule ccontr)
    assume q: "queued w \<noteq> []"
    with P that have "KWritten \<in> set (w_stack w)" unfolding progress_def queued_Nil by blast
    with ok q that show False unfolding overtaking_def by blast
  qed
  have un: "in_line (uncork w)"
    using L line_clear [of "w\<lparr>w_corked := w_corked w - 1\<rparr>"] J by (auto simp: uncork_def Let_def)
  have rest: "in_line (destroy_stream cf err w)" "in_line (doDestroy cf err w)" "in_line (cork w)" for err
    using L by (auto simp: destroy_stream_def doDestroy_def cork_def Let_def)
  show ?thesis
  proof (cases x)
    case (Write c enc cb)
    with free show ?thesis by (auto intro: line_write [OF J L] simp: writes_def)
  next
    case (End c enc cb)
    with free show ?thesis by (auto intro: line_end [OF J L] simp: writes_def)
  qed (use L un rest in simp_all)
qed

lemma line_continue:
  assumes "core w" "in_line w"
  shows "in_line (continue_with cf k w)"
  using assms
  by (cases k)
    (auto simp: process_buffer_def end_rest_def line_clear line_final drain_check_def write_return_def Let_def,
      auto simp: in_line_def queued_def invoke_def log_ev_def)

lemma line_tick: "in_line w \<Longrightarrow> in_line (tick w)"
  by (auto simp: in_line_def queued_def tick_def invoke_def then_frame_def Let_def
      split: list.split wmicro.split option.split)

interpretation ordered: machine_invariant ordered cf "\<lambda>w x. \<not> overtaking w x" for cf
proof
  fix w x assume J: "ordered w" and ok: "\<not> overtaking w x"
  have l: "ledger w" "ledger (w_perform cf x w)" using J ledger.J_perform by (simp_all add: ordered_def)
  then have c: "core w" by (simp add: ledger_def)
  show "ordered (w_perform cf x w)"
    unfolding ordered_def
  proof (intro conjI impI, rule l)
    assume "answered_once (w_log (w_perform cf x w)) \<and> no_sink_error (w_log (w_perform cf x w))"
    with calm_before [OF perform_log [OF c]] have "answered_once (w_log w)" "no_sink_error (w_log w)" by blast+
    with J l(1) have "progress w" "in_line w" by (simp_all add: ordered_def ledger_def)
    with c ok show "in_line (w_perform cf x w)" by (intro line_perform)
  qed
next
  fix w k ks assume J: "ordered w" and k: "w_stack w = k # ks" "\<not> is_user k"
  let ?v = "w\<lparr>w_stack := ks\<rparr>"
  have l: "ledger (continue_with cf k ?v)" "core ?v" using J k ledger.J_continue by (simp_all add: ordered_def ledger_def)
  show "ordered (continue_with cf k ?v)"
    unfolding ordered_def
  proof (intro conjI impI, rule l)
    assume "answered_once (w_log (continue_with cf k ?v)) \<and> no_sink_error (w_log (continue_with cf k ?v))"
    with calm_before [OF continue_log [OF l(2)]] have "answered_once (w_log ?v)" "no_sink_error (w_log ?v)" by blast+
    with J have "in_line ?v" by (simp add: ordered_def)
    with l(2) show "in_line (continue_with cf k ?v)" by (rule line_continue)
  qed
next
  fix w k ks assume "ordered w" "w_stack w = k # ks" "is_user k"
  then show "ordered (w\<lparr>w_stack := ks\<rparr>)" using ledger.J_return by (simp add: ordered_def)
next
  fix w :: wstate assume J: "ordered w" "w_stack w = []"
  then show "ordered (tick w)"
    using ledger.J_tick [of w] calm_before [OF tick_log [of w]] line_tick [of w] by (auto simp: ordered_def)
qed

section \<open>Properties\<close>

lemma ledger_new: "ledger (new_writable hwm om)"
  by (simp add: ledger_def core_defs waits_defs new_writable_def)

lemma run_ledger: "ledger (w_run cf (new_writable hwm om) acts)"
  by (rule ledger.run_kept [OF ledger_new]) simp

lemma run_ordered:
  "allowed_run (\<lambda>w x. \<not> overtaking w x) cf (new_writable hwm om) acts \<Longrightarrow> ordered (w_run cf (new_writable hwm om) acts)"
  by (rule ordered.run_kept) (simp_all add: ordered_def ledger_new, simp add: in_line_def queued_def new_writable_def)

lemma run_constants:
  "w_highWaterMark (resume_calls cf w) = w_highWaterMark w \<and> w_objectMode (resume_calls cf w) = w_objectMode w"
proof (induction cf w rule: resume_calls.induct)
  case (1 cf w)
  have clear: "w_highWaterMark (clearBuffer v) = w_highWaterMark v \<and> w_objectMode (clearBuffer v) = w_objectMode v" for v
    by (auto simp: clearBuffer_def split: prod.split option.split)
  have fin: "w_highWaterMark (finishMaybe cf v) = w_highWaterMark v \<and> w_objectMode (finishMaybe cf v) = w_objectMode v" for v
    by (rule final_cases [of cf v]) (auto simp: doFinish_def machine_defs)
  have "w_highWaterMark (continue_with cf k v) = w_highWaterMark v \<and> w_objectMode (continue_with cf k v) = w_objectMode v" for k v
    by (cases k) (auto simp: process_buffer_def end_rest_def clear fin drain_check_def write_return_def machine_defs Let_def)
  with 1 show ?case by (subst (1 2) resume_calls.simps) (simp split: list.split)
qed

lemma nths_from: "nths xs {m..} = drop m xs"
  by (simp add: drop_eq_nths atLeast_def)

lemma outstanding_last:
  assumes "core w" "answered_once (w_log w)"
  shows "outstanding (w_log w) = (if w_writing w then [chunk_of (last (w_calls w))] else [])"
proof -
  let ?cs = "map chunk_of (w_calls w)"
  have log: "sink_calls (w_log w) = ?cs" and one: "one_call w" using assms by (simp_all add: core_def books_def)
  show ?thesis
  proof (cases "w_writing w")
    case True
    with one have "w_calls w \<noteq> []" "outstanding (w_log w) = drop (length (w_calls w) - 1) ?cs"
      by (simp_all add: one_call_def outstanding_def log nths_from)
    then show ?thesis using True by (cases "w_calls w" rule: rev_cases) simp_all
  next
    case False
    with one show ?thesis by (simp add: one_call_def outstanding_def log nths_from)
  qed
qed

lemma act_fixed: "w_highWaterMark (w_act cf w a) = w_highWaterMark w \<and> w_objectMode (w_act cf w a) = w_objectMode w"
proof -
  have clear: "w_highWaterMark (clearBuffer v) = w_highWaterMark v \<and> w_objectMode (clearBuffer v) = w_objectMode v" for v
    by (auto simp: clearBuffer_def split: prod.split option.split)
  have "w_highWaterMark (w_perform cf x w) = w_highWaterMark w \<and> w_objectMode (w_perform cf x w) = w_objectMode w" for x
    by (cases x)
      (auto simp: write_chunk_def end_stream_def answer_def on_written_def on_final_def doFinish_def machine_defs clear
        cork_def uncork_def destroy_stream_def doDestroy_def Let_def split: option.split sink_call.split)
  moreover have "w_highWaterMark (tick w) = w_highWaterMark w \<and> w_objectMode (tick w) = w_objectMode w"
    by (auto simp: tick_def machine_defs Let_def split: list.split wmicro.split option.split)
  ultimately show ?thesis by (cases a; cases "w_stack w") (simp_all add: run_constants)
qed

lemma run_fixed: "w_highWaterMark (w_run cf w acts) = w_highWaterMark w \<and> w_objectMode (w_run cf w acts) = w_objectMode w"
  by (induction acts arbitrary: w) (auto simp: w_run_def act_fixed)

text \<open>
  C7. Whatever the program, the sink, the callbacks and the listeners do, re-entrant calls included,
  as long as no completion callback is called twice: at most one call into the sink is outstanding,
  and one is exactly when the stream's \<open>writing\<close> says so; the stream finishes at most once, when it
  was ended, with an empty queue and nothing outstanding; and after \<open>finish\<close> was emitted nothing is
  handed to the sink.
\<close>

theorem writable_protocol:
  assumes "w = w_run cf (new_writable hwm om) acts" "answered_once (w_log w)"
  shows "length (outstanding (w_log w)) = of_bool (w_writing w)
     \<and> length (filter is_finish (w_log w)) \<le> of_bool (w_finished w)
     \<and> (w_finished w \<longrightarrow> w_ended w \<and> queued w = [] \<and> outstanding (w_log w) = [])
     \<and> sink_calls (after_finish (w_log w)) = []"
proof -
  have c: "core w" using run_ledger assms(1) by (simp add: ledger_def)
  from c assms(2) have f: "closing w" by (simp add: core_def)
  then have "length (filter is_finish (w_log w)) \<le> of_bool (w_finished w)" by (simp add: closing_def)
  with f outstanding_last [OF c assms(2)] show ?thesis by (auto simp: closing_def queued_Nil)
qed

text \<open>A sink that answers before \<open>_write\<close> returns, a callback that writes again, and the end.\<close>

abbreviation sync_run :: "wact list" where
  "sync_run \<equiv> [Call (Write (BytesC [1]) None (Some 0)), Call (Answer 0 None),
     Call (Write (BytesC [2]) None None), Return, Return, Return,
     Call (End None None None), Call (Answer 1 None), Return, Tick, Return]"

abbreviation plain_config :: wconfig where
  "plain_config \<equiv> \<lparr>cf_final = False, cf_destroy = False\<rparr>"

lemma sync_run_log:
  "w_log (w_run plain_config (new_writable None False) sync_run) =
     [Wrote (BytesC [1]), SinkWrite (BytesC [1]) ''utf8'', SinkDone 0 None, Callback (Some 0) None,
      Wrote (BytesC [2]), SinkWrite (BytesC [2]) ''utf8'', WriteReturned True, WriteReturned True,
      SinkDone 1 None, Callback None None, EvFinish []]"
  by code_simp

theorem writable_protocol_witness:
  "length (outstanding (w_log (w_run plain_config (new_writable None False) sync_run)))
     = of_bool (w_writing (w_run plain_config (new_writable None False) sync_run))"
proof -
  have "answered_once (w_log (w_run plain_config (new_writable None False) sync_run))"
    unfolding sync_run_log by (simp add: answered_once_def)
  from writable_protocol [OF refl this] show ?thesis by blast
qed

text \<open>
  C8. When no completion callback is called twice, the sink reports no error and no callback of a
  write itself writes while chunks are queued, the chunks handed to the sink followed by the queued
  ones are exactly those \<open>write\<close> and \<open>end\<close> accepted, in the order of the calls: for every interleaving
  of writing, corking, ending, completing and destroying, from the program and from any other code
  the stream calls.
\<close>

theorem writable_fifo:
  assumes "allowed_run (\<lambda>w x. \<not> overtaking w x) cf (new_writable hwm om) acts"
    and "w = w_run cf (new_writable hwm om) acts" "answered_once (w_log w)" "no_sink_error (w_log w)"
  shows "sunk (w_log w) @ queued w = wrote (w_log w)"
  using run_ordered [OF assms(1)] assms(2-4) by (simp add: ordered_def in_line_def)

theorem writable_fifo_witness:
  "sunk (w_log (w_run plain_config (new_writable None False) sync_run)) @
     queued (w_run plain_config (new_writable None False) sync_run) = [BytesC [1], BytesC [2]]"
proof -
  have ok: "allowed_run (\<lambda>w x. \<not> overtaking w x) plain_config (new_writable None False) sync_run"
    by code_simp
  have "answered_once (w_log (w_run plain_config (new_writable None False) sync_run))"
    "no_sink_error (w_log (w_run plain_config (new_writable None False) sync_run))"
    unfolding sync_run_log by (simp_all add: answered_once_def)
  from writable_fifo [OF ok refl this] show ?thesis unfolding sync_run_log by simp
qed

text \<open>The chunks among the outstanding calls.\<close>

definition chunks_in_sink :: "wevent list \<Rightarrow> chunk list" where
  "chunks_in_sink l = concat (map (\<lambda>x. case x of None \<Rightarrow> [] | Some c \<Rightarrow> [c]) (outstanding l))"


abbreviation drained_run :: "wact list" where
  "drained_run \<equiv> [Call (Write (BytesC [1, 2]) None None), Return, Call (Answer 0 None), Return, Return]"

lemma drained_run_log:
  "w_log (w_run plain_config (new_writable (Some 1) False) drained_run) =
     [Wrote (BytesC [1, 2]), SinkWrite (BytesC [1, 2]) ''utf8'', WriteReturned False, SinkDone 0 None,
      Callback None None, EvDrain]"
  "w_stack (w_run plain_config (new_writable (Some 1) False) drained_run) = []"
  "w_corked (w_run plain_config (new_writable (Some 1) False) drained_run) = 0"
  by code_simp+


section \<open>Where it differs from Node\<close>

text \<open>
  Text is accounted differently when it is written (UTF-8 bytes) and when it is done
  (UTF-16 units): after one two-byte character went through a stream with a high-water mark of
  one, the stream is idle, still counts one byte and owes a \<open>drain\<close> it will not emit; the next
  \<open>write\<close> returns \<open>false\<close> again.
\<close>

theorem writable_text_stall:
  "let w = w_run plain_config (new_writable (Some 1) False)
     [Call (Write (StrC [233]) None None), Return, Call (Answer 0 None), Return,
      Call (Write (BytesC []) None None), Return, Call (Answer 1 None), Return]
   in (w_stack w, queued w, outstanding (w_log w), w_length w, owes (w_log w),
       filter (\<lambda>ev. ev = EvDrain \<or> (case ev of WriteReturned b \<Rightarrow> True | _ \<Rightarrow> False)) (w_log w))
    = ([], [], [], 1, True, [WriteReturned False, WriteReturned False])"
  by code_simp

text \<open>
  After the sink reported an error the chunks queued behind the failed one stay queued and a
  later write overtakes them.
\<close>

theorem writable_error_overtakes:
  "let w = w_run plain_config (new_writable None False)
     [Call (Write (BytesC [1]) None None), Return, Call (Write (BytesC [2]) None None),
      Call (Answer 0 (Some (SinkError 0))), Return, Return, Call (Write (BytesC [3]) None None), Return]
   in (sunk (w_log w), queued w) = ([BytesC [1], BytesC [3]], [BytesC [2]])"
  by code_simp

text \<open>A write inside the callback of a write goes to the sink ahead of the queued chunks.\<close>

theorem writable_callback_overtakes:
  "let w = w_run plain_config (new_writable None False)
     [Call (Write (BytesC [1]) None (Some 0)), Return, Call (Write (BytesC [2]) None None),
      Call (Answer 0 None), Call (Write (BytesC [3]) None None), Return, Return]
   in (w_stack w, sunk (w_log w), queued w) = ([], [BytesC [1], BytesC [3]], [BytesC [2]])"
  by code_simp

text \<open>
  The completion callbacks are not guarded: one that is called again clears \<open>writing\<close> while another
  call is outstanding, so two are; and that of an early write called after \<open>end\<close> finishes the stream
  before \<open>_final\<close> is done, which finishes it once more.
\<close>

theorem writable_double_answer:
  "let w = w_run plain_config (new_writable None False)
     [Call (Write (BytesC [1]) None None), Return, Call (Answer 0 None), Return,
      Call (Write (BytesC [2]) None None), Return, Call (Answer 0 None), Return,
      Call (Write (BytesC [3]) None None), Return]
   in outstanding (w_log w) = [Some (BytesC [2]), Some (BytesC [3])]"
  by code_simp

theorem writable_double_finish:
  "let w = w_run \<lparr>cf_final = True, cf_destroy = False\<rparr> (new_writable None False)
     [Call (Write (BytesC [1]) None None), Return, Call (Answer 0 None), Return,
      Call (End None None None), Return, Call (Answer 0 None), Return, Tick, Return,
      Call (Answer 1 None), Tick, Return]
   in length (filter is_finish (w_log w)) = 2"
  by code_simp

end
