(* ===== verification/Readable.thy ===== *)
theory Readable
  imports Writable
begin

text \<open>
  The readable side of \<open>napi-bridge/streams.js\<close>: \<open>push\<close>, \<open>read\<close>, \<open>pause\<close>, \<open>resume\<close>, \<open>destroy\<close>,
  the flow loop \<open>_emitData\<close> and the asynchronous iterator.

  Listeners and the source's \<open>_read\<close> run inside these operations and may call back into the stream:
  what they do on an event is a parameter, a list of operations of the stream and of changes to
  the rest of the program (\<open>r_world\<close>). Each operation takes the function that runs the listeners
  of an event; \<open>react\<close> ties the knot. The engine's stack and the number of rounds of a loop are
  bounded by a fuel, and \<^const>\<open>None\<close> is a run that does not return within it. A chunk that is
  \<open>null\<close> is the end mark.
\<close>

section \<open>State\<close>

text \<open>
  What the stream does, in order: events, calls of \<open>_read\<close> and \<open>_destroy\<close>, chunks accepted by
  \<open>push\<close>, chunks \<open>read\<close> takes off the buffer (\<open>Taken\<close>) and chunks it returns to its caller
  (\<open>Returned\<close>): between the two it may emit \<open>end\<close>.
\<close>

datatype revent =
    EvData chunk | EvReadable | EvEnd | EvPause | EvResume | EvErr nat | EvClosed
  | ReadCall int | DestroyCall "nat option" | Pushed chunk | Taken chunk | Returned chunk

datatype microtask = Flow | Closing "nat option"

text \<open>How a promise of the asynchronous iterator is settled.\<close>

datatype given = Chunk chunk | AtEnd | Failed nat

record 'w rstate =
  r_highWaterMark :: int
  r_buffer :: "chunk deque"
  r_length :: int
  r_flowing :: "bool option"
  r_ended :: bool
  r_endEmitted :: bool
  r_destroyed :: bool
  r_reading :: bool
  r_objectMode :: bool
  r_encoding :: "string option"
  r_customDestroy :: bool
  r_readers :: nat \<comment> \<open>listeners of \<open>readable\<close>\<close>
  r_microtasks :: "microtask list"
  r_calls :: nat \<comment> \<open>calls of the iterator's \<open>next\<close>\<close>
  r_waiting :: "nat list"
  r_given :: "(nat \<times> given) list"
  r_log :: "revent list"
  r_world :: 'w

definition new_readable :: "int option \<Rightarrow> bool \<Rightarrow> bool \<Rightarrow> 'w \<Rightarrow> 'w rstate" where
  "new_readable hwm objectMode customDestroy w =
     \<lparr>r_highWaterMark = (case hwm of Some h \<Rightarrow> h | None \<Rightarrow> 16384), r_buffer = dq_new, r_length = 0,
      r_flowing = None, r_ended = False, r_endEmitted = False, r_destroyed = False,
      r_reading = False, r_objectMode = objectMode, r_encoding = None, r_customDestroy = customDestroy,
      r_readers = 0, r_microtasks = [], r_calls = 0, r_waiting = [], r_given = [], r_log = [], r_world = w\<rparr>"

section \<open>Events\<close>

text \<open>
  The iterator's one-time listeners settle every waiting promise on the first event of theirs;
  then the program's listeners run.
\<close>

definition given_by :: "revent \<Rightarrow> given option" where
  "given_by ev =
     (case ev of EvData c \<Rightarrow> Some (Chunk c) | EvEnd \<Rightarrow> Some AtEnd | EvErr e \<Rightarrow> Some (Failed e) | _ \<Rightarrow> None)"

definition noted :: "revent \<Rightarrow> 'w rstate \<Rightarrow> 'w rstate" where
  "noted ev s =
     (let t = s\<lparr>r_log := r_log s @ [ev]\<rparr>
      in case given_by ev of
           None \<Rightarrow> t
         | Some g \<Rightarrow> t\<lparr>r_given := r_given t @ map (\<lambda>p. (p, g)) (r_waiting t), r_waiting := []\<rparr>)"

type_synonym 'w reactor = "revent \<Rightarrow> 'w rstate \<Rightarrow> 'w rstate option"

definition fire :: "'w reactor \<Rightarrow> revent \<Rightarrow> 'w rstate \<Rightarrow> 'w rstate option" where
  "fire c ev s = c ev (noted ev s)"

section \<open>The flow loop\<close>

definition flows :: "'w rstate \<Rightarrow> bool" where
  "flows s \<longleftrightarrow> r_flowing s = Some True"

definition is_empty :: "'w rstate \<Rightarrow> bool" where
  "is_empty s \<longleftrightarrow> dq_length (r_buffer s) = 0"

definition call_read :: "'w reactor \<Rightarrow> 'w rstate \<Rightarrow> 'w rstate option" where
  "call_read c s =
     map_option (\<lambda>t. t\<lparr>r_reading := False\<rparr>) (fire c (ReadCall (r_highWaterMark s)) (s\<lparr>r_reading := True\<rparr>))"

definition maybeEnd :: "'w reactor \<Rightarrow> 'w rstate \<Rightarrow> 'w rstate option" where
  "maybeEnd c s =
     (if r_ended s \<and> is_empty s \<and> \<not> r_endEmitted s then fire c EvEnd (s\<lparr>r_endEmitted := True\<rparr>) else Some s)"

definition take_chunk :: "'w rstate \<Rightarrow> (chunk \<times> 'w rstate) option" where
  "take_chunk s =
     (case dq_shift (r_buffer s) of
        (None, b) \<Rightarrow> None
      | (Some x, b) \<Rightarrow> Some (x, s\<lparr>r_buffer := b, r_length := r_length s - done_len (r_objectMode s) x\<rparr>))"

fun drain :: "'w reactor \<Rightarrow> nat \<Rightarrow> 'w rstate \<Rightarrow> 'w rstate option" where
  "drain c 0 s = None"
| "drain c (Suc n) s =
     (if flows s \<and> \<not> is_empty s then
        (case take_chunk s of
           None \<Rightarrow> Some s
         | Some (x, s1) \<Rightarrow>
             Option.bind (fire c (EvData x) s1) (\<lambda>t. if flows t then drain c n t else Some t))
      else Some s)"

definition wants_data :: "'w rstate \<Rightarrow> bool" where
  "wants_data s \<longleftrightarrow> flows s \<and> is_empty s \<and> \<not> r_ended s \<and> \<not> r_reading s"

fun emitData :: "'w reactor \<Rightarrow> nat \<Rightarrow> 'w rstate \<Rightarrow> 'w rstate option" where
  "emitData c 0 s = None"
| "emitData c (Suc n) s =
     Option.bind (if wants_data s then call_read c s else Some s)
       (\<lambda>s1. Option.bind (drain c (Suc n) s1)
         (\<lambda>s2. if wants_data s2
                then Option.bind (call_read c s2)
                       (\<lambda>s3. if \<not> is_empty s3 then emitData c n s3 else maybeEnd c s3)
                else maybeEnd c s2))"

section \<open>Operations\<close>

definition below_mark :: "'w rstate \<Rightarrow> bool \<times> 'w rstate" where
  "below_mark s = (r_length s < r_highWaterMark s, s)"

definition put_chunk :: "chunk \<Rightarrow> 'w rstate \<Rightarrow> 'w rstate" where
  "put_chunk x s =
     noted (Pushed x) (s\<lparr>r_buffer := dq_push x (r_buffer s), r_length := r_length s + write_len (r_objectMode s) x\<rparr>)"

definition push_chunk :: "'w reactor \<Rightarrow> nat \<Rightarrow> chunk \<Rightarrow> 'w rstate \<Rightarrow> (bool \<times> 'w rstate) option" where
  "push_chunk c n x s =
     (if r_ended s then Some (False, s)
      else if x = NullC then map_option (\<lambda>t. (False, t)) (maybeEnd c (s\<lparr>r_ended := True\<rparr>))
      else
        let s1 = put_chunk x s
        in map_option below_mark
             (if flows s1 then emitData c n s1
              else if 0 < r_readers s1 then fire c EvReadable s1
              else Some s1))"

text \<open>\<open>read(size)\<close>; the size matters only when it is 0.\<close>

definition read_chunk :: "'w reactor \<Rightarrow> nat option \<Rightarrow> 'w rstate \<Rightarrow> (chunk option \<times> 'w rstate) option" where
  "read_chunk c sz s =
     (if sz = Some 0 then Some (None, s)
      else if is_empty s \<and> r_ended s then
        map_option (\<lambda>t. (None, t))
          (if \<not> r_endEmitted s then fire c EvEnd (s\<lparr>r_endEmitted := True\<rparr>) else Some s)
      else
        Option.bind (if is_empty s then call_read c s else Some s)
          (\<lambda>s1. case take_chunk s1 of
              None \<Rightarrow> Some (None, s1)
            | Some (x, s2) \<Rightarrow> map_option (\<lambda>t. (Some x, noted (Returned x) t)) (maybeEnd c (noted (Taken x) s2))))"

definition pause :: "'w reactor \<Rightarrow> 'w rstate \<Rightarrow> 'w rstate option" where
  "pause c s = (if r_flowing s \<noteq> Some False then fire c EvPause (s\<lparr>r_flowing := Some False\<rparr>) else Some s)"

definition schedule :: "microtask \<Rightarrow> 'w rstate \<Rightarrow> 'w rstate" where
  "schedule m s = s\<lparr>r_microtasks := r_microtasks s @ [m]\<rparr>"

definition resume :: "'w reactor \<Rightarrow> 'w rstate \<Rightarrow> 'w rstate option" where
  "resume c s =
     (if \<not> flows s then map_option (schedule Flow) (fire c EvResume (s\<lparr>r_flowing := Some True\<rparr>)) else Some s)"

definition destroy_readable :: "'w reactor \<Rightarrow> nat option \<Rightarrow> 'w rstate \<Rightarrow> 'w rstate option" where
  "destroy_readable c e s =
     (if r_destroyed s then Some s
      else let s1 = s\<lparr>r_destroyed := True, r_ended := True\<rparr>
           in if r_customDestroy s1 then fire c (DestroyCall e) s1 else Some (schedule (Closing e) s1))"

definition on_data :: "'w reactor \<Rightarrow> 'w rstate \<Rightarrow> 'w rstate option" where
  "on_data c s = (if \<not> flows s then resume c s else Some s)"

definition on_readable :: "'w rstate \<Rightarrow> 'w rstate" where
  "on_readable s =
     (let t = s\<lparr>r_readers := Suc (r_readers s)\<rparr>
      in if r_flowing t = None then t\<lparr>r_flowing := Some False\<rparr> else t)"

definition setEncoding :: "string \<Rightarrow> 'w rstate \<Rightarrow> 'w rstate" where
  "setEncoding enc s = s\<lparr>r_encoding := Some enc\<rparr>"

text \<open>\<open>next()\<close> of the asynchronous iterator, and its \<open>return()\<close>.\<close>

definition iterator_next :: "'w reactor \<Rightarrow> 'w rstate \<Rightarrow> 'w rstate option" where
  "iterator_next c s =
     on_data c (s\<lparr>r_calls := Suc (r_calls s), r_waiting := r_waiting s @ [r_calls s]\<rparr>)"

definition iterator_return :: "'w reactor \<Rightarrow> 'w rstate \<Rightarrow> 'w rstate option" where
  "iterator_return c s = destroy_readable c None s"

section \<open>Listeners, microtasks and runs\<close>

datatype 'w rop =
    RPush chunk | RRead "nat option" | RPause | RResume | RDestroy "nat option" | RDestroyed "nat option"
  | ROnData | ROnReadable | ROffReadable | RSetEncoding string | RNext | RReturn | RWorld "'w \<Rightarrow> 'w"

fun r_perform :: "'w reactor \<Rightarrow> nat \<Rightarrow> 'w rop \<Rightarrow> 'w rstate \<Rightarrow> 'w rstate option" where
  "r_perform c n (RPush x) s = map_option snd (push_chunk c n x s)"
| "r_perform c n (RRead sz) s = map_option snd (read_chunk c sz s)"
| "r_perform c n RPause s = pause c s"
| "r_perform c n RResume s = resume c s"
| "r_perform c n (RDestroy e) s = destroy_readable c e s"
| "r_perform c n (RDestroyed e) s = Some (schedule (Closing e) s)"
| "r_perform c n ROnData s = on_data c s"
| "r_perform c n ROnReadable s = Some (on_readable s)"
| "r_perform c n ROffReadable s = Some (s\<lparr>r_readers := r_readers s - 1\<rparr>)"
| "r_perform c n (RSetEncoding enc) s = Some (setEncoding enc s)"
| "r_perform c n RNext s = iterator_next c s"
| "r_perform c n RReturn s = iterator_return c s"
| "r_perform c n (RWorld f) s = Some (s\<lparr>r_world := f (r_world s)\<rparr>)"

fun r_ops :: "'w reactor \<Rightarrow> nat \<Rightarrow> 'w rop list \<Rightarrow> 'w rstate \<Rightarrow> 'w rstate option" where
  "r_ops c n [] s = Some s"
| "r_ops c n (x # xs) s = Option.bind (r_perform c n x s) (r_ops c n xs)"

type_synonym 'w listeners = "revent \<Rightarrow> 'w rstate \<Rightarrow> 'w rop list"

text \<open>The listeners of an event run with one frame less of the stack.\<close>

fun react :: "'w listeners \<Rightarrow> nat \<Rightarrow> 'w reactor" where
  "react beh 0 ev s = None"
| "react beh (Suc k) ev s = r_ops (react beh k) k (beh ev s) s"

definition microtask :: "'w reactor \<Rightarrow> nat \<Rightarrow> 'w rstate \<Rightarrow> 'w rstate option" where
  "microtask c n s =
     (case r_microtasks s of
        [] \<Rightarrow> Some s
      | m # ms \<Rightarrow>
          let s1 = s\<lparr>r_microtasks := ms\<rparr>
          in case m of
               Flow \<Rightarrow> if flows s1 then emitData c n s1 else Some s1
             | Closing e \<Rightarrow>
                 Option.bind (case e of Some x \<Rightarrow> fire c (EvErr x) s1 | None \<Rightarrow> Some s1) (fire c EvClosed))"

datatype 'w rstep = Op "'w rop" | Micro

definition r_step :: "'w listeners \<Rightarrow> nat \<Rightarrow> 'w rstep \<Rightarrow> 'w rstate \<Rightarrow> 'w rstate option" where
  "r_step beh k x s =
     (case x of Op o' \<Rightarrow> r_perform (react beh k) k o' s | Micro \<Rightarrow> microtask (react beh k) k s)"

fun r_run :: "'w listeners \<Rightarrow> nat \<Rightarrow> 'w rstep list \<Rightarrow> 'w rstate \<Rightarrow> 'w rstate option" where
  "r_run beh k [] s = Some s"
| "r_run beh k (x # xs) s = Option.bind (r_step beh k x s) (r_run beh k xs)"

end
