(* ===== verification/Readable_Props.thy ===== *)
theory Readable_Props
  imports Readable
begin

text \<open>
  What a readable stream guarantees whatever its listeners and its source do: chunks leave in the
  order in which they were pushed, the end is reported once and last. An interface names the
  changes of state the operations are made of and what keeps an invariant across them; the
  invariant of the stream provides it.
\<close>

section \<open>Invariants across the operations\<close>

definition kept :: "('w rstate \<Rightarrow> bool) \<Rightarrow> ('w rstate \<Rightarrow> 'w rstate option) \<Rightarrow> bool" where
  "kept J m \<longleftrightarrow> (\<forall>s t. J s \<longrightarrow> m s = Some t \<longrightarrow> J t)"

lemma keptD: "kept J m \<Longrightarrow> J s \<Longrightarrow> m s = Some t \<Longrightarrow> J t"
  by (simp add: kept_def)

definition neutral :: "revent \<Rightarrow> bool" where
  "neutral ev = (case ev of EvData _ \<Rightarrow> False | Taken _ \<Rightarrow> False | Returned _ \<Rightarrow> False | Pushed _ \<Rightarrow> False | EvEnd \<Rightarrow> False | _ \<Rightarrow> True)"

definition changes_world :: "'w rop \<Rightarrow> bool" where
  "changes_world x = (case x of RWorld _ \<Rightarrow> True | _ \<Rightarrow> False)"

text \<open>
  What an invariant needs: every event that is fired keeps it once its listeners have run, and so
  do the changes of state between the events.
\<close>

locale reader_keeper =
  fixes J :: "'w rstate \<Rightarrow> bool" and c :: "'w reactor"
  assumes fire_neutral: "neutral ev \<Longrightarrow> J s \<Longrightarrow> fire c ev s = Some t \<Longrightarrow> J t"
    and fire_data: "J s \<Longrightarrow> take_chunk s = Some (x, u) \<Longrightarrow> fire c (EvData x) u = Some t \<Longrightarrow> J t"
    and fire_end: "J s \<Longrightarrow> r_ended s \<Longrightarrow> is_empty s \<Longrightarrow> \<not> r_endEmitted s \<Longrightarrow>
      fire c EvEnd (s\<lparr>r_endEmitted := True\<rparr>) = Some t \<Longrightarrow> J t"
    and J_put: "J s \<Longrightarrow> \<not> r_ended s \<Longrightarrow> J (put_chunk x s)"
    and J_read: "J s \<Longrightarrow> take_chunk s = Some (x, u) \<Longrightarrow> maybeEnd c (noted (Taken x) u) = Some t \<Longrightarrow>
      J (noted (Returned x) t)"
    and J_fields: "J s \<Longrightarrow> J (s\<lparr>r_flowing := f\<rparr>)" "J s \<Longrightarrow> J (s\<lparr>r_reading := b\<rparr>)"
      "J s \<Longrightarrow> J (s\<lparr>r_readers := n\<rparr>)" "J s \<Longrightarrow> J (s\<lparr>r_microtasks := ms\<rparr>)"
      "J s \<Longrightarrow> J (s\<lparr>r_calls := n, r_waiting := ps\<rparr>)" "J s \<Longrightarrow> J (s\<lparr>r_encoding := enc\<rparr>)"
      "J s \<Longrightarrow> J (s\<lparr>r_ended := True\<rparr>)" "J s \<Longrightarrow> J (s\<lparr>r_destroyed := True, r_ended := True\<rparr>)"
begin

lemma neutral_events [simp]:
  "neutral EvReadable" "neutral EvPause" "neutral EvResume" "neutral (EvErr e)" "neutral EvClosed"
  "neutral (ReadCall h)" "neutral (DestroyCall d)"
  by (simp_all add: neutral_def)

lemma call_read_kept:
  assumes "J s" "call_read c s = Some t"
  shows "J t"
proof -
  obtain u where u: "fire c (ReadCall (r_highWaterMark s)) (s\<lparr>r_reading := True\<rparr>) = Some u"
    "t = u\<lparr>r_reading := False\<rparr>" using assms(2) by (auto simp: call_read_def)
  have "J u" by (rule fire_neutral [OF _ J_fields(2) [OF assms(1)] u(1)]) simp
  then show ?thesis unfolding u(2) by (rule J_fields)
qed

lemma maybeEnd_kept: "J s \<Longrightarrow> maybeEnd c s = Some t \<Longrightarrow> J t"
  unfolding maybeEnd_def using fire_end by (auto split: if_splits)

lemma drain_kept: "J s \<Longrightarrow> drain c n s = Some t \<Longrightarrow> J t"
proof (induction n arbitrary: s)
  case (Suc n)
  show ?case
  proof (cases "flows s \<and> \<not> is_empty s \<and> take_chunk s \<noteq> None")
    case True
    then obtain x s1 where x: "take_chunk s = Some (x, s1)" by auto
    with True Suc.prems obtain u where u: "fire c (EvData x) s1 = Some u"
      "(if flows u then drain c n u else Some u) = Some t"
      by (auto simp: bind_eq_Some_conv)
    have "J u" by (rule fire_data [OF Suc.prems(1) x u(1)])
    then show ?thesis using u(2) Suc.IH by (auto split: if_splits)
  next
    case False
    then have "flows s \<and> \<not> is_empty s \<Longrightarrow> take_chunk s = None" by (cases "take_chunk s") auto
    with Suc.prems show ?thesis by (simp split: if_splits)
  qed
qed simp

lemma emitData_kept: "J s \<Longrightarrow> emitData c n s = Some t \<Longrightarrow> J t"
proof (induction n arbitrary: s)
  case (Suc n)
  from Suc.prems(2) obtain s1 s2 where
    s1: "(if wants_data s then call_read c s else Some s) = Some s1" and
    s2: "drain c (Suc n) s1 = Some s2" and
    t: "(if wants_data s2
         then Option.bind (call_read c s2) (\<lambda>s3. if \<not> is_empty s3 then emitData c n s3 else maybeEnd c s3)
         else maybeEnd c s2) = Some t"
    by (auto simp: bind_eq_Some_conv simp del: drain.simps)
  have "J s1" using s1 Suc.prems(1) call_read_kept by (auto split: if_splits)
  then have J2: "J s2" using s2 by (rule drain_kept)
  show ?case
  proof (cases "wants_data s2")
    case True
    with t obtain s3 where "call_read c s2 = Some s3"
      "(if \<not> is_empty s3 then emitData c n s3 else maybeEnd c s3) = Some t"
      by (auto simp: bind_eq_Some_conv)
    moreover from this call_read_kept J2 have "J s3" by blast
    ultimately show ?thesis using Suc.IH maybeEnd_kept by (auto split: if_splits)
  next
    case False
    with t J2 maybeEnd_kept show ?thesis by auto
  qed
qed simp

lemma push_kept:
  assumes "J s" "push_chunk c n x s = Some (b, t)"
  shows "J t"
proof (cases "r_ended s")
  case False
  show ?thesis
  proof (cases "x = NullC")
    case True
    then show ?thesis using assms False maybeEnd_kept [OF J_fields(7) [OF assms(1)]]
      by (auto simp: push_chunk_def)
  next
    case x: False
    let ?s = "put_chunk x s"
    have J1: "J ?s" by (rule J_put [OF assms(1) False])
    from assms(2) False x have "(if flows ?s then emitData c n ?s
        else if 0 < r_readers ?s then fire c EvReadable ?s else Some ?s) = Some t"
      by (simp add: push_chunk_def Let_def below_mark_def)
    then consider "emitData c n ?s = Some t" | "fire c EvReadable ?s = Some t" | "t = ?s"
      by (cases "flows ?s"; cases "0 < r_readers ?s") simp_all
    then show ?thesis
    proof cases
      case 1
      with J1 show ?thesis by (rule emitData_kept)
    next
      case 2
      with J1 show ?thesis by (rule fire_neutral [rotated]) simp
    qed (use J1 in simp)
  qed
qed (use assms in \<open>simp add: push_chunk_def\<close>)

lemma end_kept: "J s \<Longrightarrow> is_empty s \<Longrightarrow> r_ended s \<Longrightarrow>
  (if \<not> r_endEmitted s then fire c EvEnd (s\<lparr>r_endEmitted := True\<rparr>) else Some s) = Some t \<Longrightarrow> J t"
  using maybeEnd_kept [of s t] by (simp add: maybeEnd_def split: if_splits)

lemma read_kept:
  assumes "J s" "read_chunk c sz s = Some (r, t)"
  shows "J t"
proof -
  consider "sz = Some 0" | "sz \<noteq> Some 0" "is_empty s \<and> r_ended s" | "sz \<noteq> Some 0" "\<not> (is_empty s \<and> r_ended s)"
    by blast
  then show ?thesis
  proof cases
    case 1
    with assms show ?thesis by (simp add: read_chunk_def)
  next
    case 2
    with assms end_kept show ?thesis by (auto simp: read_chunk_def)
  next
    case 3
    with assms(2) obtain s1 where s1: "(if is_empty s then call_read c s else Some s) = Some s1"
      "(case take_chunk s1 of None \<Rightarrow> Some (None, s1)
        | Some (x, s2) \<Rightarrow> map_option (\<lambda>t. (Some x, noted (Returned x) t)) (maybeEnd c (noted (Taken x) s2))) = Some (r, t)"
      by (auto simp: read_chunk_def bind_eq_Some_conv)
    have J1: "J s1" using s1(1) assms(1) call_read_kept by (auto split: if_splits)
    then show ?thesis using s1(2) J_read [OF J1] by (auto split: option.splits)
  qed
qed

lemma pause_kept: "J s \<Longrightarrow> pause c s = Some t \<Longrightarrow> J t"
  unfolding pause_def using fire_neutral [of EvPause] J_fields(1) by (auto split: if_splits)

lemma schedule_kept: "J s \<Longrightarrow> J (schedule m s)"
  unfolding schedule_def by (rule J_fields)

lemma resume_kept:
  assumes "J s" "resume c s = Some t"
  shows "J t"
proof (cases "flows s")
  case False
  with assms(2) obtain u where u: "fire c EvResume (s\<lparr>r_flowing := Some True\<rparr>) = Some u" "t = schedule Flow u"
    by (auto simp: resume_def)
  have "J u" by (rule fire_neutral [OF _ J_fields(1) [OF assms(1)] u(1)]) simp
  then show ?thesis unfolding u(2) by (rule schedule_kept)
qed (use assms in \<open>simp add: resume_def\<close>)

lemma destroy_kept:
  assumes "J s" "destroy_readable c e s = Some t"
  shows "J t"
proof (cases "r_destroyed s")
  case False
  let ?s = "s\<lparr>r_destroyed := True, r_ended := True\<rparr>"
  have J1: "J ?s" by (rule J_fields(8) [OF assms(1)])
  show ?thesis
  proof (cases "r_customDestroy s")
    case True
    with assms(2) False have "fire c (DestroyCall e) ?s = Some t" by (simp add: destroy_readable_def)
    with J1 show ?thesis by (rule fire_neutral [rotated]) simp
  next
    case no: False
    with assms(2) False have "t = schedule (Closing e) ?s" by (simp add: destroy_readable_def)
    with schedule_kept [OF J1] show ?thesis by simp
  qed
qed (use assms in \<open>simp add: destroy_readable_def\<close>)

lemma on_data_kept: "J s \<Longrightarrow> on_data c s = Some t \<Longrightarrow> J t"
  unfolding on_data_def using resume_kept by (auto split: if_splits)

lemma on_readable_kept: "J s \<Longrightarrow> J (on_readable s)"
  using J_fields(1) [OF J_fields(3)] J_fields(3) by (simp add: on_readable_def Let_def)

lemma perform_kept: "J s \<Longrightarrow> \<not> changes_world x \<Longrightarrow> r_perform c n x s = Some t \<Longrightarrow> J t"
  by (cases x) (auto simp: changes_world_def setEncoding_def iterator_next_def iterator_return_def
      intro: push_kept read_kept pause_kept resume_kept destroy_kept on_data_kept on_readable_kept
        schedule_kept J_fields)

lemma ops_kept: "J s \<Longrightarrow> list_all (\<lambda>x. \<not> changes_world x) xs \<Longrightarrow> r_ops c n xs s = Some t \<Longrightarrow> J t"
  by (induction xs arbitrary: s) (auto simp: bind_eq_Some_conv intro: perform_kept)

lemma microtask_kept:
  assumes "J s" "microtask c n s = Some t"
  shows "J t"
proof (cases "r_microtasks s")
  case (Cons m ms)
  have J1: "J (s\<lparr>r_microtasks := ms\<rparr>)" by (rule J_fields(4) [OF assms(1)])
  show ?thesis
  proof (cases m)
    case Flow
    then show ?thesis using assms(2) Cons J1 emitData_kept by (auto simp: microtask_def Let_def split: if_splits)
  next
    case (Closing e)
    with assms(2) Cons obtain u where
      "(case e of Some x \<Rightarrow> fire c (EvErr x) (s\<lparr>r_microtasks := ms\<rparr>) | None \<Rightarrow> Some (s\<lparr>r_microtasks := ms\<rparr>)) = Some u"
      "fire c EvClosed u = Some t" by (auto simp: microtask_def Let_def bind_eq_Some_conv)
    moreover from this(1) have "J u"
      using J1 fire_neutral [of "EvErr (the e)"] by (cases e) auto
    ultimately show ?thesis using fire_neutral [of EvClosed] by auto
  qed
qed (use assms in \<open>simp add: microtask_def\<close>)

end

section \<open>The invariant of the stream\<close>

definition taken :: "revent list \<Rightarrow> chunk list" where
  "taken l = concat (map (\<lambda>ev. case ev of EvData x \<Rightarrow> [x] | Taken x \<Rightarrow> [x] | _ \<Rightarrow> []) l)"

definition pushed :: "revent list \<Rightarrow> chunk list" where
  "pushed l = concat (map (\<lambda>ev. case ev of Pushed x \<Rightarrow> [x] | _ \<Rightarrow> []) l)"

text \<open>The part of the history from the end event on.\<close>

definition from_end :: "revent list \<Rightarrow> revent list" where
  "from_end l = dropWhile (\<lambda>ev. ev \<noteq> EvEnd) l"

definition emitted :: "revent list \<Rightarrow> chunk list" where
  "emitted l = concat (map (\<lambda>ev. case ev of EvData x \<Rightarrow> [x] | _ \<Rightarrow> []) l)"

text \<open>What consumers have got: chunks emitted to listeners and chunks returned to callers of \<open>read\<close>.\<close>

definition delivered :: "revent list \<Rightarrow> chunk list" where
  "delivered l = concat (map (\<lambda>ev. case ev of EvData x \<Rightarrow> [x] | Returned x \<Rightarrow> [x] | _ \<Rightarrow> []) l)"

definition stream_inv :: "'w rstate \<Rightarrow> bool" where
  "stream_inv s \<longleftrightarrow> dq_inv (r_buffer s)
     \<and> taken (r_log s) @ dq_list (r_buffer s) = pushed (r_log s)
     \<and> (if r_endEmitted s then r_ended s \<and> dq_list (r_buffer s) = [] \<and> EvEnd \<in> set (r_log s)
          \<and> taken (from_end (r_log s)) = [] \<and> pushed (from_end (r_log s)) = []
          \<and> EvEnd \<notin> set (tl (from_end (r_log s)))
        else EvEnd \<notin> set (r_log s))"

text \<open>
  The chunk \<open>read\<close> has taken but not returned yet, if any: it is the last one, and the end has been
  emitted meanwhile.
\<close>

definition gap_inv :: "chunk list \<Rightarrow> 'w rstate \<Rightarrow> bool" where
  "gap_inv g s \<longleftrightarrow> stream_inv s \<and> taken (r_log s) = delivered (r_log s) @ g \<and> (g \<noteq> [] \<longrightarrow> r_endEmitted s)
     \<and> (r_endEmitted s \<longrightarrow> length (delivered (from_end (r_log s)) @ g) \<le> 1)"

lemma delivered_simps [simp]:
  "delivered [] = []" "delivered (l @ l') = delivered l @ delivered l'"
  "delivered [EvData x] = [x]" "delivered [Taken x] = []" "delivered [Returned x] = [x]" "delivered [Pushed x] = []"
  "delivered [EvEnd] = []" "neutral ev \<Longrightarrow> delivered [ev] = []"
  by (simp_all add: delivered_def neutral_def split: revent.splits)

lemma delivered_end [simp]: "delivered (EvEnd # l) = delivered l"
  by (simp add: delivered_def)

lemma history_simps [simp]:
  "taken [] = []" "pushed [] = []" "taken [Returned x] = []" "pushed [Returned x] = []"
  "taken (l @ l') = taken l @ taken l'" "pushed (l @ l') = pushed l @ pushed l'"
  "taken [EvData x] = [x]" "taken [Taken x] = [x]" "taken [Pushed x] = []" "taken [EvEnd] = []"
  "pushed [EvData x] = []" "pushed [Taken x] = []" "pushed [Pushed x] = [x]" "pushed [EvEnd] = []"
  by (simp_all add: taken_def pushed_def)

lemma history_end [simp]: "taken (EvEnd # l) = taken l" "pushed (EvEnd # l) = pushed l"
  by (simp_all add: taken_def pushed_def)

lemma history_neutral [simp]: "neutral ev \<Longrightarrow> taken [ev] = []" "neutral ev \<Longrightarrow> pushed [ev] = []" "neutral ev \<Longrightarrow> ev \<noteq> EvEnd"
  by (cases ev; simp add: taken_def pushed_def neutral_def)+

lemma end_not_neutral [simp]: "\<not> neutral EvEnd"
  by (simp add: neutral_def)

lemma from_end_append: "EvEnd \<in> set l \<Longrightarrow> from_end (l @ l') = from_end l @ l'"
  by (simp add: from_end_def)

lemma from_end_first: "EvEnd \<notin> set l \<Longrightarrow> from_end (l @ [EvEnd]) = [EvEnd]"
  unfolding from_end_def by (induction l) auto

lemma from_end_nonempty: "EvEnd \<in> set l \<Longrightarrow> from_end l \<noteq> []"
  unfolding from_end_def by (induction l) auto

lemma noted_sel [simp]:
  "r_log (noted ev s) = r_log s @ [ev]" "r_buffer (noted ev s) = r_buffer s"
  "r_ended (noted ev s) = r_ended s" "r_endEmitted (noted ev s) = r_endEmitted s"
  "r_flowing (noted ev s) = r_flowing s" "r_length (noted ev s) = r_length s"
  "r_highWaterMark (noted ev s) = r_highWaterMark s" "r_reading (noted ev s) = r_reading s"
  "r_world (noted ev s) = r_world s" "r_readers (noted ev s) = r_readers s"
  by (simp_all add: noted_def Let_def split: option.split)

lemma is_empty_list: "is_empty s \<longleftrightarrow> dq_list (r_buffer s) = []"
  by (simp add: is_empty_def dq_length_def dq_size_0)

lemma take_chunk_list:
  assumes "dq_inv (r_buffer s)" "take_chunk s = Some (x, t)"
  shows "dq_inv (r_buffer t)" "dq_list (r_buffer s) = x # dq_list (r_buffer t)"
    "r_log t = r_log s" "r_ended t = r_ended s" "r_endEmitted t = r_endEmitted s"
proof -
  obtain b where b: "dq_shift (r_buffer s) = (Some x, b)"
    "t = s\<lparr>r_buffer := b, r_length := r_length s - done_len (r_objectMode s) x\<rparr>"
    using assms(2) by (auto simp: take_chunk_def split: prod.splits option.splits)
  then have "dq_size (r_buffer s) \<noteq> 0" by (auto simp: dq_shift_def split: if_splits)
  from dq_shift_inv [OF assms(1) this] b show "dq_inv (r_buffer t)"
    "dq_list (r_buffer s) = x # dq_list (r_buffer t)" by auto
  from b show "r_log t = r_log s" "r_ended t = r_ended s" "r_endEmitted t = r_endEmitted s" by auto
qed

lemma inv_neutral: "neutral ev \<Longrightarrow> stream_inv s \<Longrightarrow> stream_inv (noted ev s)"
  using from_end_nonempty [of "r_log s"] by (auto simp: stream_inv_def from_end_append split: if_splits)

lemma inv_put: "stream_inv s \<Longrightarrow> \<not> r_ended s \<Longrightarrow> stream_inv (put_chunk x s)"
  using dq_push_inv [of "r_buffer s" x] by (auto simp: stream_inv_def put_chunk_def split: if_splits)

lemma inv_take:
  assumes "stream_inv s" "take_chunk s = Some (x, t)"
  shows "stream_inv (noted (EvData x) t)" "stream_inv (noted (Taken x) t)"
  using assms(1) take_chunk_list [of s x t] assms(2)
  by (auto simp: stream_inv_def split: if_splits)

lemma inv_end:
  "stream_inv s \<Longrightarrow> r_ended s \<Longrightarrow> is_empty s \<Longrightarrow> \<not> r_endEmitted s \<Longrightarrow>
   stream_inv (noted EvEnd (s\<lparr>r_endEmitted := True\<rparr>))"
  by (simp add: stream_inv_def from_end_first is_empty_list)

lemma inv_returned: "stream_inv s \<Longrightarrow> stream_inv (noted (Returned x) s)"
  using from_end_nonempty [of "r_log s"] by (auto simp: stream_inv_def from_end_append split: if_splits)

lemma stream_keeper: "(\<And>ev. kept stream_inv (c ev)) \<Longrightarrow> reader_keeper stream_inv c"
proof unfold_locales
  assume c: "\<And>ev. kept stream_inv (c ev)"
  have after: "stream_inv (noted ev s) \<Longrightarrow> fire c ev s = Some t \<Longrightarrow> stream_inv t" for ev s t
    using keptD [OF c] by (simp add: fire_def)
  show "stream_inv s \<Longrightarrow> fire c ev s = Some t \<Longrightarrow> stream_inv t" if "neutral ev" for ev s t
    using after inv_neutral [OF that] by blast
  show "stream_inv s \<Longrightarrow> take_chunk s = Some (x, u) \<Longrightarrow> fire c (EvData x) u = Some t \<Longrightarrow> stream_inv t" for s x u t
    using after inv_take(1) by blast
  show ended: "stream_inv s \<Longrightarrow> r_ended s \<Longrightarrow> is_empty s \<Longrightarrow> \<not> r_endEmitted s \<Longrightarrow>
      fire c EvEnd (s\<lparr>r_endEmitted := True\<rparr>) = Some t \<Longrightarrow> stream_inv t" for s t
    using after inv_end by blast
  fix s u t :: "'a rstate" and x
  assume "stream_inv s" "take_chunk s = Some (x, u)" "maybeEnd c (noted (Taken x) u) = Some t"
  moreover from this inv_take(2) have "stream_inv (noted (Taken x) u)" by blast
  ultimately show "stream_inv (noted (Returned x) t)"
    using ended [of "noted (Taken x) u" t] by (intro inv_returned) (simp add: maybeEnd_def split: if_splits)
qed (auto simp: inv_put, auto simp: stream_inv_def)

section \<open>Chunks on their way\<close>

lemma gap_neutral: "neutral ev \<Longrightarrow> gap_inv g s \<Longrightarrow> gap_inv g (noted ev s)"
  using inv_neutral [of ev s] by (auto simp: gap_inv_def stream_inv_def from_end_append)

lemma gap_put: "gap_inv g s \<Longrightarrow> \<not> r_ended s \<Longrightarrow> gap_inv g (put_chunk x s)"
  using inv_put [of s x] by (auto simp: gap_inv_def put_chunk_def stream_inv_def)

lemma gap_take:
  assumes "gap_inv g s" "take_chunk s = Some (x, u)"
  shows "g = []" "\<not> r_endEmitted u" "gap_inv [] (noted (EvData x) u)" "stream_inv (noted (Taken x) u)"
    "taken (r_log u) = delivered (r_log u)"
proof -
  have s: "stream_inv s" using assms(1) by (simp add: gap_inv_def)
  then have u: "r_log u = r_log s" "r_endEmitted u = r_endEmitted s" "\<not> r_endEmitted s"
    using take_chunk_list [OF _ assms(2)] by (auto simp: stream_inv_def)
  then show "g = []" "\<not> r_endEmitted u" using assms(1) by (auto simp: gap_inv_def)
  then show "taken (r_log u) = delivered (r_log u)" using assms(1) u by (simp add: gap_inv_def)
  with inv_take [OF s assms(2)] u show "gap_inv [] (noted (EvData x) u)" "stream_inv (noted (Taken x) u)"
    by (simp_all add: gap_inv_def)
qed

lemma gap_end:
  assumes "gap_inv g s" "r_ended s" "is_empty s" "\<not> r_endEmitted s"
  shows "gap_inv g (noted EvEnd (s\<lparr>r_endEmitted := True\<rparr>))"
  using assms inv_end [of s] by (auto simp: gap_inv_def stream_inv_def from_end_first)

lemma gap_keeper: "(\<And>g ev. kept (gap_inv g) (c ev)) \<Longrightarrow> reader_keeper (gap_inv g) c"
proof unfold_locales
  assume c: "\<And>g ev. kept (gap_inv g) (c ev)"
  have after: "gap_inv h (noted ev s) \<Longrightarrow> fire c ev s = Some t \<Longrightarrow> gap_inv h t" for h ev s t
    using keptD [OF c] by (simp add: fire_def)
  show "gap_inv g s \<Longrightarrow> fire c ev s = Some t \<Longrightarrow> gap_inv g t" if "neutral ev" for ev s t
    using after gap_neutral [OF that] by blast
  show "gap_inv g s \<Longrightarrow> take_chunk s = Some (x, u) \<Longrightarrow> fire c (EvData x) u = Some t \<Longrightarrow> gap_inv g t" for s x u t
    using after [of g] gap_take(1,3) [of g s x u] by auto
  show "gap_inv g s \<Longrightarrow> r_ended s \<Longrightarrow> is_empty s \<Longrightarrow> \<not> r_endEmitted s \<Longrightarrow>
      fire c EvEnd (s\<lparr>r_endEmitted := True\<rparr>) = Some t \<Longrightarrow> gap_inv g t" for s t
    using after gap_end by blast
  fix s u t :: "'a rstate" and x
  assume a: "gap_inv g s" "take_chunk s = Some (x, u)" "maybeEnd c (noted (Taken x) u) = Some t"
  note u = gap_take [OF a(1,2)]
  show "gap_inv g (noted (Returned x) t)"
  proof (cases "r_ended u \<and> is_empty (noted (Taken x) u)")
    case True
    let ?v = "noted EvEnd (noted (Taken x) u\<lparr>r_endEmitted := True\<rparr>)"
    have "stream_inv ?v" using inv_end [OF u(4)] True u(2) by simp
    moreover have "EvEnd \<notin> set (r_log u @ [Taken x])" using u(2,4) by (simp add: stream_inv_def)
    ultimately have "gap_inv [x] ?v"
      using u(5) from_end_first [of "r_log u @ [Taken x]"]
      by (simp add: gap_inv_def) (simp add: taken_def delivered_def)
    moreover have "fire c EvEnd (noted (Taken x) u\<lparr>r_endEmitted := True\<rparr>) = Some t"
      using a(3) True u(2) by (simp add: maybeEnd_def)
    ultimately have t: "gap_inv [x] t" using after by blast
    then have "r_endEmitted t" "stream_inv t" by (simp_all add: gap_inv_def)
    then have "EvEnd \<in> set (r_log t)" by (simp add: stream_inv_def)
    with t inv_returned [of t x] u(1) show ?thesis by (simp add: gap_inv_def from_end_append)
  next
    case False
    then have "t = noted (Taken x) u" using a(3) u(2) by (auto simp: maybeEnd_def)
    with u inv_returned [OF u(4), of x] show ?thesis by (simp add: gap_inv_def) (simp add: taken_def delivered_def)
  qed
next
qed (auto simp: gap_put, auto simp: gap_inv_def stream_inv_def)

lemma any_perform_kept:
  assumes "reader_keeper (gap_inv g) c" "gap_inv g s" "r_perform c n x s = Some t"
  shows "gap_inv g t"
proof (cases "changes_world x")
  case True
  then obtain f where "x = RWorld f" by (cases x) (auto simp: changes_world_def)
  with assms(2,3) show ?thesis by (auto simp: gap_inv_def stream_inv_def)
qed (use reader_keeper.perform_kept [OF assms(1,2)] assms(3) in blast)

lemma react_kept: "kept (gap_inv g) (react beh k ev)"
proof (induction k arbitrary: g ev)
  case 0
  show ?case by (simp add: kept_def)
next
  case (Suc k)
  have "reader_keeper (gap_inv g) (react beh k)" by (rule gap_keeper) (rule Suc)
  note one = any_perform_kept [OF this]
  have "gap_inv g s \<Longrightarrow> r_ops (react beh k) k xs s = Some t \<Longrightarrow> gap_inv g t" for xs s t
  proof (induction xs arbitrary: s)
    case (Cons x xs)
    then obtain u where "r_perform (react beh k) k x s = Some u" "r_ops (react beh k) k xs u = Some t"
      by (auto simp: bind_eq_Some_conv)
    with Cons one show ?case by blast
  qed simp
  then show ?case by (auto simp: kept_def)
qed

interpretation stream: reader_keeper "gap_inv g" "react beh k" for g beh k
  by (rule gap_keeper [OF react_kept])

lemma run_inv: "gap_inv g s \<Longrightarrow> r_run beh k xs s = Some t \<Longrightarrow> gap_inv g t"
proof (induction xs arbitrary: s)
  case (Cons x xs)
  then obtain u where "r_step beh k x s = Some u" "r_run beh k xs u = Some t"
    by (auto simp: bind_eq_Some_conv)
  moreover from this(1) have "gap_inv g u"
    using Cons.prems(1) any_perform_kept [OF stream.reader_keeper_axioms] stream.microtask_kept
    by (cases x) (auto simp: r_step_def)
  ultimately show ?case using Cons.IH by blast
qed simp

lemma new_inv: "stream_inv (new_readable hwm om cd w)"
  by (simp add: stream_inv_def new_readable_def)

lemma new_gap: "gap_inv [] (new_readable hwm om cd w)"
  by (simp add: gap_inv_def new_inv) (simp add: new_readable_def)

text \<open>
  C10. Whatever the listeners and the source do, chunks leave the stream in the order in which
  \<open>push\<close> accepted them, none lost or repeated: those emitted to listeners or returned by \<open>read\<close>,
  followed by those buffered, are those pushed. The end is emitted at most once; after it nothing
  is emitted and nothing accepted, and at most one chunk, the last, is still returned - by the call
  of \<open>read\<close> that emitted the end before it returned.
\<close>

theorem readable_fifo:
  assumes "r_run beh k xs (new_readable hwm om cd w) = Some t"
  shows "delivered (r_log t) @ dq_list (r_buffer t) = pushed (r_log t)
     \<and> (if r_endEmitted t
        then \<exists>pre post. r_log t = pre @ EvEnd # post \<and> EvEnd \<notin> set pre \<and> EvEnd \<notin> set post
               \<and> emitted post = [] \<and> pushed post = [] \<and> length (delivered post) \<le> 1
               \<and> delivered pre @ delivered post = pushed pre
        else EvEnd \<notin> set (r_log t))"
proof -
  have gap: "gap_inv [] t" by (rule run_inv [OF new_gap assms])
  then have inv: "stream_inv t" and d: "taken (r_log t) = delivered (r_log t)" by (simp_all add: gap_inv_def)
  have "\<exists>pre post. r_log t = pre @ EvEnd # post \<and> EvEnd \<notin> set pre \<and> EvEnd \<notin> set post
      \<and> emitted post = [] \<and> pushed post = [] \<and> length (delivered post) \<le> 1
      \<and> delivered pre @ delivered post = pushed pre" if e: "r_endEmitted t"
  proof -
    define pre where "pre = takeWhile (\<lambda>ev. ev \<noteq> EvEnd) (r_log t)"
    have "EvEnd \<in> set (r_log t)" using inv e by (simp add: stream_inv_def)
    then obtain post where post: "from_end (r_log t) = EvEnd # post"
      using hd_dropWhile [of "\<lambda>ev. ev \<noteq> EvEnd" "r_log t"]
      by (cases "from_end (r_log t)") (auto simp: from_end_def)
    have l: "r_log t = pre @ [EvEnd] @ post"
      using takeWhile_dropWhile_id [of "\<lambda>ev. ev \<noteq> EvEnd" "r_log t", symmetric] post
      unfolding pre_def from_end_def by (metis append_Cons append_Nil)
    have "EvEnd \<notin> set pre" unfolding pre_def by (auto dest: set_takeWhileD)
    moreover have p: "taken post = []" "pushed post = []" "EvEnd \<notin> set post" "length (delivered post) \<le> 1"
      using inv gap e post history_simps(5,6) [of "[EvEnd]" post] by (auto simp: stream_inv_def gap_inv_def)
    moreover from p(1) have "emitted post = []"
      unfolding emitted_def taken_def by (induction post) (auto split: revent.splits)
    moreover from p have "delivered pre @ delivered post = pushed pre"
      using inv e l d by (auto simp: stream_inv_def)
    ultimately show ?thesis using l by auto
  qed
  with inv d show ?thesis by (auto simp: stream_inv_def)
qed

definition idle_listeners :: "'w listeners" where
  "idle_listeners ev s = []"

lemma readable_fifo_witness:
  "\<exists>t. r_run idle_listeners 3 [Op (RPush (BytesC [7])), Op ROnData, Micro, Op (RPush NullC)]
        (new_readable None False False ()) = Some t \<and> delivered (r_log t) = [BytesC [7]] \<and> r_endEmitted t"
proof -
  let ?r = "r_run idle_listeners 3 [Op (RPush (BytesC [7])), Op ROnData, Micro, Op (RPush NullC)]
        (new_readable None False False ())"
  have ok: "map_option (\<lambda>t. (dq_list (r_buffer t), pushed (r_log t), r_endEmitted t)) ?r = Some ([], [BytesC [7]], True)"
    by code_simp
  then obtain t where t: "?r = Some t" by (cases ?r) auto
  with ok readable_fifo [OF t] show ?thesis by auto
qed

section \<open>A flowing stream delivers\<close>

text \<open>
  Listeners that leave the stream alone, and a source that answers a call of \<open>_read\<close> by pushing
  what it likes before it returns: nothing, some chunks, the end.
\<close>

definition asked_source :: "('w rstate \<Rightarrow> chunk list) \<Rightarrow> 'w listeners" where
  "asked_source src ev s = (case ev of ReadCall h \<Rightarrow> map RPush (src s) | _ \<Rightarrow> [])"

text \<open>What the flow loop relies on: after \<open>_read\<close> the stream still flows and has nothing buffered.\<close>

definition flowing_empty :: "'w rstate \<Rightarrow> bool" where
  "flowing_empty s \<longleftrightarrow> stream_inv s \<and> flows s \<and> is_empty s"

definition after_push :: "'w rstate \<Rightarrow> 'w rstate \<Rightarrow> bool" where
  "after_push s t \<longleftrightarrow> flowing_empty t \<and> r_reading t = r_reading s \<and> prefix (pushed (r_log s)) (pushed (r_log t))
     \<and> (r_ended s \<longrightarrow> r_ended t)"

locale calm_listeners =
  fixes c :: "'w reactor"
  assumes calm: "(\<And>h. ev \<noteq> ReadCall h) \<Longrightarrow> c ev s = Some s"
begin

lemma fire_calm: "(\<And>h. ev \<noteq> ReadCall h) \<Longrightarrow> fire c ev s = Some (noted ev s)"
  by (simp add: fire_def calm)

lemma maybeEnd_calm:
  "\<exists>t. maybeEnd c s = Some t \<and> r_buffer t = r_buffer s \<and> pushed (r_log t) = pushed (r_log s)
     \<and> r_ended t = r_ended s \<and> r_flowing t = r_flowing s \<and> r_reading t = r_reading s
     \<and> (stream_inv s \<longrightarrow> stream_inv t) \<and> (r_ended s \<and> is_empty s \<longrightarrow> r_endEmitted t)"
  using inv_end [of s] by (auto simp: maybeEnd_def fire_calm)

lemma drain_calm:
  "stream_inv s \<Longrightarrow> flows s \<Longrightarrow> length (dq_list (r_buffer s)) < n \<Longrightarrow>
   \<exists>t. drain c n s = Some t \<and> flowing_empty t \<and> r_ended t = r_ended s \<and> r_reading t = r_reading s
       \<and> pushed (r_log t) = pushed (r_log s)"
proof (induction n arbitrary: s)
  case (Suc n)
  show ?case
  proof (cases "is_empty s")
    case True
    with Suc.prems show ?thesis by (simp add: flowing_empty_def)
  next
    case False
    have inv: "dq_inv (r_buffer s)" using Suc.prems(1) by (simp add: stream_inv_def)
    have "dq_size (r_buffer s) \<noteq> 0" using False by (simp add: is_empty_def dq_length_def)
    from dq_shift_inv(3) [OF inv this] obtain x u where u: "take_chunk s = Some (x, u)"
      by (cases "dq_shift (r_buffer s)") (auto simp: take_chunk_def)
    have fl: "flows (noted (EvData x) u)" "r_reading u = r_reading s"
      using u Suc.prems(2) by (auto simp: flows_def take_chunk_def split: prod.splits option.splits)
    obtain t where "drain c n (noted (EvData x) u) = Some t" "flowing_empty t" "r_ended t = r_ended u"
      "r_reading t = r_reading u" "pushed (r_log t) = pushed (r_log u)"
      using Suc.IH [OF inv_take(1) [OF Suc.prems(1) u] fl(1)] take_chunk_list(2) [OF inv u] Suc.prems(3)
      by auto
    with take_chunk_list(3,4) [OF inv u] show ?thesis
      using Suc.prems(2) False u fl by (simp add: fire_calm)
  qed
qed simp

text \<open>While \<open>_read\<close> is in progress the loop emits what is buffered and does not ask again.\<close>

lemma emitData_reading:
  assumes "stream_inv s" "flows s" "length (dq_list (r_buffer s)) < n" "r_reading s"
  shows "\<exists>t. emitData c n s = Some t \<and> flowing_empty t \<and> r_ended t = r_ended s \<and> r_reading t
    \<and> pushed (r_log t) = pushed (r_log s)"
proof -
  obtain m where m: "n = Suc m" using assms(3) by (cases n) auto
  obtain u where u: "drain c n s = Some u" "flowing_empty u" "r_ended u = r_ended s" "r_reading u = r_reading s"
    "pushed (r_log u) = pushed (r_log s)"
    using drain_calm [OF assms(1-3)] by blast
  have "\<not> wants_data s" "\<not> wants_data u" using assms(4) u(4) by (simp_all add: wants_data_def)
  then have "emitData c n s = maybeEnd c u" using u(1) unfolding m by (simp del: drain.simps)
  with maybeEnd_calm [of u] u assms(4) show ?thesis by (auto simp: flowing_empty_def flows_def is_empty_def)
qed

lemma push_calm:
  assumes "flowing_empty s" "r_reading s" "2 \<le> n"
  shows "\<exists>b t. push_chunk c n x s = Some (b, t) \<and> after_push s t"
proof (cases "r_ended s")
  case True
  with assms show ?thesis by (auto simp: push_chunk_def after_push_def)
next
  case False
  show ?thesis
  proof (cases "x = NullC")
    case True
    have "stream_inv (s\<lparr>r_ended := True\<rparr>)"
      using assms(1) False by (simp add: flowing_empty_def stream_inv_def split: if_splits)
    with maybeEnd_calm [of "s\<lparr>r_ended := True\<rparr>"] True False assms(1) show ?thesis
      by (auto simp: push_chunk_def after_push_def flowing_empty_def flows_def is_empty_def)
  next
    case x: False
    let ?s = "put_chunk x s"
    have inv: "stream_inv ?s" using inv_put [of s x] assms(1) False by (simp add: flowing_empty_def)
    have p: "flows ?s" "r_reading ?s = r_reading s" "r_ended ?s = r_ended s" "pushed (r_log ?s) = pushed (r_log s) @ [x]"
      "length (dq_list (r_buffer ?s)) = 1"
      using assms(1) dq_push_inv [of "r_buffer s" x]
      by (auto simp: put_chunk_def flows_def flowing_empty_def is_empty_list stream_inv_def)
    from emitData_reading [OF inv p(1), of n] p(2,5) assms(2,3) obtain t where "emitData c n ?s = Some t" "flowing_empty t"
      "r_ended t = r_ended ?s" "r_reading t" "pushed (r_log t) = pushed (r_log ?s)" by auto
    with p False x assms(2) show ?thesis by (auto simp: push_chunk_def below_mark_def after_push_def Let_def)
  qed
qed

lemma pushes_calm:
  "flowing_empty s \<Longrightarrow> r_reading s \<Longrightarrow> 2 \<le> n \<Longrightarrow> \<exists>t. r_ops c n (map RPush xs) s = Some t \<and> after_push s t"
proof (induction xs arbitrary: s)
  case (Cons x xs)
  from push_calm [OF Cons.prems] obtain b u where u: "push_chunk c n x s = Some (b, u)" "after_push s u" by blast
  with Cons.IH [of u] Cons.prems obtain t where "r_ops c n (map RPush xs) u = Some t" "after_push u t"
    by (auto simp: after_push_def)
  with u show ?case by (auto simp: after_push_def)
qed (simp add: after_push_def)

end

locale calm_source = calm_listeners c for c :: "'w reactor" +
  assumes answers: "flowing_empty s \<Longrightarrow> r_reading s \<Longrightarrow> \<exists>t. c (ReadCall h) s = Some t \<and> after_push s t"
begin

lemma call_read_calm:
  assumes "flowing_empty s"
  shows "\<exists>t. call_read c s = Some t \<and> flowing_empty t \<and> prefix (pushed (r_log s)) (pushed (r_log t)) \<and> (r_ended s \<longrightarrow> r_ended t)"
proof -
  let ?s = "noted (ReadCall (r_highWaterMark s)) (s\<lparr>r_reading := True\<rparr>)"
  have n: "neutral (ReadCall (r_highWaterMark s))" by (simp add: neutral_def)
  have "stream_inv (s\<lparr>r_reading := True\<rparr>)" using assms by (simp add: flowing_empty_def stream_inv_def)
  from inv_neutral [OF n this] have "flowing_empty ?s"
    using assms by (simp add: flowing_empty_def flows_def is_empty_def)
  then obtain t where t: "c (ReadCall (r_highWaterMark s)) ?s = Some t" "after_push ?s t"
    using answers by fastforce
  then have "flowing_empty (t\<lparr>r_reading := False\<rparr>)"
    by (simp add: after_push_def flowing_empty_def flows_def is_empty_def stream_inv_def)
  with t n show ?thesis by (simp add: call_read_def fire_def after_push_def)
qed

lemma emitData_calm:
  assumes "stream_inv s" "flows s" "length (dq_list (r_buffer s)) < n"
  shows "\<exists>t. emitData c n s = Some t \<and> flowing_empty t \<and> prefix (pushed (r_log s)) (pushed (r_log t))
    \<and> (r_ended s \<longrightarrow> r_ended t) \<and> (r_ended t \<longrightarrow> r_endEmitted t)
    \<and> (r_reading s \<longrightarrow> r_reading t \<and> pushed (r_log t) = pushed (r_log s))"
proof -
  obtain m where m: "n = Suc m" using assms(3) by (cases n) auto
  have "\<exists>s1. (if wants_data s then call_read c s else Some s) = Some s1 \<and> stream_inv s1 \<and> flows s1
      \<and> length (dq_list (r_buffer s1)) < n \<and> prefix (pushed (r_log s)) (pushed (r_log s1)) \<and> (r_ended s \<longrightarrow> r_ended s1)
      \<and> (r_reading s \<longrightarrow> s1 = s)"
  proof (cases "wants_data s")
    case True
    then have "flowing_empty s" using assms(1) by (simp add: flowing_empty_def wants_data_def)
    with call_read_calm [OF this] True m show ?thesis
      by (auto simp: flowing_empty_def is_empty_list wants_data_def)
  qed (use assms in simp)
  then obtain s1 where s1: "(if wants_data s then call_read c s else Some s) = Some s1" "stream_inv s1" "flows s1"
      "length (dq_list (r_buffer s1)) < n" "prefix (pushed (r_log s)) (pushed (r_log s1))" "r_ended s \<longrightarrow> r_ended s1"
      "r_reading s \<longrightarrow> s1 = s" by blast
  obtain s2 where s2: "drain c n s1 = Some s2" "flowing_empty s2" "r_ended s2 = r_ended s1" "r_reading s2 = r_reading s1"
    "pushed (r_log s2) = pushed (r_log s1)"
    using drain_calm [OF s1(2-4)] by blast
  have "\<exists>s3. (if wants_data s2 then call_read c s2 else Some s2) = Some s3 \<and> flowing_empty s3
      \<and> prefix (pushed (r_log s2)) (pushed (r_log s3)) \<and> (r_ended s2 \<longrightarrow> r_ended s3) \<and> (r_reading s2 \<longrightarrow> s3 = s2)"
    using call_read_calm [OF s2(2)] s2(2) by (cases "wants_data s2") (auto simp: wants_data_def)
  then obtain s3 where s3: "(if wants_data s2 then call_read c s2 else Some s2) = Some s3" "flowing_empty s3"
      "prefix (pushed (r_log s2)) (pushed (r_log s3))" "r_ended s2 \<longrightarrow> r_ended s3" "r_reading s2 \<longrightarrow> s3 = s2" by blast
  obtain t where t: "maybeEnd c s3 = Some t" "r_buffer t = r_buffer s3" "pushed (r_log t) = pushed (r_log s3)"
    "r_ended t = r_ended s3" "r_flowing t = r_flowing s3" "r_reading t = r_reading s3" "stream_inv t"
    "r_ended s3 \<longrightarrow> r_endEmitted t"
    using maybeEnd_calm [of s3] s3(2) unfolding flowing_empty_def by blast
  have "emitData c n s = Some t"
    using s1(1) s2(1) s3(1,2) t(1) unfolding m flowing_empty_def by (simp del: drain.simps split: if_splits)
  moreover have "flowing_empty t" using t s3(2) by (simp add: flowing_empty_def flows_def is_empty_def)
  moreover have "prefix (pushed (r_log s)) (pushed (r_log t))"
    using s1(5) s2(5) s3(3) t(3) prefix_order.trans by metis
  ultimately show ?thesis using s1 s2 s3 t by auto
qed

end

lemma source_reacts: "(\<And>h. ev \<noteq> ReadCall h) \<Longrightarrow> react (asked_source src) (Suc k) ev s = Some s"
  by (simp add: asked_source_def split: revent.split)

interpretation listeners: calm_listeners "react (asked_source src) (Suc k)" for src k
  by (unfold_locales) (rule source_reacts)

text \<open>Three frames of the stack are enough for a call of \<open>_read\<close> that pushes any number of chunks.\<close>

interpretation source: calm_source "react (asked_source src) (Suc (Suc (Suc k)))" for src k
proof
  fix s :: "'a rstate" and h
  assume "flowing_empty s" "r_reading s"
  then show "\<exists>t. react (asked_source src) (Suc (Suc (Suc k))) (ReadCall h) s = Some t \<and> after_push s t"
    using listeners.pushes_calm [of s "Suc (Suc k)" src "Suc k" "src s"]
    by (simp add: asked_source_def)
qed

text \<open>
  C11. With a source that pushes what it likes when it is asked and listeners that leave the stream
  alone, a flowing stream delivers: the flow loop returns (with three frames of the stack below it
  and as many rounds as there are chunks buffered and one), everything pushed until then, by the
  source in the meantime too, has been taken off the buffer and emitted or read, nothing is left
  buffered, and a stream that was ended has emitted its end. It does not say that the source is
  asked again until it ends.
\<close>

theorem readable_delivers:
  assumes "stream_inv s" "flows s" "length (dq_list (r_buffer s)) < n" "3 \<le> k"
  shows "\<exists>t. emitData (react (asked_source src) k) n s = Some t \<and> taken (r_log t) = pushed (r_log t)
     \<and> prefix (pushed (r_log s)) (pushed (r_log t)) \<and> is_empty t \<and> flows t
     \<and> (r_ended s \<longrightarrow> r_ended t) \<and> (r_ended t \<longrightarrow> r_endEmitted t)"
proof -
  obtain m where k: "k = Suc (Suc (Suc m))"
    using assms(4) by (metis Suc_le_D numeral_3_eq_3 Suc_le_mono)
  from source.emitData_calm [OF assms(1-3), of src m] obtain t where
    t: "emitData (react (asked_source src) k) n s = Some t" "flowing_empty t" "prefix (pushed (r_log s)) (pushed (r_log t))"
      "r_ended s \<longrightarrow> r_ended t" "r_ended t \<longrightarrow> r_endEmitted t" unfolding k by blast
  from t(2) have "taken (r_log t) @ dq_list (r_buffer t) = pushed (r_log t)" "dq_list (r_buffer t) = []"
    unfolding flowing_empty_def stream_inv_def is_empty_list by blast+
  then have "taken (r_log t) = pushed (r_log t)" by simp
  with t show ?thesis by (auto simp: flowing_empty_def)
qed

text \<open>A source that pushes a chunk each time it is asked.\<close>

abbreviation ticker :: "unit rstate \<Rightarrow> chunk list" where
  "ticker \<equiv> \<lambda>s. [BytesC [7]]"

lemma readable_delivers_witness:
  "\<exists>t. emitData (react (asked_source ticker) 3) 2
      ((put_chunk (BytesC [1]) (new_readable None False False ()))\<lparr>r_flowing := Some True\<rparr>) = Some t
     \<and> taken (r_log t) = pushed (r_log t) \<and> is_empty t"
proof -
  let ?s = "(put_chunk (BytesC [1]) (new_readable None False False ()))\<lparr>r_flowing := Some True\<rparr>"
  have "stream_inv (put_chunk (BytesC [1]) (new_readable None False False ()))"
    by (rule inv_put [OF new_inv]) (simp add: new_readable_def)
  then have "stream_inv ?s" by (simp add: stream_inv_def)
  moreover have "flows ?s" by (simp add: flows_def)
  moreover have "length (dq_list (r_buffer ?s)) = 1" by code_simp
  ultimately show ?thesis using readable_delivers [of ?s 2 3 ticker] by auto
qed

section \<open>Where it differs from Node\<close>

text \<open>
  A text chunk is measured in bytes when it is pushed and in UTF-16 units when it leaves: every
  two-byte character leaves a byte of length behind, and an empty stream ends up refusing.
\<close>

theorem readable_text_stall:
  "map_option (\<lambda>t. (is_empty t, r_length t))
     (r_run idle_listeners 4 [Op ROnData, Micro, Op (RPush (StrC [233]))] (new_readable (Some 1) False False ()))
   = Some (True, 1)"
  by code_simp

text \<open>
  The asynchronous iterator listens only while a call of \<open>next\<close> waits, but the stream keeps
  flowing: of two chunks that are buffered the second is emitted to nobody, and the second call
  waits for ever.
\<close>

theorem stream_iterator_loses_chunks:
  "map_option (\<lambda>t. (r_given t, r_waiting t, is_empty t))
     (r_run idle_listeners 4 [Op (RPush (BytesC [1])), Op (RPush (BytesC [2])), Op RNext, Micro, Op RNext, Micro]
        (new_readable None False False ()))
   = Some ([(0, Chunk (BytesC [1]))], [1], True)"
  by code_simp

text \<open>Two calls of \<open>next\<close> that wait together are given the same chunk.\<close>

theorem stream_iterator_duplicates:
  "map_option r_given
     (r_run idle_listeners 4 [Op RNext, Op RNext, Micro, Op (RPush (BytesC [1]))] (new_readable None False False ()))
   = Some [(0, Chunk (BytesC [1])), (1, Chunk (BytesC [1]))]"
  by code_simp

text \<open>
  A source that pushes one chunk whenever it is asked is asked twice and then never again: the
  push inside \<open>_read\<close> has emptied the buffer before the flow loop looks whether to go on. A
  listener of \<open>data\<close> gets two chunks and waits for ever.
\<close>

theorem readable_source_stalls:
  "map_option (\<lambda>t. (emitted (r_log t), r_microtasks t, flows t, r_ended t))
     (r_run (asked_source (\<lambda>s. [BytesC [7]])) 5 [Op ROnData, Micro, Micro] (new_readable None False False ()))
   = Some ([BytesC [7], BytesC [7]], [], True, False)"
  by code_simp

text \<open>\<open>read\<close> emits \<open>end\<close> before it returns the last chunk.\<close>

theorem readable_end_before_last:
  "map_option (\<lambda>t. r_log t)
     (r_run idle_listeners 4 [Op (RPush (BytesC [1])), Op (RPush NullC), Op (RRead None)] (new_readable None False False ()))
   = Some [Pushed (BytesC [1]), Taken (BytesC [1]), EvEnd, Returned (BytesC [1])]"
  by code_simp

text \<open>A destroyed stream goes on delivering what it had buffered, and emits its end.\<close>

theorem destroyed_still_delivers:
  "map_option (\<lambda>t. (taken (r_log t), r_endEmitted t))
     (r_run idle_listeners 4 [Op (RPush (BytesC [1])), Op (RDestroy None), Micro, Op ROnData, Micro]
        (new_readable None False False ()))
   = Some ([BytesC [1]], True)"
  by code_simp

end
