(* ===== verification/Pipe.thy ===== *)
theory Pipe
  imports Readable_Props Writable_Props
begin

text \<open>
  \<open>Readable.pipe\<close>: a readable stream joined to a writable one (\<open>napi-bridge/streams.js\<close>). The
  destination is part of the readable stream's world, and the listeners that \<open>pipe\<close> registers are
  the listeners of the model: \<open>data\<close> writes and pauses the source on a refused write, \<open>drain\<close>
  resumes it, \<open>end\<close> ends the destination, \<open>error\<close> takes the pipe down. Other listeners, and the
  source's \<open>_read\<close>, are a parameter; they run after the pipe's own, work on the source only, and
  none listens to \<open>resume\<close> (a \<open>drain\<close> inside a write resumes the source before the write returns).

  What the destination's sink does while a call into the destination runs is its \<open>turn\<close>, an arbitrary
  list of completions (of any call, at once or not, more than once, with errors or without) and
  returns; the turns of successive calls are part of the initial state.
\<close>

section \<open>The joint system\<close>

record pipe_world =
  dest :: wstate
  piped :: bool
  turns :: "wact list list"

text \<open>The sink calls completion callbacks and returns; it does not write to the stream itself.\<close>

fun sink_act :: "wact \<Rightarrow> bool" where
  "sink_act (Call (Answer i err)) = True"
| "sink_act Return = True"
| "sink_act a = False"

lemma resume_weight:
  "sum_list (map weight (w_stack (resume_calls cf w))) \<le> sum_list (map weight (w_stack w))"
proof (induction cf w rule: resume_calls.induct)
  case (1 cf w)
  show ?case
  proof (cases "w_stack w")
    case (Cons k ks)
    show ?thesis
    proof (cases "is_user k")
      case False
      with 1 [OF Cons False] Cons continue_stack [OF False, of cf "w\<lparr>w_stack := ks\<rparr>"] show ?thesis
        by (subst resume_calls.simps) auto
    qed (use Cons in \<open>subst resume_calls.simps, simp\<close>)
  qed (subst resume_calls.simps, simp)
qed

lemma return_weight:
  assumes "w_stack w \<noteq> []"
  shows "sum_list (map weight (w_stack (w_act cf w Return))) < sum_list (map weight (w_stack w))"
proof -
  obtain k ks where k: "w_stack w = k # ks" using assms by (cases "w_stack w") auto
  show ?thesis
  proof (cases "is_user k")
    case True
    then have "0 < weight k" by (cases k) simp_all
    with True k resume_weight [of cf "w\<lparr>w_stack := ks\<rparr>"] show ?thesis by simp
  next
    case False
    have "resume_calls cf w = resume_calls cf (continue_with cf k (w\<lparr>w_stack := ks\<rparr>))"
      using k False by (subst resume_calls.simps) simp
    with False k resume_weight [of cf "continue_with cf k (w\<lparr>w_stack := ks\<rparr>)"]
      continue_stack [OF False, of cf "w\<lparr>w_stack := ks\<rparr>"] show ?thesis by auto
  qed
qed

text \<open>Whatever is left on the stack returns.\<close>

function unwind :: "wconfig \<Rightarrow> wstate \<Rightarrow> wstate" where
  "unwind cf w = (if w_stack w = [] then w else unwind cf (w_act cf w Return))"
  by pat_completeness auto
termination
  by (relation "measure (\<lambda>(cf, w). sum_list (map weight (w_stack w)))")
    (simp_all add: return_weight del: w_act.simps)

declare unwind.simps [simp del]

fun take_turn :: "wconfig \<Rightarrow> wact list \<Rightarrow> wstate \<Rightarrow> wstate" where
  "take_turn cf [] w = unwind cf w"
| "take_turn cf (a # as) w = (if w_stack w = [] then w else take_turn cf as (w_act cf w a))"

text \<open>A call of an operation of the destination, until it returns.\<close>

definition call_dest :: "wconfig \<Rightarrow> wop \<Rightarrow> pipe_world \<Rightarrow> pipe_world" where
  "call_dest cf op w =
     (case turns w of
        [] \<Rightarrow> w\<lparr>dest := take_turn cf [] (w_act cf (dest w) (Call op))\<rparr>
      | as # ts \<Rightarrow> w\<lparr>dest := take_turn cf as (w_act cf (dest w) (Call op)), turns := ts\<rparr>)"

text \<open>What the destination did between two of its states.\<close>

definition since :: "wstate \<Rightarrow> wstate \<Rightarrow> wevent list" where
  "since w w' = drop (length (w_log w)) (w_log w')"

text \<open>\<open>ondata\<close>; a \<open>drain\<close> the write itself causes comes before the value it returns.\<close>

definition ondata :: "wconfig \<Rightarrow> chunk \<Rightarrow> pipe_world \<Rightarrow> pipe_world rop list" where
  "ondata cf x w =
     (if piped w then
        let new = since (dest w) (dest (call_dest cf (Write x None None) w)) in
        RWorld (call_dest cf (Write x None None))
        # (if EvDrain \<in> set new then [RResume] else [])
        @ (if WriteReturned True \<in> set new then [] else [RPause])
      else [])"

definition onend :: "wconfig \<Rightarrow> bool \<Rightarrow> pipe_world \<Rightarrow> pipe_world rop list" where
  "onend cf endDest w = (if piped w \<and> endDest then [RWorld (call_dest cf (End None None None))] else [])"

definition unpipe :: "pipe_world rop" where
  "unpipe = RWorld (\<lambda>w. w\<lparr>piped := False\<rparr>)"

definition pipe_listeners :: "wconfig \<Rightarrow> bool \<Rightarrow> pipe_world listeners \<Rightarrow> pipe_world listeners" where
  "pipe_listeners cf endDest others ev s =
     (case ev of
        EvData x \<Rightarrow> ondata cf x (r_world s)
      | EvEnd \<Rightarrow> onend cf endDest (r_world s)
      | EvErr e \<Rightarrow> [unpipe]
      | _ \<Rightarrow> []) @ others ev s"

lemma pipe_own:
  "pipe_listeners cf e (\<lambda>_ _. []) (EvData x) s = ondata cf x (r_world s)"
  "pipe_listeners cf e (\<lambda>_ _. []) EvEnd s = onend cf e (r_world s)"
  by (simp_all add: pipe_listeners_def)

text \<open>\<open>pipe\<close> registers its listener of \<open>data\<close> and starts the flow.\<close>

definition pipe :: "pipe_world reactor \<Rightarrow> pipe_world rstate \<Rightarrow> pipe_world rstate option" where
  "pipe c s =
     Option.bind (on_data c (s\<lparr>r_world := (r_world s)\<lparr>piped := True\<rparr>\<rparr>))
       (\<lambda>t. if r_flowing t \<noteq> Some False then resume c t else Some t)"

text \<open>
  A step of the program: an operation of the source, a microtask of the source, or something that
  happens at the destination by itself (a completion, a microtask), with the sink's turn.
\<close>

datatype pipe_step = Source "pipe_world rop" | SourceMicro | Dest wact "wact list"

definition p_step :: "wconfig \<Rightarrow> pipe_world reactor \<Rightarrow> nat \<Rightarrow> pipe_step \<Rightarrow> pipe_world rstate \<Rightarrow> pipe_world rstate option" where
  "p_step cf c n x s =
     (case x of
        Source o' \<Rightarrow> r_perform c n o' s
      | SourceMicro \<Rightarrow> microtask c n s
      | Dest a as \<Rightarrow>
          let w = r_world s; d = take_turn cf as (w_act cf (dest w) a); t = s\<lparr>r_world := w\<lparr>dest := d\<rparr>\<rparr>
          in if piped w \<and> EvDrain \<in> set (since (dest w) d) then resume c t else Some t)"

fun p_run :: "wconfig \<Rightarrow> pipe_world reactor \<Rightarrow> nat \<Rightarrow> pipe_step list \<Rightarrow> pipe_world rstate \<Rightarrow> pipe_world rstate option" where
  "p_run cf c n [] s = Some s"
| "p_run cf c n (x # xs) s = Option.bind (p_step cf c n x s) (p_run cf c n xs)"

definition piped_pair :: "int option \<Rightarrow> int option \<Rightarrow> bool \<Rightarrow> wact list list \<Rightarrow> pipe_world rstate" where
  "piped_pair rhwm whwm om ts =
     new_readable rhwm om False \<lparr>dest = new_writable whwm om, piped = False, turns = ts\<rparr>"

section \<open>Nothing is lost between the two streams\<close>

lemma emitted_simps [simp]:
  "emitted [] = []" "emitted (l @ l') = emitted l @ emitted l'" "emitted [EvData x] = [x]"
  "emitted [Taken x] = []" "emitted [Returned x] = []" "emitted [Pushed x] = []" "emitted [EvEnd] = []"
  "neutral ev \<Longrightarrow> emitted [ev] = []"
  by (simp_all add: emitted_def neutral_def split: revent.splits)

text \<open>
  What the destination keeps while only its sink acts: the accepted chunks and the flags. The frame
  \<open>KEnd\<close> is on the stack only during \<open>end\<close>.
\<close>

definition dest_ok :: "chunk list \<Rightarrow> bool \<Rightarrow> wstate \<Rightarrow> bool" where
  "dest_ok cs over w \<longleftrightarrow> ordered w \<and> wrote (w_log w) = cs \<and> \<not> w_destroyed w
     \<and> (over \<or> \<not> w_ended w \<and> KEnd \<notin> set (w_stack w))"

lemma clear_dest:
  "wrote (w_log (clearBuffer w)) = wrote (w_log w)" "w_destroyed (clearBuffer w) = w_destroyed w"
  "w_ended (clearBuffer w) = w_ended w" "KEnd \<in> set (w_stack (clearBuffer w)) \<longleftrightarrow> KEnd \<in> set (w_stack w)"
  by (auto simp: clearBuffer_def doWrite_def invoke_def split: prod.split option.split)

lemma final_dest:
  "wrote (w_log (finishMaybe cf w)) = wrote (w_log w)" "w_destroyed (finishMaybe cf w) = w_destroyed w"
  "w_ended (finishMaybe cf w) = w_ended w" "KEnd \<in> set (w_stack (finishMaybe cf w)) \<longleftrightarrow> KEnd \<in> set (w_stack w)"
  by (auto simp: finishMaybe_def doFinish_def machine_defs)

lemmas dest_simps = clear_dest final_dest process_buffer_def drain_check_def write_return_def end_rest_def machine_defs Let_def

interpretation dest_ok: machine_invariant "dest_ok cs over" cf "\<lambda>w x. sink_act (Call x)" for cs over cf
proof
  fix w x assume J: "dest_ok cs over w" and ok: "sink_act (Call x)"
  then obtain i err where x: "x = Answer i err" by (cases x) auto
  then have "ordered (w_perform cf x w)"
    using J ordered.J_perform [of w x cf] by (simp add: dest_ok_def overtaking_def writes_def)
  moreover have "wrote (w_log (answer i err w)) = wrote (w_log w)" "w_destroyed (answer i err w) = w_destroyed w"
    "w_ended (answer i err w) = w_ended w" "KEnd \<in> set (w_stack (answer i err w)) \<longleftrightarrow> KEnd \<in> set (w_stack w)"
    by (auto simp: answer_def on_written_def on_final_def doFinish_def machine_defs Let_def
        split: option.split sink_call.split)
  ultimately show "dest_ok cs over (w_perform cf x w)" using J x by (simp add: dest_ok_def)
next
  fix w k ks assume J: "dest_ok cs over w" and k: "w_stack w = k # ks" "\<not> is_user k"
  then have "ordered (continue_with cf k (w\<lparr>w_stack := ks\<rparr>))"
    using ordered.J_continue by (simp add: dest_ok_def)
  with J k show "dest_ok cs over (continue_with cf k (w\<lparr>w_stack := ks\<rparr>))"
    by (cases k) (auto simp: dest_ok_def dest_simps)
next
  fix w k ks assume "dest_ok cs over w" "w_stack w = k # ks" "is_user k"
  then show "dest_ok cs over (w\<lparr>w_stack := ks\<rparr>)" using ordered.J_return by (auto simp: dest_ok_def)
next
  fix w :: wstate assume "dest_ok cs over w" "w_stack w = []"
  then show "dest_ok cs over (tick w)"
    using ordered.J_tick [of w]
    by (auto simp: dest_ok_def tick_def machine_defs Let_def split: list.split wmicro.split option.split)
qed

lemma act_dest: "dest_ok cs over w \<Longrightarrow> sink_act a \<or> a = Tick \<Longrightarrow> dest_ok cs over (w_act cf w a)"
  by (rule dest_ok.act_kept) (cases a; simp)+

lemma unwind_dest: "dest_ok cs over w \<Longrightarrow> dest_ok cs over (unwind cf w) \<and> w_stack (unwind cf w) = []"
proof (induction cf w rule: unwind.induct)
  case (1 cf w)
  show ?case
  proof (cases "w_stack w = []")
    case False
    with 1 act_dest [of cs over w Return cf] show ?thesis by (subst (1 2) unwind.simps) simp
  qed (use 1 in \<open>simp add: unwind.simps\<close>)
qed

lemma turn_dest:
  "dest_ok cs over w \<Longrightarrow> list_all sink_act as \<Longrightarrow> dest_ok cs over (take_turn cf as w) \<and> w_stack (take_turn cf as w) = []"
  by (induction as arbitrary: w) (simp_all add: unwind_dest act_dest del: w_act.simps)

lemma write_dest:
  assumes "dest_ok cs False w" "w_stack w = []"
  shows "dest_ok (cs @ [x]) False (w_act cf w (Call (Write x None None)))"
proof -
  let ?w = "write_chunk x None None w"
  have "ordered ?w" using ordered.J_perform [of w "Write x None None" cf] assms by (simp add: dest_ok_def overtaking_def)
  moreover have "wrote (w_log ?w) = cs @ [x]" "\<not> w_destroyed ?w" "\<not> w_ended ?w" "KEnd \<notin> set (w_stack ?w)"
    using assms by (auto simp: dest_ok_def write_chunk_def doWrite_def machine_defs Let_def)
  ultimately have "dest_ok (cs @ [x]) False ?w" by (simp add: dest_ok_def)
  then show ?thesis by (simp add: dest_ok.resumed_kept)
qed

lemma end_dest:
  assumes "dest_ok cs over w"
  shows "dest_ok cs True (w_act cf w (Call (End None None None)))"
proof -
  let ?w = "end_stream None None None w"
  have "ordered ?w" using ordered.J_perform [of w "End None None None" cf] assms
    by (simp add: dest_ok_def overtaking_def writes_def)
  moreover have "wrote (w_log ?w) = cs" "\<not> w_destroyed ?w"
    using assms by (auto simp: dest_ok_def end_stream_def machine_defs Let_def)
  ultimately have "dest_ok cs True ?w" by (simp add: dest_ok_def)
  then show ?thesis by (simp add: dest_ok.resumed_kept)
qed

text \<open>The destination has accepted what was emitted; before the end it is open.\<close>

definition joined :: "chunk list \<Rightarrow> pipe_world \<Rightarrow> bool \<Rightarrow> bool" where
  "joined es w over \<longleftrightarrow> (\<exists>cs. dest_ok cs over (dest w) \<and> prefix cs es \<and> (piped w \<longrightarrow> cs = es))
     \<and> w_stack (dest w) = [] \<and> list_all (list_all sink_act) (turns w)"

definition pipe_inv :: "pipe_world rstate \<Rightarrow> bool" where
  "pipe_inv s \<longleftrightarrow> stream_inv s \<and> joined (emitted (r_log s)) (r_world s) (r_endEmitted s)"

lemma call_dest_cases:
  obtains as ts where "dest (call_dest cf op w) = take_turn cf as (w_act cf (dest w) (Call op))"
    "turns (call_dest cf op w) = ts" "piped (call_dest cf op w) = piped w"
    "list_all (list_all sink_act) (turns w) \<Longrightarrow> list_all sink_act as \<and> list_all (list_all sink_act) ts"
proof (cases "turns w")
  case Nil
  then show ?thesis by (intro that [of "[]" "[]"]) (simp_all add: call_dest_def)
next
  case (Cons as ts)
  then show ?thesis by (intro that [of as ts]) (simp_all add: call_dest_def)
qed

lemma dest_ok_later: "dest_ok cs False w \<Longrightarrow> dest_ok cs over w"
  by (auto simp: dest_ok_def)

lemma joined_write:
  assumes "joined es w False" "piped w"
  shows "joined (es @ [x]) (call_dest cf (Write x None None) w) over"
proof (rule call_dest_cases [of cf "Write x None None" w])
  fix as ts
  assume c: "dest (call_dest cf (Write x None None) w) = take_turn cf as (w_act cf (dest w) (Call (Write x None None)))"
    "turns (call_dest cf (Write x None None) w) = ts" "piped (call_dest cf (Write x None None) w) = piped w"
    "list_all (list_all sink_act) (turns w) \<Longrightarrow> list_all sink_act as \<and> list_all (list_all sink_act) ts"
  from assms have "dest_ok es False (dest w)" "w_stack (dest w) = []" "list_all (list_all sink_act) (turns w)"
    by (auto simp: joined_def)
  with turn_dest [OF write_dest [of es "dest w" x cf], of as cf] c dest_ok_later show ?thesis
    by (auto simp: joined_def)
qed

lemma joined_end:
  assumes "joined es w over"
  shows "joined es (call_dest cf (End None None None) w) True"
proof (rule call_dest_cases [of cf "End None None None" w])
  fix as ts
  assume c: "dest (call_dest cf (End None None None) w) = take_turn cf as (w_act cf (dest w) (Call (End None None None)))"
    "turns (call_dest cf (End None None None) w) = ts" "piped (call_dest cf (End None None None) w) = piped w"
    "list_all (list_all sink_act) (turns w) \<Longrightarrow> list_all sink_act as \<and> list_all (list_all sink_act) ts"
  from assms obtain cs where "dest_ok cs over (dest w)" "prefix cs es" "piped w \<longrightarrow> cs = es"
    "list_all (list_all sink_act) (turns w)" by (auto simp: joined_def)
  with turn_dest [OF end_dest [of cs over "dest w" cf], of as cf] c show ?thesis by (auto simp: joined_def)
qed

lemma joined_over: "joined es w over \<Longrightarrow> joined es w True"
  by (auto simp: joined_def dest_ok_def)

lemma joined_unpiped: "joined es w over \<Longrightarrow> joined (es @ es') (w\<lparr>piped := False\<rparr>) over"
  by (auto simp: joined_def)

lemma r_ops_append: "r_ops c n (xs @ ys) s = Option.bind (r_ops c n xs s) (r_ops c n ys)"
proof (induction xs arbitrary: s)
  case (Cons x xs)
  then show ?case by (cases "r_perform c n x s") simp_all
qed simp

definition source_only :: "pipe_world listeners \<Rightarrow> bool" where
  "source_only others \<longleftrightarrow> (\<forall>ev s. list_all (\<lambda>x. \<not> changes_world x) (others ev s)) \<and> (\<forall>s. others EvResume s = [])"

lemma pipe_inv_put: "pipe_inv s \<Longrightarrow> \<not> r_ended s \<Longrightarrow> pipe_inv (put_chunk x s)"
  using inv_put [of s x] by (simp add: pipe_inv_def) (simp add: put_chunk_def)

lemma take_chunk_world: "take_chunk s = Some (x, u) \<Longrightarrow> r_world u = r_world s"
  by (cases "dq_shift (r_buffer s)"; cases "fst (dq_shift (r_buffer s))") (auto simp: take_chunk_def)

lemma list_ok: "stream_inv s \<Longrightarrow> dq_inv (r_buffer s)"
  by (simp add: stream_inv_def)

lemma pipe_inv_taken: "pipe_inv s \<Longrightarrow> take_chunk s = Some (x, t) \<Longrightarrow> pipe_inv (noted (Taken x) t)"
  using inv_take(2) [of s x t] take_chunk_list(3,5) [of s x t] take_chunk_world [of s x t] list_ok [of s]
  by (simp add: pipe_inv_def)

lemma pipe_inv_returned: "pipe_inv s \<Longrightarrow> pipe_inv (noted (Returned x) s)"
  using inv_returned [of s x] by (simp add: pipe_inv_def)

lemma pipe_inv_fields:
  "pipe_inv s \<Longrightarrow> pipe_inv (s\<lparr>r_flowing := f\<rparr>)" "pipe_inv s \<Longrightarrow> pipe_inv (s\<lparr>r_reading := b\<rparr>)"
  "pipe_inv s \<Longrightarrow> pipe_inv (s\<lparr>r_readers := n\<rparr>)" "pipe_inv s \<Longrightarrow> pipe_inv (s\<lparr>r_microtasks := ms\<rparr>)"
  "pipe_inv s \<Longrightarrow> pipe_inv (s\<lparr>r_calls := n, r_waiting := ps\<rparr>)" "pipe_inv s \<Longrightarrow> pipe_inv (s\<lparr>r_encoding := enc\<rparr>)"
  "pipe_inv s \<Longrightarrow> pipe_inv (s\<lparr>r_ended := True\<rparr>)" "pipe_inv s \<Longrightarrow> pipe_inv (s\<lparr>r_destroyed := True, r_ended := True\<rparr>)"
  by (auto simp: pipe_inv_def stream_inv_def)

text \<open>The pipe's own reactions, with the emitted chunk or the end already in the history.\<close>

lemma pipe_inv_world:
  "stream_inv s \<Longrightarrow> joined (emitted (r_log s)) w (r_endEmitted s) \<Longrightarrow> pipe_inv (s\<lparr>r_world := w\<rparr>)"
  by (simp add: pipe_inv_def stream_inv_def)

lemma ondata_kept:
  assumes "reader_keeper pipe_inv c" "pipe_inv s" "take_chunk s = Some (x, u)"
    and "r_ops c n (ondata cf x (r_world u)) (noted (EvData x) u) = Some t"
  shows "pipe_inv t"
proof -
  let ?v = "noted (EvData x) u"
  have s: "stream_inv s" using assms(2) by (simp add: pipe_inv_def)
  have v: "stream_inv ?v" by (rule inv_take(1) [OF s assms(3)])
  have u: "r_log u = r_log s" "r_world u = r_world s" "\<not> r_endEmitted s" "\<not> r_endEmitted u"
    using take_chunk_list [OF _ assms(3)] take_chunk_world [OF assms(3)] s by (auto simp: stream_inv_def)
  have j: "joined (emitted (r_log s)) (r_world u) False" using assms(2) u by (simp add: pipe_inv_def)
  show ?thesis
  proof (cases "piped (r_world u)")
    case True
    let ?w = "call_dest cf (Write x None None) (r_world u)"
    have J: "pipe_inv (?v\<lparr>r_world := ?w\<rparr>)"
      using joined_write [OF j True, of x cf False] u by (intro pipe_inv_world v) simp
    obtain ops where "ondata cf x (r_world u) = RWorld (call_dest cf (Write x None None)) # ops"
      "list_all (\<lambda>x. \<not> changes_world x) ops"
      using True by (simp add: ondata_def changes_world_def Let_def)
    moreover from this assms(4) have "r_ops c n ops (?v\<lparr>r_world := ?w\<rparr>) = Some t" by simp
    ultimately show ?thesis using reader_keeper.ops_kept [OF assms(1) J] by blast
  next
    case False
    with assms(4) have "t = ?v" by (simp add: ondata_def)
    moreover have "pipe_inv ?v"
      using joined_unpiped [OF j, of "[x]"] False v u by (simp add: pipe_inv_def joined_def)
    ultimately show ?thesis by simp
  qed
qed

lemma onend_kept:
  assumes "pipe_inv s" "stream_inv v" "r_world v = r_world s"
    and "emitted (r_log v) = emitted (r_log s)" "r_endEmitted v"
    and "r_ops c n (onend cf e (r_world v)) v = Some t"
  shows "pipe_inv t"
proof -
  have j: "joined (emitted (r_log v)) (r_world v) (r_endEmitted s)"
    using assms(1,3,4) by (simp add: pipe_inv_def)
  show ?thesis
  proof (cases "piped (r_world v) \<and> e")
    case True
    with assms(6) have "t = v\<lparr>r_world := call_dest cf (End None None None) (r_world v)\<rparr>"
      by (simp add: onend_def)
    with joined_end [OF j] pipe_inv_world [OF assms(2)] assms(5) show ?thesis by simp
  next
    case False
    with assms(6) have "t = v" by (auto simp: onend_def)
    with joined_over [OF j] assms(2,5) show ?thesis by (simp add: pipe_inv_def)
  qed
qed

lemma pipe_keeper:
  assumes "source_only others"
  shows "reader_keeper pipe_inv (react (pipe_listeners cf e others) k)"
proof (induction k)
  case 0
  show ?case
  proof unfold_locales
    fix s u t :: "pipe_world rstate" and x
    assume "pipe_inv s" "take_chunk s = Some (x, u)"
      "maybeEnd (react (pipe_listeners cf e others) 0) (noted (Taken x) u) = Some t"
    then show "pipe_inv (noted (Returned x) t)"
      using pipe_inv_taken [of s x u] by (auto simp: maybeEnd_def fire_def pipe_inv_returned split: if_splits)
  qed (simp_all add: fire_def pipe_inv_put pipe_inv_fields)
next
  case (Suc k)
  let ?c = "react (pipe_listeners cf e others) k" and ?own = "pipe_listeners cf e (\<lambda>_ _. [])"
  have split: "\<exists>u. r_ops ?c k (?own ev (noted ev s)) (noted ev s) = Some u
      \<and> r_ops ?c k (others ev (noted ev s)) u = Some t"
    if "fire (react (pipe_listeners cf e others) (Suc k)) ev s = Some t" for ev s t
    using that by (simp add: fire_def pipe_listeners_def r_ops_append bind_eq_Some_conv)
  have others: "pipe_inv u \<Longrightarrow> r_ops ?c k (others ev v) u = Some t \<Longrightarrow> pipe_inv t" for u ev v t
  proof -
    assume "pipe_inv u" "r_ops ?c k (others ev v) u = Some t"
    with reader_keeper.ops_kept [OF Suc, of u "others ev v" k t] assms show "pipe_inv t"
      by (simp add: source_only_def)
  qed
  have ended: "pipe_inv t"
    if a: "pipe_inv s" "r_ended s" "is_empty s" "\<not> r_endEmitted s"
      "fire (react (pipe_listeners cf e others) (Suc k)) EvEnd (s\<lparr>r_endEmitted := True\<rparr>) = Some t" for s t
  proof -
    let ?v = "noted EvEnd (s\<lparr>r_endEmitted := True\<rparr>)"
    have "stream_inv ?v" using a by (intro inv_end) (simp_all add: pipe_inv_def)
    from split [OF a(5)] obtain v where
      v: "r_ops ?c k (onend cf e (r_world ?v)) ?v = Some v" "r_ops ?c k (others EvEnd ?v) v = Some t"
      by (auto simp: pipe_own)
    from onend_kept [OF a(1) \<open>stream_inv ?v\<close> _ _ _ v(1)] have "pipe_inv v" by simp
    then show "pipe_inv t" using v(2) by (rule others)
  qed
  show ?case
  proof unfold_locales
    fix ev and s t :: "pipe_world rstate"
    assume "neutral ev" "pipe_inv s" "fire (react (pipe_listeners cf e others) (Suc k)) ev s = Some t"
    moreover from this have n: "pipe_inv (noted ev s)"
      using inv_neutral [of ev s] by (simp add: pipe_inv_def)
    moreover have "pipe_inv u" if "r_ops ?c k (?own ev (noted ev s)) (noted ev s) = Some u" for u
      using that n \<open>neutral ev\<close> joined_unpiped [of _ _ _ "[]"]
      by (cases ev) (auto simp: pipe_listeners_def unpipe_def neutral_def pipe_inv_def stream_inv_def)
    ultimately show "pipe_inv t" using split others by blast
  next
    fix s u t :: "pipe_world rstate" and x
    assume a: "pipe_inv s" "take_chunk s = Some (x, u)"
      "fire (react (pipe_listeners cf e others) (Suc k)) (EvData x) u = Some t"
    from split [OF a(3)] obtain v where
      v: "r_ops ?c k (ondata cf x (r_world u)) (noted (EvData x) u) = Some v"
        "r_ops ?c k (others (EvData x) (noted (EvData x) u)) v = Some t" by (auto simp: pipe_own)
    from ondata_kept [OF Suc a(1,2) v(1)] v(2) show "pipe_inv t" by (rule others)
  next
    fix s u t :: "pipe_world rstate" and x
    assume "pipe_inv s" "take_chunk s = Some (x, u)"
      "maybeEnd (react (pipe_listeners cf e others) (Suc k)) (noted (Taken x) u) = Some t"
    with ended [of "noted (Taken x) u" t] pipe_inv_taken [of s x u] show "pipe_inv (noted (Returned x) t)"
      by (intro pipe_inv_returned) (simp add: maybeEnd_def split: if_splits)
  next
    fix s t :: "pipe_world rstate"
    assume "pipe_inv s" "r_ended s" "is_empty s" "\<not> r_endEmitted s"
      "fire (react (pipe_listeners cf e others) (Suc k)) EvEnd (s\<lparr>r_endEmitted := True\<rparr>) = Some t"
    then show "pipe_inv t" by (rule ended)
  qed (simp_all add: pipe_inv_put pipe_inv_fields)
qed

text \<open>At the destination only its sink acts by itself, and the engine runs its microtasks.\<close>

fun pipe_step_ok :: "pipe_step \<Rightarrow> bool" where
  "pipe_step_ok (Source x) = (\<not> changes_world x)"
| "pipe_step_ok SourceMicro = True"
| "pipe_step_ok (Dest a as) = ((sink_act a \<or> a = Tick) \<and> list_all sink_act as)"

lemma joined_turn:
  assumes "joined es w over" "sink_act a \<or> a = Tick" "list_all sink_act as"
  shows "joined es (w\<lparr>dest := take_turn cf as (w_act cf (dest w) a)\<rparr>) over"
proof -
  from assms(1) obtain cs where "dest_ok cs over (dest w)" "prefix cs es" "piped w \<longrightarrow> cs = es"
    "list_all (list_all sink_act) (turns w)" by (auto simp: joined_def)
  with turn_dest [OF act_dest [of cs over "dest w" a cf] assms(3), of cf] assms(2) show ?thesis
    by (auto simp: joined_def simp del: w_act.simps)
qed

lemma p_step_kept:
  assumes "reader_keeper pipe_inv c" "pipe_inv s" "pipe_step_ok x" "p_step cf c n x s = Some t"
  shows "pipe_inv t"
proof (cases x)
  case (Dest a as)
  let ?w = "(r_world s)\<lparr>dest := take_turn cf as (w_act cf (dest (r_world s)) a)\<rparr>"
  have "pipe_inv (s\<lparr>r_world := ?w\<rparr>)"
    using assms(2,3) joined_turn [of "emitted (r_log s)" "r_world s" "r_endEmitted s" a as cf] Dest
    by (intro pipe_inv_world) (simp_all add: pipe_inv_def)
  then show ?thesis
    using assms(4) Dest reader_keeper.resume_kept [OF assms(1)]
    by (auto simp: p_step_def Let_def simp del: w_act.simps split: if_splits)
next
  case (Source x)
  then show ?thesis
    using assms(3,4) reader_keeper.perform_kept [OF assms(1,2)] by (auto simp: p_step_def)
next
  case SourceMicro
  then show ?thesis using assms(4) reader_keeper.microtask_kept [OF assms(1,2)] by (simp add: p_step_def)
qed

lemma p_run_kept:
  assumes "reader_keeper pipe_inv c"
  shows "pipe_inv s \<Longrightarrow> list_all pipe_step_ok xs \<Longrightarrow> p_run cf c n xs s = Some t \<Longrightarrow> pipe_inv t"
proof (induction xs arbitrary: s)
  case (Cons x xs)
  then obtain u where "p_step cf c n x s = Some u" "p_run cf c n xs u = Some t"
    by (auto simp: bind_eq_Some_conv)
  with Cons p_step_kept [OF assms] show ?case by fastforce
qed simp

lemma new_dest: "dest_ok [] over (new_writable whwm om)"
  by (simp add: dest_ok_def ordered_def ledger_new) (simp add: new_writable_def in_line_def queued_def)

lemma piped_pair_start:
  assumes "reader_keeper pipe_inv c" "list_all (list_all sink_act) ts" "pipe c (piped_pair rhwm whwm om ts) = Some s"
  shows "pipe_inv s"
proof -
  let ?s = "piped_pair rhwm whwm om ts" and ?w = "\<lparr>dest = new_writable whwm om, piped = True, turns = ts\<rparr>"
  have "joined [] ?w False"
    using new_dest [of False whwm om] assms(2) by (auto simp: joined_def) (simp add: new_writable_def)
  then have "pipe_inv (?s\<lparr>r_world := ?w\<rparr>)"
    using new_inv [of rhwm om False "\<lparr>dest = new_writable whwm om, piped = False, turns = ts\<rparr>"]
    by (intro pipe_inv_world) (simp_all add: piped_pair_def new_readable_def)
  moreover from assms(3) obtain t where "on_data c (?s\<lparr>r_world := ?w\<rparr>) = Some t"
    "(if r_flowing t \<noteq> Some False then resume c t else Some t) = Some s"
    by (auto simp: pipe_def piped_pair_def new_readable_def bind_eq_Some_conv)
  ultimately show ?thesis
    using reader_keeper.on_data_kept [OF assms(1)] reader_keeper.resume_kept [OF assms(1)]
    by (metis option.inject)
qed

text \<open>
  C12. Two streams joined by \<open>pipe\<close>, however the source pushes, pauses, resumes and is destroyed and
  whatever the destination's sink answers and when: while the pipe stands, the chunks the destination
  has accepted are those the source emitted, in order, none lost or repeated, and with those still
  buffered in the source they are the chunks pushed (read ones apart); once the pipe was taken down
  they are a beginning of them. If moreover the sink calls no completion callback twice and reports
  no error, the chunks handed to the sink followed by those queued in the destination are the
  accepted ones. (After a sink error the pipe stands, and later chunks overtake the queued ones.)
\<close>

theorem pipe_lossless:
  assumes "source_only others" "list_all (list_all sink_act) ts" "list_all pipe_step_ok xs"
    and "c = react (pipe_listeners cf endDest others) k"
    and "Option.bind (pipe c (piped_pair rhwm whwm om ts)) (p_run cf c k xs) = Some t"
    and "w = dest (r_world t)"
  shows "prefix (wrote (w_log w)) (emitted (r_log t))
     \<and> (piped (r_world t) \<longrightarrow> wrote (w_log w) = emitted (r_log t))
     \<and> taken (r_log t) @ dq_list (r_buffer t) = pushed (r_log t)
     \<and> (answered_once (w_log w) \<and> no_sink_error (w_log w) \<longrightarrow> sunk (w_log w) @ queued w = wrote (w_log w))"
proof -
  have c: "reader_keeper pipe_inv c" unfolding assms(4) by (rule pipe_keeper [OF assms(1)])
  from assms(5) obtain s where "pipe c (piped_pair rhwm whwm om ts) = Some s" "p_run cf c k xs s = Some t"
    by (auto simp: bind_eq_Some_conv)
  with piped_pair_start [OF c assms(2)] p_run_kept [OF c _ assms(3)] have "pipe_inv t" by blast
  then show ?thesis by (auto simp: pipe_inv_def joined_def stream_inv_def dest_ok_def ordered_def in_line_def assms(6))
qed

abbreviation slow_pipe :: "pipe_world reactor" where
  "slow_pipe \<equiv> react (pipe_listeners plain_config True (\<lambda>_ _. [])) 4"

text \<open>A full destination pauses the source, its completion lets the flow go on, the end is passed on.\<close>

abbreviation slow_steps :: "pipe_step list" where
  "slow_steps \<equiv> [SourceMicro, Source (RPush (BytesC [1])), Source (RPush (BytesC [2])), Dest (Call (Answer 0 None)) [],
     SourceMicro, Dest (Call (Answer 1 None)) [], Source (RPush NullC), SourceMicro]"

lemma pipe_lossless_witness:
  "\<exists>t. Option.bind (pipe slow_pipe (piped_pair None (Some 1) False []))
        (p_run plain_config slow_pipe 4 slow_steps) = Some t
     \<and> sunk (w_log (dest (r_world t))) @ queued (dest (r_world t)) = [BytesC [1], BytesC [2]]"
proof -
  let ?r = "Option.bind (pipe slow_pipe (piped_pair None (Some 1) False [])) (p_run plain_config slow_pipe 4 slow_steps)"
  have ok: "map_option (\<lambda>t. (emitted (r_log t), piped (r_world t), answered (w_log (dest (r_world t))),
      no_sink_error (w_log (dest (r_world t))))) ?r = Some ([BytesC [1], BytesC [2]], True, [0, 1], True)"
    by code_simp
  then obtain t where t: "?r = Some t" by (cases ?r) auto
  have "source_only (\<lambda>_ _. [])" "list_all (list_all sink_act) []" "list_all pipe_step_ok slow_steps"
    by (simp_all add: source_only_def changes_world_def)
  from pipe_lossless [OF this refl t refl] ok t have
    "sunk (w_log (dest (r_world t))) @ queued (dest (r_world t)) = [BytesC [1], BytesC [2]]"
    by (auto simp: answered_once_def)
  with t show ?thesis by blast
qed

text \<open>
  A two-byte character leaves a byte of length in the destination; with a high-water mark of 1 no
  \<open>drain\<close> ever comes and the source stays paused, with everything taken and nothing outstanding.
\<close>

theorem pipe_text_deadlock:
  "map_option (\<lambda>t. (r_flowing t, dq_list (r_buffer t), r_microtasks t, outstanding (w_log (dest (r_world t))),
        owes (w_log (dest (r_world t)))))
     (Option.bind (pipe slow_pipe (piped_pair None (Some 1) False []))
        (p_run plain_config slow_pipe 4
          [SourceMicro, Source (RPush (StrC [233])), Dest (Call (Answer 0 None)) [], Source (RPush (BytesC [2]))]))
   = Some (Some False, [BytesC [2]], [], [], True)"
  by code_simp

text \<open>After a sink error the pipe stands and a later chunk overtakes a queued one.\<close>

theorem pipe_error_overtakes:
  "map_option (\<lambda>t. (piped (r_world t), sunk (w_log (dest (r_world t))), queued (dest (r_world t))))
     (Option.bind (pipe slow_pipe (piped_pair None None False []))
        (p_run plain_config slow_pipe 4
          [SourceMicro, Source (RPush (BytesC [1])), Source (RPush (BytesC [2])),
           Dest (Call (Answer 0 (Some (SinkError 0)))) [], Source (RPush (BytesC [3]))]))
   = Some (True, [BytesC [1], BytesC [3]], [BytesC [2]])"
  by code_simp

end
