(* ===== verification/Shell_Base.thy ===== *)
theory Shell_Base
  imports Memfs_Run
begin

text \<open>
  What the commands of \<open>napi-bridge/shell-commands.js\<close> share: the state they run in (the file
  system of the runtime, the working directory of the process and the override of \<open>withCwd\<close>),
  their results, actions that may throw, and the JavaScript library they call on numbers and
  lists. Text is the list of its UTF-8 bytes; files are read as text only when they hold
  well-formed UTF-8, of which \<open>TextDecoder\<close> drops a leading byte order mark.
\<close>

section \<open>State and results\<close>

record shell =
  sh_fs :: fs
  sh_cwd :: string
  sh_override :: "string option"
  sh_env :: "(string \<times> string) list"
  sh_engine :: "js_exn \<Rightarrow> string" \<comment> \<open>the text of engine errors\<close>

record cmd_result =
  r_stdout :: string
  r_stderr :: string
  r_exit :: int

record cmd_options =
  o_env :: "(string \<times> string) list"
  o_stdin :: "string option"

type_synonym 'a act = "shell \<Rightarrow> (js_exn + 'a) \<times> shell"
type_synonym command = "string list \<Rightarrow> cmd_options \<Rightarrow> cmd_result act"

abbreviation newline :: char where "newline \<equiv> CHR 0x0A"
abbreviation tab :: char where "tab \<equiv> CHR 0x09"

definition ok :: "string \<Rightarrow> cmd_result" where
  "ok out = \<lparr>r_stdout = out, r_stderr = [], r_exit = 0\<rparr>"

definition fail :: "string \<Rightarrow> int \<Rightarrow> cmd_result" where
  "fail err code = \<lparr>r_stdout = [], r_stderr = err @ [newline], r_exit = code\<rparr>"

definition status :: "bool \<Rightarrow> cmd_result" where
  "status b = \<lparr>r_stdout = [], r_stderr = [], r_exit = (if b then 0 else 1)\<rparr>"

section \<open>Actions\<close>

definition ret :: "'a \<Rightarrow> 'a act" where
  "ret x s = (Inr x, s)"

definition raise :: "js_exn \<Rightarrow> 'a act" where
  "raise e s = (Inl e, s)"

definition bnd :: "'a act \<Rightarrow> ('a \<Rightarrow> 'b act) \<Rightarrow> 'b act" where
  "bnd m f s = (case m s of (Inl e, s1) \<Rightarrow> (Inl e, s1) | (Inr x, s1) \<Rightarrow> f x s1)"

definition try_catch :: "'a act \<Rightarrow> (js_exn \<Rightarrow> 'a act) \<Rightarrow> 'a act" where
  "try_catch m h s = (case m s of (Inl e, s1) \<Rightarrow> h e s1 | (Inr x, s1) \<Rightarrow> (Inr x, s1))"

text \<open>\<open>for (const x of xs) acc = f(acc, x)\<close>, left by the first exception.\<close>

fun for_each :: "('b \<Rightarrow> 'a \<Rightarrow> 'b act) \<Rightarrow> 'a list \<Rightarrow> 'b \<Rightarrow> 'b act" where
  "for_each f [] acc = ret acc"
| "for_each f (x # xs) acc = bnd (f acc x) (for_each f xs)"

definition on_fs :: "(fs \<Rightarrow> (js_exn + 'a) \<times> fs) \<Rightarrow> 'a act" where
  "on_fs f s = (case f (sh_fs s) of (r, t) \<Rightarrow> (r, s\<lparr>sh_fs := t\<rparr>))"

definition get :: "(shell \<Rightarrow> 'a) \<Rightarrow> 'a act" where
  "get f s = (Inr (f s), s)"

lemma act_simps [simp]:
  "bnd (ret x) f = f x" "bnd m ret = m" "bnd (bnd m f) g = bnd m (\<lambda>x. bnd (f x) g)"
  "bnd (raise e) f = raise e" "try_catch (ret x) h = ret x" "try_catch (raise e) h = h e"
  by (auto simp: bnd_def ret_def raise_def try_catch_def fun_eq_iff split: prod.splits sum.splits)

section \<open>Paths and files\<close>

definition work_dir :: "shell \<Rightarrow> string" where
  "work_dir s = (case sh_override s of Some d \<Rightarrow> if d = [] then sh_cwd s else d | None \<Rightarrow> sh_cwd s)"

definition norm :: "string \<Rightarrow> shell \<Rightarrow> string" where
  "norm p s = (if p = [] then ''/'' else resolvePath p (work_dir s))"

text \<open>The override is restored whatever happens.\<close>

definition withCwd :: "string \<Rightarrow> 'a act \<Rightarrow> 'a act" where
  "withCwd cwd fn s =
     (let (r, s1) = fn (s\<lparr>sh_override := Some cwd\<rparr>) in (r, s1\<lparr>sh_override := sh_override s\<rparr>))"

definition text_of :: "byte list \<Rightarrow> string" where
  "text_of bs = map (\<lambda>b. char_of (unat b)) (if take 3 bs = [0xEF, 0xBB, 0xBF] then drop 3 bs else bs)"

definition bytes_of :: "string \<Rightarrow> byte list" where
  "bytes_of t = map (\<lambda>c. of_nat (of_char c)) t"

definition readFileText :: "string \<Rightarrow> string act" where
  "readFileText p = bnd (on_fs (readFile p)) (\<lambda>data. ret (text_of data))"

definition fileExists :: "string \<Rightarrow> bool act" where
  "fileExists p = get (\<lambda>s. exists_path p (sh_fs s))"

definition isDir :: "string \<Rightarrow> bool act" where
  "isDir p = try_catch (bnd (on_fs (stat p)) (\<lambda>st. ret (stats_isDirectory st))) (\<lambda>e. ret False)"

definition isFile :: "string \<Rightarrow> bool act" where
  "isFile p = try_catch (bnd (on_fs (stat p)) (\<lambda>st. ret (stats_isFile st))) (\<lambda>e. ret False)"

definition read_names :: "string \<Rightarrow> string list act" where
  "read_names p = bnd (on_fs (readdir p)) (\<lambda>es. ret (map fst es))"

definition join_path :: "string \<Rightarrow> string \<Rightarrow> string" where
  "join_path dir name = (if dir = ''/'' then ''/'' @ name else dir @ ''/'' @ name)"

text \<open>\<open>e.message\<close>\<close>

definition message_of :: "js_exn \<Rightarrow> shell \<Rightarrow> string" where
  "message_of e s = (case e of FsExn x \<Rightarrow> e_message x | _ \<Rightarrow> sh_engine s e)"

section \<open>Library functions\<close>

definition show_int :: "int \<Rightarrow> string" where
  "show_int i = (if i < 0 then ''-'' @ nat_digits (nat (- i)) else nat_digits (nat i))"

definition dec_digit :: "char \<Rightarrow> bool" where
  "dec_digit c \<longleftrightarrow> c \<in> set ''0123456789''"

definition dec_value :: "string \<Rightarrow> nat" where
  "dec_value ds = foldl (\<lambda>n c. 10 * n + (of_char c - 48)) 0 ds"

definition white :: "char \<Rightarrow> bool" where
  "white c \<longleftrightarrow> c \<in> {CHR '' '', CHR 0x09, CHR 0x0A, CHR 0x0B, CHR 0x0C, CHR 0x0D}"

text \<open>\<open>parseInt(s, 10)\<close>, with \<^term>\<open>None\<close> for \<open>NaN\<close>; values below \<open>2^53\<close> are exact.\<close>

definition parseInt :: "string \<Rightarrow> int option" where
  "parseInt s =
     (let t = dropWhile white s;
          neg = starts_with t ''-'';
          u = (if neg \<or> starts_with t ''+'' then drop 1 t else t);
          ds = takeWhile dec_digit u
      in if ds = [] then None
         else Some (if neg then - int (dec_value ds) else int (dec_value ds)))"

text \<open>\<open>xs.slice(from)\<close> and \<open>xs.slice(0, to)\<close> for an integer or \<open>NaN\<close>.\<close>

definition slice_from :: "int option \<Rightarrow> 'a list \<Rightarrow> 'a list" where
  "slice_from from xs =
     (case from of None \<Rightarrow> xs
      | Some i \<Rightarrow> if i < 0 then drop (length xs - nat (- i)) xs else drop (nat i) xs)"

definition slice_to :: "int option \<Rightarrow> 'a list \<Rightarrow> 'a list" where
  "slice_to to xs =
     (case to of None \<Rightarrow> []
      | Some i \<Rightarrow> if i < 0 then take (length xs - nat (- i)) xs else take (nat i) xs)"

definition lines_of :: "string \<Rightarrow> string list" where
  "lines_of t = split_on newline t"

definition join_lines :: "string list \<Rightarrow> string" where
  "join_lines ls = join_with newline ls"

text \<open>\<open>t.trim().split(/\s+/).filter(Boolean)\<close>: the maximal runs of other characters.\<close>

fun words_of :: "string \<Rightarrow> string \<Rightarrow> string list" where
  "words_of cur [] = (if cur = [] then [] else [cur])"
| "words_of cur (c # cs) =
     (if white c then (if cur = [] then words_of [] cs else cur # words_of [] cs)
      else words_of (cur @ [c]) cs)"

text \<open>\<open>options && options._stdin\<close>, where the empty string is false.\<close>

definition stdin_of :: "cmd_options \<Rightarrow> string option" where
  "stdin_of o' = (case o_stdin o' of Some t \<Rightarrow> if t = [] then None else Some t | None \<Rightarrow> None)"

definition stdin_or_empty :: "cmd_options \<Rightarrow> string" where
  "stdin_or_empty o' = (case o_stdin o' of Some t \<Rightarrow> t | None \<Rightarrow> [])"

definition operands :: "string list \<Rightarrow> string list" where
  "operands args = filter (\<lambda>a. \<not> starts_with a ''-'') args"

text \<open>The flags of arguments that begin with a dash.\<close>

definition has_flag :: "char \<Rightarrow> string list \<Rightarrow> bool" where
  "has_flag c args = list_ex (\<lambda>a. starts_with a ''-'' \<and> c \<in> set a) args"

text \<open>Standard input when there is some, else the first operand: how most filters read.\<close>

definition input_text ::
  "string \<Rightarrow> string list \<Rightarrow> cmd_options \<Rightarrow> cmd_result \<Rightarrow> (string \<Rightarrow> cmd_result) \<Rightarrow> cmd_result act" where
  "input_text cmd paths o' none k =
     (case stdin_of o' of
        Some t \<Rightarrow> ret (k t)
      | None \<Rightarrow>
          (case paths of
             [] \<Rightarrow> ret none
           | p # _ \<Rightarrow>
               try_catch (bnd (get (norm p)) (\<lambda>path. bnd (readFileText path) (\<lambda>t. ret (k t))))
                 (\<lambda>e. ret (fail (cmd @ '': cannot open '' @ quote # p @ [quote]) 1))))"

end
