(* ===== verification/Line_Editor.thy ===== *)
theory Line_Editor
  imports Shell_Base
begin

text \<open>
  The interactive shell of \<open>napi-bridge/shell.js\<close>: line editing, history, completion, execution of
  a line and the small editor \<open>nano\<close>, driven by the text the terminal delivers to \<open>feed\<close>.

  What is written to the terminal is a list of control sequences. Characters are one code unit
  and one column wide. Running a command is a parameter, a function of the command, the directory,
  the environment and the file system (\<open>Shell_Exec\<close> models it); completion and saving work on
  the in-memory file system directly. Escaping exceptions end the call of \<open>feed\<close> they occur in.
\<close>

section \<open>State\<close>

datatype terminal_output =
    Text string \<comment> \<open>characters at the cursor\<close>
  | Back nat \<comment> \<open>\<open>ESC [ n D\<close>\<close>
  | Forward nat \<comment> \<open>\<open>ESC [ n C\<close>\<close>
  | ClearBelow \<comment> \<open>\<open>ESC [ 0 J\<close>\<close>
  | ClearScreen \<comment> \<open>\<open>ESC [ 2 J ESC [ H\<close>\<close>
  | Prompt string
  | Output string \<comment> \<open>whole lines, or what a command wrote\<close>
  | NanoScreen string "string list" int nat \<comment> \<open>title, 18 rows, cursor row and column\<close>
  | NanoStatus nat

record nano =
  nn_path :: string
  nn_displayPath :: string
  nn_lines :: "string list"
  nn_row :: nat
  nn_col :: nat
  nn_dirty :: bool
  nn_scrollTop :: nat

record editor =
  ed_cwd :: string
  ed_env :: "(string \<times> string) list"
  ed_line :: string
  ed_cursorPos :: nat
  ed_history :: "string list"
  ed_historyIdx :: "nat option"
  ed_historyTmp :: string
  ed_busy :: bool
  ed_nano :: "nano option"
  ed_fs :: fs
  ed_timers :: nat
  ed_out :: "terminal_output list"

record ran =
  ran_stdout :: string
  ran_stderr :: string
  ran_cwd :: "string option"
  ran_nano :: "(string \<times> string \<times> string) option"
  ran_async :: bool

datatype run_outcome = Threw string | Ran ran

datatype prompt_option = DefaultPrompt | PromptText string | PromptFunction "string \<Rightarrow> string \<Rightarrow> string"

record shell_options =
  so_run :: "string \<Rightarrow> string \<Rightarrow> (string \<times> string) list \<Rightarrow> fs \<Rightarrow> run_outcome \<times> fs"
  so_names :: "string list"
  so_prompt :: prompt_option

definition createShell :: "string \<Rightarrow> (string \<times> string) list \<Rightarrow> fs \<Rightarrow> editor" where
  "createShell dir env s =
     \<lparr>ed_cwd = (if dir = [] then ''/workspace'' else dir), ed_env = env, ed_line = [], ed_cursorPos = 0,
      ed_history = [], ed_historyIdx = None, ed_historyTmp = [], ed_busy = False, ed_nano = None,
      ed_fs = s, ed_timers = 0, ed_out = []\<rparr>"

section \<open>Writing\<close>

definition term_write :: "terminal_output \<Rightarrow> editor \<Rightarrow> editor" where
  "term_write x s = s\<lparr>ed_out := ed_out s @ [x]\<rparr>"

abbreviation esc :: char where "esc \<equiv> CHR 0x1B"

definition shortCwd :: "editor \<Rightarrow> string" where
  "shortCwd s =
     (let cwd = ed_cwd s;
          home = (case map_of (ed_env s) ''HOME'' of Some h \<Rightarrow> if h = [] then ''/home/user'' else h | None \<Rightarrow> ''/home/user'')
      in if cwd = ''/'' then ''/''
         else if cwd = home then ''~''
         else if starts_with cwd (home @ ''/'') then CHR ''~'' # drop (length home) cwd
         else cwd)"

definition printPrompt :: "shell_options \<Rightarrow> editor \<Rightarrow> editor" where
  "printPrompt cf s =
     term_write (Prompt
       (case so_prompt cf of
          PromptFunction f \<Rightarrow> f (ed_cwd s) (shortCwd s)
        | PromptText t \<Rightarrow> t
        | DefaultPrompt \<Rightarrow>
            (esc # ''[34m'') @ shortCwd s @ (esc # ''[0m '') @ (esc # ''[32m$ '') @ (esc # ''[0m''))) s"

definition move_back :: "nat \<Rightarrow> editor \<Rightarrow> editor" where
  "move_back n s = (if 0 < n then term_write (Back n) s else s)"

definition move_forward :: "nat \<Rightarrow> editor \<Rightarrow> editor" where
  "move_forward n s = (if 0 < n then term_write (Forward n) s else s)"

definition rewriteLine :: "nat \<Rightarrow> editor \<Rightarrow> editor" where
  "rewriteLine from s =
     move_back (length (ed_line s) - ed_cursorPos s)
       (term_write (Text (ed_line s)) (term_write ClearBelow (move_back from s)))"

text \<open>\<open>s.replace(/\n/g, '\r\n')\<close>\<close>

definition crlf :: "string \<Rightarrow> string" where
  "crlf t = concat (map (\<lambda>c. if c = newline then [CHR 0x0D, newline] else [c]) t)"

definition red :: "string \<Rightarrow> string" where
  "red t = (esc # ''[31m'') @ t @ (esc # ''[0m'')"

definition report :: "string \<Rightarrow> string \<Rightarrow> editor \<Rightarrow> editor" where
  "report out err s =
     (let s1 = (if out \<noteq> [] then term_write (Output (crlf out)) s else s)
      in if err \<noteq> [] then term_write (Output (red (crlf err))) s1 else s1)"

section \<open>nano\<close>

definition line_at :: "string list \<Rightarrow> nat \<Rightarrow> string" where
  "line_at ls i = (if i < length ls then ls ! i else [])"

definition splice_in :: "nat \<Rightarrow> 'a \<Rightarrow> 'a list \<Rightarrow> 'a list" where
  "splice_in i x xs = take i xs @ x # drop i xs"

definition splice_out :: "nat \<Rightarrow> 'a list \<Rightarrow> 'a list" where
  "splice_out i xs = take i xs @ drop (Suc i) xs"

definition renderNano :: "editor \<Rightarrow> editor" where
  "renderNano s =
     (case ed_nano s of
        None \<Rightarrow> s
      | Some n \<Rightarrow>
          term_write (NanoScreen (nn_displayPath n @ (if nn_dirty n then '' [Modified]'' else []))
                  (map (\<lambda>i. line_at (nn_lines n) (nn_scrollTop n + i)) [0..<18])
                  (int (nn_row n) - int (nn_scrollTop n) + 2) (nn_col n + 1)) s)"

definition enterNano :: "string \<times> string \<times> string \<Rightarrow> editor \<Rightarrow> editor" where
  "enterNano q s =
     (case q of (path, display, content) \<Rightarrow>
        renderNano (s\<lparr>ed_nano := Some \<lparr>nn_path = path, nn_displayPath = display, nn_lines = lines_of content,
                        nn_row = 0, nn_col = 0, nn_dirty = False, nn_scrollTop = 0\<rparr>,
                      ed_busy := False\<rparr>))"

definition nano_cut :: "nano \<Rightarrow> nano" where
  "nano_cut n =
     (if 1 < length (nn_lines n) then
        let ls = splice_out (nn_row n) (nn_lines n)
        in n\<lparr>nn_lines := ls, nn_row := (if length ls \<le> nn_row n then length ls - 1 else nn_row n),
             nn_col := 0, nn_dirty := True\<rparr>
      else n\<lparr>nn_lines := (nn_lines n)[0 := []], nn_col := 0, nn_dirty := True\<rparr>)"

definition nano_enter :: "nano \<Rightarrow> nano" where
  "nano_enter n =
     (let cur = line_at (nn_lines n) (nn_row n); row = Suc (nn_row n)
      in n\<lparr>nn_lines := splice_in row (drop (nn_col n) cur) ((nn_lines n)[nn_row n := take (nn_col n) cur]),
           nn_row := row, nn_col := 0, nn_dirty := True,
           nn_scrollTop := (if nn_scrollTop n + 18 \<le> row then Suc (nn_scrollTop n) else nn_scrollTop n)\<rparr>)"

definition nano_backspace :: "nano \<Rightarrow> nano" where
  "nano_backspace n =
     (let r = nn_row n; cur = line_at (nn_lines n) r
      in if 0 < nn_col n then
           n\<lparr>nn_lines := (nn_lines n)[r := take (nn_col n - 1) cur @ drop (nn_col n) cur],
             nn_col := nn_col n - 1, nn_dirty := True\<rparr>
         else if 0 < r then
           (let pre = line_at (nn_lines n) (r - 1)
            in n\<lparr>nn_lines := splice_out r ((nn_lines n)[r - 1 := pre @ cur]),
                 nn_row := r - 1, nn_col := length pre, nn_dirty := True\<rparr>)
         else n)"

definition nano_insert :: "char \<Rightarrow> nano \<Rightarrow> nano" where
  "nano_insert c n =
     (let cur = line_at (nn_lines n) (nn_row n)
      in n\<lparr>nn_lines := (nn_lines n)[nn_row n := take (nn_col n) cur @ c # drop (nn_col n) cur],
           nn_col := Suc (nn_col n), nn_dirty := True\<rparr>)"

definition nano_arrow :: "char option \<Rightarrow> nano \<Rightarrow> nano" where
  "nano_arrow sq n =
     (let r = nn_row n; ls = nn_lines n in
      if sq = Some CHR ''A'' \<and> 0 < r then
        n\<lparr>nn_row := r - 1, nn_col := min (nn_col n) (length (line_at ls (r - 1))),
          nn_scrollTop := (if r - 1 < nn_scrollTop n then r - 1 else nn_scrollTop n)\<rparr>
      else if sq = Some CHR ''B'' \<and> Suc r < length ls then
        n\<lparr>nn_row := Suc r, nn_col := min (nn_col n) (length (line_at ls (Suc r))),
          nn_scrollTop := (if nn_scrollTop n + 18 \<le> Suc r then Suc r - 17 else nn_scrollTop n)\<rparr>
      else if sq = Some CHR ''C'' then
        (if nn_col n < length (line_at ls r) then n\<lparr>nn_col := Suc (nn_col n)\<rparr> else n)
      else if sq = Some CHR ''D'' then n\<lparr>nn_col := nn_col n - 1\<rparr>
      else n)"

definition on_nano :: "(nano \<Rightarrow> nano) \<Rightarrow> editor \<Rightarrow> editor" where
  "on_nano f s = renderNano (s\<lparr>ed_nano := map_option f (ed_nano s)\<rparr>)"

text \<open>Saving schedules a later \<open>renderNano\<close>; the truth value says that an exception escaped.\<close>

definition nano_save :: "editor \<Rightarrow> editor \<times> bool" where
  "nano_save s =
     (case ed_nano s of
        None \<Rightarrow> (s, False)
      | Some n \<Rightarrow>
          (case writeFile (nn_path n) (bytes_of (join_lines (nn_lines n))) (ed_fs s) of
             (Inl e, t) \<Rightarrow> (s\<lparr>ed_fs := t\<rparr>, True)
           | (Inr _, t) \<Rightarrow>
               (term_write (NanoStatus (length (nn_lines n)))
                  (s\<lparr>ed_fs := t, ed_nano := Some (n\<lparr>nn_dirty := False\<rparr>), ed_timers := Suc (ed_timers s)\<rparr>), False)))"

definition is_backspace :: "char \<Rightarrow> bool" where
  "is_backspace c \<longleftrightarrow> c = CHR 0x7F \<or> c = CHR 0x08"

definition is_return :: "char \<Rightarrow> bool" where
  "is_return c \<longleftrightarrow> c = CHR 0x0D \<or> c = newline"

definition printable :: "char \<Rightarrow> bool" where
  "printable c \<longleftrightarrow> 32 \<le> (of_char c :: nat)"

text \<open>Most keys end the call, whatever else the terminal has delivered.\<close>

function nano_keys :: "shell_options \<Rightarrow> string \<Rightarrow> editor \<Rightarrow> editor \<times> bool" where
  "nano_keys cf [] s = (s, False)"
| "nano_keys cf (c # cs) s =
     (if c = CHR 0x18 then (printPrompt cf (term_write ClearScreen (s\<lparr>ed_nano := None\<rparr>)), False)
      else if c = CHR 0x0F then nano_save s
      else if c = CHR 0x0B then (on_nano nano_cut s, False)
      else if is_return c then (on_nano nano_enter s, False)
      else if is_backspace c then (on_nano nano_backspace s, False)
      else if c = esc \<and> cs \<noteq> [] \<and> hd cs = CHR ''['' then
        nano_keys cf (drop 2 cs) (on_nano (nano_arrow (case tl cs of [] \<Rightarrow> None | q # _ \<Rightarrow> Some q)) s)
      else if printable c then nano_keys cf cs (on_nano (nano_insert c) s)
      else nano_keys cf cs s)"
  by pat_completeness auto
termination by (relation "measure (\<lambda>(cf, cs, s). length cs)") auto

section \<open>Executing a line\<close>

definition trim :: "string \<Rightarrow> string" where
  "trim t = rev (dropWhile white (rev (dropWhile white t)))"

definition remember :: "string \<Rightarrow> string list \<Rightarrow> string list" where
  "remember t h =
     (if h = [] \<or> last h \<noteq> t then let h' = h @ [t] in if 200 < length h' then drop 1 h' else h' else h)"

definition execute :: "shell_options \<Rightarrow> string \<Rightarrow> editor \<Rightarrow> editor" where
  "execute cf cmd s =
     (let t = trim cmd in
      if t = [] then printPrompt cf s
      else
        let s1 = s\<lparr>ed_history := remember t (ed_history s), ed_historyIdx := None, ed_busy := True\<rparr>;
            (r, f) = so_run cf t (ed_cwd s1) (ed_env s1) (ed_fs s1);
            s2 = s1\<lparr>ed_fs := f\<rparr>
        in case r of
             Threw m \<Rightarrow> printPrompt cf ((term_write (Output (red m @ [CHR 0x0D, newline])) s2)\<lparr>ed_busy := False\<rparr>)
           | Ran q \<Rightarrow>
               let s3 = (case ran_cwd q of Some d \<Rightarrow> if d \<noteq> [] then s2\<lparr>ed_cwd := d\<rparr> else s2 | None \<Rightarrow> s2)
               in case ran_nano q of
                    Some o' \<Rightarrow> enterNano o' s3
                  | None \<Rightarrow>
                      if ran_async q then s3
                      else printPrompt cf ((report (ran_stdout q) (ran_stderr q) s3)\<lparr>ed_busy := False\<rparr>))"

text \<open>The promise of an asynchronous command settles: its output, or the message of its error.\<close>

definition settled_async :: "shell_options \<Rightarrow> (string + string \<times> string) \<Rightarrow> editor \<Rightarrow> editor" where
  "settled_async cf r s =
     printPrompt cf
       ((case r of
           Inl m \<Rightarrow> term_write (Output (red m @ [CHR 0x0D, newline])) s
         | Inr (out, err) \<Rightarrow> report out err s)\<lparr>ed_busy := False\<rparr>)"

section \<open>Line editing\<close>

definition set_line :: "string \<Rightarrow> nat \<Rightarrow> editor \<Rightarrow> editor" where
  "set_line l n s = rewriteLine (ed_cursorPos s) (s\<lparr>ed_line := l, ed_cursorPos := n\<rparr>)"

definition redisplay :: "shell_options \<Rightarrow> editor \<Rightarrow> editor" where
  "redisplay cf s =
     move_back (length (ed_line s) - ed_cursorPos s) (term_write (Text (ed_line s)) (printPrompt cf s))"

definition line_start :: "editor \<Rightarrow> editor" where
  "line_start s = (if 0 < ed_cursorPos s then (term_write (Back (ed_cursorPos s)) s)\<lparr>ed_cursorPos := 0\<rparr> else s)"

definition line_end :: "editor \<Rightarrow> editor" where
  "line_end s =
     (let diff = length (ed_line s) - ed_cursorPos s
      in if 0 < diff then (term_write (Forward diff) s)\<lparr>ed_cursorPos := length (ed_line s)\<rparr> else s)"

definition kill_to_end :: "editor \<Rightarrow> editor" where
  "kill_to_end s = (term_write ClearBelow s)\<lparr>ed_line := take (ed_cursorPos s) (ed_line s)\<rparr>"

text \<open>The two loops of Ctrl+W: over blanks, then over the word.\<close>

fun skip_left :: "(char \<Rightarrow> bool) \<Rightarrow> string \<Rightarrow> nat \<Rightarrow> nat" where
  "skip_left p l 0 = 0"
| "skip_left p l (Suc i) = (if p (l ! i) then skip_left p l i else Suc i)"

definition word_start :: "string \<Rightarrow> nat \<Rightarrow> nat" where
  "word_start l n = skip_left (\<lambda>c. c \<noteq> CHR '' '') l (skip_left (\<lambda>c. c = CHR '' '') l (n - 1))"

definition delete_word :: "editor \<Rightarrow> editor" where
  "delete_word s =
     (if 0 < ed_cursorPos s then
        let st = word_start (ed_line s) (ed_cursorPos s)
        in set_line (take st (ed_line s) @ drop (ed_cursorPos s) (ed_line s)) st s
      else s)"

definition delete_back :: "editor \<Rightarrow> editor" where
  "delete_back s =
     (let n = ed_cursorPos s
      in if 0 < n then set_line (take (n - 1) (ed_line s) @ drop n (ed_line s)) (n - 1) s else s)"

definition delete_forward :: "editor \<Rightarrow> editor" where
  "delete_forward s =
     (let n = ed_cursorPos s
      in if n < length (ed_line s) then set_line (take n (ed_line s) @ drop (Suc n) (ed_line s)) n s else s)"

definition history_up :: "editor \<Rightarrow> editor" where
  "history_up s =
     (let h = ed_history s in
      if h \<noteq> [] then
        let s1 = (case ed_historyIdx s of
                    None \<Rightarrow> s\<lparr>ed_historyTmp := ed_line s, ed_historyIdx := Some (length h - 1)\<rparr>
                  | Some i \<Rightarrow> s\<lparr>ed_historyIdx := Some (i - 1)\<rparr>);
            l = (case ed_historyIdx s1 of Some i \<Rightarrow> h ! i | None \<Rightarrow> [])
        in set_line l (length l) s1
      else s)"

definition history_down :: "editor \<Rightarrow> editor" where
  "history_down s =
     (case ed_historyIdx s of
        None \<Rightarrow> s
      | Some i \<Rightarrow>
          if length (ed_history s) \<le> Suc i
          then set_line (ed_historyTmp s) (length (ed_historyTmp s)) (s\<lparr>ed_historyIdx := None\<rparr>)
          else set_line (ed_history s ! Suc i) (length (ed_history s ! Suc i)) (s\<lparr>ed_historyIdx := Some (Suc i)\<rparr>))"

definition right_arrow :: "editor \<Rightarrow> editor" where
  "right_arrow s =
     (if ed_cursorPos s < length (ed_line s)
      then (term_write (Forward 1) s)\<lparr>ed_cursorPos := Suc (ed_cursorPos s)\<rparr> else s)"

definition left_arrow :: "editor \<Rightarrow> editor" where
  "left_arrow s =
     (if 0 < ed_cursorPos s then (term_write (Back 1) s)\<lparr>ed_cursorPos := ed_cursorPos s - 1\<rparr> else s)"

definition insert_char :: "char \<Rightarrow> editor \<Rightarrow> editor" where
  "insert_char c s =
     (let n = ed_cursorPos s; l = take n (ed_line s) @ c # drop n (ed_line s);
          s1 = s\<lparr>ed_line := l, ed_cursorPos := Suc n\<rparr>
      in if Suc n < length l then rewriteLine n s1 else term_write (Text [c]) s1)"

section \<open>Completion\<close>

text \<open>Each match is looked up again to mark directories; a failing \<open>stat\<close> leaves the name as it is.\<close>

fun file_matches :: "string \<Rightarrow> string \<Rightarrow> string list \<Rightarrow> fs \<Rightarrow> string list \<times> fs" where
  "file_matches dir pre [] f = ([], f)"
| "file_matches dir pre (n # ns) f =
     (case stat (join_path dir n) f of
        (r, f1) \<Rightarrow>
          (case file_matches dir pre ns f1 of
             (ms, f2) \<Rightarrow>
               ((pre @ n @ (case r of Inr st \<Rightarrow> if stats_isDirectory st then ''/'' else [] | Inl _ \<Rightarrow> [])) # ms, f2)))"

definition matches_for :: "shell_options \<Rightarrow> bool \<Rightarrow> string \<Rightarrow> editor \<Rightarrow> string list \<times> fs" where
  "matches_for cf first pfx s =
     (if first then (filter (\<lambda>c. starts_with c pfx) (so_names cf), ed_fs s)
      else
        let (dir, pre, name) =
          (case last_index_of CHR ''/'' pfx of
             None \<Rightarrow> (ed_cwd s, [], pfx)
           | Some i \<Rightarrow>
               (resolvePath (if take i pfx = [] then ''/'' else take i pfx) (ed_cwd s),
                take (Suc i) pfx, drop (Suc i) pfx))
        in case readdir dir (ed_fs s) of
             (Inl e, f) \<Rightarrow> ([], f)
           | (Inr es, f) \<Rightarrow> file_matches dir pre (filter (\<lambda>e. starts_with e name) (map fst es)) f)"

text \<open>
  A single match is put into the line; then \<open>redrawLine\<close> is called, which is not defined, and the
  \<open>ReferenceError\<close> escapes.
\<close>

definition complete_line :: "shell_options \<Rightarrow> editor \<Rightarrow> editor \<times> bool" where
  "complete_line cf s =
     (let upTo = take (ed_cursorPos s) (ed_line s);
          st = (case last_index_of CHR '' '' upTo of None \<Rightarrow> 0 | Some i \<Rightarrow> Suc i);
          first = (last_index_of CHR '' '' upTo = None);
          (ms, f) = matches_for cf first (drop st upTo) s;
          s1 = s\<lparr>ed_fs := f\<rparr>
      in case ms of
           [] \<Rightarrow> (s1, False)
         | [m] \<Rightarrow>
             let completion = m @ (if first then '' '' else []); before = take st (ed_line s)
             in (s1\<lparr>ed_line := before @ completion @ drop (ed_cursorPos s) (ed_line s),
                    ed_cursorPos := length before + length completion\<rparr>, True)
         | _ \<Rightarrow>
             (redisplay cf
                (term_write (Output ([CHR 0x0D, newline] @ concat (map (\<lambda>m. m @ ''  '') (butlast ms)) @ last ms
                               @ [CHR 0x0D, newline])) s1), False))"

section \<open>Keys\<close>

definition in_params :: "char \<Rightarrow> bool" where
  "in_params c \<longleftrightarrow> 48 \<le> (of_char c :: nat) \<and> (of_char c :: nat) \<le> 63"

text \<open>What follows \<open>ESC [\<close>: the state after the key, and what is left of the data.\<close>

definition escape_key :: "string \<Rightarrow> editor \<Rightarrow> editor \<times> string" where
  "escape_key cs s =
     (case cs of
        [] \<Rightarrow> (s, [])
      | q # r \<Rightarrow>
          if q = CHR ''A'' then (history_up s, r)
          else if q = CHR ''B'' then (history_down s, r)
          else if q = CHR ''C'' then (right_arrow s, r)
          else if q = CHR ''D'' then (left_arrow s, r)
          else if q = CHR ''H'' then (line_start s, r)
          else if q = CHR ''F'' then (line_end s, r)
          else if q = CHR ''3'' \<and> r \<noteq> [] \<and> hd r = CHR ''~'' then (delete_forward s, tl r)
          else (s, drop 1 (dropWhile in_params cs)))"

lemma escape_key_shorter: "length (snd (escape_key cs s)) \<le> length cs"
proof (cases cs)
  case (Cons q r)
  have "length (drop 1 (dropWhile in_params cs)) \<le> length cs"
    using length_dropWhile_le [of in_params cs] by (simp only: length_drop)
  then have "length (snd (if b then (x, tl r) else (s, drop 1 (dropWhile in_params cs)))) \<le> length cs" for b x
    unfolding Cons by (cases b) simp_all
  then show ?thesis unfolding escape_key_def Cons list.case by (simp only: if_distrib [of snd] if_distrib [of length] snd_conv) simp
qed (simp add: escape_key_def)

text \<open>The keys that neither end the call nor start a sequence.\<close>

definition plain_key :: "shell_options \<Rightarrow> char \<Rightarrow> editor \<Rightarrow> editor" where
  "plain_key cf c s =
     (if c = CHR 0x04 then s
      else if c = CHR 0x0C then redisplay cf (term_write ClearScreen s)
      else if c = CHR 0x01 then line_start s
      else if c = CHR 0x05 then line_end s
      else if c = CHR 0x15 then set_line [] 0 s
      else if c = CHR 0x0B then kill_to_end s
      else if c = CHR 0x17 then delete_word s
      else if is_backspace c then delete_back s
      else if printable c then insert_char c s
      else s)"

function feed_keys :: "shell_options \<Rightarrow> string \<Rightarrow> editor \<Rightarrow> editor \<times> bool" where
  "feed_keys cf [] s = (s, False)"
| "feed_keys cf (c # cs) s =
     (if is_return c then
        (execute cf (ed_line s) ((term_write (Output [CHR 0x0D, newline]) s)\<lparr>ed_line := [], ed_cursorPos := 0\<rparr>), False)
      else if c = CHR 0x03 then
        (printPrompt cf ((term_write (Output (''^C'' @ [CHR 0x0D, newline])) s)\<lparr>ed_line := [], ed_cursorPos := 0\<rparr>), False)
      else if c = esc \<and> cs \<noteq> [] then
        (if hd cs = CHR ''['' then
           (let (s1, rest) = escape_key (tl cs) s in feed_keys cf rest s1)
         else feed_keys cf (tl cs) s)
      else if c = tab then
        (let (s1, threw) = complete_line cf s in if threw then (s1, True) else feed_keys cf cs s1)
      else feed_keys cf cs (plain_key cf c s))"
  by pat_completeness auto
termination
proof (relation "measure (\<lambda>(cf, cs, s). length cs)", goal_cases)
  case (2 cf c cs s x s1 rest)
  then have "rest = snd (escape_key (tl cs) s)" by (metis snd_conv)
  with 2 escape_key_shorter [of "tl cs" s] show ?case by (cases cs) auto
qed auto

definition feed :: "shell_options \<Rightarrow> string \<Rightarrow> editor \<Rightarrow> editor \<times> bool" where
  "feed cf data s =
     (if ed_nano s \<noteq> None then nano_keys cf data s
      else if ed_busy s then (s, False)
      else feed_keys cf data s)"

section \<open>The rest of the interface\<close>

definition prompt :: "shell_options \<Rightarrow> editor \<Rightarrow> editor" where
  "prompt cf s = printPrompt cf s"

definition setCwd :: "string \<Rightarrow> editor \<Rightarrow> editor" where
  "setCwd nxt s = (if nxt \<noteq> [] then s\<lparr>ed_cwd := nxt\<rparr> else s)"

definition setHistory :: "string list \<Rightarrow> editor \<Rightarrow> editor" where
  "setHistory es s = s\<lparr>ed_history := drop (length es - 200) es, ed_historyIdx := None\<rparr>"

text \<open>The timer set by a save draws the screen again, if the editor is still open.\<close>

definition timer :: "editor \<Rightarrow> editor" where
  "timer s = renderNano (s\<lparr>ed_timers := ed_timers s - 1\<rparr>)"

datatype shell_step = Feed string | AsyncDone "string + string \<times> string" | Timer | SetCwd string | SetHistory "string list"

definition shell_step :: "shell_options \<Rightarrow> editor \<Rightarrow> shell_step \<Rightarrow> editor" where
  "shell_step cf s x =
     (case x of
        Feed data \<Rightarrow> fst (feed cf data s)
      | AsyncDone r \<Rightarrow> if ed_busy s then settled_async cf r s else s
      | Timer \<Rightarrow> if 0 < ed_timers s then timer s else s
      | SetCwd d \<Rightarrow> setCwd d s
      | SetHistory h \<Rightarrow> setHistory h s)"

definition shell_run :: "shell_options \<Rightarrow> editor \<Rightarrow> shell_step list \<Rightarrow> editor" where
  "shell_run cf s xs = foldl (shell_step cf) s xs"

end
