(* ===== verification/Session.thy ===== *)
theory Session
  imports Line_Editor
begin

text \<open>
  Saving and restoring a session (\<open>napi-bridge/session-persistence.js\<close>): the files under the
  persisted prefixes, the shell's directory and history, and the environment. The browser's
  IndexedDB is a record with one field per key; that a put fails is a parameter. The shell and its
  file system are those of \<open>Line_Editor\<close> (the variant without a booted runtime, whose calls are the
  same operations); overlapping calls of \<open>saveSession\<close>, which share one promise, are one call.
\<close>

section \<open>State\<close>

record shell_record =
  sr_cwd :: string
  sr_history :: "string list"
  sr_env :: "(string \<times> string) list"

record session_db =
  db_schema :: "nat option"
  db_files :: "(string \<times> byte list) list option"
  db_shell :: "shell_record option"

record session_world =
  sw_editor :: editor
  sw_env :: "(string \<times> string) list"
  sw_initialFiles :: "(string \<times> byte list) list"
  sw_db :: session_db
  sw_lastSaveAt :: int

definition SCHEMA_VERSION :: nat where
  "SCHEMA_VERSION = 1"

definition PERSIST_PREFIXES :: "string list" where
  "PERSIST_PREFIXES = [''/workspace'', ''/home/user'']"

definition SKIP_SUBPATHS :: "string list" where
  "SKIP_SUBPATHS = [''/home/user/.node-in-tab'', ''/home/user/.cache'']"

definition under :: "string \<Rightarrow> string \<Rightarrow> bool" where
  "under path p \<longleftrightarrow> path = p \<or> starts_with path (p @ ''/'')"

definition shouldPersist :: "string \<Rightarrow> bool" where
  "shouldPersist path \<longleftrightarrow> list_ex (under path) PERSIST_PREFIXES \<and> \<not> list_ex (under path) SKIP_SUBPATHS"

section \<open>Saving\<close>

definition collectFiles :: "fs \<Rightarrow> (string \<times> byte list) list option" where
  "collectFiles s =
     (case snapshotFull s of
        None \<Rightarrow> None
      | Some (_, _, sn) \<Rightarrow>
          Some (map (\<lambda>(p, f). (p, ff_content f)) (filter (\<lambda>(p, f). shouldPersist p) (sn_files sn))))"

text \<open>
  The puts in their order, \<open>live\<close> when the shell exists already; \<open>fails = Some i\<close> is a failure of put \<open>i\<close>, which ends the save. An
  exception of the snapshot ends it before the first.
\<close>

definition saveSession :: "bool \<Rightarrow> bool \<Rightarrow> int \<Rightarrow> nat option \<Rightarrow> session_world \<Rightarrow> bool \<times> session_world" where
  "saveSession live force now fails w =
     (if \<not> force \<and> now - sw_lastSaveAt w < 2000 then (False, w)
      else
        case collectFiles (ed_fs (sw_editor w)) of
          None \<Rightarrow> (False, w)
        | Some files \<Rightarrow>
            if fails = Some 0 then (False, w)
            else
              let w1 = w\<lparr>sw_db := (sw_db w)\<lparr>db_schema := Some SCHEMA_VERSION\<rparr>\<rparr> in
              if fails = Some 1 then (False, w1)
              else
                let w2 = w1\<lparr>sw_db := (sw_db w1)\<lparr>db_files := Some files\<rparr>\<rparr> in
                if fails = Some 2 then (False, w2)
                else
                  let sr = \<lparr>sr_cwd = (if live then ed_cwd (sw_editor w) else ''/workspace''),
                            sr_history = (if live then ed_history (sw_editor w) else []), sr_env = sw_env w\<rparr>
                  in (True, w2\<lparr>sw_db := (sw_db w2)\<lparr>db_shell := Some sr\<rparr>, sw_lastSaveAt := now\<rparr>))"

section \<open>Restoring\<close>

text \<open>\<open>path.replace(/\/[^/]+$/, '') || '/'\<close>\<close>

definition dir_of_path :: "string \<Rightarrow> string" where
  "dir_of_path p =
     (let d = (case last_index_of CHR ''/'' p of
                 None \<Rightarrow> p
               | Some i \<Rightarrow> if drop (Suc i) p \<noteq> [] then take i p else p)
      in if d = [] then ''/'' else d)"

text \<open>A file that cannot be written is skipped; the others are counted.\<close>

definition restore_file :: "string \<Rightarrow> byte list \<Rightarrow> fs \<Rightarrow> (js_exn + unit) \<times> fs" where
  "restore_file p d s =
     (case mkdir (dir_of_path p) True s of
        (Inl e, s1) \<Rightarrow> (Inl e, s1)
      | (Inr _, s1) \<Rightarrow> writeFile p d s1)"

fun restore_files :: "(string \<times> byte list) list \<Rightarrow> fs \<Rightarrow> nat \<times> fs" where
  "restore_files [] s = (0, s)"
| "restore_files ((p, d) # files) s =
     (case restore_file p d s of
        (Inl e, s1) \<Rightarrow> restore_files files s1
      | (Inr _, s1) \<Rightarrow> (case restore_files files s1 of (n, s2) \<Rightarrow> (Suc n, s2)))"

definition set_all :: "(string \<times> 'v) list \<Rightarrow> (string \<times> 'v) list \<Rightarrow> (string \<times> 'v) list" where
  "set_all new old = foldl (\<lambda>m (k, v). AList.update k v m) old new"

record restore_result =
  rs_restored :: bool
  rs_files :: nat
  rs_cwd :: "string option"
  rs_historyLength :: nat

definition nothing_restored :: restore_result where
  "nothing_restored = \<lparr>rs_restored = False, rs_files = 0, rs_cwd = None, rs_historyLength = 0\<rparr>"

definition restoreSession :: "bool \<Rightarrow> session_world \<Rightarrow> restore_result \<times> session_world" where
  "restoreSession live w =
     (let db = sw_db w in
      if db_schema db \<noteq> Some SCHEMA_VERSION then (nothing_restored, w)
      else if db_files db = None \<and> db_shell db = None then (nothing_restored, w)
      else
        let (n, w1) =
          (case db_files db of
             None \<Rightarrow> (0, w)
           | Some files \<Rightarrow>
               (case restore_files files (ed_fs (sw_editor w)) of
                  (n, f) \<Rightarrow> (n, w\<lparr>sw_initialFiles := set_all files (sw_initialFiles w),
                               sw_editor := (sw_editor w)\<lparr>ed_fs := f\<rparr>\<rparr>)))
        in case db_shell db of
             None \<Rightarrow> (\<lparr>rs_restored = True, rs_files = n, rs_cwd = None, rs_historyLength = 0\<rparr>, w1)
           | Some sr \<Rightarrow>
               (\<lparr>rs_restored = True, rs_files = n, rs_cwd = (if live then Some (sr_cwd sr) else None),
                 rs_historyLength = (if live then length (sr_history sr) else 0)\<rparr>,
                w1\<lparr>sw_editor := (if live then setHistory (sr_history sr) (setCwd (sr_cwd sr) (sw_editor w1)) else sw_editor w1),
                   sw_env := set_all (sr_env sr) (sw_env w1)\<rparr>))"

definition clearSession :: "session_world \<Rightarrow> session_world" where
  "clearSession w = w\<lparr>sw_db := \<lparr>db_schema = None, db_files = None, db_shell = None\<rparr>\<rparr>"

section \<open>Hooks\<close>

text \<open>\<open>installSessionHooks\<close>: an optional restore, then a forced save on each of the page's events.\<close>

datatype page_event = PageHide | BeforeUnload | VisibilityHidden | VisibilityVisible

definition on_page_event :: "bool \<Rightarrow> bool \<Rightarrow> int \<Rightarrow> nat option \<Rightarrow> page_event \<Rightarrow> session_world \<Rightarrow> session_world" where
  "on_page_event autosave live now fails ev w =
     (if autosave \<and> ev \<noteq> VisibilityVisible then snd (saveSession live True now fails w) else w)"

definition installSessionHooks :: "bool \<Rightarrow> bool \<Rightarrow> session_world \<Rightarrow> session_world" where
  "installSessionHooks restore live w = (if restore then snd (restoreSession live w) else w)"

end
