(* ===== verification/Line_Editor_Props.thy ===== *)
theory Line_Editor_Props
  imports Line_Editor
begin

text \<open>
  The interactive shell keeps its cursor, its history and the editor's position in range for every
  input; the input line on the screen is the line of the state, cursor included; and \<open>nano\<close>
  implements a text with a gap at the cursor.
\<close>

section \<open>Positions are in range\<close>

definition nano_ok :: "nano \<Rightarrow> bool" where
  "nano_ok n \<longleftrightarrow> nn_row n < length (nn_lines n) \<and> nn_col n \<le> length (nn_lines n ! nn_row n)"

definition ed_ok :: "editor \<Rightarrow> bool" where
  "ed_ok s \<longleftrightarrow> ed_cursorPos s \<le> length (ed_line s) \<and> length (ed_history s) \<le> 200
     \<and> pred_option (\<lambda>i. i < length (ed_history s)) (ed_historyIdx s)
     \<and> pred_option nano_ok (ed_nano s)"

text \<open>The part of the state that writing to the terminal leaves alone.\<close>

definition quiet_same :: "editor \<Rightarrow> editor \<Rightarrow> bool" where
  "quiet_same s t \<longleftrightarrow> (\<exists>out. t = s\<lparr>ed_out := out\<rparr>)"

lemma output_same [simp]:
  "ed_line (term_write x s) = ed_line s" "ed_cursorPos (term_write x s) = ed_cursorPos s"
  "ed_history (term_write x s) = ed_history s" "ed_historyIdx (term_write x s) = ed_historyIdx s"
  "ed_nano (term_write x s) = ed_nano s" "ed_busy (term_write x s) = ed_busy s"
  "ed_fs (term_write x s) = ed_fs s" "ed_cwd (term_write x s) = ed_cwd s" "ed_env (term_write x s) = ed_env s"
  "ed_historyTmp (term_write x s) = ed_historyTmp s" "ed_out (term_write x s) = ed_out s @ [x]"
  by (simp_all add: term_write_def)

lemma ok_write [simp]: "ed_ok (term_write x s) = ed_ok s"
  by (simp add: ed_ok_def)

lemma ok_outputs [simp]:
  "ed_ok (printPrompt cf s) = ed_ok s" "ed_ok (move_back n s) = ed_ok s" "ed_ok (move_forward n s) = ed_ok s"
  "ed_ok (rewriteLine n s) = ed_ok s" "ed_ok (report a b s) = ed_ok s" "ed_ok (renderNano s) = ed_ok s"
  "ed_ok (redisplay cf s) = ed_ok s"
  by (simp_all add: printPrompt_def move_back_def move_forward_def rewriteLine_def report_def Let_def
      renderNano_def redisplay_def split: option.split)

lemma line_fields [simp]:
  "ed_line (move_back n s) = ed_line s" "ed_cursorPos (move_back n s) = ed_cursorPos s"
  "ed_history (move_back n s) = ed_history s" "ed_historyIdx (move_back n s) = ed_historyIdx s"
  "ed_nano (move_back n s) = ed_nano s" "ed_busy (move_back n s) = ed_busy s"
  by (simp_all add: move_back_def)

lemma ok_fields [simp]:
  "ed_ok (s\<lparr>ed_busy := b\<rparr>) = ed_ok s" "ed_ok (s\<lparr>ed_fs := f\<rparr>) = ed_ok s" "ed_ok (s\<lparr>ed_cwd := d\<rparr>) = ed_ok s"
  "ed_ok (s\<lparr>ed_timers := k\<rparr>) = ed_ok s" "ed_ok (s\<lparr>ed_historyTmp := l\<rparr>) = ed_ok s"
  by (simp_all add: ed_ok_def)

lemma ok_set_line: "ed_ok s \<Longrightarrow> n \<le> length l \<Longrightarrow> ed_ok (set_line l n s)"
  by (simp add: set_line_def) (simp add: ed_ok_def)

lemma skip_left_le: "skip_left p l i \<le> i"
  by (induction i) auto

lemma word_start_le: "word_start l n \<le> n - 1"
  using skip_left_le [of _ l "n - 1"] skip_left_le order_trans unfolding word_start_def by blast

lemma ok_edits:
  assumes "ed_ok s"
  shows "ed_ok (line_start s)" "ed_ok (line_end s)" "ed_ok (kill_to_end s)" "ed_ok (delete_word s)"
    "ed_ok (delete_back s)" "ed_ok (delete_forward s)" "ed_ok (right_arrow s)" "ed_ok (left_arrow s)"
    "ed_ok (insert_char c s)"
proof -
  have n: "ed_cursorPos s \<le> length (ed_line s)" using assms by (simp add: ed_ok_def)
  show "ed_ok (line_start s)" "ed_ok (line_end s)" "ed_ok (kill_to_end s)" "ed_ok (right_arrow s)" "ed_ok (left_arrow s)"
    using assms by (auto simp: line_start_def line_end_def Let_def kill_to_end_def right_arrow_def left_arrow_def ed_ok_def)
  show "ed_ok (delete_word s)"
    using assms n word_start_le [of "ed_line s" "ed_cursorPos s"]
    by (auto simp: delete_word_def Let_def intro!: ok_set_line)
  show "ed_ok (delete_back s)" "ed_ok (delete_forward s)"
    using assms n by (auto simp: delete_back_def delete_forward_def Let_def intro!: ok_set_line)
  show "ed_ok (insert_char c s)"
    using assms n by (auto simp: insert_char_def Let_def) (auto simp: ed_ok_def)
qed

lemma ok_history:
  assumes "ed_ok s"
  shows "ed_ok (history_up s)" "ed_ok (history_down s)"
proof -
  show "ed_ok (history_up s)"
    using assms unfolding history_up_def Let_def
    by (auto intro!: ok_set_line split: option.split) (auto simp: ed_ok_def)
  show "ed_ok (history_down s)"
    using assms unfolding history_down_def
    by (auto intro!: ok_set_line split: option.split) (auto simp: ed_ok_def)
qed

lemma ok_plain_key: "ed_ok s \<Longrightarrow> ed_ok (plain_key cf c s)"
  by (simp add: plain_key_def ok_edits ok_set_line)

lemma ok_escape_key: "ed_ok s \<Longrightarrow> ed_ok (fst (escape_key cs s))"
  by (simp add: escape_key_def ok_edits ok_history split: list.split)

lemma ok_complete_line: "ed_ok s \<Longrightarrow> ed_ok (fst (complete_line cf s))"
proof -
  assume s: "ed_ok s"
  obtain ms f where m: "matches_for cf (last_index_of CHR '' '' (take (ed_cursorPos s) (ed_line s)) = None)
      (drop (case last_index_of CHR '' '' (take (ed_cursorPos s) (ed_line s)) of None \<Rightarrow> 0 | Some i \<Rightarrow> Suc i)
        (take (ed_cursorPos s) (ed_line s))) s = (ms, f)" by fastforce
  show ?thesis unfolding complete_line_def Let_def m
    using s by (simp split: list.split) (auto simp: ed_ok_def)
qed

lemma ok_nano_edits:
  assumes "nano_ok n"
  shows "nano_ok (nano_cut n)" "nano_ok (nano_enter n)" "nano_ok (nano_backspace n)"
    "nano_ok (nano_insert c n)" "nano_ok (nano_arrow q n)"
proof -
  have r: "nn_row n < length (nn_lines n)" "nn_col n \<le> length (nn_lines n ! nn_row n)"
    using assms by (simp_all add: nano_ok_def)
  show "nano_ok (nano_cut n)"
    using r by (auto simp: nano_ok_def nano_cut_def Let_def splice_out_def)
  show "nano_ok (nano_enter n)"
    using r by (simp add: nano_ok_def nano_enter_def Let_def splice_in_def)
  show "nano_ok (nano_backspace n)"
    using r by (auto simp: nano_ok_def nano_backspace_def Let_def splice_out_def line_at_def nth_append)
  show "nano_ok (nano_insert c n)"
    using r by (auto simp: nano_ok_def nano_insert_def Let_def line_at_def)
  show "nano_ok (nano_arrow q n)"
    using r by (auto simp: nano_ok_def nano_arrow_def Let_def line_at_def)
qed

lemma ok_on_nano: "ed_ok s \<Longrightarrow> (\<And>n. nano_ok n \<Longrightarrow> nano_ok (f n)) \<Longrightarrow> ed_ok (on_nano f s)"
  by (cases "ed_nano s") (auto simp: on_nano_def ed_ok_def [of "_\<lparr>ed_nano := _\<rparr>"] ed_ok_def [of s])

lemma ok_nano_save: "ed_ok s \<Longrightarrow> ed_ok (fst (nano_save s))"
  by (auto simp: nano_save_def ed_ok_def nano_ok_def split: option.split prod.split sum.split)

lemma ok_nano_keys: "ed_ok s \<Longrightarrow> ed_ok (fst (nano_keys cf cs s))"
proof (induction cf cs s rule: nano_keys.induct)
  case (2 cf c cs s)
  have "ed_ok (term_write ClearScreen (s\<lparr>ed_nano := None\<rparr>))" using 2(4) by (simp add: ed_ok_def)
  then show ?case using 2 ok_on_nano [OF 2(4)] ok_nano_save by (simp add: ok_nano_edits)
qed simp

lemma remember_bound: "length h \<le> 200 \<Longrightarrow> length (remember t h) \<le> 200"
  by (auto simp: remember_def Let_def)

lemma ok_enterNano: "ed_ok s \<Longrightarrow> ed_ok (enterNano q s)"
proof -
  assume s: "ed_ok s"
  obtain ls l where "lines_of (snd (snd q)) = l # ls"
    using split_on_not_Nil unfolding lines_of_def by (cases "split_on newline (snd (snd q))") auto
  with s show ?thesis by (cases q) (simp add: enterNano_def, simp add: ed_ok_def nano_ok_def)
qed

lemma ok_execute: "ed_ok s \<Longrightarrow> ed_ok (execute cf cmd s)"
proof -
  assume s: "ed_ok s"
  let ?s = "s\<lparr>ed_history := remember (trim cmd) (ed_history s), ed_historyIdx := None, ed_busy := True\<rparr>"
  have s1: "ed_ok ?s" using s remember_bound by (simp add: ed_ok_def)
  obtain r f where r: "so_run cf (trim cmd) (ed_cwd ?s) (ed_env ?s) (ed_fs ?s) = (r, f)" by fastforce
  show ?thesis
    unfolding execute_def Let_def using s s1 r ok_enterNano
    by (cases r) (auto split: option.split)
qed

lemma feed_keys_plain:
  assumes "\<not> is_return c" "c \<noteq> CHR 0x03" "\<not> (c = esc \<and> cs \<noteq> [])" "c \<noteq> tab"
  shows "feed_keys cf (c # cs) s = feed_keys cf cs (plain_key cf c s)"
  by (simp only: feed_keys.simps assms if_False)

lemma feed_keys_tab:
  assumes "\<not> is_return c" "c \<noteq> CHR 0x03" "\<not> (c = esc \<and> cs \<noteq> [])" "c = tab"
  shows "feed_keys cf (c # cs) s = (let (s1, threw) = complete_line cf s in if threw then (s1, True) else feed_keys cf cs s1)"
  unfolding feed_keys.simps if_not_P [OF assms(1)] if_not_P [OF assms(2)] if_not_P [OF assms(3)] if_P [OF assms(4)] ..

lemma ok_feed_keys: "ed_ok s \<Longrightarrow> ed_ok (fst (feed_keys cf cs s))"
proof (induction cf cs s rule: feed_keys.induct)
  case (2 cf c cs s)
  have cl: "ed_ok ((term_write x s)\<lparr>ed_line := [], ed_cursorPos := 0\<rparr>)" for x
    using 2(5) by (simp add: ed_ok_def)
  consider "is_return c" | "\<not> is_return c" "c = CHR 0x03" | "c = esc \<and> cs \<noteq> []"
    | "\<not> is_return c" "c \<noteq> CHR 0x03" "\<not> (c = esc \<and> cs \<noteq> [])" "c = tab"
    | "\<not> is_return c" "c \<noteq> CHR 0x03" "\<not> (c = esc \<and> cs \<noteq> [])" "c \<noteq> tab" by blast
  then show ?case
  proof cases
    case 1
    with cl show ?thesis by (simp add: ok_execute)
  next
    case 2
    with cl show ?thesis by simp
  next
    case 3
    then have c: "\<not> is_return c" "c \<noteq> CHR 0x03" "c = esc \<and> cs \<noteq> []" by (auto simp: is_return_def)
    obtain s1 rest where e: "escape_key (tl cs) s = (s1, rest)" by fastforce
    then have "ed_ok s1" using ok_escape_key [OF 2(5), of "tl cs"] by simp
    with c e 2(1) [OF c] 2(2) [OF c] 2(5) show ?thesis by (cases "hd cs = CHR ''[''") simp_all
  next
    case 4
    obtain s1 b where e: "complete_line cf s = (s1, b)" by fastforce
    then have "ed_ok s1" using ok_complete_line [OF 2(5), of cf] by simp
    with e 2(3) [OF 4] show ?thesis unfolding feed_keys_tab [OF 4] by (cases b) simp_all
  next
    case 5
    with 2(4) [OF 5] ok_plain_key [OF 2(5)] show ?thesis unfolding feed_keys_plain [OF 5] by blast
  qed
qed simp

lemma ok_step: "ed_ok s \<Longrightarrow> ed_ok (shell_step cf s x)"
proof (cases x)
  case (SetHistory h)
  assume "ed_ok s"
  then show ?thesis by (simp add: SetHistory shell_step_def setHistory_def ed_ok_def)
next
  case (Feed d)
  assume "ed_ok s"
  then show ?thesis by (simp add: Feed shell_step_def feed_def ok_nano_keys ok_feed_keys)
qed (auto simp: shell_step_def setCwd_def timer_def settled_async_def split: sum.split)

text \<open>
  Whatever the terminal delivers, in whatever pieces, and whatever the commands do - failing,
  opening the editor, running on - the cursor is in the line, the history holds at most 200
  lines and its index points into it, and the editor's row and column are a position of its text.
\<close>

theorem shell_positions_valid:
  "ed_ok (shell_run cf (createShell dir env s) xs)"
proof -
  have "ed_ok t \<Longrightarrow> ed_ok (shell_run cf t xs)" for t
    unfolding shell_run_def by (induction xs arbitrary: t) (auto simp: ok_step)
  then show ?thesis by (simp add: ed_ok_def createShell_def)
qed

section \<open>What is on the screen\<close>

text \<open>
  The terminal's input area: its characters and the column of the cursor. A prompt, a cleared
  screen and every complete line of output begin a new one. Lines are taken to be shorter than the
  terminal is wide.
\<close>

fun terminal :: "string \<times> nat \<Rightarrow> terminal_output \<Rightarrow> string \<times> nat" where
  "terminal (cells, col) (Text t) = (take col cells @ t @ drop (col + length t) cells, col + length t)"
| "terminal (cells, col) (Back n) = (cells, col - n)"
| "terminal (cells, col) (Forward n) = (cells, col + n)"
| "terminal (cells, col) ClearBelow = (take col cells, col)"
| "terminal _ _ = ([], 0)"

definition display :: "editor \<Rightarrow> string \<times> nat" where
  "display s = foldl terminal ([], 0) (ed_out s)"

definition in_sync :: "editor \<Rightarrow> bool" where
  "in_sync s \<longleftrightarrow> display s = (ed_line s, ed_cursorPos s)"

definition editing :: "editor \<Rightarrow> bool" where
  "editing s \<longleftrightarrow> ed_nano s = None \<and> \<not> ed_busy s"

text \<open>While a line is edited the screen shows it; while a command or \<open>nano\<close> runs it is empty.\<close>

definition shown :: "editor \<Rightarrow> bool" where
  "shown s \<longleftrightarrow> (if editing s then in_sync s else ed_line s = [] \<and> ed_cursorPos s = 0)"

lemma display_write [simp]: "display (term_write x s) = terminal (display s) x"
  by (simp add: display_def)

lemma display_fields [simp]:
  "display (s\<lparr>ed_line := l\<rparr>) = display s" "display (s\<lparr>ed_cursorPos := n\<rparr>) = display s"
  "display (s\<lparr>ed_busy := b\<rparr>) = display s" "display (s\<lparr>ed_fs := f\<rparr>) = display s"
  "display (s\<lparr>ed_nano := m\<rparr>) = display s" "display (s\<lparr>ed_history := h\<rparr>) = display s"
  "display (s\<lparr>ed_historyIdx := i\<rparr>) = display s" "display (s\<lparr>ed_historyTmp := l\<rparr>) = display s"
  by (simp_all add: display_def)

lemma display_prompt [simp]: "display (printPrompt cf s) = ([], 0)"
  by (cases "display s") (simp add: printPrompt_def)

lemma prompt_fields [simp]:
  "ed_line (printPrompt cf s) = ed_line s" "ed_cursorPos (printPrompt cf s) = ed_cursorPos s"
  "ed_nano (printPrompt cf s) = ed_nano s" "ed_busy (printPrompt cf s) = ed_busy s"
  by (simp_all add: printPrompt_def)

lemma display_back: "display s = (cells, col) \<Longrightarrow> display (move_back n s) = (cells, col - n)"
  by (simp add: move_back_def)

lemma display_rewrite:
  assumes "display s = (cells, n)" "ed_cursorPos s \<le> length (ed_line s)"
  shows "display (rewriteLine n s) = (ed_line s, ed_cursorPos s)"
  using assms display_back [OF assms(1), of n] unfolding rewriteLine_def
  by (subst display_back [where cells = "ed_line s" and col = "length (ed_line s)"]) simp_all

lemma rewrite_fields [simp]:
  "ed_line (rewriteLine n s) = ed_line s" "ed_cursorPos (rewriteLine n s) = ed_cursorPos s"
  "ed_nano (rewriteLine n s) = ed_nano s" "ed_busy (rewriteLine n s) = ed_busy s"
  by (simp_all add: rewriteLine_def)

lemma sync_set_line: "in_sync s \<Longrightarrow> n \<le> length l \<Longrightarrow> in_sync (set_line l n s)"
  by (simp add: in_sync_def set_line_def display_rewrite)

lemma sync_fields [simp]:
  "in_sync (s\<lparr>ed_historyIdx := i\<rparr>) = in_sync s" "in_sync (s\<lparr>ed_historyTmp := l\<rparr>) = in_sync s"
  "in_sync (s\<lparr>ed_historyTmp := l, ed_historyIdx := i\<rparr>) = in_sync s"
  by (simp_all add: in_sync_def)

lemma sync_redisplay:
  "ed_cursorPos s \<le> length (ed_line s) \<Longrightarrow> in_sync (redisplay cf s)"
  unfolding in_sync_def redisplay_def
  by (subst display_back [where cells = "ed_line s" and col = "length (ed_line s)"]) (simp_all add: printPrompt_def)

lemma sync_edits:
  assumes "in_sync s" "ed_cursorPos s \<le> length (ed_line s)"
  shows "in_sync (line_start s)" "in_sync (line_end s)" "in_sync (kill_to_end s)" "in_sync (delete_word s)"
    "in_sync (delete_back s)" "in_sync (delete_forward s)" "in_sync (right_arrow s)" "in_sync (left_arrow s)"
    "in_sync (insert_char c s)"
proof -
  have d: "display s = (ed_line s, ed_cursorPos s)" using assms(1) by (simp add: in_sync_def)
  show "in_sync (line_start s)" "in_sync (line_end s)" "in_sync (kill_to_end s)" "in_sync (right_arrow s)"
    "in_sync (left_arrow s)"
    using assms d by (auto simp: line_start_def line_end_def Let_def kill_to_end_def right_arrow_def
        left_arrow_def in_sync_def)
  show "in_sync (delete_word s)"
    using assms word_start_le [of "ed_line s" "ed_cursorPos s"]
    by (auto simp: delete_word_def Let_def intro!: sync_set_line)
  show "in_sync (delete_back s)" "in_sync (delete_forward s)"
    using assms by (auto simp: delete_back_def delete_forward_def Let_def intro!: sync_set_line)
  show "in_sync (insert_char c s)"
    using assms(2) d by (auto simp: insert_char_def Let_def in_sync_def display_rewrite)
qed

lemma sync_history:
  assumes "in_sync s"
  shows "in_sync (history_up s)" "in_sync (history_down s)"
  using assms unfolding history_up_def history_down_def Let_def
  by (auto intro!: sync_set_line split: option.split)

lemma edits_keep_mode [simp]:
  "editing (line_start s) = editing s" "editing (line_end s) = editing s" "editing (kill_to_end s) = editing s"
  "editing (set_line l n s) = editing s" "editing (redisplay cf s) = editing s"
  "editing (right_arrow s) = editing s" "editing (left_arrow s) = editing s" "editing (insert_char c s) = editing s"
  "editing (delete_word s) = editing s" "editing (delete_back s) = editing s" "editing (delete_forward s) = editing s"
  "editing (history_up s) = editing s" "editing (history_down s) = editing s" "editing (term_write x s) = editing s"
  by (simp_all add: editing_def line_start_def line_end_def Let_def kill_to_end_def set_line_def redisplay_def
      right_arrow_def left_arrow_def insert_char_def delete_word_def delete_back_def delete_forward_def
      history_up_def history_down_def split: option.split)

lemma sync_plain_key:
  assumes "in_sync s" "ed_cursorPos s \<le> length (ed_line s)"
  shows "in_sync (plain_key cf c s)" "editing (plain_key cf c s) = editing s"
  using assms by (auto simp: plain_key_def sync_edits sync_set_line sync_redisplay)

lemma sync_escape_key:
  assumes "in_sync s" "ed_cursorPos s \<le> length (ed_line s)"
  shows "in_sync (fst (escape_key cs s))" "editing (fst (escape_key cs s)) = editing s"
  using assms by (auto simp: escape_key_def sync_edits sync_history split: list.split)

lemma sync_complete_line:
  assumes "in_sync s" "ed_cursorPos s \<le> length (ed_line s)" "complete_line cf s = (t, False)"
  shows "in_sync t \<and> editing t = editing s"
proof -
  obtain ms f where m: "matches_for cf (last_index_of CHR '' '' (take (ed_cursorPos s) (ed_line s)) = None)
      (drop (case last_index_of CHR '' '' (take (ed_cursorPos s) (ed_line s)) of None \<Rightarrow> 0 | Some i \<Rightarrow> Suc i)
        (take (ed_cursorPos s) (ed_line s))) s = (ms, f)" by fastforce
  have "in_sync (s\<lparr>ed_fs := f\<rparr>)" using assms(1) by (simp add: in_sync_def)
  then show ?thesis
    using assms(2,3) unfolding complete_line_def Let_def m
    by (auto simp: editing_def [of "_\<lparr>ed_fs := _\<rparr>"] editing_def [of s] intro!: sync_redisplay split: list.splits)
qed

lemma nano_keys_blank:
  "ed_nano s \<noteq> None \<Longrightarrow> ed_line s = [] \<Longrightarrow> ed_cursorPos s = 0 \<Longrightarrow> shown (fst (nano_keys cf cs s))"
proof (induction cf cs s rule: nano_keys.induct)
  case (1 cf s)
  then show ?case by (auto simp: shown_def editing_def)
next
  case (2 cf c cs s)
  have keep: "ed_nano (on_nano f s) \<noteq> None" "ed_line (on_nano f s) = []" "ed_cursorPos (on_nano f s) = 0" for f
    using 2(4-6) by (auto simp: on_nano_def renderNano_def split: option.split)
  have stay: "shown (on_nano f s)" for f
    using keep(1) [of f] keep(2,3) by (auto simp: shown_def editing_def)
  have "shown (fst (nano_save s))"
    using 2(4-6) by (auto simp: shown_def editing_def nano_save_def split: option.splits prod.splits sum.splits)
  moreover have "shown (printPrompt cf (term_write ClearScreen (s\<lparr>ed_nano := None\<rparr>)))"
    using 2(5,6) by (simp add: shown_def in_sync_def)
  ultimately show ?case using 2 keep stay by simp
qed

lemma render_fields [simp]:
  "ed_line (renderNano s) = ed_line s" "ed_cursorPos (renderNano s) = ed_cursorPos s"
  "ed_nano (renderNano s) = ed_nano s" "ed_busy (renderNano s) = ed_busy s"
  by (simp_all add: renderNano_def split: option.split)

lemma report_fields [simp]:
  "ed_line (report a b s) = ed_line s" "ed_cursorPos (report a b s) = ed_cursorPos s"
  "ed_nano (report a b s) = ed_nano s" "ed_busy (report a b s) = ed_busy s"
  by (simp_all add: report_def Let_def)

lemma shown_prompt: "ed_line s = [] \<Longrightarrow> ed_cursorPos s = 0 \<Longrightarrow> shown (printPrompt cf s)"
  by (simp add: shown_def in_sync_def)

lemma shown_execute:
  assumes "ed_line s = []" "ed_cursorPos s = 0" "editing s"
  shows "shown (execute cf cmd s)"
proof -
  let ?s = "s\<lparr>ed_history := remember (trim cmd) (ed_history s), ed_historyIdx := None, ed_busy := True\<rparr>"
  obtain r f where r: "so_run cf (trim cmd) (ed_cwd ?s) (ed_env ?s) (ed_fs ?s) = (r, f)" by fastforce
  have nano: "shown (enterNano q t)" if "ed_line t = []" "ed_cursorPos t = 0" for q t
    using that by (cases q) (simp add: enterNano_def shown_def editing_def)
  have busy: "shown t" if "ed_line t = []" "ed_cursorPos t = 0" "ed_busy t" for t
    using that by (simp add: shown_def editing_def)
  show ?thesis
    unfolding execute_def Let_def using assms r
    by (cases r) (auto intro!: shown_prompt nano busy split: option.split)
qed

lemma shown_feed_keys:
  "in_sync s \<Longrightarrow> ed_ok s \<Longrightarrow> editing s \<Longrightarrow> feed_keys cf cs s = (t, False) \<Longrightarrow> shown t"
proof (induction cf cs s rule: feed_keys.induct)
  case (1 cf s)
  then show ?case by (simp add: shown_def)
next
  case (2 cf c cs s)
  note ih = 2(1-4) and prems = 2(5-8)
  have n: "ed_cursorPos s \<le> length (ed_line s)" using prems(2) by (simp add: ed_ok_def)
  consider "is_return c" | "\<not> is_return c" "c = CHR 0x03" | "c = esc \<and> cs \<noteq> []"
    | "\<not> is_return c" "c \<noteq> CHR 0x03" "\<not> (c = esc \<and> cs \<noteq> [])" "c = tab"
    | "\<not> is_return c" "c \<noteq> CHR 0x03" "\<not> (c = esc \<and> cs \<noteq> [])" "c \<noteq> tab" by blast
  then show ?case
  proof cases
    case 1
    with prems(3,4) show ?thesis by (auto simp: editing_def intro!: shown_execute)
  next
    case 2
    with prems(4) show ?thesis by (auto intro!: shown_prompt)
  next
    case 3
    then have c: "\<not> is_return c" "c \<noteq> CHR 0x03" "c = esc \<and> cs \<noteq> []" by (auto simp: is_return_def)
    obtain s1 rest where e: "escape_key (tl cs) s = (s1, rest)" by fastforce
    then have s1: "in_sync s1" "editing s1" "ed_ok s1"
      using sync_escape_key [OF prems(1) n, of "tl cs"] ok_escape_key [OF prems(2), of "tl cs"] prems(3) by simp_all
    show ?thesis
      using c e s1 ih(1) [OF c _ e [symmetric] refl] ih(2) [OF c] prems by (cases "hd cs = CHR ''[''") simp_all
  next
    case 4
    obtain s1 b where e: "complete_line cf s = (s1, b)" by fastforce
    with prems(4) have b: "\<not> b" "feed_keys cf cs s1 = (t, False)"
      unfolding feed_keys_tab [OF 4] by (cases b; simp)+
    then have "in_sync s1 \<and> editing s1 = editing s" using sync_complete_line [OF prems(1) n] e by simp
    moreover have "ed_ok s1" using ok_complete_line [OF prems(2), of cf] e by simp
    ultimately show ?thesis using ih(3) [OF 4 e [symmetric] refl b(1)] b(2) prems(3) by simp
  next
    case 5
    with ih(4) [OF 5] sync_plain_key [OF prems(1) n] ok_plain_key [OF prems(2)] prems(3,4)
    show ?thesis unfolding feed_keys_plain [OF 5] by blast
  qed
qed

text \<open>A run in which no exception escapes from \<open>feed\<close>.\<close>

fun no_escape :: "shell_options \<Rightarrow> editor \<Rightarrow> shell_step list \<Rightarrow> bool" where
  "no_escape cf s [] = True"
| "no_escape cf s (x # xs) =
     ((case x of Feed d \<Rightarrow> \<not> snd (feed cf d s) | _ \<Rightarrow> True) \<and> no_escape cf (shell_step cf s x) xs)"

lemma shown_step:
  assumes "shown s" "ed_ok s" "case x of Feed d \<Rightarrow> \<not> snd (feed cf d s) | _ \<Rightarrow> True"
  shows "shown (shell_step cf s x)"
proof (cases x)
  case (Feed d)
  then show ?thesis
    using assms nano_keys_blank [of s cf d] shown_feed_keys [of s cf d "fst (feed cf d s)"]
    by (cases "ed_nano s = None"; cases "ed_busy s")
       (auto simp: shell_step_def feed_def shown_def [of s] editing_def [of s] prod_eq_iff)
next
  case (AsyncDone r)
  have "shown (settled_async cf r s)" if "ed_busy s"
    using that assms(1) unfolding settled_async_def
    by (intro shown_prompt) (auto simp: shown_def editing_def split: sum.split)
  with AsyncDone assms(1) show ?thesis by (simp add: shell_step_def)
next
  case Timer
  have "shown (timer s)"
    using assms(1) by (auto simp: timer_def shown_def editing_def in_sync_def display_def renderNano_def split: option.split)
  with Timer assms(1) show ?thesis by (simp add: shell_step_def)
qed (use assms(1) in \<open>auto simp: shell_step_def setCwd_def setHistory_def shown_def editing_def in_sync_def display_def\<close>)

text \<open>
  C21. The screen shows the line being edited, with the cursor where it is: after every piece of
  input, every insertion, deletion, movement, recall from the history, completion, interruption
  and command, as long as no exception escapes. While a command or the editor runs, the line is
  empty.
\<close>

theorem screen_shows_line:
  assumes "no_escape cf (prompt cf (createShell dir env s)) xs"
  shows "shown (shell_run cf (prompt cf (createShell dir env s)) xs)"
proof -
  have "shown t \<Longrightarrow> ed_ok t \<Longrightarrow> no_escape cf t xs \<Longrightarrow> shown (shell_run cf t xs)" for t
    unfolding shell_run_def
  proof (induction xs arbitrary: t)
    case (Cons x xs)
    then show ?case using shown_step [where s = t and x = x and cf = cf] ok_step [where s = t and x = x and cf = cf] by simp
  qed simp
  moreover have "ed_ok (createShell dir env s)" by (simp add: createShell_def ed_ok_def)
  then have "ed_ok (prompt cf (createShell dir env s))" by (simp add: prompt_def)
  moreover have "shown (prompt cf (createShell dir env s))"
    unfolding prompt_def by (rule shown_prompt) (simp_all add: createShell_def)
  ultimately show ?thesis using assms by blast
qed

end
