(* ===== verification/Session_Props.thy ===== *)
theory Session_Props
  imports Session Line_Editor_Props Memfs_Properties
begin

text \<open>
  A saved session restores exactly: into a new file system come the persisted files of the old one
  with their bytes and nothing else, and the shell gets its directory and history back.
\<close>

section \<open>The collected files\<close>

definition persisted :: "fs \<Rightarrow> string list \<Rightarrow> bool" where
  "persisted s ps \<longleftrightarrow> shouldPersist (render_path ps) \<and> file_content s ps \<noteq> None"

text \<open>A file list of a file system: every entry is one of its files, with its bytes.\<close>

definition files_of :: "fs \<Rightarrow> (string \<times> byte list) list \<Rightarrow> bool" where
  "files_of s files \<longleftrightarrow>
     (\<forall>(p, d) \<in> set files. \<exists>ps. p = render_path ps \<and> list_all plain_name ps \<and> view s ps = Some (FileV d))"

lemma collect_files:
  assumes wf: "fs_wf s" and names: "names_ok s"
  shows "\<exists>files. collectFiles s = Some files \<and> files_of s files
     \<and> fst ` set files = {render_path ps | ps. persisted s ps}"
proof -
  obtain sn where sn: "take_snapshot full_of s = Some (fs_seq s, fs_journalStartSeq s, sn)"
    "set (keys (sn_files sn)) = {render_path ps | ps d. view s ps = Some (FileV d)}" "sn_valid full_of s sn"
    using take_snapshot_spec [OF wf names, of full_of] by auto
  let ?files = "map (\<lambda>(p, f). (p, ff_content f)) (filter (\<lambda>(p, f). shouldPersist p) (sn_files sn))"
  have "collectFiles s = Some ?files" by (simp add: collectFiles_def snapshotFull_def sn(1))
  moreover have "files_of s ?files"
    unfolding files_of_def
  proof (clarsimp)
    fix p f assume pf: "(p, f) \<in> set (sn_files sn)"
    then have "p \<in> set (keys (sn_files sn))" by force
    with sn(2) obtain ps d where ps: "p = render_path ps" "view s ps = Some (FileV d)" by auto
    have pl: "list_all plain_name ps" using names ps(2) by (auto simp: names_ok_def view_def)
    obtain a nd where a: "resolve p s = Some a" "fs_heap s a = Some nd" "f = full_of nd"
      using sn(3) pf by (fastforce simp: sn_valid_def)
    have "walk s ps = Some a" using a(1) ps(1) pl by simp
    with ps(2) a have "d = ff_content f"
      by (auto simp: view_def view_at_def content_at_def full_of_def split: if_splits)
    with ps pl show "\<exists>ps. p = render_path ps \<and> list_all plain_name ps \<and> view s ps = Some (FileV (ff_content f))"
      by blast
  qed
  moreover have "fst ` set ?files = {p \<in> set (keys (sn_files sn)). shouldPersist p}" by force
  moreover have "{p \<in> set (keys (sn_files sn)). shouldPersist p} = {render_path ps | ps. persisted s ps}"
  proof (intro set_eqI iffI)
    fix p assume "p \<in> {p \<in> set (keys (sn_files sn)). shouldPersist p}"
    then obtain ps d where "p = render_path ps" "view s ps = Some (FileV d)" "shouldPersist p"
      unfolding sn(2) by blast
    then show "p \<in> {render_path ps | ps. persisted s ps}"
      unfolding persisted_def using file_content_Some [of s ps d] by auto
  next
    fix p assume "p \<in> {render_path ps | ps. persisted s ps}"
    then obtain ps d where "p = render_path ps" "file_content s ps = Some d" "shouldPersist p"
      unfolding persisted_def by blast
    then show "p \<in> {p \<in> set (keys (sn_files sn)). shouldPersist p}"
      unfolding sn(2) using file_content_Some [of s ps d] by blast
  qed
  ultimately show ?thesis by auto
qed

section \<open>Restoring one file\<close>

text \<open>The target holds nothing that the source does not hold in the same place.\<close>

definition within :: "fs \<Rightarrow> fs \<Rightarrow> bool" where
  "within t s \<longleftrightarrow> (\<forall>ps x. view t ps = Some x \<longrightarrow> view s ps = Some x)"

lemma comps_dir_of_path:
  assumes "list_all plain_name (qs @ [n])"
  shows "comps (dir_of_path (render_path (qs @ [n]))) = qs"
proof -
  have n: "plain_name n" and qs: "list_all plain_name qs" using assms by simp_all
  have nn: "n \<noteq> []" using n by (simp add: plain_name_def)
  show ?thesis
  proof (cases "qs = []")
    case True
    have "dir_of_path (render_path [n]) = ''/''"
      using last_slash_render [OF n, of "[]"] nn by (simp add: dir_of_path_def render_path_def)
    then show ?thesis using True by (simp add: path_parts_render [of "[]", simplified])
  next
    case False
    have r: "render_path (qs @ [n]) = render_path qs @ slash # n"
      using False by (simp add: render_path_def join_with_snoc)
    have "dir_of_path (render_path (qs @ [n])) = render_path qs"
      using last_slash_render [OF n, of qs] nn False unfolding dir_of_path_def Let_def r
      by (simp add: render_path_def)
    then show ?thesis using qs by simp
  qed
qed

lemma restore_file_ok:
  assumes wf: "fs_wf t" and s: "fs_wf s" "view s ps = Some (FileV d)" "list_all plain_name ps" and within: "within t s"
  obtains u where "restore_file (render_path ps) d t = (Inr (), u)" "fs_wf u" "within u s"
    "\<And>qs. file_content u qs = (if qs = ps then Some d else file_content t qs)"
proof -
  have "ps \<noteq> []" using s(1,2) view_root [OF s(1)] by auto
  then obtain qs n where ps: "ps = qs @ [n]" by (metis rev_exhaust)
  let ?p = "render_path ps"
  have cp: "comps ?p = ps" using s(3) by simp
  have cd: "comps (dir_of_path ?p) = qs" using comps_dir_of_path s(3) unfolding ps by blast
  have dirs: "view s rs = Some DirV" if "prefix rs qs" for rs
    using view_prefix_dir [OF view_parent [of s qs n] that] s(2) unfolding ps by simp
  let ?r = "mkdir (dir_of_path ?p) True t"
  note mk = mkdir_p_spec [OF wf, of "dir_of_path ?p", unfolded cd]
  have nofile: "\<not> (\<exists>k \<le> length qs. \<exists>x. view t (take k qs) = Some (FileV x))"
  proof clarify
    fix k x assume "view t (take k qs) = Some (FileV x)"
    then have "view s (take k qs) = Some (FileV x)" using within by (simp add: within_def)
    with dirs [OF take_is_prefix] show False by simp
  qed
  have r: "is_ok (fst ?r)" "view (snd ?r) = (\<lambda>rs. if prefix rs qs then Some DirV else view t rs)"
    using mk(1) unfolding spec_mkdir_p_def if_not_P [OF nofile] by (simp_all add: agrees_def)
  obtain u1 where u1: "?r = (Inr (), u1)" using r(1) by (cases ?r; cases "fst ?r") auto
  have wf1: "fs_wf u1" using mk(2) u1 by simp
  have v1: "view u1 = (\<lambda>rs. if prefix rs qs then Some DirV else view t rs)" using r(2) u1 by simp
  have np: "\<not> prefix ps qs" unfolding ps by (auto dest: prefix_length_le)
  have notdir: "view u1 ps \<noteq> Some DirV" using v1 np within s(2) by (auto simp: within_def)
  have "agrees (writeFile ?p d u1) (spec_write ps d (view u1)) (view u1)"
    using writeFile_spec [OF wf1, of ?p d] cp \<open>ps \<noteq> []\<close> by simp
  moreover have "spec_write ps d (view u1) = Inr ((view u1)(ps \<mapsto> FileV d))"
    using notdir v1 by (simp add: spec_write_def ps)
  ultimately have w: "is_ok (fst (writeFile ?p d u1))" "view (snd (writeFile ?p d u1)) = (view u1)(ps \<mapsto> FileV d)"
    by (simp_all add: agrees_def)
  obtain u where u: "writeFile ?p d u1 = (Inr (), u)" using w(1) by (cases "writeFile ?p d u1"; cases "fst (writeFile ?p d u1)") auto
  have vu: "view u = (view u1)(ps \<mapsto> FileV d)" using w(2) u by simp
  have fc: "file_content u qs' = (if qs' = ps then Some d else file_content t qs')" for qs'
  proof -
    have "file_content t rs = None" if "prefix rs qs" for rs
      using within dirs [OF that] by (auto simp: file_content_def within_def split: option.split fnode.split)
    then show ?thesis using vu v1 by (auto simp: file_content_def)
  qed
  show thesis
  proof (rule that)
    show "restore_file ?p d t = (Inr (), u)" by (simp add: restore_file_def u1 u)
    show "fs_wf u" using fs_wf_writeFile [OF wf1, of ?p d] u by simp
    show "within u s" using vu v1 within dirs s(2) by (auto simp: within_def split: if_splits)
    show "\<And>qs'. file_content u qs' = (if qs' = ps then Some d else file_content t qs')" by (rule fc)
  qed
qed


section \<open>Restoring all of them\<close>

definition file_paths :: "(string \<times> byte list) list \<Rightarrow> string list set" where
  "file_paths files = {ps. list_all plain_name ps \<and> render_path ps \<in> fst ` set files}"

lemma restore_files_ok:
  assumes "fs_wf s" "fs_wf t" "within t s" "files_of s files"
  shows "\<exists>u. restore_files files t = (length files, u)
     \<and> (\<forall>qs. file_content u qs = (if qs \<in> file_paths files then file_content s qs else file_content t qs))"
  using assms(2-4)
proof (induction files arbitrary: t)
  case Nil
  then show ?case by (simp add: file_paths_def)
next
  case (Cons f files)
  obtain p d where f: "f = (p, d)" by (cases f)
  obtain ps where ps: "p = render_path ps" "view s ps = Some (FileV d)" "list_all plain_name ps"
    using Cons.prems(3) unfolding f files_of_def by auto
  obtain u where u: "restore_file p d t = (Inr (), u)" "fs_wf u" "within u s"
    "\<And>qs. file_content u qs = (if qs = ps then Some d else file_content t qs)"
    using restore_file_ok [OF Cons.prems(1) assms(1) ps(2,3) Cons.prems(2)] unfolding ps(1) by metis
  have "files_of s files" using Cons.prems(3) by (simp add: files_of_def)
  from Cons.IH [OF u(2,3) this] obtain v where v: "restore_files files u = (length files, v)"
    "\<And>qs. file_content v qs = (if qs \<in> file_paths files then file_content s qs else file_content u qs)"
    by auto
  have one: "list_all plain_name qs \<and> render_path qs = p \<longleftrightarrow> qs = ps" for qs
    using ps(1,3) render_path_inject [of qs ps] by auto
  have "qs \<in> file_paths (f # files) \<longleftrightarrow> qs = ps \<or> qs \<in> file_paths files" for qs
    using one [of qs] unfolding file_paths_def f by auto
  moreover have "file_content s ps = Some d" using ps(2) by (simp add: file_content_Some)
  ultimately show ?case using u(1,4) v by (auto simp: f)
qed

lemma collected_paths:
  assumes "names_ok s" "fst ` set files = {render_path ps | ps. persisted s ps}"
  shows "qs \<in> file_paths files \<longleftrightarrow> persisted s qs"
proof -
  have pl: "list_all plain_name ps" if "persisted s ps" for ps
  proof -
    obtain d where "view s ps = Some (FileV d)"
      using \<open>persisted s ps\<close> by (auto simp: persisted_def file_content_Some)
    then show ?thesis using assms(1) by (auto simp: names_ok_def view_def)
  qed
  show ?thesis
    unfolding file_paths_def assms(2) using pl render_path_inject [of qs] by auto
qed

lemma view_new_memfs: "view (new_memfs clk) ps = (if ps = [] then Some DirV else None)"
proof (cases ps)
  case (Cons p qs)
  then show ?thesis
    by (simp add: view_def view_at_def new_memfs_def dir_of_def)
qed (simp add: view_root)

lemma file_content_new: "file_content (new_memfs clk) ps = None"
  using view_new_memfs [of clk] by (simp add: file_content_def)

lemma within_new: "fs_wf s \<Longrightarrow> within (new_memfs clk) s"
  by (auto simp: within_def view_new_memfs view_root split: if_splits)

text \<open>What a forced save that meets no failing put stores.\<close>

lemma saveSession_forced:
  assumes "collectFiles (ed_fs (sw_editor w)) = Some files"
  shows "saveSession True True now None w =
     (True, w\<lparr>sw_db := \<lparr>db_schema = Some SCHEMA_VERSION, db_files = Some files,
        db_shell = Some \<lparr>sr_cwd = ed_cwd (sw_editor w), sr_history = ed_history (sw_editor w), sr_env = sw_env w\<rparr>\<rparr>,
        sw_lastSaveAt := now\<rparr>)"
  using assms by (simp add: saveSession_def)

text \<open>
  C23. A session survives the page. Whatever operations the file system of the old page went through,
  a save that meets no failing put, restored on a page with a new file system, brings back every
  file under \<open>/workspace\<close> and \<open>/home/user\<close> (but not under the two skipped directories) with its
  bytes, and no other file; a live shell gets the directory and the history back.
\<close>

theorem session_roundtrip:
  assumes "list_all op_named ops"
    and "ed_fs (sw_editor w) = fs_run clk ops"
    and "ed_fs (sw_editor w') = new_memfs clk'"
    and "sw_db w' = sw_db (snd (saveSession True True now None w))"
  shows "fst (saveSession True True now None w)
    \<and> rs_restored (fst (restoreSession live w'))
    \<and> file_content (ed_fs (sw_editor (snd (restoreSession live w')))) ps
       = (if shouldPersist (render_path ps) then file_content (fs_run clk ops) ps else None)
    \<and> (live \<and> ed_cwd (sw_editor w) \<noteq> [] \<longrightarrow>
         ed_cwd (sw_editor (snd (restoreSession live w'))) = ed_cwd (sw_editor w))
    \<and> (live \<and> length (ed_history (sw_editor w)) \<le> 200 \<longrightarrow>
         ed_history (sw_editor (snd (restoreSession live w'))) = ed_history (sw_editor w))"
proof -
  let ?s = "fs_run clk ops"
  have wf: "fs_wf ?s" by (rule fs_wf_run)
  have names: "names_ok ?s" by (rule dirs_named_names_ok [OF dirs_named_run [OF assms(1)]])
  obtain files where files: "collectFiles ?s = Some files" "files_of ?s files"
    "fst ` set files = {render_path ps | ps. persisted ?s ps}"
    using collect_files [OF wf names] by auto
  note save = saveSession_forced [of w files now, unfolded assms(2), OF files(1)]
  obtain u where u: "restore_files files (new_memfs clk') = (length files, u)"
    "\<And>qs. file_content u qs = (if qs \<in> file_paths files then file_content ?s qs else None)"
    using restore_files_ok [OF wf fs_wf_new within_new [OF wf] files(2), of clk'] file_content_new
    by auto
  note db = assms(4) [unfolded save snd_conv]
  have "ed_fs (sw_editor (snd (restoreSession live w'))) = u"
    by (simp add: restoreSession_def db assms(3) u(1) setHistory_def setCwd_def)
  then have "file_content (ed_fs (sw_editor (snd (restoreSession live w')))) ps
       = (if shouldPersist (render_path ps) then file_content ?s ps else None)"
    using u(2) [of ps] collected_paths [OF names files(3), of ps] by (auto simp: persisted_def)
  then show ?thesis
    by (simp add: save restoreSession_def db assms(3) u(1) setHistory_def setCwd_def)
qed


text \<open>A page whose file system has a file to keep and one to skip.\<close>

definition old_ops :: "fs_op list" where
  "old_ops = [OpMkdir ''/workspace'' True, OpWriteFile ''/workspace/a'' [7], OpWriteFile ''/b'' []]"

definition page :: "fs \<Rightarrow> session_db \<Rightarrow> session_world" where
  "page s db = \<lparr>sw_editor = (createShell ''/workspace'' [] s)\<lparr>ed_history := [''ls'']\<rparr>, sw_env = [],
     sw_initialFiles = [], sw_db = db, sw_lastSaveAt = 0\<rparr>"

lemma old_file: "file_content (fs_run (\<lambda>_. 0) old_ops) [''workspace'', ''a''] = Some [7]"
  by (simp add: fs_exec old_ops_def file_content_def view_def view_at_def)

theorem session_roundtrip_witness:
  "let w = page (fs_run (\<lambda>_. 0) old_ops) \<lparr>db_schema = None, db_files = None, db_shell = None\<rparr>;
       w' = page (new_memfs (\<lambda>_. 0)) (sw_db (snd (saveSession True True 5 None w)));
       s = ed_fs (sw_editor (snd (restoreSession True w')))
   in file_content s [''workspace'', ''a''] = Some [7] \<and> file_content s [''b''] = None"
proof -
  let ?w = "page (fs_run (\<lambda>_. 0) old_ops) \<lparr>db_schema = None, db_files = None, db_shell = None\<rparr>"
  let ?w' = "page (new_memfs (\<lambda>_. 0)) (sw_db (snd (saveSession True True 5 None ?w)))"
  have named: "list_all op_named old_ops" by code_simp
  have fs: "ed_fs (sw_editor (page s db)) = s" "sw_db (page s db) = db" for s db
    by (simp_all add: page_def createShell_def)
  have "shouldPersist (render_path [''workspace'', ''a''])" "\<not> shouldPersist (render_path [''b''])"
    by code_simp+
  then show ?thesis
    using session_roundtrip [where now = 5 and live = True and ps = "[''workspace'', ''a'']", OF named fs(1) fs(1) fs(2)]
      session_roundtrip [where now = 5 and live = True and ps = "[''b'']", OF named fs(1) fs(1) fs(2)]
    by (simp add: Let_def old_file)
qed

end
