(* ===== verification/Wisp_Wire.thy ===== *)
theory Wisp_Wire
  imports Prelude
begin

text \<open>
  The Wisp v1 byte layout: the packet builders and \<open>parsePacket\<close> of
  \<open>napi-bridge/wisp-client.js\<close> and \<open>cmd/wisp-server-node/server.js\<close>, which are the same up to
  \<open>DataView\<close> and \<open>Buffer\<close>, and the interface of a packet kind: what is built is parsed back.
  A host name is the list of its UTF-8 bytes.
\<close>

section \<open>The interface of a packet kind\<close>

locale packet_kind =
  fixes ok :: "'a \<Rightarrow> bool"
    and build :: "'a \<Rightarrow> byte list"
    and parse :: "byte list \<Rightarrow> 'b option"
    and fields :: "'a \<Rightarrow> 'b"
  assumes parse_build: "ok a \<Longrightarrow> parse (build a) = Some (fields a)"
begin

lemma build_inj:
  assumes "ok a" "ok b" "build a = build b" shows "fields a = fields b"
  using parse_build [OF assms(1)] parse_build [OF assms(2)] assms(3) by simp

lemma parse_all: "list_all ok as \<Longrightarrow> map parse (map build as) = map (\<lambda>a. Some (fields a)) as"
  by (induction as) (auto simp: parse_build)

end

section \<open>Builders and parser\<close>

definition PKT_CONNECT :: byte where "PKT_CONNECT = 1"
definition PKT_DATA :: byte where "PKT_DATA = 2"
definition PKT_CONTINUE :: byte where "PKT_CONTINUE = 3"
definition PKT_CLOSE :: byte where "PKT_CLOSE = 4"
definition STREAM_TYPE_TCP :: byte where "STREAM_TYPE_TCP = 1"

definition buildConnect :: "nat \<Rightarrow> byte list \<Rightarrow> nat \<Rightarrow> byte \<Rightarrow> byte list" where
  "buildConnect streamId host port streamType =
     PKT_CONNECT # le_bytes 4 streamId @ streamType # le_bytes 2 port @ host"

definition buildData :: "nat \<Rightarrow> byte list \<Rightarrow> byte list" where
  "buildData streamId data = PKT_DATA # le_bytes 4 streamId @ data"

definition buildContinue :: "nat \<Rightarrow> nat \<Rightarrow> byte list" where
  "buildContinue streamId remaining = PKT_CONTINUE # le_bytes 4 streamId @ le_bytes 4 remaining"

definition buildClose :: "nat \<Rightarrow> byte \<Rightarrow> byte list" where
  "buildClose streamId reason = PKT_CLOSE # le_bytes 4 streamId @ [reason]"

record packet =
  p_type :: byte
  p_streamId :: nat
  p_payload :: "byte list"

definition parsePacket :: "byte list \<Rightarrow> packet option" where
  "parsePacket bytes =
     (if length bytes < 5 then None
      else Some \<lparr>p_type = bytes ! 0, p_streamId = le_value (take 4 (drop 1 bytes)),
                 p_payload = drop 5 bytes\<rparr>)"

text \<open>\<open>getUint32(0, true)\<close> of a CONTINUE payload of at least four bytes.\<close>

definition continue_credit :: "byte list \<Rightarrow> nat" where
  "continue_credit payload = le_value (take 4 payload)"

text \<open>\<open>payload[1] | (payload[2] << 8)\<close> and the host bytes of a CONNECT payload.\<close>

definition connect_fields :: "byte list \<Rightarrow> byte \<times> nat \<times> byte list" where
  "connect_fields payload =
     (payload ! 0, unat (payload ! 1) + 256 * unat (payload ! 2), drop 3 payload)"

lemma parse_header:
  "parsePacket (t # le_bytes 4 streamId @ rest) =
     Some \<lparr>p_type = t, p_streamId = streamId mod 2 ^ 32, p_payload = rest\<rparr>"
  by (simp add: parsePacket_def le_value_bytes)

lemma parsePacket_None: "parsePacket bytes = None \<longleftrightarrow> length bytes < 5"
  by (simp add: parsePacket_def)

lemma parsePacket_bound: "parsePacket bytes = Some p \<Longrightarrow> p_streamId p < 2 ^ 32"
proof -
  assume p: "parsePacket bytes = Some p"
  then have "length (take 4 (drop 1 bytes)) = 4" by (auto simp: parsePacket_def split: if_splits)
  then have "le_value (take 4 (drop 1 bytes)) < 2 ^ 32"
    using le_value_bound [of "take 4 (drop 1 bytes)"] by simp
  then show ?thesis using p by (auto simp: parsePacket_def split: if_splits)
qed

text \<open>Every packet of at least five bytes is the encoding of what it parses to.\<close>

lemma parse_complete:
  assumes "parsePacket bytes = Some p"
  shows "bytes = p_type p # le_bytes 4 (p_streamId p) @ p_payload p"
proof -
  have len: "5 \<le> length bytes" using assms by (auto simp: parsePacket_def split: if_splits)
  then obtain t rest where b: "bytes = t # rest" "4 \<le> length rest" by (cases bytes) auto
  have "le_bytes 4 (le_value (take 4 rest)) = take 4 rest"
    using le_bytes_value [of "take 4 rest"] b(2) by (simp add: min_absorb2)
  then show ?thesis using assms len b by (auto simp: parsePacket_def)
qed

lemma continue_credit_build:
  "continue_credit (le_bytes 4 n) = n mod 2 ^ 32"
  by (simp add: continue_credit_def le_value_bytes)

lemma connect_fields_build:
  assumes "port < 2 ^ 16"
  shows "connect_fields (ty # le_bytes 2 port @ host) = (ty, port, host)"
proof -
  have b: "le_bytes 2 port = [of_nat port, of_nat (port div 256)]"
    by (simp add: numeral_2_eq_2 le_bytes_Suc)
  have "port div 256 < 256" using assms by simp
  then show ?thesis by (simp add: connect_fields_def b unat_byte_of_nat)
qed

section \<open>The four kinds\<close>

definition parse_connect :: "byte list \<Rightarrow> (nat \<times> byte \<times> nat \<times> byte list) option" where
  "parse_connect bytes =
     (case parsePacket bytes of
        None \<Rightarrow> None
      | Some p \<Rightarrow> if p_type p = PKT_CONNECT \<and> 3 \<le> length (p_payload p)
                  then Some (p_streamId p, connect_fields (p_payload p)) else None)"

definition parse_data :: "byte list \<Rightarrow> (nat \<times> byte list) option" where
  "parse_data bytes =
     (case parsePacket bytes of
        None \<Rightarrow> None
      | Some p \<Rightarrow> if p_type p = PKT_DATA then Some (p_streamId p, p_payload p) else None)"

definition parse_continue :: "byte list \<Rightarrow> (nat \<times> nat) option" where
  "parse_continue bytes =
     (case parsePacket bytes of
        None \<Rightarrow> None
      | Some p \<Rightarrow> if p_type p = PKT_CONTINUE \<and> 4 \<le> length (p_payload p)
                  then Some (p_streamId p, continue_credit (p_payload p)) else None)"

definition parse_close :: "byte list \<Rightarrow> (nat \<times> byte) option" where
  "parse_close bytes =
     (case parsePacket bytes of
        None \<Rightarrow> None
      | Some p \<Rightarrow> if p_type p = PKT_CLOSE
                  then Some (p_streamId p, if 0 < length (p_payload p) then p_payload p ! 0 else 0)
                  else None)"

lemmas wisp_types = PKT_CONNECT_def PKT_DATA_def PKT_CONTINUE_def PKT_CLOSE_def

interpretation connect_kind: packet_kind
  "\<lambda>(i, ty, port, host). i < 2 ^ 32 \<and> port < 2 ^ 16"
  "\<lambda>(i, ty, port, host). buildConnect i host port ty" parse_connect "\<lambda>x. x"
  by unfold_locales
    (auto simp: parse_connect_def buildConnect_def parse_header connect_fields_build)

interpretation data_kind: packet_kind
  "\<lambda>(i, d). i < 2 ^ 32" "\<lambda>(i, d). buildData i d" parse_data "\<lambda>x. x"
  by unfold_locales (auto simp: parse_data_def buildData_def parse_header)

interpretation continue_kind: packet_kind
  "\<lambda>(i, n). i < 2 ^ 32 \<and> n < 2 ^ 32" "\<lambda>(i, n). buildContinue i n" parse_continue "\<lambda>x. x"
  by unfold_locales
    (auto simp: parse_continue_def buildContinue_def parse_header continue_credit_build)

interpretation close_kind: packet_kind
  "\<lambda>(i, r). i < 2 ^ 32" "\<lambda>(i, r). buildClose i r" parse_close "\<lambda>x. x"
  by unfold_locales (auto simp: parse_close_def buildClose_def parse_header)

text \<open>
  C13. Packets of all four kinds that are built are parsed back to their fields, for every stream
  id and credit of 32 bits and every port of 16 bits, and a packet that parses is the encoding
  of what it parses to.
\<close>

theorem wisp_codec:
  assumes "i < 2 ^ 32" "n < 2 ^ 32" "port < 2 ^ 16"
  shows "parse_connect (buildConnect i host port ty) = Some (i, ty, port, host) \<and>
    parse_data (buildData i d) = Some (i, d) \<and>
    parse_continue (buildContinue i n) = Some (i, n) \<and>
    parse_close (buildClose i r) = Some (i, r) \<and>
    (parsePacket bytes = Some p \<longrightarrow> bytes = p_type p # le_bytes 4 (p_streamId p) @ p_payload p)"
  using assms connect_kind.parse_build [of "(i, ty, port, host)"] data_kind.parse_build [of "(i, d)"]
    continue_kind.parse_build [of "(i, n)"] close_kind.parse_build [of "(i, r)"] parse_complete
  by simp

theorem wisp_codec_witness:
  "parse_data (buildData 70000 [1, 2]) = Some (70000, [1, 2])"
  using wisp_codec [of 70000 128 443] by simp

end
