(* ===== verification/Wisp_Client.thy ===== *)
theory Wisp_Client
  imports Wisp_Wire
begin

text \<open>
  The Wisp client of \<open>napi-bridge/wisp-client.js\<close>: a connection multiplexing TCP streams, with
  credit-based flow control per stream. A stream object is found under its id, which is never
  reused; the connection's map holds the ids of the streams it still routes packets to.
  Calls out of the module (packets sent, chunks pushed to the reader, write callbacks, errors)
  are logged in order.
\<close>

section \<open>State\<close>

datatype cevent =
    SendConnect nat "byte list"
  | SendData nat "byte list"
  | SendClose nat "byte list"
  | Granted nat nat
  | WriteDone nat nat bool
  | Pushed nat "byte list"
  | PushedEof nat
  | StreamError nat byte
  | DestroyDone nat

record wisp_stream =
  s_credit :: nat
  s_sendQueue :: "(byte list \<times> nat) list"
  s_closed :: bool
  s_destroyed :: bool
  s_bytesRead :: nat
  s_bytesWritten :: nat

record wisp_conn =
  c_open :: bool
  c_objs :: "nat \<Rightarrow> wisp_stream option"
  c_streams :: "nat list"
  c_nextStreamId :: nat
  c_initialBuffer :: nat
  c_closed :: bool
  c_log :: "cevent list"

definition DEFAULT_INITIAL_BUFFER :: nat where "DEFAULT_INITIAL_BUFFER = 128"

text \<open>A connection whose WebSocket has opened.\<close>

definition new_conn :: wisp_conn where
  "new_conn = \<lparr>c_open = True, c_objs = Map.empty, c_streams = [], c_nextStreamId = 1,
     c_initialBuffer = DEFAULT_INITIAL_BUFFER, c_closed = False, c_log = []\<rparr>"

definition new_stream :: "nat \<Rightarrow> wisp_stream" where
  "new_stream initialBuffer =
     \<lparr>s_credit = initialBuffer, s_sendQueue = [], s_closed = False, s_destroyed = False,
      s_bytesRead = 0, s_bytesWritten = 0\<rparr>"

definition c_emit :: "cevent \<Rightarrow> wisp_conn \<Rightarrow> wisp_conn" where
  "c_emit e c = c\<lparr>c_log := c_log c @ [e]\<rparr>"

definition put_stream :: "nat \<Rightarrow> wisp_stream \<Rightarrow> wisp_conn \<Rightarrow> wisp_conn" where
  "put_stream sid st c = c\<lparr>c_objs := (c_objs c)(sid \<mapsto> st)\<rparr>"

text \<open>\<open>_send(packet)\<close>: throws unless the WebSocket is open.\<close>

definition send_packet :: "cevent \<Rightarrow> wisp_conn \<Rightarrow> wisp_conn option" where
  "send_packet e c = (if c_open c then Some (c_emit e c) else None)"

section \<open>A stream\<close>

text \<open>The loop of \<open>_drainSendQueue\<close>: a failed send answers the callback with the error.\<close>

fun drain_loop :: "nat \<Rightarrow> (byte list \<times> nat) list \<Rightarrow> nat \<Rightarrow> wisp_conn \<Rightarrow>
    (byte list \<times> nat) list \<times> nat \<times> wisp_conn" where
  "drain_loop sid [] credit c = ([], credit, c)"
| "drain_loop sid ((data, cb) # queue) credit c =
     (if credit = 0 then ((data, cb) # queue, credit, c)
      else case send_packet (SendData sid (buildData sid data)) c of
             Some c' \<Rightarrow> drain_loop sid queue (credit - 1) (c_emit (WriteDone sid cb True) c')
           | None \<Rightarrow> drain_loop sid queue credit (c_emit (WriteDone sid cb False) c))"

definition drainSendQueue :: "nat \<Rightarrow> wisp_conn \<Rightarrow> wisp_conn" where
  "drainSendQueue sid c =
     (case c_objs c sid of
        None \<Rightarrow> c
      | Some st \<Rightarrow>
          let (queue, credit, c') = drain_loop sid (s_sendQueue st) (s_credit st) c
          in put_stream sid (st\<lparr>s_sendQueue := queue, s_credit := credit\<rparr>) c')"

definition sendCloseAndCleanup :: "nat \<Rightarrow> byte \<Rightarrow> wisp_conn \<Rightarrow> wisp_conn" where
  "sendCloseAndCleanup sid reason c =
     (case c_objs c sid of
        None \<Rightarrow> c
      | Some st \<Rightarrow>
          if s_closed st then c
          else
            let c1 = put_stream sid (st\<lparr>s_closed := True\<rparr>) c;
                c2 = (case send_packet (SendClose sid (buildClose sid reason)) c1 of
                        Some c' \<Rightarrow> c' | None \<Rightarrow> c1)
            in c2\<lparr>c_streams := filter (\<lambda>i. i \<noteq> sid) (c_streams c2)\<rparr>)"

text \<open>\<open>_write(chunk, encoding, callback)\<close> of the stream, the chunk already bytes.\<close>

definition stream_write :: "nat \<Rightarrow> byte list \<Rightarrow> nat \<Rightarrow> wisp_conn \<Rightarrow> wisp_conn" where
  "stream_write sid chunk cb c =
     (case c_objs c sid of
        None \<Rightarrow> c
      | Some st \<Rightarrow>
          if s_closed st \<or> s_destroyed st then c_emit (WriteDone sid cb False) c
          else drainSendQueue sid
                 (put_stream sid (st\<lparr>s_bytesWritten := s_bytesWritten st + length chunk,
                                    s_sendQueue := s_sendQueue st @ [(chunk, cb)]\<rparr>) c))"

definition stream_final :: "nat \<Rightarrow> wisp_conn \<Rightarrow> wisp_conn" where
  "stream_final sid c = sendCloseAndCleanup sid 2 c"

definition stream_destroy :: "nat \<Rightarrow> wisp_conn \<Rightarrow> wisp_conn" where
  "stream_destroy sid c =
     (case c_objs c sid of
        None \<Rightarrow> c
      | Some st \<Rightarrow>
          c_emit (DestroyDone sid)
            (sendCloseAndCleanup sid 2 (put_stream sid (st\<lparr>s_destroyed := True\<rparr>) c)))"

definition onCredit :: "nat \<Rightarrow> nat \<Rightarrow> wisp_conn \<Rightarrow> wisp_conn" where
  "onCredit sid remaining c =
     (case c_objs c sid of
        None \<Rightarrow> c
      | Some st \<Rightarrow>
          drainSendQueue sid
            (c_emit (Granted sid remaining) (put_stream sid (st\<lparr>s_credit := remaining\<rparr>) c)))"

definition onRemoteData :: "nat \<Rightarrow> byte list \<Rightarrow> wisp_conn \<Rightarrow> wisp_conn" where
  "onRemoteData sid data c =
     (case c_objs c sid of
        None \<Rightarrow> c
      | Some st \<Rightarrow>
          c_emit (Pushed sid data)
            (put_stream sid (st\<lparr>s_bytesRead := s_bytesRead st + length data\<rparr>) c))"

definition onRemoteClose :: "nat \<Rightarrow> byte \<Rightarrow> wisp_conn \<Rightarrow> wisp_conn" where
  "onRemoteClose sid reason c =
     (case c_objs c sid of
        None \<Rightarrow> c
      | Some st \<Rightarrow>
          if s_closed st then c
          else
            let c1 = c_emit (PushedEof sid) (put_stream sid (st\<lparr>s_closed := True\<rparr>) c)
            in if reason \<noteq> 2 then c_emit (StreamError sid reason) c1 else c1)"

section \<open>The connection\<close>

definition connectTcp :: "byte list \<Rightarrow> nat \<Rightarrow> wisp_conn \<Rightarrow> nat option \<times> wisp_conn" where
  "connectTcp host port c =
     (if c_closed c then (None, c)
      else
        let sid = c_nextStreamId c;
            c1 = c_emit (Granted sid (c_initialBuffer c))
                   (put_stream sid (new_stream (c_initialBuffer c))
                     (c\<lparr>c_nextStreamId := Suc sid, c_streams := c_streams c @ [sid]\<rparr>))
        in case send_packet (SendConnect sid (buildConnect sid host port STREAM_TYPE_TCP)) c1 of
             Some c2 \<Rightarrow> (Some sid, c2)
           | None \<Rightarrow> (None, c1))"

definition onMessage :: "byte list \<Rightarrow> wisp_conn \<Rightarrow> wisp_conn" where
  "onMessage bytes c =
     (case parsePacket bytes of
        None \<Rightarrow> c
      | Some pkt \<Rightarrow>
          let sid = p_streamId pkt; payload = p_payload pkt in
          if sid = 0 then
            (if p_type pkt = PKT_CONTINUE \<and> 4 \<le> length payload
             then c\<lparr>c_initialBuffer := continue_credit payload\<rparr> else c)
          else if sid \<notin> set (c_streams c) then c
          else if p_type pkt = PKT_DATA then onRemoteData sid payload c
          else if p_type pkt = PKT_CONTINUE \<and> 4 \<le> length payload
            then onCredit sid (continue_credit payload) c
          else if p_type pkt = PKT_CLOSE then
            (let reason = (if 0 < length payload then payload ! 0 else 0);
                 c1 = onRemoteClose sid reason c
             in c1\<lparr>c_streams := filter (\<lambda>i. i \<noteq> sid) (c_streams c1)\<rparr>)
          else c)"

text \<open>The WebSocket's \<open>close\<close> event: every routed stream is closed with reason 3.\<close>

definition ws_closed :: "wisp_conn \<Rightarrow> wisp_conn" where
  "ws_closed c =
     (let c1 = c\<lparr>c_closed := True, c_open := False\<rparr>;
          c2 = foldl (\<lambda>c sid. onRemoteClose sid 3 c) c1 (c_streams c1)
      in c2\<lparr>c_streams := []\<rparr>)"

definition conn_close :: "wisp_conn \<Rightarrow> wisp_conn" where
  "conn_close c = c\<lparr>c_closed := True, c_open := False\<rparr>"

datatype cop =
    ConnectTcp "byte list" nat
  | Message "byte list"
  | StreamWrite nat "byte list" nat
  | StreamFinal nat
  | StreamDestroy nat
  | WsClosed
  | ConnClose

fun c_step :: "wisp_conn \<Rightarrow> cop \<Rightarrow> wisp_conn" where
  "c_step c (ConnectTcp host port) = snd (connectTcp host port c)"
| "c_step c (Message bytes) = onMessage bytes c"
| "c_step c (StreamWrite sid chunk cb) = stream_write sid chunk cb c"
| "c_step c (StreamFinal sid) = stream_final sid c"
| "c_step c (StreamDestroy sid) = stream_destroy sid c"
| "c_step c WsClosed = ws_closed c"
| "c_step c ConnClose = conn_close c"

definition c_run :: "cop list \<Rightarrow> wisp_conn" where
  "c_run ops = foldl c_step new_conn ops"

section \<open>What the log shows of a stream\<close>

text \<open>The credit left after a log: the last grant less the data packets since, never overdrawn.\<close>

fun budget :: "nat \<Rightarrow> nat \<Rightarrow> cevent list \<Rightarrow> nat option" where
  "budget sid n [] = Some n"
| "budget sid n (Granted i m # l) = budget sid (if i = sid then m else n) l"
| "budget sid n (SendData i d # l) =
     (if i = sid then (case n of 0 \<Rightarrow> None | Suc k \<Rightarrow> budget sid k l) else budget sid n l)"
| "budget sid n (e # l) = budget sid n l"

definition payloads :: "nat \<Rightarrow> cevent list \<Rightarrow> byte list list" where
  "payloads sid l = concat (map (\<lambda>e. case e of SendData i d \<Rightarrow> if i = sid then [drop 5 d] else []
                                       | _ \<Rightarrow> []) l)"

text \<open>Once a stream's close packet was sent, no packet of the stream follows: no data, no second close.\<close>

fun quiet_after_close :: "nat \<Rightarrow> bool \<Rightarrow> cevent list \<Rightarrow> bool" where
  "quiet_after_close sid closed [] = True"
| "quiet_after_close sid closed (SendClose i b # l) =
     (\<not> (closed \<and> i = sid) \<and> quiet_after_close sid (closed \<or> i = sid) l)"
| "quiet_after_close sid closed (SendData i d # l) = (\<not> (closed \<and> i = sid) \<and> quiet_after_close sid closed l)"
| "quiet_after_close sid closed (SendConnect i d # l) = (\<not> (closed \<and> i = sid) \<and> quiet_after_close sid closed l)"
| "quiet_after_close sid closed (e # l) = quiet_after_close sid closed l"

end
