(* ===== verification/Wisp_Client_Props.thy ===== *)
theory Wisp_Client_Props
  imports Wisp_Client
begin

text \<open>
  Flow control of the client: no data packet without credit, no chunk held back while there is
  credit, chunks in order and unchanged, fresh stream ids, nothing sent after a close.
\<close>

lemma budget_append:
  "budget sid n (l @ l') = (case budget sid n l of None \<Rightarrow> None | Some m \<Rightarrow> budget sid m l')"
  by (induction sid n l rule: budget.induct) (auto split: nat.split)

lemma payloads_simps [simp]:
  "payloads sid [] = []" "payloads sid (l @ l') = payloads sid l @ payloads sid l'"
  "payloads sid (SendData i d # l) = (if i = sid then [drop 5 d] else []) @ payloads sid l"
  "payloads sid (SendConnect i d # l) = payloads sid l" "payloads sid (SendClose i d # l) = payloads sid l"
  "payloads sid (Granted i k # l) = payloads sid l" "payloads sid (WriteDone i cb b # l) = payloads sid l"
  "payloads sid (Pushed i d # l) = payloads sid l" "payloads sid (PushedEof i # l) = payloads sid l"
  "payloads sid (StreamError i r # l) = payloads sid l" "payloads sid (DestroyDone i # l) = payloads sid l"
  by (simp_all add: payloads_def)

text \<open>The close packets of a stream, and the data packets, as predicates on events.\<close>

fun closes :: "nat \<Rightarrow> cevent \<Rightarrow> bool" where
  "closes sid (SendClose i b) \<longleftrightarrow> i = sid"
| "closes sid e \<longleftrightarrow> False"

fun sends :: "nat \<Rightarrow> cevent \<Rightarrow> bool" where
  "sends sid (SendData i d) \<longleftrightarrow> i = sid"
| "sends sid e \<longleftrightarrow> False"

fun packet :: "nat \<Rightarrow> cevent \<Rightarrow> bool" where
  "packet sid (SendConnect i d) \<longleftrightarrow> i = sid"
| "packet sid (SendData i d) \<longleftrightarrow> i = sid"
| "packet sid (SendClose i d) \<longleftrightarrow> i = sid"
| "packet sid e \<longleftrightarrow> False"

lemma quiet_append:
  "quiet_after_close sid b (l @ l') \<longleftrightarrow>
     quiet_after_close sid b l \<and> quiet_after_close sid (b \<or> list_ex (closes sid) l) l'"
  by (induction sid b l rule: quiet_after_close.induct) auto

lemma quiet_no_send: "\<not> list_ex (packet sid) l \<Longrightarrow> quiet_after_close sid b l"
  by (induction sid b l rule: quiet_after_close.induct) auto

lemma quiet_open: "\<not> list_ex (closes sid) l \<Longrightarrow> quiet_after_close sid False l"
  by (induction sid False l rule: quiet_after_close.induct) auto

text \<open>Events about other streams.\<close>

fun about :: "cevent \<Rightarrow> nat" where
  "about (SendConnect i d) = i" | "about (SendData i d) = i" | "about (SendClose i d) = i"
| "about (Granted i k) = i" | "about (WriteDone i cb b) = i" | "about (Pushed i d) = i"
| "about (PushedEof i) = i" | "about (StreamError i r) = i" | "about (DestroyDone i) = i"

lemma others:
  "\<forall>e \<in> set l. about e \<noteq> sid \<Longrightarrow> budget sid n l = Some n \<and> payloads sid l = [] \<and>
     \<not> list_ex (closes sid) l \<and> \<not> list_ex (sends sid) l \<and> \<not> list_ex (packet sid) l"
proof (induction l arbitrary: n)
  case (Cons e l)
  then show ?case by (cases e) auto
qed simp

section \<open>The invariant\<close>

definition stream_ok :: "wisp_conn \<Rightarrow> nat \<Rightarrow> bool" where
  "stream_ok c sid \<longleftrightarrow>
     (case c_objs c sid of
        None \<Rightarrow> sid \<notin> set (c_streams c) \<and> budget sid 0 (c_log c) = Some 0 \<and>
                \<not> list_ex (closes sid) (c_log c) \<and> \<not> list_ex (sends sid) (c_log c)
      | Some st \<Rightarrow>
          0 < sid \<and> sid < c_nextStreamId c \<and>
          (sid \<in> set (c_streams c)) = (\<not> s_closed st) \<and>
          budget sid 0 (c_log c) = Some (s_credit st) \<and>
          (s_sendQueue st \<noteq> [] \<and> \<not> s_closed st \<longrightarrow> s_credit st = 0) \<and>
          quiet_after_close sid False (c_log c) \<and>
          (list_ex (closes sid) (c_log c) \<longrightarrow> s_closed st))"

definition conn_ok :: "wisp_conn \<Rightarrow> bool" where
  "conn_ok c \<longleftrightarrow> 0 < c_nextStreamId c \<and> (\<forall>sid. stream_ok c sid)"

lemma conn_ok_cong:
  assumes "c_objs t = c_objs s" "c_streams t = c_streams s" "c_nextStreamId t = c_nextStreamId s"
    "c_log t = c_log s"
  shows "conn_ok t = conn_ok s"
  unfolding conn_ok_def stream_ok_def assms ..

text \<open>What an operation on one stream leaves alone of the others.\<close>

definition only_about :: "nat \<Rightarrow> wisp_conn \<Rightarrow> wisp_conn \<Rightarrow> bool" where
  "only_about sid c c' \<longleftrightarrow>
     (\<exists>l. c_log c' = c_log c @ l \<and> (\<forall>e \<in> set l. about e = sid)) \<and>
     (\<forall>i. i \<noteq> sid \<longrightarrow> c_objs c' i = c_objs c i \<and> (i \<in> set (c_streams c')) = (i \<in> set (c_streams c))) \<and>
     c_nextStreamId c' = c_nextStreamId c \<and> c_open c' = c_open c"

lemma only_about_ok:
  assumes "only_about sid c c'" "i \<noteq> sid" "stream_ok c i"
  shows "stream_ok c' i"
proof -
  obtain l where l: "c_log c' = c_log c @ l" "\<forall>e \<in> set l. about e = sid"
    using assms(1) by (auto simp: only_about_def)
  have o: "budget i n l = Some n \<and> payloads i l = [] \<and> \<not> list_ex (closes i) l \<and> \<not> list_ex (sends i) l
      \<and> \<not> list_ex (packet i) l" for n
    by (rule others) (use l(2) assms(2) in auto)
  have q: "quiet_after_close i b l" for b using quiet_no_send o by blast
  show ?thesis
    using assms o q by (auto simp: stream_ok_def only_about_def l(1) budget_append quiet_append
        split: option.splits)
qed

lemma conn_okI:
  assumes "conn_ok c" "only_about sid c c'" "stream_ok c' sid"
  shows "conn_ok c'"
  using assms only_about_ok by (metis conn_ok_def only_about_def)

lemma c_emit_fields [simp]:
  "c_objs (c_emit e c) = c_objs c" "c_streams (c_emit e c) = c_streams c" "c_open (c_emit e c) = c_open c"
  "c_nextStreamId (c_emit e c) = c_nextStreamId c" "c_log (c_emit e c) = c_log c @ [e]"
  "c_objs (put_stream sid st c) = (c_objs c)(sid \<mapsto> st)" "c_streams (put_stream sid st c) = c_streams c"
  "c_open (put_stream sid st c) = c_open c" "c_nextStreamId (put_stream sid st c) = c_nextStreamId c"
  "c_log (put_stream sid st c) = c_log c"
  by (simp_all add: c_emit_def put_stream_def)

section \<open>Draining\<close>

lemma drain_loop_spec:
  "drain_loop sid q credit c = (q', credit', c') \<Longrightarrow>
     \<exists>l. c_log c' = c_log c @ l \<and> c_objs c' = c_objs c \<and> c_streams c' = c_streams c \<and>
       c_open c' = c_open c \<and> c_nextStreamId c' = c_nextStreamId c \<and>
       (\<forall>e \<in> set l. about e = sid) \<and> \<not> list_ex (closes sid) l \<and>
       budget sid credit l = Some credit' \<and> (q' \<noteq> [] \<longrightarrow> credit' = 0) \<and>
       (c_open c \<longrightarrow> payloads sid l @ map fst q' = map fst q)"
proof (induction sid q credit c rule: drain_loop.induct)
  case (2 sid data cb queue credit c)
  show ?case
  proof (cases "credit = 0")
    case True
    with "2.prems" show ?thesis by auto
  next
    case False
    then obtain k where k: "credit = Suc k" by (cases credit) auto
    show ?thesis
    proof (cases "c_open c")
      case True
      let ?c = "c_emit (WriteDone sid cb True) (c_emit (SendData sid (buildData sid data)) c)"
      have s: "send_packet (SendData sid (buildData sid data)) c = Some (c_emit (SendData sid (buildData sid data)) c)"
        using True by (simp add: send_packet_def)
      have d: "drain_loop sid queue (credit - 1) ?c = (q', credit', c')"
        using "2.prems" False s by simp
      from "2.IH"(2) [OF False s d] obtain l where
        l: "c_log c' = c_log ?c @ l" "c_objs c' = c_objs ?c" "c_streams c' = c_streams ?c"
          "c_open c' = c_open ?c" "c_nextStreamId c' = c_nextStreamId ?c"
          "\<forall>e \<in> set l. about e = sid" "\<not> list_ex (closes sid) l"
          "budget sid (credit - 1) l = Some credit'" "q' \<noteq> [] \<longrightarrow> credit' = 0"
          "c_open ?c \<longrightarrow> payloads sid l @ map fst q' = map fst queue"
        by blast
      show ?thesis
        by (rule exI [of _ "SendData sid (buildData sid data) # WriteDone sid cb True # l"])
          (use l k True in \<open>auto simp: buildData_def\<close>)
    next
      case closed: False
      let ?c = "c_emit (WriteDone sid cb False) c"
      have s: "send_packet (SendData sid (buildData sid data)) c = None"
        using closed by (simp add: send_packet_def)
      have d: "drain_loop sid queue credit ?c = (q', credit', c')"
        using "2.prems" False s by simp
      from "2.IH"(1) [OF False s d] obtain l where
        l: "c_log c' = c_log ?c @ l" "c_objs c' = c_objs ?c" "c_streams c' = c_streams ?c"
          "c_open c' = c_open ?c" "c_nextStreamId c' = c_nextStreamId ?c"
          "\<forall>e \<in> set l. about e = sid" "\<not> list_ex (closes sid) l"
          "budget sid credit l = Some credit'" "q' \<noteq> [] \<longrightarrow> credit' = 0"
        by blast
      show ?thesis
        by (rule exI [of _ "WriteDone sid cb False # l"]) (use l closed in auto)
    qed
  qed
qed simp

text \<open>Draining an open stream whose log matches its credit, whatever is queued.\<close>

lemma drain_ok:
  assumes st: "c_objs c sid = Some st" "\<not> s_closed st" "sid \<in> set (c_streams c)"
    and b: "budget sid 0 (c_log c) = Some (s_credit st)" and id: "0 < sid" "sid < c_nextStreamId c"
    and nc: "\<not> list_ex (closes sid) (c_log c)"
  shows "only_about sid c (drainSendQueue sid c)" "stream_ok (drainSendQueue sid c) sid"
    and "c_open c \<Longrightarrow> payloads sid (c_log (drainSendQueue sid c)) @
      map fst (s_sendQueue (the (c_objs (drainSendQueue sid c) sid))) =
      payloads sid (c_log c) @ map fst (s_sendQueue st)"
proof -
  obtain q k c' where d: "drain_loop sid (s_sendQueue st) (s_credit st) c = (q, k, c')"
    by (metis prod_cases3)
  obtain l where l: "c_log c' = c_log c @ l" "c_objs c' = c_objs c" "c_streams c' = c_streams c"
      "c_open c' = c_open c" "c_nextStreamId c' = c_nextStreamId c"
      "\<forall>e \<in> set l. about e = sid" "\<not> list_ex (closes sid) l"
      "budget sid (s_credit st) l = Some k" "q \<noteq> [] \<longrightarrow> k = 0"
      "c_open c \<longrightarrow> payloads sid l @ map fst q = map fst (s_sendQueue st)"
    using drain_loop_spec [OF d] by blast
  have e: "drainSendQueue sid c = put_stream sid (st\<lparr>s_sendQueue := q, s_credit := k\<rparr>) c'"
    by (simp add: drainSendQueue_def st(1) d)
  show "only_about sid c (drainSendQueue sid c)" using l by (simp add: e only_about_def)
  have "quiet_after_close sid False (c_log c @ l)" by (rule quiet_open) (use nc l(7) in simp)
  then show "stream_ok (drainSendQueue sid c) sid"
    using l st b id nc by (simp add: stream_ok_def e budget_append)
  show "c_open c \<Longrightarrow> payloads sid (c_log (drainSendQueue sid c)) @
      map fst (s_sendQueue (the (c_objs (drainSendQueue sid c) sid))) =
      payloads sid (c_log c) @ map fst (s_sendQueue st)"
    using l by (simp add: e)
qed

lemma only_about_trans:
  assumes "only_about sid a b" "only_about sid b c" shows "only_about sid a c"
proof -
  obtain l where l: "c_log b = c_log a @ l" "\<forall>e \<in> set l. about e = sid"
    using assms(1) by (auto simp: only_about_def)
  obtain l' where l': "c_log c = c_log b @ l'" "\<forall>e \<in> set l'. about e = sid"
    using assms(2) by (auto simp: only_about_def)
  have "c_log c = c_log a @ (l @ l') \<and> (\<forall>e \<in> set (l @ l'). about e = sid)" using l l' by auto
  with assms show ?thesis unfolding only_about_def by (metis (no_types, lifting))
qed

lemma only_about_put: "only_about sid c (put_stream sid st c)"
  by (simp add: only_about_def)

lemma only_about_emit: "about e = sid \<Longrightarrow> only_about sid c (c_emit e c)"
  by (simp add: only_about_def)

section \<open>Every operation keeps the invariant\<close>

definition queue_of :: "wisp_conn \<Rightarrow> nat \<Rightarrow> byte list list" where
  "queue_of c sid = (case c_objs c sid of Some st \<Rightarrow> map fst (s_sendQueue st) | None \<Rightarrow> [])"

definition flow :: "nat \<Rightarrow> wisp_conn \<Rightarrow> byte list list" where
  "flow sid c = payloads sid (c_log c) @ queue_of c sid"

lemma flow_other:
  assumes "only_about sid c c'" "i \<noteq> sid" shows "flow i c' = flow i c"
proof -
  obtain l where l: "c_log c' = c_log c @ l" "\<forall>e \<in> set l. about e = sid"
    using assms(1) by (auto simp: only_about_def)
  have "payloads i l = []" using others [of l i] l(2) assms(2) by auto
  with l assms show ?thesis by (simp add: flow_def queue_of_def only_about_def)
qed

lemma conn_okD:
  assumes "conn_ok c" "c_objs c sid = Some st"
  shows "0 < sid" "sid < c_nextStreamId c" "(sid \<in> set (c_streams c)) = (\<not> s_closed st)"
    "budget sid 0 (c_log c) = Some (s_credit st)" "quiet_after_close sid False (c_log c)"
    "\<not> s_closed st \<Longrightarrow> \<not> list_ex (closes sid) (c_log c)"
    "s_sendQueue st \<noteq> [] \<Longrightarrow> \<not> s_closed st \<Longrightarrow> s_credit st = 0"
  using assms by (auto simp: conn_ok_def stream_ok_def split: option.splits)

lemma conn_ok_None: "conn_ok c \<Longrightarrow> c_objs c sid = None \<Longrightarrow> sid \<notin> set (c_streams c)"
  by (auto simp: conn_ok_def stream_ok_def dest!: spec [of _ sid])

lemma write_ok:
  assumes ok: "conn_ok c"
  shows "only_about sid c (stream_write sid chunk cb c)" "conn_ok (stream_write sid chunk cb c)"
    and "c_open c \<Longrightarrow> flow sid (stream_write sid chunk cb c) = flow sid c @
      (case c_objs c sid of Some st \<Rightarrow> if s_closed st \<or> s_destroyed st then [] else [chunk] | None \<Rightarrow> [])"
proof -
  have "only_about sid c (stream_write sid chunk cb c) \<and> stream_ok (stream_write sid chunk cb c) sid \<and>
    (c_open c \<longrightarrow> flow sid (stream_write sid chunk cb c) = flow sid c @
      (case c_objs c sid of Some st \<Rightarrow> if s_closed st \<or> s_destroyed st then [] else [chunk] | None \<Rightarrow> []))"
  proof (cases "c_objs c sid")
    case None
    then show ?thesis using ok by (simp add: stream_write_def only_about_def conn_ok_def)
  next
    case (Some st)
    note d = conn_okD [OF ok Some]
    show ?thesis
    proof (cases "s_closed st \<or> s_destroyed st")
      case True
      then have "stream_ok (c_emit (WriteDone sid cb False) c) sid"
        using ok Some by (auto simp: conn_ok_def stream_ok_def budget_append quiet_append
            dest!: spec [of _ sid])
      with True Some show ?thesis
        by (simp add: stream_write_def only_about_emit flow_def queue_of_def)
    next
      case False
      let ?st = "st\<lparr>s_bytesWritten := s_bytesWritten st + length chunk,
                    s_sendQueue := s_sendQueue st @ [(chunk, cb)]\<rparr>"
      let ?c = "put_stream sid ?st c"
      have e: "stream_write sid chunk cb c = drainSendQueue sid ?c"
        using Some False by (simp add: stream_write_def)
      have pre: "c_objs ?c sid = Some ?st" "\<not> s_closed ?st" "sid \<in> set (c_streams ?c)"
        "budget sid 0 (c_log ?c) = Some (s_credit ?st)" "0 < sid" "sid < c_nextStreamId ?c"
        "\<not> list_ex (closes sid) (c_log ?c)"
        using d False by auto
      note dr = drain_ok [OF pre]
      have "c_open c \<longrightarrow> flow sid (drainSendQueue sid ?c) = flow sid c @ [chunk]"
      proof
        assume "c_open c"
        then have "payloads sid (c_log (drainSendQueue sid ?c)) @
            map fst (s_sendQueue (the (c_objs (drainSendQueue sid ?c) sid))) = flow sid c @ [chunk]"
          using dr(3) Some by (simp add: flow_def queue_of_def)
        moreover have "c_objs (drainSendQueue sid ?c) sid \<noteq> None"
          by (simp add: drainSendQueue_def split_beta)
        ultimately show "flow sid (drainSendQueue sid ?c) = flow sid c @ [chunk]"
          by (auto simp: flow_def queue_of_def)
      qed
      with dr(2) only_about_trans [OF only_about_put dr(1)] False Some show ?thesis by (simp add: e)
    qed
  qed
  then show "only_about sid c (stream_write sid chunk cb c)" "conn_ok (stream_write sid chunk cb c)"
    "c_open c \<Longrightarrow> flow sid (stream_write sid chunk cb c) = flow sid c @
      (case c_objs c sid of Some st \<Rightarrow> if s_closed st \<or> s_destroyed st then [] else [chunk] | None \<Rightarrow> [])"
    using conn_okI [OF ok] by blast+
qed

lemma credit_ok:
  assumes ok: "conn_ok c" and mem: "sid \<in> set (c_streams c)"
  shows "only_about sid c (onCredit sid n c)" "conn_ok (onCredit sid n c)"
    and "c_open c \<Longrightarrow> flow sid (onCredit sid n c) = flow sid c"
proof -
  obtain st where Some: "c_objs c sid = Some st" using conn_ok_None [OF ok] mem by (cases "c_objs c sid") auto
  note d = conn_okD [OF ok Some]
  let ?st = "st\<lparr>s_credit := n\<rparr>"
  let ?c = "c_emit (Granted sid n) (put_stream sid ?st c)"
  have e: "onCredit sid n c = drainSendQueue sid ?c" using Some by (simp add: onCredit_def)
  have pre: "c_objs ?c sid = Some ?st" "\<not> s_closed ?st" "sid \<in> set (c_streams ?c)"
    "budget sid 0 (c_log ?c) = Some (s_credit ?st)" "0 < sid" "sid < c_nextStreamId ?c"
    "\<not> list_ex (closes sid) (c_log ?c)"
    using d mem by (auto simp: budget_append)
  note dr = drain_ok [OF pre]
  have oa: "only_about sid c ?c"
    by (rule only_about_trans [OF only_about_put only_about_emit]) simp
  show "only_about sid c (onCredit sid n c)" unfolding e by (rule only_about_trans [OF oa dr(1)])
  then show "conn_ok (onCredit sid n c)" using conn_okI [OF ok] dr(2) by (simp add: e)
  assume "c_open c"
  then have "payloads sid (c_log (drainSendQueue sid ?c)) @
      map fst (s_sendQueue (the (c_objs (drainSendQueue sid ?c) sid))) = flow sid c"
    using dr(3) Some by (simp add: flow_def queue_of_def)
  moreover have "c_objs (drainSendQueue sid ?c) sid \<noteq> None" by (simp add: drainSendQueue_def split_beta)
  ultimately show "flow sid (onCredit sid n c) = flow sid c" by (auto simp: e flow_def queue_of_def)
qed

lemma cleanup_ok:
  assumes ok: "conn_ok c"
  shows "only_about sid c (sendCloseAndCleanup sid r c)" "conn_ok (sendCloseAndCleanup sid r c)"
    and "flow sid (sendCloseAndCleanup sid r c) = flow sid c"
proof -
  have "only_about sid c (sendCloseAndCleanup sid r c) \<and> stream_ok (sendCloseAndCleanup sid r c) sid \<and>
    flow sid (sendCloseAndCleanup sid r c) = flow sid c"
  proof (cases "c_objs c sid")
    case None
    then show ?thesis using ok by (simp add: sendCloseAndCleanup_def only_about_def conn_ok_def)
  next
    case (Some st)
    note d = conn_okD [OF ok Some]
    show ?thesis
    proof (cases "s_closed st")
      case True
      then show ?thesis using ok Some by (simp add: sendCloseAndCleanup_def only_about_def conn_ok_def)
    next
      case False
      with d Some show ?thesis
        by (auto simp: sendCloseAndCleanup_def send_packet_def Let_def only_about_def stream_ok_def
            budget_append quiet_append flow_def queue_of_def)
    qed
  qed
  then show "only_about sid c (sendCloseAndCleanup sid r c)" "conn_ok (sendCloseAndCleanup sid r c)"
    "flow sid (sendCloseAndCleanup sid r c) = flow sid c"
    using conn_okI [OF ok] by blast+
qed

lemma data_ok:
  assumes ok: "conn_ok c"
  shows "only_about sid c (onRemoteData sid x c)" "conn_ok (onRemoteData sid x c)"
    and "flow sid (onRemoteData sid x c) = flow sid c"
proof -
  have "only_about sid c (onRemoteData sid x c) \<and> stream_ok (onRemoteData sid x c) sid \<and>
    flow sid (onRemoteData sid x c) = flow sid c"
  proof (cases "c_objs c sid")
    case None
    then show ?thesis using ok by (simp add: onRemoteData_def only_about_def conn_ok_def)
  next
    case (Some st)
    with conn_okD [OF ok Some] show ?thesis
      by (auto simp: onRemoteData_def only_about_def stream_ok_def budget_append quiet_append
          flow_def queue_of_def)
  qed
  then show "only_about sid c (onRemoteData sid x c)" "conn_ok (onRemoteData sid x c)"
    "flow sid (onRemoteData sid x c) = flow sid c"
    using conn_okI [OF ok] by blast+
qed

text \<open>A close packet: the stream is closed and no longer routed.\<close>

lemma remote_close_ok:
  assumes ok: "conn_ok c" and c': "c' = (onRemoteClose sid r c)
      \<lparr>c_streams := filter (\<lambda>i. i \<noteq> sid) (c_streams (onRemoteClose sid r c))\<rparr>"
  shows "only_about sid c c'" "conn_ok c'" and "flow sid c' = flow sid c"
proof -
  have "only_about sid c c' \<and> stream_ok c' sid \<and> flow sid c' = flow sid c"
  proof (cases "c_objs c sid")
    case None
    then have "stream_ok c sid" using ok by (simp add: conn_ok_def)
    with None show ?thesis
      by (simp add: c' onRemoteClose_def only_about_def stream_ok_def flow_def queue_of_def)
  next
    case (Some st)
    with conn_okD [OF ok Some] show ?thesis
      by (auto simp: c' onRemoteClose_def Let_def only_about_def stream_ok_def budget_append quiet_append
          flow_def queue_of_def)
  qed
  then show "only_about sid c c'" "conn_ok c'" "flow sid c' = flow sid c"
    using conn_okI [OF ok] by blast+
qed

lemma destroy_ok:
  assumes ok: "conn_ok c"
  shows "conn_ok (stream_destroy sid c)" and "flow i (stream_destroy sid c) = flow i c"
proof -
  have "conn_ok (stream_destroy sid c) \<and> (\<forall>i. flow i (stream_destroy sid c) = flow i c)"
  proof (cases "c_objs c sid")
    case None
    then show ?thesis using ok by (simp add: stream_destroy_def)
  next
    case (Some st)
    let ?c1 = "put_stream sid (st\<lparr>s_destroyed := True\<rparr>) c"
    have "stream_ok ?c1 sid" using conn_okD [OF ok Some] by (auto simp: stream_ok_def)
    then have ok1: "conn_ok ?c1" using conn_okI [OF ok only_about_put] by blast
    note cl = cleanup_ok [OF ok1, of sid 2]
    let ?c2 = "sendCloseAndCleanup sid 2 ?c1"
    have "stream_ok (c_emit (DestroyDone sid) ?c2) sid"
      using cl(2) by (auto simp: conn_ok_def stream_ok_def budget_append quiet_append
          split: option.splits dest!: spec [of _ sid])
    then have ok3: "conn_ok (c_emit (DestroyDone sid) ?c2)"
      using conn_okI [OF cl(2) only_about_emit] by simp
    have f: "flow i (c_emit (DestroyDone sid) ?c2) = flow i ?c2" for i by (simp add: flow_def queue_of_def)
    have f1: "flow i ?c1 = flow i c" for i using Some by (simp add: flow_def queue_of_def)
    have "flow i ?c2 = flow i ?c1" for i
      using cl(3) flow_other [OF cl(1)] by (cases "i = sid") auto
    with f f1 ok3 Some show ?thesis by (simp add: stream_destroy_def)
  qed
  then show "conn_ok (stream_destroy sid c)" "flow i (stream_destroy sid c) = flow i c" by blast+
qed

lemma connect_ok:
  assumes ok: "conn_ok c"
  shows "conn_ok (snd (connectTcp host port c))" and "flow i (snd (connectTcp host port c)) = flow i c"
proof -
  have "conn_ok (snd (connectTcp host port c)) \<and> (\<forall>i. flow i (snd (connectTcp host port c)) = flow i c)"
  proof (cases "c_closed c")
    case True
    with ok show ?thesis by (simp add: connectTcp_def)
  next
    case False
    let ?sid = "c_nextStreamId c"
    let ?c = "snd (connectTcp host port c)"
    have none: "c_objs c ?sid = None"
      using conn_okD(2) [OF ok, of ?sid] by (cases "c_objs c ?sid") auto
    obtain l where l: "c_log ?c = c_log c @ l" "\<forall>e \<in> set l. about e = ?sid"
        "budget ?sid 0 l = Some (c_initialBuffer c)" "payloads ?sid l = []"
        "\<not> list_ex (closes ?sid) l" "\<not> list_ex (sends ?sid) l"
      and f: "c_objs ?c = (c_objs c)(?sid \<mapsto> new_stream (c_initialBuffer c))"
        "c_streams ?c = c_streams c @ [?sid]" "c_nextStreamId ?c = Suc ?sid"
      using False
      by (cases "c_open c") (simp_all add: connectTcp_def Let_def send_packet_def c_emit_def put_stream_def)
    have n: "?sid \<notin> set (c_streams c)" "budget ?sid 0 (c_log c) = Some 0"
      "\<not> list_ex (closes ?sid) (c_log c)" "\<not> list_ex (sends ?sid) (c_log c)"
      using ok none by (auto simp: conn_ok_def stream_ok_def dest!: spec [of _ ?sid])
    have q: "quiet_after_close ?sid False (c_log c @ l)" by (rule quiet_open) (use n(3) l(5) in simp)
    have "stream_ok ?c i" for i
    proof (cases "i = ?sid")
      case True
      then show ?thesis
        using n l f q ok by (simp add: stream_ok_def budget_append new_stream_def conn_ok_def)
    next
      case False
      then have o: "budget i k l = Some k \<and> payloads i l = [] \<and> \<not> list_ex (closes i) l \<and>
          \<not> list_ex (sends i) l \<and> \<not> list_ex (packet i) l" for k
        using others [of l i] l(2) by auto
      have "quiet_after_close i b l" for b using quiet_no_send o by blast
      with False o f show ?thesis
        using ok by (auto simp: conn_ok_def stream_ok_def l(1) budget_append quiet_append
            split: option.splits dest!: spec [of _ i])
    qed
    moreover have "flow i ?c = flow i c" for i
    proof (cases "i = ?sid")
      case True
      then show ?thesis using l f none by (simp add: flow_def queue_of_def new_stream_def)
    next
      case False
      then have "payloads i l = []" using others [of l i] l(2) by auto
      with False l(1) f show ?thesis by (simp add: flow_def queue_of_def)
    qed
    ultimately show ?thesis using f(3) by (simp add: conn_ok_def)
  qed
  then show "conn_ok (snd (connectTcp host port c))" "flow i (snd (connectTcp host port c)) = flow i c"
    by blast+
qed

lemma message_ok:
  assumes ok: "conn_ok c"
  shows "conn_ok (onMessage bytes c)" and "c_open c \<Longrightarrow> flow i (onMessage bytes c) = flow i c"
    and "c_open (onMessage bytes c) = c_open c"
proof -
  have rc: "c_open (onRemoteClose sid r c) = c_open c" for sid r
    by (simp add: onRemoteClose_def Let_def split: option.split)
  have fl: "flow i c' = flow i c" if "only_about sid c c'" "flow sid c' = flow sid c" for sid c'
    using flow_other [OF that(1)] that(2) by (cases "i = sid") auto
  have ib: "conn_ok (c\<lparr>c_initialBuffer := n\<rparr>)" "flow i (c\<lparr>c_initialBuffer := n\<rparr>) = flow i c" for n
    using ok conn_ok_cong [of "c\<lparr>c_initialBuffer := n\<rparr>" c] by (simp_all add: flow_def queue_of_def)
  have "conn_ok (onMessage bytes c) \<and> (c_open c \<longrightarrow> flow i (onMessage bytes c) = flow i c) \<and>
    c_open (onMessage bytes c) = c_open c"
  proof (cases "parsePacket bytes")
    case None
    with ok show ?thesis by (simp add: onMessage_def)
  next
    case (Some p)
    let ?sid = "p_streamId p"
    note dt = data_ok [OF ok, of ?sid "p_payload p"]
    note cr = credit_ok [OF ok, of ?sid]
    note cl = remote_close_ok [OF ok refl, of ?sid]
    have "c_open (onRemoteData s x c) = c_open c" for s x
      by (simp add: onRemoteData_def split: option.split)
    moreover have "c_open (onCredit ?sid n c) = c_open c" if "?sid \<in> set (c_streams c)" for n
      using cr(1) [OF that] by (simp add: only_about_def)
    ultimately show ?thesis
      using ok ib dt cr cl rc fl [OF dt(1,3)] fl [OF cl(1,3)] fl [OF cr(1,3)]
      unfolding onMessage_def Some option.case Let_def
      by (auto simp: flow_def queue_of_def)
  qed
  then show "conn_ok (onMessage bytes c)" "c_open c \<Longrightarrow> flow i (onMessage bytes c) = flow i c"
    "c_open (onMessage bytes c) = c_open c" by blast+
qed

text \<open>The loop of the WebSocket's close handler.\<close>

lemma close_all:
  "\<exists>l. c_log (foldl (\<lambda>c sid. onRemoteClose sid r c) c sids) = c_log c @ l \<and>
     (\<forall>i. budget i n l = Some n \<and> \<not> list_ex (closes i) l \<and> \<not> list_ex (sends i) l \<and> \<not> list_ex (packet i) l) \<and>
     c_nextStreamId (foldl (\<lambda>c sid. onRemoteClose sid r c) c sids) = c_nextStreamId c \<and>
     (\<forall>i. c_objs (foldl (\<lambda>c sid. onRemoteClose sid r c) c sids) i =
       (if i \<in> set sids then map_option (\<lambda>st. st\<lparr>s_closed := True\<rparr>) (c_objs c i) else c_objs c i))"
proof (induction sids arbitrary: c)
  case (Cons sid sids)
  let ?c = "onRemoteClose sid r c"
  obtain l where l: "c_log ?c = c_log c @ l"
      "\<forall>i. budget i n l = Some n \<and> \<not> list_ex (closes i) l \<and> \<not> list_ex (sends i) l \<and> \<not> list_ex (packet i) l"
    and f: "c_nextStreamId ?c = c_nextStreamId c"
      "\<forall>i. c_objs ?c i = (if i = sid then map_option (\<lambda>st. st\<lparr>s_closed := True\<rparr>) (c_objs c i) else c_objs c i)"
  proof (cases "c_objs c sid")
    case None
    then show ?thesis by (intro that [of "[]"]) (simp_all add: onRemoteClose_def)
  next
    case (Some st)
    show ?thesis
    proof (cases "s_closed st")
      case True
      then have "st\<lparr>s_closed := True\<rparr> = st" by simp
      with Some True show ?thesis by (intro that [of "[]"]) (simp_all add: onRemoteClose_def)
    next
      case False
      with Some show ?thesis
        by (intro that [of "PushedEof sid # (if r \<noteq> 2 then [StreamError sid r] else [])"])
          (auto simp: onRemoteClose_def Let_def)
    qed
  qed
  obtain l' where l': "c_log (foldl (\<lambda>c sid. onRemoteClose sid r c) ?c sids) = c_log ?c @ l'"
      "\<forall>i. budget i n l' = Some n \<and> \<not> list_ex (closes i) l' \<and> \<not> list_ex (sends i) l' \<and> \<not> list_ex (packet i) l'"
    and f': "c_nextStreamId (foldl (\<lambda>c sid. onRemoteClose sid r c) ?c sids) = c_nextStreamId ?c"
      "\<forall>i. c_objs (foldl (\<lambda>c sid. onRemoteClose sid r c) ?c sids) i =
        (if i \<in> set sids then map_option (\<lambda>st. st\<lparr>s_closed := True\<rparr>) (c_objs ?c i) else c_objs ?c i)"
    using Cons.IH [of ?c] by blast
  show ?case
    by (rule exI [of _ "l @ l'"])
      (use l l' f f' in \<open>auto simp: budget_append option.map_comp comp_def\<close>)
qed simp

lemma ws_closed_ok:
  assumes ok: "conn_ok c" shows "conn_ok (ws_closed c)"
proof -
  let ?c1 = "c\<lparr>c_closed := True, c_open := False\<rparr>"
  let ?c2 = "foldl (\<lambda>c sid. onRemoteClose sid 3 c) ?c1 (c_streams ?c1)"
  have "stream_ok (ws_closed c) i" for i
  proof -
    obtain l where l: "c_log ?c2 = c_log ?c1 @ l"
        "\<not> list_ex (closes i) l" "\<not> list_ex (sends i) l" "\<not> list_ex (packet i) l"
        "budget i (case c_objs c i of Some st \<Rightarrow> s_credit st | None \<Rightarrow> 0) l =
           Some (case c_objs c i of Some st \<Rightarrow> s_credit st | None \<Rightarrow> 0)"
      and f: "c_nextStreamId ?c2 = c_nextStreamId ?c1"
        "c_objs ?c2 i = (if i \<in> set (c_streams c) then map_option (\<lambda>st. st\<lparr>s_closed := True\<rparr>) (c_objs c i)
                         else c_objs c i)"
      using close_all [of 3 ?c1 "c_streams ?c1"
          "case c_objs c i of Some st \<Rightarrow> s_credit st | None \<Rightarrow> 0"] by auto
    have q: "quiet_after_close i b l" for b using quiet_no_send l(4) by blast
    show ?thesis
    proof (cases "c_objs c i")
      case None
      moreover from None ok have "stream_ok c i" by (simp add: conn_ok_def)
      ultimately show ?thesis
        using l f q by (auto simp: ws_closed_def Let_def stream_ok_def budget_append)
    next
      case (Some st)
      with conn_okD [OF ok Some] l f q show ?thesis
        by (auto simp: ws_closed_def Let_def stream_ok_def budget_append quiet_append)
    qed
  qed
  moreover have "c_nextStreamId (ws_closed c) = c_nextStreamId c"
    using close_all [of 3 ?c1 "c_streams ?c1" 0] by (auto simp: ws_closed_def Let_def)
  ultimately show ?thesis using ok by (simp add: conn_ok_def)
qed

lemma step_ok: "conn_ok c \<Longrightarrow> conn_ok (c_step c op)"
proof (cases op)
  case ConnClose
  moreover assume "conn_ok c"
  ultimately show ?thesis
    using conn_ok_cong [of "conn_close c" c] by (simp add: conn_close_def)
qed (simp_all add: connect_ok message_ok write_ok cleanup_ok stream_final_def destroy_ok ws_closed_ok)

lemma new_conn_ok: "conn_ok new_conn"
  by (simp add: conn_ok_def stream_ok_def new_conn_def)

lemma run_ok: "conn_ok (c_run ops)"
proof -
  have "conn_ok c \<Longrightarrow> conn_ok (foldl c_step c ops)" for c
    by (induction ops arbitrary: c) (auto simp: step_ok)
  then show ?thesis by (simp add: c_run_def new_conn_ok)
qed

section \<open>Data of an open connection\<close>

fun keeps_open :: "cop \<Rightarrow> bool" where
  "keeps_open WsClosed \<longleftrightarrow> False" | "keeps_open ConnClose \<longleftrightarrow> False" | "keeps_open _ \<longleftrightarrow> True"

text \<open>The chunks a stream takes from its writer.\<close>

fun taken_op :: "nat \<Rightarrow> wisp_conn \<Rightarrow> cop \<Rightarrow> byte list list" where
  "taken_op sid c (StreamWrite i chunk cb) =
     (if i = sid then (case c_objs c sid of
                         Some st \<Rightarrow> if s_closed st \<or> s_destroyed st then [] else [chunk]
                       | None \<Rightarrow> []) else [])"
| "taken_op sid c _ = []"

fun taken :: "nat \<Rightarrow> wisp_conn \<Rightarrow> cop list \<Rightarrow> byte list list" where
  "taken sid c [] = []"
| "taken sid c (op # ops) = taken_op sid c op @ taken sid (c_step c op) ops"

lemma cleanup_open: "c_open (sendCloseAndCleanup sid r c) = c_open c"
  by (auto simp: sendCloseAndCleanup_def send_packet_def Let_def split: option.split)

lemma flow_step:
  assumes ok: "conn_ok c" and op: "c_open c" "keeps_open op"
  shows "flow sid (c_step c op) = flow sid c @ taken_op sid c op \<and> c_open (c_step c op)"
proof (cases op)
  case (ConnectTcp host port)
  moreover have "c_open (snd (connectTcp host port c))"
    using op by (simp add: connectTcp_def Let_def send_packet_def)
  ultimately show ?thesis using connect_ok(2) [OF ok] by simp
next
  case (Message bytes)
  then show ?thesis using message_ok [OF ok] op by simp
next
  case (StreamWrite i chunk cb)
  note w = write_ok [OF ok, of i chunk cb]
  show ?thesis
    using StreamWrite w(3) [OF op(1)] flow_other [OF w(1), of sid] w(1) op(1)
    by (cases "i = sid") (auto simp: only_about_def)
next
  case (StreamFinal i)
  note w = cleanup_ok [OF ok, of i 2]
  show ?thesis
    using StreamFinal w(3) flow_other [OF w(1), of sid] op(1) cleanup_open
    by (cases "i = sid") (auto simp: stream_final_def)
next
  case (StreamDestroy i)
  moreover have "c_open (stream_destroy i c)"
    using op(1) by (simp add: stream_destroy_def cleanup_open split: option.split)
  ultimately show ?thesis using destroy_ok(2) [OF ok] by simp
qed (use op in simp_all)

lemma flow_run:
  "conn_ok c \<Longrightarrow> c_open c \<Longrightarrow> list_all keeps_open ops \<Longrightarrow>
     flow sid (foldl c_step c ops) = flow sid c @ taken sid c ops"
proof (induction ops arbitrary: c)
  case (Cons op ops)
  have s: "flow sid (c_step c op) = flow sid c @ taken_op sid c op" "c_open (c_step c op)"
    using flow_step [OF Cons.prems(1,2)] Cons.prems(3) by auto
  show ?case using Cons.IH [OF step_ok [OF Cons.prems(1)] s(2)] Cons.prems(3) s(1) by simp
qed simp

section \<open>Properties\<close>

text \<open>
  C14. Whatever the server sends and the streams write, the client never sends a data packet
  without credit: along the whole log the packets since the last grant never exceed it, and what
  is left is the stream's credit. A chunk waits only while the credit is zero, and after the close
  packet of a stream no packet of that stream is sent, neither data nor a second close nor a connect
  that would reuse its id.
\<close>

theorem wisp_client_credit:
  assumes "c_objs (c_run ops) sid = Some st"
  shows "budget sid 0 (c_log (c_run ops)) = Some (s_credit st) \<and>
    (s_sendQueue st \<noteq> [] \<and> \<not> s_closed st \<longrightarrow> s_credit st = 0) \<and>
    quiet_after_close sid False (c_log (c_run ops)) \<and>
    0 < sid \<and> sid < c_nextStreamId (c_run ops)"
  using conn_okD [OF run_ok assms] by blast

theorem wisp_client_credit_witness:
  "budget 1 0 (c_log (c_run [ConnectTcp [104] 80, StreamWrite 1 [1, 2] 0])) = Some 127"
proof -
  have "c_objs (c_run [ConnectTcp [104] 80, StreamWrite 1 [1, 2] 0]) 1 =
      Some (new_stream 128\<lparr>s_credit := 127, s_bytesWritten := 2\<rparr>)"
    by (simp add: c_run_def new_conn_def connectTcp_def send_packet_def c_emit_def put_stream_def
        new_stream_def stream_write_def drainSendQueue_def DEFAULT_INITIAL_BUFFER_def Let_def)
  from wisp_client_credit [OF this] show ?thesis by simp
qed

text \<open>
  While the WebSocket stays open, the payloads of the data packets sent on a stream followed
  by its queued chunks are exactly the chunks it took from its writer, in order.
\<close>

theorem wisp_client_fifo:
  assumes "list_all keeps_open ops"
  shows "payloads sid (c_log (c_run ops)) @ queue_of (c_run ops) sid = taken sid new_conn ops"
  using flow_run [OF new_conn_ok _ assms, of sid]
  by (simp add: c_run_def flow_def) (simp add: new_conn_def queue_of_def)

theorem wisp_client_fifo_witness:
  "payloads 1 (c_log (c_run [ConnectTcp [104] 80, StreamWrite 1 [1, 2] 0])) @
   queue_of (c_run [ConnectTcp [104] 80, StreamWrite 1 [1, 2] 0]) 1 =
   taken 1 new_conn [ConnectTcp [104] 80, StreamWrite 1 [1, 2] 0]"
  by (rule wisp_client_fifo) simp

end
