(* ===== verification/Guard.thy ===== *)
theory Guard
  imports Prelude
begin

unbundle bit_operations_syntax

text \<open>
  The anti-abuse policy of the hosted tunnel, \<open>cmd/wisp-server-node/guard.js\<close>: destination
  addresses and ports, name resolution, origins and the per-address session tracker. The
  environment is a record of the variables it reads; name resolution (\<open>dns.lookup\<close>) and URL
  parsing are parameters.
\<close>

section \<open>Numbers and addresses as text\<close>

definition digit :: "char \<Rightarrow> bool" where
  "digit c \<longleftrightarrow> c \<in> set ''0123456789''"

definition digit_val :: "char \<Rightarrow> nat" where
  "digit_val c = of_char c - 48"

definition digits_val :: "string \<Rightarrow> nat" where
  "digits_val s = foldl (\<lambda>n c. n * 10 + digit_val c) 0 s"

text \<open>
  \<open>Number(s)\<close> on the strings that reach it here: digits, or the empty string, which is 0. The
  other spellings \<open>Number\<close> accepts (signs, exponents, hexadecimal, spaces) do not pass \<open>isIP\<close>.
\<close>

definition js_number :: "string \<Rightarrow> nat option" where
  "js_number s = (if list_all digit s then Some (digits_val s) else None)"

text \<open>\<open>isIP\<close> of \<open>node:net\<close>: four decimal octets without leading zeros.\<close>

definition octet :: "string \<Rightarrow> bool" where
  "octet s \<longleftrightarrow> s \<noteq> [] \<and> length s \<le> 3 \<and> list_all digit s \<and> digits_val s \<le> 255 \<and>
     (1 < length s \<longrightarrow> hd s \<noteq> CHR ''0'')"

definition is_ipv4 :: "string \<Rightarrow> bool" where
  "is_ipv4 s \<longleftrightarrow> length (split_on (CHR ''.'') s) = 4 \<and> list_all octet (split_on (CHR ''.'') s)"

definition hex_digit :: "char \<Rightarrow> bool" where
  "hex_digit c \<longleftrightarrow> c \<in> set ''0123456789abcdefABCDEF''"

definition seg :: "string \<Rightarrow> bool" where
  "seg s \<longleftrightarrow> s \<noteq> [] \<and> length s \<le> 4 \<and> list_all hex_digit s"

definition zone_char :: "char \<Rightarrow> bool" where
  "zone_char c \<longleftrightarrow> digit c \<or> (97 \<le> (of_char c :: nat) \<and> (of_char c :: nat) \<le> 122) \<or>
     (65 \<le> (of_char c :: nat) \<and> (of_char c :: nat) \<le> 90) \<or> c = CHR ''-'' \<or> c = CHR ''.'' \<or> c = CHR '':''"

definition strip_zone :: "string \<Rightarrow> string option" where
  "strip_zone s =
     (case index_of (CHR ''%'') s of
        None \<Rightarrow> Some s
      | Some i \<Rightarrow> if drop (Suc i) s \<noteq> [] \<and> list_all zone_char (drop (Suc i) s)
                  then Some (take i s) else None)"

text \<open>The text around the first \<open>::\<close>.\<close>

fun split_gap :: "string \<Rightarrow> (string \<times> string) option" where
  "split_gap (a # b # s) =
     (if a = CHR '':'' \<and> b = CHR '':'' then Some ([], s)
      else map_option (\<lambda>(l, r). (a # l, r)) (split_gap (b # s)))"
| "split_gap _ = None"

text \<open>How many 16-bit groups one side spells; only the last may be a dotted quad.\<close>

definition v6_side :: "bool \<Rightarrow> string \<Rightarrow> nat option" where
  "v6_side quad s =
     (if s = [] then Some 0
      else let gs = split_on (CHR '':'') s in
        if \<not> list_all seg (butlast gs) then None
        else if seg (last gs) then Some (length gs)
        else if quad \<and> is_ipv4 (last gs) then Some (length gs + 1)
        else None)"

definition is_ipv6 :: "string \<Rightarrow> bool" where
  "is_ipv6 s =
     (case strip_zone s of
        None \<Rightarrow> False
      | Some t \<Rightarrow>
          (case split_gap t of
             None \<Rightarrow> v6_side True t = Some 8
           | Some (l, r) \<Rightarrow>
               (case (v6_side False l, v6_side True r) of
                  (Some a, Some b) \<Rightarrow> a + b \<le> 7
                | _ \<Rightarrow> False)))"

definition isIP :: "string \<Rightarrow> nat" where
  "isIP s = (if is_ipv4 s then 4 else if is_ipv6 s then 6 else 0)"

definition is_space :: "char \<Rightarrow> bool" where
  "is_space c \<longleftrightarrow> (of_char c :: nat) \<in> {9, 10, 11, 12, 13, 32, 160}"

definition js_trim :: "string \<Rightarrow> string" where
  "js_trim s = rev (dropWhile is_space (rev (dropWhile is_space s)))"

section \<open>The environment and the errors\<close>

record genv =
  g_disable_block :: bool
  g_extra_ports :: "string option"
  g_allowlist :: "string option"
  g_maxStreams :: nat
  g_maxSessions :: nat
  g_bandwidth :: nat
  g_idleMs :: nat
  g_lifetimeMs :: nat

definition default_env :: genv where
  "default_env = \<lparr>g_disable_block = False, g_extra_ports = None, g_allowlist = None,
     g_maxStreams = 32, g_maxSessions = 10, g_bandwidth = 10 * 1024 * 1024, g_idleMs = 60000,
     g_lifetimeMs = 30 * 60 * 1000\<rparr>"

datatype gcode = InvalidHost | HostTooLong | BlockedAddr | DnsFailure | DnsEmpty | BlockedPort

section \<open>Addresses\<close>

definition ipv4ToInt :: "string \<Rightarrow> u32 option" where
  "ipv4ToInt ip =
     (let parts = split_on (CHR ''.'') ip in
      if length parts \<noteq> 4 then None
      else foldl (\<lambda>acc p. case acc of
                           None \<Rightarrow> None
                         | Some n \<Rightarrow> (case js_number p of
                                       None \<Rightarrow> None
                                     | Some v \<Rightarrow> if v > 255 then None else Some (n * 256 + of_nat v)))
             (Some 0) parts)"

definition cidr_mask :: "nat \<Rightarrow> u32" where
  "cidr_mask bits = (if bits = 32 then 0xffffffff else push_bit (32 - bits) 0xffffffff)"

definition ipv4InCidr :: "string \<Rightarrow> string \<Rightarrow> bool" where
  "ipv4InCidr ip cidr =
     (case split_on (CHR ''/'') cidr of
        base # bitsStr # _ \<Rightarrow>
          (case (js_number bitsStr, ipv4ToInt ip, ipv4ToInt base) of
             (Some bits, Some ipNum, Some baseNum) \<Rightarrow>
               if bits = 0 then True
               else ipNum AND cidr_mask bits = baseNum AND cidr_mask bits
           | _ \<Rightarrow> False)
      | _ \<Rightarrow> False)"

definition FORBIDDEN_IPV4 :: "string list" where
  "FORBIDDEN_IPV4 =
     [''0.0.0.0/8'', ''10.0.0.0/8'', ''127.0.0.0/8'', ''169.254.0.0/16'', ''172.16.0.0/12'',
      ''192.0.0.0/24'', ''192.0.2.0/24'', ''192.168.0.0/16'', ''198.18.0.0/15'',
      ''198.51.100.0/24'', ''203.0.113.0/24'', ''224.0.0.0/4'', ''240.0.0.0/4'',
      ''255.255.255.255/32'']"

definition FORBIDDEN_IPV6_PREFIXES :: "string list" where
  "FORBIDDEN_IPV6_PREFIXES =
     [''::'', ''::1'', ''::ffff:'', ''fc'', ''fd'',
      ''fe80:'', ''fe81:'', ''fe82:'', ''fe83:'', ''fe84:'', ''fe85:'', ''fe86:'', ''fe87:'',
      ''fe88:'', ''fe89:'', ''fe8a:'', ''fe8b:'', ''fe8c:'', ''fe8d:'', ''fe8e:'', ''fe8f:'',
      ''fe90:'', ''fe91:'', ''fe92:'', ''fe93:'', ''fe94:'', ''fe95:'', ''fe96:'', ''fe97:'',
      ''fe98:'', ''fe99:'', ''fe9a:'', ''fe9b:'', ''fe9c:'', ''fe9d:'', ''fe9e:'', ''fe9f:'',
      ''fea'', ''feb'', ''ff'']"

definition blocked_v4 :: "string \<Rightarrow> bool" where
  "blocked_v4 ip = list_ex (ipv4InCidr ip) FORBIDDEN_IPV4"

definition isBlockedIp :: "genv \<Rightarrow> string \<Rightarrow> bool" where
  "isBlockedIp env ip =
     (if g_disable_block env then False
      else if isIP ip = 0 then True
      else if isIP ip = 4 then blocked_v4 ip
      else
        let lower = toLowerCase ip in
        if starts_with lower ''::ffff:'' \<and> isIP (drop 7 lower) = 4 then blocked_v4 (drop 7 lower)
        else if lower = ''::'' \<or> lower = ''::0'' \<or> lower = ''0:0:0:0:0:0:0:0'' then True
        else if lower = ''::1'' \<or> lower = ''0:0:0:0:0:0:0:1'' then True
        else list_ex (starts_with lower) FORBIDDEN_IPV6_PREFIXES)"

section \<open>Ports\<close>

definition DEFAULT_BLOCKED_PORTS :: "nat list" where
  "DEFAULT_BLOCKED_PORTS = [25, 465, 587, 23, 6667, 6697]"

definition getBlockedPorts :: "genv \<Rightarrow> nat list" where
  "getBlockedPorts env =
     (case g_extra_ports env of
        None \<Rightarrow> DEFAULT_BLOCKED_PORTS
      | Some extra \<Rightarrow>
          if extra = [] then DEFAULT_BLOCKED_PORTS
          else DEFAULT_BLOCKED_PORTS @
            concat (map (\<lambda>part. case js_number (js_trim part) of
                                   Some n \<Rightarrow> if 0 < n \<and> n < 65536 then [n] else []
                                 | None \<Rightarrow> []) (split_on (CHR '','') extra)))"

definition isBlockedPort :: "genv \<Rightarrow> nat \<Rightarrow> bool" where
  "isBlockedPort env port =
     (if port < 1 \<or> port > 65535 then True else port \<in> set (getBlockedPorts env))"

definition checkPort :: "genv \<Rightarrow> nat \<Rightarrow> gcode + unit" where
  "checkPort env port = (if isBlockedPort env port then Inl BlockedPort else Inr ())"

section \<open>Name resolution\<close>

type_synonym dns = "string \<Rightarrow> unit + (string \<times> nat) list"

definition resolveAndCheck :: "genv \<Rightarrow> dns \<Rightarrow> string \<Rightarrow> gcode + string" where
  "resolveAndCheck env lookup host =
     (if host = [] then Inl InvalidHost
      else if length host > 255 then Inl HostTooLong
      else if isIP host = 4 \<or> isIP host = 6 then
        (if isBlockedIp env host then Inl BlockedAddr else Inr host)
      else
        (case lookup host of
           Inl _ \<Rightarrow> Inl DnsFailure
         | Inr addrs \<Rightarrow>
             if addrs = [] then Inl DnsEmpty
             else if list_ex (\<lambda>a. isBlockedIp env (fst a)) addrs then Inl BlockedAddr
             else (case filter (\<lambda>a. snd a = 4) addrs of
                     v4 # _ \<Rightarrow> Inr (fst v4)
                   | [] \<Rightarrow> Inr (fst (hd addrs)))))"

section \<open>Origins\<close>

definition getOriginAllowlist :: "genv \<Rightarrow> string list" where
  "getOriginAllowlist env =
     (case g_allowlist env of
        Some raw \<Rightarrow>
          if raw \<noteq> [] then drop_empty (map js_trim (split_on (CHR '','') raw))
          else [''https://maceip.github.io'']
      | None \<Rightarrow> [''https://maceip.github.io''])"

text \<open>\<open>url_host\<close> is \<open>new URL(origin).hostname\<close>, \<^term>\<open>None\<close> when the constructor throws.\<close>

definition isAllowedOrigin :: "genv \<Rightarrow> (string \<Rightarrow> string option) \<Rightarrow> string option \<Rightarrow> bool" where
  "isAllowedOrigin env url_host origin =
     (case origin of
        None \<Rightarrow> True
      | Some org \<Rightarrow>
          if org = [] then True
          else if ''*'' \<in> set (getOriginAllowlist env) then True
          else if (case url_host org of
                     Some host \<Rightarrow> host = ''localhost'' \<or> host = ''127.0.0.1'' \<or> host = ''::1'' \<or>
                                  starts_with host ''127.''
                   | None \<Rightarrow> False) then True
          else org \<in> set (getOriginAllowlist env))"

section \<open>Sessions per address\<close>

type_synonym tracker = "(string \<times> string list) list"

definition tryAddSession :: "genv \<Rightarrow> string \<Rightarrow> string \<Rightarrow> tracker \<Rightarrow> bool \<times> tracker" where
  "tryAddSession env ip sid t =
     (if g_maxSessions env = 0 then (True, t)
      else
        let (ids, t1) = (case map_of t ip of
                           Some ids \<Rightarrow> (ids, t)
                         | None \<Rightarrow> ([], AList.update ip [] t))
        in if length ids \<ge> g_maxSessions env then (False, t1)
           else (True, AList.update ip (if sid \<in> set ids then ids else ids @ [sid]) t1))"

definition removeSession :: "string \<Rightarrow> string \<Rightarrow> tracker \<Rightarrow> tracker" where
  "removeSession ip sid t =
     (case map_of t ip of
        None \<Rightarrow> t
      | Some ids \<Rightarrow>
          let ids' = filter (\<lambda>x. x \<noteq> sid) ids in
          if ids' = [] then AList.delete ip t else AList.update ip ids' t)"

end
