(* ===== verification/Wisp_Server.thy ===== *)
theory Wisp_Server
  imports Wisp_Wire Guard
begin

text \<open>
  The Wisp server of \<open>cmd/wisp-server-node/server.js\<close>: one session per WebSocket, packets from
  the client, upstream sockets and their events, the bandwidth throttle and the janitor.

  Every socket gets a number when it is asked for; \<open>Stream\<close> objects are found under the number
  of their socket, because the session's map from stream ids may forget or replace them. Name
  resolution, socket events, timers and the clock are steps of the environment.
\<close>

section \<open>State\<close>

datatype sevent =
    ToClient "byte list"
  | SockConnect nat string nat
  | SockWrite nat "byte list"
  | SockDestroy nat

record server_stream =
  v_id :: nat
  v_bytesUp :: nat
  v_bytesDown :: nat
  v_closed :: bool
  v_createdAt :: int
  v_lastActivity :: int

text \<open>A CONNECT on its way: \<^term>\<open>None\<close> while the name is resolved, then the address.\<close>

record pending_conn =
  q_id :: nat
  q_host :: string
  q_port :: nat
  q_ip :: "string option"

record bucket =
  b_tokens :: int
  b_lastRefill :: int

record delayed =
  d_sock :: nat
  d_chunk :: "byte list"
  d_ready :: int
  d_waited :: bool

record session =
  ss_ws_open :: bool
  ss_streams :: "(nat \<times> nat) list"
  ss_objs :: "nat \<Rightarrow> server_stream option"
  ss_pending :: "(nat \<times> pending_conn) list"
  ss_nextSock :: nat
  ss_bucket :: bucket
  ss_delayed :: "delayed list"
  ss_log :: "sevent list"

record server_config =
  sc_env :: genv
  sc_utf8 :: "byte list \<Rightarrow> string"

definition BUFFER_SIZE :: nat where "BUFFER_SIZE = 128"

definition new_session :: "server_config \<Rightarrow> int \<Rightarrow> session" where
  "new_session cf now =
     \<lparr>ss_ws_open = True, ss_streams = [], ss_objs = Map.empty, ss_pending = [], ss_nextSock = 0,
      ss_bucket = \<lparr>b_tokens = int (g_bandwidth (sc_env cf)), b_lastRefill = now\<rparr>,
      ss_delayed = [], ss_log = [ToClient (buildContinue 0 BUFFER_SIZE)]\<rparr>"

definition s_emit :: "sevent \<Rightarrow> session \<Rightarrow> session" where
  "s_emit e s = s\<lparr>ss_log := ss_log s @ [e]\<rparr>"

definition wsSend :: "byte list \<Rightarrow> session \<Rightarrow> session" where
  "wsSend frame s = (if ss_ws_open s then s_emit (ToClient frame) s else s)"

definition put_obj :: "nat \<Rightarrow> server_stream \<Rightarrow> session \<Rightarrow> session" where
  "put_obj k v s = s\<lparr>ss_objs := (ss_objs s)(k \<mapsto> v)\<rparr>"

section \<open>The bandwidth throttle\<close>

text \<open>
  \<open>_throttle(bytes)\<close>: how long to wait, and the bucket as the call leaves it before the wait;
  after a wait the bucket is emptied. \<open>Math.floor\<close> and \<open>Math.ceil\<close> are over the exact quotients.
\<close>

definition throttle :: "nat \<Rightarrow> int \<Rightarrow> nat \<Rightarrow> bucket \<Rightarrow> int \<times> bucket" where
  "throttle bps now bytes b =
     (if bps = 0 then (0, b)
      else
        let tokens = min (int bps) (b_tokens b + (now - b_lastRefill b) * int bps div 1000) in
        if int bytes \<le> tokens then (0, \<lparr>b_tokens = tokens - int bytes, b_lastRefill = now\<rparr>)
        else (- ((- ((int bytes - tokens) * 1000)) div int bps), \<lparr>b_tokens = tokens, b_lastRefill = now\<rparr>))"

section \<open>Streams\<close>

definition writeUpstream :: "nat \<Rightarrow> byte list \<Rightarrow> int \<Rightarrow> session \<Rightarrow> session" where
  "writeUpstream k data now s =
     (case ss_objs s k of
        None \<Rightarrow> s
      | Some v \<Rightarrow>
          if v_closed v then s
          else s_emit (SockWrite k data)
                 (put_obj k (v\<lparr>v_bytesUp := v_bytesUp v + length data, v_lastActivity := now\<rparr>) s))"

definition onStreamClosed :: "nat \<Rightarrow> session \<Rightarrow> session" where
  "onStreamClosed sid s = s\<lparr>ss_streams := AList.delete sid (ss_streams s)\<rparr>"

definition closeSelf :: "nat \<Rightarrow> byte \<Rightarrow> session \<Rightarrow> session" where
  "closeSelf k reason s =
     (case ss_objs s k of
        None \<Rightarrow> s
      | Some v \<Rightarrow>
          if v_closed v then s
          else wsSend (buildClose (v_id v) reason)
                 (onStreamClosed (v_id v)
                   (s_emit (SockDestroy k) (put_obj k (v\<lparr>v_closed := True\<rparr>) s))))"

definition closeFromClient :: "nat \<Rightarrow> session \<Rightarrow> session" where
  "closeFromClient k s =
     (case ss_objs s k of
        None \<Rightarrow> s
      | Some v \<Rightarrow> s_emit (SockDestroy k) (put_obj k (v\<lparr>v_closed := True\<rparr>) s))"

text \<open>A chunk from the socket: counted, then throttled; it is delivered by a later step.\<close>

definition sock_data :: "server_config \<Rightarrow> nat \<Rightarrow> byte list \<Rightarrow> int \<Rightarrow> session \<Rightarrow> session" where
  "sock_data cf k chunk now s =
     (case ss_objs s k of
        None \<Rightarrow> s
      | Some v \<Rightarrow>
          if v_closed v then s
          else
            let (wait, b) = throttle (g_bandwidth (sc_env cf)) now (length chunk) (ss_bucket s);
                s1 = put_obj k (v\<lparr>v_bytesDown := v_bytesDown v + length chunk, v_lastActivity := now\<rparr>) s
            in s1\<lparr>ss_bucket := b,
                   ss_delayed := ss_delayed s1 @
                     [\<lparr>d_sock = k, d_chunk = chunk, d_ready = now + wait, d_waited = (0 < wait)\<rparr>]\<rparr>)"

text \<open>The continuation of \<open>_throttle\<close>: the first due entry, as timers fire.\<close>

fun take_due :: "int \<Rightarrow> delayed list \<Rightarrow> (delayed \<times> delayed list) option" where
  "take_due now [] = None"
| "take_due now (d # ds) =
     (if d_ready d \<le> now \<and> (\<forall>e \<in> set ds. d_ready d \<le> d_ready e) then Some (d, ds)
      else map_option (\<lambda>(x, xs). (x, d # xs)) (take_due now ds))"

definition deliver :: "int \<Rightarrow> session \<Rightarrow> session" where
  "deliver now s =
     (case take_due now (ss_delayed s) of
        None \<Rightarrow> s
      | Some (d, ds) \<Rightarrow>
          let s1 = s\<lparr>ss_delayed := ds,
                     ss_bucket := (if d_waited d then \<lparr>b_tokens = 0, b_lastRefill = now\<rparr>
                                   else ss_bucket s)\<rparr>
          in case ss_objs s1 (d_sock d) of
               None \<Rightarrow> s1
             | Some v \<Rightarrow> if v_closed v then s1 else wsSend (buildData (v_id v) (d_chunk d)) s1)"

section \<open>Packets from the client\<close>

definition handleConnect :: "server_config \<Rightarrow> packet \<Rightarrow> session \<Rightarrow> session" where
  "handleConnect cf pkt s =
     (let sid = p_streamId pkt in
      if length (p_payload pkt) < 3 then wsSend (buildClose sid 0x41) s
      else
        let (streamType, port, host) = connect_fields (p_payload pkt) in
        if streamType \<noteq> STREAM_TYPE_TCP then wsSend (buildClose sid 0x41) s
        else if g_maxStreams (sc_env cf) \<le> length (ss_streams s) then wsSend (buildClose sid 0x48) s
        else
          (case checkPort (sc_env cf) port of
             Inl _ \<Rightarrow> wsSend (buildClose sid 0x48) s
           | Inr _ \<Rightarrow>
               s\<lparr>ss_nextSock := Suc (ss_nextSock s),
                 ss_pending := ss_pending s @
                   [(ss_nextSock s, \<lparr>q_id = sid, q_host = sc_utf8 cf host, q_port = port, q_ip = None\<rparr>)]\<rparr>))"

definition handlePacket :: "server_config \<Rightarrow> byte list \<Rightarrow> int \<Rightarrow> session \<Rightarrow> session" where
  "handlePacket cf bytes now s =
     (case parsePacket bytes of
        None \<Rightarrow> s
      | Some pkt \<Rightarrow>
          if p_type pkt = PKT_CONNECT then handleConnect cf pkt s
          else if p_type pkt = PKT_DATA then
            (case map_of (ss_streams s) (p_streamId pkt) of
               Some k \<Rightarrow> writeUpstream k (p_payload pkt) now s
             | None \<Rightarrow> s)
          else if p_type pkt = PKT_CLOSE then
            (case map_of (ss_streams s) (p_streamId pkt) of
               Some k \<Rightarrow> onStreamClosed (p_streamId pkt) (closeFromClient k s)
             | None \<Rightarrow> s)
          else s)"

section \<open>Connecting\<close>

text \<open>The name of a pending CONNECT was resolved (or not), by the resolver \<open>lookup\<close>.\<close>

definition resolved :: "server_config \<Rightarrow> dns \<Rightarrow> nat \<Rightarrow> session \<Rightarrow> session" where
  "resolved cf lookup k s =
     (case map_of (ss_pending s) k of
        None \<Rightarrow> s
      | Some q \<Rightarrow>
          if q_ip q \<noteq> None then s
          else
            (case resolveAndCheck (sc_env cf) lookup (q_host q) of
               Inl code \<Rightarrow>
                 wsSend (buildClose (q_id q) (if code = DnsFailure then 0x42 else 0x48))
                   (s\<lparr>ss_pending := AList.delete k (ss_pending s)\<rparr>)
             | Inr ip \<Rightarrow>
                 s_emit (SockConnect k ip (q_port q))
                   (s\<lparr>ss_pending := AList.update k (q\<lparr>q_ip := Some ip\<rparr>) (ss_pending s)\<rparr>)))"

definition connect_error :: "nat \<Rightarrow> session \<Rightarrow> session" where
  "connect_error k s =
     (case map_of (ss_pending s) k of
        None \<Rightarrow> s
      | Some q \<Rightarrow> if q_ip q = None then s
                  else wsSend (buildClose (q_id q) 0x43)
                         (s\<lparr>ss_pending := AList.delete k (ss_pending s)\<rparr>))"

definition connected :: "nat \<Rightarrow> int \<Rightarrow> session \<Rightarrow> session" where
  "connected k now s =
     (case map_of (ss_pending s) k of
        None \<Rightarrow> s
      | Some q \<Rightarrow>
          if q_ip q = None then s
          else
            let v = \<lparr>v_id = q_id q, v_bytesUp = 0, v_bytesDown = 0, v_closed = False,
                     v_createdAt = now, v_lastActivity = now\<rparr>;
                s1 = put_obj k v (s\<lparr>ss_pending := AList.delete k (ss_pending s)\<rparr>)
            in wsSend (buildContinue (q_id q) BUFFER_SIZE)
                 (s1\<lparr>ss_streams := AList.update (q_id q) k (ss_streams s1)\<rparr>))"

section \<open>Janitor and close\<close>

definition janitor_one :: "server_config \<Rightarrow> int \<Rightarrow> session \<Rightarrow> nat \<Rightarrow> session" where
  "janitor_one cf now s k =
     (case ss_objs s k of
        None \<Rightarrow> s
      | Some v \<Rightarrow>
          if 0 < g_idleMs (sc_env cf) \<and> int (g_idleMs (sc_env cf)) < now - v_lastActivity v
          then closeSelf k 0x47 s
          else if 0 < g_lifetimeMs (sc_env cf) \<and> int (g_lifetimeMs (sc_env cf)) < now - v_createdAt v
          then closeSelf k 0x47 s
          else s)"

definition janitorTick :: "server_config \<Rightarrow> int \<Rightarrow> session \<Rightarrow> session" where
  "janitorTick cf now s = foldl (janitor_one cf now) s (map snd (ss_streams s))"

definition session_close :: "session \<Rightarrow> session" where
  "session_close s =
     (foldl (\<lambda>s k. closeFromClient k s) (s\<lparr>ss_ws_open := False\<rparr>) (map snd (ss_streams s)))
       \<lparr>ss_streams := []\<rparr>"

datatype sop =
    Packet "byte list" int
  | Resolved dns nat
  | ConnectError nat
  | Connected nat int
  | SockData nat "byte list" int
  | Deliver int
  | SockEnd nat
  | SockError nat
  | Janitor int
  | SessionClose

fun s_step :: "server_config \<Rightarrow> session \<Rightarrow> sop \<Rightarrow> session" where
  "s_step cf s (Packet bytes now) = handlePacket cf bytes now s"
| "s_step cf s (Resolved lookup k) = resolved cf lookup k s"
| "s_step cf s (ConnectError k) = connect_error k s"
| "s_step cf s (Connected k now) = connected k now s"
| "s_step cf s (SockData k chunk now) = sock_data cf k chunk now s"
| "s_step cf s (Deliver now) = deliver now s"
| "s_step cf s (SockEnd k) = closeSelf k 0x02 s"
| "s_step cf s (SockError k) = closeSelf k 0x03 s"
| "s_step cf s (Janitor now) = janitorTick cf now s"
| "s_step cf s SessionClose = session_close s"

definition s_run :: "server_config \<Rightarrow> session \<Rightarrow> sop list \<Rightarrow> session" where
  "s_run cf s ops = foldl (s_step cf) s ops"

end
