(* ===== verification/Guard_Props.thy ===== *)
theory Guard_Props
  imports Guard
begin

text \<open>
  The guard against its address ranges: for IPv4 the mask arithmetic blocks exactly the listed
  ranges, for IPv6 every unique-local, link-local and multicast literal is blocked; what the
  guard returns is never a blocked address; and the spelling of a mapped address it misses.
\<close>

section \<open>IPv4\<close>

definition quad :: "nat \<Rightarrow> nat \<Rightarrow> nat \<Rightarrow> nat \<Rightarrow> nat" where
  "quad a b c d = ((a * 256 + b) * 256 + c) * 256 + d"

definition ip4_value :: "string \<Rightarrow> nat" where
  "ip4_value s = foldl (\<lambda>n p. n * 256 + digits_val p) 0 (split_on (CHR ''.'') s)"

definition private_ranges :: "(nat \<times> nat) list" where
  "private_ranges =
     [(quad 0 0 0 0, quad 0 255 255 255), (quad 10 0 0 0, quad 10 255 255 255),
      (quad 127 0 0 0, quad 127 255 255 255), (quad 169 254 0 0, quad 169 254 255 255),
      (quad 172 16 0 0, quad 172 31 255 255), (quad 192 0 0 0, quad 192 0 0 255),
      (quad 192 0 2 0, quad 192 0 2 255), (quad 192 168 0 0, quad 192 168 255 255),
      (quad 198 18 0 0, quad 198 19 255 255), (quad 198 51 100 0, quad 198 51 100 255),
      (quad 203 0 113 0, quad 203 0 113 255), (quad 224 0 0 0, quad 255 255 255 255)]"

lemma length_4: "length xs = 4 \<longleftrightarrow> (\<exists>a b c d. xs = [a, b, c, d])"
  by (auto simp: length_Suc_conv numeral_eq_Suc)

lemma octet_number: "octet p \<Longrightarrow> js_number p = Some (digits_val p) \<and> digits_val p < 256"
  by (auto simp: octet_def js_number_def)

lemma ipv4_value:
  assumes "is_ipv4 s"
  shows "ipv4ToInt s = Some (of_nat (ip4_value s))" "ip4_value s < 2 ^ 32"
proof -
  obtain a b c d where p: "split_on (CHR ''.'') s = [a, b, c, d]"
    and o: "octet a" "octet b" "octet c" "octet d"
    using assms by (auto simp: is_ipv4_def length_4)
  note n = o [THEN octet_number]
  have le: "\<not> digits_val x > 255" if "octet x" for x using octet_number [OF that] by simp
  show "ipv4ToInt s = Some (of_nat (ip4_value s))"
    using n le [OF o(1)] le [OF o(2)] le [OF o(3)] le [OF o(4)]
    by (simp add: ipv4ToInt_def p ip4_value_def)
  show "ip4_value s < 2 ^ 32" using n by (simp add: ip4_value_def p)
qed

lemma and_top_mask:
  fixes a b :: u32
  shows "a AND push_bit k 0xffffffff = b AND push_bit k 0xffffffff \<longleftrightarrow>
    unat a div 2 ^ k = unat b div 2 ^ k"
proof -
  have m: "(0xffffffff :: u32) = - 1" by simp
  have "a AND push_bit k (- 1) = b AND push_bit k (- 1) \<longleftrightarrow> drop_bit k a = drop_bit k b" (is "?l = ?r")
  proof
    assume ?l
    then have e: "bit (a AND push_bit k (- 1)) n = bit (b AND push_bit k (- 1)) n" for n
      by (rule arg_cong [where f = "\<lambda>w. bit w n"])
    have h: "bit a n = bit b n" if "k \<le> n" for n
      using that e [of n] by (cases "n < 32") (auto simp: bit_simps dest: bit_imp_le_length)
    show ?r by (rule bit_word_eqI) (simp add: bit_simps h)
  next
    assume ?r
    then have e: "bit (drop_bit k a) n = bit (drop_bit k b) n" for n
      by (rule arg_cong [where f = "\<lambda>w. bit w n"])
    have h: "bit a (k + n) = bit b (k + n)" for n using e [of n] by (simp add: bit_simps)
    have h2: "bit a n = bit b n" if "k \<le> n" for n using that h [of "n - k"] by simp
    show ?l by (rule bit_word_eqI) (use h2 in \<open>auto simp: bit_simps\<close>)
  qed
  moreover have "unat (drop_bit k x) = unat x div 2 ^ k" for x :: u32
    by (simp only: unat_drop_bit_eq) (simp add: drop_bit_eq_div)
  then have "drop_bit k a = drop_bit k b \<longleftrightarrow> unat a div 2 ^ k = unat b div 2 ^ k"
    by (simp only: word_unat_eq_iff)
  ultimately show ?thesis unfolding m by simp
qed

lemma div_interval: "n div (m :: nat) = c \<longleftrightarrow> c * m \<le> n \<and> n < (c + 1) * m" if "0 < m"
  using that by (auto simp: div_nat_eqI dividend_less_times_div algebra_simps)

text \<open>Membership in one range, once the literals of the range are read.\<close>

lemma in_cidr:
  assumes ip: "is_ipv4 ip" and base: "is_ipv4 base" "CHR ''/'' \<notin> set base"
    and b: "list_all digit bitsStr" "CHR ''/'' \<notin> set bitsStr" "0 < digits_val bitsStr" "digits_val bitsStr \<le> 32"
  defines "m \<equiv> 2 ^ (32 - digits_val bitsStr)"
  shows "ipv4InCidr ip (base @ CHR ''/'' # bitsStr) \<longleftrightarrow>
    ip4_value base div m * m \<le> ip4_value ip \<and> ip4_value ip < (ip4_value base div m + 1) * m"
proof -
  let ?bits = "digits_val bitsStr"
  note v = ipv4_value [OF ip] and bv = ipv4_value [OF base(1)]
  have u: "unat (of_nat (ip4_value ip) :: u32) = ip4_value ip"
    "unat (of_nat (ip4_value base) :: u32) = ip4_value base"
    using v(2) bv(2) by (simp_all add: unat_of_nat)
  have "split_on (CHR ''/'') (base @ CHR ''/'' # bitsStr) = [base, bitsStr]"
    using base b by (simp add: split_on_append_sep split_on_no_sep)
  moreover have "js_number bitsStr = Some ?bits" using b by (simp add: js_number_def)
  moreover have "cidr_mask ?bits = push_bit (32 - ?bits) 0xffffffff" using b by (simp add: cidr_mask_def)
  ultimately show ?thesis
    using b v(1) bv(1) and_top_mask [of "of_nat (ip4_value ip)" "32 - ?bits" "of_nat (ip4_value base)"] u
    by (simp add: ipv4InCidr_def div_interval m_def)
qed

lemmas text_eval = is_ipv4_def octet_def digit_def digits_val_def digit_val_def ip4_value_def

lemma forbidden_ranges:
  assumes ip: "is_ipv4 ip"
  shows "blocked_v4 ip \<longleftrightarrow> (\<exists>r \<in> set private_ranges. fst r \<le> ip4_value ip \<and> ip4_value ip \<le> snd r)"
proof -
  let ?n = "ip4_value ip"
  have c0: "ipv4InCidr ip ''0.0.0.0/8'' \<longleftrightarrow> 0 \<le> ?n \<and> ?n < 16777216"
    using in_cidr [OF ip, of "''0.0.0.0''" "''8''"] by (simp add: text_eval)
  have c1: "ipv4InCidr ip ''10.0.0.0/8'' \<longleftrightarrow> 167772160 \<le> ?n \<and> ?n < 184549376"
    using in_cidr [OF ip, of "''10.0.0.0''" "''8''"] by (simp add: text_eval)
  have c2: "ipv4InCidr ip ''127.0.0.0/8'' \<longleftrightarrow> 2130706432 \<le> ?n \<and> ?n < 2147483648"
    using in_cidr [OF ip, of "''127.0.0.0''" "''8''"] by (simp add: text_eval)
  have c3: "ipv4InCidr ip ''169.254.0.0/16'' \<longleftrightarrow> 2851995648 \<le> ?n \<and> ?n < 2852061184"
    using in_cidr [OF ip, of "''169.254.0.0''" "''16''"] by (simp add: text_eval)
  have c4: "ipv4InCidr ip ''172.16.0.0/12'' \<longleftrightarrow> 2886729728 \<le> ?n \<and> ?n < 2887778304"
    using in_cidr [OF ip, of "''172.16.0.0''" "''12''"] by (simp add: text_eval)
  have c5: "ipv4InCidr ip ''192.0.0.0/24'' \<longleftrightarrow> 3221225472 \<le> ?n \<and> ?n < 3221225728"
    using in_cidr [OF ip, of "''192.0.0.0''" "''24''"] by (simp add: text_eval)
  have c6: "ipv4InCidr ip ''192.0.2.0/24'' \<longleftrightarrow> 3221225984 \<le> ?n \<and> ?n < 3221226240"
    using in_cidr [OF ip, of "''192.0.2.0''" "''24''"] by (simp add: text_eval)
  have c7: "ipv4InCidr ip ''192.168.0.0/16'' \<longleftrightarrow> 3232235520 \<le> ?n \<and> ?n < 3232301056"
    using in_cidr [OF ip, of "''192.168.0.0''" "''16''"] by (simp add: text_eval)
  have c8: "ipv4InCidr ip ''198.18.0.0/15'' \<longleftrightarrow> 3323068416 \<le> ?n \<and> ?n < 3323199488"
    using in_cidr [OF ip, of "''198.18.0.0''" "''15''"] by (simp add: text_eval)
  have c9: "ipv4InCidr ip ''198.51.100.0/24'' \<longleftrightarrow> 3325256704 \<le> ?n \<and> ?n < 3325256960"
    using in_cidr [OF ip, of "''198.51.100.0''" "''24''"] by (simp add: text_eval)
  have c10: "ipv4InCidr ip ''203.0.113.0/24'' \<longleftrightarrow> 3405803776 \<le> ?n \<and> ?n < 3405804032"
    using in_cidr [OF ip, of "''203.0.113.0''" "''24''"] by (simp add: text_eval)
  have c11: "ipv4InCidr ip ''224.0.0.0/4'' \<longleftrightarrow> 3758096384 \<le> ?n \<and> ?n < 4026531840"
    using in_cidr [OF ip, of "''224.0.0.0''" "''4''"] by (simp add: text_eval)
  have c12: "ipv4InCidr ip ''240.0.0.0/4'' \<longleftrightarrow> 4026531840 \<le> ?n \<and> ?n < 4294967296"
    using in_cidr [OF ip, of "''240.0.0.0''" "''4''"] by (simp add: text_eval)
  have c13: "ipv4InCidr ip ''255.255.255.255/32'' \<longleftrightarrow> 4294967295 \<le> ?n \<and> ?n < 4294967296"
    using in_cidr [OF ip, of "''255.255.255.255''" "''32''"] by (simp add: text_eval)
  show ?thesis
    using ipv4_value(2) [OF ip]
    by (simp add: blocked_v4_def FORBIDDEN_IPV4_def private_ranges_def quad_def
        c0 c1 c2 c3 c4 c5 c6 c7 c8 c9 c10 c11 c12 c13) presburger
qed

section \<open>IPv6\<close>

definition hex_val :: "char \<Rightarrow> nat" where
  "hex_val c =
     (let n = (of_char c :: nat) in
      if n \<le> 57 then n - 48 else if n \<le> 70 then n - 55 else n - 87)"

text \<open>The first 16-bit group of a literal and its value.\<close>

definition first_group :: "string \<Rightarrow> string" where
  "first_group s = takeWhile (\<lambda>c. c \<noteq> CHR '':'') s"

definition group_val :: "string \<Rightarrow> nat" where
  "group_val s = foldl (\<lambda>n c. n * 16 + hex_val c) 0 s"

definition hex_char :: "nat \<Rightarrow> char" where
  "hex_char n = ''0123456789abcdef'' ! n"

lemma hex_cases:
  "hex_digit c \<Longrightarrow> hex_val c < 16 \<and> lower_char c = hex_char (hex_val c)"
proof -
  have "list_all (\<lambda>c. hex_val c < 16 \<and> lower_char c = hex_char (hex_val c)) ''0123456789abcdefABCDEF''"
    by code_simp
  then show "hex_digit c \<Longrightarrow> ?thesis" unfolding list_all_iff hex_digit_def by blast
qed

lemma group_val_bound: "list_all hex_digit s \<Longrightarrow> group_val s < 16 ^ length s"
proof (induction s rule: rev_induct)
  case (snoc c s)
  have "hex_val c < 16" using snoc.prems hex_cases by simp
  moreover have "group_val s < 16 ^ length s" using snoc by simp
  ultimately show ?case by (simp add: group_val_def)
qed (simp add: group_val_def)

text \<open>A group of value at least \<open>0x1000\<close> is spelled with four digits.\<close>

lemma four_digits:
  assumes "seg g" "4096 \<le> group_val g"
  obtains a b c d where "g = [a, b, c, d]" "hex_digit a" "hex_digit b" "hex_digit c" "hex_digit d"
    "group_val g = ((hex_val a * 16 + hex_val b) * 16 + hex_val c) * 16 + hex_val d"
proof -
  have "length g \<noteq> 4 \<Longrightarrow> group_val g < 16 ^ 3"
  proof -
    assume "length g \<noteq> 4"
    then have "length g \<le> 3" using assms(1) by (simp add: seg_def)
    then have "(16::nat) ^ length g \<le> 16 ^ 3" by (intro power_increasing) simp_all
    with group_val_bound [of g] assms(1) show "group_val g < 16 ^ 3" by (simp add: seg_def)
  qed
  with assms(2) have "length g = 4" by fastforce
  then obtain a b c d where g: "g = [a, b, c, d]" by (auto simp: length_4)
  with assms(1) that show thesis by (simp add: seg_def group_val_def)
qed

lemma first_group_gap:
  "split_gap t = Some (l, r) \<Longrightarrow> first_group t = first_group l \<and> (\<exists>u. t = l @ CHR '':'' # u)"
proof (induction t arbitrary: l r rule: split_gap.induct)
  case (1 a b s)
  show ?case
  proof (cases "a = CHR '':'' \<and> b = CHR '':''")
    case True
    with "1.prems" show ?thesis by (simp add: first_group_def)
  next
    case False
    then obtain l' r' where lr: "split_gap (b # s) = Some (l', r')" "l = a # l'" "r = r'"
      using "1.prems" by auto
    from "1.IH" [OF False lr(1)] lr show ?thesis by (auto simp: first_group_def)
  qed
qed auto

lemma split_on_first: "first_group s = hd (split_on (CHR '':'') s)"
  by (induction s) (auto simp: first_group_def split: list.splits)

lemma side_first:
  assumes "v6_side q s = Some k" "s \<noteq> []"
  shows "seg (first_group s) \<or> k = 2 \<and> q \<and> is_ipv4 s"
proof -
  let ?g = "split_on (CHR '':'') s"
  have "join_with (CHR '':'') ?g = s" by simp
  then show ?thesis
    using assms by (cases ?g; cases "tl ?g") (auto simp: v6_side_def split_on_first Let_def split: if_splits)
qed

text \<open>The first group of a literal that does not start with a colon is a hexadecimal group.\<close>

lemma ipv6_first:
  assumes v6: "is_ipv6 s" and g: "first_group s \<noteq> []"
  shows "seg (first_group s) \<and> (\<exists>u. s = first_group s @ CHR '':'' # u)"
proof -
  obtain t where t: "strip_zone s = Some t" using v6 by (auto simp: is_ipv6_def split: option.splits)
  obtain z where s: "s = t @ z"
    using t by (auto simp: strip_zone_def split: option.splits if_splits) (metis append_take_drop_id)
  have "seg (first_group t) \<and> (\<exists>u. t = first_group t @ CHR '':'' # u) \<and> first_group s = first_group t"
  proof -
    have ex: "\<exists>u. t = first_group t @ CHR '':'' # u" if "CHR '':'' \<in> set t"
    proof -
      obtain ys zs where t: "t = ys @ CHR '':'' # zs" "CHR '':'' \<notin> set ys"
        using split_list_first [OF \<open>CHR '':'' \<in> set t\<close>] by blast
      have "takeWhile (\<lambda>c. c \<noteq> CHR '':'') (ys @ CHR '':'' # zs) = ys @ takeWhile (\<lambda>c. c \<noteq> CHR '':'') (CHR '':'' # zs)"
        by (rule takeWhile_append2) (use t(2) in auto)
      then have "first_group t = ys" by (simp add: first_group_def t(1))
      with t(1) show ?thesis by simp
    qed
    have fs: "first_group s = first_group t" if "CHR '':'' \<in> set t"
      using that s by (simp add: first_group_def takeWhile_append1)
    show ?thesis
    proof (cases "split_gap t")
      case None
      then have side: "v6_side True t = Some 8" using v6 t by (simp add: is_ipv6_def)
      then have ne: "t \<noteq> []" by (auto simp: v6_side_def)
      have sg: "seg (first_group t)" using side_first [OF side ne] by simp
      have "CHR '':'' \<in> set t"
      proof (rule ccontr)
        assume "CHR '':'' \<notin> set t"
        then show False using side ne by (auto simp: v6_side_def split_on_no_sep Let_def split: if_splits)
      qed
      with sg ex fs show ?thesis by blast
    next
      case (Some lr)
      obtain l r where lr: "split_gap t = Some (l, r)" using Some by (cases lr) auto
      note fg = first_group_gap [OF lr]
      then have col: "CHR '':'' \<in> set t" by auto
      have ne: "l \<noteq> []" using g fs [OF col] fg by (auto simp: first_group_def)
      obtain a where "v6_side False l = Some a"
        using v6 t lr by (auto simp: is_ipv6_def split: option.splits)
      from side_first [OF this ne] fg have "seg (first_group t)" by simp
      with ex fs col show ?thesis by blast
    qed
  qed
  then obtain u where "seg (first_group t)" "first_group s = first_group t"
      "t = first_group t @ CHR '':'' # u" by blast
  then have "seg (first_group s)" "s = first_group s @ CHR '':'' # u @ z" using s by simp_all
  then show ?thesis by blast
qed

text \<open>Unique-local, link-local and multicast literals are blocked, in either case of the digits.\<close>

definition v6_private :: "nat \<Rightarrow> bool" where
  "v6_private v \<longleftrightarrow> (0xfc00 \<le> v \<and> v \<le> 0xfdff) \<or> (0xfe80 \<le> v \<and> v \<le> 0xfebf) \<or> (0xff00 \<le> v \<and> v \<le> 0xffff)"

lemma private_digits:
  assumes "a < 16" "b < 16" "c < 16" "d < 16" "v6_private (((a * 16 + b) * 16 + c) * 16 + d)"
  shows "a = 15 \<and> (b = 12 \<or> b = 13 \<or> b = 15 \<or> b = 14 \<and> 8 \<le> c \<and> c < 12)"
proof -
  let ?v = "4096 * a + 256 * b + 16 * c + d"
  have "((a * 16 + b) * 16 + c) * 16 + d = ?v" by simp
  then have v: "v6_private ?v" using assms(5) by metis
  have a: "a = 15"
  proof -
    have "64512 \<le> ?v" using v by (auto simp: v6_private_def)
    then have "\<not> a \<le> 14" using assms(2,3,4) by linarith
    with assms(1) show ?thesis by simp
  qed
  consider "64512 \<le> ?v" "?v \<le> 65023" | "65152 \<le> ?v" "?v \<le> 65215" | "65280 \<le> ?v" "?v \<le> 65535"
    using v by (auto simp: v6_private_def)
  then show ?thesis
  proof cases
    case 1
    then have "12 \<le> b" "b \<le> 13" using a assms(2,3,4) by linarith+
    then show ?thesis using a by auto
  next
    case 2
    then have "b = 14" using a assms(2,3,4) by linarith
    moreover from this 2 have "8 \<le> c" "c < 12" using a assms(2,3,4) by linarith+
    ultimately show ?thesis using a by blast
  next
    case 3
    then have "b = 15" using a assms(2,3,4) by linarith
    then show ?thesis using a by blast
  qed
qed

lemma hex_char_fe:
  assumes "b = 14" "c = 8 \<or> c = 9" "d < 16"
  shows "list_ex (starts_with (CHR ''f'' # hex_char b # hex_char c # hex_char d # CHR '':'' # u))
       FORBIDDEN_IPV6_PREFIXES"
proof -
  have d: "hex_char d \<in> set ''0123456789abcdef''" using assms(3) unfolding hex_char_def by (intro nth_mem) simp
  have "list_all (\<lambda>d. [CHR ''f'', CHR ''e'', CHR ''8'', d, CHR '':''] \<in>
      set FORBIDDEN_IPV6_PREFIXES) ''0123456789abcdef''"
    and "list_all (\<lambda>d. [CHR ''f'', CHR ''e'', CHR ''9'', d, CHR '':''] \<in>
      set FORBIDDEN_IPV6_PREFIXES) ''0123456789abcdef''"
    by code_simp+
  then have "[CHR ''f'', CHR ''e'', CHR ''8'', hex_char d, CHR '':''] \<in> set FORBIDDEN_IPV6_PREFIXES"
    "[CHR ''f'', CHR ''e'', CHR ''9'', hex_char d, CHR '':''] \<in> set FORBIDDEN_IPV6_PREFIXES"
    using d unfolding list_all_iff by blast+
  moreover have "hex_char 14 = CHR ''e''" "hex_char 8 = CHR ''8''" "hex_char 9 = CHR ''9''"
    by (simp_all add: hex_char_def)
  ultimately have "[CHR ''f'', hex_char b, hex_char c, hex_char d, CHR '':''] \<in> set FORBIDDEN_IPV6_PREFIXES"
    using assms by auto
  moreover have "starts_with (CHR ''f'' # hex_char b # hex_char c # hex_char d # CHR '':'' # u)
      [CHR ''f'', hex_char b, hex_char c, hex_char d, CHR '':'']"
    by simp
  ultimately show ?thesis unfolding list_ex_iff by blast
qed

lemma prefix_blocked:
  assumes "b < 16" "c < 16" "d < 16"
    and "b = 12 \<or> b = 13 \<or> b = 15 \<or> b = 14 \<and> 8 \<le> c \<and> c < 12"
  shows "list_ex (starts_with (CHR ''f'' # hex_char b # hex_char c # hex_char d # CHR '':'' # u))
    FORBIDDEN_IPV6_PREFIXES"
proof -
  have c: "c = 8 \<or> c = 9 \<or> c = 10 \<or> c = 11" if "8 \<le> c" "c < 12" using that by auto
  have fe: ?thesis if "b = 14" "c = 8 \<or> c = 9" using that assms(3) by (rule hex_char_fe)
  have fx: ?thesis if "b = 12 \<or> b = 13 \<or> b = 15 \<or> b = 14 \<and> (c = 10 \<or> c = 11)"
    using that by (elim disjE conjE) (simp_all add: hex_char_def FORBIDDEN_IPV6_PREFIXES_def)
  from assms(4) show ?thesis using fe fx c by blast
qed

lemma ipv6_private_blocked:
  assumes env: "\<not> g_disable_block env" and ip: "isIP s = 6"
    and v: "first_group s \<noteq> []" "v6_private (group_val (first_group s))"
  shows "isBlockedIp env s"
proof -
  have v6: "is_ipv6 s" using ip by (simp add: isIP_def split: if_splits)
  have sg: "seg (first_group s)" using ipv6_first [OF v6 v(1)] by blast
  obtain u where u: "s = first_group s @ CHR '':'' # u" using ipv6_first [OF v6 v(1)] by blast
  have "4096 \<le> group_val (first_group s)" using v(2) by (auto simp: v6_private_def)
  then obtain a b c d where g: "first_group s = [a, b, c, d]"
      and h: "hex_digit a" "hex_digit b" "hex_digit c" "hex_digit d"
      and val: "group_val (first_group s) = ((hex_val a * 16 + hex_val b) * 16 + hex_val c) * 16 + hex_val d"
    by (rule four_digits [OF sg])
  note x = h [THEN hex_cases]
  have dg: "hex_val a = 15 \<and> (hex_val b = 12 \<or> hex_val b = 13 \<or> hex_val b = 15 \<or>
      hex_val b = 14 \<and> 8 \<le> hex_val c \<and> hex_val c < 12)"
    using private_digits [of "hex_val a" "hex_val b" "hex_val c" "hex_val d"] x v(2) val by simp
  have col: "lower_char CHR '':'' = CHR '':''" by (simp add: lower_char_def)
  have low: "toLowerCase s = CHR ''f'' # hex_char (hex_val b) # hex_char (hex_val c) #
      hex_char (hex_val d) # CHR '':'' # toLowerCase u"
    using x dg by (subst u) (simp add: g toLowerCase_def col hex_char_def [of 15])
  have "list_ex (starts_with (toLowerCase s)) FORBIDDEN_IPV6_PREFIXES"
    unfolding low using x dg by (intro prefix_blocked) auto
  moreover have "\<not> starts_with (toLowerCase s) ''::ffff:''" by (simp add: low)
  ultimately show ?thesis using env ip by (simp add: isBlockedIp_def Let_def)
qed

section \<open>Resolution\<close>

lemma resolveAndCheck_not_blocked:
  assumes "resolveAndCheck env lookup host = Inr ip" shows "\<not> isBlockedIp env ip"
proof -
  have f: "v \<in> set addrs" if "filter (\<lambda>a. snd a = 4) addrs = v # r" for v r and addrs :: "(string \<times> nat) list"
  proof -
    have "v \<in> set (filter (\<lambda>a. snd a = 4) addrs)" unfolding that by simp
    then show ?thesis by simp
  qed
  from assms show ?thesis
    by (auto simp: resolveAndCheck_def list_ex_iff dest: f split: if_splits sum.splits list.splits)
qed

section \<open>Sessions\<close>

lemma session_bound:
  assumes "0 < g_maxSessions env"
    and "\<forall>ip ids. map_of t ip = Some ids \<longrightarrow> length ids \<le> g_maxSessions env"
  shows "map_of (snd (tryAddSession env ip sid t)) ip' = Some ids \<Longrightarrow> length ids \<le> g_maxSessions env"
    and "map_of (removeSession ip sid t) ip' = Some ids \<Longrightarrow> length ids \<le> g_maxSessions env"
proof -
  have f: "length (filter P xs) \<le> n" if "length xs \<le> n" for P n and xs :: "string list"
    using that length_filter_le order_trans by blast
  show "map_of (snd (tryAddSession env ip sid t)) ip' = Some ids \<Longrightarrow> length ids \<le> g_maxSessions env"
    using assms by (auto simp: tryAddSession_def Let_def split: option.splits if_splits)
  show "map_of (removeSession ip sid t) ip' = Some ids \<Longrightarrow> length ids \<le> g_maxSessions env"
    using assms f by (auto simp: removeSession_def Let_def split: option.splits if_splits)
qed

datatype track_op = TryAdd string string | Remove string string

fun track_step :: "genv \<Rightarrow> tracker \<Rightarrow> track_op \<Rightarrow> tracker" where
  "track_step env t (TryAdd ip sid) = snd (tryAddSession env ip sid t)"
| "track_step env t (Remove ip sid) = removeSession ip sid t"

lemma track_run:
  assumes "0 < g_maxSessions env"
  shows "map_of (foldl (track_step env) [] ops) ip = Some ids \<Longrightarrow> length ids \<le> g_maxSessions env"
proof -
  have "\<forall>ip ids. map_of (foldl (track_step env) t ops) ip = Some ids \<longrightarrow> length ids \<le> g_maxSessions env"
    if "\<forall>ip ids. map_of t ip = Some ids \<longrightarrow> length ids \<le> g_maxSessions env" for t
    using that
  proof (induction ops arbitrary: t)
    case (Cons op ops)
    show ?case
      using Cons.prems session_bound [OF assms Cons.prems] Cons.IH [of "track_step env t op"]
      by (cases op) auto
  qed simp
  from this [of "[]"]
  show "map_of (foldl (track_step env) [] ops) ip = Some ids \<Longrightarrow> length ids \<le> g_maxSessions env"
    by simp
qed

section \<open>Properties\<close>

text \<open>
  C15. On an IPv4 literal the guard answers exactly whether the address lies in one of the
  private, loopback, link-local, special, multicast or reserved ranges, read as intervals of
  32-bit numbers.
\<close>

theorem guard_ipv4_exact:
  assumes "isIP ip = 4" "\<not> g_disable_block env"
  shows "isBlockedIp env ip \<longleftrightarrow>
    (\<exists>r \<in> set private_ranges. fst r \<le> ip4_value ip \<and> ip4_value ip \<le> snd r)"
proof -
  have "is_ipv4 ip" using assms(1) by (simp add: isIP_def split: if_splits)
  from forbidden_ranges [OF this] assms show ?thesis by (simp add: isBlockedIp_def)
qed

theorem guard_ipv4_exact_witness:
  "isBlockedIp default_env ''169.254.169.254'' \<longleftrightarrow>
    (\<exists>r \<in> set private_ranges. fst r \<le> ip4_value ''169.254.169.254'' \<and>
       ip4_value ''169.254.169.254'' \<le> snd r)"
  by (rule guard_ipv4_exact) (simp_all add: isIP_def text_eval default_env_def)

text \<open>
  Every IPv6 literal whose first group lies in \<open>fc00::/7\<close>, \<open>fe80::/10\<close> or \<open>ff00::/8\<close> is
  blocked, whatever the case of its digits and however the rest is written.
\<close>

theorem guard_ipv6_private:
  assumes "\<not> g_disable_block env" "isIP s = 6" "first_group s \<noteq> []"
    and "v6_private (group_val (first_group s))"
  shows "isBlockedIp env s"
  using assms by (rule ipv6_private_blocked)

lemmas v6_eval = isIP_def is_ipv4_def is_ipv6_def strip_zone_def v6_side_def seg_def hex_digit_def
  digit_def octet_def digits_val_def digit_val_def first_group_def group_val_def hex_val_def v6_private_def

theorem guard_ipv6_private_witness: "isBlockedIp default_env ''Fe80::1''"
  by (rule guard_ipv6_private) (simp_all add: v6_eval default_env_def)

text \<open>
  C16. What \<open>resolveAndCheck\<close> returns is never a blocked address, for any resolver; when a name
  resolves to several addresses, one blocked address among them is enough to refuse it.
\<close>

theorem resolveAndCheck_safe:
  "(resolveAndCheck env lookup host = Inr ip \<longrightarrow> \<not> isBlockedIp env ip) \<and>
   (lookup host = Inr addrs \<and> isIP host = 0 \<and> a \<in> set addrs \<and> isBlockedIp env (fst a) \<longrightarrow>
      (\<exists>e. resolveAndCheck env lookup host = Inl e))"
  by (intro conjI impI, erule resolveAndCheck_not_blocked) (auto simp: resolveAndCheck_def list_ex_iff)

theorem resolveAndCheck_safe_witness:
  "\<exists>e. resolveAndCheck default_env (\<lambda>_. Inr [(''8.8.8.8'', 4), (''10.0.0.1'', 4)]) ''evil'' = Inl e"
  using resolveAndCheck_safe [of default_env "\<lambda>_. Inr [(''8.8.8.8'', 4), (''10.0.0.1'', 4)]" "''evil''" _
      "[(''8.8.8.8'', 4), (''10.0.0.1'', 4)]" "(''10.0.0.1'', 4)"]
  by (simp add: v6_eval default_env_def isBlockedIp_def blocked_v4_def FORBIDDEN_IPV4_def
      ipv4InCidr_def ipv4ToInt_def js_number_def cidr_mask_def)

text \<open>
  The metadata address, written as a mapped IPv6 literal without \<open>::\<close>, is a valid literal that
  the guard lets through: \<open>resolveAndCheck\<close> returns it as an address to connect to.
\<close>

theorem guard_mapped_bypass:
  "isIP ''0:0:0:0:0:ffff:169.254.169.254'' = 6 \<and>
   \<not> isBlockedIp default_env ''0:0:0:0:0:ffff:169.254.169.254'' \<and>
   resolveAndCheck default_env lookup ''0:0:0:0:0:ffff:169.254.169.254'' =
     Inr ''0:0:0:0:0:ffff:169.254.169.254''"
  by (simp add: v6_eval default_env_def isBlockedIp_def FORBIDDEN_IPV6_PREFIXES_def toLowerCase_def
      lower_char_def resolveAndCheck_def)

text \<open>
  With a session limit set, no address ever holds more sessions than the limit, after any
  sequence of openings and closings.
\<close>

theorem session_limit:
  assumes "0 < g_maxSessions env" "map_of (foldl (track_step env) [] ops) ip = Some ids"
  shows "length ids \<le> g_maxSessions env"
  using assms by (rule track_run)

theorem session_limit_witness:
  "length [''s''] \<le> g_maxSessions default_env"
  by (rule session_limit [of _ "[TryAdd ''a'' ''s'']" "''a''"])
    (simp_all add: default_env_def tryAddSession_def)

end
