(* ===== verification/Wisp_Server_Props.thy ===== *)
theory Wisp_Server_Props
  imports Wisp_Server Guard_Props
begin

text \<open>
  What the server guarantees: connections only to addresses and ports the guard admits, routed
  streams alive, credit granted only when a stream is set up; and the runs on which its limit on
  streams, its stream table and the order of throttled data fail.
\<close>

section \<open>Fields\<close>

lemma s_emit_fields [simp]:
  "ss_streams (s_emit e s) = ss_streams s" "ss_objs (s_emit e s) = ss_objs s"
  "ss_pending (s_emit e s) = ss_pending s" "ss_nextSock (s_emit e s) = ss_nextSock s"
  "ss_ws_open (s_emit e s) = ss_ws_open s" "ss_log (s_emit e s) = ss_log s @ [e]"
  "ss_delayed (s_emit e s) = ss_delayed s" "ss_bucket (s_emit e s) = ss_bucket s"
  by (simp_all add: s_emit_def)

lemma wsSend_fields [simp]:
  "ss_streams (wsSend f s) = ss_streams s" "ss_objs (wsSend f s) = ss_objs s"
  "ss_pending (wsSend f s) = ss_pending s" "ss_nextSock (wsSend f s) = ss_nextSock s"
  "ss_ws_open (wsSend f s) = ss_ws_open s"
  "ss_log (wsSend f s) = ss_log s @ (if ss_ws_open s then [ToClient f] else [])"
  "ss_delayed (wsSend f s) = ss_delayed s" "ss_bucket (wsSend f s) = ss_bucket s"
  by (simp_all add: wsSend_def)

lemma put_obj_fields [simp]:
  "ss_streams (put_obj k v s) = ss_streams s" "ss_objs (put_obj k v s) = (ss_objs s)(k \<mapsto> v)"
  "ss_pending (put_obj k v s) = ss_pending s" "ss_nextSock (put_obj k v s) = ss_nextSock s"
  "ss_ws_open (put_obj k v s) = ss_ws_open s" "ss_log (put_obj k v s) = ss_log s"
  "ss_delayed (put_obj k v s) = ss_delayed s" "ss_bucket (put_obj k v s) = ss_bucket s"
  by (simp_all add: put_obj_def)

lemma onStreamClosed_fields [simp]:
  "ss_streams (onStreamClosed i s) = AList.delete i (ss_streams s)"
  "ss_objs (onStreamClosed i s) = ss_objs s" "ss_pending (onStreamClosed i s) = ss_pending s"
  "ss_nextSock (onStreamClosed i s) = ss_nextSock s" "ss_ws_open (onStreamClosed i s) = ss_ws_open s"
  "ss_log (onStreamClosed i s) = ss_log s"
  by (simp_all add: onStreamClosed_def)

section \<open>The invariant\<close>

text \<open>Where the server connects to.\<close>

fun connects_ok :: "genv \<Rightarrow> sevent \<Rightarrow> bool" where
  "connects_ok env (SockConnect k ip port) \<longleftrightarrow> \<not> isBlockedIp env ip \<and> \<not> isBlockedPort env port"
| "connects_ok env _ \<longleftrightarrow> True"

definition routed_ok :: "session \<Rightarrow> bool" where
  "routed_ok s \<longleftrightarrow>
     distinct (keys (ss_streams s)) \<and>
     (\<forall>i k. map_of (ss_streams s) i = Some k \<longrightarrow>
        (\<exists>v. ss_objs s k = Some v \<and> v_id v = i \<and> \<not> v_closed v))"

definition sess_ok :: "genv \<Rightarrow> session \<Rightarrow> bool" where
  "sess_ok env s \<longleftrightarrow>
     list_all (connects_ok env) (ss_log s) \<and>
     (\<forall>k q. map_of (ss_pending s) k = Some q \<longrightarrow> \<not> isBlockedPort env (q_port q) \<and> ss_objs s k = None \<and>
        k < ss_nextSock s) \<and>
     (\<forall>k. ss_objs s k \<noteq> None \<longrightarrow> k < ss_nextSock s) \<and>
     routed_ok s"

lemma routed_okD:
  "routed_ok s \<Longrightarrow> map_of (ss_streams s) i = Some k \<Longrightarrow>
     \<exists>v. ss_objs s k = Some v \<and> v_id v = i \<and> \<not> v_closed v"
  unfolding routed_ok_def by blast

lemma routed_close:
  assumes r: "routed_ok s" and v: "ss_objs s k = Some v" and c: "c = v\<lparr>v_closed := True\<rparr>"
    and t: "ss_objs t = (ss_objs s)(k \<mapsto> c)" "ss_streams t = AList.delete (v_id v) (ss_streams s)"
  shows "routed_ok t"
  unfolding routed_ok_def
proof (intro conjI allI impI)
  show "distinct (keys (ss_streams t))" using r by (simp add: routed_ok_def t distinct_delete)
  fix i k' assume m: "map_of (ss_streams t) i = Some k'"
  then have i: "i \<noteq> v_id v" "map_of (ss_streams s) i = Some k'"
    unfolding t map_of_AList_delete by (auto split: if_splits)
  then obtain v' where v': "ss_objs s k' = Some v'" "v_id v' = i" "\<not> v_closed v'"
    using r unfolding routed_ok_def by blast
  with i(1) v have "k' \<noteq> k" by auto
  with v' show "\<exists>v. ss_objs t k' = Some v \<and> v_id v = i \<and> \<not> v_closed v" by (simp add: t)
qed

lemma routed_same_shape:
  assumes r: "routed_ok s" and v: "ss_objs s k = Some v" "v_id v' = v_id v" "v_closed v' = v_closed v"
    and t: "ss_objs t = (ss_objs s)(k \<mapsto> v')" "ss_streams t = ss_streams s"
  shows "routed_ok t"
  using r v by (fastforce simp: routed_ok_def t)

lemma routed_cong: "ss_objs t = ss_objs s \<Longrightarrow> ss_streams t = ss_streams s \<Longrightarrow> routed_ok t = routed_ok s"
  by (simp add: routed_ok_def)

lemma sess_okD:
  assumes "sess_ok env s"
  shows "list_all (connects_ok env) (ss_log s)" "routed_ok s"
    "\<And>k q. map_of (ss_pending s) k = Some q \<Longrightarrow> \<not> isBlockedPort env (q_port q) \<and> ss_objs s k = None \<and> k < ss_nextSock s"
    "\<And>k v. ss_objs s k = Some v \<Longrightarrow> k < ss_nextSock s"
  using assms by (auto simp: sess_ok_def)

text \<open>Operations that only touch an existing stream object and send frames.\<close>

lemma sess_ok_touch:
  assumes ok: "sess_ok env s" and r: "routed_ok t" and v: "ss_objs s k = Some v"
    and t: "ss_objs t = (ss_objs s)(k \<mapsto> v')" "ss_pending t = ss_pending s" "ss_nextSock t = ss_nextSock s"
    and l: "list_all (connects_ok env) (ss_log s) \<Longrightarrow> list_all (connects_ok env) (ss_log t)"
  shows "sess_ok env t"
proof -
  have "map_of (ss_pending s) k = None"
    using sess_okD(3) [OF ok, of k] v by (cases "map_of (ss_pending s) k") auto
  then show ?thesis using sess_okD [OF ok] r v l by (auto simp: sess_ok_def t)
qed

lemma closeSelf_ok: "sess_ok env s \<Longrightarrow> sess_ok env (closeSelf k r s)"
proof (cases "ss_objs s k")
  case (Some v)
  assume ok: "sess_ok env s"
  show ?thesis
  proof (cases "v_closed v")
    case False
    show ?thesis
    proof (rule sess_ok_touch [OF ok _ Some])
      show "routed_ok (closeSelf k r s)"
        by (rule routed_close [OF sess_okD(2) [OF ok] Some refl]) (simp_all add: closeSelf_def Some False)
    qed (simp_all add: closeSelf_def Some False)
  qed (use ok Some in \<open>simp add: closeSelf_def\<close>)
qed (simp add: closeSelf_def)

lemma handleConnect_ok: "sess_ok env s \<Longrightarrow> env = sc_env cf \<Longrightarrow> sess_ok env (handleConnect cf pkt s)"
proof -
  assume ok: "sess_ok env s" and env: "env = sc_env cf"
  have send: "sess_ok env (wsSend f s)" for f
    using sess_okD [OF ok] by (auto simp: sess_ok_def routed_cong [of "wsSend f s" s])
  have fresh: "ss_objs s (ss_nextSock s) = None"
    using sess_okD(4) [OF ok, of "ss_nextSock s"] by (cases "ss_objs s (ss_nextSock s)") auto
  have nm: "map_of (ss_pending s) (ss_nextSock s) = None"
    using sess_okD(3) [OF ok, of "ss_nextSock s"] by (cases "map_of (ss_pending s) (ss_nextSock s)") auto
  have add: "sess_ok env (s\<lparr>ss_nextSock := Suc (ss_nextSock s),
      ss_pending := ss_pending s @ [(ss_nextSock s, q)]\<rparr>)" if "\<not> isBlockedPort env (q_port q)" for q
    using sess_okD [OF ok] fresh nm that
    by (auto simp: sess_ok_def routed_ok_def map_add_def less_Suc_eq split: option.splits if_splits)
  have p: "\<not> isBlockedPort env x" if "checkPort env x = Inr ()" for x
    using that by (auto simp: checkPort_def split: if_splits)
  show ?thesis
    using send add p by (auto simp: handleConnect_def Let_def env split: prod.split sum.split)
qed

lemma handlePacket_ok:
  assumes ok: "sess_ok env s" and env: "env = sc_env cf"
  shows "sess_ok env (handlePacket cf bytes now s)"
proof (cases "parsePacket bytes")
  case (Some p)
  have wr: "sess_ok env (writeUpstream k d now s)" for k d
  proof (cases "ss_objs s k")
    case v: (Some v)
    show ?thesis
    proof (cases "v_closed v")
      case False
      show ?thesis
      proof (rule sess_ok_touch [OF ok _ v])
        show "routed_ok (writeUpstream k d now s)"
          by (rule routed_same_shape [OF sess_okD(2) [OF ok] v,
                where v' = "v\<lparr>v_bytesUp := v_bytesUp v + length d, v_lastActivity := now\<rparr>"])
            (simp_all add: writeUpstream_def v False)
      qed (simp_all add: writeUpstream_def v False)
    qed (use ok v in \<open>simp add: writeUpstream_def\<close>)
  qed (simp add: writeUpstream_def ok)
  have cl: "sess_ok env (onStreamClosed i (closeFromClient k s))" if "map_of (ss_streams s) i = Some k" for i k
  proof -
    have "\<exists>v. ss_objs s k = Some v \<and> v_id v = i \<and> \<not> v_closed v"
      by (rule routed_okD [OF sess_okD(2) [OF ok] that])
    then obtain v where v: "ss_objs s k = Some v" "v_id v = i" by blast
    show ?thesis
    proof (rule sess_ok_touch [OF ok _ v(1)])
      show "routed_ok (onStreamClosed i (closeFromClient k s))"
        by (rule routed_close [OF sess_okD(2) [OF ok] v(1) refl]) (simp_all add: closeFromClient_def v)
    qed (simp_all add: closeFromClient_def v)
  qed
  show ?thesis
    using wr cl handleConnect_ok [OF ok env] ok
    by (auto simp: handlePacket_def Some split: option.split)
qed (simp add: handlePacket_def ok)

lemma resolved_ok:
  assumes ok: "sess_ok env s" and env: "env = sc_env cf"
  shows "sess_ok env (resolved cf lookup k s)"
proof (cases "map_of (ss_pending s) k")
  case (Some q)
  show ?thesis
  proof (cases "resolveAndCheck (sc_env cf) lookup (q_host q)")
    case (Inl code)
    have "sess_ok env (wsSend f (s\<lparr>ss_pending := AList.delete k (ss_pending s)\<rparr>))" for f
      using sess_okD [OF ok] by (auto simp: sess_ok_def routed_ok_def)
    with Inl Some ok show ?thesis by (simp add: resolved_def)
  next
    case (Inr ip)
    have "\<not> isBlockedIp env ip" using resolveAndCheck_not_blocked [OF Inr] env by simp
    then have "sess_ok env (s_emit (SockConnect k ip (q_port q))
        (s\<lparr>ss_pending := AList.update k (q\<lparr>q_ip := Some ip\<rparr>) (ss_pending s)\<rparr>))"
      using sess_okD [OF ok] Some by (auto simp: sess_ok_def routed_ok_def split: if_splits)
    with Inr Some ok show ?thesis by (simp add: resolved_def)
  qed
qed (simp add: resolved_def ok)

lemma connected_ok:
  assumes ok: "sess_ok env s" shows "sess_ok env (connected k now s)"
proof (cases "map_of (ss_pending s) k")
  case (Some q)
  note d = sess_okD [OF ok] and dk = sess_okD(3) [OF ok Some]
  show ?thesis
  proof (cases "q_ip q")
    case ip: (Some ip)
    let ?v = "\<lparr>v_id = q_id q, v_bytesUp = 0, v_bytesDown = 0, v_closed = False,
               v_createdAt = now, v_lastActivity = now\<rparr>"
    let ?t = "connected k now s"
    have t: "ss_objs ?t = (ss_objs s)(k \<mapsto> ?v)" "ss_streams ?t = AList.update (q_id q) k (ss_streams s)"
      "ss_pending ?t = AList.delete k (ss_pending s)" "ss_nextSock ?t = ss_nextSock s"
      "list_all (connects_ok env) (ss_log ?t)"
      using Some ip d(1) by (simp_all add: connected_def Let_def)
    have "distinct (keys (AList.update (q_id q) k (ss_streams s)))"
      using d(2) by (simp add: routed_ok_def distinct_update)
    moreover have "\<exists>v. ss_objs ?t k' = Some v \<and> v_id v = i \<and> \<not> v_closed v"
      if "map_of (ss_streams ?t) i = Some k'" for i k'
    proof (cases "i = q_id q")
      case True
      with that show ?thesis unfolding t map_of_AList_update by simp
    next
      case False
      then have "map_of (ss_streams s) i = Some k'" using that unfolding t map_of_AList_update by simp
      from routed_okD [OF d(2) this] dk show ?thesis unfolding t by auto
    qed
    ultimately have "routed_ok ?t" unfolding routed_ok_def t(2) by blast
    then show ?thesis using t d(3,4) dk by (auto simp: sess_ok_def)
  qed (use Some ok in \<open>simp add: connected_def\<close>)
qed (simp add: connected_def ok)

lemma sock_data_ok:
  assumes ok: "sess_ok env s" shows "sess_ok env (sock_data cf k chunk now s)"
proof (cases "ss_objs s k")
  case v: (Some v)
  show ?thesis
  proof (cases "v_closed v")
    case False
    show ?thesis
    proof (rule sess_ok_touch [OF ok _ v])
      show "routed_ok (sock_data cf k chunk now s)"
        by (rule routed_same_shape [OF sess_okD(2) [OF ok] v,
              where v' = "v\<lparr>v_bytesDown := v_bytesDown v + length chunk, v_lastActivity := now\<rparr>"])
          (simp_all add: sock_data_def v False split_beta Let_def)
    qed (simp_all add: sock_data_def v False split_beta Let_def)
  qed (use ok v in \<open>simp add: sock_data_def\<close>)
qed (simp add: sock_data_def ok)

lemma sess_ok_frame:
  assumes "sess_ok env s" "ss_objs t = ss_objs s" "ss_streams t = ss_streams s"
    "ss_pending t = ss_pending s" "ss_nextSock t = ss_nextSock s"
    "list_all (connects_ok env) (ss_log s) \<Longrightarrow> list_all (connects_ok env) (ss_log t)"
  shows "sess_ok env t"
  using assms routed_cong [of t s] by (simp add: sess_ok_def)

lemma deliver_ok: "sess_ok env s \<Longrightarrow> sess_ok env (deliver now s)"
  by (rule sess_ok_frame [where s = s])
    (auto simp: deliver_def Let_def split: option.split prod.split)

lemma connect_error_ok: "sess_ok env s \<Longrightarrow> sess_ok env (connect_error k s)"
  by (auto simp: connect_error_def sess_ok_def routed_ok_def split: option.split)

lemma janitor_ok: "sess_ok env s \<Longrightarrow> sess_ok env (janitorTick cf now s)"
proof -
  have "sess_ok env s \<Longrightarrow> sess_ok env (foldl (janitor_one cf now) s ks)" for ks
    by (induction ks arbitrary: s) (auto simp: janitor_one_def closeSelf_ok split: option.split)
  then show "sess_ok env s \<Longrightarrow> sess_ok env (janitorTick cf now s)" by (simp add: janitorTick_def)
qed

text \<open>\<open>close()\<close> closes every routed stream and then empties the map.\<close>

lemma close_ok:
  assumes ok: "sess_ok env s" shows "sess_ok env (session_close s)"
proof -
  let ?P = "\<lambda>t. list_all (connects_ok env) (ss_log t) \<and> ss_pending t = ss_pending s \<and>
      ss_nextSock t = ss_nextSock s \<and> (\<forall>k. ss_objs t k = None \<longleftrightarrow> ss_objs s k = None)"
  have one: "?P (closeFromClient k t)" if "?P t" for t k
  proof (cases "ss_objs t k")
    case (Some v)
    then have "ss_objs s k \<noteq> None" using that by (metis option.distinct(1))
    with Some that show ?thesis by (simp add: closeFromClient_def)
  next
    case None
    then have "closeFromClient k t = t" by (simp add: closeFromClient_def)
    with that show ?thesis by simp
  qed
  have "?P (foldl (\<lambda>s k. closeFromClient k s) t ks)" if "?P t" for t ks
    using that
  proof (induction ks arbitrary: t)
    case (Cons k ks)
    show ?case using Cons.IH [OF one [OF Cons.prems]] by simp
  qed simp
  then have "?P (foldl (\<lambda>s k. closeFromClient k s) (s\<lparr>ss_ws_open := False\<rparr>) (map snd (ss_streams s)))"
    using sess_okD(1) [OF ok] by simp
  then show ?thesis
    using sess_okD(3,4) [OF ok] by (auto simp: session_close_def sess_ok_def routed_ok_def)
qed

lemma s_step_ok: "sess_ok (sc_env cf) s \<Longrightarrow> sess_ok (sc_env cf) (s_step cf s op)"
  by (cases op)
    (simp_all add: handlePacket_ok resolved_ok connected_ok sock_data_ok deliver_ok connect_error_ok
      closeSelf_ok janitor_ok close_ok)

lemma new_session_ok: "sess_ok env (new_session cf now)"
  by (simp add: sess_ok_def new_session_def routed_ok_def)

lemma s_run_ok: "sess_ok (sc_env cf) s \<Longrightarrow> sess_ok (sc_env cf) (s_run cf s ops)"
proof (induction ops arbitrary: s)
  case (Cons op ops)
  then show ?case using s_step_ok [of cf s op] by (simp add: s_run_def)
qed (simp add: s_run_def)

section \<open>Grants\<close>

text \<open>The CONTINUE frames a log grants a stream, and the frames of a log.\<close>

fun frames :: "sevent list \<Rightarrow> byte list list" where
  "frames [] = []"
| "frames (ToClient f # l) = f # frames l"
| "frames (e # l) = frames l"

lemma frames_append [simp]: "frames (l @ l') = frames l @ frames l'"
  by (induction l rule: frames.induct) simp_all

definition grants :: "nat \<Rightarrow> byte list list \<Rightarrow> nat" where
  "grants sid fs = length (filter (\<lambda>f. f = buildContinue sid BUFFER_SIZE) fs)"

lemma grants_simps [simp]:
  "grants sid [] = 0"
  "grants sid (f # fs) = (if f = buildContinue sid BUFFER_SIZE then 1 else 0) + grants sid fs"
  "grants sid (fs @ fs') = grants sid fs + grants sid fs'"
  by (simp_all add: grants_def)

lemma kinds_distinct [simp]:
  "buildClose i r \<noteq> buildContinue j n" "buildData i d \<noteq> buildContinue j n"
  by (simp_all add: buildClose_def buildContinue_def buildData_def PKT_CLOSE_def PKT_CONTINUE_def PKT_DATA_def)

definition requested :: "nat \<Rightarrow> session \<Rightarrow> nat" where
  "requested sid s = length (filter (\<lambda>(k, q). q_id q mod 2 ^ 32 = sid mod 2 ^ 32) (ss_pending s))"

lemma buildContinue_id: "buildContinue i n = buildContinue j n \<longleftrightarrow> i mod 2 ^ 32 = j mod 2 ^ 32"
proof
  assume "buildContinue i n = buildContinue j n"
  then have "take 4 (drop 1 (buildContinue i n)) = take 4 (drop 1 (buildContinue j n))" by simp
  then have "le_bytes 4 i = le_bytes 4 j" by (simp add: buildContinue_def)
  then have "le_value (le_bytes 4 i) = le_value (le_bytes 4 j)" by simp
  then show "i mod 2 ^ 32 = j mod 2 ^ 32" by (simp add: le_value_bytes)
next
  assume m: "i mod 2 ^ 32 = j mod 2 ^ 32"
  have "le_bytes 4 (le_value (le_bytes 4 x)) = le_bytes 4 x" for x
    using le_bytes_value [of "le_bytes 4 x"] by simp
  from this [of i] this [of j] m have "le_bytes 4 i = le_bytes 4 j" by (simp add: le_value_bytes)
  then show "buildContinue i n = buildContinue j n" by (simp add: buildContinue_def)
qed

text \<open>
  What an operation may add: a CONTINUE only against a pending CONNECT it removes, a pending
  CONNECT only for the id of a CONNECT packet.
\<close>

definition owed :: "nat \<Rightarrow> session \<Rightarrow> nat" where
  "owed sid s = grants sid (frames (ss_log s)) + requested sid s"

lemma requested_cong: "ss_pending t = ss_pending s \<Longrightarrow> requested sid t = requested sid s"
  by (simp add: requested_def)

lemma filter_delete_le: "length (filter P (AList.delete k m)) \<le> length (filter P m)"
  by (induction m) (auto simp: AList.delete_eq le_SucI)

lemma filter_delete_less:
  assumes "map_of m k = Some v" "P (k, v)"
  shows "Suc (length (filter P (AList.delete k m))) \<le> length (filter P m)"
  using assms
proof (induction m)
  case (Cons a m)
  then show ?case using filter_delete_le [of P k m]
    by (cases a) (auto simp: AList.delete_eq split: if_splits)
qed simp

lemma filter_update_same:
  assumes "map_of m k = Some v" "P (k, v') = P (k, v)"
  shows "length (filter P (AList.update k v' m)) = length (filter P m)"
  using assms by (induction m) (auto split: if_splits)

definition connects_to :: "nat \<Rightarrow> sop \<Rightarrow> bool" where
  "connects_to sid op = (case op of
      Packet bytes now \<Rightarrow> (case parsePacket bytes of
          Some p \<Rightarrow> p_type p = PKT_CONNECT \<and> p_streamId p mod 2 ^ 32 = sid mod 2 ^ 32 | None \<Rightarrow> False)
    | _ \<Rightarrow> False)"

text \<open>Only a CONNECT packet raises what is owed, by one.\<close>

lemma owed_touch:
  assumes "ss_pending t = ss_pending s" "frames (ss_log t) = frames (ss_log s) @ fs" "grants sid fs = 0"
  shows "owed sid t = owed sid s"
  using assms requested_cong [of t s sid] by (simp add: owed_def)

lemma owed_writeUpstream: "owed sid (writeUpstream k d now s) = owed sid s"
  by (rule owed_touch [where fs = "[]"]) (auto simp: writeUpstream_def split: option.split)

lemma owed_closeFromClient: "owed sid (closeFromClient k s) = owed sid s"
  by (rule owed_touch [where fs = "[]"]) (auto simp: closeFromClient_def split: option.split)

lemma owed_closeSelf: "owed sid (closeSelf k r s) = owed sid s"
proof (cases "ss_objs s k")
  case (Some v)
  show ?thesis
    by (rule owed_touch [where fs = "if v_closed v \<or> \<not> ss_ws_open s then [] else [buildClose (v_id v) r]"])
      (simp_all add: closeSelf_def Some)
qed (simp add: closeSelf_def)

lemma owed_janitor: "owed sid (janitorTick cf now s) = owed sid s"
proof -
  have "owed sid (foldl (janitor_one cf now) s ks) = owed sid s" for ks
    by (induction ks arbitrary: s) (auto simp: janitor_one_def owed_closeSelf split: option.split)
  then show ?thesis by (simp add: janitorTick_def)
qed

lemma owed_close: "owed sid (session_close s) = owed sid s"
proof -
  have "owed sid (foldl (\<lambda>s k. closeFromClient k s) s ks) = owed sid s" for s ks
    by (induction ks arbitrary: s) (auto simp: owed_closeFromClient)
  then show ?thesis by (simp add: session_close_def owed_def requested_def)
qed

lemma owed_deliver: "owed sid (deliver now s) = owed sid s"
proof (cases "take_due now (ss_delayed s)")
  case (Some p)
  then obtain d ds where p: "take_due now (ss_delayed s) = Some (d, ds)" by (cases p) auto
  show ?thesis
    by (auto simp: deliver_def p Let_def owed_def requested_def split: option.split)
qed (simp add: deliver_def)

lemma owed_sock_data: "owed sid (sock_data cf k chunk now s) = owed sid s"
  by (auto simp: sock_data_def Let_def owed_def requested_def split: option.split prod.split)

lemma requested_delete_le:
  "requested sid (s\<lparr>ss_pending := AList.delete k (ss_pending s)\<rparr>) \<le> requested sid s"
  by (simp add: requested_def filter_delete_le)

lemma owed_connect_error: "owed sid (connect_error k s) \<le> owed sid s"
  using filter_delete_le [of "\<lambda>(k, q). q_id q mod 2 ^ 32 = sid mod 2 ^ 32" k "ss_pending s"]
  by (auto simp: connect_error_def owed_def requested_def split: option.split)

lemma owed_resolved: "owed sid (resolved cf lookup k s) \<le> owed sid s"
proof (cases "map_of (ss_pending s) k")
  case (Some q)
  show ?thesis
    using filter_delete_le [of "\<lambda>(k, q). q_id q mod 2 ^ 32 = sid mod 2 ^ 32" k "ss_pending s"]
      filter_update_same [OF Some, of "\<lambda>(k, q). q_id q mod 2 ^ 32 = sid mod 2 ^ 32"]
    by (auto simp: resolved_def Some owed_def requested_def split: sum.split)
qed (simp add: resolved_def)

lemma owed_connected: "owed sid (connected k now s) \<le> owed sid s"
proof (cases "map_of (ss_pending s) k")
  case (Some q)
  let ?P = "\<lambda>(k, q). q_id q mod 2 ^ 32 = sid mod 2 ^ 32"
  show ?thesis
  proof (cases "q_id q mod 2 ^ 32 = sid mod 2 ^ 32")
    case True
    then have "Suc (length (filter ?P (AList.delete k (ss_pending s)))) \<le> length (filter ?P (ss_pending s))"
      using filter_delete_less [OF Some, of ?P] by simp
    then show ?thesis by (simp add: connected_def Some Let_def owed_def requested_def)
  next
    case False
    then show ?thesis using filter_delete_le [of ?P k "ss_pending s"]
      by (simp add: connected_def Some Let_def owed_def requested_def buildContinue_id)
  qed
qed (simp add: connected_def)

lemma owed_connect:
  "owed sid (handleConnect cf pkt s) \<le> owed sid s + of_bool (p_streamId pkt mod 2 ^ 32 = sid mod 2 ^ 32)"
  by (auto simp: handleConnect_def Let_def owed_def requested_def split: prod.split sum.split)

lemma owed_packet:
  "owed sid (handlePacket cf bytes now s) \<le> owed sid s + of_bool (connects_to sid (Packet bytes now))"
proof (cases "parsePacket bytes")
  case (Some p)
  have cl: "owed sid (onStreamClosed i t) = owed sid t" for i t
    by (simp add: owed_def requested_def)
  show ?thesis
    using owed_connect [of sid cf p s]
    by (auto simp: handlePacket_def connects_to_def Some cl owed_writeUpstream owed_closeFromClient
        split: option.split)
qed (simp add: handlePacket_def)

lemma owed_step: "owed sid (s_step cf s op) \<le> owed sid s + of_bool (connects_to sid op)"
  using owed_packet [of sid cf] owed_resolved [of sid cf] owed_connected [of sid] owed_connect_error [of sid]
  by (cases op)
    (auto simp: owed_closeSelf owed_janitor owed_close owed_deliver owed_sock_data connects_to_def)

lemma owed_run: "owed sid (s_run cf s ops) \<le> owed sid s + length (filter (connects_to sid) ops)"
proof (induction ops arbitrary: s)
  case (Cons op ops)
  from Cons [of "s_step cf s op"] owed_step [of sid cf s op] show ?case
    by (simp add: s_run_def of_bool_def split: if_splits)
qed (simp add: s_run_def)

section \<open>The properties\<close>

text \<open>
  Whatever the client sends and however resolution, sockets, timers and the janitor
  interleave, a session asks for a connection only to an address the guard does not block, on a
  port it does not block, and every id in its stream table names an open stream of that id.
\<close>

theorem wisp_server_connects:
  "list_all (connects_ok (sc_env cf)) (ss_log (s_run cf (new_session cf now) ops)) \<and>
   routed_ok (s_run cf (new_session cf now) ops)"
  using sess_okD(1,2) [OF s_run_ok [OF new_session_ok]] by blast

text \<open>
  A stream is granted credit at most once per CONNECT packet that named it: the server never
  replenishes the credit of an open stream.
\<close>

theorem wisp_server_grants_once:
  assumes "0 < sid" "sid < 2 ^ 32"
  shows "grants sid (frames (ss_log (s_run cf (new_session cf now) ops)))
    \<le> length (filter (connects_to sid) ops)"
proof -
  have "owed sid (new_session cf now) = 0"
    using assms by (simp add: owed_def new_session_def requested_def buildContinue_id)
  with owed_run [of sid cf "new_session cf now" ops] show ?thesis by (simp add: owed_def)
qed

theorem wisp_server_grants_once_witness:
  "grants 7 (frames (ss_log (s_run \<lparr>sc_env = default_env, sc_utf8 = \<lambda>_. ''8.8.8.8''\<rparr>
       (new_session \<lparr>sc_env = default_env, sc_utf8 = \<lambda>_. ''8.8.8.8''\<rparr> 0) [Janitor 5, SessionClose])))
   = 0"
  using wisp_server_grants_once [of 7 "\<lparr>sc_env = default_env, sc_utf8 = \<lambda>_. ''8.8.8.8''\<rparr>" 0
      "[Janitor 5, SessionClose]"]
  by (simp add: connects_to_def)

text \<open>A server for one stream, with a slow link, and its client's packets.\<close>

definition ascii :: "byte list \<Rightarrow> string" where
  "ascii bs = map (\<lambda>b. char_of (unat b)) bs"

definition tight :: server_config where
  "tight = \<lparr>sc_env = default_env\<lparr>g_maxStreams := 1, g_bandwidth := 10\<rparr>, sc_utf8 = ascii\<rparr>"

definition dns_server :: "byte list" where
  "dns_server = [56, 46, 56, 46, 56, 46, 56]"

definition connect_packet :: "nat \<Rightarrow> byte list" where
  "connect_packet sid = buildConnect sid dns_server 443 STREAM_TYPE_TCP"

lemma connect_packet_parse:
  "parsePacket (connect_packet sid) =
     Some \<lparr>p_type = PKT_CONNECT, p_streamId = sid mod 2 ^ 32,
           p_payload = STREAM_TYPE_TCP # le_bytes 2 443 @ dns_server\<rparr>"
  unfolding connect_packet_def buildConnect_def by (subst parse_header) simp

lemma connect_packet_fields:
  "connect_fields (STREAM_TYPE_TCP # le_bytes 2 443 @ dns_server) = (STREAM_TYPE_TCP, 443, dns_server)"
  by (rule connect_fields_build) simp

lemma tight_simps:
  "g_maxStreams (sc_env tight) = 1" "g_bandwidth (sc_env tight) = 10"
  "sc_utf8 tight dns_server = ''8.8.8.8''"
  by (simp_all add: tight_def ascii_def dns_server_def char_of_def bit_0)

lemma tight_port: "checkPort (sc_env tight) 443 = Inr ()"
  by (simp add: checkPort_def isBlockedPort_def getBlockedPorts_def DEFAULT_BLOCKED_PORTS_def
      tight_def default_env_def)

lemma tight_host: "resolveAndCheck (sc_env tight) lookup ''8.8.8.8'' = Inr ''8.8.8.8''"
  by (simp add: v6_eval default_env_def isBlockedIp_def blocked_v4_def FORBIDDEN_IPV4_def tight_def
      ipv4InCidr_def ipv4ToInt_def js_number_def cidr_mask_def resolveAndCheck_def)

lemma tight_connect:
  "ss_streams s = [] \<Longrightarrow> sid < 2 ^ 32 \<Longrightarrow>
   handlePacket tight (connect_packet sid) now s =
     s\<lparr>ss_nextSock := Suc (ss_nextSock s),
       ss_pending := ss_pending s @
         [(ss_nextSock s, \<lparr>q_id = sid, q_host = ''8.8.8.8'', q_port = 443, q_ip = None\<rparr>)]\<rparr>"
  by (simp add: handlePacket_def connect_packet_parse handleConnect_def connect_packet_fields
      tight_port tight_simps)

text \<open>
  The stream limit does not bound the streams: with a limit of one, two CONNECT packets that
  both arrive before a socket has connected give two open streams, and so on.
\<close>

theorem wisp_stream_limit_bypass:
  "let s = s_run tight (new_session tight 0)
       [Packet (connect_packet 1) 0, Packet (connect_packet 2) 0,
        Resolved lookup 0, Resolved lookup 1, Connected 0 1, Connected 1 1]
   in g_maxStreams (sc_env tight) = 1 \<and> map fst (ss_streams s) = [1, 2] \<and>
      map_option v_closed (ss_objs s 0) = Some False \<and> map_option v_closed (ss_objs s 1) = Some False"
  by (simp add: s_run_def tight_connect new_session_def tight_simps resolved_def tight_host connected_def
      s_emit_def wsSend_def put_obj_def Let_def)

text \<open>
  A stream id may be taken twice: the second CONNECT replaces the table entry of the first
  stream, and when the forgotten first socket ends, the entry of the second one is deleted and the
  client is told that its open stream was closed.
\<close>

theorem wisp_stream_id_reused:
  "let s = s_run tight (new_session tight 0)
       [Packet (connect_packet 1) 0, Packet (connect_packet 1) 0,
        Resolved lookup 0, Resolved lookup 1, Connected 0 1, Connected 1 1];
       t = s_step tight s (SockEnd 0)
   in ss_streams s = [(1, 1)] \<and> ss_streams t = [] \<and>
      map_option v_closed (ss_objs t 1) = Some False \<and>
      ss_log t = ss_log s @ [SockDestroy 0, ToClient (buildClose 1 2)]"
  by (simp add: s_run_def tight_connect new_session_def tight_simps resolved_def tight_host connected_def
      s_emit_def wsSend_def put_obj_def Let_def closeSelf_def onStreamClosed_def)

text \<open>
  The throttle reorders the data of one stream: a chunk larger than the tokens left waits,
  without taking them, and a smaller chunk that arrives after it is sent to the client before it.
\<close>

theorem wisp_throttle_reorders:
  "let s = s_run tight (new_session tight 0)
       [Packet (connect_packet 1) 0, Resolved lookup 0, Connected 0 1];
       a = replicate 15 97; b = [98];
       t = s_run tight s [SockData 0 a 2, SockData 0 b 2, Deliver 2, Deliver 502]
   in frames (ss_log t) = frames (ss_log s) @ [buildData 1 b, buildData 1 a]"
  by (simp add: s_run_def tight_connect new_session_def tight_simps resolved_def tight_host connected_def
      s_emit_def wsSend_def put_obj_def Let_def sock_data_def throttle_def deliver_def)

end
