(* ===== verification/Tunnel.thy ===== *)
theory Tunnel
  imports Wisp_Client_Props Wisp_Server_Props
begin

text \<open>
  The Wisp client and the Wisp server joined by a WebSocket: what one sends, the other receives
  once and in order, at any later time. Sockets, timers, the resolver and the users of the streams
  act in between. The joint system shows what neither side shows alone: how much a stream can
  ever upload.
\<close>

section \<open>The joint system\<close>

text \<open>\<open>t_up\<close> and \<open>t_down\<close> count the frames already received by the server and by the client.\<close>

record tunnel =
  t_client :: wisp_conn
  t_server :: session
  t_up :: nat
  t_down :: nat

fun cframes :: "cevent list \<Rightarrow> byte list list" where
  "cframes [] = []"
| "cframes (SendConnect i b # l) = b # cframes l"
| "cframes (SendData i b # l) = b # cframes l"
| "cframes (SendClose i b # l) = b # cframes l"
| "cframes (e # l) = cframes l"

fun is_message :: "cop \<Rightarrow> bool" where
  "is_message (Message bytes) = True"
| "is_message _ = False"

fun is_packet :: "sop \<Rightarrow> bool" where
  "is_packet (Packet bytes now) = True"
| "is_packet _ = False"

inductive tstep :: "server_config \<Rightarrow> tunnel \<Rightarrow> tunnel \<Rightarrow> bool" for cf where
  client_acts: "\<not> is_message op \<Longrightarrow> tstep cf t (t\<lparr>t_client := c_step (t_client t) op\<rparr>)"
| server_acts: "\<not> is_packet op \<Longrightarrow> tstep cf t (t\<lparr>t_server := s_step cf (t_server t) op\<rparr>)"
| up: "t_up t < length (cframes (c_log (t_client t))) \<Longrightarrow>
    tstep cf t (t\<lparr>t_server := s_step cf (t_server t) (Packet (cframes (c_log (t_client t)) ! t_up t) now),
                  t_up := Suc (t_up t)\<rparr>)"
| down: "t_down t < length (frames (ss_log (t_server t))) \<Longrightarrow>
    tstep cf t (t\<lparr>t_client := c_step (t_client t) (Message (frames (ss_log (t_server t)) ! t_down t)),
                  t_down := Suc (t_down t)\<rparr>)"

inductive reachable :: "server_config \<Rightarrow> tunnel \<Rightarrow> bool" for cf where
  start: "reachable cf \<lparr>t_client = new_conn, t_server = new_session cf now, t_up = 0, t_down = 0\<rparr>"
| step: "reachable cf t \<Longrightarrow> tstep cf t t' \<Longrightarrow> reachable cf t'"

inductive_cases tstepE: "tstep cf t t'"

section \<open>What a client operation logs\<close>

text \<open>Events that neither grant credit nor ask for a connection.\<close>

fun neutral :: "cevent \<Rightarrow> bool" where
  "neutral (SendConnect i b) = False"
| "neutral (Granted i n) = False"
| "neutral (SendData i b) = (\<exists>d. b = buildData i d)"
| "neutral (SendClose i b) = (\<exists>r. b = buildClose i r)"
| "neutral _ = True"

lemma neutral_sends [simp]:
  "neutral (SendData i (buildData i d))" "neutral (SendClose i (buildClose i r))"
  by auto

declare neutral.simps(3,4) [simp del]

definition quiet :: "wisp_conn \<Rightarrow> wisp_conn \<Rightarrow> bool" where
  "quiet c c' \<longleftrightarrow> c_nextStreamId c' = c_nextStreamId c \<and> c_initialBuffer c' = c_initialBuffer c \<and>
     (\<exists>new. c_log c' = c_log c @ new \<and> list_all neutral new)"

lemma quiet_refl [simp]: "quiet c c"
  by (simp add: quiet_def)

lemma quiet_trans: "quiet a b \<Longrightarrow> quiet b c \<Longrightarrow> quiet a c"
  by (fastforce simp: quiet_def)

lemma quiet_emit [simp]: "neutral e \<Longrightarrow> quiet c (c_emit e c)"
  by (simp add: quiet_def c_emit_def)

lemma quiet_put [simp]: "quiet c (put_stream sid st c)"
  by (simp add: quiet_def put_stream_def)

lemma quiet_streams [simp]: "quiet c (c\<lparr>c_streams := l\<rparr>)"
  by (simp add: quiet_def)

lemma quiet_send: "neutral e \<Longrightarrow> send_packet e c = Some c' \<Longrightarrow> quiet c c'"
  by (auto simp: send_packet_def split: if_splits)

lemma quiet_drain_loop: "quiet c (snd (snd (drain_loop sid q n c)))"
proof (induction sid q n c rule: drain_loop.induct)
  case (2 sid data cb queue n c)
  show ?case
  proof (cases "send_packet (SendData sid (buildData sid data)) c")
    case None
    then show ?thesis using 2
      by (auto intro!: quiet_trans [OF quiet_emit [of "WriteDone sid cb False" c]])
  next
    case (Some c')
    have "quiet c (c_emit (WriteDone sid cb True) c')"
      by (rule quiet_trans [OF quiet_send [OF _ Some]]) simp_all
    then show ?thesis using 2 Some by (auto intro: quiet_trans)
  qed
qed simp

lemma quiet_drain: "quiet c (drainSendQueue sid c)"
proof (cases "c_objs c sid")
  case (Some st)
  show ?thesis
    using quiet_drain_loop [of c sid "s_sendQueue st" "s_credit st"]
    by (auto simp: drainSendQueue_def Some split_beta Let_def intro: quiet_trans [OF _ quiet_put])
qed (simp add: drainSendQueue_def)

lemma quiet_cleanup: "quiet c (sendCloseAndCleanup sid r c)"
proof (cases "c_objs c sid")
  case (Some st)
  have "quiet c1 (case send_packet (SendClose sid (buildClose sid r)) c1 of Some c' \<Rightarrow> c' | None \<Rightarrow> c1)" for c1
    by (auto simp: send_packet_def split: option.split)
  then show ?thesis
    by (auto simp: sendCloseAndCleanup_def Some Let_def
        intro: quiet_trans [OF quiet_trans [OF quiet_put] quiet_streams])
qed (simp add: sendCloseAndCleanup_def)

lemma quiet_write: "quiet c (stream_write sid d cb c)"
  by (auto simp: stream_write_def intro: quiet_trans [OF quiet_put quiet_drain] split: option.split)

lemma quiet_destroy: "quiet c (stream_destroy sid c)"
  by (auto simp: stream_destroy_def split: option.split
      intro!: quiet_trans [OF quiet_trans [OF quiet_put quiet_cleanup] quiet_emit])

lemma quiet_remoteClose: "quiet c (onRemoteClose sid r c)"
  by (auto simp: onRemoteClose_def Let_def split: option.split
      intro!: quiet_trans [OF quiet_put quiet_emit] quiet_trans [OF quiet_trans [OF quiet_put quiet_emit] quiet_emit])

lemma quiet_remoteData: "quiet c (onRemoteData sid d c)"
  by (auto simp: onRemoteData_def split: option.split intro!: quiet_trans [OF quiet_put quiet_emit])

lemma quiet_ws_closed: "quiet c (ws_closed c)"
proof -
  have "quiet c (foldl (\<lambda>c sid. onRemoteClose sid 3 c) c l)" for c l
    by (induction l arbitrary: c) (auto intro: quiet_trans [OF quiet_remoteClose])
  then have "quiet (c\<lparr>c_closed := True, c_open := False\<rparr>)
      (foldl (\<lambda>c sid. onRemoteClose sid 3 c) (c\<lparr>c_closed := True, c_open := False\<rparr>) (c_streams c))" .
  then show ?thesis by (simp add: ws_closed_def quiet_def)
qed

section \<open>The invariant\<close>

text \<open>What a server sends, and what it was asked for.\<close>

definition server_frame :: "byte list \<Rightarrow> bool" where
  "server_frame f \<longleftrightarrow>
     (\<exists>i. f = buildContinue i BUFFER_SIZE) \<or> (\<exists>i d. f = buildData i d) \<or> (\<exists>i r. f = buildClose i r)"

lemma server_frame_simps [simp]:
  "server_frame (buildContinue i BUFFER_SIZE)" "server_frame (buildData i d)" "server_frame (buildClose i r)"
  by (auto simp: server_frame_def)

definition speaks :: "session \<Rightarrow> session \<Rightarrow> bool" where
  "speaks s s' \<longleftrightarrow> (\<exists>fs. frames (ss_log s') = frames (ss_log s) @ fs \<and> list_all server_frame fs)"

lemma speaks_refl [simp]: "speaks s s"
  by (simp add: speaks_def)

lemma speaks_trans: "speaks a b \<Longrightarrow> speaks b c \<Longrightarrow> speaks a c"
  by (fastforce simp: speaks_def)

lemma speaks_same: "frames (ss_log s') = frames (ss_log s) \<Longrightarrow> speaks s s'"
  by (simp add: speaks_def)

lemma speaks_send: "server_frame f \<Longrightarrow> frames (ss_log s') = frames (ss_log s) @ (if ss_ws_open s'' then [f] else []) \<Longrightarrow> speaks s s'"
  by (auto simp: speaks_def)

lemma speaks_fold: "(\<And>s k. speaks s (f s k)) \<Longrightarrow> speaks s (foldl f s ks)"
  by (induction ks arbitrary: s) (auto intro: speaks_trans)

lemma speaks_closeFromClient: "speaks s (closeFromClient k s)"
  by (auto simp: closeFromClient_def split: option.split intro: speaks_same)

lemma speaks_closeSelf: "speaks s (closeSelf k r s)"
  by (auto simp: closeSelf_def speaks_def split: option.split)

lemma speaks_handleConnect: "speaks s (handleConnect cf pkt s)"
  by (auto simp: handleConnect_def Let_def speaks_def split: prod.split sum.split)

lemma speaks_handlePacket: "speaks s (handlePacket cf bytes now s)"
proof -
  have "speaks s (onStreamClosed i (closeFromClient k s))" for i k
    by (rule speaks_trans [OF speaks_closeFromClient [of s k] speaks_same]) simp
  moreover have "speaks s (writeUpstream k d now s)" for k d
    by (auto simp: writeUpstream_def split: option.split intro: speaks_same)
  ultimately show ?thesis by (auto simp: handlePacket_def speaks_handleConnect split: option.split)
qed

lemma speaks_step: "speaks s (s_step cf s op)"
proof (cases op)
  case (Resolved lookup k)
  then show ?thesis by (auto simp: resolved_def speaks_def split: option.split sum.split)
next
  case (Janitor now)
  have "speaks s (janitor_one cf now s k)" for s k
    by (auto simp: janitor_one_def speaks_closeSelf split: option.split)
  then show ?thesis using Janitor by (simp add: janitorTick_def speaks_fold)
next
  case SessionClose
  have "speaks (s\<lparr>ss_ws_open := False\<rparr>)
      (foldl (\<lambda>s k. closeFromClient k s) (s\<lparr>ss_ws_open := False\<rparr>) (map snd (ss_streams s)))"
    by (rule speaks_fold) (rule speaks_closeFromClient)
  then show ?thesis using SessionClose by (simp add: session_close_def speaks_def)
next
  case (Deliver now)
  then show ?thesis by (auto simp: deliver_def Let_def speaks_def split: option.split prod.split)
next
  case (Connected k now)
  then show ?thesis by (auto simp: connected_def Let_def speaks_def split: option.split)
next
  case (ConnectError k)
  then show ?thesis by (auto simp: connect_error_def speaks_def split: option.split)
next
  case (SockData k c now)
  then show ?thesis by (auto simp: sock_data_def Let_def intro: speaks_same split: option.split prod.split)
qed (auto simp: speaks_handlePacket speaks_closeSelf)

text \<open>Credit granted to a stream in a log; connections asked for under its id in a list of frames.\<close>

definition granted :: "nat \<Rightarrow> cevent list \<Rightarrow> nat" where
  "granted sid l = sum_list (map (\<lambda>e. case e of Granted i n \<Rightarrow> if i = sid then n else 0 | _ \<Rightarrow> 0) l)"

definition asked :: "nat \<Rightarrow> byte list list \<Rightarrow> nat" where
  "asked sid fs = length (filter (\<lambda>f. connects_to sid (Packet f 0)) fs)"

lemma granted_simps [simp]:
  "granted sid [] = 0" "granted sid (l @ l') = granted sid l + granted sid l'"
  "granted sid (e # l) = (case e of Granted i n \<Rightarrow> if i = sid then n else 0 | _ \<Rightarrow> 0) + granted sid l"
  by (simp_all add: granted_def)

lemma asked_simps [simp]:
  "asked sid [] = 0" "asked sid (fs @ fs') = asked sid fs + asked sid fs'"
  "asked sid (f # fs) = of_bool (connects_to sid (Packet f 0)) + asked sid fs"
  by (simp_all add: asked_def)

lemma connects_to_now: "connects_to sid (Packet f now) = connects_to sid (Packet f 0)"
  by (simp add: connects_to_def)

lemma cframes_append [simp]: "cframes (l @ l') = cframes l @ cframes l'"
  by (induction l rule: cframes.induct) simp_all

lemma connects_to_build [simp]:
  "\<not> connects_to sid (Packet (buildData i d) now)" "\<not> connects_to sid (Packet (buildClose i r) now)"
  "connects_to sid (Packet (buildConnect i h p ty) now) \<longleftrightarrow> i mod 2 ^ 32 = sid mod 2 ^ 32"
  by (simp_all add: connects_to_def buildData_def buildClose_def buildConnect_def parse_header
      PKT_DATA_def PKT_CLOSE_def PKT_CONNECT_def)

lemma neutral_asked: "list_all neutral l \<Longrightarrow> asked sid (cframes l) = 0 \<and> granted sid l = 0"
  by (induction l rule: cframes.induct) (auto simp: neutral.simps)

lemma budget_bound:
  "budget sid n l = Some m \<Longrightarrow> length (payloads sid l) + m \<le> n + granted sid l"
proof (induction sid n l rule: budget.induct)
  case (3 sid n i d l)
  then show ?case by (auto simp: payloads_def split: if_splits nat.splits)
qed (auto simp: payloads_def split: if_splits)

section \<open>How much a stream can upload\<close>

definition tunnel_ok :: "nat \<Rightarrow> tunnel \<Rightarrow> bool" where
  "tunnel_ok sid t \<longleftrightarrow>
     (let c = t_client t; fs = frames (ss_log (t_server t)) in
      t_down t \<le> length fs \<and> t_up t \<le> length (cframes (c_log c)) \<and>
      list_all server_frame fs \<and> c_initialBuffer c = BUFFER_SIZE \<and>
      granted sid (c_log c) \<le> BUFFER_SIZE * (of_bool (sid < c_nextStreamId c) + grants sid (take (t_down t) fs)) \<and>
      owed sid (t_server t) \<le> asked sid (take (t_up t) (cframes (c_log c))) \<and>
      (c_nextStreamId c \<le> 2 ^ 32 \<longrightarrow> asked sid (cframes (c_log c)) \<le> of_bool (sid < c_nextStreamId c)))"

lemma take_append_le: "n \<le> length xs \<Longrightarrow> take n (xs @ ys) = take n xs"
  by simp

lemma quiet_client_ok:
  assumes ok: "tunnel_ok sid t" and q: "quiet (t_client t) c"
  shows "tunnel_ok sid (t\<lparr>t_client := c\<rparr>)"
proof -
  obtain new where n: "c_log c = c_log (t_client t) @ new" "list_all neutral new"
    using q by (auto simp: quiet_def)
  show ?thesis
    using ok q n neutral_asked [OF n(2), of sid] by (auto simp: tunnel_ok_def quiet_def Let_def)
qed

lemma connect_client_ok:
  assumes ok: "tunnel_ok sid t" and sid: "0 < sid" "sid < 2 ^ 32"
  shows "tunnel_ok sid (t\<lparr>t_client := snd (connectTcp host port (t_client t))\<rparr>)"
proof (cases "c_closed (t_client t)")
  case True
  then show ?thesis using ok by (simp add: connectTcp_def)
next
  case False
  let ?c = "t_client t" and ?d = "snd (connectTcp host port (t_client t))"
  let ?n = "c_nextStreamId ?c"
  define fs where "fs = (if c_open ?c then [SendConnect ?n (buildConnect ?n host port STREAM_TYPE_TCP)] else [])"
  have d: "c_nextStreamId ?d = Suc ?n" "c_initialBuffer ?d = c_initialBuffer ?c"
    "c_log ?d = c_log ?c @ Granted ?n (c_initialBuffer ?c) # fs"
    using False by (cases "c_open ?c";
      simp add: connectTcp_def Let_def send_packet_def c_emit_def put_stream_def fs_def)+
  have g: "granted sid fs = 0" "asked sid (cframes fs) \<le> of_bool (?n mod 2 ^ 32 = sid)"
    using sid by (auto simp: fs_def)
  have m: "?n mod 2 ^ 32 = ?n" if "Suc ?n \<le> 2 ^ 32" using that by simp
  show ?thesis
    using ok d(1-3) g m sid
    by (auto simp: tunnel_ok_def Let_def less_Suc_eq BUFFER_SIZE_def of_bool_def split: if_splits)
qed

lemma client_acts_ok:
  assumes ok: "tunnel_ok sid t" and sid: "0 < sid" "sid < 2 ^ 32" and "\<not> is_message op"
  shows "tunnel_ok sid (t\<lparr>t_client := c_step (t_client t) op\<rparr>)"
proof (cases op)
  case (ConnectTcp host port)
  then show ?thesis using connect_client_ok [OF ok sid] by simp
qed (use assms in \<open>auto intro!: quiet_client_ok quiet_write quiet_destroy quiet_cleanup
        quiet_ws_closed simp: stream_final_def conn_close_def quiet_def\<close>)

lemma server_step_ok:
  assumes ok: "tunnel_ok sid t" and up: "n \<le> length (cframes (c_log (t_client t)))"
    and owed: "owed sid s \<le> asked sid (take n (cframes (c_log (t_client t))))"
    and sp: "speaks (t_server t) s"
  shows "tunnel_ok sid (t\<lparr>t_server := s, t_up := n\<rparr>)"
  using ok up owed sp by (auto simp: tunnel_ok_def Let_def speaks_def)

text \<open>A frame of the server, delivered: the credit it brings is the CONTINUE it is.\<close>

lemma parse_server:
  "parsePacket (buildContinue i n) =
     Some \<lparr>p_type = PKT_CONTINUE, p_streamId = i mod 2 ^ 32, p_payload = le_bytes 4 n\<rparr>"
  "parsePacket (buildData i d) = Some \<lparr>p_type = PKT_DATA, p_streamId = i mod 2 ^ 32, p_payload = d\<rparr>"
  "parsePacket (buildClose i r) = Some \<lparr>p_type = PKT_CLOSE, p_streamId = i mod 2 ^ 32, p_payload = [r]\<rparr>"
  by (simp_all add: buildContinue_def buildData_def buildClose_def parse_header)

lemma credit_buffer: "continue_credit (le_bytes 4 BUFFER_SIZE) = BUFFER_SIZE"
  by (simp add: continue_credit_build BUFFER_SIZE_def)

lemma deliver_quiet:
  assumes "server_frame f" "\<And>i. f \<noteq> buildContinue i BUFFER_SIZE"
  shows "quiet c (onMessage f c)"
proof -
  have st: "quiet c (d\<lparr>c_streams := l d\<rparr>)" if "quiet c d" for d l
    using quiet_trans [OF that quiet_streams] .
  show ?thesis
    using assms by (auto simp: server_frame_def onMessage_def parse_server Let_def PKT_DATA_def
        PKT_CLOSE_def PKT_CONTINUE_def quiet_remoteData quiet_remoteClose intro!: st)
qed

lemma deliver_grant:
  assumes "c_initialBuffer c = BUFFER_SIZE"
  obtains "quiet c (onMessage (buildContinue i BUFFER_SIZE) c)"
  | new where "i mod 2 ^ 32 \<noteq> 0"
      "c_log (onMessage (buildContinue i BUFFER_SIZE) c) = c_log c @ Granted (i mod 2 ^ 32) BUFFER_SIZE # new"
      "list_all neutral new"
      "c_nextStreamId (onMessage (buildContinue i BUFFER_SIZE) c) = c_nextStreamId c"
      "c_initialBuffer (onMessage (buildContinue i BUFFER_SIZE) c) = BUFFER_SIZE"
proof -
  let ?i = "i mod 2 ^ 32"
  show thesis
  proof (cases "?i = 0 \<or> ?i \<notin> set (c_streams c) \<or> c_objs c ?i = None")
    case True
    then have "quiet c (onMessage (buildContinue i BUFFER_SIZE) c)"
      using assms by (auto simp: onMessage_def parse_server Let_def credit_buffer onCredit_def
          PKT_DATA_def PKT_CONTINUE_def quiet_def)
    then show thesis by (rule that(1))
  next
    case False
    then obtain st where st: "c_objs c ?i = Some st" by auto
    define c1 where "c1 = c_emit (Granted ?i BUFFER_SIZE) (put_stream ?i (st\<lparr>s_credit := BUFFER_SIZE\<rparr>) c)"
    have c1: "c_log c1 = c_log c @ [Granted ?i BUFFER_SIZE]" "c_nextStreamId c1 = c_nextStreamId c"
      "c_initialBuffer c1 = c_initialBuffer c"
      by (simp_all add: c1_def c_emit_def put_stream_def)
    have e: "onMessage (buildContinue i BUFFER_SIZE) c = drainSendQueue ?i c1"
      using False st by (simp add: onMessage_def parse_server Let_def credit_buffer onCredit_def
          PKT_DATA_def PKT_CONTINUE_def c1_def)
    obtain new where "c_log (drainSendQueue ?i c1) = c_log c1 @ new" "list_all neutral new"
      "c_nextStreamId (drainSendQueue ?i c1) = c_nextStreamId c1"
      "c_initialBuffer (drainSendQueue ?i c1) = c_initialBuffer c1"
      using quiet_drain [of c1 ?i] by (auto simp: quiet_def)
    with e c1 False assms show thesis by (intro that(2) [of new]) auto
  qed
qed

lemma down_ok:
  assumes ok: "tunnel_ok sid t" and sid: "0 < sid" "sid < 2 ^ 32"
    and n: "t_down t < length (frames (ss_log (t_server t)))"
  shows "tunnel_ok sid (t\<lparr>t_client := onMessage (frames (ss_log (t_server t)) ! t_down t) (t_client t),
                          t_down := Suc (t_down t)\<rparr>)"
proof -
  let ?fs = "frames (ss_log (t_server t))" and ?c = "t_client t"
  let ?f = "?fs ! t_down t"
  have take: "grants sid (take (Suc (t_down t)) ?fs) =
      grants sid (take (t_down t) ?fs) + (if ?f = buildContinue sid BUFFER_SIZE then 1 else 0)"
    using n by (simp add: take_Suc_conv_app_nth)
  have f: "server_frame ?f"
    using ok n by (auto simp: tunnel_ok_def Let_def list_all_iff)
  have q: ?thesis if "quiet ?c (onMessage ?f ?c)"
    using quiet_client_ok [OF ok that] n take by (auto simp: tunnel_ok_def Let_def)
  show ?thesis
  proof (cases "\<exists>i. ?f = buildContinue i BUFFER_SIZE")
    case False
    with f show ?thesis by (intro q deliver_quiet) auto
  next
    case True
    then obtain i where i: "?f = buildContinue i BUFFER_SIZE" by blast
    have init: "c_initialBuffer ?c = BUFFER_SIZE" using ok by (simp add: tunnel_ok_def Let_def)
    show ?thesis
    proof (rule deliver_grant [OF init, of i])
      assume "quiet ?c (onMessage (buildContinue i BUFFER_SIZE) ?c)"
      then show ?thesis using q i by simp
    next
      fix new
      assume new: "i mod 2 ^ 32 \<noteq> 0" "list_all neutral new"
        "c_log (onMessage (buildContinue i BUFFER_SIZE) ?c) = c_log ?c @ Granted (i mod 2 ^ 32) BUFFER_SIZE # new"
        "c_nextStreamId (onMessage (buildContinue i BUFFER_SIZE) ?c) = c_nextStreamId ?c"
        "c_initialBuffer (onMessage (buildContinue i BUFFER_SIZE) ?c) = BUFFER_SIZE"
      have g: "grants sid (take (Suc (t_down t)) ?fs) = grants sid (take (t_down t) ?fs) + of_bool (i mod 2 ^ 32 = sid)"
        using take i buildContinue_id [of i BUFFER_SIZE sid] sid by (simp add: of_bool_def)
      show ?thesis
        using ok n new g neutral_asked [OF new(2), of sid] unfolding i
        by (auto simp: tunnel_ok_def Let_def of_bool_def split: if_splits)
    qed
  qed
qed

lemma up_ok:
  assumes ok: "tunnel_ok sid t" and n: "t_up t < length (cframes (c_log (t_client t)))"
  shows "tunnel_ok sid (t\<lparr>t_server := s_step cf (t_server t) (Packet (cframes (c_log (t_client t)) ! t_up t) now),
                          t_up := Suc (t_up t)\<rparr>)"
proof (rule server_step_ok [OF ok])
  let ?f = "cframes (c_log (t_client t)) ! t_up t"
  show "Suc (t_up t) \<le> length (cframes (c_log (t_client t)))" using n by simp
  show "owed sid (s_step cf (t_server t) (Packet ?f now))
      \<le> asked sid (take (Suc (t_up t)) (cframes (c_log (t_client t))))"
    using owed_step [of sid cf "t_server t" "Packet ?f now"] ok n connects_to_now [of sid ?f now]
    by (simp add: tunnel_ok_def Let_def take_Suc_conv_app_nth)
qed (rule speaks_step)

lemma tunnel_ok_step:
  assumes "tstep cf t t'" "tunnel_ok sid t" "0 < sid" "sid < 2 ^ 32"
  shows "tunnel_ok sid t'"
  using assms(1)
proof cases
  case (client_acts op)
  then show ?thesis using client_acts_ok assms by simp
next
  case (server_acts op)
  have "owed sid (s_step cf (t_server t) op) \<le> owed sid (t_server t)"
    using owed_step [of sid cf "t_server t" op] server_acts(2) by (cases op) (simp_all add: connects_to_def)
  then have "tunnel_ok sid (t\<lparr>t_server := s_step cf (t_server t) op, t_up := t_up t\<rparr>)"
    by (intro server_step_ok [OF assms(2)] speaks_step)
      (use assms(2) in \<open>auto simp: tunnel_ok_def Let_def\<close>)
  then show ?thesis using server_acts by simp
next
  case (up now)
  then show ?thesis using up_ok [OF assms(2)] by simp
next
  case down
  then show ?thesis using down_ok [OF assms(2-4)] by simp
qed

lemma reachable_ok: "reachable cf t \<Longrightarrow> 0 < sid \<Longrightarrow> sid < 2 ^ 32 \<Longrightarrow> tunnel_ok sid t"
proof (induction rule: reachable.induct)
  case (start now)
  then have "buildContinue 0 BUFFER_SIZE \<noteq> buildContinue sid BUFFER_SIZE"
    by (simp add: buildContinue_id)
  then show ?case
    by (simp add: tunnel_ok_def new_conn_def new_session_def owed_def requested_def
        DEFAULT_INITIAL_BUFFER_def BUFFER_SIZE_def [symmetric])
next
  case (step t t')
  then show ?case using tunnel_ok_step by blast
qed

lemma reachable_client:
  "reachable cf t \<Longrightarrow> \<exists>ops. t_client t = c_run ops"
proof (induction rule: reachable.induct)
  case (start now)
  show ?case by (rule exI [of _ "[]"]) (simp add: c_run_def)
next
  case (step t t')
  then obtain ops where "t_client t = c_run ops" by blast
  then have e: "c_step (t_client t) op = c_run (ops @ [op])" for op by (simp add: c_run_def)
  from step(2) show ?case
  proof (cases rule: tstep.cases)
    case down
    then show ?thesis using e [of "Message (frames (ss_log (t_server t)) ! t_down t)"] by auto
  qed (use e \<open>t_client t = c_run ops\<close> in auto)
qed

text \<open>
  C17. Client and server together: over the whole life of a stream the client sends at most 256
  data packets on it, 128 on the initial credit and 128 on the single CONTINUE that answers its
  CONNECT, whatever the schedule, as long as stream ids have not wrapped. An upload of more chunks
  than that stalls for ever.
\<close>

theorem tunnel_upload_bounded:
  assumes "reachable cf t" "0 < sid" "sid < 2 ^ 32" "c_nextStreamId (t_client t) \<le> 2 ^ 32"
  shows "length (payloads sid (c_log (t_client t))) \<le> 256"
proof -
  note ok = reachable_ok [OF assms(1-3)]
  let ?c = "t_client t"
  let ?up = "cframes (c_log ?c)" and ?down = "frames (ss_log (t_server t))"
  obtain ops where ops: "?c = c_run ops" using reachable_client [OF assms(1)] by blast
  have "\<exists>m. budget sid 0 (c_log (c_run ops)) = Some m"
    using run_ok [of ops] by (auto simp: conn_ok_def stream_ok_def split: option.splits dest!: spec [of _ sid])
  then obtain m where "budget sid 0 (c_log ?c) = Some m" unfolding ops by blast
  then have "length (payloads sid (c_log ?c)) \<le> granted sid (c_log ?c)"
    using budget_bound by fastforce
  also have "\<dots> \<le> BUFFER_SIZE * (1 + grants sid (take (t_down t) ?down))"
    using ok by (auto simp: tunnel_ok_def Let_def BUFFER_SIZE_def of_bool_def split: if_splits)
  finally have "length (payloads sid (c_log ?c)) \<le> BUFFER_SIZE * (1 + grants sid (take (t_down t) ?down))" .
  moreover have "grants sid (take (t_down t) ?down) \<le> grants sid ?down"
    using grants_simps(3) [of sid "take (t_down t) ?down" "drop (t_down t) ?down"] by simp
  moreover have "grants sid ?down \<le> asked sid (take (t_up t) ?up)"
    using ok by (simp add: tunnel_ok_def Let_def owed_def)
  moreover have "asked sid (take (t_up t) ?up) \<le> asked sid ?up"
    using asked_simps(2) [of sid "take (t_up t) ?up" "drop (t_up t) ?up"] by simp
  moreover have "asked sid ?up \<le> 1"
    using ok assms(4) by (auto simp: tunnel_ok_def Let_def of_bool_def split: if_splits)
  ultimately show ?thesis by (simp add: BUFFER_SIZE_def)
qed

theorem tunnel_upload_bounded_witness:
  "length (payloads 1 (c_log (c_run [ConnectTcp [104] 80, StreamWrite 1 [1, 2] 0]))) \<le> 256"
proof -
  let ?t = "\<lparr>t_client = new_conn, t_server = new_session tight 0, t_up = 0, t_down = 0\<rparr>"
  let ?u = "?t\<lparr>t_client := c_step new_conn (ConnectTcp [104] 80)\<rparr>"
  let ?v = "?u\<lparr>t_client := c_step (t_client ?u) (StreamWrite 1 [1, 2] 0)\<rparr>"
  have u: "reachable tight ?u"
    using reachable.step [OF reachable.start tstep.client_acts, of "ConnectTcp [104] 80" tight 0] by simp
  have v: "reachable tight ?v"
    using reachable.step [OF u tstep.client_acts [of "StreamWrite 1 [1, 2] 0"]] by simp
  have run: "t_client ?v = c_run [ConnectTcp [104] 80, StreamWrite 1 [1, 2] 0]" by (simp add: c_run_def)
  have nx: "c_nextStreamId (t_client ?v) \<le> 2 ^ 32"
    by (simp add: new_conn_def connectTcp_def send_packet_def c_emit_def put_stream_def
        new_stream_def stream_write_def drainSendQueue_def DEFAULT_INITIAL_BUFFER_def Let_def)
  from tunnel_upload_bounded [OF v _ _ nx, of 1] show ?thesis unfolding run by simp
qed

end
