(* ===== verification/Shell_Syntax.thy ===== *)
theory Shell_Syntax
  imports Prelude
begin

text \<open>
  The tokenizer and the parser of \<open>napi-bridge/shell-parser.js\<close>. The position \<open>i\<close> of the loops
  is the rest of the input from it; \<open>input[i + 1]\<close> past the end is \<open>undefined\<close>, which equals no
  character. A string is the list of its UTF-8 bytes, all the code compares being ASCII; its
  \<open>length\<close> in the code counts UTF-16 units, \<open>utf16_length\<close>.
\<close>

section \<open>Tokens\<close>

datatype token =
    WORD string bool
  | PIPE | OR | AND | SEMI | REDIRECT | APPEND | INPUT
  | FD_REDIRECT char char

fun tok_value :: "token \<Rightarrow> string" where
  "tok_value (WORD w q) = w"
| "tok_value PIPE = ''|''"
| "tok_value OR = ''||''"
| "tok_value AND = ''&&''"
| "tok_value SEMI = '';''"
| "tok_value REDIRECT = ''>''"
| "tok_value APPEND = ''>>''"
| "tok_value INPUT = ''<''"
| "tok_value (FD_REDIRECT a b) = a # ''>&'' @ [b]"

definition MAX_INPUT_LENGTH :: nat where "MAX_INPUT_LENGTH = 1000000"

abbreviation squote :: char where "squote \<equiv> CHR 0x27"
abbreviation dquote :: char where "dquote \<equiv> CHR 0x22"
abbreviation bslash :: char where "bslash \<equiv> CHR 0x5C"

definition blank :: "char \<Rightarrow> bool" where
  "blank c \<longleftrightarrow> c = CHR '' '' \<or> c = CHR 0x09"

definition is_digit :: "char \<Rightarrow> bool" where
  "is_digit c \<longleftrightarrow> c \<in> set ''0123456789''"

fun isOperatorChar :: "string \<Rightarrow> bool" where
  "isOperatorChar [] = False"
| "isOperatorChar (c # cs) =
     (c = CHR ''|'' \<or> c = CHR '';'' \<or> c = CHR ''>'' \<or> c = CHR ''<'' \<or>
      (c = CHR ''&'' \<and> starts_with cs ''&'') \<or>
      (is_digit c \<and> starts_with cs ''>&''))"

section \<open>Quoting\<close>

text \<open>The text up to the closing quote, which is skipped when there is one.\<close>

definition single_quoted :: "string \<Rightarrow> string \<times> string" where
  "single_quoted s = (takeWhile (\<lambda>c. c \<noteq> squote) s, drop 1 (dropWhile (\<lambda>c. c \<noteq> squote) s))"

fun double_quoted :: "string \<Rightarrow> string \<times> string" where
  "double_quoted [] = ([], [])"
| "double_quoted [c] = (if c = dquote then ([], []) else ([c], []))"
| "double_quoted (c # d # cs) =
     (if c = dquote then ([], d # cs)
      else if c = bslash then (let (w, rest) = double_quoted cs in (d # w, rest))
      else (let (w, rest) = double_quoted (d # cs) in (c # w, rest)))"

text \<open>The loop after a leading backslash: quotes are ordinary characters in it.\<close>

fun escaped_word :: "string \<Rightarrow> string \<times> string" where
  "escaped_word [] = ([], [])"
| "escaped_word [c] = (if blank c \<or> isOperatorChar [c] then ([], [c]) else ([c], []))"
| "escaped_word (c # d # cs) =
     (if blank c \<or> isOperatorChar (c # d # cs) then ([], c # d # cs)
      else if c = bslash then (let (w, rest) = escaped_word cs in (d # w, rest))
      else (let (w, rest) = escaped_word (d # cs) in (c # w, rest)))"

lemma double_quoted_le: "length (snd (double_quoted s)) \<le> length s"
proof (induction s rule: double_quoted.induct)
  case (3 c d cs)
  then show ?case by (cases "c = dquote"; cases "c = bslash"; simp add: split_beta Let_def le_SucI)
qed simp_all

lemma single_quoted_le: "length (snd (single_quoted s)) \<le> length s"
  using length_dropWhile_le [of "\<lambda>c. c \<noteq> squote" s] by (simp add: single_quoted_def)

lemma single_quoted_rest: "(t, r) = single_quoted s \<Longrightarrow> length r \<le> length s"
  using single_quoted_le [of s] by (metis snd_conv)

lemma double_quoted_rest: "(t, r) = double_quoted s \<Longrightarrow> length r \<le> length s"
  using double_quoted_le [of s] by (metis snd_conv)

text \<open>The loop of a regular word: the text, whether it has quotes, and the rest.\<close>

function word_loop :: "string \<Rightarrow> string \<times> bool \<times> string" where
  "word_loop s =
     (case s of
        [] \<Rightarrow> ([], False, [])
      | c # cs \<Rightarrow>
          if blank c \<or> isOperatorChar s then ([], False, s)
          else if c = bslash \<and> cs \<noteq> [] then
            (let (w, q, rest) = word_loop (tl cs) in (hd cs # w, q, rest))
          else if c = squote then
            (let (t, r) = single_quoted cs; (w, q, rest) = word_loop r in (t @ w, True, rest))
          else if c = dquote then
            (let (t, r) = double_quoted cs; (w, q, rest) = word_loop r in (t @ w, True, rest))
          else (let (w, q, rest) = word_loop cs in (c # w, q, rest)))"
  by pat_completeness auto

termination
  by (relation "measure length") (auto simp: less_Suc_eq_le dest: single_quoted_rest double_quoted_rest)

declare word_loop.simps [simp del]

section \<open>The tokenizer\<close>

text \<open>One turn of the main loop: the token pushed, if any, and the input after it.\<close>

fun next_tok :: "string \<Rightarrow> token option \<times> string" where
  "next_tok [] = (None, [])"
| "next_tok (c # cs) =
     (if blank c then (None, cs)
      else if c = CHR ''|'' \<and> starts_with cs ''|'' then (Some OR, tl cs)
      else if c = CHR ''|'' then (Some PIPE, cs)
      else if c = CHR ''&'' \<and> starts_with cs ''&'' then (Some AND, tl cs)
      else if c = CHR '';'' then (Some SEMI, cs)
      else if c = CHR ''>'' \<and> starts_with cs ''>'' then (Some APPEND, tl cs)
      else if c = CHR ''>'' then (Some REDIRECT, cs)
      else if c = CHR ''<'' then (Some INPUT, cs)
      else if is_digit c \<and> starts_with cs ''>&'' \<and> drop 2 cs \<noteq> [] \<and> is_digit (cs ! 2)
        then (Some (FD_REDIRECT c (cs ! 2)), drop 3 cs)
      else if c = squote then (let (w, rest) = single_quoted cs in (Some (WORD w True), rest))
      else if c = dquote then (let (w, rest) = double_quoted cs in (Some (WORD w True), rest))
      else if c = bslash \<and> cs \<noteq> [] then
        (let (w, rest) = escaped_word (tl cs) in (Some (WORD (hd cs # w) False), rest))
      else
        (let (w, q, rest) = word_loop (c # cs)
         in (if w \<noteq> [] then Some (WORD w q) else None, rest)))"

fun push :: "'a option \<Rightarrow> 'a list \<Rightarrow> 'a list" where
  "push None xs = xs"
| "push (Some x) xs = xs @ [x]"

text \<open>The loop need not end: \<^term>\<open>None\<close> when it does not.\<close>

partial_function (option) tok_loop :: "string \<Rightarrow> token list \<Rightarrow> token list option" where
  "tok_loop s tokens =
     (if s = [] then Some tokens
      else tok_loop (snd (next_tok s)) (push (fst (next_tok s)) tokens))"

text \<open>A byte that starts a character of the basic plane counts one unit, that of four bytes two.\<close>

definition utf16_units :: "char \<Rightarrow> nat" where
  "utf16_units c =
     (let b = (of_char c :: nat) in if b < 128 then 1 else if b < 192 then 0 else if b < 240 then 1 else 2)"

definition utf16_length :: "string \<Rightarrow> nat" where
  "utf16_length s = sum_list (map utf16_units s)"

datatype shell_error = InputTooLong

definition tokenize :: "string \<Rightarrow> (shell_error + token list) option" where
  "tokenize input =
     (if MAX_INPUT_LENGTH < utf16_length input then Some (Inl InputTooLong)
      else map_option Inr (tok_loop input []))"

section \<open>The parser\<close>

text \<open>The loop of \<open>parseTokens\<close>: pipelines, separators, the current one.\<close>

fun split_step :: "token list list \<times> token list \<times> token list \<Rightarrow> token \<Rightarrow>
    token list list \<times> token list \<times> token list" where
  "split_step (pipelines, separators, current) tok =
     (if tok \<in> {SEMI, AND, OR} then (pipelines @ [current], separators @ [tok], [])
      else (pipelines, separators, current @ [tok]))"

definition parseTokens :: "token list \<Rightarrow> token list list \<times> token list" where
  "parseTokens tokens =
     (let (pipelines, separators, current) = foldl split_step ([], [], []) tokens
      in (if current \<noteq> [] then pipelines @ [current] else pipelines, separators))"

record simple_command =
  sc_cmd :: string
  sc_args :: "(string \<times> bool) list"
  sc_env :: "(string \<times> string) list"
  sc_out :: "string option"
  sc_append :: bool
  sc_in :: "string option"
  sc_merge :: bool

definition name_start :: "char \<Rightarrow> bool" where
  "name_start c \<longleftrightarrow> c \<in> set ''ABCDEFGHIJKLMNOPQRSTUVWXYZabcdefghijklmnopqrstuvwxyz_''"

definition name_char :: "char \<Rightarrow> bool" where
  "name_char c \<longleftrightarrow> name_start c \<or> is_digit c"

definition is_name :: "string \<Rightarrow> bool" where
  "is_name s \<longleftrightarrow> s \<noteq> [] \<and> name_start (hd s) \<and> list_all name_char (tl s)"

text \<open>The leading assignments, and the tokens after them.\<close>

fun parse_env :: "token list \<Rightarrow> (string \<times> string) list \<Rightarrow> (string \<times> string) list \<times> token list" where
  "parse_env (WORD w q # toks) vars =
     (case index_of (CHR ''='') w of
        Some n \<Rightarrow>
          if \<not> starts_with w ''-'' \<and> is_name (take n w)
          then parse_env toks (AList.update (take n w) (drop (Suc n) w) vars)
          else (vars, WORD w q # toks)
      | None \<Rightarrow> (vars, WORD w q # toks))"
| "parse_env toks vars = (vars, toks)"

fun parse_rest :: "token list \<Rightarrow> simple_command \<Rightarrow> simple_command" where
  "parse_rest [] c = c"
| "parse_rest (REDIRECT # toks) c =
     (case toks of [] \<Rightarrow> c
      | t # ts \<Rightarrow> parse_rest ts (c\<lparr>sc_out := Some (tok_value t), sc_append := False\<rparr>))"
| "parse_rest (APPEND # toks) c =
     (case toks of [] \<Rightarrow> c
      | t # ts \<Rightarrow> parse_rest ts (c\<lparr>sc_out := Some (tok_value t), sc_append := True\<rparr>))"
| "parse_rest (INPUT # toks) c =
     (case toks of [] \<Rightarrow> c | t # ts \<Rightarrow> parse_rest ts (c\<lparr>sc_in := Some (tok_value t)\<rparr>))"
| "parse_rest (FD_REDIRECT a b # toks) c =
     parse_rest toks (if a = CHR ''2'' \<and> b = CHR ''1'' then c\<lparr>sc_merge := True\<rparr> else c)"
| "parse_rest (WORD w q # toks) c = parse_rest toks (c\<lparr>sc_args := sc_args c @ [(w, q)]\<rparr>)"
| "parse_rest (t # toks) c = parse_rest toks c"

definition parseSimpleCommand :: "token list \<Rightarrow> simple_command" where
  "parseSimpleCommand tokens =
     (let (vars, toks) = parse_env tokens [];
          c = parse_rest toks \<lparr>sc_cmd = [], sc_args = [], sc_env = vars, sc_out = None,
                               sc_append = False, sc_in = None, sc_merge = False\<rparr>
      in case sc_args c of
           [] \<Rightarrow> c
         | (w, q) # args \<Rightarrow> c\<lparr>sc_cmd := w, sc_args := args\<rparr>)"

fun pipe_step :: "simple_command list \<times> token list \<Rightarrow> token \<Rightarrow> simple_command list \<times> token list" where
  "pipe_step (commands, current) tok =
     (if tok = PIPE then (commands @ [parseSimpleCommand current], [])
      else (commands, current @ [tok]))"

definition parsePipeline :: "token list \<Rightarrow> simple_command list" where
  "parsePipeline tokens =
     (let (commands, current) = foldl pipe_step ([], []) tokens
      in if current \<noteq> [] then commands @ [parseSimpleCommand current] else commands)"

text \<open>\<open>bash -c command\<close>: the arguments after \<open>-c\<close>, joined.\<close>

definition unwrapShellInvocation :: "string \<Rightarrow> (string \<times> bool) list \<Rightarrow> string option" where
  "unwrapShellInvocation cmd args =
     (if cmd \<in> {''bash'', ''sh'', ''/bin/bash'', ''/bin/sh''} \<and> 2 \<le> length args \<and> fst (hd args) = ''-c''
      then Some (join_with (CHR '' '') (map fst (tl args)))
      else None)"

end
