(* ===== verification/Shell_Syntax_Props.thy ===== *)
theory Shell_Syntax_Props
  imports Shell_Syntax
begin

text \<open>
  The tokenizer and the parser: on which inputs the main loop ends, that quoting is undone, that
  no token is lost between the separators, and the input on which the loop never ends.
\<close>

section \<open>Progress\<close>

text \<open>A digit before \<open>>&\<close> that no digit follows: an operator character no branch consumes.\<close>

fun stuck :: "string \<Rightarrow> bool" where
  "stuck [] = False"
| "stuck (c # cs) = (is_digit c \<and> starts_with cs ''>&'' \<and> \<not> (drop 2 cs \<noteq> [] \<and> is_digit (cs ! 2)))"

fun has_stuck :: "string \<Rightarrow> bool" where
  "has_stuck [] = False"
| "has_stuck (c # cs) = (stuck (c # cs) \<or> has_stuck cs)"

lemma has_stuck_suffix: "suffix t s \<Longrightarrow> has_stuck t \<Longrightarrow> has_stuck s"
  by (induction s) (auto simp: suffix_Cons)

lemma stuck_has_stuck: "stuck s \<Longrightarrow> has_stuck s"
  by (cases s) auto

lemma suffix_single_quoted: "suffix (snd (single_quoted s)) s"
proof -
  have "suffix (drop 1 (dropWhile (\<lambda>c. c \<noteq> squote) s)) (dropWhile (\<lambda>c. c \<noteq> squote) s)"
    by (rule suffix_drop)
  then show ?thesis
    unfolding single_quoted_def snd_conv by (rule suffix_order.trans) (rule suffix_dropWhile)
qed

lemma suffix_double_quoted: "suffix (snd (double_quoted s)) s"
proof (induction s rule: double_quoted.induct)
  case (3 c d cs)
  then show ?case
    by (cases "c = dquote"; cases "c = bslash"; simp add: split_beta Let_def suffix_ConsI)
qed simp_all

lemma suffix_escaped_word: "suffix (snd (escaped_word s)) s"
proof (induction s rule: escaped_word.induct)
  case (3 c d cs)
  then show ?case
    by (cases "blank c \<or> isOperatorChar (c # d # cs)"; cases "c = bslash";
        simp add: split_beta Let_def suffix_ConsI del: isOperatorChar.simps)
qed simp_all

lemma suffix_word_loop: "suffix (snd (snd (word_loop s))) s"
proof (induction s rule: word_loop.induct)
  case (1 s)
  show ?case
  proof (cases s)
    case Nil
    then show ?thesis by (subst word_loop.simps) simp
  next
    case (Cons c cs)
    consider (stop) "blank c \<or> isOperatorChar s" | (esc) "\<not> (blank c \<or> isOperatorChar s)" "c = bslash \<and> cs \<noteq> []"
      | (sq) "\<not> (blank c \<or> isOperatorChar s)" "\<not> (c = bslash \<and> cs \<noteq> [])" "c = squote"
      | (dq) "\<not> (blank c \<or> isOperatorChar s)" "\<not> (c = bslash \<and> cs \<noteq> [])" "c \<noteq> squote" "c = dquote"
      | (plain) "\<not> (blank c \<or> isOperatorChar s)" "\<not> (c = bslash \<and> cs \<noteq> [])" "c \<noteq> squote" "c \<noteq> dquote"
      by blast
    then show ?thesis
    proof cases
      case stop
      then show ?thesis by (subst word_loop.simps) (simp add: Cons del: isOperatorChar.simps)
    next
      case esc
      have "suffix (snd (snd (word_loop (tl cs)))) (tl cs)" by (rule "1.IH"(1) [OF Cons esc])
      then have "suffix (snd (snd (word_loop (tl cs)))) s"
        using suffix_order.trans [OF _ suffix_tl [of cs]] by (auto simp: Cons intro: suffix_ConsI)
      then show ?thesis
        using esc by (subst word_loop.simps) (simp add: Cons split_beta Let_def del: isOperatorChar.simps)
    next
      case sq
      have "suffix (snd (snd (word_loop (snd (single_quoted cs))))) (snd (single_quoted cs))"
        by (rule "1.IH"(2) [OF Cons sq, of _ "fst (single_quoted cs)"]) simp_all
      then have "suffix (snd (snd (word_loop (snd (single_quoted cs))))) s"
        using suffix_order.trans [OF _ suffix_single_quoted [of cs]] by (auto simp: Cons intro: suffix_ConsI)
      then show ?thesis
        using sq by (subst word_loop.simps) (simp add: Cons split_beta Let_def del: isOperatorChar.simps)
    next
      case dq
      have "suffix (snd (snd (word_loop (snd (double_quoted cs))))) (snd (double_quoted cs))"
        by (rule "1.IH"(3) [OF Cons dq, of _ "fst (double_quoted cs)"]) simp_all
      then have "suffix (snd (snd (word_loop (snd (double_quoted cs))))) s"
        using suffix_order.trans [OF _ suffix_double_quoted [of cs]] by (auto simp: Cons intro: suffix_ConsI)
      then show ?thesis
        using dq by (subst word_loop.simps) (simp add: Cons split_beta Let_def del: isOperatorChar.simps)
    next
      case plain
      have "suffix (snd (snd (word_loop cs))) cs" by (rule "1.IH"(4) [OF Cons plain])
      then show ?thesis
        using plain by (subst word_loop.simps)
          (auto simp: Cons split_beta Let_def intro: suffix_ConsI simp del: isOperatorChar.simps)
    qed
  qed
qed

lemma word_loop_progress:
  assumes "\<not> (blank c \<or> isOperatorChar (c # cs))"
  shows "length (snd (snd (word_loop (c # cs)))) \<le> length cs"
proof -
  have w: "length (snd (snd (word_loop t))) \<le> length t" for t
    using suffix_length_le [OF suffix_word_loop] .
  have sq: "length (snd (single_quoted cs)) \<le> length cs" and dq: "length (snd (double_quoted cs)) \<le> length cs"
    using single_quoted_le double_quoted_le by simp_all
  show ?thesis
    using assms order_trans [OF w [of "tl cs"], of "length cs"] w [of cs] order_trans [OF w [of "snd (single_quoted cs)"] sq]
      order_trans [OF w [of "snd (double_quoted cs)"] dq]
    by (subst word_loop.simps) (simp add: split_beta Let_def del: isOperatorChar.simps)
qed

lemma regular_char:
  assumes "\<not> blank c" "c \<noteq> CHR ''|''" "c \<noteq> CHR '';''" "c \<noteq> CHR ''>''" "c \<noteq> CHR ''<''"
    "\<not> (c = CHR ''&'' \<and> starts_with cs ''&'')" "\<not> stuck (c # cs)"
    "\<not> (is_digit c \<and> starts_with cs ''>&'' \<and> drop 2 cs \<noteq> [] \<and> is_digit (cs ! 2))"
  shows "\<not> (blank c \<or> isOperatorChar (c # cs))"
  using assms by auto

text \<open>Every turn of the loop that is not stuck consumes something.\<close>

lemma next_tok_progress:
  assumes "\<not> stuck (c # cs)"
  shows "length (snd (next_tok (c # cs))) \<le> length cs"
proof (cases "blank c \<or> c = CHR ''|'' \<or> c = CHR '';'' \<or> c = CHR ''>'' \<or> c = CHR ''<'' \<or>
    (c = CHR ''&'' \<and> starts_with cs ''&'') \<or>
    (is_digit c \<and> starts_with cs ''>&'' \<and> drop 2 cs \<noteq> [] \<and> is_digit (cs ! 2))")
  case True
  then show ?thesis by (elim disjE) (simp_all add: is_digit_def)
next
  case False
  then have r: "\<not> (blank c \<or> isOperatorChar (c # cs))" using assms by (intro regular_char) blast+
  have esc: "length (snd (escaped_word (tl cs))) \<le> length cs"
    using suffix_length_le [OF suffix_escaped_word [of "tl cs"]] by (cases cs) simp_all
  show ?thesis
    using False word_loop_progress [OF r] esc single_quoted_le [of cs] double_quoted_le [of cs]
    by (simp add: split_beta Let_def del: isOperatorChar.simps)
qed

lemma next_tok_suffix: "suffix (snd (next_tok s)) s"
proof (cases s)
  case (Cons c cs)
  have a: "suffix (snd (single_quoted cs)) (c # cs)" "suffix (snd (double_quoted cs)) (c # cs)"
    "suffix (tl cs) (c # cs)" "suffix (drop 3 cs) (c # cs)" "suffix cs (c # cs)"
    using suffix_single_quoted suffix_double_quoted suffix_tl suffix_drop by (blast intro: suffix_ConsI suffix_order.refl)+
  have e: "suffix (snd (escaped_word (tl cs))) (c # cs)"
    using suffix_order.trans [OF suffix_escaped_word a(3)] .
  show ?thesis
    unfolding Cons next_tok.simps
    using a e suffix_word_loop [of "c # cs"]
    by (auto simp: split_beta Let_def simp del: isOperatorChar.simps)
qed simp

text \<open>A stuck position is never left.\<close>

lemma stuck_next: "stuck s \<Longrightarrow> next_tok s = (None, s)"
proof (cases s)
  case (Cons c cs)
  assume st: "stuck s"
  then have d: "is_digit c" "starts_with cs ''>&''" "\<not> (drop 2 cs \<noteq> [] \<and> is_digit (cs ! 2))"
    by (simp_all add: Cons)
  have op: "isOperatorChar (c # cs)" using d by simp
  have "\<not> blank c" "c \<noteq> CHR ''|''" "c \<noteq> CHR ''&''" "c \<noteq> CHR '';''" "c \<noteq> CHR ''>''" "c \<noteq> CHR ''<''"
    "c \<noteq> squote" "c \<noteq> dquote" "c \<noteq> bslash"
    using d(1) by (auto simp: is_digit_def blank_def)
  moreover have "word_loop (c # cs) = ([], False, c # cs)"
    using op by (subst word_loop.simps) (simp del: isOperatorChar.simps)
  ultimately show ?thesis
    unfolding Cons next_tok.simps using d(3) by (simp del: isOperatorChar.simps)
qed simp

lemma tok_loop_stuck: "stuck s \<Longrightarrow> tok_loop s ts = None"
proof (rule ccontr)
  assume st: "stuck s" and "tok_loop s ts \<noteq> None"
  then obtain y where y: "tok_loop s ts = Some y" by blast
  have "\<not> stuck s"
  proof (rule tok_loop.raw_induct [where P = "\<lambda>s ts y. \<not> stuck s", OF _ y])
    fix loop and s :: string and ts y
    assume hyp: "\<And>s ts y. loop s ts = Some y \<Longrightarrow> \<not> stuck s"
      and body: "(if s = [] then Some ts else loop (snd (next_tok s)) (push (fst (next_tok s)) ts)) = Some y"
    show "\<not> stuck s"
    proof
      assume st: "stuck s"
      then have "s \<noteq> []" by auto
      with body hyp have "\<not> stuck (snd (next_tok s))" by auto
      with stuck_next [OF st] st show False by simp
    qed
  qed
  with st show False by blast
qed

lemma tok_loop_total: "\<not> has_stuck s \<Longrightarrow> \<exists>ts'. tok_loop s ts = Some ts'"
proof (induction "length s" arbitrary: s ts rule: less_induct)
  case less
  show ?case
  proof (cases s)
    case (Cons c cs)
    then have "\<not> stuck (c # cs)" using less.prems by simp
    then have "length (snd (next_tok s)) < length s"
      using next_tok_progress [of c cs] Cons by (simp del: next_tok.simps)
    moreover have "\<not> has_stuck (snd (next_tok s))"
      using less.prems has_stuck_suffix [OF next_tok_suffix] by blast
    ultimately obtain ts' where "tok_loop (snd (next_tok s)) (push (fst (next_tok s)) ts) = Some ts'"
      using less.hyps by blast
    then show ?thesis using Cons by (subst tok_loop.simps) (simp del: next_tok.simps)
  qed (simp add: tok_loop.simps)
qed

section \<open>Quoting is undone\<close>

text \<open>Characters that stand for themselves in a word.\<close>

definition plain_char :: "char \<Rightarrow> bool" where
  "plain_char c \<longleftrightarrow> \<not> blank c \<and> c \<notin> {CHR ''|'', CHR ''&'', CHR '';'', CHR ''>'', CHR ''<'', squote, dquote, bslash}"

fun render_arg :: "string \<times> bool \<Rightarrow> string" where
  "render_arg (w, q) = (if q then squote # w @ [squote] else w)"

fun good_arg :: "string \<times> bool \<Rightarrow> bool" where
  "good_arg (w, q) = (if q then squote \<notin> set w else w \<noteq> [] \<and> list_all plain_char w)"

definition render_args :: "(string \<times> bool) list \<Rightarrow> string" where
  "render_args args = join_with (CHR '' '') (map render_arg args)"

lemma no_fd_redirect: "list_all plain_char w \<Longrightarrow> rest = [] \<or> blank (hd rest) \<Longrightarrow> \<not> starts_with (w @ rest) ''>&''"
  by (cases w; cases rest) (auto simp: plain_char_def starts_with_def blank_def)

lemma utf16_le: "utf16_length s \<le> 2 * length s"
proof (induction s)
  case (Cons c s)
  have "utf16_units c \<le> 2" by (simp add: utf16_units_def Let_def)
  with Cons show ?case by (simp add: utf16_length_def)
qed (simp add: utf16_length_def)

lemma utf16_short: "2 * length s \<le> MAX_INPUT_LENGTH \<Longrightarrow> utf16_length s \<le> MAX_INPUT_LENGTH"
  using utf16_le [of s] by linarith

lemma word_loop_plain:
  assumes "list_all plain_char w" "rest = [] \<or> blank (hd rest)"
  shows "word_loop (w @ rest) = (w, False, rest)"
  using assms(1)
proof (induction w)
  case Nil
  then show ?case using assms(2) by (subst word_loop.simps) (auto split: list.split)
next
  case (Cons c w)
  then have "list_all plain_char w" by simp
  note n = no_fd_redirect [OF this assms(2)]
  have c: "\<not> blank c" "\<not> isOperatorChar (c # w @ rest)" "c \<noteq> bslash" "c \<noteq> squote" "c \<noteq> dquote"
    using Cons.prems n by (auto simp: plain_char_def)
  have "word_loop (w @ rest) = (w, False, rest)" using Cons by simp
  then show ?case using c by (subst word_loop.simps) (simp del: isOperatorChar.simps)
qed

lemma next_tok_plain:
  assumes "w \<noteq> []" "list_all plain_char w" "rest = [] \<or> blank (hd rest)"
  shows "next_tok (w @ rest) = (Some (WORD w False), rest)"
proof -
  obtain c cs where w: "w = c # cs" using assms(1) by (cases w) auto
  have "\<not> blank c" "\<not> starts_with (cs @ rest) ''>&''" "c \<noteq> CHR ''|''" "c \<noteq> CHR ''&''" "c \<noteq> CHR '';''" "c \<noteq> CHR ''>''"
    "c \<noteq> CHR ''<''" "c \<noteq> squote" "c \<noteq> dquote" "c \<noteq> bslash"
    using assms(2) no_fd_redirect [of cs rest] assms(3) by (auto simp: w plain_char_def)
  moreover have "word_loop (c # cs @ rest) = (c # cs, False, rest)"
    using word_loop_plain [OF assms(2,3)] by (simp add: w)
  ultimately show ?thesis by (simp add: w)
qed

lemma next_tok_quoted:
  assumes "squote \<notin> set w"
  shows "next_tok (squote # w @ squote # rest) = (Some (WORD w True), rest)"
proof -
  have "takeWhile (\<lambda>c. c \<noteq> squote) (w @ squote # rest) = w"
    "dropWhile (\<lambda>c. c \<noteq> squote) (w @ squote # rest) = squote # rest"
    using assms by (induction w) auto
  then show ?thesis by (simp add: single_quoted_def blank_def is_digit_def)
qed

lemma next_tok_blank: "next_tok (CHR '' '' # s) = (None, s)"
  by (simp add: blank_def)

lemma next_tok_arg:
  assumes "good_arg a" "rest = [] \<or> blank (hd rest)"
  shows "next_tok (render_arg a @ rest) = (Some (WORD (fst a) (snd a)), rest)"
  using next_tok_plain [of "fst a" rest] next_tok_quoted [of "fst a" rest] assms
  by (cases a) (auto simp del: next_tok.simps)

lemma render_nonempty: "good_arg a \<Longrightarrow> render_arg a \<noteq> []"
  by (cases a) auto

lemma tok_loop_step:
  "next_tok s = (t, rest) \<Longrightarrow> s \<noteq> [] \<Longrightarrow> tok_loop s ts = tok_loop rest (push t ts)"
  by (subst tok_loop.simps) (simp del: next_tok.simps)

lemma tok_loop_args:
  "list_all good_arg args \<Longrightarrow> tok_loop (render_args args) ts = Some (ts @ map (\<lambda>(w, q). WORD w q) args)"
proof (induction args arbitrary: ts rule: induct_list012)
  case 1
  then show ?case by (simp add: render_args_def tok_loop.simps)
next
  case (2 a)
  have "tok_loop (render_arg a @ []) ts = tok_loop [] (push (Some (WORD (fst a) (snd a))) ts)"
    by (rule tok_loop_step [OF next_tok_arg]) (use 2 render_nonempty [of a] in auto)
  then show ?case by (simp add: render_args_def tok_loop.simps split_beta)
next
  case (3 a b args)
  let ?rest = "CHR '' '' # render_args (b # args)"
  have "tok_loop (render_arg a @ ?rest) ts = tok_loop ?rest (push (Some (WORD (fst a) (snd a))) ts)"
    by (rule tok_loop_step [OF next_tok_arg]) (use 3 render_nonempty [of a] in \<open>auto simp: blank_def\<close>)
  also have "\<dots> = tok_loop (render_args (b # args)) (ts @ [WORD (fst a) (snd a)])"
    using tok_loop_step [OF next_tok_blank] by simp
  also have "\<dots> = Some (ts @ map (\<lambda>(w, q). WORD w q) (a # b # args))"
    using 3(2) [of "ts @ [WORD (fst a) (snd a)]"] 3(3) by (simp add: split_beta)
  finally show ?case by (simp add: render_args_def)
qed

lemma tok_loop_prefix:
  "list_all good_arg args \<Longrightarrow> args \<noteq> [] \<Longrightarrow>
     tok_loop (render_args args @ CHR '' '' # rest) ts = tok_loop rest (ts @ map (\<lambda>(w, q). WORD w q) args)"
proof (induction args arbitrary: ts rule: induct_list012)
  case (2 a)
  have "tok_loop (render_arg a @ CHR '' '' # rest) ts = tok_loop (CHR '' '' # rest) (push (Some (WORD (fst a) (snd a))) ts)"
    by (rule tok_loop_step [OF next_tok_arg]) (use 2 render_nonempty [of a] in \<open>auto simp: blank_def\<close>)
  then show ?case using tok_loop_step [OF next_tok_blank, of rest] by (simp add: render_args_def split_beta)
next
  case (3 a b args)
  let ?rest = "CHR '' '' # render_args (b # args) @ CHR '' '' # rest"
  have "tok_loop (render_arg a @ ?rest) ts = tok_loop ?rest (push (Some (WORD (fst a) (snd a))) ts)"
    by (rule tok_loop_step [OF next_tok_arg]) (use 3 render_nonempty [of a] in \<open>auto simp: blank_def\<close>)
  also have "\<dots> = tok_loop (render_args (b # args) @ CHR '' '' # rest) (ts @ [WORD (fst a) (snd a)])"
    using tok_loop_step [OF next_tok_blank] by simp
  also have "\<dots> = tok_loop rest (ts @ map (\<lambda>(w, q). WORD w q) (a # b # args))"
    using 3(2) [of "ts @ [WORD (fst a) (snd a)]"] 3(3) by (cases a; cases b) simp
  finally show ?case by (simp add: render_args_def)
qed simp

text \<open>Operators followed by a space.\<close>

fun render_op :: "token \<Rightarrow> string" where
  "render_op (WORD w q) = w"
| "render_op t = tok_value t"

lemma tok_loop_op:
  assumes "t \<in> {PIPE, OR, AND, SEMI, REDIRECT, APPEND, INPUT}"
  shows "tok_loop (render_op t @ CHR '' '' # rest) ts = tok_loop rest (ts @ [t])"
proof -
  have "next_tok (render_op t @ CHR '' '' # rest) = (Some t, CHR '' '' # rest)"
    using assms by (auto simp: blank_def)
  then have "tok_loop (render_op t @ CHR '' '' # rest) ts = tok_loop (CHR '' '' # rest) (ts @ [t])"
    using tok_loop_step [of "render_op t @ CHR '' '' # rest"] by (simp del: next_tok.simps)
  then show ?thesis using tok_loop_step [OF next_tok_blank] by simp
qed

section \<open>No token is lost\<close>

text \<open>The tokens of a list of parts with the separators between (or also after) them.\<close>

fun interleave :: "token list list \<Rightarrow> token list \<Rightarrow> token list" where
  "interleave (p # ps) (s # ss) = p @ s # interleave ps ss"
| "interleave ps [] = concat ps"
| "interleave [] ss = ss"

lemma interleave_append:
  "length ps = length ss \<Longrightarrow> interleave (ps @ qs) (ss @ ts) = interleave ps ss @ interleave qs ts"
  by (induction ps ss rule: list_induct2) auto

lemma split_fold:
  "foldl split_step (ps, ss, cur) toks = (ps', ss', cur') \<Longrightarrow> length ps = length ss \<Longrightarrow>
     list_all (\<lambda>p. set p \<inter> {SEMI, AND, OR} = {}) ps \<Longrightarrow> set cur \<inter> {SEMI, AND, OR} = {} \<Longrightarrow>
     length ps' = length ss' \<and> interleave ps' ss' @ cur' = interleave ps ss @ cur @ toks \<and>
     list_all (\<lambda>p. set p \<inter> {SEMI, AND, OR} = {}) ps' \<and> set cur' \<inter> {SEMI, AND, OR} = {} \<and>
     (set ss \<subseteq> {SEMI, AND, OR} \<longrightarrow> set ss' \<subseteq> {SEMI, AND, OR})"
proof (induction toks arbitrary: ps ss cur)
  case (Cons t toks)
  show ?case
  proof (cases "t \<in> {SEMI, AND, OR}")
    case True
    then have "foldl split_step (ps @ [cur], ss @ [t], []) toks = (ps', ss', cur')"
      using Cons.prems(1) by auto
    from Cons.IH [OF this] Cons.prems(2-4) True interleave_append [OF Cons.prems(2), of "[cur]" "[t]"]
    show ?thesis by auto
  next
    case False
    then have "foldl split_step (ps, ss, cur @ [t]) toks = (ps', ss', cur')"
      using Cons.prems(1) by auto
    from Cons.IH [OF this] Cons.prems(2-4) False show ?thesis by auto
  qed
qed auto

lemma parse_rest_words:
  "parse_rest (map (\<lambda>(w, q). WORD w q) args) c = c\<lparr>sc_args := sc_args c @ args\<rparr>"
  by (induction args arbitrary: c) auto

lemma pipe_fold_words:
  "foldl pipe_step (cmds, cur) (map (\<lambda>(w, q). WORD w q) args) = (cmds, cur @ map (\<lambda>(w, q). WORD w q) args)"
  by (induction args arbitrary: cur) auto

lemma index_of_notin: "c \<notin> set w \<Longrightarrow> index_of c w = None"
  by (simp add: index_of_None)

section \<open>The properties\<close>

text \<open>A word that is an assignment \<open>name=value\<close>.\<close>

definition assignment :: "string \<Rightarrow> bool" where
  "assignment w \<longleftrightarrow> CHR ''='' \<in> set w \<and> is_name (takeWhile (\<lambda>c. c \<noteq> CHR ''='') w)"

fun assign :: "string \<times> string \<times> bool \<Rightarrow> string \<times> bool" where
  "assign (n, v, q) = (n @ CHR ''='' # v, q)"

lemma index_of_takeWhile: "c \<in> set w \<Longrightarrow> \<exists>n. index_of c w = Some n \<and> take n w = takeWhile (\<lambda>x. x \<noteq> c) w"
  by (induction w) auto

lemma name_no_eq: "is_name n \<Longrightarrow> CHR ''='' \<notin> set n \<and> \<not> starts_with (n @ s) ''-''"
proof -
  assume n: "is_name n"
  have c: "\<not> name_char (CHR ''='')" "\<not> name_char (CHR ''-'')"
    by (simp_all add: name_char_def name_start_def is_digit_def)
  have all: "\<forall>c\<in>set n. name_char c" "n \<noteq> []"
    using n by (cases n; auto simp: is_name_def list_all_iff name_char_def)+
  then have "CHR ''='' \<notin> set n" "CHR ''-'' \<notin> set n" using c by blast+
  then show ?thesis using all(2) by (cases n) (auto simp: starts_with_def)
qed

lemma update_new: "n \<notin> fst ` set vars \<Longrightarrow> AList.update n v vars = vars @ [(n, v)]"
  by (induction vars) auto

lemma parse_env_assign:
  assumes "is_name n" "n \<notin> fst ` set vars"
  shows "parse_env (WORD (n @ CHR ''='' # v) q # toks) vars = parse_env toks (vars @ [(n, v)])"
proof -
  have i: "index_of (CHR ''='') (n @ CHR ''='' # v) = Some (length n)"
    by (rule index_of_append_sep) (use name_no_eq [OF assms(1)] in blast)
  show ?thesis
    using name_no_eq [OF assms(1), of "CHR ''='' # v"] assms
    by (simp only: parse_env.simps i option.case) (simp add: update_new)
qed

lemma parse_env_assigns:
  "list_all (\<lambda>(n, v, q). is_name n) env \<Longrightarrow> distinct (map fst vars @ map fst env) \<Longrightarrow>
   parse_env (map (\<lambda>(w, q). WORD w q) (map assign env) @ toks) vars
     = parse_env toks (vars @ map (\<lambda>(n, v, q). (n, v)) env)"
proof (induction env arbitrary: vars)
  case (Cons e env)
  obtain n v q where e: "e = (n, v, q)" by (cases e)
  have "n \<notin> fst ` set vars" using Cons.prems(2) by (auto simp: e)
  with Cons.prems(1) have "parse_env (map (\<lambda>(w, q). WORD w q) (map assign (e # env)) @ toks) vars =
      parse_env (map (\<lambda>(w, q). WORD w q) (map assign env) @ toks) (vars @ [(n, v)])"
    using parse_env_assign [of n vars v q] by (simp add: e del: parse_env.simps)
  also have "\<dots> = parse_env toks ((vars @ [(n, v)]) @ map (\<lambda>(n, v, q). (n, v)) env)"
    by (rule Cons.IH) (use Cons.prems in \<open>auto simp: e\<close>)
  finally show ?case by (simp add: e)
qed simp

lemma parse_env_stop: "\<not> assignment w \<Longrightarrow> parse_env (WORD w q # toks) vars = (vars, WORD w q # toks)"
  using index_of_takeWhile [of "CHR ''=''" w]
  index_of_None [of "CHR ''=''" w]
  by (cases "CHR ''='' \<in> set w") (auto simp: assignment_def)

text \<open>
  C18. Quoting round trip: a command line made of assignments \<open>name=value\<close> of distinct names, a first
  word that is not itself an assignment, and further words, each written plainly (no blank, quote,
  backslash or operator character) or in single quotes (any other text), separated by spaces and
  within the length limit, is tokenized to exactly those words with their quoting, and parsed to one
  command with the assignments as its environment, the first word as its name and the others as its
  arguments. (Quoting does not make an assignment a word: see \<open>quoted_assignment\<close>.)
\<close>

theorem shell_words_roundtrip:
  assumes "ws = map assign env @ (w, q) # args" "list_all good_arg ws"
    "list_all (\<lambda>(n, v, q). is_name n) env" "distinct (map fst env)" "\<not> assignment w"
    "utf16_length (render_args ws) \<le> MAX_INPUT_LENGTH"
  shows "tokenize (render_args ws) = Some (Inr (map (\<lambda>(w, q). WORD w q) ws)) \<and>
    parsePipeline (map (\<lambda>(w, q). WORD w q) ws) =
      [\<lparr>sc_cmd = w, sc_args = args, sc_env = map (\<lambda>(n, v, q). (n, v)) env, sc_out = None, sc_append = False,
        sc_in = None, sc_merge = False\<rparr>]"
proof -
  have "parse_env (map (\<lambda>(w, q). WORD w q) ws) []
      = (map (\<lambda>(n, v, q). (n, v)) env, map (\<lambda>(w, q). WORD w q) ((w, q) # args))"
    using parse_env_assigns [OF assms(3), of "[]" "map (\<lambda>(w, q). WORD w q) ((w, q) # args)"] assms(4)
      parse_env_stop [OF assms(5)] by (simp add: assms(1))
  moreover have "foldl pipe_step ([], []) (map (\<lambda>(w, q). WORD w q) ws) = ([], map (\<lambda>(w, q). WORD w q) ws)"
    using pipe_fold_words [of "[]" "[]" ws] by simp
  moreover have "ws \<noteq> []" by (simp add: assms(1))
  moreover have "parse_rest (map (\<lambda>(w, q). WORD w q) ((w, q) # args)) c = c\<lparr>sc_args := sc_args c @ (w, q) # args\<rparr>" for c
    by (rule parse_rest_words)
  ultimately show ?thesis
    using tok_loop_args [OF assms(2), of "[]"] assms(6)
    by (simp add: tokenize_def parsePipeline_def parseSimpleCommand_def Let_def
        del: list.map parse_env.simps parse_rest.simps)
qed

theorem shell_words_roundtrip_witness:
  "tokenize (''A=1 echo '' @ squote # ''a | b'' @ [squote])
     = Some (Inr [WORD ''A=1'' False, WORD ''echo'' False, WORD ''a | b'' True])"
proof -
  let ?ws = "[(''A=1'', False), (''echo'', False), (''a | b'', True)]"
  have "list_all good_arg ?ws" by (simp add: plain_char_def blank_def)
  moreover have "\<not> assignment ''echo''" by (simp add: assignment_def)
  moreover have "is_name ''A''" by (simp add: is_name_def name_start_def)
  moreover have "utf16_length (render_args ?ws) \<le> MAX_INPUT_LENGTH"
    by (rule utf16_short) (simp add: render_args_def MAX_INPUT_LENGTH_def)
  ultimately show ?thesis
    using shell_words_roundtrip [of ?ws "[(''A'', ''1'', False)]" "''echo''" False "[(''a | b'', True)]"]
    by (simp add: render_args_def)
qed

text \<open>A quoted first word with an equals sign is taken for an assignment, where a shell runs it.\<close>

theorem quoted_assignment:
  "map (\<lambda>c. (sc_cmd c, sc_env c)) (parsePipeline [WORD ''A=b'' True]) = [([], [(''A'', ''b'')])]"
  by (simp add: parsePipeline_def parseSimpleCommand_def is_name_def name_start_def Let_def starts_with_def)

text \<open>
  C19. The tokenizer returns on every input of admissible length in which no digit followed by
  \<open>>&\<close> lacks a digit after it.
\<close>

theorem tokenize_terminates:
  assumes "\<not> has_stuck s" "utf16_length s \<le> MAX_INPUT_LENGTH"
  shows "\<exists>ts. tokenize s = Some (Inr ts)"
  using tok_loop_total [OF assms(1), of "[]"] assms(2) by (auto simp: tokenize_def)

theorem tokenize_terminates_witness: "\<exists>ts. tokenize ''ls 2>&1 | wc'' = Some (Inr ts)"
proof (rule tokenize_terminates)
  show "utf16_length ''ls 2>&1 | wc'' \<le> MAX_INPUT_LENGTH" by (rule utf16_short) (simp add: MAX_INPUT_LENGTH_def)
qed (simp add: is_digit_def)

text \<open>
  On the common redirection \<open>2>&-\<close> (and any digit, \<open>>&\<close> and something that is no digit)
  after a command word the tokenizer never returns: it neither consumes the digit nor stops.
\<close>

theorem tokenize_hangs:
  assumes "list_all plain_char w" "stuck s" "utf16_length (w @ CHR '' '' # s) \<le> MAX_INPUT_LENGTH"
  shows "tokenize (w @ CHR '' '' # s) = None"
proof -
  have "tok_loop (CHR '' '' # s) ts = None" for ts
    using tok_loop_step [OF next_tok_blank] tok_loop_stuck [OF assms(2)] by simp
  moreover have "tok_loop (w @ CHR '' '' # s) [] = tok_loop (CHR '' '' # s) [WORD w False]" if "w \<noteq> []"
    using tok_loop_step [OF next_tok_plain [OF that assms(1), of "CHR '' '' # s"]] that
    by (simp add: blank_def)
  ultimately show ?thesis using assms(3) by (cases "w = []") (auto simp: tokenize_def)
qed

theorem tokenize_hangs_witness: "tokenize ''make 2>&-'' = None"
  using tokenize_hangs [of "''make''" "''2>&-''"] utf16_short [of "''make 2>&-''"]
  by (simp add: plain_char_def blank_def is_digit_def MAX_INPUT_LENGTH_def)

text \<open>
  Splitting at \<open>;\<close>, \<open>&&\<close> and \<open>||\<close> loses nothing: the pipelines with the separators between
  them are the tokens, and no pipeline contains a separator.
\<close>

theorem parseTokens_lossless:
  "interleave (fst (parseTokens toks)) (snd (parseTokens toks)) = toks \<and>
   set (snd (parseTokens toks)) \<subseteq> {SEMI, AND, OR} \<and>
   list_all (\<lambda>p. set p \<inter> {SEMI, AND, OR} = {}) (fst (parseTokens toks)) \<and>
   length (fst (parseTokens toks)) - length (snd (parseTokens toks)) \<le> 1"
proof -
  obtain ps ss cur where f: "foldl split_step ([], [], []) toks = (ps, ss, cur)"
    by (cases "foldl split_step ([], [], []) toks") auto
  note s = split_fold [OF f]
  have "interleave (ps @ [cur]) ss = interleave ps ss @ cur"
    using interleave_append [of ps ss "[cur]" "[]"] s by simp
  then show ?thesis using s by (cases "cur = []") (auto simp: parseTokens_def f)
qed

text \<open>
  A word that begins with a quote ends at the closing quote: what follows it is a word of its
  own, so \<open>'a'b\<close> is two arguments where a shell has one.
\<close>

theorem leading_quote_splits_word:
  "tokenize (squote # ''a'' @ squote # ''b'') = Some (Inr [WORD ''a'' True, WORD ''b'' False])"
proof -
  have "tok_loop (squote # ''a'' @ squote # ''b'') [] = tok_loop ''b'' [WORD ''a'' True]"
    using tok_loop_step [OF next_tok_quoted [of "''a''" "''b''"], of "[]"] by (simp del: next_tok.simps)
  also have "\<dots> = tok_loop [] [WORD ''a'' True, WORD ''b'' False]"
    using tok_loop_step [OF next_tok_plain [of "''b''" "[]"], of "[WORD ''a'' True]"]
    by (simp add: plain_char_def blank_def is_digit_def del: next_tok.simps)
  finally show ?thesis
    using utf16_short [of "squote # ''a'' @ squote # ''b''"] by (simp add: tokenize_def MAX_INPUT_LENGTH_def tok_loop.simps)
qed

end
