(* ===== verification/Shell_Commands.thy ===== *)
theory Shell_Commands
  imports Shell_Base
begin

text \<open>
  The commands of \<open>napi-bridge/shell-commands.js\<close>: text filters, commands on the file system,
  \<open>xargs\<close> and the dispatch table. The commands built on the engine's regular expressions, sorting
  or dates (\<open>grep\<close>, \<open>rg\<close>, \<open>sed\<close>, \<open>awk\<close>, \<open>find\<close>, \<open>sort\<close>, \<open>printf\<close>, \<open>date\<close>) and those that
  leave the shell (\<open>npm\<close>, \<open>node\<close>) are a parameter of the table.
\<close>

section \<open>Text\<close>

definition cat :: command where
  "cat args o' =
     (let paths = operands args in
      if paths = [] then ret (ok (stdin_or_empty o'))
      else
        bnd (for_each (\<lambda>(out, errs) p.
               bnd (get (norm p)) (\<lambda>path.
                 try_catch (bnd (readFileText path) (\<lambda>t. ret (out @ [t], errs)))
                   (\<lambda>e. ret (out, errs @ [''cat: '' @ p @ '': No such file or directory'']))))
             paths ([], []))
          (\<lambda>(out, errs). ret \<lparr>r_stdout = concat out,
             r_stderr = (if errs = [] then [] else join_lines errs @ [newline]),
             r_exit = (if errs = [] then 0 else 1)\<rparr>))"

text \<open>The loop over the arguments of \<open>head\<close> and \<open>tail\<close>: the count and the operands.\<close>

fun count_args :: "string list \<Rightarrow> int option \<Rightarrow> string list \<Rightarrow> int option \<times> string list" where
  "count_args [] n paths = (n, paths)"
| "count_args [a] n paths =
     (if a = ''-n'' \<or> starts_with a ''-'' then (n, paths) else (n, paths @ [a]))"
| "count_args (a # b # args) n paths =
     (if a = ''-n'' then count_args args (parseInt b) paths
      else if starts_with a ''-'' then count_args (b # args) n paths
      else count_args (b # args) n (paths @ [a]))"

definition head_lines :: "int option \<Rightarrow> string \<Rightarrow> cmd_result" where
  "head_lines n text =
     (let ls = lines_of text;
          more = (case n of Some i \<Rightarrow> i < int (length ls) | None \<Rightarrow> False)
      in ok (join_lines (slice_to n ls) @ (if more then [newline] else [])))"

definition head :: command where
  "head args o' =
     (let (n, paths) = count_args args (Some 10) []
      in input_text ''head'' paths o' (ok []) (head_lines n))"

definition tail_lines :: "int option \<Rightarrow> string \<Rightarrow> cmd_result" where
  "tail_lines n text =
     (let ls = lines_of text;
          ls' = (if last ls = [] then butlast ls else ls)
      in ok (join_lines (slice_from (map_option uminus n) ls') @ [newline]))"

definition tail :: command where
  "tail args o' =
     (let (n, paths) = count_args args (Some 10) []
      in input_text ''tail'' paths o' (ok []) (tail_lines n))"

definition echo :: command where
  "echo args o' =
     (let noNewline = (args \<noteq> [] \<and> hd args = ''-n'');
          words = (if args \<noteq> [] \<and> (hd args = ''-n'' \<or> hd args = ''-e'') then tl args else args)
      in ret (ok (join_with (CHR '' '') words @ (if noNewline then [] else [newline]))))"

definition wc_counts :: "bool \<Rightarrow> bool \<Rightarrow> bool \<Rightarrow> string \<Rightarrow> cmd_result" where
  "wc_counts l w c text =
     (let parts = (if l then [length (filter (\<lambda>x. x = newline) text)] else []) @
                  (if w then [length (words_of [] text)] else []) @
                  (if c then [length (bytes_of text)] else [])
      in ok (join_with (CHR '' '') (map nat_digits parts) @ [newline]))"

definition wc :: command where
  "wc args o' =
     (let l = has_flag (CHR ''l'') args; w = has_flag (CHR ''w'') args; c = has_flag (CHR ''c'') args;
          every = (\<not> l \<and> \<not> w \<and> \<not> c)
      in input_text ''wc'' (operands args) o' (ok (''0'' @ [newline]))
           (wc_counts (l \<or> every) (w \<or> every) (c \<or> every)))"

text \<open>The loop of \<open>uniq\<close> keeps a line that differs from the one before it.\<close>

fun uniq_from :: "string \<Rightarrow> string list \<Rightarrow> string list" where
  "uniq_from prev [] = []"
| "uniq_from prev (l # ls) = (if l \<noteq> prev then l # uniq_from l ls else uniq_from l ls)"

definition uniq_lines :: "string \<Rightarrow> cmd_result" where
  "uniq_lines text =
     (case lines_of text of [] \<Rightarrow> ok [] | l # ls \<Rightarrow> ok (join_lines (l # uniq_from l ls)))"

definition uniq :: command where
  "uniq args o' = input_text ''uniq'' (operands args) o' (ok []) uniq_lines"

fun expandTrSet :: "string \<Rightarrow> string" where
  "expandTrSet [] = []"
| "expandTrSet [c] = [c]"
| "expandTrSet (c # d # cs) =
     (if c = CHR 0x5C then
        (if d = CHR ''n'' then newline # expandTrSet cs
         else if d = CHR ''t'' then tab # expandTrSet cs
         else if d = CHR ''r'' then CHR 0x0D # expandTrSet cs
         else if d = CHR 0x5C then CHR 0x5C # expandTrSet cs
         else c # expandTrSet (d # cs))
      else if d = CHR ''-'' \<and> cs \<noteq> [] then
        map char_of [of_char c ..< Suc (of_char (hd cs) :: nat)] @ expandTrSet (tl cs)
      else c # expandTrSet (d # cs))"

text \<open>The map built from the two sets: the last entry for a character wins.\<close>

fun tr_map :: "string \<Rightarrow> string \<Rightarrow> nat \<Rightarrow> (char \<times> string) list \<Rightarrow> (char \<times> string) list" where
  "tr_map [] to i m = m"
| "tr_map (c # from) to i m =
     tr_map from to (Suc i)
       (AList.update c (if i < length to then [to ! i] else if to = [] then [] else [last to]) m)"

definition translate :: "string \<Rightarrow> string \<Rightarrow> string \<Rightarrow> string" where
  "translate from to text =
     (let m = tr_map from to 0 []
      in concat (map (\<lambda>ch. case map_of m ch of Some r \<Rightarrow> r | None \<Rightarrow> [ch]) text))"

definition tr :: command where
  "tr args o' =
     (case args of
        a # b # _ \<Rightarrow> ret (ok (translate (expandTrSet a) (expandTrSet b) (stdin_or_empty o')))
      | _ \<Rightarrow> ret (fail ''tr: missing operand'' 1))"

definition basename :: command where
  "basename args o' =
     (case args of
        [] \<Rightarrow> ret (ok [newline])
      | p # _ \<Rightarrow>
          let parts = path_parts p
          in ret (ok ((if parts = [] then ''/'' else last parts) @ [newline])))"

definition dirname :: command where
  "dirname args o' =
     (case args of
        [] \<Rightarrow> ret (ok (''.'' @ [newline]))
      | p # _ \<Rightarrow>
          (case last_index_of slash p of
             None \<Rightarrow> ret (ok (''.'' @ [newline]))
           | Some 0 \<Rightarrow> ret (ok (''/'' @ [newline]))
           | Some i \<Rightarrow> ret (ok (take i p @ [newline]))))"

definition env_cmd :: command where
  "env_cmd args o' = ret (ok (join_lines (map (\<lambda>(k, v). k @ ''='' @ v) (o_env o')) @ [newline]))"

definition trueCmd :: command where "trueCmd args o' = ret (status True)"
definition falseCmd :: command where "falseCmd args o' = ret (status False)"

definition exitCmd :: command where
  "exitCmd args o' =
     ret \<lparr>r_stdout = [], r_stderr = [],
          r_exit = (if args = [] then 0 else case parseInt (hd args) of Some n \<Rightarrow> n | None \<Rightarrow> 1)\<rparr>"

definition whoami :: command where "whoami args o' = ret (ok (''user'' @ [newline]))"

definition uname :: command where
  "uname args o' =
     ret (ok ((if ''-a'' \<in> set args then ''Linux browser 6.0.0-edgejs wasm32 GNU/Linux''
               else if ''-m'' \<in> set args then ''wasm32''
               else if ''-r'' \<in> set args then ''6.0.0-edgejs''
               else ''Linux'') @ [newline]))"

text \<open>The loops of \<open>seq\<close>: every step moves towards the end, so as many turns as the distance do.\<close>

fun count_up :: "nat \<Rightarrow> int \<Rightarrow> int \<Rightarrow> int \<Rightarrow> int list" where
  "count_up 0 i step end' = []"
| "count_up (Suc n) i step end' = (if i \<le> end' then i # count_up n (i + step) step end' else [])"

fun count_down :: "nat \<Rightarrow> int \<Rightarrow> int \<Rightarrow> int \<Rightarrow> int list" where
  "count_down 0 i step end' = []"
| "count_down (Suc n) i step end' = (if end' \<le> i then i # count_down n (i + step) step end' else [])"

definition seq_values :: "int option \<Rightarrow> int option \<Rightarrow> int option \<Rightarrow> int list" where
  "seq_values start step end' =
     (case (start, step, end') of
        (Some i, Some d, Some e) \<Rightarrow>
          if 0 < d then count_up (nat (e - i + 1)) i d e
          else if d < 0 then count_down (nat (i - e + 1)) i d e
          else []
      | _ \<Rightarrow> [])"

definition seq :: command where
  "seq args o' =
     (let vs = (case args of
                  [] \<Rightarrow> seq_values (Some 1) (Some 1) (Some 1)
                | [e] \<Rightarrow> seq_values (Some 1) (Some 1) (parseInt e)
                | [i, e] \<Rightarrow> seq_values (parseInt i) (Some 1) (parseInt e)
                | i # d # e # _ \<Rightarrow> seq_values (parseInt i) (parseInt d) (parseInt e))
      in ret (ok (join_lines (map show_int vs) @ [newline])))"

definition yes :: command where
  "yes args o' =
     (let str = (if args = [] then ''y'' else join_with (CHR '' '') args)
      in ret (ok (join_lines (replicate 100 str) @ [newline])))"

section \<open>Files and directories\<close>

record ls_flags =
  f_all :: bool
  f_long :: bool
  f_recursive :: bool

text \<open>\<open>lsDir(resolved, label)\<close> with the output so far; the fuel is the depth of the tree.\<close>

primrec ls_dir :: "nat \<Rightarrow> ls_flags \<Rightarrow> string \<Rightarrow> string \<Rightarrow> string list \<Rightarrow> (bool \<times> string list) act" where
  "ls_dir 0 fl resolved label out = raise RangeExn"
| "ls_dir (Suc n) fl resolved label out =
     bnd (fileExists resolved) (\<lambda>ex.
       if \<not> ex then ret (False, out @ [''ls: cannot access '' @ quote # label @ quote # '': No such file or directory''])
       else bnd (isFile resolved) (\<lambda>file.
         if file then ret (True, out @ [last (split_on slash resolved)])
         else bnd (read_names resolved) (\<lambda>entries.
           let shown = (if f_all fl then entries else filter (\<lambda>e. \<not> starts_with e ''.'') entries);
               out1 = (if f_recursive fl \<and> out \<noteq> [] then out @ [[]] else out);
               out2 = (if f_recursive fl then out1 @ [resolved @ '':''] else out1)
           in bnd (if f_long fl then
                     for_each (\<lambda>o' name.
                       try_catch (bnd (on_fs (stat (join_path resolved name))) (\<lambda>st.
                           ret (o' @ [(if stats_isDirectory st then ''d'' else ''-'') @
                             ''rwxr-xr-x 1 user user '' @ nat_digits (st_size st) @
                             '' Jan  1 00:00 '' @ name])))
                         (\<lambda>e. ret (o' @ [name]))) shown out2
                   else ret (out2 @ [join_lines shown]))
                (\<lambda>out3.
                  if f_recursive fl then
                    bnd (for_each (\<lambda>o' name.
                          bnd (isDir (join_path resolved name)) (\<lambda>d.
                            if d then bnd (ls_dir n fl (join_path resolved name) (join_path resolved name) o')
                                        (\<lambda>r. ret (snd r))
                            else ret o')) shown out3)
                      (\<lambda>out4. ret (True, out4))
                  else ret (True, out3)))))"

definition ls :: command where
  "ls args o' =
     (let opts = filter (\<lambda>a. starts_with a ''-'' \<and> \<not> starts_with a ''--'') args;
          paths = filter (\<lambda>a. \<not> (starts_with a ''-'' \<and> \<not> starts_with a ''--'')) args;
          fl = \<lparr>f_all = has_flag (CHR ''a'') opts, f_long = has_flag (CHR ''l'') opts,
                f_recursive = has_flag (CHR ''R'') opts\<rparr>
      in bnd (get (\<lambda>s. fs_inoCounter (sh_fs s))) (\<lambda>depth.
           bnd (for_each (\<lambda>(out, bad) p.
                  case bad of
                    Some q \<Rightarrow> ret (out, bad)
                  | None \<Rightarrow> bnd (get (norm p)) (\<lambda>path.
                      bnd (ls_dir (Suc depth) fl path p out) (\<lambda>(found, out').
                        ret (out', if found then None else Some p))))
                (if paths = [] then [''.''] else paths) ([], None))
             (\<lambda>(out, bad). ret (case bad of
                Some p \<Rightarrow> fail (''ls: cannot access '' @ quote # p @ quote # '': No such file or directory'') 1
              | None \<Rightarrow> ok (join_lines out @ [newline])))))"

definition pwd :: command where
  "pwd args o' = bnd (get work_dir) (\<lambda>d. ret (ok (d @ [newline])))"

text \<open>The first operand that fails ends a command; the error says why.\<close>

definition until_error :: "(string \<Rightarrow> cmd_result option act) \<Rightarrow> string list \<Rightarrow> cmd_result act" where
  "until_error f paths =
     bnd (for_each (\<lambda>bad p. case bad of Some r \<Rightarrow> ret bad | None \<Rightarrow> f p) paths None)
       (\<lambda>bad. ret (case bad of Some r \<Rightarrow> r | None \<Rightarrow> ok []))"

definition reported :: "string \<Rightarrow> 'a act \<Rightarrow> cmd_result option act" where
  "reported cmd m =
     try_catch (bnd m (\<lambda>x. ret None))
       (\<lambda>e. bnd (get (message_of e)) (\<lambda>t. ret (Some (fail (cmd @ '': '' @ t) 1))))"

definition mkdir_cmd :: command where
  "mkdir_cmd args o' =
     until_error (\<lambda>p. bnd (get (norm p)) (\<lambda>path.
         reported ''mkdir'' (on_fs (mkdir path (''-p'' \<in> set args)))))
       (filter (\<lambda>a. a \<noteq> ''-p'') args)"

primrec rmRecursive :: "nat \<Rightarrow> string \<Rightarrow> unit act" where
  "rmRecursive 0 dir = raise RangeExn"
| "rmRecursive (Suc n) dir =
     bnd (read_names dir) (\<lambda>entries.
       bnd (for_each (\<lambda>u name.
              bnd (isDir (join_path dir name)) (\<lambda>d.
                if d then rmRecursive n (join_path dir name)
                else on_fs (unlink (join_path dir name)))) entries ())
         (\<lambda>u. try_catch (on_fs (rmdir dir)) (\<lambda>e. ret ())))"

definition rm :: command where
  "rm args o' =
     (let force = has_flag (CHR ''f'') args;
          recursive = has_flag (CHR ''r'') args \<or> has_flag (CHR ''R'') args
      in until_error (\<lambda>p. bnd (get (norm p)) (\<lambda>path.
           try_catch
             (bnd (isDir path) (\<lambda>d.
               if d then
                 (if \<not> recursive
                  then ret (Some (fail (''rm: cannot remove '' @ quote # p @ quote # '': Is a directory'') 1))
                  else bnd (get (\<lambda>s. fs_inoCounter (sh_fs s))) (\<lambda>depth.
                         bnd (rmRecursive (Suc depth) path) (\<lambda>u. ret None)))
               else bnd (on_fs (unlink path)) (\<lambda>u. ret None)))
             (\<lambda>e. if force then ret None
                  else bnd (get (message_of e)) (\<lambda>t. ret (Some (fail (''rm: '' @ t) 1))))))
         (operands args))"

text \<open>
  \<open>cpRecursive\<close>: the fuel is the depth of calls the engine's stack allows; running out is its
  \<open>RangeError\<close>. The error for a directory without \<open>-r\<close> is an \<open>Error\<close> of its own, kept as its
  message.
\<close>

primrec cpRecursive :: "nat \<Rightarrow> string \<Rightarrow> string \<Rightarrow> bool \<Rightarrow> string option act" where
  "cpRecursive 0 src dest recursive = raise RangeExn"
| "cpRecursive (Suc n) src dest recursive =
     bnd (isDir src) (\<lambda>d.
       if d then
         (if \<not> recursive
          then ret (Some (''-r not specified; omitting directory '' @ quote # src @ [quote]))
          else bnd (on_fs (mkdir dest True)) (\<lambda>u.
                 bnd (read_names src) (\<lambda>entries.
                   for_each (\<lambda>r name. cpRecursive n (src @ ''/'' @ name) (dest @ ''/'' @ name) True)
                     entries None)))
       else bnd (on_fs (readFile src)) (\<lambda>data.
              bnd (on_fs (writeFile dest data)) (\<lambda>u. ret None)))"

definition cp :: "nat \<Rightarrow> command" where
  "cp stack args o' =
     (let isOpt = (\<lambda>a. starts_with a ''-'' \<and> CHR ''r'' \<in> set a);
          recursive = list_ex isOpt args
      in case filter (\<lambda>a. \<not> isOpt a) args of
           a # b # _ \<Rightarrow>
             bnd (get (norm a)) (\<lambda>src. bnd (get (norm b)) (\<lambda>dest. bnd (isDir dest) (\<lambda>d.
               let name = (if path_parts src = [] then ''undefined'' else last (path_parts src));
                   dest' = (if d then join_path dest name else dest)
               in try_catch
                    (bnd (cpRecursive stack src dest' recursive) (\<lambda>bad.
                      ret (case bad of Some t \<Rightarrow> fail (''cp: '' @ t) 1 | None \<Rightarrow> ok [])))
                    (\<lambda>e. bnd (get (message_of e)) (\<lambda>t. ret (fail (''cp: '' @ t) 1))))))
         | _ \<Rightarrow> ret (fail ''cp: missing operand'' 1))"

definition mv :: command where
  "mv args o' =
     (case operands args of
        a # b # _ \<Rightarrow>
          bnd (get (norm a)) (\<lambda>from. bnd (get (norm b)) (\<lambda>to.
            bnd (reported ''mv'' (on_fs (rename from to))) (\<lambda>bad.
              ret (case bad of Some r \<Rightarrow> r | None \<Rightarrow> ok []))))
      | _ \<Rightarrow> ret (fail ''mv: missing operand'' 1))"

definition touch :: command where
  "touch args o' =
     bnd (for_each (\<lambda>u p.
            bnd (get (norm p)) (\<lambda>path. bnd (fileExists path) (\<lambda>ex.
              if \<not> ex then on_fs (writeFile path [])
              else try_catch (bnd (on_fs (readFile path)) (\<lambda>data. on_fs (writeFile path data)))
                     (\<lambda>e. ret ()))))
          (operands args) ())
       (\<lambda>u. ret (ok []))"

text \<open>\<open>cd\<close> sets the directory of the process, without looking whether it exists.\<close>

definition cd :: command where
  "cd args o' =
     (let dir = (if args = [] \<or> hd args = [] then ''/'' else hd args)
      in bnd (get (norm dir)) (\<lambda>path s. (Inr (ok []), s\<lparr>sh_cwd := path\<rparr>)))"

definition testCmd :: command where
  "testCmd args o' =
     (if args = [] then ret (status False)
      else
        case (if last args = '']'' then butlast args else args) of
          [a, b] \<Rightarrow>
            if a = ''-f'' then bnd (get (norm b)) (\<lambda>p. bnd (isFile p) (\<lambda>r. ret (status r)))
            else if a = ''-d'' then bnd (get (norm b)) (\<lambda>p. bnd (isDir p) (\<lambda>r. ret (status r)))
            else if a = ''-e'' then bnd (get (norm b)) (\<lambda>p. bnd (fileExists p) (\<lambda>r. ret (status r)))
            else if a = ''-z'' then ret (status (b = []))
            else if a = ''-n'' then ret (status (b \<noteq> []))
            else ret (status False)
        | [a, b, c] \<Rightarrow> ret (status (b = ''='' \<and> a = c))
        | _ \<Rightarrow> ret (status False))"

definition tee :: command where
  "tee args o' =
     (let data = bytes_of (stdin_or_empty o')
      in bnd (for_each (\<lambda>u p.
            bnd (get (norm p)) (\<lambda>path.
              if ''-a'' \<in> set args
              then try_catch (bnd (on_fs (readFile path)) (\<lambda>old. on_fs (writeFile path (old @ data))))
                     (\<lambda>e. on_fs (writeFile path data))
              else on_fs (writeFile path data)))
          (operands args) ())
         (\<lambda>u. ret (ok (stdin_or_empty o'))))"

definition readlink :: command where
  "readlink args o' =
     (case operands args of
        [] \<Rightarrow> ret (fail ''readlink: missing operand'' 1)
      | p # _ \<Rightarrow> bnd (get (norm p)) (\<lambda>path. bnd (fileExists path) (\<lambda>ex.
          ret (if ex then ok (path @ [newline])
               else fail (''readlink: '' @ p @ '': No such file or directory'') 1))))"

definition realpathCmd :: command where
  "realpathCmd args o' =
     (if operands args = [] then ret (fail ''realpath: missing operand'' 1)
      else
        bnd (for_each (\<lambda>(out, bad) p.
               if bad \<noteq> None then ret (out, bad)
               else bnd (get (norm p)) (\<lambda>path. bnd (fileExists path) (\<lambda>ex.
                      bnd (if ex then ret True else isDir path) (\<lambda>there.
                        ret (if there then (out @ [path], None) else (out, Some p))))))
             (operands args) ([], None))
          (\<lambda>(out, bad). ret (case bad of
             Some p \<Rightarrow> fail (''realpath: '' @ p @ '': No such file or directory'') 1
           | None \<Rightarrow> ok (join_lines out @ [newline]))))"

definition stat_text :: "string \<Rightarrow> stats \<Rightarrow> string list" where
  "stat_text p st =
     [''  File: '' @ p,
      ''  Size: '' @ nat_digits (st_size st) @ [tab] @ ''Blocks: 0'' @ [tab] @ ''IO Block: 4096'' @ [tab] @
        (if stats_isDirectory st then ''directory'' else ''regular file''),
      ''Access: (0755/'' @ (if stats_isDirectory st then ''drwxr-xr-x'' else ''-rwxr-xr-x'') @ '')'' @ [tab] @
        ''Uid: (1000/user)'' @ [tab] @ ''Gid: (1000/user)'']"

definition statCmd :: command where
  "statCmd args o' =
     (if operands args = [] then ret (fail ''stat: missing operand'' 1)
      else
        bnd (for_each (\<lambda>(out, bad) p.
               if bad \<noteq> None then ret (out, bad)
               else bnd (get (norm p)) (\<lambda>path.
                      try_catch (bnd (on_fs (stat path)) (\<lambda>st. ret (out @ stat_text p st, None)))
                        (\<lambda>e. ret (out, Some p))))
             (operands args) ([], None))
          (\<lambda>(out, bad). ret (case bad of
             Some p \<Rightarrow> fail (''stat: cannot stat '' @ quote # p @ quote # '': No such file or directory'') 1
           | None \<Rightarrow> ok (join_lines out @ [newline]))))"

definition chmod :: command where "chmod args o' = ret (ok [])"

section \<open>Dispatch\<close>

definition which_cmd :: "(string \<Rightarrow> bool) \<Rightarrow> command" where
  "which_cmd known args o' =
     (case List.find (\<lambda>a. known a \<or> a \<in> {''rg'', ''git'', ''node''}) args of
        Some a \<Rightarrow> ret (ok (''/usr/bin/'' @ a @ [newline]))
      | None \<Rightarrow> ret (fail (''which: no '' @ (if args = [] then ''undefined'' else hd args) @ '' in PATH'') 1))"

definition xargs :: "(string \<Rightarrow> command option) \<Rightarrow> command" where
  "xargs table args o' =
     (let items = words_of [] (stdin_or_empty o') in
      case args of
        [] \<Rightarrow> ret (ok (join_with (CHR '' '') items @ [newline]))
      | cmd # rest \<Rightarrow>
          (case table cmd of
             Some f \<Rightarrow> f (rest @ items) o'
           | None \<Rightarrow> ret (fail (''xargs: '' @ cmd @ '': command not found'') 127)))"

definition builtins :: "nat \<Rightarrow> (string \<times> command) list" where
  "builtins stack =
     [(''ls'', ls), (''cat'', cat), (''head'', head), (''tail'', tail), (''echo'', echo), (''pwd'', pwd),
      (''mkdir'', mkdir_cmd), (''rm'', rm), (''cp'', cp stack), (''mv'', mv), (''touch'', touch),
      (''wc'', wc), (''uniq'', uniq), (''tr'', tr), (''basename'', basename), (''dirname'', dirname),
      (''env'', env_cmd), (''cd'', cd), (''true'', trueCmd), (''false'', falseCmd), (''exit'', exitCmd),
      (''test'', testCmd), (''['', testCmd), (''tee'', tee), (''whoami'', whoami), (''uname'', uname),
      (''seq'', seq), (''yes'', yes), (''readlink'', readlink), (''realpath'', realpathCmd),
      (''stat'', statCmd), (''chmod'', chmod), (''chown'', chmod)]"

text \<open>
  The names of the table, the parameter \<open>ext\<close> giving the commands that are not modelled. \<open>xargs\<close>
  calls back into the table; \<open>stack\<close> bounds the nesting, as the engine's stack does.
\<close>

primrec commands :: "(string \<Rightarrow> command option) \<Rightarrow> nat \<Rightarrow> string \<Rightarrow> command option" where
  "commands ext 0 name =
     (if name = ''xargs'' then Some (\<lambda>args o'. raise RangeExn)
      else case map_of (builtins 0) name of Some f \<Rightarrow> Some f | None \<Rightarrow> ext name)"
| "commands ext (Suc n) name =
     (if name = ''xargs'' then Some (xargs (commands ext n))
      else if name = ''which'' then Some (which_cmd (\<lambda>a. commands ext n a \<noteq> None))
      else case map_of (builtins n) name of Some f \<Rightarrow> Some f | None \<Rightarrow> ext name)"

end
