(* ===== verification/Shell_Exec.thy ===== *)
theory Shell_Exec
  imports Shell_Syntax_Props Shell_Commands
begin

text \<open>
  The executor of \<open>napi-bridge/shell-parser.js\<close>: variables, globs, redirections, pipelines and the
  chaining of pipelines. An execution may not return (the tokenizer may not), may throw, or gives
  the result of the last pipeline.
\<close>

datatype exec_error = Thrown js_exn | InputError shell_error

text \<open>\<^term>\<open>None\<close>: the call does not return.\<close>

type_synonym 'a exec = "shell \<Rightarrow> ((exec_error + 'a) \<times> shell) option"

definition x_ret :: "'a \<Rightarrow> 'a exec" where
  "x_ret x s = Some (Inr x, s)"

definition x_bnd :: "'a exec \<Rightarrow> ('a \<Rightarrow> 'b exec) \<Rightarrow> 'b exec" where
  "x_bnd m f s =
     (case m s of
        None \<Rightarrow> None
      | Some (Inl e, s1) \<Rightarrow> Some (Inl e, s1)
      | Some (Inr x, s1) \<Rightarrow> f x s1)"

definition x_act :: "'a act \<Rightarrow> 'a exec" where
  "x_act m s = (case m s of (Inl e, s1) \<Rightarrow> Some (Inl (Thrown e), s1) | (Inr x, s1) \<Rightarrow> Some (Inr x, s1))"

section \<open>Variables and globs\<close>

text \<open>\<open>str.replace(/\$([A-Za-z_][A-Za-z0-9_]*)/g, ...)\<close>; an unset or empty variable gives nothing.\<close>

function expandVars :: "string \<Rightarrow> (string \<times> string) list \<Rightarrow> string" where
  "expandVars [] env = []"
| "expandVars (c # cs) env =
     (if c = CHR ''$'' \<and> cs \<noteq> [] \<and> name_start (hd cs) then
        (case map_of env (takeWhile name_char cs) of Some v \<Rightarrow> v | None \<Rightarrow> []) @
        expandVars (dropWhile name_char cs) env
      else c # expandVars cs env)"
  by pat_completeness auto

termination
  by (relation "measure (\<lambda>(s, env). length s)") (auto simp: less_Suc_eq_le length_dropWhile_le)

text \<open>The regular expression built from a pattern: \<open>*\<close> is \<open>[^/]*\<close>, \<open>?\<close> is \<open>[^/]\<close>.\<close>

fun glob_match :: "string \<Rightarrow> string \<Rightarrow> bool" where
  "glob_match [] [] = True"
| "glob_match [] (c # cs) = False"
| "glob_match (p # ps) [] = (p = CHR ''*'' \<and> glob_match ps [])"
| "glob_match (p # ps) (c # cs) =
     (if p = CHR ''*'' then glob_match ps (c # cs) \<or> (c \<noteq> slash \<and> glob_match (p # ps) cs)
      else if p = CHR ''?'' then c \<noteq> slash \<and> glob_match ps cs
      else c = p \<and> glob_match ps cs)"

text \<open>Without a slash the directory is that of the process, not the override.\<close>

definition expandGlob :: "string \<Rightarrow> string list act" where
  "expandGlob pattern =
     (case last_index_of slash pattern of
        Some i \<Rightarrow>
          let dir = (if i = 0 then ''/'' else take i pattern) in
          try_catch (bnd (read_names dir) (\<lambda>entries.
              ret (map (\<lambda>n. dir @ ''/'' @ n) (filter (glob_match (drop (Suc i) pattern)) entries))))
            (\<lambda>e. ret [])
      | None \<Rightarrow>
          bnd (get sh_cwd) (\<lambda>dir.
            try_catch (bnd (read_names dir) (\<lambda>entries. ret (filter (glob_match pattern) entries)))
              (\<lambda>e. ret [])))"

definition expandGlobs :: "(string \<times> bool) list \<Rightarrow> string list act" where
  "expandGlobs args =
     for_each (\<lambda>result (val, quoted).
       if quoted \<or> \<not> (CHR ''*'' \<in> set val \<or> CHR ''?'' \<in> set val) then ret (result @ [val])
       else bnd (expandGlob val) (\<lambda>expanded.
              ret (result @ (if expanded = [] then [val] else expanded)))) args []"

section \<open>Redirections\<close>

text \<open>\<open>_resolvePath\<close>: relative to the directory of the process.\<close>

definition resolve_redirect :: "string \<Rightarrow> string act" where
  "resolve_redirect p = get (\<lambda>s. resolvePath p (sh_cwd s))"

definition writeRedirect :: "string \<Rightarrow> string \<Rightarrow> bool \<Rightarrow> unit act" where
  "writeRedirect p content appending =
     bnd (resolve_redirect p) (\<lambda>path.
       if appending then
         try_catch (bnd (readFileText path) (\<lambda>old. on_fs (writeFile path (bytes_of (old @ content)))))
           (\<lambda>e. on_fs (writeFile path (bytes_of content)))
       else on_fs (writeFile path (bytes_of content)))"

text \<open>A redirection of the last command of a pipeline: its output goes to the file.\<close>

definition redirect_result :: "simple_command \<Rightarrow> cmd_result \<Rightarrow> cmd_result act" where
  "redirect_result c r =
     (case sc_out c of
        None \<Rightarrow> ret r
      | Some p \<Rightarrow>
          if p = [] then ret r
          else bnd (writeRedirect p (r_stdout r) (sc_append c)) (\<lambda>u. ret (r\<lparr>r_stdout := []\<rparr>)))"

section \<open>Pipelines\<close>

definition scoped_env :: "(string \<times> string) list \<Rightarrow> simple_command \<Rightarrow> (string \<times> string) list" where
  "scoped_env base c = foldl (\<lambda>env (k, v). AList.update k v env) base (sc_env c)"

text \<open>One command that is not an unwrapped shell: expansion, dispatch, \<open>2>&1\<close>.\<close>

definition run_simple ::
  "(string \<Rightarrow> command option) \<Rightarrow> (string \<times> string) list \<Rightarrow> string \<Rightarrow> simple_command \<Rightarrow> string option \<Rightarrow>
     cmd_result act" where
  "run_simple table env cmd c input =
     bnd (expandGlobs (map (\<lambda>(v, q). if q then (v, q) else (expandVars v env, False)) (sc_args c)))
       (\<lambda>args.
         bnd (case table cmd of
                Some f \<Rightarrow> f args \<lparr>o_env = env, o_stdin = input\<rparr>
              | None \<Rightarrow> ret (fail (cmd @ '': command not found'') 127))
           (\<lambda>r. ret (if sc_merge c then r\<lparr>r_stdout := r_stdout r @ r_stderr r, r_stderr := []\<rparr> else r)))"

text \<open>\<open>< file\<close>: read unless a pipe already gives the input; \<^term>\<open>Inl\<close> ends the pipeline.\<close>

definition read_input :: "string \<Rightarrow> simple_command \<Rightarrow> string option \<Rightarrow> (cmd_result + string option) act" where
  "read_input cmd c input =
     (case (sc_in c, input) of
        (Some p, None) \<Rightarrow>
          if p = [] then ret (Inr input)
          else try_catch
                 (bnd (resolve_redirect p) (\<lambda>path. bnd (readFileText path) (\<lambda>t. ret (Inr (Some t)))))
                 (\<lambda>e. ret (Inl (fail (cmd @ '': '' @ p @ '': No such file or directory'') 1)))
      | _ \<Rightarrow> ret (Inr input))"

fun executePipeline ::
  "(string \<Rightarrow> (string \<times> string) list \<Rightarrow> cmd_result exec) \<Rightarrow> (string \<Rightarrow> command option) \<Rightarrow>
     (string \<times> string) list \<Rightarrow> simple_command list \<Rightarrow> string option \<Rightarrow> cmd_result exec" where
  "executePipeline exec table base [] input =
     x_ret \<lparr>r_stdout = (case input of Some t \<Rightarrow> t | None \<Rightarrow> []), r_stderr = [], r_exit = 0\<rparr>"
| "executePipeline exec table base (c # cs) input =
     (let env = scoped_env base c; cmd = expandVars (sc_cmd c) env in
      x_bnd (x_act (read_input cmd c input)) (\<lambda>inp.
        case inp of
          Inl r \<Rightarrow> x_ret r
        | Inr input' \<Rightarrow>
            x_bnd
              (case unwrapShellInvocation cmd (sc_args c) of
                 Some (ch # str) \<Rightarrow> exec (ch # str) env
               | _ \<Rightarrow> x_act (run_simple table env cmd c input'))
              (\<lambda>r. if cs = [] then x_act (redirect_result c r)
                   else executePipeline exec table base cs (Some (r_stdout r)))))"

section \<open>Chains\<close>

definition skipped :: "token \<Rightarrow> cmd_result \<Rightarrow> bool" where
  "skipped sep r = ((sep = AND \<and> r_exit r \<noteq> 0) \<or> (sep = OR \<and> r_exit r = 0))"

fun chain :: "(token list \<Rightarrow> cmd_result exec) \<Rightarrow> token list list \<Rightarrow> token list \<Rightarrow> cmd_result \<Rightarrow> cmd_result exec" where
  "chain run [] seps r = x_ret r"
| "chain run (p # ps) seps r =
     (case seps of
        [] \<Rightarrow> x_bnd (run p) (chain run ps [])
      | sep # seps' \<Rightarrow>
          if skipped sep r then chain run ps seps' r else x_bnd (run p) (chain run ps seps'))"

text \<open>
  The loop takes the separator before each pipeline but the first. \<open>stack\<close> bounds the nesting of
  \<open>bash -c\<close> and \<open>xargs\<close>.
\<close>

definition run_chain :: "(token list \<Rightarrow> cmd_result exec) \<Rightarrow> token list list \<Rightarrow> token list \<Rightarrow> cmd_result exec" where
  "run_chain run pipelines seps =
     (case pipelines of
        [] \<Rightarrow> x_ret (ok [])
      | p # ps \<Rightarrow> x_bnd (run p) (chain run ps seps))"

primrec executeCommandString ::
  "(string \<Rightarrow> command option) \<Rightarrow> nat \<Rightarrow> string \<Rightarrow> (string \<times> string) list option \<Rightarrow> cmd_result exec" where
  "executeCommandString ext 0 str env = x_act (raise RangeExn)"
| "executeCommandString ext (Suc n) str env =
     (\<lambda>s. case tokenize str of
            None \<Rightarrow> None
          | Some (Inl e) \<Rightarrow> Some (Inl (InputError e), s)
          | Some (Inr toks) \<Rightarrow>
              let base = (case env of Some e \<Rightarrow> e | None \<Rightarrow> sh_env s);
                  run = (\<lambda>p. executePipeline (\<lambda>str e. executeCommandString ext n str (Some e))
                                (commands ext n) base (parsePipeline p) None)
              in run_chain run (fst (parseTokens toks)) (snd (parseTokens toks)) s)"

end
