(* ===== verification/Shell_Keeps.thy ===== *)
theory Shell_Keeps
  imports Shell_Exec
begin

text \<open>
  What a shell execution keeps of the file system: an interface names the operations the commands
  use and the invariant they keep, and every command, pipeline and script is shown to keep it. The
  in-memory file system provides it.
\<close>

definition keeps :: "(fs \<Rightarrow> bool) \<Rightarrow> 'a act \<Rightarrow> bool" where
  "keeps J m \<longleftrightarrow> (\<forall>s. J (sh_fs s) \<longrightarrow> J (sh_fs (snd (m s))))"

definition keeps_command :: "(fs \<Rightarrow> bool) \<Rightarrow> command \<Rightarrow> bool" where
  "keeps_command J f \<longleftrightarrow> (\<forall>args o'. keeps J (f args o'))"

definition keeps_exec :: "(fs \<Rightarrow> bool) \<Rightarrow> 'a exec \<Rightarrow> bool" where
  "keeps_exec J m \<longleftrightarrow> (\<forall>s r t. J (sh_fs s) \<longrightarrow> m s = Some (r, t) \<longrightarrow> J (sh_fs t))"

named_theorems keeps_intros \<comment> \<open>what keeps the invariant\<close>

lemma keepsD: "keeps J m \<Longrightarrow> J (sh_fs s) \<Longrightarrow> m s = (r, t) \<Longrightarrow> J (sh_fs t)"
  by (metis keeps_def snd_conv)

lemma keeps_ret [keeps_intros]: "keeps J (ret x)"
  by (simp add: keeps_def ret_def)

lemma keeps_raise [keeps_intros]: "keeps J (raise e)"
  by (simp add: keeps_def raise_def)

lemma keeps_get [keeps_intros]: "keeps J (get f)"
  by (simp add: keeps_def get_def)

lemma keeps_bnd [keeps_intros]:
  assumes "keeps J m" "\<And>x. keeps J (f x)"
  shows "keeps J (bnd m f)"
  unfolding keeps_def
proof (intro allI impI)
  fix s :: shell assume "J (sh_fs s)"
  obtain r t where m: "m s = (r, t)" by (cases "m s")
  have t: "J (sh_fs t)" using keepsD [OF assms(1) \<open>J (sh_fs s)\<close> m] .
  show "J (sh_fs (snd (bnd m f s)))"
  proof (cases r)
    case (Inr x)
    then show ?thesis using assms(2) [of x] t by (simp add: bnd_def m keeps_def)
  qed (simp add: bnd_def m t)
qed

lemma keeps_try [keeps_intros]:
  assumes "keeps J m" "\<And>e. keeps J (h e)"
  shows "keeps J (try_catch m h)"
  unfolding keeps_def
proof (intro allI impI)
  fix s :: shell assume "J (sh_fs s)"
  obtain r t where m: "m s = (r, t)" by (cases "m s")
  have t: "J (sh_fs t)" using keepsD [OF assms(1) \<open>J (sh_fs s)\<close> m] .
  show "J (sh_fs (snd (try_catch m h s)))"
  proof (cases r)
    case (Inl e)
    then show ?thesis using assms(2) [of e] t by (simp add: try_catch_def m keeps_def)
  qed (simp add: try_catch_def m t)
qed

lemma keeps_for [keeps_intros]: "(\<And>acc x. keeps J (f acc x)) \<Longrightarrow> keeps J (for_each f xs acc)"
  by (induction xs arbitrary: acc) (auto intro: keeps_ret keeps_bnd)

lemma keeps_if [keeps_intros]: "(b \<Longrightarrow> keeps J m) \<Longrightarrow> (\<not> b \<Longrightarrow> keeps J n) \<Longrightarrow> keeps J (if b then m else n)"
  by simp

lemma keeps_on_fs: "(\<And>s. J s \<Longrightarrow> J (snd (f s))) \<Longrightarrow> keeps J (on_fs f)"
  by (simp add: keeps_def on_fs_def split_beta)

lemma keeps_cases [keeps_intros]:
  "keeps J n \<Longrightarrow> (\<And>y. keeps J (m y)) \<Longrightarrow> keeps J (case x of None \<Rightarrow> n | Some y \<Rightarrow> m y)"
  "keeps J n \<Longrightarrow> (\<And>y ys. keeps J (m' y ys)) \<Longrightarrow> keeps J (case xs of [] \<Rightarrow> n | y # ys \<Rightarrow> m' y ys)"
  "(\<And>a b. keeps J (p a b)) \<Longrightarrow> keeps J (case z of (a, b) \<Rightarrow> p a b)"
  "(\<And>a b. keeps J (p2 a b w)) \<Longrightarrow> keeps J ((case z of (a, b) \<Rightarrow> p2 a b) w)"
  "keeps J n \<Longrightarrow> (\<And>k. keeps J (q k)) \<Longrightarrow> keeps J (case i of 0 \<Rightarrow> n | Suc k \<Rightarrow> q k)"
  by (auto split: option.split list.split prod.split nat.split)

locale fs_keeper =
  fixes J :: "fs \<Rightarrow> bool"
  assumes stat_keeps: "J s \<Longrightarrow> J (snd (stat p s))"
    and readFile_keeps: "J s \<Longrightarrow> J (snd (readFile p s))"
    and readdir_keeps: "J s \<Longrightarrow> J (snd (readdir p s))"
    and writeFile_keeps: "J s \<Longrightarrow> J (snd (writeFile p d s))"
    and mkdir_keeps: "J s \<Longrightarrow> J (snd (mkdir p r s))"
    and unlink_keeps: "J s \<Longrightarrow> J (snd (unlink p s))"
    and rmdir_keeps: "J s \<Longrightarrow> J (snd (rmdir p s))"
    and rename_keeps: "J s \<Longrightarrow> J (snd (rename p q s))"
begin

lemma fs_keeps:
  "keeps J (on_fs (stat p))" "keeps J (on_fs (readFile p))" "keeps J (on_fs (readdir p))"
  "keeps J (on_fs (writeFile p d))" "keeps J (on_fs (mkdir p r))" "keeps J (on_fs (unlink p))"
  "keeps J (on_fs (rmdir p))" "keeps J (on_fs (rename p q))"
  by (rule keeps_on_fs; simp add: stat_keeps readFile_keeps readdir_keeps writeFile_keeps
      mkdir_keeps unlink_keeps rmdir_keeps rename_keeps)+

lemma base_keeps:
  "keeps J (readFileText p)" "keeps J (fileExists p)" "keeps J (isDir p)" "keeps J (isFile p)"
  "keeps J (read_names p)"
  unfolding readFileText_def fileExists_def isDir_def isFile_def read_names_def
  by (intro keeps_intros fs_keeps)+

lemma input_text_keeps: "keeps J (input_text cmd paths o' none k)"
  unfolding input_text_def by (intro keeps_intros base_keeps)

lemma until_error_keeps: "(\<And>p. keeps J (f p)) \<Longrightarrow> keeps J (until_error f paths)"
  unfolding until_error_def by (intro keeps_intros)

lemma reported_keeps: "keeps J m \<Longrightarrow> keeps J (reported cmd m)"
  unfolding reported_def by (intro keeps_intros)

lemmas shared_keeps = fs_keeps base_keeps input_text_keeps until_error_keeps reported_keeps

lemma ls_dir_keeps: "keeps J (ls_dir n fl path label out)"
proof (induction n arbitrary: path label out)
  case (Suc n)
  show ?case
    unfolding ls_dir.simps Let_def by (intro keeps_intros shared_keeps Suc.IH)
qed (simp add: keeps_raise)

lemma rmRecursive_keeps: "keeps J (rmRecursive n dir)"
proof (induction n arbitrary: dir)
  case (Suc n)
  show ?case
    unfolding rmRecursive.simps by (intro keeps_intros shared_keeps Suc.IH)
qed (simp add: keeps_raise)

lemma cpRecursive_keeps: "keeps J (cpRecursive n src dest r)"
proof (induction n arbitrary: src dest r)
  case (Suc n)
  show ?case
    unfolding cpRecursive.simps by (intro keeps_intros shared_keeps Suc.IH)
qed (simp add: keeps_raise)

lemma text_commands_keep:
  "keeps_command J cat" "keeps_command J head" "keeps_command J tail" "keeps_command J echo"
  "keeps_command J wc" "keeps_command J uniq" "keeps_command J tr" "keeps_command J basename"
  "keeps_command J dirname" "keeps_command J env_cmd" "keeps_command J trueCmd"
  "keeps_command J falseCmd" "keeps_command J exitCmd" "keeps_command J whoami"
  "keeps_command J uname" "keeps_command J seq" "keeps_command J yes" "keeps_command J chmod"
  unfolding keeps_command_def cat_def head_def tail_def echo_def wc_def uniq_def tr_def basename_def
    dirname_def env_cmd_def trueCmd_def falseCmd_def exitCmd_def whoami_def uname_def seq_def yes_def
    chmod_def Let_def
  by (intro allI keeps_intros shared_keeps)+

lemma file_commands_keep:
  "keeps_command J ls" "keeps_command J pwd" "keeps_command J mkdir_cmd" "keeps_command J rm"
  "keeps_command J (cp n)" "keeps_command J mv" "keeps_command J touch"
  "keeps_command J tee" "keeps_command J readlink"
  "keeps_command J realpathCmd" "keeps_command J statCmd"
  unfolding keeps_command_def ls_def pwd_def mkdir_cmd_def rm_def cp_def mv_def touch_def tee_def
    readlink_def realpathCmd_def statCmd_def Let_def
  by (intro allI keeps_intros shared_keeps ls_dir_keeps rmRecursive_keeps cpRecursive_keeps)+

lemma cd_keeps: "keeps_command J cd"
  by (auto simp: keeps_command_def cd_def Let_def bnd_def get_def keeps_def)

lemma test_keeps: "keeps_command J testCmd"
  unfolding keeps_command_def testCmd_def
  by (intro allI keeps_intros shared_keeps)

lemma builtins_keep: "map_of (builtins n) name = Some f \<Longrightarrow> keeps_command J f"
proof -
  have "\<forall>(k, f) \<in> set (builtins n). keeps_command J f"
    by (simp add: builtins_def text_commands_keep file_commands_keep cd_keeps test_keeps)
  then show "map_of (builtins n) name = Some f \<Longrightarrow> keeps_command J f"
    by (auto dest: map_of_SomeD)
qed

lemma xargs_keeps: "(\<And>name f. table name = Some f \<Longrightarrow> keeps_command J f) \<Longrightarrow> keeps_command J (xargs table)"
  by (auto simp: keeps_command_def xargs_def Let_def keeps_ret split: list.split option.split)

lemma which_keeps: "keeps_command J (which_cmd known)"
  unfolding keeps_command_def which_cmd_def by (intro allI keeps_intros)

lemma commands_keep:
  assumes ext: "\<And>name f. ext name = Some f \<Longrightarrow> keeps_command J f"
  shows "commands ext n name = Some f \<Longrightarrow> keeps_command J f"
proof (induction n arbitrary: name f)
  case 0
  then show ?case
    using builtins_keep ext by (auto simp: keeps_command_def keeps_raise split: if_splits option.splits)
next
  case (Suc n)
  then show ?case
    using builtins_keep ext xargs_keeps [of "commands ext n"] which_keeps
    by (auto split: if_splits option.splits)
qed

lemma exec_ret: "keeps_exec J (x_ret x)"
  by (simp add: keeps_exec_def x_ret_def)

lemma exec_bnd:
  assumes "keeps_exec J m" "\<And>x. keeps_exec J (f x)"
  shows "keeps_exec J (x_bnd m f)"
  unfolding keeps_exec_def
proof (intro allI impI)
  fix s t :: shell and r
  assume s: "J (sh_fs s)" and b: "x_bnd m f s = Some (r, t)"
  then obtain r1 t1 where m: "m s = Some (r1, t1)" by (cases "m s") (auto simp: x_bnd_def)
  have t1: "J (sh_fs t1)" using assms(1) s m by (simp add: keeps_exec_def)
  show "J (sh_fs t)"
  proof (cases r1)
    case (Inr x)
    then have "f x t1 = Some (r, t)" using b m by (simp add: x_bnd_def)
    then show ?thesis using assms(2) [of x] t1 unfolding keeps_exec_def by blast
  qed (use b m t1 in \<open>simp add: x_bnd_def\<close>)
qed

lemma exec_act: "keeps J m \<Longrightarrow> keeps_exec J (x_act m)"
  unfolding keeps_exec_def
proof (intro allI impI)
  fix s t :: shell and r
  assume m: "keeps J m" "J (sh_fs s)" "x_act m s = Some (r, t)"
  obtain r' t' where e: "m s = (r', t')" by (cases "m s")
  have "t = t'" using m(3) by (cases r') (simp_all add: x_act_def e)
  then show "J (sh_fs t)" using keepsD [OF m(1,2) e] by simp
qed

lemma glob_keeps: "keeps J (expandGlobs args)"
  unfolding expandGlobs_def expandGlob_def Let_def by (intro keeps_intros shared_keeps)

lemma redirect_keeps: "keeps J (redirect_result c r)" "keeps J (read_input cmd c input)"
  unfolding redirect_result_def read_input_def writeRedirect_def resolve_redirect_def
  by (intro keeps_intros shared_keeps)+

lemma run_simple_keeps:
  assumes "\<And>name f. table name = Some f \<Longrightarrow> keeps_command J f"
  shows "keeps J (run_simple table env cmd c input)"
proof (cases "table cmd")
  case None
  then show ?thesis unfolding run_simple_def None option.case by (intro keeps_intros glob_keeps)
next
  case (Some f)
  have f: "keeps J (f args o')" for args o'
    using assms [OF Some] by (simp add: keeps_command_def)
  show ?thesis unfolding run_simple_def Some option.case by (intro keeps_intros glob_keeps f)
qed

lemma pipeline_keeps:
  assumes "\<And>str env. keeps_exec J (exec str env)" "\<And>name f. table name = Some f \<Longrightarrow> keeps_command J f"
  shows "keeps_exec J (executePipeline exec table base cs input)"
proof (induction cs arbitrary: input)
  case (Cons c cs)
  have one: "keeps_exec J (case unwrapShellInvocation cmd (sc_args c) of
      Some (ch # str) \<Rightarrow> exec (ch # str) env | _ \<Rightarrow> x_act (run_simple table env cmd c input))" for env cmd input
    using assms(1) exec_act [OF run_simple_keeps [OF assms(2)]] by (auto split: option.split list.split)
  show ?case
    unfolding executePipeline.simps Let_def
    by (rule exec_bnd [OF exec_act [OF redirect_keeps(2)]])
      (use one Cons exec_act [OF redirect_keeps(1)] in \<open>auto intro: exec_bnd exec_ret split: sum.split\<close>)
qed (simp add: exec_ret)

lemma chain_keeps: "(\<And>p. keeps_exec J (run p)) \<Longrightarrow> keeps_exec J (chain run ps seps r)"
  by (induction run ps seps r rule: chain.induct) (auto intro: exec_bnd exec_ret split: list.split)

lemma execute_keeps:
  assumes ext: "\<And>name f. ext name = Some f \<Longrightarrow> keeps_command J f"
  shows "keeps_exec J (executeCommandString ext n str env)"
proof (induction n arbitrary: str env)
  case (Suc n)
  have pipe: "keeps_exec J (executePipeline (\<lambda>str e. executeCommandString ext n str (Some e))
      (commands ext n) base cs input)" for base cs input
    by (rule pipeline_keeps) (use Suc commands_keep [OF ext] in auto)
  have chains: "keeps_exec J (run_chain run ps seps)" if "\<And>p. keeps_exec J (run p)" for run ps seps
    using that by (auto simp: run_chain_def intro: exec_bnd exec_ret chain_keeps split: list.split)
  show ?case
    unfolding keeps_exec_def executeCommandString.simps Let_def
    using chains [OF pipe] unfolding keeps_exec_def
    by (auto split: option.splits sum.splits)
qed (simp add: exec_act keeps_raise)

lemma withCwd_keeps: "keeps J m \<Longrightarrow> keeps J (withCwd cwd m)"
  unfolding keeps_def withCwd_def by (auto simp: split_beta Let_def)

end

interpretation memfs_keeper: fs_keeper fs_wf
  by unfold_locales (simp_all add: fs_wf_ops)

end
