(* ===== verification/Shell_Props.thy ===== *)
theory Shell_Props
  imports Shell_Keeps
begin

text \<open>
  Properties of whole command lines: what a script keeps of the file system, what a redirection
  writes and where, what \<open>cd\<close> changes, and which output a script returns.
\<close>

section \<open>Running\<close>

lemmas run_simps = bnd_def ret_def get_def x_bnd_def x_act_def x_ret_def try_catch_def on_fs_def
  run_chain_def parseTokens_def parsePipeline_def parseSimpleCommand_def read_input_def
  unwrapShellInvocation_def run_simple_def expandGlobs_def scoped_env_def skipped_def ok_def
  redirect_result_def index_of_None

lemma tokens_two:
  assumes "list_all good_arg a" "list_all good_arg b" "a \<noteq> []"
    "t \<in> {PIPE, OR, AND, SEMI, REDIRECT, APPEND, INPUT}"
    "2 * length (render_args a @ '' '' @ render_op t @ '' '' @ render_args b) \<le> MAX_INPUT_LENGTH"
  shows "tokenize (render_args a @ '' '' @ render_op t @ '' '' @ render_args b) =
    Some (Inr (map (\<lambda>(w, q). WORD w q) a @ t # map (\<lambda>(w, q). WORD w q) b))"
  using tok_loop_prefix [OF assms(1,3)] tok_loop_op [OF assms(4)] tok_loop_args [OF assms(2)] utf16_short [OF assms(5)]
  by (simp add: tokenize_def)

lemma plain_ascii:
  "list_all plain_char ''echo''" "list_all plain_char ''cd''" "list_all plain_char ''pwd''"
  "list_all plain_char ''cat''"
  by (simp_all add: plain_char_def blank_def is_digit_def)

section \<open>The file system\<close>


definition no_ext :: "string \<Rightarrow> command option" where
  "no_ext name = None"

definition fresh_shell :: "string \<Rightarrow> shell" where
  "fresh_shell cwd = \<lparr>sh_fs = new_memfs (\<lambda>n. 0), sh_cwd = ''/'', sh_override = Some cwd, sh_env = [],
     sh_engine = (\<lambda>e. [])\<rparr>"


section \<open>Redirections\<close>

lemma text_of_bytes:
  "take 3 t \<noteq> [char_of (0xEF :: nat), char_of (0xBB :: nat), char_of (0xBF :: nat)] \<Longrightarrow> text_of (bytes_of t) = t"
proof -
  have c: "char_of (unat (of_nat (of_char c :: nat) :: byte)) = c" for c
    by (simp add: unat_byte_of_nat)
  then have m: "map (\<lambda>b. char_of (unat b)) (bytes_of t) = t"
    by (simp add: bytes_of_def comp_def)
  assume bom: "take 3 t \<noteq> [char_of (0xEF :: nat), char_of (0xBB :: nat), char_of (0xBF :: nat)]"
  have "take 3 (bytes_of t) \<noteq> [0xEF, 0xBB, 0xBF]"
  proof
    assume "take 3 (bytes_of t) = [0xEF, 0xBB, 0xBF]"
    then have "map (\<lambda>b. char_of (unat b)) (take 3 (bytes_of t)) =
        map (\<lambda>b. char_of (unat b)) [0xEF, 0xBB, 0xBF :: byte]" by simp
    then have "take 3 t = map (\<lambda>b. char_of (unat b)) [0xEF, 0xBB, 0xBF :: byte]"
      using m by (metis take_map)
    with bom show False by simp
  qed
  then show ?thesis using m by (simp add: text_of_def)
qed

definition no_bom :: "string \<Rightarrow> bool" where
  "no_bom t \<longleftrightarrow> take 3 t \<noteq> [char_of (0xEF :: nat), char_of (0xBB :: nat), char_of (0xBF :: nat)]"

lemma writeRedirect_new:
  assumes wf: "fs_wf (sh_fs s)" and p: "comps (resolvePath p (sh_cwd s)) \<noteq> []"
    and w: "writeRedirect p t False s = (Inr u, s')"
  shows "fs_wf (sh_fs s') \<and> sh_cwd s' = sh_cwd s \<and>
    view (sh_fs s') = (view (sh_fs s))(comps (resolvePath p (sh_cwd s)) \<mapsto> FileV (bytes_of t))"
proof -
  let ?q = "resolvePath p (sh_cwd s)"
  have "fst (writeFile ?q (bytes_of t) (sh_fs s)) = Inr u" "sh_fs s' = snd (writeFile ?q (bytes_of t) (sh_fs s))"
    "sh_cwd s' = sh_cwd s"
    using w by (auto simp: writeRedirect_def resolve_redirect_def bnd_def get_def on_fs_def split_beta)
  then show ?thesis using writeFile_ok_view [OF wf p, of "bytes_of t"] fs_wf_writeFile [OF wf] by simp
qed

lemma readFileText_view:
  assumes wf: "fs_wf (sh_fs s)" and v: "view (sh_fs s) (comps p) = Some (FileV d)"
  shows "fst (readFileText p s) = Inr (text_of d)" "view (sh_fs (snd (readFileText p s))) = view (sh_fs s)"
    "sh_cwd (snd (readFileText p s)) = sh_cwd s" "fs_wf (sh_fs (snd (readFileText p s)))"
  using readFile_view [OF wf, of p] v fs_wf_readFile [OF wf, of p]
  by (auto simp: readFileText_def bnd_def on_fs_def ret_def split_beta split: sum.splits)

lemma readFileText_missing:
  assumes wf: "fs_wf (sh_fs s)" and v: "view (sh_fs s) (comps p) = None"
  shows "\<exists>e. fst (readFileText p s) = Inl e"
  using readFile_view [OF wf, of p] v
  by (auto simp: readFileText_def bnd_def on_fs_def ret_def split_beta split: sum.splits)

lemma writeRedirect_append:
  assumes wf: "fs_wf (sh_fs s)" and p: "comps (resolvePath p (sh_cwd s)) \<noteq> []"
    and v: "view (sh_fs s) (comps (resolvePath p (sh_cwd s))) = Some (FileV (bytes_of t))"
      "view (sh_fs s) (butlast (comps (resolvePath p (sh_cwd s)))) = Some DirV" and bom: "no_bom t"
    and w: "writeRedirect p u True s = (Inr x, s')"
  shows "view (sh_fs s') = (view (sh_fs s))(comps (resolvePath p (sh_cwd s)) \<mapsto> FileV (bytes_of (t @ u)))"
proof -
  let ?q = "resolvePath p (sh_cwd s)" and ?s1 = "snd (readFileText (resolvePath p (sh_cwd s)) s)"
  note r = readFileText_view [OF wf v(1)]
  have t: "text_of (bytes_of t) = t" using text_of_bytes bom by (simp add: no_bom_def)
  have rd: "fst (readFileText ?q s) = Inr t" using r(1) t by simp
  let ?w = "writeFile ?q (bytes_of (t @ u)) (sh_fs ?s1)"
  have "agrees ?w (Inr ((view (sh_fs s))(comps ?q \<mapsto> FileV (bytes_of (t @ u))))) (view (sh_fs ?s1))"
    using writeFile_spec [OF r(4) p, of "bytes_of (t @ u)"] v r(2) by (simp add: spec_write_def)
  then have okw: "is_ok (fst ?w)" and vw: "view (snd ?w) = (view (sh_fs s))(comps ?q \<mapsto> FileV (bytes_of (t @ u)))"
    by (simp_all add: agrees_def)
  obtain z where z: "fst ?w = Inr z" using okw by (cases "fst ?w") auto
  have "sh_fs s' = snd ?w"
    using w rd z
    by (auto simp: writeRedirect_def resolve_redirect_def bnd_def get_def try_catch_def on_fs_def split_beta)
  with vw show ?thesis by simp
qed

text \<open>
  Redirections: when \<open>> f\<close> with a text and then \<open>>> f\<close> with another have succeeded, the file
  system is the old one with \<open>f\<close>, taken relative to the directory of the process, holding both
  texts one after the other, and nothing else changed; after the first one the file reads back as
  the first text.
\<close>

theorem shell_redirect_roundtrip:
  assumes "fs_wf (sh_fs s)" "comps (resolvePath f (sh_cwd s)) \<noteq> []" "no_bom t"
    "writeRedirect f t False s = (Inr x, s1)" "writeRedirect f u True s1 = (Inr y, s2)"
  shows "fst (readFileText (resolvePath f (sh_cwd s)) s1) = Inr t \<and>
    view (sh_fs s2) = (view (sh_fs s))(comps (resolvePath f (sh_cwd s)) \<mapsto> FileV (bytes_of (t @ u)))"
proof -
  let ?q = "resolvePath f (sh_cwd s)"
  note n = writeRedirect_new [OF assms(1,2,4)]
  have "fst (writeFile ?q (bytes_of t) (sh_fs s)) = Inr x"
    using assms(4) by (auto simp: writeRedirect_def resolve_redirect_def bnd_def get_def on_fs_def split_beta)
  then have dir: "view (sh_fs s) (butlast (comps ?q)) = Some DirV"
    using writeFile_spec [OF assms(1,2), of "bytes_of t"]
    by (auto simp: agrees_def spec_write_def split: if_splits)
  have ne: "butlast (comps ?q) \<noteq> comps ?q" using assms(2) by (metis append_butlast_last_id append_self_conv list.distinct(1))
  have r: "fst (readFileText ?q s1) = Inr (text_of (bytes_of t))"
    by (rule readFileText_view(1)) (use n in auto)
  have "view (sh_fs s2) = (view (sh_fs s1))(comps ?q \<mapsto> FileV (bytes_of (t @ u)))"
    using writeRedirect_append [of s1 f t u y s2] n assms dir ne by simp
  with r n text_of_bytes assms(3) show ?thesis by (simp add: no_bom_def)
qed

text \<open>A shell at the root of an empty file system.\<close>

lemma write_root:
  "\<exists>t. writeRedirect ''f'' u app s = (Inr (), t)" if "fs_wf (sh_fs s)" "sh_cwd s = ''/''"
    "view (sh_fs s) [] = Some DirV" "view (sh_fs s) [''f''] \<noteq> Some DirV" for u app s
proof -
  have q: "resolvePath ''f'' ''/'' = ''/f''" "comps ''/f'' = [''f'']"
    by (simp_all add: resolvePath_def strip_trailing_slash_def starts_with_def normalizePath_def
        norm_parts_def norm_step_def path_parts_def drop_empty_def)
  have okw: "is_ok (fst (writeFile ''/f'' d x))" if "fs_wf x" "view x = view (sh_fs s)" for d x
    using writeFile_spec [OF that(1), of "''/f''" d] that(2) q \<open>view (sh_fs s) [] = Some DirV\<close>
      \<open>view (sh_fs s) [''f''] \<noteq> Some DirV\<close> by (simp add: spec_write_def agrees_def)
  have e: "\<exists>t. on_fs (writeFile ''/f'' d) x = (Inr (), t)" if "fs_wf (sh_fs x)" "view (sh_fs x) = view (sh_fs s)" for d x
    using okw [OF that, of d] by (cases "fst (writeFile ''/f'' d (sh_fs x))") (auto simp: on_fs_def split_beta)
  have rd: "fs_wf (sh_fs (snd (readFileText ''/f'' s)))" "view (sh_fs (snd (readFileText ''/f'' s))) = view (sh_fs s)"
    using fs_wf_readFile [OF that(1), of "''/f''"]
    by (auto simp: readFileText_def bnd_def on_fs_def ret_def split_beta split: sum.splits)
  show ?thesis
  proof (cases app)
    case False
    then show ?thesis using e [of s] that q
      by (simp add: writeRedirect_def resolve_redirect_def bnd_def get_def)
  next
    case True
    let ?r = "readFileText ''/f'' s"
    show ?thesis
    proof (cases "fst ?r")
      case (Inl x)
      then show ?thesis using True e [OF rd] that q
        by (simp add: writeRedirect_def resolve_redirect_def bnd_def get_def try_catch_def split_beta)
    next
      case (Inr old)
      obtain t where t: "on_fs (writeFile ''/f'' (bytes_of (old @ u))) (snd ?r) = (Inr (), t)"
        using e [OF rd] by blast
      then show ?thesis using True Inr that q
        by (simp add: writeRedirect_def resolve_redirect_def bnd_def get_def try_catch_def split_beta)
    qed
  qed
qed

lemma fresh_wf: "fs_wf (sh_fs (fresh_shell w))"
  by (simp add: fresh_shell_def)

lemma fresh_missing: "view (sh_fs (fresh_shell w)) [''f''] = None"
  by (simp add: fresh_shell_def view_def new_memfs_def dir_of_def)

theorem shell_redirect_roundtrip_witness:
  "\<exists>s1 s2 :: shell. fst (readFileText ''/f'' s1) = Inr ''a'' \<and> view (sh_fs s2) [''f''] = Some (FileV (bytes_of ''ab''))"
proof -
  let ?s = "fresh_shell ''/''"
  have q: "resolvePath ''f'' ''/'' = ''/f''" "comps ''/f'' = [''f'']" "sh_cwd ?s = ''/''"
    by (simp_all add: resolvePath_def strip_trailing_slash_def starts_with_def normalizePath_def
        norm_parts_def norm_step_def path_parts_def drop_empty_def fresh_shell_def)
  note wf = fresh_wf [of "''/''"]
  obtain s1 where s1: "writeRedirect ''f'' ''a'' False ?s = (Inr (), s1)"
    using write_root [OF wf q(3)] view_root [OF wf] fresh_missing by fastforce
  note n = writeRedirect_new [OF wf _ s1]
  obtain s2 where s2: "writeRedirect ''f'' ''b'' True s1 = (Inr (), s2)"
    using write_root [of s1 "''b''" True] n q view_root [of "sh_fs s1"] by auto
  have "fst (readFileText ''/f'' s1) = Inr ''a'' \<and> view (sh_fs s2) [''f''] = Some (FileV (bytes_of ''ab''))"
    using shell_redirect_roundtrip [OF wf _ _ s1 s2] q by (simp add: no_bom_def)
  then show ?thesis by blast
qed

section \<open>Directories and output\<close>

text \<open>
  Under the working directory a child or a terminal runs with, \<open>cd\<close> has no effect on the
  commands after it, and it succeeds for any name: \<open>cd 'd' && pwd\<close> prints the old directory.
\<close>

theorem cd_has_no_effect:
  assumes "sh_override s = Some w" "w \<noteq> []" "squote \<notin> set d" "length d < 100"
  shows "\<exists>t. executeCommandString ext (Suc (Suc n))
      (render_args [(''cd'', False), (d, True)] @ '' '' @ ''&&'' @ '' '' @ ''pwd'') env s
      = Some (Inr (ok (w @ [newline])), t) \<and> sh_fs t = sh_fs s"
proof -
  have t: "tokenize (render_args [(''cd'', False), (d, True)] @ '' '' @ ''&&'' @ '' '' @ ''pwd'') =
      Some (Inr [WORD ''cd'' False, WORD d True, AND, WORD ''pwd'' False])"
    using tokens_two [of "[(''cd'', False), (d, True)]" "[(''pwd'', False)]" AND] assms(3,4) plain_ascii
    by (simp add: render_args_def MAX_INPUT_LENGTH_def)
  show ?thesis
    unfolding executeCommandString.simps t using assms(1,2)
    by (simp add: run_simps builtins_def cd_def pwd_def norm_def work_dir_def Let_def name_start_def)
qed

theorem cd_has_no_effect_witness:
  "\<exists>t. executeCommandString no_ext (Suc (Suc 0))
      (render_args [(''cd'', False), (''/no/such'', True)] @ '' '' @ ''&&'' @ '' '' @ ''pwd'') None
      (fresh_shell ''/w'') = Some (Inr (ok (''/w'' @ [newline])), t) \<and> sh_fs t = sh_fs (fresh_shell ''/w'')"
  by (rule cd_has_no_effect) (simp_all add: fresh_shell_def)

text \<open>
  A script returns the output of its last pipeline only: of \<open>echo 't' ; echo 'u'\<close> the first
  line is lost.
\<close>

theorem script_output_lost:
  assumes "squote \<notin> set t" "squote \<notin> set u" "length t < 100" "length u < 100"
  shows "executeCommandString ext (Suc (Suc n))
      (render_args [(''echo'', False), (t, True)] @ '' '' @ '';'' @ '' '' @
       render_args [(''echo'', False), (u, True)]) env s
      = Some (Inr (ok ((if u = ''-n'' then [] else if u = ''-e'' then [newline] else u @ [newline]))), s)"
proof -
  have t: "tokenize (render_args [(''echo'', False), (t, True)] @ '' '' @ '';'' @ '' '' @
       render_args [(''echo'', False), (u, True)]) =
      Some (Inr [WORD ''echo'' False, WORD t True, SEMI, WORD ''echo'' False, WORD u True])"
    using tokens_two [of "[(''echo'', False), (t, True)]" "[(''echo'', False), (u, True)]" SEMI] assms plain_ascii
    by (simp add: render_args_def MAX_INPUT_LENGTH_def)
  show ?thesis
    unfolding executeCommandString.simps t
    by (simp add: run_simps builtins_def echo_def Let_def name_start_def)
qed

theorem script_output_lost_witness:
  "executeCommandString no_ext (Suc (Suc 0))
      (render_args [(''echo'', False), (''one'', True)] @ '' '' @ '';'' @ '' '' @
       render_args [(''echo'', False), (''two'', True)]) None (fresh_shell ''/'')
      = Some (Inr (ok (''two'' @ [newline])), fresh_shell ''/'')"
  using script_output_lost [of "''one''" "''two''" no_ext 0 None "fresh_shell ''/''"] by simp

text \<open>
  Redirections resolve a name against the directory of the process, the commands against the
  override: what a script just wrote it cannot read under the same name.
\<close>

theorem redirect_misses_cwd:
  assumes wf: "fs_wf (sh_fs s)" and w: "sh_override s = Some w" "w \<noteq> []"
    and f: "f \<noteq> []" "\<not> starts_with f ''-''"
    and q: "comps (resolvePath f (sh_cwd s)) \<noteq> []"
      "comps (resolvePath f w) \<noteq> comps (resolvePath f (sh_cwd s))"
      "view (sh_fs s) (comps (resolvePath f w)) = None"
    and out: "writeRedirect f t False s = (Inr x, s1)"
  shows "\<exists>r. fst (cat [f] o' s1) = Inr r \<and> r_exit r = 1 \<and> r_stdout r = []"
proof -
  note n = writeRedirect_new [OF wf q(1) out]
  have o: "sh_override s1 = Some w"
    using out w by (auto simp: writeRedirect_def resolve_redirect_def bnd_def get_def on_fs_def split_beta)
  have "view (sh_fs s1) (comps (resolvePath f w)) = None" using n q(2,3) by auto
  then obtain e where "fst (readFileText (resolvePath f w) s1) = Inl e"
    using readFileText_missing [of s1] n by blast
  then show ?thesis
    using f w o by (simp add: cat_def operands_def run_simps norm_def work_dir_def split_beta)
qed

text \<open>\<open>tail -n 0\<close> prints everything: \<open>slice(-0)\<close> is \<open>slice(0)\<close>.\<close>

theorem tail_zero_prints_all:
  "last (lines_of t) \<noteq> [] \<Longrightarrow> tail_lines (Some 0) t = ok (t @ [newline])"
  by (simp add: tail_lines_def slice_from_def lines_of_def join_lines_def)

end
