(* ===== verification/Nano_Text.thy ===== *)
theory Nano_Text
  imports Line_Editor_Props Memfs_Properties
begin

text \<open>
  \<open>nano\<close> as a text with a gap: what stands before the cursor and what stands after it. Typing,
  returning and erasing act on the end of the first part, moving keeps the whole, and saving
  writes it.
\<close>

section \<open>Joining lines\<close>

lemma join_lines_snoc: "join_lines (xs @ [a @ b]) = join_lines (xs @ [a]) @ b"
  by (simp add: join_lines_def join_with_snoc)

lemma join_lines_newline: "join_lines (xs @ [a, b]) = join_lines (xs @ [a]) @ newline # b"
  using join_with_snoc [of newline "xs @ [a]" b] by (simp add: join_lines_def)

lemma join_lines_gap: "join_lines (xs @ (a @ b) # ys) = join_lines (xs @ [a]) @ join_lines (b # ys)"
proof (cases ys)
  case Nil
  then show ?thesis using join_lines_snoc [of xs a b] by (simp add: join_lines_def)
next
  case (Cons y ys')
  have "join_lines ((xs @ [a @ b]) @ ys) = join_lines (xs @ [a @ b]) @ newline # join_lines ys"
    using Cons by (simp only: join_lines_def) (subst join_with_append, simp_all)
  moreover have "join_lines (b # ys) = b @ newline # join_lines ys" by (simp add: join_lines_def Cons)
  ultimately show ?thesis using join_lines_snoc [of xs a b] by simp
qed

section \<open>The text around the cursor\<close>

definition text_before :: "nano \<Rightarrow> string" where
  "text_before n = join_lines (take (nn_row n) (nn_lines n) @ [take (nn_col n) (line_at (nn_lines n) (nn_row n))])"

definition text_after :: "nano \<Rightarrow> string" where
  "text_after n = join_lines (drop (nn_col n) (line_at (nn_lines n) (nn_row n)) # drop (Suc (nn_row n)) (nn_lines n))"

definition text_whole :: "nano \<Rightarrow> string" where
  "text_whole n = text_before n @ text_after n"

lemma whole_lines: "nano_ok n \<Longrightarrow> text_whole n = join_lines (nn_lines n)"
proof -
  assume "nano_ok n"
  then have r: "nn_row n < length (nn_lines n)" by (simp add: nano_ok_def)
  have "nn_lines n = take (nn_row n) (nn_lines n) @ nn_lines n ! nn_row n # drop (Suc (nn_row n)) (nn_lines n)"
    using r by (rule id_take_nth_drop)
  then show ?thesis
    using join_lines_gap [of "take (nn_row n) (nn_lines n)" "take (nn_col n) (nn_lines n ! nn_row n)"
        "drop (nn_col n) (nn_lines n ! nn_row n)" "drop (Suc (nn_row n)) (nn_lines n)"] r
    by (simp add: text_whole_def text_before_def text_after_def line_at_def)
qed

lemma insert_text:
  assumes "nano_ok n"
  shows "text_before (nano_insert c n) = text_before n @ [c]" "text_after (nano_insert c n) = text_after n"
  using assms join_lines_snoc [of "take (nn_row n) (nn_lines n)" "take (nn_col n) (nn_lines n ! nn_row n)" "[c]"]
  by (simp_all add: nano_ok_def nano_insert_def Let_def text_before_def text_after_def line_at_def)

lemma enter_text:
  assumes "nano_ok n"
  shows "text_before (nano_enter n) = text_before n @ [newline]" "text_after (nano_enter n) = text_after n"
proof -
  have r: "nn_row n < length (nn_lines n)" using assms by (simp add: nano_ok_def)
  let ?l = "nn_lines n ! nn_row n" and ?t = "take (nn_row n) (nn_lines n)"
  have "take (Suc (nn_row n)) ((nn_lines n)[nn_row n := take (nn_col n) ?l]) = ?t @ [take (nn_col n) ?l]"
    using r by (simp add: take_Suc_conv_app_nth)
  then have ls: "nn_lines (nano_enter n) = (?t @ [take (nn_col n) ?l]) @ drop (nn_col n) ?l # drop (Suc (nn_row n)) (nn_lines n)"
    using r by (simp add: nano_enter_def Let_def splice_in_def line_at_def)
  have rc: "nn_row (nano_enter n) = length (?t @ [take (nn_col n) ?l])" "nn_col (nano_enter n) = 0"
    using r by (simp_all add: nano_enter_def Let_def)
  show "text_before (nano_enter n) = text_before n @ [newline]"
    using join_lines_newline [of ?t "take (nn_col n) ?l" "[]"] r
    unfolding text_before_def ls rc by (simp add: line_at_def)
  show "text_after (nano_enter n) = text_after n"
    using r unfolding text_after_def ls rc by (simp add: line_at_def nth_append)
qed

lemma backspace_text:
  assumes "nano_ok n"
  shows "text_before (nano_backspace n) = butlast (text_before n)" "text_after (nano_backspace n) = text_after n"
proof -
  have r: "nn_row n < length (nn_lines n)" "nn_col n \<le> length (nn_lines n ! nn_row n)"
    using assms by (simp_all add: nano_ok_def)
  let ?l = "nn_lines n ! nn_row n" and ?t = "take (nn_row n) (nn_lines n)"
  have "text_before (nano_backspace n) = butlast (text_before n) \<and> text_after (nano_backspace n) = text_after n"
  proof (cases "nn_col n")
    case (Suc k)
    then have "take (nn_col n) ?l = take k ?l @ [?l ! k]" using r by (simp add: take_Suc_conv_app_nth)
    then have "text_before n = join_lines (?t @ [take k ?l]) @ [?l ! k]"
      using join_lines_snoc [of ?t "take k ?l" "[?l ! k]"] r by (simp add: text_before_def line_at_def)
    with Suc r show ?thesis
      by (simp add: nano_backspace_def Let_def text_before_def text_after_def line_at_def)
  next
    case 0
    show ?thesis
    proof (cases "nn_row n")
      case zero: 0
      with 0 have "nano_backspace n = n" by (simp add: nano_backspace_def Let_def)
      moreover have "text_before n = []" using 0 zero by (simp add: text_before_def join_lines_def)
      ultimately show ?thesis by simp
    next
      case (Suc k)
      let ?u = "take k (nn_lines n)" and ?p = "nn_lines n ! k"
      have t: "?t = ?u @ [?p]" using r Suc by (simp add: take_Suc_conv_app_nth)
      have "take (nn_row n) ((nn_lines n)[k := ?p @ ?l]) = ?u @ [?p @ ?l]"
        using r Suc by (simp add: take_Suc_conv_app_nth take_update_cancel)
      then have ls: "nn_lines (nano_backspace n) = ?u @ (?p @ ?l) # drop (Suc (nn_row n)) (nn_lines n)"
        using 0 Suc r by (simp add: nano_backspace_def Let_def splice_out_def line_at_def)
      have rc: "nn_row (nano_backspace n) = k" "nn_col (nano_backspace n) = length ?p"
        using 0 Suc r by (simp_all add: nano_backspace_def Let_def line_at_def)
      have lu: "length ?u = k" using r Suc by simp
      have at: "line_at (?u @ x # ys) k = x" for x ys
        using nth_append_length [of ?u x ys] lu by (simp add: line_at_def)
      have "text_before (nano_backspace n) = join_lines (?u @ [?p])"
        unfolding text_before_def ls rc at using lu by simp
      moreover have "text_before n = join_lines (?u @ [?p]) @ [newline]"
        using 0 r t join_lines_newline [of ?u ?p "[]"] by (simp add: text_before_def)
      moreover have "text_after (nano_backspace n) = text_after n"
        using 0 r lu unfolding text_after_def ls rc at by (simp add: line_at_def Suc)
      ultimately show ?thesis by simp
    qed
  qed
  then show "text_before (nano_backspace n) = butlast (text_before n)" "text_after (nano_backspace n) = text_after n"
    by blast+
qed

lemma arrow_lines [simp]: "nn_lines (nano_arrow q n) = nn_lines n"
  by (simp add: nano_arrow_def Let_def)


section \<open>Typing and saving\<close>

definition typeable :: "char \<Rightarrow> bool" where
  "typeable c \<longleftrightarrow> c = newline \<or> printable c \<and> \<not> is_backspace c"

text \<open>Each key arrives in a piece of its own.\<close>

definition type_text :: "shell_options \<Rightarrow> string \<Rightarrow> editor \<Rightarrow> editor" where
  "type_text cf t s = foldl (\<lambda>s c. fst (feed cf [c] s)) s t"

lemma printable_codes: "printable c \<Longrightarrow> c \<noteq> CHR 0x18 \<and> c \<noteq> CHR 0x0F \<and> c \<noteq> CHR 0x0B \<and> \<not> is_return c \<and> c \<noteq> esc"
  by (auto simp: printable_def is_return_def)

lemma on_nano_Some:
  "ed_nano s = Some n \<Longrightarrow> ed_nano (on_nano f s) = Some (f n) \<and> ed_fs (on_nano f s) = ed_fs s"
  by (simp add: on_nano_def) (simp add: renderNano_def)

lemma type_key:
  assumes "ed_nano s = Some n" "typeable c" "nano_ok n"
  shows "\<exists>m. ed_nano (fst (feed cf [c] s)) = Some m \<and> nano_ok m \<and> nn_path m = nn_path n
     \<and> text_before m = text_before n @ [c] \<and> text_after m = text_after n
     \<and> ed_fs (fst (feed cf [c] s)) = ed_fs s"
proof (cases "c = newline")
  case True
  then show ?thesis
    using on_nano_Some [OF assms(1), of nano_enter] enter_text [OF assms(3)] ok_nano_edits(2) [OF assms(3)] assms(1)
    by (simp add: feed_def is_return_def) (simp add: nano_enter_def Let_def)
next
  case False
  with assms(2) have c: "printable c" "\<not> is_backspace c" by (auto simp: typeable_def)
  then show ?thesis
    using on_nano_Some [OF assms(1), of "nano_insert c"] insert_text [OF assms(3), of c]
      ok_nano_edits(4) [OF assms(3), of c] printable_codes [OF c(1)] assms(1)
    by (simp add: feed_def) (simp add: nano_insert_def Let_def)
qed

lemma type_text_state:
  "ed_nano s = Some n \<Longrightarrow> nano_ok n \<Longrightarrow> list_all typeable t \<Longrightarrow>
   \<exists>m. ed_nano (type_text cf t s) = Some m \<and> nano_ok m \<and> nn_path m = nn_path n
     \<and> text_before m = text_before n @ t \<and> text_after m = text_after n
     \<and> ed_fs (type_text cf t s) = ed_fs s"
proof (induction t arbitrary: s n)
  case Nil
  then show ?case by (simp add: type_text_def)
next
  case (Cons c t)
  from Cons.prems obtain m where m: "ed_nano (fst (feed cf [c] s)) = Some m" "nano_ok m" "nn_path m = nn_path n"
     "text_before m = text_before n @ [c]" "text_after m = text_after n" "ed_fs (fst (feed cf [c] s)) = ed_fs s"
    using type_key [of s n c cf] by auto
  with Cons.IH [OF m(1,2)] Cons.prems(3) show ?case by (simp add: type_text_def)
qed

text \<open>
  What is typed into \<open>nano\<close> key by key and saved is what the file holds: after Ctrl+O that
  does not fail, the file under the editor's path, in any spelling, reads back as the text that
  stood before the cursor, what was typed, and the text that stood after it.
\<close>

theorem nano_typed_saved:
  assumes "ed_nano s = Some n" "nano_ok n" "list_all typeable t" "fs_wf (ed_fs s)" "comps (nn_path n) \<noteq> []"
    and "feed cf [CHR 0x0F] (type_text cf t s) = (u, False)" "comps q = comps (nn_path n)"
  shows "fst (readFile q (ed_fs u)) = Inr (bytes_of (text_before n @ t @ text_after n))"
proof -
  from type_text_state [OF assms(1-3), of cf] obtain m where m: "ed_nano (type_text cf t s) = Some m" "nano_ok m"
    "nn_path m = nn_path n" "text_before m = text_before n @ t" "text_after m = text_after n"
    "ed_fs (type_text cf t s) = ed_fs s" by blast
  have content: "join_lines (nn_lines m) = text_before n @ t @ text_after n"
    using whole_lines [OF m(2)] m(4,5) by (simp add: text_whole_def)
  from assms(6) m(1) have sv: "nano_save (type_text cf t s) = (u, False)" by (simp add: feed_def)
  let ?w = "writeFile (nn_path n) (bytes_of (join_lines (nn_lines m))) (ed_fs s)"
  obtain r f where w: "?w = (r, f)" by fastforce
  have ok: "is_ok (fst ?w)" "ed_fs u = snd ?w"
    using sv m(1,3,6) w by (auto simp: nano_save_def split: sum.splits)
  show ?thesis unfolding ok(2) using write_then_read [OF assms(4,5) ok(1) assms(7)] content by simp
qed

section \<open>Runs\<close>

text \<open>A command that prints its own text, and one that opens the editor on \<open>/f\<close>.\<close>

definition demo :: shell_options where
  "demo = \<lparr>so_run = (\<lambda>cmd d env f.
       (Ran \<lparr>ran_stdout = cmd, ran_stderr = [], ran_cwd = None,
             ran_nano = (if cmd = ''nano'' then Some (''/f'', ''f'', ''x'') else None), ran_async = False\<rparr>, f)),
     so_names = [''echo'', ''cat''], so_prompt = PromptText ''$ ''\<rparr>"

definition fresh_shell :: "fs \<Rightarrow> editor" where
  "fresh_shell f = prompt demo (createShell [] [] f)"

abbreviation cr :: char where "cr \<equiv> CHR 0x0D"

abbreviation no_files :: fs where "no_files \<equiv> new_memfs (\<lambda>_. 0)"

lemma edited_line:
  "no_escape demo (fresh_shell f) [Feed ''ab'', Feed [esc, CHR ''['', CHR ''D''], Feed ''c'']"
  "(ed_line s, ed_cursorPos s, ed_nano s = None, ed_busy s) = (''acb'', 2, True, False)"
  if "s = shell_run demo (fresh_shell f) [Feed ''ab'', Feed [esc, CHR ''['', CHR ''D''], Feed ''c'']"
  unfolding that by code_simp+

lemma screen_shows_line_witness:
  "display (shell_run demo (fresh_shell no_files) [Feed ''ab'', Feed [esc, CHR ''['', CHR ''D''], Feed ''c'']) = (''acb'', 2)"
  using screen_shows_line [OF edited_line(1) [OF refl, of no_files, unfolded fresh_shell_def]]
    edited_line(2) [OF refl, of no_files]
  by (simp add: fresh_shell_def shown_def editing_def in_sync_def)


definition in_nano :: "fs \<Rightarrow> editor" where
  "in_nano f = enterNano (''/f'', ''f'', ''x'') (fresh_shell f)"

lemma in_nano_state:
  "ed_nano (in_nano f) = Some \<lparr>nn_path = ''/f'', nn_displayPath = ''f'', nn_lines = [''x''], nn_row = 0,
     nn_col = 0, nn_dirty = False, nn_scrollTop = 0\<rparr>"
  "ed_fs (in_nano f) = f"
  by (simp_all add: in_nano_def enterNano_def renderNano_def lines_of_def fresh_shell_def prompt_def
      printPrompt_def createShell_def)

lemma nano_typed_saved_witness:
  "fst (readFile ''/f'' (ed_fs (fst (feed demo [CHR 0x0F] (type_text demo ''hi'' (in_nano no_files)))))) = Inr (bytes_of ''hix'')"
proof -
  let ?n = "\<lparr>nn_path = ''/f'', nn_displayPath = ''f'', nn_lines = [''x''], nn_row = 0, nn_col = 0,
     nn_dirty = False, nn_scrollTop = 0\<rparr>"
  let ?u = "feed demo [CHR 0x0F] (type_text demo ''hi'' (in_nano no_files))"
  have n: "nano_ok ?n" "list_all typeable ''hi''" "comps (nn_path ?n) \<noteq> []"
    by (simp_all add: nano_ok_def) code_simp+
  have wf: "fs_wf (ed_fs (in_nano no_files))" by (simp add: in_nano_state)
  obtain m where m: "ed_nano (type_text demo ''hi'' (in_nano no_files)) = Some m" "nn_path m = ''/f''"
     "ed_fs (type_text demo ''hi'' (in_nano no_files)) = no_files"
    using type_text_state [OF in_nano_state(1) n(1,2), of demo] in_nano_state(2) by auto
  have w: "is_ok (fst (writeFile ''/f'' d no_files))" for d
    by (simp add: fs_exec)
  have "snd (nano_save (type_text demo ''hi'' (in_nano no_files))) = False"
    using w [of "bytes_of (join_lines (nn_lines m))"] m by (auto simp: nano_save_def split: prod.split sum.split)
  then have "?u = (fst ?u, False)" using m(1) by (simp add: feed_def prod_eq_iff)
  from nano_typed_saved [OF in_nano_state(1) n(1,2) wf n(3) this, of "''/f''"] show ?thesis
    by (simp add: text_before_def text_after_def line_at_def join_lines_def)
qed

section \<open>Where it goes wrong\<close>

text \<open>
  A completion that is unique throws: the line has been completed, the screen has not, and the
  rest of what was typed is lost.
\<close>

theorem completion_throws:
  "(case feed demo (''ec'' @ tab # ''x'' @ [cr]) (fresh_shell f) of (t, threw) \<Rightarrow> (ed_line t, display t, threw))
   = (''echo '', (''ec'', 2), True)"
  by code_simp

text \<open>Of several lines pasted at once only the first is executed, the others are dropped.\<close>

theorem paste_drops_lines:
  "(case feed demo (''a'' @ cr # ''b'' @ [cr]) (fresh_shell f) of (t, threw) \<Rightarrow> (ed_history t, ed_line t, threw))
   = ([''a''], [], False)"
  by code_simp

theorem nano_paste_drops_lines:
  "map_option nn_lines (ed_nano (fst (feed demo (''a'' @ cr # ''b'') (in_nano f)))) = Some [''a'', ''x'']"
  by code_simp

text \<open>
  Joining lines at the top of a scrolled window moves the cursor out of it: it is placed on the
  title line (the text begins in row 2).
\<close>

definition down_up :: string where
  "down_up = concat (replicate 18 [esc, CHR ''['', CHR ''B'']) @ concat (replicate 17 [esc, CHR ''['', CHR ''A''])"

theorem nano_cursor_leaves_window:
  "map_option (\<lambda>n. int (nn_row n) - int (nn_scrollTop n) + 2)
     (ed_nano (fst (feed demo [CHR 0x7F]
       (fst (feed demo down_up (enterNano (''/f'', ''f'', replicate 20 newline) (fresh_shell f)))))))
   = Some 1"
  by code_simp

end
