(* ===== verification/Package_Resolve.thy ===== *)
theory Package_Resolve
  imports Prelude
begin

text \<open>
  \<open>napi-bridge/package-resolve.js\<close>: bare specifiers, conditional targets, the \<open>exports\<close> and the
  \<open>imports\<close> field of a package. A parsed \<open>package.json\<close> is a JSON value whose objects are the list
  of their own properties in the order of \<open>Object.keys\<close>.
\<close>

datatype json =
    JNull
  | JBool bool
  | JNum int
  | JStr string
  | JArr "json list"
  | JObj "(string \<times> json) list"

abbreviation star_char :: char where "star_char \<equiv> CHR ''*''"
abbreviation slash_char :: char where "slash_char \<equiv> CHR ''/''"

section \<open>Specifiers\<close>

record package_specifier =
  ps_name :: string
  ps_subpath :: string

definition split_at :: "nat \<Rightarrow> string \<Rightarrow> package_specifier" where
  "split_at n s = \<lparr>ps_name = take n s, ps_subpath = CHR ''.'' # drop n s\<rparr>"

definition parsePackageSpecifier :: "string \<Rightarrow> package_specifier option" where
  "parsePackageSpecifier specifier =
     (if specifier = [] then None
      else if starts_with specifier ''@'' then
        (case index_of slash_char specifier of
           None \<Rightarrow> Some \<lparr>ps_name = specifier, ps_subpath = ''.''\<rparr>
         | Some s1 \<Rightarrow>
             (case index_of slash_char (drop (Suc s1) specifier) of
                None \<Rightarrow> Some \<lparr>ps_name = specifier, ps_subpath = ''.''\<rparr>
              | Some k \<Rightarrow> Some (split_at (Suc s1 + k) specifier)))
      else
        (case index_of slash_char specifier of
           None \<Rightarrow> Some \<lparr>ps_name = specifier, ps_subpath = ''.''\<rparr>
         | Some s1 \<Rightarrow> Some (split_at s1 specifier)))"

section \<open>Patterns\<close>

definition matchSingleStar :: "string \<Rightarrow> string \<Rightarrow> string option" where
  "matchSingleStar pattern str =
     (case index_of star_char pattern of
        None \<Rightarrow> if pattern = str then Some [] else None
      | Some i \<Rightarrow>
          let pre = take i pattern; post = drop (Suc i) pattern; rest = drop (length pre) str in
          if \<not> starts_with str pre then None
          else if post \<noteq> [] then
            (if \<not> ends_with rest post then None else Some (take (length rest - length post) rest))
          else Some rest)"

definition applyStarTarget :: "string \<Rightarrow> string \<Rightarrow> string" where
  "applyStarTarget targetPattern star =
     (case index_of star_char targetPattern of
        None \<Rightarrow> targetPattern
      | Some i \<Rightarrow> take i targetPattern @ star @ drop (Suc i) targetPattern)"

section \<open>Conditional targets\<close>

text \<open>The keys in the order the code tries them; the first that gives a non-empty string wins.\<close>

definition condition_order :: "string list \<Rightarrow> string list" where
  "condition_order cond =
     (if ''import'' \<in> set cond then [''import'', ''require'', ''default''] else [''require'', ''import'', ''default''])"

definition gated :: "string list" where
  "gated = [''node'', ''development'', ''production'']"

definition candidate_keys :: "string list \<Rightarrow> string list \<Rightarrow> string list" where
  "candidate_keys cond ks =
     filter (\<lambda>k. k \<in> set cond) gated @ condition_order cond @ [''default''] @
     filter (\<lambda>k. k \<notin> set (''types'' # gated) \<and> k \<notin> set (condition_order cond) \<and> k \<noteq> ''default'') ks"

fun first_hit :: "(string \<times> string option) list \<Rightarrow> string list \<Rightarrow> string option" where
  "first_hit picks [] = None"
| "first_hit picks (k # ks) =
     (case map_of picks k of
        Some (Some s) \<Rightarrow> if s \<noteq> [] then Some s else first_hit picks ks
      | _ \<Rightarrow> first_hit picks ks)"

fun pickConditionalTarget :: "string list \<Rightarrow> json \<Rightarrow> string option" where
  "pickConditionalTarget cond (JStr s) = Some s"
| "pickConditionalTarget cond (JObj m) =
     first_hit (map (\<lambda>(k, v). (k, pickConditionalTarget cond v)) m) (candidate_keys cond (map fst m))"
| "pickConditionalTarget cond _ = None"

section \<open>The exports field\<close>

definition truthy :: "string option \<Rightarrow> bool" where
  "truthy r = (case r of Some s \<Rightarrow> s \<noteq> [] | None \<Rightarrow> False)"

definition strip_slashes :: "string \<Rightarrow> string" where
  "strip_slashes s = dropWhile (\<lambda>c. c = slash_char) s"

definition keys_to_try :: "string \<Rightarrow> string list" where
  "keys_to_try subpath =
     (if subpath = ''.'' then [''.'', ''./'']
      else [if starts_with subpath ''.'' then subpath else ''./'' @ strip_slashes subpath])"

fun try_exact :: "string list \<Rightarrow> (string \<times> json) list \<Rightarrow> string list \<Rightarrow> string option" where
  "try_exact cond m [] = None"
| "try_exact cond m (k # ks) =
     (case map_of m k of
        Some v \<Rightarrow> (let picked = pickConditionalTarget cond v
                  in if truthy picked then picked else try_exact cond m ks)
      | None \<Rightarrow> try_exact cond m ks)"

text \<open>One pattern key against one subpath, and the two loops over both.\<close>

definition try_pattern :: "string list \<Rightarrow> string \<Rightarrow> json \<Rightarrow> string \<Rightarrow> string option" where
  "try_pattern cond key v str =
     (case matchSingleStar key str of
        None \<Rightarrow> None
      | Some star \<Rightarrow>
          (case pickConditionalTarget cond v of
             None \<Rightarrow> None
           | Some raw \<Rightarrow> let mapped = applyStarTarget raw star in if mapped \<noteq> [] then Some mapped else None))"

fun first_some :: "('a \<Rightarrow> 'b option) \<Rightarrow> 'a list \<Rightarrow> 'b option" where
  "first_some f [] = None"
| "first_some f (x # xs) = (case f x of Some y \<Rightarrow> Some y | None \<Rightarrow> first_some f xs)"

definition try_patterns :: "string list \<Rightarrow> (string \<times> json) list \<Rightarrow> string list \<Rightarrow> string option" where
  "try_patterns cond m subs =
     first_some (\<lambda>(key, v). if star_char \<in> set key then first_some (try_pattern cond key v) subs else None) m"

definition resolveExportsObject :: "json \<Rightarrow> string \<Rightarrow> string list \<Rightarrow> string option" where
  "resolveExportsObject exportsField subpath cond =
     (case exportsField of
        JStr s \<Rightarrow> if subpath = ''.'' then Some s else None
      | JObj m \<Rightarrow>
          (case try_exact cond m (keys_to_try subpath) of
             Some s \<Rightarrow> Some s
           | None \<Rightarrow> try_patterns cond m (keys_to_try subpath))
      | _ \<Rightarrow> None)"

definition resolvePackageExportsMappingFromPkg :: "(string \<times> json) list \<Rightarrow> string \<Rightarrow> string list \<Rightarrow> string option" where
  "resolvePackageExportsMappingFromPkg pkg subpath cond =
     (case map_of pkg ''exports'' of
        None \<Rightarrow> None
      | Some e \<Rightarrow> if e = JNull then None else resolveExportsObject e subpath cond)"

section \<open>The imports field\<close>

definition resolvePackageImportsMapping :: "json \<Rightarrow> string \<Rightarrow> string list \<Rightarrow> string option" where
  "resolvePackageImportsMapping importsField specifier cond =
     (case importsField of
        JObj m \<Rightarrow>
          (case Option.bind (map_of m specifier) (pickConditionalTarget cond) of
             Some picked \<Rightarrow> Some picked
           | None \<Rightarrow> try_patterns cond m [specifier])
      | _ \<Rightarrow> None)"

definition resolvePackageImportsFromPkg :: "(string \<times> json) list \<Rightarrow> string \<Rightarrow> string list \<Rightarrow> string option" where
  "resolvePackageImportsFromPkg pkg specifier cond =
     (case map_of pkg ''imports'' of
        None \<Rightarrow> None
      | Some i \<Rightarrow> if i = JNull then None else resolvePackageImportsMapping i specifier cond)"

end
