(* ===== verification/Package_Resolve_Props.thy ===== *)
theory Package_Resolve_Props
  imports Package_Resolve
begin

text \<open>
  What the resolution of \<open>exports\<close> and \<open>imports\<close> returns: a conditional target yields exactly the
  strings its permitted branches hold, a pattern and its target are inverse operations, and what
  \<open>resolveExportsObject\<close> answers comes from the key of the subpath or from a pattern that
  matches it.
\<close>

section \<open>Positions and patterns\<close>

lemma index_of_split: "index_of c s = Some i \<Longrightarrow> s = take i s @ c # drop (Suc i) s \<and> c \<notin> set (take i s)"
proof (induction s arbitrary: i)
  case (Cons x s)
  show ?case
  proof (cases "x = c")
    case True
    with Cons.prems show ?thesis by simp
  next
    case False
    with Cons.prems obtain j where j: "index_of c s = Some j" "i = Suc j" by auto
    with Cons.IH [OF j(1)] False show ?thesis by simp
  qed
qed simp

lemma index_of_cases:
  obtains (absent) "index_of c s = None" "c \<notin> set s"
  | (present) pre post where "index_of c s = Some (length pre)" "s = pre @ c # post" "c \<notin> set pre"
proof (cases "index_of c s")
  case None
  then show thesis using absent by (simp add: index_of_None)
next
  case (Some i)
  from index_of_split [OF Some] index_of_Some_less [OF Some]
  have "s = take i s @ c # drop (Suc i) s" "c \<notin> set (take i s)" "length (take i s) = i" by auto
  with Some show thesis using present [of "take i s" "drop (Suc i) s"] by simp
qed

lemma applyStarTarget_split:
  "star_char \<notin> set pre \<Longrightarrow> applyStarTarget (pre @ star_char # post) t = pre @ t @ post"
  by (simp add: applyStarTarget_def index_of_append_sep)

lemma matchSingleStar_split:
  assumes "star_char \<notin> set pre"
  shows "matchSingleStar (pre @ star_char # post) s = Some t \<longleftrightarrow> s = pre @ t @ post"
proof (cases "starts_with s pre")
  case True
  then obtain r where r: "s = pre @ r" by (auto simp: starts_with_iff)
  show ?thesis
  proof (cases "ends_with r post")
    case True
    then obtain u where "r = u @ post" by (auto simp: ends_with_iff)
    with r assms show ?thesis
      by (auto simp: matchSingleStar_def index_of_append_sep Let_def ends_with_def)
  next
    case False
    then have "r \<noteq> t @ post" "post \<noteq> []" by (auto simp: ends_with_iff)
    with r assms False show ?thesis
      by (simp add: matchSingleStar_def index_of_append_sep Let_def)
  qed
next
  case False
  with assms show ?thesis
    by (auto simp: matchSingleStar_def index_of_append_sep Let_def starts_with_iff)
qed

lemma match_iff_apply:
  "matchSingleStar p s = Some t \<longleftrightarrow> applyStarTarget p t = s \<and> (star_char \<in> set p \<or> t = [])"
proof (cases rule: index_of_cases [of star_char p])
  case absent
  then show ?thesis by (auto simp: matchSingleStar_def applyStarTarget_def)
next
  case (present pre post)
  then show ?thesis by (auto simp: matchSingleStar_split applyStarTarget_split)
qed

text \<open>
  A pattern key and its substitution are inverse to each other: \<open>matchSingleStar\<close> captures
  \<open>t\<close> from a string exactly when putting \<open>t\<close> in the place of the star gives that string back
  (a key without a star captures only the empty string, from itself).
\<close>

theorem star_roundtrip:
  "matchSingleStar p s = Some t \<longleftrightarrow> applyStarTarget p t = s \<and> (star_char \<in> set p \<or> t = [])"
  by (rule match_iff_apply)

section \<open>Conditional targets\<close>

definition permitted :: "string list \<Rightarrow> string \<Rightarrow> bool" where
  "permitted cond k \<longleftrightarrow> k \<noteq> ''types'' \<and> (k \<in> set gated \<longrightarrow> k \<in> set cond)"

text \<open>The strings a target can stand for: the leaves reached through permitted keys.\<close>

inductive leaf_at :: "string list \<Rightarrow> json \<Rightarrow> string \<Rightarrow> bool" for cond where
  leaf_str: "leaf_at cond (JStr s) s"
| leaf_obj: "map_of m k = Some v \<Longrightarrow> permitted cond k \<Longrightarrow> leaf_at cond v s \<Longrightarrow> leaf_at cond (JObj m) s"

inductive_simps leaf_at_simps [simp]:
  "leaf_at cond JNull s" "leaf_at cond (JBool b) s" "leaf_at cond (JNum n) s"
  "leaf_at cond (JStr r) s" "leaf_at cond (JArr js) s"

inductive_simps leaf_at_obj: "leaf_at cond (JObj m) s"

lemma candidate_keys_permitted:
  "k \<in> set ks \<Longrightarrow> k \<in> set (candidate_keys cond ks) \<longleftrightarrow> permitted cond k"
  by (auto simp: candidate_keys_def permitted_def gated_def condition_order_def)

lemma first_hit_Some:
  "first_hit picks ks = Some s \<Longrightarrow> s \<noteq> [] \<and> (\<exists>k\<in>set ks. map_of picks k = Some (Some s))"
  by (induction picks ks rule: first_hit.induct) (auto split: option.splits if_splits)

lemma first_hit_None:
  "first_hit picks ks = None \<longleftrightarrow> (\<forall>k\<in>set ks. \<forall>s. map_of picks k = Some (Some s) \<longrightarrow> s = [])"
  by (induction picks ks rule: first_hit.induct) (auto split: option.splits)

lemma map_of_picks: "map_of (map (\<lambda>(k, v). (k, f v)) m) k = map_option f (map_of m k)"
  by (simp add: map_of_map)

lemma map_of_key: "map_of m k = Some v \<Longrightarrow> k \<in> set (map fst m)"
  by (metis map_of_eq_None_iff option.distinct(1) set_map)

lemma pick_sound: "pickConditionalTarget cond t = Some s \<Longrightarrow> leaf_at cond t s"
proof (induction t arbitrary: s)
  case (JObj m)
  then obtain k r where k: "k \<in> set (candidate_keys cond (map fst m))" "map_of m k = Some r"
      "pickConditionalTarget cond r = Some s"
    by (auto simp: map_of_picks dest!: first_hit_Some)
  moreover have "(k, r) \<in> set m" using k(2) by (rule map_of_SomeD)
  ultimately have "leaf_at cond r s" using JObj.IH by fastforce
  moreover have "permitted cond k"
    using k(1) candidate_keys_permitted [OF map_of_key [OF k(2)]] by simp
  ultimately show ?case using k(2) by (auto intro: leaf_obj)
qed simp_all

lemma pick_complete: "leaf_at cond t s \<Longrightarrow> s \<noteq> [] \<Longrightarrow> truthy (pickConditionalTarget cond t)"
proof (induction rule: leaf_at.induct)
  case (leaf_obj m k v s)
  from leaf_obj obtain r where r: "pickConditionalTarget cond v = Some r" "r \<noteq> []"
    by (auto simp: truthy_def split: option.splits)
  have k: "k \<in> set (candidate_keys cond (map fst m))"
    using candidate_keys_permitted [OF map_of_key [OF leaf_obj.hyps(1)]] leaf_obj.hyps(2) by simp
  have "map_of (map (\<lambda>(k, v). (k, pickConditionalTarget cond v)) m) k = Some (Some r)"
    using leaf_obj.hyps(1) r(1) by (simp add: map_of_picks)
  with k r(2) have "pickConditionalTarget cond (JObj m) \<noteq> None"
    by (auto simp: first_hit_None)
  then obtain q where "pickConditionalTarget cond (JObj m) = Some q" by auto
  moreover from this have "q \<noteq> []" by (auto dest: first_hit_Some)
  ultimately show ?case by (simp add: truthy_def)
qed (simp add: truthy_def)

text \<open>
  A conditional target is resolved exactly: the answer is a string the target holds under keys
  that are allowed (any key but \<open>types\<close>, with \<open>node\<close>, \<open>development\<close> and \<open>production\<close> only under
  their condition), and there is a non-empty answer as soon as the target holds a non-empty string
  there, however deep.
\<close>

theorem conditional_target_exact:
  "pred_option (leaf_at cond t) (pickConditionalTarget cond t)
   \<and> (truthy (pickConditionalTarget cond t) \<longleftrightarrow> (\<exists>s. leaf_at cond t s \<and> s \<noteq> []))"
proof
  show "pred_option (leaf_at cond t) (pickConditionalTarget cond t)"
    by (cases "pickConditionalTarget cond t") (auto dest: pick_sound)
  show "truthy (pickConditionalTarget cond t) \<longleftrightarrow> (\<exists>s. leaf_at cond t s \<and> s \<noteq> [])"
    using pick_complete pick_sound by (fastforce simp: truthy_def split: option.splits)
qed

section \<open>The exports field\<close>

text \<open>What may be answered for one of the keys that stand for the subpath.\<close>

definition exact_answer :: "string list \<Rightarrow> (string \<times> json) list \<Rightarrow> string list \<Rightarrow> string \<Rightarrow> bool" where
  "exact_answer cond m subs s \<longleftrightarrow> (\<exists>k\<in>set subs. \<exists>v. map_of m k = Some v \<and> leaf_at cond v s) \<and> s \<noteq> []"

definition pattern_answer :: "string list \<Rightarrow> (string \<times> json) list \<Rightarrow> string list \<Rightarrow> string \<Rightarrow> bool" where
  "pattern_answer cond m subs s \<longleftrightarrow>
     (\<exists>k v star raw. (k, v) \<in> set m \<and> star_char \<in> set k \<and> applyStarTarget k star \<in> set subs
        \<and> leaf_at cond v raw \<and> s = applyStarTarget raw star)"

lemma try_exact_Some: "try_exact cond m subs = Some s \<Longrightarrow> exact_answer cond m subs s"
proof (induction cond m subs rule: try_exact.induct)
  case (2 cond m k ks)
  show ?case
  proof (cases "\<exists>v. map_of m k = Some v \<and> truthy (pickConditionalTarget cond v)")
    case True
    then obtain v where v: "map_of m k = Some v" "truthy (pickConditionalTarget cond v)" by blast
    with "2.prems" have s: "pickConditionalTarget cond v = Some s" by (simp add: Let_def)
    with v show ?thesis using pick_sound [OF s] by (auto simp: exact_answer_def truthy_def)
  next
    case False
    with "2.prems" have "try_exact cond m ks = Some s" by (auto simp: Let_def split: option.splits)
    moreover from False "2.IH" have "try_exact cond m ks = Some s \<Longrightarrow> exact_answer cond m ks s"
      by (cases "map_of m k") auto
    ultimately show ?thesis by (auto simp: exact_answer_def)
  qed
qed simp

lemma try_exact_None: "try_exact cond m subs = None \<Longrightarrow> \<not> exact_answer cond m subs s"
proof (induction cond m subs rule: try_exact.induct)
  case (2 cond m k ks)
  then have rest: "\<not> exact_answer cond m ks s"
    by (cases "map_of m k") (auto simp: Let_def truthy_def split: if_splits)
  have "leaf_at cond v s \<Longrightarrow> s = []" if "map_of m k = Some v" for v
    using "2.prems" that pick_complete [of cond v s] by (auto simp: Let_def truthy_def split: if_splits)
  with rest show ?case by (auto simp: exact_answer_def)
qed (simp add: exact_answer_def)

lemma first_some_Some: "first_some f xs = Some y \<Longrightarrow> \<exists>x\<in>set xs. f x = Some y"
  by (induction f xs rule: first_some.induct) (auto split: option.splits)

lemma try_patterns_Some:
  assumes "try_patterns cond m subs = Some s"
  shows "pattern_answer cond m subs s"
proof -
  from assms obtain k v sub where k: "(k, v) \<in> set m" "star_char \<in> set k" "sub \<in> set subs"
      "try_pattern cond k v sub = Some s"
    by (auto simp: try_patterns_def split: if_splits dest!: first_some_Some)
  then obtain star raw where r: "matchSingleStar k sub = Some star"
      "pickConditionalTarget cond v = Some raw" "s = applyStarTarget raw star"
    by (auto simp: try_pattern_def Let_def split: option.splits if_splits)
  from r(1) k(3) have "applyStarTarget k star \<in> set subs" by (simp add: match_iff_apply)
  with k r show ?thesis using pick_sound [OF r(2)] by (auto simp: pattern_answer_def)
qed

text \<open>
  C24. What \<open>exports\<close> answers for a subpath is either a non-empty string held by the entry of that
  subpath or, when no such entry holds one, the substituted target of a pattern key that matches
  it; nothing else of the package can be reached.
\<close>

theorem exports_encapsulated:
  "pred_option (\<lambda>s. if \<exists>r. exact_answer cond m (keys_to_try sub) r
                    then exact_answer cond m (keys_to_try sub) s
                    else pattern_answer cond m (keys_to_try sub) s)
     (resolveExportsObject (JObj m) sub cond)"
proof (cases "try_exact cond m (keys_to_try sub)")
  case None
  then have "\<not> (\<exists>r. exact_answer cond m (keys_to_try sub) r)" by (auto dest: try_exact_None)
  with None show ?thesis
    by (cases "try_patterns cond m (keys_to_try sub)")
       (auto simp: resolveExportsObject_def dest: try_patterns_Some)
next
  case (Some s)
  with try_exact_Some [OF Some] show ?thesis by (auto simp: resolveExportsObject_def)
qed

section \<open>Specifiers\<close>

text \<open>
  A bare specifier is taken apart without loss: the package name followed by the subpath
  without its dot is the specifier, the name of an unscoped package holds no slash, and only the
  empty specifier is refused.
\<close>

theorem specifier_lossless:
  "(case parsePackageSpecifier spec of
      None \<Rightarrow> spec = []
    | Some p \<Rightarrow> ps_name p @ drop 1 (ps_subpath p) = spec
               \<and> (starts_with spec ''@'' \<or> slash_char \<notin> set (ps_name p))
               \<and> (ps_subpath p = ''.'' \<or> starts_with (ps_subpath p) ''./''))"
proof (cases "spec = []")
  case nonempty: False
  show ?thesis
  proof (cases "starts_with spec ''@''")
    case True
    show ?thesis
    proof (cases rule: index_of_cases [of slash_char spec])
      case absent
      with nonempty True show ?thesis by (simp add: parsePackageSpecifier_def)
    next
      case (present pre post)
      show ?thesis
      proof (cases rule: index_of_cases [of slash_char post])
        case absent
        with nonempty True present show ?thesis by (simp add: parsePackageSpecifier_def)
      next
        case inner: (present pre' post')
        with nonempty True present show ?thesis by (simp add: parsePackageSpecifier_def split_at_def)
      qed
    qed
  next
    case False
    with nonempty show ?thesis
      by (cases rule: index_of_cases [of slash_char spec]) (auto simp: parsePackageSpecifier_def split_at_def)
  qed
qed (simp add: parsePackageSpecifier_def)

section \<open>Where it differs from Node\<close>

text \<open>
  The sugar form of \<open>exports\<close>, an object of conditions without a subpath key, is not resolved at
  all: the main entry of such a package is not found.
\<close>

theorem exports_sugar_not_found:
  "resolveExportsObject (JObj [(''import'', JStr ''./m.js''), (''require'', JStr ''./c.js'')]) ''.'' [''node'', ''import'']
   = None"
  by code_simp

text \<open>The first pattern of the object wins, also where a later one is more specific.\<close>

theorem exports_first_pattern_wins:
  "resolveExportsObject (JObj [(''./*'', JStr ''./lib/*''), (''./internal/*'', JNull)]) ''./internal/x'' [''import'']
   = Some ''./lib/internal/x''"
  by code_simp

text \<open>A condition that is not active is taken when no active one answers.\<close>

theorem exports_inactive_condition:
  "resolveExportsObject (JObj [(''.'', JObj [(''browser'', JStr ''./b.js'')])]) ''.'' [''node'', ''import'']
   = Some ''./b.js''"
  by code_simp

end
