(* ===== verification/Node_Path.thy ===== *)
theory Node_Path
  imports Fs_Path
begin

text \<open>
  The \<open>path\<close> builtin (\<open>pathBridge\<close> in \<open>napi-bridge/browser-builtins.js\<close>), which programs use to
  compute the names they then hand to the file system. Its \<open>resolve\<close> is a second, independent
  implementation of what \<open>resolvePath\<close> of \<open>napi-bridge/memfs.js\<close> does; the theorems relate the two
  and show where they part.

  The working directory (\<open>process.cwd()\<close>) is an argument. An optional string argument that the
  code tests for truth (\<open>ext\<close>, the fields of the object given to \<open>format\<close>) is a string, empty
  when absent.
\<close>

section \<open>The operations\<close>

definition path_normalize :: "string \<Rightarrow> string" where
  "path_normalize p =
     (if starts_with p ''/'' then ''/'' else '''') @ join_with slash (norm_parts (path_parts p))"

definition path_join :: "string list \<Rightarrow> string" where
  "path_join parts = path_normalize (join_with slash (drop_empty parts))"

definition path_isAbsolute :: "string \<Rightarrow> bool" where
  "path_isAbsolute p = starts_with p ''/''"

text \<open>
  The loop of \<open>resolve\<close>, on the reversed arguments: each part goes in front of what is
  resolved so far, up to and including the first absolute one.
\<close>

fun resolve_loop :: "string list \<Rightarrow> string \<Rightarrow> string" where
  "resolve_loop [] resolved = resolved"
| "resolve_loop (p # ps) resolved =
     (let r = p @ ''/'' @ resolved in if starts_with p ''/'' then r else resolve_loop ps r)"

definition path_resolve :: "string \<Rightarrow> string list \<Rightarrow> string" where
  "path_resolve cwd parts =
     (let resolved = resolve_loop (rev parts) ''''
      in path_normalize
           (if \<not> starts_with resolved ''/'' then strip_trailing_slash cwd @ ''/'' @ resolved
            else resolved))"

definition path_dirname :: "string \<Rightarrow> string" where
  "path_dirname p =
     (case last_index_of slash p of
        None \<Rightarrow> ''.''
      | Some idx \<Rightarrow> if take idx p = [] then ''/'' else take idx p)"

definition path_basename :: "string \<Rightarrow> string \<Rightarrow> string" where
  "path_basename p ext =
     (let base = (case last_index_of slash p of None \<Rightarrow> p | Some idx \<Rightarrow> drop (Suc idx) p)
      in if ext \<noteq> [] \<and> ends_with base ext then take (length base - length ext) base else base)"

definition path_extname :: "string \<Rightarrow> string" where
  "path_extname p =
     (let base = path_basename p ''''
      in case last_index_of (CHR ''.'') base of
           None \<Rightarrow> '''' | Some idx \<Rightarrow> if idx = 0 then '''' else drop idx base)"

text \<open>The loop of \<open>relative\<close> that counts the leading components both paths share.\<close>

fun common_count :: "string list \<Rightarrow> string list \<Rightarrow> nat" where
  "common_count (x # xs) (y # ys) = (if x = y then Suc (common_count xs ys) else 0)"
| "common_count _ _ = 0"

definition path_relative :: "string \<Rightarrow> string \<Rightarrow> string \<Rightarrow> string" where
  "path_relative cwd src dst =
     (let fromParts = path_parts (path_resolve cwd [src]);
          toParts = path_parts (path_resolve cwd [dst]);
          common = common_count fromParts toParts;
          ups = length fromParts - common
      in join_with slash (replicate ups ''..'' @ drop common toParts))"

record path_object =
  po_root :: string
  po_dir :: string
  po_base :: string
  po_ext :: string
  po_name :: string

definition path_parse :: "string \<Rightarrow> path_object" where
  "path_parse p =
     \<lparr>po_root = (if starts_with p ''/'' then ''/'' else ''''),
      po_dir = path_dirname p,
      po_base = path_basename p '''',
      po_ext = path_extname p,
      po_name = path_basename p (path_extname p)\<rparr>"

definition path_format :: "path_object \<Rightarrow> string" where
  "path_format ob =
     (let dir = (if po_dir ob \<noteq> [] then po_dir ob else po_root ob);
          base = (if po_base ob \<noteq> [] then po_base ob else po_name ob @ po_ext ob)
      in if dir \<noteq> [] then dir @ ''/'' @ base else base)"

section \<open>Resolution\<close>

lemma path_normalize_absolute: "starts_with p ''/'' \<Longrightarrow> path_normalize p = normalizePath p"
  by (auto simp: path_normalize_def normalizePath_def starts_with_iff)

lemma path_parts_strip_slash [simp]: "path_parts (strip_trailing_slash d) = path_parts d"
proof (cases "d \<noteq> [] \<and> last d = slash")
  case True
  then have d: "d = butlast d @ [slash]" by (metis append_butlast_last_id)
  show ?thesis
    using True path_parts_append_slash [of "butlast d" "[]"] d
    by (simp add: strip_trailing_slash_def)
next
  case False
  then show ?thesis by (simp only: strip_trailing_slash_def if_False)
qed

lemma path_parts_slash_string: "path_parts (xs @ ''/'' @ ys) = path_parts xs @ path_parts ys"
  using path_parts_append_slash [of xs ys] by simp

text \<open>What one argument does to the list of components reached so far.\<close>

definition enter :: "string list \<Rightarrow> string \<Rightarrow> string list" where
  "enter d p = foldl norm_step (if starts_with p ''/'' then [] else d) (path_parts p)"

lemma resolvePath_enter:
  "resolvePath p d = render_path (enter (norm_parts (path_parts d)) p)"
  by (cases "p = []")
    (auto simp: resolvePath_def Let_def normalizePath_render enter_def norm_parts_def
      path_parts_slash_string path_parts_append_slash)

lemma enter_plain: "list_all plain_name d \<Longrightarrow> list_all plain_name (enter d p)"
  unfolding enter_def
  by (rule foldl_norm_step_plain) (auto simp: list_all_iff dest: path_parts_plain)

lemma fold_resolvePath:
  assumes "list_all plain_name d"
  shows "foldl (\<lambda>d p. resolvePath p d) (render_path d) ps = render_path (foldl enter d ps)"
  using assms
proof (induction ps arbitrary: d)
  case (Cons p ps)
  then show ?case
    by (simp add: resolvePath_enter enter_plain)
qed simp

lemma resolve_loop_snoc:
  "resolve_loop (xs @ [p]) r =
     (if \<exists>x \<in> set xs. starts_with x ''/'' then resolve_loop xs r
      else p @ ''/'' @ resolve_loop xs r)"
  by (induction xs arbitrary: r) (auto simp: Let_def)

lemma resolve_loop_enter:
  assumes "if \<exists>p \<in> set ps. starts_with p ''/'' then e = [] else e = d"
  shows "foldl norm_step e (path_parts (resolve_loop (rev ps) [])) = foldl enter d ps"
  using assms
proof (induction ps arbitrary: d e)
  case (Cons p ps)
  show ?case
  proof (cases "\<exists>q \<in> set ps. starts_with q ''/''")
    case True
    then show ?thesis
      using Cons.IH [where d = "enter d p" and e = "[]"] Cons.prems by (simp add: resolve_loop_snoc)
  next
    case False
    have "foldl norm_step (enter d p) (path_parts (resolve_loop (rev ps) [])) = foldl enter (enter d p) ps"
      using Cons.IH [where d = "enter d p" and e = "enter d p"] False by simp
    moreover have "enter d p = foldl norm_step e (path_parts p)"
      using Cons.prems False by (auto simp: enter_def)
    ultimately show ?thesis
      using False by (auto simp: resolve_loop_snoc path_parts_append_slash)
  qed
qed simp

lemma resolve_loop_absolute:
  "starts_with (resolve_loop (rev ps) []) ''/'' \<longleftrightarrow>
     (\<exists>p \<in> set ps. starts_with p ''/'') \<or> (ps \<noteq> [] \<and> hd ps = [])"
proof (induction ps)
  case (Cons p ps)
  show ?case
    using Cons by (cases p) (auto simp: resolve_loop_snoc)
qed (simp add: starts_with_def)

lemma path_resolve_parts:
  assumes "starts_with cwd ''/''" "\<not> (ps \<noteq> [] \<and> hd ps = [])"
  shows "path_resolve cwd ps = render_path (foldl enter (norm_parts (path_parts cwd)) ps)"
proof (cases "\<exists>p \<in> set ps. starts_with p ''/''")
  case True
  then show ?thesis
    using resolve_loop_enter [where ps = ps and e = "[]" and d = "norm_parts (path_parts cwd)"]
    by (simp add: path_resolve_def resolve_loop_absolute path_normalize_absolute normalizePath_render
        norm_parts_def)
next
  case False
  define r where "r = resolve_loop (rev ps) []"
  have "starts_with (strip_trailing_slash cwd @ ''/'' @ r) ''/''"
    using assms(1) by (auto simp: starts_with_iff strip_trailing_slash_def)
  moreover have "norm_parts (path_parts (strip_trailing_slash cwd @ ''/'' @ r)) =
      foldl enter (norm_parts (path_parts cwd)) ps"
    using resolve_loop_enter [where ps = ps and e = "norm_parts (path_parts cwd)"
        and d = "norm_parts (path_parts cwd)"] False
    by (simp add: path_parts_append_slash norm_parts_def r_def)
  ultimately show ?thesis
    using False assms(2) resolve_loop_absolute [of ps]
    by (simp add: path_resolve_def path_normalize_absolute normalizePath_render flip: r_def)
qed

text \<open>
  \<open>path.resolve\<close> of any arguments is the file system's own resolution applied in sequence:
  starting from an absolute working directory, entering each argument in turn with
  \<open>resolvePath\<close> (as successive \<open>cd\<close> commands would) ends at the same canonical path, as long as the
  first argument is not the empty string.
\<close>

theorem path_resolve_is_cd:
  assumes "starts_with cwd ''/''" "parts = [] \<or> hd parts \<noteq> ''''"
  shows "path_resolve cwd parts = foldl (\<lambda>d p. resolvePath p d) (normalizePath cwd) parts
         \<and> canonical_path (path_resolve cwd parts)"
proof -
  have pl: "list_all plain_name (foldl enter d parts)" if "list_all plain_name d" for d
    using that by (induction parts arbitrary: d) (auto simp: enter_plain)
  show ?thesis
    using path_resolve_parts [OF assms(1), of parts] assms(2) pl
    by (auto simp: normalizePath_render fold_resolvePath)
qed

theorem path_resolve_is_cd_witness:
  "path_resolve ''/home/'' [''a/b'', ''../c'', ''.''] =
     foldl (\<lambda>d p. resolvePath p d) (normalizePath ''/home/'') [''a/b'', ''../c'', ''.'']
   \<and> canonical_path (path_resolve ''/home/'' [''a/b'', ''../c'', ''.''])"
  by (rule path_resolve_is_cd) (simp_all add: starts_with_def)

text \<open>
  With an empty first argument the slash put behind it makes the result look absolute, so the
  working directory is dropped: \<open>path.resolve('')\<close> is the root.
\<close>

lemma path_resolve_empty_first:
  "path_resolve cwd [''''] = ''/'' \<and> path_resolve cwd ['''', ''a''] = ''/a''
   \<and> resolvePath '''' ''/home'' = ''/home''"
  by (simp add: path_resolve_def path_normalize_def starts_with_def path_parts_def norm_parts_def
      norm_step_def resolvePath_def normalizePath_def)

section \<open>Relative paths\<close>

text \<open>Where one argument leads; the empty one leads to the root.\<close>

definition landing :: "string \<Rightarrow> string \<Rightarrow> string list" where
  "landing cwd p = (if p = [] then [] else enter (norm_parts (path_parts cwd)) p)"

lemma landing_plain [simp]: "list_all plain_name (landing cwd p)"
  by (simp add: landing_def enter_plain)

lemma path_resolve_one:
  assumes "starts_with cwd ''/''"
  shows "path_resolve cwd [p] = render_path (landing cwd p)"
  using path_resolve_parts [OF assms, of "[p]"] path_resolve_empty_first [of cwd]
  by (auto simp: landing_def)

lemma path_resolve_two:
  assumes "starts_with cwd ''/''" "\<not> starts_with q ''/''"
  shows "path_resolve cwd [p, q] = render_path (enter (landing cwd p) q)"
proof (cases "p = []")
  case True
  then show ?thesis
    using assms(2)
    by (simp add: path_resolve_def path_normalize_absolute normalizePath_render landing_def enter_def
        norm_parts_def path_parts_append_slash)
next
  case False
  then show ?thesis
    using path_resolve_parts [OF assms(1), of "[p, q]"] by (simp add: landing_def)
qed

lemma common_count_take: "take (common_count xs ys) xs = take (common_count xs ys) ys"
  by (induction xs ys rule: common_count.induct) auto

lemma common_count_le: "common_count xs ys \<le> length xs" "common_count xs ys \<le> length ys"
  by (induction xs ys rule: common_count.induct) auto

lemma norm_step_up: "norm_step xs ''..'' = butlast xs"
  by (cases "xs = []") (simp_all add: norm_step_def)

lemma foldl_norm_up:
  "k \<le> length xs \<Longrightarrow> foldl norm_step xs (replicate k ''..'') = take (length xs - k) xs"
proof (induction k arbitrary: xs)
  case (Suc k)
  then have "foldl norm_step (butlast xs) (replicate k ''..'') = take (length (butlast xs) - k) (butlast xs)"
    by (intro Suc.IH) auto
  with Suc.prems show ?case
    by (simp add: norm_step_up take_butlast)
qed simp

lemma plain_parts:
  assumes "list_all plain_name ns"
  shows "path_parts (join_with slash (replicate k ''..'' @ ns)) = replicate k ''..'' @ ns"
proof (rule path_parts_join)
  have "list_all (\<lambda>n. n \<noteq> [] \<and> slash \<notin> set n) ns"
    using assms unfolding list_all_iff plain_name_def by blast
  moreover have "list_all (\<lambda>n. n \<noteq> [] \<and> slash \<notin> set n) (replicate k ''..'')"
    by (induction k) simp_all
  ultimately show "list_all (\<lambda>n. n \<noteq> [] \<and> slash \<notin> set n) (replicate k ''..'' @ ns)"
    by (simp only: list_all_append)
qed

lemma plain_join_relative:
  assumes "list_all plain_name ns"
  shows "\<not> starts_with (join_with slash (replicate k ''..'' @ ns)) ''/''"
proof -
  have "\<not> starts_with (join_with c (x # xs)) [c]" if "x \<noteq> []" "c \<notin> set x" for c :: char and x xs
    using that by (cases x; cases xs) auto
  then show ?thesis
    using assms by (cases k; cases ns) (auto simp: plain_name_def starts_with_def)
qed

text \<open>
  \<open>path.relative(from, to)\<close> is a relative path that leads from \<open>from\<close> to \<open>to\<close>: resolving it
  against \<open>from\<close> gives what resolving \<open>to\<close> gives, for all arguments and every absolute
  working directory.
\<close>

theorem path_relative_leads:
  assumes "starts_with cwd ''/''"
  shows "path_resolve cwd [src, path_relative cwd src dst] = path_resolve cwd [dst]
         \<and> \<not> path_isAbsolute (path_relative cwd src dst)"
proof -
  define fs ts c where "fs = landing cwd src" and "ts = landing cwd dst" and "c = common_count fs ts"
  have pl: "list_all plain_name (drop c ts)"
    using landing_plain [of cwd dst] by (auto simp: ts_def list_all_iff dest: in_set_dropD)
  have rel: "path_relative cwd src dst = join_with slash (replicate (length fs - c) ''..'' @ drop c ts)"
    using assms by (simp add: path_relative_def Let_def path_resolve_one fs_def ts_def c_def)
  have nabs: "\<not> starts_with (path_relative cwd src dst) ''/''"
    unfolding rel by (rule plain_join_relative [OF pl])
  have "foldl norm_step fs (replicate (length fs - c) ''..'') = take c ts"
    using common_count_le [of fs ts] common_count_take [of fs ts] by (simp add: foldl_norm_up c_def)
  then have "enter fs (path_relative cwd src dst) = ts"
    using nabs pl by (simp add: enter_def rel plain_parts foldl_norm_plain)
  then show ?thesis
    using assms nabs by (simp add: path_resolve_one path_resolve_two path_isAbsolute_def fs_def ts_def)
qed

theorem path_relative_leads_witness:
  "path_resolve ''/w'' [''a/b'', path_relative ''/w'' ''a/b'' ''../x''] = path_resolve ''/w'' [''../x'']
   \<and> \<not> path_isAbsolute (path_relative ''/w'' ''a/b'' ''../x'')"
  by (rule path_relative_leads) (simp add: starts_with_def)

section \<open>Taking paths apart\<close>

lemma last_index_of_Some:
  assumes "last_index_of c xs = Some i"
  shows "i < length xs \<and> xs ! i = c \<and> c \<notin> set (drop (Suc i) xs)"
  using assms
  by (induction xs arbitrary: i) (auto simp: last_index_of_None split: option.splits if_splits)

lemma path_dirname_render:
  assumes "plain_name n" "list_all plain_name ns"
  shows "path_dirname (render_path (ns @ [n])) = render_path ns"
    and "path_basename (render_path (ns @ [n])) '''' = n"
  using last_slash_render [OF assms(1), of ns] assms
  by (auto simp: path_dirname_def path_basename_def render_path_def join_with_snoc)

lemma path_name_ext: "path_basename p (path_extname p) @ path_extname p = path_basename p ''''"
proof -
  have *: "ends_with b (drop i b) \<and> take (length b - length (drop i b)) b @ drop i b = b"
    if "i \<le> length b" for i and b :: string
    using that by (auto simp: ends_with_def)
  show ?thesis
    using * [of _ "path_basename p ''''"] last_index_of_Some [of "CHR ''.''" "path_basename p ''''"]
    by (auto simp: path_extname_def path_basename_def Let_def split: option.splits)
qed

text \<open>
  \<open>path.parse\<close> loses nothing: for every canonical path other than the root, \<open>dir\<close> and \<open>base\<close>
  are the parent and the name the file system computes with \<open>parentAndName\<close>, joining them gives
  the path back, \<open>name\<close> and \<open>ext\<close> make up \<open>base\<close>, and \<open>path.format\<close> of the result normalises to
  the path.
\<close>

theorem path_parse_lossless:
  assumes "canonical_path p" "p \<noteq> ''/''"
  shows "parentAndName p = (Some (po_dir (path_parse p)), po_base (path_parse p))
         \<and> path_join [po_dir (path_parse p), po_base (path_parse p)] = p
         \<and> po_name (path_parse p) @ po_ext (path_parse p) = po_base (path_parse p)
         \<and> path_normalize (path_format (path_parse p)) = p"
proof -
  obtain ms where ms: "list_all plain_name ms" "p = render_path ms"
    using assms(1) by (auto simp: canonical_path_def)
  with assms(2) obtain ns n where "ms = ns @ [n]" by (cases ms rule: rev_cases) auto
  with ms have n: "plain_name n" and ns: "list_all plain_name ns" and p: "p = render_path (ns @ [n])"
    by auto
  have ne: "n \<noteq> []" "render_path ns \<noteq> []" using n by (auto simp: plain_name_def render_path_def)
  have parts: "norm_parts (path_parts p) = ns @ [n]" using n ns by (simp add: p)
  have "path_normalize (render_path ns @ slash # n) = p"
  proof -
    have "path_parts n = [n]" using path_parts_join [of "[n]"] n by (simp add: plain_name_def)
    moreover have "starts_with (render_path ns @ slash # n) ''/''" by (simp add: render_path_def)
    ultimately show ?thesis
      using n ns by (simp add: path_normalize_absolute normalizePath_render p path_parts_append_slash)
  qed
  then show ?thesis
    using parentAndName_snoc [OF parts] path_dirname_render [OF n ns] path_name_ext [of p] ne
    by (simp add: path_parse_def path_format_def path_join_def flip: p)
qed

theorem path_parse_lossless_witness:
  "parentAndName ''/a/b.txt'' = (Some (po_dir (path_parse ''/a/b.txt'')), po_base (path_parse ''/a/b.txt''))
   \<and> path_join [po_dir (path_parse ''/a/b.txt''), po_base (path_parse ''/a/b.txt'')] = ''/a/b.txt''
   \<and> po_name (path_parse ''/a/b.txt'') @ po_ext (path_parse ''/a/b.txt'') = po_base (path_parse ''/a/b.txt'')
   \<and> path_normalize (path_format (path_parse ''/a/b.txt'')) = ''/a/b.txt''"
proof (rule path_parse_lossless)
  show "canonical_path ''/a/b.txt''"
    unfolding canonical_path_def
    by (rule exI [of _ "[''a'', ''b.txt'']"]) (simp add: plain_name_def render_path_def)
qed simp

text \<open>
  Without the normalisation \<open>format\<close> doubles the separator after the root and puts \<open>./\<close> before a
  bare name, and \<open>normalize\<close> forgets the leading \<open>..\<close> of a relative path.
\<close>

lemma path_format_doubles:
  "path_format (path_parse ''/a'') = ''//a'' \<and> path_format (path_parse ''a'') = ''./a''
   \<and> path_normalize ''../a'' = ''a'' \<and> path_normalize '''' = ''''"
  by (simp add: path_format_def path_parse_def path_dirname_def path_basename_def path_extname_def
      path_normalize_def path_parts_def norm_parts_def norm_step_def starts_with_def)

end
