(* ===== verification/Fips180.thy ===== *)
theory Fips180
  imports Complex_Main Prelude
begin

text \<open>
  The secure hash standard and HMAC as their standards state them (FIPS 180-4, FIPS 198-1), on
  messages that are lists of bytes. This theory is the specification side of the \<open>crypto\<close>
  builtin: nothing here is translated from the program. Words are \<^typ>\<open>'a word\<close> with their
  arithmetic modulo \<open>2^w\<close>; the message schedule is the standard's recursion and the working
  variables after \<open>t\<close> rounds are a primitive recursion on \<open>t\<close>.
\<close>

unbundle bit_operations_syntax

section \<open>Bytes, words, padding\<close>

definition be_bytes :: "nat \<Rightarrow> nat \<Rightarrow> byte list" where
  "be_bytes n v = rev (le_bytes n v)"

lemma length_be_bytes [simp]: "length (be_bytes n v) = n"
  by (simp add: be_bytes_def)

text \<open>The \<open>k\<close> zero bytes that bring the padded message to a multiple of the block.\<close>

definition pad_zeros :: "nat \<Rightarrow> nat \<Rightarrow> nat \<Rightarrow> nat" where
  "pad_zeros block field n = (block - (n + 1 + field) mod block) mod block"

definition fips_pad :: "nat \<Rightarrow> nat \<Rightarrow> byte list \<Rightarrow> byte list" where
  "fips_pad block field msg =
     msg @ [0x80] @ replicate (pad_zeros block field (length msg)) 0 @ be_bytes field (8 * length msg)"

text \<open>The number of zeros is the least one, as the standard asks.\<close>

lemma pad_zeros_least:
  assumes "0 < block"
  shows "(n + 1 + pad_zeros block field n + field) mod block = 0"
    and "(n + 1 + k + field) mod block = 0 \<Longrightarrow> pad_zeros block field n \<le> k"
proof -
  define m where "m = (n + 1 + field) mod block"
  have m: "m < block" using assms by (simp add: m_def)
  have split: "(n + 1 + k + field) mod block = (m + k) mod block" for k
    by (simp add: m_def mod_simps add.assoc add.left_commute add.commute)
  have z: "pad_zeros block field n = (block - m) mod block" by (simp add: pad_zeros_def m_def)
  show "(n + 1 + pad_zeros block field n + field) mod block = 0"
    using m unfolding split z by (cases "m = 0") (simp_all add: mod_simps)
  assume k: "(n + 1 + k + field) mod block = 0"
  show "pad_zeros block field n \<le> k"
  proof (cases "m = 0 \<or> k \<ge> block")
    case True
    have "pad_zeros block field n < block" using assms by (simp add: pad_zeros_def)
    with True show ?thesis by (auto simp: z)
  next
    case False
    have "block \<le> m + k"
    proof (rule ccontr)
      assume "\<not> block \<le> m + k"
      then have "(m + k) mod block = m + k" by simp
      with k False show False unfolding split by simp
    qed
    with z False m show ?thesis by simp
  qed
qed

fun chunked :: "nat \<Rightarrow> 'a list \<Rightarrow> 'a list list" where
  "chunked n xs = (if xs = [] \<or> n = 0 then [] else take n xs # chunked n (drop n xs))"

declare chunked.simps [simp del]

text \<open>The \<open>i\<close>-th big-endian word of a block.\<close>

definition be_word :: "byte list \<Rightarrow> 'a::len word" where
  "be_word bs = of_nat (le_value (rev bs))"

definition block_word :: "byte list \<Rightarrow> nat \<Rightarrow> 'a::len word" where
  "block_word M i = (let b = LENGTH('a) div 8 in be_word (take b (drop (b * i) M)))"

definition word_bytes :: "'a::len word \<Rightarrow> byte list" where
  "word_bytes w = be_bytes (LENGTH('a) div 8) (unat w)"

section \<open>The functions of the standard\<close>

definition Ch :: "'a::len word \<Rightarrow> 'a word \<Rightarrow> 'a word \<Rightarrow> 'a word" where
  "Ch x y z = (x AND y) XOR (NOT x AND z)"

definition Maj :: "'a::len word \<Rightarrow> 'a word \<Rightarrow> 'a word \<Rightarrow> 'a word" where
  "Maj x y z = (x AND y) XOR (x AND z) XOR (y AND z)"

definition Parity :: "'a::len word \<Rightarrow> 'a word \<Rightarrow> 'a word \<Rightarrow> 'a word" where
  "Parity x y z = x XOR y XOR z"

text \<open>\<open>Sigma\<close> functions: three rotations, or two rotations and a shift.\<close>

definition rot3 :: "nat \<Rightarrow> nat \<Rightarrow> nat \<Rightarrow> 'a::len word \<Rightarrow> 'a word" where
  "rot3 i j k x = word_rotr i x XOR word_rotr j x XOR word_rotr k x"

definition rot2_shift :: "nat \<Rightarrow> nat \<Rightarrow> nat \<Rightarrow> 'a::len word \<Rightarrow> 'a word" where
  "rot2_shift i j k x = word_rotr i x XOR word_rotr j x XOR drop_bit k x"

section \<open>The constants\<close>

text \<open>
  The round constants and initial values of the SHA-2 family are bits of the fractional parts of
  cube and square roots of primes; those of SHA-1 are \<open>2^30\<close> times square roots.
\<close>

definition root_bits :: "nat \<Rightarrow> nat \<Rightarrow> int \<Rightarrow> int" where
  "root_bits n w p = \<lfloor>2 ^ w * root n (of_int p)\<rfloor> mod 2 ^ w"

definition first_primes :: "int list" where
  "first_primes =
    [2, 3, 5, 7, 11, 13, 17, 19, 23, 29, 31, 37, 41, 43, 47, 53, 59, 61, 67, 71, 73, 79, 83, 89, 97,
     101, 103, 107, 109, 113, 127, 131, 137, 139, 149, 151, 157, 163, 167, 173, 179, 181, 191, 193,
     197, 199, 211, 223, 227, 229, 233, 239, 241, 251, 257, 263, 269, 271, 277, 281, 283, 293, 307,
     311, 313, 317, 331, 337, 347, 349, 353, 359, 367, 373, 379, 383, 389, 397, 401, 409]"

text \<open>An integer that encloses the root, checked with integer powers only.\<close>

definition encloses :: "nat \<Rightarrow> int \<Rightarrow> int \<Rightarrow> int \<Rightarrow> bool" where
  "encloses n scale p m \<longleftrightarrow> 0 \<le> m \<and> m ^ n \<le> p * scale ^ n \<and> p * scale ^ n < (m + 1) ^ n"

lemma floor_root:
  assumes "0 < n" "0 \<le> p" "encloses n scale p m" "0 \<le> scale"
  shows "\<lfloor>of_int scale * root n (real_of_int p)\<rfloor> = m"
proof -
  have m: "0 \<le> m" and lo: "m ^ n \<le> p * scale ^ n" and hi: "p * scale ^ n < (m + 1) ^ n"
    using assms(3) by (auto simp: encloses_def)
  define x where "x = of_int scale * root n (real_of_int p)"
  have x0: "0 \<le> x" using assms(2,4) by (simp add: x_def real_root_ge_zero)
  have "x ^ n = of_int scale ^ n * root n (real_of_int p) ^ n" by (simp add: x_def power_mult_distrib)
  also have "\<dots> = real_of_int (p * scale ^ n)"
    using assms(1,2) by (simp add: real_root_pow_pos2)
  finally have xn: "x ^ n = real_of_int (p * scale ^ n)" .
  have "real_of_int m ^ n \<le> x ^ n"
    unfolding xn using lo by (metis of_int_le_iff of_int_power)
  then have "real_of_int m \<le> x"
    using m x0 assms(1) by (simp add: power_mono_iff)
  moreover have "x ^ n < (real_of_int m + 1) ^ n"
    unfolding xn using hi by (metis of_int_1 of_int_add of_int_less_iff of_int_power)
  then have "x < real_of_int m + 1"
    by (rule power_less_imp_less_base) (use m in simp)
  ultimately show ?thesis
    by (simp add: floor_eq_iff flip: x_def)
qed

definition encloses_frac :: "nat \<Rightarrow> int \<Rightarrow> int \<Rightarrow> int \<Rightarrow> bool" where
  "encloses_frac n scale p k \<longleftrightarrow>
     0 \<le> k \<and> k < scale \<and>
     encloses n scale p (int (length (takeWhile (\<lambda>c. int c ^ n \<le> p) [1..<25])) * scale + k)"

lemma root_bits_encloses:
  assumes "0 < n" "0 \<le> p" "encloses_frac n scale p k" "scale = 2 ^ w"
  shows "root_bits n w p = k"
proof -
  from assms(3) obtain c where k: "0 \<le> k" "k < 2 ^ w" and "encloses n scale p (c * 2 ^ w + k)"
    by (auto simp: encloses_frac_def assms(4))
  from floor_root [OF assms(1,2) this(3)] k assms(4) show ?thesis
    by (simp add: root_bits_def)
qed

section \<open>SHA-2\<close>

type_synonym 'w eight = "'w \<times> 'w \<times> 'w \<times> 'w \<times> 'w \<times> 'w \<times> 'w \<times> 'w"

record 'w sha2 =
  s2_K :: "nat \<Rightarrow> 'w"
  s2_rounds :: nat
  s2_Big0 :: "'w \<Rightarrow> 'w"
  s2_Big1 :: "'w \<Rightarrow> 'w"
  s2_small0 :: "'w \<Rightarrow> 'w"
  s2_small1 :: "'w \<Rightarrow> 'w"

fun sha2_W :: "'a::len word sha2 \<Rightarrow> byte list \<Rightarrow> nat \<Rightarrow> 'a word" where
  "sha2_W P M t =
     (if t < 16 then block_word M t
      else s2_small1 P (sha2_W P M (t - 2)) + sha2_W P M (t - 7)
         + s2_small0 P (sha2_W P M (t - 15)) + sha2_W P M (t - 16))"

declare sha2_W.simps [simp del]

definition sha2_step :: "'a::len word sha2 \<Rightarrow> 'a word \<Rightarrow> nat \<Rightarrow> 'a word eight \<Rightarrow> 'a word eight" where
  "sha2_step P w t = (\<lambda>(a, b, c, d, e, f, g, h).
     let T1 = h + s2_Big1 P e + Ch e f g + s2_K P t + w;
         T2 = s2_Big0 P a + Maj a b c
     in (T1 + T2, a, b, c, d + T1, e, f, g))"

primrec sha2_vars :: "'a::len word sha2 \<Rightarrow> byte list \<Rightarrow> 'a word eight \<Rightarrow> nat \<Rightarrow> 'a word eight" where
  "sha2_vars P M H 0 = H"
| "sha2_vars P M H (Suc t) = sha2_step P (sha2_W P M t) t (sha2_vars P M H t)"

definition add8 :: "'a::len word eight \<Rightarrow> 'a word eight \<Rightarrow> 'a word eight" where
  "add8 = (\<lambda>(a, b, c, d, e, f, g, h) (a', b', c', d', e', f', g', h').
     (a + a', b + b', c + c', d + d', e + e', f + f', g + g', h + h'))"

definition sha2_block :: "'a::len word sha2 \<Rightarrow> 'a word eight \<Rightarrow> byte list \<Rightarrow> 'a word eight" where
  "sha2_block P H M = add8 H (sha2_vars P M H (s2_rounds P))"

definition digest8 :: "'a::len word eight \<Rightarrow> byte list" where
  "digest8 = (\<lambda>(a, b, c, d, e, f, g, h). concat (map word_bytes [a, b, c, d, e, f, g, h]))"

definition sha2_hash :: "'a::len word sha2 \<Rightarrow> 'a word eight \<Rightarrow> byte list \<Rightarrow> byte list" where
  "sha2_hash P IV msg =
     (let block = 2 * LENGTH('a)
      in digest8 (foldl (sha2_block P) IV (chunked block (fips_pad block (block div 8) msg))))"

text \<open>The initial value made of the square roots of eight consecutive primes.\<close>

definition root_IV :: "nat \<Rightarrow> 'a::len word eight" where
  "root_IV i = (let r = (\<lambda>j. of_int (root_bits 2 LENGTH('a) (first_primes ! (i + j))))
     in (r 0, r 1, r 2, r 3, r 4, r 5, r 6, r 7))"

definition SHA256_params :: "32 word sha2" where
  "SHA256_params = \<lparr>s2_K = \<lambda>t. of_int (root_bits 3 32 (first_primes ! t)), s2_rounds = 64,
     s2_Big0 = rot3 2 13 22, s2_Big1 = rot3 6 11 25,
     s2_small0 = rot2_shift 7 18 3, s2_small1 = rot2_shift 17 19 10\<rparr>"

definition SHA512_params :: "64 word sha2" where
  "SHA512_params = \<lparr>s2_K = \<lambda>t. of_int (root_bits 3 64 (first_primes ! t)), s2_rounds = 80,
     s2_Big0 = rot3 28 34 39, s2_Big1 = rot3 14 18 41,
     s2_small0 = rot2_shift 1 8 7, s2_small1 = rot2_shift 19 61 6\<rparr>"

definition SHA256 :: "byte list \<Rightarrow> byte list" where
  "SHA256 = sha2_hash SHA256_params (root_IV 0)"

definition SHA512 :: "byte list \<Rightarrow> byte list" where
  "SHA512 = sha2_hash SHA512_params (root_IV 0)"

definition SHA384 :: "byte list \<Rightarrow> byte list" where
  "SHA384 msg = take 48 (sha2_hash SHA512_params (root_IV 8) msg)"

section \<open>SHA-1\<close>

type_synonym 'w five = "'w \<times> 'w \<times> 'w \<times> 'w \<times> 'w"

fun sha1_W :: "byte list \<Rightarrow> nat \<Rightarrow> u32" where
  "sha1_W M t =
     (if t < 16 then block_word M t
      else word_rotl 1 (sha1_W M (t - 3) XOR sha1_W M (t - 8) XOR sha1_W M (t - 14) XOR sha1_W M (t - 16)))"

declare sha1_W.simps [simp del]

definition sha1_f :: "nat \<Rightarrow> u32 \<Rightarrow> u32 \<Rightarrow> u32 \<Rightarrow> u32" where
  "sha1_f t = (if t < 20 then Ch else if t < 40 then Parity else if t < 60 then Maj else Parity)"

definition sha1_K :: "nat \<Rightarrow> u32" where
  "sha1_K t = of_int \<lfloor>2 ^ 30 * sqrt (if t < 20 then 2 else if t < 40 then 3 else if t < 60 then 5 else 10)\<rfloor>"

definition sha1_step :: "u32 \<Rightarrow> nat \<Rightarrow> u32 five \<Rightarrow> u32 five" where
  "sha1_step w t = (\<lambda>(a, b, c, d, e).
     (word_rotl 5 a + sha1_f t b c d + e + sha1_K t + w, a, word_rotl 30 b, c, d))"

primrec sha1_vars :: "byte list \<Rightarrow> u32 five \<Rightarrow> nat \<Rightarrow> u32 five" where
  "sha1_vars M H 0 = H"
| "sha1_vars M H (Suc t) = sha1_step (sha1_W M t) t (sha1_vars M H t)"

definition sha1_block :: "u32 five \<Rightarrow> byte list \<Rightarrow> u32 five" where
  "sha1_block H M =
     (case (H, sha1_vars M H 80) of
        ((a, b, c, d, e), (a', b', c', d', e')) \<Rightarrow> (a + a', b + b', c + c', d + d', e + e'))"

definition SHA1_IV :: "u32 five" where
  "SHA1_IV = (0x67452301, 0xefcdab89, 0x98badcfe, 0x10325476, 0xc3d2e1f0)"

definition SHA1 :: "byte list \<Rightarrow> byte list" where
  "SHA1 msg =
     (case foldl sha1_block SHA1_IV (chunked 64 (fips_pad 64 8 msg)) of
        (a, b, c, d, e) \<Rightarrow> concat (map word_bytes [a, b, c, d, e]))"

section \<open>HMAC\<close>

definition hmac_key :: "nat \<Rightarrow> (byte list \<Rightarrow> byte list) \<Rightarrow> byte list \<Rightarrow> byte list" where
  "hmac_key B hash key =
     (let k = (if length key > B then hash key else key) in k @ replicate (B - length k) 0)"

definition HMAC :: "nat \<Rightarrow> (byte list \<Rightarrow> byte list) \<Rightarrow> byte list \<Rightarrow> byte list \<Rightarrow> byte list" where
  "HMAC B hash key msg =
     (let k0 = hmac_key B hash key
      in hash (map (\<lambda>b. b XOR 0x5c) k0 @ hash (map (\<lambda>b. b XOR 0x36) k0 @ msg)))"

end
