(* ===== verification/Node_Crypto.thy ===== *)
theory Node_Crypto
  imports Fips180
begin

text \<open>
  The hashing half of the \<open>crypto\<close> builtin (\<open>cryptoBridge\<close> in
  \<open>napi-bridge/browser-builtins.js\<close>): the pure JavaScript SHA-1, SHA-256, SHA-384 and SHA-512, the
  dispatch by name, HMAC, and the hash objects with their \<open>update\<close> and \<open>digest\<close>.

  Bytes are \<^typ>\<open>byte\<close>; the 32-bit arithmetic of SHA-1 and SHA-256, which the code keeps in
  range with \<open>>>> 0\<close>, is \<^typ>\<open>u32\<close> (the intermediate sums of doubles stay below \<open>2^53\<close>, so
  \<open>>>> 0\<close> is the reduction modulo \<open>2^32\<close>). SHA-512 works on unbounded \<open>BigInt\<close>s with explicit
  masks: those are \<^typ>\<open>int\<close>, and every \<open>&\<close> of the code is an \<open>AND\<close> here.
\<close>

unbundle bit_operations_syntax

section \<open>DataView\<close>

text \<open>
  \<open>setUint32(p, v, false)\<close> and \<open>getUint32(p, false)\<close> at an offset the view has room for: the
  four bytes are the big-endian value.
\<close>

definition setUint32 :: "byte list \<Rightarrow> nat \<Rightarrow> u32 \<Rightarrow> byte list" where
  "setUint32 buf p v = take p buf @ be_bytes 4 (unat v) @ drop (p + 4) buf"

definition getUint32 :: "byte list \<Rightarrow> nat \<Rightarrow> u32" where
  "getUint32 buf p = be_word (take 4 (drop p buf))"

text \<open>\<open>for (let off = 0; off < totalLen; off += n) body\<close>\<close>

function for_blocks :: "nat \<Rightarrow> nat \<Rightarrow> (nat \<Rightarrow> 's \<Rightarrow> 's) \<Rightarrow> nat \<Rightarrow> 's \<Rightarrow> 's" where
  "for_blocks n totalLen body off s =
     (if off < totalLen \<and> 0 < n then for_blocks n totalLen body (off + n) (body off s) else s)"
  by auto
termination by (relation "measure (\<lambda>(n, totalLen, body, off, s). totalLen - off)") auto

declare for_blocks.simps [simp del]

section \<open>SHA-256\<close>

definition SHA256_K :: "u32 list" where
  "SHA256_K =
    concat
      [[0x428a2f98, 0x71374491, 0xb5c0fbcf, 0xe9b5dba5],
       [0x3956c25b, 0x59f111f1, 0x923f82a4, 0xab1c5ed5],
       [0xd807aa98, 0x12835b01, 0x243185be, 0x550c7dc3],
       [0x72be5d74, 0x80deb1fe, 0x9bdc06a7, 0xc19bf174],
       [0xe49b69c1, 0xefbe4786, 0x0fc19dc6, 0x240ca1cc],
       [0x2de92c6f, 0x4a7484aa, 0x5cb0a9dc, 0x76f988da],
       [0x983e5152, 0xa831c66d, 0xb00327c8, 0xbf597fc7],
       [0xc6e00bf3, 0xd5a79147, 0x06ca6351, 0x14292967],
       [0x27b70a85, 0x2e1b2138, 0x4d2c6dfc, 0x53380d13],
       [0x650a7354, 0x766a0abb, 0x81c2c92e, 0x92722c85],
       [0xa2bfe8a1, 0xa81a664b, 0xc24b8b70, 0xc76c51a3],
       [0xd192e819, 0xd6990624, 0xf40e3585, 0x106aa070],
       [0x19a4c116, 0x1e376c08, 0x2748774c, 0x34b0bcb5],
       [0x391c0cb3, 0x4ed8aa4a, 0x5b9cca4f, 0x682e6ff3],
       [0x748f82ee, 0x78a5636f, 0x84c87814, 0x8cc70208],
       [0x90befffa, 0xa4506ceb, 0xbef9a3f7, 0xc67178f2]]"

text \<open>The padding of \<open>_sha256\<close> and \<open>_sha1\<close>: only the low 32 bits of the bit length are written.\<close>

definition padLen :: "nat \<Rightarrow> nat" where
  "padLen len = 64 - (len + 9) mod 64"

definition totalLen :: "nat \<Rightarrow> nat" where
  "totalLen len = len + 1 + (if padLen len = 64 then 0 else padLen len) + 8"

definition sha_buf :: "byte list \<Rightarrow> byte list" where
  "sha_buf msg =
     (let total_len = totalLen (length msg);
          buf = (msg @ replicate (total_len - length msg) 0)[length msg := 0x80]
      in setUint32 buf (total_len - 4) (of_nat (length msg * 8)))"

definition sha256_extend :: "u32 list \<Rightarrow> nat \<Rightarrow> u32" where
  "sha256_extend w i =
     (let w15 = w ! (i - 15); w2 = w ! (i - 2);
          s0 = (drop_bit 7 w15 OR push_bit 25 w15) XOR (drop_bit 18 w15 OR push_bit 14 w15) XOR drop_bit 3 w15;
          s1 = (drop_bit 17 w2 OR push_bit 15 w2) XOR (drop_bit 19 w2 OR push_bit 13 w2) XOR drop_bit 10 w2
      in w ! (i - 16) + s0 + w ! (i - 7) + s1)"

text \<open>The array \<open>w\<close> is refilled for every block, entry by entry.\<close>

definition sha256_w :: "byte list \<Rightarrow> nat \<Rightarrow> u32 list" where
  "sha256_w buf off =
     foldl (\<lambda>w i. w @ [sha256_extend w i]) (map (\<lambda>i. getUint32 buf (off + i * 4)) [0..<16]) [16..<64]"

definition sha256_round :: "u32 list \<Rightarrow> u32 eight \<Rightarrow> nat \<Rightarrow> u32 eight" where
  "sha256_round w = (\<lambda>(a, b, c, d, e, f, g, h) i.
     let S1 = (drop_bit 6 e OR push_bit 26 e) XOR (drop_bit 11 e OR push_bit 21 e) XOR (drop_bit 25 e OR push_bit 7 e);
         ch = (e AND f) XOR (NOT e AND g);
         temp1 = h + S1 + ch + SHA256_K ! i + w ! i;
         S0 = (drop_bit 2 a OR push_bit 30 a) XOR (drop_bit 13 a OR push_bit 19 a) XOR (drop_bit 22 a OR push_bit 10 a);
         maj = (a AND b) XOR (a AND c) XOR (b AND c);
         temp2 = S0 + maj
     in (temp1 + temp2, a, b, c, d + temp1, e, f, g))"

definition sha256_compress :: "byte list \<Rightarrow> nat \<Rightarrow> u32 eight \<Rightarrow> u32 eight" where
  "sha256_compress buf off H =
     (case (H, foldl (sha256_round (sha256_w buf off)) H [0..<64]) of
        ((h0, h1, h2, h3, h4, h5, h6, h7), (a, b, c, d, e, f, g, h)) \<Rightarrow>
           (h0 + a, h1 + b, h2 + c, h3 + d, h4 + e, h5 + f, h6 + g, h7 + h))"

definition sha256_h0 :: "u32 eight" where
  "sha256_h0 = (0x6a09e667, 0xbb67ae85, 0x3c6ef372, 0xa54ff53a, 0x510e527f, 0x9b05688c, 0x1f83d9ab, 0x5be0cd19)"

definition sha256 :: "byte list \<Rightarrow> byte list" where
  "sha256 msg =
     (let buf = sha_buf msg
      in case for_blocks 64 (length buf) (sha256_compress buf) 0 sha256_h0 of
           (h0, h1, h2, h3, h4, h5, h6, h7) \<Rightarrow>
             fold (\<lambda>(p, v) out. setUint32 out p v)
               [(0, h0), (4, h1), (8, h2), (12, h3), (16, h4), (20, h5), (24, h6), (28, h7)]
               (replicate 32 0))"

section \<open>SHA-1\<close>

definition sha1_extend :: "u32 list \<Rightarrow> nat \<Rightarrow> u32" where
  "sha1_extend w i =
     (let x = w ! (i - 3) XOR w ! (i - 8) XOR w ! (i - 14) XOR w ! (i - 16)
      in push_bit 1 x OR drop_bit 31 x)"

definition sha1_w :: "byte list \<Rightarrow> nat \<Rightarrow> u32 list" where
  "sha1_w buf off =
     foldl (\<lambda>w i. w @ [sha1_extend w i]) (map (\<lambda>i. getUint32 buf (off + i * 4)) [0..<16]) [16..<80]"

definition sha1_round :: "u32 list \<Rightarrow> u32 five \<Rightarrow> nat \<Rightarrow> u32 five" where
  "sha1_round w = (\<lambda>(a, b, c, d, e) i.
     let (f, k) =
           (if i < 20 then ((b AND c) OR (NOT b AND d), 0x5A827999)
            else if i < 40 then (b XOR c XOR d, 0x6ED9EBA1)
            else if i < 60 then ((b AND c) OR (b AND d) OR (c AND d), 0x8F1BBCDC)
            else (b XOR c XOR d, 0xCA62C1D6));
         temp = (push_bit 5 a OR drop_bit 27 a) + f + e + k + w ! i
     in (temp, a, push_bit 30 b OR drop_bit 2 b, c, d))"

definition sha1_compress :: "byte list \<Rightarrow> nat \<Rightarrow> u32 five \<Rightarrow> u32 five" where
  "sha1_compress buf off H =
     (case (H, foldl (sha1_round (sha1_w buf off)) H [0..<80]) of
        ((h0, h1, h2, h3, h4), (a, b, c, d, e)) \<Rightarrow> (h0 + a, h1 + b, h2 + c, h3 + d, h4 + e))"

definition sha1_h0 :: "u32 five" where
  "sha1_h0 = (0x67452301, 0xEFCDAB89, 0x98BADCFE, 0x10325476, 0xC3D2E1F0)"

definition sha1 :: "byte list \<Rightarrow> byte list" where
  "sha1 msg =
     (let buf = sha_buf msg
      in case for_blocks 64 (length buf) (sha1_compress buf) 0 sha1_h0 of
           (h0, h1, h2, h3, h4) \<Rightarrow>
             fold (\<lambda>(p, v) out. setUint32 out p v)
               [(0, h0), (4, h1), (8, h2), (12, h3), (16, h4)] (replicate 20 0))"

section \<open>SHA-512 and SHA-384\<close>

definition SHA512_K :: "int list" where
  "SHA512_K =
    concat
      [[0x428a2f98d728ae22, 0x7137449123ef65cd, 0xb5c0fbcfec4d3b2f, 0xe9b5dba58189dbbc],
       [0x3956c25bf348b538, 0x59f111f1b605d019, 0x923f82a4af194f9b, 0xab1c5ed5da6d8118],
       [0xd807aa98a3030242, 0x12835b0145706fbe, 0x243185be4ee4b28c, 0x550c7dc3d5ffb4e2],
       [0x72be5d74f27b896f, 0x80deb1fe3b1696b1, 0x9bdc06a725c71235, 0xc19bf174cf692694],
       [0xe49b69c19ef14ad2, 0xefbe4786384f25e3, 0x0fc19dc68b8cd5b5, 0x240ca1cc77ac9c65],
       [0x2de92c6f592b0275, 0x4a7484aa6ea6e483, 0x5cb0a9dcbd41fbd4, 0x76f988da831153b5],
       [0x983e5152ee66dfab, 0xa831c66d2db43210, 0xb00327c898fb213f, 0xbf597fc7beef0ee4],
       [0xc6e00bf33da88fc2, 0xd5a79147930aa725, 0x06ca6351e003826f, 0x142929670a0e6e70],
       [0x27b70a8546d22ffc, 0x2e1b21385c26c926, 0x4d2c6dfc5ac42aed, 0x53380d139d95b3df],
       [0x650a73548baf63de, 0x766a0abb3c77b2a8, 0x81c2c92e47edaee6, 0x92722c851482353b],
       [0xa2bfe8a14cf10364, 0xa81a664bbc423001, 0xc24b8b70d0f89791, 0xc76c51a30654be30],
       [0xd192e819d6ef5218, 0xd69906245565a910, 0xf40e35855771202a, 0x106aa07032bbd1b8],
       [0x19a4c116b8d2d0c8, 0x1e376c085141ab53, 0x2748774cdf8eeb99, 0x34b0bcb5e19b48a8],
       [0x391c0cb3c5c95a63, 0x4ed8aa4ae3418acb, 0x5b9cca4f7763e373, 0x682e6ff3d6b2b8a3],
       [0x748f82ee5defb2fc, 0x78a5636f43172f60, 0x84c87814a1f0ab72, 0x8cc702081a6439ec],
       [0x90befffa23631e28, 0xa4506cebde82bde9, 0xbef9a3f7b2c67915, 0xc67178f2e372532b],
       [0xca273eceea26619c, 0xd186b8c721c0c207, 0xeada7dd6cde0eb1e, 0xf57d4f7fee6ed178],
       [0x06f067aa72176fba, 0x0a637dc5a2c898a6, 0x113f9804bef90dae, 0x1b710b35131c471b],
       [0x28db77f523047d84, 0x32caab7b40c72493, 0x3c9ebe0a15c9bebc, 0x431d67c49c100d4c],
       [0x4cc5d4becb3e42b6, 0x597f299cfc657e2a, 0x5fcb6fab3ad6faec, 0x6c44198c4a475817]]"

definition M64 :: int where
  "M64 = 0xFFFFFFFFFFFFFFFF"

definition SHA512_IV :: "int list" where
  "SHA512_IV =
    concat
      [[0x6a09e667f3bcc908, 0xbb67ae8584caa73b, 0x3c6ef372fe94f82b, 0xa54ff53a5f1d36f1],
       [0x510e527fade682d1, 0x9b05688c2b3e6c1f, 0x1f83d9abfb41bd6b, 0x5be0cd19137e2179]]"

definition SHA384_IV :: "int list" where
  "SHA384_IV =
    concat
      [[0xcbbb9d5dc1059ed8, 0x629a292a367cd507, 0x9159015a3070dd17, 0x152fecd8f70e5939],
       [0x67332667ffc00b31, 0x8eb44a8768581511, 0xdb0c2e0d64f98fa7, 0x47b5481dbefa4fa4]]"

text \<open>\<open>dv.setUint32(p, Number(x & 0xFFFFFFFFn), false)\<close>\<close>

definition set_low32 :: "byte list \<Rightarrow> nat \<Rightarrow> int \<Rightarrow> byte list" where
  "set_low32 buf p x = setUint32 buf p (of_int (x AND 0xFFFFFFFF))"

definition sha512_total :: "nat \<Rightarrow> nat" where
  "sha512_total msgLen = (let n = msgLen + 1 + 16 in n + (128 - n mod 128) mod 128)"

definition sha512_buf :: "byte list \<Rightarrow> byte list" where
  "sha512_buf msg =
     (let bitLen = int (length msg) * 8;
          total_len = sha512_total (length msg);
          buf = (msg @ replicate (total_len - length msg) 0)[length msg := 0x80]
      in set_low32 (set_low32 buf (total_len - 4) bitLen) (total_len - 8) (drop_bit 32 bitLen))"

definition sha512_extend :: "int list \<Rightarrow> nat \<Rightarrow> int" where
  "sha512_extend w i =
     (let w2 = w ! (i - 2);
          s1 = ((drop_bit 19 w2 OR push_bit 45 w2) XOR (drop_bit 61 w2 OR push_bit 3 w2) XOR drop_bit 6 w2) AND M64;
          w15 = w ! (i - 15);
          s0 = ((drop_bit 1 w15 OR push_bit 63 w15) XOR (drop_bit 8 w15 OR push_bit 56 w15) XOR drop_bit 7 w15) AND M64
      in (w ! (i - 16) + s0 + w ! (i - 7) + s1) AND M64)"

definition sha512_w :: "byte list \<Rightarrow> nat \<Rightarrow> int list" where
  "sha512_w buf off =
     foldl (\<lambda>w i. w @ [sha512_extend w i])
       (map (\<lambda>i. push_bit 32 (uint (getUint32 buf (off + i * 8))) OR uint (getUint32 buf (off + i * 8 + 4))) [0..<16])
       [16..<80]"

definition sha512_round :: "int list \<Rightarrow> int eight \<Rightarrow> nat \<Rightarrow> int eight" where
  "sha512_round w = (\<lambda>(a, b, c, d, e, f, g, h) i.
     let S1 = ((drop_bit 14 e OR push_bit 50 e) XOR (drop_bit 18 e OR push_bit 46 e) XOR (drop_bit 41 e OR push_bit 23 e)) AND M64;
         ch = ((e AND f) XOR ((NOT e AND M64) AND g)) AND M64;
         temp1 = (h + S1 + ch + SHA512_K ! i + w ! i) AND M64;
         S0 = ((drop_bit 28 a OR push_bit 36 a) XOR (drop_bit 34 a OR push_bit 30 a) XOR (drop_bit 39 a OR push_bit 25 a)) AND M64;
         maj = ((a AND b) XOR (a AND c) XOR (b AND c)) AND M64;
         temp2 = (S0 + maj) AND M64
     in ((temp1 + temp2) AND M64, a, b, c, (d + temp1) AND M64, e, f, g))"

definition sha512_compress :: "byte list \<Rightarrow> nat \<Rightarrow> int eight \<Rightarrow> int eight" where
  "sha512_compress buf off H =
     (case (H, foldl (sha512_round (sha512_w buf off)) H [0..<80]) of
        ((h0, h1, h2, h3, h4, h5, h6, h7), (a, b, c, d, e, f, g, h)) \<Rightarrow>
           ((h0 + a) AND M64, (h1 + b) AND M64, (h2 + c) AND M64, (h3 + d) AND M64,
            (h4 + e) AND M64, (h5 + f) AND M64, (h6 + g) AND M64, (h7 + h) AND M64))"

definition eight_of :: "'w list \<Rightarrow> 'w eight" where
  "eight_of H = (H ! 0, H ! 1, H ! 2, H ! 3, H ! 4, H ! 5, H ! 6, H ! 7)"

definition sha512 :: "byte list \<Rightarrow> int list \<Rightarrow> byte list" where
  "sha512 msg iv =
     (let buf = sha512_buf msg
      in case for_blocks 128 (length buf) (sha512_compress buf) 0 (eight_of iv) of
           (h0, h1, h2, h3, h4, h5, h6, h7) \<Rightarrow>
             fold (\<lambda>(i, v) out. set_low32 (set_low32 out (i * 8) (drop_bit 32 v)) (i * 8 + 4) v)
               [(0, h0), (1, h1), (2, h2), (3, h3), (4, h4), (5, h5), (6, h6), (7, h7)]
               (replicate 64 0))"

end
