(* ===== verification/Node_Crypto_Props.thy ===== *)
theory Node_Crypto_Props
  imports Node_Crypto
begin

text \<open>
  The hash functions of the \<open>crypto\<close> builtin compute the standard's: the tables are the roots of
  primes the standard derives them from, the in-place loops are its recursions, the shifts and
  masks its rotations, and the \<open>BigInt\<close> arithmetic of SHA-512 its arithmetic on 64-bit words.
\<close>

unbundle bit_operations_syntax

section \<open>Shifts and rotations\<close>

lemma rotr_shifts:
  fixes x :: "'a::len word"
  assumes "0 < n" "n + m = LENGTH('a)"
  shows "drop_bit n x OR push_bit m x = word_rotr n x"
proof (rule bit_word_eqI)
  fix i assume i: "i < LENGTH('a)"
  have "(i + n) mod LENGTH('a) = (if i < m then i + n else i - m)"
    using i assms(2) by (auto simp: mod_if)
  then show "bit (drop_bit n x OR push_bit m x) i = bit (word_rotr n x) i"
    using i assms by (auto simp: bit_simps not_less add.commute dest: bit_imp_le_length)
qed

lemma rotl_shifts:
  fixes x :: "'a::len word"
  assumes "0 < n" "0 < m" "n + m = LENGTH('a)"
  shows "push_bit n x OR drop_bit m x = word_rotl n x"
proof -
  have "n mod LENGTH('a) = n" "LENGTH('a) - n = m" using assms by auto
  then have "word_rotl n x = word_rotr m x"
    by (simp add: word_rotl_eq_word_rotr)
  then show ?thesis
    using assms rotr_shifts [of m n x] by (simp add: or.commute)
qed

section \<open>The three loops\<close>

text \<open>An array filled entry by entry holds the values of the recursion it follows.\<close>

lemma schedule_grow:
  assumes base: "length ws = 16" "\<And>t. t < 16 \<Longrightarrow> ws ! t = S t"
    and grow: "\<And>w i. 16 \<le> i \<Longrightarrow> i < n \<Longrightarrow> length w = i \<Longrightarrow> \<forall>t<i. w ! t = S t \<Longrightarrow> F w i = S i"
    and n: "16 \<le> n"
  shows "length (foldl (\<lambda>w i. w @ [F w i]) ws [16..<n]) = n
    \<and> (\<forall>t<n. foldl (\<lambda>w i. w @ [F w i]) ws [16..<n] ! t = S t)"
  using n grow
proof (induction n rule: dec_induct)
  case base
  then show ?case using assms(1,2) by simp
next
  case (step k)
  let ?w = "foldl (\<lambda>w i. w @ [F w i]) ws [16..<k]"
  have IH: "length ?w = k" "\<forall>t<k. ?w ! t = S t" using step by auto
  have "F ?w k = S k" using step.hyps step.prems IH by simp
  with IH step.hyps show ?case by (auto simp: nth_append less_Suc_eq)
qed

lemma foldl_rounds:
  assumes "\<And>t. t < n \<Longrightarrow> R (V t) t = V (Suc t)"
  shows "foldl R (V 0) [0..<n] = V n"
  using assms by (induction n) auto

lemma for_blocks_chunked:
  assumes body: "\<And>off s. off + n \<le> length buf \<Longrightarrow> body off (f s) = f (B s (take n (drop off buf)))"
    and n: "0 < n" "n dvd length buf"
  shows "for_blocks n (length buf) body 0 (f s) = f (foldl B s (chunked n buf))"
proof -
  have "for_blocks n (length buf) body off (f s) = f (foldl B s (chunked n (drop off buf)))"
    if "n dvd length buf - off" "off \<le> length buf" for off s
    using that
  proof (induction "length buf - off" arbitrary: off s rule: less_induct)
    case less
    show ?case
    proof (cases "off < length buf")
      case True
      then have le: "n \<le> length buf - off" using less.prems by (auto dest: dvd_imp_le)
      then have "n dvd length buf - (off + n)" using less.prems by (simp add: dvd_diff_nat flip: diff_diff_left)
      then have "for_blocks n (length buf) body (off + n) (f (B s (take n (drop off buf)))) =
          f (foldl B (B s (take n (drop off buf))) (chunked n (drop (off + n) buf)))"
        using le n True by (intro less.hyps) auto
      with True le n body [of off s] show ?thesis
        by (subst for_blocks.simps, subst chunked.simps) (simp add: add.commute)
    next
      case False
      with less.prems show ?thesis
        by (subst for_blocks.simps, subst chunked.simps) simp
    qed
  qed
  from this [of 0] n show ?thesis by simp
qed

section \<open>Words of a block\<close>

lemma take_drop_block:
  "b * i + b \<le> n \<Longrightarrow> take b (drop (b * i) (take n (drop off buf))) = take b (drop (off + b * i) buf)"
  by (simp add: drop_take min_def add.commute)

lemma getUint32_block:
  assumes "i < 16"
  shows "getUint32 buf (off + i * 4) = (block_word (take 64 (drop off buf)) i :: u32)"
  using assms take_drop_block [of 4 i 64 off buf]
  by (simp add: getUint32_def block_word_def mult.commute)

lemma le_value_append: "le_value (xs @ ys) = le_value xs + 256 ^ length xs * le_value ys"
  by (induction xs) (simp_all add: algebra_simps)

lemma unat_be_word:
  assumes "8 * length bs \<le> LENGTH('a)"
  shows "unat (be_word bs :: 'a::len word) = le_value (rev bs)"
proof -
  have "(256::nat) ^ length bs = 2 ^ (8 * length bs)" by (simp add: power_mult)
  also have "\<dots> \<le> 2 ^ LENGTH('a)" using assms by (rule power_increasing) simp
  finally show ?thesis
    using le_value_bound [of "rev bs"] by (simp add: be_word_def unat_of_nat)
qed

lemma uint_be_word:
  "8 * length bs \<le> LENGTH('a) \<Longrightarrow> uint (be_word bs :: 'a::len word) = int (le_value (rev bs))"
  by (metis uint_nat unat_be_word)

lemma or_high_low:
  "0 \<le> b \<Longrightarrow> b < 2 ^ n \<Longrightarrow> push_bit n a OR b = b + 2 ^ n * a" for a b :: int
  using concat_bit_eq [of n b a]
  by (simp add: concat_bit_def or.commute take_bit_int_eq_self push_bit_eq_mult)

lemma word64_of_halves:
  assumes "i < 16" "off + 128 \<le> length buf"
  shows "push_bit 32 (uint (getUint32 buf (off + i * 8))) OR uint (getUint32 buf (off + i * 8 + 4))
    = uint (block_word (take 128 (drop off buf)) i :: 64 word)"
proof -
  define ys zs where "ys = take 4 (drop (off + i * 8) buf)" and "zs = take 4 (drop (off + i * 8 + 4) buf)"
  have len: "length ys = 4" "length zs = 4" using assms by (simp_all add: ys_def zs_def)
  have blk: "take 8 (drop (8 * i) (take 128 (drop off buf))) = ys @ zs"
    using assms(1) take_add [of 4 4 "drop (off + i * 8) buf"] take_drop_block [of 8 i 128 off buf]
    by (simp add: ys_def zs_def ac_simps)
  have w: "uint (getUint32 buf (off + i * 8)) = int (le_value (rev ys))"
    "uint (getUint32 buf (off + i * 8 + 4)) = int (le_value (rev zs))"
    "uint (block_word (take 128 (drop off buf)) i :: 64 word) = int (le_value (rev (ys @ zs)))"
    using len by (simp_all add: getUint32_def uint_be_word block_word_def blk flip: ys_def zs_def del: rev_append)
  have "int (le_value (rev zs)) < 2 ^ 32"
    using le_value_bound [of "rev zs"] len by simp
  then show ?thesis
    using len by (simp add: w or_high_low le_value_append)
qed

section \<open>Padding\<close>

lemma length_setUint32 [simp]: "p + 4 \<le> length buf \<Longrightarrow> length (setUint32 buf p v) = length buf"
  by (simp add: setUint32_def)

lemma be_bytes_split: "be_bytes (m + n) v = be_bytes m (v div 256 ^ n) @ be_bytes n v"
proof -
  have "le_bytes (n + m) v = le_bytes n v @ le_bytes m (v div 256 ^ n)"
    by (rule nth_equalityI) (auto simp: le_bytes_def nth_append div_mult2_eq [symmetric] power_add [symmetric])
  then show ?thesis by (simp add: be_bytes_def add.commute)
qed

lemma be_bytes_zero [simp]: "be_bytes n 0 = replicate n 0"
  by (simp add: be_bytes_def le_bytes_def map_replicate_const rev_replicate flip: replicate_length_same)

lemma be_bytes_mod: "be_bytes n (v mod 256 ^ n) = be_bytes n v"
  using le_bytes_value [of "le_bytes n v"] by (simp add: be_bytes_def le_value_bytes)

lemma pad_base:
  "0 < m \<Longrightarrow> (msg @ replicate m y)[length msg := x] = msg @ x # replicate (m - 1) y"
  by (cases m) (simp_all add: list_update_append)

lemma fips_pad_dvd: "0 < block \<Longrightarrow> block dvd length (fips_pad block field msg)"
  using pad_zeros_least(1) [of block "length msg" field]
  by (simp add: fips_pad_def dvd_eq_mod_eq_0 algebra_simps)

lemma sha_buf_fips:
  assumes "length msg < 2 ^ 29"
  shows "sha_buf msg = fips_pad 64 8 msg"
proof -
  let ?n = "length msg" and ?t = "totalLen (length msg)" and ?z = "pad_zeros 64 8 (length msg)"
  have t: "?t = ?n + 9 + ?z"
  proof -
    define m where "m = (?n + 9) mod 64"
    have m: "m < 64" "(?n + 1 + 8) mod 64 = m" by (simp_all add: m_def add.commute)
    show ?thesis
      unfolding totalLen_def padLen_def pad_zeros_def m(2) m_def [symmetric]
      by (cases "m = 0") (use m(1) in auto)
  qed
  have v: "be_bytes 8 (8 * ?n) = replicate 4 0 @ be_bytes 4 (8 * ?n)"
    using be_bytes_split [of 4 4 "8 * ?n"] assms by simp
  have "unat (of_nat ?n * 8 :: u32) = 8 * ?n"
    using assms unat_of_nat [where ?'a = 32, of "?n * 8"] by simp
  then show ?thesis
    by (simp add: sha_buf_def Let_def pad_base t setUint32_def fips_pad_def v replicate_add [symmetric]
        take_Cons' add.commute flip: replicate_app_Cons_same)
qed


lemma sha512_buf_fips:
  assumes "length msg < 2 ^ 61"
  shows "sha512_buf msg = fips_pad 128 16 msg"
proof -
  let ?n = "length msg" and ?z = "pad_zeros 128 16 (length msg)"
  have t: "sha512_total ?n = ?n + 17 + ?z"
    by (simp add: sha512_total_def pad_zeros_def Let_def)
  have v: "be_bytes 16 (8 * ?n) = replicate 8 0 @ be_bytes 4 (8 * ?n div 2 ^ 32) @ be_bytes 4 (8 * ?n)"
    using be_bytes_split [of 12 4 "8 * ?n"] be_bytes_split [of 8 4 "8 * ?n div 2 ^ 32"] assms
    by (simp add: div_mult2_eq [symmetric])
  have low: "unat (of_int (int x AND 0xFFFFFFFF) :: u32) = x mod 2 ^ 32" for x :: nat
  proof -
    have m32: "(0xFFFFFFFF :: int) = mask 32" by (simp add: mask_eq_exp_minus_1)
    have "int x AND 0xFFFFFFFF = int x AND mask 32" by (simp only: m32)
    also have "\<dots> = int (x mod 2 ^ 32)" by (simp add: take_bit_eq_mod zmod_int flip: take_bit_eq_mask)
    finally have "unat (of_int (int x AND 0xFFFFFFFF) :: u32) = unat (of_nat (x mod 2 ^ 32) :: u32)"
      by (simp only: of_int_of_nat_eq)
    then show ?thesis by (simp only: unat_of_nat) simp
  qed
  have set: "set_low32 buf p (int x) = take p buf @ be_bytes 4 x @ drop (p + 4) buf" for buf p x
    using be_bytes_mod [of 4 x] by (simp add: set_low32_def setUint32_def low)
  have hi: "drop_bit 32 (int (length msg) * 8) = int (8 * ?n div 2 ^ 32)"
    by (simp add: drop_bit_eq_div zdiv_int mult.commute)
  have lo: "int (length msg) * 8 = int (8 * ?n)" by simp
  have rep: "replicate ?z 0 @ replicate 8 0 @ ys = replicate (?z + 8) 0 @ ys" for ys :: "byte list"
    by (simp add: replicate_add)
  show ?thesis
    unfolding sha512_buf_def Let_def hi unfolding lo set
    by (simp add: pad_base t fips_pad_def v rep take_Cons' drop_Cons' add.commute)
qed

section \<open>SHA-256\<close>

lemma setUint32_fill:
  "length pre = p \<Longrightarrow> setUint32 (pre @ replicate (4 + k) 0) p v = (pre @ be_bytes 4 (unat v)) @ replicate k 0"
  by (simp add: setUint32_def)

lemma rot_folds:
  "(drop_bit 2 x OR push_bit 30 x) XOR (drop_bit 13 x OR push_bit 19 x) XOR (drop_bit 22 x OR push_bit 10 x) = rot3 2 13 22 (x :: u32)"
  "(drop_bit 6 x OR push_bit 26 x) XOR (drop_bit 11 x OR push_bit 21 x) XOR (drop_bit 25 x OR push_bit 7 x) = rot3 6 11 25 x"
  "(drop_bit 7 x OR push_bit 25 x) XOR (drop_bit 18 x OR push_bit 14 x) XOR drop_bit 3 x = rot2_shift 7 18 3 x"
  "(drop_bit 17 x OR push_bit 15 x) XOR (drop_bit 19 x OR push_bit 13 x) XOR drop_bit 10 x = rot2_shift 17 19 10 x"
  by (simp_all add: rot3_def rot2_shift_def rotr_shifts)

lemma SHA256_fields:
  "s2_K SHA256_params t = of_int (root_bits 3 32 (first_primes ! t))"
  "s2_rounds SHA256_params = 64"
  "s2_Big0 SHA256_params = rot3 2 13 22" "s2_Big1 SHA256_params = rot3 6 11 25"
  "s2_small0 SHA256_params = rot2_shift 7 18 3" "s2_small1 SHA256_params = rot2_shift 17 19 10"
  by (simp_all add: SHA256_params_def)

lemma sha256_w_spec:
  assumes "t < 64"
  shows "sha256_w buf off ! t = sha2_W SHA256_params (take 64 (drop off buf)) t"
proof -
  let ?S = "sha2_W SHA256_params (take 64 (drop off buf))"
  have "length (sha256_w buf off) = 64 \<and> (\<forall>t<64. sha256_w buf off ! t = ?S t)"
    unfolding sha256_w_def
  proof (rule schedule_grow)
    fix i and w :: "u32 list" assume "16 \<le> i" "i < 64" and w: "\<forall>t<i. w ! t = ?S t"
    then show "sha256_extend w i = ?S i"
      by (subst sha2_W.simps) (simp add: sha256_extend_def Let_def rot_folds SHA256_fields)
  qed (simp_all add: getUint32_block sha2_W.simps)
  with assms show ?thesis by simp
qed


lemma take_map2: "list_all2 P (take n xs) (map f ks) \<Longrightarrow> i < n \<Longrightarrow> n \<le> length xs \<Longrightarrow> P (xs ! i) (f (ks ! i))"
  by (auto simp: list_all2_conv_all_nth)

lemma SHA256_K_encloses:
  "list_all2 (encloses_frac 3 0x100000000) (take 64 first_primes) (map uint SHA256_K)"
  by code_simp

lemma IV_encloses:
  "list_all2 (encloses_frac 2 0x100000000) (take 8 first_primes)
     (map uint [0x6a09e667, 0xbb67ae85, 0x3c6ef372, 0xa54ff53a, 0x510e527f, 0x9b05688c, 0x1f83d9ab, 0x5be0cd19 :: u32])"
  "list_all2 (encloses_frac 2 0x10000000000000000) (take 8 first_primes) SHA512_IV"
  "list_all2 (encloses_frac 2 0x10000000000000000) (take 8 (drop 8 first_primes)) SHA384_IV"
  by code_simp+

lemma first_primes_pos: "i < 80 \<Longrightarrow> 0 \<le> first_primes ! i" and length_first_primes: "length first_primes = 80"
proof -
  have *: "list_all (\<lambda>p. 0 \<le> p) first_primes" "length first_primes = 80" by code_simp+
  then show "length first_primes = 80" by simp
  show "i < 80 \<Longrightarrow> 0 \<le> first_primes ! i" using * by (simp add: list_all_length)
qed

lemma SHA256_K_spec: "t < 64 \<Longrightarrow> SHA256_K ! t = of_int (root_bits 3 32 (first_primes ! t))"
proof -
  assume t: "t < 64"
  have "length SHA256_K = 64" by (simp add: SHA256_K_def)
  then have "encloses_frac 3 0x100000000 (first_primes ! t) (uint (SHA256_K ! t))"
    using SHA256_K_encloses t by (auto simp: list_all2_conv_all_nth)
  then have "root_bits 3 32 (first_primes ! t) = uint (SHA256_K ! t)"
    using first_primes_pos [of t] t by (intro root_bits_encloses [where scale = "0x100000000"]) simp_all
  then show ?thesis by simp
qed

lemma sha256_round_spec:
  assumes "t < 64"
  shows "sha256_round (sha256_w buf off) s t
    = sha2_step SHA256_params (sha2_W SHA256_params (take 64 (drop off buf)) t) t s"
  using assms
  by (simp add: sha256_round_def sha2_step_def sha256_w_spec SHA256_K_spec rot_folds Let_def
      SHA256_fields Ch_def Maj_def split: prod.split)

lemma sha256_compress_spec:
  "sha256_compress buf off H = sha2_block SHA256_params H (take 64 (drop off buf))"
proof -
  have "foldl (sha256_round (sha256_w buf off)) H [0..<64]
      = sha2_vars SHA256_params (take 64 (drop off buf)) H 64"
    using foldl_rounds [where n = 64 and R = "sha256_round (sha256_w buf off)"
        and V = "sha2_vars SHA256_params (take 64 (drop off buf)) H"]
    by (simp add: sha256_round_spec)
  then show ?thesis
    by (simp add: sha256_compress_def sha2_block_def add8_def SHA256_fields split: prod.splits)
qed

lemma root_IV_eq:
  assumes enc: "list_all2 (encloses_frac 2 scale) (take 8 (drop i first_primes)) ks"
    and scale: "scale = 2 ^ LENGTH('a)" and i: "i \<le> 72"
  shows "root_IV i = (eight_of (map of_int ks) :: 'a::len word eight)"
proof -
  have len: "length ks = 8" using enc i length_first_primes by (auto dest!: list_all2_lengthD)
  have bits: "root_bits 2 LENGTH('a) (first_primes ! (i + j)) = ks ! j" if "j < 8" for j
  proof (rule root_bits_encloses)
    show "encloses_frac 2 scale (first_primes ! (i + j)) (ks ! j)"
      using enc that i length_first_primes by (simp add: list_all2_conv_all_nth)
    show "0 \<le> first_primes ! (i + j)" using that i by (intro first_primes_pos) simp
  qed (simp_all add: scale)
  then show ?thesis
    using len bits [of 0] bits [of 1] bits [of 2] by (simp add: root_IV_def eight_of_def Let_def)
qed

lemma sha256_h0_spec: "sha256_h0 = root_IV 0"
  using root_IV_eq [where ?'a = 32, of _ 0, simplified drop_0, OF IV_encloses(1)]
  by (simp add: sha256_h0_def eight_of_def)

lemma for_blocks_same:
  assumes "\<And>off s. off + n \<le> length buf \<Longrightarrow> body off s = B s (take n (drop off buf))"
    and "0 < n" "n dvd length buf"
  shows "for_blocks n (length buf) body 0 s = foldl B s (chunked n buf)"
  using for_blocks_chunked [where f = id and body = body and B = B] assms by simp

lemma sha256_out:
  "fold (\<lambda>(p, v) out. setUint32 out p v)
     [(0, h0), (4, h1), (8, h2), (12, h3), (16, h4), (20, h5), (24, h6), (28, h7)] (replicate 32 0)
   = digest8 (h0, h1, h2, h3, h4, h5, h6, h7)"
  by (simp add: setUint32_def digest8_def word_bytes_def)

text \<open>
  The SHA-256 of the \<open>crypto\<close> builtin is that of FIPS 180-4 for every message shorter than
  \<open>2^29\<close> bytes: the table is the fractional parts of the cube roots of the first 64 primes, the
  padding, schedule and rounds are the standard's.
\<close>

lemma sha256_is_fips:
  assumes "length msg < 2 ^ 29"
  shows "sha256 msg = SHA256 msg"
proof -
  have "for_blocks 64 (length (sha_buf msg)) (sha256_compress (sha_buf msg)) 0 sha256_h0
      = foldl (sha2_block SHA256_params) (root_IV 0) (chunked 64 (fips_pad 64 8 msg))"
    unfolding sha_buf_fips [OF assms] sha256_h0_spec
    by (rule for_blocks_same) (simp_all add: sha256_compress_spec fips_pad_dvd)
  then show ?thesis
    unfolding sha256_def SHA256_def sha2_hash_def Let_def
    by (simp only: sha256_out split: prod.splits) simp
qed


section \<open>SHA-1\<close>

lemma sha1_extend_rotl:
  "sha1_extend w i = word_rotl 1 (w ! (i - 3) XOR w ! (i - 8) XOR w ! (i - 14) XOR w ! (i - 16))"
  unfolding sha1_extend_def Let_def by (rule rotl_shifts) simp_all

lemma sha1_w_spec:
  assumes "t < 80"
  shows "sha1_w buf off ! t = sha1_W (take 64 (drop off buf)) t"
proof -
  let ?S = "sha1_W (take 64 (drop off buf))"
  have "length (sha1_w buf off) = 80 \<and> (\<forall>t<80. sha1_w buf off ! t = ?S t)"
    unfolding sha1_w_def
  proof (rule schedule_grow)
    fix i and w :: "u32 list" assume "16 \<le> i" "i < 80" and w: "\<forall>t<i. w ! t = ?S t"
    then show "sha1_extend w i = ?S i"
      by (subst sha1_W.simps) (simp add: sha1_extend_rotl)
  qed (simp_all add: getUint32_block sha1_W.simps)
  with assms show ?thesis by simp
qed

lemma ch_or: "(b AND c) OR (NOT b AND d) = Ch b c d"
  by (rule bit_word_eqI) (auto simp: Ch_def bit_simps)

lemma maj_or: "(b AND c) OR (b AND d) OR (c AND d) = Maj b c d"
  by (rule bit_word_eqI) (auto simp: Maj_def bit_simps)

lemma sha1_K_encloses:
  "encloses 2 0x40000000 2 0x5A827999" "encloses 2 0x40000000 3 0x6ED9EBA1"
  "encloses 2 0x40000000 5 0x8F1BBCDC" "encloses 2 0x40000000 10 0xCA62C1D6"
  by code_simp+

lemma sha1_K_values:
  "sha1_K t = (if t < 20 then 0x5A827999 else if t < 40 then 0x6ED9EBA1
    else if t < 60 then 0x8F1BBCDC else 0xCA62C1D6)"
  using sha1_K_encloses [THEN floor_root [rotated 2]]
  by (simp add: sha1_K_def sqrt_def)

lemma sha1_round_spec:
  assumes "t < 80"
  shows "sha1_round (sha1_w buf off) s t = sha1_step (sha1_W (take 64 (drop off buf)) t) t s"
  using assms
  by (simp add: sha1_round_def sha1_step_def sha1_w_spec sha1_K_values ch_or maj_or rotl_shifts
      sha1_f_def Parity_def split: prod.split)

lemma sha1_compress_spec: "sha1_compress buf off H = sha1_block H (take 64 (drop off buf))"
proof -
  have "foldl (sha1_round (sha1_w buf off)) H [0..<80] = sha1_vars (take 64 (drop off buf)) H 80"
    using foldl_rounds [where n = 80 and R = "sha1_round (sha1_w buf off)"
        and V = "sha1_vars (take 64 (drop off buf)) H"]
    by (simp add: sha1_round_spec)
  then show ?thesis
    by (simp add: sha1_compress_def sha1_block_def split: prod.splits)
qed

lemma sha1_out:
  "fold (\<lambda>(p, v) out. setUint32 out p v) [(0, h0), (4, h1), (8, h2), (12, h3), (16, h4)] (replicate 20 0)
   = concat (map word_bytes [h0, h1, h2, h3, h4])"
  by (simp add: setUint32_def word_bytes_def)

text \<open>
  The SHA-1 of the \<open>crypto\<close> builtin is that of FIPS 180-4 for every message shorter than
  \<open>2^29\<close> bytes; its round constants are \<open>2^30\<close> times the square roots of 2, 3, 5 and 10.
\<close>

lemma sha1_is_fips:
  assumes "length msg < 2 ^ 29"
  shows "sha1 msg = SHA1 msg"
proof -
  have "for_blocks 64 (length (sha_buf msg)) (sha1_compress (sha_buf msg)) 0 sha1_h0
      = foldl sha1_block SHA1_IV (chunked 64 (fips_pad 64 8 msg))"
    unfolding sha_buf_fips [OF assms] sha1_h0_def SHA1_IV_def
    by (rule for_blocks_same) (simp_all add: sha1_compress_spec fips_pad_dvd)
  then show ?thesis
    unfolding sha1_def SHA1_def Let_def
    by (simp only: sha1_out split: prod.splits)
qed

section \<open>SHA-512 and SHA-384\<close>

lemma M64_mask: "x AND M64 = take_bit 64 x"
  by (simp add: M64_def take_bit_eq_mask mask_eq_exp_minus_1)

definition uints :: "64 word eight \<Rightarrow> int eight" where
  "uints = (\<lambda>(a, b, c, d, e, f, g, h).
     (uint a, uint b, uint c, uint d, uint e, uint f, uint g, uint h))"

lemma mask_word: "x AND M64 = uint (word_of_int x :: 64 word)"
  by (simp add: M64_mask uint_word_of_int_eq)

text \<open>Shifting the unbounded value both ways and truncating it rotates the word.\<close>

lemma rot_int:
  assumes "0 < n" "n + m = 64"
  shows "word_of_int (drop_bit n (uint x) OR push_bit m (uint x)) = word_rotr n (x :: 64 word)"
proof -
  have "word_of_int (drop_bit n (uint x) OR push_bit m (uint x)) = drop_bit n x OR push_bit m x"
    by (rule bit_word_eqI) (auto simp: bit_simps)
  then show ?thesis
    using assms by (simp add: rotr_shifts)
qed

lemma drop_int: "word_of_int (drop_bit n (uint x)) = drop_bit n (x :: 64 word)"
  by (rule bit_word_eqI) (auto simp: bit_simps)

lemma word_of_int_xor: "word_of_int (a XOR b) = (word_of_int a XOR word_of_int b :: 'a::len word)"
  by (rule bit_word_eqI) (auto simp: bit_simps)

lemma word_of_int_and: "word_of_int (a AND b) = (word_of_int a AND word_of_int b :: 'a::len word)"
  by (rule bit_word_eqI) (auto simp: bit_simps)

lemma word_of_int_not: "word_of_int (NOT a) = (NOT (word_of_int a) :: 'a::len word)"
  by (rule bit_word_eqI) (auto simp: bit_simps)

lemma rot512_folds:
  fixes x :: "64 word"
  shows "word_of_int ((drop_bit 1 (uint x) OR push_bit 63 (uint x)) XOR (drop_bit 8 (uint x) OR push_bit 56 (uint x)) XOR drop_bit 7 (uint x)) = rot2_shift 1 8 7 x"
    and "word_of_int ((drop_bit 19 (uint x) OR push_bit 45 (uint x)) XOR (drop_bit 61 (uint x) OR push_bit 3 (uint x)) XOR drop_bit 6 (uint x)) = rot2_shift 19 61 6 x"
  by (simp_all add: word_of_int_xor rot_int drop_int rot3_def rot2_shift_def)

lemma SHA512_fields:
  "s2_K SHA512_params t = of_int (root_bits 3 64 (first_primes ! t))"
  "s2_rounds SHA512_params = 80"
  "s2_Big0 SHA512_params = rot3 28 34 39" "s2_Big1 SHA512_params = rot3 14 18 41"
  "s2_small0 SHA512_params = rot2_shift 1 8 7" "s2_small1 SHA512_params = rot2_shift 19 61 6"
  by (simp_all add: SHA512_params_def)

lemma sha512_w_spec:
  assumes "t < 80" "off + 128 \<le> length buf"
  shows "sha512_w buf off ! t = uint (sha2_W SHA512_params (take 128 (drop off buf)) t)"
proof -
  let ?S = "\<lambda>t. uint (sha2_W SHA512_params (take 128 (drop off buf)) t)"
  have "length (sha512_w buf off) = 80 \<and> (\<forall>t<80. sha512_w buf off ! t = ?S t)"
    unfolding sha512_w_def
  proof (rule schedule_grow)
    fix i and w :: "int list" assume i: "16 \<le> i" "i < 80" and w: "\<forall>t<i. w ! t = ?S t"
    then have at: "w ! (i - 2) = ?S (i - 2)" "w ! (i - 7) = ?S (i - 7)" "w ! (i - 15) = ?S (i - 15)"
      "w ! (i - 16) = ?S (i - 16)" by simp_all
    show "sha512_extend w i = ?S i"
      unfolding sha512_extend_def Let_def at mask_word rot512_folds
      using i by (subst (5) sha2_W.simps) (simp add: SHA512_fields ac_simps)
  qed (use assms(2) word64_of_halves in \<open>simp_all add: sha2_W.simps\<close>)
  with assms(1) show ?thesis by simp
qed

lemma SHA512_K_encloses: "list_all2 (encloses_frac 3 0x10000000000000000) first_primes SHA512_K"
  by code_simp

lemma SHA512_K_spec: "t < 80 \<Longrightarrow> SHA512_K ! t = uint (of_int (root_bits 3 64 (first_primes ! t)) :: 64 word)"
proof -
  assume t: "t < 80"
  have "encloses_frac 3 0x10000000000000000 (first_primes ! t) (SHA512_K ! t)"
    using SHA512_K_encloses t length_first_primes by (auto simp: list_all2_conv_all_nth)
  moreover from this have "0 \<le> SHA512_K ! t" "SHA512_K ! t < 2 ^ 64" by (auto simp: encloses_frac_def)
  moreover have "root_bits 3 64 (first_primes ! t) = SHA512_K ! t"
    using first_primes_pos [OF t] calculation(1)
    by (intro root_bits_encloses [where scale = "0x10000000000000000"]) simp_all
  ultimately show ?thesis by (simp add: uint_word_of_int_eq take_bit_int_eq_self)
qed

lemma sha512_round_spec:
  assumes "t < 80" "off + 128 \<le> length buf"
  shows "sha512_round (sha512_w buf off) (uints s) t
    = uints (sha2_step SHA512_params (sha2_W SHA512_params (take 128 (drop off buf)) t) t s)"
  using assms
  by (simp add: sha512_round_def sha2_step_def sha512_w_spec SHA512_K_spec Let_def uints_def mask_word
      rot_int rot3_def SHA512_fields Ch_def Maj_def word_of_int_xor word_of_int_and word_of_int_not
      split: prod.split)


lemma sha512_compress_spec:
  assumes "off + 128 \<le> length buf"
  shows "sha512_compress buf off (uints H) = uints (sha2_block SHA512_params H (take 128 (drop off buf)))"
proof -
  have "foldl (sha512_round (sha512_w buf off)) (uints H) [0..<80]
      = uints (sha2_vars SHA512_params (take 128 (drop off buf)) H 80)"
    using foldl_rounds [where n = 80 and R = "sha512_round (sha512_w buf off)"
        and V = "\<lambda>t. uints (sha2_vars SHA512_params (take 128 (drop off buf)) H t)"] assms
    by (simp add: sha512_round_spec)
  then show ?thesis
    by (simp add: sha512_compress_def sha2_block_def add8_def SHA512_fields uints_def mask_word split: prod.splits)
qed

lemma be_bytes_double: "be_bytes 8 v = be_bytes 4 (v div 2 ^ 32) @ be_bytes 4 v"
  using be_bytes_split [of 4 4 v] by simp

lemma set_low32_nat: "set_low32 buf p (int x) = take p buf @ be_bytes 4 x @ drop (p + 4) buf"
proof -
  have m32: "(0xFFFFFFFF :: int) = mask 32" by (simp add: mask_eq_exp_minus_1)
  have "int x AND 0xFFFFFFFF = int x AND mask 32" by (simp only: m32)
  also have "\<dots> = int (x mod 2 ^ 32)" by (simp add: take_bit_eq_mod zmod_int flip: take_bit_eq_mask)
  finally have "unat (of_int (int x AND 0xFFFFFFFF) :: u32) = unat (of_nat (x mod 2 ^ 32) :: u32)"
    by (simp only: of_int_of_nat_eq)
  also have "\<dots> = x mod 2 ^ 32" by (simp only: unat_of_nat) simp
  finally show ?thesis
    using be_bytes_mod [of 4 x] by (simp add: set_low32_def setUint32_def)
qed

lemma set_low32_word:
  assumes "length pre = i * 8"
  shows "set_low32 (set_low32 (pre @ replicate (8 + k) 0) (i * 8) (drop_bit 32 (uint v))) (i * 8 + 4) (uint v)
    = (pre @ word_bytes (v :: 64 word)) @ replicate k 0"
proof -
  have u: "uint v = int (unat v)" "drop_bit 32 (int (unat v)) = int (unat v div 2 ^ 32)"
    by (simp_all add: drop_bit_eq_div zdiv_int)
  show ?thesis
    unfolding u set_low32_nat using assms
    by (simp add: word_bytes_def be_bytes_double)
qed

lemma fold_set_low32:
  assumes "length pre = i * 8"
  shows "fold (\<lambda>(i, v) out. set_low32 (set_low32 out (i * 8) (drop_bit 32 v)) (i * 8 + 4) v)
      (zip [i..<i + length vs] (map uint vs)) (pre @ replicate (8 * length vs) 0)
    = pre @ concat (map word_bytes (vs :: 64 word list))"
  using assms
proof (induction vs arbitrary: pre i)
  case (Cons v vs)
  have "length (pre @ word_bytes v) = Suc i * 8" using Cons.prems by (simp add: word_bytes_def)
  from Cons.IH [OF this] show ?case
    using set_low32_word [OF Cons.prems, of "8 * length vs" v]
    by (simp add: upt_conv_Cons del: upt_Suc)
qed simp

lemma sha512_out:
  "fold (\<lambda>(i, v) out. set_low32 (set_low32 out (i * 8) (drop_bit 32 v)) (i * 8 + 4) v)
     [(0, uint h0), (1, uint h1), (2, uint h2), (3, uint h3), (4, uint h4), (5, uint h5), (6, uint h6), (7, uint h7)]
     (replicate 64 0)
   = digest8 (h0, h1, h2, h3, h4, h5, h6, h7 :: 64 word)"
proof -
  have z: "zip [0..<0 + length [h0, h1, h2, h3, h4, h5, h6, h7]] (map uint [h0, h1, h2, h3, h4, h5, h6, h7])
    = [(0, uint h0), (1, uint h1), (2, uint h2), (3, uint h3), (4, uint h4), (5, uint h5), (6, uint h6), (7, uint h7)]"
    by (simp add: upt_conv_Cons)
  have n: "[] @ replicate (8 * length [h0, h1, h2, h3, h4, h5, h6, h7]) 0 = (replicate 64 0 :: byte list)" by simp
  show ?thesis
    using fold_set_low32 [of "[]" 0 "[h0, h1, h2, h3, h4, h5, h6, h7]"]
    unfolding z n by (simp only: digest8_def prod.case append_Nil) simp
qed

lemma sha512_iv:
  assumes "eight_of iv = uints IV" "length msg < 2 ^ 61"
  shows "sha512 msg iv = sha2_hash SHA512_params IV msg"
proof -
  have "for_blocks 128 (length (sha512_buf msg)) (sha512_compress (sha512_buf msg)) 0 (uints IV)
      = uints (foldl (sha2_block SHA512_params) IV (chunked 128 (fips_pad 128 16 msg)))"
    unfolding sha512_buf_fips [OF assms(2)]
    by (rule for_blocks_chunked) (simp_all add: sha512_compress_spec fips_pad_dvd)
  moreover obtain a b c d e f g h where
    "foldl (sha2_block SHA512_params) IV (chunked 128 (fips_pad 128 16 msg)) = (a, b, c, d, e, f, g, h)"
    by (metis surj_pair)
  ultimately have loop: "for_blocks 128 (length (sha512_buf msg)) (sha512_compress (sha512_buf msg)) 0 (uints IV)
      = (uint a, uint b, uint c, uint d, uint e, uint f, uint g, uint h)"
    and spec: "sha2_hash SHA512_params IV msg = digest8 (a, b, c, d, e, f, g, h)"
    by (simp_all add: uints_def sha2_hash_def)
  show ?thesis
    unfolding sha512_def Let_def assms(1) loop spec by (simp only: prod.case sha512_out)
qed

lemma eight_uints:
  assumes "root_IV i = (eight_of (map of_int ks) :: 64 word eight)" "length ks = 8"
    "list_all (\<lambda>k. 0 \<le> k \<and> k < 2 ^ 64) ks"
  shows "eight_of ks = uints (root_IV i)"
  using assms
  by (simp add: eight_of_def uints_def list_all_length uint_word_of_int_eq take_bit_int_eq_self)

lemma sha512_ivs: "eight_of SHA512_IV = uints (root_IV 0)" "eight_of SHA384_IV = uints (root_IV 8)"
proof -
  have r: "root_IV 0 = (eight_of (map of_int SHA512_IV) :: 64 word eight)"
    by (rule root_IV_eq [where scale = "0x10000000000000000"]) (use IV_encloses(2) in simp_all)
  show "eight_of SHA512_IV = uints (root_IV 0)"
    by (rule eight_uints [OF r]) (simp_all add: SHA512_IV_def)
  have r: "root_IV 8 = (eight_of (map of_int SHA384_IV) :: 64 word eight)"
    by (rule root_IV_eq [where scale = "0x10000000000000000"]) (use IV_encloses(3) in simp_all)
  show "eight_of SHA384_IV = uints (root_IV 8)"
    by (rule eight_uints [OF r]) (simp_all add: SHA384_IV_def)
qed

text \<open>
  The \<open>BigInt\<close> implementation of SHA-512 and SHA-384, with its explicit masks, computes the
  standard's hash on 64-bit words for every message shorter than \<open>2^61\<close> bytes, from initial values
  that are the square roots of the first eight and of the next eight primes.
\<close>

lemma sha512_is_fips:
  assumes "length msg < 2 ^ 61"
  shows "sha512 msg SHA512_IV = SHA512 msg \<and> take 48 (sha512 msg SHA384_IV) = SHA384 msg"
  using sha512_iv [OF sha512_ivs(1) assms] sha512_iv [OF sha512_ivs(2) assms]
  by (simp add: SHA512_def SHA384_def)

end
