(* ===== verification/Js_Text.thy ===== *)
theory Js_Text
  imports Prelude
begin

text \<open>
  What the buffers and the HTTP layer use of the platform's text functions, as their standards
  define them: a JavaScript string as its list of UTF-16 code units, \<open>TextEncoder\<close> and
  \<open>TextDecoder\<close> (the WHATWG UTF-8 encoder and decoder, with replacement and byte order mark),
  \<open>btoa\<close> and \<open>atob\<close> (the forgiving base64 decoder), and \<open>parseInt(s, 16)\<close>. Nothing here is
  translated from the program; the lemmas are the round trips the program relies on.
\<close>

type_synonym unit16 = "16 word"
type_synonym jstring = "unit16 list"

text \<open>A string literal of the program, as code units.\<close>

definition js :: "string \<Rightarrow> jstring" where
  "js s = map (\<lambda>c. of_nat (of_char c)) s"

section \<open>UTF-8\<close>

definition high_surrogate :: "unit16 \<Rightarrow> bool" where
  "high_surrogate u \<longleftrightarrow> 0xD800 \<le> u \<and> u \<le> 0xDBFF"

definition low_surrogate :: "unit16 \<Rightarrow> bool" where
  "low_surrogate u \<longleftrightarrow> 0xDC00 \<le> u \<and> u \<le> 0xDFFF"

text \<open>Code points of a string; a lone surrogate is read as U+FFFD.\<close>

fun code_points :: "jstring \<Rightarrow> nat list" where
  "code_points [] = []"
| "code_points [u] = [if high_surrogate u \<or> low_surrogate u then 0xFFFD else unat u]"
| "code_points (u # v # us) =
     (if high_surrogate u then
        (if low_surrogate v
         then (0x10000 + (unat u - 0xD800) * 0x400 + (unat v - 0xDC00)) # code_points us
         else 0xFFFD # code_points (v # us))
      else (if low_surrogate u then 0xFFFD else unat u) # code_points (v # us))"

definition utf16 :: "nat \<Rightarrow> jstring" where
  "utf16 c = (if c < 0x10000 then [of_nat c]
     else [of_nat (0xD800 + (c - 0x10000) div 0x400), of_nat (0xDC00 + (c - 0x10000) mod 0x400)])"

definition utf8 :: "nat \<Rightarrow> byte list" where
  "utf8 c =
     (if c < 0x80 then [of_nat c]
      else if c < 0x800 then [of_nat (0xC0 + c div 64), of_nat (0x80 + c mod 64)]
      else if c < 0x10000
        then [of_nat (0xE0 + c div 4096), of_nat (0x80 + c div 64 mod 64), of_nat (0x80 + c mod 64)]
      else [of_nat (0xF0 + c div 262144), of_nat (0x80 + c div 4096 mod 64),
            of_nat (0x80 + c div 64 mod 64), of_nat (0x80 + c mod 64)])"

text \<open>\<open>new TextEncoder().encode(s)\<close>\<close>

definition text_encode :: "jstring \<Rightarrow> byte list" where
  "text_encode s = concat (map utf8 (code_points s))"

text \<open>
  The decoder: \<open>needed\<close> continuation bytes are missing, the next one must lie between \<open>lo\<close> and
  \<open>hi\<close>. A byte that does not fit ends the sequence with U+FFFD and is read again.
\<close>

function utf8_decode :: "nat \<Rightarrow> nat \<Rightarrow> nat \<Rightarrow> nat \<Rightarrow> byte list \<Rightarrow> nat list" where
  "utf8_decode needed c lo hi bs =
     (case bs of
        [] \<Rightarrow> if needed = 0 then [] else [0xFFFD]
      | b # rest \<Rightarrow>
          let v = unat b in
          if needed = 0 then
            (if v < 0x80 then v # utf8_decode 0 0 0x80 0xBF rest
             else if 0xC2 \<le> v \<and> v \<le> 0xDF then utf8_decode 1 (v - 0xC0) 0x80 0xBF rest
             else if 0xE0 \<le> v \<and> v \<le> 0xEF
               then utf8_decode 2 (v - 0xE0) (if v = 0xE0 then 0xA0 else 0x80) (if v = 0xED then 0x9F else 0xBF) rest
             else if 0xF0 \<le> v \<and> v \<le> 0xF4
               then utf8_decode 3 (v - 0xF0) (if v = 0xF0 then 0x90 else 0x80) (if v = 0xF4 then 0x8F else 0xBF) rest
             else 0xFFFD # utf8_decode 0 0 0x80 0xBF rest)
          else if lo \<le> v \<and> v \<le> hi then
            (let c' = c * 64 + (v - 0x80)
             in if needed = 1 then c' # utf8_decode 0 0 0x80 0xBF rest
                else utf8_decode (needed - 1) c' 0x80 0xBF rest)
          else 0xFFFD # utf8_decode 0 0 0x80 0xBF bs)"
  by pat_completeness auto
termination
  by (relation "measure (\<lambda>(needed, c, lo, hi, bs). 2 * length bs + (if needed = 0 then 0 else 1))")
    auto

declare utf8_decode.simps [simp del]

text \<open>\<open>new TextDecoder('utf-8').decode(bytes)\<close> drops a leading byte order mark.\<close>

definition text_decode :: "byte list \<Rightarrow> jstring" where
  "text_decode bs =
     concat (map utf16 (utf8_decode 0 0 0x80 0xBF
       (if take 3 bs = [0xEF, 0xBB, 0xBF] then drop 3 bs else bs)))"

text \<open>A well-formed string: every surrogate belongs to a pair.\<close>

fun well_formed :: "jstring \<Rightarrow> bool" where
  "well_formed [] = True"
| "well_formed [u] = (\<not> high_surrogate u \<and> \<not> low_surrogate u)"
| "well_formed (u # v # us) =
     (if high_surrogate u then low_surrogate v \<and> well_formed us
      else \<not> low_surrogate u \<and> well_formed (v # us))"

definition scalar :: "nat \<Rightarrow> bool" where
  "scalar c \<longleftrightarrow> c < 0x110000 \<and> \<not> (0xD800 \<le> c \<and> c \<le> 0xDFFF)"

lemma unat_small: "n < 256 \<Longrightarrow> unat (of_nat n :: byte) = n"
  by (simp add: unat_of_nat)

text \<open>One step of the decoder per kind of byte.\<close>

lemma decode_last:
  "lo \<le> v \<Longrightarrow> v \<le> hi \<Longrightarrow> v < 256 \<Longrightarrow>
     utf8_decode 1 c lo hi (of_nat v # bs) = (c * 64 + (v - 0x80)) # utf8_decode 0 0 0x80 0xBF bs"
  by (subst utf8_decode.simps) (simp add: unat_small Let_def)

lemma decode_more:
  "lo \<le> v \<Longrightarrow> v \<le> hi \<Longrightarrow> v < 256 \<Longrightarrow> 0 < n \<Longrightarrow>
     utf8_decode (Suc n) c lo hi (of_nat v # bs) = utf8_decode n (c * 64 + (v - 0x80)) 0x80 0xBF bs"
  by (subst utf8_decode.simps) (simp add: unat_small Let_def)

lemma decode_lead:
  "v < 0x80 \<Longrightarrow> utf8_decode 0 0 0x80 0xBF (of_nat v # bs) = v # utf8_decode 0 0 0x80 0xBF bs"
  "2 \<le> x \<Longrightarrow> x < 32 \<Longrightarrow> utf8_decode 0 0 0x80 0xBF (of_nat (0xC0 + x) # bs) = utf8_decode 1 x 0x80 0xBF bs"
  "x < 16 \<Longrightarrow> utf8_decode 0 0 0x80 0xBF (of_nat (0xE0 + x) # bs)
     = utf8_decode 2 x (if x = 0 then 0xA0 else 0x80) (if x = 13 then 0x9F else 0xBF) bs"
  "x < 5 \<Longrightarrow> utf8_decode 0 0 0x80 0xBF (of_nat (0xF0 + x) # bs)
     = utf8_decode 3 x (if x = 0 then 0x90 else 0x80) (if x = 4 then 0x8F else 0xBF) bs"
  by (subst utf8_decode.simps, simp add: unat_small Let_def del: of_nat_add)+

lemma div_mod_64: "(n :: nat) div 64 * 64 + n mod 64 = n"
  by simp

lemma div_div: "(n :: nat) div 64 div 64 = n div 4096" "n div 4096 div 64 = n div 262144"
  by (simp_all add: div_mult2_eq [symmetric])

lemma utf8_decode_utf8:
  assumes "scalar c"
  shows "utf8_decode 0 0 0x80 0xBF (utf8 c @ bs) = c # utf8_decode 0 0 0x80 0xBF bs"
proof -
  consider "c < 0x80" | "0x80 \<le> c" "c < 0x800" | "0x800 \<le> c" "c < 0x10000"
    | "0x10000 \<le> c" "c < 0x110000" using assms unfolding scalar_def by (meson not_le)
  then show ?thesis
  proof cases
    case 1
    then show ?thesis by (simp add: utf8_def decode_lead)
  next
    case 2
    define x y where "x = c div 64" and "y = c mod 64"
    have e: "c = x * 64 + y" "y < 64" by (simp_all add: x_def y_def)
    with 2 have x: "2 \<le> x" "x < 32" by auto
    have u: "utf8 c = [of_nat (0xC0 + x), of_nat (0x80 + y)]" using 2 by (simp add: utf8_def x_def y_def)
    show ?thesis
      unfolding u append_Cons append_Nil decode_lead(2) [OF x] using e by (subst decode_last) simp_all
  next
    case 3
    define x y z where "x = c div 4096" and "y = c div 64 mod 64" and "z = c mod 64"
    have e: "c = (x * 64 + y) * 64 + z" "y < 64" "z < 64"
      using div_mod_64 [of c] div_mod_64 [of "c div 64"] by (simp_all add: x_def y_def z_def div_div)
    have x: "x < 16" and b: "x = 0 \<Longrightarrow> 32 \<le> y" "x = 13 \<Longrightarrow> y < 32" using e 3 assms by (auto simp: scalar_def)
    have u: "utf8 c = [of_nat (0xE0 + x), of_nat (0x80 + y), of_nat (0x80 + z)]"
      using 3 by (simp add: utf8_def x_def y_def z_def)
    have "utf8_decode 0 0 0x80 0xBF (utf8 c @ bs) = utf8_decode 1 (x * 64 + y) 0x80 0xBF (of_nat (0x80 + z) # bs)"
      unfolding u append_Cons append_Nil decode_lead(3) [OF x] numeral_2_eq_2 One_nat_def
      using b e(2) by (subst decode_more) auto
    also have "\<dots> = c # utf8_decode 0 0 0x80 0xBF bs"
      using e by (subst decode_last) simp_all
    finally show ?thesis .
  next
    case 4
    define w x y z where "w = c div 262144" and "x = c div 4096 mod 64" and "y = c div 64 mod 64" and "z = c mod 64"
    have e: "c = ((w * 64 + x) * 64 + y) * 64 + z" "x < 64" "y < 64" "z < 64"
      using div_mod_64 [of c] div_mod_64 [of "c div 64"] div_mod_64 [of "c div 4096"]
      by (simp_all add: w_def x_def y_def z_def div_div)
    have w: "w < 5" and b: "w = 0 \<Longrightarrow> 16 \<le> x" "w = 4 \<Longrightarrow> x < 16" using e 4 by auto
    have u: "utf8 c = [of_nat (0xF0 + w), of_nat (0x80 + x), of_nat (0x80 + y), of_nat (0x80 + z)]"
      using 4 by (simp add: utf8_def w_def x_def y_def z_def)
    have "utf8_decode 0 0 0x80 0xBF (utf8 c @ bs)
        = utf8_decode 2 (w * 64 + x) 0x80 0xBF (of_nat (0x80 + y) # of_nat (0x80 + z) # bs)"
      unfolding u append_Cons append_Nil decode_lead(4) [OF w] numeral_3_eq_3 numeral_2_eq_2
      using b e(2) by (subst decode_more) auto
    also have "\<dots> = utf8_decode 1 ((w * 64 + x) * 64 + y) 0x80 0xBF (of_nat (0x80 + z) # bs)"
      unfolding numeral_2_eq_2 One_nat_def using e(3) by (subst decode_more) simp_all
    also have "\<dots> = c # utf8_decode 0 0 0x80 0xBF bs"
      using e by (subst decode_last) simp_all
    finally show ?thesis .
  qed
qed

lemma utf8_decode_points:
  "list_all scalar cs \<Longrightarrow> utf8_decode 0 0 0x80 0xBF (concat (map utf8 cs) @ bs) = cs @ utf8_decode 0 0 0x80 0xBF bs"
  by (induction cs) (simp_all add: utf8_decode_utf8)

lemma utf8_decode_empty: "utf8_decode 0 0 0x80 0xBF [] = []"
  by (subst utf8_decode.simps) simp

lemma surrogate_unat:
  "high_surrogate u \<longleftrightarrow> 0xD800 \<le> unat u \<and> unat u \<le> 0xDBFF"
  "low_surrogate u \<longleftrightarrow> 0xDC00 \<le> unat u \<and> unat u \<le> 0xDFFF"
  by (simp_all add: high_surrogate_def low_surrogate_def word_le_nat_alt)

lemma unat16: "unat (u :: unit16) < 65536"
  using unsigned_less [of u] by simp

lemma pair_round:
  assumes "high_surrogate u" "low_surrogate v"
  shows "utf16 (0x10000 + (unat u - 0xD800) * 0x400 + (unat v - 0xDC00)) = [u, v]"
    and "scalar (0x10000 + (unat u - 0xD800) * 0x400 + (unat v - 0xDC00))"
proof -
  define h l where "h = unat u - 0xD800" and "l = unat v - 0xDC00"
  have b: "h < 0x400" "l < 0x400" and uv: "unat u = 0xD800 + h" "unat v = 0xDC00 + l"
    using assms by (auto simp: surrogate_unat h_def l_def)
  have d: "(h * 0x400 + l) div 0x400 = h" "(h * 0x400 + l) mod 0x400 = l" using b(2) by simp_all
  have "of_nat (unat u) = u" "of_nat (unat v) = v" by simp_all
  then have "u = of_nat (0xD800 + h)" "v = of_nat (0xDC00 + l)" by (simp_all only: uv)
  then show "utf16 (0x10000 + (unat u - 0xD800) * 0x400 + (unat v - 0xDC00)) = [u, v]"
    using d unfolding h_def [symmetric] l_def [symmetric] by (simp add: utf16_def add.assoc)
  show "scalar (0x10000 + (unat u - 0xD800) * 0x400 + (unat v - 0xDC00))"
    using b unfolding h_def [symmetric] l_def [symmetric] by (simp add: scalar_def)
qed

lemma single_round:
  "\<not> high_surrogate u \<Longrightarrow> \<not> low_surrogate u \<Longrightarrow> utf16 (unat u) = [u] \<and> scalar (unat u)"
  using unat16 [of u] by (auto simp: utf16_def scalar_def surrogate_unat)

lemma code_points_round:
  "well_formed s \<Longrightarrow> concat (map utf16 (code_points s)) = s \<and> list_all scalar (code_points s)"
proof (induction s rule: well_formed.induct)
  case (2 u)
  then show ?case using single_round [of u] by simp
next
  case (3 u v us)
  show ?case
  proof (cases "high_surrogate u")
    case True
    with 3 show ?thesis by (simp add: pair_round)
  next
    case False
    with 3 show ?thesis using single_round [of u] by simp
  qed
qed simp

text \<open>Decoding what was encoded gives the string back, unless it starts with a byte order mark.\<close>

lemma text_round:
  assumes "well_formed s" "s = [] \<or> hd s \<noteq> 0xFEFF"
  shows "text_decode (text_encode s) = s"
proof -
  note cp = code_points_round [OF assms(1)]
  have dec: "utf8_decode 0 0 0x80 0xBF (text_encode s) = code_points s"
    using cp utf8_decode_points [of "code_points s" "[]"] by (simp add: text_encode_def utf8_decode_empty)
  have "take 3 (text_encode s) \<noteq> [0xEF, 0xBB, 0xBF]"
  proof
    assume "take 3 (text_encode s) = [0xEF, 0xBB, 0xBF]"
    then have "text_encode s = utf8 0xFEFF @ drop 3 (text_encode s)"
      by (subst append_take_drop_id [of 3, symmetric], simp only:) (simp add: utf8_def)
    then obtain r where r: "text_encode s = utf8 0xFEFF @ r" by blast
    have "code_points s = 0xFEFF # utf8_decode 0 0 0x80 0xBF r"
      using dec unfolding r by (subst (asm) utf8_decode_utf8) (simp_all add: scalar_def)
    with cp have "s = utf16 0xFEFF @ concat (map utf16 (utf8_decode 0 0 0x80 0xBF r))"
      by simp
    then show False using assms(2) by (cases s) (auto simp: utf16_def)
  qed
  then show ?thesis using cp dec by (simp add: text_decode_def)
qed

section \<open>Base64\<close>

definition b64_table :: jstring where
  "b64_table = js ''ABCDEFGHIJKLMNOPQRSTUVWXYZabcdefghijklmnopqrstuvwxyz0123456789+/''"

abbreviation b64_pad :: unit16 where "b64_pad \<equiv> 0x3D"

fun sextets :: "byte list \<Rightarrow> nat list" where
  "sextets (a # b # c # bs) =
     [unat a div 4, unat a mod 4 * 16 + unat b div 16, unat b mod 16 * 4 + unat c div 64, unat c mod 64] @ sextets bs"
| "sextets [a, b] = [unat a div 4, unat a mod 4 * 16 + unat b div 16, unat b mod 16 * 4]"
| "sextets [a] = [unat a div 4, unat a mod 4 * 16]"
| "sextets [] = []"

text \<open>\<open>btoa\<close> of a string of code units below 256, given as bytes.\<close>

definition btoa :: "byte list \<Rightarrow> jstring" where
  "btoa bs = map (\<lambda>n. b64_table ! n) (sextets bs) @ replicate ((3 - length bs mod 3) mod 3) b64_pad"

fun unsextets :: "nat list \<Rightarrow> byte list" where
  "unsextets (a # b # c # d # ns) =
     [of_nat (a * 4 + b div 16), of_nat (b mod 16 * 16 + c div 4), of_nat (c mod 4 * 64 + d)] @ unsextets ns"
| "unsextets [a, b, c] = [of_nat (a * 4 + b div 16), of_nat (b mod 16 * 16 + c div 4)]"
| "unsextets [a, b] = [of_nat (a * 4 + b div 16)]"
| "unsextets _ = []"

definition ascii_space :: "unit16 \<Rightarrow> bool" where
  "ascii_space u \<longleftrightarrow> u \<in> {9, 10, 12, 13, 32}"

definition drop_pad :: "jstring \<Rightarrow> jstring" where
  "drop_pad s = (if s \<noteq> [] \<and> last s = b64_pad then butlast s else s)"

text \<open>
  \<open>atob\<close>: white space is dropped, at most two padding characters of a string of full groups too;
  anything else that is no digit of the alphabet is an error.
\<close>

definition atob :: "jstring \<Rightarrow> byte list option" where
  "atob s =
     (let t = filter (\<lambda>u. \<not> ascii_space u) s;
          t = (if length t mod 4 = 0 then drop_pad (drop_pad t) else t)
      in if length t mod 4 = 1 \<or> \<not> set t \<subseteq> set b64_table then None
         else Some (unsextets (map (\<lambda>u. the (index_of u b64_table)) t)))"

text \<open>The alphabet: 64 different characters, none of them padding or white space.\<close>

lemma b64_table_facts:
  "length b64_table = 64"
  "list_all (\<lambda>n. index_of (b64_table ! n) b64_table = Some n) [0..<64]"
  "list_all (\<lambda>u. u \<notin> {9, 10, 12, 13, 32, b64_pad}) b64_table"
  by code_simp+

lemma b64_digit:
  assumes "n < 64"
  shows "b64_table ! n \<in> set b64_table" "index_of (b64_table ! n) b64_table = Some n"
    "b64_table ! n \<notin> {9, 10, 12, 13, 32, b64_pad}"
proof -
  show m: "b64_table ! n \<in> set b64_table" using assms b64_table_facts(1) by simp
  show "index_of (b64_table ! n) b64_table = Some n"
    using assms b64_table_facts(2) by (simp add: list_all_iff)
  show "b64_table ! n \<notin> {9, 10, 12, 13, 32, b64_pad}"
    using m b64_table_facts(3) by (auto simp: list_all_iff)
qed

lemma byte_unat [simp]: "unat (b :: byte) < 256"
  using unsigned_less [of b] by simp

lemma sextets_small: "n \<in> set (sextets bs) \<Longrightarrow> n < 64"
proof (induction bs rule: sextets.induct)
  case (1 a b c bs)
  have "unat a div 4 < 64" "unat b div 16 < 16" "unat c div 64 < 4"
    using byte_unat [of a] byte_unat [of b] byte_unat [of c] by linarith+
  with 1 show ?case by auto
next
  case (2 a b)
  have "unat a div 4 < 64" "unat b div 16 < 16" using byte_unat [of a] byte_unat [of b] by linarith+
  with 2 show ?case by auto
next
  case (3 a)
  have "unat a div 4 < 64" using byte_unat [of a] by linarith
  with 3 show ?case by auto
qed simp

lemma unsextets_sextets: "unsextets (sextets bs) = bs"
proof (induction bs rule: sextets.induct)
  case (1 a b c bs)
  have d: "unat b div 16 < 16" "unat c div 64 < 4"
    using byte_unat [of b] byte_unat [of c] by linarith+
  have "unat a div 4 * 4 + (unat a mod 4 * 16 + unat b div 16) div 16 = unat a"
    "(unat a mod 4 * 16 + unat b div 16) mod 16 * 16 + (unat b mod 16 * 4 + unat c div 64) div 4 = unat b"
    "(unat b mod 16 * 4 + unat c div 64) mod 4 * 64 + unat c mod 64 = unat c"
    using d by simp_all
  with 1 show ?case by simp
next
  case (2 a b)
  have d: "unat b div 16 < 16" using byte_unat [of b] by linarith
  then have "unat a div 4 * 4 + (unat a mod 4 * 16 + unat b div 16) div 16 = unat a"
    "(unat a mod 4 * 16 + unat b div 16) mod 16 * 16 + unat b mod 16 * 4 div 4 = unat b"
    by simp_all
  then show ?case by simp
next
  case (3 a)
  have "unat a div 4 * 4 + unat a mod 4 * 16 div 16 = unat a" by simp
  then show ?case by simp
qed simp

lemma length_sextets: "length (sextets bs) = 4 * (length bs div 3) + (if length bs mod 3 = 0 then 0 else Suc (length bs mod 3))"
proof (induction bs rule: sextets.induct)
  case (1 a b c bs)
  have "(3 + length bs) div 3 = Suc (length bs div 3)" by presburger
  with 1 show ?case by simp
qed simp_all

definition b64_digits :: "byte list \<Rightarrow> jstring" where
  "b64_digits bs = map (\<lambda>n. b64_table ! n) (sextets bs)"

lemma b64_digits_facts:
  "set (b64_digits bs) \<subseteq> set b64_table"
  "u \<in> set (b64_digits bs) \<Longrightarrow> u \<notin> {9, 10, 12, 13, 32, b64_pad}"
  "map (\<lambda>u. the (index_of u b64_table)) (b64_digits bs) = sextets bs"
  "length (b64_digits bs) = length (sextets bs)"
  using sextets_small [of _ bs] b64_digit
  by (auto simp: b64_digits_def intro!: nth_equalityI)

lemma drop_pad_digits [simp]: "drop_pad (b64_digits bs) = b64_digits bs" "drop_pad (s @ [b64_pad]) = s"
proof -
  have "b64_digits bs \<noteq> [] \<Longrightarrow> last (b64_digits bs) \<noteq> b64_pad"
    using b64_digits_facts(2) [of "last (b64_digits bs)" bs] last_in_set by blast
  then show "drop_pad (b64_digits bs) = b64_digits bs" "drop_pad (s @ [b64_pad]) = s"
    by (auto simp: drop_pad_def)
qed

lemma drop_pad_two [simp]: "drop_pad (s @ [b64_pad, b64_pad]) = s @ [b64_pad]"
  using drop_pad_digits(2) [of "s @ [b64_pad]"] by simp

lemma atob_padded:
  assumes "k = (3 - length bs mod 3) mod 3"
  shows "atob (b64_digits bs @ replicate k b64_pad) = Some bs"
proof -
  define m where "m = length bs mod 3"
  have k: "k = (3 - m) mod 3" by (simp add: assms m_def)
  have "m = 0 \<or> m = 1 \<or> m = 2" unfolding m_def by linarith
  then have cases: "m = 0 \<and> k = 0 \<or> m = 2 \<and> k = 1 \<or> m = 1 \<and> k = 2"
    by (elim disjE) (simp_all add: k)
  have len: "length (b64_digits bs) mod 4 = (if m = 0 then 0 else Suc m)" "m < 3"
    by (simp_all add: b64_digits_facts(4) length_sextets m_def mod_Suc)
  have no_ws: "filter (\<lambda>u. \<not> ascii_space u) (b64_digits bs) = b64_digits bs"
    using b64_digits_facts(2) [of _ bs] unfolding ascii_space_def by (intro filter_True) blast
  have pad: "\<not> ascii_space b64_pad" by (simp add: ascii_space_def)
  define t where "t = b64_digits bs @ replicate k b64_pad"
  have ws: "filter (\<lambda>u. \<not> ascii_space u) t = t" using pad unfolding t_def by (simp add: no_ws)
  have full: "length t mod 4 = 0"
    using cases len by (auto simp: t_def mod_add_left_eq [of "length (b64_digits bs)" 4, symmetric])
  have strip: "drop_pad (drop_pad t) = b64_digits bs"
    using cases by (auto simp: t_def numeral_2_eq_2)
  have "length (b64_digits bs) mod 4 \<noteq> 1" using len by auto
  then show ?thesis
    using b64_digits_facts(1) [of bs]
    by (simp add: atob_def Let_def ws full strip b64_digits_facts(3) unsextets_sextets flip: t_def)
qed

lemma atob_btoa: "atob (btoa bs) = Some bs"
  using atob_padded [OF refl, of bs] by (simp add: btoa_def b64_digits_def)

end
