(* ===== verification/Node_Buffer.thy ===== *)
theory Node_Buffer
  imports Js_Text
begin

text \<open>
  The \<open>Buffer\<close> builtin (\<open>napi-bridge/browser-builtins.js\<close>): a \<open>Uint8Array\<close> subclass. Because the
  code promises which operations share memory and which copy, array buffers live in an explicit
  store and a buffer is a view of one: its array buffer, its offset and its length. Every operation
  that can throw returns a sum beside the store.

  An argument that is \<open>undefined\<close> is \<^term>\<open>None\<close> where the code tests for that, and 0 where the
  code writes \<open>x || 0\<close>. Indices are integers: the code does not check them, so what it reads
  outside a view is \<open>undefined\<close> and what it writes there is lost.
\<close>

section \<open>Encodings\<close>

definition encoding_names :: "string list" where
  "encoding_names = [''utf8'', ''utf-8'', ''ascii'', ''latin1'', ''binary'', ''base64'', ''base64url'', ''hex'']"

definition isEncoding :: "string \<Rightarrow> bool" where
  "isEncoding e \<longleftrightarrow> toLowerCase e \<in> set encoding_names"

text \<open>\<open>parseInt(s, 16)\<close>: white space, a sign, \<open>0x\<close>, then the longest run of digits.\<close>

definition js_space :: "unit16 \<Rightarrow> bool" where
  "js_space u \<longleftrightarrow> u \<in> {9, 10, 11, 12, 13, 32, 0xA0, 0x1680, 0x2028, 0x2029, 0x202F, 0x205F, 0x3000, 0xFEFF}
     \<or> 0x2000 \<le> u \<and> u \<le> 0x200A"

definition hex_unit :: "unit16 \<Rightarrow> nat option" where
  "hex_unit u =
     (if 0x30 \<le> u \<and> u \<le> 0x39 then Some (unat u - 0x30)
      else if 0x61 \<le> u \<and> u \<le> 0x66 then Some (unat u - 0x57)
      else if 0x41 \<le> u \<and> u \<le> 0x46 then Some (unat u - 0x37) else None)"

fun hex_run :: "nat option \<Rightarrow> jstring \<Rightarrow> nat option" where
  "hex_run acc [] = acc"
| "hex_run acc (u # us) =
     (case hex_unit u of None \<Rightarrow> acc
      | Some d \<Rightarrow> hex_run (Some ((case acc of None \<Rightarrow> 0 | Some a \<Rightarrow> a * 16) + d)) us)"

definition drop_0x :: "jstring \<Rightarrow> jstring" where
  "drop_0x s = (case s of z # x # r \<Rightarrow> if z = 0x30 \<and> (x = 0x78 \<or> x = 0x58) then r else s | _ \<Rightarrow> s)"

definition parseInt16 :: "jstring \<Rightarrow> int option" where
  "parseInt16 s =
     (let t = dropWhile js_space s;
          neg = (t \<noteq> [] \<and> hd t = 0x2D);
          t = (if t \<noteq> [] \<and> (hd t = 0x2D \<or> hd t = 0x2B) then tl t else t)
      in map_option (\<lambda>n. if neg then - int n else int n) (hex_run None (drop_0x t)))"

text \<open>A number stored in a byte array: \<open>NaN\<close> becomes 0, anything else is taken modulo 256.\<close>

definition store_byte :: "int option \<Rightarrow> byte" where
  "store_byte n = (case n of None \<Rightarrow> 0 | Some k \<Rightarrow> of_int k)"

definition from_hex :: "jstring \<Rightarrow> byte list" where
  "from_hex str = map (\<lambda>i. store_byte (parseInt16 (take 2 (drop (i * 2) str)))) [0..<length str div 2]"

text \<open>\<open>while (s.length % 4) s += '='\<close>\<close>

definition pad4 :: "jstring \<Rightarrow> jstring" where
  "pad4 s = s @ replicate ((4 - length s mod 4) mod 4) b64_pad"

text \<open>\<open>replace(/-/g, '+').replace(/_/g, '/')\<close> and the reverse.\<close>

definition std_char :: "unit16 \<Rightarrow> unit16" where
  "std_char u = (if u = 0x2D then 0x2B else if u = 0x5F then 0x2F else u)"

definition url_char :: "unit16 \<Rightarrow> unit16" where
  "url_char u = (if u = 0x2B then 0x2D else if u = 0x2F then 0x5F else u)"

text \<open>\<open>None\<close> is the exception \<open>atob\<close> throws.\<close>

definition encodeString :: "jstring \<Rightarrow> string \<Rightarrow> byte list option" where
  "encodeString str encoding =
     (if encoding \<in> {''ascii'', ''latin1'', ''binary''} then Some (map ucast str)
      else if encoding = ''base64'' then atob str
      else if encoding = ''base64url''
        then atob (pad4 (map std_char str))
      else if encoding = ''hex'' then Some (from_hex str)
      else Some (text_encode str))"

text \<open>\<open>b.toString(16).padStart(2, '0')\<close>\<close>

definition hex_chars :: jstring where
  "hex_chars = js ''0123456789abcdef''"

definition byte_hex :: "byte \<Rightarrow> jstring" where
  "byte_hex b = [hex_chars ! (unat b div 16), hex_chars ! (unat b mod 16)]"

definition decode_bytes :: "byte list \<Rightarrow> string \<Rightarrow> jstring" where
  "decode_bytes view encoding =
     (if encoding = ''ascii'' then map (\<lambda>b. ucast (take_bit 7 b)) view
      else if encoding \<in> {''latin1'', ''binary''} then map ucast view
      else if encoding = ''base64'' then btoa view
      else if encoding = ''base64url''
        then rev (dropWhile (\<lambda>u. u = b64_pad)
               (rev (map url_char (btoa view))))
      else if encoding = ''hex'' then concat (map byte_hex view)
      else text_decode view)"

section \<open>Array buffers and views\<close>

record buf_view =
  v_ab :: nat
  v_off :: nat
  v_len :: nat

record heap =
  h_next :: nat
  h_mem :: "nat \<Rightarrow> byte list"

datatype buf_error = RangeErr | InvalidCharacterErr | TypeErr

text \<open>\<open>new Buffer(size)\<close>: a fresh, zeroed array buffer.\<close>

definition new_buffer :: "nat \<Rightarrow> heap \<Rightarrow> buf_view \<times> heap" where
  "new_buffer n h =
     (\<lparr>v_ab = h_next h, v_off = 0, v_len = n\<rparr>,
      h\<lparr>h_next := Suc (h_next h), h_mem := (h_mem h)(h_next h := replicate n 0)\<rparr>)"

text \<open>\<open>new Buffer(arrayBuffer, offset, len)\<close>: the language checks the range.\<close>

definition new_view :: "heap \<Rightarrow> nat \<Rightarrow> int \<Rightarrow> int \<Rightarrow> buf_error + buf_view" where
  "new_view h ab off len =
     (if off < 0 \<or> len < 0 \<or> int (length (h_mem h ab)) < off + len then Inl RangeErr
      else Inr \<lparr>v_ab = ab, v_off = nat off, v_len = nat len\<rparr>)"

text \<open>What a view holds, and element access.\<close>

definition view_bytes :: "heap \<Rightarrow> buf_view \<Rightarrow> byte list" where
  "view_bytes h v = take (v_len v) (drop (v_off v) (h_mem h (v_ab v)))"

definition get_at :: "heap \<Rightarrow> buf_view \<Rightarrow> int \<Rightarrow> byte option" where
  "get_at h v i = (if 0 \<le> i \<and> i < int (v_len v) then Some (h_mem h (v_ab v) ! (v_off v + nat i)) else None)"

definition put_at :: "buf_view \<Rightarrow> int \<Rightarrow> byte \<Rightarrow> heap \<Rightarrow> heap" where
  "put_at v i b h =
     (if 0 \<le> i \<and> i < int (v_len v)
      then h\<lparr>h_mem := (h_mem h)(v_ab v := (h_mem h (v_ab v))[v_off v + nat i := b])\<rparr> else h)"

text \<open>\<open>for (let i = 0; i < n; i++) target[off + i] = data(i)\<close>, and \<open>target.set(data, off)\<close>.\<close>

fun put_all :: "buf_view \<Rightarrow> int \<Rightarrow> byte list \<Rightarrow> heap \<Rightarrow> heap" where
  "put_all v off [] h = h"
| "put_all v off (b # bs) h = put_all v (off + 1) bs (put_at v off b h)"

definition wf_view :: "heap \<Rightarrow> buf_view \<Rightarrow> bool" where
  "wf_view h v \<longleftrightarrow> v_ab v < h_next h \<and> v_off v + v_len v \<le> length (h_mem h (v_ab v))"

section \<open>Construction\<close>

text \<open>A fresh buffer with the given bytes: \<open>new Buffer(n)\<close> followed by \<open>set\<close>.\<close>

definition buffer_with :: "byte list \<Rightarrow> heap \<Rightarrow> buf_view \<times> heap" where
  "buffer_with bs h = (let (v, h1) = new_buffer (length bs) h in (v, put_all v 0 bs h1))"

definition from_string :: "jstring \<Rightarrow> string \<Rightarrow> heap \<Rightarrow> (buf_error + buf_view) \<times> heap" where
  "from_string s encoding h =
     (case encodeString s encoding of
        None \<Rightarrow> (Inl InvalidCharacterErr, h)
      | Some bs \<Rightarrow> let (v, h1) = buffer_with bs h in (Inr v, h1))"

definition from_arrayBuffer :: "nat \<Rightarrow> int \<Rightarrow> int option \<Rightarrow> heap \<Rightarrow> (buf_error + buf_view) \<times> heap" where
  "from_arrayBuffer ab offset len h =
     (new_view h ab offset (case len of Some l \<Rightarrow> l | None \<Rightarrow> int (length (h_mem h ab)) - offset), h)"

definition from_buffer :: "buf_view \<Rightarrow> heap \<Rightarrow> buf_view \<times> heap" where
  "from_buffer data h = buffer_with (view_bytes h data) h"

definition from_array :: "int list \<Rightarrow> heap \<Rightarrow> buf_view \<times> heap" where
  "from_array data h = buffer_with (map of_int data) h"

text \<open>\<open>fill\<close> with a number or with a string, whose bytes repeat.\<close>

datatype fill_value = FillNum int | FillStr jstring

definition fill_range :: "buf_view \<Rightarrow> int \<Rightarrow> int \<Rightarrow> byte list \<Rightarrow> heap \<Rightarrow> heap" where
  "fill_range v offset stop pat h =
     put_all v offset (map (\<lambda>i. pat ! (i mod length pat)) [0..<nat (stop - offset)]) h"

definition buf_fill :: "buf_view \<Rightarrow> fill_value \<Rightarrow> int \<Rightarrow> int option \<Rightarrow> string \<Rightarrow> heap \<Rightarrow> (buf_error + buf_view) \<times> heap" where
  "buf_fill v value offset stop encoding h =
     (let e = (case stop of Some e \<Rightarrow> e | None \<Rightarrow> int (v_len v))
      in case value of
           FillStr s \<Rightarrow>
             (case encodeString s encoding of
                None \<Rightarrow> (Inl InvalidCharacterErr, h)
              | Some encoded \<Rightarrow> (Inr v, if encoded = [] then h else fill_range v offset e encoded h))
         | FillNum k \<Rightarrow> (Inr v, fill_range v offset e [of_int k] h))"

definition buf_alloc :: "nat \<Rightarrow> fill_value option \<Rightarrow> string \<Rightarrow> heap \<Rightarrow> (buf_error + buf_view) \<times> heap" where
  "buf_alloc n fill encoding h =
     (let (v, h1) = new_buffer n h
      in case fill of None \<Rightarrow> (Inr v, h1) | Some value \<Rightarrow> buf_fill v value 0 (Some (int n)) encoding h1)"

text \<open>\<open>slice\<close> and \<open>subarray\<close> are the same: a view of the same array buffer.\<close>

definition buf_slice :: "buf_view \<Rightarrow> int \<Rightarrow> int option \<Rightarrow> heap \<Rightarrow> buf_error + buf_view" where
  "buf_slice v start stop h =
     (let e = (case stop of Some e \<Rightarrow> e | None \<Rightarrow> int (v_len v))
      in new_view h (v_ab v) (int (v_off v) + start) (e - start))"

definition buf_toString :: "buf_view \<Rightarrow> string \<Rightarrow> int \<Rightarrow> int option \<Rightarrow> heap \<Rightarrow> buf_error + jstring" where
  "buf_toString v encoding start stop h =
     (case buf_slice v start (Some (case stop of Some e \<Rightarrow> e | None \<Rightarrow> int (v_len v))) h of
        Inl e \<Rightarrow> Inl e | Inr s \<Rightarrow> Inr (decode_bytes (view_bytes h s) encoding))"

text \<open>\<open>concat\<close>; \<open>total\<close> is \<open>totalLength\<close>.\<close>

fun concat_loop :: "buf_view \<Rightarrow> nat \<Rightarrow> nat \<Rightarrow> buf_view list \<Rightarrow> heap \<Rightarrow> heap" where
  "concat_loop result tot offset [] h = h"
| "concat_loop result tot offset (b # bs) h =
     (let len = min (v_len b) (tot - offset);
          h1 = put_all result (int offset) (take len (view_bytes h b)) h
      in if tot \<le> offset + len then h1 else concat_loop result tot (offset + len) bs h1)"

definition buf_concat :: "buf_view list \<Rightarrow> nat option \<Rightarrow> heap \<Rightarrow> buf_view \<times> heap" where
  "buf_concat list totalLength h =
     (let tot = (case totalLength of Some n \<Rightarrow> n | None \<Rightarrow> sum_list (map v_len list));
          (result, h1) = new_buffer tot h
      in (result, concat_loop result tot 0 list h1))"

definition byteLength :: "jstring \<Rightarrow> string \<Rightarrow> nat option" where
  "byteLength s encoding = map_option length (encodeString s encoding)"

section \<open>Comparison and search\<close>

fun compare_loop :: "byte list \<Rightarrow> byte list \<Rightarrow> int" where
  "compare_loop (x # xs) (y # ys) = (if x < y then -1 else if x > y then 1 else compare_loop xs ys)"
| "compare_loop xs ys = (if length xs < length ys then -1 else if length xs > length ys then 1 else 0)"

definition buf_compare :: "heap \<Rightarrow> buf_view \<Rightarrow> buf_view \<Rightarrow> int" where
  "buf_compare h a b = compare_loop (view_bytes h a) (view_bytes h b)"

definition buf_equals :: "heap \<Rightarrow> buf_view \<Rightarrow> buf_view \<Rightarrow> bool" where
  "buf_equals h a b \<longleftrightarrow>
     v_len a = v_len b \<and> list_all (\<lambda>i. get_at h a (int i) = get_at h b (int i)) [0..<v_len a]"

datatype needle = NumN int | BytesN "byte list"

text \<open>The first index from \<open>i\<close> below \<open>n\<close> that passes the test, or -1.\<close>

function first_index :: "(int \<Rightarrow> bool) \<Rightarrow> int \<Rightarrow> int \<Rightarrow> int" where
  "first_index test i n = (if i < n then (if test i then i else first_index test (i + 1) n) else -1)"
  by auto
termination by (relation "measure (\<lambda>(test, i, n). nat (n - i))") auto

declare first_index.simps [simp del]

text \<open>A string value is encoded first; a number is compared as it is, a byte never equals 300.\<close>

definition buf_indexOf :: "heap \<Rightarrow> buf_view \<Rightarrow> needle \<Rightarrow> int \<Rightarrow> int" where
  "buf_indexOf h v value byteOffset =
     (case value of
        NumN k \<Rightarrow> first_index (\<lambda>i. map_option uint (get_at h v i) = Some k) byteOffset (int (v_len v))
      | BytesN bs \<Rightarrow>
          if bs = [] then byteOffset
          else first_index
                 (\<lambda>i. list_all (\<lambda>j. get_at h v (i + int j) = Some (bs ! j)) [0..<length bs])
                 byteOffset (int (v_len v) - int (length bs) + 1))"

definition buf_includes :: "heap \<Rightarrow> buf_view \<Rightarrow> needle \<Rightarrow> int \<Rightarrow> bool" where
  "buf_includes h v value byteOffset \<longleftrightarrow> buf_indexOf h v value byteOffset \<noteq> -1"

section \<open>Copying and writing\<close>

text \<open>
  \<open>copy\<close> moves the bytes one at a time, so with overlapping ranges it reads what it has just
  written; reading outside the source stores 0.
\<close>

definition buf_copy :: "buf_view \<Rightarrow> buf_view \<Rightarrow> int \<Rightarrow> int \<Rightarrow> int option \<Rightarrow> heap \<Rightarrow> int \<times> heap" where
  "buf_copy v target targetStart sourceStart sourceEnd h =
     (let e = (case sourceEnd of Some e \<Rightarrow> e | None \<Rightarrow> int (v_len v));
          len = min (e - sourceStart) (int (v_len target) - targetStart)
      in (len, foldl (\<lambda>h i. put_at target (targetStart + int i)
                          (case get_at h v (sourceStart + int i) of Some b \<Rightarrow> b | None \<Rightarrow> 0) h)
                h [0..<nat len]))"

definition buf_write :: "buf_view \<Rightarrow> jstring \<Rightarrow> int \<Rightarrow> int option \<Rightarrow> string \<Rightarrow> heap \<Rightarrow> (buf_error + int) \<times> heap" where
  "buf_write v s offset len encoding h =
     (let l = (case len of Some l \<Rightarrow> l | None \<Rightarrow> int (v_len v) - offset)
      in case encodeString s encoding of
           None \<Rightarrow> (Inl InvalidCharacterErr, h)
         | Some encoded \<Rightarrow>
             let n = min (int (length encoded)) (min l (int (v_len v) - offset))
             in (Inr n, put_all v offset (take (nat n) encoded) h))"

section \<open>Integers\<close>

text \<open>In a bitwise operation an element that is \<open>undefined\<close> counts as 0.\<close>

definition bits_at :: "heap \<Rightarrow> buf_view \<Rightarrow> int \<Rightarrow> 32 word" where
  "bits_at h v i = (case get_at h v i of Some b \<Rightarrow> ucast b | None \<Rightarrow> 0)"

definition readUInt8 :: "heap \<Rightarrow> buf_view \<Rightarrow> int \<Rightarrow> int option" where
  "readUInt8 h v offset = map_option uint (get_at h v offset)"

definition readUInt16BE :: "heap \<Rightarrow> buf_view \<Rightarrow> int \<Rightarrow> int" where
  "readUInt16BE h v offset = sint (or (push_bit 8 (bits_at h v offset)) (bits_at h v (offset + 1)))"

definition readUInt16LE :: "heap \<Rightarrow> buf_view \<Rightarrow> int \<Rightarrow> int" where
  "readUInt16LE h v offset = sint (or (bits_at h v offset) (push_bit 8 (bits_at h v (offset + 1))))"

text \<open>
  The 32-bit reads add the bytes as numbers: the sum is \<open>NaN\<close>, and the result 0, when a byte
  that is not shifted is \<open>undefined\<close>.
\<close>

definition readUInt32BE :: "heap \<Rightarrow> buf_view \<Rightarrow> int \<Rightarrow> int" where
  "readUInt32BE h v offset =
     (case (get_at h v offset, get_at h v (offset + 3)) of
        (Some a, Some d) \<Rightarrow>
          (uint a * 0x1000000 + sint (push_bit 16 (bits_at h v (offset + 1)))
           + sint (push_bit 8 (bits_at h v (offset + 2))) + uint d) mod 2 ^ 32
      | _ \<Rightarrow> 0)"

definition readUInt32LE :: "heap \<Rightarrow> buf_view \<Rightarrow> int \<Rightarrow> int" where
  "readUInt32LE h v offset =
     (case (get_at h v (offset + 3), get_at h v offset) of
        (Some d, Some a) \<Rightarrow>
          (uint d * 0x1000000 + sint (push_bit 16 (bits_at h v (offset + 2)))
           + sint (push_bit 8 (bits_at h v (offset + 1))) + uint a) mod 2 ^ 32
      | _ \<Rightarrow> 0)"

definition readInt8 :: "heap \<Rightarrow> buf_view \<Rightarrow> int \<Rightarrow> int option" where
  "readInt8 h v offset =
     map_option (\<lambda>b. if bit b 7 then uint b - 0x100 else uint b) (get_at h v offset)"

definition readInt16BE :: "heap \<Rightarrow> buf_view \<Rightarrow> int \<Rightarrow> int" where
  "readInt16BE h v offset =
     (let val = readUInt16BE h v offset in if bit val 15 then val - 0x10000 else val)"

definition readInt32BE :: "heap \<Rightarrow> buf_view \<Rightarrow> int \<Rightarrow> int" where
  "readInt32BE h v offset =
     sint (or (push_bit 24 (bits_at h v offset)) (or (push_bit 16 (bits_at h v (offset + 1)))
       (or (push_bit 8 (bits_at h v (offset + 2))) (bits_at h v (offset + 3)))))"

definition writeUInt8 :: "buf_view \<Rightarrow> int \<Rightarrow> int \<Rightarrow> heap \<Rightarrow> int \<times> heap" where
  "writeUInt8 v value offset h = (offset + 1, put_at v offset (of_int value) h)"

definition writeUInt16BE :: "buf_view \<Rightarrow> int \<Rightarrow> int \<Rightarrow> heap \<Rightarrow> int \<times> heap" where
  "writeUInt16BE v value offset h =
     (offset + 2, put_at v (offset + 1) (of_int value) (put_at v offset (of_int (drop_bit 8 value)) h))"

definition writeUInt32BE :: "buf_view \<Rightarrow> int \<Rightarrow> int \<Rightarrow> heap \<Rightarrow> int \<times> heap" where
  "writeUInt32BE v value offset h =
     (offset + 4,
      put_at v (offset + 3) (of_int value)
        (put_at v (offset + 2) (of_int (drop_bit 8 value))
          (put_at v (offset + 1) (of_int (drop_bit 16 value))
            (put_at v offset (of_int (drop_bit 24 value)) h))))"

definition buf_toJSON :: "heap \<Rightarrow> buf_view \<Rightarrow> int list" where
  "buf_toJSON h v = map uint (view_bytes h v)"

end
