(* ===== verification/Node_Buffer_Props.thy ===== *)
theory Node_Buffer_Props
  imports Node_Buffer
begin

text \<open>
  What the buffers promise: the encodings are inverse to each other, a slice shares its memory
  with the buffer it was taken from while a copy does not, concatenation, comparison and search are
  the operations on byte lists, and the integers that are written are the integers that are read.
\<close>

section \<open>Memory\<close>

named_theorems heap_simps \<comment> \<open>what an access to one buf_view does to what the views hold\<close>

lemma length_bytes_of [simp]: "wf_view h v \<Longrightarrow> length (view_bytes h v) = v_len v"
  by (simp add: view_bytes_def wf_view_def) linarith

lemma wf_put_at [simp]: "wf_view (put_at w i b h) v \<longleftrightarrow> wf_view h v"
  by (simp add: wf_view_def put_at_def)

lemma wf_put_all [simp]: "wf_view (put_all w i bs h) v \<longleftrightarrow> wf_view h v"
  by (induction bs arbitrary: i h) simp_all

lemma bytes_of_put_at [heap_simps]:
  assumes "wf_view h v" "0 \<le> i" "i < int (v_len v)"
  shows "view_bytes (put_at v i b h) v = (view_bytes h v)[nat i := b]"
  using assms by (simp add: view_bytes_def put_at_def wf_view_def drop_update_swap take_update_swap nat_less_iff)

lemma bytes_of_put_at_other [heap_simps]:
  "v_ab w \<noteq> v_ab v \<Longrightarrow> view_bytes (put_at w i b h) v = view_bytes h v"
  by (simp add: view_bytes_def put_at_def)

lemma bytes_of_put_all_other [heap_simps]:
  "v_ab w \<noteq> v_ab v \<Longrightarrow> view_bytes (put_all w i bs h) v = view_bytes h v"
  by (induction bs arbitrary: i h) (simp_all add: bytes_of_put_at_other)

lemma bytes_of_put_all [heap_simps]:
  assumes "wf_view h v" "off + length bs \<le> v_len v"
  shows "view_bytes (put_all v (int off) bs h) v = take off (view_bytes h v) @ bs @ drop (off + length bs) (view_bytes h v)"
  using assms
proof (induction bs arbitrary: off h)
  case (Cons b bs)
  have "view_bytes (put_all v (int (Suc off)) bs (put_at v (int off) b h)) v
    = take (Suc off) ((view_bytes h v)[off := b]) @ bs @ drop (Suc off + length bs) ((view_bytes h v)[off := b])"
    using Cons.IH [of "put_at v (int off) b h" "Suc off"] Cons.prems by (simp add: bytes_of_put_at)
  then show ?case
    using Cons.prems by (simp add: add.commute take_Suc_conv_app_nth)
qed simp

lemma get_at_bytes:
  "wf_view h v \<Longrightarrow> get_at h v i = (if 0 \<le> i \<and> i < int (v_len v) then Some (view_bytes h v ! nat i) else None)"
  by (simp add: get_at_def view_bytes_def wf_view_def nat_less_iff)

lemma new_buffer_facts:
  assumes "new_buffer n h = (v, h1)"
  shows "v_ab v = h_next h" "v_len v = n" "wf_view h1 v" "view_bytes h1 v = replicate n 0"
    "wf_view h w \<Longrightarrow> wf_view h1 w \<and> view_bytes h1 w = view_bytes h w \<and> v_ab w \<noteq> v_ab v"
  using assms by (auto simp: new_buffer_def wf_view_def view_bytes_def)

text \<open>A buffer made of some bytes holds them, in memory no older view can reach.\<close>

lemma buffer_with_facts:
  assumes "buffer_with bs h = (v, h1)"
  shows "v_len v = length bs" "wf_view h1 v" "view_bytes h1 v = bs"
    "wf_view h w \<Longrightarrow> wf_view h1 w \<and> view_bytes h1 w = view_bytes h w \<and> v_ab w \<noteq> v_ab v"
proof -
  obtain h0 where n: "new_buffer (length bs) h = (v, h0)" and h1: "h1 = put_all v 0 bs h0"
    using assms by (auto simp: buffer_with_def split: prod.splits)
  note f = new_buffer_facts [OF n]
  show "v_len v = length bs" "wf_view h1 v" using f by (simp_all add: h1)
  show "view_bytes h1 v = bs" using bytes_of_put_all [OF f(3), of 0 bs] f by (simp add: h1)
  show "wf_view h w \<Longrightarrow> wf_view h1 w \<and> view_bytes h1 w = view_bytes h w \<and> v_ab w \<noteq> v_ab v"
    using f(5) [of w] by (auto simp: h1 heap_simps)
qed

section \<open>Encodings\<close>

lemma hex_char_facts: "list_all (\<lambda>n. hex_unit (hex_chars ! n) = Some n) [0..<16]"
  "list_all (\<lambda>n. \<not> js_space (hex_chars ! n) \<and> hex_chars ! n \<noteq> 0x2D \<and> hex_chars ! n \<noteq> 0x2B
      \<and> hex_chars ! n \<noteq> 0x78 \<and> hex_chars ! n \<noteq> 0x58) [0..<16]"
  by code_simp+

lemma hex_char:
  assumes "n < 16"
  shows "hex_unit (hex_chars ! n) = Some n" "\<not> js_space (hex_chars ! n)"
    "hex_chars ! n \<noteq> 0x2D" "hex_chars ! n \<noteq> 0x2B" "hex_chars ! n \<noteq> 0x78" "hex_chars ! n \<noteq> 0x58"
  using assms hex_char_facts by (simp_all add: list_all_iff)

lemma parseInt16_byte: "parseInt16 (byte_hex b) = Some (uint b)"
proof -
  have "unat b < 256" using unsigned_less [of b] by simp
  then have d: "unat b div 16 < 16" "unat b mod 16 < 16" by linarith+
  have "unat b div 16 * 16 + unat b mod 16 = unat b" by simp
  then show ?thesis
    using hex_char [OF d(1)] hex_char [OF d(2)]
    by (simp add: parseInt16_def byte_hex_def drop_0x_def Let_def)
qed

lemma from_hex_round: "from_hex (concat (map byte_hex bs)) = bs"
proof -
  have len: "length (concat (map byte_hex bs)) = 2 * length bs" for bs
    by (induction bs) (simp_all add: byte_hex_def)
  have "take 2 (drop (i * 2) (concat (map byte_hex bs))) = byte_hex (bs ! i)" if "i < length bs" for i
    using that
  proof (induction bs arbitrary: i)
    case (Cons b bs)
    then show ?case by (cases i) (simp_all add: byte_hex_def)
  qed simp
  then show ?thesis
    by (auto simp: from_hex_def len parseInt16_byte store_byte_def intro: nth_equalityI)
qed

lemma b64url_chars:
  assumes "u \<in> set (b64_digits bs)"
  shows "std_char (url_char u) = u" "url_char u \<noteq> b64_pad"
proof -
  have "list_all (\<lambda>u. std_char (url_char u) = u \<and> url_char u \<noteq> b64_pad) b64_table" by code_simp
  then show "std_char (url_char u) = u" "url_char u \<noteq> b64_pad"
    using assms b64_digits_facts(1) [of bs] by (auto simp: list_all_iff)
qed

lemma b64url_round: "map std_char (map url_char (b64_digits bs)) = b64_digits bs"
  using b64url_chars(1) by (simp add: map_idI)

lemma b64url_no_pad: "b64_pad \<notin> set (map url_char (b64_digits bs))"
  using b64url_chars(2) by auto

lemma dropWhile_replicate: "x \<notin> set s \<Longrightarrow> dropWhile (\<lambda>u. u = x) (replicate k x @ rev s) = rev s"
  by (induction k) (auto simp: dropWhile_eq_self_iff hd_rev dest: last_in_set)

lemma base64url_text: "decode_bytes bs ''base64url'' = map url_char (b64_digits bs)"
proof -
  define t where "t = map url_char (b64_digits bs)"
  have "map url_char (btoa bs) = t @ replicate ((3 - length bs mod 3) mod 3) b64_pad"
    by (simp add: t_def btoa_def b64_digits_def url_char_def)
  then show ?thesis
    using dropWhile_replicate [of b64_pad t] b64url_no_pad [of bs]
    by (simp add: decode_bytes_def flip: t_def)
qed

lemma base64url_padding: "pad4 (b64_digits bs) = b64_digits bs @ replicate ((3 - length bs mod 3) mod 3) b64_pad"
proof -
  define m where "m = length bs mod 3"
  have len: "length (b64_digits bs) mod 4 = (if m = 0 then 0 else Suc m)"
    by (simp add: b64_digits_facts(4) length_sextets m_def mod_Suc)
  have "m = 0 \<or> m = 1 \<or> m = 2" unfolding m_def by linarith
  then show ?thesis
    unfolding pad4_def len m_def [symmetric] by (elim disjE) simp_all
qed

lemma ucast_ucast_byte: "ucast (ucast (b :: byte) :: unit16) = b"
  by (rule bit_word_eqI) (simp add: bit_simps)

text \<open>Every encoding but ASCII and UTF-8 writes any bytes as text that reads back as the same bytes.\<close>

lemma encode_decode:
  assumes "encoding \<in> {''latin1'', ''binary'', ''base64'', ''base64url'', ''hex''}"
  shows "encodeString (decode_bytes bs encoding) encoding = Some bs"
proof -
  have url: "encodeString (decode_bytes bs ''base64url'') ''base64url'' = Some bs"
    unfolding base64url_text by (simp only: encodeString_def b64url_round) (simp add: base64url_padding atob_padded)
  show ?thesis
    using assms url
    by (elim insertE) (simp_all add: encodeString_def decode_bytes_def from_hex_round atob_btoa
        ucast_ucast_byte map_idI)
qed

lemma toString_whole: "wf_view h v \<Longrightarrow> buf_toString v e 0 None h = Inr (decode_bytes (view_bytes h v) e)"
  by (simp add: buf_toString_def buf_slice_def new_view_def wf_view_def view_bytes_def)

lemma from_string_bytes:
  assumes "encodeString s e = Some bs"
  obtains w h1 where "from_string s e h = (Inr w, h1)" "wf_view h1 w" "view_bytes h1 w = bs"
proof -
  obtain w h1 where b: "buffer_with bs h = (w, h1)" by fastforce
  show ?thesis
    using that [of w h1] buffer_with_facts(2,3) [OF b] assms b by (simp add: from_string_def)
qed

text \<open>
  Bytes survive as text and text as bytes: what \<open>toString\<close> gives in \<open>hex\<close>, \<open>base64\<close>,
  \<open>base64url\<close> or \<open>latin1\<close> is read back by \<open>Buffer.from\<close> as a buffer of the same bytes, and a
  well-formed string that does not start with a byte order mark comes back unchanged through UTF-8.
\<close>

theorem buffer_text_roundtrip:
  assumes "wf_view h v" "encoding \<in> {''latin1'', ''binary'', ''base64'', ''base64url'', ''hex''}"
    and "well_formed t" "t = [] \<or> hd t \<noteq> 0xFEFF"
  shows "(\<exists>s w h1. buf_toString v encoding 0 None h = Inr s \<and> from_string s encoding h = (Inr w, h1)
            \<and> view_bytes h1 w = view_bytes h v)
         \<and> (\<exists>w h1. from_string t ''utf8'' h = (Inr w, h1) \<and> buf_toString w ''utf8'' 0 None h1 = Inr t)"
proof
  show "\<exists>s w h1. buf_toString v encoding 0 None h = Inr s \<and> from_string s encoding h = (Inr w, h1)
      \<and> view_bytes h1 w = view_bytes h v"
    using from_string_bytes [OF encode_decode [OF assms(2)]] toString_whole [OF assms(1)] by metis
  have "encodeString t ''utf8'' = Some (text_encode t)" by (simp add: encodeString_def)
  then obtain w h1 where w: "from_string t ''utf8'' h = (Inr w, h1)" "wf_view h1 w" "view_bytes h1 w = text_encode t"
    by (rule from_string_bytes)
  have "decode_bytes (text_encode t) ''utf8'' = t"
    using text_round [OF assms(3,4)] by (simp add: decode_bytes_def)
  with w show "\<exists>w h1. from_string t ''utf8'' h = (Inr w, h1) \<and> buf_toString w ''utf8'' 0 None h1 = Inr t"
    by (metis toString_whole)
qed

definition demo_heap :: heap where
  "demo_heap = \<lparr>h_next = 1, h_mem = (\<lambda>_. [1, 2, 3, 0xFB, 0xFF, 6, 7, 8])\<rparr>"

definition demo_view :: buf_view where
  "demo_view = \<lparr>v_ab = 0, v_off = 3, v_len = 2\<rparr>"

lemma demo_wf: "wf_view demo_heap demo_view"
  by (simp add: wf_view_def demo_heap_def demo_view_def)

theorem buffer_text_roundtrip_witness:
  "(\<exists>s w h1. buf_toString demo_view ''base64url'' 0 None demo_heap = Inr s
      \<and> from_string s ''base64url'' demo_heap = (Inr w, h1) \<and> view_bytes h1 w = view_bytes demo_heap demo_view)
   \<and> (\<exists>w h1. from_string [0xD83D, 0xDE00] ''utf8'' demo_heap = (Inr w, h1)
      \<and> buf_toString w ''utf8'' 0 None h1 = Inr [0xD83D, 0xDE00])"
  by (rule buffer_text_roundtrip)
    (simp_all add: demo_wf high_surrogate_def low_surrogate_def)

text \<open>
  A leading byte order mark does not survive, a pair of characters that is no hexadecimal number is
  read as a zero byte, and the URL-safe alphabet is an error in \<open>base64\<close>.
\<close>

lemma bom_is_lost: "decode_bytes (text_encode [0xFEFF, 0x61]) ''utf8'' = [0x61]"
proof -
  have "utf8_decode 0 0 0x80 0xBF [0x61] = [0x61]"
    using utf8_decode_points [of "[0x61]" "[]"] by (simp add: utf8_decode_empty utf8_def scalar_def)
  then show ?thesis
    by (simp add: decode_bytes_def text_encode_def text_decode_def utf8_def utf16_def
        high_surrogate_def low_surrogate_def)
qed

lemma hex_garbage: "encodeString (js ''zz1g'') ''hex'' = Some [0, 1]"
  by code_simp

lemma base64_rejects_url: "encodeString (js ''-_8='') ''base64'' = None
  \<and> encodeString (js ''-_8'') ''base64url'' = Some [0xFB, 0xFF]"
  by code_simp

section \<open>Sharing\<close>

text \<open>
  A slice within the bounds shares its memory with the buffer: it holds that range of the bytes,
  and a write to either is the same write to the other. A copy made by \<open>Buffer.from(buffer)\<close> holds
  the same bytes in memory of its own: no write to one changes the other.
\<close>

theorem slice_shares_copy_does_not:
  assumes "wf_view h v" "s \<le> e" "e \<le> v_len v" "i < e - s"
  shows "(\<exists>w. buf_slice v (int s) (Some (int e)) h = Inr w \<and> wf_view h w
            \<and> view_bytes h w = take (e - s) (drop s (view_bytes h v))
            \<and> put_at w (int i) b h = put_at v (int (s + i)) b h)
         \<and> (case from_buffer v h of (c, h1) \<Rightarrow>
              view_bytes h1 c = view_bytes h v \<and> view_bytes h1 v = view_bytes h v
              \<and> view_bytes (put_at c k b h1) v = view_bytes h v
              \<and> view_bytes (put_at v k b h1) c = view_bytes h v)"
proof
  let ?w = "\<lparr>v_ab = v_ab v, v_off = v_off v + s, v_len = e - s\<rparr>"
  have "buf_slice v (int s) (Some (int e)) h = Inr ?w"
    using assms by (auto simp: buf_slice_def new_view_def wf_view_def nat_add_distrib)
  moreover have "view_bytes h ?w = take (e - s) (drop s (view_bytes h v))"
    using assms by (simp add: view_bytes_def drop_take min_def add.commute)
  moreover have "put_at ?w (int i) b h = put_at v (int (s + i)) b h"
    using assms by (auto simp: put_at_def nat_add_distrib add.assoc)
  ultimately show "\<exists>w. buf_slice v (int s) (Some (int e)) h = Inr w \<and> wf_view h w
            \<and> view_bytes h w = take (e - s) (drop s (view_bytes h v))
            \<and> put_at w (int i) b h = put_at v (int (s + i)) b h"
    using assms by (intro exI [of _ ?w]) (simp add: wf_view_def)
  obtain c h1 where c: "buffer_with (view_bytes h v) h = (c, h1)" by fastforce
  show "case from_buffer v h of (c, h1) \<Rightarrow>
              view_bytes h1 c = view_bytes h v \<and> view_bytes h1 v = view_bytes h v
              \<and> view_bytes (put_at c k b h1) v = view_bytes h v
              \<and> view_bytes (put_at v k b h1) c = view_bytes h v"
    using buffer_with_facts [OF c] buffer_with_facts(4) [OF c assms(1)]
    by (auto simp: from_buffer_def c heap_simps)
qed

theorem slice_shares_copy_does_not_witness:
  "(\<exists>w. buf_slice demo_view (int 1) (Some (int 2)) demo_heap = Inr w \<and> wf_view demo_heap w
            \<and> view_bytes demo_heap w = take (2 - 1) (drop 1 (view_bytes demo_heap demo_view))
            \<and> put_at w (int 0) 9 demo_heap = put_at demo_view (int (1 + 0)) 9 demo_heap)
         \<and> (case from_buffer demo_view demo_heap of (c, h1) \<Rightarrow>
              view_bytes h1 c = view_bytes demo_heap demo_view \<and> view_bytes h1 demo_view = view_bytes demo_heap demo_view
              \<and> view_bytes (put_at c 0 9 h1) demo_view = view_bytes demo_heap demo_view
              \<and> view_bytes (put_at demo_view 0 9 h1) c = view_bytes demo_heap demo_view)"
  by (rule slice_shares_copy_does_not) (simp_all add: demo_wf, simp_all add: demo_view_def)

text \<open>
  Outside the bounds the arguments are neither clamped nor counted from the end: a negative start
  reaches the bytes in front of the view, an end past the view those behind it, and both are errors
  only where the array buffer itself ends.
\<close>

lemma slice_escapes:
  "buf_slice demo_view (-2) None demo_heap = Inr \<lparr>v_ab = 0, v_off = 1, v_len = 4\<rparr>
   \<and> buf_slice demo_view 0 (Some 5) demo_heap = Inr \<lparr>v_ab = 0, v_off = 3, v_len = 5\<rparr>
   \<and> buf_slice demo_view 0 (Some 6) demo_heap = Inl RangeErr
   \<and> buf_toString demo_view ''hex'' 0 (Some 4) demo_heap = Inr (js ''fbff0607'')"
  by code_simp

section \<open>Concatenation\<close>

lemma concat_loop_bytes:
  assumes "wf_view h r" "v_len r = tot" "view_bytes h r = pre @ replicate (tot - off) 0"
    and "length pre = off" "off \<le> tot" "\<forall>b \<in> set bs. wf_view h b \<and> v_ab b \<noteq> v_ab r"
  shows "view_bytes (concat_loop r tot off bs h) r
    = pre @ take (tot - off) (concat (map (view_bytes h) bs) @ replicate (tot - off) 0)"
  using assms
proof (induction bs arbitrary: pre off h)
  case (Cons b bs)
  define len where "len = min (v_len b) (tot - off)"
  define h1 where "h1 = put_all r (int off) (take len (view_bytes h b)) h"
  have b: "wf_view h b" "length (take len (view_bytes h b)) = len" using Cons.prems by (simp_all add: len_def)
  have le: "off + len \<le> tot" using Cons.prems by (simp add: len_def)
  have h1: "view_bytes h1 r = (pre @ take len (view_bytes h b)) @ replicate (tot - (off + len)) 0"
    using bytes_of_put_all [OF Cons.prems(1), of off "take len (view_bytes h b)"] Cons.prems b le
    by (simp add: h1_def)
  have same: "map (view_bytes h1) bs = map (view_bytes h) bs"
    using Cons.prems by (auto simp: h1_def heap_simps)
  show ?case
  proof (cases "tot \<le> off + len")
    case True
    with le have "tot - off = len" by simp
    with True h1 b show ?thesis by (simp add: Let_def flip: len_def h1_def)
  next
    case False
    then have len: "len = v_len b" by (simp add: len_def)
    have "view_bytes (concat_loop r tot (off + len) bs h1) r
      = (pre @ take len (view_bytes h b)) @ take (tot - (off + len)) (concat (map (view_bytes h1) bs) @ replicate (tot - (off + len)) 0)"
      using Cons.prems le h1 b by (intro Cons.IH) (auto simp: h1_def)
    moreover have "concat_loop r tot off (b # bs) h = concat_loop r tot (off + len) bs h1"
      using False by (simp add: Let_def flip: len_def h1_def)
    moreover have "take len (view_bytes h b) = view_bytes h b" using b len by simp
    ultimately show ?thesis
      using b len le by (simp add: same)
  qed
qed simp

text \<open>
  \<open>Buffer.concat\<close> gives the bytes of the list one after the other, cut at the total length or
  filled up to it with zeros.
\<close>

lemma buf_concat_bytes:
  assumes "\<forall>b \<in> set bs. wf_view h b"
  shows "case buf_concat bs n h of (r, h1) \<Rightarrow>
    view_bytes h1 r = (let all = concat (map (view_bytes h) bs);
                         tot = (case n of Some t \<Rightarrow> t | None \<Rightarrow> length all)
                     in take tot (all @ replicate tot 0))"
proof -
  define tot where "tot = (case n of Some t \<Rightarrow> t | None \<Rightarrow> sum_list (map v_len bs))"
  obtain r h0 where r: "new_buffer tot h = (r, h0)" by fastforce
  note f = new_buffer_facts [OF r]
  have same: "map (view_bytes h0) bs = map (view_bytes h) bs" using assms f(5) by simp
  have "length (concat (map (view_bytes h) bs)) = sum_list (map v_len bs)"
    using assms by (simp add: length_concat o_def cong: map_cong)
  then have tot: "tot = (case n of Some t \<Rightarrow> t | None \<Rightarrow> length (concat (map (view_bytes h) bs)))"
    by (cases n) (simp_all add: tot_def)
  have "view_bytes (concat_loop r tot 0 bs h0) r = take tot (concat (map (view_bytes h0) bs) @ replicate tot 0)"
    using concat_loop_bytes [of h0 r tot "[]" 0 bs] f assms by auto
  then show ?thesis
    by (simp add: buf_concat_def r same Let_def flip: tot_def tot)
qed

section \<open>Search and order\<close>

lemma first_index_spec:
  assumes "0 \<le> i"
  shows "if first_index test i n = -1 then \<forall>k. i \<le> k \<and> k < n \<longrightarrow> \<not> test k
    else i \<le> first_index test i n \<and> first_index test i n < n \<and> test (first_index test i n)
      \<and> (\<forall>k. i \<le> k \<and> k < first_index test i n \<longrightarrow> \<not> test k)"
  using assms
proof (induction test i n rule: first_index.induct)
  case (1 test i n)
  consider "i < n" "\<not> test i" | "i < n" "test i" | "n \<le> i" by linarith
  then show ?case
  proof cases
    case 1
    then have e: "first_index test i n = first_index test (i + 1) n" by (subst first_index.simps) simp
    have step: "(i \<le> k \<and> k < m \<longrightarrow> \<not> test k) \<longleftrightarrow> (i + 1 \<le> k \<and> k < m \<longrightarrow> \<not> test k)" for k m
      using 1(2) by (cases "k = i") auto
    have "i \<le> r" if "i + 1 \<le> r" for r :: int using that by simp
    with "1.IH" [OF 1] "1.prems" show ?thesis unfolding e step by (simp split: if_splits)
  next
    case 2
    then have "first_index test i n = i" by (subst first_index.simps) simp
    with 2 "1.prems" show ?thesis by auto
  next
    case 3
    then have "first_index test i n = -1" by (subst first_index.simps) simp
    with 3 show ?thesis by auto
  qed
qed

lemma match_at:
  assumes "wf_view h v" "k + length bs \<le> v_len v"
  shows "list_all (\<lambda>j. get_at h v (int k + int j) = Some (bs ! j)) [0..<length bs]
    \<longleftrightarrow> take (length bs) (drop k (view_bytes h v)) = bs"
proof -
  have "get_at h v (int k + int j) = Some (view_bytes h v ! (k + j))" if "j < length bs" for j
    using assms that by (simp add: get_at_bytes [OF assms(1)] nat_int_add)
  then have "list_all (\<lambda>j. get_at h v (int k + int j) = Some (bs ! j)) [0..<length bs]
      \<longleftrightarrow> (\<forall>j<length bs. view_bytes h v ! (k + j) = bs ! j)"
    by (auto simp: list_all_iff)
  also have "\<dots> \<longleftrightarrow> take (length bs) (drop k (view_bytes h v)) = bs"
    using assms by (subst list_eq_iff_nth_eq) simp
  finally show ?thesis .
qed

text \<open>
  \<open>indexOf\<close> with a byte sequence finds its first occurrence at or after the offset, and says
  -1 exactly when there is none.
\<close>

theorem indexOf_first:
  assumes "wf_view h v" "bs \<noteq> []"
  shows "(let at = (\<lambda>k. take (length bs) (drop k (view_bytes h v)) = bs);
              r = buf_indexOf h v (BytesN bs) (int off)
          in if r = -1 then \<forall>k \<ge> off. \<not> at k
             else \<exists>k \<ge> off. r = int k \<and> at k \<and> (\<forall>j \<ge> off. j < k \<longrightarrow> \<not> at j))"
proof -
  define at where "at = (\<lambda>k. take (length bs) (drop k (view_bytes h v)) = bs)"
  define test where "test = (\<lambda>i. list_all (\<lambda>j. get_at h v (i + int j) = Some (bs ! j)) [0..<length bs])"
  define n where "n = int (v_len v) - int (length bs) + 1"
  have r: "buf_indexOf h v (BytesN bs) (int off) = first_index test (int off) n"
    using assms(2) by (simp add: buf_indexOf_def test_def n_def)
  have test: "test (int k) \<longleftrightarrow> at k" if "int k < n" for k
    using match_at [OF assms(1), of k bs] that by (simp add: test_def at_def n_def)
  have fits: "int k < n" if "at k" for k
  proof -
    have "length (take (length bs) (drop k (view_bytes h v))) = length bs" using that by (simp add: at_def)
    then have "k + length bs \<le> v_len v" using assms by (cases "k \<le> v_len v") auto
    then show ?thesis by (simp add: n_def)
  qed
  define q where "q = first_index test (int off) n"
  note spec = first_index_spec [of "int off" test n, folded q_def, simplified]
  show ?thesis
    unfolding Let_def r at_def [symmetric] q_def [symmetric]
  proof (cases "q = -1")
    case True
    have "\<not> at k" if "off \<le> k" for k
      using fits [of k] test [of k] spec True that by auto
    with True show "if q = - 1 then \<forall>k\<ge>off. \<not> at k
      else \<exists>k\<ge>off. q = int k \<and> at k \<and> (\<forall>j\<ge>off. j < k \<longrightarrow> \<not> at j)" by simp
  next
    case False
    define k where "k = nat q"
    have k: "q = int k" "off \<le> k" "int k < n" "test (int k)" using spec False by (auto simp: k_def)
    have none: "\<not> at j" if "off \<le> j" "j < k" for j
      using spec False test [of j] k that by auto
    have "at k" using test [OF k(3)] k(4) by simp
    then show "if q = - 1 then \<forall>k\<ge>off. \<not> at k
      else \<exists>k\<ge>off. q = int k \<and> at k \<and> (\<forall>j\<ge>off. j < k \<longrightarrow> \<not> at j)"
      using False k none by (simp only: if_False) blast
  qed
qed

theorem indexOf_first_witness:
  "(let at = (\<lambda>k. take (length [0xFF :: byte]) (drop k (view_bytes demo_heap demo_view)) = [0xFF]);
        r = buf_indexOf demo_heap demo_view (BytesN [0xFF]) (int 0)
    in if r = -1 then \<forall>k \<ge> 0. \<not> at k
       else \<exists>k \<ge> 0. r = int k \<and> at k \<and> (\<forall>j \<ge> 0. j < k \<longrightarrow> \<not> at j))"
  by (rule indexOf_first) (simp_all add: demo_wf)

lemma compare_loop_spec:
  "compare_loop xs ys = (if xs = ys then 0 else if ord_class.lexordp xs ys then -1 else 1)"
  by (induction xs ys rule: compare_loop.induct) auto

text \<open>\<open>compare\<close> is the lexicographic order of the bytes, and \<open>equals\<close> its equality.\<close>

lemma buf_compare_order:
  assumes "wf_view h a" "wf_view h b"
  shows "buf_compare h a b = 0 \<longleftrightarrow> buf_equals h a b"
    and "buf_compare h a b = -1 \<longleftrightarrow> ord_class.lexordp (view_bytes h a) (view_bytes h b)"
    and "buf_compare h b a = - buf_compare h a b"
proof -
  have "buf_equals h a b \<longleftrightarrow> view_bytes h a = view_bytes h b"
    using assms by (auto simp: buf_equals_def get_at_bytes list_all_iff list_eq_iff_nth_eq)
  then show "buf_compare h a b = 0 \<longleftrightarrow> buf_equals h a b"
    by (simp add: buf_compare_def compare_loop_spec)
  show "buf_compare h a b = -1 \<longleftrightarrow> ord_class.lexordp (view_bytes h a) (view_bytes h b)"
    using lexordp_irreflexive' by (auto simp: buf_compare_def compare_loop_spec)
  show "buf_compare h b a = - buf_compare h a b"
    using lexordp_linear [of "view_bytes h a" "view_bytes h b"] lexordp_antisym [of "view_bytes h a" "view_bytes h b"]
    by (auto simp: buf_compare_def compare_loop_spec)
qed


section \<open>Integers\<close>

unbundle bit_operations_syntax

lemma get_at_put_at:
  "wf_view h v \<Longrightarrow> 0 \<le> j \<Longrightarrow> j < int (v_len v) \<Longrightarrow>
     get_at (put_at v j b h) v i = (if i = j then Some b else get_at h v i)"
  by (auto simp: get_at_def put_at_def wf_view_def nth_list_update)

lemma bit_pushed_byte:
  "bit (push_bit k (ucast (b :: byte)) :: 32 word) n \<longleftrightarrow> k \<le> n \<and> n < 32 \<and> n < k + 8 \<and> bit b (n - k)"
  by (auto simp: bit_simps dest: bit_imp_le_length)

lemma bit_low_byte: "bit (of_int (drop_bit k v) :: byte) n \<longleftrightarrow> n < 8 \<and> bit v (k + n)"
  by (auto simp: bit_simps add.commute)

lemma bit_ucast_byte: "bit (ucast (b :: byte) :: 32 word) n \<longleftrightarrow> n < 8 \<and> bit b n"
  by (auto simp: bit_simps dest: bit_imp_le_length)

lemma word_of_four:
  "push_bit 24 (ucast (of_int (drop_bit 24 v) :: byte)) OR push_bit 16 (ucast (of_int (drop_bit 16 v) :: byte))
     OR push_bit 8 (ucast (of_int (drop_bit 8 v) :: byte)) OR ucast (of_int v :: byte) = (of_int v :: 32 word)"
proof (rule bit_word_eqI)
  fix n assume n: "n < LENGTH(32)"
  have b0: "bit (of_int v :: byte) n \<longleftrightarrow> n < 8 \<and> bit v n" using bit_low_byte [of 0 v n] by simp
  have v: "bit (of_int v :: 32 word) n \<longleftrightarrow> bit v n" using n by (simp add: bit_simps)
  consider "n < 8" | "8 \<le> n" "n < 16" | "16 \<le> n" "n < 24" | "24 \<le> n" "n < 32" using n by fastforce
  then show "bit (push_bit 24 (ucast (of_int (drop_bit 24 v) :: byte)) OR push_bit 16 (ucast (of_int (drop_bit 16 v) :: byte))
     OR push_bit 8 (ucast (of_int (drop_bit 8 v) :: byte)) OR ucast (of_int v :: byte) :: 32 word) n = bit (of_int v :: 32 word) n"
    unfolding bit_or_iff bit_pushed_byte bit_low_byte bit_ucast_byte b0 v
    by cases auto
qed

lemma sint_pushed:
  assumes "k \<le> 16"
  shows "sint (push_bit k (ucast (b :: byte)) :: 32 word) = uint b * 2 ^ k"
proof -
  have b: "0 \<le> uint b" "uint b < 256" using uint_lt2p [of b] by simp_all
  have "(2 :: int) ^ k \<le> 2 ^ 16" using assms by (rule power_increasing) simp
  with b have le: "uint b * 2 ^ k \<le> 255 * 2 ^ 16" by (intro mult_mono) auto
  have "uint (ucast b :: 32 word) = uint b"
    using b by (simp add: unsigned_ucast_eq take_bit_int_eq_self)
  then have "uint (push_bit k (ucast b) :: 32 word) = take_bit 32 (uint b * 2 ^ k)"
    using unsigned_push_bit_eq [where 'a = int and 'b = 32, of k "ucast b"] by (simp only: push_bit_eq_mult) simp
  also have "\<dots> = uint b * 2 ^ k"
    using le b by (simp add: take_bit_int_eq_self)
  finally have "uint (push_bit k (ucast b) :: 32 word) = uint b * 2 ^ k" .
  then show ?thesis
    using le b by (simp add: sint_uint) (rule signed_take_bit_int_eq_self, simp_all add: order.trans [of _ 0])
qed

lemma low_byte: "uint (of_int (drop_bit k v) :: byte) = v div 2 ^ k mod 256"
  by (simp add: uint_word_of_int drop_bit_eq_div)

lemma mod_step: "v mod (b * 256) = v div b mod 256 * b + v mod (b :: int)"
  using zmod_zmult2_eq [of 256 v b] by (simp only: mult.commute)

lemma sum_of_four:
  "(v div 16777216 mod 256 * 16777216 + v div 65536 mod 256 * 65536 + v div 256 mod 256 * 256 + v mod 256) mod 4294967296
     = v mod (4294967296 :: int)"
proof -
  have n: "(4294967296 :: int) = 16777216 * 256" "(16777216 :: int) = 65536 * 256" "(65536 :: int) = 256 * 256"
    by simp_all
  have "v mod 4294967296 = v div 16777216 mod 256 * 16777216 + v mod 16777216"
    by (subst n(1)) (rule mod_step)
  also have "v mod 16777216 = v div 65536 mod 256 * 65536 + v mod 65536"
    by (subst n(2)) (rule mod_step)
  also have "v mod 65536 = v div 256 mod 256 * 256 + v mod 256"
    by (subst n(3)) (rule mod_step)
  finally show ?thesis by (metis (no_types) add.assoc mod_mod_trivial)
qed

text \<open>
  The integer a program writes is the integer it reads: after \<open>writeUInt32BE\<close> inside the bounds,
  \<open>readUInt32BE\<close> gives the value modulo \<open>2^32\<close> and \<open>readInt32BE\<close> its signed reading; the four bytes
  are all that changed.
\<close>

theorem uint32_roundtrip:
  assumes "wf_view h v" "0 \<le> off" "off + 4 \<le> int (v_len v)"
  shows "case writeUInt32BE v val off h of (next, h1) \<Rightarrow>
           next = off + 4
           \<and> readUInt32BE h1 v off = val mod 2 ^ 32
           \<and> readInt32BE h1 v off = signed_take_bit 31 val
           \<and> (\<forall>i. i < off \<or> off + 4 \<le> i \<longrightarrow> get_at h1 v i = get_at h v i)"
proof -
  define h1 where "h1 = snd (writeUInt32BE v val off h)"
  have g: "get_at h1 v (off + 3) = Some (of_int val)" "get_at h1 v (off + 2) = Some (of_int (drop_bit 8 val))"
    "get_at h1 v (off + 1) = Some (of_int (drop_bit 16 val))" "get_at h1 v off = Some (of_int (drop_bit 24 val))"
    using assms by (simp_all add: h1_def writeUInt32BE_def get_at_put_at)
  have other: "get_at h1 v i = get_at h v i" if "i < off \<or> off + 4 \<le> i" for i
  proof -
    have "i \<noteq> off" "i \<noteq> off + 1" "i \<noteq> off + 2" "i \<noteq> off + 3" using that by auto
    then show ?thesis using assms by (simp add: h1_def writeUInt32BE_def get_at_put_at)
  qed
  have "readUInt32BE h1 v off =
      (uint (of_int (drop_bit 24 val) :: byte) * 16777216 + uint (of_int (drop_bit 16 val) :: byte) * 2 ^ 16
        + uint (of_int (drop_bit 8 val) :: byte) * 2 ^ 8 + uint (of_int val :: byte)) mod 2 ^ 32"
    using sint_pushed [of 16] sint_pushed [of 8]
    by (simp only: readUInt32BE_def bits_at_def g option.case prod.case)
  also have "\<dots> = (val div 16777216 mod 256 * 16777216 + val div 65536 mod 256 * 65536
        + val div 256 mod 256 * 256 + val mod 256) mod 4294967296"
  proof -
    have p: "(2 :: int) ^ 24 = 16777216" "(2 :: int) ^ 16 = 65536" "(2 :: int) ^ 8 = 256" "(2 :: int) ^ 32 = 4294967296"
      by simp_all
    have "uint (of_int val :: byte) = val mod 256" using low_byte [of 0 val] by simp
    then show ?thesis by (simp only: low_byte p)
  qed
  finally have "readUInt32BE h1 v off = val mod 2 ^ 32"
    unfolding sum_of_four by (simp only:) simp
  moreover have "readInt32BE h1 v off = sint (of_int val :: 32 word)"
    using word_of_four [of val] by (simp add: readInt32BE_def bits_at_def g or.assoc)
  then have "readInt32BE h1 v off = signed_take_bit 31 val"
    by (simp add: sint_uint uint_word_of_int_eq signed_take_bit_eq_iff_take_bit_eq)
  moreover have "writeUInt32BE v val off h = (off + 4, h1)" by (simp add: h1_def writeUInt32BE_def)
  ultimately show ?thesis using other by simp
qed

theorem uint32_roundtrip_witness:
  "case writeUInt32BE \<lparr>v_ab = 0, v_off = 2, v_len = 6\<rparr> (-2) 1 demo_heap of (next, h1) \<Rightarrow>
     next = 1 + 4
     \<and> readUInt32BE h1 \<lparr>v_ab = 0, v_off = 2, v_len = 6\<rparr> 1 = (-2) mod 2 ^ 32
     \<and> readInt32BE h1 \<lparr>v_ab = 0, v_off = 2, v_len = 6\<rparr> 1 = signed_take_bit 31 (-2)
     \<and> (\<forall>i. i < 1 \<or> 1 + 4 \<le> i \<longrightarrow> get_at h1 \<lparr>v_ab = 0, v_off = 2, v_len = 6\<rparr> i
          = get_at demo_heap \<lparr>v_ab = 0, v_off = 2, v_len = 6\<rparr> i)"
  by (rule uint32_roundtrip) (simp_all add: wf_view_def demo_heap_def)

text \<open>Outside the bounds nothing is reported: a read gives 0 and a write is lost.\<close>

lemma out_of_range_silent:
  "readUInt32BE demo_heap demo_view 0 = 0 \<and> readUInt8 demo_heap demo_view 2 = None
   \<and> snd (writeUInt8 demo_view 7 2 demo_heap) = demo_heap"
  by (simp add: readUInt32BE_def readUInt8_def writeUInt8_def get_at_def put_at_def demo_view_def)

end
