(* ===== verification/Node_Hash.thy ===== *)
theory Node_Hash
  imports Node_Crypto_Props Node_Buffer_Props
begin

text \<open>
  The hash objects of the \<open>crypto\<close> builtin (\<open>cryptoBridge\<close> in \<open>napi-bridge/browser-builtins.js\<close>):
  the dispatch by algorithm name, HMAC, \<open>createHash\<close> and \<open>createHmac\<close> with \<open>update\<close> and \<open>digest\<close>,
  the one-shot \<open>hash\<close> and \<open>timingSafeEqual\<close>. An unknown algorithm throws when the digest is asked
  for, not when the object is made. The random functions are the platform's and not modelled.
\<close>

unbundle bit_operations_syntax

section \<open>Hashes by name\<close>

definition hashBytes :: "string \<Rightarrow> byte list \<Rightarrow> string + byte list" where
  "hashBytes algorithm data =
     (if algorithm \<in> {''sha256'', ''sha-256''} then Inr (sha256 data)
      else if algorithm \<in> {''sha1'', ''sha-1''} then Inr (sha1 data)
      else if algorithm \<in> {''sha512'', ''sha-512''} then Inr (sha512 data SHA512_IV)
      else if algorithm \<in> {''sha384'', ''sha-384''} then Inr (take 48 (sha512 data SHA384_IV))
      else Inl (''Unsupported hash algorithm: '' @ algorithm))"

definition bytesToHex :: "byte list \<Rightarrow> jstring" where
  "bytesToHex bs = concat (map byte_hex bs)"

definition blockSize :: "string \<Rightarrow> nat" where
  "blockSize algorithm = (if algorithm \<in> {''sha384'', ''sha512'', ''sha-384'', ''sha-512''} then 128 else 64)"

definition hmac :: "string \<Rightarrow> byte list \<Rightarrow> byte list \<Rightarrow> string + byte list" where
  "hmac algorithm key data =
     (let n = blockSize algorithm
      in case (if n < length key then hashBytes algorithm key else Inr key) of
           Inl e \<Rightarrow> Inl e
         | Inr keyBytes \<Rightarrow>
             let paddedKey = keyBytes @ replicate (n - length keyBytes) 0;
                 ipad = map (\<lambda>b. b XOR 0x36) paddedKey;
                 opad = map (\<lambda>b. b XOR 0x5c) paddedKey
             in (case hashBytes algorithm (ipad @ data) of
                   Inl e \<Rightarrow> Inl e
                 | Inr innerHash \<Rightarrow> hashBytes algorithm (opad @ innerHash)))"

section \<open>Objects\<close>

datatype hash_data = TextData jstring | BytesData "byte list"

definition data_bytes :: "hash_data \<Rightarrow> byte list" where
  "data_bytes d = (case d of TextData s \<Rightarrow> text_encode s | BytesData b \<Rightarrow> b)"

record hash_object =
  ho_algo :: string
  ho_key :: "byte list option"
  ho_chunks :: "byte list list"

definition createHash :: "string \<Rightarrow> hash_object" where
  "createHash algorithm = \<lparr>ho_algo = toLowerCase algorithm, ho_key = None, ho_chunks = []\<rparr>"

definition createHmac :: "string \<Rightarrow> hash_data \<Rightarrow> hash_object" where
  "createHmac algorithm key =
     \<lparr>ho_algo = toLowerCase algorithm, ho_key = Some (data_bytes key), ho_chunks = []\<rparr>"

definition hash_update :: "hash_object \<Rightarrow> hash_data \<Rightarrow> hash_object" where
  "hash_update ob data = ob\<lparr>ho_chunks := ho_chunks ob @ [data_bytes data]\<rparr>"

datatype digest_out = DigestText jstring | DigestBytes "byte list"

definition digest_as :: "string \<Rightarrow> byte list \<Rightarrow> digest_out" where
  "digest_as encoding hash =
     (if encoding = ''hex'' then DigestText (bytesToHex hash)
      else if encoding = ''base64'' then DigestText (btoa hash)
      else if encoding = ''base64url'' then DigestText (decode_bytes hash ''base64url'')
      else DigestBytes hash)"

text \<open>
  The chunks are copied into one array; they stay in the object, so a second \<open>digest\<close> gives the
  same answer.
\<close>

definition hash_digest :: "hash_object \<Rightarrow> string \<Rightarrow> string + digest_out" where
  "hash_digest ob encoding =
     (let combined = concat (ho_chunks ob)
      in case (case ho_key ob of
                 None \<Rightarrow> hashBytes (ho_algo ob) combined
               | Some key \<Rightarrow> hmac (ho_algo ob) key combined) of
           Inl e \<Rightarrow> Inl e | Inr h \<Rightarrow> Inr (digest_as encoding h))"

definition crypto_hash :: "string \<Rightarrow> hash_data \<Rightarrow> string \<Rightarrow> string + digest_out" where
  "crypto_hash algo data outputEncoding = hash_digest (hash_update (createHash algo) data) outputEncoding"

definition getHashes :: "string list" where
  "getHashes = [''sha1'', ''sha256'', ''sha384'', ''sha512'', ''md5'']"

text \<open>\<open>result |= a[i] ^ b[i]\<close>; different lengths throw.\<close>

definition timingSafeEqual :: "byte list \<Rightarrow> byte list \<Rightarrow> string + bool" where
  "timingSafeEqual a b =
     (if length a \<noteq> length b then Inl ''Input buffers must have the same byte length''
      else Inr (foldl (\<lambda>result i. result OR (a ! i XOR b ! i)) 0 [0..<length a] = 0))"

section \<open>The standard behind each name\<close>

definition fips_hash :: "string \<Rightarrow> (nat \<times> (byte list \<Rightarrow> byte list)) option" where
  "fips_hash name =
     (if name \<in> {''sha1'', ''sha-1''} then Some (64, SHA1)
      else if name \<in> {''sha256'', ''sha-256''} then Some (64, SHA256)
      else if name \<in> {''sha384'', ''sha-384''} then Some (128, SHA384)
      else if name \<in> {''sha512'', ''sha-512''} then Some (128, SHA512)
      else None)"

lemma hashBytes_fips:
  assumes "fips_hash name = Some (B, H)" "length data < 2 ^ 29"
  shows "hashBytes name data = Inr (H data)" "blockSize name = B"
  using assms sha1_is_fips [OF assms(2)] sha256_is_fips [OF assms(2)] sha512_is_fips [of data]
  by (auto simp: fips_hash_def hashBytes_def blockSize_def split: if_splits)

lemma length_digest8: "length (digest8 (w :: 'a::len word eight)) = 8 * (LENGTH('a) div 8)"
  by (simp add: digest8_def word_bytes_def split: prod.splits)

lemma length_hashes:
  "length (SHA256 data) = 32" "length (SHA512 data) = 64" "length (SHA384 data) = 48" "length (SHA1 data) = 20"
proof -
  show "length (SHA256 data) = 32" "length (SHA512 data) = 64"
    by (simp_all only: SHA256_def SHA512_def sha2_hash_def Let_def length_digest8) simp_all
  show "length (SHA384 data) = 48"
    by (simp only: SHA384_def sha2_hash_def Let_def length_take length_digest8) simp
  show "length (SHA1 data) = 20"
    unfolding SHA1_def
    by (cases "foldl sha1_block SHA1_IV (chunked 64 (fips_pad 64 8 data))") (simp add: word_bytes_def)
qed

lemma fips_hash_length:
  assumes "fips_hash name = Some (B, H)"
  shows "length (H data) \<le> 64" "64 \<le> B" "B \<le> 128"
proof -
  have "H \<in> {SHA1, SHA256, SHA384, SHA512} \<and> B \<in> {64, 128}"
    using assms unfolding fips_hash_def by (auto split: if_split_asm)
  then show "length (H data) \<le> 64" "64 \<le> B" "B \<le> 128"
    using length_hashes [of data] by auto
qed

lemma hmac_fips:
  assumes fips: "fips_hash name = Some (B, H)" and key: "length key < 2 ^ 29" and data: "length data < 2 ^ 28"
  shows "hmac name key data = Inr (HMAC B H key data)"
proof -
  note len = fips_hash_length [OF fips] and hb = hashBytes_fips [OF fips]
  define k where "k = (if B < length key then H key else key)"
  have kl: "length k \<le> B" using len(1) [of key] len(2) by (simp add: k_def)
  have pad: "k @ replicate (B - length k) 0 = hmac_key B H key" by (simp add: hmac_key_def k_def Let_def)
  have kB: "length (hmac_key B H key) = B" using kl by (simp flip: pad)
  define ip where "ip = map (\<lambda>b. b XOR 0x36) (hmac_key B H key) @ data"
  have "hashBytes name ip = Inr (H ip)"
    using len data kB by (intro hb) (simp add: ip_def)
  moreover have "hashBytes name (map (\<lambda>b. b XOR 0x5c) (hmac_key B H key) @ H ip)
      = Inr (H (map (\<lambda>b. b XOR 0x5c) (hmac_key B H key) @ H ip))"
    using len(1) [of ip] len(3) kB by (intro hb) simp
  moreover have "(if B < length key then hashBytes name key else Inr key) = Inr k"
    using hb(1) [OF key] by (simp add: k_def)
  ultimately show ?thesis
    using hb(2) [OF key] pad
    by (simp add: hmac_def HMAC_def Let_def flip: ip_def)
qed

lemma update_all:
  "ho_chunks (foldl hash_update ob ds) = ho_chunks ob @ map data_bytes ds"
  "ho_algo (foldl hash_update ob ds) = ho_algo ob" "ho_key (foldl hash_update ob ds) = ho_key ob"
  by (induction ds arbitrary: ob) (simp_all add: hash_update_def)

text \<open>
  C29. The hash objects compute the standards: whatever pieces the data arrives in, the digest of
  \<open>createHash(name)\<close> is the FIPS 180-4 hash of the joined bytes, that of \<open>createHmac(name, key)\<close>
  the FIPS 198-1 MAC, in the encoding asked for; names are compared without regard to case.
\<close>

theorem hash_objects_are_fips:
  assumes "fips_hash (toLowerCase name) = Some (B, H)"
    and "length (concat (map data_bytes ds)) < 2 ^ 28" "length (data_bytes key) < 2 ^ 29"
  shows "hash_digest (foldl hash_update (createHash name) ds) encoding
           = Inr (digest_as encoding (H (concat (map data_bytes ds))))
         \<and> hash_digest (foldl hash_update (createHmac name key) ds) encoding
           = Inr (digest_as encoding (HMAC B H (data_bytes key) (concat (map data_bytes ds))))"
  using hashBytes_fips(1) [OF assms(1), of "concat (map data_bytes ds)"] assms(2)
    hmac_fips [OF assms(1,3,2)]
  by (simp add: hash_digest_def update_all createHash_def createHmac_def Let_def)

theorem hash_objects_are_fips_witness:
  "hash_digest (foldl hash_update (createHash ''SHA256'') [TextData [0x61], BytesData [0x62]]) ''hex''
     = Inr (digest_as ''hex'' (SHA256 (concat (map data_bytes [TextData [0x61], BytesData [0x62]]))))
   \<and> hash_digest (foldl hash_update (createHmac ''SHA256'' (BytesData [1])) [TextData [0x61], BytesData [0x62]]) ''hex''
     = Inr (digest_as ''hex'' (HMAC 64 SHA256 (data_bytes (BytesData [1]))
         (concat (map data_bytes [TextData [0x61], BytesData [0x62]]))))"
proof (rule hash_objects_are_fips)
  have "toLowerCase ''SHA256'' = ''sha256''" by code_simp
  then show "fips_hash (toLowerCase ''SHA256'') = Some (64, SHA256)" by (simp add: fips_hash_def)
qed (simp_all add: data_bytes_def text_encode_def high_surrogate_def low_surrogate_def utf8_def)

text \<open>
  The list of hashes names one that the dispatch does not know: asking for an MD5 digest throws,
  and only then.
\<close>

lemma md5_listed_but_throws:
  "''md5'' \<in> set getHashes
   \<and> hash_digest (hash_update (createHash ''md5'') d) e = Inl ''Unsupported hash algorithm: md5''"
proof -
  have "toLowerCase ''md5'' = ''md5''" by code_simp
  then show ?thesis
    by (simp add: getHashes_def hash_digest_def hash_update_def createHash_def hashBytes_def Let_def)
qed

lemma or_fold_zero:
  "foldl (\<lambda>r i. r OR f i) acc xs = 0 \<longleftrightarrow> acc = 0 \<and> (\<forall>i \<in> set xs. f i = 0)" for acc :: "'a::len word"
  by (induction xs arbitrary: acc) (auto simp: or_eq_0_iff)

text \<open>\<open>timingSafeEqual\<close> looks at every byte and is equality.\<close>

lemma timingSafeEqual_eq:
  assumes "length a = length b"
  shows "timingSafeEqual a b = Inr (a = b)"
proof -
  have x: "x XOR y = 0 \<longleftrightarrow> x = y" for x y :: byte by (metis xor.right_neutral xor_self_eq xor.assoc)
  have "foldl (\<lambda>r i. r OR (a ! i XOR b ! i)) 0 [0..<length a] = 0 \<longleftrightarrow> (\<forall>i \<in> set [0..<length a]. a ! i XOR b ! i = 0)"
    by (subst or_fold_zero) simp
  also have "\<dots> \<longleftrightarrow> (\<forall>i < length a. a ! i = b ! i)"
    by (simp only: x set_upt) auto
  also have "\<dots> \<longleftrightarrow> a = b" using assms by (simp add: list_eq_iff_nth_eq)
  finally show ?thesis using assms by (simp only: timingSafeEqual_def) simp
qed

end
