(* ===== verification/Http_Wire.thy ===== *)
theory Http_Wire
  imports Node_Buffer
begin

text \<open>
  HTTP/1.1 on a byte stream, as \<open>napi-bridge/http.js\<close> reads and writes it: the response parser of
  the client (\<open>_wireSocketToResponse\<close>), which is fed by a socket in chunks of any size, the request
  parser of the browser-local server (\<open>_handleGvisorTcpConn\<close>), and the two writers of heads.

  Text is a list of UTF-16 code units, decoded from the bytes received so far by \<open>TextDecoder\<close>, as
  the code does. A header object is an association list in insertion order. Header names are
  lowered by the ASCII rule and are assumed not to be the name of a property of
  \<open>Object.prototype\<close>, nor an array index, which an object would list first.
\<close>

section \<open>Text\<close>

abbreviation CR :: unit16 where "CR \<equiv> 13"
abbreviation LF :: unit16 where "LF \<equiv> 10"
abbreviation SP :: unit16 where "SP \<equiv> 32"
abbreviation COLON :: unit16 where "COLON \<equiv> 0x3A"

definition crlf :: jstring where
  "crlf = [CR, LF]"

definition lower_text :: "jstring \<Rightarrow> jstring" where
  "lower_text = map (\<lambda>u. if 0x41 \<le> u \<and> u \<le> 0x5A then u + 0x20 else u)"

definition upper_text :: "jstring \<Rightarrow> jstring" where
  "upper_text = map (\<lambda>u. if 0x61 \<le> u \<and> u \<le> 0x7A then u - 0x20 else u)"

definition trim_text :: "jstring \<Rightarrow> jstring" where
  "trim_text s = rev (dropWhile js_space (rev (dropWhile js_space s)))"

text \<open>\<open>s.indexOf(pat)\<close>\<close>

fun find_sub :: "'a list \<Rightarrow> 'a list \<Rightarrow> nat option" where
  "find_sub pat [] = (if pat = [] then Some 0 else None)"
| "find_sub pat (x # xs) =
     (if take (length pat) (x # xs) = pat then Some 0 else map_option Suc (find_sub pat xs))"

text \<open>\<open>s.split('\r\n')\<close>\<close>

fun split_crlf :: "jstring \<Rightarrow> jstring list" where
  "split_crlf [] = [[]]"
| "split_crlf [x] = [[x]]"
| "split_crlf (x # y # s) =
     (if x = CR \<and> y = LF then [] # split_crlf s
      else (case split_crlf (y # s) of [] \<Rightarrow> [[x]] | l # ls \<Rightarrow> (x # l) # ls))"

fun join_crlf :: "jstring list \<Rightarrow> jstring" where
  "join_crlf [] = []"
| "join_crlf [l] = l"
| "join_crlf (l # ls) = l @ crlf @ join_crlf ls"

text \<open>\<open>String(n)\<close> of a natural number, and \<open>parseInt(digits, 10)\<close>.\<close>

fun num_text :: "nat \<Rightarrow> jstring" where
  "num_text n = (if n < 10 then [of_nat (0x30 + n)] else num_text (n div 10) @ [of_nat (0x30 + n mod 10)])"

declare num_text.simps [simp del]

definition is_digit :: "unit16 \<Rightarrow> bool" where
  "is_digit u \<longleftrightarrow> 0x30 \<le> u \<and> u \<le> 0x39"

definition text_num :: "jstring \<Rightarrow> nat" where
  "text_num = foldl (\<lambda>n u. n * 10 + (unat u - 0x30)) 0"

section \<open>The head of a response\<close>

text \<open>
  \<open>/^HTTP\/[\d.]+ (\d+)\s*(.*)/\<close>: no part of it can match in more than one way, so the match is
  computed from left to right; \<open>.\<close> stops at a line terminator.
\<close>

definition parse_status :: "jstring \<Rightarrow> (nat \<times> jstring) option" where
  "parse_status line =
     (if \<not> starts_with line (js ''HTTP/'') then None
      else let r = drop 5 line;
               ver = takeWhile (\<lambda>u. is_digit u \<or> u = 0x2E) r;
               r1 = drop (length ver) r;
               code = takeWhile is_digit (tl r1);
               r2 = drop (length code) (tl r1)
           in if ver = [] \<or> r1 = [] \<or> hd r1 \<noteq> SP \<or> code = [] then None
              else Some (text_num code,
                takeWhile (\<lambda>u. u \<notin> {LF, CR, 0x2028, 0x2029}) (dropWhile js_space r2)))"

datatype header_value = HText jstring | HList "jstring list"

type_synonym header_map = "(jstring \<times> header_value) list"

text \<open>\<open>colon <= 0\<close> skips the line, a missing colon being -1.\<close>

definition parse_header_line :: "jstring \<Rightarrow> (jstring \<times> jstring) option" where
  "parse_header_line line =
     (case index_of COLON line of
        None \<Rightarrow> None
      | Some colon \<Rightarrow> if colon = 0 then None
          else Some (trim_text (take colon line), trim_text (drop (Suc colon) line)))"

definition add_header :: "header_map \<Rightarrow> jstring \<times> jstring \<Rightarrow> header_map" where
  "add_header hs = (\<lambda>(key, val).
     let lk = lower_text key in
     if lk = js ''set-cookie'' then
       (case map_of hs lk of
          Some (HList vs) \<Rightarrow> AList.update lk (HList (vs @ [val])) hs
        | _ \<Rightarrow> AList.update lk (HList [val]) hs)
     else
       (case map_of hs lk of
          Some (HText v) \<Rightarrow> AList.update lk (HText (v @ js '', '' @ val)) hs
        | _ \<Rightarrow> AList.update lk (HText val) hs))"

text \<open>Status, message, headers and raw headers.\<close>

type_synonym response_head = "nat \<times> jstring \<times> header_map \<times> (jstring \<times> jstring) list"

definition parse_response_head :: "jstring \<Rightarrow> response_head" where
  "parse_response_head headerStr =
     (let lines = split_crlf headerStr;
          (statusCode, statusMessage) = (case parse_status (hd lines) of Some cm \<Rightarrow> cm | None \<Rightarrow> (502, []));
          raw = List.map_filter parse_header_line (tl lines)
      in (statusCode, statusMessage, foldl add_header [] raw, raw))"

section \<open>The response parser of the client\<close>

record response_parser =
  rp_buf :: "byte list"
  rp_parsed :: bool
  rp_done :: bool

datatype socket_event = SockData "byte list" | SockEnd | SockClose | SockError

datatype response_out =
  TimerCleared | ResponseEvent response_head | BodyPush "byte list" | BodyEnd | ErrorEvent

definition new_parser :: response_parser where
  "new_parser = \<lparr>rp_buf = [], rp_parsed = False, rp_done = False\<rparr>"

definition head_end :: jstring where
  "head_end = [CR, LF, CR, LF]"

definition http_data :: "byte list \<Rightarrow> response_parser \<Rightarrow> response_out list \<times> response_parser" where
  "http_data c s =
     (if rp_done s then ([], s)
      else let buf = rp_buf s @ c; s1 = s\<lparr>rp_buf := buf\<rparr> in
        if \<not> rp_parsed s then
          (let str = text_decode buf in
           case find_sub head_end str of
             None \<Rightarrow> ([], s1)
           | Some idx \<Rightarrow>
               let bodyStart = drop (length (text_encode (take (idx + 4) str))) buf
               in ([TimerCleared, ResponseEvent (parse_response_head (take idx str))]
                     @ (if bodyStart \<noteq> [] then [BodyPush bodyStart] else []),
                   s1\<lparr>rp_parsed := True\<rparr>))
        else ([BodyPush c], s1))"

definition http_finish :: "response_parser \<Rightarrow> response_out list \<times> response_parser" where
  "http_finish s =
     (if rp_done s then ([], s)
      else (if rp_parsed s then [BodyEnd] else [], s\<lparr>rp_done := True\<rparr>))"

text \<open>\<open>destroyed\<close> is \<open>_destroyed\<close> of the request: then an error is not reported any more.\<close>

definition parser_step :: "bool \<Rightarrow> socket_event \<Rightarrow> response_parser \<Rightarrow> response_out list \<times> response_parser" where
  "parser_step destroyed ev s =
     (case ev of
        SockData c \<Rightarrow> http_data c s
      | SockEnd \<Rightarrow> http_finish s
      | SockClose \<Rightarrow> http_finish s
      | SockError \<Rightarrow> (TimerCleared # (if destroyed then [] else [ErrorEvent]), s))"

fun parser_run :: "bool \<Rightarrow> socket_event list \<Rightarrow> response_parser \<Rightarrow> response_out list \<times> response_parser" where
  "parser_run d [] s = ([], s)"
| "parser_run d (e # es) s =
     (let (o1, s1) = parser_step d e s; (o2, s2) = parser_run d es s1 in (o1 @ o2, s2))"

section \<open>The request parser of the server\<close>

record server_request =
  sq_method :: jstring
  sq_url :: jstring
  sq_headers :: "(jstring \<times> jstring) list"
  sq_rawHeaders :: "(jstring \<times> jstring) list"
  sq_body :: "byte list option"

text \<open>\<open>new ServerIncomingMessage(...)\<close>; the body is pushed at once, and only when it is not empty.\<close>

definition apply_header :: "(jstring \<times> jstring) list \<times> (jstring \<times> jstring) list \<Rightarrow> jstring \<times> jstring \<Rightarrow>
    (jstring \<times> jstring) list \<times> (jstring \<times> jstring) list" where
  "apply_header = (\<lambda>(hs, raw) (name, value). (AList.update (lower_text name) value hs, raw @ [(name, value)]))"

definition server_message :: "jstring \<Rightarrow> jstring \<Rightarrow> jstring \<Rightarrow> (jstring \<times> jstring) list \<Rightarrow> byte list option \<Rightarrow> server_request" where
  "server_message method url host inbound body =
     (let (hs, raw) = foldl apply_header ([], []) inbound;
          (hs, raw) = (case map_of hs (js ''host'') of
              Some (v # vs) \<Rightarrow> (hs, raw) | _ \<Rightarrow> apply_header (hs, raw) (js ''host'', host))
      in \<lparr>sq_method = method, sq_url = url, sq_headers = hs, sq_rawHeaders = raw,
          sq_body = (case body of Some (b # bs) \<Rightarrow> Some (b # bs) | _ \<Rightarrow> None)\<rparr>)"

fun split_space :: "jstring \<Rightarrow> jstring list" where
  "split_space s = split_on SP s"

definition request_header :: "jstring \<Rightarrow> (jstring \<times> jstring) option" where
  "request_header line =
     (case index_of COLON line of
        None \<Rightarrow> None
      | Some colon \<Rightarrow> if colon = 0 then None
          else Some (trim_text (lower_text (take colon line)), trim_text (drop (Suc colon) line)))"

definition parse_request :: "nat \<Rightarrow> byte list \<Rightarrow> server_request option" where
  "parse_request port buf =
     (let str = text_decode buf in
      case find_sub head_end str of
        None \<Rightarrow> None
      | Some idx \<Rightarrow>
          let lines = split_crlf (take idx str);
              parts = split_space (hd lines);
              url = (if length parts > 1 \<and> parts ! 1 \<noteq> [] then parts ! 1 else js ''/'');
              headers = foldl (\<lambda>hs (k, v). AList.update k v hs) [] (List.map_filter request_header (tl lines));
              bodyStr = drop (idx + 4) str;
              host = (case map_of headers (js ''host'') of
                        Some (v # vs) \<Rightarrow> v # vs | _ \<Rightarrow> js ''localhost:'' @ num_text port)
          in Some (server_message (hd parts) url host headers
               (if bodyStr \<noteq> [] then Some (text_encode bodyStr) else None)))"

text \<open>
  The connection: once a head is complete the listener is removed, so what arrives later is lost.
\<close>

record server_conn =
  sn_buf :: "byte list"
  sn_listening :: bool

definition new_server_conn :: server_conn where
  "new_server_conn = \<lparr>sn_buf = [], sn_listening = True\<rparr>"

definition conn_data :: "nat \<Rightarrow> byte list \<Rightarrow> server_conn \<Rightarrow> server_request option \<times> server_conn" where
  "conn_data port c s =
     (if \<not> sn_listening s then (None, s)
      else let s1 = s\<lparr>sn_buf := sn_buf s @ c\<rparr>
        in (case parse_request port (sn_buf s1) of
              None \<Rightarrow> (None, s1)
            | Some q \<Rightarrow> (Some q, s1\<lparr>sn_listening := False\<rparr>)))"

fun conn_run :: "nat \<Rightarrow> byte list list \<Rightarrow> server_conn \<Rightarrow> server_request list \<times> server_conn" where
  "conn_run port [] s = ([], s)"
| "conn_run port (c # cs) s =
     (let (q, s1) = conn_data port c s; (qs, s2) = conn_run port cs s1
      in ((case q of None \<Rightarrow> [] | Some r \<Rightarrow> [r]) @ qs, s2))"

section \<open>Writing heads\<close>

definition header_lines :: "(jstring \<times> jstring) list \<Rightarrow> jstring" where
  "header_lines hs = concat (map (\<lambda>(k, v). k @ js '': '' @ v @ crlf) hs)"

text \<open>The head of the \<open>finish\<close> handler of the server; an empty message becomes \<open>OK\<close>.\<close>

definition response_headers :: "(jstring \<times> jstring) list \<Rightarrow> byte list \<Rightarrow> (jstring \<times> jstring) list" where
  "response_headers headers body =
     (case map_of headers (js ''content-length'') of
        Some (v # vs) \<Rightarrow> headers
      | _ \<Rightarrow> AList.update (js ''content-length'') (num_text (length body)) headers)"

definition render_response :: "nat \<Rightarrow> jstring \<Rightarrow> (jstring \<times> jstring) list \<Rightarrow> byte list list \<Rightarrow> byte list" where
  "render_response statusCode statusMessage headers chunks =
     (let body = concat chunks;
          head = js ''HTTP/1.1 '' @ num_text statusCode @ [SP]
            @ (if statusMessage \<noteq> [] then statusMessage else js ''OK'') @ crlf
            @ header_lines (response_headers headers body) @ crlf
      in text_encode head @ body)"

end
