(* ===== verification/Http_Wire_Props.thy ===== *)
theory Http_Wire_Props
  imports Http_Wire
begin

text \<open>
  What one side writes the other reads: the head of a response survives the parser of the client
  however the stream is cut into chunks, the body is delivered exactly, and a request reaches the
  server with its method, target and headers. The lemmas also show where this ends: a body after
  the chunk of the head, bytes that are not text, characters outside ASCII in a head.
\<close>

section \<open>ASCII text\<close>

definition ascii_text :: "jstring \<Rightarrow> bool" where
  "ascii_text s \<longleftrightarrow> list_all (\<lambda>u. u < 0x80) s"

named_theorems ascii_simps \<comment> \<open>ASCII text under the encoder, the decoder and the list operations\<close>

lemma ascii_append [ascii_simps]: "ascii_text (s @ t) \<longleftrightarrow> ascii_text s \<and> ascii_text t"
  by (simp add: ascii_text_def)

lemma ascii_Cons [ascii_simps]: "ascii_text (u # s) \<longleftrightarrow> u < 0x80 \<and> ascii_text s" "ascii_text []"
  by (simp_all add: ascii_text_def)

lemma ascii_concat [ascii_simps]: "ascii_text (concat ss) \<longleftrightarrow> (\<forall>s \<in> set ss. ascii_text s)"
  by (auto simp: ascii_text_def list_all_iff)

lemma ascii_take: "ascii_text s \<Longrightarrow> ascii_text (take n s)"
  by (auto simp: ascii_text_def list_all_iff dest: in_set_takeD)

lemma ascii_unat: "(u :: unit16) < 0x80 \<Longrightarrow> unat u < 0x80"
  by (simp add: word_less_nat_alt)

lemma ascii_not_surrogate: "u < 0x80 \<Longrightarrow> \<not> high_surrogate u \<and> \<not> low_surrogate u"
  using ascii_unat [of u] by (simp add: surrogate_unat)

lemma ascii_code_points: "ascii_text s \<Longrightarrow> code_points s = map unat s"
  by (induction s rule: code_points.induct) (auto simp: ascii_simps ascii_not_surrogate)

lemma ascii_utf8: "(u :: unit16) < 0x80 \<Longrightarrow> utf8 (unat u) = [ucast u]"
  using ascii_unat [of u] by (simp add: utf8_def word_eq_iff_unsigned unsigned_of_nat unsigned_ucast_eq)

lemma ascii_encode: "ascii_text s \<Longrightarrow> text_encode s = map ucast s"
  by (induction s) (simp_all add: text_encode_def ascii_code_points ascii_simps ascii_utf8)

lemma decode_ascii_prefix:
  "ascii_text s \<Longrightarrow> concat (map utf16 (utf8_decode 0 0 0x80 0xBF (map ucast s @ bs)))
     = s @ concat (map utf16 (utf8_decode 0 0 0x80 0xBF bs))"
proof (induction s)
  case (Cons u s)
  then have u: "u < 0x80" "unat u < 0x80" using ascii_unat [of u] by (simp_all add: ascii_simps)
  have "utf8_decode 0 0 0x80 0xBF (ucast u # map ucast s @ bs) = unat u # utf8_decode 0 0 0x80 0xBF (map ucast s @ bs)"
    using utf8_decode_utf8 [of "unat u" "map ucast s @ bs"] ascii_utf8 [OF u(1)] u(2) by (simp add: scalar_def)
  moreover have "utf16 (unat u) = [u]" using u(2) by (simp add: utf16_def)
  ultimately show ?case using Cons by (simp add: ascii_simps)
qed simp

lemma decode_ascii:
  assumes "ascii_text s" "s \<noteq> []"
  shows "\<exists>x. text_decode (map ucast s @ bs) = s @ x"
    and "text_decode (map ucast s) = s"
proof -
  obtain u r where s: "s = u # r" using assms(2) by (cases s) auto
  have "(ucast u :: byte) \<noteq> 0xEF"
  proof
    assume "(ucast u :: byte) = 0xEF"
    then have "unat (ucast u :: byte) = unat (0xEF :: byte)" by simp
    moreover have "unat (ucast u :: byte) = unat u"
      using ascii_unat [of u] assms(1) s by (simp add: ascii_simps unsigned_ucast_eq take_bit_nat_eq_self)
    ultimately show False using ascii_unat [of u] assms(1) s by (simp add: ascii_simps)
  qed
  then have nb: "take 3 (map ucast s @ bs) \<noteq> [0xEF, 0xBB, 0xBF]" for bs :: "byte list" by (simp add: s numeral_3_eq_3)
  show "\<exists>x. text_decode (map ucast s @ bs) = s @ x"
    using decode_ascii_prefix [OF assms(1), of bs] nb [of bs] by (auto simp: text_decode_def)
  show "text_decode (map ucast s) = s"
    using decode_ascii_prefix [OF assms(1), of "[]"] nb [of "[]"] by (simp add: text_decode_def utf8_decode_empty)
qed

section \<open>Lines\<close>

definition plain_line :: "jstring \<Rightarrow> bool" where
  "plain_line l \<longleftrightarrow> l \<noteq> [] \<and> CR \<notin> set l"

lemma find_sub_Some:
  "find_sub pat s = Some i \<Longrightarrow> i + length pat \<le> length s \<and> take (length pat) (drop i s) = pat"
proof (induction s arbitrary: i)
  case (Cons x s)
  show ?case
  proof (cases "take (length pat) (x # s) = pat")
    case True
    then have "length pat \<le> length (x # s)" by (metis length_take min.cobounded1 min_def order_refl)
    with True Cons.prems show ?thesis by simp
  next
    case False
    then obtain j where "find_sub pat s = Some j" "i = Suc j" using Cons.prems by auto
    with Cons.IH show ?thesis by simp
  qed
qed (simp split: if_splits)

lemma find_sub_first:
  "find_sub pat s = Some i \<Longrightarrow> j < i \<Longrightarrow> take (length pat) (drop j s) \<noteq> pat"
proof (induction s arbitrary: i j)
  case (Cons x s)
  then show ?case by (cases j) (auto split: if_splits)
qed (simp split: if_splits)

lemma find_sub_exists:
  "take (length pat) (drop i s) = pat \<Longrightarrow> i \<le> length s \<Longrightarrow> \<exists>j \<le> i. find_sub pat s = Some j"
proof (induction s arbitrary: i)
  case (Cons x s)
  show ?case
  proof (cases "take (length pat) (x # s) = pat")
    case False
    then obtain k where k: "i = Suc k" using Cons.prems by (cases i) auto
    with Cons obtain j where "j \<le> k" "find_sub pat s = Some j" by auto
    with False k show ?thesis by auto
  qed simp
qed simp

text \<open>The first occurrence does not depend on what follows it, and a prefix too short has none.\<close>

lemma find_sub_append: "find_sub pat s = Some i \<Longrightarrow> find_sub pat (s @ t) = Some i"
proof -
  assume f: "find_sub pat s = Some i"
  then have i: "i + length pat \<le> length s" "take (length pat) (drop i s) = pat" using find_sub_Some by auto
  then have "take (length pat) (drop i (s @ t)) = pat" by simp
  then obtain j where j: "j \<le> i" "find_sub pat (s @ t) = Some j" using i find_sub_exists [of pat i "s @ t"] by auto
  have "\<not> j < i"
  proof
    assume "j < i"
    then have "take (length pat) (drop j s) = pat"
      using find_sub_Some [OF j(2)] i by simp
    with find_sub_first [OF f \<open>j < i\<close>] show False by simp
  qed
  with j show ?thesis by simp
qed

lemma find_sub_short: "find_sub pat (s @ t) = Some i \<Longrightarrow> length s < i + length pat \<Longrightarrow> find_sub pat s = None"
  using find_sub_append [of pat s _ t] find_sub_Some [of pat s] by (cases "find_sub pat s") fastforce+

lemma find_head_end:
  assumes "\<forall>l \<in> set ls. plain_line l" "ls \<noteq> []"
  shows "find_sub head_end (join_crlf ls @ head_end) = Some (length (join_crlf ls))"
proof -
  have line: "find_sub head_end (l @ r) = map_option ((+) (length l)) (find_sub head_end r)"
    if "CR \<notin> set l" for l r
    using that by (cases "find_sub head_end r"; induction l) (simp_all add: head_end_def)
  have crlf_skip: "find_sub head_end (crlf @ r) = map_option ((+) 2) (find_sub head_end r)"
    if "r \<noteq> []" "hd r \<noteq> CR" for r
    using that by (cases "find_sub head_end r"; cases r) (auto simp: head_end_def crlf_def)
  have hd_join: "join_crlf ls \<noteq> [] \<and> hd (join_crlf ls) \<noteq> CR"
    if "ls \<noteq> []" "\<forall>l \<in> set ls. plain_line l" for ls
    using that by (cases ls rule: join_crlf.cases) (auto simp: plain_line_def crlf_def dest: hd_in_set)
  show ?thesis
    using assms
  proof (induction ls rule: join_crlf.induct)
    case (2 l)
    have "find_sub head_end head_end = Some 0" by (simp add: head_end_def)
    with 2 show ?case using line [of l head_end] by (simp add: plain_line_def)
  next
    case (3 l l' ls)
    have "find_sub head_end (l @ crlf @ join_crlf (l' # ls) @ head_end)
      = map_option ((+) (length l)) (map_option ((+) 2) (find_sub head_end (join_crlf (l' # ls) @ head_end)))"
      using 3 line [of l] crlf_skip [of "join_crlf (l' # ls) @ head_end"] hd_join [of "l' # ls"]
      by (simp add: plain_line_def)
    with 3 show ?case by (simp add: crlf_def)
  qed simp
qed

lemma split_crlf_line: "CR \<notin> set l \<Longrightarrow> split_crlf l = [l]"
  by (induction l rule: split_crlf.induct) auto

lemma split_crlf_cons: "CR \<notin> set l \<Longrightarrow> split_crlf (l @ crlf @ r) = l # split_crlf r"
proof (induction l)
  case (Cons x l)
  then show ?case by (cases "l @ crlf @ r") (auto simp: crlf_def)
qed (simp add: crlf_def)

lemma split_join_crlf: "\<forall>l \<in> set ls. CR \<notin> set l \<Longrightarrow> ls \<noteq> [] \<Longrightarrow> split_crlf (join_crlf ls) = ls"
  by (induction ls rule: join_crlf.induct) (simp_all add: split_crlf_line split_crlf_cons)

section \<open>The parser and the chunks\<close>

text \<open>A complete head: lines without a carriage return, none empty, in ASCII.\<close>

definition good_head :: "jstring list \<Rightarrow> bool" where
  "good_head ls \<longleftrightarrow> ls \<noteq> [] \<and> (\<forall>l \<in> set ls. plain_line l \<and> ascii_text l)"

definition head_bytes :: "jstring list \<Rightarrow> byte list" where
  "head_bytes ls = map ucast (join_crlf ls @ head_end)"

lemma ascii_join: "\<forall>l \<in> set ls. ascii_text l \<Longrightarrow> ascii_text (join_crlf ls)"
  by (induction ls rule: join_crlf.induct) (simp_all add: ascii_simps crlf_def)

lemma good_head_ascii: "good_head ls \<Longrightarrow> ascii_text (join_crlf ls @ head_end)"
  by (simp add: good_head_def ascii_simps ascii_join head_end_def)

lemma head_complete:
  assumes "good_head ls"
  shows "\<exists>x. text_decode (head_bytes ls @ body) = join_crlf ls @ head_end @ x
    \<and> find_sub head_end (text_decode (head_bytes ls @ body)) = Some (length (join_crlf ls))
    \<and> text_encode (take (length (join_crlf ls) + 4) (text_decode (head_bytes ls @ body))) = head_bytes ls"
proof -
  have a: "ascii_text (join_crlf ls @ head_end)" using assms by (rule good_head_ascii)
  obtain x where x: "text_decode (head_bytes ls @ body) = (join_crlf ls @ head_end) @ x"
    using decode_ascii(1) [OF a] by (auto simp: head_bytes_def head_end_def)
  have "find_sub head_end (join_crlf ls @ head_end) = Some (length (join_crlf ls))"
    using assms by (intro find_head_end) (auto simp: good_head_def)
  then have "find_sub head_end ((join_crlf ls @ head_end) @ x) = Some (length (join_crlf ls))"
    by (rule find_sub_append)
  moreover have "take (length (join_crlf ls) + 4) ((join_crlf ls @ head_end) @ x) = join_crlf ls @ head_end"
    by (simp add: head_end_def)
  ultimately show ?thesis
    using x ascii_encode [OF a] by (simp add: head_bytes_def)
qed

lemma head_incomplete:
  assumes "good_head ls" "head_bytes ls = b @ r" "r \<noteq> []"
  shows "find_sub head_end (text_decode b) = None"
proof (cases "b = []")
  case True
  then show ?thesis by (simp add: text_decode_def utf8_decode_empty head_end_def)
next
  case False
  define p where "p = take (length b) (join_crlf ls @ head_end)"
  have "b = take (length b) (head_bytes ls)" using assms(2) by simp
  also have "\<dots> = map ucast p" unfolding head_bytes_def p_def by (rule take_map)
  finally have b: "b = map ucast p" .
  have a: "ascii_text p" unfolding p_def using good_head_ascii [OF assms(1)] by (rule ascii_take)
  have "text_decode b = p" using decode_ascii(2) [OF a] False by (auto simp: b)
  moreover have "find_sub head_end (p @ drop (length b) (join_crlf ls @ head_end)) = Some (length (join_crlf ls))"
    using find_head_end [of ls] assms(1) unfolding p_def append_take_drop_id by (simp add: good_head_def)
  moreover have "length b + length r = length (head_bytes ls)" using assms(2) by simp
  then have "length p < length (join_crlf ls) + length head_end"
    using assms(3) by (simp add: p_def head_bytes_def) (cases r; auto)
  ultimately show ?thesis using find_sub_short by metis
qed

lemma run_body:
  "rp_parsed s \<Longrightarrow> \<not> rp_done s \<Longrightarrow>
     fst (parser_run d (map SockData cs @ [SockEnd]) s) = map BodyPush cs @ [BodyEnd]"
proof (induction cs arbitrary: s)
  case Nil
  then show ?case by (simp add: parser_step_def http_finish_def)
next
  case (Cons c cs)
  have "parser_step d (SockData c) s = ([BodyPush c], s\<lparr>rp_buf := rp_buf s @ c\<rparr>)"
    using Cons.prems by (simp add: parser_step_def http_data_def Let_def)
  then show ?case using Cons.IH [of "s\<lparr>rp_buf := rp_buf s @ c\<rparr>"] Cons.prems
    by (simp add: split_beta)
qed

text \<open>However the stream is cut, the head is parsed once and the body delivered exactly.\<close>

lemma parser_any_chunks:
  assumes "good_head ls" "b @ concat cs = head_bytes ls @ body" "length b < length (head_bytes ls)"
  shows "\<exists>ps. fst (parser_run d (map SockData cs @ [SockEnd]) \<lparr>rp_buf = b, rp_parsed = False, rp_done = False\<rparr>)
      = [TimerCleared, ResponseEvent (parse_response_head (join_crlf ls))] @ map BodyPush ps @ [BodyEnd]
    \<and> concat ps = body"
  using assms(2,3)
proof (induction cs arbitrary: b)
  case Nil
  then show ?case by (metis add_leE append_Nil2 concat.simps(1) leD le_add1 length_append)
next
  case (Cons c cs)
  let ?s = "\<lparr>rp_buf = b, rp_parsed = False, rp_done = False\<rparr>"
  have "(b @ c) @ concat cs = head_bytes ls @ body" using Cons.prems(1) by simp
  then consider us where "(b @ c) @ us = head_bytes ls" "us \<noteq> []"
    | us where "b @ c = head_bytes ls @ us" "us @ concat cs = body"
    unfolding append_eq_append_conv2 by (metis append_Nil append_Nil2)
  then show ?case
  proof cases
    case 1
    then have "find_sub head_end (text_decode (b @ c)) = None"
      using head_incomplete [OF assms(1), of "b @ c" us] by simp
    then have "parser_step d (SockData c) ?s = ([], \<lparr>rp_buf = b @ c, rp_parsed = False, rp_done = False\<rparr>)"
      by (simp add: parser_step_def http_data_def Let_def)
    moreover have "length (b @ c) < length (head_bytes ls)" using 1 by (metis length_append less_add_same_cancel1 length_greater_0_conv)
    ultimately show ?thesis
      using Cons.IH [of "b @ c"] Cons.prems(1) by (simp add: split_beta)
  next
    case 2
    obtain x where x: "text_decode (b @ c) = join_crlf ls @ head_end @ x"
      "find_sub head_end (text_decode (b @ c)) = Some (length (join_crlf ls))"
      "text_encode (take (length (join_crlf ls) + 4) (text_decode (b @ c))) = head_bytes ls"
      using head_complete [OF assms(1), of us] unfolding 2(1) by blast
    have step: "parser_step d (SockData c) ?s =
        ([TimerCleared, ResponseEvent (parse_response_head (join_crlf ls))] @ (if us \<noteq> [] then [BodyPush us] else []),
         \<lparr>rp_buf = b @ c, rp_parsed = True, rp_done = False\<rparr>)"
    proof -
      have "drop (length (head_bytes ls)) (b @ c) = us" "take (length (join_crlf ls)) (text_decode (b @ c)) = join_crlf ls"
        using 2(1) x(1) by simp_all
      with x(2,3) show ?thesis by (simp add: parser_step_def http_data_def Let_def)
    qed
    have "fst (parser_run d (map SockData (c # cs) @ [SockEnd]) ?s)
      = [TimerCleared, ResponseEvent (parse_response_head (join_crlf ls))]
        @ map BodyPush ((if us \<noteq> [] then [us] else []) @ cs) @ [BodyEnd]"
      using step run_body [of "\<lparr>rp_buf = b @ c, rp_parsed = True, rp_done = False\<rparr>" d cs]
      by (simp add: split_beta)
    moreover have "concat ((if us \<noteq> [] then [us] else []) @ cs) = body" using 2(2) by auto
    ultimately show ?thesis by blast
  qed
qed

section \<open>Heads\<close>

definition token :: "jstring \<Rightarrow> bool" where
  "token k \<longleftrightarrow> k \<noteq> [] \<and> list_all (\<lambda>u. 0x21 \<le> u \<and> u < 0x7F \<and> u \<noteq> COLON) k"

definition field :: "jstring \<Rightarrow> bool" where
  "field v \<longleftrightarrow> list_all (\<lambda>u. 0x20 \<le> u \<and> u < 0x7F) v \<and> (v = [] \<or> hd v \<noteq> SP \<and> last v \<noteq> SP)"

lemma printable_not_space: "0x21 \<le> u \<Longrightarrow> u < 0x7F \<Longrightarrow> \<not> js_space u"
  by (auto simp: js_space_def word_le_nat_alt word_less_nat_alt)

lemma token_facts:
  assumes "token k"
  shows "k \<noteq> []" "COLON \<notin> set k" "CR \<notin> set k" "ascii_text k" "\<forall>u \<in> set k. \<not> js_space u" "SP \<notin> set k"
proof -
  have u: "0x21 \<le> u \<and> u < 0x7F \<and> u \<noteq> COLON" if "u \<in> set k" for u
    using assms that by (auto simp: token_def list_all_iff)
  show "k \<noteq> []" using assms by (simp add: token_def)
  show "COLON \<notin> set k" "CR \<notin> set k" "SP \<notin> set k" using u by (force simp: word_le_nat_alt)+
  show "ascii_text k" using u by (fastforce simp: ascii_text_def list_all_iff word_less_nat_alt)
  show "\<forall>u \<in> set k. \<not> js_space u" using u printable_not_space by blast
qed

lemma field_facts:
  assumes "field v"
  shows "CR \<notin> set v" "ascii_text v" "v \<noteq> [] \<Longrightarrow> \<not> js_space (hd v)" "v \<noteq> [] \<Longrightarrow> \<not> js_space (last v)"
    "\<forall>u \<in> set v. u \<notin> {LF, CR, 0x2028, 0x2029}"
proof -
  have u: "0x20 \<le> u \<and> u < 0x7F" if "u \<in> set v" for u
    using assms that by (auto simp: field_def list_all_iff)
  have sp: "\<not> js_space u" if "u \<in> set v" "u \<noteq> SP" for u
  proof -
    have "0x21 \<le> u" using u [OF that(1)] that(2) by (simp add: word_le_nat_alt word_unat_eq_iff)
    then show ?thesis using u [OF that(1)] printable_not_space by blast
  qed
  show "CR \<notin> set v" using u by (force simp: word_le_nat_alt)
  show "ascii_text v" using u by (fastforce simp: ascii_text_def list_all_iff word_less_nat_alt)
  show "v \<noteq> [] \<Longrightarrow> \<not> js_space (hd v)" "v \<noteq> [] \<Longrightarrow> \<not> js_space (last v)"
    using assms sp by (auto simp: field_def)
  show "\<forall>u \<in> set v. u \<notin> {LF, CR, 0x2028, 0x2029}"
    using u by (force simp: word_le_nat_alt word_less_nat_alt)
qed

lemma trim_id: "s = [] \<or> \<not> js_space (hd s) \<and> \<not> js_space (last s) \<Longrightarrow> trim_text s = s"
proof (cases "s = []")
  case False
  moreover assume "s = [] \<or> \<not> js_space (hd s) \<and> \<not> js_space (last s)"
  ultimately have "dropWhile js_space s = s" "dropWhile js_space (rev s) = rev s"
    by (simp_all add: dropWhile_eq_self_iff hd_rev)
  then show ?thesis by (simp add: trim_text_def)
qed (simp add: trim_text_def)

lemma trim_space: "trim_text (SP # s) = trim_text s"
  by (simp add: trim_text_def js_space_def)

lemma trim_token: "token k \<Longrightarrow> trim_text k = k"
  using token_facts [of k] by (intro trim_id) (auto simp: last_in_set hd_in_set)

lemma trim_field: "field v \<Longrightarrow> trim_text v = v"
  using field_facts [of v] by (intro trim_id) auto

definition line_of :: "jstring \<times> jstring \<Rightarrow> jstring" where
  "line_of = (\<lambda>(k, v). k @ js '': '' @ v)"

lemma js_colon: "js '': '' = [COLON, SP]"
  by (simp add: js_def)

lemma line_colon:
  assumes "token k"
  shows "index_of COLON (line_of (k, v)) = Some (length k)"
  using index_of_append_sep [OF token_facts(2) [OF assms]] by (simp add: line_of_def js_colon)

lemma parse_line:
  assumes "token k" "field v"
  shows "parse_header_line (line_of (k, v)) = Some (k, v)"
proof -
  have "length k \<noteq> 0" "take (length k) (line_of (k, v)) = k" "drop (Suc (length k)) (line_of (k, v)) = SP # v"
    using token_facts(1) [OF assms(1)] by (simp_all add: line_of_def js_colon)
  then show ?thesis
    using trim_token [OF assms(1)] trim_field [OF assms(2)]
    by (simp add: parse_header_line_def line_colon [OF assms(1)] trim_space)
qed

lemma line_good: "token k \<Longrightarrow> field v \<Longrightarrow> plain_line (line_of (k, v)) \<and> ascii_text (line_of (k, v))"
  using token_facts [of k] field_facts [of v]
  by (simp add: plain_line_def line_of_def js_colon ascii_simps)

lemma map_filter_lines:
  "list_all (\<lambda>(k, v). token k \<and> field v) hs \<Longrightarrow> List.map_filter parse_header_line (map line_of hs) = hs"
  by (induction hs) (auto simp: List.map_filter_simps parse_line)

lemma header_lines_join: "l @ crlf @ header_lines hs = join_crlf (l # map line_of hs) @ crlf"
proof (induction hs arbitrary: l)
  case (Cons h hs)
  have "header_lines (h # hs) = line_of h @ crlf @ header_lines hs"
    by (cases h) (simp add: header_lines_def line_of_def)
  with Cons [of "line_of h"] show ?case by simp
qed (simp add: header_lines_def)

text \<open>With distinct names and no cookies the header object lists what was sent, names in lower case.\<close>

lemma fold_add_header:
  assumes "distinct (map (lower_text \<circ> fst) hs)" "js ''set-cookie'' \<notin> set (map (lower_text \<circ> fst) hs)"
    and "set (map (lower_text \<circ> fst) hs) \<inter> set (map fst acc) = {}"
  shows "foldl add_header acc hs = acc @ map (\<lambda>(k, v). (lower_text k, HText v)) hs"
  using assms
proof (induction hs arbitrary: acc)
  case (Cons h hs)
  obtain k v where h: "h = (k, v)" by fastforce
  have new: "lower_text k \<notin> set (map fst acc)" using Cons.prems(3) by (simp add: h)
  have "lower_text k \<noteq> js ''set-cookie''" using Cons.prems(2) by (auto simp: h)
  with new have "add_header acc h = acc @ [(lower_text k, HText v)]"
    using keys_update_new [of "lower_text k" acc] map_of_None_keys [of acc "lower_text k"]
    by (simp add: h add_header_def Let_def)
  then show ?case
    using Cons.IH [of "acc @ [(lower_text k, HText v)]"] Cons.prems by (auto simp: h)
qed simp

lemma num_text_facts: "num_text n \<noteq> [] \<and> list_all is_digit (num_text n) \<and> text_num (num_text n) = n"
proof (induction n rule: num_text.induct)
  case (1 n)
  have d: "is_digit (of_nat (0x30 + m) :: unit16)" "unat (of_nat (0x30 + m) :: unit16) - 0x30 = m" if "m < 10" for m
    using that by (simp_all add: is_digit_def word_le_nat_alt unat_of_nat del: of_nat_add)
  show ?case
  proof (cases "n < 10")
    case True
    then show ?thesis using d [of n] by (subst (1 2 3) num_text.simps) (simp add: text_num_def del: of_nat_add)
  next
    case False
    then show ?thesis using 1 d [of "n mod 10"]
      by (subst (1 2 3) num_text.simps) (simp add: text_num_def del: of_nat_add)
  qed
qed

lemma digit_token: "list_all is_digit s \<Longrightarrow> s \<noteq> [] \<Longrightarrow> token s"
  by (auto simp: token_def list_all_iff is_digit_def word_le_nat_alt word_less_nat_alt)

lemma token_field:
  assumes "token k"
  shows "field k"
proof -
  have "hd k \<noteq> SP" "last k \<noteq> SP"
    using token_facts [OF assms] hd_in_set [of k] last_in_set [of k] by metis+
  then show ?thesis
    using assms by (auto simp: field_def token_def list_all_iff word_le_nat_alt intro: le_trans)
qed

lemma parse_status_line:
  assumes "field msg" "msg \<noteq> []"
  shows "parse_status (js ''HTTP/1.1 '' @ num_text n @ [SP] @ msg) = Some (n, msg)"
proof -
  note num = num_text_facts [of n]
  have h: "js ''HTTP/'' = map of_nat [72, 84, 84, 80, 47]" "js ''HTTP/1.1 '' = map of_nat [72, 84, 84, 80, 47, 49, 46, 49, 32]"
    by (simp_all add: js_def)
  have code: "takeWhile is_digit (num_text n @ SP # msg) = num_text n"
    using num by (subst takeWhile_append2) (auto simp: list_all_iff is_digit_def)
  have sp: "js_space SP" by (simp add: js_space_def)
  have "dropWhile js_space (SP # msg) = msg"
    using field_facts(3) [OF assms(1)] assms(2) by (cases msg) (simp_all add: sp)
  moreover have "takeWhile (\<lambda>u. u \<notin> {LF, CR, 0x2028, 0x2029}) msg = msg"
    using field_facts(5) [OF assms(1)] by (simp only: takeWhile_eq_all_conv)
  ultimately show ?thesis
    using num code by (simp add: parse_status_def h starts_with_def is_digit_def Let_def)
qed


text \<open>What the server writes is a good head, and what the client reads in it.\<close>

definition status_line :: "nat \<Rightarrow> jstring \<Rightarrow> jstring" where
  "status_line code msg = js ''HTTP/1.1 '' @ num_text code @ [SP] @ (if msg \<noteq> [] then msg else js ''OK'')"

lemma ok_field: "field (js ''OK'')" "js ''OK'' \<noteq> []"
  by (simp_all add: field_def js_def)

lemma status_good:
  assumes "field msg"
  shows "plain_line (status_line code msg) \<and> ascii_text (status_line code msg)"
proof -
  have f: "field (if msg \<noteq> [] then msg else js ''OK'')" using assms ok_field by simp
  have t: "token (num_text code)" using num_text_facts digit_token by blast
  have h: "js ''HTTP/1.1 '' = map of_nat [72, 84, 84, 80, 47, 49, 46, 49, 32]" by (simp add: js_def)
  show ?thesis
    using field_facts(1,2) [OF f] token_facts(3,4) [OF t] unfolding status_line_def h
    by (simp add: plain_line_def ascii_simps)
qed

lemma parse_head:
  assumes "field msg" "list_all (\<lambda>(k, v). token k \<and> field v) hs"
    and "distinct (map (lower_text \<circ> fst) hs)" "js ''set-cookie'' \<notin> set (map (lower_text \<circ> fst) hs)"
  shows "good_head (status_line code msg # map line_of hs)"
    and "parse_response_head (join_crlf (status_line code msg # map line_of hs))
      = (code, if msg \<noteq> [] then msg else js ''OK'', map (\<lambda>(k, v). (lower_text k, HText v)) hs, hs)"
proof -
  have lines: "plain_line l \<and> ascii_text l" if "l \<in> set (map line_of hs)" for l
    using that assms(2) line_good by (auto simp: list_all_iff)
  then show g: "good_head (status_line code msg # map line_of hs)"
    using status_good [OF assms(1)] by (auto simp: good_head_def)
  then have split: "split_crlf (join_crlf (status_line code msg # map line_of hs)) = status_line code msg # map line_of hs"
    by (intro split_join_crlf) (auto simp: good_head_def plain_line_def)
  have "parse_status (status_line code msg) = Some (code, if msg \<noteq> [] then msg else js ''OK'')"
    using parse_status_line [OF assms(1)] parse_status_line [OF ok_field] by (simp add: status_line_def)
  then show "parse_response_head (join_crlf (status_line code msg # map line_of hs))
      = (code, if msg \<noteq> [] then msg else js ''OK'', map (\<lambda>(k, v). (lower_text k, HText v)) hs, hs)"
    using fold_add_header [OF assms(3,4), of "[]"] map_filter_lines [OF assms(2)]
    by (simp only: parse_response_head_def split) simp
qed

lemma render_head_bytes:
  assumes "good_head (status_line code msg # map line_of hs)" "hs = response_headers headers (concat chunks)"
  shows "render_response code msg headers chunks
    = head_bytes (status_line code msg # map line_of hs) @ concat chunks"
proof -
  define sl where "sl = status_line code msg"
  have "js ''HTTP/1.1 '' @ num_text code @ [SP] @ (if msg \<noteq> [] then msg else js ''OK'') @ crlf @ header_lines hs @ crlf
      = (sl @ crlf @ header_lines hs) @ crlf"
    by (simp add: sl_def status_line_def)
  also have "\<dots> = join_crlf (sl # map line_of hs) @ head_end"
    unfolding header_lines_join by (simp add: crlf_def head_end_def)
  finally show ?thesis
    using ascii_encode [OF good_head_ascii [OF assms(1)]]
    by (simp add: render_response_def Let_def head_bytes_def sl_def flip: assms(2))
qed

lemma response_headers_fields:
  assumes "list_all (\<lambda>(k, v). token k \<and> field v) headers"
  shows "list_all (\<lambda>(k, v). token k \<and> field v) (response_headers headers body)"
proof -
  have cl: "token (js ''content-length'')" by code_simp
  have n: "field (num_text n)" for n using num_text_facts digit_token token_field by blast
  have "list_all (\<lambda>(k, v). token k \<and> field v) (AList.update (js ''content-length'') (num_text (length body)) headers)"
    using assms cl n by (induction headers) auto
  then show ?thesis using assms by (simp add: response_headers_def split: option.split list.split)
qed

text \<open>The bytes of a response are read back, whatever the chunks.\<close>

lemma response_read_back:
  assumes "list_all (\<lambda>(k, v). token k \<and> field v) headers" "field msg"
    and "hs = response_headers headers (concat chunks)"
    and "distinct (map (lower_text \<circ> fst) hs)" "js ''set-cookie'' \<notin> set (map (lower_text \<circ> fst) hs)"
    and "concat cs = render_response code msg headers chunks"
  shows "\<exists>ps. fst (parser_run destroyed (map SockData cs @ [SockEnd]) new_parser)
      = [TimerCleared,
         ResponseEvent (code, if msg \<noteq> [] then msg else js ''OK'', map (\<lambda>(k, v). (lower_text k, HText v)) hs, hs)]
        @ map BodyPush ps @ [BodyEnd]
      \<and> concat ps = concat chunks"
proof -
  have fields: "list_all (\<lambda>(k, v). token k \<and> field v) hs"
    unfolding assms(3) using assms(1) by (rule response_headers_fields)
  note head = parse_head [OF assms(2) fields assms(4,5), of code]
  have "[] @ concat cs = head_bytes (status_line code msg # map line_of hs) @ concat chunks"
    using render_head_bytes [OF head(1) assms(3)] assms(6) by simp
  from parser_any_chunks [OF head(1) this, of destroyed] show ?thesis
    unfolding head(2) new_parser_def by (simp add: head_bytes_def head_end_def)
qed

section \<open>Requests at the server\<close>

lemma conn_closed: "\<not> sn_listening s \<Longrightarrow> conn_run port cs s = ([], s)"
  by (induction cs) (simp_all add: conn_data_def)

text \<open>
  However the stream is cut, one request is parsed, from the head and whatever the chunk that
  completes it holds beyond it.
\<close>

lemma conn_any_chunks:
  assumes "good_head ls" "b @ concat cs = head_bytes ls @ body" "length b < length (head_bytes ls)"
  shows "\<exists>us rest q. body = us @ rest \<and> parse_request port (head_bytes ls @ us) = Some q
    \<and> fst (conn_run port cs \<lparr>sn_buf = b, sn_listening = True\<rparr>) = [q]"
  using assms(2,3)
proof (induction cs arbitrary: b)
  case Nil
  then show ?case by (metis add_leE append_Nil2 concat.simps(1) leD le_add1 length_append)
next
  case (Cons c cs)
  have "(b @ c) @ concat cs = head_bytes ls @ body" using Cons.prems(1) by simp
  then consider us where "(b @ c) @ us = head_bytes ls" "us \<noteq> []"
    | us where "b @ c = head_bytes ls @ us" "us @ concat cs = body"
    unfolding append_eq_append_conv2 by (metis append_Nil append_Nil2)
  then show ?case
  proof cases
    case 1
    then have "parse_request port (b @ c) = None"
      using head_incomplete [OF assms(1), of "b @ c" us] by (simp add: parse_request_def)
    moreover have "length (b @ c) < length (head_bytes ls)" using 1 by (metis length_append less_add_same_cancel1 length_greater_0_conv)
    ultimately show ?thesis
      using Cons.IH [of "b @ c"] Cons.prems(1) by (simp add: split_beta conn_data_def)
  next
    case 2
    obtain q where q: "parse_request port (b @ c) = Some q"
      using head_complete [OF assms(1), of us] unfolding 2(1) by (auto simp: parse_request_def Let_def)
    with 2 show ?thesis
      by (auto simp: split_beta conn_data_def Let_def conn_closed)
  qed
qed

lemma fold_update:
  "distinct (map fst hs) \<Longrightarrow> set (map fst hs) \<inter> set (map fst acc) = {} \<Longrightarrow>
     foldl (\<lambda>hs (k, v). AList.update k v hs) acc hs = acc @ hs"
proof (induction hs arbitrary: acc)
  case (Cons h hs)
  obtain k v where h: "h = (k, v)" by fastforce
  have "AList.update k v acc = acc @ [(k, v)]" using Cons.prems(2) by (intro keys_update_new) (auto simp: h)
  with Cons.IH [of "acc @ [h]"] Cons.prems show ?case by (auto simp: h)
qed simp

lemma lower_lower [simp]: "lower_text (lower_text s) = lower_text s"
proof -
  have "\<not> (0x41 \<le> u + 0x20 \<and> u + 0x20 \<le> 0x5A)" if "0x41 \<le> u" "u \<le> 0x5A" for u :: unit16
    using that by (simp add: word_le_nat_alt word_less_nat_alt unat_word_ariths)
  then show ?thesis unfolding lower_text_def map_map by (intro map_cong) auto
qed

lemma fold_apply:
  "distinct (map fst hs) \<Longrightarrow> \<forall>(k, v) \<in> set hs. lower_text k = k \<Longrightarrow> set (map fst hs) \<inter> set (map fst acc) = {} \<Longrightarrow>
     foldl apply_header (acc, raw) hs = (acc @ hs, raw @ hs)"
proof (induction hs arbitrary: acc raw)
  case (Cons h hs)
  obtain k v where h: "h = (k, v)" by fastforce
  have "AList.update k v acc = acc @ [(k, v)]" using Cons.prems(3) by (intro keys_update_new) (auto simp: h)
  with Cons.IH [of "acc @ [h]" "raw @ [h]"] Cons.prems show ?case by (auto simp: h apply_header_def)
qed simp


lemma token_lower:
  assumes "token k"
  shows "token (lower_text k)"
proof -
  have "0x21 \<le> u + 0x20 \<and> u + 0x20 < 0x7F \<and> u + 0x20 \<noteq> COLON" if "0x41 \<le> u" "u \<le> 0x5A" for u :: unit16
    using that by (simp add: word_le_nat_alt word_less_nat_alt unat_word_ariths word_unat_eq_iff)
  then show ?thesis
    using assms by (auto simp: token_def lower_text_def list_all_iff)
qed

lemma request_line_of:
  assumes "token k" "field v"
  shows "request_header (line_of (k, v)) = Some (lower_text k, v)"
proof -
  have "length k \<noteq> 0" "take (length k) (line_of (k, v)) = k" "drop (Suc (length k)) (line_of (k, v)) = SP # v"
    using token_facts(1) [OF assms(1)] by (simp_all add: line_of_def js_colon)
  then show ?thesis
    using trim_token [OF token_lower [OF assms(1)]] trim_field [OF assms(2)]
    by (simp add: request_header_def line_colon [OF assms(1)] trim_space)
qed

lemma map_filter_requests:
  "list_all (\<lambda>(k, v). token k \<and> field v) hs \<Longrightarrow>
     List.map_filter request_header (map line_of hs) = map (\<lambda>(k, v). (lower_text k, v)) hs"
  by (induction hs) (auto simp: List.map_filter_simps request_line_of)

definition request_line :: "jstring \<Rightarrow> jstring \<Rightarrow> jstring" where
  "request_line method path = method @ [SP] @ path @ js '' HTTP/1.1''"

lemma split_request_line:
  assumes "token method" "token path"
  shows "split_space (request_line method path) = [method, path, js ''HTTP/1.1'']"
proof -
  have v: "js '' HTTP/1.1'' = SP # js ''HTTP/1.1''" "SP \<notin> set (js ''HTTP/1.1'')" by (simp_all add: js_def)
  show ?thesis
    using token_facts(6) [OF assms(1)] token_facts(6) [OF assms(2)] v(2)
    by (simp add: request_line_def v(1) split_on_append_sep split_on_no_sep)
qed

lemma request_good:
  assumes "token method" "token path" "list_all (\<lambda>(k, v). token k \<and> field v) hs"
  shows "good_head (request_line method path # map line_of hs)"
proof -
  have v: "ascii_text (js '' HTTP/1.1'')" "CR \<notin> set (js '' HTTP/1.1'')" by (simp_all add: js_def ascii_simps)
  have "plain_line (request_line method path) \<and> ascii_text (request_line method path)"
    using token_facts [OF assms(1)] token_facts [OF assms(2)] v
    by (simp add: request_line_def plain_line_def ascii_simps)
  then show ?thesis
    using assms(3) line_good by (auto simp: good_head_def list_all_iff)
qed

lemma server_reads:
  assumes "token method" "token path" "list_all (\<lambda>(k, v). token k \<and> field v) hs"
    and "distinct (map (lower_text \<circ> fst) hs)"
    and "map_of (map (\<lambda>(k, v). (lower_text k, v)) hs) (js ''host'') = Some h" "h \<noteq> []"
    and q: "parse_request port (head_bytes (request_line method path # map line_of hs) @ us) = Some q"
  shows "sq_method q = method" "sq_url q = path" "sq_headers q = map (\<lambda>(k, v). (lower_text k, v)) hs"
    "us = [] \<Longrightarrow> sq_body q = None"
proof -
  define ls where "ls = request_line method path # map line_of hs"
  define low where "low = map (\<lambda>(k, v). (lower_text k, v)) hs"
  note good = request_good [OF assms(1-3), folded ls_def]
  obtain x where x: "text_decode (head_bytes ls @ us) = join_crlf ls @ head_end @ x"
    "find_sub head_end (text_decode (head_bytes ls @ us)) = Some (length (join_crlf ls))"
    using head_complete [OF good, of us] by blast
  have split: "split_crlf (take (length (join_crlf ls)) (text_decode (head_bytes ls @ us))) = ls"
    using good by (simp add: x(1)) (intro split_join_crlf, auto simp: good_head_def plain_line_def)
  have fst_low: "map fst low = map (lower_text \<circ> fst) hs" by (auto simp: low_def)
  have headers: "foldl (\<lambda>hs (k, v). AList.update k v hs) [] low = low"
    using fold_update [of low "[]"] assms(4) by (simp add: fst_low)
  have filt: "List.map_filter request_header (map line_of hs) = low"
    using map_filter_requests [OF assms(3)] by (simp add: low_def)
  have app: "foldl apply_header ([], []) low = (low, low)"
  proof -
    have "\<forall>(k, v) \<in> set low. lower_text k = k" by (auto simp: low_def)
    then show ?thesis using fold_apply [of low "[]" "[]"] assms(4) by (simp add: fst_low)
  qed
  obtain h1 hr where h: "map_of low (js ''host'') = Some (h1 # hr)"
    using assms(5,6) by (cases h) (auto simp: low_def)
  have path: "path \<noteq> []" using token_facts(1) [OF assms(2)] .
  have "q = server_message method path (h1 # hr) low
      (if drop (length (join_crlf ls) + 4) (text_decode (head_bytes ls @ us)) \<noteq> []
       then Some (text_encode (drop (length (join_crlf ls) + 4) (text_decode (head_bytes ls @ us)))) else None)"
  proof -
    have parts: "split_space (hd ls) = [method, path, js ''HTTP/1.1'']" "tl ls = map line_of hs"
      using split_request_line [OF assms(1,2)] by (simp_all add: ls_def)
    show ?thesis
      using q [folded ls_def] path
      by (simp only: parse_request_def Let_def x(2) split parts filt headers h option.case list.case) simp
  qed
  then have q': "q = server_message method path (h1 # hr) low
      (if x \<noteq> [] then Some (text_encode x) else None)"
    by (simp add: x(1) head_end_def)
  then show "sq_method q = method" "sq_url q = path" "sq_headers q = map (\<lambda>(k, v). (lower_text k, v)) hs"
    using app h by (simp_all add: server_message_def low_def)
  show "sq_body q = None" if "us = []"
  proof -
    have "text_decode (head_bytes ls) = join_crlf ls @ head_end"
      unfolding head_bytes_def using decode_ascii(2) [OF good_head_ascii [OF good]] by (simp add: head_end_def)
    then have "x = []" using x(1) that by simp
    then show ?thesis by (simp add: q' server_message_def split_beta)
  qed
qed

section \<open>Where it ends\<close>

text \<open>
  The body of a request is only what came with the chunk that completed the head, decoded as text:
  what arrives later is lost.
\<close>

lemma body_after_head_lost:
  assumes "good_head ls"
  shows "\<exists>q. fst (conn_run port [head_bytes ls, body] new_server_conn) = [q] \<and> parse_request port (head_bytes ls) = Some q"
proof -
  obtain q where q: "parse_request port (head_bytes ls) = Some q"
    using head_complete [OF assms, of "[]"] by (auto simp: parse_request_def Let_def)
  then show ?thesis by (simp add: new_server_conn_def conn_data_def Let_def conn_closed)
qed

text \<open>
  A byte of a head that is not UTF-8 becomes a replacement character, which is three bytes long when
  it is encoded again: the client then takes the body to start two bytes too late.
\<close>

lemma latin1_header_eats_body:
  "drop (length (text_encode (take 5 (text_decode ([0xE9] @ map ucast head_end @ [1, 2, 3]))))) ([0xE9] @ map ucast head_end @ [1, 2, 3])
     = [3 :: byte]"
proof -
  have lead: "utf8_decode 0 0 0x80 0xBF (0xE9 # 0x0D # bs) = 0xFFFD # utf8_decode 0 0 0x80 0xBF (0x0D # bs)" for bs
    by (subst utf8_decode.simps, simp, subst utf8_decode.simps) simp
  have rest: "utf8_decode 0 0 0x80 0xBF [0x0D, 0x0A, 0x0D, 0x0A, 1, 2, 3] = [13, 10, 13, 10, 1, 2, 3]"
    using utf8_decode_points [of "[13, 10, 13, 10, 1, 2, 3]" "[]"]
    by (simp add: utf8_decode_empty utf8_def scalar_def)
  have "text_decode (0xE9 # [0x0D, 0x0A, 0x0D, 0x0A, 1, 2, 3]) = [0xFFFD, 13, 10, 13, 10, 1, 2, 3]"
    by (simp add: text_decode_def lead rest utf16_def)
  then show ?thesis
    by (simp add: head_end_def text_encode_def high_surrogate_def low_surrogate_def utf8_def)
qed

end
