(* ===== verification/Http_Client.thy ===== *)
theory Http_Client
  imports Http_Wire_Props
begin

text \<open>
  The client request of \<open>napi-bridge/http.js\<close> (\<open>ClientRequest\<close>): its headers, how the body is
  collected and when it turns into a stream, the head it writes on a raw socket, and the choice of the
  transport at \<open>end\<close>. The parsing of its response is in \<open>Http_Wire\<close>.

  The platform's part is given by arguments: whether the page, the local network, the tunnel and
  streaming uploads are there, and whether the upload stream is full after an \<open>enqueue\<close>. What the
  request does to the outside is a list of actions. A string option that is absent is empty, as the
  code tests all of them for truth.
\<close>

section \<open>Requests\<close>

datatype port_option = NoPort | PortText jstring | PortNum nat

record client_options =
  co_method :: jstring
  co_path :: jstring
  co_hostname :: jstring
  co_host :: jstring
  co_protocol :: jstring
  co_href :: jstring
  co_port :: port_option

record client_request =
  cr_options :: client_options
  cr_reqHeaders :: "(jstring \<times> jstring) list"
  cr_headerNames :: "(jstring \<times> jstring) list"
  cr_bodyChunks :: "byte list list"
  cr_bodyLength :: nat
  cr_ended :: bool
  cr_fetchStarted :: bool
  cr_upload :: "byte list list option" \<comment> \<open>what was enqueued, once there is a controller\<close>
  cr_uploadClosed :: bool
  cr_drainCallback :: bool
  cr_timer :: bool
  cr_destroyed :: bool
  cr_aborted :: bool

definition or_default :: "jstring \<Rightarrow> jstring \<Rightarrow> jstring" where
  "or_default s d = (if s = [] then d else s)"

definition cr_method :: "client_request \<Rightarrow> jstring" where
  "cr_method r = upper_text (or_default (co_method (cr_options r)) (js ''GET''))"

definition bodyless :: "jstring \<Rightarrow> bool" where
  "bodyless m \<longleftrightarrow> m = js ''GET'' \<or> m = js ''HEAD''"

section \<open>Headers\<close>

definition client_setHeader :: "jstring \<Rightarrow> jstring \<Rightarrow> client_request \<Rightarrow> client_request" where
  "client_setHeader name value r =
     (let lk = lower_text name
      in r\<lparr>cr_reqHeaders := AList.update lk value (cr_reqHeaders r),
           cr_headerNames := AList.update lk name (cr_headerNames r)\<rparr>)"

definition client_getHeader :: "jstring \<Rightarrow> client_request \<Rightarrow> jstring option" where
  "client_getHeader name r = map_of (cr_reqHeaders r) (lower_text name)"

definition client_removeHeader :: "jstring \<Rightarrow> client_request \<Rightarrow> client_request" where
  "client_removeHeader name r =
     (let lk = lower_text name
      in r\<lparr>cr_reqHeaders := AList.delete lk (cr_reqHeaders r),
           cr_headerNames := AList.delete lk (cr_headerNames r)\<rparr>)"

text \<open>The constructor, with the headers of the options.\<close>

definition new_request :: "client_options \<Rightarrow> (jstring \<times> jstring) list \<Rightarrow> client_request" where
  "new_request opts headers =
     foldl (\<lambda>r (k, v). client_setHeader k v r)
       \<lparr>cr_options = opts, cr_reqHeaders = [], cr_headerNames = [], cr_bodyChunks = [], cr_bodyLength = 0,
        cr_ended = False, cr_fetchStarted = False, cr_upload = None, cr_uploadClosed = False,
        cr_drainCallback = False, cr_timer = False, cr_destroyed = False, cr_aborted = False\<rparr> headers"

definition FORBIDDEN_HEADERS :: "string list" where
  "FORBIDDEN_HEADERS =
     [''accept-charset'', ''accept-encoding'', ''access-control-request-headers'',
      ''access-control-request-method'', ''connection'', ''content-length'', ''cookie'', ''cookie2'',
      ''date'', ''dnt'', ''expect'', ''host'', ''keep-alive'', ''origin'', ''permissions-policy'',
      ''proxy-authorization'', ''referer'', ''te'', ''trailer'', ''transfer-encoding'', ''upgrade'',
      ''user-agent'', ''via'']"

definition isForbiddenBrowserHeader :: "jstring \<Rightarrow> bool" where
  "isForbiddenBrowserHeader name \<longleftrightarrow>
     (let lower = lower_text name
      in lower \<in> set (map js FORBIDDEN_HEADERS) \<or> starts_with lower (js ''sec-'') \<or> starts_with lower (js ''proxy-''))"

definition buildHeaders :: "client_request \<Rightarrow> (jstring \<times> jstring) list" where
  "buildHeaders r = filter (\<lambda>(lk, v). \<not> isForbiddenBrowserHeader lk) (cr_reqHeaders r)"

definition buildAllHeaders :: "client_request \<Rightarrow> (jstring \<times> jstring) list" where
  "buildAllHeaders r =
     foldl (\<lambda>hs (lk, v). AList.update (case map_of (cr_headerNames r) lk of Some (c # cs) \<Rightarrow> c # cs | _ \<Rightarrow> lk) v hs)
       [] (cr_reqHeaders r)"

section \<open>The target\<close>

definition port_text :: "port_option \<Rightarrow> jstring" where
  "port_text p = (case p of NoPort \<Rightarrow> [] | PortText s \<Rightarrow> s | PortNum n \<Rightarrow> num_text n)"

text \<open>A port that is falsy is absent; a numeric 80 is not the string \<open>'80'\<close>.\<close>

definition port_given :: "port_option \<Rightarrow> bool" where
  "port_given p \<longleftrightarrow> p \<noteq> NoPort \<and> p \<noteq> PortText [] \<and> p \<noteq> PortNum 0"

definition request_hostname :: "client_options \<Rightarrow> jstring" where
  "request_hostname opts = or_default (co_hostname opts) (or_default (co_host opts) (js ''localhost''))"

definition buildUrl :: "client_request \<Rightarrow> jstring" where
  "buildUrl r =
     (let opts = cr_options r; p = co_port opts;
          suffix = (if port_given p \<and> p \<noteq> PortText (js ''80'') \<and> p \<noteq> PortText (js ''443'')
                    then COLON # port_text p else [])
      in if starts_with (co_href opts) (js ''http://'') \<or> starts_with (co_href opts) (js ''https://'')
         then co_href opts
         else or_default (co_protocol opts) (js ''http:'') @ js ''//'' @ request_hostname opts @ suffix
              @ or_default (co_path opts) (js ''/''))"

text \<open>\<open>parseInt(s, 10)\<close> of an unsigned numeral; \<^term>\<open>None\<close> is \<open>NaN\<close>.\<close>

definition parse_port :: "jstring \<Rightarrow> nat option" where
  "parse_port s =
     (let ds = takeWhile is_digit (dropWhile js_space s) in if ds = [] then None else Some (text_num ds))"

definition request_port :: "client_options \<Rightarrow> nat option" where
  "request_port opts =
     (case co_port opts of
        PortNum n \<Rightarrow> if n \<noteq> 0 then Some n else Some (if co_protocol opts = js ''https:'' then 443 else 80)
      | PortText s \<Rightarrow> if s \<noteq> [] then parse_port s else Some (if co_protocol opts = js ''https:'' then 443 else 80)
      | NoPort \<Rightarrow> Some (if co_protocol opts = js ''https:'' then 443 else 80))"

definition has_value :: "(jstring \<times> jstring) list \<Rightarrow> jstring \<Rightarrow> bool" where
  "has_value hs k \<longleftrightarrow> (case map_of hs k of Some (c # cs) \<Rightarrow> True | _ \<Rightarrow> False)"

definition raw_headers :: "client_request \<Rightarrow> byte list option \<Rightarrow> (jstring \<times> jstring) list" where
  "raw_headers r body =
     (let hostname = request_hostname (cr_options r);
          port = request_port (cr_options r);
          hs = buildAllHeaders r;
          hs = (if \<not> has_value hs (js ''Host'') \<and> \<not> has_value hs (js ''host'')
                then AList.update (js ''Host'')
                       (if port = Some 80 \<or> port = Some 443 then hostname
                        else hostname @ [COLON] @ (case port of Some n \<Rightarrow> num_text n | None \<Rightarrow> js ''NaN'')) hs
                else hs)
      in case body of
           Some b \<Rightarrow> if \<not> has_value hs (js ''Content-Length'') \<and> \<not> has_value hs (js ''content-length'')
                     then AList.update (js ''Content-Length'') (num_text (length b)) hs else hs
         | None \<Rightarrow> hs)"

text \<open>The head of the raw request, with its host and port.\<close>

definition buildRawHttpRequest :: "client_request \<Rightarrow> byte list option \<Rightarrow> jstring \<times> jstring \<times> nat option" where
  "buildRawHttpRequest r body =
     (cr_method r @ [SP] @ or_default (co_path (cr_options r)) (js ''/'') @ js '' HTTP/1.1'' @ crlf
        @ header_lines (raw_headers r body) @ js ''Connection: close'' @ crlf @ crlf,
      request_hostname (cr_options r), request_port (cr_options r))"

section \<open>The body\<close>

datatype request_body = NoBody | WholeBody "byte list" | ChunkBody "byte list list" | UploadStream

datatype transport = Gvisor | Wisp

datatype client_out =
    EndCallback | EmitFinish | EmitAbort | EmitError | CloseUpload | AbortFetch
  | FetchStart jstring jstring "(jstring \<times> jstring) list" request_body
  | RawSend transport jstring "nat option" "byte list" "byte list option"

record client_env =
  ce_browsing :: bool
  ce_gvisor :: bool
  ce_wisp :: bool
  ce_canStream :: bool

definition startStreamingFetch :: "client_request \<Rightarrow> client_out list \<times> client_request" where
  "startStreamingFetch r =
     ([FetchStart (buildUrl r) (cr_method r) (buildHeaders r) UploadStream],
      r\<lparr>cr_fetchStarted := True, cr_upload := Some []\<rparr>)"

definition client_flushHeaders :: "client_env \<Rightarrow> client_request \<Rightarrow> client_out list \<times> client_request" where
  "client_flushHeaders env r =
     (if \<not> cr_fetchStarted r \<and> ce_canStream env \<and> \<not> bodyless (cr_method r) then startStreamingFetch r else ([], r))"

text \<open>
  \<open>_write\<close>: whether the callback was called, called with an error, or kept for \<open>pull\<close>. The argument
  \<open>full\<close> says whether the stream has no room left after the \<open>enqueue\<close>; a closed stream throws.
\<close>

datatype write_result = WriteDone | WriteFailed | WriteDeferred

definition client_write ::
  "client_env \<Rightarrow> nat \<Rightarrow> bool \<Rightarrow> byte list \<Rightarrow> client_request \<Rightarrow> write_result \<times> client_out list \<times> client_request" where
  "client_write env highWaterMark full chunk r =
     (case cr_upload r of
        Some up \<Rightarrow>
          if cr_uploadClosed r then (WriteFailed, [], r)
          else (let r1 = r\<lparr>cr_upload := Some (up @ [chunk])\<rparr>
                in if full then (WriteDeferred, [], r1\<lparr>cr_drainCallback := True\<rparr>) else (WriteDone, [], r1))
      | None \<Rightarrow>
          let r1 = r\<lparr>cr_bodyChunks := cr_bodyChunks r @ [chunk], cr_bodyLength := cr_bodyLength r + length chunk\<rparr>
          in if cr_bodyLength r1 > highWaterMark \<and> ce_canStream env \<and> \<not> bodyless (cr_method r1) \<and> \<not> cr_fetchStarted r1
             then (let (outs, r2) = startStreamingFetch r1
                   in (WriteDone, outs,
                       r2\<lparr>cr_upload := Some (cr_bodyChunks r2), cr_bodyChunks := [], cr_bodyLength := 0\<rparr>))
             else (WriteDone, [], r1))"

text \<open>\<open>pull\<close> releases the callback that was kept.\<close>

definition client_pull :: "client_request \<Rightarrow> bool \<times> client_request" where
  "client_pull r = (cr_drainCallback r, r\<lparr>cr_drainCallback := False\<rparr>)"

text \<open>The request body of the buffered mode.\<close>

definition buffered_body :: "client_request \<Rightarrow> byte list option" where
  "buffered_body r =
     (if cr_bodyChunks r \<noteq> [] \<and> \<not> bodyless (cr_method r) then Some (concat (cr_bodyChunks r)) else None)"

definition send_raw :: "transport \<Rightarrow> client_request \<Rightarrow> byte list option \<Rightarrow> client_out" where
  "send_raw t r body =
     (let (head, hostname, port) = buildRawHttpRequest r body
      in RawSend t hostname port (text_encode head)
           (case body of Some (b # bs) \<Rightarrow> Some (b # bs) | _ \<Rightarrow> None))"

definition send_buffered :: "client_env \<Rightarrow> client_request \<Rightarrow> client_out" where
  "send_buffered env r =
     (let body = buffered_body r in
      if ce_browsing env \<and> ce_gvisor env then send_raw Gvisor r body
      else if ce_browsing env \<and> ce_wisp env then send_raw Wisp r body
      else FetchStart (buildUrl r) (cr_method r) (buildHeaders r)
             (case body of
                None \<Rightarrow> NoBody
              | Some b \<Rightarrow> if length (cr_bodyChunks r) > 1 \<and> ce_canStream env
                  then ChunkBody (cr_bodyChunks r) else WholeBody b))"

text \<open>\<open>end\<close>; enqueueing the last chunk on a closed stream throws.\<close>

definition add_final :: "byte list option \<Rightarrow> client_request \<Rightarrow> unit + client_request" where
  "add_final chunk r =
     (case chunk of
        None \<Rightarrow> Inr r
      | Some c \<Rightarrow> (case cr_upload r of
            Some up \<Rightarrow> if cr_uploadClosed r then Inl () else Inr (r\<lparr>cr_upload := Some (up @ [c])\<rparr>)
          | None \<Rightarrow> Inr (r\<lparr>cr_bodyChunks := cr_bodyChunks r @ [c], cr_bodyLength := cr_bodyLength r + length c\<rparr>)))"

definition client_end ::
  "client_env \<Rightarrow> byte list option \<Rightarrow> bool \<Rightarrow> client_request \<Rightarrow> unit + client_out list \<times> client_request" where
  "client_end env chunk callback r =
     (case add_final chunk r of
        Inl e \<Rightarrow> Inl e
      | Inr r1 \<Rightarrow>
          if cr_ended r1 then Inr ([], r1)
          else let r2 = r1\<lparr>cr_ended := True\<rparr>;
                   outs = (if callback then [EndCallback] else []) @ [EmitFinish]
               in if cr_fetchStarted r2
                  then Inr (outs @ (if cr_upload r2 \<noteq> None then [CloseUpload] else []),
                            r2\<lparr>cr_uploadClosed := cr_upload r2 \<noteq> None\<rparr>)
                  else Inr (outs @ [send_buffered env r2], r2))"

section \<open>Ending early\<close>

definition client_abort :: "client_request \<Rightarrow> client_out list \<times> client_request" where
  "client_abort r = ([EmitAbort, AbortFetch], r\<lparr>cr_aborted := True, cr_destroyed := True, cr_timer := False\<rparr>)"

definition client_destroy :: "bool \<Rightarrow> client_request \<Rightarrow> client_out list \<times> client_request" where
  "client_destroy err r =
     (AbortFetch # (if err then [EmitError] else []), r\<lparr>cr_destroyed := True, cr_timer := False\<rparr>)"

definition client_setTimeout :: "client_request \<Rightarrow> client_request" where
  "client_setTimeout r = r\<lparr>cr_timer := True\<rparr>"

end
