(* ===== verification/Http_Client_Props.thy ===== *)
theory Http_Client_Props
  imports Http_Client
begin

text \<open>
  What the client sends arrives: the head of the raw request is read back by the browser-local
  server with the method, the target and every header, and the body that is handed to a transport is
  what was written, on every one of the four paths. The last section holds the places where the
  headers or the body go wrong.
\<close>

section \<open>The header table\<close>

definition headers_ok :: "client_request \<Rightarrow> bool" where
  "headers_ok r \<longleftrightarrow> distinct (map fst (cr_reqHeaders r)) \<and>
     list_all (\<lambda>(lk, v). field v \<and>
       (case map_of (cr_headerNames r) lk of Some name \<Rightarrow> token name \<and> lower_text name = lk | None \<Rightarrow> False))
     (cr_reqHeaders r)"

lemma set_update:
  "distinct (map fst al) \<Longrightarrow> set (AList.update k v al) = insert (k, v) {p \<in> set al. fst p \<noteq> k}"
  by (induction al) force+

lemma set_delete_entries: "set (AList.delete k al) = {p \<in> set al. fst p \<noteq> k}"
  by (induction al) auto

lemma headers_ok_set:
  assumes "headers_ok r" "token name" "field value"
  shows "headers_ok (client_setHeader name value r)"
  using assms unfolding headers_ok_def client_setHeader_def Let_def
  by (auto simp: list_all_iff set_update distinct_update map_of_AList_update)

lemma headers_ok_remove:
  assumes "headers_ok r"
  shows "headers_ok (client_removeHeader name r)"
  using assms unfolding headers_ok_def client_removeHeader_def Let_def
  by (auto simp: list_all_iff set_delete_entries distinct_delete map_of_AList_delete)

lemma headers_ok_new:
  assumes "list_all (\<lambda>(k, v). token k \<and> field v) headers"
  shows "headers_ok (new_request opts headers)"
proof -
  have "headers_ok (foldl (\<lambda>r (k, v). client_setHeader k v r) r headers)" if "headers_ok r" for r
    using assms that by (induction headers arbitrary: r) (auto simp: headers_ok_set)
  then show ?thesis by (simp add: new_request_def headers_ok_def)
qed

lemma all_headers:
  assumes "headers_ok r"
  shows "map (\<lambda>(k, v). (lower_text k, v)) (buildAllHeaders r) = cr_reqHeaders r"
    and "list_all (\<lambda>(k, v). token k \<and> field v) (buildAllHeaders r)"
    and "map_of (cr_reqHeaders r) lk = None \<Longrightarrow> lower_text k = lk \<Longrightarrow> k \<notin> fst ` set (buildAllHeaders r)"
    and "map_of (cr_reqHeaders r) lk = Some v \<Longrightarrow> map_of (cr_headerNames r) lk = Some k \<Longrightarrow>
      map_of (buildAllHeaders r) k = Some v"
proof -
  define f where "f lk = (case map_of (cr_headerNames r) lk of Some (c # cs) \<Rightarrow> c # cs | _ \<Rightarrow> lk)" for lk
  define named where "named = map (\<lambda>(lk, v). (f lk, v)) (cr_reqHeaders r)"
  have f: "token (f lk) \<and> lower_text (f lk) = lk \<and> field v \<and> map_of (cr_headerNames r) lk = Some (f lk)"
    if "(lk, v) \<in> set (cr_reqHeaders r)" for lk v
  proof -
    from that assms obtain name where
      n: "map_of (cr_headerNames r) lk = Some name" "token name" "lower_text name = lk" "field v"
      by (fastforce simp: headers_ok_def list_all_iff split: option.splits)
    then have "f lk = name" using token_facts(1) [OF n(2)] by (cases name) (simp_all add: f_def)
    with n show ?thesis by simp
  qed
  have low: "map (\<lambda>(k, v). (lower_text k, v)) named = cr_reqHeaders r"
    unfolding named_def map_map by (rule map_idI) (use f in auto)
  then have "map lower_text (map fst named) = map fst (cr_reqHeaders r)"
    by (metis (mono_tags, lifting) case_prod_unfold fst_conv list.map_comp map_eq_conv comp_apply)
  then have dist: "distinct (map fst named)" using assms distinct_map unfolding headers_ok_def by metis
  have eq: "buildAllHeaders r = named"
  proof -
    have "buildAllHeaders r = foldl (\<lambda>hs (k, v). AList.update k v hs) [] named"
      unfolding buildAllHeaders_def named_def foldl_map f_def by (simp add: case_prod_unfold)
    then show ?thesis using fold_update [of named "[]"] dist by simp
  qed
  show "map (\<lambda>(k, v). (lower_text k, v)) (buildAllHeaders r) = cr_reqHeaders r" using low eq by simp
  show "list_all (\<lambda>(k, v). token k \<and> field v) (buildAllHeaders r)"
    unfolding eq named_def using f by (auto simp: list_all_iff)
  show "k \<notin> fst ` set (buildAllHeaders r)" if "map_of (cr_reqHeaders r) lk = None" "lower_text k = lk"
  proof
    assume "k \<in> fst ` set (buildAllHeaders r)"
    then obtain lk' v where "(lk', v) \<in> set (cr_reqHeaders r)" "k = f lk'" by (auto simp: eq named_def)
    with f [of lk' v] that show False by (auto simp: map_of_eq_None_iff intro: rev_image_eqI)
  qed
  show "map_of (buildAllHeaders r) k = Some v"
    if "map_of (cr_reqHeaders r) lk = Some v" "map_of (cr_headerNames r) lk = Some k"
  proof -
    have "(lk, v) \<in> set (cr_reqHeaders r)" using that(1) by (rule map_of_SomeD)
    with f [OF this] that(2) have "(k, v) \<in> set named" by (force simp: named_def)
    then show ?thesis using dist by (simp add: eq)
  qed
qed


section \<open>The head of a raw request\<close>

text \<open>
  The two headers the client adds on its own are looked up under two spellings only: a header the
  program set has to use one of them, with a value that is not empty.
\<close>

definition usual_spelling :: "client_request \<Rightarrow> string \<Rightarrow> string \<Rightarrow> bool" where
  "usual_spelling r lk cap \<longleftrightarrow>
     (case map_of (cr_reqHeaders r) (js lk) of
        None \<Rightarrow> True
      | Some v \<Rightarrow> v \<noteq> [] \<and> map_of (cr_headerNames r) (js lk) \<in> {Some (js lk), Some (js cap)})"

definition host_value :: "client_options \<Rightarrow> jstring" where
  "host_value opts =
     (if request_port opts = Some 80 \<or> request_port opts = Some 443 then request_hostname opts
      else request_hostname opts @ [COLON] @ (case request_port opts of Some n \<Rightarrow> num_text n | None \<Rightarrow> js ''NaN''))"

text \<open>The headers of a raw request, as the peer is to see them.\<close>

definition sent_headers :: "client_request \<Rightarrow> byte list option \<Rightarrow> (jstring \<times> jstring) list" where
  "sent_headers r body =
     cr_reqHeaders r
     @ (if map_of (cr_reqHeaders r) (js ''host'') = None then [(js ''host'', host_value (cr_options r))] else [])
     @ (case body of
          Some b \<Rightarrow> if map_of (cr_reqHeaders r) (js ''content-length'') = None
                     then [(js ''content-length'', num_text (length b))] else []
        | None \<Rightarrow> [])
     @ [(js ''connection'', js ''close'')]"

lemma added_names:
  "lower_text (js ''Host'') = js ''host''" "lower_text (js ''host'') = js ''host''"
  "lower_text (js ''Content-Length'') = js ''content-length''"
  "lower_text (js ''content-length'') = js ''content-length''"
  "lower_text (js ''Connection'') = js ''connection''"
  "token (js ''Host'')" "token (js ''Content-Length'')" "token (js ''Connection'')" "field (js ''close'')"
  "js ''Host'' \<noteq> js ''Content-Length''" "js ''Host'' \<noteq> js ''content-length''"
  "js ''host'' \<noteq> js ''content-length''" "js ''host'' \<noteq> js ''connection''" "js ''content-length'' \<noteq> js ''connection''"
  "js ''connection'' \<noteq> js ''host''" "js ''connection'' \<noteq> js ''content-length''" "js ''content-length'' \<noteq> js ''host''"
  by code_simp+


lemma add_missing:
  assumes "map (\<lambda>(k, v). (lower_text k, v)) hs = low" "lower_text cap = lk" "lower_text lk = lk"
    and "case map_of low lk of None \<Rightarrow> True
      | Some w \<Rightarrow> w \<noteq> [] \<and> (map_of hs lk = Some w \<or> map_of hs cap = Some w)"
  shows "(if \<not> has_value hs cap \<and> \<not> has_value hs lk then AList.update cap v hs else hs)
    = hs @ (if map_of low lk = None then [(cap, v)] else [])"
proof (cases "map_of low lk")
  case None
  have out: "k \<notin> fst ` set hs" if "lower_text k = lk" for k
    using None that by (force simp: map_of_eq_None_iff simp flip: assms(1))
  then have "map_of hs cap = None" "map_of hs lk = None" using assms(2,3) by (simp_all add: map_of_eq_None_iff)
  then show ?thesis
    using None out [OF assms(2)] by (simp add: has_value_def keys_update_new)
next
  case (Some w)
  with assms(4) show ?thesis by (auto simp: has_value_def neq_Nil_conv)
qed

lemma usual_lookup:
  assumes "headers_ok r" "usual_spelling r lk cap"
  shows "case map_of (cr_reqHeaders r) (js lk) of None \<Rightarrow> True
      | Some w \<Rightarrow> w \<noteq> [] \<and> (map_of (buildAllHeaders r) (js lk) = Some w \<or> map_of (buildAllHeaders r) (js cap) = Some w)"
  using assms(2) all_headers(4) [OF assms(1), of "js lk"]
  by (auto simp: usual_spelling_def split: option.splits)

lemma field_join: "field a \<Longrightarrow> a \<noteq> [] \<Longrightarrow> field b \<Longrightarrow> b \<noteq> [] \<Longrightarrow> field (a @ [COLON] @ b)"
  by (simp add: field_def)

lemma field_num: "field (num_text n)" "num_text n \<noteq> []"
  using num_text_facts [of n] digit_token token_field by blast+

lemma host_value_field:
  assumes "field (request_hostname opts)"
  shows "field (host_value opts)" "host_value opts \<noteq> []"
proof -
  have "request_hostname opts \<noteq> []" by (simp add: request_hostname_def or_default_def js_def)
  moreover have "field (js ''NaN'') \<and> js ''NaN'' \<noteq> []" by code_simp
  ultimately show "field (host_value opts)" "host_value opts \<noteq> []"
    using assms field_num field_join by (auto simp: host_value_def split: option.split)
qed

lemma raw_headers_sent:
  assumes ok: "headers_ok r" and host: "usual_spelling r ''host'' ''Host''"
    and len: "usual_spelling r ''content-length'' ''Content-Length''"
    and "field (request_hostname (cr_options r))"
  shows "map (\<lambda>(k, v). (lower_text k, v)) (raw_headers r body @ [(js ''Connection'', js ''close'')]) = sent_headers r body"
    and "list_all (\<lambda>(k, v). token k \<and> field v) (raw_headers r body @ [(js ''Connection'', js ''close'')])"
proof -
  define hs where "hs = buildAllHeaders r"
  define h1 where "h1 = hs @ (if map_of (cr_reqHeaders r) (js ''host'') = None then [(js ''Host'', host_value (cr_options r))] else [])"
  note all = all_headers(1,2) [OF ok, folded hs_def]
  have step1: "(if \<not> has_value hs (js ''Host'') \<and> \<not> has_value hs (js ''host'')
      then AList.update (js ''Host'') (host_value (cr_options r)) hs else hs) = h1"
    unfolding h1_def using added_names by (intro add_missing all(1) usual_lookup [OF ok host, folded hs_def])
  define low1 where "low1 = map (\<lambda>(k, v). (lower_text k, v)) h1"
  have low1: "low1 = cr_reqHeaders r
      @ (if map_of (cr_reqHeaders r) (js ''host'') = None then [(js ''host'', host_value (cr_options r))] else [])"
    by (simp add: low1_def h1_def all(1) added_names)
  have cl: "map_of low1 (js ''content-length'') = map_of (cr_reqHeaders r) (js ''content-length'')"
    using added_names by (auto simp: low1 map_add_def split: option.split)
  have hkeys: "map_of h1 k = map_of hs k" if "k \<noteq> js ''Host''" for k
    using that by (auto simp: h1_def map_add_def split: option.split)
  have step2: "(if \<not> has_value h1 (js ''Content-Length'') \<and> \<not> has_value h1 (js ''content-length'')
      then AList.update (js ''Content-Length'') v h1 else h1)
      = h1 @ (if map_of low1 (js ''content-length'') = None then [(js ''Content-Length'', v)] else [])" for v
  proof (rule add_missing)
    show "map (\<lambda>(k, v). (lower_text k, v)) h1 = low1" by (simp add: low1_def)
    show "case map_of low1 (js ''content-length'') of None \<Rightarrow> True
      | Some w \<Rightarrow> w \<noteq> [] \<and> (map_of h1 (js ''content-length'') = Some w \<or> map_of h1 (js ''Content-Length'') = Some w)"
      unfolding cl using usual_lookup [OF ok len, folded hs_def] hkeys added_names by (simp split: option.splits)
  qed (use added_names in simp_all)
  have raw: "raw_headers r body = (case body of
      Some b \<Rightarrow> h1 @ (if map_of (cr_reqHeaders r) (js ''content-length'') = None
                     then [(js ''Content-Length'', num_text (length b))] else [])
    | None \<Rightarrow> h1)"
    by (simp only: raw_headers_def Let_def hs_def [symmetric] host_value_def [symmetric] step1 step2 cl)
  show "map (\<lambda>(k, v). (lower_text k, v)) (raw_headers r body @ [(js ''Connection'', js ''close'')]) = sent_headers r body"
    using low1 by (auto simp: raw low1_def sent_headers_def added_names split: option.split)
  show "list_all (\<lambda>(k, v). token k \<and> field v) (raw_headers r body @ [(js ''Connection'', js ''close'')])"
    using all(2) host_value_field(1) [OF assms(4)] field_num added_names by (simp add: raw h1_def split: option.split)
qed


lemma head_of_request:
  fixes body :: "byte list option"
  assumes "headers_ok r" "usual_spelling r ''host'' ''Host''"
    and "usual_spelling r ''content-length'' ''Content-Length''"
    and "field (request_hostname (cr_options r))" "token (cr_method r)"
    and "token (or_default (co_path (cr_options r)) (js ''/''))"
  defines "ls \<equiv> request_line (cr_method r) (or_default (co_path (cr_options r)) (js ''/''))
      # map line_of (raw_headers r body @ [(js ''Connection'', js ''close'')])"
  shows "good_head ls" and "text_encode (fst (buildRawHttpRequest r body)) = head_bytes ls"
proof -
  show good: "good_head ls"
    unfolding ls_def using request_good [OF assms(5,6) raw_headers_sent(2) [OF assms(1-4), of body]] .
  have "fst (buildRawHttpRequest r body)
      = (request_line (cr_method r) (or_default (co_path (cr_options r)) (js ''/'')) @ crlf
         @ header_lines (raw_headers r body @ [(js ''Connection'', js ''close'')])) @ crlf"
    by (simp add: buildRawHttpRequest_def request_line_def header_lines_def js_def)
  also have "\<dots> = join_crlf ls @ head_end"
    unfolding header_lines_join ls_def by (simp add: crlf_def head_end_def)
  finally show "text_encode (fst (buildRawHttpRequest r body)) = head_bytes ls"
    using ascii_encode [OF good_head_ascii [OF good]] by (simp add: head_bytes_def)
qed

text \<open>
  C31. A raw request arrives at the browser-local server whatever chunks the stream is cut into: one
  request event, with the method, the path and exactly the headers the program set, their names in
  lower case and in their order, followed by the host, the length of the body and the \<open>connection\<close>
  header the client adds; a request without a body has none at the server. The headers the
  program sets are tokens and printable ASCII, host and content-length are not set under an unusual
  spelling or empty, and \<open>connection\<close> is not set.
\<close>

theorem http_request_arrives:
  assumes "headers_ok r" "usual_spelling r ''host'' ''Host''"
    and "usual_spelling r ''content-length'' ''Content-Length''"
    and "map_of (cr_reqHeaders r) (js ''connection'') = None"
    and "field (request_hostname (cr_options r))" "token (cr_method r)"
    and "token (or_default (co_path (cr_options r)) (js ''/''))"
    and "concat cs = text_encode (fst (buildRawHttpRequest r body)) @ (case body of Some b \<Rightarrow> b | None \<Rightarrow> [])"
  shows "\<exists>q. fst (conn_run port cs new_server_conn) = [q] \<and> sq_method q = cr_method r
    \<and> sq_url q = or_default (co_path (cr_options r)) (js ''/'') \<and> sq_headers q = sent_headers r body
    \<and> (case body of None \<Rightarrow> sq_body q = None | Some b \<Rightarrow> True)"
proof -
  define hs where "hs = raw_headers r body @ [(js ''Connection'', js ''close'')]"
  define ls where "ls = request_line (cr_method r) (or_default (co_path (cr_options r)) (js ''/'')) # map line_of hs"
  note head = head_of_request [OF assms(1-3,5-7), of body, folded hs_def, folded ls_def]
  note sent = raw_headers_sent [OF assms(1-3,5), of body, folded hs_def]
  have "[] @ concat cs = head_bytes ls @ (case body of Some b \<Rightarrow> b | None \<Rightarrow> [])"
    using assms(8) head(2) by simp
  moreover have "length ([] :: byte list) < length (head_bytes ls)" by (simp add: head_bytes_def head_end_def)
  ultimately obtain us rest q where q: "(case body of Some b \<Rightarrow> b | None \<Rightarrow> []) = us @ rest"
    "parse_request port (head_bytes ls @ us) = Some q" "fst (conn_run port cs new_server_conn) = [q]"
    using conn_any_chunks [OF head(1), of "[]" cs, folded new_server_conn_def] by blast
  have names: "map fst (sent_headers r body) = map (lower_text \<circ> fst) hs" by (auto simp flip: sent(1))
  have "distinct (map fst (sent_headers r body))"
    using assms(1,4)
    by (cases body) (simp_all add: sent_headers_def headers_ok_def map_of_eq_None_iff added_names)
  then have dist: "distinct (map (lower_text \<circ> fst) hs)" by (simp add: names)
  obtain h where h: "map_of (sent_headers r body) (js ''host'') = Some h" "h \<noteq> []"
  proof (cases "map_of (cr_reqHeaders r) (js ''host'')")
    case None
    then have "map_of (sent_headers r body) (js ''host'') = Some (host_value (cr_options r))"
      by (simp add: sent_headers_def map_add_def)
    then show ?thesis using that host_value_field(2) [OF assms(5)] by blast
  next
    case (Some v)
    then have "map_of (sent_headers r body) (js ''host'') = Some v"
      by (cases body) (simp_all add: sent_headers_def map_add_def added_names)
    then show ?thesis using that Some assms(2) by (simp add: usual_spelling_def)
  qed
  note got = server_reads [OF assms(6,7) sent(2) dist, unfolded sent(1), OF h, folded ls_def, OF q(2)]
  show ?thesis using got q(1,3) by (auto split: option.split)
qed


definition demo_request :: client_request where
  "demo_request = new_request
     \<lparr>co_method = js ''post'', co_path = js ''/v1?x=1'', co_hostname = js ''api.local'', co_host = [], co_protocol = [],
      co_href = [], co_port = PortText (js ''8080'')\<rparr> [(js ''Accept'', js ''a/b'')]"

lemma demo_request_facts:
  "usual_spelling demo_request ''host'' ''Host''" "usual_spelling demo_request ''content-length'' ''Content-Length''"
  "map_of (cr_reqHeaders demo_request) (js ''connection'') = None"
  "field (request_hostname (cr_options demo_request))" "token (cr_method demo_request)"
  "token (or_default (co_path (cr_options demo_request)) (js ''/''))"
  "token (js ''Accept'')" "field (js ''a/b'')"
  by code_simp+

lemma demo_request_ok: "headers_ok demo_request"
  unfolding demo_request_def by (rule headers_ok_new) (simp add: demo_request_facts)

theorem http_request_arrives_witness:
  "let wire = text_encode (fst (buildRawHttpRequest demo_request (Some [0xFF]))) @ (case Some [0xFF] of Some b \<Rightarrow> b | None \<Rightarrow> [])
   in \<exists>q. fst (conn_run 80 [take 9 wire, drop 9 wire] new_server_conn) = [q] \<and> sq_method q = cr_method demo_request
    \<and> sq_url q = or_default (co_path (cr_options demo_request)) (js ''/'')
    \<and> sq_headers q = sent_headers demo_request (Some [0xFF])
    \<and> (case Some [0xFF :: byte] of None \<Rightarrow> sq_body q = None | Some b \<Rightarrow> True)"
  unfolding Let_def by (rule http_request_arrives) (simp_all only: concat.simps append_Nil2 append_take_drop_id demo_request_facts demo_request_ok)


section \<open>The body\<close>

text \<open>
  What the stream above asks of the request: \<open>flushHeaders\<close>, or a \<open>_write\<close>, which it does not
  repeat before the callback, so that a deferred one is followed by a \<open>pull\<close>.
\<close>

datatype client_op = OpFlush | OpWrite "byte list" bool

definition client_do :: "client_env \<Rightarrow> nat \<Rightarrow> client_op \<Rightarrow> client_request \<Rightarrow> client_out list \<times> client_request" where
  "client_do env highWaterMark op r =
     (case op of
        OpFlush \<Rightarrow> client_flushHeaders env r
      | OpWrite chunk full \<Rightarrow>
          (let (res, outs, r1) = client_write env highWaterMark full chunk r in (outs, snd (client_pull r1))))"

fun client_ops :: "client_env \<Rightarrow> nat \<Rightarrow> client_op list \<Rightarrow> client_request \<Rightarrow> client_out list \<times> client_request" where
  "client_ops env highWaterMark [] r = ([], r)"
| "client_ops env highWaterMark (op # ops) r =
     (let (o1, r1) = client_do env highWaterMark op r; (o2, r2) = client_ops env highWaterMark ops r1 in (o1 @ o2, r2))"

fun op_bytes :: "client_op \<Rightarrow> byte list" where
  "op_bytes OpFlush = []"
| "op_bytes (OpWrite chunk full) = chunk"

text \<open>The body an action hands to the network; an upload stream carries what was enqueued.\<close>

definition sent_body :: "client_request \<Rightarrow> client_out \<Rightarrow> byte list option" where
  "sent_body r act =
     (case act of
        FetchStart url m hs NoBody \<Rightarrow> Some []
      | FetchStart url m hs (WholeBody b) \<Rightarrow> Some b
      | FetchStart url m hs (ChunkBody bs) \<Rightarrow> Some (concat bs)
      | FetchStart url m hs UploadStream \<Rightarrow> map_option concat (cr_upload r)
      | RawSend t hostname port head body \<Rightarrow> Some (case body of Some b \<Rightarrow> b | None \<Rightarrow> [])
      | _ \<Rightarrow> None)"

definition collecting :: "client_options \<Rightarrow> byte list \<Rightarrow> client_out list \<Rightarrow> client_request \<Rightarrow> bool" where
  "collecting opts bytes outs r \<longleftrightarrow> cr_options r = opts \<and> \<not> cr_ended r \<and> \<not> cr_uploadClosed r \<and>
     (if cr_fetchStarted r
      then \<not> bodyless (cr_method r) \<and> (\<exists>up. cr_upload r = Some up \<and> concat up = bytes)
        \<and> (\<exists>url m hs. outs = [FetchStart url m hs UploadStream])
      else cr_upload r = None \<and> concat (cr_bodyChunks r) = bytes \<and> outs = [])"

lemma collecting_do:
  assumes "collecting opts bytes outs r" "client_do env highWaterMark op r = (os, r')"
    and "op = OpFlush \<longrightarrow> cr_bodyChunks r = []"
  shows "collecting opts (bytes @ op_bytes op) (outs @ os) r'"
  using assms
  by (cases op)
    (auto simp: collecting_def client_do_def client_flushHeaders_def client_write_def startStreamingFetch_def
      client_pull_def cr_method_def Let_def split: if_splits option.splits)

lemma collecting_ops:
  "collecting opts bytes outs r \<Longrightarrow> client_ops env highWaterMark ops r = (os, r') \<Longrightarrow> OpFlush \<notin> set ops \<Longrightarrow>
     collecting opts (bytes @ concat (map op_bytes ops)) (outs @ os) r'"
proof (induction ops arbitrary: bytes outs r os)
  case (Cons op ops)
  obtain o1 r1 o2 where "client_do env highWaterMark op r = (o1, r1)" "client_ops env highWaterMark ops r1 = (o2, r')" "os = o1 @ o2"
    using Cons.prems(2) by (auto split: prod.splits)
  with Cons.IH [of "bytes @ op_bytes op" "outs @ o1" r1 o2] collecting_do [OF Cons.prems(1), of env highWaterMark op o1 r1] Cons.prems(3)
  show ?case by auto
qed simp

lemma collecting_set:
  "collecting opts bytes outs r \<Longrightarrow> collecting opts bytes outs (client_setHeader k v r)
     \<and> cr_bodyChunks (client_setHeader k v r) = cr_bodyChunks r"
  by (auto simp: collecting_def client_setHeader_def Let_def cr_method_def split: if_splits)

lemma collecting_new:
  "collecting opts [] [] (new_request opts headers) \<and> cr_bodyChunks (new_request opts headers) = []"
proof -
  have "collecting opts [] [] (foldl (\<lambda>r (k, v). client_setHeader k v r) r headers)
      \<and> cr_bodyChunks (foldl (\<lambda>r (k, v). client_setHeader k v r) r headers) = cr_bodyChunks r"
    if "collecting opts [] [] r" for r
    using that
  proof (induction headers arbitrary: r)
    case (Cons h hs)
    then show ?case using collecting_set [OF Cons.prems] by (simp add: split_beta)
  qed simp
  moreover have "collecting opts [] [] (new_request opts [])" "cr_bodyChunks (new_request opts []) = []"
    by (simp_all add: new_request_def collecting_def)
  moreover have "new_request opts headers = foldl (\<lambda>r (k, v). client_setHeader k v r) (new_request opts []) headers"
    by (simp add: new_request_def)
  ultimately show ?thesis by metis
qed

lemma send_raw_body: "sent_body r (send_raw t r' body) = Some (case body of Some b \<Rightarrow> b | None \<Rightarrow> [])"
  by (auto simp: send_raw_def sent_body_def split: prod.split option.split list.split)

lemma send_buffered_body:
  "sent_body r (send_buffered env r') = Some (if bodyless (cr_method r') then [] else concat (cr_bodyChunks r'))"
  by (simp add: send_buffered_def send_raw_body Let_def)
    (auto simp: sent_body_def buffered_body_def split: if_splits)

lemma collecting_end:
  assumes "collecting opts bytes outs r"
  shows "\<exists>os r'. client_end env final callback r = Inr (os, r') \<and> cr_ended r'
    \<and> List.map_filter (sent_body r') (outs @ os)
        = [if bodyless (upper_text (or_default (co_method opts) (js ''GET''))) then []
           else bytes @ (case final of Some c \<Rightarrow> c | None \<Rightarrow> [])]
    \<and> (case cr_upload r' of None \<Rightarrow> True | Some up \<Rightarrow> CloseUpload \<in> set os)"
proof -
  have map_filter: "List.map_filter f [] = []" "List.map_filter f (xs @ ys) = List.map_filter f xs @ List.map_filter f ys"
    "List.map_filter f (x # xs) = (case f x of None \<Rightarrow> [] | Some y \<Rightarrow> [y]) @ List.map_filter f xs" for f :: "client_out \<Rightarrow> byte list option" and x xs ys
    by (simp_all add: List.map_filter_def split: option.split)
  have none: "sent_body q EndCallback = None" "sent_body q EmitFinish = None" "sent_body q CloseUpload = None" for q
    by (simp_all add: sent_body_def)
  show ?thesis
  proof (cases "cr_fetchStarted r")
    case True
    then show ?thesis
      using assms by (cases final)
        (auto simp: collecting_def client_end_def add_final_def map_filter none Let_def cr_method_def sent_body_def)
  next
    case False
    then show ?thesis
      using assms by (cases final)
        (auto simp: collecting_def client_end_def add_final_def map_filter none Let_def cr_method_def send_buffered_body)
  qed
qed



definition browser_env :: client_env where
  "browser_env = \<lparr>ce_browsing = True, ce_gvisor = False, ce_wisp = False, ce_canStream = True\<rparr>"

lemma demo_writes:
  "client_ops browser_env 3 ((if False then [OpFlush] else []) @ [OpWrite [1, 2] False, OpWrite [3, 4] False, OpWrite [5] True])
     (new_request (cr_options demo_request) [])
   = ([FetchStart (js ''http://api.local:8080/v1?x=1'') (js ''POST'') [] UploadStream],
      new_request (cr_options demo_request) []\<lparr>cr_fetchStarted := True, cr_upload := Some [[1, 2], [3, 4], [5]]\<rparr>)"
  by code_simp


section \<open>Where it goes wrong\<close>

text \<open>\<open>flushHeaders\<close> after a write opens the upload stream without what was buffered: it is never sent.\<close>

lemma flush_after_write_loses:
  "cr_upload (snd (client_ops browser_env 16384 [OpWrite [1] False, OpFlush, OpWrite [2] False]
     (new_request (cr_options demo_request) []))) = Some [[2]]"
  by code_simp

text \<open>\<open>end\<close> closes the upload stream while a deferred write has others queued behind it: they fail.\<close>

lemma end_fails_queued_writes:
  "(let r1 = snd (client_do browser_env 16384 OpFlush (new_request (cr_options demo_request) []));
        (w, _, r2) = client_write browser_env 16384 True [1] r1
    in case client_end browser_env None False r2 of
         Inl _ \<Rightarrow> False
       | Inr (_, r3) \<Rightarrow> w = WriteDeferred \<and> fst (client_write browser_env 16384 False [2] (snd (client_pull r3))) = WriteFailed)"
  by code_simp

text \<open>Header values go into the head as they are, so a value with a line break adds a header.\<close>

lemma header_injection:
  "header_lines [(k, v @ crlf @ k2 @ js '': '' @ v2)] = header_lines [(k, v), (k2, v2)]"
  by (simp add: header_lines_def)

text \<open>A host set under another spelling goes out twice, and an abort before \<open>end\<close> keeps nothing from being sent.\<close>

lemma host_sent_twice:
  "map (lower_text \<circ> fst) (raw_headers (client_setHeader (js ''HOST'') (js ''a'')
       (demo_request\<lparr>cr_options := (cr_options demo_request)\<lparr>co_port := NoPort\<rparr>\<rparr>)) None)
     = [js ''accept'', js ''host'', js ''host'']"
  by code_simp

lemma aborted_still_sent:
  assumes "\<not> cr_ended r" "\<not> cr_fetchStarted r"
  shows "\<exists>os r'. client_end env None callback (snd (client_abort r)) = Inr (os, r') \<and> cr_aborted r'
    \<and> send_buffered env r' \<in> set os"
  using assms by (simp add: client_end_def add_final_def client_abort_def Let_def)

text \<open>The default ports are recognised as text only.\<close>

lemma numeric_port_kept:
  "buildUrl (demo_request\<lparr>cr_options := (cr_options demo_request)\<lparr>co_port := PortNum 80\<rparr>\<rparr>) = js ''http://api.local:80/v1?x=1''"
  "buildUrl (demo_request\<lparr>cr_options := (cr_options demo_request)\<lparr>co_port := PortText (js ''80'')\<rparr>\<rparr>) = js ''http://api.local/v1?x=1''"
  by code_simp+

end
