(* ===== verification/Http_Server.thy ===== *)
theory Http_Server
  imports Http_Wire_Props
begin

text \<open>
  The browser-local server of \<open>napi-bridge/http.js\<close>: the response object a handler writes to
  (\<open>OutgoingMessage\<close>), the registry of servers by port (\<open>FakeServer\<close>: \<open>listen\<close>, \<open>close\<close>), and the two
  other ways a request reaches a server besides a connection: a message of the relay and a redirect
  to a local URL. The stream below \<open>write\<close> and \<open>end\<close> is \<open>Writable\<close>, which calls \<open>_write\<close> once per chunk
  and in order.
\<close>

section \<open>Outgoing messages\<close>

text \<open>
  \<open>_headers\<close> is keyed by the names as given, \<open>_headersLower\<close> maps a lowered name to the last spelling.
\<close>

record outgoing =
  og_headers :: "(jstring \<times> jstring) list"
  og_lower :: "(jstring \<times> jstring) list"
  og_status :: nat
  og_message :: jstring
  og_sent :: bool
  og_explicit :: bool
  og_finished :: bool
  og_chunks :: "byte list list"

datatype outgoing_error = SetAfterSent | WriteHeadAfterSent

definition new_outgoing :: outgoing where
  "new_outgoing = \<lparr>og_headers = [], og_lower = [], og_status = 200, og_message = [], og_sent = False,
     og_explicit = False, og_finished = False, og_chunks = []\<rparr>"

definition outgoing_setHeader :: "jstring \<Rightarrow> jstring \<Rightarrow> outgoing \<Rightarrow> outgoing_error + outgoing" where
  "outgoing_setHeader name value s =
     (if og_sent s then Inl SetAfterSent
      else Inr (s\<lparr>og_lower := AList.update (lower_text name) name (og_lower s),
                  og_headers := AList.update name value (og_headers s)\<rparr>))"

definition outgoing_getHeader :: "jstring \<Rightarrow> outgoing \<Rightarrow> jstring option" where
  "outgoing_getHeader name s =
     (case map_of (og_lower s) (lower_text name) of None \<Rightarrow> None | Some orig \<Rightarrow> map_of (og_headers s) orig)"

definition outgoing_removeHeader :: "jstring \<Rightarrow> outgoing \<Rightarrow> outgoing" where
  "outgoing_removeHeader name s =
     (let lower = lower_text name
      in case map_of (og_lower s) lower of
           None \<Rightarrow> s
         | Some orig \<Rightarrow> s\<lparr>og_headers := AList.delete orig (og_headers s), og_lower := AList.delete lower (og_lower s)\<rparr>)"

definition outgoing_hasHeader :: "jstring \<Rightarrow> outgoing \<Rightarrow> bool" where
  "outgoing_hasHeader name s \<longleftrightarrow> map_of (og_lower s) (lower_text name) \<noteq> None"

fun set_headers :: "(jstring \<times> jstring) list \<Rightarrow> outgoing \<Rightarrow> outgoing_error + outgoing" where
  "set_headers [] s = Inr s"
| "set_headers ((k, v) # hs) s = (case outgoing_setHeader k v s of Inl e \<Rightarrow> Inl e | Inr s' \<Rightarrow> set_headers hs s')"

text \<open>\<open>writeHead\<close> with its arguments sorted out: the message is absent unless it is a string.\<close>

definition writeHead :: "nat \<Rightarrow> jstring option \<Rightarrow> (jstring \<times> jstring) list \<Rightarrow> outgoing \<Rightarrow> outgoing_error + outgoing" where
  "writeHead statusCode statusMessage headers s =
     (if og_sent s then Inl WriteHeadAfterSent
      else let s1 = s\<lparr>og_status := statusCode\<rparr>;
               s2 = (case statusMessage of None \<Rightarrow> s1 | Some m \<Rightarrow> s1\<lparr>og_message := m\<rparr>)
           in case set_headers headers s2 of
                Inl e \<Rightarrow> Inl e
              | Inr s3 \<Rightarrow> Inr (s3\<lparr>og_sent := True, og_explicit := True\<rparr>))"

definition outgoing_flushHeaders :: "outgoing \<Rightarrow> outgoing_error + outgoing" where
  "outgoing_flushHeaders s =
     (if og_sent s then Inr s
      else writeHead (og_status s) (if og_message s = [] then None else Some (og_message s)) [] s)"

datatype body_chunk = TextChunk jstring | ByteChunk "byte list"

definition outgoing_write :: "body_chunk \<Rightarrow> outgoing \<Rightarrow> outgoing_error + outgoing" where
  "outgoing_write chunk s =
     (case outgoing_flushHeaders s of
        Inl e \<Rightarrow> Inl e
      | Inr s1 \<Rightarrow> Inr (case chunk of
            TextChunk t \<Rightarrow> if t = [] then s1 else s1\<lparr>og_chunks := og_chunks s1 @ [text_encode t]\<rparr>
          | ByteChunk b \<Rightarrow> s1\<lparr>og_chunks := og_chunks s1 @ [b]\<rparr>))"

text \<open>\<open>end\<close> hands its chunk to the stream, which writes it before it finishes.\<close>

definition outgoing_end :: "body_chunk option \<Rightarrow> outgoing \<Rightarrow> outgoing_error + outgoing" where
  "outgoing_end chunk s =
     (case outgoing_flushHeaders s of
        Inl e \<Rightarrow> Inl e
      | Inr s1 \<Rightarrow> (case (case chunk of None \<Rightarrow> Inr s1 | Some c \<Rightarrow> outgoing_write c s1) of
            Inl e \<Rightarrow> Inl e
          | Inr s2 \<Rightarrow> Inr (s2\<lparr>og_finished := True\<rparr>)))"

text \<open>What a handler does with its response, up to the first call that throws.\<close>

datatype response_op =
  SetHeader jstring jstring | RemoveHeader jstring | WriteHead nat "jstring option" "(jstring \<times> jstring) list"
| FlushHeaders | WriteBody body_chunk | EndBody "body_chunk option"

definition response_step :: "response_op \<Rightarrow> outgoing \<Rightarrow> outgoing_error + outgoing" where
  "response_step op s =
     (case op of
        SetHeader k v \<Rightarrow> outgoing_setHeader k v s
      | RemoveHeader k \<Rightarrow> Inr (outgoing_removeHeader k s)
      | WriteHead code m hs \<Rightarrow> writeHead code m hs s
      | FlushHeaders \<Rightarrow> outgoing_flushHeaders s
      | WriteBody c \<Rightarrow> outgoing_write c s
      | EndBody c \<Rightarrow> outgoing_end c s)"

fun response_run :: "response_op list \<Rightarrow> outgoing \<Rightarrow> outgoing_error + outgoing" where
  "response_run [] s = Inr s"
| "response_run (op # ops) s = (case response_step op s of Inl e \<Rightarrow> Inl e | Inr s' \<Rightarrow> response_run ops s')"

text \<open>The bytes the \<open>finish\<close> handler of a connection writes.\<close>

definition answer_bytes :: "outgoing \<Rightarrow> byte list" where
  "answer_bytes s = render_response (og_status s) (og_message s) (og_headers s) (og_chunks s)"

section \<open>Requests from the relay and from a redirect\<close>

definition local_host :: "jstring \<Rightarrow> nat \<Rightarrow> jstring" where
  "local_host hostname port = hostname @ [COLON] @ num_text port"

record relay_request =
  rq_method :: jstring
  rq_url :: jstring
  rq_headers :: "(jstring \<times> jstring) list"
  rq_body64 :: jstring

definition relay_message :: "jstring \<Rightarrow> nat \<Rightarrow> relay_request \<Rightarrow> server_request" where
  "relay_message hostname port msg =
     (let host = (case map_of (rq_headers msg) (js ''host'') of
                    Some (v # vs) \<Rightarrow> v # vs | _ \<Rightarrow> local_host hostname port);
          bodyU8 = (if rq_body64 msg = [] then None else atob (rq_body64 msg))
      in server_message (if rq_method msg = [] then js ''GET'' else rq_method msg)
           (if rq_url msg = [] then js ''/'' else rq_url msg) host (rq_headers msg) bodyU8)"

text \<open>\<open>_u8ToBase64\<close> builds the binary string in pieces, so as not to call with too many arguments.\<close>

function binary_pieces :: "byte list \<Rightarrow> byte list" where
  "binary_pieces u8 = (if u8 = [] then [] else take 0x8000 u8 @ binary_pieces (drop 0x8000 u8))"
  by pat_completeness auto
termination by (relation "measure length") auto

declare binary_pieces.simps [simp del]

definition u8ToBase64 :: "byte list \<Rightarrow> jstring" where
  "u8ToBase64 u8 = (if u8 = [] then [] else btoa (binary_pieces u8))"

datatype relay_reply =
  RelayError
| RelayOk nat jstring "(jstring \<times> jstring) list" "jstring option"

definition relay_answer :: "outgoing \<Rightarrow> relay_reply" where
  "relay_answer s =
     (let bodyOut = concat (og_chunks s)
      in RelayOk (og_status s) (og_message s) (og_headers s) (if bodyOut \<noteq> [] then Some (u8ToBase64 bodyOut) else None))"

text \<open>The relay waits for \<open>finish\<close>; a handler that throws is an error, one that never ends no reply.\<close>

definition relay_exchange :: "jstring \<Rightarrow> nat \<Rightarrow> (server_request \<Rightarrow> response_op list) \<Rightarrow> relay_request \<Rightarrow> relay_reply option" where
  "relay_exchange hostname port handler msg =
     (case response_run (handler (relay_message hostname port msg)) new_outgoing of
        Inl e \<Rightarrow> Some RelayError
      | Inr s \<Rightarrow> if og_finished s then Some (relay_answer s) else None)"

definition redirect_message :: "jstring \<Rightarrow> nat \<Rightarrow> jstring \<Rightarrow> jstring \<Rightarrow> server_request" where
  "redirect_message hostname port pathname search =
     server_message (js ''GET'') (pathname @ search) (local_host hostname port) [] None"

section \<open>The registry of servers\<close>

record fake_server =
  sv_port :: nat
  sv_listening :: bool
  sv_hostname :: jstring

definition new_server :: fake_server where
  "new_server = \<lparr>sv_port = 0, sv_listening = False, sv_hostname = js ''localhost''\<rparr>"

text \<open>Servers are numbered; the registry maps a port to the number of a server.\<close>

record server_world =
  sw_registry :: "(nat \<times> nat) list"
  sw_servers :: "(nat \<times> fake_server) list"

lemma ports_above:
  assumes "c \<in> fst ` set reg"
  shows "card {p \<in> fst ` set reg. Suc c \<le> p} < card {p \<in> fst ` set reg. c \<le> p}"
proof -
  have "c \<in> {p \<in> fst ` set reg. c \<le> p} - {p \<in> fst ` set reg. Suc c \<le> p}" using assms by simp
  then have "{p \<in> fst ` set reg. Suc c \<le> p} \<subset> {p \<in> fst ` set reg. c \<le> p}" by fastforce
  then show ?thesis by (intro psubset_card_mono) auto
qed

function free_port :: "(nat \<times> nat) list \<Rightarrow> nat \<Rightarrow> nat" where
  "free_port reg candidate = (if candidate \<in> fst ` set reg then free_port reg (candidate + 1) else candidate)"
  by pat_completeness auto
termination
  using ports_above by (relation "measure (\<lambda>(reg, c). card {p \<in> fst ` set reg. c \<le> p})") auto

declare free_port.simps [simp del]

definition server_of :: "server_world \<Rightarrow> nat \<Rightarrow> fake_server" where
  "server_of w i = (case map_of (sw_servers w) i of Some s \<Rightarrow> s | None \<Rightarrow> new_server)"

text \<open>A port of 0 and no port at all ask for one; an empty host is no host.\<close>

definition server_listen :: "nat \<Rightarrow> nat \<Rightarrow> jstring \<Rightarrow> server_world \<Rightarrow> server_world" where
  "server_listen i port host w =
     (let s = server_of w i;
          p = (if port \<noteq> 0 then port else free_port (sw_registry w) 19836);
          s1 = s\<lparr>sv_hostname := (if host \<noteq> [] then host else sv_hostname s), sv_port := p, sv_listening := True\<rparr>
      in w\<lparr>sw_registry := AList.update p i (sw_registry w), sw_servers := AList.update i s1 (sw_servers w)\<rparr>)"

definition server_close :: "nat \<Rightarrow> server_world \<Rightarrow> server_world" where
  "server_close i w =
     (let s = server_of w i
      in w\<lparr>sw_servers := AList.update i (s\<lparr>sv_listening := False\<rparr>) (sw_servers w),
           sw_registry := AList.delete (sv_port s) (sw_registry w)\<rparr>)"

definition server_address :: "nat \<Rightarrow> server_world \<Rightarrow> nat" where
  "server_address i w = sv_port (server_of w i)"

text \<open>A callback for a port goes to the server registered for it.\<close>

definition oauth_callback :: "nat \<Rightarrow> jstring \<Rightarrow> jstring \<Rightarrow> server_world \<Rightarrow> (nat \<times> server_request) option" where
  "oauth_callback port pathname search w =
     (case map_of (sw_registry w) port of
        None \<Rightarrow> None
      | Some i \<Rightarrow> Some (i, redirect_message (sv_hostname (server_of w i)) (sv_port (server_of w i)) pathname search))"

datatype server_op = Listen nat nat jstring | Close nat

definition server_step :: "server_op \<Rightarrow> server_world \<Rightarrow> server_world" where
  "server_step op w = (case op of Listen i port host \<Rightarrow> server_listen i port host w | Close i \<Rightarrow> server_close i w)"

end
