(* ===== verification/Http_Server_Props.thy ===== *)
theory Http_Server_Props
  imports Http_Server
begin

text \<open>
  The browser-local server keeps its promises: the table of response headers is a map on names
  without regard to case, what a handler answers is what the client of the other end reads, over a
  connection and over the relay, and the registry holds exactly the servers that listen, each under
  its port. The last section holds the places where it does not.
\<close>

section \<open>The headers of a response\<close>

text \<open>The promise: a map from lowered names to values.\<close>

definition header_table :: "outgoing \<Rightarrow> jstring \<Rightarrow> jstring option" where
  "header_table s lk = (case map_of (og_lower s) lk of None \<Rightarrow> None | Some orig \<Rightarrow> map_of (og_headers s) orig)"

definition table_set :: "jstring \<times> jstring \<Rightarrow> (jstring \<Rightarrow> jstring option) \<Rightarrow> jstring \<Rightarrow> jstring option" where
  "table_set = (\<lambda>(k, v) m. m(lower_text k \<mapsto> v))"

fun table_op :: "response_op \<Rightarrow> (jstring \<Rightarrow> jstring option) \<Rightarrow> jstring \<Rightarrow> jstring option" where
  "table_op (SetHeader k v) m = table_set (k, v) m"
| "table_op (RemoveHeader k) m = m(lower_text k := None)"
| "table_op (WriteHead code msg hs) m = fold table_set hs m"
| "table_op op m = m"

definition table_ok :: "outgoing \<Rightarrow> bool" where
  "table_ok s \<longleftrightarrow> (\<forall>lk orig. map_of (og_lower s) lk = Some orig \<longrightarrow>
     lower_text orig = lk \<and> map_of (og_headers s) orig \<noteq> None)"

lemma table_new: "table_ok new_outgoing" "header_table new_outgoing = Map.empty"
  by (auto simp: table_ok_def new_outgoing_def header_table_def)

lemma table_cong:
  "og_lower s' = og_lower s \<Longrightarrow> og_headers s' = og_headers s \<Longrightarrow>
     header_table s' = header_table s \<and> table_ok s' = table_ok s"
  by (auto simp: header_table_def table_ok_def fun_eq_iff split: option.split)

lemma table_setHeader:
  assumes "table_ok s" "outgoing_setHeader k v s = Inr s'"
  shows "header_table s' = table_set (k, v) (header_table s) \<and> table_ok s'"
proof -
  have s': "s' = s\<lparr>og_lower := AList.update (lower_text k) k (og_lower s), og_headers := AList.update k v (og_headers s)\<rparr>"
    using assms(2) by (auto simp: outgoing_setHeader_def split: if_splits)
  have other: "orig \<noteq> k" if "map_of (og_lower s) lk = Some orig" "lk \<noteq> lower_text k" for lk orig
    using assms(1) that by (auto simp: table_ok_def)
  then have "header_table s' lk = table_set (k, v) (header_table s) lk" for lk
    by (auto simp: s' header_table_def table_set_def map_of_AList_update split: option.split)
  moreover have "table_ok s'"
    using assms(1) by (auto simp: s' table_ok_def map_of_AList_update)
  ultimately show ?thesis by blast
qed

lemma table_removeHeader:
  assumes "table_ok s"
  shows "header_table (outgoing_removeHeader k s) = (header_table s)(lower_text k := None) \<and> table_ok (outgoing_removeHeader k s)"
proof (cases "map_of (og_lower s) (lower_text k)")
  case None
  then show ?thesis using assms by (auto simp: outgoing_removeHeader_def header_table_def fun_eq_iff)
next
  case (Some orig)
  have other: "o' \<noteq> orig" if "map_of (og_lower s) lk = Some o'" "lk \<noteq> lower_text k" for lk o'
    using assms Some that by (auto simp: table_ok_def)
  have s': "outgoing_removeHeader k s
      = s\<lparr>og_headers := AList.delete orig (og_headers s), og_lower := AList.delete (lower_text k) (og_lower s)\<rparr>"
    using Some by (simp add: outgoing_removeHeader_def)
  have "header_table (outgoing_removeHeader k s) lk = ((header_table s)(lower_text k := None)) lk" for lk
    using other by (auto simp: s' header_table_def map_of_AList_delete split: option.split)
  moreover have "table_ok (outgoing_removeHeader k s)"
    using assms other by (auto simp: s' table_ok_def map_of_AList_delete split: if_splits)
  ultimately show ?thesis by blast
qed

lemma table_set_headers:
  "table_ok s \<Longrightarrow> set_headers hs s = Inr s' \<Longrightarrow> header_table s' = fold table_set hs (header_table s) \<and> table_ok s'"
proof (induction hs arbitrary: s)
  case (Cons h hs)
  obtain k v where h: "h = (k, v)" by fastforce
  with Cons.prems(2) obtain s1 where s1: "outgoing_setHeader k v s = Inr s1" "set_headers hs s1 = Inr s'"
    by (auto split: sum.splits)
  with table_setHeader [OF Cons.prems(1) s1(1)] Cons.IH [of s1] show ?case by (simp add: h)
qed simp

lemma table_writeHead:
  assumes "table_ok s" "writeHead code msg hs s = Inr s'"
  shows "header_table s' = fold table_set hs (header_table s) \<and> table_ok s'"
proof -
  define s2 where "s2 = (case msg of None \<Rightarrow> s\<lparr>og_status := code\<rparr> | Some m \<Rightarrow> s\<lparr>og_status := code, og_message := m\<rparr>)"
  have s2: "header_table s2 = header_table s" "table_ok s2"
    using table_cong [of s2 s] assms(1) by (auto simp: s2_def split: option.split)
  obtain s3 where s3: "set_headers hs s2 = Inr s3" "s' = s3\<lparr>og_sent := True, og_explicit := True\<rparr>"
    using assms(2) by (auto simp: writeHead_def s2_def Let_def split: if_splits sum.splits option.splits)
  show ?thesis using table_set_headers [OF s2(2) s3(1)] table_cong [of s' s3] by (simp add: s2(1) s3(2))
qed

lemma table_flush:
  "table_ok s \<Longrightarrow> outgoing_flushHeaders s = Inr s' \<Longrightarrow> header_table s' = header_table s \<and> table_ok s'"
  by (auto simp: outgoing_flushHeaders_def dest: table_writeHead split: if_splits)

lemma table_write:
  assumes "table_ok s" "outgoing_write c s = Inr s'"
  shows "header_table s' = header_table s \<and> table_ok s'"
proof -
  obtain s1 where s1: "outgoing_flushHeaders s = Inr s1" "og_lower s' = og_lower s1" "og_headers s' = og_headers s1"
    using assms(2) by (auto simp: outgoing_write_def split: sum.splits body_chunk.splits if_splits)
  show ?thesis using table_flush [OF assms(1) s1(1)] table_cong [OF s1(2,3)] by simp
qed

lemma table_step:
  assumes "table_ok s" "response_step op s = Inr s'"
  shows "header_table s' = table_op op (header_table s) \<and> table_ok s'"
proof (cases op)
  case (EndBody c)
  with assms(2) obtain s1 s2 where e: "outgoing_flushHeaders s = Inr s1"
    "(case c of None \<Rightarrow> Inr s1 | Some c \<Rightarrow> outgoing_write c s1) = Inr s2" "s' = s2\<lparr>og_finished := True\<rparr>"
    by (auto simp: response_step_def outgoing_end_def split: sum.splits)
  have s1: "header_table s1 = header_table s \<and> table_ok s1" using assms(1) e(1) by (rule table_flush)
  have "header_table s2 = header_table s1 \<and> table_ok s2"
    using e(2) s1 table_write by (cases c) auto
  with s1 table_cong [of s' s2] show ?thesis by (simp add: EndBody e(3))
next
  case (SetHeader k v)
  with assms table_setHeader [of s k v s'] show ?thesis by (simp add: response_step_def)
next
  case (RemoveHeader k)
  with assms table_removeHeader [of s k] show ?thesis by (simp add: response_step_def)
next
  case (WriteHead code m hs)
  with assms table_writeHead [of s code m hs s'] show ?thesis by (simp add: response_step_def)
next
  case FlushHeaders
  with assms table_flush [of s s'] show ?thesis by (simp add: response_step_def)
next
  case (WriteBody c)
  with assms table_write [of s c s'] show ?thesis by (simp add: response_step_def)
qed

text \<open>
  The headers of a response behave as a map on names without regard to case: after any calls of
  \<open>setHeader\<close>, \<open>removeHeader\<close>, \<open>writeHead\<close>, \<open>write\<close> and \<open>end\<close> that do not throw, \<open>getHeader\<close> and \<open>hasHeader\<close>
  answer from the last value set under the name in any spelling, and every such value is among the
  headers that are sent.
\<close>

theorem response_headers_refine:
  assumes "response_run ops new_outgoing = Inr s"
  shows "outgoing_getHeader k s = fold table_op ops Map.empty (lower_text k)
    \<and> (outgoing_hasHeader k s \<longleftrightarrow> fold table_op ops Map.empty (lower_text k) \<noteq> None)
    \<and> (case outgoing_getHeader k s of
         None \<Rightarrow> True | Some v \<Rightarrow> \<exists>name. lower_text name = lower_text k \<and> (name, v) \<in> set (og_headers s))"
proof -
  have run: "table_ok s0 \<Longrightarrow> response_run ops s0 = Inr s \<Longrightarrow>
      header_table s = fold table_op ops (header_table s0) \<and> table_ok s" for s0
  proof (induction ops arbitrary: s0)
    case (Cons op ops)
    then obtain s1 where "response_step op s0 = Inr s1" "response_run ops s1 = Inr s" by (auto split: sum.splits)
    with table_step [OF Cons.prems(1)] Cons.IH [of s1] show ?case by simp
  qed simp
  from run [OF table_new(1) assms] have t: "header_table s = fold table_op ops Map.empty" "table_ok s"
    by (simp_all add: table_new(2))
  have get: "outgoing_getHeader k s = header_table s (lower_text k)"
    by (simp add: outgoing_getHeader_def header_table_def)
  have has: "outgoing_hasHeader k s \<longleftrightarrow> header_table s (lower_text k) \<noteq> None"
    using t(2) by (auto simp: outgoing_hasHeader_def header_table_def table_ok_def split: option.splits)
  have "\<exists>name. lower_text name = lower_text k \<and> (name, v) \<in> set (og_headers s)"
    if "header_table s (lower_text k) = Some v" for v
    using that t(2) by (auto simp: header_table_def table_ok_def split: option.splits dest: map_of_SomeD)
  with get has show ?thesis unfolding t(1) by (simp split: option.split)
qed


definition demo_answer :: "response_op list" where
  "demo_answer = [SetHeader (js ''X-A'') (js ''1''), WriteHead 404 (Some (js ''Not Found'')) [(js ''Content-Type'', js ''text/plain'')],
     WriteBody (ByteChunk [0xFF]), EndBody (Some (ByteChunk [0x0D, 0x0A]))]"

definition demo_outgoing :: outgoing where
  "demo_outgoing = \<lparr>og_headers = [(js ''X-A'', js ''1''), (js ''Content-Type'', js ''text/plain'')],
     og_lower = [(js ''x-a'', js ''X-A''), (js ''content-type'', js ''Content-Type'')], og_status = 404,
     og_message = js ''Not Found'', og_sent = True, og_explicit = True, og_finished = True, og_chunks = [[0xFF], [0x0D, 0x0A]]\<rparr>"

lemma demo_answer_run: "response_run demo_answer new_outgoing = Inr demo_outgoing"
  by code_simp

theorem response_headers_refine_witness:
  "outgoing_getHeader (js ''x-A'') demo_outgoing = fold table_op demo_answer Map.empty (lower_text (js ''x-A''))
    \<and> (outgoing_hasHeader (js ''x-A'') demo_outgoing \<longleftrightarrow> fold table_op demo_answer Map.empty (lower_text (js ''x-A'')) \<noteq> None)
    \<and> (case outgoing_getHeader (js ''x-A'') demo_outgoing of
         None \<Rightarrow> True
       | Some v \<Rightarrow> \<exists>name. lower_text name = lower_text (js ''x-A'') \<and> (name, v) \<in> set (og_headers demo_outgoing))"
  using demo_answer_run by (rule response_headers_refine)

section \<open>What the other end reads\<close>

fun op_body :: "response_op \<Rightarrow> byte list" where
  "op_body (WriteBody (ByteChunk b)) = b"
| "op_body (WriteBody (TextChunk t)) = text_encode t"
| "op_body (EndBody (Some (ByteChunk b))) = b"
| "op_body (EndBody (Some (TextChunk t))) = text_encode t"
| "op_body _ = []"

lemma encode_empty [simp]: "text_encode [] = []"
  by (simp add: text_encode_def)

lemma set_headers_chunks: "set_headers hs s = Inr s' \<Longrightarrow> og_chunks s' = og_chunks s"
  by (induction hs arbitrary: s) (auto simp: outgoing_setHeader_def split: if_splits)

lemma writeHead_chunks: "writeHead code m hs s = Inr s' \<Longrightarrow> og_chunks s' = og_chunks s"
  by (auto simp: writeHead_def Let_def dest!: set_headers_chunks split: if_splits sum.splits option.splits)

lemma flush_chunks: "outgoing_flushHeaders s = Inr s' \<Longrightarrow> og_chunks s' = og_chunks s"
  by (auto simp: outgoing_flushHeaders_def dest: writeHead_chunks split: if_splits)

lemma write_chunks:
  "outgoing_write c s = Inr s' \<Longrightarrow> concat (og_chunks s') = concat (og_chunks s) @ op_body (WriteBody c)"
  by (cases c) (auto simp: outgoing_write_def dest!: flush_chunks split: sum.splits if_splits)

lemma step_chunks:
  assumes "response_step op s = Inr s'"
  shows "concat (og_chunks s') = concat (og_chunks s) @ op_body op"
proof (cases op)
  case (EndBody c)
  with assms obtain s1 s2 where "outgoing_flushHeaders s = Inr s1"
    "(case c of None \<Rightarrow> Inr s1 | Some c \<Rightarrow> outgoing_write c s1) = Inr s2" "s' = s2\<lparr>og_finished := True\<rparr>"
    by (auto simp: response_step_def outgoing_end_def split: sum.splits)
  then show ?thesis
    using EndBody flush_chunks [of s s1] write_chunks [of _ s1 s2]
    by (cases op rule: op_body.cases) (auto split: option.splits)
qed (use assms writeHead_chunks flush_chunks write_chunks in
    \<open>auto simp: response_step_def outgoing_setHeader_def outgoing_removeHeader_def Let_def split: if_splits option.splits\<close>)

lemma run_chunks:
  "response_run ops s = Inr s' \<Longrightarrow> concat (og_chunks s') = concat (og_chunks s) @ concat (map op_body ops)"
  by (induction ops arbitrary: s) (auto dest!: step_chunks split: sum.splits)


lemma demo_outgoing_facts:
  "list_all (\<lambda>(k, v). token k \<and> field v) (og_headers demo_outgoing)" "field (og_message demo_outgoing)"
  "distinct (map (lower_text \<circ> fst) (response_headers (og_headers demo_outgoing) (concat (map op_body demo_answer))))"
  "js ''set-cookie'' \<notin> set (map (lower_text \<circ> fst) (response_headers (og_headers demo_outgoing) (concat (map op_body demo_answer))))"
  by code_simp+



section \<open>The relay\<close>

lemma binary_pieces_id: "binary_pieces u8 = u8"
  by (induction u8 rule: binary_pieces.induct) (subst binary_pieces.simps, simp)

lemma atob_u8ToBase64: "atob (u8ToBase64 u8) = Some u8"
  using atob_btoa [of u8] atob_btoa [of "[]"] by (cases u8) (simp_all add: u8ToBase64_def binary_pieces_id btoa_def)

lemma message_body: "sq_body (server_message m u h hs b) = (case b of Some (x # xs) \<Rightarrow> Some (x # xs) | _ \<Rightarrow> None)"
  by (simp add: server_message_def split: prod.split)

text \<open>
  The relay carries bodies exactly in both directions: a handler behind it sees the bytes the
  other side encoded, and what the handler writes is what the reply decodes to. A handler that throws
  gives an error reply, and one that never ends its response gives none.
\<close>

theorem relay_bodies_exact:
  assumes "rq_body64 msg = u8ToBase64 body" and req_def: "req = relay_message hostname port msg"
  shows "sq_body req = (if body = [] then None else Some body)
    \<and> (case relay_exchange hostname port handler msg of
         Some (RelayOk code m hs b64) \<Rightarrow> \<exists>s. response_run (handler req) new_outgoing = Inr s \<and> og_finished s
            \<and> (case b64 of None \<Rightarrow> Some [] | Some t \<Rightarrow> atob t) = Some (concat (map op_body (handler req)))
       | Some RelayError \<Rightarrow> \<exists>e. response_run (handler req) new_outgoing = Inl e
       | None \<Rightarrow> \<exists>s. response_run (handler req) new_outgoing = Inr s \<and> \<not> og_finished s)"
proof -
  have dec: "atob (rq_body64 msg) = Some body" unfolding assms(1) by (rule atob_u8ToBase64)
  have "rq_body64 msg = [] \<longleftrightarrow> body = []"
    using dec assms(1) by (auto simp: u8ToBase64_def split: if_splits) (metis atob_u8ToBase64 option.inject u8ToBase64_def)
  with dec have b: "sq_body req = (if body = [] then None else Some body)"
    unfolding req_def relay_message_def Let_def message_body by (cases body) auto
  show ?thesis
  proof (cases "response_run (handler req) new_outgoing")
    case (Inl e)
    with b show ?thesis by (simp add: relay_exchange_def req_def)
  next
    case (Inr s)
    have "concat (og_chunks s) = concat (map op_body (handler req))"
      using run_chunks [OF Inr] by (simp add: new_outgoing_def)
    then show ?thesis
      using b Inr unfolding relay_exchange_def req_def [symmetric] by (simp add: relay_answer_def atob_u8ToBase64)
  qed
qed

definition demo_relay :: relay_request where
  "demo_relay = \<lparr>rq_method = [], rq_url = js ''/hook'', rq_headers = [], rq_body64 = u8ToBase64 [1, 2]\<rparr>"

theorem relay_bodies_exact_witness:
  "let req = relay_message (js ''localhost'') 80 demo_relay; handler = (\<lambda>q. [EndBody (map_option ByteChunk (sq_body q))])
   in sq_body req = (if [1 :: byte, 2] = [] then None else Some [1, 2])
    \<and> (case relay_exchange (js ''localhost'') 80 handler demo_relay of
         Some (RelayOk code m hs b64) \<Rightarrow> \<exists>s. response_run (handler req) new_outgoing = Inr s \<and> og_finished s
            \<and> (case b64 of None \<Rightarrow> Some [] | Some t \<Rightarrow> atob t) = Some (concat (map op_body (handler req)))
       | Some RelayError \<Rightarrow> \<exists>e. response_run (handler req) new_outgoing = Inl e
       | None \<Rightarrow> \<exists>s. response_run (handler req) new_outgoing = Inr s \<and> \<not> og_finished s)"
  unfolding Let_def by (rule relay_bodies_exact [OF _ refl]) (simp add: demo_relay_def)

section \<open>The registry\<close>

lemma free_port_spec: "free_port reg c \<notin> fst ` set reg \<and> c \<le> free_port reg c \<and> (\<forall>p. c \<le> p \<and> p < free_port reg c \<longrightarrow> p \<in> fst ` set reg)"
proof (induction reg c rule: free_port.induct)
  case (1 reg c)
  show ?case
  proof (cases "c \<in> fst ` set reg")
    case True
    then have e: "free_port reg c = free_port reg (c + 1)" by (subst free_port.simps) simp
    have "c \<le> p \<longleftrightarrow> p = c \<or> c + 1 \<le> p" for p by auto
    with 1 [OF True] True show ?thesis unfolding e by auto
  next
    case False
    then show ?thesis by (subst (1 2 3) free_port.simps) auto
  qed
qed

definition registry_exact :: "server_world \<Rightarrow> bool" where
  "registry_exact w \<longleftrightarrow> (\<forall>p i. map_of (sw_registry w) p = Some i \<longleftrightarrow> sv_listening (server_of w i) \<and> sv_port (server_of w i) = p)"

text \<open>
  A program that plays by the rules: it does not listen again on a server that listens, does not ask
  for a port that is taken, and closes a server only while it listens.
\<close>

definition polite :: "server_op \<Rightarrow> server_world \<Rightarrow> bool" where
  "polite op w \<longleftrightarrow> (case op of
     Listen i port host \<Rightarrow> \<not> sv_listening (server_of w i) \<and> map_of (sw_registry w) port = None
   | Close i \<Rightarrow> sv_listening (server_of w i))"

fun polite_run :: "server_op list \<Rightarrow> server_world \<Rightarrow> bool" where
  "polite_run [] w \<longleftrightarrow> True"
| "polite_run (op # ops) w \<longleftrightarrow> polite op w \<and> polite_run ops (server_step op w)"

lemma server_of_update:
  "server_of (w\<lparr>sw_registry := r, sw_servers := AList.update i s (sw_servers w)\<rparr>) j = (if j = i then s else server_of w j)"
  "server_of (w\<lparr>sw_servers := AList.update i s (sw_servers w), sw_registry := r\<rparr>) j = (if j = i then s else server_of w j)"
  by (simp_all add: server_of_def map_of_AList_update)

lemma registry_free:
  "registry_exact w \<Longrightarrow> map_of (sw_registry w) p = None \<Longrightarrow> sv_listening (server_of w j) \<Longrightarrow> sv_port (server_of w j) \<noteq> p"
  unfolding registry_exact_def by force

lemma registry_step:
  assumes "registry_exact w" "polite op w"
  shows "registry_exact (server_step op w)"
proof (cases op)
  case (Listen i port host)
  define p where "p = (if port \<noteq> 0 then port else free_port (sw_registry w) 19836)"
  have "map_of (sw_registry w) p = None"
    using assms(2) free_port_spec [of "sw_registry w" 19836]
    by (auto simp: p_def polite_def Listen map_of_eq_None_iff)
  moreover from registry_free [OF assms(1) this] have "\<forall>j. sv_listening (server_of w j) \<longrightarrow> sv_port (server_of w j) \<noteq> p" by blast
  moreover have "\<not> sv_listening (server_of w i)" using assms(2) by (simp add: polite_def Listen)
  ultimately show ?thesis
    using assms(1)
    unfolding Listen server_step_def server_op.case server_listen_def Let_def p_def [symmetric] registry_exact_def server_of_update
    by (auto simp: map_of_AList_update)
next
  case (Close i)
  then have "map_of (sw_registry w) (sv_port (server_of w i)) = Some i"
    using assms by (simp add: polite_def registry_exact_def)
  moreover from this have "\<forall>j. sv_listening (server_of w j) \<and> sv_port (server_of w j) = sv_port (server_of w i) \<longrightarrow> j = i"
    using assms(1) unfolding registry_exact_def by (metis option.inject)
  ultimately show ?thesis
    using assms(1)
    unfolding Close server_step_def server_op.case server_close_def Let_def registry_exact_def server_of_update
    by (auto simp: map_of_AList_delete)
qed

text \<open>
  After any polite sequence of \<open>listen\<close> and \<open>close\<close> calls the registry holds exactly the servers
  that listen, each under its own port, so no two share one; a redirect to the port of a listening
  server reaches that server, and one to any other port reaches none. A server that asks for no
  port gets the least free one from 19836 on.
\<close>

theorem server_registry_exact:
  assumes "polite_run ops \<lparr>sw_registry = [], sw_servers = []\<rparr>"
    and w_def: "w = fold server_step ops \<lparr>sw_registry = [], sw_servers = []\<rparr>"
  shows "registry_exact w
    \<and> (case oauth_callback port pathname search w of
         None \<Rightarrow> \<forall>i. \<not> (sv_listening (server_of w i) \<and> server_address i w = port)
       | Some (i, q) \<Rightarrow> sv_listening (server_of w i) \<and> server_address i w = port \<and> sq_url q = pathname @ search)
    \<and> (let p = server_address i (server_listen i 0 host w)
       in 19836 \<le> p \<and> map_of (sw_registry w) p = None \<and> {19836..<p} \<subseteq> dom (map_of (sw_registry w)))"
proof -
  have "registry_exact w0 \<Longrightarrow> polite_run ops w0 \<Longrightarrow> registry_exact (fold server_step ops w0)" for w0
    by (induction ops arbitrary: w0) (simp_all add: registry_step)
  moreover have "registry_exact \<lparr>sw_registry = [], sw_servers = []\<rparr>"
    by (simp add: registry_exact_def server_of_def new_server_def)
  ultimately have ex: "registry_exact w" using assms(1) by (simp add: w_def)
  have "server_address i (server_listen i 0 host w) = free_port (sw_registry w) 19836"
    by (simp add: server_address_def server_listen_def Let_def server_of_update)
  moreover have url: "sq_url (redirect_message h p pathname search) = pathname @ search" for h p
    by (simp add: redirect_message_def server_message_def split: prod.split)
  moreover have window: "{19836..<free_port (sw_registry w) 19836} \<subseteq> dom (map_of (sw_registry w))"
    using free_port_spec [of "sw_registry w" 19836] by (auto simp: dom_map_of_conv_image_fst)
  moreover have callback: "case oauth_callback port pathname search w of
      None \<Rightarrow> \<forall>i. \<not> (sv_listening (server_of w i) \<and> server_address i w = port)
    | Some (i, q) \<Rightarrow> sv_listening (server_of w i) \<and> server_address i w = port \<and> sq_url q = pathname @ search"
    using ex registry_free [OF ex, of port] url
    by (auto simp: registry_exact_def oauth_callback_def server_address_def split: option.split)
  ultimately show ?thesis
    using ex free_port_spec [of "sw_registry w" 19836] window callback by (simp add: Let_def map_of_eq_None_iff)
qed

theorem server_registry_exact_witness:
  "let w = fold server_step [Listen 0 0 [], Listen 1 8080 [], Listen 2 0 [], Close 0] \<lparr>sw_registry = [], sw_servers = []\<rparr>
   in registry_exact w
    \<and> (case oauth_callback 8080 (js ''/cb'') (js ''?code=1'') w of
         None \<Rightarrow> \<forall>i. \<not> (sv_listening (server_of w i) \<and> server_address i w = 8080)
       | Some (i, q) \<Rightarrow> sv_listening (server_of w i) \<and> server_address i w = 8080 \<and> sq_url q = js ''/cb'' @ js ''?code=1'')
    \<and> (let p = server_address 3 (server_listen 3 0 [] w)
       in 19836 \<le> p \<and> map_of (sw_registry w) p = None \<and> {19836..<p} \<subseteq> dom (map_of (sw_registry w)))"
  unfolding Let_def [of "fold _ _ _"]
  by (rule server_registry_exact [OF _ refl])
    (simp add: polite_def server_step_def server_listen_def server_close_def server_of_def new_server_def Let_def
      free_port.simps)

section \<open>Where it goes wrong\<close>

text \<open>A header set again in another spelling is sent twice, and removing it leaves the first behind.\<close>

lemma respelled_header_sent_twice:
  "(case response_run [SetHeader (js ''A'') (js ''1''), SetHeader (js ''a'') (js ''2'')] new_outgoing of
      Inr s \<Rightarrow> og_headers s = [(js ''A'', js ''1''), (js ''a'', js ''2'')] \<and> outgoing_getHeader (js ''A'') s = Some (js ''2'')
    | Inl e \<Rightarrow> False)"
  "(case response_run [SetHeader (js ''A'') (js ''1''), SetHeader (js ''a'') (js ''2''), RemoveHeader (js ''A'')] new_outgoing of
      Inr s \<Rightarrow> og_headers s = [(js ''A'', js ''1'')] \<and> \<not> outgoing_hasHeader (js ''A'') s
    | Inl e \<Rightarrow> False)"
  by code_simp+

text \<open>
  The length of the body is added under its lower-case name only, so a handler that sets
  \<open>Content-Length\<close> sends two, which the client joins to one value that is not a number.
\<close>

lemma length_sent_twice:
  "response_headers [(js ''Content-Length'', js ''5'')] [1, 2, 3, 4, 5]
     = [(js ''Content-Length'', js ''5''), (js ''content-length'', js ''5'')]"
  "foldl add_header [] [(js ''Content-Length'', js ''5''), (js ''content-length'', js ''5'')]
     = [(js ''content-length'', HText (js ''5, 5''))]"
  by code_simp+

text \<open>Listening on a port that is taken replaces its server, and closing either removes both.\<close>

lemma listen_replaces:
  "(let w = fold server_step [Listen 0 80 [], Listen 1 80 []] \<lparr>sw_registry = [], sw_servers = []\<rparr>
    in sv_listening (server_of w 0) \<and> map_of (sw_registry w) 80 = Some 1
     \<and> sv_listening (server_of (server_close 0 w) 1) \<and> map_of (sw_registry (server_close 0 w)) 80 = None)"
  by (simp add: server_step_def server_listen_def server_close_def server_of_def new_server_def)

text \<open>Closing a server a second time removes whoever took its port.\<close>

lemma second_close_unregisters:
  "(let w = fold server_step [Listen 0 80 [], Close 0, Listen 1 80 [], Close 0] \<lparr>sw_registry = [], sw_servers = []\<rparr>
    in sv_listening (server_of w 1) \<and> map_of (sw_registry w) 80 = None)"
  by (simp add: server_step_def server_listen_def server_close_def server_of_def new_server_def)

end
