(* ===== verification/Napi_Bridge.thy ===== *)
theory Napi_Bridge
  imports Node_Buffer
begin

text \<open>
  The bridge between the compiled runtime and the engine (\<open>NapiBridge\<close> of \<open>napi-bridge/index.js\<close>):
  the table of handles with its free list, the scopes, references, wraps, deferreds, callback
  records, the pending exception and the last error, and the reads and writes of wasm memory that
  the N-API functions use.

  A JavaScript value is its primitive content or the identity of an object; numbers are integers.
  An error is an object with its code and message. A function gives \<^term>\<open>None\<close> when it throws into
  the runtime, which only an invalid handle does. Native callbacks and the allocator are arguments.
\<close>

unbundle bit_operations_syntax

section \<open>State\<close>

datatype error_kind = PlainError | TypeErr' | RangeErr'

datatype js_value =
  Undef | Nil | Global | JBool bool | JNum int | JStr jstring | JSym nat | JFun nat | JObj nat
| JErr nat error_kind "jstring option" jstring

abbreviation (input) NAPI_OK :: nat where "NAPI_OK \<equiv> 0"
abbreviation (input) NAPI_INVALID_ARG :: nat where "NAPI_INVALID_ARG \<equiv> 1"
abbreviation (input) NAPI_OBJECT_EXPECTED :: nat where "NAPI_OBJECT_EXPECTED \<equiv> 2"
abbreviation (input) NAPI_FUNCTION_EXPECTED :: nat where "NAPI_FUNCTION_EXPECTED \<equiv> 5"
abbreviation (input) NAPI_GENERIC_FAILURE :: nat where "NAPI_GENERIC_FAILURE \<equiv> 9"
abbreviation (input) NAPI_PENDING_EXCEPTION :: nat where "NAPI_PENDING_EXCEPTION \<equiv> 10"

record ref_data =
  rf_count :: nat
  rf_weak :: bool

record wrap_data =
  wd_ptr :: "32 word"
  wd_finalizeCb :: "32 word"
  wd_hint :: "32 word"
  wd_refCount :: nat
  wd_finalized :: bool

record callback_info =
  cb_this :: nat
  cb_args :: "nat list"
  cb_data :: "32 word"

datatype settlement = Resolved js_value | Rejected js_value

text \<open>
  The free list has its top first, the scopes the innermost first; the handles of a scope are in
  the order of their creation. A wrap is shared between the table by handle and the one by object,
  so both hold its number.
\<close>

record js_bridge =
  nb_handles :: "js_value list"
  nb_free :: "nat list"
  nb_scopes :: "nat list list"
  nb_refs :: "(nat \<times> ref_data) list"
  nb_wrapRegistry :: "(nat \<times> nat) list"
  nb_wrapByObject :: "(js_value \<times> nat) list"
  nb_wraps :: "(nat \<times> wrap_data) list"
  nb_nextWrapId :: nat
  nb_deferreds :: "(nat \<times> nat) list"
  nb_nextDeferredId :: nat
  nb_settled :: "(nat \<times> settlement) list"
  nb_callbackInfos :: "(nat \<times> callback_info) list"
  nb_nextCallbackInfo :: nat
  nb_pending :: "nat option"
  nb_errorCode :: nat
  nb_errorMessage :: jstring
  nb_memory :: "byte list option"
  nb_nextObject :: nat
  nb_finalizeCalls :: "(32 word \<times> 32 word \<times> 32 word) list"
  nb_typeTags :: "(js_value \<times> byte list) list"
  nb_nextEnvId :: nat
  nb_nextEnvScopeId :: nat
  nb_activeEnv :: nat
  nb_envByScope :: "(nat \<times> nat) list"
  nb_edgeEnvironment :: "(nat \<times> nat) list"

definition new_bridge :: "byte list option \<Rightarrow> js_bridge" where
  "new_bridge mem = \<lparr>nb_handles = [Nil, Undef, Nil, Global], nb_free = [], nb_scopes = [[]], nb_refs = [],
     nb_wrapRegistry = [], nb_wrapByObject = [], nb_wraps = [], nb_nextWrapId = 1,
     nb_deferreds = [], nb_nextDeferredId = 0x4000, nb_settled = [],
     nb_callbackInfos = [], nb_nextCallbackInfo = 0x3000, nb_pending = None, nb_errorCode = NAPI_OK,
     nb_errorMessage = [], nb_memory = mem, nb_nextObject = 0, nb_finalizeCalls = [],
     nb_typeTags = [], nb_nextEnvId = 0x1000, nb_nextEnvScopeId = 0x2000, nb_activeEnv = 0, nb_envByScope = [],
     nb_edgeEnvironment = []\<rparr>"

type_synonym napi_call = "js_bridge \<Rightarrow> (nat \<times> js_bridge) option"

section \<open>Handles and scopes\<close>

definition track :: "nat \<Rightarrow> js_bridge \<Rightarrow> js_bridge" where
  "track h b = b\<lparr>nb_scopes := (case nb_scopes b of [] \<Rightarrow> [] | s # ss \<Rightarrow> (s @ [h]) # ss)\<rparr>"

definition createHandle :: "js_value \<Rightarrow> js_bridge \<Rightarrow> nat \<times> js_bridge" where
  "createHandle v b =
     (case v of
        Undef \<Rightarrow> (1, b) | Nil \<Rightarrow> (2, b) | Global \<Rightarrow> (3, b)
      | _ \<Rightarrow> (case nb_free b of
            h # hs \<Rightarrow> (h, track h (b\<lparr>nb_free := hs, nb_handles := (nb_handles b)[h := v]\<rparr>))
          | [] \<Rightarrow> (length (nb_handles b),
              track (length (nb_handles b)) (b\<lparr>nb_handles := nb_handles b @ [v]\<rparr>))))"

definition getHandle :: "nat \<Rightarrow> js_bridge \<Rightarrow> js_value option" where
  "getHandle h b = (if h < length (nb_handles b) then Some (nb_handles b ! h) else None)"

definition freeHandle :: "nat \<Rightarrow> js_bridge \<Rightarrow> js_bridge" where
  "freeHandle h b =
     (if h \<le> 3 \<or> h \<in> fst ` set (nb_refs b) then b
      else b\<lparr>nb_handles := (nb_handles b)[h := Undef], nb_free := h # nb_free b\<rparr>)"

definition openHandleScope :: "js_bridge \<Rightarrow> js_bridge" where
  "openHandleScope b = b\<lparr>nb_scopes := [] # nb_scopes b\<rparr>"

definition closeHandleScope :: "js_bridge \<Rightarrow> nat \<times> js_bridge" where
  "closeHandleScope b =
     (case nb_scopes b of
        s # s2 # ss \<Rightarrow>
          (NAPI_OK, foldl (\<lambda>b h. if h \<notin> fst ` set (nb_refs b) then freeHandle h b else b) (b\<lparr>nb_scopes := s2 # ss\<rparr>) s)
      | _ \<Rightarrow> (NAPI_GENERIC_FAILURE, b))"

definition getActiveHandleCount :: "js_bridge \<Rightarrow> nat" where
  "getActiveHandleCount b = length (filter (\<lambda>v. v \<noteq> Undef) (drop 4 (nb_handles b)))"

section \<open>Memory\<close>

definition isMemoryRangeValid :: "nat \<Rightarrow> nat \<Rightarrow> js_bridge \<Rightarrow> bool" where
  "isMemoryRangeValid ptr len b =
     (case nb_memory b of None \<Rightarrow> False | Some mem \<Rightarrow> ptr \<le> length mem \<and> ptr + len \<le> length mem)"

definition poke :: "nat \<Rightarrow> byte list \<Rightarrow> js_bridge \<Rightarrow> js_bridge" where
  "poke ptr bs b =
     (case nb_memory b of
        None \<Rightarrow> b | Some mem \<Rightarrow> b\<lparr>nb_memory := Some (take ptr mem @ bs @ drop (ptr + length bs) mem)\<rparr>)"

definition peek :: "nat \<Rightarrow> nat \<Rightarrow> js_bridge \<Rightarrow> byte list" where
  "peek ptr len b = (case nb_memory b of None \<Rightarrow> [] | Some mem \<Rightarrow> take len (drop ptr mem))"

text \<open>A length is an integer: a negative one, such as -1, reads nothing.\<close>

definition readString :: "nat \<Rightarrow> int \<Rightarrow> js_bridge \<Rightarrow> jstring" where
  "readString ptr len b =
     (if nb_memory b = None \<or> ptr = 0 \<or> len \<le> 0 \<or> \<not> isMemoryRangeValid ptr (nat len) b then []
      else text_decode (peek ptr (nat len) b))"

definition CSTRING_MAX :: nat where
  "CSTRING_MAX = 64 * 1024"

definition readCString :: "nat \<Rightarrow> js_bridge \<Rightarrow> jstring" where
  "readCString ptr b =
     (case nb_memory b of
        None \<Rightarrow> []
      | Some mem \<Rightarrow>
          if ptr = 0 \<or> ptr \<ge> length mem then []
          else readString ptr (int (length (takeWhile (\<lambda>x. x \<noteq> 0) (take CSTRING_MAX (drop ptr mem))))) b)"

definition writeString :: "nat \<Rightarrow> jstring \<Rightarrow> nat \<Rightarrow> js_bridge \<Rightarrow> nat \<times> js_bridge" where
  "writeString ptr str maxLen b =
     (case nb_memory b of
        None \<Rightarrow> (0, b)
      | Some mem \<Rightarrow>
          if ptr = 0 \<or> maxLen = 0 \<or> \<not> isMemoryRangeValid ptr 1 b then (0, b)
          else let bytes = text_encode str; availableBytes = length mem - ptr;
                   writeLen = min (length bytes) (min (maxLen - 1) (availableBytes - 1))
               in (writeLen, poke ptr (take writeLen bytes @ [0]) b))"

text \<open>\<open>setInt32(ptr, value, true)\<close>\<close>

definition le32 :: "32 word \<Rightarrow> byte list" where
  "le32 w = map (\<lambda>i. ucast (drop_bit (8 * i) w)) [0, 1, 2, 3]"

definition writeI32 :: "nat \<Rightarrow> int \<Rightarrow> js_bridge \<Rightarrow> js_bridge" where
  "writeI32 ptr value b =
     (if ptr = 0 \<or> \<not> isMemoryRangeValid ptr 4 b then b else poke ptr (le32 (word_of_int value)) b)"

definition writePointer :: "nat \<Rightarrow> nat \<Rightarrow> js_bridge \<Rightarrow> js_bridge" where
  "writePointer ptr value b = writeI32 ptr (int value) b"

definition readU32 :: "nat \<Rightarrow> js_bridge \<Rightarrow> 32 word" where
  "readU32 ptr b =
     (case peek ptr 4 b of
        [a, c, d, e] \<Rightarrow> ucast a OR push_bit 8 (ucast c) OR push_bit 16 (ucast d) OR push_bit 24 (ucast e)
      | _ \<Rightarrow> 0)"

section \<open>Errors\<close>

definition setLastError :: "nat \<Rightarrow> jstring \<Rightarrow> js_bridge \<Rightarrow> js_bridge" where
  "setLastError status message b = b\<lparr>nb_errorCode := status, nb_errorMessage := message\<rparr>"

abbreviation ok :: "js_bridge \<Rightarrow> (nat \<times> js_bridge) option" where
  "ok b \<equiv> Some (NAPI_OK, setLastError NAPI_OK [] b)"

abbreviation fail :: "nat \<Rightarrow> string \<Rightarrow> js_bridge \<Rightarrow> (nat \<times> js_bridge) option" where
  "fail status message b \<equiv> Some (status, setLastError status (js message) b)"

text \<open>\<open>render\<close> is \<open>String(v)\<close> of a value that is not an error.\<close>

definition setPendingException :: "(js_value \<Rightarrow> jstring) \<Rightarrow> js_value \<Rightarrow> js_bridge \<Rightarrow> js_bridge" where
  "setPendingException render v b =
     (let (h, b1) = createHandle v b
      in setLastError NAPI_PENDING_EXCEPTION (case v of JErr i k c m \<Rightarrow> m | _ \<Rightarrow> render v) (b1\<lparr>nb_pending := Some h\<rparr>))"

definition clearPendingException :: "js_bridge \<Rightarrow> js_bridge" where
  "clearPendingException b = setLastError NAPI_OK [] (b\<lparr>nb_pending := None\<rparr>)"

definition napi_throw :: "(js_value \<Rightarrow> jstring) \<Rightarrow> nat \<Rightarrow> napi_call" where
  "napi_throw render errorHandle b =
     (case getHandle errorHandle b of None \<Rightarrow> None | Some v \<Rightarrow> Some (NAPI_OK, setPendingException render v b))"

text \<open>\<open>napi_throw_error\<close> and its two relatives differ in the class and the default message.\<close>

definition napi_throw_kind :: "(js_value \<Rightarrow> jstring) \<Rightarrow> error_kind \<Rightarrow> string \<Rightarrow> nat \<Rightarrow> nat \<Rightarrow> napi_call" where
  "napi_throw_kind render kind dflt codePtr msgPtr b =
     (let msg = readCString msgPtr b;
          code = (if codePtr \<noteq> 0 then readCString codePtr b else []);
          v = JErr (nb_nextObject b) kind (if code \<noteq> [] then Some code else None) (if msg \<noteq> [] then msg else js dflt)
      in Some (NAPI_OK, setPendingException render v (b\<lparr>nb_nextObject := Suc (nb_nextObject b)\<rparr>)))"

definition napi_throw_error :: "(js_value \<Rightarrow> jstring) \<Rightarrow> nat \<Rightarrow> nat \<Rightarrow> napi_call" where
  "napi_throw_error render = napi_throw_kind render PlainError ''N-API error''"

definition napi_throw_type_error :: "(js_value \<Rightarrow> jstring) \<Rightarrow> nat \<Rightarrow> nat \<Rightarrow> napi_call" where
  "napi_throw_type_error render = napi_throw_kind render TypeErr' ''N-API type error''"

definition napi_throw_range_error :: "(js_value \<Rightarrow> jstring) \<Rightarrow> nat \<Rightarrow> nat \<Rightarrow> napi_call" where
  "napi_throw_range_error render = napi_throw_kind render RangeErr' ''N-API range error''"

definition napi_is_exception_pending :: "nat \<Rightarrow> napi_call" where
  "napi_is_exception_pending resultPtr b = Some (NAPI_OK, writeI32 resultPtr (if nb_pending b = None then 0 else 1) b)"

definition napi_get_and_clear_last_exception :: "nat \<Rightarrow> napi_call" where
  "napi_get_and_clear_last_exception resultPtr b =
     (case nb_pending b of
        None \<Rightarrow> Some (NAPI_OK, writeI32 resultPtr 0 b)
      | Some h \<Rightarrow> Some (NAPI_OK, clearPendingException (writeI32 resultPtr (int h) b)))"

text \<open>The last error is kept at a fixed place in memory, its message 32 bytes further.\<close>

definition napi_get_last_error_info :: "nat \<Rightarrow> napi_call" where
  "napi_get_last_error_info resultPtr b =
     (let infoPtr = (if nb_memory b = None then 0 else 1024); msgPtr = (if nb_memory b = None then 0 else 1024 + 32);
          b1 = snd (writeString msgPtr (nb_errorMessage b) 256 b)
      in Some (NAPI_OK, writePointer resultPtr infoPtr (writeI32 (infoPtr + 12) (int (nb_errorCode b))
           (writeI32 (infoPtr + 8) 0 (writePointer (infoPtr + 4) 0 (writePointer infoPtr msgPtr b1))))))"

section \<open>Values\<close>

definition give :: "js_value \<Rightarrow> nat \<Rightarrow> js_bridge \<Rightarrow> js_bridge" where
  "give v resultPtr b = (let (h, b1) = createHandle v b in writeI32 resultPtr (int h) b1)"

definition new_object :: "(nat \<Rightarrow> js_value) \<Rightarrow> nat \<Rightarrow> js_bridge \<Rightarrow> js_bridge" where
  "new_object mk resultPtr b = give (mk (nb_nextObject b)) resultPtr (b\<lparr>nb_nextObject := Suc (nb_nextObject b)\<rparr>)"

definition napi_create_int32 :: "int \<Rightarrow> nat \<Rightarrow> napi_call" where
  "napi_create_int32 value resultPtr b = Some (NAPI_OK, give (JNum value) resultPtr b)"

definition napi_create_uint32 :: "int \<Rightarrow> nat \<Rightarrow> napi_call" where
  "napi_create_uint32 value resultPtr b = Some (NAPI_OK, give (JNum (value mod 2 ^ 32)) resultPtr b)"

definition napi_create_string_utf8 :: "nat \<Rightarrow> int \<Rightarrow> nat \<Rightarrow> napi_call" where
  "napi_create_string_utf8 strPtr len resultPtr b =
     Some (NAPI_OK, give (JStr (if len = -1 then readCString strPtr b else readString strPtr len b)) resultPtr b)"

definition napi_create_string_latin1 :: "nat \<Rightarrow> int \<Rightarrow> nat \<Rightarrow> napi_call" where
  "napi_create_string_latin1 strPtr len resultPtr b =
     Some (NAPI_OK, give (JStr (if len = -1 then readCString strPtr b else readString strPtr len b)) resultPtr b)"

text \<open>The loop of the UTF-16 reader; reading past the memory throws.\<close>

fun read_units :: "nat option \<Rightarrow> byte list \<Rightarrow> jstring option" where
  "read_units (Some 0) mem = Some []"
| "read_units n (lo # hi # mem) =
     (let u = ucast lo OR push_bit 8 (ucast hi) :: unit16
      in if n = None \<and> u = 0 then Some [] else map_option ((#) u) (read_units (map_option (\<lambda>k. k - 1) n) mem))"
| "read_units n mem = None"

definition napi_create_string_utf16 :: "nat \<Rightarrow> int \<Rightarrow> nat \<Rightarrow> napi_call" where
  "napi_create_string_utf16 strPtr len resultPtr b =
     (case nb_memory b of
        None \<Rightarrow> fail NAPI_GENERIC_FAILURE ''Wasm memory not initialized'' b
      | Some mem \<Rightarrow>
          (case read_units (if len = -1 then None else Some (nat (len mod 2 ^ 32))) (drop strPtr mem) of
             None \<Rightarrow> None
           | Some s \<Rightarrow> Some (NAPI_OK, give (JStr s) resultPtr b)))"

definition napi_create_object :: "nat \<Rightarrow> napi_call" where
  "napi_create_object resultPtr b = Some (NAPI_OK, new_object JObj resultPtr b)"

text \<open>\<open>value | 0\<close>, \<open>Number(value) >>> 0\<close> and the truth of a value.\<close>

definition number_of :: "js_value \<Rightarrow> int" where
  "number_of v = (case v of JNum n \<Rightarrow> n | JBool c \<Rightarrow> (if c then 1 else 0) | _ \<Rightarrow> 0)"

definition value_truthy :: "js_value \<Rightarrow> bool" where
  "value_truthy v = (case v of Undef \<Rightarrow> False | Nil \<Rightarrow> False | JBool c \<Rightarrow> c | JNum n \<Rightarrow> n \<noteq> 0 | JStr s \<Rightarrow> s \<noteq> [] | _ \<Rightarrow> True)"

definition napi_get_value_int32 :: "nat \<Rightarrow> nat \<Rightarrow> napi_call" where
  "napi_get_value_int32 h resultPtr b =
     (case getHandle h b of
        None \<Rightarrow> None
      | Some v \<Rightarrow> Some (NAPI_OK, writeI32 resultPtr (sint (word_of_int (number_of v) :: 32 word)) b))"

definition napi_get_value_uint32 :: "nat \<Rightarrow> nat \<Rightarrow> napi_call" where
  "napi_get_value_uint32 h resultPtr b =
     (case getHandle h b of None \<Rightarrow> None | Some v \<Rightarrow> Some (NAPI_OK, writeI32 resultPtr (number_of v mod 2 ^ 32) b))"

definition napi_get_value_bool :: "nat \<Rightarrow> nat \<Rightarrow> napi_call" where
  "napi_get_value_bool h resultPtr b =
     (case getHandle h b of None \<Rightarrow> None | Some v \<Rightarrow> Some (NAPI_OK, writeI32 resultPtr (if value_truthy v then 1 else 0) b))"

definition napi_strict_equals :: "nat \<Rightarrow> nat \<Rightarrow> nat \<Rightarrow> napi_call" where
  "napi_strict_equals lhs rhs resultPtr b =
     (case getHandle lhs b of
        None \<Rightarrow> None
      | Some l \<Rightarrow> (case getHandle rhs b of
            None \<Rightarrow> None | Some r \<Rightarrow> Some (NAPI_OK, writeI32 resultPtr (if l = r then 1 else 0) b)))"

definition napi_typeof :: "nat \<Rightarrow> nat \<Rightarrow> napi_call" where
  "napi_typeof h resultPtr b =
     (case getHandle h b of
        None \<Rightarrow> None
      | Some v \<Rightarrow> Some (NAPI_OK, writeI32 resultPtr
          (case v of Undef \<Rightarrow> 0 | Nil \<Rightarrow> 1 | JBool c \<Rightarrow> 2 | JNum n \<Rightarrow> 3 | JStr s \<Rightarrow> 4 | JSym i \<Rightarrow> 5
             | JFun i \<Rightarrow> 7 | _ \<Rightarrow> 6) b))"

definition napi_get_boolean :: "bool \<Rightarrow> nat \<Rightarrow> napi_call" where
  "napi_get_boolean value resultPtr b = Some (NAPI_OK, give (JBool value) resultPtr b)"

text \<open>\<open>render\<close> is \<open>String(v)\<close> again.\<close>

definition napi_get_value_string_utf8 :: "(js_value \<Rightarrow> jstring) \<Rightarrow> nat \<Rightarrow> nat \<Rightarrow> nat \<Rightarrow> nat \<Rightarrow> napi_call" where
  "napi_get_value_string_utf8 render h bufPtr bufSize resultPtr b =
     (case getHandle h b of
        None \<Rightarrow> None
      | Some v \<Rightarrow>
          let str = (case v of JStr s \<Rightarrow> s | _ \<Rightarrow> render v) in
          if bufPtr \<noteq> 0 \<and> bufSize > 0
          then (let (n, b1) = writeString bufPtr str bufSize b
                in Some (NAPI_OK, if resultPtr \<noteq> 0 then writeI32 resultPtr (int n) b1 else b1))
          else Some (NAPI_OK, if resultPtr \<noteq> 0 then writeI32 resultPtr (int (length (text_encode str))) b else b))"

text \<open>\<open>Array.from\<close> walks code points, and \<open>charCodeAt(0)\<close> is the first unit of each.\<close>

definition latin1_of :: "jstring \<Rightarrow> jstring" where
  "latin1_of s = map (\<lambda>p. (hd (utf16 p)) AND 0xFF) (code_points s)"

definition napi_get_value_string_latin1 :: "(js_value \<Rightarrow> jstring) \<Rightarrow> nat \<Rightarrow> nat \<Rightarrow> nat \<Rightarrow> nat \<Rightarrow> napi_call" where
  "napi_get_value_string_latin1 render h bufPtr bufSize resultPtr b =
     (case getHandle h b of
        None \<Rightarrow> None
      | Some v \<Rightarrow>
          let latin1 = latin1_of (case v of JStr s \<Rightarrow> s | _ \<Rightarrow> render v) in
          if bufPtr \<noteq> 0 \<and> bufSize > 0
          then (let (n, b1) = writeString bufPtr latin1 bufSize b
                in Some (NAPI_OK, if resultPtr \<noteq> 0 then writeI32 resultPtr (int n) b1 else b1))
          else Some (NAPI_OK, if resultPtr \<noteq> 0 then writeI32 resultPtr (int (length latin1)) b else b))"

section \<open>References\<close>

definition put_wrap_count :: "nat \<Rightarrow> nat \<Rightarrow> js_bridge \<Rightarrow> js_bridge" where
  "put_wrap_count h n b =
     (case map_of (nb_wrapRegistry b) h of
        None \<Rightarrow> b
      | Some i \<Rightarrow> (case map_of (nb_wraps b) i of
            None \<Rightarrow> b | Some w \<Rightarrow> b\<lparr>nb_wraps := AList.update i (w\<lparr>wd_refCount := n\<rparr>) (nb_wraps b)\<rparr>))"

definition napi_create_reference :: "nat \<Rightarrow> nat \<Rightarrow> nat \<Rightarrow> napi_call" where
  "napi_create_reference h initialRefcount resultPtr b =
     ok (writeI32 resultPtr (int h) (put_wrap_count h initialRefcount
       (b\<lparr>nb_refs := AList.update h \<lparr>rf_count = initialRefcount, rf_weak = False\<rparr> (nb_refs b)\<rparr>)))"

definition napi_reference_ref :: "nat \<Rightarrow> nat \<Rightarrow> napi_call" where
  "napi_reference_ref ref resultPtr b =
     (case map_of (nb_refs b) ref of
        None \<Rightarrow> fail NAPI_GENERIC_FAILURE ''Invalid reference'' b
      | Some d \<Rightarrow>
          let n = Suc (rf_count d);
              b1 = put_wrap_count ref n (b\<lparr>nb_refs := AList.update ref (d\<lparr>rf_count := n\<rparr>) (nb_refs b)\<rparr>)
          in ok (if resultPtr \<noteq> 0 then writeI32 resultPtr (int n) b1 else b1))"

definition napi_reference_unref :: "nat \<Rightarrow> nat \<Rightarrow> napi_call" where
  "napi_reference_unref ref resultPtr b =
     (case map_of (nb_refs b) ref of
        None \<Rightarrow> fail NAPI_GENERIC_FAILURE ''Invalid reference'' b
      | Some d \<Rightarrow>
          let n = rf_count d - 1;
              b1 = put_wrap_count ref n (b\<lparr>nb_refs := AList.update ref (d\<lparr>rf_count := n\<rparr>) (nb_refs b)\<rparr>);
              b2 = (if n = 0 \<and> \<not> rf_weak d then b1\<lparr>nb_refs := AList.delete ref (nb_refs b1)\<rparr> else b1)
          in ok (if resultPtr \<noteq> 0 then writeI32 resultPtr (int n) b2 else b2))"

definition napi_get_reference_value :: "nat \<Rightarrow> nat \<Rightarrow> napi_call" where
  "napi_get_reference_value ref resultPtr b =
     ok (writeI32 resultPtr
       (case map_of (nb_refs b) ref of Some d \<Rightarrow> if rf_count d > 0 then int ref else 0 | None \<Rightarrow> 0) b)"

definition napi_delete_reference :: "nat \<Rightarrow> napi_call" where
  "napi_delete_reference ref b =
     ok (case map_of (nb_refs b) ref of
           None \<Rightarrow> b | Some d \<Rightarrow> put_wrap_count ref 0 (b\<lparr>nb_refs := AList.delete ref (nb_refs b)\<rparr>))"

end
