(* ===== verification/Napi_Objects.thy ===== *)
theory Napi_Objects
  imports Napi_Bridge
begin

text \<open>
  The N-API functions of \<open>napi-bridge/index.js\<close> that tie objects to native code: wraps, type tags,
  deferreds, the functions that call back into the runtime and the calls the other way, and the
  environments. The native side of a callback is an argument: it is given the callback record and
  the bridge, and gives a handle, or \<^term>\<open>None\<close> when it throws, with the bridge it leaves.
\<close>

section \<open>Wraps\<close>

definition is_object :: "js_value \<Rightarrow> bool" where
  "is_object v = (case v of Global \<Rightarrow> True | JObj i \<Rightarrow> True | JFun i \<Rightarrow> True | JErr i k c m \<Rightarrow> True | _ \<Rightarrow> False)"

definition napi_wrap :: "nat \<Rightarrow> 32 word \<Rightarrow> 32 word \<Rightarrow> 32 word \<Rightarrow> nat \<Rightarrow> napi_call" where
  "napi_wrap h nativePtr finalizeCb finalizeHint resultPtr b =
     (case getHandle h b of
        None \<Rightarrow> None
      | Some v \<Rightarrow>
          if \<not> is_object v then fail NAPI_OBJECT_EXPECTED ''Object expected'' b
          else if h \<in> fst ` set (nb_wrapRegistry b) then fail NAPI_INVALID_ARG ''Object is already wrapped'' b
          else let i = nb_nextWrapId b;
                   data = \<lparr>wd_ptr = nativePtr, wd_finalizeCb = finalizeCb, wd_hint = finalizeHint,
                     wd_refCount = (if resultPtr \<noteq> 0 then 1 else 0), wd_finalized = False\<rparr>;
                   b1 = b\<lparr>nb_nextWrapId := Suc i, nb_wraps := AList.update i data (nb_wraps b),
                     nb_wrapRegistry := AList.update h i (nb_wrapRegistry b),
                     nb_wrapByObject := AList.update v i (nb_wrapByObject b)\<rparr>
               in ok (if resultPtr \<noteq> 0
                      then writeI32 resultPtr (int h)
                             (b1\<lparr>nb_refs := AList.update h \<lparr>rf_count = 1, rf_weak = False\<rparr> (nb_refs b1)\<rparr>)
                      else b1))"

definition wrap_of :: "nat option \<Rightarrow> js_bridge \<Rightarrow> wrap_data option" where
  "wrap_of i b = (case i of None \<Rightarrow> None | Some i \<Rightarrow> map_of (nb_wraps b) i)"

definition find_wrap :: "nat \<Rightarrow> js_value \<Rightarrow> js_bridge \<Rightarrow> wrap_data option" where
  "find_wrap h v b =
     (case (if is_object v then wrap_of (map_of (nb_wrapByObject b) v) b else None) of
        Some w \<Rightarrow> Some w
      | None \<Rightarrow> wrap_of (map_of (nb_wrapRegistry b) h) b)"

definition napi_unwrap :: "nat \<Rightarrow> nat \<Rightarrow> napi_call" where
  "napi_unwrap h resultPtr b =
     (case getHandle h b of
        None \<Rightarrow> None
      | Some v \<Rightarrow>
          (case find_wrap h v b of
             None \<Rightarrow> fail NAPI_INVALID_ARG ''Object is not wrapped'' b
           | Some w \<Rightarrow> if wd_finalized w then fail NAPI_INVALID_ARG ''Object is not wrapped'' b
               else ok (writeI32 resultPtr (uint (wd_ptr w)) b)))"

text \<open>\<open>native_finalize\<close> is the effect of the finalize callback on the bridge.\<close>

definition napi_remove_wrap :: "(js_bridge \<Rightarrow> js_bridge) \<Rightarrow> nat \<Rightarrow> nat \<Rightarrow> napi_call" where
  "napi_remove_wrap native_finalize h resultPtr b =
     (case getHandle h b of
        None \<Rightarrow> None
      | Some v \<Rightarrow>
          let reg = map_of (nb_wrapRegistry b) h;
              mine = (if reg \<noteq> None \<and> is_object v \<and> map_of (nb_wrapByObject b) v \<notin> {None, reg} then None else reg)
          in case mine of
               None \<Rightarrow> fail NAPI_INVALID_ARG ''Object is not wrapped'' b
             | Some i \<Rightarrow>
                 (case map_of (nb_wraps b) i of
                    None \<Rightarrow> fail NAPI_INVALID_ARG ''Object is not wrapped'' b
                  | Some w \<Rightarrow>
                      if wd_finalized w then fail NAPI_INVALID_ARG ''Object is not wrapped'' b
                      else let b1 = b\<lparr>nb_wraps := AList.update i (w\<lparr>wd_finalized := True\<rparr>) (nb_wraps b),
                                      nb_wrapRegistry := AList.delete h (nb_wrapRegistry b),
                                      nb_wrapByObject := (if is_object v then AList.delete v (nb_wrapByObject b) else nb_wrapByObject b),
                                      nb_refs := AList.delete h (nb_refs b)\<rparr>;
                               b2 = (if wd_finalizeCb w \<noteq> 0
                                     then native_finalize (b1\<lparr>nb_finalizeCalls := nb_finalizeCalls b1 @ [(wd_finalizeCb w, wd_ptr w, wd_hint w)]\<rparr>)
                                     else b1)
                           in ok (if resultPtr \<noteq> 0 then writeI32 resultPtr (uint (wd_ptr w)) b2 else b2)))"

section \<open>Type tags\<close>

definition readTypeTag :: "nat \<Rightarrow> js_bridge \<Rightarrow> byte list option" where
  "readTypeTag tagPtr b = (if tagPtr = 0 \<or> \<not> isMemoryRangeValid tagPtr 16 b then None else Some (peek tagPtr 16 b))"

definition napi_type_tag_object :: "nat \<Rightarrow> nat \<Rightarrow> napi_call" where
  "napi_type_tag_object h tagPtr b =
     (case getHandle h b of
        None \<Rightarrow> None
      | Some v \<Rightarrow>
          if \<not> is_object v then fail NAPI_OBJECT_EXPECTED ''Object expected'' b
          else (case readTypeTag tagPtr b of
                  None \<Rightarrow> fail NAPI_INVALID_ARG ''Type tag pointer expected'' b
                | Some t \<Rightarrow> ok (b\<lparr>nb_typeTags := AList.update v t (nb_typeTags b)\<rparr>)))"

definition napi_check_object_type_tag :: "nat \<Rightarrow> nat \<Rightarrow> nat \<Rightarrow> napi_call" where
  "napi_check_object_type_tag h tagPtr resultPtr b =
     (case getHandle h b of
        None \<Rightarrow> None
      | Some v \<Rightarrow>
          let expected = readTypeTag tagPtr b;
              actual = (if is_object v then map_of (nb_typeTags b) v else None)
          in ok (writeI32 resultPtr (if expected \<noteq> None \<and> actual = expected then 1 else 0) b))"

section \<open>Deferreds\<close>

definition napi_create_promise :: "nat \<Rightarrow> nat \<Rightarrow> napi_call" where
  "napi_create_promise deferredPtr promisePtr b =
     (let d = nb_nextDeferredId b; p = nb_nextObject b;
          b1 = b\<lparr>nb_nextDeferredId := Suc d, nb_nextObject := Suc p, nb_deferreds := AList.update d p (nb_deferreds b)\<rparr>;
          b2 = (if deferredPtr \<noteq> 0 then writePointer deferredPtr d b1 else b1)
      in ok (if promisePtr \<noteq> 0 then give (JObj p) promisePtr b2 else b2))"

definition settle_deferred :: "(js_value \<Rightarrow> settlement) \<Rightarrow> nat \<Rightarrow> nat \<Rightarrow> napi_call" where
  "settle_deferred outcome deferred h b =
     (case map_of (nb_deferreds b) deferred of
        None \<Rightarrow> Some (NAPI_INVALID_ARG, b)
      | Some p \<Rightarrow>
          (case getHandle h b of
             None \<Rightarrow> None
           | Some v \<Rightarrow> ok (b\<lparr>nb_settled := nb_settled b @ [(p, outcome v)], nb_deferreds := AList.delete deferred (nb_deferreds b)\<rparr>)))"

definition napi_resolve_deferred :: "nat \<Rightarrow> nat \<Rightarrow> napi_call" where
  "napi_resolve_deferred = settle_deferred Resolved"

definition napi_reject_deferred :: "nat \<Rightarrow> nat \<Rightarrow> napi_call" where
  "napi_reject_deferred = settle_deferred Rejected"

section \<open>Callbacks\<close>

fun create_all :: "js_value list \<Rightarrow> js_bridge \<Rightarrow> nat list \<times> js_bridge" where
  "create_all [] b = ([], b)"
| "create_all (v # vs) b = (let (h, b1) = createHandle v b; (hs, b2) = create_all vs b1 in (h # hs, b2))"

type_synonym native_code = "nat \<Rightarrow> js_bridge \<Rightarrow> nat option \<times> js_bridge"

text \<open>
  The function \<open>napi_create_function\<close> makes, and those of a class: \<open>dflt\<close> is what a call that gives
  no handle returns, \<open>undefined\<close> for a function and \<open>this\<close> for a constructor. The result is
  \<^term>\<open>None\<close> when the call throws.
\<close>

definition call_native :: "native_code \<Rightarrow> js_value \<Rightarrow> js_value \<Rightarrow> js_value list \<Rightarrow> 32 word \<Rightarrow> js_bridge \<Rightarrow> js_value option \<times> js_bridge" where
  "call_native native dflt this args data b =
     (let (argHandles, b1) = create_all args b;
          (thisHandle, b2) = createHandle this b1;
          cbinfo = nb_nextCallbackInfo b2;
          b3 = b2\<lparr>nb_nextCallbackInfo := Suc cbinfo,
                  nb_callbackInfos := AList.update cbinfo \<lparr>cb_this = thisHandle, cb_args = argHandles, cb_data = data\<rparr> (nb_callbackInfos b2)\<rparr>;
          (r, b4) = native cbinfo b3;
          result = (case r of None \<Rightarrow> None | Some h \<Rightarrow> if h > 0 then getHandle h b4 else Some dflt);
          b5 = b4\<lparr>nb_callbackInfos := AList.delete cbinfo (nb_callbackInfos b4)\<rparr>
      in (result, foldl (\<lambda>b h. freeHandle h b) b5 (argHandles @ [thisHandle])))"

definition call_function :: "native_code \<Rightarrow> js_value \<Rightarrow> js_value list \<Rightarrow> 32 word \<Rightarrow> js_bridge \<Rightarrow> js_value option \<times> js_bridge" where
  "call_function native = call_native native Undef"

definition call_constructor :: "native_code \<Rightarrow> js_value \<Rightarrow> js_value list \<Rightarrow> 32 word \<Rightarrow> js_bridge \<Rightarrow> js_value option \<times> js_bridge" where
  "call_constructor native this = call_native native this this"

text \<open>\<open>write_handles\<close> is the loop that copies the handles of the arguments.\<close>

fun write_handles :: "nat \<Rightarrow> nat list \<Rightarrow> js_bridge \<Rightarrow> js_bridge option" where
  "write_handles ptr [] b = Some b"
| "write_handles ptr (h # hs) b =
     (if isMemoryRangeValid ptr 4 b then write_handles (ptr + 4) hs (poke ptr (le32 (of_nat h)) b) else None)"

definition set_word :: "nat \<Rightarrow> 32 word \<Rightarrow> js_bridge \<Rightarrow> js_bridge option" where
  "set_word ptr w b =
     (if ptr = 0 then Some b else if isMemoryRangeValid ptr 4 b then Some (poke ptr (le32 w) b) else None)"

text \<open>A view throws outside the memory, which is \<^term>\<open>None\<close> here too.\<close>

definition napi_get_cb_info :: "nat \<Rightarrow> nat \<Rightarrow> nat \<Rightarrow> nat \<Rightarrow> nat \<Rightarrow> napi_call" where
  "napi_get_cb_info cbinfo argcPtr argvPtr thisArgPtr dataPtr b =
     (case map_of (nb_callbackInfos b) cbinfo of
        None \<Rightarrow> fail NAPI_INVALID_ARG ''Unknown callback info'' b
      | Some info \<Rightarrow>
          if nb_memory b = None then fail NAPI_GENERIC_FAILURE ''Wasm memory not initialized'' b
          else if argcPtr \<noteq> 0 \<and> \<not> isMemoryRangeValid argcPtr 4 b then None
          else let available = length (cb_args info);
                   requested = (if argcPtr \<noteq> 0 then unat (readU32 argcPtr b) else available);
                   copyCount = min requested available
               in case (if argvPtr \<noteq> 0 then write_handles argvPtr (take copyCount (cb_args info)) b else Some b) of
                    None \<Rightarrow> None
                  | Some b1 \<Rightarrow> (case set_word argcPtr (of_nat available) b1 of
                        None \<Rightarrow> None
                      | Some b2 \<Rightarrow> (case set_word thisArgPtr (of_nat (cb_this info)) b2 of
                            None \<Rightarrow> None
                          | Some b3 \<Rightarrow> (case set_word dataPtr (cb_data info) b3 of None \<Rightarrow> None | Some b4 \<Rightarrow> ok b4))))"

section \<open>Calls of the engine\<close>

text \<open>\<open>read_args\<close> reads signed 32-bit handles: a negative one is invalid and throws.\<close>

fun read_args :: "nat \<Rightarrow> nat \<Rightarrow> js_bridge \<Rightarrow> js_value list option" where
  "read_args ptr 0 b = Some []"
| "read_args ptr (Suc n) b =
     (case getHandle (unat (readU32 ptr b)) b of
        None \<Rightarrow> None
      | Some v \<Rightarrow> (case read_args (ptr + 4) n b of None \<Rightarrow> None | Some vs \<Rightarrow> Some (v # vs)))"

text \<open>\<open>engine\<close> applies a function to \<open>this\<close> and the arguments; \<^term>\<open>Inl\<close> is an exception.\<close>

type_synonym engine_call = "js_value \<Rightarrow> js_value \<Rightarrow> js_value list \<Rightarrow> js_bridge \<Rightarrow> (js_value + js_value) \<times> js_bridge"

definition napi_call_function :: "(js_value \<Rightarrow> jstring) \<Rightarrow> engine_call \<Rightarrow> nat \<Rightarrow> nat \<Rightarrow> nat \<Rightarrow> nat \<Rightarrow> nat \<Rightarrow> napi_call" where
  "napi_call_function render engine thisHandle fnHandle argc argvPtr resultPtr b =
     (case getHandle fnHandle b of
        None \<Rightarrow> None
      | Some fn \<Rightarrow>
          if \<not> (case fn of JFun i \<Rightarrow> True | _ \<Rightarrow> False) then fail NAPI_FUNCTION_EXPECTED ''Function expected'' b
          else (case getHandle thisHandle b of
            None \<Rightarrow> None
          | Some this \<Rightarrow>
              (case nb_memory b of
                 None \<Rightarrow> fail NAPI_GENERIC_FAILURE ''Wasm memory not initialized'' b
               | Some mem \<Rightarrow>
                   if argc > 0 \<and> argvPtr = 0 then fail NAPI_INVALID_ARG ''argv is null with non-zero argc'' b
                   else if argc > 0 \<and> argvPtr + argc * 4 > length mem
                   then fail NAPI_INVALID_ARG ''argv extends beyond Wasm memory'' b
                   else (case read_args argvPtr argc b of
                           None \<Rightarrow> None
                         | Some args \<Rightarrow>
                             (case engine fn this args b of
                                (Inr result, b1) \<Rightarrow> ok (if resultPtr \<noteq> 0 then give result resultPtr b1 else b1)
                              | (Inl e, b1) \<Rightarrow> Some (NAPI_PENDING_EXCEPTION, setPendingException render e b1))))))"

section \<open>Environments\<close>

definition create_env :: "nat \<Rightarrow> nat \<Rightarrow> napi_call" where
  "create_env envOutPtr scopeOutPtr b =
     (let envId = nb_nextEnvId b; scopeId = nb_nextEnvScopeId b;
          b1 = b\<lparr>nb_nextEnvId := Suc envId, nb_nextEnvScopeId := Suc scopeId, nb_activeEnv := envId,
                 nb_envByScope := AList.update scopeId envId (nb_envByScope b)\<rparr>
      in Some (NAPI_OK, writePointer scopeOutPtr scopeId (writePointer envOutPtr envId b1)))"

definition release_env :: "nat \<Rightarrow> napi_call" where
  "release_env scopePtr b = Some (NAPI_OK, b\<lparr>nb_envByScope := AList.delete scopePtr (nb_envByScope b)\<rparr>)"

definition set_edge_environment :: "nat \<Rightarrow> nat \<Rightarrow> napi_call" where
  "set_edge_environment env environment b =
     Some (NAPI_OK, b\<lparr>nb_edgeEnvironment := AList.update env environment (nb_edgeEnvironment b)\<rparr>)"

definition get_edge_environment :: "nat \<Rightarrow> js_bridge \<Rightarrow> nat" where
  "get_edge_environment env b = (case map_of (nb_edgeEnvironment b) env of Some e \<Rightarrow> e | None \<Rightarrow> 0)"

end
