(* ===== verification/Napi_Props.thy ===== *)
theory Napi_Props
  imports Napi_Objects
begin

text \<open>
  What the bridge guarantees to the compiled runtime: a handle means its value as long as a scope or a
  reference holds it, strings and numbers cross wasm memory unchanged and within their buffers, the
  arguments of a callback arrive, a deferred settles once. The last section shows where these
  guarantees end, the most serious being handles that are freed twice.
\<close>

section \<open>The handle table\<close>

text \<open>
  Free handles and the handles of the open scopes are different slots above the well-known ones, and
  nothing that is referenced is free.
\<close>

definition handles_ok :: "js_bridge \<Rightarrow> bool" where
  "handles_ok b \<longleftrightarrow> 4 \<le> length (nb_handles b) \<and> take 4 (nb_handles b) = [Nil, Undef, Nil, Global] \<and> nb_scopes b \<noteq> []
     \<and> distinct (nb_free b @ concat (nb_scopes b))
     \<and> (\<forall>h \<in> set (nb_free b) \<union> set (concat (nb_scopes b)). 4 \<le> h \<and> h < length (nb_handles b))
     \<and> fst ` set (nb_refs b) \<inter> set (nb_free b) = {} \<and> (\<forall>h \<in> fst ` set (nb_refs b). h < length (nb_handles b))"

definition held :: "nat \<Rightarrow> js_bridge \<Rightarrow> bool" where
  "held h b \<longleftrightarrow> h \<in> set (concat (nb_scopes b)) \<or> h \<in> fst ` set (nb_refs b)"

lemma handles_ok_new: "handles_ok (new_bridge mem)"
  by (simp add: handles_ok_def new_bridge_def)

lemma held_not_free: "handles_ok b \<Longrightarrow> held h b \<Longrightarrow> h \<notin> set (nb_free b)"
  by (auto simp: handles_ok_def held_def)

lemma well_known: "handles_ok b \<Longrightarrow> getHandle 1 b = Some Undef \<and> getHandle 2 b = Some Nil \<and> getHandle 3 b = Some Global"
proof -
  assume "handles_ok b"
  then have len: "4 \<le> length (nb_handles b)" and t: "take 4 (nb_handles b) = [Nil, Undef, Nil, Global]"
    by (simp_all add: handles_ok_def)
  have "nb_handles b ! i = [Nil, Undef, Nil, Global] ! i" if "i < 4" for i using t that by (metis nth_take)
  from this [of 1] this [of 2] this [of 3] show ?thesis using len by (simp add: getHandle_def)
qed

lemma track_fields [simp]:
  "nb_handles (track h b) = nb_handles b" "nb_free (track h b) = nb_free b" "nb_refs (track h b) = nb_refs b"
  "nb_memory (track h b) = nb_memory b" "nb_callbackInfos (track h b) = nb_callbackInfos b"
  "nb_nextCallbackInfo (track h b) = nb_nextCallbackInfo b"
  by (simp_all add: track_def)

definition plain_value :: "js_value \<Rightarrow> bool" where
  "plain_value v \<longleftrightarrow> v \<notin> {Undef, Nil, Global}"

lemma create_plain:
  assumes "plain_value v"
  shows "createHandle v b = (case nb_free b of
      h # hs \<Rightarrow> (h, track h (b\<lparr>nb_free := hs, nb_handles := (nb_handles b)[h := v]\<rparr>))
    | [] \<Rightarrow> (length (nb_handles b), track (length (nb_handles b)) (b\<lparr>nb_handles := nb_handles b @ [v]\<rparr>)))"
  using assms by (cases v) (simp_all add: createHandle_def plain_value_def split: list.split)

text \<open>What a new handle is and what it leaves alone.\<close>

lemma create_ok:
  assumes "handles_ok b" "createHandle v b = (h, b')"
  shows "handles_ok b'" "getHandle h b' = Some v" "3 < h \<Longrightarrow> \<not> held h b"
    "nb_refs b' = nb_refs b" "nb_memory b' = nb_memory b"
    "nb_callbackInfos b' = nb_callbackInfos b" "nb_nextCallbackInfo b' = nb_nextCallbackInfo b"
    "held g b \<Longrightarrow> held g b'"
    "g < length (nb_handles b) \<Longrightarrow> g \<notin> set (nb_free b) \<Longrightarrow> getHandle g b' = getHandle g b \<and> g \<notin> set (nb_free b')"
    "3 < h \<longleftrightarrow> plain_value v" "plain_value v \<Longrightarrow> held h b'" "0 < h"
proof -
  obtain c cs where scopes: "nb_scopes b = c # cs" using assms(1) by (cases "nb_scopes b") (auto simp: handles_ok_def)
  have "handles_ok b' \<and> getHandle h b' = Some v \<and> (3 < h \<longrightarrow> \<not> held h b) \<and> nb_refs b' = nb_refs b \<and> nb_memory b' = nb_memory b
      \<and> nb_callbackInfos b' = nb_callbackInfos b \<and> nb_nextCallbackInfo b' = nb_nextCallbackInfo b
      \<and> (held g b \<longrightarrow> held g b')
      \<and> (g < length (nb_handles b) \<longrightarrow> g \<notin> set (nb_free b) \<longrightarrow> getHandle g b' = getHandle g b \<and> g \<notin> set (nb_free b'))
      \<and> (3 < h \<longleftrightarrow> plain_value v) \<and> (plain_value v \<longrightarrow> held h b') \<and> 0 < h"
  proof (cases "plain_value v")
    case False
    then have "h \<in> {1, 2, 3} \<and> b' = b \<and> getHandle h b = Some v"
      using assms well_known [OF assms(1)] by (auto simp: plain_value_def createHandle_def)
    then show ?thesis using assms(1) False by auto
  next
    case True
    show ?thesis
    proof (cases "nb_free b")
      case Nil
      then have b': "h = length (nb_handles b)" "b' = track h (b\<lparr>nb_handles := nb_handles b @ [v]\<rparr>)"
        using assms(2) by (auto simp: create_plain [OF True])
      have out: "h \<notin> set (concat (nb_scopes b))" using assms(1) by (auto simp: handles_ok_def b'(1))
      show ?thesis
        using assms(1) out Nil True
        by (auto simp: handles_ok_def b'(2) getHandle_def held_def nth_append scopes track_def ball_Un b'(1) intro: less_SucI)
    next
      case (Cons f fs)
      then have b': "h = f" "b' = track f (b\<lparr>nb_free := fs, nb_handles := (nb_handles b)[f := v]\<rparr>)"
        using assms(2) by (auto simp: create_plain [OF True])
      have f: "f \<notin> set (concat (nb_scopes b))" "4 \<le> f" "f < length (nb_handles b)" "f \<notin> set fs" "f \<notin> fst ` set (nb_refs b)"
        using assms(1) by (auto simp: handles_ok_def Cons)
      show ?thesis
        using assms(1) f True
        by (auto simp: handles_ok_def b' getHandle_def held_def track_def scopes Cons)
    qed
  qed
  then show "handles_ok b'" "getHandle h b' = Some v" "3 < h \<Longrightarrow> \<not> held h b"
    "nb_refs b' = nb_refs b" "nb_memory b' = nb_memory b"
    "nb_callbackInfos b' = nb_callbackInfos b" "nb_nextCallbackInfo b' = nb_nextCallbackInfo b"
    "held g b \<Longrightarrow> held g b'"
    "g < length (nb_handles b) \<Longrightarrow> g \<notin> set (nb_free b) \<Longrightarrow> getHandle g b' = getHandle g b \<and> g \<notin> set (nb_free b')"
    "3 < h \<longleftrightarrow> plain_value v" "plain_value v \<Longrightarrow> held h b'" "0 < h" by blast+
qed


lemma free_fields:
  "nb_refs (freeHandle h b) = nb_refs b" "nb_scopes (freeHandle h b) = nb_scopes b"
  "length (nb_handles (freeHandle h b)) = length (nb_handles b)"
  "g \<noteq> h \<Longrightarrow> getHandle g (freeHandle h b) = getHandle g b"
  by (simp_all add: freeHandle_def getHandle_def)

lemma free_ref: "(g, d) \<in> set (nb_refs b) \<Longrightarrow> getHandle g (freeHandle h b) = getHandle g b"
  by (cases "g = h") (auto simp: freeHandle_def getHandle_def intro: rev_image_eqI)

abbreviation release :: "nat \<Rightarrow> js_bridge \<Rightarrow> js_bridge" where
  "release h b \<equiv> (if h \<notin> fst ` set (nb_refs b) then freeHandle h b else b)"

text \<open>Freeing the handles of a scope that has been taken off the stack.\<close>

lemma release_ok:
  assumes "handles_ok b" "4 \<le> h" "h < length (nb_handles b)" "h \<notin> set (nb_free b)" "h \<notin> set (concat (nb_scopes b))"
  shows "handles_ok (release h b)"
proof -
  have "take 4 ((nb_handles b)[h := Undef]) = take 4 (nb_handles b)" using assms(2) by simp
  then show ?thesis using assms by (auto simp: handles_ok_def freeHandle_def)
qed

lemma release_all:
  assumes "handles_ok b" "distinct hs" "\<forall>h \<in> set hs. 4 \<le> h \<and> h < length (nb_handles b) \<and> h \<notin> set (nb_free b) \<and> h \<notin> set (concat (nb_scopes b))"
  defines "b' \<equiv> foldl (\<lambda>b h. release h b) b hs"
  shows "handles_ok b' \<and> nb_refs b' = nb_refs b \<and> nb_scopes b' = nb_scopes b
    \<and> (\<forall>g. g \<notin> set hs \<or> g \<in> fst ` set (nb_refs b) \<longrightarrow> getHandle g b' = getHandle g b)"
  using assms(1-3) unfolding b'_def
proof (induction hs arbitrary: b)
  case (Cons h hs)
  have ok: "handles_ok (release h b)" using Cons.prems by (intro release_ok) auto
  have "\<forall>x \<in> set hs. 4 \<le> x \<and> x < length (nb_handles (release h b)) \<and> x \<notin> set (nb_free (release h b))
      \<and> x \<notin> set (concat (nb_scopes (release h b)))"
    using Cons.prems by (auto simp: free_fields) (auto simp: freeHandle_def split: if_splits)
  with Cons.IH [OF ok] Cons.prems(2) show ?case
    by (auto simp: free_fields free_ref split: if_splits)
qed simp

lemma close_scope_ok:
  assumes "handles_ok b" "closeHandleScope b = (st, b')"
  shows "handles_ok b' \<and> nb_refs b' = nb_refs b \<and> (held g b' \<longrightarrow> getHandle g b' = getHandle g b)"
proof -
  consider "b' = b" | s s2 ss where "nb_scopes b = s # s2 # ss"
      "b' = foldl (\<lambda>b h. release h b) (b\<lparr>nb_scopes := s2 # ss\<rparr>) s"
    using assms(2) by (auto simp: closeHandleScope_def split: list.splits)
  then show ?thesis
  proof cases
    case 1
    then show ?thesis using assms(1) by simp
  next
    case 2
    have ok: "handles_ok (b\<lparr>nb_scopes := s2 # ss\<rparr>)" "distinct s"
      "\<forall>h \<in> set s. 4 \<le> h \<and> h < length (nb_handles b) \<and> h \<notin> set (nb_free b) \<and> h \<notin> set (concat (s2 # ss))"
      using assms(1) by (auto simp: handles_ok_def 2(1))
    have r: "handles_ok b' \<and> nb_refs b' = nb_refs b \<and> nb_scopes b' = s2 # ss
      \<and> (\<forall>g. g \<notin> set s \<or> g \<in> fst ` set (nb_refs b) \<longrightarrow> getHandle g b' = getHandle g b)"
      using release_all [OF ok(1,2)] ok(3) by (simp add: 2(2) getHandle_def)
    have "g \<notin> set s \<or> g \<in> fst ` set (nb_refs b)" if "held g b'"
      using that r ok(3) by (auto simp: held_def)
    with r show ?thesis by blast
  qed
qed


text \<open>Only the table of references changes with the operations on references.\<close>

lemma frame_simps [simp]:
  "nb_handles (setLastError st m b) = nb_handles b" "nb_free (setLastError st m b) = nb_free b"
  "nb_scopes (setLastError st m b) = nb_scopes b" "nb_refs (setLastError st m b) = nb_refs b"
  "nb_memory (setLastError st m b) = nb_memory b"
  "nb_handles (put_wrap_count h n b) = nb_handles b" "nb_free (put_wrap_count h n b) = nb_free b"
  "nb_scopes (put_wrap_count h n b) = nb_scopes b" "nb_refs (put_wrap_count h n b) = nb_refs b"
  "nb_handles (poke ptr bs b) = nb_handles b" "nb_free (poke ptr bs b) = nb_free b"
  "nb_scopes (poke ptr bs b) = nb_scopes b" "nb_refs (poke ptr bs b) = nb_refs b"
  "nb_handles (writeI32 ptr x b) = nb_handles b" "nb_free (writeI32 ptr x b) = nb_free b"
  "nb_scopes (writeI32 ptr x b) = nb_scopes b" "nb_refs (writeI32 ptr x b) = nb_refs b"
  by (simp_all add: setLastError_def put_wrap_count_def writeI32_def poke_def split: option.split)

lemma same_table:
  "nb_handles b' = nb_handles b \<Longrightarrow> nb_free b' = nb_free b \<Longrightarrow> nb_scopes b' = nb_scopes b \<Longrightarrow>
     handles_ok b \<Longrightarrow> fst ` set (nb_refs b') \<subseteq> insert h (fst ` set (nb_refs b)) \<Longrightarrow> h \<notin> set (nb_free b) \<Longrightarrow> h < length (nb_handles b) \<Longrightarrow>
     handles_ok b' \<and> (\<forall>g. getHandle g b' = getHandle g b)"
proof -
  assume same: "nb_handles b' = nb_handles b" "nb_free b' = nb_free b" "nb_scopes b' = nb_scopes b"
    and ok: "handles_ok b" and refs: "fst ` set (nb_refs b') \<subseteq> insert h (fst ` set (nb_refs b))"
    and h: "h \<notin> set (nb_free b)" "h < length (nb_handles b)"
  have old: "fst ` set (nb_refs b) \<inter> set (nb_free b) = {}" "\<forall>x \<in> fst ` set (nb_refs b). x < length (nb_handles b)"
    using ok by (simp_all add: handles_ok_def)
  have "fst ` set (nb_refs b') \<inter> set (nb_free b) = {} \<and> (\<forall>x \<in> fst ` set (nb_refs b'). x < length (nb_handles b))"
    using refs h old by blast
  then show ?thesis using ok same unfolding handles_ok_def getHandle_def by simp
qed

lemma write_same [simp]:
  "handles_ok (writeI32 ptr x b) = handles_ok b" "getHandle g (writeI32 ptr x b) = getHandle g b"
  by (simp_all add: handles_ok_def getHandle_def)

text \<open>
  What native code does with handles: it creates them, opens and closes scopes and manages
  references. It refers to handles it holds, as the rules of N-API ask.
\<close>

datatype handle_op =
  Create js_value nat | OpenScope | CloseScope | MakeRef nat nat nat | Ref nat nat | Unref nat nat | DeleteRef nat

definition handle_call :: "handle_op \<Rightarrow> napi_call" where
  "handle_call op b =
     (case op of
        Create v resultPtr \<Rightarrow> Some (NAPI_OK, give v resultPtr b)
      | OpenScope \<Rightarrow> Some (NAPI_OK, openHandleScope b)
      | CloseScope \<Rightarrow> Some (closeHandleScope b)
      | MakeRef h n resultPtr \<Rightarrow> napi_create_reference h n resultPtr b
      | Ref h resultPtr \<Rightarrow> napi_reference_ref h resultPtr b
      | Unref h resultPtr \<Rightarrow> napi_reference_unref h resultPtr b
      | DeleteRef h \<Rightarrow> napi_delete_reference h b)"

definition handle_after :: "handle_op \<Rightarrow> js_bridge \<Rightarrow> js_bridge" where
  "handle_after op b = (case handle_call op b of Some (st, b') \<Rightarrow> b' | None \<Rightarrow> b)"

definition lawful :: "handle_op \<Rightarrow> js_bridge \<Rightarrow> bool" where
  "lawful op b \<longleftrightarrow> (case op of MakeRef h n p \<Rightarrow> held h b | _ \<Rightarrow> True)"

lemma held_index: "handles_ok b \<Longrightarrow> held h b \<Longrightarrow> h < length (nb_handles b)"
  by (auto simp: handles_ok_def held_def)

lemma delete_entry: "(a, d) \<in> set (AList.delete h m) \<Longrightarrow> (a, d) \<in> set m"
  by (induction m) (auto split: if_splits)

lemma update_entry: "(a, d) \<in> set (AList.update h x m) \<Longrightarrow> a = h \<or> (a, d) \<in> set m"
  by (induction m) (auto split: if_splits)

lemma handle_op_ok:
  assumes ok: "handles_ok b" and "lawful op b" and held: "held g b" "held g (handle_after op b)"
  shows "handles_ok (handle_after op b) \<and> getHandle g (handle_after op b) = getHandle g b"
proof -
  note g = held_not_free [OF ok held(1)] held_index [OF ok held(1)]
  have refs: ?thesis
    if "nb_handles (handle_after op b) = nb_handles b" "nb_free (handle_after op b) = nb_free b"
      "nb_scopes (handle_after op b) = nb_scopes b" "fst ` set (nb_refs (handle_after op b)) \<subseteq> insert h (fst ` set (nb_refs b))"
      "held h b" for h
    using same_table [OF that(1-3) ok that(4)] held_not_free [OF ok that(5)] held_index [OF ok that(5)] by blast
  show ?thesis
  proof (cases op)
    case (Create v p)
    obtain h b1 where c: "createHandle v b = (h, b1)" by fastforce
    have "handle_after op b = writeI32 p (int h) b1" by (simp add: handle_after_def handle_call_def Create give_def c)
    then show ?thesis
      using create_ok(1) [OF ok c] create_ok(9) [OF ok c g(2,1)] by simp
  next
    case OpenScope
    then show ?thesis
      using ok by (simp add: handle_after_def handle_call_def openHandleScope_def handles_ok_def getHandle_def)
  next
    case CloseScope
    obtain st b1 where c: "closeHandleScope b = (st, b1)" by fastforce
    then have "handle_after op b = b1" by (simp add: handle_after_def handle_call_def CloseScope)
    then show ?thesis using close_scope_ok [OF ok c, of g] held(2) by simp
  next
    case (MakeRef h n p)
    then show ?thesis
      using assms(2) by (intro refs [of h])
        (auto simp: handle_after_def handle_call_def napi_create_reference_def lawful_def dom_update)
  next
    case (Ref h p)
    then show ?thesis
      by (intro refs [of g])
        (auto simp: handle_after_def handle_call_def napi_reference_ref_def Let_def dom_update held
          split: option.split dest!: map_of_SomeD intro: rev_image_eqI)
  next
    case (Unref h p)
    then show ?thesis
      by (intro refs [of g])
        (auto simp: handle_after_def handle_call_def napi_reference_unref_def Let_def dom_update held
          split: option.split dest!: map_of_SomeD delete_entry update_entry intro: rev_image_eqI)
  next
    case (DeleteRef h)
    then show ?thesis
      by (intro refs [of g])
        (auto simp: handle_after_def handle_call_def napi_delete_reference_def held split: option.split dest!: delete_entry intro: rev_image_eqI)
  qed
qed


fun handle_run :: "handle_op list \<Rightarrow> js_bridge \<Rightarrow> js_bridge" where
  "handle_run [] b = b"
| "handle_run (op # ops) b = handle_run ops (handle_after op b)"

text \<open>The run is lawful, and \<open>h\<close> is held all the way.\<close>

fun held_through :: "nat \<Rightarrow> handle_op list \<Rightarrow> js_bridge \<Rightarrow> bool" where
  "held_through h [] b \<longleftrightarrow> held h b"
| "held_through h (op # ops) b \<longleftrightarrow> held h b \<and> lawful op b \<and> held_through h ops (handle_after op b)"

lemma handle_run_ok:
  "handles_ok b \<Longrightarrow> held_through h ops b \<Longrightarrow> handles_ok (handle_run ops b) \<and> getHandle h (handle_run ops b) = getHandle h b"
proof (induction ops arbitrary: b)
  case (Cons op ops)
  have "held h (handle_after op b)" using Cons.prems(2) by (cases ops) auto
  with handle_op_ok [OF Cons.prems(1), of op h] Cons.prems(2) have
    "handles_ok (handle_after op b) \<and> getHandle h (handle_after op b) = getHandle h b" by simp
  with Cons.IH [of "handle_after op b"] Cons.prems(2) show ?case by simp
qed simp

lemma held_last: "held_through h ops b \<Longrightarrow> held h (handle_run ops b)"
  by (induction ops arbitrary: b) auto

text \<open>
  C33. A handle means its value as long as an open scope or a reference holds it: in a fresh handle
  table, or any later one, a handle just created for a value still gives that value after any
  sequence of creations, scopes opened and closed, and operations on references that keep it held,
  and a handle created then is a different one. Slots are reused, never while they are held.
\<close>

theorem napi_handles_stable:
  assumes "handles_ok b" "createHandle v b = (h, b1)" "held_through h ops b1"
    and "createHandle w (handle_run ops b1) = (h2, b2)" "plain_value w"
  shows "getHandle h (handle_run ops b1) = Some v \<and> getHandle h b2 = Some v \<and> getHandle h2 b2 = Some w
    \<and> h2 \<noteq> h \<and> handles_ok b2"
proof -
  have ok1: "handles_ok b1" "getHandle h b1 = Some v" using create_ok(1,2) [OF assms(1,2)] by auto
  have run: "handles_ok (handle_run ops b1)" "getHandle h (handle_run ops b1) = Some v"
    using handle_run_ok [OF ok1(1) assms(3)] ok1(2) by simp_all
  have held: "held h (handle_run ops b1)" using assms(3) by (rule held_last)
  note new = create_ok [OF run(1) assms(4)]
  have "getHandle h b2 = getHandle h (handle_run ops b1)"
    using new(9) [of h] held_index [OF run(1) held] held_not_free [OF run(1) held] by simp
  moreover have "3 < h2" "\<not> held h2 (handle_run ops b1)" using new(3,10) assms(5) by auto
  ultimately show ?thesis using run new(1,2) held by auto
qed

definition demo_ops :: "handle_op list" where
  "demo_ops = [MakeRef 4 1 0, OpenScope, Create (JObj 7) 0, CloseScope, CloseScope, Create (JObj 8) 0]"

definition demo_bridge :: js_bridge where
  "demo_bridge = track 4 (openHandleScope (new_bridge None)\<lparr>nb_handles := [Nil, Undef, Nil, Global, JObj 5]\<rparr>)"

lemma demo_handles:
  "createHandle (JObj 5) (openHandleScope (new_bridge None)) = (4, demo_bridge)"
  "held_through 4 demo_ops demo_bridge"
  by (simp_all add: createHandle_def openHandleScope_def new_bridge_def demo_bridge_def demo_ops_def track_def held_def lawful_def
      handle_after_def handle_call_def napi_create_reference_def closeHandleScope_def freeHandle_def give_def writeI32_def
      put_wrap_count_def setLastError_def Let_def)

theorem napi_handles_stable_witness:
  "let b = handle_run demo_ops demo_bridge; (h2, b2) = createHandle (JObj 9) b
   in getHandle 4 b = Some (JObj 5) \<and> getHandle 4 b2 = Some (JObj 5) \<and> getHandle h2 b2 = Some (JObj 9) \<and> h2 \<noteq> 4 \<and> handles_ok b2"
proof -
  have "handles_ok (openHandleScope (new_bridge None))"
    using handles_ok_new [of None] by (simp add: handles_ok_def openHandleScope_def)
  from napi_handles_stable [OF this demo_handles prod.collapse [symmetric], of "JObj 9"]
  show ?thesis by (simp add: Let_def split_beta plain_value_def)
qed


section \<open>Memory\<close>

definition unchanged_outside :: "nat \<Rightarrow> nat \<Rightarrow> js_bridge \<Rightarrow> js_bridge \<Rightarrow> bool" where
  "unchanged_outside lo n b b' \<longleftrightarrow>
     (case (nb_memory b, nb_memory b') of
        (None, None) \<Rightarrow> True
      | (Some m, Some m') \<Rightarrow> length m' = length m \<and> take lo m' = take lo m \<and> drop (lo + n) m' = drop (lo + n) m
      | _ \<Rightarrow> False)"

lemma unchanged_refl: "unchanged_outside lo n b b"
  by (simp add: unchanged_outside_def split: option.split)

lemma poke_outside:
  assumes "length bs \<le> n" "case nb_memory b of None \<Rightarrow> True | Some m \<Rightarrow> lo + length bs \<le> length m"
  shows "unchanged_outside lo n b (poke lo bs b)"
proof (cases "nb_memory b")
  case None
  then show ?thesis by (simp add: unchanged_outside_def poke_def)
next
  case (Some m)
  have len: "lo + length bs \<le> length m" using assms(2) Some by simp
  have "drop (lo + n) (take lo m @ bs @ drop (lo + length bs) m) = drop (n - length bs) (drop (lo + length bs) m)"
    using len assms(1) by simp
  also have "\<dots> = drop (lo + n) m" using assms(1) by (simp add: add.commute)
  finally show ?thesis using len Some by (simp add: unchanged_outside_def poke_def)
qed

lemma length_le32 [simp]: "length (le32 w) = 4"
  by (simp add: le32_def)

text \<open>
  C34. The bridge writes only where it is told to: writing a string of any length into a buffer
  touches no byte of the memory outside the buffer of the given size, its terminating zero
  included, writing an integer none outside its four bytes, and neither changes the size of the
  memory, whatever the pointer, even where the pointer or the buffer is out of range.
\<close>

theorem napi_writes_bounded:
  "unchanged_outside ptr maxLen b (snd (writeString ptr str maxLen b))
    \<and> unchanged_outside ptr 4 b (writeI32 ptr value b) \<and> fst (writeString ptr str maxLen b) \<le> maxLen - 1"
proof -
  have "unchanged_outside ptr maxLen b (snd (writeString ptr str maxLen b))
    \<and> fst (writeString ptr str maxLen b) \<le> maxLen - 1"
  proof (cases "nb_memory b")
    case None
    then show ?thesis by (simp add: writeString_def unchanged_refl)
  next
    case (Some m)
    show ?thesis
    proof (cases "ptr = 0 \<or> maxLen = 0 \<or> \<not> isMemoryRangeValid ptr 1 b")
      case True
      then show ?thesis using Some by (auto simp: writeString_def unchanged_refl)
    next
      case False
      define n where "n = min (length (text_encode str)) (min (maxLen - 1) (length m - ptr - 1))"
      have w: "writeString ptr str maxLen b = (n, poke ptr (take n (text_encode str) @ [0]) b)"
        using Some False by (simp add: writeString_def Let_def n_def)
      have "ptr < length m" "0 < maxLen" using False Some by (auto simp: isMemoryRangeValid_def)
      then have "length (take n (text_encode str) @ [0]) \<le> maxLen" "ptr + length (take n (text_encode str) @ [0]) \<le> length m"
        by (auto simp: n_def)
      moreover have "n \<le> maxLen - 1" by (simp add: n_def min_le_iff_disj)
      ultimately show ?thesis unfolding w using Some by (simp add: poke_outside)
    qed
  qed
  moreover have "unchanged_outside ptr 4 b (writeI32 ptr value b)"
    by (auto simp: writeI32_def unchanged_refl isMemoryRangeValid_def intro!: poke_outside split: option.splits)
  ultimately show ?thesis by blast
qed

lemma code_points_zero: "0 \<in> set (code_points s) \<Longrightarrow> 0 \<in> set s"
  by (induction s rule: code_points.induct) (auto split: if_splits simp: unat_eq_0)

lemma byte_not_zero: "0 < x \<Longrightarrow> x < 256 \<Longrightarrow> (of_nat x :: byte) \<noteq> 0"
proof
  assume x: "0 < x" "x < 256" "(of_nat x :: byte) = 0"
  have "unat (of_nat x :: byte) = unat (0 :: byte)" unfolding x(3) ..
  then show False using x(1,2) by (simp add: unat_byte_of_nat)
qed

lemma utf8_zero:
  assumes "0 \<in> set (utf8 c)" "scalar c"
  shows "c = 0"
proof (rule ccontr)
  assume c: "c \<noteq> 0"
  have "c < 0x110000" using assms(2) by (auto simp: scalar_def)
  then have "c div 262144 < 16" by simp
  have nz: "(of_nat x :: byte) \<noteq> 0" if "0 < x" "x < 256" for x using that by (rule byte_not_zero)
  have cont: "(of_nat (0x80 + x mod 64) :: byte) \<noteq> 0" for x by (intro nz) (use mod_less_divisor [of 64 x] in simp_all)
  consider "c < 0x80" | "0x80 \<le> c" "c < 0x800" | "0x800 \<le> c" "c < 0x10000" | "0x10000 \<le> c" by linarith
  then show False
  proof cases
    case 1
    then show False using assms(1) nz [of c] c by (simp add: utf8_def)
  next
    case 2
    then show False using assms(1) nz [of "0xC0 + c div 64"] cont by (auto simp: utf8_def)
  next
    case 3
    then show False using assms(1) nz [of "0xE0 + c div 4096"] cont by (auto simp: utf8_def)
  next
    case 4
    then show False using assms(1) nz [of "0xF0 + c div 262144"] cont \<open>c div 262144 < 16\<close> by (auto simp: utf8_def)
  qed
qed

lemma encode_no_zero:
  assumes "well_formed s" "0 \<notin> set s"
  shows "0 \<notin> set (text_encode s)"
proof
  assume "0 \<in> set (text_encode s)"
  then obtain c where c: "c \<in> set (code_points s)" "0 \<in> set (utf8 c)" by (auto simp: text_encode_def)
  then have "scalar c" using code_points_round [OF assms(1)] by (auto simp: list_all_iff)
  with c utf8_zero have "0 \<in> set (code_points s)" by blast
  with code_points_zero assms(2) show False by blast
qed

text \<open>
  C35. A string crosses wasm memory unchanged: what \<open>napi_get_value_string_utf8\<close> writes into a buffer
  that is large enough, \<open>napi_create_string_utf8\<close> reads back, given its length or up to the
  terminating zero. The string is well-formed UTF-16, holds no zero character and does not
  begin with U+FEFF, and its bytes are at most 65536.
\<close>

theorem napi_string_crosses:
  assumes "nb_memory b = Some mem" "0 < ptr" "ptr + length (text_encode s) < length mem"
    and "length (text_encode s) < maxLen" "length (text_encode s) \<le> CSTRING_MAX"
    and "well_formed s" "0 \<notin> set s" "s = [] \<or> hd s \<noteq> 0xFEFF"
    and "getHandle h b = Some (JStr s)"
    and "napi_get_value_string_utf8 render h ptr maxLen 0 b = Some (st, b1)"
  shows "st = NAPI_OK \<and> readCString ptr b1 = s \<and> readString ptr (int (length (text_encode s))) b1 = s"
proof -
  define bs where "bs = text_encode s"
  have "min (length bs) (min (maxLen - 1) (length mem - ptr - 1)) = length bs" using assms(3,4) by (auto simp: bs_def)
  then have "writeString ptr s maxLen b = (length bs, poke ptr (bs @ [0]) b)"
    using assms(1-4) by (auto simp: writeString_def isMemoryRangeValid_def Let_def bs_def)
  then have b1: "st = NAPI_OK" "b1 = poke ptr (bs @ [0]) b"
    using assms(2,4,9,10) by (auto simp: napi_get_value_string_utf8_def)
  define mem1 where "mem1 = take ptr mem @ (bs @ [0]) @ drop (ptr + length (bs @ [0])) mem"
  have m: "nb_memory b1 = Some mem1" "drop ptr mem1 = bs @ 0 # drop (ptr + length bs + 1) mem" "ptr + length bs < length mem1"
    using assms(1,3) by (simp_all add: b1(2) poke_def mem1_def bs_def)
  have dec: "text_decode bs = s" unfolding bs_def by (rule text_round) (use assms(6,8) in auto)
  have rs: "readString ptr (int (length bs)) b1 = s"
  proof (cases "bs = []")
    case True
    then show ?thesis using dec by (simp add: readString_def text_decode_def utf8_decode_empty)
  next
    case False
    then show ?thesis
      using m assms(2) dec by (simp add: readString_def isMemoryRangeValid_def peek_def)
  qed
  have "takeWhile (\<lambda>x. x \<noteq> 0) (take CSTRING_MAX (drop ptr mem1)) = bs"
  proof -
    have "\<forall>x \<in> set bs. x \<noteq> 0" unfolding bs_def using encode_no_zero [OF assms(6,7)] by metis
    then show ?thesis
      using assms(5) by (cases "CSTRING_MAX - length bs")
        (simp_all add: m(2) bs_def [symmetric] takeWhile_eq_all_conv)
  qed
  then have "readCString ptr b1 = readString ptr (int (length bs)) b1"
    using m assms(2) by (simp add: readCString_def)
  with rs b1(1) show ?thesis by (simp add: bs_def)
qed


definition demo_memory :: js_bridge where
  "demo_memory = (new_bridge (Some (replicate 16 7)))\<lparr>nb_handles := [Nil, Undef, Nil, Global, JStr [0xE9, 0x41]]\<rparr>"

lemma demo_string:
  "text_encode [0xE9, 0x41] = [0xC3, 0xA9, 0x41]"
  by (simp add: text_encode_def high_surrogate_def low_surrogate_def utf8_def)

theorem napi_string_crosses_witness:
  "readCString 4 (snd (writeString 4 [0xE9, 0x41] 8 demo_memory)) = [0xE9, 0x41]"
proof -
  have call: "napi_get_value_string_utf8 (\<lambda>v. []) 4 4 8 0 demo_memory = Some (0, snd (writeString 4 [0xE9, 0x41] 8 demo_memory))"
    by (simp add: napi_get_value_string_utf8_def demo_memory_def getHandle_def split_beta)
  have "0 = (0 :: nat) \<and> readCString 4 (snd (writeString 4 [0xE9, 0x41] 8 demo_memory)) = [0xE9, 0x41]
    \<and> readString 4 (int (length (text_encode [0xE9, 0x41]))) (snd (writeString 4 [0xE9, 0x41] 8 demo_memory)) = [0xE9, 0x41]"
    by (rule napi_string_crosses [OF _ _ _ _ _ _ _ _ _ call, where mem = "replicate 16 7"])
      (simp_all add: demo_string demo_memory_def new_bridge_def getHandle_def CSTRING_MAX_def high_surrogate_def low_surrogate_def)
  then show ?thesis by blast
qed

text \<open>Integers.\<close>

lemma le32_read:
  "ucast (ucast w :: byte) OR push_bit 8 (ucast (ucast (drop_bit 8 w) :: byte))
     OR push_bit 16 (ucast (ucast (drop_bit 16 w) :: byte)) OR push_bit 24 (ucast (ucast (drop_bit 24 w) :: byte)) = (w :: 32 word)"
proof (rule bit_word_eqI)
  fix n assume "n < LENGTH(32)"
  then consider "n < 8" | "8 \<le> n" "n < 16" | "16 \<le> n" "n < 24" | "24 \<le> n" "n < 32" by fastforce
  then show "bit (ucast (ucast w :: byte) OR push_bit 8 (ucast (ucast (drop_bit 8 w) :: byte))
     OR push_bit 16 (ucast (ucast (drop_bit 16 w) :: byte)) OR push_bit 24 (ucast (ucast (drop_bit 24 w) :: byte)) :: 32 word) n
    = bit w n"
    by cases (auto simp: bit_simps)
qed

lemma read_written:
  assumes "ptr \<noteq> 0" "isMemoryRangeValid ptr 4 b"
  shows "readU32 ptr (writeI32 ptr value b) = word_of_int value"
proof -
  obtain m where m: "nb_memory b = Some m" "ptr + 4 \<le> length m"
    using assms(2) by (auto simp: isMemoryRangeValid_def split: option.splits)
  have "peek ptr 4 (writeI32 ptr value b) = le32 (word_of_int value)"
    using assms m by (simp add: writeI32_def poke_def peek_def)
  then show ?thesis by (simp add: readU32_def le32_def le32_read)
qed


text \<open>
  A 32-bit integer crosses in both directions: the handle made for a number gives that number
  back to native code in memory, and a number beyond the width comes back wrapped to it.
\<close>

theorem napi_int32_crosses:
  assumes "handles_ok b" "createHandle (JNum n) b = (h, b1)" "resultPtr \<noteq> 0" "isMemoryRangeValid resultPtr 4 b"
    and "napi_get_value_int32 h resultPtr b1 = Some (st, b2)"
  shows "st = NAPI_OK \<and> sint (readU32 resultPtr b2) = signed_take_bit 31 n
    \<and> (if - (2 ^ 31) \<le> n \<and> n < 2 ^ 31 then sint (readU32 resultPtr b2) = n else True)"
proof -
  have "getHandle h b1 = Some (JNum n)" "nb_memory b1 = nb_memory b" using create_ok(2,5) [OF assms(1,2)] by auto
  moreover from this(2) have "isMemoryRangeValid resultPtr 4 b1" using assms(4) by (simp add: isMemoryRangeValid_def)
  ultimately have "st = NAPI_OK" "readU32 resultPtr b2 = word_of_int n"
    using assms(3,5) read_written by (auto simp: napi_get_value_int32_def number_of_def)
  moreover have "sint (word_of_int n :: 32 word) = signed_take_bit 31 n" by (simp add: sint_uint unsigned_of_int signed_take_bit_take_bit)
  ultimately show ?thesis by (simp add: signed_take_bit_int_eq_self)
qed

section \<open>Callbacks and deferreds\<close>

lemma create_visible:
  assumes "handles_ok b" "createHandle v b = (h, b')"
  shows "h < length (nb_handles b') \<and> h \<notin> set (nb_free b')"
proof -
  note c = create_ok [OF assms]
  have "h < length (nb_handles b')" using c(2) by (simp add: getHandle_def split: if_splits)
  moreover have "h \<notin> set (nb_free b')"
  proof (cases "plain_value v")
    case True
    then show ?thesis using c(1,11) held_not_free by blast
  next
    case False
    then have "h \<le> 3" using c(10) by simp
    moreover have "\<forall>x \<in> set (nb_free b'). 4 \<le> x" using c(1) by (simp add: handles_ok_def)
    ultimately show ?thesis by fastforce
  qed
  ultimately show ?thesis ..
qed

lemma create_all_ok:
  "handles_ok b \<Longrightarrow> create_all vs b = (hs, b') \<Longrightarrow>
     handles_ok b' \<and> map (\<lambda>h. getHandle h b') hs = map Some vs \<and> nb_callbackInfos b' = nb_callbackInfos b
     \<and> nb_nextCallbackInfo b' = nb_nextCallbackInfo b
     \<and> (\<forall>g. g < length (nb_handles b) \<and> g \<notin> set (nb_free b) \<longrightarrow>
           getHandle g b' = getHandle g b \<and> g < length (nb_handles b') \<and> g \<notin> set (nb_free b'))"
proof (induction vs arbitrary: b hs)
  case Nil
  then show ?case by simp
next
  case (Cons v vs)
  obtain h b1 hs' where c: "createHandle v b = (h, b1)" "create_all vs b1 = (hs', b')" "hs = h # hs'"
    using Cons.prems(2) by (auto split: prod.splits)
  note one = create_ok [OF Cons.prems(1) c(1)]
  note rest = Cons.IH [OF one(1) c(2)]
  have keep: "getHandle g b' = getHandle g b \<and> g < length (nb_handles b') \<and> g \<notin> set (nb_free b')"
    if "g < length (nb_handles b)" "g \<notin> set (nb_free b)" for g
  proof -
    have "getHandle g b1 = getHandle g b" "g \<notin> set (nb_free b1)" using one(9) [of g] that by auto
    moreover from this(1) have "g < length (nb_handles b1)" using that(1) by (simp add: getHandle_def split: if_splits)
    ultimately show ?thesis using rest by simp
  qed
  have "getHandle h b' = Some v" using rest create_visible [OF Cons.prems(1) c(1)] one(2) by simp
  with rest keep one(6,7) show ?case by (simp add: c(3))
qed

lemma create_all_not_free:
  "handles_ok b \<Longrightarrow> create_all vs b = (hs, b') \<Longrightarrow> g \<in> set hs \<Longrightarrow> g \<notin> set (nb_free b')"
proof (induction vs arbitrary: b hs)
  case (Cons v vs)
  obtain h b1 hs' where c: "createHandle v b = (h, b1)" "create_all vs b1 = (hs', b')" "hs = h # hs'"
    using Cons.prems(2) by (auto split: prod.splits)
  have ok: "handles_ok b1" using create_ok(1) [OF Cons.prems(1) c(1)] .
  show ?case
  proof (cases "g = h")
    case True
    then show ?thesis using create_all_ok [OF ok c(2)] create_visible [OF Cons.prems(1) c(1)] by blast
  next
    case False
    then show ?thesis using Cons.IH [OF ok c(2)] Cons.prems(3) c(3) by simp
  qed
qed simp

text \<open>
  A function made by native code is called with its arguments and its \<open>this\<close>: the native code
  finds them, in order and complete, behind the handles of the callback record, with the data
  pointer of the function, and when it returns the record is gone.
\<close>

theorem napi_callback_arguments:
  assumes "handles_ok b"
  shows "\<exists>cbinfo info b3. call_native native dflt this args data b =
      (let (r, b4) = native cbinfo b3
       in (case r of None \<Rightarrow> None | Some h \<Rightarrow> if h > 0 then getHandle h b4 else Some dflt,
           foldl (\<lambda>b h. freeHandle h b) (b4\<lparr>nb_callbackInfos := AList.delete cbinfo (nb_callbackInfos b4)\<rparr>)
             (cb_args info @ [cb_this info])))
    \<and> cbinfo = nb_nextCallbackInfo b \<and> nb_nextCallbackInfo b3 = Suc cbinfo
    \<and> map_of (nb_callbackInfos b3) cbinfo = Some info
    \<and> map (\<lambda>h. getHandle h b3) (cb_args info) = map Some args \<and> getHandle (cb_this info) b3 = Some this
    \<and> cb_data info = data \<and> handles_ok b3"
proof -
  obtain hs b1 where c1: "create_all args b = (hs, b1)" by fastforce
  obtain h b2 where c2: "createHandle this b1 = (h, b2)" by fastforce
  define info where "info = \<lparr>cb_this = h, cb_args = hs, cb_data = data\<rparr>"
  define b3 where "b3 = b2\<lparr>nb_nextCallbackInfo := Suc (nb_nextCallbackInfo b2),
      nb_callbackInfos := AList.update (nb_nextCallbackInfo b2) info (nb_callbackInfos b2)\<rparr>"
  note all = create_all_ok [OF assms c1]
  note one = create_ok [OF conjunct1 [OF all] c2]
  have "map (\<lambda>h. getHandle h b2) hs = map (\<lambda>h. getHandle h b1) hs"
  proof (rule map_cong)
    fix g assume g: "g \<in> set hs"
    show "getHandle g b2 = getHandle g b1"
    proof (cases "g \<in> set (nb_free b1)")
      case False
      moreover have "getHandle g b1 \<noteq> None" using all g by (metis in_set_conv_nth length_map nth_map option.distinct(1))
      then have "g < length (nb_handles b1)" by (simp add: getHandle_def split: if_splits)
      ultimately show ?thesis using one(9) by blast
    next
      case True
      then show ?thesis using create_all_not_free [OF assms c1] g by blast
    qed
  qed simp
  moreover have same: "getHandle g b3 = getHandle g b2" for g by (simp add: b3_def getHandle_def)
  ultimately have args: "map (\<lambda>h. getHandle h b3) hs = map Some args" using all by simp
  have "call_native native dflt this args data b =
      (let (r, b4) = native (nb_nextCallbackInfo b) b3
       in (case r of None \<Rightarrow> None | Some h \<Rightarrow> if h > 0 then getHandle h b4 else Some dflt,
           foldl (\<lambda>b h. freeHandle h b) (b4\<lparr>nb_callbackInfos := AList.delete (nb_nextCallbackInfo b) (nb_callbackInfos b4)\<rparr>)
             (cb_args info @ [cb_this info])))"
    using all one(7) by (simp only: call_native_def c1 c2 Let_def prod.case b3_def info_def callback_info.simps)
  moreover have "handles_ok b3" using one(1) by (simp add: b3_def handles_ok_def)
  ultimately show ?thesis
    using args one(2,7) all
    by (intro exI [of _ "nb_nextCallbackInfo b"] exI [of _ info] exI [of _ b3])
      (simp add: same, simp add: b3_def info_def map_of_AList_update)
qed


definition first_argument :: native_code where
  "first_argument cbinfo b = (map_option (\<lambda>info. hd (cb_args info)) (map_of (nb_callbackInfos b) cbinfo), b)"

theorem napi_callback_arguments_witness:
  "\<exists>cbinfo info b3. call_native first_argument Undef Global [JNum 1, JNum 2] 0 (new_bridge None) =
      (let (r, b4) = first_argument cbinfo b3
       in (case r of None \<Rightarrow> None | Some h \<Rightarrow> if h > 0 then getHandle h b4 else Some Undef,
           foldl (\<lambda>b h. freeHandle h b) (b4\<lparr>nb_callbackInfos := AList.delete cbinfo (nb_callbackInfos b4)\<rparr>)
             (cb_args info @ [cb_this info])))
    \<and> cbinfo = nb_nextCallbackInfo (new_bridge None) \<and> nb_nextCallbackInfo b3 = Suc cbinfo
    \<and> map_of (nb_callbackInfos b3) cbinfo = Some info
    \<and> map (\<lambda>h. getHandle h b3) (cb_args info) = map Some [JNum 1, JNum 2] \<and> getHandle (cb_this info) b3 = Some Global
    \<and> cb_data info = 0 \<and> handles_ok b3"
  by (rule napi_callback_arguments [OF handles_ok_new])

text \<open>Settling: a promise is settled at most once, whatever calls are made with its deferred.\<close>

definition deferreds_ok :: "js_bridge \<Rightarrow> bool" where
  "deferreds_ok b \<longleftrightarrow> distinct (map fst (nb_deferreds b)) \<and> distinct (map snd (nb_deferreds b) @ map fst (nb_settled b))
     \<and> (\<forall>d \<in> set (map fst (nb_deferreds b)). d < nb_nextDeferredId b)
     \<and> (\<forall>p \<in> set (map snd (nb_deferreds b)) \<union> set (map fst (nb_settled b)). p < nb_nextObject b)"

datatype deferred_op = MakePromise nat nat | Resolve nat nat | Reject nat nat

definition deferred_call :: "deferred_op \<Rightarrow> napi_call" where
  "deferred_call op b =
     (case op of
        MakePromise d p \<Rightarrow> napi_create_promise d p b
      | Resolve d h \<Rightarrow> napi_resolve_deferred d h b
      | Reject d h \<Rightarrow> napi_reject_deferred d h b)"

fun deferred_run :: "deferred_op list \<Rightarrow> js_bridge \<Rightarrow> js_bridge" where
  "deferred_run [] b = b"
| "deferred_run (op # ops) b = deferred_run ops (case deferred_call op b of Some (st, b') \<Rightarrow> b' | None \<Rightarrow> b)"

lemma deferred_frame [simp]:
  "nb_deferreds (writeI32 ptr x b) = nb_deferreds b" "nb_settled (writeI32 ptr x b) = nb_settled b"
  "nb_nextDeferredId (writeI32 ptr x b) = nb_nextDeferredId b" "nb_nextObject (writeI32 ptr x b) = nb_nextObject b"
  "nb_deferreds (setLastError st m b) = nb_deferreds b" "nb_settled (setLastError st m b) = nb_settled b"
  "nb_nextDeferredId (setLastError st m b) = nb_nextDeferredId b" "nb_nextObject (setLastError st m b) = nb_nextObject b"
  "nb_deferreds (track h b) = nb_deferreds b" "nb_settled (track h b) = nb_settled b"
  "nb_nextDeferredId (track h b) = nb_nextDeferredId b" "nb_nextObject (track h b) = nb_nextObject b"
  by (simp_all add: writeI32_def poke_def setLastError_def track_def split: option.split)

lemma deferred_create [simp]:
  "nb_deferreds (snd (createHandle v b)) = nb_deferreds b" "nb_settled (snd (createHandle v b)) = nb_settled b"
  "nb_nextDeferredId (snd (createHandle v b)) = nb_nextDeferredId b" "nb_nextObject (snd (createHandle v b)) = nb_nextObject b"
  by (simp_all add: createHandle_def split: js_value.split list.split)

lemma deferreds_settle:
  assumes "deferreds_ok b" "settle_deferred f d h b = Some (st, b')"
  shows "deferreds_ok b'"
proof (cases "map_of (nb_deferreds b) d")
  case None
  then show ?thesis using assms by (simp add: settle_deferred_def)
next
  case (Some p)
  then obtain v where b': "b' = setLastError 0 [] (b\<lparr>nb_settled := nb_settled b @ [(p, f v)], nb_deferreds := AList.delete d (nb_deferreds b)\<rparr>)"
    using assms(2) by (auto simp: settle_deferred_def split: option.splits)
  obtain xs ys where split: "nb_deferreds b = xs @ (d, p) # ys" using map_of_SomeD [OF Some] by (meson split_list)
  have out: "d \<notin> fst ` set xs" "d \<notin> fst ` set ys" using assms(1) by (auto simp: deferreds_ok_def split)
  have "AList.delete d zs = zs" if "d \<notin> fst ` set zs" for zs :: "(nat \<times> nat) list"
    using that by (induction zs) auto
  moreover have "AList.delete d (xs @ (d, p) # ys) = AList.delete d xs @ AList.delete d ys" by (induction xs) auto
  ultimately have "AList.delete d (nb_deferreds b) = xs @ ys" using out by (simp add: split)
  then show ?thesis using assms(1) by (auto simp: b' deferreds_ok_def split)
qed

lemma deferreds_step:
  assumes "deferreds_ok b" "deferred_call op b = Some (st, b')"
  shows "deferreds_ok b'"
proof (cases op)
  case (MakePromise d p)
  have new: "AList.update (nb_nextDeferredId b) (nb_nextObject b) (nb_deferreds b)
      = nb_deferreds b @ [(nb_nextDeferredId b, nb_nextObject b)]"
    using assms(1) by (intro keys_update_new) (auto simp: deferreds_ok_def)
  have "b' = snd (the (napi_create_promise d p b))" using assms(2) MakePromise by (simp add: deferred_call_def)
  then have fields: "nb_deferreds b' = nb_deferreds b @ [(nb_nextDeferredId b, nb_nextObject b)]" "nb_settled b' = nb_settled b"
    "nb_nextDeferredId b' = Suc (nb_nextDeferredId b)" "nb_nextObject b' = Suc (nb_nextObject b)"
    by (simp_all add: napi_create_promise_def Let_def give_def writePointer_def new split_beta)
  have "\<forall>x \<in> set (map fst (nb_deferreds b)). x < nb_nextDeferredId b"
    "\<forall>x \<in> set (map snd (nb_deferreds b)) \<union> set (map fst (nb_settled b)). x < nb_nextObject b"
    using assms(1) by (simp_all add: deferreds_ok_def)
  then have "nb_nextDeferredId b \<notin> set (map fst (nb_deferreds b))"
    "nb_nextObject b \<notin> set (map snd (nb_deferreds b)) \<union> set (map fst (nb_settled b))" by blast+
  then show ?thesis using assms(1) unfolding deferreds_ok_def fields by (auto intro: less_SucI)
qed (use assms deferreds_settle in \<open>auto simp: deferred_call_def napi_resolve_deferred_def napi_reject_deferred_def\<close>)

text \<open>
  C36. A promise settles at most once: after any calls of \<open>napi_create_promise\<close>,
  \<open>napi_resolve_deferred\<close> and \<open>napi_reject_deferred\<close>, with any numbers for deferreds and handles, no
  promise appears twice among the settled ones, and a call with a deferred that is not pending
  reports an invalid argument and changes nothing.
\<close>

theorem napi_settles_once:
  "distinct (map fst (nb_settled (deferred_run ops (new_bridge mem))))
    \<and> (case map_of (nb_deferreds b) d of
         None \<Rightarrow> napi_resolve_deferred d h b = Some (NAPI_INVALID_ARG, b) \<and> napi_reject_deferred d h b = Some (NAPI_INVALID_ARG, b)
       | Some p \<Rightarrow> True)"
proof -
  have "deferreds_ok b0 \<Longrightarrow> deferreds_ok (deferred_run ops b0)" for b0
    by (induction ops arbitrary: b0) (auto dest: deferreds_step split: option.split)
  moreover have "deferreds_ok (new_bridge mem)" by (simp add: deferreds_ok_def new_bridge_def)
  ultimately have "deferreds_ok (deferred_run ops (new_bridge mem))" by blast
  then show ?thesis
    by (simp add: deferreds_ok_def napi_resolve_deferred_def napi_reject_deferred_def settle_deferred_def split: option.split)
qed


section \<open>Where the guarantees end\<close>

lemmas bridge_run = new_bridge_def openHandleScope_def closeHandleScope_def createHandle_def track_def freeHandle_def
  getHandle_def setLastError_def writeI32_def Let_def

text \<open>
  The handles of a callback are freed when it returns and once more when the scope they were created
  in closes: the slot is then free twice, and two values that are created next share one handle.
\<close>

lemma callback_frees_twice:
  "(let b1 = snd (call_function (\<lambda>cbinfo b. (Some 1, b)) Undef [JObj 0] 0 (openHandleScope (new_bridge None)));
        b2 = snd (closeHandleScope b1); (h1, b3) = createHandle (JObj 1) b2; (h2, b4) = createHandle (JObj 2) b3
    in h1 = h2 \<and> getHandle h1 b3 = Some (JObj 1) \<and> getHandle h1 b4 = Some (JObj 2))"
  by (simp add: bridge_run call_function_def call_native_def)

text \<open>
  The table of wraps by handle is not cleared when the handle is freed: an object that gets the slot
  next is taken to be wrapped, with the native pointer of the other one, and cannot be wrapped itself.
\<close>

lemma stale_wrap_found:
  "(let (h, b1) = createHandle (JObj 0) (openHandleScope (new_bridge None));
        b2 = snd (the (napi_wrap h 77 0 0 0 b1)); b3 = snd (closeHandleScope b2); (h', b4) = createHandle (JObj 1) b3
    in h' = h \<and> map_option wd_ptr (find_wrap h' (JObj 1) b4) = Some 77
     \<and> fst (the (napi_unwrap h' 0 b4)) = NAPI_OK \<and> fst (the (napi_wrap h' 88 0 0 0 b4)) = NAPI_INVALID_ARG)"
  by (simp add: bridge_run napi_wrap_def napi_unwrap_def find_wrap_def wrap_of_def is_object_def)

text \<open>A wrap cannot be removed through another handle of the object, such as \<open>this\<close> in a later callback.\<close>

lemma remove_wrap_other_handle:
  "(let (h, b1) = createHandle (JObj 0) (new_bridge None); b2 = snd (the (napi_wrap h 77 0 0 0 b1));
        (h', b3) = createHandle (JObj 0) b2
    in h' \<noteq> h \<and> fst (the (napi_unwrap h' 0 b3)) = NAPI_OK
     \<and> fst (the (napi_remove_wrap (\<lambda>b. b) h' 0 b3)) = NAPI_INVALID_ARG)"
  by (simp add: bridge_run napi_wrap_def napi_unwrap_def napi_remove_wrap_def find_wrap_def wrap_of_def is_object_def)

text \<open>
  An exception thrown in a scope that closes before it is fetched is lost: its handle is free, and
  may already stand for another value. An exception native code sets in a callback is not thrown at all.
\<close>

lemma pending_exception_dangles:
  "(let b1 = setPendingException (\<lambda>v. []) (JErr 0 PlainError None []) (openHandleScope (new_bridge None));
        b2 = snd (closeHandleScope b1); (h, b3) = createHandle (JObj 1) b2
    in nb_pending b3 = Some h \<and> getHandle h b3 = Some (JObj 1))"
  by (simp add: bridge_run setPendingException_def)

lemma native_exception_ignored:
  "(let (r, b) = call_function (\<lambda>cbinfo b. (Some 0, setPendingException (\<lambda>v. []) (JErr 0 PlainError None []) b)) Undef [] 0 (new_bridge None)
    in r = Some Undef \<and> nb_pending b \<noteq> None)"
  by (simp add: bridge_run call_function_def call_native_def setPendingException_def)

text \<open>
  References to one value share one counter: a second one resets it, and deleting either empties both.
  A reference with a count of zero is empty at once, and one that drops to zero cannot be taken up again.
\<close>

lemma references_share_counter:
  "(let b1 = snd (createHandle (JObj 0) (new_bridge None)); b2 = snd (the (napi_create_reference 4 2 0 b1));
        b3 = snd (the (napi_create_reference 4 1 0 b2)); b4 = snd (the (napi_delete_reference 4 b3))
    in map_of (nb_refs b3) 4 = Some \<lparr>rf_count = 1, rf_weak = False\<rparr> \<and> map_of (nb_refs b4) 4 = None)"
  by (simp add: bridge_run napi_create_reference_def napi_delete_reference_def put_wrap_count_def)

lemma weak_reference_empty:
  assumes "nb_refs b = []" "nb_wrapRegistry b = []" "resultPtr \<noteq> 0" "isMemoryRangeValid resultPtr 4 b"
  shows "readU32 resultPtr (snd (the (napi_get_reference_value h resultPtr (snd (the (napi_create_reference h 0 0 b)))))) = 0"
proof -
  define b1 where "b1 = snd (the (napi_create_reference h 0 0 b))"
  have "nb_memory b1 = nb_memory b" "map_of (nb_refs b1) h = Some \<lparr>rf_count = 0, rf_weak = False\<rparr>"
    using assms(1,2) by (simp_all add: b1_def napi_create_reference_def writeI32_def put_wrap_count_def setLastError_def)
  moreover have "readU32 resultPtr (setLastError st m b') = readU32 resultPtr b'" for st m b'
    by (simp add: readU32_def peek_def)
  ultimately show ?thesis
    using assms(3,4) read_written [of resultPtr b1 0]
    by (simp add: b1_def [symmetric] napi_get_reference_value_def isMemoryRangeValid_def)
qed

lemma unref_then_ref_fails:
  "(let b1 = snd (the (napi_create_reference 4 1 0 (snd (createHandle (JObj 0) (new_bridge None)))));
        b2 = snd (the (napi_reference_unref 4 0 b1))
    in fst (the (napi_reference_ref 4 0 b2)) = NAPI_GENERIC_FAILURE)"
  by (simp add: bridge_run napi_create_reference_def napi_reference_unref_def napi_reference_ref_def put_wrap_count_def)

text \<open>Latin-1 strings are decoded as UTF-8.\<close>

lemma latin1_read_as_utf8: "text_decode [0xE9] = [0xFFFD]"
  by (simp add: text_decode_def, subst utf8_decode.simps, simp, subst utf8_decode.simps, simp add: utf16_def)

text \<open>Arguments the caller did not pass are not filled with \<open>undefined\<close>: the array keeps what was there.\<close>

lemma missing_arguments_unset:
  assumes "map_of (nb_callbackInfos b) cbinfo = Some \<lparr>cb_this = t, cb_args = [], cb_data = 0\<rparr>" "nb_memory b = Some mem"
    and "napi_get_cb_info cbinfo 0 argvPtr 0 0 b = Some (st, b')"
  shows "nb_memory b' = Some mem"
  using assms by (auto simp: napi_get_cb_info_def set_word_def split: if_splits option.splits)

end
