(* ===== verification/Npm_Remove.thy ===== *)
theory Npm_Remove
  imports Memfs_Run
begin

text \<open>
  \<open>_rmrfMemfs\<close> of \<open>napi-bridge/npm.js\<close> removes a file or a directory with all it holds. The fuel is the
  depth of the tree; as many units as there are inodes are enough, and then the view of the file
  system afterwards is the old one without the paths below the removed one.
\<close>

text \<open>\<open>for (const x of xs) f(x)\<close>, left by the first exception.\<close>

fun for_names :: "('a \<Rightarrow> fs \<Rightarrow> (js_exn + unit) \<times> fs) \<Rightarrow> 'a list \<Rightarrow> fs \<Rightarrow> (js_exn + unit) \<times> fs" where
  "for_names f [] s = (Inr (), s)"
| "for_names f (x # xs) s =
     (case f x s of (Inl e, s1) \<Rightarrow> (Inl e, s1) | (Inr _, s1) \<Rightarrow> for_names f xs s1)"

primrec rmrf :: "nat \<Rightarrow> string \<Rightarrow> fs \<Rightarrow> (js_exn + unit) \<times> fs" where
  "rmrf 0 path s = (Inr (), s)"
| "rmrf (Suc k) path s =
     (case stat path s of
        (Inl e, s1) \<Rightarrow> (Inr (), s1)
      | (Inr st, s1) \<Rightarrow>
          if stats_isDirectory st then
            (case readdir path s1 of
               (Inl e, s2) \<Rightarrow> (Inl e, s2)
             | (Inr es, s2) \<Rightarrow>
                 (case for_names (\<lambda>n. rmrf k (path @ slash # n)) (map fst es) s2 of
                    (Inl e, s3) \<Rightarrow> (Inl e, s3)
                  | (Inr _, s3) \<Rightarrow> (Inr (), snd (rmdir path s3))))
          else (Inr (), snd (unlink path s1)))"

lemma fs_wf_for_names: "(\<And>x s. fs_wf s \<Longrightarrow> fs_wf (snd (f x s))) \<Longrightarrow> fs_wf s \<Longrightarrow> fs_wf (snd (for_names f xs s))"
proof (induction xs arbitrary: s)
  case (Cons x xs)
  have "fs_wf (snd (f x s))" using Cons.prems by blast
  then show ?case using Cons by (cases "f x s"; cases "fst (f x s)") auto
qed simp

lemma fs_wf_rmrf: "fs_wf s \<Longrightarrow> fs_wf (snd (rmrf k path s))"
proof (induction k arbitrary: path s)
  case (Suc k)
  have st: "fs_wf (snd (stat path s))" by (rule fs_wf_stat [OF Suc.prems])
  have rd: "fs_wf (snd (readdir path (snd (stat path s))))" by (rule fs_wf_readdir [OF st])
  have "fs_wf (snd (for_names (\<lambda>n. rmrf k (path @ slash # n)) ns (snd (readdir path (snd (stat path s))))))" for ns
    by (rule fs_wf_for_names [OF Suc.IH rd])
  then show ?case
    using st rd by (auto simp: fs_wf_unlink split: prod.splits sum.splits intro!: fs_wf_rmdir) (metis snd_conv)+
qed simp

section \<open>Listing and looking\<close>

lemma comps_child:
  assumes "plain_name n"
  shows "comps (p @ slash # n) = comps p @ [n]"
proof -
  have "slash \<notin> set n" "n \<noteq> []" "n \<noteq> ''.''" "n \<noteq> ''..''" using assms by (auto simp: plain_name_def)
  moreover have "path_parts (p @ slash # n) = path_parts p @ path_parts n" by (rule path_parts_append_slash)
  moreover have "path_parts n = [n]"
    using calculation(1,2) by (simp add: path_parts_def drop_empty_def split_on_no_sep)
  ultimately show ?thesis by (simp add: norm_parts_def norm_step_def)
qed

lemma readdir_view:
  assumes "fs_wf s" "view s (comps p) = Some DirV"
  obtains es s1 where "readdir p s = (Inr es, s1)" "fs_wf s1" "view s1 = view s"
    "\<And>n. n \<in> set (map fst es) \<longleftrightarrow> view s (comps p @ [n]) \<noteq> None"
proof -
  obtain a m where a: "walk s (comps p) = Some a" "dir_of s a = Some m"
    using assms(2) by (auto simp: view_DirV)
  let ?es = "map (\<lambda>(n, c). (n, if dir_of s c \<noteq> None then DirT else FileT)) m"
  have "readdir p s = (Inr ?es, touch_atime a s)" using a by (simp add: readdir_def resolve_walk)
  moreover have "n \<in> set (map fst ?es) \<longleftrightarrow> view s (comps p @ [n]) \<noteq> None" for n
  proof -
    have "view s (comps p @ [n]) \<noteq> None \<longleftrightarrow> map_of m n \<noteq> None"
      using a by (auto simp: view_def walk_snoc_eq)
    also have "\<dots> \<longleftrightarrow> n \<in> set (keys m)" by (simp add: map_of_eq_None_iff)
    finally show ?thesis by force
  qed
  ultimately show thesis
    using that [of ?es "touch_atime a s"] fs_wf_touch [OF assms(1)] view_touch by blast
qed

section \<open>What is left\<close>

definition without :: "string list \<Rightarrow> vfs \<Rightarrow> vfs" where
  "without ps v = (\<lambda>qs. if prefix ps qs then None else v qs)"

definition named_view :: "vfs \<Rightarrow> bool" where
  "named_view v \<longleftrightarrow> (\<forall>qs. v qs \<noteq> None \<longrightarrow> list_all plain_name qs)"

definition shallow :: "nat \<Rightarrow> string list \<Rightarrow> vfs \<Rightarrow> bool" where
  "shallow k ps v \<longleftrightarrow> (\<forall>qs. prefix ps qs \<longrightarrow> v qs \<noteq> None \<longrightarrow> length qs < length ps + k)"

definition without_all :: "string list \<Rightarrow> string list \<Rightarrow> vfs \<Rightarrow> vfs" where
  "without_all ps ns v = (\<lambda>qs. if \<exists>n \<in> set ns. prefix (ps @ [n]) qs then None else v qs)"

lemma names_ok_view: "names_ok s \<longleftrightarrow> named_view (view s)"
  by (auto simp: named_view_def names_ok_def view_def)

lemma view_prefix: "view s qs \<noteq> None \<Longrightarrow> prefix ps qs \<Longrightarrow> view s ps \<noteq> None"
proof (induction qs rule: rev_induct)
  case (snoc x qs)
  then show ?case using view_parent [of s qs x] by (auto simp: prefix_snoc)
qed simp

lemma without_gone: "view s ps = None \<Longrightarrow> without ps (view s) = view s"
proof
  fix qs
  assume "view s ps = None"
  then show "without ps (view s) qs = view s qs"
    using view_prefix [of s qs ps] by (cases "view s qs") (auto simp: without_def)
qed

lemma for_names_rmrf:
  assumes rm: "\<And>s n. fs_wf s \<Longrightarrow> named_view (view s) \<Longrightarrow> shallow k (comps (path @ slash # n)) (view s) \<Longrightarrow> plain_name n \<Longrightarrow>
      \<exists>t. f n s = (Inr (), t) \<and> fs_wf t \<and> view t = without (comps path @ [n]) (view s)"
    and "fs_wf s" "named_view (view s)" "shallow (Suc k) (comps path) (view s)" "list_all plain_name ns"
  shows "\<exists>t. for_names f ns s = (Inr (), t) \<and> fs_wf t \<and> view t = without_all (comps path) ns (view s)"
  using assms(2-)
proof (induction ns arbitrary: s)
  case Nil
  then show ?case by (simp add: without_all_def)
next
  case (Cons n ns)
  have n: "plain_name n" using Cons.prems(4) by simp
  have "shallow k (comps (path @ slash # n)) (view s)"
    using Cons.prems(3) unfolding shallow_def comps_child [OF n]
    by (force dest: append_prefixD)
  from rm [OF Cons.prems(1,2) this n] obtain t where
    t: "f n s = (Inr (), t)" "fs_wf t" "view t = without (comps path @ [n]) (view s)" by blast
  have "named_view (view t)" "shallow (Suc k) (comps path) (view t)"
    using Cons.prems(2,3) unfolding t(3) by (auto simp: named_view_def shallow_def without_def)
  from Cons.IH [OF t(2) this] Cons.prems(4) obtain u where
    u: "for_names f ns t = (Inr (), u)" "fs_wf u" "view u = without_all (comps path) ns (view t)" by auto
  have "view u = without_all (comps path) (n # ns) (view s)"
    unfolding u(3) t(3) by (auto simp: without_all_def without_def fun_eq_iff)
  then show ?case using t(1) u(1,2) by simp
qed

lemma rmrf_spec:
  "fs_wf s \<Longrightarrow> named_view (view s) \<Longrightarrow> comps path \<noteq> [] \<Longrightarrow> shallow k (comps path) (view s) \<Longrightarrow>
   \<exists>t. rmrf (Suc k) path s = (Inr (), t) \<and> fs_wf t \<and> view t = without (comps path) (view s)"
proof (induction k arbitrary: path s)
  case 0
  have "view s (comps path) = None" using 0(4) by (force simp: shallow_def)
  moreover note without_gone [OF this]
  ultimately show ?case
    using stat_view [OF 0(1), of path] 0(1) by (auto split: prod.splits sum.splits)
next
  case (Suc k)
  let ?ps = "comps path"
  show ?case
  proof (cases "view s ?ps")
    case None
    then have "without ?ps (view s) = view s" by (rule without_gone)
    then show ?thesis
      using stat_view [OF Suc.prems(1), of path] None Suc.prems(1)
      by (auto simp del: rmrf.simps(1) split: prod.splits sum.splits)
  next
    case (Some x)
    obtain st s1 where st: "stat path s = (Inr st, s1)" "fs_wf s1" "view s1 = view s"
      "stats_isDirectory st \<longleftrightarrow> x = DirV"
      using stat_view [OF Suc.prems(1), of path] Some by (auto split: prod.splits sum.splits)
    show ?thesis
    proof (cases x)
      case (FileV d)
      have "view (snd (unlink path s1)) = (view s)(?ps := None)"
        using unlink_spec [OF st(2) Suc.prems(3)] Some FileV st(3) by (simp add: agrees_def spec_unlink_def)
      also have "\<dots> = without ?ps (view s)"
      proof
        fix qs
        show "((view s)(?ps := None)) qs = without ?ps (view s) qs"
        proof (cases "prefix ?ps qs \<and> qs \<noteq> ?ps \<and> view s qs \<noteq> None")
          case True
          then obtain r rs where "qs = ?ps @ r # rs" by (metis prefix_def append_Nil2 neq_Nil_conv)
          then have "view s (?ps @ [r]) \<noteq> None" using True view_prefix [of s qs "?ps @ [r]"] by simp
          then have "view s ?ps = Some DirV" by (rule view_parent)
          then show ?thesis using Some FileV by simp
        qed (auto simp: without_def)
      qed
      finally show ?thesis using st FileV fs_wf_unlink by simp
    next
      case DirV
      obtain es s2 where es: "readdir path s1 = (Inr es, s2)" "fs_wf s2" "view s2 = view s1"
        "\<And>n. n \<in> set (map fst es) \<longleftrightarrow> view s1 (?ps @ [n]) \<noteq> None"
        using readdir_view [OF st(2), of path] Some DirV st(3) by auto
      have plain: "list_all plain_name (map fst es)"
        using Suc.prems(2) es(4) unfolding st(3) by (force simp: list_all_iff named_view_def)
      have "\<exists>t. for_names (\<lambda>n. rmrf (Suc k) (path @ slash # n)) (map fst es) s2 = (Inr (), t) \<and> fs_wf t
          \<and> view t = without_all ?ps (map fst es) (view s2)"
      proof (rule for_names_rmrf [OF _ es(2) _ _ plain])
        fix u n assume u: "fs_wf u" "named_view (view u)" "shallow k (comps (path @ slash # n)) (view u)" "plain_name n"
        show "\<exists>t. rmrf (Suc k) (path @ slash # n) u = (Inr (), t) \<and> fs_wf t \<and> view t = without (?ps @ [n]) (view u)"
          using Suc.IH [OF u(1,2) _ u(3)] comps_child [OF u(4), of path] by simp
      qed (use Suc.prems(2,4) es(3) st(3) in simp_all)
      then obtain t where t: "for_names (\<lambda>n. rmrf (Suc k) (path @ slash # n)) (map fst es) s2 = (Inr (), t)" "fs_wf t"
          "view t = without_all ?ps (map fst es) (view s)"
        using es(3) st(3) by auto
      have none: "view t (?ps @ [n]) = None" for n
        using es(4) [of n] st(3) unfolding t(3) by (auto simp: without_all_def)
      have "view t ?ps = Some DirV" using Some DirV unfolding t(3) by (auto simp: without_all_def prefix_def)
      then have "view (snd (rmdir path t)) = (view t)(?ps := None)"
        using rmdir_spec [OF t(2) Suc.prems(3)] none by (simp add: agrees_def spec_rmdir_def)
      also have "\<dots> = without ?ps (view s)"
      proof
        fix qs
        show "((view t)(?ps := None)) qs = without ?ps (view s) qs"
        proof (cases "prefix ?ps qs \<and> qs \<noteq> ?ps")
          case True
          then obtain r rs where "qs = ?ps @ r # rs" by (metis prefix_def append_Nil2 neq_Nil_conv)
          then have "view t qs = None" using none [of r] view_prefix [of t qs "?ps @ [r]"] by (cases "view t qs") auto
          then show ?thesis using True by (simp add: without_def)
        qed (auto simp: without_def without_all_def t(3) dest: append_prefixD)
      qed
      finally show ?thesis
        using st es(1) t(1,2) DirV fs_wf_rmdir [OF t(2), of path] by (simp del: rmrf.simps add: rmrf.simps(2) [of "Suc k"])
    qed
  qed
qed

text \<open>As many units of fuel as there are inodes.\<close>

lemma rmrf_removes:
  assumes "fs_wf s" "names_ok s" "comps path \<noteq> []"
  shows "\<exists>t. rmrf (Suc (fs_inoCounter s)) path s = (Inr (), t) \<and> fs_wf t \<and> view t = without (comps path) (view s)"
proof (rule rmrf_spec [OF assms(1) _ assms(3)])
  show "named_view (view s)" using assms(2) by (simp add: names_ok_view)
  show "shallow (fs_inoCounter s) (comps path) (view s)"
    using walk_length [OF assms(1)] by (fastforce simp: shallow_def view_def)
qed

end
