(* ===== verification/Node_Fs.thy ===== *)
theory Node_Fs
  imports Npm_Remove Js_Text
begin

text \<open>
  The \<open>fs\<close> builtin (\<open>createFsModule\<close> of \<open>napi-bridge/fs.js\<close>): the synchronous functions with their
  flags and encodings, the watchers they notify, and the file streams. The callback and the promise
  variants call the synchronous ones and pass on what they return or throw.

  A path is a string; every function resolves it against the working directory first. The
  optional values of an options object are arguments, with the defaults the code gives them. A path is
  ASCII where it is taken apart. The depth of the recursion of \<open>rmSync\<close> is bounded by the engine's stack, which a
  deeper call overflows with a \<open>RangeError\<close>.
\<close>

section \<open>Encodings\<close>

datatype fs_data = DataBytes "byte list" | DataText jstring

datatype fs_text = AsBytes "byte list" | AsText jstring

definition is_utf8 :: "string \<Rightarrow> bool" where
  "is_utf8 enc \<longleftrightarrow> enc = ''utf8'' \<or> enc = ''utf-8''"

definition toBuffer :: "string \<Rightarrow> fs_data \<Rightarrow> byte list" where
  "toBuffer enc d =
     (case d of
        DataBytes bs \<Rightarrow> bs
      | DataText t \<Rightarrow> if enc = [] \<or> is_utf8 enc then text_encode t else map ucast t)"

definition fromBuffer :: "string \<Rightarrow> byte list \<Rightarrow> fs_text" where
  "fromBuffer enc bs =
     (if enc = [] then AsBytes bs
      else if is_utf8 enc then AsText (text_decode bs)
      else AsText (map ucast bs))"

section \<open>State\<close>

text \<open>
  A watcher and a listener of \<open>watchFile\<close> are numbers. A microtask is the watcher it is for, the kind of the
  change and the last component of the path; \<open>nf_seen\<close> is what was delivered. The listeners of
  \<open>watchFile\<close> are told the statistics after and before, \<^term>\<open>None\<close> standing for \<open>zeroStats()\<close>.
\<close>

record stat_watch =
  sw_listeners :: "nat list"
  sw_prev :: "stats option"

record nfs =
  nf_fs :: fs
  nf_cwd :: string
  nf_watchers :: "(string \<times> nat list) list"
  nf_next :: nat
  nf_closed :: "nat set"
  nf_queue :: "(nat \<times> string \<times> string) list"
  nf_seen :: "(nat \<times> string \<times> string) list"
  nf_stat :: "(string \<times> stat_watch) list"
  nf_told :: "(nat \<times> stats option \<times> stats option) list"

definition fs_module :: "fs \<Rightarrow> string \<Rightarrow> nfs" where
  "fs_module s cwd =
     \<lparr>nf_fs = s, nf_cwd = cwd, nf_watchers = [], nf_next = 0, nf_closed = {}, nf_queue = [],
      nf_seen = [], nf_stat = [], nf_told = []\<rparr>"

definition resolved_path :: "nfs \<Rightarrow> string \<Rightarrow> string" where
  "resolved_path st p = resolvePath p (nf_cwd st)"

text \<open>An operation of the class \<open>MEMFS\<close> run on the module's file system.\<close>

definition on_memfs :: "(fs \<Rightarrow> 'r \<times> fs) \<Rightarrow> nfs \<Rightarrow> 'r \<times> nfs" where
  "on_memfs f st = (let (r, s) = f (nf_fs st) in (r, st\<lparr>nf_fs := s\<rparr>))"

section \<open>Watchers\<close>

text \<open>\<open>path.split('/').pop() || path\<close>\<close>

definition base_of :: "string \<Rightarrow> string" where
  "base_of path = (let b = last (split_on slash path) in if b \<noteq> [] then b else path)"

definition watch_targets :: "string \<Rightarrow> string list" where
  "watch_targets path =
     (if path \<noteq> ''/'' then
        [path, (case last_index_of slash path of
                  None \<Rightarrow> ''/''
                | Some i \<Rightarrow> if i = 0 then ''/'' else take i path)]
      else [path])"

definition emitWatchEvent :: "string \<Rightarrow> string \<Rightarrow> nfs \<Rightarrow> nfs" where
  "emitWatchEvent path kind st =
     st\<lparr>nf_queue := nf_queue st @
          concat (map (\<lambda>t. case map_of (nf_watchers st) t of
                             None \<Rightarrow> []
                           | Some ws \<Rightarrow> map (\<lambda>w. (w, kind, base_of path)) ws) (watch_targets path))\<rparr>"

text \<open>The microtasks run: a watcher that was closed in the meantime gets nothing.\<close>

definition run_microtasks :: "nfs \<Rightarrow> nfs" where
  "run_microtasks st =
     st\<lparr>nf_queue := [],
        nf_seen := nf_seen st @ filter (\<lambda>(w, _). w \<notin> nf_closed st) (nf_queue st)\<rparr>"

definition watch :: "string \<Rightarrow> nfs \<Rightarrow> nat \<times> nfs" where
  "watch path st =
     (let r = resolved_path st path; w = nf_next st;
          ws = (case map_of (nf_watchers st) r of Some l \<Rightarrow> l | None \<Rightarrow> [])
      in (w, st\<lparr>nf_next := Suc w, nf_watchers := AList.update r (ws @ [w]) (nf_watchers st)\<rparr>))"

text \<open>\<open>watcher.close()\<close> of the watcher \<open>w\<close> that was made for the resolved path \<open>r\<close>.\<close>

definition watch_close :: "nat \<Rightarrow> string \<Rightarrow> nfs \<Rightarrow> nfs" where
  "watch_close w r st =
     (if w \<in> nf_closed st then st
      else
        let st1 = st\<lparr>nf_closed := insert w (nf_closed st)\<rparr> in
        case map_of (nf_watchers st1) r of
          None \<Rightarrow> st1
        | Some ws \<Rightarrow>
            let ws' = remove1 w ws in
            st1\<lparr>nf_watchers := (if ws' = [] then AList.delete r (nf_watchers st1)
                                else AList.update r ws' (nf_watchers st1))\<rparr>)"

section \<open>The synchronous functions\<close>

text \<open>Run an operation; when it returns, notify the watchers of a path.\<close>

definition then_notify ::
  "string \<Rightarrow> string \<Rightarrow> (js_exn + unit) \<times> nfs \<Rightarrow> (js_exn + unit) \<times> nfs" where
  "then_notify path kind out =
     (case out of
        (Inl e, st) \<Rightarrow> (Inl e, st)
      | (Inr _, st) \<Rightarrow> (Inr (), emitWatchEvent path kind st))"

definition existsSync :: "string \<Rightarrow> nfs \<Rightarrow> bool" where
  "existsSync path st = exists_path (resolved_path st path) (nf_fs st)"

definition readFileSync :: "string \<Rightarrow> string \<Rightarrow> nfs \<Rightarrow> (js_exn + fs_text) \<times> nfs" where
  "readFileSync path enc st =
     (case on_memfs (readFile (resolved_path st path)) st of
        (Inl e, st1) \<Rightarrow> (Inl e, st1)
      | (Inr bs, st1) \<Rightarrow> (Inr (fromBuffer enc bs), st1))"

definition write_resolved :: "string \<Rightarrow> byte list \<Rightarrow> nfs \<Rightarrow> (js_exn + unit) \<times> nfs" where
  "write_resolved resolved body st = then_notify resolved ''change'' (on_memfs (writeFile resolved body) st)"

text \<open>Read what is there, put \<open>body\<close> behind it and write the whole.\<close>

definition append_resolved :: "string \<Rightarrow> byte list \<Rightarrow> nfs \<Rightarrow> (js_exn + unit) \<times> nfs" where
  "append_resolved resolved body st =
     (case on_memfs (readFile resolved) st of
        (Inl e, st1) \<Rightarrow> (Inl e, st1)
      | (Inr existing, st1) \<Rightarrow> write_resolved resolved (existing @ body) st1)"

definition writeFileSync ::
  "string \<Rightarrow> fs_data \<Rightarrow> string \<Rightarrow> string \<Rightarrow> nfs \<Rightarrow> (js_exn + unit) \<times> nfs" where
  "writeFileSync path data enc flag0 st =
     (let resolved = resolved_path st path;
          flag = (if flag0 = [] then ''w'' else flag0);
          body = toBuffer enc data;
          present = existsSync resolved st
      in
      if flag = ''wx'' \<or> flag = ''xw'' then
        (if present then (fs_throw EEXIST ''open'' resolved, st) else write_resolved resolved body st)
      else if flag = ''ax'' \<or> flag = ''xa'' then
        (if present then (fs_throw EEXIST ''open'' resolved, st) else write_resolved resolved body st)
      else if flag = ''r+'' then
        (if \<not> present then (fs_throw ENOENT ''open'' resolved, st) else write_resolved resolved body st)
      else if flag = ''a'' then
        (if present then append_resolved resolved body st else write_resolved resolved body st)
      else write_resolved resolved body st)"

definition appendFileSync :: "string \<Rightarrow> fs_data \<Rightarrow> string \<Rightarrow> nfs \<Rightarrow> (js_exn + unit) \<times> nfs" where
  "appendFileSync path data enc st =
     (let resolved = resolved_path st path; chunk = toBuffer enc data in
      if existsSync resolved st then append_resolved resolved chunk st
      else write_resolved resolved chunk st)"

definition readdirSync :: "string \<Rightarrow> nfs \<Rightarrow> (js_exn + (string \<times> ftype) list) \<times> nfs" where
  "readdirSync path st = on_memfs (readdir (resolved_path st path)) st"

definition statSync :: "string \<Rightarrow> nfs \<Rightarrow> (js_exn + stats) \<times> nfs" where
  "statSync path st = on_memfs (stat (resolved_path st path)) st"

definition lstatSync :: "string \<Rightarrow> nfs \<Rightarrow> (js_exn + stats) \<times> nfs" where
  "lstatSync path st = statSync path st"

definition mkdirSync :: "string \<Rightarrow> bool \<Rightarrow> nfs \<Rightarrow> (js_exn + unit) \<times> nfs" where
  "mkdirSync path recursive st =
     (let resolved = resolved_path st path in
      then_notify resolved ''rename'' (on_memfs (mkdir resolved recursive) st))"

definition unlinkSync :: "string \<Rightarrow> nfs \<Rightarrow> (js_exn + unit) \<times> nfs" where
  "unlinkSync path st =
     (let resolved = resolved_path st path in
      then_notify resolved ''rename'' (on_memfs (unlink resolved) st))"

definition rmdirSync :: "string \<Rightarrow> nfs \<Rightarrow> (js_exn + unit) \<times> nfs" where
  "rmdirSync path st =
     (let resolved = resolved_path st path in
      then_notify resolved ''rename'' (on_memfs (rmdir resolved) st))"

definition renameSync :: "string \<Rightarrow> string \<Rightarrow> nfs \<Rightarrow> (js_exn + unit) \<times> nfs" where
  "renameSync oldPath newPath st =
     (let oldResolved = resolved_path st oldPath; newResolved = resolved_path st newPath in
      then_notify newResolved ''rename''
        (then_notify oldResolved ''rename'' (on_memfs (rename oldResolved newResolved) st)))"

definition accessSync :: "string \<Rightarrow> nfs \<Rightarrow> js_exn + unit" where
  "accessSync path st = access (resolved_path st path) (nf_fs st)"

definition chmodSync :: "string \<Rightarrow> nfs \<Rightarrow> js_exn + unit" where
  "chmodSync path st = access (resolved_path st path) (nf_fs st)"

definition realpathSync :: "string \<Rightarrow> nfs \<Rightarrow> js_exn + string" where
  "realpathSync path st = realpath (resolved_path st path) (nf_fs st)"

definition openSync :: "string \<Rightarrow> nfs \<Rightarrow> (js_exn + nat) \<times> nfs" where
  "openSync path st = on_memfs (openFd (resolved_path st path)) st"

definition readSync ::
  "nat \<Rightarrow> byte list \<Rightarrow> nat \<Rightarrow> nat \<Rightarrow> nat option \<Rightarrow> nfs \<Rightarrow> (js_exn + nat \<times> byte list) \<times> nfs" where
  "readSync fd buffer off len position st = on_memfs (readFd fd buffer off len position) st"

definition writeSync ::
  "nat \<Rightarrow> byte list \<Rightarrow> nat \<Rightarrow> nat \<Rightarrow> nat option \<Rightarrow> nfs \<Rightarrow> (js_exn + nat) \<times> nfs" where
  "writeSync fd buffer off len position st = on_memfs (writeFd fd buffer off len position) st"

definition closeSync :: "nat \<Rightarrow> nfs \<Rightarrow> (js_exn + unit) \<times> nfs" where
  "closeSync fd st = on_memfs (closeFd fd) st"

definition copyFileSync :: "string \<Rightarrow> string \<Rightarrow> bool \<Rightarrow> nfs \<Rightarrow> (js_exn + unit) \<times> nfs" where
  "copyFileSync src dest excl st =
     (let resolved = resolved_path st dest in
      if excl \<and> existsSync resolved st then (fs_throw EEXIST ''copyfile'' resolved, st)
      else
        (case on_memfs (readFile (resolved_path st src)) st of
           (Inl e, st1) \<Rightarrow> (Inl e, st1)
         | (Inr data, st1) \<Rightarrow> write_resolved resolved data st1))"

text \<open>\<open>for (const name of entries) f(name)\<close>, left by the first exception.\<close>

fun for_entries :: "(string \<Rightarrow> nfs \<Rightarrow> (js_exn + unit) \<times> nfs) \<Rightarrow> string list \<Rightarrow> nfs \<Rightarrow> (js_exn + unit) \<times> nfs" where
  "for_entries f [] st = (Inr (), st)"
| "for_entries f (x # xs) st =
     (case f x st of (Inl e, st1) \<Rightarrow> (Inl e, st1) | (Inr _, st1) \<Rightarrow> for_entries f xs st1)"

definition is_enoent :: "js_exn \<Rightarrow> bool" where
  "is_enoent e \<longleftrightarrow> (case e of FsExn x \<Rightarrow> e_code x = ENOENT | _ \<Rightarrow> False)"

primrec rmSync :: "nat \<Rightarrow> bool \<Rightarrow> bool \<Rightarrow> string \<Rightarrow> nfs \<Rightarrow> (js_exn + unit) \<times> nfs" where
  "rmSync 0 recursive force path st = (Inl RangeExn, st)"
| "rmSync (Suc k) recursive force path st =
     (let resolved = resolved_path st path;
          body =
            (case on_memfs (stat resolved) st of
               (Inl e, st1) \<Rightarrow> (Inl e, st1)
             | (Inr s, st1) \<Rightarrow>
                 then_notify resolved ''rename''
                   (if stats_isDirectory s then
                      (if recursive then
                         (case on_memfs (readdir resolved) st1 of
                            (Inl e, st2) \<Rightarrow> (Inl e, st2)
                          | (Inr es, st2) \<Rightarrow>
                              (case for_entries (\<lambda>n. rmSync k recursive force (resolved @ slash # n))
                                      (map fst es) st2 of
                                 (Inl e, st3) \<Rightarrow> (Inl e, st3)
                               | (Inr _, st3) \<Rightarrow> on_memfs (rmdir resolved) st3))
                       else on_memfs (rmdir resolved) st1)
                    else on_memfs (unlink resolved) st1))
      in (case body of
            (Inl e, st4) \<Rightarrow> if \<not> force \<or> \<not> is_enoent e then (Inl e, st4) else (Inr (), st4)
          | (Inr _, st4) \<Rightarrow> (Inr (), st4)))"

section \<open>\<open>watchFile\<close>\<close>

definition tryStat :: "string \<Rightarrow> nfs \<Rightarrow> stats option \<times> nfs" where
  "tryStat path st =
     (case on_memfs (stat path) st of (Inl _, st1) \<Rightarrow> (None, st1) | (Inr s, st1) \<Rightarrow> (Some s, st1))"

definition startStatWatcher :: "string \<Rightarrow> nat \<Rightarrow> nfs \<Rightarrow> nfs" where
  "startStatWatcher r l st =
     (case map_of (nf_stat st) r of
        Some e \<Rightarrow>
          st\<lparr>nf_stat := AList.update r (e\<lparr>sw_listeners := List.insert l (sw_listeners e)\<rparr>) (nf_stat st)\<rparr>
      | None \<Rightarrow>
          let (s, st1) = tryStat r st in
          st1\<lparr>nf_stat := AList.update r \<lparr>sw_listeners = [l], sw_prev = s\<rparr> (nf_stat st1)\<rparr>)"

definition stopStatWatcher :: "string \<Rightarrow> nat option \<Rightarrow> nfs \<Rightarrow> nfs" where
  "stopStatWatcher r l st =
     (case map_of (nf_stat st) r of
        None \<Rightarrow> st
      | Some e \<Rightarrow>
          let ls = (case l of Some x \<Rightarrow> remove1 x (sw_listeners e) | None \<Rightarrow> []) in
          st\<lparr>nf_stat := (if ls = [] then AList.delete r (nf_stat st)
                         else AList.update r (e\<lparr>sw_listeners := ls\<rparr>) (nf_stat st))\<rparr>)"

definition statsEqual :: "stats option \<Rightarrow> stats option \<Rightarrow> bool" where
  "statsEqual a b \<longleftrightarrow>
     (case (a, b) of
        (None, None) \<Rightarrow> True
      | (Some x, Some y) \<Rightarrow>
          st_ino x \<noteq> None \<and> st_ino x = st_ino y \<and> st_size x = st_size y \<and> st_mtime x = st_mtime y
          \<and> st_ctime x = st_ctime y \<and> st_mode x = st_mode y
      | _ \<Rightarrow> False)"

text \<open>The interval timer of a path, with the microtasks it queues.\<close>

definition stat_tick :: "string \<Rightarrow> nfs \<Rightarrow> nfs" where
  "stat_tick r st =
     (case map_of (nf_stat st) r of
        None \<Rightarrow> st
      | Some e \<Rightarrow>
          let (now, st1) = tryStat r st in
          if statsEqual (sw_prev e) now then st1
          else st1\<lparr>nf_stat := AList.update r (e\<lparr>sw_prev := now\<rparr>) (nf_stat st1),
                   nf_told := nf_told st1 @ map (\<lambda>l. (l, now, sw_prev e)) (sw_listeners e)\<rparr>)"

section \<open>Streams\<close>

text \<open>
  The source of \<open>createReadStream\<close>: one call of \<open>read\<close> on the variables the closure keeps, and what
  it does to the stream. An exception of \<open>close\<close> within the handler is dropped.
\<close>

record read_source =
  rs_fd :: "nat option"
  rs_position :: nat
  rs_size :: nat

definition read_source0 :: read_source where
  "read_source0 = \<lparr>rs_fd = None, rs_position = 0, rs_size = 0\<rparr>"

datatype read_action = Push "fs_text" | PushEnd | DestroyWith js_exn

definition close_quietly :: "nat option \<Rightarrow> nfs \<Rightarrow> nfs" where
  "close_quietly fd st = (case fd of None \<Rightarrow> st | Some f \<Rightarrow> snd (on_memfs (closeFd f) st))"

definition rs_fail :: "js_exn \<Rightarrow> read_source \<Rightarrow> nfs \<Rightarrow> read_action \<times> read_source \<times> nfs" where
  "rs_fail e rs st = (DestroyWith e, rs\<lparr>rs_fd := None\<rparr>, close_quietly (rs_fd rs) st)"

definition rs_finish :: "nat \<Rightarrow> read_source \<Rightarrow> nfs \<Rightarrow> read_action \<times> read_source \<times> nfs" where
  "rs_finish fd rs st =
     (case on_memfs (closeFd fd) st of
        (Inl e, st1) \<Rightarrow> rs_fail e rs st1
      | (Inr _, st1) \<Rightarrow> (PushEnd, rs\<lparr>rs_fd := None\<rparr>, st1))"

definition rs_open :: "string \<Rightarrow> read_source \<Rightarrow> nfs \<Rightarrow> (js_exn + nat) \<times> read_source \<times> nfs" where
  "rs_open resolved rs st =
     (case rs_fd rs of
        Some fd \<Rightarrow> (Inr fd, rs, st)
      | None \<Rightarrow>
          (case on_memfs (stat resolved) st of
             (Inl e, st1) \<Rightarrow> (Inl e, rs, st1)
           | (Inr s, st1) \<Rightarrow>
               (case on_memfs (openFd resolved) st1 of
                  (Inl e, st2) \<Rightarrow> (Inl e, rs\<lparr>rs_size := st_size s\<rparr>, st2)
                | (Inr fd, st2) \<Rightarrow> (Inr fd, \<lparr>rs_fd = Some fd, rs_position = 0, rs_size = st_size s\<rparr>, st2))))"

definition read_step ::
  "string \<Rightarrow> string \<Rightarrow> nat \<Rightarrow> read_source \<Rightarrow> nfs \<Rightarrow> read_action \<times> read_source \<times> nfs" where
  "read_step resolved enc hwm rs st =
     (case rs_open resolved rs st of
        (Inl e, rs1, st1) \<Rightarrow> rs_fail e rs1 st1
      | (Inr fd, rs1, st1) \<Rightarrow>
          if rs_size rs1 \<le> rs_position rs1 then rs_finish fd rs1 st1
          else
            let chunkSize = min hwm (rs_size rs1 - rs_position rs1) in
            (case on_memfs (readFd fd (replicate chunkSize 0) 0 chunkSize (Some (rs_position rs1))) st1 of
               (Inl e, st2) \<Rightarrow> rs_fail e rs1 st2
             | (Inr (n, buf), st2) \<Rightarrow>
                 let rs2 = rs1\<lparr>rs_position := rs_position rs1 + n\<rparr> in
                 if n = 0 then rs_finish fd rs2 st2
                 else (Push (fromBuffer enc (if n < chunkSize then take n buf else buf)), rs2, st2)))"

text \<open>The reading of the whole file: as many calls as \<open>k\<close>, until the end or an error.\<close>

primrec read_all ::
  "nat \<Rightarrow> string \<Rightarrow> string \<Rightarrow> nat \<Rightarrow> read_source \<Rightarrow> nfs \<Rightarrow> read_action list \<times> nfs" where
  "read_all 0 resolved enc hwm rs st = ([], st)"
| "read_all (Suc k) resolved enc hwm rs st =
     (let (a, rs1, st1) = read_step resolved enc hwm rs st in
      case a of
        Push c \<Rightarrow> (let (acts, st2) = read_all k resolved enc hwm rs1 st1 in (a # acts, st2))
      | _ \<Rightarrow> ([a], st1))"

text \<open>The sink of \<open>createWriteStream\<close>: one \<open>write\<close> on the descriptor it keeps, and the end.\<close>

definition write_step ::
  "string \<Rightarrow> byte list \<Rightarrow> nat option \<Rightarrow> nfs \<Rightarrow> (js_exn + unit) \<times> nat option \<times> nfs" where
  "write_step resolved chunk fd0 st =
     (let opened =
        (case fd0 of
           Some fd \<Rightarrow> (Inr fd, st)
         | None \<Rightarrow>
             (case on_memfs (writeFile resolved []) st of
                (Inl e, st1) \<Rightarrow> (Inl e, st1)
              | (Inr _, st1) \<Rightarrow> on_memfs (openFd resolved) st1))
      in case opened of
           (Inl e, st1) \<Rightarrow> (Inl e, fd0, st1)
         | (Inr fd, st1) \<Rightarrow>
             (case on_memfs (writeFd fd chunk 0 (length chunk) None) st1 of
                (Inl e, st2) \<Rightarrow> (Inl e, Some fd, st2)
              | (Inr _, st2) \<Rightarrow> (Inr (), Some fd, emitWatchEvent resolved ''change'' st2)))"

definition write_final :: "nat option \<Rightarrow> nfs \<Rightarrow> (js_exn + unit) \<times> nat option \<times> nfs" where
  "write_final fd0 st =
     (case fd0 of
        None \<Rightarrow> (Inr (), None, st)
      | Some fd \<Rightarrow>
          (case on_memfs (closeFd fd) st of
             (Inl e, st1) \<Rightarrow> (Inl e, fd0, st1)
           | (Inr _, st1) \<Rightarrow> (Inr (), None, st1)))"

definition write_destroy :: "nat option \<Rightarrow> nfs \<Rightarrow> nfs" where
  "write_destroy fd0 st = close_quietly fd0 st"

text \<open>The chunks of a stream in order, then the end; left at the first error.\<close>

fun write_chunks :: "string \<Rightarrow> byte list list \<Rightarrow> nat option \<Rightarrow> nfs \<Rightarrow> (js_exn + unit) \<times> nfs" where
  "write_chunks resolved [] fd st = (let (r, _, st1) = write_final fd st in (r, st1))"
| "write_chunks resolved (c # cs) fd st =
     (case write_step resolved c fd st of
        (Inl e, fd1, st1) \<Rightarrow> (Inl e, st1)
      | (Inr _, fd1, st1) \<Rightarrow> write_chunks resolved cs fd1 st1)"

section \<open>The asynchronous variants\<close>

text \<open>
  \<open>wrapAsync\<close> runs the synchronous function at once and queues the call of the callback; without a callback it is the
  synchronous function. \<open>wrapPromise\<close> settles a promise with the outcome.
\<close>

datatype 'a outcome = Returned 'a | Threw js_exn | Callback "js_exn + 'a" | Settled "js_exn + 'a"

definition wrapAsync :: "bool \<Rightarrow> (nfs \<Rightarrow> (js_exn + 'a) \<times> nfs) \<Rightarrow> nfs \<Rightarrow> 'a outcome \<times> nfs" where
  "wrapAsync has_callback syncFn st =
     (let (r, st1) = syncFn st in
      (if has_callback then Callback r
       else (case r of Inl e \<Rightarrow> Threw e | Inr v \<Rightarrow> Returned v), st1))"

definition wrapPromise :: "(nfs \<Rightarrow> (js_exn + 'a) \<times> nfs) \<Rightarrow> nfs \<Rightarrow> 'a outcome \<times> nfs" where
  "wrapPromise syncFn st = (let (r, st1) = syncFn st in (Settled r, st1))"

section \<open>Functions that do nothing\<close>

text \<open>\<open>truncateSync\<close>, \<open>ftruncateSync\<close>, \<open>linkSync\<close>, \<open>symlinkSync\<close>, \<open>utimesSync\<close> and their like.\<close>

definition truncateSync :: "string \<Rightarrow> nat \<Rightarrow> nfs \<Rightarrow> (js_exn + unit) \<times> nfs" where
  "truncateSync path len st = (Inr (), st)"

definition symlinkSync :: "string \<Rightarrow> string \<Rightarrow> nfs \<Rightarrow> (js_exn + unit) \<times> nfs" where
  "symlinkSync target path st = (Inr (), st)"

definition readlinkSync :: "string \<Rightarrow> string" where
  "readlinkSync path = path"

end
