(* ===== verification/Node_Fs_Props.thy ===== *)
theory Node_Fs_Props
  imports Node_Fs
begin

text \<open>
  What the \<open>fs\<close> builtin promises over the in-memory file system: the flags of \<open>writeFileSync\<close>, recursive
  removal, what is written is read back, the chunks of the streams, and who is told of a change.
\<close>

section \<open>Resolved paths\<close>

lemma canonical_starts: "canonical_path r \<Longrightarrow> starts_with r ''/'' \<and> r \<noteq> []"
  by (auto simp: canonical_path_def render_path_def)

lemma resolve_again [simp]: "resolvePath (resolvePath p cwd) cwd' = resolvePath p cwd"
proof -
  have c: "canonical_path (resolvePath p cwd)" by (rule resolvePath_canonical)
  show ?thesis
    using canonical_starts [OF c] normalize_canonical_id [OF c]
    by (simp add: resolvePath_def [of "resolvePath p cwd"] Let_def)
qed

lemma resolved_again [simp]: "resolved_path st' (resolved_path st p) = resolved_path st p"
  by (simp add: resolved_path_def)

lemma on_memfs_simps [simp]:
  "fst (on_memfs f st) = fst (f (nf_fs st))"
  "nf_fs (snd (on_memfs f st)) = snd (f (nf_fs st))"
  "nf_cwd (snd (on_memfs f st)) = nf_cwd st"
  by (simp_all add: on_memfs_def split_beta)

lemma emit_watch_simps [simp]:
  "nf_fs (emitWatchEvent p k st) = nf_fs st" "nf_cwd (emitWatchEvent p k st) = nf_cwd st"
  by (simp_all add: emitWatchEvent_def)

lemma then_notify_simps [simp]:
  "fst (then_notify p k out) = fst out"
  "nf_fs (snd (then_notify p k out)) = nf_fs (snd out)"
  "nf_cwd (snd (then_notify p k out)) = nf_cwd (snd out)"
  by (auto simp: then_notify_def split: prod.splits sum.splits)

lemma existsSync_view: "existsSync p st \<longleftrightarrow> view (nf_fs st) (comps (resolved_path st p)) \<noteq> None"
  by (simp add: existsSync_def exists_path_def resolve_walk view_def)

text \<open>The outcome of a function of the module, seen through the abstract file system.\<close>

definition refines :: "(js_exn + 'a) \<times> nfs \<Rightarrow> errcode + vfs \<Rightarrow> nfs \<Rightarrow> bool" where
  "refines out sp st \<longleftrightarrow> agrees (fst out, nf_fs (snd out)) sp (view (nf_fs st))"

lemma refines_throw [simp]: "refines (fs_throw e sc p, st) (Inl e') st \<longleftrightarrow> e = e'"
  by (simp add: refines_def)

lemma write_resolved_refines:
  assumes "fs_wf (nf_fs st)" "comps r \<noteq> []"
  shows "refines (write_resolved r body st) (spec_write (comps r) body (view (nf_fs st))) st"
  using writeFile_spec [OF assms, of body] by (simp add: refines_def write_resolved_def)

section \<open>The flags\<close>

text \<open>What \<open>open\<close> and \<open>write\<close> promise of a flag, over the abstract file system.\<close>

definition spec_flag :: "string \<Rightarrow> string list \<Rightarrow> byte list \<Rightarrow> vfs \<Rightarrow> errcode + vfs" where
  "spec_flag flag ps d v =
     (if flag \<in> {''wx'', ''xw'', ''ax'', ''xa''} \<and> v ps \<noteq> None then Inl EEXIST
      else if flag = ''r+'' \<and> v ps = None then Inl ENOENT
      else if flag = ''a'' then
        (case v ps of
           Some DirV \<Rightarrow> Inl EISDIR
         | Some (FileV old) \<Rightarrow> spec_write ps (old @ d) v
         | None \<Rightarrow> spec_write ps d v)
      else spec_write ps d v)"

lemma append_resolved_refines:
  assumes "fs_wf (nf_fs st)" "comps r \<noteq> []" "view (nf_fs st) (comps r) = Some x"
  shows "refines (append_resolved r body st)
     (case x of DirV \<Rightarrow> Inl EISDIR | FileV old \<Rightarrow> spec_write (comps r) (old @ body) (view (nf_fs st))) st"
proof (cases x)
  case DirV
  obtain s1 where "readFile r (nf_fs st) = (fs_throw EISDIR ''read'' r, s1)" "view s1 = view (nf_fs st)"
    using readFile_view [OF assms(1), of r] assms(3) DirV view_readFile [of r "nf_fs st"]
    by (cases "readFile r (nf_fs st)") auto
  then show ?thesis using DirV by (simp add: refines_def append_resolved_def on_memfs_def)
next
  case (FileV old)
  obtain s1 where s1: "readFile r (nf_fs st) = (Inr old, s1)" "view s1 = view (nf_fs st)" "fs_wf s1"
    using readFile_view [OF assms(1), of r] assms(3) FileV fs_wf_readFile [OF assms(1), of r]
      view_readFile [of r "nf_fs st"]
    by (cases "readFile r (nf_fs st)") auto
  then have "append_resolved r body st = write_resolved r (old @ body) (st\<lparr>nf_fs := s1\<rparr>)"
    by (simp add: append_resolved_def on_memfs_def)
  then show ?thesis
    using write_resolved_refines [of "st\<lparr>nf_fs := s1\<rparr>" r "old @ body"] s1(2,3) assms(2) FileV
    by (simp add: refines_def)
qed


section \<open>Recursive removal\<close>

definition spec_rm :: "bool \<Rightarrow> bool \<Rightarrow> string list \<Rightarrow> vfs \<Rightarrow> errcode + vfs" where
  "spec_rm recursive force ps v =
     (case v ps of
        None \<Rightarrow> if force then Inr v else Inl ENOENT
      | Some (FileV d) \<Rightarrow> Inr (v(ps := None))
      | Some DirV \<Rightarrow> if recursive then Inr (without ps v) else spec_rmdir ps v)"

lemma upd_None_without:
  assumes "\<And>n. view s (ps @ [n]) = None"
  shows "(view s)(ps := None) = without ps (view s)"
proof
  fix qs
  show "((view s)(ps := None)) qs = without ps (view s) qs"
  proof (cases "prefix ps qs \<and> qs \<noteq> ps")
    case True
    then obtain r rs where "qs = ps @ r # rs" by (metis prefix_def append_Nil2 neq_Nil_conv)
    then have "view s qs = None" using assms [of r] view_prefix [of s qs "ps @ [r]"] by (cases "view s qs") auto
    then show ?thesis using True by (simp add: without_def)
  qed (auto simp: without_def)
qed

lemma file_no_child: "view s ps = Some (FileV d) \<Longrightarrow> view s (ps @ [n]) = None"
  using view_parent [of s ps n] by (cases "view s (ps @ [n])") auto

text \<open>What the steps of \<open>rmSync\<close> need of the one recursive call, for the entries of a directory.\<close>

definition removes :: "nfs \<Rightarrow> string list \<Rightarrow> (js_exn + unit) \<times> nfs \<Rightarrow> bool" where
  "removes st ps out \<longleftrightarrow>
     fst out = Inr () \<and> fs_wf (nf_fs (snd out)) \<and> nf_cwd (snd out) = nf_cwd st
     \<and> view (nf_fs (snd out)) = without ps (view (nf_fs st))"

lemma for_entries_removes:
  assumes rm: "\<And>st n. fs_wf (nf_fs st) \<Longrightarrow> named_view (view (nf_fs st)) \<Longrightarrow>
      shallow k (ps @ [n]) (view (nf_fs st)) \<Longrightarrow> plain_name n \<Longrightarrow>
      view (nf_fs st) (ps @ [n]) \<noteq> None \<Longrightarrow> removes st (ps @ [n]) (f n st)"
    and "fs_wf (nf_fs st)" "named_view (view (nf_fs st))" "shallow (Suc k) ps (view (nf_fs st))"
    and "list_all plain_name ns" "distinct ns" "\<forall>n \<in> set ns. view (nf_fs st) (ps @ [n]) \<noteq> None"
  shows "fst (for_entries f ns st) = Inr () \<and> fs_wf (nf_fs (snd (for_entries f ns st)))
     \<and> nf_cwd (snd (for_entries f ns st)) = nf_cwd st
     \<and> view (nf_fs (snd (for_entries f ns st))) = without_all ps ns (view (nf_fs st))"
  using assms(2-)
proof (induction ns arbitrary: st)
  case Nil
  then show ?case by (simp add: without_all_def)
next
  case (Cons n ns)
  have n: "plain_name n" using Cons.prems(4) by simp
  have "shallow k (ps @ [n]) (view (nf_fs st))"
    using Cons.prems(3) unfolding shallow_def by (force dest: append_prefixD)
  from rm [OF Cons.prems(1,2) this n] Cons.prems(6)
  have r: "removes st (ps @ [n]) (f n st)" by simp
  obtain t where t: "f n st = (Inr (), t)" "fs_wf (nf_fs t)" "nf_cwd t = nf_cwd st"
      "view (nf_fs t) = without (ps @ [n]) (view (nf_fs st))"
    using r by (cases "f n st") (auto simp: removes_def)
  have "named_view (view (nf_fs t))" "shallow (Suc k) ps (view (nf_fs t))"
    using Cons.prems(2,3) unfolding t(4) by (auto simp: named_view_def shallow_def without_def)
  moreover have "\<forall>m \<in> set ns. view (nf_fs t) (ps @ [m]) \<noteq> None"
    using Cons.prems(5,6) unfolding t(4) by (auto simp: without_def)
  ultimately have IH: "fst (for_entries f ns t) = Inr ()" "fs_wf (nf_fs (snd (for_entries f ns t)))"
     "nf_cwd (snd (for_entries f ns t)) = nf_cwd t"
     "view (nf_fs (snd (for_entries f ns t))) = without_all ps ns (view (nf_fs t))"
    using Cons.IH [OF t(2)] Cons.prems(4,5) by auto
  have "without_all ps ns (view (nf_fs t)) = without_all ps (n # ns) (view (nf_fs st))"
    unfolding t(4) by (auto simp: without_all_def without_def fun_eq_iff)
  then show ?case using IH t(1,3) by simp
qed

lemma rm_file:
  assumes wf: "fs_wf (nf_fs st)" and ne: "comps (resolved_path st p) \<noteq> []"
    and f: "view (nf_fs st) (comps (resolved_path st p)) = Some (FileV d)"
  shows "removes st (comps (resolved_path st p)) (rmSync (Suc k) rec force p st)"
proof -
  let ?r = "resolved_path st p"
  obtain x s1 where s1: "stat ?r (nf_fs st) = (Inr x, s1)" "fs_wf s1" "view s1 = view (nf_fs st)"
      "\<not> stats_isDirectory x"
    using stat_view [OF wf, of ?r] f by (auto split: prod.splits sum.splits)
  have u: "is_ok (fst (unlink ?r s1))" "view (snd (unlink ?r s1)) = (view (nf_fs st))(comps ?r := None)"
    using unlink_spec [OF s1(2) ne] f s1(3) by (simp_all add: agrees_def spec_unlink_def)
  obtain s2 where s2: "unlink ?r s1 = (Inr (), s2)" using u(1) by (cases "unlink ?r s1"; cases "fst (unlink ?r s1)") auto
  have "(view (nf_fs st))(comps ?r := None) = without (comps ?r) (view (nf_fs st))"
    using upd_None_without [of "nf_fs st" "comps ?r"] file_no_child [OF f] by simp
  moreover have "fs_wf s2" using fs_wf_unlink [OF s1(2), of ?r] s2 by simp
  ultimately show ?thesis
    using s1 s2 u(2) by (simp add: removes_def on_memfs_def then_notify_def Let_def)
qed

lemma readdir_distinct:
  assumes "fs_wf s" "readdir p s = (Inr es, s1)"
  shows "distinct (map fst es)"
proof -
  obtain a m where "dir_of s a = Some m" "es = map (\<lambda>(n, c). (n, if dir_of s c \<noteq> None then DirT else FileT)) m"
    using assms(2) by (auto simp: readdir_def split: option.splits)
  moreover have "distinct (map fst m)"
    using fs_wfD(4) [OF assms(1) calculation(1)] by (simp add: wf_entries_def)
  ultimately show ?thesis by (simp add: comp_def split_beta)
qed


lemma resolved_child:
  assumes "plain_name n"
  shows "comps (resolved_path st' (resolved_path st p @ slash # n)) = comps (resolved_path st p) @ [n]"
proof -
  obtain c cs where "resolved_path st p = c # cs" "c = slash"
    using canonical_starts [OF resolvePath_canonical, of p "nf_cwd st"]
    by (cases "resolved_path st p") (auto simp: resolved_path_def starts_with_def)
  then have "resolved_path st' (resolved_path st p @ slash # n) = normalizePath (resolved_path st p @ slash # n)"
    by (simp add: resolved_path_def [of st'] resolvePath_def starts_with_def)
  then show ?thesis
    using comps_child [OF assms, of "resolved_path st p"] norm_parts_path_parts [of "resolved_path st p @ slash # n"]
    by simp
qed

lemma rm_spec:
  "fs_wf (nf_fs st) \<Longrightarrow> named_view (view (nf_fs st)) \<Longrightarrow> comps (resolved_path st p) \<noteq> [] \<Longrightarrow>
   shallow k (comps (resolved_path st p)) (view (nf_fs st)) \<Longrightarrow>
   view (nf_fs st) (comps (resolved_path st p)) \<noteq> None \<Longrightarrow>
   removes st (comps (resolved_path st p)) (rmSync (Suc k) True force p st)"
proof (induction k arbitrary: p st)
  case 0
  then show ?case by (force simp: shallow_def)
next
  case (Suc k)
  let ?r = "resolved_path st p" and ?ps = "comps (resolved_path st p)"
  obtain x where x: "view (nf_fs st) ?ps = Some x" using Suc.prems(5) by auto
  show ?case
  proof (cases x)
    case (FileV d)
    then show ?thesis using rm_file [OF Suc.prems(1,3)] x by simp
  next
    case DirV
    obtain s s1 where s1: "stat ?r (nf_fs st) = (Inr s, s1)" "fs_wf s1" "view s1 = view (nf_fs st)"
        "stats_isDirectory s"
      using stat_view [OF Suc.prems(1), of ?r] x DirV by (auto split: prod.splits sum.splits)
    obtain es s2 where es: "readdir ?r s1 = (Inr es, s2)" "fs_wf s2" "view s2 = view s1"
        "\<And>n. n \<in> set (map fst es) \<longleftrightarrow> view s1 (?ps @ [n]) \<noteq> None"
      using readdir_view [OF s1(2), of ?r] x DirV s1(3) by auto
    let ?st2 = "st\<lparr>nf_fs := s2\<rparr>" and ?f = "\<lambda>n. rmSync (Suc k) True force (?r @ slash # n)"
    have plain: "list_all plain_name (map fst es)"
      using Suc.prems(2) es(4) unfolding s1(3) by (force simp: list_all_iff named_view_def)
    have rm: "removes u (?ps @ [n]) (?f n u)"
      if "fs_wf (nf_fs u)" "named_view (view (nf_fs u))" "shallow k (?ps @ [n]) (view (nf_fs u))" "plain_name n"
        "view (nf_fs u) (?ps @ [n]) \<noteq> None" for u n
      using Suc.IH [OF that(1,2), of "?r @ slash # n"] that(3-5)
      by (simp add: resolved_child [OF that(4)] del: rmSync.simps)
    have "fs_wf (nf_fs ?st2)" "named_view (view (nf_fs ?st2))" "shallow (Suc k) ?ps (view (nf_fs ?st2))"
        "\<forall>n \<in> set (map fst es). view (nf_fs ?st2) (?ps @ [n]) \<noteq> None"
      using Suc.prems(2,4) es s1(3) by simp_all
    note loop = for_entries_removes [OF rm this(1-3) plain readdir_distinct [OF s1(2) es(1)] this(4)]
    obtain t where t: "for_entries ?f (map fst es) ?st2 = (Inr (), t)" "fs_wf (nf_fs t)" "nf_cwd t = nf_cwd st"
        "view (nf_fs t) = without_all ?ps (map fst es) (view (nf_fs st))"
      using loop es(3) s1(3) by (cases "for_entries ?f (map fst es) ?st2") (simp del: rmSync.simps)
    have none: "view (nf_fs t) (?ps @ [n]) = None" for n
      using es(4) [of n] s1(3) unfolding t(4) by (auto simp: without_all_def)
    have dir: "view (nf_fs t) ?ps = Some DirV" using x DirV unfolding t(4) by (auto simp: without_all_def prefix_def)
    have u: "is_ok (fst (rmdir ?r (nf_fs t)))" "view (snd (rmdir ?r (nf_fs t))) = (view (nf_fs t))(?ps := None)"
      using rmdir_spec [OF t(2) Suc.prems(3)] none dir by (simp_all add: agrees_def spec_rmdir_def)
    obtain s3 where s3: "rmdir ?r (nf_fs t) = (Inr (), s3)"
      using u(1) by (cases "rmdir ?r (nf_fs t)"; cases "fst (rmdir ?r (nf_fs t))") auto
    have "(view (nf_fs t))(?ps := None) = without ?ps (view (nf_fs t))" by (rule upd_None_without [OF none])
    also have "\<dots> = without ?ps (view (nf_fs st))"
      unfolding t(4) by (auto simp: without_def without_all_def fun_eq_iff dest: append_prefixD)
    finally have "view s3 = without ?ps (view (nf_fs st))" using u(2) s3 by simp
    moreover have "fs_wf s3" using fs_wf_rmdir [OF t(2), of ?r] s3 by simp
    moreover have "rmSync (Suc (Suc k)) True force p st = (Inr (), emitWatchEvent ?r ''rename'' (t\<lparr>nf_fs := s3\<rparr>))"
      using s1 es(1) t(1) s3
      by (simp add: rmSync.simps(2) [of "Suc k"] on_memfs_def then_notify_def Let_def del: rmSync.simps)
    ultimately show ?thesis using t(3) by (simp add: removes_def)
  qed
qed

lemma rm_missing:
  assumes "fs_wf (nf_fs st)" "view (nf_fs st) (comps (resolved_path st p)) = None"
  shows "rmSync (Suc k) rec force p st =
     ((if force then Inr () else fs_throw ENOENT ''stat'' (resolved_path st p)), st)"
proof -
  have "stat (resolved_path st p) (nf_fs st) = (fs_throw ENOENT ''stat'' (resolved_path st p), nf_fs st)"
    using assms(2) by (simp add: stat_def resolve_walk view_def split: option.splits)
  then show ?thesis by (simp add: on_memfs_def Let_def is_enoent_def createFsError_def)
qed

lemma rm_plain_dir:
  assumes "fs_wf (nf_fs st)" "comps (resolved_path st p) \<noteq> []"
    and "view (nf_fs st) (comps (resolved_path st p)) = Some DirV"
  shows "refines (rmSync (Suc k) False force p st)
     (spec_rmdir (comps (resolved_path st p)) (view (nf_fs st))) st"
proof -
  let ?r = "resolved_path st p"
  obtain s s1 where s1: "stat ?r (nf_fs st) = (Inr s, s1)" "fs_wf s1" "view s1 = view (nf_fs st)"
      "stats_isDirectory s"
    using stat_view [OF assms(1), of ?r] assms(3) by (auto split: prod.splits sum.splits)
  have a: "agrees (rmdir ?r s1) (spec_rmdir (comps ?r) (view (nf_fs st))) (view (nf_fs st))"
    using rmdir_spec [OF s1(2) assms(2)] s1(3) by simp
  have no: "spec_rmdir (comps ?r) (view (nf_fs st)) \<noteq> Inl ENOENT"
    using assms(3) by (simp add: spec_rmdir_def)
  obtain out s2 where o: "rmdir ?r s1 = (out, s2)" by fastforce
  show ?thesis
  proof (cases out)
    case (Inl e)
    then have "\<not> is_enoent e"
      using a o no by (auto simp: agrees_def is_enoent_def split: sum.splits js_exn.splits)
    then show ?thesis
      using s1 o Inl a by (simp add: on_memfs_def Let_def then_notify_def refines_def)
  next
    case (Inr u)
    then show ?thesis using s1 o a by (simp add: on_memfs_def Let_def then_notify_def refines_def)
  qed
qed

text \<open>
  C38. \<open>rmSync\<close> removes what it is told to remove and nothing else, whatever the combination of \<open>recursive\<close> and
  \<open>force\<close>: a file, an empty directory, a whole tree; a missing path is an error unless \<open>force\<close> is given, a
  directory that is not empty unless \<open>recursive\<close> is. A stack as deep as there are inodes is enough.
\<close>

theorem rmSync_refines:
  assumes "fs_wf (nf_fs st)" and "names_ok (nf_fs st)" and "comps (resolved_path st path) \<noteq> []"
    and "fs_inoCounter (nf_fs st) < k"
  shows "refines (rmSync k recursive force path st)
     (spec_rm recursive force (comps (resolved_path st path)) (view (nf_fs st))) st"
proof -
  let ?ps = "comps (resolved_path st path)" and ?v = "view (nf_fs st)"
  obtain j where k: "k = Suc j" "fs_inoCounter (nf_fs st) \<le> j" using assms(4) by (cases k) auto
  have sh: "shallow j ?ps ?v"
    using walk_length [OF assms(1)] k(2) by (fastforce simp: shallow_def view_def)
  have nv: "named_view ?v" using assms(2) by (simp add: names_ok_view)
  consider "?v ?ps = None" | d where "?v ?ps = Some (FileV d)" | "?v ?ps = Some DirV" "recursive"
    | "?v ?ps = Some DirV" "\<not> recursive"
    by (cases "?v ?ps") (auto, metis fnode.exhaust)
  then show ?thesis
  proof cases
    case 1
    then show ?thesis using rm_missing [OF assms(1) 1] k(1) by (simp add: spec_rm_def refines_def del: rmSync.simps)
  next
    case 2
    have "?v(?ps := None) = without ?ps ?v"
      using upd_None_without [of "nf_fs st" ?ps] file_no_child [OF 2] by simp
    then show ?thesis
      using rm_file [OF assms(1,3) 2, of j recursive force] 2 k(1)
      by (simp add: spec_rm_def refines_def removes_def agrees_def del: rmSync.simps)
  next
    case 3
    then show ?thesis
      using rm_spec [OF assms(1) nv assms(3) sh, of force] k(1)
      by (simp add: spec_rm_def refines_def removes_def agrees_def del: rmSync.simps)
  next
    case 4
    then show ?thesis
      using rm_plain_dir [OF assms(1,3) 4(1), of j force] k(1) by (simp add: spec_rm_def del: rmSync.simps)
  qed
qed


section \<open>Text and copies\<close>

lemma write_replaces:
  assumes "fs_wf (nf_fs st)" "comps r \<noteq> []" "write_resolved r body st = (Inr (), t)"
  shows "fs_wf (nf_fs t) \<and> nf_cwd t = nf_cwd st \<and> view (nf_fs t) = (view (nf_fs st))(comps r \<mapsto> FileV body)"
proof -
  have o: "is_ok (fst (writeFile r body (nf_fs st)))" "nf_fs t = snd (writeFile r body (nf_fs st))" "nf_cwd t = nf_cwd st"
    using arg_cong [OF assms(3), of fst] arg_cong [OF assms(3), of "\<lambda>x. nf_fs (snd x)"]
      arg_cong [OF assms(3), of "\<lambda>x. nf_cwd (snd x)"]
    by (simp_all add: write_resolved_def)
  then show ?thesis
    using writeFile_ok_view [OF assms(1,2) o(1)] fs_wf_writeFile [OF assms(1), of r body] by simp
qed

lemma read_resolved:
  assumes "fs_wf (nf_fs st)" "view (nf_fs st) (comps (resolved_path st p)) = Some (FileV d)"
  shows "fst (readFileSync p enc st) = Inr (fromBuffer enc d)"
  using readFile_view [OF assms(1), of "resolved_path st p"] assms(2)
  by (cases "readFile (resolved_path st p) (nf_fs st)") (simp add: readFileSync_def on_memfs_def)

text \<open>
  Text written with \<open>writeFileSync\<close> is the text that \<open>readFileSync(path, 'utf8')\<close> returns, and bytes are the
  bytes, whatever flag it was written with, appending apart; a lone surrogate or a leading byte order mark
  are the only exceptions.
\<close>

theorem fs_text_roundtrip:
  assumes "fs_wf (nf_fs st)" and "comps (resolved_path st path) \<noteq> []"
    and "writeFileSync path (DataText s) ''utf8'' flag st = (Inr (), t)" and "flag \<noteq> ''a''"
    and "well_formed s" and "s = [] \<or> hd s \<noteq> 0xFEFF"
  shows "fst (readFileSync path ''utf8'' t) = Inr (AsText s)"
proof -
  let ?r = "resolved_path st path"
  have "write_resolved ?r (text_encode s) st = (Inr (), t)"
    using assms(3,4) by (auto simp: writeFileSync_def Let_def toBuffer_def is_utf8_def split: if_splits)
  note w = write_replaces [OF assms(1,2) this]
  have "resolved_path t path = ?r" using w by (simp add: resolved_path_def)
  then have "fst (readFileSync path ''utf8'' t) = Inr (fromBuffer ''utf8'' (text_encode s))"
    using w by (intro read_resolved) simp_all
  then show ?thesis using text_round [OF assms(5,6)] by (simp add: fromBuffer_def is_utf8_def)
qed

section \<open>Write streams\<close>

lemma view_same:
  assumes "dir_of t = dir_of s" "\<And>b. content_at b t = content_at b s"
  shows "view t = view s"
proof -
  have "view_at t = view_at s" using assms by (intro ext view_at_same) simp_all
  then show ?thesis using walk_from_cong [OF assms(1)] by (simp add: view_def [abs_def])
qed

lemma view_heap_cong: "fs_heap t = fs_heap s \<Longrightarrow> view t = view s"
  by (intro view_same dir_of_heap_cong content_heap_cong)

text \<open>The descriptor of the stream: its position is behind the data, zeros fill the capacity.\<close>

definition open_at :: "fs \<Rightarrow> string list \<Rightarrow> nat \<Rightarrow> byte list \<Rightarrow> nat \<Rightarrow> bool" where
  "open_at s ps fd d pad \<longleftrightarrow> fs_wf s \<and> length d + pad \<notin> {0<..<4096} \<and>
     (\<exists>e. fs_fdTable s fd = Some e \<and> walk s ps = Some (fd_inode e)
        \<and> content_at (fd_inode e) s = d @ replicate pad 0
        \<and> fd_position e = length d \<and> fd_capacity e = length d + pad)"

lemma open_at_view:
  assumes "open_at s ps fd d pad"
  shows "view s ps = Some (FileV (d @ replicate pad 0))"
proof -
  obtain e where e: "fs_wf s" "fs_fdTable s fd = Some e" "walk s ps = Some (fd_inode e)"
      "content_at (fd_inode e) s = d @ replicate pad 0"
    using assms by (auto simp: open_at_def)
  moreover have "dir_of s (fd_inode e) = None" using fs_wfD(6) [OF e(1,2)] by simp
  ultimately show ?thesis by (simp add: view_def view_at_def)
qed

text \<open>A successful write in one equation.\<close>

lemma writeFd_eq:
  assumes "fs_fdTable s fd = Some e" "data = subarray off (off + n) b" "pos = wr_pos position e"
    and "Option.bind (wr_base (pos + length data) e (content_at (fd_inode e) s)) (blit data pos) = Some c"
    and "f = (\<lambda>nd. nd\<lparr>i_content := Some c, i_mtime := fst (date_now s), i_version := Suc (i_version nd)\<rparr>)"
    and "e' = e\<lparr>fd_capacity := (if fd_capacity e < pos + length data
                 then max (pos + length data) (max (fd_capacity e * 2) 4096) else fd_capacity e),
               fd_dirty := True,
               fd_position := (if position = None then fd_position e + length data else fd_position e)\<rparr>"
  shows "\<exists>x. writeFd fd b off n position s =
    (Inr (length data), emit ''writeFd'' (fd_path e) x
       ((upd_inode (fd_inode e) f (snd (date_now s)))\<lparr>fs_fdTable := (fs_fdTable s)(fd \<mapsto> e')\<rparr>))"
proof -
  let ?s2 = "upd_inode (fd_inode e) f (snd (date_now s))"
  let ?s3 = "?s2\<lparr>fs_fdTable := (fs_fdTable ?s2)(fd \<mapsto> e')\<rparr>"
  let ?x = "(ino_extra (fd_inode e) ?s3 ''write'')
              \<lparr>x_version := map_option i_version (fs_heap ?s3 (fd_inode e))\<rparr>"
  have "writeFd fd b off n position s = (Inr (length data), emit ''writeFd'' (fd_path e) ?x ?s3)"
    using assms(4) unfolding writeFd_def assms(1) assms(2,3,5,6)
    by (simp only: Let_def split_beta wr_pos_def wr_base_def option.case)
  then show ?thesis by auto
qed

lemma walk_writeFd: "walk (snd (writeFd fd b off n pos s)) ps = walk s ps"
proof (rule walk_from_cong, cases "fs_fdTable s fd")
  case (Some e)
  let ?c = "Option.bind (wr_base (wr_pos pos e + length (subarray off (off + n) b)) e
           (content_at (fd_inode e) s)) (blit (subarray off (off + n) b) (wr_pos pos e))"
  show "dir_of (snd (writeFd fd b off n pos s)) = dir_of s"
  proof (cases ?c)
    case None
    then show ?thesis by (simp add: writeFd_fail [OF Some])
  next
    case c: (Some c)
    have "keeps_shape (\<lambda>nd. nd\<lparr>i_content := Some c, i_mtime := fst (date_now s), i_version := Suc (i_version nd)\<rparr>)"
      by (simp add: keeps_shape_def)
    note shape = dir_of_upd_shape [OF this]
    have tab: "dir_of (u\<lparr>fs_fdTable := tb\<rparr>) = dir_of u" for u tb by (rule dir_of_heap_cong) simp
    have heap: "dir_of (snd (date_now s)) = dir_of s" by (rule dir_of_heap_cong) (simp add: date_now_def)
    show ?thesis using writeFd_eq [OF Some refl refl c refl refl] by (auto simp: shape tab heap)
  qed
qed (simp add: writeFd_def)

lemma replicate_blit:
  assumes "length d + pad < m"
  shows "blit (d @ replicate pad 0) 0 (replicate m 0) = Some (d @ replicate (m - length d) (0 :: byte))"
  using assms by (simp add: blit_def replicate_add [symmetric])

lemma blit_behind:
  assumes "length c \<le> p"
  shows "blit c (length d) (d @ replicate p (0 :: byte)) = Some ((d @ c) @ replicate (p - length c) 0)"
  using assms by (simp add: blit_def)

lemma write_fd_appends:
  assumes "open_at s ps fd d pad"
  shows "\<exists>t pad'. writeFd fd c 0 (length c) None s = (Inr (length c), t) \<and> open_at t ps fd (d @ c) pad'"
proof -
  obtain e where e: "fs_wf s" "length d + pad \<notin> {0<..<4096}" "fs_fdTable s fd = Some e"
      "walk s ps = Some (fd_inode e)" "content_at (fd_inode e) s = d @ replicate pad 0"
      "fd_position e = length d" "fd_capacity e = length d + pad"
    using assms by (auto simp: open_at_def)
  let ?n = "length d + length c"
  define m where "m = (if length d + pad < ?n then max ?n (max ((length d + pad) * 2) 4096) else length d + pad)"
  have m: "?n \<le> m" "length d + pad \<le> m" "m \<notin> {0<..<4096}" using e(2) by (auto simp: m_def)
  have base: "wr_base ?n e (content_at (fd_inode e) s) = Some (d @ replicate (m - length d) 0)"
    using e(5,7) replicate_blit [of d pad m] by (auto simp: wr_base_def m_def)
  have "length c \<le> m - length d" using m(1) by simp
  note bl = blit_behind [OF this, of d]
  have pad': "m - length d - length c = m - ?n" by simp
  let ?w = "writeFd fd c 0 (length c) None s"
  obtain nd where nd: "fs_heap s (fd_inode e) = Some nd" using fs_wfD(6) [OF e(1,3)] by auto
  let ?e' = "e\<lparr>fd_capacity := m, fd_dirty := True, fd_position := ?n\<rparr>" and ?c = "(d @ c) @ replicate (m - ?n) 0"
  have bind: "Option.bind (wr_base (length d + length c) e (content_at (fd_inode e) s)) (blit c (length d)) = Some ?c"
    using base bl pad' by simp
  have e': "?e' = e\<lparr>fd_capacity := (if fd_capacity e < length d + length c
                 then max (length d + length c) (max (fd_capacity e * 2) 4096) else fd_capacity e),
               fd_dirty := True,
               fd_position := (if (None :: nat option) = None then fd_position e + length c else fd_position e)\<rparr>"
    using e(6,7) by (simp add: m_def)
  have "c = subarray 0 (0 + length c) c" "length d = wr_pos None e"
    using e(6) by (simp_all add: subarray_def wr_pos_def)
  from writeFd_eq [OF e(3) this bind refl e']
  obtain x where w: "?w = (Inr (length c), emit ''writeFd'' (fd_path e) x
     ((upd_inode (fd_inode e) (\<lambda>nd. nd\<lparr>i_content := Some ?c, i_mtime := fst (date_now s),
        i_version := Suc (i_version nd)\<rparr>) (snd (date_now s)))\<lparr>fs_fdTable := (fs_fdTable s)(fd \<mapsto> ?e')\<rparr>))"
    by blast
  have ok: "fst ?w = Inr (length c)" and tab: "fs_fdTable (snd ?w) fd = Some ?e'"
    and con: "content_at (fd_inode e) (snd ?w) = ?c"
    unfolding w using nd by (auto simp: content_at_def heap_upd_inode)
  have "open_at (snd ?w) ps fd (d @ c) (m - ?n)"
    unfolding open_at_def using tab con fs_wf_writeFd [OF e(1)] m(1,3) e(4) by (simp add: walk_writeFd)
  then show ?thesis using ok by (metis prod.collapse)
qed


lemma open_after_write:
  assumes "fs_wf s" "comps r \<noteq> []" "writeFile r [] s = (Inr (), s1)"
  shows "\<exists>fd t. openFd r s1 = (Inr fd, t) \<and> open_at t (comps r) fd [] 0"
proof -
  have wf1: "fs_wf s1" using fs_wf_writeFile [OF assms(1), of r "[]"] assms(3) by simp
  have "view s1 (comps r) = Some (FileV [])"
    using writeFile_ok_view [OF assms(1,2), of "[]"] assms(3) by simp
  then obtain a where a: "walk s1 (comps r) = Some a" "dir_of s1 a = None" "content_at a s1 = []"
    by (auto simp: view_def view_at_def split: option.splits if_splits)
  let ?t = "snd (openFd r s1)" and ?fd = "fs_nextFd s1"
  have o: "fst (openFd r s1) = Inr ?fd" "fs_fdTable ?t ?fd = Some \<lparr>fd_inode = a, fd_position = 0,
      fd_path = normalizePath r, fd_dirty = False, fd_capacity = 0\<rparr>" "fs_heap ?t = fs_heap s1"
    using a by (simp_all add: openFd_def Let_def resolve_walk content_at_def split: option.splits)
  have "dir_of ?t = dir_of s1" "content_at a ?t = content_at a s1"
    using o(3) by (auto intro!: dir_of_heap_cong content_heap_cong)
  then have "open_at ?t (comps r) ?fd [] 0"
    using o(2) a fs_wf_open [OF wf1, of r] walk_from_cong [of ?t s1] by (simp add: open_at_def)
  then show ?thesis using o(1) by (metis prod.collapse)
qed

lemma view_closeFd [simp]: "view (snd (closeFd fd s)) = view s"
proof (cases "fs_fdTable s fd")
  case (Some e)
  have shape: "dir_of (upd_inode a (\<lambda>n. n\<lparr>i_hash := h\<rparr>) u) = dir_of u" for a h u
    by (rule dir_of_upd_shape) (simp add: keeps_shape_def)
  have cont: "content_at b (upd_inode a (\<lambda>n. n\<lparr>i_hash := h\<rparr>) u) = content_at b u" for a b h u
    by (cases "fs_heap u b") (simp_all add: content_at_def heap_upd_inode)
  have tab: "dir_of (u\<lparr>fs_fdTable := tb\<rparr>) = dir_of u" "content_at b (u\<lparr>fs_fdTable := tb\<rparr>) = content_at b u" for u tb b
    by (rule dir_of_heap_cong, simp) (rule content_heap_cong, simp)
  have d: "dir_of (snd (closeFd fd s)) = dir_of s"
    unfolding closeFd_def using Some by (simp add: Let_def shape tab)
  have "content_at a (snd (closeFd fd s)) = content_at a s" for a
    unfolding closeFd_def using Some by (simp add: Let_def cont tab)
  then show ?thesis by (rule view_same [OF d])
qed (simp add: closeFd_def)

lemma write_chunks_spec:
  "open_at (nf_fs st) (comps r) fd d pad \<Longrightarrow>
   \<exists>t pad'. write_chunks r cs (Some fd) st = (Inr (), t)
     \<and> view (nf_fs t) (comps r) = Some (FileV ((d @ concat cs) @ replicate pad' 0))
     \<and> length (d @ concat cs) + pad' \<notin> {0<..<4096}"
proof (induction cs arbitrary: st d pad)
  case Nil
  then obtain e where "fs_fdTable (nf_fs st) fd = Some e" by (auto simp: open_at_def)
  then have "fst (closeFd fd (nf_fs st)) = Inr ()" by (simp add: closeFd_def Let_def)
  then obtain s1 where s1: "closeFd fd (nf_fs st) = (Inr (), s1)" by (cases "closeFd fd (nf_fs st)") simp
  have "view s1 = view (nf_fs st)" using view_closeFd [of fd "nf_fs st"] s1 by simp
  moreover have "length d + pad \<notin> {0<..<4096}" using Nil by (simp add: open_at_def)
  ultimately show ?case
    using open_at_view [OF Nil] s1 by (auto simp: write_final_def on_memfs_def Let_def intro!: exI [of _ pad])
next
  case (Cons c cs)
  obtain s1 pad1 where s1: "writeFd fd c 0 (length c) None (nf_fs st) = (Inr (length c), s1)"
      "open_at s1 (comps r) fd (d @ c) pad1"
    using write_fd_appends [OF Cons.prems] by blast
  let ?st1 = "emitWatchEvent r ''change'' (st\<lparr>nf_fs := s1\<rparr>)"
  have "open_at (nf_fs ?st1) (comps r) fd (d @ c) pad1" using s1(2) by simp
  from Cons.IH [OF this] show ?case using s1(1) by (simp add: write_step_def on_memfs_def Let_def)
qed

text \<open>
  C39. A write stream stores the chunks it is given, in order and without a gap, from the beginning of the file,
  which it creates or truncates; but the file does not end there: it is padded with zeros, to 4096 bytes at
  least unless nothing was written.
\<close>

theorem write_stream_content:
  assumes "fs_wf (nf_fs st)" and "view (nf_fs st) (butlast (comps r)) = Some DirV"
    and "view (nf_fs st) (comps r) \<noteq> Some DirV" and "comps r \<noteq> []"
  shows "\<exists>t pad. write_chunks r (c # cs) None st = (Inr (), t)
     \<and> view (nf_fs t) (comps r) = Some (FileV (concat (c # cs) @ replicate pad 0))
     \<and> length (concat (c # cs)) + pad \<notin> {0<..<4096}"
proof -
  have "agrees (writeFile r [] (nf_fs st)) (Inr ((view (nf_fs st))(comps r \<mapsto> FileV []))) (view (nf_fs st))"
    using writeFile_spec [OF assms(1,4), of "[]"] assms(2,3) by (simp add: spec_write_def)
  then obtain s1 where s1: "writeFile r [] (nf_fs st) = (Inr (), s1)"
    by (cases "writeFile r [] (nf_fs st)"; cases "fst (writeFile r [] (nf_fs st))") (auto simp: agrees_def)
  obtain fd s2 where s2: "openFd r s1 = (Inr fd, s2)" "open_at s2 (comps r) fd [] 0"
    using open_after_write [OF assms(1,4) s1] by blast
  obtain s3 pad where s3: "writeFd fd c 0 (length c) None s2 = (Inr (length c), s3)"
      "open_at s3 (comps r) fd ([] @ c) pad"
    using write_fd_appends [OF s2(2)] by blast
  let ?st1 = "emitWatchEvent r ''change'' (st\<lparr>nf_fs := s3\<rparr>)"
  have "open_at (nf_fs ?st1) (comps r) fd c pad" using s3(2) by simp
  from write_chunks_spec [OF this, of cs] show ?thesis
    using s1 s2(1) s3(1) by (simp add: write_step_def on_memfs_def Let_def)
qed


section \<open>Read streams\<close>

function pieces :: "nat \<Rightarrow> 'a list \<Rightarrow> 'a list list" where
  "pieces m xs = (if m = 0 \<or> xs = [] then [] else take m xs # pieces m (drop m xs))"
  by auto
termination by (relation "measure (\<lambda>(m, xs). length xs)") auto

declare pieces.simps [simp del]

lemma concat_pieces: "0 < m \<Longrightarrow> concat (pieces m xs) = xs"
  by (induction m xs rule: pieces.induct) (subst pieces.simps, simp)

lemma pieces_bounds: "0 < m \<Longrightarrow> c \<in> set (pieces m xs) \<Longrightarrow> 0 < length c \<and> length c \<le> m"
proof (induction m xs rule: pieces.induct)
  case (1 m xs)
  have "pieces m xs = (if m = 0 \<or> xs = [] then [] else take m xs # pieces m (drop m xs))" by (rule pieces.simps)
  then show ?case using 1 by (auto split: if_splits)
qed

text \<open>The stream's descriptor reads a file with content \<open>d\<close>.\<close>

definition reading :: "fs \<Rightarrow> nat \<Rightarrow> byte list \<Rightarrow> bool" where
  "reading s fd d \<longleftrightarrow> (\<exists>e. fs_fdTable s fd = Some e \<and> content_at (fd_inode e) s = d \<and> \<not> fd_dirty e)"

lemma same_fs [simp]: "st\<lparr>nf_fs := nf_fs st\<rparr> = st"
  by simp

lemma read_step_push:
  assumes "reading (nf_fs st) fd d" "p < length d" "0 < hwm"
  shows "read_step r enc hwm \<lparr>rs_fd = Some fd, rs_position = p, rs_size = length d\<rparr> st =
    (Push (fromBuffer enc (take hwm (drop p d))),
     \<lparr>rs_fd = Some fd, rs_position = p + min hwm (length d - p), rs_size = length d\<rparr>, st)"
proof -
  let ?n = "min hwm (length d - p)"
  have "subarray p (p + ?n) d = take ?n (drop p d)" by (simp add: subarray_def take_drop add.commute)
  also have "\<dots> = take hwm (drop p d)" by (simp add: min_def)
  finally have sub: "subarray p (p + ?n) d = take hwm (drop p d)" .
  obtain e where e: "fs_fdTable (nf_fs st) fd = Some e" "content_at (fd_inode e) (nf_fs st) = d"
    using assms(1) by (auto simp: reading_def)
  have av: "min (int ?n) (int (length d) - int p) = int ?n" using assms(2) by auto
  have "blit (take hwm (drop p d)) 0 (replicate ?n 0) = Some (take hwm (drop p d))"
    by (simp add: blit_def)
  then have "readFd fd (replicate ?n 0) 0 ?n (Some p) (nf_fs st) = (Inr (?n, take hwm (drop p d)), nf_fs st)"
    using e assms(2,3) sub by (simp only: readFd_def option.case Let_def av) simp
  moreover have nz: "?n \<noteq> 0" using assms(2,3) by (simp add: min_def)
  ultimately show ?thesis
    using assms(2) by (simp add: nz read_step_def rs_open_def on_memfs_def Let_def)
qed

lemma read_step_end:
  assumes "reading (nf_fs st) fd d" "length d \<le> p"
  shows "read_step r enc hwm \<lparr>rs_fd = Some fd, rs_position = p, rs_size = length d\<rparr> st =
    (PushEnd, \<lparr>rs_fd = None, rs_position = p, rs_size = length d\<rparr>,
     st\<lparr>nf_fs := (nf_fs st)\<lparr>fs_fdTable := (fs_fdTable (nf_fs st))(fd := None)\<rparr>\<rparr>)"
  using assms by (auto simp: reading_def read_step_def rs_open_def rs_finish_def on_memfs_def closeFd_def Let_def)

lemma read_from:
  "reading (nf_fs st) fd d \<Longrightarrow> 0 < hwm \<Longrightarrow> p \<le> length d \<Longrightarrow> length d < k + p \<Longrightarrow>
   read_all k r enc hwm \<lparr>rs_fd = Some fd, rs_position = p, rs_size = length d\<rparr> st =
     (map (\<lambda>c. Push (fromBuffer enc c)) (pieces hwm (drop p d)) @ [PushEnd],
      st\<lparr>nf_fs := (nf_fs st)\<lparr>fs_fdTable := (fs_fdTable (nf_fs st))(fd := None)\<rparr>\<rparr>)"
proof (induction k arbitrary: p)
  case (Suc k)
  show ?case
  proof (cases "p < length d")
    case False
    then show ?thesis
      using read_step_end [OF Suc.prems(1), of p r enc hwm] by (simp add: pieces.simps fun_upd_def)
  next
    case True
    let ?q = "p + min hwm (length d - p)"
    have q: "?q \<le> length d" "length d < k + ?q" "drop hwm (drop p d) = drop ?q d"
      using True Suc.prems(2,4) by (auto simp: min_def add.commute)
    have "pieces hwm (drop p d) = take hwm (drop p d) # pieces hwm (drop ?q d)"
      using True Suc.prems(2) q(3) by (subst pieces.simps) simp
    then show ?thesis
      using read_step_push [OF Suc.prems(1) True Suc.prems(2), of r enc] Suc.IH [OF Suc.prems(1,2) q(1,2)] by simp
  qed
qed simp

lemma touch_same [simp]:
  "dir_of (touch_atime a s) = dir_of s" "content_at b (touch_atime a s) = content_at b s"
proof -
  have "dir_of (snd (date_now s)) = dir_of s" by (rule dir_of_heap_cong) (simp add: date_now_def)
  moreover have "keeps_shape (\<lambda>n. n\<lparr>i_atime := v\<rparr>)" for v by (simp add: keeps_shape_def)
  ultimately show "dir_of (touch_atime a s) = dir_of s"
    by (simp add: touch_atime_def split_beta dir_of_upd_shape)
  show "content_at b (touch_atime a s) = content_at b s"
    by (cases "fs_heap s b") (simp_all add: touch_atime_def split_beta content_at_def heap_upd_inode)
qed

lemma touch_fds: "fs_fdTable (touch_atime a s) = fs_fdTable s"
  by (simp add: touch_atime_def upd_inode_def date_now_def split: option.splits)

text \<open>The first call opens the file.\<close>

lemma read_open:
  assumes "fs_wf (nf_fs st)" "view (nf_fs st) (comps r) = Some (FileV d)"
  shows "\<exists>fd st1. rs_open r read_source0 st = (Inr fd, \<lparr>rs_fd = Some fd, rs_position = 0, rs_size = length d\<rparr>, st1)
     \<and> reading (nf_fs st1) fd d \<and> view ((nf_fs st1)\<lparr>fs_fdTable := tb\<rparr>) = view (nf_fs st)
     \<and> (fs_fdTable (nf_fs st1))(fd := None) = fs_fdTable (nf_fs st)"
proof -
  let ?s = "nf_fs st"
  obtain a where a: "walk ?s (comps r) = Some a" "dir_of ?s a = None" "content_at a ?s = d"
    using assms(2) by (auto simp: view_def view_at_def split: option.splits if_splits)
  obtain nd where nd: "fs_heap ?s a = Some nd" using walk_allocated(1) [OF assms(1) a(1)] by auto
  let ?s1 = "touch_atime a ?s" and ?nd = "nd\<lparr>i_atime := fst (date_now ?s)\<rparr>"
  have s1: "fs_heap ?s1 a = Some ?nd" using nd by (simp add: touch_atime_def upd_inode_def split_beta)
  have "wf_inode nd" using assms(1) nd by (auto simp: fs_wf_def)
  then have "i_content nd = Some d"
    using a(2,3) nd by (auto simp: content_at_def dir_of_def wf_inode_def split: option.splits if_splits)
  then have sz: "st_size (mk_stats ?nd) = length d"
    using a(2) nd \<open>wf_inode nd\<close> by (cases "i_type nd") (auto simp: mk_stats_def Let_def dir_of_def wf_inode_def)
  have stat: "stat r ?s = (Inr (mk_stats ?nd), ?s1)" using a(1) s1 by (simp add: stat_def resolve_walk Let_def)
  have w1: "walk ?s1 (comps r) = Some a" "dir_of ?s1 a = None" "content_at a ?s1 = d"
  proof -
    have dd: "dir_of ?s1 = dir_of ?s" by simp
    show "walk ?s1 (comps r) = Some a" using a(1) walk_from_cong [OF dd] by metis
    show "dir_of ?s1 a = None" "content_at a ?s1 = d" using a(2,3) by simp_all
  qed
  let ?fd = "fs_nextFd ?s1" and ?e = "\<lparr>fd_inode = a, fd_position = 0, fd_path = normalizePath r, fd_dirty = False,
      fd_capacity = length d\<rparr>"
  let ?s2 = "?s1\<lparr>fs_nextFd := Suc ?fd, fs_fdTable := (fs_fdTable ?s1)(?fd \<mapsto> ?e)\<rparr>"
  have op: "openFd r ?s1 = (Inr ?fd, ?s2)"
    using w1 s1 \<open>i_content nd = Some d\<close> by (simp add: openFd_def Let_def resolve_walk)
  have "content_at a ?s2 = content_at a ?s1" by (rule content_heap_cong) simp
  then have "reading ?s2 ?fd d" using w1(3) by (simp add: reading_def)
  moreover have "view (?s2\<lparr>fs_fdTable := tb\<rparr>) = view ?s"
    using view_heap_cong [of "?s2\<lparr>fs_fdTable := tb\<rparr>" ?s1] by simp
  moreover have "fs_fdTable ?s1 ?fd = None"
    using fs_wfD(6) [OF fs_wf_touch [OF assms(1)], of a ?fd] by (cases "fs_fdTable ?s1 ?fd") auto
  then have "(fs_fdTable ?s2)(?fd := None) = fs_fdTable ?s"
    by (simp add: fun_upd_def touch_fds fun_eq_iff)
  ultimately show ?thesis
    using stat op sz by (simp add: rs_open_def read_source0_def on_memfs_def)
qed

lemma read_all_pieces:
  assumes "fs_wf (nf_fs st)" "view (nf_fs st) (comps r) = Some (FileV d)" "0 < hwm" "length d < k"
  shows "\<exists>t. read_all k r enc hwm read_source0 st = (map (\<lambda>c. Push (fromBuffer enc c)) (pieces hwm d) @ [PushEnd], t)
     \<and> view (nf_fs t) = view (nf_fs st) \<and> fs_fdTable (nf_fs t) = fs_fdTable (nf_fs st)"
proof -
  let ?tb = "fs_fdTable (nf_fs st)"
  obtain fd st1 where o: "rs_open r read_source0 st = (Inr fd, \<lparr>rs_fd = Some fd, rs_position = 0, rs_size = length d\<rparr>, st1)"
      "reading (nf_fs st1) fd d" "view ((nf_fs st1)\<lparr>fs_fdTable := ?tb\<rparr>) = view (nf_fs st)"
      "(fs_fdTable (nf_fs st1))(fd := None) = ?tb"
    using read_open [OF assms(1,2)] by blast
  let ?rs = "\<lparr>rs_fd = Some fd, rs_position = 0, rs_size = length d\<rparr>"
  have same: "read_step r enc hwm read_source0 st = read_step r enc hwm ?rs st1"
    using o(1) by (simp add: read_step_def rs_open_def [of r ?rs])
  have "read_all k r enc hwm read_source0 st = read_all k r enc hwm ?rs st1"
    using assms(4) same by (cases k) simp_all
  also have "\<dots> = (map (\<lambda>c. Push (fromBuffer enc c)) (pieces hwm d) @ [PushEnd], st1\<lparr>nf_fs := (nf_fs st1)\<lparr>fs_fdTable := ?tb\<rparr>\<rparr>)"
    using read_from [OF o(2) assms(3), of 0 k r enc] assms(4) o(4) by simp
  finally show ?thesis using o(3) by simp
qed

text \<open>
  C40. A read stream over a file pushes exactly the bytes of the file, in pieces of one byte up to the high water
  mark, then the end; it leaves the file system as it was, with its descriptor closed. As many reads as the file
  has bytes, and one more, are enough.
\<close>

theorem read_stream_exact:
  assumes "fs_wf (nf_fs st)" and "view (nf_fs st) (comps r) = Some (FileV d)" and "0 < hwm" and "length d < k"
  shows "\<exists>cs t. read_all k r [] hwm read_source0 st = (map (\<lambda>c. Push (AsBytes c)) cs @ [PushEnd], t)
     \<and> concat cs = d \<and> (\<forall>c \<in> set cs. 0 < length c \<and> length c \<le> hwm)
     \<and> view (nf_fs t) = view (nf_fs st) \<and> fs_fdTable (nf_fs t) = fs_fdTable (nf_fs st)"
proof -
  obtain t where "read_all k r [] hwm read_source0 st = (map (\<lambda>c. Push (fromBuffer [] c)) (pieces hwm d) @ [PushEnd], t)"
     "view (nf_fs t) = view (nf_fs st)" "fs_fdTable (nf_fs t) = fs_fdTable (nf_fs st)"
    using read_all_pieces [OF assms, of "[]"] by blast
  then show ?thesis
    using concat_pieces [OF assms(3), of d] pieces_bounds [OF assms(3), of _ d]
    by (intro exI [of _ "pieces hwm d"] exI [of _ t]) (simp add: fromBuffer_def)
qed

section \<open>Watchers\<close>

definition watchers_of :: "nfs \<Rightarrow> string \<Rightarrow> nat list" where
  "watchers_of st r = (case map_of (nf_watchers st) r of None \<Rightarrow> [] | Some ws \<Rightarrow> ws)"

lemma write_resolved_told:
  assumes "write_resolved r body st = (Inr (), t)"
  shows "\<exists>s'. t = emitWatchEvent r ''change'' (st\<lparr>nf_fs := s'\<rparr>)"
  using assms by (auto simp: write_resolved_def then_notify_def on_memfs_def split: prod.splits sum.splits)

lemma append_resolved_told:
  assumes "append_resolved r body st = (Inr (), t)"
  shows "\<exists>s'. t = emitWatchEvent r ''change'' (st\<lparr>nf_fs := s'\<rparr>)"
proof -
  obtain old s1 where "write_resolved r (old @ body) (st\<lparr>nf_fs := s1\<rparr>) = (Inr (), t)"
    using assms by (auto simp: append_resolved_def on_memfs_def split: prod.splits sum.splits)
  from write_resolved_told [OF this] show ?thesis by simp
qed

lemma write_told:
  assumes "writeFileSync path data enc flag st = (Inr (), t)"
  shows "\<exists>s'. t = emitWatchEvent (resolved_path st path) ''change'' (st\<lparr>nf_fs := s'\<rparr>)"
  using assms append_resolved_told write_resolved_told
  by (auto simp: writeFileSync_def Let_def split: if_splits)

lemma targets_render:
  assumes "list_all plain_name (ps @ [n])"
  shows "watch_targets (render_path (ps @ [n])) = [render_path (ps @ [n]), render_path ps]"
    and "base_of (render_path (ps @ [n])) = n"
proof -
  have n: "plain_name n" and ne: "render_path (ps @ [n]) \<noteq> ''/''" using assms by simp_all
  have r: "render_path (ps @ [n]) = (if ps = [] then slash # n else render_path ps @ slash # n)"
    by (simp add: render_path_def join_with_snoc)
  show "watch_targets (render_path (ps @ [n])) = [render_path (ps @ [n]), render_path ps]"
    using last_slash_render [OF n, of ps] ne r
    by (auto simp: watch_targets_def render_path_def split: if_splits)
  have "split_on slash (xs @ slash # n) = split_on slash xs @ [n]" for xs
    using n by (induction xs) (auto simp: split_on_no_sep plain_name_def split: list.splits)
  then have "last (split_on slash (xs @ slash # n)) = n" for xs by simp
  from this [of "[]"] this [of "render_path ps"] show "base_of (render_path (ps @ [n])) = n"
    using n r by (auto simp: base_of_def Let_def plain_name_def)
qed

text \<open>
  A successful write tells exactly the watchers that are open: one event for each watcher of the file, then
  one for each watcher of its directory, in the order they were made, with the name of the file.
\<close>

theorem write_tells_watchers:
  assumes "writeFileSync path data enc flag st = (Inr (), t)" and "nf_queue st = []"
    and "list_all plain_name (ps @ [n])" and "resolved_path st path = render_path (ps @ [n])"
  shows "nf_seen (run_microtasks t) =
    nf_seen st @ map (\<lambda>w. (w, ''change'', n))
      (filter (\<lambda>w. w \<notin> nf_closed st) (watchers_of st (render_path (ps @ [n])) @ watchers_of st (render_path ps)))"
proof -
  obtain s' where t: "t = emitWatchEvent (render_path (ps @ [n])) ''change'' (st\<lparr>nf_fs := s'\<rparr>)"
    using write_told [OF assms(1)] assms(4) by auto
  have f: "filter (\<lambda>(w, _). P w) (map (\<lambda>w. (w, k, m)) ws) = map (\<lambda>w. (w, k, m)) (filter P ws)"
    for P k m and ws :: "nat list"
    by (induction ws) auto
  have q: "nf_queue t = map (\<lambda>w. (w, ''change'', n)) (watchers_of st (render_path (ps @ [n])) @ watchers_of st (render_path ps))"
    using assms(2) targets_render [OF assms(3)]
    by (simp add: t emitWatchEvent_def watchers_of_def split: option.splits)
  have "nf_closed t = nf_closed st" "nf_seen t = nf_seen st" by (simp_all add: t emitWatchEvent_def)
  then show ?thesis using q by (simp add: run_microtasks_def f)
qed


section \<open>Concrete runs\<close>

lemma write_resolved_ok:
  assumes "fs_wf (nf_fs st)" "comps r \<noteq> []" "view (nf_fs st) (butlast (comps r)) = Some DirV"
    "view (nf_fs st) (comps r) \<noteq> Some DirV"
  shows "\<exists>t. write_resolved r body st = (Inr (), t)"
proof -
  have "is_ok (fst (write_resolved r body st))"
    using write_resolved_refines [OF assms(1,2), of body] assms(3,4)
    by (simp add: refines_def agrees_def spec_write_def)
  then show ?thesis by (cases "write_resolved r body st"; cases "fst (write_resolved r body st)") auto
qed

definition small_fs :: nfs where
  "small_fs = fs_module (snd (writeFile ''/a'' [0xC3, 0xA9] (new_memfs (\<lambda>_. 0)))) ''/''"

lemma small_wf: "fs_wf (nf_fs small_fs)"
  by (simp add: small_fs_def fs_module_def fs_wf_writeFile)

lemma small_fields: "nf_cwd small_fs = ''/''" "nf_queue small_fs = []" "nf_watchers small_fs = []" "nf_closed small_fs = {}"
  by (simp_all add: small_fs_def fs_module_def)

lemma path_facts: "comps ''a'' = [''a'']" "comps ''b'' = [''b'']" "comps ''/a'' = [''a'']" "comps ''/b'' = [''b'']" "resolvePath ''b'' ''/'' = ''/b''"
  "resolvePath ''a'' ''/'' = ''/a''" "resolvePath ''/b'' ''/'' = ''/b''" "resolvePath ''/a'' ''/'' = ''/a''"
  by code_simp+

lemma small_paths: "resolved_path small_fs ''b'' = ''/b''" "resolved_path small_fs ''a'' = ''/a''"
  "resolved_path small_fs ''/a'' = ''/a''" "resolved_path small_fs ''/b'' = ''/b''"
  by (simp_all add: resolved_path_def small_fields path_facts)

lemma small_view: "view (nf_fs small_fs) = (view (new_memfs (\<lambda>_. 0)))([''a''] \<mapsto> FileV [0xC3, 0xA9])"
proof -
  have v: "view (new_memfs (\<lambda>_. 0)) [] = Some DirV" "view (new_memfs (\<lambda>_. 0)) [''a''] = None" by code_simp+
  have "is_ok (fst (writeFile ''/a'' [0xC3, 0xA9] (new_memfs (\<lambda>_. 0))))"
    using writeFile_spec [OF fs_wf_new, of "''/a''" "[0xC3, 0xA9]" "\<lambda>_. 0"] v
    by (simp add: path_facts agrees_def spec_write_def)
  from writeFile_ok_view [OF fs_wf_new _ this] show ?thesis by (simp add: small_fs_def fs_module_def path_facts)
qed

lemma small_views: "view (nf_fs small_fs) [] = Some DirV" "view (nf_fs small_fs) [''a''] = Some (FileV [0xC3, 0xA9])"
  "view (nf_fs small_fs) [''b''] = None"
proof -
  have "view (new_memfs (\<lambda>_. 0)) [] = Some DirV" "view (new_memfs (\<lambda>_. 0)) [''b''] = None" by code_simp+
  then show "view (nf_fs small_fs) [] = Some DirV" "view (nf_fs small_fs) [''a''] = Some (FileV [0xC3, 0xA9])"
    "view (nf_fs small_fs) [''b''] = None" by (simp_all add: small_view)
qed

lemma small_names: "names_ok (nf_fs small_fs)"
proof -
  have "dirs_named (fs_run (\<lambda>_. 0) [OpWriteFile ''/a'' [0xC3, 0xA9]])"
    by (rule dirs_named_run) code_simp
  then show ?thesis using dirs_named_names_ok by (simp add: small_fs_def fs_module_def fs_run_def)
qed

lemma small_write: "\<exists>t. writeFileSync ''b'' d enc ''w'' small_fs = (Inr (), t)"
  using write_resolved_ok [OF small_wf, of "''/b''"]
  by (simp add: writeFileSync_def Let_def small_paths path_facts small_views)


theorem rmSync_refines_witness:
  "refines (rmSync (Suc (fs_inoCounter (nf_fs small_fs))) True False ''a'' small_fs)
     (spec_rm True False (comps (resolved_path small_fs ''a'')) (view (nf_fs small_fs))) small_fs"
  by (rule rmSync_refines [OF small_wf small_names]) (simp_all add: small_paths path_facts)


theorem fs_text_roundtrip_witness:
  "\<exists>t. writeFileSync ''b'' (DataText [0x41, 0x20AC]) ''utf8'' ''w'' small_fs = (Inr (), t)
     \<and> fst (readFileSync ''b'' ''utf8'' t) = Inr (AsText [0x41, 0x20AC])"
proof -
  obtain t where t: "writeFileSync ''b'' (DataText [0x41, 0x20AC]) ''utf8'' ''w'' small_fs = (Inr (), t)"
    using small_write by blast
  have "fst (readFileSync ''b'' ''utf8'' t) = Inr (AsText [0x41, 0x20AC])"
  proof (rule fs_text_roundtrip [OF small_wf _ t])
    show "well_formed [0x41, 0x20AC]" by code_simp
  qed (simp_all add: small_paths path_facts)
  then show ?thesis using t by blast
qed

theorem write_stream_content_witness:
  "\<exists>t pad. write_chunks ''/b'' [[1], [2]] None small_fs = (Inr (), t)
     \<and> view (nf_fs t) (comps ''/b'') = Some (FileV (concat [[1], [2]] @ replicate pad 0))
     \<and> length (concat [[1], [2 :: byte]]) + pad \<notin> {0<..<4096}"
  by (rule write_stream_content [OF small_wf]) (simp_all add: path_facts small_views)

theorem read_stream_exact_witness:
  "\<exists>cs t. read_all 3 ''/a'' [] 1 read_source0 small_fs = (map (\<lambda>c. Push (AsBytes c)) cs @ [PushEnd], t)
     \<and> concat cs = [0xC3, 0xA9] \<and> set (map length cs) \<subseteq> {1}
     \<and> view (nf_fs t) = view (nf_fs small_fs) \<and> fs_fdTable (nf_fs t) = fs_fdTable (nf_fs small_fs)"
proof -
  have "view (nf_fs small_fs) (comps ''/a'') = Some (FileV [0xC3, 0xA9])" by (simp add: path_facts small_views)
  from read_stream_exact [OF small_wf this, of 1 3] obtain cs t where
    "read_all 3 ''/a'' [] 1 read_source0 small_fs = (map (\<lambda>c. Push (AsBytes c)) cs @ [PushEnd], t)"
    "concat cs = [0xC3, 0xA9]" "\<forall>c \<in> set cs. 0 < length c \<and> length c \<le> 1"
    "view (nf_fs t) = view (nf_fs small_fs)" "fs_fdTable (nf_fs t) = fs_fdTable (nf_fs small_fs)" by auto
  moreover have "length c = 1" if "c \<in> set cs" for c using calculation(3) that by (cases c) fastforce+
  then have "set (map length cs) \<subseteq> {1}" by auto
  ultimately show ?thesis by blast
qed

theorem write_tells_watchers_witness:
  "\<exists>t. writeFileSync ''b'' (DataText [65]) ''utf8'' ''w'' (small_fs\<lparr>nf_watchers := [(''/'', [3, 4])], nf_closed := {3}\<rparr>) = (Inr (), t)
     \<and> nf_seen (run_microtasks t) = nf_seen small_fs @ [(4, ''change'', ''b'')]"
proof -
  let ?st = "small_fs\<lparr>nf_watchers := [(''/'', [3, 4])], nf_closed := {3}\<rparr>"
  have r: "resolved_path ?st ''b'' = render_path ([] @ [''b''])"
    by (simp add: resolved_path_def small_fields path_facts render_path_def)
  obtain t where t: "writeFileSync ''b'' (DataText [65]) ''utf8'' ''w'' ?st = (Inr (), t)"
    using write_resolved_ok [of ?st "''/b''"] small_wf
    by (auto simp: writeFileSync_def Let_def r render_path_def path_facts small_views)
  have "list_all plain_name ([] @ [''b''])" "nf_queue ?st = []" by (simp_all add: plain_name_def small_fields)
  from write_tells_watchers [OF t this(2,1) r] show ?thesis
    using t by (simp add: watchers_of_def render_path_def)
qed

text \<open>
  Where the builtin differs: an encoded read stream decodes every piece on its own; a write stream that writes nothing
  makes no file; \<open>openSync(path, 'w')\<close> makes no file either; \<open>r+\<close> replaces the whole content; the watcher of the
  root directory is told at every tick, as its inode number is not a number.
\<close>

lemma encoded_stream_splits:
  "fst (read_all 4 ''/a'' ''utf8'' 1 read_source0 small_fs)
     = [Push (AsText [0xFFFD]), Push (AsText [0xFFFD]), PushEnd]"
  "fst (readFileSync ''/a'' ''utf8'' small_fs) = Inr (AsText [0xE9])"
proof -
  have v: "view (nf_fs small_fs) (comps ''/a'') = Some (FileV [0xC3, 0xA9])" by (simp add: path_facts small_views)
  have "text_decode [0xC3] = [0xFFFD]" "text_decode [0xA9] = [0xFFFD]"
    by (simp_all add: text_decode_def, (subst utf8_decode.simps, simp, (subst utf8_decode.simps, simp)?,
        simp add: utf16_def)+)
  then have "map (\<lambda>c. Push (fromBuffer ''utf8'' c)) (pieces 1 [0xC3, 0xA9])
      = [Push (AsText [0xFFFD]), Push (AsText [0xFFFD])]"
    by (simp add: pieces.simps fromBuffer_def is_utf8_def)
  then show "fst (read_all 4 ''/a'' ''utf8'' 1 read_source0 small_fs)
     = [Push (AsText [0xFFFD]), Push (AsText [0xFFFD]), PushEnd]"
    using read_all_pieces [OF small_wf v, of 1 4 "''utf8''"] by auto
  have "[0xC3, 0xA9] = text_encode [0xE9]" by (simp add: text_encode_def utf8_def high_surrogate_def low_surrogate_def)
  then have "fromBuffer ''utf8'' [0xC3, 0xA9] = AsText [0xE9]"
    using text_round [of "[0xE9]"] by (simp add: fromBuffer_def is_utf8_def high_surrogate_def low_surrogate_def)
  then show "fst (readFileSync ''/a'' ''utf8'' small_fs) = Inr (AsText [0xE9])"
    using read_resolved [OF small_wf, of "''/a''"] v by (simp add: small_paths)
qed

lemma empty_write_stream_no_file: "\<not> existsSync ''/b'' (snd (write_chunks ''/b'' [] None small_fs))"
  by (simp add: write_final_def existsSync_view small_paths path_facts small_views)

lemma open_for_writing_fails:
  "fst (openSync ''/b'' small_fs) = fs_throw ENOENT ''open'' ''/b''"
proof -
  have "walk (nf_fs small_fs) [''b''] = None" using small_views(3) by (simp add: view_def)
  moreover have "normalizePath ''/b'' = ''/b''" by code_simp
  ultimately show ?thesis by (simp add: openSync_def openFd_def small_paths resolve_walk path_facts)
qed

lemma rplus_truncates:
  "\<exists>t. writeFileSync ''/a'' (DataBytes [1]) '''' ''r+'' small_fs = (Inr (), t)
     \<and> view (nf_fs t) [''a''] = Some (FileV [1])"
proof -
  obtain t where t: "write_resolved ''/a'' [1] small_fs = (Inr (), t)"
    using write_resolved_ok [OF small_wf, of "''/a''"] by (auto simp: path_facts small_views)
  then show ?thesis
    using write_replaces [OF small_wf _ t]
    by (simp add: writeFileSync_def Let_def existsSync_view small_paths path_facts small_views toBuffer_def)
qed

lemma root_watch_always_told:
  "map fst (nf_told (stat_tick ''/'' (stat_tick ''/''
     (startStatWatcher ''/'' 7 (fs_module (new_memfs (\<lambda>_. 0)) ''/''))))) = [7, 7]"
  by (simp add: stat_tick_def startStatWatcher_def tryStat_def on_memfs_def stat_def resolve_walk new_memfs_def
      fs_module_def touch_atime_def upd_inode_def date_now_def mk_stats_def statsEqual_def Let_def)

end
