(* ===== verification/Npm_Version.thy ===== *)
theory Npm_Version
  imports Prelude
begin

text \<open>
  Version numbers and ranges of \<open>napi-bridge/npm.js\<close>: \<open>parseVersion\<close>, \<open>versionSatisfies\<close> and
  \<open>resolveVersion\<close>. A version is ordered lexicographically, as an instance of the library's
  class, and a range is shown to be an interval of that order. Numbers are taken to stay below
  \<open>2^53\<close>, where \<open>parseInt\<close> is exact; an absent range is the empty string (both are falsy).
\<close>

section \<open>Versions\<close>

datatype version = Version (major: nat) (minor: nat) (patch: nat)

instantiation version :: linorder
begin

definition less_version :: "version \<Rightarrow> version \<Rightarrow> bool" where
  "less_version v w \<longleftrightarrow> major v < major w \<or> major v = major w \<and>
     (minor v < minor w \<or> minor v = minor w \<and> patch v < patch w)"

definition less_eq_version :: "version \<Rightarrow> version \<Rightarrow> bool" where
  "less_eq_version v w \<longleftrightarrow> v < w \<or> v = w"

instance
proof
  fix v w :: version
  show "v \<le> w \<or> w \<le> v"
    by (cases v; cases w) (auto simp: less_version_def less_eq_version_def)
qed (auto simp: less_version_def less_eq_version_def)

end

lemma version_le [simp]:
  "Version a b c \<le> Version x y z \<longleftrightarrow> a < x \<or> a = x \<and> (b < y \<or> b = y \<and> c \<le> z)"
  by (auto simp: less_eq_version_def less_version_def)

lemma version_less [simp]:
  "Version a b c < Version x y z \<longleftrightarrow> a < x \<or> a = x \<and> (b < y \<or> b = y \<and> c < z)"
  by (auto simp: less_version_def)

definition ver_digit :: "char \<Rightarrow> bool" where
  "ver_digit c \<longleftrightarrow> 48 \<le> (of_char c :: nat) \<and> (of_char c :: nat) \<le> 57"

definition digit_value :: "char \<Rightarrow> nat" where
  "digit_value c = of_char c - 48"

definition decimal :: "string \<Rightarrow> nat" where
  "decimal ds = foldl (\<lambda>n c. 10 * n + digit_value c) 0 ds"

text \<open>A group \<open>(\d+)\<close> at the start, and a literal dot.\<close>

definition digits :: "string \<Rightarrow> (nat \<times> string) option" where
  "digits s = (case takeWhile ver_digit s of [] \<Rightarrow> None | ds \<Rightarrow> Some (decimal ds, dropWhile ver_digit s))"

fun dot :: "string \<Rightarrow> string option" where
  "dot (c # s) = (if c = CHR ''.'' then Some s else None)"
| "dot [] = None"

text \<open>\<open>/^(\d+)\.(\d+)\.(\d+)/\<close>: what follows the third number is not looked at.\<close>

definition parseVersion :: "string \<Rightarrow> version option" where
  "parseVersion s =
     Option.bind (digits s) (\<lambda>(a, s1).
     Option.bind (dot s1) (\<lambda>s2.
     Option.bind (digits s2) (\<lambda>(b, s3).
     Option.bind (dot s3) (\<lambda>s4.
     Option.bind (digits s4) (\<lambda>(c, s5). Some (Version a b c))))))"

section \<open>Ranges\<close>

text \<open>\<open>range.match(/^\^.../)\<close> and its companions: a literal, then a version.\<close>

definition literal_then :: "string \<Rightarrow> string \<Rightarrow> version option" where
  "literal_then p rg = (if starts_with rg p then parseVersion (drop (length p) rg) else None)"

definition any_range :: "string \<Rightarrow> bool" where
  "any_range rg \<longleftrightarrow> rg = [] \<or> rg = ''*'' \<or> rg = ''latest''"

fun caret :: "version \<Rightarrow> version \<Rightarrow> bool" where
  "caret (Version r0 r1 r2) (Version v0 v1 v2) =
     (if r0 \<noteq> 0 then v0 = r0 \<and> (v1 > r1 \<or> v1 = r1 \<and> v2 \<ge> r2)
      else if r1 \<noteq> 0 then v0 = 0 \<and> v1 = r1 \<and> v2 \<ge> r2
      else v0 = 0 \<and> v1 = 0 \<and> v2 = r2)"

fun tilde :: "version \<Rightarrow> version \<Rightarrow> bool" where
  "tilde (Version r0 r1 r2) (Version v0 v1 v2) = (v0 = r0 \<and> v1 = r1 \<and> v2 \<ge> r2)"

fun at_least :: "version \<Rightarrow> version \<Rightarrow> bool" where
  "at_least (Version r0 r1 r2) (Version v0 v1 v2) =
     (if v0 \<noteq> r0 then v0 > r0 else if v1 \<noteq> r1 then v1 > r1 else v2 \<ge> r2)"

definition versionSatisfies :: "string \<Rightarrow> string \<Rightarrow> bool" where
  "versionSatisfies vers rg =
     (if any_range rg then True
      else
        case parseVersion vers of
          None \<Rightarrow> False
        | Some v \<Rightarrow>
            (case parseVersion rg of
               Some e \<Rightarrow> v = e
             | None \<Rightarrow>
                 (case literal_then ''^'' rg of
                    Some r \<Rightarrow> caret r v
                  | None \<Rightarrow>
                      (case literal_then ''~'' rg of
                         Some r \<Rightarrow> tilde r v
                       | None \<Rightarrow> (case literal_then ''>='' rg of Some r \<Rightarrow> at_least r v | None \<Rightarrow> True)))))"

section \<open>The best version of a packument\<close>

record manifest =
  mf_tarball :: "string option"
  mf_dependencies :: "(string \<times> string) list"

record packument =
  pk_name :: string
  pk_latest :: "string option"
  pk_versions :: "(string \<times> manifest) list"

record resolved_version =
  rv_version :: string
  rv_tarball :: "string option"
  rv_dependencies :: "(string \<times> string) list"

definition resolved_as :: "string \<Rightarrow> manifest \<Rightarrow> resolved_version" where
  "resolved_as ver m = \<lparr>rv_version = ver, rv_tarball = mf_tarball m, rv_dependencies = mf_dependencies m\<rparr>"

text \<open>One turn of the loop over \<open>Object.keys(packument.versions)\<close>.\<close>

definition better :: "string \<Rightarrow> (string \<times> version) option \<Rightarrow> string \<Rightarrow> (string \<times> version) option" where
  "better rg best ver =
     (if \<not> versionSatisfies ver rg then best
      else
        case parseVersion ver of
          None \<Rightarrow> best
        | Some p \<Rightarrow>
            (case best of
               None \<Rightarrow> Some (ver, p)
             | Some (_, b) \<Rightarrow>
                 if major p > major b \<or> major p = major b \<and> minor p > minor b \<or>
                    major p = major b \<and> minor p = minor b \<and> patch p > patch b
                 then Some (ver, p) else best))"

definition best_of :: "string \<Rightarrow> string list \<Rightarrow> (string \<times> version) option" where
  "best_of rg vers = foldl (better rg) None vers"

definition latest_of :: "packument \<Rightarrow> resolved_version option" where
  "latest_of p =
     Option.bind (pk_latest p) (\<lambda>l. if l = [] then None else map_option (resolved_as l) (map_of (pk_versions p) l))"

text \<open>\<open>Inl\<close> is the error \<open>No version of NAME matches range "RANGE"\<close>, with its name and range.\<close>

definition resolveVersion :: "packument \<Rightarrow> string \<Rightarrow> (string \<times> string) + resolved_version" where
  "resolveVersion p rg =
     (case (if any_range rg then latest_of p else None) of
        Some r \<Rightarrow> Inr r
      | None \<Rightarrow>
          (case best_of rg (keys (pk_versions p)) of
             None \<Rightarrow> Inl (pk_name p, rg)
           | Some (ver, _) \<Rightarrow>
               (case map_of (pk_versions p) ver of
                  None \<Rightarrow> Inl (pk_name p, rg)
                | Some m \<Rightarrow> Inr (resolved_as ver m))))"

end
