(* ===== verification/Npm_Tar.thy ===== *)
theory Npm_Tar
  imports Prelude
begin

text \<open>
  \<open>parseTar\<close> of \<open>napi-bridge/npm.js\<close>. The offset is an integer, because a size field may be
  negative; \<open>subarray\<close> and \<open>slice\<close> count a negative bound from the end. Reading past a short header
  gives \<open>undefined\<close>, which \<open>String.fromCharCode\<close> turns into a NUL character. A call that does not
  return is \<^term>\<open>None\<close>.
\<close>

section \<open>Typed arrays\<close>

definition rel_index :: "int \<Rightarrow> int \<Rightarrow> int" where
  "rel_index n i = (if i < 0 then max (n + i) 0 else min i n)"

definition js_slice :: "int \<Rightarrow> int \<Rightarrow> 'a list \<Rightarrow> 'a list" where
  "js_slice b e xs =
     (let lo = nat (rel_index (int (length xs)) b); hi = nat (rel_index (int (length xs)) e)
      in take (hi - lo) (drop lo xs))"

definition nth_opt :: "'a list \<Rightarrow> nat \<Rightarrow> 'a option" where
  "nth_opt xs i = (if i < length xs then Some (xs ! i) else None)"

definition char_of_byte :: "byte \<Rightarrow> char" where
  "char_of_byte b = char_of (unat b)"

definition byte_of_char :: "char \<Rightarrow> byte" where
  "byte_of_char c = of_nat (of_char c)"

section \<open>Header fields\<close>

text \<open>\<open>for (let i = lo; i < lo + n && !stop(header[i]); i++) s += String.fromCharCode(header[i])\<close>\<close>

fun field :: "(byte \<Rightarrow> bool) \<Rightarrow> byte list \<Rightarrow> nat \<Rightarrow> nat \<Rightarrow> string" where
  "field stop header i 0 = []"
| "field stop header i (Suc n) =
     (case nth_opt header i of
        None \<Rightarrow> CHR 0x00 # field stop header (Suc i) n
      | Some b \<Rightarrow> if stop b then [] else char_of_byte b # field stop header (Suc i) n)"

definition oct_space :: "char \<Rightarrow> bool" where
  "oct_space c \<longleftrightarrow> (of_char c :: nat) \<in> {9, 10, 11, 12, 13, 32, 160}"

definition is_octal :: "char \<Rightarrow> bool" where
  "is_octal c \<longleftrightarrow> 48 \<le> (of_char c :: nat) \<and> (of_char c :: nat) \<le> 55"

definition octal_value :: "string \<Rightarrow> int" where
  "octal_value ds = foldl (\<lambda>n c. 8 * n + (of_char c - 48)) 0 ds"

text \<open>\<open>parseInt(s, 8) || 0\<close>: white space and a sign are allowed, the first other character ends the number.\<close>

definition parse_octal :: "string \<Rightarrow> int" where
  "parse_octal s =
     (case dropWhile oct_space s of
        [] \<Rightarrow> 0
      | c # t \<Rightarrow>
          if c = CHR ''-'' then - octal_value (takeWhile is_octal t)
          else if c = CHR ''+'' then octal_value (takeWhile is_octal t)
          else octal_value (takeWhile is_octal (c # t)))"

definition is_ustar :: "byte list \<Rightarrow> bool" where
  "is_ustar header \<longleftrightarrow>
     nth_opt header 257 = Some 0x75 \<and> nth_opt header 258 = Some 0x73 \<and> nth_opt header 259 = Some 0x74 \<and>
     nth_opt header 260 = Some 0x61 \<and> nth_opt header 261 = Some 0x72"

definition header_name :: "byte list \<Rightarrow> string" where
  "header_name header =
     (let nm = field (\<lambda>b. b = 0) header 0 100;
          pre = (if is_ustar header then field (\<lambda>b. b = 0) header 345 155 else [])
      in if pre \<noteq> [] then pre @ CHR ''/'' # nm else nm)"

definition header_size :: "byte list \<Rightarrow> int" where
  "header_size header = parse_octal (field (\<lambda>b. b = 0 \<or> b = 0x20) header 124 12)"

definition is_file_type :: "byte option \<Rightarrow> bool" where
  "is_file_type t \<longleftrightarrow> t = Some 0x30 \<or> t = Some 0"

section \<open>The archive\<close>

type_synonym tar_file = "string \<times> byte list"

text \<open>\<open>Math.ceil(size / 512) * 512\<close>\<close>

definition padded_size :: "int \<Rightarrow> int" where
  "padded_size n = (n + 511) div 512 * 512"

partial_function (option) parse_from :: "byte list \<Rightarrow> int \<Rightarrow> tar_file list \<Rightarrow> tar_file list option" where
  "parse_from data off files =
     (if off + 512 \<le> int (length data) then
        let header = js_slice off (off + 512) data in
        if list_all (\<lambda>b. b = 0) header then Some files
        else
          let sz = header_size header; off1 = off + 512;
              files1 = (if is_file_type (nth_opt header 156) \<and> sz > 0
                        then files @ [(header_name header, js_slice off1 (off1 + sz) data)] else files)
          in parse_from data (off1 + padded_size sz) files1
      else Some files)"

definition parseTar :: "byte list \<Rightarrow> tar_file list option" where
  "parseTar data = parse_from data 0 []"

end
