(* ===== verification/Runtime_Cache.thy ===== *)
theory Runtime_Cache
  imports Prelude "HOL-Library.List_Lexorder" "HOL-Library.Char_ord" "HOL-Library.Multiset"
begin

text \<open>
  \<open>napi-bridge/runtime-cache.js\<close>: the tarball cache in IndexedDB with its eviction, and the last
  network mode in \<open>localStorage\<close>. IndexedDB is what the standard says of the calls the module makes:
  \<open>getAll\<close> lists an object store in the order of its keys, and opening a database needs a version that
  is not below the stored one and, to raise it, that no other connection is open. Times are the
  values \<open>Date.now()\<close> returned.
\<close>

section \<open>Opening the database\<close>

record idb =
  idb_version :: nat  \<comment> \<open>0: it does not exist yet\<close>
  idb_open :: "nat list"  \<comment> \<open>the versions of the open connections\<close>

datatype idb_error = VersionError | Blocked

definition idb_request :: "nat \<Rightarrow> idb \<Rightarrow> (idb_error + unit) \<times> idb" where
  "idb_request v d =
     (if v < idb_version d then (Inl VersionError, d)
      else if v > idb_version d \<and> idb_open d \<noteq> [] then (Inl Blocked, d)
      else (Inr (), d\<lparr>idb_version := v, idb_open := v # idb_open d\<rparr>))"

text \<open>\<open>_openDb\<close>: the connection is kept; after a failure the next call tries again.\<close>

definition openDb :: "nat \<Rightarrow> bool \<times> idb \<Rightarrow> (idb_error + unit) \<times> bool \<times> idb" where
  "openDb v s =
     (if fst s then (Inr (), s)
      else case idb_request v (snd s) of (Inl e, d) \<Rightarrow> (Inl e, False, d) | (Inr _, d) \<Rightarrow> (Inr (), True, d))"

definition CACHE_DB_VERSION :: nat where
  "CACHE_DB_VERSION = 1"

section \<open>The tarball cache\<close>

record cache_entry =
  ce_key :: string
  ce_name :: string
  ce_version :: string
  ce_bytes :: "byte list"
  ce_size :: nat
  ce_tsAdded :: int
  ce_tsAccessed :: int
  ce_hits :: nat

type_synonym store = "cache_entry list"

definition pkgKey :: "string \<Rightarrow> string \<Rightarrow> string" where
  "pkgKey nm v = nm @ CHR ''@'' # v"

definition store_get :: "string \<Rightarrow> store \<Rightarrow> cache_entry option" where
  "store_get k st = find (\<lambda>r. ce_key r = k) st"

definition store_delete :: "string \<Rightarrow> store \<Rightarrow> store" where
  "store_delete k st = filter (\<lambda>r. ce_key r \<noteq> k) st"

definition store_put :: "cache_entry \<Rightarrow> store \<Rightarrow> store" where
  "store_put r st = insort_key ce_key r (store_delete (ce_key r) st)"

definition cacheGetPackage :: "string \<Rightarrow> string \<Rightarrow> int \<Rightarrow> store \<Rightarrow> byte list option \<times> store" where
  "cacheGetPackage nm v now st =
     (case store_get (pkgKey nm v) st of
        None \<Rightarrow> (None, st)
      | Some r \<Rightarrow> (Some (ce_bytes r), store_put (r\<lparr>ce_tsAccessed := now, ce_hits := ce_hits r + 1\<rparr>) st))"

definition DEFAULT_CACHE_CAP_BYTES :: nat where
  "DEFAULT_CACHE_CAP_BYTES = 128 * 1024 * 1024"

definition total_size :: "store \<Rightarrow> nat" where
  "total_size st = sum_list (map ce_size st)"

fun evict_loop :: "nat \<Rightarrow> nat \<Rightarrow> nat \<Rightarrow> store \<Rightarrow> store \<Rightarrow> store" where
  "evict_loop cap incoming tot [] st = st"
| "evict_loop cap incoming tot (r # rs) st =
     (if tot + incoming \<le> cap then st
      else evict_loop cap incoming (tot - ce_size r) rs (store_delete (ce_key r) st))"

definition evictIfNeeded :: "nat \<Rightarrow> nat \<Rightarrow> store \<Rightarrow> store" where
  "evictIfNeeded cap incoming st =
     (if total_size st + incoming \<le> cap then st
      else evict_loop cap incoming (total_size st) (sort_key ce_tsAccessed st) st)"

definition cachePutPackage :: "nat \<Rightarrow> string \<Rightarrow> string \<Rightarrow> byte list \<Rightarrow> int \<Rightarrow> store \<Rightarrow> store" where
  "cachePutPackage cap nm v bytes now st =
     store_put \<lparr>ce_key = pkgKey nm v, ce_name = nm, ce_version = v, ce_bytes = bytes, ce_size = length bytes,
        ce_tsAdded = now, ce_tsAccessed = now, ce_hits = 0\<rparr>
       (evictIfNeeded cap (length bytes) st)"

definition cacheDeletePackage :: "string \<Rightarrow> string \<Rightarrow> store \<Rightarrow> store" where
  "cacheDeletePackage nm v st = store_delete (pkgKey nm v) st"

definition cacheClearPackages :: "store \<Rightarrow> store" where
  "cacheClearPackages st = []"

definition cacheListPackages :: "store \<Rightarrow> (string \<times> string \<times> nat \<times> int \<times> int \<times> nat) list" where
  "cacheListPackages st =
     map (\<lambda>r. (ce_name r, ce_version r, ce_size r, ce_tsAdded r, ce_tsAccessed r, ce_hits r)) st"

text \<open>Count, bytes and cap; the quota and usage of the browser are its own.\<close>

definition cacheStats :: "nat \<Rightarrow> store \<Rightarrow> nat \<times> nat \<times> nat" where
  "cacheStats cap st = (length (cacheListPackages st), sum_list (map (\<lambda>(n, v, sz, r). sz) (cacheListPackages st)), cap)"

section \<open>The network mode\<close>

record net_mode =
  nm_mode :: string
  nm_url :: "string option"
  nm_ts :: int

definition NETMODE_TTL_MS :: int where
  "NETMODE_TTL_MS = 24 * 60 * 60 * 1000"

text \<open>\<open>url || null\<close>\<close>

definition some_url :: "string option \<Rightarrow> string option" where
  "some_url u = (if u = Some [] then None else u)"

definition recordNetworkMode :: "string \<Rightarrow> string option \<Rightarrow> int \<Rightarrow> net_mode option \<Rightarrow> net_mode option" where
  "recordNetworkMode m u now st =
     (if (case st of Some prev \<Rightarrow> nm_mode prev = m \<and> nm_url prev = some_url u | None \<Rightarrow> False) then st
      else Some \<lparr>nm_mode = m, nm_url = some_url u, nm_ts = now\<rparr>)"

definition getLastNetworkMode :: "int \<Rightarrow> net_mode option \<Rightarrow> net_mode option" where
  "getLastNetworkMode now st =
     (case st of None \<Rightarrow> None | Some rec \<Rightarrow> if now - nm_ts rec > NETMODE_TTL_MS then None else Some rec)"

definition clearLastNetworkMode :: "net_mode option \<Rightarrow> net_mode option" where
  "clearLastNetworkMode st = None"

section \<open>What the cache promises\<close>

text \<open>Every entry is under its own key, once, in the order of the keys, with its size.\<close>

definition cache_ok :: "store \<Rightarrow> bool" where
  "cache_ok st \<longleftrightarrow> sorted (map ce_key st) \<and> distinct (map ce_key st)
     \<and> (\<forall>r \<in> set st. ce_size r = length (ce_bytes r) \<and> ce_key r = pkgKey (ce_name r) (ce_version r))"

lemma set_store_delete [simp]: "set (store_delete k st) = {r \<in> set st. ce_key r \<noteq> k}"
  by (auto simp: store_delete_def)

lemma cache_ok_delete [simp]: "cache_ok st \<Longrightarrow> cache_ok (store_delete k st)"
  by (auto simp: cache_ok_def store_delete_def sorted_filter distinct_map_filter)

lemma cache_ok_put:
  assumes "cache_ok st" "ce_size r = length (ce_bytes r)" "ce_key r = pkgKey (ce_name r) (ce_version r)"
  shows "cache_ok (store_put r st)"
proof -
  have "distinct (map ce_key (insort_key ce_key r (store_delete (ce_key r) st)))"
    using cache_ok_delete [OF assms(1), of "ce_key r"]
    by (auto simp: cache_ok_def distinct_map distinct_insort inj_on_def set_insort_key)
  then show ?thesis
    using assms cache_ok_delete [OF assms(1), of "ce_key r"]
    by (auto simp: cache_ok_def store_put_def sorted_insort_key set_insort_key)
qed

lemma cache_ok_evict_loop: "cache_ok st \<Longrightarrow> cache_ok (evict_loop cap inc tot rs st)"
  by (induction cap inc tot rs st rule: evict_loop.induct) auto


lemma store_delete_mset:
  "distinct (map ce_key st) \<Longrightarrow> r \<in> set st \<Longrightarrow> mset (store_delete (ce_key r) st) = mset st - {#r#}"
proof (induction st)
  case (Cons x st)
  show ?case
  proof (cases "x = r")
    case True
    with Cons.prems(1) have "filter (\<lambda>y. ce_key y \<noteq> ce_key r) st = st"
      by (intro filter_True) (metis True distinct.simps(2) image_eqI list.set_map list.simps(9))
    then show ?thesis using True by (simp add: store_delete_def)
  next
    case False
    then have r: "r \<in> set st" using Cons.prems(2) by simp
    have "ce_key x \<noteq> ce_key r" using r Cons.prems(1) by force
    moreover have "r \<in># mset st" using r by simp
    ultimately show ?thesis using Cons.IH r Cons.prems(1) by (simp add: store_delete_def)
  qed
qed simp

lemma total_size_mset: "total_size st = sum_mset (image_mset ce_size (mset st))"
  by (simp add: total_size_def flip: sum_mset_sum_list mset_map)

text \<open>Eviction takes the entries off in the order given, no more of them than needed.\<close>

lemma evict_loop_spec:
  assumes "mset st = mset rs" "distinct (map ce_key st)" "tot = total_size st"
  shows "\<exists>victims kept. rs = victims @ kept \<and> mset (evict_loop cap inc tot rs st) = mset kept
     \<and> (kept = [] \<or> total_size kept + inc \<le> cap)
     \<and> (victims \<noteq> [] \<longrightarrow> cap < total_size (last victims # kept) + inc)"
  using assms
proof (induction cap inc tot rs st rule: evict_loop.induct)
  case (1 cap inc tot st)
  then show ?case by simp
next
  case (2 cap inc tot r rs st)
  note ih = "2.IH" and prems = "2.prems"
  show ?case
  proof (cases "tot + inc \<le> cap")
    case True
    then show ?thesis
      using prems total_size_mset [of st] total_size_mset [of "r # rs"]
      by (intro exI [of _ "[]"] exI [of _ "r # rs"]) auto
  next
    case False
    have r: "r \<in> set st" using prems(1) by (metis list.set_intros(1) set_mset_mset)
    let ?st = "store_delete (ce_key r) st"
    have m: "mset ?st = mset rs" using store_delete_mset [OF prems(2) r] prems(1) by simp
    have d: "distinct (map ce_key ?st)" using prems(2) by (simp add: store_delete_def distinct_map_filter)
    have t: "tot - ce_size r = total_size ?st"
      using prems(1,3) m by (simp add: total_size_mset)
    obtain victims kept where v: "rs = victims @ kept"
      "mset (evict_loop cap inc (tot - ce_size r) rs ?st) = mset kept"
      "kept = [] \<or> total_size kept + inc \<le> cap"
      "victims \<noteq> [] \<longrightarrow> cap < total_size (last victims # kept) + inc"
      using ih [OF False m d t] by blast
    have "cap < total_size (last (r # victims) # kept) + inc"
    proof (cases "victims = []")
      case True
      have "tot = total_size (r # kept)" using prems(1,3) v(1) True by (simp add: total_size_mset)
      then show ?thesis using True False by simp
    next
      case False
      then show ?thesis using v(4) by simp
    qed
    then show ?thesis
      using v False by (intro exI [of _ "r # victims"] exI [of _ kept]) auto
  qed
qed

lemma evict_spec:
  assumes "cache_ok st"
  shows "\<exists>victims kept. sort_key ce_tsAccessed st = victims @ kept \<and> mset (evictIfNeeded cap inc st) = mset kept
     \<and> (kept = [] \<or> total_size kept + inc \<le> cap)
     \<and> (victims \<noteq> [] \<longrightarrow> cap < total_size (last victims # kept) + inc)"
proof (cases "total_size st + inc \<le> cap")
  case True
  then show ?thesis
    using total_size_mset [of st] total_size_mset [of "sort_key ce_tsAccessed st"]
    by (intro exI [of _ "[]"] exI [of _ "sort_key ce_tsAccessed st"]) (simp add: evictIfNeeded_def)
next
  case False
  then show ?thesis
    using evict_loop_spec [of st "sort_key ce_tsAccessed st" "total_size st" cap inc] assms
    by (simp add: evictIfNeeded_def cache_ok_def)
qed

lemma cache_ok_evict: "cache_ok st \<Longrightarrow> cache_ok (evictIfNeeded cap inc st)"
  by (simp add: evictIfNeeded_def cache_ok_evict_loop)

lemma cache_ok_cachePut: "cache_ok st \<Longrightarrow> cache_ok (cachePutPackage cap nm v bytes now st)"
  unfolding cachePutPackage_def by (rule cache_ok_put) (simp_all add: cache_ok_evict)

lemma store_get_in: "cache_ok st \<Longrightarrow> r \<in> set st \<Longrightarrow> store_get (ce_key r) st = Some r"
proof -
  assume ok: "cache_ok st" and r: "r \<in> set st"
  have "store_get (ce_key r) st \<noteq> None" using r by (auto simp: store_get_def find_None_iff)
  then obtain x where x: "store_get (ce_key r) st = Some x" by blast
  then have "x \<in> set st" "ce_key x = ce_key r" by (auto simp: store_get_def find_Some_iff)
  then show ?thesis using x r ok by (auto simp: cache_ok_def distinct_map inj_on_def)
qed

lemma set_store_put: "set (store_put r st) = insert r {x \<in> set st. ce_key x \<noteq> ce_key r}"
  by (simp add: store_put_def set_insort_key)

lemma total_size_put: "total_size (store_put r st) \<le> ce_size r + total_size st"
proof -
  have "total_size (store_put r st) = ce_size r + total_size (store_delete (ce_key r) st)"
    by (simp add: store_put_def total_size_mset)
  moreover have "total_size (store_delete k st) \<le> total_size st" for k
    unfolding total_size_def store_delete_def by (induction st) auto
  ultimately show ?thesis by simp
qed

text \<open>
  After a tarball is stored it is found again with its bytes, under its name and version; the
  cache holds no more than its cap (or that one tarball, when it alone is larger), and what was
  evicted for it was used no later than anything that was kept.
\<close>

theorem cache_put_bounded_lru:
  assumes "cache_ok st"
  shows "fst (cacheGetPackage nm v t (cachePutPackage cap nm v bytes now st)) = Some bytes
    \<and> total_size (cachePutPackage cap nm v bytes now st) \<le> max cap (length bytes)
    \<and> cache_ok (cachePutPackage cap nm v bytes now st)
    \<and> (\<forall>gone \<in> set st. \<forall>kept \<in> set st. gone \<notin> set (cachePutPackage cap nm v bytes now st) \<longrightarrow> ce_key gone \<noteq> pkgKey nm v
         \<longrightarrow> kept \<in> set (cachePutPackage cap nm v bytes now st) \<longrightarrow> ce_key kept \<noteq> pkgKey nm v
         \<longrightarrow> ce_tsAccessed gone \<le> ce_tsAccessed kept)"
proof -
  let ?e = "evictIfNeeded cap (length bytes) st"
  let ?r = "\<lparr>ce_key = pkgKey nm v, ce_name = nm, ce_version = v, ce_bytes = bytes, ce_size = length bytes,
        ce_tsAdded = now, ce_tsAccessed = now, ce_hits = 0\<rparr>"
  let ?c = "cachePutPackage cap nm v bytes now st"
  have c: "?c = store_put ?r ?e" by (simp add: cachePutPackage_def)
  have ok: "cache_ok ?c" by (rule cache_ok_cachePut [OF assms])
  have "?r \<in> set ?c" unfolding c by (simp add: set_store_put)
  from store_get_in [OF ok this] have get: "fst (cacheGetPackage nm v t ?c) = Some bytes"
    by (simp add: cacheGetPackage_def)
  obtain victims kept where v: "sort_key ce_tsAccessed st = victims @ kept" "mset ?e = mset kept"
    "kept = [] \<or> total_size kept + length bytes \<le> cap"
    using evict_spec [OF assms, of cap "length bytes"] by blast
  have "total_size ?e = total_size kept" using v(2) by (simp add: total_size_mset)
  then have tot: "total_size ?c \<le> max cap (length bytes)"
    using total_size_put [of ?r ?e] v(3) unfolding c by (auto simp: total_size_def)
  have sets: "set st = set victims \<union> set kept" "set ?e = set kept"
    using arg_cong [OF v(1), of set] mset_eq_setD [OF v(2)] by auto
  have sorted: "sorted (map ce_tsAccessed (victims @ kept))"
    using sorted_sort_key [of ce_tsAccessed st] v(1) by simp
  have "ce_tsAccessed gone \<le> ce_tsAccessed k"
    if "gone \<in> set st" "k \<in> set st" "gone \<notin> set ?c" "ce_key gone \<noteq> pkgKey nm v" "k \<in> set ?c"
      "ce_key k \<noteq> pkgKey nm v" for gone k
  proof -
    have "gone \<in> set victims" using that(1,3,4) sets by (auto simp: c set_store_put)
    moreover have "k \<in> set kept"
    proof -
      have "k = ?r \<or> k \<in> set ?e" using that(5) unfolding c set_store_put by blast
      moreover have "k \<noteq> ?r" using that(6) by (metis cache_entry.select_convs(1))
      ultimately show ?thesis using sets(2) by blast
    qed
    moreover have "\<forall>x \<in> set victims. \<forall>y \<in> set kept. ce_tsAccessed x \<le> ce_tsAccessed y"
      using sorted unfolding map_append sorted_append by simp
    ultimately show ?thesis by blast
  qed
  then have lru: "\<forall>gone \<in> set st. \<forall>kept \<in> set st. gone \<notin> set ?c \<longrightarrow> ce_key gone \<noteq> pkgKey nm v
         \<longrightarrow> kept \<in> set ?c \<longrightarrow> ce_key kept \<noteq> pkgKey nm v \<longrightarrow> ce_tsAccessed gone \<le> ce_tsAccessed kept"
    by blast
  show ?thesis by (intro conjI get tot ok lru)
qed


definition sample_cache :: store where
  "sample_cache = cachePutPackage 5 ''b'' ''1.0.0'' [1, 2] 7 (cachePutPackage 5 ''a'' ''1.0.0'' [1, 2] 3 [])"

theorem cache_put_bounded_lru_witness:
  "fst (cacheGetPackage ''c'' ''1.0.0'' 9 (cachePutPackage 5 ''c'' ''1.0.0'' [5, 6, 7] 8 sample_cache)) = Some [5, 6, 7]
   \<and> map ce_name (cachePutPackage 5 ''c'' ''1.0.0'' [5, 6, 7] 8 sample_cache) = [''b'', ''c'']"
proof -
  have "cache_ok sample_cache"
    unfolding sample_cache_def by (intro cache_ok_cachePut) (simp add: cache_ok_def)
  from cache_put_bounded_lru [OF this, of "''c''" "''1.0.0''" 9 5 "[5, 6, 7]" 8]
  have "fst (cacheGetPackage ''c'' ''1.0.0'' 9 (cachePutPackage 5 ''c'' ''1.0.0'' [5, 6, 7] 8 sample_cache)) = Some [5, 6, 7]"
    by blast
  moreover have "map ce_name (cachePutPackage 5 ''c'' ''1.0.0'' [5, 6, 7] 8 sample_cache) = [''b'', ''c'']"
    by code_simp
  ultimately show ?thesis by simp
qed

section \<open>What goes wrong\<close>

text \<open>
  The session store opens the same database with version 2. Once it has, this module's request for
  version 1 is refused, in every later page, and the cache is silently empty; and while a page holds
  the connection of version 1, the request for version 2 is blocked.
\<close>

lemma cache_open_refused:
  "fst (openDb 2 (False, \<lparr>idb_version = n, idb_open = []\<rparr>)) = Inr () \<Longrightarrow>
   fst (openDb CACHE_DB_VERSION (False, snd (snd (openDb 2 (False, \<lparr>idb_version = n, idb_open = []\<rparr>))))) = Inl VersionError"
  by (auto simp: openDb_def idb_request_def CACHE_DB_VERSION_def split: if_splits)

lemma session_open_blocked:
  "fst (openDb 2 (False, snd (snd (openDb CACHE_DB_VERSION (False, \<lparr>idb_version = 0, idb_open = []\<rparr>))))) = Inl Blocked"
  by (simp add: openDb_def idb_request_def CACHE_DB_VERSION_def)

text \<open>
  A repeated record leaves the old time in place, and the record stays even after it has expired: a
  mode in constant use is forgotten a day after its first use, and for good.
\<close>

lemma mode_in_use_forgotten:
  assumes "getLastNetworkMode t0 (recordNetworkMode m u t0 None) \<noteq> None" "t1 - t0 > NETMODE_TTL_MS"
  shows "getLastNetworkMode t1 (recordNetworkMode m u t1 (recordNetworkMode m u t0 None)) = None"
  using assms by (simp add: recordNetworkMode_def getLastNetworkMode_def)

text \<open>A tarball larger than the cap evicts everything and is stored all the same.\<close>

lemma oversized_tarball_stored:
  "map ce_name (cachePutPackage 2 ''c'' ''1.0.0'' [5, 6, 7] 8 sample_cache) = [''c'']"
  by code_simp

end
