(* ===== verification/Npm_Install.thy ===== *)
theory Npm_Install
  imports Npm_Version Npm_Tar Runtime_Cache Package_Resolve Memfs_Run
begin

text \<open>
  The installer of \<open>napi-bridge/npm.js\<close>: \<open>extractTgzToMemfs\<close> and \<open>installPackage\<close> over the in-memory
  file system and the tarball cache. The network, \<open>gunzip\<close> (of the package \<open>fflate\<close>) and
  \<open>JSON.parse\<close> of decoded bytes are functions of the environment; an answer of the network may depend
  on how many events came before it. The writes to the cache, which nobody waits for, happen
  at once. \<^term>\<open>None\<close> is a call that does not return.
\<close>

section \<open>State\<close>

datatype npm_error =
    NoMatch string string
  | NoTarball string string
  | FetchFailed string
  | GunzipFailed
  | FsFailed js_exn

datatype status_line =
    Fetching string string
  | Resolved string string
  | Downloading string string
  | FromCache string string nat
  | Extracting string string nat
  | CacheCorrupt string string
  | Warn string npm_error

record npm_env =
  ne_abbreviated :: "nat \<Rightarrow> string \<Rightarrow> npm_error + packument"
  ne_full :: "nat \<Rightarrow> string \<Rightarrow> npm_error + packument"
  ne_tarball :: "nat \<Rightarrow> string \<Rightarrow> npm_error + byte list"
  ne_now :: "nat \<Rightarrow> int"
  ne_gunzip :: "byte list \<Rightarrow> byte list option"
  ne_message :: "npm_error \<Rightarrow> string"  \<comment> \<open>the message of an error that is not of this module\<close>
  ne_json :: "byte list \<Rightarrow> json option"
  ne_text :: "json \<Rightarrow> string"  \<comment> \<open>\<open>String(v)\<close>\<close>
  ne_cap :: nat

record npm_state =
  np_fs :: fs
  np_cache :: store
  np_events :: nat
  np_installed :: "string list"
  np_lines :: "status_line list"

text \<open>A throw keeps what was done before it.\<close>

type_synonym 'a npm_act = "npm_state \<Rightarrow> ((npm_error + 'a) \<times> npm_state) option"

definition say :: "status_line \<Rightarrow> npm_state \<Rightarrow> npm_state" where
  "say l st = st\<lparr>np_lines := np_lines st @ [l]\<rparr>"

definition npm_ret :: "'a \<Rightarrow> 'a npm_act" where
  "npm_ret x st = Some (Inr x, st)"

definition npm_throw :: "npm_error \<Rightarrow> 'a npm_act" where
  "npm_throw e st = Some (Inl e, st)"

definition npm_bind :: "'a npm_act \<Rightarrow> ('a \<Rightarrow> 'b npm_act) \<Rightarrow> 'b npm_act" where
  "npm_bind m f st =
     (case m st of None \<Rightarrow> None | Some (Inl e, st1) \<Rightarrow> Some (Inl e, st1) | Some (Inr x, st1) \<Rightarrow> f x st1)"

definition npm_catch :: "'a npm_act \<Rightarrow> (npm_error \<Rightarrow> 'a npm_act) \<Rightarrow> 'a npm_act" where
  "npm_catch m h st =
     (case m st of None \<Rightarrow> None | Some (Inl e, st1) \<Rightarrow> h e st1 | Some (Inr x, st1) \<Rightarrow> Some (Inr x, st1))"

definition npm_do :: "(npm_state \<Rightarrow> npm_state) \<Rightarrow> unit npm_act" where
  "npm_do f st = Some (Inr (), f st)"

text \<open>A request: what the network answers now.\<close>

definition request :: "(nat \<Rightarrow> npm_error + 'a) \<Rightarrow> 'a npm_act" where
  "request f st = Some (f (np_events st), st\<lparr>np_events := Suc (np_events st)\<rparr>)"

definition on_cache :: "(store \<Rightarrow> 'a \<times> store) \<Rightarrow> 'a npm_act" where
  "on_cache f st = (case f (np_cache st) of (x, c) \<Rightarrow>
     Some (Inr x, st\<lparr>np_cache := c, np_events := Suc (np_events st)\<rparr>))"

section \<open>Extraction\<close>

definition strip_package :: "string \<Rightarrow> string" where
  "strip_package nm = (case index_of slash nm of None \<Rightarrow> nm | Some i \<Rightarrow> drop (Suc i) nm)"

text \<open>\<open>try { memfs.mkdir(parentDir, true) } catch {}\<close>, then the file.\<close>

definition install_file :: "string \<Rightarrow> byte list \<Rightarrow> fs \<Rightarrow> (js_exn + unit) \<times> fs" where
  "install_file full d s =
     (let s1 = (case last_index_of slash full of
                  None \<Rightarrow> s
                | Some i \<Rightarrow> if i > 0 then snd (mkdir (take i full) True s) else s)
      in writeFile full d s1)"

definition extract_file :: "string \<Rightarrow> string \<Rightarrow> byte list \<Rightarrow> fs \<Rightarrow> (js_exn + unit) \<times> fs" where
  "extract_file dest nm d s =
     (let n = strip_package nm in
      if n = [] \<or> ends_with n [slash] then (Inr (), s)
      else install_file (dest @ slash # n) d s)"

fun extract_files :: "string \<Rightarrow> tar_file list \<Rightarrow> fs \<Rightarrow> (js_exn + unit) \<times> fs" where
  "extract_files dest [] s = (Inr (), s)"
| "extract_files dest ((nm, d) # files) s =
     (case extract_file dest nm d s of
        (Inl e, s1) \<Rightarrow> (Inl e, s1)
      | (Inr _, s1) \<Rightarrow> extract_files dest files s1)"

definition extractTgzToMemfs ::
  "(byte list \<Rightarrow> byte list option) \<Rightarrow> byte list \<Rightarrow> string \<Rightarrow> fs \<Rightarrow> ((npm_error + unit) \<times> fs) option" where
  "extractTgzToMemfs gunzip tgz dest s =
     (case gunzip tgz of
        None \<Rightarrow> Some (Inl GunzipFailed, s)
      | Some data \<Rightarrow>
          (case parseTar data of
             None \<Rightarrow> None
           | Some files \<Rightarrow>
               (case extract_files dest files s of
                  (Inl e, s1) \<Rightarrow> Some (Inl (FsFailed e), s1)
                | (Inr _, s1) \<Rightarrow> Some (Inr (), s1))))"

definition unpack :: "npm_env \<Rightarrow> byte list \<Rightarrow> string \<Rightarrow> unit npm_act" where
  "unpack env tgz dest st =
     (case extractTgzToMemfs (ne_gunzip env) tgz dest (np_fs st) of
        None \<Rightarrow> None
      | Some (r, s) \<Rightarrow> Some (r, st\<lparr>np_fs := s\<rparr>))"

section \<open>Installation\<close>

definition json_truthy :: "json \<Rightarrow> bool" where
  "json_truthy j \<longleftrightarrow> (case j of JNull \<Rightarrow> False | JBool b \<Rightarrow> b | JNum n \<Rightarrow> n \<noteq> 0 | JStr s \<Rightarrow> s \<noteq> [] | _ \<Rightarrow> True)"

text \<open>A truthy property of an object; other values have none of the properties asked for.\<close>

definition prop_of :: "string \<Rightarrow> json \<Rightarrow> json option" where
  "prop_of k j =
     (case j of
        JObj m \<Rightarrow> (case map_of m k of Some v \<Rightarrow> if json_truthy v then Some v else None | None \<Rightarrow> None)
      | _ \<Rightarrow> None)"

text \<open>\<open>JSON.parse(_decoder.decode(memfs.readFile(path)))\<close>; every exception is caught by the callers.\<close>

definition read_json :: "npm_env \<Rightarrow> string \<Rightarrow> fs \<Rightarrow> json option \<times> fs" where
  "read_json env p s =
     (case readFile p s of
        (Inl e, s1) \<Rightarrow> (None, s1)
      | (Inr d, s1) \<Rightarrow> (ne_json env d, s1))"

definition installed_version :: "npm_env \<Rightarrow> string \<Rightarrow> fs \<Rightarrow> string option \<times> fs" where
  "installed_version env dest s =
     (case read_json env (dest @ ''/package.json'') s of
        (None, s1) \<Rightarrow> (None, s1)
      | (Some j, s1) \<Rightarrow> (map_option (ne_text env) (prop_of ''version'' j), s1))"

record installed =
  in_name :: string
  in_version :: string
  in_count :: nat

definition installed_as :: "string \<Rightarrow> string \<Rightarrow> nat \<Rightarrow> installed" where
  "installed_as nm v n = \<lparr>in_name = nm, in_version = v, in_count = n\<rparr>"

definition fetch_packument :: "npm_env \<Rightarrow> string \<Rightarrow> packument npm_act" where
  "fetch_packument env nm = npm_catch (request (\<lambda>t. ne_abbreviated env t nm)) (\<lambda>e. request (\<lambda>t. ne_full env t nm))"

definition resolve_act :: "packument \<Rightarrow> string \<Rightarrow> resolved_version npm_act" where
  "resolve_act p rg st =
     Some (case resolveVersion p rg of Inl (n, r) \<Rightarrow> Inl (NoMatch n r) | Inr v \<Rightarrow> Inr v, st)"

text \<open>A tarball from the network, also put in the cache.\<close>

definition download :: "npm_env \<Rightarrow> string \<Rightarrow> string \<Rightarrow> string \<Rightarrow> byte list npm_act" where
  "download env nm v url =
     npm_bind (request (\<lambda>t. ne_tarball env t url)) (\<lambda>tgz st.
       Some (Inr tgz, st\<lparr>np_cache := cachePutPackage (ne_cap env) nm v tgz (ne_now env (np_events st)) (np_cache st)\<rparr>))"

definition cached_tarball :: "npm_env \<Rightarrow> string \<Rightarrow> string \<Rightarrow> byte list option npm_act" where
  "cached_tarball env nm v st =
     npm_bind (on_cache (cacheGetPackage nm v (ne_now env (np_events st))))
       (\<lambda>c. npm_ret (case c of Some b \<Rightarrow> if b \<noteq> [] then Some b else None | None \<Rightarrow> None)) st"

definition place :: "npm_env \<Rightarrow> string \<Rightarrow> string \<Rightarrow> string \<Rightarrow> string \<Rightarrow> string \<Rightarrow> unit npm_act" where
  "place env nm v url modules dest =
     npm_bind (cached_tarball env nm v) (\<lambda>c.
     npm_bind (case c of
         Some b \<Rightarrow> npm_bind (npm_do (say (FromCache nm v (length b)))) (\<lambda>_. npm_ret b)
       | None \<Rightarrow> npm_bind (npm_do (say (Downloading nm v))) (\<lambda>_. download env nm v url)) (\<lambda>tgz.
     npm_bind (npm_do (say (Extracting nm v (length tgz)))) (\<lambda>_.
     npm_bind (npm_do (\<lambda>st. st\<lparr>np_fs := snd (mkdir modules True (np_fs st))\<rparr>)) (\<lambda>_.
     npm_catch (unpack env tgz dest) (\<lambda>e.
       if c = None then npm_throw e
       else
         npm_bind (on_cache (\<lambda>st. ((), cacheDeletePackage nm v st))) (\<lambda>_.
         npm_bind (npm_do (say (CacheCorrupt nm v))) (\<lambda>_.
         npm_bind (download env nm v url) (\<lambda>tgz2. unpack env tgz2 dest))))))))"

text \<open>The dependencies, whose errors are only reported.\<close>

fun install_deps :: "(string \<Rightarrow> string \<Rightarrow> installed npm_act) \<Rightarrow> (string \<times> string) list \<Rightarrow> nat \<Rightarrow> nat npm_act" where
  "install_deps ins [] n = npm_ret n"
| "install_deps ins ((d, rg) # deps) n =
     npm_bind
       (npm_catch (npm_bind (ins d rg) (\<lambda>r. npm_ret (n + in_count r)))
         (\<lambda>e. npm_bind (npm_do (say (Warn d e))) (\<lambda>_. npm_ret n)))
       (install_deps ins deps)"

definition fresh_install ::
  "npm_env \<Rightarrow> string \<Rightarrow> string \<Rightarrow> (string \<Rightarrow> string \<Rightarrow> installed npm_act) option \<Rightarrow> string \<Rightarrow> string \<Rightarrow> installed npm_act" where
  "fresh_install env modules dest deeper nm rg =
     npm_bind (npm_do (say (Fetching nm rg))) (\<lambda>_.
     npm_bind (fetch_packument env nm) (\<lambda>p.
     npm_bind (resolve_act p rg) (\<lambda>r.
     npm_bind (npm_do (say (Resolved nm (rv_version r)))) (\<lambda>_.
       case rv_tarball r of
         None \<Rightarrow> npm_throw (NoTarball nm (rv_version r))
       | Some url \<Rightarrow>
           if url = [] then npm_throw (NoTarball nm (rv_version r))
           else
             npm_bind (place env nm (rv_version r) url modules dest) (\<lambda>_.
             npm_bind (case deeper of None \<Rightarrow> npm_ret 1 | Some ins \<Rightarrow> install_deps ins (rv_dependencies r) 1) (\<lambda>n.
             npm_ret (installed_as nm (rv_version r) n)))))))"

definition install_step ::
  "npm_env \<Rightarrow> string \<Rightarrow> (string \<Rightarrow> string \<Rightarrow> installed npm_act) option \<Rightarrow> string \<Rightarrow> string \<Rightarrow> installed npm_act" where
  "install_step env baseDir deeper nm rg st =
     (let modules = baseDir @ ''/node_modules''; dest = modules @ slash # nm in
      if dest \<in> set (np_installed st) then Some (Inr (installed_as nm ''cached'' 0), st)
      else
        case installed_version env dest (np_fs st) of
          (ex, s1) \<Rightarrow>
            let st1 = st\<lparr>np_installed := dest # np_installed st, np_fs := s1\<rparr> in
            (case ex of
               Some v \<Rightarrow> if versionSatisfies v rg then npm_ret (installed_as nm v 0)
                         else fresh_install env modules dest deeper nm rg
             | None \<Rightarrow> fresh_install env modules dest deeper nm rg) st1)"

text \<open>\<open>MAX_DEPTH\<close> bounds the recursion; the argument is the depth that is left.\<close>

definition MAX_DEPTH :: nat where
  "MAX_DEPTH = 10"

primrec install_at :: "npm_env \<Rightarrow> string \<Rightarrow> nat \<Rightarrow> string \<Rightarrow> string \<Rightarrow> installed npm_act" where
  "install_at env baseDir 0 = install_step env baseDir None"
| "install_at env baseDir (Suc k) = install_step env baseDir (Some (install_at env baseDir k))"

definition installPackage :: "npm_env \<Rightarrow> string \<Rightarrow> string \<Rightarrow> string \<Rightarrow> installed npm_act" where
  "installPackage env nm rg baseDir = install_at env baseDir MAX_DEPTH nm rg"

end
