(* ===== verification/Npm_Commands.thy ===== *)
theory Npm_Commands
  imports Npm_Install Npm_Remove Shell_Base
begin

text \<open>
  The \<open>npm\<close> command of \<open>napi-bridge/npm.js\<close>. The result of a command is the one its promise
  settles with, when it has one. Running a line in the shell and printing a JSON value
  (\<open>JSON.stringify(v, null, 2)\<close>) are functions of the environment. Property lookups find own
  properties only.
\<close>

record npm_tools =
  nt_env :: npm_env
  nt_view :: "nat \<Rightarrow> string \<Rightarrow> string + json"  \<comment> \<open>the full packument, or the message of the error\<close>
  nt_print :: "json \<Rightarrow> string"
  nt_shell :: "string \<Rightarrow> string \<Rightarrow> npm_state \<Rightarrow> cmd_result \<times> npm_state"

record npm_options =
  no_cwd :: string
  no_memfs :: bool

type_synonym npm_cmd = "npm_state \<Rightarrow> ((js_exn + cmd_result) \<times> npm_state) option"

definition cmd_ret :: "cmd_result \<Rightarrow> npm_cmd" where
  "cmd_ret r st = Some (Inr r, st)"

definition refuse :: "string \<Rightarrow> npm_cmd" where
  "refuse msg = cmd_ret (fail msg 1)"

text \<open>\<open>options.cwd || '/workspace'\<close>\<close>

definition cwd_of :: "npm_options \<Rightarrow> string" where
  "cwd_of o' = (if no_cwd o' = [] then ''/workspace'' else no_cwd o')"

definition no_filesystem :: npm_cmd where
  "no_filesystem = refuse ''npm: no filesystem available''"

abbreviation nl :: string where "nl \<equiv> [newline]"
abbreviation dquote :: char where "dquote \<equiv> CHR 0x22"

section \<open>JSON values\<close>

text \<open>\<open>Object.entries(v || {})\<close>\<close>

definition entries :: "json \<Rightarrow> (string \<times> json) list" where
  "entries j =
     (case j of
        JObj m \<Rightarrow> m
      | JArr xs \<Rightarrow> map (\<lambda>(i, x). (nat_digits i, x)) (enumerate 0 xs)
      | JStr s \<Rightarrow> map (\<lambda>(i, c). (nat_digits i, JStr [c])) (enumerate 0 s)
      | _ \<Rightarrow> [])"

definition entries_of :: "string \<Rightarrow> json \<Rightarrow> (string \<times> json) list" where
  "entries_of k j = (case prop_of k j of None \<Rightarrow> [] | Some v \<Rightarrow> entries v)"

text \<open>\<open>`${v.k || d}`\<close>\<close>

definition text_or :: "npm_env \<Rightarrow> string \<Rightarrow> string \<Rightarrow> json \<Rightarrow> string" where
  "text_or env k d j = (case prop_of k j of None \<Rightarrow> d | Some v \<Rightarrow> ne_text env v)"

text \<open>\<open>v.k = x\<close> and \<open>delete v.k\<close> of an object.\<close>

definition set_prop :: "string \<Rightarrow> json \<Rightarrow> json \<Rightarrow> json" where
  "set_prop k x j = (case j of JObj m \<Rightarrow> JObj (AList.update k x m) | _ \<Rightarrow> j)"

definition del_prop :: "string \<Rightarrow> json \<Rightarrow> json" where
  "del_prop k j = (case j of JObj m \<Rightarrow> JObj (AList.delete k m) | _ \<Rightarrow> j)"

definition read_pkg :: "npm_env \<Rightarrow> string \<Rightarrow> npm_state \<Rightarrow> json option \<times> npm_state" where
  "read_pkg env p st = (case read_json env p (np_fs st) of (j, s) \<Rightarrow> (j, st\<lparr>np_fs := s\<rparr>))"

definition write_pkg :: "npm_tools \<Rightarrow> string \<Rightarrow> json \<Rightarrow> npm_state \<Rightarrow> (js_exn + unit) \<times> npm_state" where
  "write_pkg nt p j st =
     (case writeFile p (bytes_of (nt_print nt j @ nl)) (np_fs st) of (r, s) \<Rightarrow> (r, st\<lparr>np_fs := s\<rparr>))"

section \<open>npm run\<close>

definition in_shell :: "npm_tools \<Rightarrow> string \<Rightarrow> string \<Rightarrow> npm_cmd" where
  "in_shell nt line cwd st = (case nt_shell nt line cwd st of (r, st1) \<Rightarrow> Some (Inr r, st1))"

definition pkg_title :: "npm_env \<Rightarrow> json \<Rightarrow> string" where
  "pkg_title env pkg = text_or env ''name'' ''workspace'' pkg @ ''@'' @ text_or env ''version'' ''0.0.0'' pkg"

definition with_args :: "string \<Rightarrow> string list \<Rightarrow> string" where
  "with_args line extra = (if extra = [] then line else line @ '' '' @ join_with CHR '' '' extra)"

definition script_list :: "npm_env \<Rightarrow> json \<Rightarrow> (string \<times> json) list \<Rightarrow> cmd_result" where
  "script_list env pkg scripts =
     ok (''Lifecycle scripts included in '' @ pkg_title env pkg @ '':'' @ nl @
       (if scripts = [] then ''  (none)'' @ nl
        else concat (map (\<lambda>(n, v). ''  '' @ n @ nl @ ''    '' @ ne_text env v @ nl) scripts)))"

definition script_of :: "string \<Rightarrow> (string \<times> json) list \<Rightarrow> json option" where
  "script_of name scripts = (case map_of scripts name of Some v \<Rightarrow> if json_truthy v then Some v else None | None \<Rightarrow> None)"

text \<open>A script that is not there: two names have an answer of their own.\<close>

definition missing_script :: "npm_tools \<Rightarrow> string \<Rightarrow> string list \<Rightarrow> string \<Rightarrow> npm_cmd" where
  "missing_script nt name extra cwd =
     (if name = ''test'' then
        refuse (''npm ERR! Missing script: '' @ [dquote] @ ''test'' @ [dquote] @ nl @
          ''npm ERR! Did you mean one of these?'' @ nl @ ''    npm test'')
      else if name = ''start'' then in_shell nt (with_args ''node server.js'' extra) cwd
      else refuse (''npm ERR! Missing script: '' @ [dquote] @ name @ [dquote]))"

definition run_script :: "npm_tools \<Rightarrow> json \<Rightarrow> string \<Rightarrow> json \<Rightarrow> string list \<Rightarrow> string \<Rightarrow> npm_cmd" where
  "run_script nt pkg name v extra cwd st =
     (let env = nt_env nt; full = with_args (ne_text env v) extra;
          header = nl @ ''> '' @ pkg_title env pkg @ '' '' @ name @ nl @ ''> '' @ full @ nl @ nl
      in case nt_shell nt full cwd st of (r, st2) \<Rightarrow> Some (Inr (r\<lparr>r_stdout := header @ r_stdout r\<rparr>), st2))"

definition run_named :: "npm_tools \<Rightarrow> json \<Rightarrow> string list \<Rightarrow> string \<Rightarrow> npm_cmd" where
  "run_named nt pkg args cwd =
     (let scripts = entries_of ''scripts'' pkg in
      case args of
        [] \<Rightarrow> cmd_ret (script_list (nt_env nt) pkg scripts)
      | name # rest \<Rightarrow>
          let extra = (case rest of a # as \<Rightarrow> if a = ''--'' then as else rest | [] \<Rightarrow> rest) in
          (case script_of name scripts of
             None \<Rightarrow> missing_script nt name extra cwd
           | Some v \<Rightarrow> run_script nt pkg name v extra cwd))"

definition npmRun :: "npm_tools \<Rightarrow> string list \<Rightarrow> npm_options \<Rightarrow> npm_cmd" where
  "npmRun nt args o' st =
     (if \<not> no_memfs o' then no_filesystem st
      else
        let cwd = cwd_of o' in
        case read_pkg (nt_env nt) (cwd @ ''/package.json'') st of
          (None, st1) \<Rightarrow> refuse (''npm ERR! Could not read '' @ cwd @ ''/package.json'') st1
        | (Some pkg, st1) \<Rightarrow> if pkg = JNull then Some (Inl TypeExn, st1) else run_named nt pkg args cwd st1)"

section \<open>npm uninstall\<close>

definition is_flag :: "string \<Rightarrow> bool" where
  "is_flag a \<longleftrightarrow> starts_with a ''-''"

text \<open>Every package counts whose removal does not throw; a missing one does not.\<close>

fun remove_all :: "string \<Rightarrow> string list \<Rightarrow> nat \<Rightarrow> fs \<Rightarrow> nat \<times> fs" where
  "remove_all cwd [] n s = (n, s)"
| "remove_all cwd (nm # names) n s =
     (case rmrf (Suc (fs_inoCounter s)) (cwd @ ''/node_modules/'' @ nm) s of
        (Inl e, s1) \<Rightarrow> remove_all cwd names n s1
      | (Inr _, s1) \<Rightarrow> remove_all cwd names (Suc n) s1)"

definition drop_dep :: "string \<Rightarrow> string \<Rightarrow> json \<times> bool \<Rightarrow> json \<times> bool" where
  "drop_dep k nm = (\<lambda>(pkg, dirty).
     case prop_of k pkg of
       None \<Rightarrow> (pkg, dirty)
     | Some deps \<Rightarrow> if prop_of nm deps = None then (pkg, dirty) else (set_prop k (del_prop nm deps) pkg, True))"

definition drop_deps :: "string list \<Rightarrow> json \<Rightarrow> json \<times> bool" where
  "drop_deps names pkg =
     foldl (\<lambda>acc nm. drop_dep ''devDependencies'' nm (drop_dep ''dependencies'' nm acc)) (pkg, False) names"

definition plural :: "nat \<Rightarrow> string" where
  "plural n = nat_digits n @ '' package'' @ (if n \<noteq> 1 then ''s'' else [])"

definition npmUninstall :: "npm_tools \<Rightarrow> string list \<Rightarrow> npm_options \<Rightarrow> npm_cmd" where
  "npmUninstall nt args o' st =
     (if \<not> no_memfs o' then no_filesystem st
      else
        let names = filter (\<lambda>a. \<not> is_flag a) args; cwd = cwd_of o'; p = cwd @ ''/package.json'' in
        if names = [] then refuse ''npm: uninstall requires at least one package name'' st
        else
          case remove_all cwd names 0 (np_fs st) of
            (n, s1) \<Rightarrow>
              let st2 = (case read_pkg (nt_env nt) p (st\<lparr>np_fs := s1\<rparr>) of
                           (None, st1) \<Rightarrow> st1
                         | (Some pkg, st1) \<Rightarrow>
                             (case drop_deps names pkg of
                                (pkg1, dirty) \<Rightarrow> if dirty then snd (write_pkg nt p pkg1 st1) else st1))
              in cmd_ret (ok (''removed '' @ plural n @ nl)) st2)"

section \<open>npm init, root, list\<close>

definition lower :: "char \<Rightarrow> char" where
  "lower c = (if (of_char c :: nat) \<in> {65..90} then char_of (of_char c + 32 :: nat) else c)"

definition init_char :: "char \<Rightarrow> char" where
  "init_char c = (if c \<in> set ''abcdefghijklmnopqrstuvwxyz0123456789_-'' then c else CHR ''-'')"

definition init_name :: "string \<Rightarrow> string" where
  "init_name cwd =
     (let parts = drop_empty (split_on slash cwd)
      in map (init_char \<circ> lower) (if parts = [] then ''workspace'' else last parts))"

definition init_pkg :: "string \<Rightarrow> json" where
  "init_pkg cwd = JObj [(''name'', JStr (init_name cwd)), (''version'', JStr ''1.0.0''), (''description'', JStr []),
     (''main'', JStr ''index.js''),
     (''scripts'', JObj [(''test'', JStr (''echo '' @ [dquote] @ ''Error: no test specified'' @ [dquote] @ '' && exit 1''))]),
     (''keywords'', JArr []), (''author'', JStr []), (''license'', JStr ''ISC'')]"

definition npmInit :: "npm_tools \<Rightarrow> npm_options \<Rightarrow> npm_cmd" where
  "npmInit nt o' st =
     (if \<not> no_memfs o' then no_filesystem st
      else
        let cwd = cwd_of o'; p = cwd @ ''/package.json'' in
        case read_pkg (nt_env nt) p st of
          (ex, st1) \<Rightarrow>
            if (case ex of None \<Rightarrow> False | Some j \<Rightarrow> json_truthy j) then refuse ''npm: package.json already exists'' st1
            else
              (case write_pkg nt p (init_pkg cwd) st1 of
                 (Inl e, st2) \<Rightarrow> Some (Inl e, st2)
               | (Inr _, st2) \<Rightarrow> cmd_ret (ok (''Wrote to '' @ p @ '':'' @ nl @ nl @ nt_print nt (init_pkg cwd) @ nl @ nl)) st2))"

definition npmRoot :: "string list \<Rightarrow> npm_options \<Rightarrow> npm_cmd" where
  "npmRoot args o' =
     cmd_ret (ok (if ''-g'' \<in> set args \<or> ''--global'' \<in> set args then ''/usr/local/lib/node_modules'' @ nl
                  else cwd_of o' @ ''/node_modules'' @ nl))"

text \<open>The branch sign and two dashes, as UTF-8.\<close>

definition branch_text :: string where
  "branch_text = [CHR 0xE2, CHR 0x94, CHR 0x9C, CHR 0xE2, CHR 0x94, CHR 0x80, CHR 0xE2, CHR 0x94, CHR 0x80, CHR '' '']"

text \<open>\<open>${v.k}\<close> of a value that is not \<open>null\<close>.\<close>

definition raw_text :: "npm_env \<Rightarrow> string \<Rightarrow> json \<Rightarrow> string" where
  "raw_text env k j = (case j of
     JObj m \<Rightarrow> (case map_of m k of Some v \<Rightarrow> ne_text env v | None \<Rightarrow> ''undefined'') | _ \<Rightarrow> ''undefined'')"

fun list_lines :: "npm_env \<Rightarrow> string \<Rightarrow> string list \<Rightarrow> npm_state \<Rightarrow> string list \<times> npm_state" where
  "list_lines env dir [] st = ([], st)"
| "list_lines env dir (e # es) st =
     (if starts_with e ''.'' then list_lines env dir es st
      else
        case read_pkg env (dir @ slash # e @ ''/package.json'') st of
          (j, st1) \<Rightarrow>
            (case list_lines env dir es st1 of
               (ls, st2) \<Rightarrow>
                 ((branch_text @ (case j of
                     None \<Rightarrow> e
                   | Some v \<Rightarrow> if v = JNull then e else raw_text env ''name'' v @ ''@'' @ raw_text env ''version'' v)) # ls, st2)))"

definition npmList :: "npm_tools \<Rightarrow> npm_options \<Rightarrow> npm_cmd" where
  "npmList nt o' st =
     (if \<not> no_memfs o' then no_filesystem st
      else
        let env = nt_env nt; cwd = cwd_of o'; dir = cwd @ ''/node_modules'' in
        case read_pkg env (cwd @ ''/package.json'') st of
          (j, st1) \<Rightarrow>
            let title = (case j of
                  None \<Rightarrow> ''workspace''
                | Some v \<Rightarrow> if v = JNull then ''workspace''
                           else text_or env ''name'' ''workspace'' v @ ''@'' @ text_or env ''version'' ''1.0.0'' v) in
            (case readdir dir (np_fs st1) of
               (Inl e, s2) \<Rightarrow> cmd_ret (ok (title @ nl @ ''(empty)'' @ nl)) (st1\<lparr>np_fs := s2\<rparr>)
             | (Inr es, s2) \<Rightarrow>
                 (case list_lines env dir (map fst es) (st1\<lparr>np_fs := s2\<rparr>) of
                    (ls, st3) \<Rightarrow> cmd_ret (ok (join_with newline (title # ls) @ nl)) st3)))"


section \<open>npm view and npm exec\<close>

text \<open>\<open>acc == null ? acc : acc[key]\<close>; \<^term>\<open>None\<close> is \<open>undefined\<close>.\<close>

definition member :: "string \<Rightarrow> json option \<Rightarrow> json option" where
  "member k a = (case a of
     None \<Rightarrow> None
   | Some JNull \<Rightarrow> Some JNull
   | Some j \<Rightarrow> map_of (entries j) k)"

definition chosen :: "json \<Rightarrow> json option \<times> json" where
  "chosen p =
     (let latest = (case prop_of ''dist-tags'' p of None \<Rightarrow> None | Some t \<Rightarrow> prop_of ''latest'' t) in
      (latest,
       case latest of
         None \<Rightarrow> p
       | Some (JStr l) \<Rightarrow>
           (case prop_of ''versions'' p of
              None \<Rightarrow> p
            | Some vs \<Rightarrow> (case prop_of l vs of None \<Rightarrow> p | Some v \<Rightarrow> v))
       | Some _ \<Rightarrow> p))"

definition view_field :: "npm_tools \<Rightarrow> json \<Rightarrow> string \<Rightarrow> string" where
  "view_field nt p fld =
     (case foldl (\<lambda>a k. member k a) (Some (snd (chosen p))) (split_on CHR ''.'' fld) of
        None \<Rightarrow> []
      | Some (JStr s) \<Rightarrow> s
      | Some j \<Rightarrow> nt_print nt j)"

definition view_summary :: "npm_env \<Rightarrow> json \<Rightarrow> string" where
  "view_summary env p =
     (let latest = fst (chosen p); root = snd (chosen p);
          info = (if latest = None \<or> root = p then None else Some root) in
      join_with newline
        ([raw_text env ''name'' p @ ''@'' @ (case latest of None \<Rightarrow> ''?'' | Some l \<Rightarrow> ne_text env l) @ '' | '' @
            (case info of None \<Rightarrow> ''UNLICENSED'' | Some i \<Rightarrow> text_or env ''license'' ''UNLICENSED'' i),
          ''deps: '' @ nat_digits (case info of None \<Rightarrow> 0 | Some i \<Rightarrow> length (entries_of ''dependencies'' i)),
          ''dist-tags:''] @
         map (\<lambda>(k, v). ''  '' @ k @ '': '' @ ne_text env v) (entries_of ''dist-tags'' p) @
         [[], text_or env ''description'' [] p]))"

definition npmView :: "npm_tools \<Rightarrow> string list \<Rightarrow> npm_cmd" where
  "npmView nt args st =
     (case args of
        [] \<Rightarrow> refuse ''npm: view requires a package name'' st
      | name # rest \<Rightarrow>
          if name = [] then refuse ''npm: view requires a package name'' st
          else
            let st1 = st\<lparr>np_events := Suc (np_events st)\<rparr> in
            (case nt_view nt (np_events st) name of
               Inl msg \<Rightarrow> refuse (''npm: view failed: '' @ msg) st1
             | Inr p \<Rightarrow>
                 (case rest of
                    fld # _ \<Rightarrow> if fld \<noteq> [] then cmd_ret (ok (view_field nt p fld @ nl)) st1
                              else cmd_ret (ok (view_summary (nt_env nt) p @ nl)) st1
                  | [] \<Rightarrow> cmd_ret (ok (view_summary (nt_env nt) p @ nl)) st1)))"

definition bin_path :: "npm_env \<Rightarrow> string \<Rightarrow> string \<Rightarrow> json \<Rightarrow> string option" where
  "bin_path env dir name pkg =
     (case pkg of
        JNull \<Rightarrow> None
      | _ \<Rightarrow>
          (case member ''bin'' (Some pkg) of
             Some (JStr b) \<Rightarrow> Some (dir @ slash # b)
           | other \<Rightarrow>
               (case prop_of ''bin'' pkg of
                  Some bin \<Rightarrow>
                    if (case bin of JObj _ \<Rightarrow> True | JArr _ \<Rightarrow> True | _ \<Rightarrow> False) then
                      (case (case prop_of name bin of
                               Some v \<Rightarrow> Some v
                             | None \<Rightarrow> (case entries bin of (k, v) # _ \<Rightarrow> if json_truthy v then Some v else None | [] \<Rightarrow> None)) of
                         Some v \<Rightarrow> Some (dir @ slash # ne_text env v)
                       | None \<Rightarrow> None)
                    else Some (dir @ slash # text_or env ''main'' ''index.js'' pkg)
                | None \<Rightarrow> Some (dir @ slash # text_or env ''main'' ''index.js'' pkg))))"

definition exec_bin :: "npm_tools \<Rightarrow> string \<Rightarrow> string \<Rightarrow> string list \<Rightarrow> string \<Rightarrow> json option \<Rightarrow> npm_cmd" where
  "exec_bin nt dir name rest cwd j =
     (case Option.bind j (bin_path (nt_env nt) dir name) of
        None \<Rightarrow> refuse (''npm exec: '' @ name @ '' is not installed. Try: npm i '' @ name)
      | Some b \<Rightarrow> in_shell nt (with_args (''node '' @ b) rest) cwd)"

definition npmExec :: "npm_tools \<Rightarrow> string list \<Rightarrow> npm_options \<Rightarrow> npm_cmd" where
  "npmExec nt args o' st =
     (if \<not> no_memfs o' then no_filesystem st
      else
        case args of
          [] \<Rightarrow> refuse ''npm: exec requires a command'' st
        | name # rest \<Rightarrow>
            let cwd = cwd_of o'; dir = cwd @ ''/node_modules/'' @ name in
            (case read_pkg (nt_env nt) (dir @ ''/package.json'') st of
               (j, st1) \<Rightarrow> exec_bin nt dir name rest cwd j st1))"

section \<open>npm install\<close>

record spec =
  sp_name :: string
  sp_range :: string

definition parse_spec :: "string \<Rightarrow> spec" where
  "parse_spec n =
     (case last_index_of CHR ''@'' n of
        Some i \<Rightarrow> if i > 0 then \<lparr>sp_name = take i n, sp_range = drop (Suc i) n\<rparr> else \<lparr>sp_name = n, sp_range = ''latest''\<rparr>
      | None \<Rightarrow> \<lparr>sp_name = n, sp_range = ''latest''\<rparr>)"

definition dep_name :: "npm_env \<Rightarrow> string \<times> json \<Rightarrow> string" where
  "dep_name env d = (if snd d = JStr ''latest'' \<or> snd d = JStr ''*'' then fst d else fst d @ ''@'' @ ne_text env (snd d))"

text \<open>\<open>{ ...pkg.dependencies, ...pkg.devDependencies }\<close>\<close>

definition own_deps :: "json \<Rightarrow> (string \<times> json) list" where
  "own_deps pkg =
     foldl (\<lambda>m (k, v). AList.update k v m) (entries_of ''dependencies'' pkg) (entries_of ''devDependencies'' pkg)"

definition range_text :: "string \<Rightarrow> string" where
  "range_text rg = (if rg \<noteq> [] \<and> rg \<noteq> ''latest'' then ''@'' @ rg else [])"

definition kilobytes :: "nat \<Rightarrow> string" where
  "kilobytes n = nat_digits ((n + 512) div 1024) @ ''KB''"

definition error_text :: "npm_env \<Rightarrow> npm_error \<Rightarrow> string" where
  "error_text env e =
     (case e of
        NoMatch n rg \<Rightarrow> ''No version of '' @ (if n = [] then ''?'' else n) @ '' matches range '' @ [dquote] @ rg @ [dquote]
      | NoTarball n v \<Rightarrow> ''No tarball URL for '' @ n @ ''@'' @ v
      | FetchFailed msg \<Rightarrow> msg
      | other \<Rightarrow> ne_message env other)"

fun line_text :: "npm_env \<Rightarrow> status_line \<Rightarrow> string" where
  "line_text env (Fetching n rg) = ''  fetching '' @ n @ range_text rg"
| "line_text env (Resolved n v) = ''  resolved '' @ n @ ''@'' @ v"
| "line_text env (Downloading n v) = ''  downloading '' @ n @ ''@'' @ v"
| "line_text env (FromCache n v sz) = ''  cached '' @ n @ ''@'' @ v @ '' ('' @ kilobytes sz @ '')''"
| "line_text env (Extracting n v sz) = ''  extracting '' @ n @ ''@'' @ v @ '' ('' @ kilobytes sz @ '')''"
| "line_text env (CacheCorrupt n v) = ''  cache corrupt for '' @ n @ ''@'' @ v @ '', re-fetching''"
| "line_text env (Warn n e) = ''  warn: failed to install '' @ n @ '': '' @ error_text env e"

text \<open>
  The packages one by one, the first error ends the loop. The lines of a package stand before its
  own line; \<open>np_lines\<close> starts empty for each of them.
\<close>

fun install_all :: "npm_env \<Rightarrow> string \<Rightarrow> spec list \<Rightarrow> nat \<Rightarrow> string list \<Rightarrow> npm_state
    \<Rightarrow> (bool \<times> nat \<times> string list \<times> npm_state) option" where
  "install_all env cwd [] n ls st = Some (True, n, ls, st)"
| "install_all env cwd (sp # specs) n ls st =
     (case installPackage env (sp_name sp) (sp_range sp) cwd (st\<lparr>np_lines := []\<rparr>) of
        None \<Rightarrow> None
      | Some (Inl e, st1) \<Rightarrow>
          Some (False, n, ls @ map (line_text env) (np_lines st1) @ [''ERR! '' @ sp_name sp @ '': '' @ error_text env e], st1)
      | Some (Inr r, st1) \<Rightarrow>
          install_all env cwd specs (n + in_count r)
            (ls @ map (line_text env) (np_lines st1) @ [''+ '' @ in_name r @ ''@'' @ in_version r]) st1)"

text \<open>\<open>pkg.dependencies[name] = '^' + installedPkg.version\<close>\<close>

fun record_all :: "npm_env \<Rightarrow> string \<Rightarrow> spec list \<Rightarrow> json \<Rightarrow> npm_state \<Rightarrow> json \<times> npm_state" where
  "record_all env cwd [] pkg st = (pkg, st)"
| "record_all env cwd (sp # specs) pkg st =
     (case read_pkg env (cwd @ ''/node_modules/'' @ sp_name sp @ ''/package.json'') st of
        (j, st1) \<Rightarrow>
          record_all env cwd specs
            (case j of
               None \<Rightarrow> pkg
             | Some v \<Rightarrow>
                 if v = JNull then pkg
                 else (case prop_of ''dependencies'' pkg of
                         None \<Rightarrow> pkg
                       | Some deps \<Rightarrow> set_prop ''dependencies''
                           (set_prop (sp_name sp) (JStr (CHR ''^'' # raw_text env ''version'' v)) deps) pkg)) st1)"

definition update_pkg :: "npm_tools \<Rightarrow> string \<Rightarrow> spec list \<Rightarrow> npm_state \<Rightarrow> npm_state" where
  "update_pkg nt cwd specs st =
     (let env = nt_env nt; p = cwd @ ''/package.json'' in
      case read_pkg env p st of
        (j, st1) \<Rightarrow>
          let pkg = (case j of
                None \<Rightarrow> JObj [(''name'', JStr ''workspace''), (''version'', JStr ''1.0.0''), (''dependencies'', JObj [])]
              | Some v \<Rightarrow> v);
              pkg1 = (if prop_of ''dependencies'' pkg = None then set_prop ''dependencies'' (JObj []) pkg else pkg) in
          if (case pkg of JObj _ \<Rightarrow> True | JArr _ \<Rightarrow> True | _ \<Rightarrow> False) then
            (case record_all env cwd specs pkg1 st1 of
               (pkg2, st2) \<Rightarrow> snd (write_pkg nt p pkg2 st2))
          else st1)"

definition install_names :: "npm_tools \<Rightarrow> string list \<Rightarrow> string \<Rightarrow> npm_cmd" where
  "install_names nt names cwd st =
     (let specs = map parse_spec names in
      case install_all (nt_env nt) cwd specs 0 [] (st\<lparr>np_installed := []\<rparr>) of
        None \<Rightarrow> None
      | Some (done_all, n, ls, st2) \<Rightarrow>
          if done_all then
            Some (Inr (ok (join_with newline (ls @ [nl @ ''added '' @ plural n]) @ nl)), update_pkg nt cwd specs st2)
          else Some (Inr \<lparr>r_stdout = join_with newline ls @ nl, r_stderr = [], r_exit = 1\<rparr>, st2))"

definition up_to_date :: npm_cmd where
  "up_to_date = cmd_ret (ok (''up to date, no dependencies'' @ nl))"

definition npmInstall :: "npm_tools \<Rightarrow> string list \<Rightarrow> npm_options \<Rightarrow> npm_cmd" where
  "npmInstall nt args o' st =
     (if \<not> no_memfs o' then no_filesystem st
      else
        let cwd = cwd_of o'; given = filter (\<lambda>a. \<not> is_flag a) args in
        if given \<noteq> [] then install_names nt given cwd st
        else
          case read_pkg (nt_env nt) (cwd @ ''/package.json'') st of
            (None, st1) \<Rightarrow> up_to_date st1
          | (Some pkg, st1) \<Rightarrow>
              if pkg = JNull \<or> own_deps pkg = [] then up_to_date st1
              else install_names nt (map (dep_name (nt_env nt)) (own_deps pkg)) cwd st1)"

section \<open>The command\<close>

definition npm_usage :: string where
  "npm_usage = join_with newline
     [''Usage: npm <command>'', [], ''Commands:'',
      ''  npm install [<pkg> ...]        Install packages (or deps from package.json)'',
      ''  npm uninstall <pkg> [...]      Remove packages (aliases: remove, rm)'',
      ''  npm list                       List installed packages (alias: ls)'',
      ''  npm run [<script>]             Run a script from package.json'',
      ''  npm start                      Alias for: npm run start'',
      ''  npm test                       Alias for: npm run test'',
      ''  npm init [-y]                  Create a package.json'',
      ''  npm root [-g]                  Print node_modules path'',
      ''  npm prefix                     Print project root'',
      ''  npm version                    Print version info'',
      ''  npm view <pkg> [field]         Print registry info about a package'',
      ''  npm exec <cmd> [args...]       Run a local/installed binary (alias: npx)'', []]"

definition REGISTRY :: string where
  "REGISTRY = ''https://registry.npmjs.org''"

definition npm :: "npm_tools \<Rightarrow> string list \<Rightarrow> npm_options \<Rightarrow> npm_cmd" where
  "npm nt args o' =
     (let sub = (case args of [] \<Rightarrow> [] | a # _ \<Rightarrow> a); rest = drop 1 args in
      if sub \<in> {[], ''help'', ''--help'', ''-h''} then cmd_ret (ok npm_usage)
      else if sub \<in> {''install'', ''i'', ''add''} then npmInstall nt rest o'
      else if sub \<in> {''uninstall'', ''remove'', ''rm'', ''un''} then npmUninstall nt rest o'
      else if sub \<in> {''list'', ''ls''} then npmList nt o'
      else if sub \<in> {''run'', ''run-script''} then npmRun nt rest o'
      else if sub = ''start'' then npmRun nt (''start'' # rest) o'
      else if sub \<in> {''test'', ''t'', ''tst''} then npmRun nt (''test'' # rest) o'
      else if sub \<in> {''init'', ''create''} then npmInit nt o'
      else if sub = ''root'' then npmRoot rest o'
      else if sub = ''prefix'' then cmd_ret (ok (cwd_of o' @ nl))
      else if sub \<in> {''version'', ''--version'', ''-v''} then
        cmd_ret (ok (nt_print nt (JObj [(''in-tab-npm'', JStr ''0.1.0''), (''node'', JStr ''edgejs-wasm'')]) @ nl))
      else if sub \<in> {''view'', ''info'', ''show''} then npmView nt rest
      else if sub \<in> {''exec'', ''x''} then npmExec nt rest o'
      else if sub = ''whoami'' then cmd_ret (ok (''anonymous'' @ nl))
      else if sub = ''ping'' then cmd_ret (ok (''registry: '' @ REGISTRY @ nl))
      else if sub \<in> {''config'', ''c''} then cmd_ret (ok (''registry='' @ REGISTRY @ nl))
      else if sub = ''cache'' then cmd_ret (ok [])
      else if sub \<in> {''audit'', ''outdated'', ''fund'', ''doctor''} then cmd_ret (ok (''(no-op in in-tab npm)'' @ nl))
      else refuse (''npm: unknown command '' @ [dquote] @ sub @ [dquote]))"

end
