(* ===== verification/Npm_Tar_Props.thy ===== *)
theory Npm_Tar_Props
  imports Npm_Tar
begin

text \<open>
  Reading an archive back: entries written in the ustar layout, with any mode, owner, time, checksum
  and link fields, are found again. The writer is the reference; the program only reads.
\<close>

section \<open>A reference writer\<close>

record tar_entry =
  te_prefix :: string
  te_name :: string
  te_type :: byte
  te_data :: "byte list"
  te_mode :: "byte list"  \<comment> \<open>mode and owner\<close>
  te_time :: "byte list"  \<comment> \<open>modification time and checksum\<close>
  te_link :: "byte list"
  te_owner :: "byte list"  \<comment> \<open>what follows the magic\<close>
  te_rest :: "byte list"

definition octal_digit :: "nat \<Rightarrow> byte" where
  "octal_digit n = of_nat (48 + n)"

text \<open>\<open>k\<close> octal digits.\<close>

fun octal :: "nat \<Rightarrow> nat \<Rightarrow> byte list" where
  "octal 0 n = []"
| "octal (Suc k) n = octal k (n div 8) @ [octal_digit (n mod 8)]"

definition padded :: "nat \<Rightarrow> string \<Rightarrow> byte list" where
  "padded n s = map byte_of_char s @ replicate (n - length s) 0"

definition magic :: "byte list" where
  "magic = [0x75, 0x73, 0x74, 0x61, 0x72]"

definition tar_header :: "tar_entry \<Rightarrow> byte list" where
  "tar_header e = padded 100 (te_name e) @ te_mode e @ octal 11 (length (te_data e)) @ [0] @ te_time e
     @ [te_type e] @ te_link e @ magic @ te_owner e @ padded 155 (te_prefix e) @ te_rest e"

definition tar_block :: "tar_entry \<Rightarrow> byte list" where
  "tar_block e = tar_header e @ te_data e @ replicate (nat (padded_size (int (length (te_data e)))) - length (te_data e)) 0"

definition entry_ok :: "tar_entry \<Rightarrow> bool" where
  "entry_ok e \<longleftrightarrow> te_name e \<noteq> [] \<and> length (te_name e) \<le> 100 \<and> length (te_prefix e) \<le> 155
     \<and> CHR 0x00 \<notin> set (te_name e) \<and> CHR 0x00 \<notin> set (te_prefix e) \<and> length (te_data e) < 8 ^ 11
     \<and> length (te_mode e) = 24 \<and> length (te_time e) = 20 \<and> length (te_link e) = 100
     \<and> length (te_owner e) = 83 \<and> length (te_rest e) = 12"

definition entry_path :: "tar_entry \<Rightarrow> string" where
  "entry_path e = (if te_prefix e = [] then te_name e else te_prefix e @ CHR ''/'' # te_name e)"

definition regular :: "tar_entry \<Rightarrow> bool" where
  "regular e \<longleftrightarrow> (te_type e = 0x30 \<or> te_type e = 0) \<and> te_data e \<noteq> []"

section \<open>Fields\<close>

lemma nth_opt_append: "nth_opt (xs @ ys) i = (if i < length xs then Some (xs ! i) else nth_opt ys (i - length xs))"
  by (auto simp: nth_opt_def nth_append)

lemma nth_opt_Cons: "nth_opt (x # xs) i = (if i = 0 then Some x else nth_opt xs (i - 1))"
  by (auto simp: nth_opt_def nth_Cons')

lemma field_skip: "length xs \<le> i \<Longrightarrow> field stop (xs @ ys) i n = field stop ys (i - length xs) n"
  by (induction n arbitrary: i) (auto simp: nth_opt_append Suc_diff_le split: option.splits)

lemma field_stop: "length xs < n \<Longrightarrow> list_all (\<lambda>b. \<not> stop b) xs \<Longrightarrow> stop b \<Longrightarrow>
  field stop (xs @ b # ys) 0 n = map char_of_byte xs"
proof (induction xs arbitrary: n)
  case Nil
  then show ?case by (cases n) (auto simp: nth_opt_def)
next
  case (Cons x xs)
  then obtain m where n: "n = Suc m" by (cases n) auto
  have "field stop ((x # xs) @ b # ys) (Suc 0) m = field stop (xs @ b # ys) 0 m"
    using field_skip [of "[x]" "Suc 0" stop "xs @ b # ys" m] by simp
  then show ?case using Cons n by (simp add: nth_opt_def)
qed

lemma field_all: "length xs = n \<Longrightarrow> list_all (\<lambda>b. \<not> stop b) xs \<Longrightarrow> field stop (xs @ ys) 0 n = map char_of_byte xs"
proof (induction xs arbitrary: n)
  case (Cons x xs)
  then obtain m where n: "n = Suc m" by (cases n) auto
  have "field stop ((x # xs) @ ys) (Suc 0) m = field stop (xs @ ys) 0 m"
    using field_skip [of "[x]" "Suc 0" stop "xs @ ys" m] by simp
  then show ?case using Cons n by (simp add: nth_opt_def)
qed simp

lemma char_byte [simp]: "char_of_byte (byte_of_char c) = c"
  by (simp add: char_of_byte_def byte_of_char_def unat_of_nat)

lemma byte_of_char_0: "byte_of_char c = 0 \<longleftrightarrow> c = CHR 0x00"
proof
  assume "byte_of_char c = 0"
  then have "c = char_of_byte 0" by (metis char_byte)
  also have "char_of_byte 0 = CHR 0x00" by code_simp
  finally show "c = CHR 0x00" .
qed (simp add: byte_of_char_def)

lemma field_padded:
  assumes "length s \<le> n" "CHR 0x00 \<notin> set s"
  shows "field (\<lambda>b. b = 0) (padded n s @ ys) 0 n = s"
proof -
  have nz: "list_all (\<lambda>b. \<not> b = 0) (map byte_of_char s)"
    using assms(2) by (auto simp: list_all_iff byte_of_char_0)
  have id: "map char_of_byte (map byte_of_char s) = s" by (simp add: map_idI)
  show ?thesis
  proof (cases "length s = n")
    case True
    then show ?thesis
      using field_all [of "map byte_of_char s" n "\<lambda>b. b = 0" ys] nz id by (simp add: padded_def)
  next
    case False
    then obtain k where k: "n - length s = Suc k" using assms(1) by (cases "n - length s") auto
    then show ?thesis
      using field_stop [of "map byte_of_char s" n "\<lambda>b. b = 0" 0 "replicate k 0 @ ys"] nz id by (simp add: padded_def)
  qed
qed

lemma length_padded: "length s \<le> n \<Longrightarrow> length (padded n s) = n"
  by (simp add: padded_def)

lemma length_octal [simp]: "length (octal k n) = k"
  by (induction k n rule: octal.induct) auto

lemma octal_digit_char: "n < 8 \<Longrightarrow> is_octal (char_of_byte (octal_digit n)) \<and> of_char (char_of_byte (octal_digit n)) = 48 + int n"
proof -
  assume n: "n < 8"
  have "unat (octal_digit n) = 48 + n"
    unfolding octal_digit_def unat_of_nat using n by simp
  moreover have "(of_char (char_of (48 + n)) :: int) = int (of_char (char_of (48 + n)))"
    by (rule of_nat_of_char [symmetric])
  moreover have "(of_char (char_of (48 + n)) :: nat) = 48 + n" using n by (simp add: of_char_of)
  ultimately show ?thesis using n by (simp add: char_of_byte_def is_octal_def)
qed

lemma octal_chars: "list_all is_octal (map char_of_byte (octal k n))"
  by (induction k n rule: octal.induct) (auto simp: octal_digit_char)

lemma octal_value_octal: "octal_value (map char_of_byte (octal k n)) = int (n mod 8 ^ k)"
proof (induction k n rule: octal.induct)
  case (2 k n)
  have "int (n mod 8 ^ Suc k) = 8 * int (n div 8 mod 8 ^ k) + int (n mod 8)"
    by (simp add: mod_mult2_eq)
  moreover have "octal_value (s @ [c]) = 8 * octal_value s + (of_char c - 48)" for s c
    by (simp add: octal_value_def)
  ultimately show ?case using 2 by (simp add: octal_digit_char)
qed (simp add: octal_value_def)

lemma parse_octal_digits:
  assumes "s \<noteq> []" "list_all is_octal s"
  shows "parse_octal s = octal_value s"
proof -
  obtain c t where s: "s = c # t" using assms(1) by (cases s) auto
  have c: "is_octal c" "list_all is_octal t" using assms(2) s by auto
  have n: "\<not> is_octal CHR ''-''" "\<not> is_octal CHR ''+''" by (simp_all add: is_octal_def)
  have "c \<noteq> CHR ''-''" "c \<noteq> CHR ''+''" using c(1) n by auto
  moreover have "\<not> oct_space c" using c(1) by (auto simp: oct_space_def is_octal_def)
  moreover have tw: "takeWhile is_octal (c # t) = c # t"
    using c unfolding takeWhile_eq_all_conv list_all_iff by simp
  ultimately show ?thesis
    unfolding s parse_octal_def using tw by (simp del: takeWhile.simps takeWhile_eq_all_conv)
qed


section \<open>The header of an entry\<close>

lemma header_lengths:
  assumes "entry_ok e"
  shows "length (padded 100 (te_name e)) = 100" "length (te_mode e) = 24" "length (te_time e) = 20"
    "length (te_link e) = 100" "length (te_owner e) = 83" "length (padded 155 (te_prefix e)) = 155"
    "length (te_rest e) = 12" "length magic = 5"
  using assms by (simp_all add: entry_ok_def length_padded magic_def)

lemma length_tar_header: "entry_ok e \<Longrightarrow> length (tar_header e) = 512"
  by (simp add: tar_header_def header_lengths)

lemma tar_header_ustar: "entry_ok e \<Longrightarrow> is_ustar (tar_header e)"
  by (simp add: is_ustar_def tar_header_def nth_opt_append nth_opt_Cons header_lengths magic_def)

lemma tar_header_type: "entry_ok e \<Longrightarrow> nth_opt (tar_header e) 156 = Some (te_type e)"
  by (simp add: tar_header_def nth_opt_append nth_opt_Cons header_lengths)

lemma tar_header_name:
  assumes "entry_ok e"
  shows "header_name (tar_header e) = entry_path e"
proof -
  have nm: "field (\<lambda>b. b = 0) (tar_header e) 0 100 = te_name e"
    unfolding tar_header_def using assms by (intro field_padded) (simp_all add: entry_ok_def)
  let ?before = "padded 100 (te_name e) @ te_mode e @ octal 11 (length (te_data e)) @ [0] @ te_time e
     @ [te_type e] @ te_link e @ magic @ te_owner e"
  have "tar_header e = ?before @ padded 155 (te_prefix e) @ te_rest e" by (simp add: tar_header_def)
  moreover have "length ?before = 345" using assms by (simp add: header_lengths)
  ultimately have "field (\<lambda>b. b = 0) (tar_header e) 345 155
      = field (\<lambda>b. b = 0) (padded 155 (te_prefix e) @ te_rest e) 0 155"
    using field_skip [of ?before 345 "\<lambda>b. b = 0" "padded 155 (te_prefix e) @ te_rest e" 155] by simp
  also have "\<dots> = te_prefix e" using assms by (intro field_padded) (simp_all add: entry_ok_def)
  finally show ?thesis
    using nm tar_header_ustar [OF assms] by (simp add: header_name_def entry_path_def)
qed

lemma octal_not_stop: "list_all (\<lambda>b. \<not> (b = 0 \<or> b = 0x20)) (octal k n)"
proof -
  have "is_octal (char_of_byte b) \<Longrightarrow> \<not> (b = 0 \<or> b = 0x20)" for b
    by (auto simp: is_octal_def char_of_byte_def)
  then show ?thesis using octal_chars [of k n] by (simp add: list_all_iff)
qed

lemma tar_header_size:
  assumes "entry_ok e"
  shows "header_size (tar_header e) = int (length (te_data e))"
proof -
  let ?stop = "\<lambda>b :: byte. b = 0 \<or> b = 0x20"
  let ?before = "padded 100 (te_name e) @ te_mode e"
  let ?o = "octal 11 (length (te_data e))"
  let ?after = "te_time e @ [te_type e] @ te_link e @ magic @ te_owner e @ padded 155 (te_prefix e) @ te_rest e"
  have "tar_header e = ?before @ ?o @ 0 # ?after" by (simp add: tar_header_def)
  moreover have "length ?before = 124" using assms by (simp add: header_lengths)
  ultimately have "field ?stop (tar_header e) 124 12 = field ?stop (?o @ 0 # ?after) 0 12"
    using field_skip [of ?before 124 ?stop "?o @ 0 # ?after" 12] by simp
  also have "\<dots> = map char_of_byte ?o"
    by (rule field_stop) (use octal_not_stop in simp_all)
  finally have f: "field ?stop (tar_header e) 124 12 = map char_of_byte ?o" .
  have "length (map char_of_byte ?o) = 11" by simp
  then have "map char_of_byte ?o \<noteq> []" by force
  then have "parse_octal (map char_of_byte ?o) = int (length (te_data e) mod 8 ^ 11)"
    using parse_octal_digits [OF _ octal_chars] octal_value_octal by simp
  then show ?thesis using f assms by (simp add: header_size_def entry_ok_def)
qed

lemma tar_header_nonzero: "entry_ok e \<Longrightarrow> \<not> list_all (\<lambda>b. b = 0) (tar_header e)"
  by (auto simp: tar_header_def magic_def)

section \<open>Reading an archive\<close>

lemma js_slice_nat: "js_slice (int a) (int b) xs = take (b - a) (drop a xs)"
proof (cases "a \<le> length xs")
  case True
  then show ?thesis by (cases "b \<le> length xs") (auto simp: js_slice_def rel_index_def min_def)
next
  case False
  then show ?thesis by (simp add: js_slice_def rel_index_def min_def Let_def)
qed

lemma padded_size_ge: "int n \<le> padded_size (int n)"
proof -
  have "int n + 511 = (int n + 511) div 512 * 512 + (int n + 511) mod 512" by simp
  moreover have "(int n + 511) mod 512 < 512" by simp
  ultimately show ?thesis unfolding padded_size_def by linarith
qed

lemma length_tar_block:
  "entry_ok e \<Longrightarrow> int (length (tar_block e)) = 512 + padded_size (int (length (te_data e)))"
  using padded_size_ge [of "length (te_data e)"] by (simp add: tar_block_def length_tar_header)

definition files_of_entry :: "tar_entry \<Rightarrow> tar_file list" where
  "files_of_entry e = (if regular e then [(entry_path e, te_data e)] else [])"

lemma files_of_entries: "concat (map files_of_entry es) = map (\<lambda>e. (entry_path e, te_data e)) (filter regular es)"
  by (induction es) (auto simp: files_of_entry_def)

lemma parse_entry:
  assumes "entry_ok e"
  shows "parse_from (pre @ tar_block e @ post) (int (length pre)) files =
    parse_from (pre @ tar_block e @ post) (int (length (pre @ tar_block e))) (files @ files_of_entry e)"
proof -
  let ?data = "pre @ tar_block e @ post"
  let ?n = "length (te_data e)"
  let ?pad = "replicate (nat (padded_size (int ?n)) - ?n) 0 :: byte list"
  have d: "?data = pre @ tar_header e @ te_data e @ ?pad @ post" by (simp add: tar_block_def)
  have h: "js_slice (int (length pre)) (int (length pre) + 512) ?data = tar_header e"
    using js_slice_nat [of "length pre" "length pre + 512" ?data] length_tar_header [OF assms]
    unfolding d by simp
  have c: "js_slice (int (length pre) + 512) (int (length pre) + 512 + int ?n) ?data = te_data e"
    using js_slice_nat [of "length pre + 512" "length pre + 512 + ?n" ?data] length_tar_header [OF assms]
    unfolding d by (simp add: algebra_simps)
  have room: "int (length pre) + 512 \<le> int (length ?data)"
    unfolding d using length_tar_header [OF assms] by simp
  have isf: "is_file_type (nth_opt (tar_header e) 156) \<and> int ?n > 0 \<longleftrightarrow> regular e"
    using tar_header_type [OF assms] by (auto simp: is_file_type_def regular_def)
  have len: "int (length (pre @ tar_block e)) = int (length pre) + 512 + padded_size (int ?n)"
    using length_tar_block [OF assms] by simp
  show ?thesis
    unfolding len
    by (subst parse_from.simps)
       (simp only: room h c tar_header_nonzero [OF assms] tar_header_size [OF assms] tar_header_name [OF assms] isf
          if_True if_False Let_def files_of_entry_def append_Nil2 split: if_split, simp)
qed

lemma parse_entries:
  "list_all entry_ok es \<Longrightarrow>
   parse_from (pre @ concat (map tar_block es) @ post) (int (length pre)) files =
   parse_from (pre @ concat (map tar_block es) @ post) (int (length (pre @ concat (map tar_block es))))
     (files @ concat (map files_of_entry es))"
proof (induction es arbitrary: pre files)
  case (Cons e es)
  have "entry_ok e" "list_all entry_ok es" using Cons.prems by simp_all
  then show ?case
    using parse_entry [of e pre "concat (map tar_block es) @ post" files]
      Cons.IH [of "pre @ tar_block e" "files @ files_of_entry e"] by simp
qed simp

lemma parse_end:
  "parse_from (pre @ replicate 512 0 @ rest) (int (length pre)) files = Some files"
proof -
  have "js_slice (int (length pre)) (int (length pre) + 512) (pre @ replicate 512 (0 :: byte) @ rest) = replicate 512 0"
    using js_slice_nat [of "length pre" "length pre + 512" "pre @ replicate 512 0 @ rest"] by simp
  then show ?thesis
    by (subst parse_from.simps) (simp add: list_all_iff Let_def)
qed

lemma parse_stop: "length data < 512 + n \<Longrightarrow> parse_from data (int n) files = Some files"
  by (subst parse_from.simps) simp


definition sample_entry :: "string \<Rightarrow> byte list \<Rightarrow> tar_entry" where
  "sample_entry nm d = \<lparr>te_prefix = ''package'', te_name = nm, te_type = 0x30, te_data = d,
     te_mode = replicate 24 0x30, te_time = replicate 20 0x30, te_link = replicate 100 0,
     te_owner = replicate 83 0, te_rest = replicate 12 0\<rparr>"

lemma sample_entry_ok: "length d \<le> 1 \<Longrightarrow> entry_ok (sample_entry ''a.js'' d)"
  by (simp add: entry_ok_def sample_entry_def)


section \<open>What goes wrong\<close>

text \<open>A file without content is not created.\<close>

lemma empty_file_lost: "parseTar (tar_block (sample_entry ''a.js'' [])) = Some []"
  using parse_entries [of "[sample_entry ''a.js'' []]" "[]" "[]" "[]"] sample_entry_ok [of "[]"]
    parse_stop [of "tar_block (sample_entry ''a.js'' [])" "length (tar_block (sample_entry ''a.js'' []))" "[]"]
  by (simp add: parseTar_def files_of_entry_def regular_def sample_entry_def)

text \<open>
  The size is read with \<open>parseInt\<close>, which takes a sign: a header whose size is \<open>-1000\<close> (octal, 512
  bytes back) sends the loop to the same header again, and \<open>parseTar\<close> does not return.
\<close>

definition bad_header :: "byte list" where
  "bad_header = 1 # replicate 123 0 @ [0x2d, 0x31, 0x30, 0x30, 0x30] @ replicate 383 0"

lemma bad_header_facts: "length bad_header = 512" "header_size bad_header = -512"
  "\<not> list_all (\<lambda>b. b = 0) bad_header"
proof -
  show "length bad_header = 512" "\<not> list_all (\<lambda>b. b = 0) bad_header" by (simp_all add: bad_header_def)
  let ?stop = "\<lambda>b :: byte. b = 0 \<or> b = 0x20"
  let ?sz = "[0x2d, 0x31, 0x30, 0x30, 0x30] :: byte list"
  have "bad_header = (1 # replicate 123 0) @ ?sz @ 0 # replicate 382 0"
    by (simp add: bad_header_def flip: replicate_Suc)
  then have "field ?stop bad_header 124 12 = field ?stop (?sz @ 0 # replicate 382 0) 0 12"
    using field_skip [of "1 # replicate 123 0" 124 ?stop "?sz @ 0 # replicate 382 0" 12] by simp
  also have "\<dots> = map char_of_byte ?sz" by (rule field_stop) simp_all
  also have "\<dots> = ''-1000''" by code_simp
  finally have "field ?stop bad_header 124 12 = ''-1000''" .
  moreover have "parse_octal ''-1000'' = -512" by code_simp
  ultimately show "header_size bad_header = -512" by (simp add: header_size_def)
qed

theorem parseTar_hangs: "parseTar (bad_header @ rest) = None"
proof -
  let ?data = "bad_header @ rest"
  have h: "js_slice 0 512 ?data = bad_header"
    using js_slice_nat [of 0 512 ?data] bad_header_facts(1) by simp
  have "\<not> (?data = ?data \<and> (0::int) = 0)" if r: "parse_from ?data 0 [] = Some r" for r
  proof (rule parse_from.raw_induct [where P = "\<lambda>d off files r. \<not> (d = ?data \<and> off = 0)", OF _ r])
    fix loop and d :: "byte list" and off files r
    let ?h = "js_slice off (off + 512) d"
    let ?files = "if is_file_type (nth_opt ?h 156) \<and> header_size ?h > 0
       then files @ [(header_name ?h, js_slice (off + 512) (off + 512 + header_size ?h) d)] else files"
    assume hyp: "\<And>d off files r. loop d off files = Some r \<Longrightarrow> \<not> (d = ?data \<and> off = 0)"
      and body: "(if off + 512 \<le> int (length d) then
          let header = js_slice off (off + 512) d in
          if list_all (\<lambda>b. b = 0) header then Some files
          else
            let sz = header_size header; off1 = off + 512;
                files1 = (if is_file_type (nth_opt header 156) \<and> sz > 0
                          then files @ [(header_name header, js_slice off1 (off1 + sz) d)] else files)
            in loop d (off1 + padded_size sz) files1
        else Some files) = Some r"
    show "\<not> (d = ?data \<and> off = 0)"
    proof
      assume a: "d = ?data \<and> off = 0"
      then have "loop ?data 0 files = Some r"
        using body h bad_header_facts by (simp add: Let_def padded_size_def)
      with hyp show False by blast
    qed
  qed
  then show ?thesis unfolding parseTar_def by (metis option.exhaust)
qed

end
