(* ===== verification/Npm_Version_Props.thy ===== *)
theory Npm_Version_Props
  imports Npm_Version
begin

text \<open>
  A caret, tilde or lower-bound range accepts exactly an interval of versions, and
  \<open>resolveVersion\<close> picks the greatest version of the range, the first of several equal ones.
\<close>

section \<open>Ranges are intervals\<close>

text \<open>The first version a caret range excludes: the leftmost non-zero number goes up.\<close>

fun caret_bound :: "version \<Rightarrow> version" where
  "caret_bound (Version a b c) =
     (if a \<noteq> 0 then Version (Suc a) 0 0 else if b \<noteq> 0 then Version 0 (Suc b) 0 else Version 0 0 (Suc c))"

fun tilde_bound :: "version \<Rightarrow> version" where
  "tilde_bound (Version a b c) = Version a (Suc b) 0"

lemma caret_interval: "caret r v \<longleftrightarrow> r \<le> v \<and> v < caret_bound r"
  by (cases r; cases v) auto

lemma tilde_interval: "tilde r v \<longleftrightarrow> r \<le> v \<and> v < tilde_bound r"
  by (cases r; cases v) auto

lemma at_least_interval: "at_least r v \<longleftrightarrow> r \<le> v"
  by (cases r; cases v) auto

lemma parse_literal [simp]:
  "\<not> ver_digit c \<Longrightarrow> parseVersion (c # s) = None"
  by (simp add: parseVersion_def digits_def)

lemma not_digit [simp]: "\<not> ver_digit CHR ''^''" "\<not> ver_digit CHR ''~''" "\<not> ver_digit CHR ''>''"
  "\<not> ver_digit CHR ''*''" "\<not> ver_digit CHR ''l''"
  by (simp_all add: ver_digit_def)

lemma not_any: "parseVersion r = Some w \<Longrightarrow> \<not> any_range r"
  by (auto simp: any_range_def parseVersion_def digits_def)

lemma satisfies_simps [simp]:
  assumes "parseVersion v = Some x" "parseVersion r = Some w"
  shows "versionSatisfies v r \<longleftrightarrow> x = w"
    and "versionSatisfies v (CHR ''^'' # r) \<longleftrightarrow> caret w x"
    and "versionSatisfies v (CHR ''~'' # r) \<longleftrightarrow> tilde w x"
    and "versionSatisfies v (CHR ''>'' # CHR ''='' # r) \<longleftrightarrow> at_least w x"
  using assms not_any [OF assms(2)]
  by (auto simp: versionSatisfies_def any_range_def literal_then_def starts_with_def)

text \<open>
  C26. Of two versions, a caret range accepts exactly those from the named one up to, and without,
  the next one in which the leftmost non-zero number is larger; a tilde range those below the next
  minor version; \<open>>=\<close> those at least as large; and a bare version only that one.
\<close>

theorem ranges_are_intervals:
  assumes "parseVersion v = Some x" "parseVersion r = Some w"
  shows "(versionSatisfies v r \<longleftrightarrow> x = w)
    \<and> (versionSatisfies v (''^'' @ r) \<longleftrightarrow> w \<le> x \<and> x < caret_bound w)
    \<and> (versionSatisfies v (''~'' @ r) \<longleftrightarrow> w \<le> x \<and> x < tilde_bound w)
    \<and> (versionSatisfies v (''>='' @ r) \<longleftrightarrow> w \<le> x)"
  using assms by (simp add: caret_interval tilde_interval at_least_interval)

theorem ranges_are_intervals_witness:
  "versionSatisfies ''0.3.10'' (''^'' @ ''0.3.2'') \<and> \<not> versionSatisfies ''0.4.0'' (''^'' @ ''0.3.2'')"
proof -
  have p: "parseVersion ''0.3.10'' = Some (Version 0 3 10)" "parseVersion ''0.3.2'' = Some (Version 0 3 2)"
    "parseVersion ''0.4.0'' = Some (Version 0 4 0)"
    by code_simp+
  show ?thesis
    using ranges_are_intervals [OF p(1) p(2)] ranges_are_intervals [OF p(3) p(2)] by simp
qed

section \<open>The best version\<close>

definition candidate :: "string \<Rightarrow> string \<Rightarrow> version \<Rightarrow> bool" where
  "candidate rg ver p \<longleftrightarrow> versionSatisfies ver rg \<and> parseVersion ver = Some p"

lemma better_alt:
  "better rg best ver =
     (if \<exists>p. candidate rg ver p \<and> (\<forall>x b. best = Some (x, b) \<longrightarrow> b < p)
      then Some (ver, the (parseVersion ver)) else best)"
  by (auto simp: better_def candidate_def less_version_def split: option.splits)

text \<open>What the loop holds after a list of versions: the first of the greatest candidates.\<close>

fun is_best :: "string \<Rightarrow> string list \<Rightarrow> (string \<times> version) option \<Rightarrow> bool" where
  "is_best rg vers None \<longleftrightarrow> (\<forall>ver \<in> set vers. \<forall>p. \<not> candidate rg ver p)"
| "is_best rg vers (Some (ver, p)) \<longleftrightarrow> candidate rg ver p \<and>
     (\<exists>pre post. vers = pre @ ver # post
        \<and> (\<forall>w \<in> set pre. \<forall>q. candidate rg w q \<longrightarrow> q < p) \<and> (\<forall>w \<in> set post. \<forall>q. candidate rg w q \<longrightarrow> q \<le> p))"

lemma is_best_bound:
  "is_best rg vers (Some (x, b)) \<Longrightarrow> w \<in> set vers \<Longrightarrow> candidate rg w q \<Longrightarrow> q \<le> b"
proof -
  assume best: "is_best rg vers (Some (x, b))" and w: "w \<in> set vers" "candidate rg w q"
  obtain pre post where v: "vers = pre @ x # post" "candidate rg x b"
    "\<forall>w \<in> set pre. \<forall>q. candidate rg w q \<longrightarrow> q < b" "\<forall>w \<in> set post. \<forall>q. candidate rg w q \<longrightarrow> q \<le> b"
    using best by auto
  from w(1) v(1) consider "w \<in> set pre" | "w = x" | "w \<in> set post" by auto
  then show "q \<le> b"
  proof cases
    case 2
    then show ?thesis using w(2) v(2) by (simp add: candidate_def)
  qed (use v(3,4) w(2) in \<open>auto simp: less_imp_le\<close>)
qed

lemma is_best_better: "is_best rg vers best \<Longrightarrow> is_best rg (vers @ [ver]) (better rg best ver)"
proof (cases "\<exists>p. candidate rg ver p \<and> (\<forall>x b. best = Some (x, b) \<longrightarrow> b < p)")
  case True
  assume b: "is_best rg vers best"
  obtain p where p: "candidate rg ver p" "\<forall>x b. best = Some (x, b) \<longrightarrow> b < p" using True by blast
  have "q < p" if "w \<in> set vers" "candidate rg w q" for w q
  proof (cases best)
    case None
    then show ?thesis using b that by simp
  next
    case (Some xb)
    obtain x b' where "best = Some (x, b')" using Some by (cases xb) auto
    then show ?thesis using is_best_bound [of rg vers x b' w q] b that p(2) by force
  qed
  moreover have "better rg best ver = Some (ver, p)"
    using True p(1) by (simp add: better_alt) (simp add: candidate_def)
  ultimately show ?thesis
    using p(1) unfolding \<open>better rg best ver = Some (ver, p)\<close> is_best.simps
    by (intro conjI exI [of _ vers] exI [of _ "[]"]) auto
next
  case False
  assume b: "is_best rg vers best"
  have keep: "better rg best ver = best" unfolding better_alt if_not_P [OF False] by (rule refl)
  show ?thesis
  proof (cases best)
    case None
    then show ?thesis using b False keep by auto
  next
    case (Some xb)
    obtain x b' where x: "best = Some (x, b')" using Some by (cases xb) auto
    have "q \<le> b'" if "candidate rg ver q" for q using False that x by auto
    then obtain pre post where "vers = pre @ x # post" "candidate rg x b'"
      "\<forall>w \<in> set pre. \<forall>q. candidate rg w q \<longrightarrow> q < b'" "\<forall>w \<in> set (post @ [ver]). \<forall>q. candidate rg w q \<longrightarrow> q \<le> b'"
      using b x by auto
    then show ?thesis unfolding keep [unfolded x] x is_best.simps by (intro conjI exI [of _ pre] exI [of _ "post @ [ver]"]) auto
  qed
qed

lemma is_best_best_of: "is_best rg vers (best_of rg vers)"
proof -
  have "is_best rg done best \<Longrightarrow> is_best rg (done @ vers) (foldl (better rg) best vers)" for "done" best
  proof (induction vers arbitrary: "done" best)
    case (Cons v vs)
    then show ?case using Cons.IH [OF is_best_better [OF Cons.prems]] by simp
  qed simp
  from this [of "[]" None] show ?thesis by (simp add: best_of_def)
qed

text \<open>
  For a range that is not just any version, \<open>resolveVersion\<close> returns a version of the
  packument that satisfies the range, no version that satisfies it is greater, none before it in
  the packument is equal; and it throws exactly when no version satisfies the range.
\<close>

theorem resolveVersion_greatest:
  assumes "\<not> any_range rg"
  shows "case resolveVersion p rg of
      Inl e \<Rightarrow> e = (pk_name p, rg) \<and> (\<forall>v \<in> set (keys (pk_versions p)). \<forall>q. \<not> candidate rg v q)
    | Inr r \<Rightarrow> (\<exists>x pre m post. candidate rg (rv_version r) x \<and> pk_versions p = pre @ (rv_version r, m) # post
        \<and> rv_tarball r = mf_tarball m \<and> rv_dependencies r = mf_dependencies m
        \<and> (\<forall>v \<in> set (keys pre). \<forall>q. candidate rg v q \<longrightarrow> q < x)
        \<and> (\<forall>v \<in> set (keys post). \<forall>q. candidate rg v q \<longrightarrow> q \<le> x))"
proof (cases "best_of rg (keys (pk_versions p))")
  case None
  then show ?thesis
    using is_best_best_of [of rg "keys (pk_versions p)"] assms by (simp add: resolveVersion_def)
next
  case (Some vb)
  obtain v x where v: "best_of rg (keys (pk_versions p)) = Some (v, x)" using Some by (cases vb) auto
  obtain kpre kpost where k: "keys (pk_versions p) = kpre @ v # kpost" "candidate rg v x"
    "\<forall>w \<in> set kpre. \<forall>q. candidate rg w q \<longrightarrow> q < x" "\<forall>w \<in> set kpost. \<forall>q. candidate rg w q \<longrightarrow> q \<le> x"
    using is_best_best_of [of rg "keys (pk_versions p)"] v by auto
  obtain pre m post where s: "pk_versions p = pre @ (v, m) # post" "keys pre = kpre" "keys post = kpost"
    using k(1) by (auto simp: map_eq_append_conv)
  have "v \<notin> set kpre" using k(2,3) by auto
  then have "map_of pre v = None" by (simp add: map_of_eq_None_iff flip: s(2))
  then have "map_of (pk_versions p) v = Some m"
    unfolding s(1) by (simp add: map_add_def)
  then have res: "resolveVersion p rg = Inr (resolved_as v m)"
    using v assms by (simp add: resolveVersion_def)
  have fields: "rv_version (resolved_as v m) = v" "rv_tarball (resolved_as v m) = mf_tarball m"
    "rv_dependencies (resolved_as v m) = mf_dependencies m"
    by (simp_all add: resolved_as_def)
  have "candidate rg v x \<and> pk_versions p = pre @ (v, m) # post
      \<and> mf_tarball m = mf_tarball m \<and> mf_dependencies m = mf_dependencies m
      \<and> (\<forall>w \<in> set (keys pre). \<forall>q. candidate rg w q \<longrightarrow> q < x)
      \<and> (\<forall>w \<in> set (keys post). \<forall>q. candidate rg w q \<longrightarrow> q \<le> x)"
    using k(2-4) s by simp
  then show ?thesis unfolding res sum.case fields by blast
qed


definition sample_package :: packument where
  "sample_package = \<lparr>pk_name = ''p'', pk_latest = None, pk_versions =
     map (\<lambda>v. (v, \<lparr>mf_tarball = Some v, mf_dependencies = []\<rparr>)) [''1.9.0'', ''1.10.0'', ''2.0.0-beta.1'', ''2.0.0'']\<rparr>"

theorem resolveVersion_greatest_witness:
  "\<exists>r x. resolveVersion sample_package ''^1.2.0'' = Inr r \<and> candidate ''^1.2.0'' (rv_version r) x
     \<and> rv_version r = ''1.10.0''"
proof -
  have r: "resolveVersion sample_package ''^1.2.0'' =
      Inr \<lparr>rv_version = ''1.10.0'', rv_tarball = Some ''1.10.0'', rv_dependencies = []\<rparr>"
    by code_simp
  have "\<not> any_range ''^1.2.0''" by code_simp
  from resolveVersion_greatest [OF this, of sample_package] show ?thesis
    unfolding r by auto
qed

section \<open>What the ranges miss\<close>

text \<open>
  The suffix of a version is not looked at: a range never excludes a pre-release, and of a
  pre-release and its release the one listed first, usually the pre-release, is installed.
\<close>

lemma prerelease_installed:
  "map_sum id rv_version (resolveVersion sample_package ''^2.0.0'') = Inr ''2.0.0-beta.1''"
  by code_simp

text \<open>Only the first alternative of a range counts, and an upper bound does not count at all.\<close>

lemma alternatives_ignored: "\<not> versionSatisfies ''2.1.0'' ''^1.0.0 || ^2.0.0''"
  by code_simp

lemma upper_bound_ignored: "versionSatisfies ''3.0.0'' ''<2.0.0'' \<and> versionSatisfies ''3.0.0'' ''1.x''"
  by code_simp

lemma hyphen_range_exact: "\<not> versionSatisfies ''1.5.0'' ''1.0.0 - 2.0.0''"
  by code_simp

end
