(* ===== verification/Npm_Install_Props.thy ===== *)
theory Npm_Install_Props
  imports Npm_Install Npm_Tar_Props Npm_Version_Props Memfs_Properties
begin

text \<open>
  What the installer guarantees: the files of a tarball can be read back from the file system, and a
  run fetches every package at most once, keeps the file system and the cache well formed and
  returns whenever the tarballs can be read.
\<close>

section \<open>One file\<close>

lemma install_file_base:
  assumes wf: "fs_wf s"
  obtains s1 where "fs_wf s1" "install_file p d s = writeFile p d s1"
    "\<And>ps x. view s ps = Some (FileV x) \<Longrightarrow> view s1 ps = Some (FileV x)"
proof -
  have m: "fs_wf (snd (mkdir q True s)) \<and>
      (\<forall>ps x. view s ps = Some (FileV x) \<longrightarrow> view (snd (mkdir q True s)) ps = Some (FileV x))" for q
  proof (cases "is_ok (fst (mkdir q True s))")
    case True
    note mk = mkdir_p_spec [OF wf, of q]
    have nofile: "\<not> (\<exists>k \<le> length (comps q). \<exists>d. view s (take k (comps q)) = Some (FileV d))"
    proof
      assume "\<exists>k \<le> length (comps q). \<exists>d. view s (take k (comps q)) = Some (FileV d)"
      then have "spec_mkdir_p (comps q) (view s) = Inl ENOTDIR" by (simp add: spec_mkdir_p_def)
      with mk(1) True show False by (auto simp: agrees_def is_ok_def split: sum.splits)
    qed
    then have "view (snd (mkdir q True s)) = (\<lambda>rs. if prefix rs (comps q) then Some DirV else view s rs)"
      using mk(1) unfolding spec_mkdir_p_def if_not_P [OF nofile] by (simp add: agrees_def)
    then show ?thesis using mk(2) nofile by (auto simp: prefix_take)
  next
    case False
    then have "snd (mkdir q True s) = s" using mkdir_p_spec(3) [OF wf, of q] by blast
    then show ?thesis using wf by simp
  qed
  show thesis
  proof (cases "last_index_of slash p")
    case None
    then show thesis using wf by (intro that [of s]) (simp_all add: install_file_def)
  next
    case (Some i)
    then show thesis
      using wf m [of "take i p"]
      by (intro that [of "if i > 0 then snd (mkdir (take i p) True s) else s"]) (auto simp: install_file_def)
  qed
qed

lemma install_file_ok:
  assumes wf: "fs_wf s" and p: "comps p \<noteq> []" and ok: "install_file p d s = (Inr (), t)"
  shows "view t (comps p) = Some (FileV d)"
    and "view s ps = Some (FileV x) \<Longrightarrow> ps \<noteq> comps p \<Longrightarrow> view t ps = Some (FileV x)"
proof -
  obtain s1 where s1: "fs_wf s1" "writeFile p d s1 = (Inr (), t)"
      "\<And>ps x. view s ps = Some (FileV x) \<Longrightarrow> view s1 ps = Some (FileV x)"
    using ok by (cases rule: install_file_base [OF wf, of p d]) auto
  have v: "view t = (view s1)(comps p \<mapsto> FileV d)"
    using writeFile_ok_view [OF s1(1) p, of d] s1(2) by simp
  then show "view t (comps p) = Some (FileV d)" by simp
  show "view s ps = Some (FileV x) \<Longrightarrow> ps \<noteq> comps p \<Longrightarrow> view t ps = Some (FileV x)"
    using v s1(3) by simp
qed

lemma fs_wf_install_file: "fs_wf s \<Longrightarrow> fs_wf (snd (install_file p d s))"
  by (cases rule: install_file_base [of s p d]) (auto simp: fs_wf_writeFile)

interpretation install_store: file_store fs_wf "\<lambda>p. comps p \<noteq> []" comps file_content install_file
  by unfold_locales (auto simp: fs_wf_install_file file_content_Some intro: install_file_ok)

section \<open>A tarball\<close>

text \<open>Where the files of an archive go.\<close>

definition named :: "tar_file \<Rightarrow> bool" where
  "named f \<longleftrightarrow> strip_package (fst f) \<noteq> [] \<and> \<not> ends_with (strip_package (fst f)) [slash]"

definition target :: "string \<Rightarrow> string \<Rightarrow> string" where
  "target dest nm = dest @ slash # strip_package nm"

lemma extract_files_store:
  "extract_files dest files s = store_all install_file (map (\<lambda>f. (target dest (fst f), snd f)) (filter named files)) s"
proof (induction files arbitrary: s)
  case (Cons f files)
  obtain nm d where "f = (nm, d)" by force
  then show ?case
    using Cons by (auto simp: extract_file_def named_def target_def Let_def split: prod.splits sum.splits)
qed simp

lemma fs_wf_extract: "fs_wf s \<Longrightarrow> fs_wf (snd (extract_files dest files s))"
  unfolding extract_files_store by (rule install_store.store_all_inv)

text \<open>
  Unpacking a gzipped ustar archive that throws nothing leaves every regular file of it with
  some content readable under the target directory, with its first path component stripped and
  with its bytes, unless a later file of the archive goes to the same place.
\<close>

theorem extractTgz_reads_back:
  assumes "fs_wf s" "list_all entry_ok es"
    and "gunzip tgz = Some (concat (map tar_block es) @ replicate 512 0 @ rest)"
    and "extractTgzToMemfs gunzip tgz dest s = Some (Inr (), t)"
    and "filter regular es = before @ e # after"
    and "named (entry_path e, te_data e)"
    and "\<forall>f \<in> set es. comps (target dest (entry_path f)) \<noteq> []"
    and "\<forall>f \<in> set after. comps (target dest (entry_path f)) \<noteq> comps (target dest (entry_path e))"
  shows "fst (readFile (target dest (entry_path e)) t) = Inr (te_data e)"
proof -
  let ?file = "\<lambda>e. (entry_path e, te_data e)"
  let ?to = "\<lambda>f. (target dest (fst f), snd f)"
  let ?all = "map ?to (filter named (map ?file (filter regular es)))"
  have p: "parseTar (concat (map tar_block es) @ replicate 512 0 @ rest) = Some (map ?file (filter regular es))"
    using parse_entries [OF assms(2), of "[]" "replicate 512 0 @ rest" "[]"]
      parse_end [of "concat (map tar_block es)" rest] files_of_entries [of es] by (simp add: parseTar_def)
  have "extract_files dest (map ?file (filter regular es)) s = (Inr (), t)"
    using assms(3,4) p by (auto simp: extractTgzToMemfs_def split: prod.splits sum.splits)
  then have st: "store_all install_file ?all s = (Inr (), t)" by (simp add: extract_files_store)
  have all: "?all = map ?to (filter named (map ?file before)) @ (target dest (entry_path e), te_data e)
      # map ?to (filter named (map ?file after))"
    unfolding assms(5) using assms(6) by simp
  have sub: "set after \<subseteq> set es" using arg_cong [OF assms(5), of set] by auto
  have "file_content t (comps (target dest (entry_path e))) = Some (te_data e)"
  proof (rule install_store.store_all_reads [OF assms(1) _ st all])
    show "\<forall>f \<in> set ?all. comps (fst f) \<noteq> []" using assms(7) by auto
    show "comps (target dest (entry_path e)) \<notin> comps ` fst ` set (map ?to (filter named (map ?file after)))"
      using assms(8) by auto
  qed
  moreover have "fs_wf t" using install_store.store_all_inv [OF assms(1), of ?all] st by simp
  ultimately show ?thesis by (simp add: readFile_view file_content_Some)
qed

lemmas extract_exec = extract_file_def install_file_def strip_package_def ends_with_def Let_def

text \<open>A name with dot components is written outside the directory of the package.\<close>

lemma tarball_escapes:
  "fst (readFile ''/evil'' (snd (extract_files ''/w/p'' [(''package/../../evil'', [])] (new_memfs (\<lambda>_. 0))))) = Inr []"
  unfolding readFile_view [OF fs_wf_extract [OF fs_wf_new]]
  by (simp add: fs_exec extract_exec view_def view_at_def)


definition sample_tgz :: "byte list \<Rightarrow> byte list option" where
  "sample_tgz z = (if z = [0x1f] then Some (concat (map tar_block [sample_entry ''a.js'' [1]]) @ replicate 512 0 @ []) else None)"

lemma sample_target: "target ''/p'' (entry_path (sample_entry ''a.js'' d)) = ''/p/a.js''"
  by (simp add: target_def entry_path_def sample_entry_def strip_package_def)

theorem extractTgz_reads_back_witness:
  "fst (readFile ''/p/a.js'' (snd (extract_files ''/p'' [(''package/a.js'', [1])] (new_memfs (\<lambda>_. 0))))) = Inr [1]"
proof -
  let ?e = "sample_entry ''a.js'' [1]"
  have "fst (extract_files ''/p'' [(''package/a.js'', [1])] (new_memfs (\<lambda>_. 0))) = Inr ()"
    by (simp add: fs_exec extract_exec)
  then obtain t where x: "extract_files ''/p'' [(''package/a.js'', [1])] (new_memfs (\<lambda>_. 0)) = (Inr (), t)"
    by (metis prod.collapse)
  have ok: "list_all entry_ok [?e]" using sample_entry_ok [of "[1]"] by simp
  have e: "entry_path ?e = ''package/a.js''" "te_data ?e = [1]" "regular ?e"
    by (simp_all add: entry_path_def sample_entry_def regular_def)
  let ?data = "concat (map tar_block [?e]) @ replicate 512 0 @ []"
  have "parseTar ?data = Some [(''package/a.js'', [1])]"
    using parse_entries [OF ok, of "[]" "replicate 512 0 @ []" "[]"] parse_end [of "concat (map tar_block [?e])" "[]"]
      files_of_entries [of "[?e]"] e by (simp add: parseTar_def)
  moreover have "sample_tgz [0x1f] = Some ?data" by (simp add: sample_tgz_def)
  ultimately have run: "extractTgzToMemfs sample_tgz [0x1f] ''/p'' (new_memfs (\<lambda>_. 0)) = Some (Inr (), t)"
    unfolding extractTgzToMemfs_def
    by (simp only: option.case x prod.case sum.case)
  have named: "named (entry_path ?e, te_data ?e)"
    unfolding e by code_simp
  have "comps ''/p/a.js'' \<noteq> []" by code_simp
  then show ?thesis
    using extractTgz_reads_back [OF fs_wf_new ok _ run, of "[]" "[]" ?e "[]"] named e x sample_target [of "[1]"]
    by (simp add: sample_tgz_def)
qed

section \<open>A run of the installer\<close>

text \<open>
  An invariant that an action keeps; with \<open>T\<close> it also returns. The rules follow the structure of
  the actions.
\<close>

definition safe :: "bool \<Rightarrow> (npm_state \<Rightarrow> bool) \<Rightarrow> 'a npm_act \<Rightarrow> bool" where
  "safe T I m \<longleftrightarrow> (\<forall>st. I st \<longrightarrow> (case m st of None \<Rightarrow> \<not> T | Some (r, st1) \<Rightarrow> I st1))"

lemma safe_cases:
  assumes "safe T I m" "I st"
  obtains (stuck) "m st = None" "\<not> T"
  | (threw) e st1 where "m st = Some (Inl e, st1)" "I st1"
  | (returned) x st1 where "m st = Some (Inr x, st1)" "I st1"
proof (cases "m st")
  case (Some rs)
  obtain r st1 where rs: "rs = (r, st1)" by force
  have "I st1" using assms Some rs by (auto simp: safe_def)
  then show thesis using Some rs that(2,3) by (cases r) auto
qed (use assms that(1) in \<open>auto simp: safe_def\<close>)

named_theorems safe_rules \<comment> \<open>actions that keep the invariant of the installer\<close>

lemma safe_ret [safe_rules]: "safe T I (npm_ret x)" "safe T I (npm_throw e)"
  by (simp_all add: safe_def npm_ret_def npm_throw_def)

lemma safe_bind [safe_rules]:
  assumes "safe T I m" "\<And>x. safe T I (f x)"
  shows "safe T I (npm_bind m f)"
  unfolding safe_def
proof (intro allI impI)
  fix st assume "I st"
  with assms(1) show "case npm_bind m f st of None \<Rightarrow> \<not> T | Some (r, st1) \<Rightarrow> I st1"
  proof (cases rule: safe_cases)
    case (returned x st1)
    then show ?thesis using assms(2) [of x] by (simp add: npm_bind_def safe_def)
  qed (simp_all add: npm_bind_def)
qed

lemma safe_catch [safe_rules]:
  assumes "safe T I m" "\<And>e. safe T I (h e)"
  shows "safe T I (npm_catch m h)"
  unfolding safe_def
proof (intro allI impI)
  fix st assume "I st"
  with assms(1) show "case npm_catch m h st of None \<Rightarrow> \<not> T | Some (r, st1) \<Rightarrow> I st1"
  proof (cases rule: safe_cases)
    case (threw e st1)
    then show ?thesis using assms(2) [of e] by (simp add: npm_catch_def safe_def)
  qed (simp_all add: npm_catch_def)
qed

lemma safe_do: "(\<And>st. I st \<Longrightarrow> I (f st)) \<Longrightarrow> safe T I (npm_do f)"
  by (simp add: safe_def npm_do_def)

text \<open>
  The packages asked for at the registry so far, and what holds of them: every one is asked for
  once, and is marked as installed.
\<close>

definition fetched :: "status_line list \<Rightarrow> string list" where
  "fetched ls = concat (map (\<lambda>l. case l of Fetching nm rg \<Rightarrow> [nm] | _ \<Rightarrow> []) ls)"

lemma fetched_simps [simp]: "fetched [] = []" "fetched (ls @ ls') = fetched ls @ fetched ls'"
  "fetched [Fetching nm rg] = [nm]" "fetched [Resolved nm v] = []" "fetched [Downloading nm v] = []"
  "fetched [FromCache nm v n] = []" "fetched [Extracting nm v n] = []" "fetched [CacheCorrupt nm v] = []"
  "fetched [Warn nm e] = []"
  by (simp_all add: fetched_def)

definition npm_inv :: "string \<Rightarrow> npm_state \<Rightarrow> bool" where
  "npm_inv modules st \<longleftrightarrow> fs_wf (np_fs st) \<and> cache_ok (np_cache st) \<and> distinct (fetched (np_lines st))
     \<and> (\<forall>nm \<in> set (fetched (np_lines st)). modules @ slash # nm \<in> set (np_installed st))"

definition tarballs_read :: "npm_env \<Rightarrow> bool" where
  "tarballs_read env \<longleftrightarrow> (\<forall>tgz data. ne_gunzip env tgz = Some data \<longrightarrow> parseTar data \<noteq> None)"

lemma inv_say [simp]: "fetched [l] = [] \<Longrightarrow> npm_inv b (say l st) = npm_inv b st"
  by (simp add: npm_inv_def say_def)

lemma cache_ok_get: "cache_ok c \<Longrightarrow> cache_ok (snd (cacheGetPackage nm v t c))"
  unfolding cacheGetPackage_def
  by (auto simp: store_get_def find_Some_iff cache_ok_def [of c] intro!: cache_ok_put split: option.splits)

lemma safe_say [safe_rules]: "fetched [l] = [] \<Longrightarrow> safe T (npm_inv b) (npm_do (say l))"
  by (rule safe_do) simp

lemma safe_request [safe_rules]: "safe T (npm_inv b) (request f)"
  by (simp add: safe_def request_def npm_inv_def)

lemma safe_resolve [safe_rules]: "safe T (npm_inv b) (resolve_act p rg)"
  by (auto simp: safe_def resolve_act_def)

lemma safe_packument [safe_rules]: "safe T (npm_inv b) (fetch_packument env nm)"
  unfolding fetch_packument_def by (intro safe_rules)

lemma safe_download [safe_rules]: "safe T (npm_inv b) (download env nm v url)"
  unfolding download_def by (rule safe_bind [OF safe_request]) (simp add: safe_def npm_inv_def cache_ok_cachePut)

lemma safe_cached [safe_rules]: "safe T (npm_inv b) (cached_tarball env nm v)"
proof -
  have "safe T (npm_inv b) (on_cache (cacheGetPackage nm v t))" for t
    by (auto simp: safe_def on_cache_def npm_inv_def dest: cache_ok_get [of _ nm v t] split: prod.splits)
  then have "safe T (npm_inv b) (npm_bind (on_cache (cacheGetPackage nm v t))
       (\<lambda>c. npm_ret (case c of Some b \<Rightarrow> if b \<noteq> [] then Some b else None | None \<Rightarrow> None)))" for t
    by (intro safe_rules)
  then show ?thesis unfolding cached_tarball_def safe_def by blast
qed

lemma safe_delete [safe_rules]: "safe T (npm_inv b) (on_cache (\<lambda>st. ((), cacheDeletePackage nm v st)))"
  by (simp add: safe_def on_cache_def npm_inv_def cacheDeletePackage_def)

lemma safe_mkdir [safe_rules]: "safe T (npm_inv b) (npm_do (\<lambda>st. st\<lparr>np_fs := snd (mkdir m True (np_fs st))\<rparr>))"
  by (rule safe_do) (simp add: npm_inv_def mkdir_p_spec(2))

lemma safe_unpack [safe_rules]: "T \<longrightarrow> tarballs_read env \<Longrightarrow> safe T (npm_inv b) (unpack env tgz dest)"
proof -
  assume t: "T \<longrightarrow> tarballs_read env"
  have "fs_wf s \<Longrightarrow> extractTgzToMemfs (ne_gunzip env) tgz dest s = Some (r, s1) \<Longrightarrow> fs_wf s1" for s r s1
    using fs_wf_extract [of s dest]
    by (auto simp: extractTgzToMemfs_def split: option.splits prod.splits sum.splits) (metis snd_conv)+
  moreover have "T \<Longrightarrow> extractTgzToMemfs (ne_gunzip env) tgz dest s \<noteq> None" for s
    using t by (auto simp: extractTgzToMemfs_def tarballs_read_def simp del: not_None_eq split: option.splits prod.splits sum.splits)
  ultimately show ?thesis
    by (fastforce simp: safe_def unpack_def npm_inv_def split: option.splits prod.splits)
qed

lemma safe_place:
  assumes "T \<longrightarrow> tarballs_read env"
  shows "safe T (npm_inv b) (place env nm v url m dest)"
  unfolding place_def
  by (intro safe_rules assms) (auto intro!: safe_rules assms split: option.split)

lemma safe_deps:
  assumes "\<And>d rg. safe T (npm_inv b) (ins d rg)"
  shows "safe T (npm_inv b) (install_deps ins deps n)"
proof (induction deps arbitrary: n)
  case (Cons d deps)
  obtain nm rg where "d = (nm, rg)" by force
  then show ?case by (auto intro!: safe_rules assms Cons.IH)
qed (simp add: safe_rules)


lemma fs_wf_installed_version: "fs_wf s \<Longrightarrow> fs_wf (snd (installed_version env dest s))"
  using fs_wf_readFile [of s "dest @ ''/package.json''"]
  by (auto simp: installed_version_def read_json_def split: prod.splits sum.splits option.splits)

text \<open>The announcement of a package that is marked and was not asked for yet, and what follows it.\<close>

lemma fresh_install_inv:
  assumes T: "T \<longrightarrow> tarballs_read env"
    and deeper: "\<And>ins d r. deeper = Some ins \<Longrightarrow> safe T (npm_inv b) (ins d r)"
    and inv: "npm_inv b st" "nm \<notin> set (fetched (np_lines st))" "b @ slash # nm \<in> set (np_installed st)"
  shows "case fresh_install env b dest deeper nm rg st of None \<Rightarrow> \<not> T | Some (r, st1) \<Rightarrow> npm_inv b st1"
proof -
  let ?rest = "\<lambda>_. npm_bind (fetch_packument env nm) (\<lambda>p.
     npm_bind (resolve_act p rg) (\<lambda>r.
     npm_bind (npm_do (say (Resolved nm (rv_version r)))) (\<lambda>_.
       case rv_tarball r of
         None \<Rightarrow> npm_throw (NoTarball nm (rv_version r))
       | Some url \<Rightarrow>
           if url = [] then npm_throw (NoTarball nm (rv_version r))
           else
             npm_bind (place env nm (rv_version r) url b dest) (\<lambda>_.
             npm_bind (case deeper of None \<Rightarrow> npm_ret 1 | Some ins \<Rightarrow> install_deps ins (rv_dependencies r) 1) (\<lambda>n.
             npm_ret (installed_as nm (rv_version r) n))))))"
  have deps: "safe T (npm_inv b) (install_deps ins ds n)" if "deeper = Some ins" for ins ds n
    using safe_deps [OF deeper [OF that]] .
  have "safe T (npm_inv b) (?rest ())"
    by (intro safe_rules) (auto intro!: safe_rules safe_place deps T split: option.split)
  moreover have "npm_inv b (say (Fetching nm rg) st)" using inv by (simp add: npm_inv_def say_def)
  ultimately have "case ?rest () (say (Fetching nm rg) st) of None \<Rightarrow> \<not> T | Some (r, st1) \<Rightarrow> npm_inv b st1"
    unfolding safe_def by blast
  then show ?thesis by (simp add: fresh_install_def npm_bind_def [of "npm_do f" for f] npm_do_def)
qed

lemma safe_step:
  assumes T: "T \<longrightarrow> tarballs_read env"
    and deeper: "\<And>ins d r. deeper = Some ins \<Longrightarrow> safe T (npm_inv (base @ ''/node_modules'')) (ins d r)"
  shows "safe T (npm_inv (base @ ''/node_modules'')) (install_step env base deeper nm rg)"
  unfolding safe_def
proof (intro allI impI)
  let ?b = "base @ ''/node_modules''"
  let ?dest = "?b @ slash # nm"
  fix st assume inv: "npm_inv ?b st"
  show "case install_step env base deeper nm rg st of None \<Rightarrow> \<not> T | Some (r, st1) \<Rightarrow> npm_inv ?b st1"
  proof (cases "?dest \<in> set (np_installed st)")
    case True
    then show ?thesis using inv by (simp add: install_step_def)
  next
    case False
    obtain ex s1 where v: "installed_version env ?dest (np_fs st) = (ex, s1)" by force
    let ?st1 = "st\<lparr>np_installed := ?dest # np_installed st, np_fs := s1\<rparr>"
    have "fs_wf s1" using fs_wf_installed_version [of "np_fs st" env ?dest] inv v by (simp add: npm_inv_def)
    then have i1: "npm_inv ?b ?st1" using inv by (auto simp: npm_inv_def)
    moreover have "nm \<notin> set (fetched (np_lines ?st1))" using inv False by (auto simp: npm_inv_def)
    ultimately have fr: "case fresh_install env ?b ?dest deeper nm rg ?st1 of None \<Rightarrow> \<not> T | Some (r, st1) \<Rightarrow> npm_inv ?b st1"
      by (intro fresh_install_inv T deeper) simp_all
    have "install_step env base deeper nm rg st = fresh_install env ?b ?dest deeper nm rg ?st1
        \<or> (\<exists>x. install_step env base deeper nm rg st = Some (Inr x, ?st1))"
      using False v by (auto simp: install_step_def Let_def npm_ret_def split: option.splits)
    then show ?thesis using fr i1 by auto
  qed
qed

lemma safe_install_at:
  assumes "T \<longrightarrow> tarballs_read env"
  shows "safe T (npm_inv (base @ ''/node_modules'')) (install_at env base k nm rg)"
proof (induction k arbitrary: nm rg)
  case (Suc k)
  then show ?case by (auto intro!: safe_step assms)
qed (auto intro!: safe_step assms)


text \<open>Two packages that depend on each other, and on one that is not there.\<close>

definition cyclic_env :: npm_env where
  "cyclic_env = \<lparr>ne_abbreviated = \<lambda>t nm.
       if nm = ''a'' \<or> nm = ''b'' then Inr \<lparr>pk_name = nm, pk_latest = None, pk_versions =
           [(''1.0.0'', \<lparr>mf_tarball = Some ''t'', mf_dependencies = [(''a'', ''^1.0.0''), (''b'', ''^1.0.0''), (''c'', ''*'')]\<rparr>)]\<rparr>
       else Inl (FetchFailed nm),
     ne_full = \<lambda>t nm. Inl (FetchFailed nm), ne_tarball = \<lambda>t url. Inr [0], ne_now = \<lambda>t. 0,
     ne_gunzip = \<lambda>z. Some [], ne_message = \<lambda>e. [], ne_json = \<lambda>d. None, ne_text = \<lambda>j. [], ne_cap = 10\<rparr>"

definition fresh_state :: npm_state where
  "fresh_state = \<lparr>np_fs = new_memfs (\<lambda>_. 0), np_cache = [], np_events = 0, np_installed = [], np_lines = []\<rparr>"


end
