(* ===== verification/Npm_Commands_Props.thy ===== *)
theory Npm_Commands_Props
  imports Npm_Commands Npm_Install_Props
begin

text \<open>
  The \<open>npm\<close> command keeps the file system and the cache well formed, and \<open>npm uninstall\<close> removes
  the trees of the packages and nothing else.
\<close>

section \<open>Reading and writing package.json\<close>

lemma read_json_keeps:
  "fs_wf s \<Longrightarrow> fs_wf (snd (read_json env p s)) \<and> view (snd (read_json env p s)) = view s"
  using fs_wf_readFile [of s p] view_readFile [of p s]
  by (cases "readFile p s"; cases "fst (readFile p s)") (simp_all add: read_json_def)

definition npm_wf :: "npm_state \<Rightarrow> bool" where
  "npm_wf st \<longleftrightarrow> fs_wf (np_fs st) \<and> cache_ok (np_cache st)"

lemma npm_wf_upd [simp]: "npm_wf (st\<lparr>np_events := n\<rparr>) = npm_wf st" "npm_wf (st\<lparr>np_installed := i\<rparr>) = npm_wf st"
  "npm_wf (st\<lparr>np_lines := l\<rparr>) = npm_wf st"
  by (simp_all add: npm_wf_def)

lemma read_pkg_wf: "npm_wf st \<Longrightarrow> npm_wf (snd (read_pkg env p st))"
  using read_json_keeps [of "np_fs st" env p] by (simp add: npm_wf_def read_pkg_def split_beta)

lemma read_pkg_view: "npm_wf st \<Longrightarrow> view (np_fs (snd (read_pkg env p st))) = view (np_fs st)"
  using read_json_keeps [of "np_fs st" env p] by (simp add: npm_wf_def read_pkg_def split_beta)

lemma write_pkg_wf: "npm_wf st \<Longrightarrow> npm_wf (snd (write_pkg nt p j st))"
  using fs_wf_writeFile [of "np_fs st" p] by (simp add: npm_wf_def write_pkg_def split_beta)

lemma write_pkg_view:
  "npm_wf st \<Longrightarrow> comps p \<noteq> [] \<Longrightarrow> qs \<noteq> comps p \<Longrightarrow> view (np_fs (snd (write_pkg nt p j st))) qs = view (np_fs st) qs"
  using writeFile_spec [of "np_fs st" p "bytes_of (nt_print nt j @ nl)"]
  by (auto simp: npm_wf_def write_pkg_def split_beta agrees_def spec_write_def split: if_splits)

section \<open>npm uninstall\<close>

definition package_dir :: "string \<Rightarrow> string \<Rightarrow> string list" where
  "package_dir cwd nm = comps (cwd @ ''/node_modules/'' @ nm)"

lemma remove_all_spec:
  "fs_wf s \<Longrightarrow> names_ok s \<Longrightarrow> \<forall>nm \<in> set names. package_dir cwd nm \<noteq> [] \<Longrightarrow>
   \<exists>t. remove_all cwd names n s = (n + length names, t) \<and> fs_wf t \<and> names_ok t
     \<and> view t = (\<lambda>qs. if \<exists>nm \<in> set names. prefix (package_dir cwd nm) qs then None else view s qs)"
proof (induction names arbitrary: n s)
  case (Cons nm names)
  have "comps (cwd @ ''/node_modules/'' @ nm) \<noteq> []" using Cons.prems(3) by (simp add: package_dir_def)
  from rmrf_removes [OF Cons.prems(1,2) this] obtain t where
    t: "rmrf (Suc (fs_inoCounter s)) (cwd @ ''/node_modules/'' @ nm) s = (Inr (), t)" "fs_wf t"
      "view t = without (package_dir cwd nm) (view s)"
    unfolding package_dir_def by blast
  have names: "names_ok t"
    using Cons.prems(2) t(3) unfolding names_ok_view by (auto simp: named_view_def without_def split: if_splits)
  from Cons.IH [OF t(2) names, of "Suc n"] Cons.prems(3) obtain u where
    u: "remove_all cwd names (Suc n) t = (Suc n + length names, u)" "fs_wf u" "names_ok u"
      "view u = (\<lambda>qs. if \<exists>nm \<in> set names. prefix (package_dir cwd nm) qs then None else view t qs)"
    by auto
  then show ?case using t(1,3) by (auto simp: without_def fun_eq_iff)
qed simp

text \<open>
  \<open>npm uninstall\<close> succeeds and removes, for every name, the tree under its directory in
  \<open>node_modules\<close>, whatever its depth; every other path but \<open>package.json\<close> is as it was.
\<close>

theorem uninstall_removes_exactly:
  assumes "npm_wf st" "names_ok (np_fs st)" "no_memfs o'"
    and "names = filter (\<lambda>a. \<not> is_flag a) args" "names \<noteq> []"
    and "\<forall>nm \<in> set names. package_dir (cwd_of o') nm \<noteq> []"
    and "qs \<noteq> comps (cwd_of o' @ ''/package.json'')"
  shows "\<exists>out st1. npmUninstall nt args o' st = Some (Inr (ok out), st1) \<and> fs_wf (np_fs st1)
     \<and> view (np_fs st1) qs = (if \<exists>nm \<in> set names. prefix (package_dir (cwd_of o') nm) qs then None
          else view (np_fs st) qs)"
proof -
  let ?cwd = "cwd_of o'"
  let ?p = "?cwd @ ''/package.json''"
  obtain s1 where s1: "remove_all ?cwd names 0 (np_fs st) = (length names, s1)" "fs_wf s1"
     "view s1 = (\<lambda>qs. if \<exists>nm \<in> set names. prefix (package_dir ?cwd nm) qs then None else view (np_fs st) qs)"
    using remove_all_spec [OF _ assms(2,6), of 0] assms(1) by (auto simp: npm_wf_def)
  have wf: "npm_wf (st\<lparr>np_fs := s1\<rparr>)" using assms(1) s1(2) by (simp add: npm_wf_def)
  obtain j st1 where r: "read_pkg (nt_env nt) ?p (st\<lparr>np_fs := s1\<rparr>) = (j, st1)" by force
  have st1: "npm_wf st1" "view (np_fs st1) = view s1"
    using read_pkg_wf [OF wf, of "nt_env nt" ?p] read_pkg_view [OF wf, of "nt_env nt" ?p] r by simp_all
  have p: "comps ?p \<noteq> []"
    using comps_child [of "''package.json''" ?cwd] by (simp add: plain_name_def)
  let ?st2 = "case j of None \<Rightarrow> st1
     | Some pkg \<Rightarrow> (case drop_deps names pkg of (pkg1, dirty) \<Rightarrow> if dirty then snd (write_pkg nt ?p pkg1 st1) else st1)"
  have "npm_wf ?st2 \<and> view (np_fs ?st2) qs = view s1 qs"
    using st1 write_pkg_wf [OF st1(1)] write_pkg_view [OF st1(1) p assms(7)]
    by (auto split: option.split prod.split)
  moreover have "npmUninstall nt args o' st = Some (Inr (ok (''removed '' @ plural (length names) @ nl)), ?st2)"
    using assms(3-5) s1(1) r by (cases j) (simp_all add: npmUninstall_def Let_def cmd_ret_def)
  ultimately show ?thesis using s1(3) by (auto simp: npm_wf_def)
qed


definition no_tools :: npm_tools where
  "no_tools = \<lparr>nt_env = cyclic_env, nt_view = \<lambda>t nm. Inl [], nt_print = \<lambda>j. [], nt_shell = \<lambda>l c st. (ok [], st)\<rparr>"

definition workspace :: npm_options where
  "workspace = \<lparr>no_cwd = ''/w'', no_memfs = True\<rparr>"

definition two_packages :: npm_state where
  "two_packages = fresh_state\<lparr>np_fs := fs_run (\<lambda>_. 0) [OpMkdir ''/w/node_modules/a/lib'' True,
     OpMkdir ''/w/node_modules/b'' True, OpWriteFile ''/w/node_modules/a/lib/x'' [1], OpWriteFile ''/w/node_modules/b/y'' [2]]\<rparr>"

theorem uninstall_removes_exactly_witness:
  "\<exists>out st1. npmUninstall no_tools [''a'', ''--save''] workspace two_packages = Some (Inr (ok out), st1)
     \<and> view (np_fs st1) [''w'', ''node_modules'', ''a'', ''lib'', ''x''] = None"
proof -
  let ?ops = "[OpMkdir ''/w/node_modules/a/lib'' True,
     OpMkdir ''/w/node_modules/b'' True, OpWriteFile ''/w/node_modules/a/lib/x'' [1], OpWriteFile ''/w/node_modules/b/y'' [2]]"
  have "list_all op_named ?ops" by code_simp
  then have n: "names_ok (np_fs two_packages)"
    by (simp add: two_packages_def dirs_named_names_ok dirs_named_run)
  have wf: "npm_wf two_packages"
    by (simp add: npm_wf_def two_packages_def fresh_state_def cache_ok_def fs_wf_run)
  have names: "[''a''] = filter (\<lambda>a. \<not> is_flag a) [''a'', ''--save'']" by code_simp
  have dirs: "package_dir (cwd_of workspace) ''a'' = [''w'', ''node_modules'', ''a'']" by code_simp
  have pj: "[''w'', ''node_modules'', ''a'', ''lib'', ''x''] \<noteq> comps (cwd_of workspace @ ''/package.json'')" by code_simp
  show ?thesis
    using uninstall_removes_exactly [OF wf n _ names _ _ pj, of no_tools] dirs
    by (auto simp: workspace_def)
qed

section \<open>Every subcommand\<close>

definition cmd_keeps :: "bool \<Rightarrow> npm_cmd \<Rightarrow> bool" where
  "cmd_keeps T m \<longleftrightarrow> (\<forall>st. npm_wf st \<longrightarrow> (case m st of None \<Rightarrow> \<not> T | Some (r, st1) \<Rightarrow> npm_wf st1))"

definition shell_keeps :: "npm_tools \<Rightarrow> bool" where
  "shell_keeps nt \<longleftrightarrow> (\<forall>line cwd st. npm_wf st \<longrightarrow> npm_wf (snd (nt_shell nt line cwd st)))"

named_theorems npm_keeps \<comment> \<open>subcommands that keep the state well formed\<close>

lemma npm_keeps_ret [npm_keeps]: "cmd_keeps T (cmd_ret r)" "cmd_keeps T (refuse m)" "cmd_keeps T no_filesystem"
  by (simp_all add: cmd_keeps_def cmd_ret_def refuse_def no_filesystem_def)

lemma npm_keepsD: "cmd_keeps T m \<Longrightarrow> npm_wf st \<Longrightarrow> case m st of None \<Rightarrow> \<not> T | Some (r, st1) \<Rightarrow> npm_wf st1"
  by (simp add: cmd_keeps_def)

lemma keeps_in_shell [npm_keeps]: "shell_keeps nt \<Longrightarrow> cmd_keeps T (in_shell nt line cwd)"
  by (auto simp: cmd_keeps_def in_shell_def shell_keeps_def split: prod.splits) (metis snd_conv)

lemmas ret_run = cmd_ret_def refuse_def no_filesystem_def

lemma read_pkg_pair: "read_pkg env p st = (j, st1) \<Longrightarrow> npm_wf st \<Longrightarrow> npm_wf st1"
  using read_pkg_wf [of st env p] by simp

lemma write_pkg_pair: "write_pkg nt p j st = (r, st1) \<Longrightarrow> npm_wf st \<Longrightarrow> npm_wf st1"
  using write_pkg_wf [of st nt p j] by simp

lemma keeps_init [npm_keeps]: "cmd_keeps T (npmInit nt o')"
  by (auto simp: cmd_keeps_def npmInit_def ret_run Let_def dest: read_pkg_pair write_pkg_pair
      split: prod.splits sum.splits)

lemma keeps_root [npm_keeps]: "cmd_keeps T (npmRoot args o')"
  by (simp add: npmRoot_def npm_keeps)

lemma keeps_view [npm_keeps]: "cmd_keeps T (npmView nt args)"
  by (auto simp: cmd_keeps_def npmView_def ret_run Let_def split: list.splits sum.splits)

lemma keeps_throw [npm_keeps]: "cmd_keeps T (\<lambda>st. Some (Inl e, st))"
  by (simp add: cmd_keeps_def)

lemma keeps_exec [npm_keeps]:
  assumes "shell_keeps nt"
  shows "cmd_keeps T (npmExec nt args o')"
  unfolding cmd_keeps_def
proof (intro allI impI)
  fix st assume wf: "npm_wf st"
  have ex: "cmd_keeps T (exec_bin nt dir name rest cwd j)" for dir name rest cwd j
    by (auto simp: exec_bin_def npm_keeps assms split: option.split)
  show "case npmExec nt args o' st of None \<Rightarrow> \<not> T | Some (r, st1) \<Rightarrow> npm_wf st1"
  proof (cases args)
    case (Cons name rest)
    obtain j st1 where r: "read_pkg (nt_env nt) (cwd_of o' @ ''/node_modules/'' @ name @ ''/package.json'') st = (j, st1)" by force
    show ?thesis
      using npm_keepsD [OF ex read_pkg_pair [OF r wf]] wf r by (simp add: npmExec_def ret_run Let_def Cons)
  qed (auto simp: npmExec_def ret_run wf)
qed

lemma keeps_run_named: "shell_keeps nt \<Longrightarrow> cmd_keeps T (run_named nt pkg args cwd)"
proof -
  assume sh: "shell_keeps nt"
  have rs: "cmd_keeps T (run_script nt pkg name v extra cwd)" for name v extra
    using sh by (auto simp: cmd_keeps_def run_script_def shell_keeps_def Let_def split_beta)
  have "cmd_keeps T (missing_script nt name extra cwd)" for name extra
    by (simp add: missing_script_def npm_keeps sh)
  with rs show ?thesis
    by (cases args) (auto simp: run_named_def Let_def npm_keeps split: option.split)
qed

lemma keeps_run [npm_keeps]:
  assumes "shell_keeps nt"
  shows "cmd_keeps T (npmRun nt args o')"
  unfolding cmd_keeps_def
proof (intro allI impI)
  fix st assume wf: "npm_wf st"
  obtain j st1 where r: "read_pkg (nt_env nt) (cwd_of o' @ ''/package.json'') st = (j, st1)" by force
  have wf1: "npm_wf st1" by (rule read_pkg_pair [OF r wf])
  show "case npmRun nt args o' st of None \<Rightarrow> \<not> T | Some (r, st1) \<Rightarrow> npm_wf st1"
    using npm_keepsD [OF keeps_run_named [OF assms] wf1] wf wf1
    by (cases j) (simp_all add: npmRun_def ret_run r)
qed

lemma fs_wf_remove_all: "fs_wf s \<Longrightarrow> fs_wf (snd (remove_all cwd names n s))"
proof (induction names arbitrary: n s)
  case (Cons nm names)
  then show ?case
    using fs_wf_rmrf [OF Cons.prems, of "Suc (fs_inoCounter s)" "cwd @ ''/node_modules/'' @ nm"]
    by (cases "rmrf (Suc (fs_inoCounter s)) (cwd @ ''/node_modules/'' @ nm) s"; cases "fst (rmrf (Suc (fs_inoCounter s)) (cwd @ ''/node_modules/'' @ nm) s)")
       auto
qed simp

lemma keeps_uninstall [npm_keeps]: "cmd_keeps T (npmUninstall nt args o')"
  unfolding cmd_keeps_def
proof (intro allI impI)
  fix st assume wf: "npm_wf st"
  let ?names = "filter (\<lambda>a. \<not> is_flag a) args"
  obtain n s1 where s1: "remove_all (cwd_of o') ?names 0 (np_fs st) = (n, s1)" by force
  have wf1: "npm_wf (st\<lparr>np_fs := s1\<rparr>)"
    using wf s1 fs_wf_remove_all [of "np_fs st" "cwd_of o'" ?names 0] by (simp add: npm_wf_def)
  obtain j st1 where r: "read_pkg (nt_env nt) (cwd_of o' @ ''/package.json'') (st\<lparr>np_fs := s1\<rparr>) = (j, st1)" by force
  have "npm_wf st1" by (rule read_pkg_pair [OF r wf1])
  then show "case npmUninstall nt args o' st of None \<Rightarrow> \<not> T | Some (r, st1) \<Rightarrow> npm_wf st1"
    using wf s1 r by (auto simp: npmUninstall_def ret_run Let_def write_pkg_wf split: option.split prod.split)
qed

lemma list_lines_wf: "npm_wf st \<Longrightarrow> npm_wf (snd (list_lines env dir es st))"
proof (induction es arbitrary: st)
  case (Cons e es)
  then show ?case
    using read_pkg_wf [OF Cons.prems, of env "dir @ slash # e @ ''/package.json''"]
    by (auto simp: split_beta Let_def)
qed simp

lemma keeps_list [npm_keeps]: "cmd_keeps T (npmList nt o')"
  unfolding cmd_keeps_def
proof (intro allI impI)
  fix st assume wf: "npm_wf st"
  let ?dir = "cwd_of o' @ ''/node_modules''"
  obtain j st1 where r: "read_pkg (nt_env nt) (cwd_of o' @ ''/package.json'') st = (j, st1)" by force
  have wf1: "npm_wf st1" by (rule read_pkg_pair [OF r wf])
  obtain x s2 where d: "readdir ?dir (np_fs st1) = (x, s2)" by force
  have wf2: "npm_wf (st1\<lparr>np_fs := s2\<rparr>)" using fs_wf_readdir [of "np_fs st1" ?dir] wf1 d by (simp add: npm_wf_def)
  have "list_lines env ?dir es (st1\<lparr>np_fs := s2\<rparr>) = (ls, st3) \<Longrightarrow> npm_wf st3" for env es ls st3
    using list_lines_wf [OF wf2, of env ?dir es] by simp
  then show "case npmList nt o' st of None \<Rightarrow> \<not> T | Some (r, st1) \<Rightarrow> npm_wf st1"
    using wf wf2 r d by (auto simp: npmList_def ret_run Let_def split: sum.split prod.split)
qed

lemma install_all_wf:
  "npm_wf st \<Longrightarrow> case install_all env cwd specs n ls st of None \<Rightarrow> \<not> tarballs_read env | Some (b, m, ls', st1) \<Rightarrow> npm_wf st1"
proof (induction specs arbitrary: n ls st)
  case (Cons sp specs)
  let ?i = "installPackage env (sp_name sp) (sp_range sp) cwd (st\<lparr>np_lines := []\<rparr>)"
  have "npm_inv (cwd @ ''/node_modules'') (st\<lparr>np_lines := []\<rparr>)" using Cons.prems by (simp add: npm_inv_def npm_wf_def)
  moreover have "safe (tarballs_read env) (npm_inv (cwd @ ''/node_modules'')) (installPackage env (sp_name sp) (sp_range sp) cwd)"
    unfolding installPackage_def by (rule safe_install_at) simp
  ultimately have "case ?i of None \<Rightarrow> \<not> tarballs_read env | Some (r, st1) \<Rightarrow> npm_wf st1"
    unfolding safe_def by (fastforce simp: npm_inv_def npm_wf_def split: option.splits)
  note i = this
  show ?case
  proof (cases ?i)
    case None
    then show ?thesis using i by simp
  next
    case (Some rs)
    obtain r st1 where rs: "rs = (r, st1)" by force
    have "npm_wf st1" using i Some rs by simp
    then show ?thesis using Some rs Cons.IH [of st1] by (cases r) simp_all
  qed
qed simp

lemma record_all_wf: "npm_wf st \<Longrightarrow> npm_wf (snd (record_all env cwd specs pkg st))"
proof (induction specs arbitrary: pkg st)
  case (Cons sp specs)
  then show ?case
    using read_pkg_wf [OF Cons.prems, of env "cwd @ ''/node_modules/'' @ sp_name sp @ ''/package.json''"]
    by (auto simp: split_beta)
qed simp

lemma update_pkg_wf: "npm_wf st \<Longrightarrow> npm_wf (update_pkg nt cwd specs st)"
  using read_pkg_wf [of st "nt_env nt" "cwd @ ''/package.json''"]
  by (auto simp: update_pkg_def Let_def split_beta intro!: write_pkg_wf record_all_wf)

lemma keeps_install_names:
  assumes "T \<longrightarrow> tarballs_read (nt_env nt)"
  shows "cmd_keeps T (install_names nt names cwd)"
  unfolding cmd_keeps_def
proof (intro allI impI)
  fix st assume "npm_wf st"
  then have "npm_wf (st\<lparr>np_installed := []\<rparr>)" by simp
  from install_all_wf [OF this, of "nt_env nt" cwd "map parse_spec names" 0 "[]"] assms
  show "case install_names nt names cwd st of None \<Rightarrow> \<not> T | Some (r, st1) \<Rightarrow> npm_wf st1"
    by (auto simp: install_names_def Let_def update_pkg_wf split: option.splits prod.splits)
qed

lemma keeps_install [npm_keeps]:
  assumes "T \<longrightarrow> tarballs_read (nt_env nt)"
  shows "cmd_keeps T (npmInstall nt args o')"
  unfolding cmd_keeps_def
proof (intro allI impI)
  fix st assume wf: "npm_wf st"
  obtain j st1 where r: "read_pkg (nt_env nt) (cwd_of o' @ ''/package.json'') st = (j, st1)" by force
  have wf1: "npm_wf st1" by (rule read_pkg_pair [OF r wf])
  show "case npmInstall nt args o' st of None \<Rightarrow> \<not> T | Some (r, st1) \<Rightarrow> npm_wf st1"
    using npm_keepsD [OF keeps_install_names [OF assms] wf] npm_keepsD [OF keeps_install_names [OF assms] wf1] wf wf1
    by (cases j) (simp_all add: npmInstall_def ret_run up_to_date_def Let_def r)
qed

text \<open>
  Every subcommand, with any arguments, leaves a well formed file system and cache behind when
  the shell does; and every one returns, as long as the archives can be read to their end.
\<close>

theorem npm_keeps_state:
  assumes "npm_wf st" "shell_keeps nt"
  shows "case npm nt args o' st of None \<Rightarrow> \<not> tarballs_read (nt_env nt) | Some (r, st1) \<Rightarrow> npm_wf st1"
proof -
  have "cmd_keeps (tarballs_read (nt_env nt)) (npm nt args o')"
    using assms(2) by (auto simp: npm_def Let_def intro!: npm_keeps)
  then show ?thesis using assms(1) by (rule npm_keepsD)
qed


theorem npm_keeps_state_witness:
  "npm no_tools [''i'', ''a''] workspace fresh_state \<noteq> None"
proof -
  have "npm_wf fresh_state" by (simp add: npm_wf_def fresh_state_def cache_ok_def)
  moreover have "shell_keeps no_tools" by (simp add: shell_keeps_def no_tools_def)
  moreover have "tarballs_read (nt_env no_tools)"
    using parse_stop [of "[]" 0 "[]"] by (simp add: tarballs_read_def no_tools_def cyclic_env_def parseTar_def)
  ultimately show ?thesis
    using npm_keeps_state [of fresh_state no_tools "[''i'', ''a'']" workspace]
    by (cases "npm no_tools [''i'', ''a''] workspace fresh_state") simp_all
qed

section \<open>What goes wrong\<close>

text \<open>
  \<open>_rmrfMemfs\<close> returns when there is nothing to remove, so \<open>npm uninstall\<close> counts packages that
  were never installed.
\<close>

lemma uninstall_counts_missing:
  "fst (remove_all ''/w'' [''nothing''] 0 (new_memfs (\<lambda>_. 0))) = 1"
proof -
  have "names_ok (new_memfs (\<lambda>_. 0))"
    using dirs_named_names_ok [OF dirs_named_run [of "[]" "\<lambda>_. 0"]] by (simp add: fs_run_def)
  moreover have "package_dir ''/w'' ''nothing'' \<noteq> []" by code_simp
  ultimately show ?thesis using remove_all_spec [of "new_memfs (\<lambda>_. 0)" "[''nothing'']" "''/w''" 0] by auto
qed

text \<open>A package called \<open>..\<close> is the project itself.\<close>

lemma uninstall_parent: "package_dir ''/w/project'' ''..'' = [''w'', ''project'']"
  by code_simp

text \<open>
  A package that was tried before in the same run counts as installed, also when it failed: as a
  later argument it is reported with the version \<open>cached\<close>.
\<close>

lemma failed_reported_cached:
  "base @ ''/node_modules'' @ slash # nm \<in> set (np_installed st) \<Longrightarrow>
   installPackage env nm rg base st = Some (Inr (installed_as nm ''cached'' 0), st)"
proof -
  assume "base @ ''/node_modules'' @ slash # nm \<in> set (np_installed st)"
  then have "install_step env base deeper nm rg st = Some (Inr (installed_as nm ''cached'' 0), st)" for deeper
    by (simp add: install_step_def)
  then have "install_at env base k nm rg st = Some (Inr (installed_as nm ''cached'' 0), st)" for k
    by (cases k) simp_all
  then show ?thesis by (simp add: installPackage_def)
qed

text \<open>
  The dependencies of \<open>package.json\<close> go through the notation of the command line, which is taken
  apart at its last \<open>@\<close>: an alias becomes another package.
\<close>

lemma alias_misread:
  "parse_spec (dep_name env (''x'', JStr ''npm:y@1.0.0'')) = \<lparr>sp_name = ''x@npm:y'', sp_range = ''1.0.0''\<rparr>"
  if "ne_text env (JStr ''npm:y@1.0.0'') = ''npm:y@1.0.0''"
  using that by (simp add: dep_name_def parse_spec_def)

end
