(* ===== verification/Events.thy ===== *)
theory Events
  imports Prelude
begin

text \<open>
  The class \<open>EventEmitter\<close> of \<open>napi-bridge/eventemitter.js\<close>.

  \<open>_events\<close> maps an event to an array of listeners that \<open>on\<close>, \<open>removeListener\<close> and
  \<open>removeAllListeners\<close> change in place, and a listener may register and remove listeners, emit and
  throw while one of these operations is still running. The arrays therefore live in a store and
  \<open>_events\<close> holds their addresses. Every operation takes the function that calls a listener as an
  argument; \<open>call\<close> ties the knot, with the depth of the engine's stack as its bound. What a
  listener does is a parameter \<open>beh\<close>: the operations it performs on the emitter, and how it returns.

  Event names are strings or symbols. A wrapper made by \<open>once\<close> has an identity, the event it was
  made for, and the function it wraps (its \<open>listener\<close> property).
\<close>

section \<open>Values, listeners and the state\<close>

datatype ev = Name string | Sym string

datatype handler =
    Fn nat \<comment> \<open>a function of the program\<close>
  | Once nat ev handler \<comment> \<open>a wrapper: identity, event, wrapped function\<close>

datatype val = VFn handler | VEv ev | VErr string | VUndef

fun listener_of :: "handler \<Rightarrow> handler option" where
  "listener_of (Fn n) = None"
| "listener_of (Once i e h) = Some h"

text \<open>\<open>fn.listener || fn\<close>\<close>

definition original :: "handler \<Rightarrow> handler" where
  "original h = (case listener_of h of None \<Rightarrow> h | Some g \<Rightarrow> g)"

datatype number = Limit int | Infinite | NaN | NotANumber

record listener_array =
  la_items :: "handler list"
  la_warned :: bool

text \<open>
  \<open>called\<close> is the history of the calls of listeners, each with the stack that was left,
  \<open>warnings\<close> what reached \<open>console.warn\<close>, \<open>rejections\<close> the reactions registered on promises that
  listeners returned.
\<close>

record emitter =
  events :: "(ev \<times> nat) list"
  arrays :: "listener_array list"
  maxListeners :: number
  next_wrapper :: nat
  captureRejections :: bool
  rejectionHandler :: "handler option"
  rejections :: "(ev \<times> val list \<times> val) list"
  warnings :: "(ev \<times> nat) list"
  called :: "(nat \<times> handler \<times> val list) list"

definition DEFAULT_MAX_LISTENERS :: number where
  "DEFAULT_MAX_LISTENERS = Limit 10"

definition new_emitter :: emitter where
  "new_emitter = \<lparr>events = [], arrays = [], maxListeners = DEFAULT_MAX_LISTENERS, next_wrapper = 0,
     captureRejections = False, rejectionHandler = None, rejections = [], warnings = [], called = []\<rparr>"

definition errorMonitor :: ev where
  "errorMonitor = Sym ''events.errorMonitor''"

section \<open>Operations that may throw\<close>

type_synonym 'a em = "emitter \<Rightarrow> (val + 'a) \<times> emitter"

definition return :: "'a \<Rightarrow> 'a em" where
  "return x s = (Inr x, s)"

definition throw :: "val \<Rightarrow> 'a em" where
  "throw e s = (Inl e, s)"

definition andThen :: "'a em \<Rightarrow> ('a \<Rightarrow> 'b em) \<Rightarrow> 'b em" where
  "andThen m f s = (case m s of (Inl e, t) \<Rightarrow> (Inl e, t) | (Inr x, t) \<Rightarrow> f x t)"

lemma andThen_eqs:
  "m s = (Inl e, t) \<Longrightarrow> andThen m f s = (Inl e, t)"
  "m s = (Inr x, t) \<Longrightarrow> andThen m f s = f x t"
  by (simp_all add: andThen_def)

definition reading :: "(emitter \<Rightarrow> 'a em) \<Rightarrow> 'a em" where
  "reading f s = f s s"

definition update :: "(emitter \<Rightarrow> emitter) \<Rightarrow> unit em" where
  "update f s = (Inr (), f s)"

definition whenever :: "bool \<Rightarrow> unit em \<Rightarrow> unit em" where
  "whenever b m = (if b then m else return ())"

fun each :: "('a \<Rightarrow> unit em) \<Rightarrow> 'a list \<Rightarrow> unit em" where
  "each f [] = return ()"
| "each f (x # xs) = andThen (f x) (\<lambda>_. each f xs)"

section \<open>The arrays\<close>

definition address :: "emitter \<Rightarrow> ev \<Rightarrow> nat option" where
  "address s e = map_of (events s) e"

definition has_event :: "emitter \<Rightarrow> string \<Rightarrow> bool" where
  "has_event s n \<longleftrightarrow> address s (Name n) \<noteq> None"

definition items :: "emitter \<Rightarrow> nat \<Rightarrow> handler list" where
  "items s a = la_items (arrays s ! a)"

definition set_items :: "nat \<Rightarrow> handler list \<Rightarrow> emitter \<Rightarrow> emitter" where
  "set_items a hs s = s\<lparr>arrays := (arrays s)[a := (arrays s ! a)\<lparr>la_items := hs\<rparr>]\<rparr>"

definition set_warned :: "nat \<Rightarrow> emitter \<Rightarrow> emitter" where
  "set_warned a s = s\<lparr>arrays := (arrays s)[a := (arrays s ! a)\<lparr>la_warned := True\<rparr>]\<rparr>"

definition new_array :: "ev \<Rightarrow> handler \<Rightarrow> emitter \<Rightarrow> emitter" where
  "new_array e h s =
     s\<lparr>events := AList.update e (length (arrays s)) (events s),
       arrays := arrays s @ [\<lparr>la_items = [h], la_warned = False\<rparr>]\<rparr>"

definition delete_event :: "ev \<Rightarrow> emitter \<Rightarrow> emitter" where
  "delete_event e s = s\<lparr>events := AList.delete e (events s)\<rparr>"

definition warn :: "ev \<Rightarrow> nat \<Rightarrow> emitter \<Rightarrow> emitter" where
  "warn e n s = s\<lparr>warnings := warnings s @ [(e, n)]\<rparr>"

definition exceeds :: "nat \<Rightarrow> number \<Rightarrow> bool" where
  "exceeds n m = (case m of Limit i \<Rightarrow> 0 < i \<and> i < int n | _ \<Rightarrow> False)"

section \<open>emit\<close>

text \<open>How a listener returns: with a value that is no promise, or with a promise that rejects.\<close>

datatype outcome = Returned | Rejecting val

type_synonym caller = "handler \<Rightarrow> val list \<Rightarrow> outcome em"

definition note_result :: "ev \<Rightarrow> val list \<Rightarrow> outcome \<Rightarrow> unit em" where
  "note_result e args r =
     (case r of
        Returned \<Rightarrow> return ()
      | Rejecting v \<Rightarrow>
          update (\<lambda>s. if captureRejections s then s\<lparr>rejections := rejections s @ [(e, args, v)]\<rparr> else s))"

definition listeners_now :: "emitter \<Rightarrow> ev \<Rightarrow> handler list" where
  "listeners_now s e = (case address s e of None \<Rightarrow> [] | Some a \<Rightarrow> items s a)"

definition unhandled :: "val list \<Rightarrow> val" where
  "unhandled args = (case args of VErr m # _ \<Rightarrow> VErr m | _ \<Rightarrow> VErr ''Unhandled error event'')"

definition emit_event :: "caller \<Rightarrow> ev \<Rightarrow> val list \<Rightarrow> bool em" where
  "emit_event c e args =
     andThen (if e = Name ''error''
              then reading (\<lambda>s. each (\<lambda>h. andThen (c h args) (\<lambda>_. return ())) (listeners_now s errorMonitor))
              else return ())
       (\<lambda>_. reading (\<lambda>s.
          if e = Name ''error'' \<and> address s e = None then throw (unhandled args)
          else (case address s e of
                  None \<Rightarrow> return False
                | Some a \<Rightarrow>
                    andThen (each (\<lambda>h. andThen (c h args) (note_result e args)) (items s a))
                      (\<lambda>_. return True))))"

definition emitting :: "caller \<Rightarrow> string \<Rightarrow> val list \<Rightarrow> unit em" where
  "emitting c n args = andThen (emit_event c (Name n) args) (\<lambda>_. return ())"

section \<open>Registration\<close>

definition type_error :: val where
  "type_error = VErr ''TypeError''"

definition announce :: "caller \<Rightarrow> ev \<Rightarrow> handler \<Rightarrow> unit em" where
  "announce c e h =
     reading (\<lambda>s. whenever (has_event s ''newListener'') (emitting c ''newListener'' [VEv e, VFn (original h)]))"

definition push :: "ev \<Rightarrow> nat \<Rightarrow> handler \<Rightarrow> emitter \<Rightarrow> emitter" where
  "push e a h s =
     (let t = set_items a (items s a @ [h]) s; n = length (items t a)
      in if exceeds n (maxListeners t) \<and> \<not> la_warned (arrays t ! a) then warn e n (set_warned a t) else t)"

definition on :: "caller \<Rightarrow> ev \<Rightarrow> val \<Rightarrow> unit em" where
  "on c e v =
     (case v of
        VFn h \<Rightarrow>
          andThen (announce c e h)
            (\<lambda>_. update (\<lambda>s. case address s e of None \<Rightarrow> new_array e h s | Some a \<Rightarrow> push e a h s))
      | _ \<Rightarrow> throw type_error)"

definition prependListener :: "caller \<Rightarrow> ev \<Rightarrow> val \<Rightarrow> unit em" where
  "prependListener c e v =
     (case v of
        VFn h \<Rightarrow>
          andThen (announce c e h)
            (\<lambda>_. update (\<lambda>s. case address s e of
                 None \<Rightarrow> new_array e h s
               | Some a \<Rightarrow> set_items a (h # items s a) s))
      | _ \<Rightarrow> throw type_error)"

text \<open>The wrapper is a fresh function object.\<close>

definition with_wrapper :: "ev \<Rightarrow> val \<Rightarrow> (val \<Rightarrow> unit em) \<Rightarrow> unit em" where
  "with_wrapper e v f =
     (case v of
        VFn h \<Rightarrow>
          reading (\<lambda>s. andThen (update (\<lambda>t. t\<lparr>next_wrapper := Suc (next_wrapper t)\<rparr>))
            (\<lambda>_. f (VFn (Once (next_wrapper s) e h))))
      | _ \<Rightarrow> throw type_error)"

definition once :: "caller \<Rightarrow> ev \<Rightarrow> val \<Rightarrow> unit em" where
  "once c e v = with_wrapper e v (on c e)"

definition prependOnceListener :: "caller \<Rightarrow> ev \<Rightarrow> val \<Rightarrow> unit em" where
  "prependOnceListener c e v = with_wrapper e v (prependListener c e)"

section \<open>Removal\<close>

text \<open>\<open>listeners[i] === fn || listeners[i].listener === fn\<close>\<close>

definition is_listener :: "val \<Rightarrow> handler \<Rightarrow> bool" where
  "is_listener v h =
     (case v of
        VFn g \<Rightarrow> h = g \<or> listener_of h = Some g
      | VUndef \<Rightarrow> listener_of h = None
      | _ \<Rightarrow> False)"

fun last_match :: "('a \<Rightarrow> bool) \<Rightarrow> 'a list \<Rightarrow> nat option" where
  "last_match p [] = None"
| "last_match p (x # xs) =
     (case last_match p xs of Some i \<Rightarrow> Some (Suc i) | None \<Rightarrow> if p x then Some 0 else None)"

definition splice1 :: "nat \<Rightarrow> 'a list \<Rightarrow> 'a list" where
  "splice1 i xs = take i xs @ drop (Suc i) xs"

definition removeListener :: "caller \<Rightarrow> ev \<Rightarrow> val \<Rightarrow> unit em" where
  "removeListener c e v =
     reading (\<lambda>s. case address s e of
         None \<Rightarrow> return ()
       | Some a \<Rightarrow>
           andThen
             (case last_match (is_listener v) (items s a) of
                None \<Rightarrow> return ()
              | Some i \<Rightarrow>
                  andThen (update (set_items a (splice1 i (items s a))))
                    (\<lambda>_. reading (\<lambda>t. whenever (has_event t ''removeListener'')
                                         (emitting c ''removeListener'' [VEv e, v]))))
             (\<lambda>_. update (\<lambda>t. if items t a = [] then delete_event e t else t)))"

text \<open>
  The loop from the last position down to the first reads the array again each time; a position
  beyond its end reads \<open>undefined\<close>, and its property \<open>listener\<close> throws.
\<close>

definition remove_at :: "caller \<Rightarrow> ev \<Rightarrow> nat \<Rightarrow> nat \<Rightarrow> unit em" where
  "remove_at c e a i =
     reading (\<lambda>s. if i < length (items s a) then removeListener c e (VFn (original (items s a ! i)))
                   else throw type_error)"

definition removeAllListenersOf :: "caller \<Rightarrow> ev \<Rightarrow> unit em" where
  "removeAllListenersOf c e =
     reading (\<lambda>s. case address s e of
         None \<Rightarrow> return ()
       | Some a \<Rightarrow>
           if has_event s ''removeListener'' then each (remove_at c e a) (rev [0..<length (items s a)])
           else update (delete_event e))"

text \<open>\<open>Reflect.ownKeys\<close>: the names in the order of insertion, then the symbols (names that are array indices left out).\<close>

definition is_name :: "ev \<Rightarrow> bool" where
  "is_name e = (case e of Name _ \<Rightarrow> True | Sym _ \<Rightarrow> False)"

definition eventNames :: "emitter \<Rightarrow> ev list" where
  "eventNames s = filter is_name (map fst (events s)) @ filter (\<lambda>e. \<not> is_name e) (map fst (events s))"

definition removeAllListeners :: "caller \<Rightarrow> unit em" where
  "removeAllListeners c =
     reading (\<lambda>s.
       if has_event s ''removeListener''
       then andThen (each (removeAllListenersOf c) (filter (\<lambda>e. e \<noteq> Name ''removeListener'') (eventNames s)))
              (\<lambda>_. removeAllListenersOf c (Name ''removeListener''))
       else update (\<lambda>t. t\<lparr>events := []\<rparr>))"

section \<open>Queries and the limit\<close>

definition listenerCount :: "emitter \<Rightarrow> ev \<Rightarrow> nat" where
  "listenerCount s e = length (listeners_now s e)"

definition listeners :: "emitter \<Rightarrow> ev \<Rightarrow> handler list" where
  "listeners s e = map original (listeners_now s e)"

definition rawListeners :: "emitter \<Rightarrow> ev \<Rightarrow> handler list" where
  "rawListeners s e = listeners_now s e"

definition setMaxListeners :: "number \<Rightarrow> unit em" where
  "setMaxListeners n =
     (case n of
        NotANumber \<Rightarrow> throw (VErr ''RangeError'')
      | NaN \<Rightarrow> throw (VErr ''RangeError'')
      | Limit i \<Rightarrow> if i < 0 then throw (VErr ''RangeError'') else update (\<lambda>s. s\<lparr>maxListeners := n\<rparr>)
      | Infinite \<Rightarrow> update (\<lambda>s. s\<lparr>maxListeners := n\<rparr>))"

section \<open>Listeners at work\<close>

datatype action =
    On ev val | Prepend ev val | AddOnce ev val | PrependOnce ev val
  | Off ev val | RemoveAllOf ev | RemoveAll | Emit ev "val list" | SetMax number | Throw val

fun perform :: "caller \<Rightarrow> action \<Rightarrow> unit em" where
  "perform c (On e v) = on c e v"
| "perform c (Prepend e v) = prependListener c e v"
| "perform c (AddOnce e v) = once c e v"
| "perform c (PrependOnce e v) = prependOnceListener c e v"
| "perform c (Off e v) = removeListener c e v"
| "perform c (RemoveAllOf e) = removeAllListenersOf c e"
| "perform c RemoveAll = removeAllListeners c"
| "perform c (Emit e args) = andThen (emit_event c e args) (\<lambda>_. return ())"
| "perform c (SetMax n) = setMaxListeners n"
| "perform c (Throw v) = throw v"

text \<open>What a function of the program does when it is called in a state with arguments.\<close>

type_synonym behaviour = "nat \<Rightarrow> val list \<Rightarrow> emitter \<Rightarrow> action list \<times> outcome"

definition stack_overflow :: val where
  "stack_overflow = VErr ''RangeError''"

definition record_call :: "nat \<Rightarrow> handler \<Rightarrow> val list \<Rightarrow> unit em" where
  "record_call k h args = update (\<lambda>s. s\<lparr>called := called s @ [(k, h, args)]\<rparr>)"

text \<open>A wrapper removes itself, calls what it wraps and returns nothing.\<close>

definition handle :: "behaviour \<Rightarrow> caller \<Rightarrow> caller" where
  "handle beh c h args =
     (case h of
        Fn n \<Rightarrow> reading (\<lambda>s. andThen (each (perform c) (fst (beh n args s))) (\<lambda>_. return (snd (beh n args s))))
      | Once i e g \<Rightarrow> andThen (removeListener c e (VFn h)) (\<lambda>_. andThen (c g args) (\<lambda>_. return Returned)))"

fun call :: "behaviour \<Rightarrow> nat \<Rightarrow> caller" where
  "call beh 0 h args = throw stack_overflow"
| "call beh (Suc k) h args = andThen (record_call k h args) (\<lambda>_. handle beh (call beh k) h args)"

declare call.simps(2) [simp del]

text \<open>
  The reaction to a rejected promise: the handler under the symbol \<open>nodejs.rejection\<close>, or an
  \<open>error\<close> event while capturing is switched off.
\<close>

definition restoring_capture :: "unit em \<Rightarrow> unit em" where
  "restoring_capture m s =
     (let (r, t) = m (s\<lparr>captureRejections := False\<rparr>) in (r, t\<lparr>captureRejections := captureRejections s\<rparr>))"

definition react :: "caller \<Rightarrow> ev \<times> val list \<times> val \<Rightarrow> unit em" where
  "react c r =
     (case r of (e, args, v) \<Rightarrow>
        reading (\<lambda>s. case rejectionHandler s of
            Some h \<Rightarrow> andThen (c h (v # VEv e # args)) (\<lambda>_. return ())
          | None \<Rightarrow> restoring_capture (emitting c ''error'' [v])))"

definition run_rejection :: "caller \<Rightarrow> unit em" where
  "run_rejection c =
     reading (\<lambda>s. case rejections s of
         [] \<Rightarrow> return ()
       | r # rs \<Rightarrow> andThen (update (\<lambda>t. t\<lparr>rejections := rs\<rparr>)) (\<lambda>_. react c r))"

text \<open>A program's operations on a new emitter; what it throws, the program catches.\<close>

definition after :: "behaviour \<Rightarrow> nat \<Rightarrow> action list \<Rightarrow> emitter" where
  "after beh k acts = foldl (\<lambda>s a. snd (perform (call beh k) a s)) new_emitter acts"

end
