(* ===== verification/Events_Props.thy ===== *)
theory Events_Props
  imports Events "HOL-Library.Sublist"
begin

text \<open>
  What the emitter guarantees whatever its listeners do: the store of listener arrays stays well
  formed, and an emission calls exactly the listeners that were registered when it began, in order.
  One interface states what a relation between states must satisfy to hold across every operation;
  it is provided by the relations the two results need.
\<close>

section \<open>Relations that hold across the operations\<close>

definition obeys :: "(emitter \<Rightarrow> emitter \<Rightarrow> bool) \<Rightarrow> 'a em \<Rightarrow> bool" where
  "obeys R m \<longleftrightarrow> (\<forall>s. R s (snd (m s)))"

lemma obeysD: "obeys R m \<Longrightarrow> m s = (r, t) \<Longrightarrow> R s t"
  by (metis obeys_def snd_conv)

text \<open>A client of the emitter's operations: a relation and the function that calls listeners.\<close>

locale listener_relation =
  fixes R :: "emitter \<Rightarrow> emitter \<Rightarrow> bool" and c :: caller
  assumes R_refl: "R s s"
    and R_trans: "R s t \<Longrightarrow> R t u \<Longrightarrow> R s u"
    and R_call: "obeys R (c h args)"
    and R_items: "R s (set_items a hs s)"
    and R_warned: "R s (set_warned a s)"
    and R_warn: "R s (warn e n s)"
    and R_new: "R s (new_array e h s)"
    and R_delete: "R s (delete_event e s)"
    and R_fields: "R s (s\<lparr>events := []\<rparr>)" "R s (s\<lparr>next_wrapper := i\<rparr>)" "R s (s\<lparr>maxListeners := m\<rparr>)"
      "R s (s\<lparr>rejections := rs\<rparr>)"
begin

lemma obeys_return: "obeys R (return x)" "obeys R (throw v)"
  by (simp_all add: obeys_def return_def throw_def R_refl)

lemma obeys_andThen:
  assumes "obeys R m" "\<And>x. obeys R (f x)"
  shows "obeys R (andThen m f)"
  unfolding obeys_def
proof
  fix s :: emitter
  obtain r t where m: "m s = (r, t)" by (cases "m s")
  have "R s t" by (rule obeysD [OF assms(1) m])
  moreover have "R t (snd (f x t))" for x using assms(2) by (simp add: obeys_def)
  ultimately show "R s (snd (andThen m f s))"
    by (cases r) (auto simp: andThen_def m intro: R_trans)
qed

lemma obeys_reading: "(\<And>s. obeys R (f s)) \<Longrightarrow> obeys R (reading f)"
  by (simp add: obeys_def reading_def)

lemma obeys_update: "(\<And>s. R s (f s)) \<Longrightarrow> obeys R (update f)"
  by (simp add: obeys_def update_def)

lemma obeys_whenever: "obeys R m \<Longrightarrow> obeys R (whenever b m)"
  by (simp add: whenever_def obeys_return)

lemma obeys_each: "(\<And>x. obeys R (f x)) \<Longrightarrow> obeys R (each f xs)"
  by (induction xs) (auto intro: obeys_return obeys_andThen)

lemma obeys_if: "obeys R m \<Longrightarrow> obeys R n \<Longrightarrow> obeys R (if b then m else n)"
  by simp

lemma obeys_case:
  "obeys R n \<Longrightarrow> (\<And>y. obeys R (m y)) \<Longrightarrow> obeys R (case x of None \<Rightarrow> n | Some y \<Rightarrow> m y)"
  by (cases x) auto

lemmas obeys_rules = obeys_return obeys_andThen obeys_reading obeys_whenever obeys_each obeys_if obeys_case R_call

lemma emit_obeys: "obeys R (emit_event c e args)"
proof -
  have "obeys R (note_result e args r)" for r
    by (cases r) (auto simp: note_result_def R_refl R_fields intro!: obeys_return obeys_update)
  then show ?thesis unfolding emit_event_def by (intro obeys_rules)
qed

lemma emitting_obeys: "obeys R (emitting c n args)"
  unfolding emitting_def by (intro obeys_rules emit_obeys)

lemma announce_obeys: "obeys R (announce c e h)"
  unfolding announce_def by (intro obeys_rules emitting_obeys)

lemma push_R: "R s (push e a h s)"
  using R_items R_trans [OF R_items R_trans [OF R_warned R_warn]] by (simp add: push_def Let_def)

lemma on_obeys: "obeys R (on c e v)"
proof (cases v)
  case (VFn h)
  have "R s (case address s e of None \<Rightarrow> new_array e h s | Some a \<Rightarrow> push e a h s)" for s
    by (cases "address s e") (auto simp: R_new push_R)
  then show ?thesis unfolding on_def VFn val.case by (intro obeys_rules announce_obeys obeys_update)
qed (simp_all add: on_def obeys_return)

lemma prepend_obeys: "obeys R (prependListener c e v)"
proof (cases v)
  case (VFn h)
  have "R s (case address s e of None \<Rightarrow> new_array e h s | Some a \<Rightarrow> set_items a (h # items s a) s)" for s
    by (cases "address s e") (auto simp: R_new R_items)
  then show ?thesis
    unfolding prependListener_def VFn val.case by (intro obeys_rules announce_obeys obeys_update)
qed (simp_all add: prependListener_def obeys_return)

lemma wrapper_obeys: "(\<And>w. obeys R (f w)) \<Longrightarrow> obeys R (with_wrapper e v f)"
  unfolding with_wrapper_def
  by (cases v) (auto intro!: obeys_rules obeys_update simp: R_fields)

lemma remove_obeys: "obeys R (removeListener c e v)"
proof -
  have "R t (if items t a = [] then delete_event e t else t)" for t a by (simp add: R_refl R_delete)
  then show ?thesis unfolding removeListener_def
    by (intro obeys_rules obeys_update emitting_obeys R_items)
qed

lemma remove_all_obeys: "obeys R (removeAllListenersOf c e)" "obeys R (removeAllListeners c)"
proof -
  show of: "obeys R (removeAllListenersOf c e)" for e
    unfolding removeAllListenersOf_def remove_at_def
    by (intro obeys_rules obeys_update remove_obeys R_delete)
  show "obeys R (removeAllListeners c)"
    unfolding removeAllListeners_def by (intro obeys_rules obeys_update of R_fields)
qed

lemma perform_obeys: "obeys R (perform c a)"
proof (cases a)
  case (SetMax n)
  show ?thesis unfolding SetMax
    by (cases n) (auto simp: setMaxListeners_def intro!: obeys_rules obeys_update R_fields)
qed (auto simp: once_def prependOnceListener_def
      intro!: on_obeys prepend_obeys wrapper_obeys remove_obeys remove_all_obeys emit_obeys obeys_return obeys_andThen)

lemma handle_obeys: "obeys R (handle beh c h args)"
  by (cases h) (auto simp: handle_def intro!: obeys_rules perform_obeys remove_obeys)

end

section \<open>The store is well formed\<close>

definition wf_emitter :: "emitter \<Rightarrow> bool" where
  "wf_emitter s \<longleftrightarrow> distinct (map fst (events s)) \<and> distinct (map snd (events s))
     \<and> list_all (\<lambda>a. a < length (arrays s)) (map snd (events s))"

definition wf_rel :: "emitter \<Rightarrow> emitter \<Rightarrow> bool" where
  "wf_rel s t \<longleftrightarrow> (wf_emitter s \<longrightarrow> wf_emitter t)"

lemma distinct_snd_update:
  assumes "distinct (map snd m)" "v \<notin> set (map snd m)"
  shows "distinct (map snd (AList.update k v m))"
  using assms
proof (induction m)
  case (Cons p m)
  then show ?case
    using values_update_subset [of k v m] by (cases p) (auto simp: image_iff)
qed simp

lemma distinct_snd_delete: "distinct (map snd m) \<Longrightarrow> distinct (map snd (AList.delete k m))"
  by (simp add: AList.delete_eq distinct_map_filter)

lemma wf_new_array: "wf_emitter s \<Longrightarrow> wf_emitter (new_array e h s)"
proof -
  assume wf: "wf_emitter s"
  have "length (arrays s) \<notin> set (map snd (events s))"
    using wf by (auto simp: wf_emitter_def list_all_iff)
  moreover have "x < Suc (length (arrays s))" if "x \<in> snd ` set (AList.update e (length (arrays s)) (events s))" for x
    using that values_update_subset [of e "length (arrays s)" "events s"] wf
    by (force simp: wf_emitter_def list_all_iff)
  ultimately show ?thesis
    using wf by (auto simp: wf_emitter_def new_array_def list_all_iff distinct_snd_update distinct_update)
qed

lemma set_delete_mem: "p \<in> set (AList.delete k m) \<Longrightarrow> p \<in> set m"
  by (simp add: AList.delete_eq)

lemma wf_delete: "wf_emitter s \<Longrightarrow> wf_emitter (delete_event e s)"
  by (auto simp: wf_emitter_def delete_event_def list_all_iff distinct_snd_delete distinct_delete
      dest: set_delete_mem)

lemma wf_atoms:
  "wf_rel s (set_items a hs s)" "wf_rel s (set_warned a s)" "wf_rel s (warn e n s)"
  "wf_rel s (new_array e h s)" "wf_rel s (delete_event e s)" "wf_rel s (s\<lparr>events := []\<rparr>)"
  "wf_rel s (s\<lparr>next_wrapper := i\<rparr>)" "wf_rel s (s\<lparr>maxListeners := m\<rparr>)" "wf_rel s (s\<lparr>rejections := rs\<rparr>)"
  "wf_rel s (s\<lparr>called := cs\<rparr>)"
  by (auto simp: wf_rel_def wf_new_array wf_delete)
     (auto simp: wf_emitter_def set_items_def set_warned_def warn_def)

lemma wf_rel_refl: "wf_rel s s"
  and wf_rel_trans: "wf_rel s t \<Longrightarrow> wf_rel t u \<Longrightarrow> wf_rel s u"
  by (simp_all add: wf_rel_def)

lemma wf_relation: "(\<And>h args. obeys wf_rel (c h args)) \<Longrightarrow> listener_relation wf_rel c"
  using wf_rel_refl wf_rel_trans by unfold_locales (blast intro: wf_atoms)+

lemma wf_call: "obeys wf_rel (call beh k h args)"
proof (induction k arbitrary: h args)
  case 0
  show ?case by (simp add: obeys_def throw_def wf_rel_def)
next
  case (Suc k)
  have "obeys wf_rel (record_call k h args)"
    by (simp add: obeys_def record_call_def update_def wf_atoms)
  then show ?case unfolding call.simps
    by (intro listener_relation.obeys_andThen [OF wf_relation [OF Suc]]
          listener_relation.handle_obeys [OF wf_relation [OF Suc]])
qed

interpretation wf: listener_relation wf_rel "call beh k" for beh k
  by (rule wf_relation [OF wf_call])

text \<open>
  After any sequence of operations, whatever the listeners they run do and wherever they throw
  or exhaust the stack, every event has one entry, no two events share a listener array, and every
  entry points to an array that exists.
\<close>

theorem emitter_wf:
  "wf_emitter (after beh k acts)"
proof -
  have "wf_emitter s \<Longrightarrow> wf_emitter (foldl (\<lambda>s a. snd (perform (call beh k) a s)) s acts)" for s
  proof (induction acts arbitrary: s)
    case (Cons a acts)
    from wf.perform_obeys [of beh k a] Cons.prems have "wf_emitter (snd (perform (call beh k) a s))"
      by (simp add: obeys_def wf_rel_def)
    from Cons.IH [OF this] show ?case by simp
  qed simp
  then show ?thesis by (simp add: after_def wf_emitter_def new_emitter_def)
qed

section \<open>An emission calls the listeners it began with\<close>

text \<open>What is added to the history below a depth of the stack.\<close>

definition log_rel :: "nat \<Rightarrow> emitter \<Rightarrow> emitter \<Rightarrow> bool" where
  "log_rel k s t \<longleftrightarrow> (\<exists>new. called t = called s @ new \<and> list_all (\<lambda>(d, h, args). d < k) new)"

lemma log_rel_same: "called t = called s \<Longrightarrow> log_rel k s t"
  by (simp add: log_rel_def)

lemma log_rel_trans: "log_rel k s t \<Longrightarrow> log_rel k t u \<Longrightarrow> log_rel k s u"
  by (auto simp: log_rel_def)

lemma log_rel_Suc: "log_rel k s t \<Longrightarrow> log_rel (Suc k) s t"
  unfolding log_rel_def by (fastforce simp: list_all_iff)

lemma log_relation: "(\<And>h args. obeys (log_rel k) (c h args)) \<Longrightarrow> listener_relation (log_rel k) c"
  using log_rel_trans
  by unfold_locales
     (blast | rule log_rel_same, simp add: set_items_def set_warned_def warn_def new_array_def delete_event_def)+

lemma log_call: "obeys (log_rel k) (call beh k h args)"
proof (induction k arbitrary: h args)
  case 0
  show ?case by (simp add: obeys_def throw_def log_rel_def)
next
  case (Suc k)
  have up: "obeys (log_rel (Suc k)) (call beh k h args)" for h args
    using Suc by (simp add: obeys_def log_rel_Suc)
  have "obeys (log_rel (Suc k)) (record_call k h args)"
    by (simp add: obeys_def record_call_def update_def log_rel_def)
  then show ?case unfolding call.simps
    by (intro listener_relation.obeys_andThen [OF log_relation [OF up]]
          listener_relation.handle_obeys [OF log_relation [OF up]])
qed

interpretation log: listener_relation "log_rel k" "call beh k" for k beh
  by (rule log_relation [OF log_call])

lemma call_log:
  assumes "call beh (Suc k) h args s = (r, t)"
  shows "\<exists>new. called t = called s @ (k, h, args) # new \<and> list_all (\<lambda>(d, h, args). d < k) new"
proof -
  from assms have "handle beh (call beh k) h args (s\<lparr>called := called s @ [(k, h, args)]\<rparr>) = (r, t)"
    by (simp add: call.simps andThen_def record_call_def update_def)
  from obeysD [OF log.handle_obeys this] show ?thesis by (auto simp: log_rel_def)
qed

definition at_depth :: "nat \<Rightarrow> (nat \<times> handler \<times> val list) list \<Rightarrow> (nat \<times> handler \<times> val list) list" where
  "at_depth k l = filter (\<lambda>(d, h, args). d = k) l"

definition direct_calls :: "nat \<Rightarrow> emitter \<Rightarrow> emitter \<Rightarrow> (nat \<times> handler \<times> val list) list" where
  "direct_calls k s t = at_depth k (drop (length (called s)) (called t))"

lemma at_depth_below: "list_all (\<lambda>(d, h, args). d < k) l \<Longrightarrow> at_depth k l = []"
  by (auto simp: at_depth_def list_all_iff filter_empty_conv)

lemma each_calls:
  assumes "\<And>r s. called (snd (f r s)) = called s"
    and "each (\<lambda>h. andThen (call beh (Suc k) h args) f) hs s = (r, t)"
  shows "\<exists>new hs'. called t = called s @ new \<and> at_depth k new = map (\<lambda>h. (k, h, args)) hs'
           \<and> prefix hs' hs \<and> (r = Inr () \<longrightarrow> hs' = hs)"
  using assms(2)
proof (induction hs arbitrary: s)
  case Nil
  then show ?case by (auto simp: return_def at_depth_def)
next
  case (Cons h hs)
  obtain q u where q: "call beh (Suc k) h args s = (q, u)" by (cases "call beh (Suc k) h args s")
  from call_log [OF q] obtain new where new: "called u = called s @ (k, h, args) # new"
      "at_depth k new = []" by (auto simp: at_depth_below)
  have one: ?case if "called t = called u" "r \<noteq> Inr ()"
    using that new by (intro exI [of _ "(k, h, args) # new"] exI [of _ "[h]"]) (auto simp: at_depth_def)
  show ?case
  proof (cases q)
    case (Inl v)
    with Cons.prems q have "r = Inl v" "t = u" by (simp_all add: andThen_eqs)
    then show ?thesis using one by simp
  next
    case (Inr x)
    obtain p w where p: "f x u = (p, w)" by (cases "f x u")
    have w: "called w = called u" using assms(1) [of x u] p by simp
    show ?thesis
    proof (cases p)
      case (Inl v)
      with Cons.prems q Inr p have "r = Inl v" "t = w" by (simp_all add: andThen_eqs)
      then show ?thesis using one w by simp
    next
      case Inr': (Inr y)
      with Cons.prems q Inr p have "each (\<lambda>h. andThen (call beh (Suc k) h args) f) hs w = (r, t)"
        by (simp add: andThen_eqs)
      from Cons.IH [OF this] obtain new' hs' where "called t = called w @ new'"
          "at_depth k new' = map (\<lambda>h. (k, h, args)) hs'" "prefix hs' hs" "r = Inr () \<longrightarrow> hs' = hs" by blast
      with new w show ?thesis
        by (intro exI [of _ "(k, h, args) # new @ new'"] exI [of _ "h # hs'"]) (auto simp: at_depth_def)
    qed
  qed
qed

lemma note_result_called: "called (snd (note_result e args r s)) = called s"
  by (cases r) (auto simp: note_result_def return_def update_def)


section \<open>An undisturbed emission\<close>

text \<open>
  When the functions called leave the emitter alone, every listener is called once, in order, a
  wrapper calls what it wraps, and afterwards the wrappers are gone and the others are still there.
\<close>

definition quiet :: "behaviour \<Rightarrow> bool" where
  "quiet beh \<longleftrightarrow> (\<forall>n args s. fst (beh n args s) = [])"

definition is_once :: "handler \<Rightarrow> bool" where
  "is_once h \<longleftrightarrow> listener_of h \<noteq> None"

fun plain_or_once :: "ev \<Rightarrow> handler \<Rightarrow> bool" where
  "plain_or_once e (Fn n) = True"
| "plain_or_once e (Once i e' g) = (e' = e \<and> listener_of g = None)"

fun calls_of :: "nat \<Rightarrow> val list \<Rightarrow> handler \<Rightarrow> (nat \<times> handler \<times> val list) list" where
  "calls_of k args (Fn n) = [(Suc k, Fn n, args)]"
| "calls_of k args (Once i e g) = [(Suc k, Once i e g, args), (k, g, args)]"

definition logged :: "(nat \<times> handler \<times> val list) list \<Rightarrow> emitter \<Rightarrow> emitter" where
  "logged l s = s\<lparr>called := called s @ l\<rparr>"

lemma logged_simps [simp]:
  "address (logged l s) e = address s e" "items (logged l s) a = items s a"
  "has_event (logged l s) n = has_event s n" "called (logged l s) = called s @ l"
  "arrays (logged l s) = arrays s" "listeners_now (logged l s) e = listeners_now s e"
  by (simp_all add: logged_def address_def items_def has_event_def listeners_now_def split: option.split)

lemma quiet_call:
  assumes "quiet beh"
  shows "call beh (Suc k) (Fn n) args s
     = (Inr (snd (beh n args (logged [(k, Fn n, args)] s))), logged [(k, Fn n, args)] s)"
  using assms by (simp add: quiet_def call.simps handle_def andThen_def record_call_def update_def
      reading_def return_def logged_def)

lemma last_match_unique:
  "\<forall>y \<in> set ps \<union> set qs. \<not> p y \<Longrightarrow> p x \<Longrightarrow> last_match p (ps @ x # qs) = Some (length ps)"
proof (induction ps)
  case Nil
  then have "last_match p qs = None"
    by (induction qs) auto
  with Nil show ?case by simp
qed simp

lemma items_set_items [simp]: "a < length (arrays s) \<Longrightarrow> items (set_items a hs s) a = hs"
  by (simp add: items_def set_items_def)

lemma remove_only:
  assumes "address s e = Some a" "a < length (arrays s)" "items s a = ps @ h # hs"
    and "\<not> has_event s ''removeListener''"
    and "\<forall>y \<in> set ps \<union> set hs. \<not> is_listener (VFn h) y"
  defines "t \<equiv> set_items a (ps @ hs) s"
  shows "removeListener c e (VFn h) s = (Inr (), if ps @ hs = [] then delete_event e t else t)"
proof -
  have "last_match (is_listener (VFn h)) (items s a) = Some (length ps)"
    unfolding assms(3) by (rule last_match_unique [OF assms(5)]) (simp add: is_listener_def)
  moreover have "splice1 (length ps) (items s a) = ps @ hs" by (simp add: splice1_def assms(3))
  moreover have "\<not> has_event t ''removeListener''"
    using assms(4) by (simp add: t_def has_event_def address_def set_items_def)
  moreover have "items t a = ps @ hs" using assms(2) by (simp add: t_def)
  ultimately show ?thesis using assms(1)
    by (simp add: removeListener_def reading_def andThen_def update_def whenever_def return_def t_def [symmetric]
        del: append_is_Nil_conv)
qed

lemma after_removal:
  fixes hs :: "handler list"
  assumes "address s e = Some a" "a < length (arrays s)"
  defines "t \<equiv> set_items a hs s"
  defines "u \<equiv> (if hs = [] then delete_event e t else t)"
  shows "listeners_now u e = hs" "hs \<noteq> [] \<Longrightarrow> address u e = Some a"
    "length (arrays u) = length (arrays s)" "called u = called s"
    "\<not> has_event s n \<Longrightarrow> \<not> has_event u n"
  using assms(1,2)
  by (auto simp: u_def t_def listeners_now_def address_def delete_event_def set_items_def items_def has_event_def)

lemma once_call:
  assumes "quiet beh" "h = Once i e (Fn n)"
    and "list_all (plain_or_once e) hs" "distinct (filter is_once (h # hs))" "list_all (\<lambda>h. \<not> is_once h) ps"
    and "address s e = Some a" "items s a = ps @ h # hs" "a < length (arrays s)"
    and "\<not> has_event s ''removeListener''"
  shows "\<exists>u. call beh (Suc (Suc k)) h args s = (Inr Returned, u) \<and> listeners_now u e = ps @ hs
     \<and> (ps @ hs \<noteq> [] \<longrightarrow> address u e = Some a) \<and> length (arrays u) = length (arrays s)
     \<and> \<not> has_event u ''removeListener'' \<and> called u = called s @ calls_of k args h"
proof -
  define s1 where "s1 = logged [(Suc k, h, args)] s"
  define s2 where "s2 = (if ps @ hs = [] then delete_event e (set_items a (ps @ hs) s1) else set_items a (ps @ hs) s1)"
  define u where "u = logged [(k, Fn n, args)] s2"
  have only: "\<forall>y \<in> set ps \<union> set hs. \<not> is_listener (VFn h) y"
  proof
    fix y assume y: "y \<in> set ps \<union> set hs"
    show "\<not> is_listener (VFn h) y"
    proof (cases "is_once y")
      case False
      then show ?thesis using assms(2) by (auto simp: is_listener_def is_once_def)
    next
      case True
      with y assms(2,3,4,5) have "y \<noteq> h" "plain_or_once e y" by (auto simp: is_once_def list_all_iff)
      then show ?thesis using assms(2) by (cases y) (auto simp: is_listener_def)
    qed
  qed
  have rem: "removeListener c e (VFn h) s1 = (Inr (), s2)" for c
    unfolding s2_def using assms only by (intro remove_only) (auto simp: s1_def)
  have s2: "listeners_now s2 e = ps @ hs" "ps @ hs \<noteq> [] \<Longrightarrow> address s2 e = Some a"
    "length (arrays s2) = length (arrays s1)" "called s2 = called s1" "\<not> has_event s2 ''removeListener''"
    unfolding s2_def using after_removal [where s = s1 and e = e and a = a and hs = "ps @ hs"] assms
    by (auto simp: s1_def)
  have "call beh (Suc (Suc k)) h args s = (Inr Returned, u)"
    using rem quiet_call [OF assms(1), of k n args s2]
    by (simp add: call.simps(2) [of beh "Suc k"] andThen_def record_call_def update_def handle_def return_def
        assms(2) u_def s1_def [unfolded assms(2) logged_def])
  with s2 show ?thesis by (auto simp: u_def s1_def assms(2))
qed

lemma quiet_each:
  assumes "quiet beh" "list_all (plain_or_once e) hs" "distinct (filter is_once hs)"
    and "list_all (\<lambda>h. \<not> is_once h) ps"
    and "listeners_now s e = ps @ hs" "hs \<noteq> [] \<longrightarrow> address s e = Some a"
    and "a < length (arrays s)" "\<not> has_event s ''removeListener''"
  shows "\<exists>t. each (\<lambda>h. andThen (call beh (Suc (Suc k)) h args) (note_result e args)) hs s = (Inr (), t)
     \<and> listeners_now t e = ps @ filter (\<lambda>h. \<not> is_once h) hs
     \<and> called t = called s @ concat (map (calls_of k args) hs)"
  using assms(2-)
proof (induction hs arbitrary: s ps)
  case Nil
  then show ?case by (simp add: return_def)
next
  case (Cons h hs)
  note IH = Cons.IH
  have a: "address s e = Some a" "items s a = ps @ h # hs"
    using Cons.prems by (auto simp: listeners_now_def)
  have note_state: "\<exists>v. note_result e args r u = (Inr (), v) \<and> listeners_now v e = listeners_now u e
      \<and> address v e = address u e \<and> arrays v = arrays u \<and> called v = called u
      \<and> has_event v ''removeListener'' = has_event u ''removeListener''" for r u
    by (cases r) (auto simp: note_result_def return_def update_def listeners_now_def address_def items_def has_event_def
          split: option.split)
  show ?case
  proof (cases h)
    case (Fn n)
    define u where "u = logged [(Suc k, Fn n, args)] s"
    obtain r where r: "call beh (Suc (Suc k)) h args s = (Inr r, u)"
      using quiet_call [OF assms(1), of "Suc k" n args s] by (simp add: Fn u_def)
    from note_state [of r u] obtain v where v: "note_result e args r u = (Inr (), v)"
      "listeners_now v e = ps @ h # hs" "address v e = Some a" "a < length (arrays v)"
      "called v = called s @ [(Suc k, Fn n, args)]" "\<not> has_event v ''removeListener''"
      using Cons.prems a by (auto simp: u_def)
    from IH [of "ps @ [h]" v] v Cons.prems Fn
    obtain t where "each (\<lambda>h. andThen (call beh (Suc (Suc k)) h args) (note_result e args)) hs v = (Inr (), t)"
      "listeners_now t e = (ps @ [h]) @ filter (\<lambda>h. \<not> is_once h) hs"
      "called t = called v @ concat (map (calls_of k args) hs)" by (auto simp: is_once_def)
    with r v(1,5) Fn show ?thesis by (simp add: andThen_eqs is_once_def)
  next
    case (Once i e' g)
    with Cons.prems obtain n where "h = Once i e (Fn n)" by (cases g) auto
    then obtain u where r: "call beh (Suc (Suc k)) h args s = (Inr Returned, u)"
      and u: "listeners_now u e = ps @ hs" "ps @ hs \<noteq> [] \<longrightarrow> address u e = Some a"
        "length (arrays u) = length (arrays s)" "\<not> has_event u ''removeListener''"
        "called u = called s @ calls_of k args h"
      using once_call [OF assms(1), of h i e n hs ps s a] a Cons.prems by auto
    have "\<exists>t. each (\<lambda>h. andThen (call beh (Suc (Suc k)) h args) (note_result e args)) hs u = (Inr (), t)
       \<and> listeners_now t e = ps @ filter (\<lambda>h. \<not> is_once h) hs
       \<and> called t = called u @ concat (map (calls_of k args) hs)"
      using u Cons.prems by (intro IH) (auto split: if_splits)
    moreover have "note_result e args Returned u = (Inr (), u)" by (simp add: note_result_def return_def)
    ultimately show ?thesis using r u(5) by (auto simp: andThen_eqs is_once_def Once)
  qed
qed

text \<open>
  When the functions called leave the emitter alone, an emission calls every listener once in
  the order of registration, a \<open>once\<close> wrapper calls the function it wraps, and afterwards exactly
  the wrappers are gone.
\<close>

theorem once_fires_once:
  assumes "quiet beh" "e \<noteq> Name ''error''" "address s e = Some a" "a < length (arrays s)"
    and "list_all (plain_or_once e) (items s a)" "distinct (filter is_once (items s a))"
    and "\<not> has_event s ''removeListener''"
  shows "\<exists>t. emit_event (call beh (Suc (Suc k))) e args s = (Inr True, t)
     \<and> listeners_now t e = filter (\<lambda>h. \<not> is_once h) (listeners_now s e)
     \<and> called t = called s @ concat (map (calls_of k args) (listeners_now s e))"
proof -
  have "listeners_now s e = [] @ items s a" using assms(3) by (simp add: listeners_now_def)
  from quiet_each [OF assms(1,5,6) _ this _ assms(4,7), of k args] assms(3) obtain t where
    "each (\<lambda>h. andThen (call beh (Suc (Suc k)) h args) (note_result e args)) (items s a) s = (Inr (), t)"
    "listeners_now t e = filter (\<lambda>h. \<not> is_once h) (items s a)"
    "called t = called s @ concat (map (calls_of k args) (items s a))" by auto
  with assms(2,3) show ?thesis
    by (simp add: emit_event_def reading_def andThen_def return_def listeners_now_def)
qed

section \<open>Runs\<close>

definition idle :: behaviour where
  "idle n args s = ([], Returned)"

abbreviation go :: ev where "go \<equiv> Name ''go''"

lemma once_fires_once_witness:
  "\<exists>t. emit_event (call idle 2) go [] (after idle 3 [On go (VFn (Fn 0)), AddOnce go (VFn (Fn 1))]) = (Inr True, t)
     \<and> listeners_now t go = [Fn 0]"
proof -
  let ?s = "after idle 3 [On go (VFn (Fn 0)), AddOnce go (VFn (Fn 1))]"
  have s: "address ?s go = Some 0" "length (arrays ?s) = 1" "items ?s 0 = [Fn 0, Once 0 go (Fn 1)]"
    "\<not> has_event ?s ''removeListener''" by code_simp+
  then have n: "0 < length (arrays ?s)" by simp
  have "quiet idle" by (simp add: quiet_def idle_def)
  from once_fires_once [OF this _ s(1) n _ _ s(4), of 0 "[]"] s(1,3) show ?thesis
    by (auto simp: is_once_def listeners_now_def numeral_2_eq_2 simp del: length_greater_0_conv)
qed


text \<open>
  A listener that emits its own event again makes a \<open>once\<close> listener behind it fire twice: the outer
  emission still holds the wrapper in its copy, and the wrapper has no record that it has fired.
\<close>

definition echo_once :: behaviour where
  "echo_once n args s = (if n = 0 \<and> args = [] then [Emit go [VUndef]] else [], Returned)"

theorem once_fires_twice:
  "length (filter (\<lambda>(d, h, args). h = Fn 1)
     (called (after echo_once 9 [On go (VFn (Fn 0)), AddOnce go (VFn (Fn 1)), Emit go []]))) = 2"
  by code_simp

text \<open>
  A \<open>removeListener\<close> listener that removes once more and then registers loses what it registered:
  the outer call sees its own, detached array empty and deletes the event.
\<close>

definition reregister :: behaviour where
  "reregister n args s = (if n = 0 then [Off go VUndef, On go (VFn (Fn 2))] else [], Returned)"

theorem removal_drops_new_listener:
  "listeners_now (after reregister 9 [On (Name ''removeListener'') (VFn (Fn 0)), On go (VFn (Fn 1)), Off go (VFn (Fn 1))]) go
   = []"
  by code_simp

text \<open>\<open>removeAllListeners\<close> throws when a \<open>removeListener\<close> listener removes a listener as well.\<close>

definition remove_other :: behaviour where
  "remove_other n args s = (if n = 0 then [Off go (VFn (Fn 1))] else [], Returned)"

theorem remove_all_throws:
  "fst (perform (call remove_other 9) (RemoveAllOf go)
     (after remove_other 9 [On (Name ''removeListener'') (VFn (Fn 0)), On go (VFn (Fn 1)), On go (VFn (Fn 2))]))
   = Inl type_error"
  by code_simp

text \<open>Removing \<open>undefined\<close> removes the last plain listener.\<close>

theorem remove_undefined_removes:
  "listeners_now (after idle 9 [On go (VFn (Fn 0)), On go (VFn (Fn 1)), Off go VUndef]) go = [Fn 0]"
  by code_simp

text \<open>The rejection of a \<open>once\<close> listener is not captured: its wrapper returns nothing.\<close>

definition rejecting :: behaviour where
  "rejecting n args s = ([], Rejecting (VErr ''x''))"

theorem once_rejection_lost:
  "rejections (snd (emit_event (call rejecting 9) go [] ((after rejecting 9 [AddOnce go (VFn (Fn 0))])\<lparr>captureRejections := True\<rparr>)))
   = []"
  by code_simp

end
