(* ===== verification/Event_Iterator.thy ===== *)
theory Event_Iterator
  imports Events
begin

text \<open>
  The asynchronous iterator that \<open>EventEmitter.on(emitter, event)\<close> returns
  (\<open>napi-bridge/eventemitter.js\<close>): events that nobody waits for are queued, calls of \<open>next\<close> that
  find no event wait. The promises \<open>next\<close> returns are numbered in the order of the calls, and
  \<open>settled\<close> is the history of how they were settled. On an iterator over \<open>error\<close> itself no
  error handler is attached, so that the operation \<open>Error\<close> does not occur. An abort signal's listener is the
  operation \<open>Abort\<close>.
\<close>

section \<open>State and operations\<close>

text \<open>
  A waiting promise is resolved through a function that wraps its argument as the value of an
  unfinished iteration; an argument that already is an iteration result is wrapped as well.
\<close>

datatype item = Arguments "val list" | DoneObject

datatype result = Value item | Finished | Rejected val

record iterator =
  unconsumedEvents :: "val list list"
  unconsumedPromises :: "nat list"
  it_error :: "val option"
  finished :: bool
  attached :: bool
  next_promise :: nat
  settled :: "(nat \<times> result) list"

definition new_iterator :: iterator where
  "new_iterator = \<lparr>unconsumedEvents = [], unconsumedPromises = [], it_error = None, finished = False,
     attached = True, next_promise = 0, settled = []\<rparr>"

definition settle_promise :: "nat \<Rightarrow> result \<Rightarrow> iterator \<Rightarrow> iterator" where
  "settle_promise p r s = s\<lparr>settled := settled s @ [(p, r)]\<rparr>"

definition eventHandler :: "val list \<Rightarrow> iterator \<Rightarrow> iterator" where
  "eventHandler args s =
     (case unconsumedPromises s of
        p # ps \<Rightarrow> settle_promise p (Value (Arguments args)) (s\<lparr>unconsumedPromises := ps\<rparr>)
      | [] \<Rightarrow> s\<lparr>unconsumedEvents := unconsumedEvents s @ [args]\<rparr>)"

definition errorHandler :: "val \<Rightarrow> iterator \<Rightarrow> iterator" where
  "errorHandler e s =
     (let t = s\<lparr>it_error := Some e\<rparr>
      in case unconsumedPromises t of
           p # ps \<Rightarrow> settle_promise p (Rejected e) (t\<lparr>unconsumedPromises := ps\<rparr>)
         | [] \<Rightarrow> t)"

definition abort_error :: val where
  "abort_error = VErr ''AbortError''"

definition abortHandler :: "iterator \<Rightarrow> iterator" where
  "abortHandler = errorHandler abort_error"

definition cleanup :: "iterator \<Rightarrow> iterator" where
  "cleanup s =
     (let t = s\<lparr>finished := True, attached := False\<rparr>
      in (foldl (\<lambda>u p. settle_promise p (Value DoneObject) u) t (unconsumedPromises t))\<lparr>unconsumedPromises := []\<rparr>)"

text \<open>A call of \<open>next\<close>, \<open>return\<close> or \<open>throw\<close> returns a promise of its own.\<close>

definition fresh :: "iterator \<Rightarrow> iterator" where
  "fresh s = s\<lparr>next_promise := Suc (next_promise s)\<rparr>"

definition it_next :: "iterator \<Rightarrow> iterator" where
  "it_next s =
     (let p = next_promise s; t = fresh s
      in case unconsumedEvents t of
           a # as \<Rightarrow> settle_promise p (Value (Arguments a)) (t\<lparr>unconsumedEvents := as\<rparr>)
         | [] \<Rightarrow>
             (case it_error t of
                Some e \<Rightarrow> settle_promise p (Rejected e) (t\<lparr>it_error := None\<rparr>)
              | None \<Rightarrow>
                  if finished t then settle_promise p Finished t
                  else t\<lparr>unconsumedPromises := unconsumedPromises t @ [p]\<rparr>))"

definition it_return :: "iterator \<Rightarrow> iterator" where
  "it_return s = settle_promise (next_promise s) Finished (cleanup (fresh s))"

definition it_throw :: "val \<Rightarrow> iterator \<Rightarrow> iterator" where
  "it_throw e s = settle_promise (next_promise s) Finished (cleanup (fresh s\<lparr>it_error := Some e\<rparr>))"

text \<open>The emitter's handlers are called as long as they are attached.\<close>

datatype it_op = Event "val list" | Error val | Abort | Next | Return | ThrowIn val

fun it_step :: "iterator \<Rightarrow> it_op \<Rightarrow> iterator" where
  "it_step s (Event args) = (if attached s then eventHandler args s else s)"
| "it_step s (Error e) = (if attached s then errorHandler e s else s)"
| "it_step s Abort = (if attached s then abortHandler s else s)"
| "it_step s Next = it_next s"
| "it_step s Return = it_return s"
| "it_step s (ThrowIn e) = it_throw e s"

definition it_run :: "it_op list \<Rightarrow> iterator" where
  "it_run ops = foldl it_step new_iterator ops"

section \<open>Nothing is lost, repeated or reordered\<close>

text \<open>The events delivered to the iterator, and those handed out.\<close>

definition delivered :: "it_op list \<Rightarrow> val list list" where
  "delivered ops = concat (map (\<lambda>x. case x of Event a \<Rightarrow> [a] | _ \<Rightarrow> []) ops)"

definition handed_out :: "iterator \<Rightarrow> val list list" where
  "handed_out s = concat (map (\<lambda>(p, r). case r of Value (Arguments a) \<Rightarrow> [a] | _ \<Rightarrow> []) (settled s))"

definition is_plain :: "it_op \<Rightarrow> bool" where
  "is_plain x = (case x of Event _ \<Rightarrow> True | Next \<Rightarrow> True | _ \<Rightarrow> False)"

lemma settle_promise_sel [simp]:
  "settled (settle_promise p r s) = settled s @ [(p, r)]"
  "unconsumedEvents (settle_promise p r s) = unconsumedEvents s"
  "unconsumedPromises (settle_promise p r s) = unconsumedPromises s"
  "it_error (settle_promise p r s) = it_error s" "finished (settle_promise p r s) = finished s"
  "attached (settle_promise p r s) = attached s" "next_promise (settle_promise p r s) = next_promise s"
  by (simp_all add: settle_promise_def)

text \<open>What holds while only events and calls of \<open>next\<close> occur.\<close>

definition it_inv :: "iterator \<Rightarrow> val list list \<Rightarrow> bool" where
  "it_inv s d \<longleftrightarrow> attached s \<and> it_error s = None \<and> \<not> finished s
     \<and> handed_out s @ unconsumedEvents s = d
     \<and> (unconsumedEvents s = [] \<or> unconsumedPromises s = [])
     \<and> map fst (settled s) @ unconsumedPromises s = [0..<next_promise s]"

lemma it_inv_event: "it_inv s d \<Longrightarrow> it_inv (eventHandler a s) (d @ [a])"
  by (auto simp: it_inv_def eventHandler_def handed_out_def split: list.split)

lemma it_inv_next: "it_inv s d \<Longrightarrow> it_inv (it_next s) d"
  by (auto simp: it_inv_def it_next_def handed_out_def Let_def fresh_def split: list.split option.split)

lemma it_inv_run:
  "it_inv s d \<Longrightarrow> list_all is_plain ops \<Longrightarrow> it_inv (foldl it_step s ops) (d @ delivered ops)"
proof (induction ops arbitrary: s d)
  case Nil
  then show ?case by (simp add: delivered_def)
next
  case (Cons x ops)
  show ?case
  proof (cases x)
    case (Event a)
    from Cons.prems(1) have "attached s" by (simp add: it_inv_def)
    with Cons.prems Event have "it_inv (it_step s x) (d @ [a])" by (simp add: it_inv_event)
    from Cons.IH [OF this] Cons.prems Event show ?thesis by (simp add: delivered_def)
  next
    case Next
    with Cons.prems have "it_inv (it_step s x) d" by (simp add: it_inv_next)
    from Cons.IH [OF this] Cons.prems Next show ?thesis by (simp add: delivered_def)
  qed (use Cons.prems in \<open>auto simp: is_plain_def\<close>)
qed

text \<open>
  While the emitter reports no error and the iterator is not closed, every event is handed out
  exactly once and in order: the events handed out followed by those queued are the events
  delivered, the promises are settled in the order of the calls of \<open>next\<close>, and an event is queued
  only when no call waits.
\<close>

theorem iterator_fifo:
  assumes "list_all is_plain ops"
  shows "handed_out (it_run ops) @ unconsumedEvents (it_run ops) = delivered ops
     \<and> map fst (settled (it_run ops)) @ unconsumedPromises (it_run ops) = [0..<next_promise (it_run ops)]
     \<and> (unconsumedEvents (it_run ops) = [] \<or> unconsumedPromises (it_run ops) = [])"
proof -
  have "it_inv new_iterator []" by (simp add: it_inv_def new_iterator_def handed_out_def)
  from it_inv_run [OF this assms] show ?thesis by (simp add: it_inv_def it_run_def)
qed

lemma iterator_fifo_witness:
  "handed_out (it_run [Event [VUndef], Next, Next, Event []]) = [[VUndef], []]"
proof -
  have "list_all is_plain [Event [VUndef], Next, Next, Event []]" by code_simp
  moreover have "unconsumedEvents (it_run [Event [VUndef], Next, Next, Event []]) = []" by code_simp
  ultimately show ?thesis
    using iterator_fifo [of "[Event [VUndef], Next, Next, Event []]"] by (simp add: delivered_def)
qed

section \<open>Errors and closing\<close>

text \<open>An error that rejects a waiting call of \<open>next\<close> is kept, and rejects the following call too.\<close>

theorem iterator_error_twice:
  "settled (it_run [Next, Error (VErr ''e''), Next]) = [(0, Rejected (VErr ''e'')), (1, Rejected (VErr ''e''))]"
  by code_simp

text \<open>Closing the iterator hands a waiting call one more event instead of the end of the iteration.\<close>

theorem iterator_return_hands_out_event:
  "settled (it_run [Next, Return]) = [(0, Value DoneObject), (1, Finished)]"
  by code_simp

end
