(* ===== verification/Spec2Isabelle.thy ===== *)
theory Spec2Isabelle
  imports Memfs_Properties Writable_Props Pipe Session_Props Tunnel Shell_Props Nano_Text Package_Resolve_Props Node_Path Node_Hash Http_Client_Props Http_Server_Props Napi_Props Node_Fs_Props Npm_Commands_Props Events_Props Event_Iterator
begin

text \<open>
  A verification development for the v9 browser runtime (\<open>napi-bridge/\<close>, \<open>cmd/\<close>).
\<close>

end
